(* ===== verification/Prelude.thy ===== *)
theory Prelude
  imports Complex_Main "HOL-Library.Char_ord" "HOL-Library.List_Lexorder"
    "HOL-Library.Product_Lexorder" "HOL-Library.Multiset"
begin

text \<open>
  Shared vocabulary of the development: the Python and SQL notions every component uses.

  \<^item> Money is counted in micro-dollars: every counter column of the budget tables is a
    \<open>NUMERIC(18, 6)\<close> (\<open>models/money.py\<close>, \<open>UsdCost\<close>), so an amount is an integral number of
    micro-dollars (\<open>usd\<close>). The pricing core computes with exact decimals, which are \<open>rat\<close>.
  \<^item> An instant is a number of microseconds since 0001-01-01T00:00Z (\<open>instant\<close>).
  \<^item> A database table is the list of its rows. \<open>UPDATE .. WHERE\<close> is \<open>update_where\<close>, the
    number of rows it matched is \<open>rowcount\<close>, \<open>SELECT .. WHERE .. LIMIT 1\<close> is \<open>find\<close>.
  \<^item> A Python exception is the left value of a sum type.
\<close>

section \<open>Collections of facts\<close>

named_theorems table_simps \<open>rewrite rules of the table operations\<close>
named_theorems clamp_simps \<open>rewrite rules of clamped subtraction\<close>

section \<open>Names of the model's basic types\<close>

type_synonym usd = int
type_synonym instant = int

section \<open>Results of fallible code\<close>

definition bind_result :: "'e + 'a \<Rightarrow> ('a \<Rightarrow> 'e + 'b) \<Rightarrow> 'e + 'b" where
  "bind_result r k = (case r of Inl e \<Rightarrow> Inl e | Inr x \<Rightarrow> k x)"

lemma bind_result_simps [simp]:
  "bind_result (Inl e) k = Inl e"
  "bind_result (Inr x) k = k x"
  by (simp_all add: bind_result_def)

lemma bind_result_Inr_iff:
  "bind_result r k = Inr y \<longleftrightarrow> (\<exists>x. r = Inr x \<and> k x = Inr y)"
  by (cases r) auto

text \<open>An \<open>append\<close> guarded by \<open>is not None\<close>.\<close>

fun opt_list :: "'a option \<Rightarrow> 'a list" where
  "opt_list None = []"
| "opt_list (Some x) = [x]"

lemma set_opt_list [simp]: "set (opt_list v) = set_option v"
  by (cases v) auto

section \<open>Clamped subtraction\<close>

text \<open>
  The release expressions of the budget counters are SQL \<open>CASE\<close> expressions, clamped at 0.
\<close>

definition release_clamped :: "int \<Rightarrow> int \<Rightarrow> int" where
  "release_clamped counter amount = (if counter - amount < 0 then 0 else counter - amount)"

lemma release_clamped_nonneg [simp]: "0 \<le> release_clamped c a"
  by (simp add: release_clamped_def)

lemma release_clamped_exact [clamp_simps]: "a \<le> c \<Longrightarrow> release_clamped c a = c - a"
  by (simp add: release_clamped_def)

lemma release_clamped_zero [simp]: "0 \<le> c \<Longrightarrow> release_clamped c 0 = c"
  by (simp add: release_clamped_def)

lemma release_clamped_add [simp]: "0 \<le> c \<Longrightarrow> release_clamped (c + a) a = c"
  by (simp add: release_clamped_def)

lemma release_clamped_ge: "c - a \<le> release_clamped c a"
  by (simp add: release_clamped_def)

lemma release_clamped_le: "0 \<le> a \<Longrightarrow> 0 \<le> c \<Longrightarrow> release_clamped c a \<le> c"
  by (simp add: release_clamped_def)

lemma release_clamped_mono: "c \<le> d \<Longrightarrow> release_clamped c a \<le> release_clamped d a"
  by (simp add: release_clamped_def)

section \<open>Tables\<close>

definition update_where :: "('r \<Rightarrow> bool) \<Rightarrow> ('r \<Rightarrow> 'r) \<Rightarrow> 'r list \<Rightarrow> 'r list" where
  "update_where p f rows = map (\<lambda>r. if p r then f r else r) rows"

definition rowcount :: "('r \<Rightarrow> bool) \<Rightarrow> 'r list \<Rightarrow> nat" where
  "rowcount p rows = length (filter p rows)"

lemma update_where_simps [simp, table_simps]:
  "update_where p f [] = []"
  "update_where p f (r # rs) = (if p r then f r else r) # update_where p f rs"
  by (simp_all add: update_where_def)

lemma rowcount_simps [simp, table_simps]:
  "rowcount p [] = 0"
  "rowcount p (r # rs) = (if p r then Suc (rowcount p rs) else rowcount p rs)"
  by (simp_all add: rowcount_def)

lemma length_update_where [simp]: "length (update_where p f rows) = length rows"
  by (simp add: update_where_def)

lemma set_update_where:
  "set (update_where p f rows) = {if p r then f r else r | r. r \<in> set rows}"
  by (auto simp: update_where_def)

lemma in_update_where_iff:
  "r' \<in> set (update_where p f rows) \<longleftrightarrow>
     (\<exists>r \<in> set rows. r' = (if p r then f r else r))"
  by (auto simp: update_where_def)

lemma update_where_id: "\<forall>r \<in> set rows. p r \<longrightarrow> f r = r \<Longrightarrow> update_where p f rows = rows"
  by (induction rows) auto

lemma update_where_none: "\<forall>r \<in> set rows. \<not> p r \<Longrightarrow> update_where p f rows = rows"
  by (induction rows) auto

lemma rowcount_zero_iff: "rowcount p rows = 0 \<longleftrightarrow> (\<forall>r \<in> set rows. \<not> p r)"
  by (auto simp: rowcount_def filter_empty_conv)

lemma rowcount_pos_iff: "0 < rowcount p rows \<longleftrightarrow> (\<exists>r \<in> set rows. p r)"
  using rowcount_zero_iff[of p rows] by auto

lemma update_where_cong:
  "(\<And>r. r \<in> set rows \<Longrightarrow> p r = q r) \<Longrightarrow> (\<And>r. r \<in> set rows \<Longrightarrow> q r \<Longrightarrow> f r = g r) \<Longrightarrow>
     update_where p f rows = update_where q g rows"
  by (induction rows) auto

lemma update_where_twice:
  assumes "\<And>r. r \<in> set rows \<Longrightarrow> p r \<Longrightarrow> q (f r)"
    and "\<And>r. r \<in> set rows \<Longrightarrow> \<not> p r \<Longrightarrow> \<not> q r"
  shows "update_where q g (update_where p f rows) = update_where p (g \<circ> f) rows"
  using assms by (induction rows) auto

lemma map_update_where:
  "(\<And>r. p r \<Longrightarrow> g (f r) = g r) \<Longrightarrow> map g (update_where p f rows) = map g rows"
  by (induction rows) auto

lemma find_update_where:
  assumes "\<And>r. q (f r) = q r"
  shows "find q (update_where p f rows) =
    map_option (\<lambda>r. if p r then f r else r) (find q rows)"
  using assms by (induction rows) auto

lemma find_key_some_iff:
  assumes "distinct (map key rows)"
  shows "find (\<lambda>r. key r = k) rows = Some r \<longleftrightarrow> r \<in> set rows \<and> key r = k"
  using assms by (induction rows) auto

lemma find_key_guarded:
  assumes "distinct (map key rows)" "r \<in> set rows" "p r"
  shows "find (\<lambda>x. key x = key r \<and> p x) rows = Some r"
  using assms by (induction rows) force+

lemma find_key_Some_D:
  "find p rows = Some r \<Longrightarrow> r \<in> set rows \<and> p r"
  by (induction rows) (auto split: if_splits)

lemma find_None_D: "find p rows = None \<Longrightarrow> r \<in> set rows \<Longrightarrow> \<not> p r"
  by (auto simp: find_None_iff)

lemma key_unique:
  "distinct (map key rows) \<Longrightarrow> r \<in> set rows \<Longrightarrow> s \<in> set rows \<Longrightarrow> key r = key s \<Longrightarrow> r = s"
  by (auto simp: distinct_map inj_on_def)

subsection \<open>Sums over a table\<close>

definition table_sum ::
  "('r \<Rightarrow> bool) \<Rightarrow> ('r \<Rightarrow> 'a :: ordered_ab_group_add) \<Rightarrow> 'r list \<Rightarrow> 'a" where
  "table_sum p f rows = sum_list (map f (filter p rows))"

lemma table_sum_simps [simp, table_simps]:
  "table_sum p f [] = 0"
  "table_sum p f (r # rs) = (if p r then f r else 0) + table_sum p f rs"
  by (simp_all add: table_sum_def)

lemma table_sum_append [simp]:
  "table_sum p f (xs @ ys) = table_sum p f xs + table_sum p f ys"
  by (simp add: table_sum_def)

lemma table_sum_nonneg: "(\<And>r. r \<in> set rows \<Longrightarrow> p r \<Longrightarrow> 0 \<le> f r) \<Longrightarrow> 0 \<le> table_sum p f rows"
  by (induction rows) (auto intro: add_nonneg_nonneg)

lemma table_sum_cong:
  "(\<And>r. r \<in> set rows \<Longrightarrow> p r = q r) \<Longrightarrow> (\<And>r. r \<in> set rows \<Longrightarrow> q r \<Longrightarrow> f r = g r) \<Longrightarrow>
     table_sum p f rows = table_sum q g rows"
  by (induction rows) auto

lemma table_sum_zero: "(\<And>r. r \<in> set rows \<Longrightarrow> p r \<Longrightarrow> f r = 0) \<Longrightarrow> table_sum p f rows = 0"
  by (induction rows) auto

lemma table_sum_member_le:
  assumes "r \<in> set rows" "p r" "\<And>r. r \<in> set rows \<Longrightarrow> p r \<Longrightarrow> 0 \<le> f r"
  shows "f r \<le> table_sum p f rows"
  using assms
proof (induction rows)
  case (Cons x rows)
  have rest: "0 \<le> table_sum p f rows"
    by (rule table_sum_nonneg) (use Cons.prems in auto)
  have first: "0 \<le> (if p x then f x else 0)"
    using Cons.prems(3)[of x] by auto
  show ?case
  proof (cases "r = x")
    case True
    then show ?thesis using rest Cons.prems(2) by simp
  next
    case False
    then have "f r \<le> table_sum p f rows" using Cons by auto
    then show ?thesis using first add_increasing by fastforce
  qed
qed simp

text \<open>An \<open>UPDATE\<close> by primary key changes a sum by what it changes of the one row.\<close>

lemma table_sum_update_key:
  assumes "distinct (map key rows)" "r \<in> set rows" "key r = k"
  shows "table_sum p f (update_where (\<lambda>r. key r = k) g rows) =
    table_sum p f rows - (if p r then f r else 0) + (if p (g r) then f (g r) else 0)"
  using assms
proof (induction rows)
  case (Cons x rows)
  show ?case
  proof (cases "x = r")
    case True
    then have "update_where (\<lambda>r. key r = k) g rows = rows"
      using Cons.prems by (intro update_where_none ballI) (auto simp: image_iff)
    then show ?thesis using True Cons.prems by simp
  next
    case False
    then have "key x \<noteq> k" using Cons.prems by auto
    then show ?thesis using False Cons by auto
  qed
qed simp

lemma table_sum_update_row:
  assumes "distinct (map key rows)" "r \<in> set rows" "q r" "\<And>x. q x \<Longrightarrow> key x = key r"
  shows "table_sum p f (update_where q g rows) =
    table_sum p f rows - (if p r then f r else 0) + (if p (g r) then f (g r) else 0)"
proof -
  have "update_where q g rows = update_where (\<lambda>x. key x = key r) g rows"
  proof (rule update_where_cong)
    fix x assume x: "x \<in> set rows"
    show "q x = (key x = key r)"
    proof
      assume "q x"
      then show "key x = key r" by (rule assms(4))
    next
      assume "key x = key r"
      then have "x = r" by (rule key_unique[OF assms(1) x assms(2)])
      then show "q x" using assms(3) by blast
    qed
  qed simp
  then show ?thesis using table_sum_update_key[OF assms(1,2) refl, where p = p and f = f and g = g] by simp
qed

lemma table_sum_split:
  "table_sum p f rows = table_sum (\<lambda>r. p r \<and> q r) f rows + table_sum (\<lambda>r. p r \<and> \<not> q r) f rows"
  by (induction rows) (auto simp: algebra_simps)

lemma table_sum_unique:
  assumes "distinct (map key rows)" "r \<in> set rows" "p r" "\<And>x. p x \<Longrightarrow> key x = key r"
  shows "table_sum p f rows = f r"
  using assms(1,2)
proof (induction rows)
  case (Cons x rows)
  show ?case
  proof (cases "x = r")
    case True
    have "key y \<noteq> key r" if "y \<in> set rows" for y
      using Cons.prems True that by (auto simp: image_iff)
    then have "table_sum p f rows = 0" using assms(4) by (intro table_sum_zero) blast
    then show ?thesis using True assms(3) by simp
  next
    case False
    have "table_sum p f rows = f r" using Cons False by auto
    moreover have "key x \<noteq> key r" using Cons.prems False by auto
    then have "\<not> p x" using assms(4) by blast
    ultimately show ?thesis by simp
  qed
qed simp

lemma table_sum_filter_out:
  "(\<And>r. r \<in> set rows \<Longrightarrow> d r \<Longrightarrow> \<not> p r) \<Longrightarrow>
     table_sum p f (filter (\<lambda>r. \<not> d r) rows) = table_sum p f rows"
  by (induction rows) auto

section \<open>Strings\<close>

fun ascii_lower_char :: "char \<Rightarrow> char" where
  "ascii_lower_char c =
     (let n = of_char c :: nat in if 65 \<le> n \<and> n \<le> 90 then char_of (n + 32) else c)"

definition ascii_lower :: "string \<Rightarrow> string" where
  "ascii_lower s = map ascii_lower_char s"

fun is_prefix :: "string \<Rightarrow> string \<Rightarrow> bool" where
  "is_prefix [] s = True"
| "is_prefix (p # ps) [] = False"
| "is_prefix (p # ps) (c # cs) = (p = c \<and> is_prefix ps cs)"

fun contains_substring :: "string \<Rightarrow> string \<Rightarrow> bool" where
  "contains_substring [] s = True"
| "contains_substring (p # ps) [] = False"
| "contains_substring (p # ps) (c # cs) =
     (is_prefix (p # ps) (c # cs) \<or> contains_substring (p # ps) cs)"

text \<open>Python's \<open>s.partition(sep)\<close> for a one-character separator: \<open>None\<close> when it is absent.\<close>

fun partition_at :: "char \<Rightarrow> string \<Rightarrow> (string \<times> string) option" where
  "partition_at sep [] = None"
| "partition_at sep (c # cs) =
     (if c = sep then Some ([], cs)
      else map_option (\<lambda>(a, b). (c # a, b)) (partition_at sep cs))"

lemma partition_at_join: "partition_at sep s = Some (a, b) \<Longrightarrow> s = a @ sep # b \<and> sep \<notin> set a"
  by (induction s arbitrary: a b) (auto split: if_splits)

fun digit_char :: "nat \<Rightarrow> char" where
  "digit_char d = char_of (48 + d)"

function decimal_digits :: "nat \<Rightarrow> string" where
  "decimal_digits n =
     (if n < 10 then [digit_char n] else decimal_digits (n div 10) @ [digit_char (n mod 10)])"
  by pat_completeness auto
termination by (relation "measure id") auto

declare decimal_digits.simps [simp del]

lemma decimal_digits_nonempty [simp]: "decimal_digits n \<noteq> []"
  by (subst decimal_digits.simps) simp

definition show_int :: "int \<Rightarrow> string" where
  "show_int i = (if i < 0 then CHR ''-'' # decimal_digits (nat (- i)) else decimal_digits (nat i))"

text \<open>What a string of decimal digits reads as.\<close>

definition digits_value :: "string \<Rightarrow> nat" where
  "digits_value s = foldl (\<lambda>a c. 10 * a + (of_char c - 48)) 0 s"

lemma digits_value_Nil [simp]: "digits_value [] = 0"
  by (simp add: digits_value_def)

lemma digits_value_snoc [simp]: "digits_value (s @ [c]) = 10 * digits_value s + (of_char c - 48)"
  by (simp add: digits_value_def)

lemma digits_value_decimal_digits [simp]: "digits_value (decimal_digits n) = n"
proof (induction n rule: decimal_digits.induct)
  case (1 n)
  show ?case
    using 1 by (subst decimal_digits.simps) (auto simp: digits_value_def)
qed

lemma digits_value_zeros: "digits_value (s @ replicate k (CHR ''0'')) = digits_value s * 10 ^ k"
proof (induction k)
  case (Suc k)
  have "s @ replicate (Suc k) (CHR ''0'') = (s @ replicate k (CHR ''0'')) @ [CHR ''0'']"
    by (simp add: replicate_append_same)
  then show ?case by (simp only: digits_value_snoc Suc) simp
qed simp

lemma digits_value_leading_zeros: "digits_value (replicate k (CHR ''0'') @ s) = digits_value s"
proof -
  have "foldl (\<lambda>a c. 10 * a + (of_char c - 48)) 0 (replicate k (CHR ''0'')) = (0 :: nat)"
    by (induction k) simp_all
  then show ?thesis by (simp add: digits_value_def)
qed

lemma length_decimal_digits: "n < 10 ^ k \<Longrightarrow> 0 < k \<Longrightarrow> length (decimal_digits n) \<le> k"
proof (induction n arbitrary: k rule: decimal_digits.induct)
  case (1 n)
  show ?case
  proof (cases "n < 10")
    case True
    then show ?thesis using 1 by (subst decimal_digits.simps) simp
  next
    case False
    have k: "1 < k"
    proof (rule ccontr)
      assume "\<not> 1 < k"
      then have "k = 1" using 1(3) by simp
      then show False using False 1(2) by simp
    qed
    have "n div 10 < 10 ^ (k - 1)"
      using 1(2,3) by (cases k) (auto simp: less_mult_imp_div_less mult.commute)
    then have "length (decimal_digits (n div 10)) \<le> k - 1" using 1(1)[OF False] k by simp
    then show ?thesis using False k by (subst decimal_digits.simps) auto
  qed
qed

lemma decimal_digits_chars: "c \<in> set (decimal_digits n) \<Longrightarrow> 48 \<le> (of_char c :: nat)"
proof (induction n rule: decimal_digits.induct)
  case (1 n)
  have d: "48 \<le> (of_char (digit_char d) :: nat)" if "d < 10" for d
    using that by simp
  show ?case
  proof (cases "n < 10")
    case True
    then show ?thesis using 1(2) d[of n] by (simp add: decimal_digits.simps[of n])
  next
    case False
    then show ?thesis
      using 1(1)[OF False] 1(2) d[of "n mod 10"] by (auto simp: decimal_digits.simps[of n])
  qed
qed

text \<open>\<open>s.rstrip("0")\<close> and \<open>s.ljust(n, "0")\<close>.\<close>

definition rstrip_zeros :: "string \<Rightarrow> string" where
  "rstrip_zeros s = rev (dropWhile (\<lambda>c. c = CHR ''0'') (rev s))"

definition ljust_zeros :: "nat \<Rightarrow> string \<Rightarrow> string" where
  "ljust_zeros n s = s @ replicate (n - length s) (CHR ''0'')"

lemma takeWhile_eq_replicate: "takeWhile (\<lambda>c. c = a) xs = replicate (length (takeWhile (\<lambda>c. c = a) xs)) a"
  by (induction xs) auto

lemma rstrip_zeros_split: "\<exists>k. s = rstrip_zeros s @ replicate k (CHR ''0'')"
proof -
  have "rev s = takeWhile (\<lambda>c. c = CHR ''0'') (rev s) @ dropWhile (\<lambda>c. c = CHR ''0'') (rev s)"
    by simp
  then have "s = rstrip_zeros s @ rev (takeWhile (\<lambda>c. c = CHR ''0'') (rev s))"
    unfolding rstrip_zeros_def by (metis rev_append rev_rev_ident)
  then show ?thesis by (metis rev_replicate takeWhile_eq_replicate)
qed

section \<open>Order of first occurrence\<close>

text \<open>\<open>list(dict.fromkeys(xs))\<close>.\<close>

fun fromkeys :: "'a list \<Rightarrow> 'a list" where
  "fromkeys [] = []"
| "fromkeys (x # xs) = x # filter (\<lambda>y. y \<noteq> x) (fromkeys xs)"

lemma set_fromkeys [simp]: "set (fromkeys xs) = set xs"
  by (induction xs) auto

lemma distinct_fromkeys [simp]: "distinct (fromkeys xs)"
  by (induction xs) auto

lemma fromkeys_id: "distinct xs \<Longrightarrow> fromkeys xs = xs"
  by (induction xs) (auto simp: filter_id_conv)

section \<open>Whitespace\<close>

text \<open>\<open>str.strip()\<close> on the characters below 256.\<close>

definition py_space :: "char \<Rightarrow> bool" where
  "py_space c = (let n = of_char c :: nat in (9 \<le> n \<and> n \<le> 13) \<or> (28 \<le> n \<and> n \<le> 32) \<or> n = 133 \<or> n = 160)"

definition py_strip :: "string \<Rightarrow> string" where
  "py_strip s = rev (dropWhile py_space (rev (dropWhile py_space s)))"

lemma dropWhile_last: "xs \<noteq> [] \<Longrightarrow> \<not> p (last xs) \<Longrightarrow> dropWhile p xs \<noteq> [] \<and> last (dropWhile p xs) = last xs"
  by (induction xs) auto

lemma py_strip_ends:
  assumes "py_strip s \<noteq> []"
  shows "\<not> py_space (hd (py_strip s))" "\<not> py_space (last (py_strip s))"
proof -
  let ?t = "dropWhile py_space s"
  have u: "dropWhile py_space (rev ?t) \<noteq> []" using assms by (auto simp: py_strip_def)
  then have t: "?t \<noteq> []" by (metis dropWhile.simps(1) rev.simps(1))
  show "\<not> py_space (last (py_strip s))"
    using hd_dropWhile[OF u] u by (simp add: py_strip_def last_rev)
  have "\<not> py_space (last (rev ?t))" using hd_dropWhile[OF t] t by (simp add: last_rev)
  then have "last (dropWhile py_space (rev ?t)) = hd ?t"
    using dropWhile_last[of "rev ?t" py_space] t by (simp add: last_rev)
  then show "\<not> py_space (hd (py_strip s))"
    using hd_dropWhile[OF t] u by (simp add: py_strip_def hd_rev)
qed

lemma py_strip_id: "s = [] \<or> (\<not> py_space (hd s) \<and> \<not> py_space (last s)) \<Longrightarrow> py_strip s = s"
proof (cases s rule: rev_cases)
  case (snoc ys y)
  assume "s = [] \<or> (\<not> py_space (hd s) \<and> \<not> py_space (last s))"
  then have h: "\<not> py_space (hd s)" "\<not> py_space y" using snoc by auto
  have "dropWhile py_space s = s" using h(1) by (simp add: dropWhile_eq_self_iff)
  then show ?thesis using h(2) snoc by (simp add: py_strip_def)
qed (simp add: py_strip_def)

lemma py_strip_twice [simp]: "py_strip (py_strip s) = py_strip s"
  using py_strip_ends[of s] by (intro py_strip_id) auto

section \<open>Thousands separators\<close>

text \<open>\<open>f"{n:,}"\<close>.\<close>

fun commas_rev :: "string \<Rightarrow> string" where
  "commas_rev (a # b # c # d # ds) = a # b # c # CHR '','' # commas_rev (d # ds)"
| "commas_rev ds = ds"

definition show_thousands :: "int \<Rightarrow> string" where
  "show_thousands i = (if i < 0 then CHR ''-'' # rev (commas_rev (rev (decimal_digits (nat (- i)))))
     else rev (commas_rev (rev (decimal_digits (nat i)))))"

section \<open>Quoting\<close>

text \<open>\<open>repr\<close> of a string whose characters are below 256.\<close>

fun hex_digit :: "nat \<Rightarrow> char" where
  "hex_digit d = (if d < 10 then char_of (48 + d) else char_of (87 + d))"

definition repr_char :: "char \<Rightarrow> char \<Rightarrow> string" where
  "repr_char q c = (let n = of_char c :: nat in
     if c = q \<or> n = 92 then [CHR 0x5C, c]
     else if n = 10 then [CHR 0x5C, CHR ''n'']
     else if n = 13 then [CHR 0x5C, CHR ''r'']
     else if n = 9 then [CHR 0x5C, CHR ''t'']
     else if n < 32 \<or> (127 \<le> n \<and> n \<le> 160) \<or> n = 173
     then [CHR 0x5C, CHR ''x'', hex_digit (n div 16), hex_digit (n mod 16)]
     else [c])"

definition py_repr :: "string \<Rightarrow> string" where
  "py_repr s = (let q = (if CHR 0x27 \<in> set s \<and> CHR 0x22 \<notin> set s then CHR 0x22 else CHR 0x27)
     in q # concat (map (repr_char q) s) @ [q])"

text \<open>A string in single quotes, as the messages quote names.\<close>

definition quoted :: "string \<Rightarrow> string" where
  "quoted s = CHR 0x27 # s @ [CHR 0x27]"

lemma is_prefix_iff: "is_prefix p s \<longleftrightarrow> (\<exists>rest. s = p @ rest)"
  by (induction p s rule: is_prefix.induct) auto

lemma is_prefix_trans: "is_prefix p q \<Longrightarrow> is_prefix q s \<Longrightarrow> is_prefix p s"
  by (auto simp: is_prefix_iff)

lemma is_prefix_Nil_right [simp]: "is_prefix p [] \<longleftrightarrow> p = []"
  by (cases p) auto

fun join_with :: "string \<Rightarrow> string list \<Rightarrow> string" where
  "join_with sep [] = []"
| "join_with sep [x] = x"
| "join_with sep (x # y # xs) = x @ sep @ join_with sep (y # xs)"

text \<open>\<open>s.split(sep)\<close> for a one-character separator.\<close>

fun split_on :: "char \<Rightarrow> string \<Rightarrow> string list" where
  "split_on sep [] = [[]]"
| "split_on sep (c # cs) = (if c = sep then [] # split_on sep cs
     else case split_on sep cs of p # ps \<Rightarrow> (c # p) # ps | [] \<Rightarrow> [[c]])"

lemma split_on_nonempty [simp]: "split_on sep s \<noteq> []"
  by (cases s) (auto split: list.splits)

lemma split_on_free: "sep \<notin> set s \<Longrightarrow> split_on sep s = [s]"
  by (induction s) auto

lemma split_on_pieces: "p \<in> set (split_on sep s) \<Longrightarrow> sep \<notin> set p"
  by (induction s arbitrary: p) (auto split: list.splits if_splits)

text \<open>The length of the UTF-8 encoding of characters below 256.\<close>

definition utf8_length :: "string \<Rightarrow> nat" where
  "utf8_length s = sum_list (map (\<lambda>c. if (of_char c :: nat) < 128 then 1 else 2) s)"

section \<open>Searching\<close>

text \<open>The first answer over a list.\<close>

fun first_some :: "('a \<Rightarrow> 'b option) \<Rightarrow> 'a list \<Rightarrow> 'b option" where
  "first_some f [] = None"
| "first_some f (x # xs) = (case f x of None \<Rightarrow> first_some f xs | Some y \<Rightarrow> Some y)"

lemma first_some_Some: "first_some f xs = Some y \<Longrightarrow> \<exists>x \<in> set xs. f x = Some y"
  by (induction xs) (auto split: option.splits)

lemma first_some_None: "first_some f xs = None \<longleftrightarrow> (\<forall>x \<in> set xs. f x = None)"
  by (induction xs) (auto split: option.splits)

definition ends_with :: "string \<Rightarrow> string \<Rightarrow> bool" where
  "ends_with s suffix \<longleftrightarrow> is_prefix (rev suffix) (rev s)"

text \<open>\<open>s.replace(old, "")\<close> for a non-empty \<open>old\<close>.\<close>

function remove_all :: "string \<Rightarrow> string \<Rightarrow> string" where
  "remove_all old s = (case s of
       [] \<Rightarrow> []
     | c # cs \<Rightarrow> if old \<noteq> [] \<and> is_prefix old s then remove_all old (drop (length old) s)
                else c # remove_all old cs)"
  by pat_completeness auto
termination
  by (relation "measure (\<lambda>(old, s). length s)") auto

declare remove_all.simps [simp del]

text \<open>\<open>str.isalpha\<close> of a character below 256.\<close>

definition py_alpha :: "char \<Rightarrow> bool" where
  "py_alpha c = (let n = of_char c :: nat in (65 \<le> n \<and> n \<le> 90) \<or> (97 \<le> n \<and> n \<le> 122)
     \<or> n \<in> {170, 181, 186} \<or> (192 \<le> n \<and> n \<noteq> 215 \<and> n \<noteq> 247))"

end
