(* ===== verification/Routing_Policy.thy ===== *)
theory Routing_Policy
  imports Prelude
begin

text \<open>
  Routing policies as documents: the schema of \<open>models/routing.py\<close> with its validators, and what a
  policy says of itself (its router, its pool, its default target).

  A record field is optional where the document may leave it out. Numbers are exact rationals; a
  weight that is infinite or not a number is \<open>Not_Finite\<close>. A refused document is the left value with
  the rule it breaks; the validators of a model run in their order after those of its parts.
\<close>

section \<open>Documents\<close>

record threshold =
  th_gte :: "rat option"
  th_gt :: "rat option"
  th_lte :: "rat option"
  th_lt :: "rat option"

datatype id_match = One_Id string | Id_List "string list"

record when_clause =
  wc_used_pct :: "threshold option"
  wc_remaining_usd :: "threshold option"
  wc_user_id :: "id_match option"
  wc_key_id :: "id_match option"

datatype weight = Finite rat | Not_Finite

record select_entry =
  se_when :: "when_clause option"
  se_target :: "string option"
  se_default :: "string option"
  se_router :: "string option"
  se_candidates :: "string list option"
  se_weights :: "(string \<times> weight) list option"

datatype guard_mode = Block | Monitor

record policy_guardrail =
  pg_profile :: string
  pg_mode :: guard_mode
  pg_on_unavailable :: guard_mode
  pg_url :: "string option"

record policy_spec =
  ps_select :: "select_entry list"
  ps_on_failure :: "string list"
  ps_guardrails :: "policy_guardrail list"

definition max_candidates :: nat where
  "max_candidates = 5"

definition weighted_backend :: string where
  "weighted_backend = ''weighted''"

definition priority_backend :: string where
  "priority_backend = ''priority''"

text \<open>\<open>name.strip().lower() == ..\<close>.\<close>

definition names_backend :: "string option \<Rightarrow> string \<Rightarrow> bool" where
  "names_backend name backend = (case name of None \<Rightarrow> False | Some n \<Rightarrow> ascii_lower (py_strip n) = backend)"

section \<open>Thresholds\<close>

datatype comparator = Gte | Gt | Lte | Lt

definition set_comparators :: "threshold \<Rightarrow> (comparator \<times> rat) list" where
  "set_comparators t = [(c, v). (c, value) \<leftarrow> [(Gte, th_gte t), (Gt, th_gt t), (Lte, th_lte t), (Lt, th_lt t)],
     v \<leftarrow> opt_list value]"

text \<open>\<open>Threshold.matches\<close>; the branch without a comparator is the \<open>AssertionError\<close> of \<open>comparator\<close>.\<close>

definition threshold_matches :: "threshold \<Rightarrow> rat \<Rightarrow> bool option" where
  "threshold_matches t observed = (case set_comparators t of
       [] \<Rightarrow> None
     | (c, v) # _ \<Rightarrow> Some (case c of
         Gte \<Rightarrow> observed \<ge> v | Gt \<Rightarrow> observed > v | Lte \<Rightarrow> observed \<le> v | Lt \<Rightarrow> observed < v))"

section \<open>What a policy says of itself\<close>

definition router_backend :: "policy_spec \<Rightarrow> string option" where
  "router_backend spec = first_some se_router (ps_select spec)"

text \<open>\<open>default_target\<close>; \<open>None\<close> is its \<open>AssertionError\<close>.\<close>

definition default_target :: "policy_spec \<Rightarrow> string option" where
  "default_target spec = first_some se_default (ps_select spec)"

text \<open>The weights, and the pool, of an entry that names a router and has some.\<close>

definition entry_split :: "select_entry \<Rightarrow> (string \<times> weight) list option" where
  "entry_split e = (if se_router e = None then None
     else (case se_weights e of Some (w # ws) \<Rightarrow> Some (w # ws) | _ \<Rightarrow> None))"

definition entry_pool :: "select_entry \<Rightarrow> string list option" where
  "entry_pool e = (if se_router e = None then None
     else (case se_candidates e of Some (c # cs) \<Rightarrow> Some (c # cs) | _ \<Rightarrow> None))"

definition router_weights :: "policy_spec \<Rightarrow> (string \<times> weight) list" where
  "router_weights spec = (case first_some entry_split (ps_select spec) of None \<Rightarrow> [] | Some ws \<Rightarrow> ws)"

definition router_candidates :: "policy_spec \<Rightarrow> string list" where
  "router_candidates spec = (case first_some entry_pool (ps_select spec) of
     None \<Rightarrow> []
   | Some pool \<Rightarrow> pool @ filter (\<lambda>d. d \<notin> set pool) (opt_list (default_target spec)))"

definition is_dynamic :: "policy_spec \<Rightarrow> bool" where
  "is_dynamic spec \<longleftrightarrow> router_backend spec \<noteq> None \<or> list_ex (\<lambda>e. se_when e \<noteq> None) (ps_select spec)"

definition entry_selector :: "select_entry \<Rightarrow> string option" where
  "entry_selector e = (if se_target e \<noteq> None then se_target e else se_default e)"

definition entry_candidates :: "select_entry \<Rightarrow> string list" where
  "entry_candidates e = (case se_candidates e of None \<Rightarrow> [] | Some cs \<Rightarrow> cs)"

text \<open>\<open>static_selectors\<close>: appending what is not there yet is the order of first occurrence.\<close>

definition static_selectors :: "policy_spec \<Rightarrow> string list" where
  "static_selectors spec = fromkeys
     (concat (map (\<lambda>e. opt_list (entry_selector e) @ entry_candidates e) (ps_select spec)) @ ps_on_failure spec)"

definition clause_conditions :: "when_clause \<Rightarrow> string list" where
  "clause_conditions w =
     (if wc_used_pct w \<noteq> None then [''budget_used_pct''] else [])
     @ (if wc_remaining_usd w \<noteq> None then [''budget_remaining_usd''] else [])
     @ (if wc_user_id w \<noteq> None then [''user_id''] else [])
     @ (if wc_key_id w \<noteq> None then [''key_id''] else [])"

section \<open>Validation\<close>

datatype policy_error =
    Comparators nat
  | No_Condition
  | Threshold_Past_Cap
  | Destinations nat
  | Default_Conditional
  | Router_Conditional
  | Candidates_Without_Router
  | Candidates_Missing
  | Candidates_Too_Few
  | Candidate_Twice string
  | Weights_Without_Weighted
  | Weights_Missing
  | Bad_Weight string
  | Weights_All_Zero
  | Select_Empty
  | Defaults nat
  | Default_Not_Last
  | Too_Many_Candidates nat
  | Unknown_Weights "string list"

definition check :: "bool \<Rightarrow> 'e \<Rightarrow> 'e + unit" where
  "check ok e = (if ok then Inr () else Inl e)"

definition and_check :: "'e + unit \<Rightarrow> 'e + unit \<Rightarrow> 'e + unit" where
  "and_check a b = bind_result a (\<lambda>_. b)"

lemma check_Inr [simp]: "check ok e = Inr u \<longleftrightarrow> ok"
  by (simp add: check_def)

lemma and_check_Inr [simp]: "and_check a b = Inr u \<longleftrightarrow> a = Inr () \<and> b = Inr ()"
  by (simp add: and_check_def bind_result_Inr_iff)

fun check_all :: "('a \<Rightarrow> 'e + unit) \<Rightarrow> 'a list \<Rightarrow> 'e + unit" where
  "check_all f [] = Inr ()"
| "check_all f (x # xs) = and_check (f x) (check_all f xs)"

lemma check_all_Inr [simp]: "check_all f xs = Inr u \<longleftrightarrow> (\<forall>x \<in> set xs. f x = Inr ())"
  by (induction xs) auto

definition validate_threshold :: "threshold \<Rightarrow> policy_error + unit" where
  "validate_threshold t = check (length (set_comparators t) = 1) (Comparators (length (set_comparators t)))"

text \<open>An upward comparison of the used percentage at or past 100 can never match.\<close>

definition past_cap :: "threshold \<Rightarrow> bool" where
  "past_cap t = (case set_comparators t of
       (c, v) # _ \<Rightarrow> (c = Gte \<or> c = Gt) \<and> v \<ge> 100
     | [] \<Rightarrow> False)"

definition validate_when :: "when_clause \<Rightarrow> policy_error + unit" where
  "validate_when w =
     and_check (check_all validate_threshold (opt_list (wc_used_pct w) @ opt_list (wc_remaining_usd w)))
     (and_check (check (clause_conditions w \<noteq> []) No_Condition)
        (check (\<not> list_ex past_cap (opt_list (wc_used_pct w))) Threshold_Past_Cap))"

definition destinations :: "select_entry \<Rightarrow> nat" where
  "destinations e = length (opt_list (se_target e) @ opt_list (se_default e) @ opt_list (se_router e))"

fun first_repeat :: "string list \<Rightarrow> string list \<Rightarrow> string option" where
  "first_repeat seen [] = None"
| "first_repeat seen (x # xs) = (if x \<in> set seen then Some x else first_repeat (x # seen) xs)"

definition candidates_belong_to_routers :: "select_entry \<Rightarrow> policy_error + unit" where
  "candidates_belong_to_routers e =
     (if se_router e = None then check (se_candidates e = None) Candidates_Without_Router
      else and_check (check (entry_candidates e \<noteq> []) Candidates_Missing)
        (and_check (check (2 \<le> length (entry_candidates e)) Candidates_Too_Few)
          (case first_repeat [] (entry_candidates e) of
             None \<Rightarrow> Inr ()
           | Some c \<Rightarrow> Inl (Candidate_Twice c))))"

definition bad_weight :: "weight \<Rightarrow> bool" where
  "bad_weight w = (case w of Not_Finite \<Rightarrow> True | Finite v \<Rightarrow> v < 0)"

definition positive_weight :: "weight \<Rightarrow> bool" where
  "positive_weight w = (case w of Not_Finite \<Rightarrow> False | Finite v \<Rightarrow> v > 0)"

definition weights_belong_to_weighted :: "select_entry \<Rightarrow> policy_error + unit" where
  "weights_belong_to_weighted e =
     (if \<not> names_backend (se_router e) weighted_backend then check (se_weights e = None) Weights_Without_Weighted
      else (case se_weights e of
              None \<Rightarrow> Inl Weights_Missing
            | Some [] \<Rightarrow> Inl Weights_Missing
            | Some ws \<Rightarrow>
                (case find (\<lambda>(s, w). bad_weight w) ws of
                   Some (s, _) \<Rightarrow> Inl (Bad_Weight s)
                 | None \<Rightarrow> check (list_ex (\<lambda>(s, w). positive_weight w) ws) Weights_All_Zero)))"

definition validate_select_entry :: "select_entry \<Rightarrow> policy_error + unit" where
  "validate_select_entry e =
     and_check (check_all validate_when (opt_list (se_when e)))
     (and_check (check (destinations e = 1) (Destinations (destinations e)))
     (and_check (check (se_when e = None \<or> se_default e = None) Default_Conditional)
     (and_check (check (se_when e = None \<or> se_router e = None) Router_Conditional)
     (and_check (candidates_belong_to_routers e) (weights_belong_to_weighted e)))))"

definition is_default :: "select_entry \<Rightarrow> bool" where
  "is_default e \<longleftrightarrow> se_default e \<noteq> None"

definition routed_count :: "policy_spec \<Rightarrow> nat" where
  "routed_count spec = (if router_candidates spec \<noteq> [] then length (router_candidates spec) else 1)"

definition unknown_weights :: "policy_spec \<Rightarrow> string list" where
  "unknown_weights spec = filter (\<lambda>s. s \<notin> set (router_candidates spec)) (map fst (router_weights spec))"

definition validate_spec :: "policy_spec \<Rightarrow> policy_error + unit" where
  "validate_spec spec =
     (let entries = ps_select spec;
          defaults = length (filter is_default entries);
          candidates = routed_count spec + length (ps_on_failure spec)
      in and_check (check_all validate_select_entry entries)
         (and_check (check (entries \<noteq> []) Select_Empty)
         (and_check (check (defaults = 1) (Defaults defaults))
         (and_check (check (is_default (last entries)) Default_Not_Last)
         (and_check (check (candidates \<le> max_candidates) (Too_Many_Candidates candidates))
           (check (unknown_weights spec = []) (Unknown_Weights (unknown_weights spec))))))))"

section \<open>What validation establishes\<close>

lemma validate_specD:
  assumes "validate_spec spec = Inr ()"
  shows "\<forall>e \<in> set (ps_select spec). validate_select_entry e = Inr ()" "ps_select spec \<noteq> []"
    "length (filter is_default (ps_select spec)) = 1" "is_default (last (ps_select spec))"
    "routed_count spec + length (ps_on_failure spec) \<le> max_candidates" "unknown_weights spec = []"
  using assms by (simp_all add: validate_spec_def Let_def)

lemma first_repeat_None: "first_repeat seen xs = None \<longleftrightarrow> distinct xs \<and> set xs \<inter> set seen = {}"
  by (induction seen xs rule: first_repeat.induct) auto

lemma valid_default:
  assumes "validate_spec spec = Inr ()"
  obtains d where "default_target spec = Some d" "se_default (last (ps_select spec)) = Some d"
proof -
  let ?es = "ps_select spec"
  have last: "is_default (last ?es)" "?es \<noteq> []" and one: "length (filter is_default ?es) = 1"
    using validate_specD[OF assms] by auto
  have split: "?es = butlast ?es @ [last ?es]" using last(2) by simp
  have none: "\<not> is_default e" if "e \<in> set (butlast ?es)" for e
  proof -
    have "length (filter is_default (butlast ?es @ [last ?es])) = 1" using one split by simp
    then have "filter is_default (butlast ?es) = []" using last(1) by simp
    then show ?thesis using that by (auto simp: filter_empty_conv)
  qed
  have skip: "first_some se_default (xs @ [x]) = se_default x" if "\<forall>e \<in> set xs. se_default e = None" for xs x
    using that by (induction xs) (auto split: option.splits)
  have "first_some se_default (butlast ?es @ [last ?es]) = se_default (last ?es)"
    by (rule skip) (use none in \<open>auto simp: is_default_def\<close>)
  then have "default_target spec = se_default (last ?es)" using split by (simp add: default_target_def)
  then show thesis using that last(1) by (auto simp: is_default_def)
qed

lemma valid_entry:
  assumes "validate_select_entry e = Inr ()"
  shows "destinations e = 1" "se_when e \<noteq> None \<Longrightarrow> se_target e \<noteq> None"
    "se_router e \<noteq> None \<Longrightarrow> distinct (entry_candidates e) \<and> 2 \<le> length (entry_candidates e)"
proof -
  have parts: "destinations e = 1" "se_when e = None \<or> se_default e = None" "se_when e = None \<or> se_router e = None"
      "candidates_belong_to_routers e = Inr ()"
    using assms by (simp_all add: validate_select_entry_def)
  then show "destinations e = 1" by simp
  show "se_target e \<noteq> None" if "se_when e \<noteq> None"
    using parts(1-3) that by (cases "se_target e") (auto simp: destinations_def)
  show "distinct (entry_candidates e) \<and> 2 \<le> length (entry_candidates e)" if "se_router e \<noteq> None"
    using parts(4) that
    by (simp add: candidates_belong_to_routers_def first_repeat_None split: option.splits)
qed

lemma router_candidates_pool:
  assumes "validate_spec spec = Inr ()"
  shows "distinct (router_candidates spec)"
    and "router_candidates spec = [] \<or> the (default_target spec) \<in> set (router_candidates spec)"
    and "router_backend spec \<noteq> None \<Longrightarrow> router_candidates spec \<noteq> []"
proof -
  obtain d where d: "default_target spec = Some d" using valid_default[OF assms] by blast
  have entries: "\<And>e. e \<in> set (ps_select spec) \<Longrightarrow> validate_select_entry e = Inr ()"
    using validate_specD(1)[OF assms] by blast
  have pool: "distinct pool" "pool \<noteq> []" if "first_some entry_pool (ps_select spec) = Some pool" for pool
  proof -
    obtain e where e: "e \<in> set (ps_select spec)" "entry_pool e = Some pool"
      using first_some_Some[OF \<open>first_some entry_pool (ps_select spec) = Some pool\<close>] by blast
    then show "distinct pool" "pool \<noteq> []"
      using valid_entry(3)[OF entries[OF e(1)]]
      by (auto simp: entry_pool_def entry_candidates_def split: if_splits option.splits list.splits)
  qed
  then show "distinct (router_candidates spec)"
    by (auto simp: router_candidates_def d split: option.splits)
  show "router_candidates spec = [] \<or> the (default_target spec) \<in> set (router_candidates spec)"
    by (auto simp: router_candidates_def d split: option.splits)
  show "router_candidates spec \<noteq> []" if routed: "router_backend spec \<noteq> None"
  proof -
    obtain e where e: "e \<in> set (ps_select spec)" "se_router e \<noteq> None"
      using routed first_some_None[of se_router "ps_select spec"] by (metis router_backend_def)
    then have "entry_candidates e \<noteq> []" using valid_entry(3)[OF entries[OF e(1)]] by auto
    then have "entry_pool e \<noteq> None"
      using e(2) by (auto simp: entry_pool_def entry_candidates_def split: option.splits list.splits)
    then obtain p where "first_some entry_pool (ps_select spec) = Some p"
      using e(1) first_some_None[of entry_pool "ps_select spec"] by fastforce
    then show ?thesis using pool(2) by (simp add: router_candidates_def)
  qed
qed

end
