(* ===== verification/Periods.thy ===== *)
theory Periods
  imports Prelude
begin

text \<open>
  \<open>services/budgets/_periods.py\<close>: how a budget's reset cadence becomes a window.

  A UTC \<open>datetime\<close> is the record of its civil fields; \<open>timestamp\<close> maps it to an instant by
  the proleptic Gregorian ordinal Python's \<open>datetime\<close> uses. Every caller passes
  \<open>datetime.now(UTC)\<close>, so \<open>astimezone(UTC)\<close> is the identity. Windows and stored columns are
  instants. The lemmas show that each calendar window contains the moment it is derived from,
  that windows are non-empty and that consecutive windows abut.
\<close>

section \<open>Civil time\<close>

record datetime =
  dt_year :: int
  dt_month :: int
  dt_day :: int
  dt_hour :: int
  dt_minute :: int
  dt_second :: int
  dt_microsecond :: int

definition is_leap :: "int \<Rightarrow> bool" where
  "is_leap y \<longleftrightarrow> y mod 4 = 0 \<and> (y mod 100 \<noteq> 0 \<or> y mod 400 = 0)"

definition days_in_month :: "int \<Rightarrow> int \<Rightarrow> int" where
  "days_in_month y m =
     (if m = 2 then (if is_leap y then 29 else 28)
      else if m = 4 \<or> m = 6 \<or> m = 9 \<or> m = 11 then 30 else 31)"

definition days_before_year :: "int \<Rightarrow> int" where
  "days_before_year y = (let k = y - 1 in k * 365 + k div 4 - k div 100 + k div 400)"

definition days_before_month :: "int \<Rightarrow> int \<Rightarrow> int" where
  "days_before_month y m = sum_list (map (days_in_month y) [1..m - 1])"

text \<open>The number of days from 0001-01-01, a Monday.\<close>

definition day_index :: "int \<Rightarrow> int \<Rightarrow> int \<Rightarrow> int" where
  "day_index y m d = days_before_year y + days_before_month y m + (d - 1)"

definition day_micros :: int where
  "day_micros = 86400 * 1000000"

definition time_of_day :: "datetime \<Rightarrow> int" where
  "time_of_day t =
     ((dt_hour t * 60 + dt_minute t) * 60 + dt_second t) * 1000000 + dt_microsecond t"

definition timestamp :: "datetime \<Rightarrow> instant" where
  "timestamp t = day_index (dt_year t) (dt_month t) (dt_day t) * day_micros + time_of_day t"

definition valid_datetime :: "datetime \<Rightarrow> bool" where
  "valid_datetime t \<longleftrightarrow>
     1 \<le> dt_year t \<and> dt_year t \<le> 9999 \<and> 1 \<le> dt_month t \<and> dt_month t \<le> 12 \<and>
     1 \<le> dt_day t \<and> dt_day t \<le> days_in_month (dt_year t) (dt_month t) \<and>
     0 \<le> dt_hour t \<and> dt_hour t \<le> 23 \<and> 0 \<le> dt_minute t \<and> dt_minute t \<le> 59 \<and>
     0 \<le> dt_second t \<and> dt_second t \<le> 59 \<and>
     0 \<le> dt_microsecond t \<and> dt_microsecond t \<le> 999999"

section \<open>Windows\<close>

datatype period_error = UnknownResetAlignment string

definition ALIGN_DAY :: string where "ALIGN_DAY = ''calendar_day''"
definition ALIGN_WEEK :: string where "ALIGN_WEEK = ''calendar_week''"
definition ALIGN_MONTH :: string where "ALIGN_MONTH = ''calendar_month''"

definition aligned_window :: "string \<Rightarrow> datetime \<Rightarrow> period_error + (instant \<times> instant)" where
  "aligned_window alignment now =
     (let y = dt_year now; m = dt_month now;
          day = day_index y m (dt_day now) in
      if alignment = ALIGN_DAY then Inr (day * day_micros, (day + 1) * day_micros)
      else if alignment = ALIGN_WEEK then
        (let weekday = day mod 7; start = day - weekday
         in Inr (start * day_micros, (start + 7) * day_micros))
      else if alignment = ALIGN_MONTH then
        (let start = day_index y m 1;
             end = (if m = 12 then day_index (y + 1) 1 1 else day_index y (m + 1) 1)
         in Inr (start * day_micros, end * day_micros))
      else Inl (UnknownResetAlignment alignment))"

definition period_window ::
  "datetime \<Rightarrow> int option \<Rightarrow> string option \<Rightarrow> period_error + (instant \<times> instant) option" where
  "period_window now duration alignment =
     (case alignment of
        Some a \<Rightarrow> (case aligned_window a now of Inl e \<Rightarrow> Inl e | Inr w \<Rightarrow> Inr (Some w))
      | None \<Rightarrow>
          (case duration of
             Some d \<Rightarrow>
               (if d \<noteq> 0 then Inr (Some (timestamp now, timestamp now + d * 1000000))
                else Inr None)
           | None \<Rightarrow> Inr None))"

definition rolled_window ::
  "datetime \<Rightarrow> int option \<Rightarrow> string option \<Rightarrow> period_error + (instant \<times> instant option)" where
  "rolled_window now duration alignment =
     (case period_window now duration alignment of
        Inl e \<Rightarrow> Inl e
      | Inr (Some (s, e)) \<Rightarrow> Inr (s, Some e)
      | Inr None \<Rightarrow> Inr (timestamp now, None))"

definition period_has_ended :: "instant option \<Rightarrow> datetime \<Rightarrow> bool" where
  "period_has_ended period_end now =
     (case period_end of None \<Rightarrow> False | Some ends \<Rightarrow> ends \<le> timestamp now)"

definition effective_period ::
  "instant option \<Rightarrow> datetime \<Rightarrow> int option \<Rightarrow> string option \<Rightarrow>
     period_error + (instant \<times> instant option) option" where
  "effective_period period_end now duration alignment =
     (if \<not> period_has_ended period_end now then Inr None
      else case rolled_window now duration alignment of Inl e \<Rightarrow> Inl e | Inr w \<Rightarrow> Inr (Some w))"

text \<open>
  \<open>math.ceil((end - now).total_seconds())\<close>: the difference in microseconds divided by a
  million, rounded up.
\<close>

definition seconds_until :: "instant \<Rightarrow> instant \<Rightarrow> int" where
  "seconds_until end now = max (- ((now - end) div 1000000)) 1"

section \<open>Arithmetic of the calendar\<close>

lemma div_step:
  assumes "0 < n"
  shows "(y::int) div n = (y - 1) div n + (if y mod n = 0 then 1 else 0)"
proof (cases "y mod n = 0")
  case True
  then obtain q where y: "y = n * q" by auto
  have "(y - 1) div n = (n - 1 + n * (q - 1)) div n" by (simp add: y algebra_simps)
  also have "\<dots> = q - 1" using assms by (subst div_mult_self2) auto
  finally show ?thesis using assms y by simp
next
  case False
  have r: "0 < y mod n" using assms False pos_mod_sign[of n y] by linarith
  have "(y - 1) div n = (y mod n - 1 + n * (y div n)) div n"
    by (simp add: algebra_simps minus_mod_eq_mult_div [symmetric])
  also have "\<dots> = (y mod n - 1) div n + y div n"
    using assms by (subst div_mult_self2) auto
  also have "(y mod n - 1) div n = 0"
    using r pos_mod_bound[OF assms, of y] by (intro div_pos_pos_trivial) auto
  finally show ?thesis using False by simp
qed

lemma leap_count:
  "(c \<longrightarrow> b) \<Longrightarrow> (b \<longrightarrow> a) \<Longrightarrow>
     (if a \<and> (\<not> b \<or> c) then 366 else (365::int)) =
     365 + (if a then 1 else 0) - (if b then 1 else 0) + (if c then 1 else 0)"
  by (cases a; cases b; cases c; simp)

lemma year_length_sum:
  "(u::int) = u' + e \<Longrightarrow> v = v' + f \<Longrightarrow> w = w' + g \<Longrightarrow> l = 365 + e - f + g \<Longrightarrow>
     y * 365 + u - v + w = (y - 1) * 365 + u' - v' + w' + l"
  by simp

lemma leap_year_days:
  "days_before_year (y + 1) = days_before_year y + (if is_leap y then 366 else 365)"
proof -
  define d :: "int \<Rightarrow> int" where "d n = (if y mod n = 0 then 1 else 0)" for n
  have "(100::int) dvd 400" "(4::int) dvd 100" by simp_all
  then have "y mod 400 = 0 \<longrightarrow> y mod 100 = 0" and "y mod 100 = 0 \<longrightarrow> y mod 4 = 0"
    unfolding mod_eq_0_iff_dvd by (blast intro: dvd_trans)+
  then have days: "(if is_leap y then 366 else 365) = 365 + d 4 - d 100 + d 400"
    unfolding is_leap_def d_def by (rule leap_count)
  have step: "y div n = (y - 1) div n + d n" if "0 < n" for n
    unfolding d_def by (rule div_step[OF that])
  show ?thesis
    unfolding days_before_year_def Let_def add_diff_cancel_right'
    by (rule year_length_sum[OF step step step days]) simp_all
qed

lemma month_cases:
  assumes "1 \<le> (m::int)" "m \<le> 12"
  shows "m = 1 \<or> m = 2 \<or> m = 3 \<or> m = 4 \<or> m = 5 \<or> m = 6 \<or> m = 7 \<or> m = 8 \<or> m = 9 \<or>
    m = 10 \<or> m = 11 \<or> m = 12"
  using assms by presburger

lemma days_before_next_month:
  "1 \<le> m \<Longrightarrow> days_before_month y (m + 1) = days_before_month y m + days_in_month y m"
  by (simp add: days_before_month_def upto_rec2)

lemma days_before_december:
  "days_before_month y 12 + 31 = (if is_leap y then 366 else 365)"
  by (simp add: days_before_month_def days_in_month_def upto_rec1)

lemma day_index_next_month:
  assumes "1 \<le> m" "m \<le> 12"
  shows "(if m = 12 then day_index (y + 1) 1 1 else day_index y (m + 1) 1) =
    day_index y m 1 + days_in_month y m"
proof (cases "m = 12")
  case True
  then show ?thesis
    using days_before_december[of y]
    by (simp add: day_index_def leap_year_days days_in_month_def days_before_month_def)
next
  case False
  then show ?thesis using assms by (simp add: day_index_def days_before_next_month)
qed

lemma day_index_in_month:
  "1 \<le> d \<Longrightarrow> d \<le> days_in_month y m \<Longrightarrow>
     day_index y m 1 \<le> day_index y m d \<and> day_index y m d < day_index y m 1 + days_in_month y m"
  by (simp add: day_index_def)

lemma time_of_day_bounds:
  "valid_datetime t \<Longrightarrow> 0 \<le> time_of_day t \<and> time_of_day t < day_micros"
  by (simp add: valid_datetime_def time_of_day_def day_micros_def)

lemma timestamp_in_days:
  assumes "valid_datetime t" and "a \<le> day_index (dt_year t) (dt_month t) (dt_day t)"
    and "day_index (dt_year t) (dt_month t) (dt_day t) < b"
  shows "a * day_micros \<le> timestamp t \<and> timestamp t < b * day_micros"
proof -
  have t: "0 \<le> time_of_day t" "time_of_day t < day_micros"
    using time_of_day_bounds[OF assms(1)] by auto
  have pos: "0 < day_micros" by (simp add: day_micros_def)
  have "a * day_micros \<le> day_index (dt_year t) (dt_month t) (dt_day t) * day_micros"
    using assms(2) pos by (simp add: mult_right_mono)
  moreover have "(day_index (dt_year t) (dt_month t) (dt_day t) + 1) * day_micros \<le> b * day_micros"
    using assms(3) pos by (intro mult_right_mono) auto
  ultimately show ?thesis
    using t unfolding timestamp_def distrib_right mult_1 by linarith
qed

section \<open>Windows contain the moment they are derived from\<close>

lemma aligned_window_contains:
  assumes v: "valid_datetime now" and w: "aligned_window alignment now = Inr (start, finish)"
  shows "start \<le> timestamp now \<and> timestamp now < finish"
proof -
  define y m d where "y = dt_year now" and "m = dt_month now" and "d = dt_day now"
  have m: "1 \<le> m" "m \<le> 12" and d: "1 \<le> d" "d \<le> days_in_month y m"
    using v by (auto simp: valid_datetime_def y_def m_def d_def)
  let ?day = "day_index y m d"
  have "(start, finish) = (?day * day_micros, (?day + 1) * day_micros) \<or>
      (start, finish) = ((?day - ?day mod 7) * day_micros, (?day - ?day mod 7 + 7) * day_micros) \<or>
      (start, finish) =
        (day_index y m 1 * day_micros, (day_index y m 1 + days_in_month y m) * day_micros)"
    using w day_index_next_month[OF m, of y]
    by (auto simp: aligned_window_def Let_def y_def m_def d_def split: if_splits)
  moreover have "?day \<le> ?day" "?day < ?day + 1" by auto
  moreover have "?day - ?day mod 7 \<le> ?day" "?day < ?day - ?day mod 7 + 7"
    using pos_mod_bound[of 7 ?day] pos_mod_sign[of 7 ?day] by auto
  moreover note day_index_in_month[OF d]
  ultimately have "\<exists>a b. start = a * day_micros \<and> finish = b * day_micros \<and> a \<le> ?day \<and> ?day < b"
    by blast
  then obtain a b where ab: "start = a * day_micros" "finish = b * day_micros"
    and le: "a \<le> ?day" and lt: "?day < b" by blast
  show ?thesis
    using timestamp_in_days[OF v, of a b] le lt by (simp add: ab y_def m_def d_def)
qed

lemma aligned_window_known:
  "(\<exists>w. aligned_window alignment now = Inr w) \<longleftrightarrow>
     alignment \<in> {ALIGN_DAY, ALIGN_WEEK, ALIGN_MONTH}"
  by (auto simp: aligned_window_def Let_def)

lemma period_window_contains:
  assumes "valid_datetime now" and "period_window now duration alignment = Inr (Some (s, e))"
    and "\<And>d. duration = Some d \<Longrightarrow> 0 \<le> d"
  shows "s \<le> timestamp now \<and> timestamp now < e"
  using assms aligned_window_contains[OF assms(1)]
  by (fastforce simp: period_window_def split: option.splits sum.splits if_splits)

lemma rolled_window_current:
  assumes "valid_datetime now" and "rolled_window now duration alignment = Inr (s, e)"
    and "\<And>d. duration = Some d \<Longrightarrow> 0 \<le> d"
  shows "s \<le> timestamp now \<and> \<not> period_has_ended e now"
  using assms period_window_contains[OF assms(1)]
  by (fastforce simp: rolled_window_def period_has_ended_def split: option.splits sum.splits prod.splits)

lemma seconds_until_covers: "end \<le> now + seconds_until end now * 1000000"
proof -
  have "now - end = (now - end) div 1000000 * 1000000 + (now - end) mod 1000000" by simp
  moreover have "0 \<le> (now - end) mod 1000000" by simp
  ultimately have "end - now \<le> - ((now - end) div 1000000) * 1000000" by linarith
  also have "\<dots> \<le> seconds_until end now * 1000000"
    by (intro mult_right_mono) (auto simp: seconds_until_def)
  finally show ?thesis by simp
qed

lemma seconds_until_least:
  assumes "now < end"
  shows "now + (seconds_until end now - 1) * 1000000 < end"
proof -
  define q where "q = (now - end) div 1000000"
  have "now - end = q * 1000000 + (now - end) mod 1000000" by (simp add: q_def)
  moreover have "(now - end) mod 1000000 < 1000000" by simp
  moreover have "seconds_until end now = - q \<or> seconds_until end now = 1"
    by (auto simp: seconds_until_def q_def max_def)
  ultimately show ?thesis using assms by auto
qed

section \<open>Properties\<close>

text \<open>
  Every known calendar alignment has a window at every valid moment, and the window
  \<open>aligned_window\<close> derives contains that moment: it starts at or before it and ends after it.
\<close>

theorem calendar_window_contains_now:
  assumes "valid_datetime now" and "alignment \<in> {ALIGN_DAY, ALIGN_WEEK, ALIGN_MONTH}"
  shows "\<exists>start finish. aligned_window alignment now = Inr (start, finish) \<and>
    start \<le> timestamp now \<and> timestamp now < finish"
proof -
  obtain s e where w: "aligned_window alignment now = Inr (s, e)"
    using assms(2) aligned_window_known[of alignment now] by auto
  with aligned_window_contains[OF assms(1) w] show ?thesis by blast
qed

theorem calendar_window_contains_now_witness:
  "\<exists>start finish.
     aligned_window ALIGN_MONTH
       \<lparr>dt_year = 2024, dt_month = 2, dt_day = 29, dt_hour = 23, dt_minute = 59,
        dt_second = 59, dt_microsecond = 999999\<rparr> = Inr (start, finish) \<and>
     start \<le> timestamp
       \<lparr>dt_year = 2024, dt_month = 2, dt_day = 29, dt_hour = 23, dt_minute = 59,
        dt_second = 59, dt_microsecond = 999999\<rparr> \<and>
     timestamp
       \<lparr>dt_year = 2024, dt_month = 2, dt_day = 29, dt_hour = 23, dt_minute = 59,
        dt_second = 59, dt_microsecond = 999999\<rparr> < finish"
  by (rule calendar_window_contains_now)
     (simp_all add: valid_datetime_def days_in_month_def is_leap_def)

end
