(* ===== verification/Model_Access.thy ===== *)
theory Model_Access
  imports Periods
begin

text \<open>
  Who may use what: \<open>services/model_access.py\<close>. The allow-lists of models and of search and fetch
  tools, how a key's list is held to its user's, how a write of either is validated, the access
  rules of a workspace's MCP servers, and the refusals a caller is given.

  An allow-list is \<open>None\<close> (unrestricted) or the list of its entries; \<open>Some []\<close> denies everything. The
  deployment's configuration is a record of what these functions read of it.
\<close>

section \<open>Keys and entries\<close>

text \<open>\<open>s.partition(":")\<close> without its separator.\<close>

definition key_parts :: "string \<Rightarrow> string \<times> string" where
  "key_parts s = (case partition_at (CHR '':'') s of None \<Rightarrow> (s, []) | Some (a, b) \<Rightarrow> (a, b))"

definition ends_with_star :: "string \<Rightarrow> bool" where
  "ends_with_star s \<longleftrightarrow> s \<noteq> [] \<and> last s = CHR ''*''"

text \<open>\<open>split_selector\<close> (\<open>services/provider_kwargs.py\<close>).\<close>

definition split_selector :: "string \<Rightarrow> (string \<times> string) option" where
  "split_selector s =
     (let prefix = takeWhile (\<lambda>c. c \<noteq> CHR '':'' \<and> c \<noteq> CHR ''/'') s;
          rest = dropWhile (\<lambda>c. c \<noteq> CHR '':'' \<and> c \<noteq> CHR ''/'') s
      in case rest of
           [] \<Rightarrow> None
         | _ # remainder \<Rightarrow> if prefix = [] \<or> remainder = [] then None else Some (prefix, remainder))"

section \<open>Models\<close>

definition entry_matches :: "string \<Rightarrow> string \<Rightarrow> bool" where
  "entry_matches entry canonical_key =
     (case (key_parts entry, key_parts canonical_key) of ((entry_instance, entry_model), (key_instance, key_model)) \<Rightarrow>
        if entry_instance = [] \<or> key_instance = [] then False
        else if entry_instance \<noteq> key_instance then False
        else if entry_model = ''*'' then True
        else if ends_with_star entry_model then is_prefix (butlast entry_model) key_model
        else entry_model = key_model)"

definition is_model_allowed :: "string list option \<Rightarrow> string \<Rightarrow> bool" where
  "is_model_allowed allowlist canonical_key = (case allowlist of
       None \<Rightarrow> True
     | Some entries \<Rightarrow> list_ex (\<lambda>entry. entry_matches entry canonical_key) entries)"

text \<open>\<open>_covers\<close>.\<close>

definition candidate_covers :: "string \<Rightarrow> string \<Rightarrow> string \<Rightarrow> bool" where
  "candidate_covers inst child_prefix candidate = (case key_parts candidate of (c_inst, c_model) \<Rightarrow>
     c_inst = inst \<and> (c_model = ''*'' \<or> (ends_with_star c_model \<and> is_prefix (butlast c_model) child_prefix)))"

definition covers :: "string list \<Rightarrow> string \<Rightarrow> bool" where
  "covers parent entry = (case key_parts entry of (inst, model) \<Rightarrow>
     if \<not> ends_with_star model then is_model_allowed (Some parent) entry
     else list_ex (candidate_covers inst (butlast model)) parent)"

definition is_allowlist_subset ::
  "string list option \<Rightarrow> string list option \<Rightarrow> string list \<Rightarrow> bool" where
  "is_allowlist_subset child parent tool_keys = (case (child, parent) of
       (Some c, Some p) \<Rightarrow>
         list_all (\<lambda>entry. if entry \<in> set tool_keys then entry \<in> set p else covers p entry) c
     | _ \<Rightarrow> True)"

text \<open>
  \<open>effective_allowlist\<close>: the outer option is whether there is a key, or a user, at all.
\<close>

definition effective_allowlist ::
  "string list option option \<Rightarrow> string list option option \<Rightarrow> string list option" where
  "effective_allowlist api_key user = (case api_key of
       Some (Some key_list) \<Rightarrow> Some key_list
     | _ \<Rightarrow> (case user of Some (Some user_list) \<Rightarrow> Some user_list | _ \<Rightarrow> None))"

text \<open>
  \<open>resolve_request_allowlist\<close>: \<open>users\<close> is the table the inherited default is read from; a key is its
  own list and its user.
\<close>

definition resolve_request_allowlist ::
  "(string \<rightharpoonup> string list option) \<Rightarrow> (string list option \<times> string option) option \<Rightarrow> string list option" where
  "resolve_request_allowlist users api_key = (case api_key of
       None \<Rightarrow> effective_allowlist None None
     | Some (Some own, _) \<Rightarrow> effective_allowlist (Some (Some own)) None
     | Some (None, None) \<Rightarrow> None
     | Some (None, Some user_id) \<Rightarrow> (case users user_id of None \<Rightarrow> None | Some inherited \<Rightarrow> inherited))"

section \<open>Search and fetch tools\<close>

record access_config =
  ac_aliases :: "string list"
  ac_providers :: "string list"
  ac_decision_providers :: "string list"
  ac_known_providers :: "string list"
  ac_search_tools :: "(string \<times> string option \<times> bool) list"
  ac_fetch_tools :: "string list"

definition all_search_tools :: string where
  "all_search_tools = ''*''"

text \<open>\<open>entry.get("provider") or name\<close>; the third component is that the name breaks no name rule.\<close>

definition tool_provider :: "string \<times> string option \<times> bool \<Rightarrow> string" where
  "tool_provider t = (case t of (name, provider, _) \<Rightarrow>
     (case provider of None \<Rightarrow> name | Some p \<Rightarrow> if p = [] then name else p))"

definition search_tool_providers :: "access_config \<Rightarrow> string list" where
  "search_tool_providers cfg = map tool_provider (ac_search_tools cfg)"

definition legacy_search_tool_keys :: "access_config \<Rightarrow> string list" where
  "legacy_search_tool_keys cfg =
     map (\<lambda>t. tool_provider t @ '':'' @ fst t) (filter (\<lambda>(_, _, well_named). well_named) (ac_search_tools cfg))"

definition legacy_tool_grants :: "access_config \<Rightarrow> string list option \<Rightarrow> string list option" where
  "legacy_tool_grants cfg allowed_models = (case allowed_models of
       None \<Rightarrow> None
     | Some entries \<Rightarrow> Some (filter (\<lambda>name. name \<noteq> all_search_tools)
         (map (\<lambda>entry. snd (key_parts entry))
           (filter (\<lambda>entry. entry \<in> set (legacy_search_tool_keys cfg)) (fromkeys entries)))))"

definition effective_tool_allowlist ::
  "access_config \<Rightarrow> string list option \<Rightarrow> string list option \<Rightarrow> string list option \<Rightarrow> string list option
     \<Rightarrow> string list option" where
  "effective_tool_allowlist cfg key_tools key_models user_tools user_models =
     (if key_tools \<noteq> None then key_tools
      else if user_tools \<noteq> None then user_tools
      else (case key_models of
              None \<Rightarrow> legacy_tool_grants cfg user_models
            | Some _ \<Rightarrow>
                (let grants = (case legacy_tool_grants cfg key_models of None \<Rightarrow> [] | Some g \<Rightarrow> g)
                 in case legacy_tool_grants cfg user_models of
                      None \<Rightarrow> Some grants
                    | Some user_grants \<Rightarrow> Some (filter (\<lambda>name. name \<in> set user_grants) grants))))"

definition is_tool_allowed :: "string list option \<Rightarrow> string \<Rightarrow> bool" where
  "is_tool_allowed allowlist tool = (case allowlist of
       None \<Rightarrow> True
     | Some names \<Rightarrow> all_search_tools \<in> set names \<or> tool \<in> set names)"

definition is_tool_allowlist_subset :: "string list option \<Rightarrow> string list option \<Rightarrow> bool" where
  "is_tool_allowlist_subset child parent = (case (child, parent) of
       (Some c, Some p) \<Rightarrow> all_search_tools \<in> set p
         \<or> list_all (\<lambda>entry. entry \<noteq> all_search_tools \<and> entry \<in> set p) c
     | _ \<Rightarrow> True)"

definition tools_within_user ::
  "access_config \<Rightarrow> string list option \<Rightarrow> string list option \<Rightarrow> string list option \<Rightarrow> bool" where
  "tools_within_user cfg tools user_tools user_models =
     is_tool_allowlist_subset tools (effective_tool_allowlist cfg None None user_tools user_models)"

text \<open>\<open>validate_allowed_tools\<close>.\<close>

fun checked_tools :: "access_config \<Rightarrow> string list \<Rightarrow> string list \<Rightarrow> string + string list" where
  "checked_tools cfg names [] = Inr names"
| "checked_tools cfg names (entry # entries) =
     (let name = py_strip entry in
      if name \<noteq> all_search_tools \<and> name \<notin> set (map fst (ac_search_tools cfg)) \<and> name \<notin> set (ac_fetch_tools cfg)
      then Inl (quoted name @ '' is not a search or fetch tool; name a configured one, builtin_fetch, or ''
                @ quoted ''*'' @ '' for every tool'')
      else checked_tools cfg (if name \<in> set names then names else names @ [name]) entries)"

definition validate_allowed_tools ::
  "access_config \<Rightarrow> string list option \<Rightarrow> string + string list option" where
  "validate_allowed_tools cfg entries = (case entries of
       None \<Rightarrow> Inr None
     | Some es \<Rightarrow> bind_result (checked_tools cfg [] es) (\<lambda>names. Inr (Some names)))"

section \<open>MCP servers\<close>

definition mcp_read_preset :: string where
  "mcp_read_preset = ''@read''"

definition max_mcp_tool_patterns :: nat where
  "max_mcp_tool_patterns = 256"

definition max_mcp_tool_pattern_length :: nat where
  "max_mcp_tool_pattern_length = 256"

definition pattern_matches :: "string \<Rightarrow> string \<Rightarrow> bool" where
  "pattern_matches pattern tool \<longleftrightarrow> pattern \<noteq> mcp_read_preset
     \<and> (pattern = tool \<or> (ends_with_star pattern \<and> is_prefix (butlast pattern) tool))"

definition is_mcp_tool_allowed :: "string list \<Rightarrow> string \<Rightarrow> bool" where
  "is_mcp_tool_allowed patterns tool = list_ex (\<lambda>p. pattern_matches p tool) patterns"

definition expand_mcp_tool_patterns :: "string list \<Rightarrow> string list \<Rightarrow> string list" where
  "expand_mcp_tool_patterns patterns read_tools =
     (if mcp_read_preset \<notin> set patterns then patterns
      else let expanded = filter (\<lambda>p. p \<noteq> mcp_read_preset) patterns
           in expanded @ filter (\<lambda>name. name \<notin> set expanded) read_tools)"

text \<open>\<open>validate_mcp_tool_patterns\<close> and \<open>validate_mcp_read_tools\<close>, on a list of strings.\<close>

fun checked_patterns :: "string list \<Rightarrow> string list \<Rightarrow> string + string list" where
  "checked_patterns checked [] = Inr checked"
| "checked_patterns checked (pattern # patterns) =
     (let name = py_strip pattern in
      if name = [] then Inl ''tools entries must be non-empty strings''
      else if length name > max_mcp_tool_pattern_length then Inl ''tools entries are at most 256 characters''
      else if CHR ''*'' \<in> set (butlast name)
      then Inl (quoted name @ '' is not a tool pattern; '' @ quoted ''*'' @ '' may only end one, as in '' @ quoted ''get_*'')
      else if hd name = CHR ''@'' \<and> name \<noteq> mcp_read_preset
      then Inl (quoted name @ '' is not a tool pattern; the only preset is '' @ quoted mcp_read_preset)
      else checked_patterns (if name \<in> set checked then checked else checked @ [name]) patterns)"

definition validate_mcp_tool_patterns :: "string list \<Rightarrow> string + string list" where
  "validate_mcp_tool_patterns patterns =
     (if length patterns > max_mcp_tool_patterns then Inl ''tools holds at most 256 entries''
      else bind_result (checked_patterns [] patterns) (\<lambda>checked.
        Inr (if ''*'' \<in> set checked then [''*''] else checked)))"

fun checked_read_tools :: "string list \<Rightarrow> string list \<Rightarrow> string + string list" where
  "checked_read_tools checked [] = Inr checked"
| "checked_read_tools checked (name # names) =
     (let stripped = py_strip name in
      if stripped = [] then Inl ''read_tools entries must be non-empty strings''
      else if length stripped > max_mcp_tool_pattern_length then Inl ''read_tools entries are at most 256 characters''
      else if CHR ''*'' \<in> set name \<or> hd stripped = CHR ''@''
      then Inl (quoted name @ '' is not a tool name; read_tools names tools exactly'')
      else checked_read_tools (if stripped \<in> set checked then checked else checked @ [stripped]) names)"

definition validate_mcp_read_tools :: "string list \<Rightarrow> string + string list" where
  "validate_mcp_read_tools names =
     (if length names > max_mcp_tool_patterns then Inl ''read_tools holds at most 256 entries''
      else checked_read_tools [] names)"

datatype mcp_source = Source_Key | Source_User | Source_Everyone

record mcp_access =
  ma_unrestricted :: bool
  ma_key_grants :: "string \<rightharpoonup> string list"
  ma_user_grants :: "string \<rightharpoonup> string list"
  ma_request_servers_allowed :: bool

definition mcp_decide :: "mcp_access \<Rightarrow> string \<Rightarrow> string list \<Rightarrow> mcp_source \<times> string list" where
  "mcp_decide a server_id everyone_tools =
     (if ma_unrestricted a then (Source_Everyone, [''*''])
      else case ma_key_grants a server_id of
        Some tools \<Rightarrow> (Source_Key, tools)
      | None \<Rightarrow> (case ma_user_grants a server_id of
          Some tools \<Rightarrow> (Source_User, tools)
        | None \<Rightarrow> (Source_Everyone, everyone_tools)))"

definition patterns_for :: "mcp_access \<Rightarrow> string \<Rightarrow> string list \<Rightarrow> string list \<Rightarrow> string list" where
  "patterns_for a server_id everyone_tools read_tools =
     expand_mcp_tool_patterns (snd (mcp_decide a server_id everyone_tools)) read_tools"

definition may_declare_servers :: "mcp_access \<Rightarrow> bool" where
  "may_declare_servers a \<longleftrightarrow> ma_unrestricted a \<or> ma_request_servers_allowed a"

section \<open>Writing a model list\<close>

definition known_prefix :: "access_config \<Rightarrow> string \<Rightarrow> bool" where
  "known_prefix cfg prefix \<longleftrightarrow> prefix \<in> set (ac_providers cfg) \<or> prefix \<in> set (ac_decision_providers cfg)
     \<or> prefix \<in> set (ac_known_providers cfg)"

definition validate_entry :: "access_config \<Rightarrow> string \<Rightarrow> string + string" where
  "validate_entry cfg raw =
     (let entry = py_strip raw in
      if entry = [] then Inl ''an allowed_models entry cannot be empty''
      else if entry \<in> set (ac_aliases cfg)
      then Inl (quoted entry @ '' is an alias name; use its canonical instance:model target'')
      else case split_selector entry of
        None \<Rightarrow> Inl (quoted entry @ '' must be instance:model (e.g. openai:gpt-4o, openai:*, or openai:gpt-4*)'')
      | Some (prefix, model) \<Rightarrow>
          if CHR ''*'' \<in> set prefix
          then Inl (quoted entry @ '': wildcards are not allowed in the provider part'')
          else if CHR ''*'' \<in> set model \<and> (length (filter (\<lambda>c. c = CHR ''*'') model) > 1 \<or> \<not> ends_with_star model)
          then Inl (quoted entry @ '': only a single trailing '' @ quoted ''*'' @ '' is allowed (openai:* or openai:gpt-4*)'')
          else let canonical = prefix @ '':'' @ model in
            if known_prefix cfg prefix \<or> canonical \<in> set (legacy_search_tool_keys cfg) then Inr canonical
            else if prefix \<in> set (search_tool_providers cfg)
            then Inl (quoted entry @ '' grants no model, and allowed_models grants a search tool only by its exact ''
                      @ ''<provider>:<tool> key; name tools in allowed_tools'')
            else Inl (quoted entry @ '': unknown provider or instance '' @ quoted prefix))"

fun checked_models :: "access_config \<Rightarrow> string list \<Rightarrow> string list \<Rightarrow> string + string list" where
  "checked_models cfg canonical [] = Inr canonical"
| "checked_models cfg canonical (entry # entries) =
     bind_result (validate_entry cfg entry) (\<lambda>normalized.
       checked_models cfg (if normalized \<in> set canonical then canonical else canonical @ [normalized]) entries)"

definition validate_allowed_models ::
  "access_config \<Rightarrow> string list option \<Rightarrow> string + string list option" where
  "validate_allowed_models cfg entries = (case entries of
       None \<Rightarrow> Inr None
     | Some es \<Rightarrow> bind_result (checked_models cfg [] es) (\<lambda>canonical. Inr (Some canonical)))"

section \<open>Refusals\<close>

record model_refusal =
  mr_code :: string
  mr_status :: int
  mr_detail :: string

definition model_not_allowed_detail :: "string \<Rightarrow> string" where
  "model_not_allowed_detail model = ''Model '' @ quoted model @ '' is not permitted for this API key.''"

definition unresolvable_model_detail :: "string \<Rightarrow> string" where
  "unresolvable_model_detail selector = ''Unknown or unsupported model '' @ py_repr selector
     @ ''. Send a '' @ quoted ''provider:model'' @ '' selector, an alias, or a model id from the catalog (GET /api/v1/models).''"

definition quoted_names :: "string list \<Rightarrow> string" where
  "quoted_names names = join_with '', '' (map quoted names)"

definition model_not_serving_detail :: "string \<Rightarrow> string \<Rightarrow> string list \<Rightarrow> string" where
  "model_not_serving_detail model key_name served_as =
     ''Model '' @ quoted model @ '' is offered on provider key '' @ quoted key_name
     @ (if served_as = [] then [] else '' as '' @ quoted_names served_as)
     @ '' but not serving. Turn it on under Organization > Providers.''"

definition model_not_found_detail :: "string \<Rightarrow> string \<Rightarrow> string list \<Rightarrow> string" where
  "model_not_found_detail model key_name dated =
     ''Provider key '' @ quoted key_name @ '' does not offer '' @ quoted model
     @ (if dated \<noteq> [] then ''. It offers '' @ quoted_names dated @ ''; send one of those.''
        else ''. Refresh the key'' @ [CHR 0x27] @ ''s models or add it.'')"

definition unresolved_model_refusal :: "string option \<Rightarrow> string \<Rightarrow> model_refusal option" where
  "unresolved_model_refusal resolved_instance selector = (case resolved_instance of
       Some _ \<Rightarrow> None
     | None \<Rightarrow> Some \<lparr> mr_code = ''invalid_model'', mr_status = 400, mr_detail = unresolvable_model_detail selector \<rparr>)"

definition key_model_refusal :: "string list option \<Rightarrow> string option \<Rightarrow> string \<Rightarrow> model_refusal option" where
  "key_model_refusal allowlist canonical_key selector = (case allowlist of
       None \<Rightarrow> None
     | Some _ \<Rightarrow> (case canonical_key of
         None \<Rightarrow> unresolved_model_refusal None selector
       | Some key \<Rightarrow>
           if is_model_allowed allowlist key then None
           else Some \<lparr> mr_code = ''model_not_allowed'', mr_status = 403,
                       mr_detail = model_not_allowed_detail selector \<rparr>))"

text \<open>Release dates (\<open>services/catalog/_dated.py\<close>). A string without a newline.\<close>

definition is_digit :: "char \<Rightarrow> bool" where
  "is_digit c = (let n = of_char c :: nat in 48 \<le> n \<and> n \<le> 57)"

definition real_date :: "string \<Rightarrow> bool" where
  "real_date stamp =
     (let y = int (digits_value (take 4 stamp));
          mo = int (digits_value (take 2 (drop 4 stamp)));
          d = int (digits_value (drop 6 stamp))
      in 1 \<le> y \<and> 1 \<le> mo \<and> mo \<le> 12 \<and> 1 \<le> d \<and> d \<le> days_in_month y mo)"

text \<open>The two spellings of the stamp, as the last characters after a \<open>-\<close>.\<close>

definition compact_stamp :: "string \<Rightarrow> bool" where
  "compact_stamp s \<longleftrightarrow> length s = 8 \<and> list_all is_digit s"

definition dashed_stamp :: "string \<Rightarrow> bool" where
  "dashed_stamp s \<longleftrightarrow> length s = 10 \<and> s ! 4 = CHR ''-'' \<and> s ! 7 = CHR ''-''
     \<and> list_all is_digit (filter (\<lambda>c. c \<noteq> CHR ''-'') s) \<and> length (filter (\<lambda>c. c \<noteq> CHR ''-'') s) = 8"

definition undated_name :: "string \<Rightarrow> string option" where
  "undated_name model_id =
     (let n = length model_id;
          split = (\<lambda>k. if n > k + 1 \<and> model_id ! (n - k - 1) = CHR ''-''
                       then Some (take (n - k - 1) model_id, drop (n - k) model_id) else None);
          found = (case split 8 of
                     Some (name, stamp) \<Rightarrow> if compact_stamp stamp then Some (name, stamp) else None
                   | None \<Rightarrow> None);
          found' = (case found of
                      Some r \<Rightarrow> Some r
                    | None \<Rightarrow> (case split 10 of
                        Some (name, stamp) \<Rightarrow>
                          if dashed_stamp stamp then Some (name, filter (\<lambda>c. c \<noteq> CHR ''-'') stamp) else None
                      | None \<Rightarrow> None))
      in case found' of
           None \<Rightarrow> None
         | Some (name, stamp) \<Rightarrow> if real_date stamp then Some name else None)"

text \<open>\<open>sorted({..})\<close> compares the code points of the strings.\<close>

definition dated_builds :: "string \<Rightarrow> string list \<Rightarrow> string list" where
  "dated_builds model_id offered =
     sort (fromkeys (filter (\<lambda>candidate. undated_name candidate = Some model_id) offered))"

text \<open>
  \<open>org_model_refusal\<close>. The workspace's restriction and its key's offer are read from caches, which
  are arguments here: \<open>None\<close> where the cache has no entry. An offer is the key's name and, when known,
  the switch of each offered model in order.
\<close>

record key_offer =
  ko_key_name :: string
  ko_offered :: "(string \<times> bool) list option"

definition org_model_refusal ::
  "string list option \<Rightarrow> key_offer option \<Rightarrow> string \<Rightarrow> string \<Rightarrow> string \<Rightarrow> bool \<Rightarrow> model_refusal option" where
  "org_model_refusal allowed offer provider model selector through_alias =
     (let not_allowed = Some \<lparr> mr_code = ''model_not_allowed'', mr_status = 403,
                               mr_detail = model_not_allowed_detail selector \<rparr>
      in if allowed = None \<or> model \<in> set (the allowed) then None
         else case offer of
           None \<Rightarrow> not_allowed
         | Some key \<Rightarrow> (case ko_offered key of
             None \<Rightarrow> not_allowed
           | Some offered \<Rightarrow> (case map_of offered model of
               None \<Rightarrow>
                 (let builds = dated_builds model (map fst offered);
                      shown = (if through_alias then [] else map (\<lambda>b. provider @ '':'' @ b) builds)
                  in if builds \<noteq> [] \<and> \<not> list_ex (\<lambda>b. map_of offered b = Some True) builds
                     then Some \<lparr> mr_code = ''model_not_serving'', mr_status = 403,
                                 mr_detail = model_not_serving_detail selector (ko_key_name key) shown \<rparr>
                     else Some \<lparr> mr_code = ''model_not_found'', mr_status = 404,
                                 mr_detail = model_not_found_detail selector (ko_key_name key) shown \<rparr>)
             | Some enabled \<Rightarrow>
                 if \<not> enabled then Some \<lparr> mr_code = ''model_not_serving'', mr_status = 403,
                                          mr_detail = model_not_serving_detail selector (ko_key_name key) [] \<rparr>
                 else not_allowed)))"

section \<open>A key never exceeds its user\<close>

lemma entry_matches_parts:
  "key_parts entry = (ei, em) \<Longrightarrow> key_parts k = (ki, km) \<Longrightarrow>
     entry_matches entry k \<longleftrightarrow> ei \<noteq> [] \<and> ei = ki
       \<and> (em = ''*'' \<or> (if ends_with_star em then is_prefix (butlast em) km else em = km))"
  by (auto simp: entry_matches_def)

lemma covers_sound:
  assumes "covers parent entry" "entry_matches entry k"
  shows "is_model_allowed (Some parent) k"
proof -
  obtain ei em where e: "key_parts entry = (ei, em)" by force
  obtain ki km where k: "key_parts k = (ki, km)" by force
  have inst: "ei \<noteq> []" "ei = ki" and model: "em = ''*'' \<or> (if ends_with_star em then is_prefix (butlast em) km else em = km)"
    using assms(2) entry_matches_parts[OF e k] by auto
  show ?thesis
  proof (cases "ends_with_star em")
    case False
    then have "km = em" using model by (auto simp: ends_with_star_def)
    then have "entry_matches p entry = entry_matches p k" for p
      using inst e k by (simp add: entry_matches_def split: prod.splits)
    then show ?thesis using assms(1) e False by (simp add: covers_def is_model_allowed_def)
  next
    case True
    then have pre: "is_prefix (butlast em) km" using model by (auto simp: is_prefix_iff)
    obtain p where p: "p \<in> set parent" "candidate_covers ei (butlast em) p"
      using assms(1) e True by (auto simp: covers_def list_ex_iff)
    obtain pi pm where parts: "key_parts p = (pi, pm)" by force
    have "entry_matches p k"
      using p(2) inst pre entry_matches_parts[OF parts k] is_prefix_trans[of "butlast pm" "butlast em" km]
      by (auto simp: candidate_covers_def parts)
    then show ?thesis using p(1) by (auto simp: is_model_allowed_def list_ex_iff)
  qed
qed

lemma subset_sound:
  assumes "is_allowlist_subset child parent tool_keys" "child \<noteq> None" "is_model_allowed child k"
  shows "is_model_allowed parent k"
proof (cases parent)
  case (Some p)
  obtain c where c: "child = Some c" using assms(2) by auto
  then obtain e where e: "e \<in> set c" "entry_matches e k"
    using assms(3) by (auto simp: is_model_allowed_def list_ex_iff)
  show ?thesis
  proof (cases "e \<in> set tool_keys")
    case True
    then have "e \<in> set p" using assms(1) c Some e(1) by (auto simp: is_allowlist_subset_def list_all_iff)
    then show ?thesis using e(2) Some by (auto simp: is_model_allowed_def list_ex_iff)
  next
    case False
    then have "covers p e" using assms(1) c Some e(1) by (auto simp: is_allowlist_subset_def list_all_iff)
    then show ?thesis using covers_sound e(2) Some by blast
  qed
qed (simp add: is_model_allowed_def)

lemma legacy_grants_no_wildcard: "legacy_tool_grants cfg models = Some names \<Longrightarrow> all_search_tools \<notin> set names"
  by (auto simp: legacy_tool_grants_def split: option.splits)

lemma tool_subset_sound:
  assumes "is_tool_allowlist_subset child parent" "child \<noteq> None" "is_tool_allowed child t"
  shows "is_tool_allowed parent t"
  using assms
  by (auto simp: is_tool_allowlist_subset_def is_tool_allowed_def list_all_iff split: option.splits)

lemma effective_tools_sound:
  assumes "tools_within_user cfg key_tools user_tools user_models"
    and "is_tool_allowed (effective_tool_allowlist cfg key_tools key_models user_tools user_models) t"
  shows "is_tool_allowed (effective_tool_allowlist cfg None None user_tools user_models) t"
proof (cases key_tools)
  case (Some tools)
  then show ?thesis
    using assms tool_subset_sound[of "Some tools" "effective_tool_allowlist cfg None None user_tools user_models" t]
    by (simp add: tools_within_user_def effective_tool_allowlist_def)
next
  case None
  show ?thesis
  proof (cases "user_tools = None \<and> key_models \<noteq> None")
    case True
    then obtain grants where "legacy_tool_grants cfg key_models = Some grants"
      by (auto simp: legacy_tool_grants_def)
    then show ?thesis
      using assms(2) None True legacy_grants_no_wildcard[of cfg key_models grants]
      by (auto simp: effective_tool_allowlist_def is_tool_allowed_def Let_def split: option.splits)
  next
    case False
    then show ?thesis using assms(2) None by (auto simp: effective_tool_allowlist_def)
  qed
qed

section \<open>What an MCP rule grants\<close>

lemma py_strip_subset: "set (py_strip s) \<subseteq> set s"
  unfolding py_strip_def by (auto dest!: set_dropWhileD)

lemma checked_patterns_set:
  "checked_patterns checked patterns = Inr out \<Longrightarrow> set out = set checked \<union> py_strip ` set patterns"
  by (induction checked patterns rule: checked_patterns.induct) (auto simp: Let_def split: if_splits)

lemma checked_read_tools_set:
  "checked_read_tools checked names = Inr out \<Longrightarrow> set out = set checked \<union> py_strip ` set names"
  by (induction checked names rule: checked_read_tools.induct) (auto simp: Let_def split: if_splits)

lemma checked_read_tools_exact:
  "checked_read_tools checked names = Inr out \<Longrightarrow>
     \<forall>r \<in> set checked. CHR ''*'' \<notin> set r \<and> r \<noteq> mcp_read_preset \<Longrightarrow>
     \<forall>r \<in> set out. CHR ''*'' \<notin> set r \<and> r \<noteq> mcp_read_preset"
proof (induction names arbitrary: checked)
  case (Cons name names)
  let ?s = "py_strip name"
  let ?next = "if ?s \<in> set checked then checked else checked @ [?s]"
  have ok: "CHR ''*'' \<notin> set name" "hd ?s \<noteq> CHR ''@''" "?s \<noteq> []" and rest: "checked_read_tools ?next names = Inr out"
    using Cons.prems(1) by (simp_all add: Let_def split: if_split_asm)
  then have "CHR ''*'' \<notin> set ?s" "?s \<noteq> mcp_read_preset"
    using py_strip_subset[of name] by (auto simp: mcp_read_preset_def)
  then have "\<forall>r \<in> set ?next. CHR ''*'' \<notin> set r \<and> r \<noteq> mcp_read_preset"
    using Cons.prems(2) by (simp split: if_split)
  then show ?case by (rule Cons.IH[OF rest])
qed simp

lemma exact_name_matches:
  "CHR ''*'' \<notin> set r \<Longrightarrow> r \<noteq> mcp_read_preset \<Longrightarrow> pattern_matches r t \<longleftrightarrow> r = t"
  using last_in_set[of r] unfolding pattern_matches_def ends_with_star_def by metis

lemma expanded_allows:
  assumes "\<forall>r \<in> set reads. CHR ''*'' \<notin> set r \<and> r \<noteq> mcp_read_preset"
  shows "is_mcp_tool_allowed (expand_mcp_tool_patterns ps reads) t \<longleftrightarrow>
    (\<exists>p \<in> set ps. pattern_matches p t) \<or> (mcp_read_preset \<in> set ps \<and> t \<in> set reads)"
proof -
  have read: "pattern_matches r t \<longleftrightarrow> r = t" if "r \<in> set reads" for r
    using assms that exact_name_matches by blast
  have preset: "\<not> pattern_matches mcp_read_preset t" by (simp add: pattern_matches_def)
  show ?thesis
    using read preset
    by (auto simp: is_mcp_tool_allowed_def expand_mcp_tool_patterns_def list_ex_iff Let_def)
qed

section \<open>Properties\<close>

text \<open>
  \<^bold>\<open>C10\<close>: when a key's lists have passed the checks made on a write (its models within its user's,
  its tools within what its user may use), every model and every tool the key may use at request
  time is one its user may use, wildcards, inherited lists and the deprecated grants of tools
  through model lists included.
\<close>

theorem key_never_exceeds_user:
  assumes "is_allowlist_subset key_models user_models (legacy_search_tool_keys cfg)"
    and "tools_within_user cfg key_tools user_tools user_models"
  shows "(is_model_allowed (effective_allowlist (Some key_models) (Some user_models)) model
      \<longrightarrow> is_model_allowed user_models model)
    \<and> (is_tool_allowed (effective_tool_allowlist cfg key_tools key_models user_tools user_models) tool
      \<longrightarrow> is_tool_allowed (effective_tool_allowlist cfg None None user_tools user_models) tool)"
proof
  show "is_model_allowed (effective_allowlist (Some key_models) (Some user_models)) model
      \<longrightarrow> is_model_allowed user_models model"
    using subset_sound[OF assms(1)]
    by (auto simp: effective_allowlist_def split: option.splits)
  show "is_tool_allowed (effective_tool_allowlist cfg key_tools key_models user_tools user_models) tool
      \<longrightarrow> is_tool_allowed (effective_tool_allowlist cfg None None user_tools user_models) tool"
    using effective_tools_sound[OF assms(2)] by blast
qed

definition sample_access :: access_config where
  "sample_access = \<lparr> ac_aliases = [''fast''], ac_providers = [''openai''], ac_decision_providers = [],
     ac_known_providers = [''anthropic''], ac_search_tools = [(''tavily'', Some ''tavily'', True)],
     ac_fetch_tools = [''builtin_fetch''] \<rparr>"

theorem key_never_exceeds_user_witness:
  "is_model_allowed (effective_allowlist (Some (Some [''openai:gpt-4o*''])) (Some (Some [''openai:gpt*''])))
       ''openai:gpt-4o-mini''
   \<and> is_model_allowed (Some [''openai:gpt*'']) ''openai:gpt-4o-mini''
   \<and> \<not> is_allowlist_subset (Some [''openai:*'']) (Some [''openai:gpt*'']) []
   \<and> is_tool_allowed (effective_tool_allowlist sample_access None None None (Some [''openai:gpt*'', ''tavily:tavily'']))
       ''tavily''"
proof -
  have sub: "is_allowlist_subset (Some [''openai:gpt-4o*'']) (Some [''openai:gpt*'', ''tavily:tavily''])
      (legacy_search_tool_keys sample_access)"
    and tools: "tools_within_user sample_access (Some [''tavily'']) None (Some [''openai:gpt*'', ''tavily:tavily''])"
    and granted: "is_tool_allowed (effective_tool_allowlist sample_access (Some [''tavily''])
      (Some [''openai:gpt-4o*'']) None (Some [''openai:gpt*'', ''tavily:tavily''])) ''tavily''"
    and allowed: "is_model_allowed (effective_allowlist (Some (Some [''openai:gpt-4o*'']))
      (Some (Some [''openai:gpt*'', ''tavily:tavily'']))) ''openai:gpt-4o-mini''"
    by (code_simp, code_simp, code_simp, code_simp)
  note both = key_never_exceeds_user[OF sub tools, of "''openai:gpt-4o-mini''" "''tavily''"]
  have "is_model_allowed (effective_allowlist (Some (Some [''openai:gpt-4o*''])) (Some (Some [''openai:gpt*''])))
       ''openai:gpt-4o-mini''" "is_model_allowed (Some [''openai:gpt*'']) ''openai:gpt-4o-mini''"
    "\<not> is_allowlist_subset (Some [''openai:*'']) (Some [''openai:gpt*'']) []"
    by (code_simp, code_simp, code_simp)
  then show ?thesis using both allowed granted by blast
qed

text \<open>
  An MCP access rule and a list of read tools that pass validation grant exactly what was
  written: a tool is reachable when one of the patterns written names it, or when \<open>@read\<close> was
  written and the tool is one of the read tools labelled, and then only under its exact name.
\<close>

theorem mcp_rule_grants_what_was_written:
  assumes "validate_mcp_tool_patterns patterns = Inr rule" "validate_mcp_read_tools names = Inr reads"
  shows "is_mcp_tool_allowed (expand_mcp_tool_patterns rule reads) tool \<longleftrightarrow>
    (\<exists>p \<in> set patterns. pattern_matches (py_strip p) tool)
    \<or> (mcp_read_preset \<in> py_strip ` set patterns \<and> tool \<in> py_strip ` set names)"
proof -
  obtain checked where "checked_patterns [] patterns = Inr checked"
    using assms(1) by (auto simp: validate_mcp_tool_patterns_def bind_result_Inr_iff split: if_splits)
  moreover have "rule = (if ''*'' \<in> set checked then [''*''] else checked)"
    using assms(1) calculation by (simp add: validate_mcp_tool_patterns_def split: if_split_asm)
  ultimately have checked: "checked_patterns [] patterns = Inr checked"
      "rule = (if ''*'' \<in> set checked then [''*''] else checked)" .
  have reads: "checked_read_tools [] names = Inr reads"
    using assms(2) by (auto simp: validate_mcp_read_tools_def split: if_splits)
  have sets: "set checked = py_strip ` set patterns" "set reads = py_strip ` set names"
    using checked_patterns_set[OF checked(1)] checked_read_tools_set[OF reads] by auto
  note allows = expanded_allows[OF checked_read_tools_exact[OF reads], of rule tool, simplified]
  have star: "pattern_matches ''*'' tool"
    by (simp add: pattern_matches_def mcp_read_preset_def ends_with_star_def)
  show ?thesis
  proof (cases "''*'' \<in> set checked")
    case True
    then show ?thesis using allows checked(2) star sets(1) by auto
  next
    case False
    then show ?thesis using allows checked(2) sets by auto
  qed
qed

theorem mcp_rule_grants_what_was_written_witness:
  "\<exists>rule reads. validate_mcp_tool_patterns ['' get_*'', ''@read''] = Inr rule
     \<and> validate_mcp_read_tools [''list_items ''] = Inr reads
     \<and> is_mcp_tool_allowed (expand_mcp_tool_patterns rule reads) ''list_items''
     \<and> \<not> is_mcp_tool_allowed (expand_mcp_tool_patterns rule reads) ''list_items_all''"
proof -
  have rule: "validate_mcp_tool_patterns ['' get_*'', ''@read''] = Inr [''get_*'', ''@read'']"
    and reads: "validate_mcp_read_tools [''list_items ''] = Inr [''list_items'']"
    by (code_simp, code_simp)
  have strip: "py_strip '' get_*'' = ''get_*''" "py_strip ''@read'' = ''@read''" "py_strip ''list_items '' = ''list_items''"
    by code_simp+
  have no: "\<not> pattern_matches ''get_*'' ''list_items_all''" "\<not> pattern_matches ''@read'' ''list_items_all''"
    by code_simp+
  show ?thesis
    using mcp_rule_grants_what_was_written[OF rule reads, of "''list_items''"]
      mcp_rule_grants_what_was_written[OF rule reads, of "''list_items_all''"] rule reads strip no
    by (auto simp: mcp_read_preset_def)
qed

end
