(* ===== verification/Policy_Compiler.thy ===== *)
theory Policy_Compiler
  imports Routing_Policy Model_Access "HOL-Library.Sublist"
begin

text \<open>
  \<open>services/routing/compiler.py\<close>: turning a routing policy, or a catalog id's offerings, into the
  ordered plan of attempts of one request (\<open>types/attempt.py\<close>).

  How a selector resolves to a provider instance (\<open>resolve_provider_selector\<close>), whether the
  organization's key refuses it (\<open>organization_key_refusal\<close>) and which countries a provider serves are
  read from the deployment's configuration and caches; they are the fields of \<open>compile_env\<close>. An
  \<open>assert\<close> or \<open>AssertionError\<close> of the source is \<open>None\<close>.
\<close>

section \<open>Conditions\<close>

record budget_state =
  bs_used_pct :: "rat option"
  bs_remaining_usd :: "rat option"

definition no_budget :: budget_state where
  "no_budget = \<lparr> bs_used_pct = None, bs_remaining_usd = None \<rparr>"

definition needs_budget_state :: "policy_spec \<Rightarrow> bool" where
  "needs_budget_state spec \<longleftrightarrow> list_ex (\<lambda>e. case se_when e of
       None \<Rightarrow> False
     | Some w \<Rightarrow> wc_used_pct w \<noteq> None \<or> wc_remaining_usd w \<noteq> None) (ps_select spec)"

text \<open>An undefined value never matches.\<close>

definition budget_condition :: "threshold option \<Rightarrow> rat option \<Rightarrow> bool option" where
  "budget_condition condition observed = (case condition of
       None \<Rightarrow> Some True
     | Some t \<Rightarrow> (case observed of None \<Rightarrow> Some False | Some v \<Rightarrow> threshold_matches t v))"

definition id_condition :: "id_match option \<Rightarrow> string option \<Rightarrow> bool" where
  "id_condition condition observed = (case condition of
       None \<Rightarrow> True
     | Some (One_Id i) \<Rightarrow> observed = Some i
     | Some (Id_List ids) \<Rightarrow> (case observed of None \<Rightarrow> False | Some i \<Rightarrow> i \<in> set ids))"

text \<open>Who asks, and what the budget says of them.\<close>

record caller =
  cl_user_id :: "string option"
  cl_key_id :: "string option"
  cl_budget :: budget_state

text \<open>\<open>_matches\<close>.\<close>

definition when_matches :: "caller \<Rightarrow> when_clause \<Rightarrow> bool option" where
  "when_matches c w =
     (case budget_condition (wc_used_pct w) (bs_used_pct (cl_budget c)) of
        None \<Rightarrow> None
      | Some False \<Rightarrow> Some False
      | Some True \<Rightarrow>
          (case budget_condition (wc_remaining_usd w) (bs_remaining_usd (cl_budget c)) of
             None \<Rightarrow> None
           | Some False \<Rightarrow> Some False
           | Some True \<Rightarrow> Some (id_condition (wc_user_id w) (cl_user_id c) \<and> id_condition (wc_key_id w) (cl_key_id c))))"

fun entries_consult_router :: "caller \<Rightarrow> select_entry list \<Rightarrow> bool option" where
  "entries_consult_router c [] = Some False"
| "entries_consult_router c (e # es) =
     (if se_default e \<noteq> None then Some False
      else if se_router e \<noteq> None then Some True
      else case se_when e of
        None \<Rightarrow> entries_consult_router c es
      | Some w \<Rightarrow> (case when_matches c w of
          None \<Rightarrow> None
        | Some True \<Rightarrow> Some False
        | Some False \<Rightarrow> entries_consult_router c es))"

definition selection_consults_router :: "policy_spec \<Rightarrow> caller \<Rightarrow> bool option" where
  "selection_consults_router spec c = entries_consult_router c (ps_select spec)"

section \<open>Selection\<close>

definition condition_reason :: "when_clause \<Rightarrow> string" where
  "condition_reason w = ''condition:'' @ join_with '','' (clause_conditions w)"

definition router_reason :: "string \<Rightarrow> string" where
  "router_reason router = ''router:'' @ router"

text \<open>\<open>_select_head\<close>; \<open>ranking\<close> is the router's ranking, empty when there is none.\<close>

fun entries_select ::
  "policy_spec \<Rightarrow> caller \<Rightarrow> string list \<Rightarrow> select_entry list \<Rightarrow> (string \<times> string) list option" where
  "entries_select spec c ranking [] = map_option (\<lambda>d. [(d, ''default'')]) (default_target spec)"
| "entries_select spec c ranking (e # es) =
     (case se_default e of
        Some d \<Rightarrow> Some [(d, ''default'')]
      | None \<Rightarrow>
          (case se_router e of
             Some r \<Rightarrow> (if ranking \<noteq> [] then Some (map (\<lambda>s. (s, router_reason r)) ranking)
                        else entries_select spec c ranking es)
           | None \<Rightarrow>
               (case se_when e of
                  None \<Rightarrow> entries_select spec c ranking es
                | Some w \<Rightarrow>
                    (case when_matches c w of
                       None \<Rightarrow> None
                     | Some False \<Rightarrow> entries_select spec c ranking es
                     | Some True \<Rightarrow> map_option (\<lambda>t. [(t, condition_reason w)]) (se_target e)))))"

definition select_head :: "policy_spec \<Rightarrow> caller \<Rightarrow> string list \<Rightarrow> (string \<times> string) list option" where
  "select_head spec c ranking = entries_select spec c ranking (ps_select spec)"

section \<open>Attempts\<close>

record 'k attempt =
  at_position :: nat
  at_instance :: string
  at_provider :: string
  at_model :: string
  at_kwargs :: 'k
  at_display_model :: "string option"
  at_selection_reason :: string
  at_deployment_paid :: bool

definition dispatch_model :: "'k attempt \<Rightarrow> string" where
  "dispatch_model a = at_provider a @ '':'' @ at_model a"

record 'k resolved_provider =
  rp_instance :: string
  rp_provider :: string
  rp_model :: string
  rp_kwargs :: 'k
  rp_alias :: "string option"

datatype org_refusal = Org_Not_Allowed | Org_Not_Serving | Org_Not_Found

record 'k compile_env =
  ce_resolve :: "string \<Rightarrow> string + 'k resolved_provider"
  ce_org_refusal :: "'k resolved_provider \<Rightarrow> string \<Rightarrow> org_refusal option"
  ce_country_refuses :: "string \<Rightarrow> bool"
  ce_country :: "string option"

record dropped_candidate =
  dc_selector :: string
  dc_reason :: string
  dc_detail :: string

definition drop_candidate :: "string \<Rightarrow> string \<Rightarrow> string \<Rightarrow> dropped_candidate" where
  "drop_candidate selector reason detail = \<lparr> dc_selector = selector, dc_reason = reason, dc_detail = detail \<rparr>"

text \<open>\<open>_ORG_REFUSAL_FRAGMENTS\<close> and \<open>_country_fragment\<close>.\<close>

fun org_fragment :: "org_refusal \<Rightarrow> string" where
  "org_fragment Org_Not_Allowed = ''is not in this workspace'' @ [CHR 0x27] @ ''s organization-key model allow-list''"
| "org_fragment Org_Not_Serving = ''is offered by the organization'' @ [CHR 0x27] @ ''s provider key but not serving''"
| "org_fragment Org_Not_Found = ''is not offered by the organization'' @ [CHR 0x27] @ ''s provider key''"

definition country_fragment :: "string option \<Rightarrow> string" where
  "country_fragment country = ''is on a provider provider_supported_countries closes to ''
     @ (case country of Some c \<Rightarrow> ''country '' @ quoted c | None \<Rightarrow> ''an unknown country'')"

definition canonical_of :: "'k resolved_provider \<Rightarrow> string" where
  "canonical_of r = rp_instance r @ '':'' @ rp_model r"

text \<open>The fate of one candidate: the reason and detail it is dropped with, or what it resolved to.\<close>

definition judge_candidate ::
  "'k compile_env \<Rightarrow> string list option \<Rightarrow> string list \<Rightarrow> string \<Rightarrow> (string \<times> string) + 'k resolved_provider" where
  "judge_candidate env allowlist seen selector =
     (case ce_resolve env selector of
        Inl msg \<Rightarrow> Inl (''unresolvable'', ''could not be resolved to a provider ('' @ msg @ '')'')
      | Inr r \<Rightarrow>
          if canonical_of r \<in> set seen then Inl (''duplicate'', ''already in the plan at an earlier position'')
          else if \<not> is_model_allowed allowlist (canonical_of r)
          then Inl (''not_allowed'', ''is not in allowed_models for this caller'')
          else case ce_org_refusal env r selector of
            Some refusal \<Rightarrow> Inl (''not_allowed'', org_fragment refusal)
          | None \<Rightarrow>
              if ce_country_refuses env (rp_instance r)
              then Inl (''country_not_supported'', country_fragment (ce_country env))
              else Inr r)"

definition attempt_at :: "string \<Rightarrow> nat \<Rightarrow> string \<Rightarrow> 'k resolved_provider \<Rightarrow> 'k attempt" where
  "attempt_at display_model position reason r = \<lparr> at_position = position, at_instance = rp_instance r,
     at_provider = rp_provider r, at_model = rp_model r, at_kwargs = rp_kwargs r,
     at_display_model = Some display_model, at_selection_reason = reason, at_deployment_paid = False \<rparr>"

text \<open>\<open>_resolve_candidates\<close>; \<open>taken\<close> is how many attempts there are already, \<open>seen\<close> their canonical keys.\<close>

fun resolve_candidates ::
  "'k compile_env \<Rightarrow> string \<Rightarrow> string list option \<Rightarrow> nat \<Rightarrow> nat \<Rightarrow> string list \<Rightarrow> (string \<times> string) list
     \<Rightarrow> 'k attempt list \<times> dropped_candidate list" where
  "resolve_candidates env display allowlist limit taken seen [] = ([], [])"
| "resolve_candidates env display allowlist limit taken seen ((selector, reason) # ordered) =
     (if taken \<ge> limit
      then (case resolve_candidates env display allowlist limit taken seen ordered of (attempts, dropped) \<Rightarrow>
              (attempts, drop_candidate selector ''over_cap''
                 (''exceeds the '' @ show_int (int limit) @ ''-candidate cap'') # dropped))
      else case judge_candidate env allowlist seen selector of
        Inl (why, detail) \<Rightarrow>
          (case resolve_candidates env display allowlist limit taken seen ordered of (attempts, dropped) \<Rightarrow>
             (attempts, drop_candidate selector why detail # dropped))
      | Inr r \<Rightarrow>
          (case resolve_candidates env display allowlist limit (Suc taken) (canonical_of r # seen) ordered of
             (attempts, dropped) \<Rightarrow> (attempt_at display (Suc taken) reason r # attempts, dropped)))"

section \<open>Plans\<close>

record 'k compiled_plan =
  cp_policy_name :: string
  cp_attempts :: "'k attempt list"
  cp_guardrails :: "policy_guardrail list"
  cp_dropped :: "dropped_candidate list"
  cp_ordering :: "string list option"

definition is_fallback :: "'k compiled_plan \<Rightarrow> 'k attempt \<Rightarrow> bool" where
  "is_fallback plan served \<longleftrightarrow> at_position served \<noteq> at_position (hd (cp_attempts plan))"

record no_eligible_candidates =
  ne_policy_name :: string
  ne_dropped :: "dropped_candidate list"
  ne_status :: int
  ne_caller_detail :: string
  ne_operator_detail :: string

definition unresolvable_only :: "dropped_candidate list \<Rightarrow> bool" where
  "unresolvable_only dropped \<longleftrightarrow> dropped \<noteq> [] \<and> list_all (\<lambda>d. dc_reason d = ''unresolvable'') dropped"

definition no_eligible :: "string \<Rightarrow> dropped_candidate list \<Rightarrow> no_eligible_candidates" where
  "no_eligible policy_name dropped =
     (let reasons = join_with ''; '' (map (\<lambda>d. quoted (dc_selector d) @ '' '' @ dc_detail d) dropped)
      in \<lparr> ne_policy_name = policy_name, ne_dropped = dropped,
           ne_status = (if unresolvable_only dropped then 502 else 403),
           ne_caller_detail = ''Routing policy '' @ quoted policy_name
             @ '' has no usable candidate for this request, so it cannot be served. ''
             @ (if unresolvable_only dropped then ''None of its candidates resolve to a configured provider''
                else ''Its candidates were all filtered out before dispatch'')
             @ ''. Ask your operator to check the policy.'',
           ne_operator_detail = ''Routing policy '' @ quoted policy_name @ '' compiled to 0 usable candidates. Dropped: ''
             @ (if reasons = [] then ''no candidates declared'' else reasons) @ ''.'' \<rparr>)"

text \<open>\<open>selected[0][1].startswith("router:")\<close>.\<close>

definition is_routed :: "(string \<times> string) list \<Rightarrow> bool" where
  "is_routed selected = (case selected of [] \<Rightarrow> False | (_, reason) # _ \<Rightarrow> is_prefix ''router:'' reason)"

definition compile_policy ::
  "'k compile_env \<Rightarrow> string \<Rightarrow> policy_spec \<Rightarrow> caller \<Rightarrow> string list option \<Rightarrow> string list
     \<Rightarrow> (no_eligible_candidates + 'k compiled_plan) option" where
  "compile_policy env policy_name spec c allowlist ranking =
     (case select_head spec c ranking of
        None \<Rightarrow> None
      | Some selected \<Rightarrow>
          (case resolve_candidates env policy_name allowlist max_candidates 0 []
                  (selected @ map (\<lambda>s. (s, ''on_failure'')) (ps_on_failure spec)) of
             (attempts, dropped) \<Rightarrow>
               if attempts = [] then Some (Inl (no_eligible policy_name dropped))
               else Some (Inr \<lparr> cp_policy_name = policy_name, cp_attempts = attempts,
                 cp_guardrails = ps_guardrails spec, cp_dropped = dropped,
                 cp_ordering = (if is_routed selected then Some ranking else None) \<rparr>)))"

definition reachable_candidates ::
  "'k compile_env \<Rightarrow> string \<Rightarrow> string list \<Rightarrow> string list option \<Rightarrow> 'k attempt list" where
  "reachable_candidates env policy_name selectors allowlist =
     fst (resolve_candidates (env\<lparr> ce_country_refuses := (\<lambda>_. False) \<rparr>) policy_name allowlist max_candidates 0 []
            (map (\<lambda>s. (s, ''default'')) selectors))"

text \<open>
  \<open>compile_catalog_plan\<close>; \<open>offerings\<close> is what \<open>resolve_catalog_fallback\<close> answers, and
  \<open>selector.replace(":", "/", 1)\<close> is \<open>slash_spelling\<close>.
\<close>

definition slash_spelling :: "string \<Rightarrow> string" where
  "slash_spelling s = (case partition_at (CHR '':'') s of None \<Rightarrow> s | Some (a, b) \<Rightarrow> a @ CHR ''/'' # b)"

definition compile_catalog_plan ::
  "'k compile_env \<Rightarrow> string \<Rightarrow> string list \<Rightarrow> string list option \<Rightarrow> nat \<Rightarrow> 'k compiled_plan option" where
  "compile_catalog_plan env model_selector offerings allowlist candidate_limit =
     (if length offerings < 2 then None
      else let limit = (if list_ex (\<lambda>s. slash_spelling s = model_selector) offerings
                        then min candidate_limit max_candidates else candidate_limit)
           in case resolve_candidates env model_selector allowlist limit 0 [] (map (\<lambda>s. (s, ''catalog'')) offerings) of
                ([], dropped) \<Rightarrow> None
              | (a # attempts, dropped) \<Rightarrow> Some \<lparr> cp_policy_name = model_selector,
                  cp_attempts = a # map (\<lambda>x. x\<lparr> at_selection_reason := ''on_failure'' \<rparr>) attempts,
                  cp_guardrails = [], cp_dropped = dropped, cp_ordering = None \<rparr>)"

section \<open>The plan\<close>

text \<open>A run of the loop, candidate by candidate: past the cap, dropped, or kept.\<close>

lemma candidates_run [consumes 1, case_names Done Over Drop Keep]:
  assumes "resolve_candidates env display allowlist limit taken seen ordered = (attempts, dropped)"
    and Done: "\<And>taken seen. P taken seen [] [] []"
    and Over: "\<And>taken seen selector reason ordered attempts dropped detail.
      limit \<le> taken \<Longrightarrow> P taken seen ordered attempts dropped \<Longrightarrow>
      P taken seen ((selector, reason) # ordered) attempts (drop_candidate selector ''over_cap'' detail # dropped)"
    and Drop: "\<And>taken seen selector reason ordered attempts dropped why detail.
      \<not> limit \<le> taken \<Longrightarrow> judge_candidate env allowlist seen selector = Inl (why, detail) \<Longrightarrow>
      P taken seen ordered attempts dropped \<Longrightarrow>
      P taken seen ((selector, reason) # ordered) attempts (drop_candidate selector why detail # dropped)"
    and Keep: "\<And>taken seen selector reason ordered attempts dropped r.
      \<not> limit \<le> taken \<Longrightarrow> judge_candidate env allowlist seen selector = Inr r \<Longrightarrow>
      P (Suc taken) (canonical_of r # seen) ordered attempts dropped \<Longrightarrow>
      P taken seen ((selector, reason) # ordered) (attempt_at display (Suc taken) reason r # attempts) dropped"
  shows "P taken seen ordered attempts dropped"
  using assms(1)
proof (induction ordered arbitrary: taken seen attempts dropped)
  case Nil
  then show ?case using Done by simp
next
  case (Cons candidate ordered)
  obtain selector reason where c: "candidate = (selector, reason)" by force
  obtain as ds where rest: "resolve_candidates env display allowlist limit taken seen ordered = (as, ds)" by force
  show ?case
  proof (cases "limit \<le> taken")
    case True
    then show ?thesis using Cons.prems c rest Over[OF True Cons.IH[OF rest]] by auto
  next
    case False
    show ?thesis
    proof (cases "judge_candidate env allowlist seen selector")
      case (Inl d)
      obtain why detail where d: "d = (why, detail)" by force
      then show ?thesis
        using Cons.prems c rest False Inl Drop[OF False Inl[unfolded d] Cons.IH[OF rest]] by auto
    next
      case (Inr r)
      obtain bs cs where more: "resolve_candidates env display allowlist limit (Suc taken) (canonical_of r # seen) ordered
          = (bs, cs)" by force
      then show ?thesis
        using Cons.prems c False Inr Keep[OF False Inr Cons.IH[OF more]] by auto
    qed
  qed
qed

lemma resolve_candidates_bound:
  assumes "resolve_candidates env display allowlist limit taken seen ordered = (attempts, dropped)" "taken \<le> limit"
  shows "taken + length attempts \<le> limit"
  using assms by (induction rule: candidates_run) auto

lemma resolve_candidates_positions:
  assumes "resolve_candidates env display allowlist limit taken seen ordered = (attempts, dropped)"
  shows "map at_position attempts = [Suc taken..<Suc (taken + length attempts)]"
  using assms
proof (induction rule: candidates_run)
  case (Keep taken seen selector reason ordered attempts dropped r)
  then show ?case by (simp add: attempt_at_def upt_conv_Cons del: upt_Suc)
qed simp_all

definition plan_key :: "'k attempt \<Rightarrow> string" where
  "plan_key a = at_instance a @ '':'' @ at_model a"

lemma plan_key_attempt_at [simp]: "plan_key (attempt_at display position reason r) = canonical_of r"
  by (simp add: plan_key_def attempt_at_def canonical_of_def)

text \<open>What an attempt of a plan went through.\<close>

definition usable :: "'k compile_env \<Rightarrow> string list option \<Rightarrow> (string \<times> string) list \<Rightarrow> 'k attempt \<Rightarrow> bool" where
  "usable env allowlist ordered a \<longleftrightarrow> is_model_allowed allowlist (plan_key a) \<and> \<not> ce_country_refuses env (at_instance a)
     \<and> (\<exists>(selector, reason) \<in> set ordered. \<exists>r. ce_resolve env selector = Inr r \<and> ce_org_refusal env r selector = None
          \<and> canonical_of r = plan_key a \<and> at_selection_reason a = reason)"

lemma judge_candidate_Inr:
  "judge_candidate env allowlist seen selector = Inr r \<Longrightarrow>
     ce_resolve env selector = Inr r \<and> canonical_of r \<notin> set seen \<and> is_model_allowed allowlist (canonical_of r)
     \<and> ce_org_refusal env r selector = None \<and> \<not> ce_country_refuses env (rp_instance r)"
  by (auto simp: judge_candidate_def split: sum.splits if_splits option.splits)

lemma usable_more: "usable env allowlist ordered a \<Longrightarrow> usable env allowlist (p # ordered) a"
  by (auto simp: usable_def)

lemma usable_kept:
  assumes "judge_candidate env allowlist seen selector = Inr r"
  shows "usable env allowlist ((selector, reason) # ordered) (attempt_at display position reason r)"
  using judge_candidate_Inr[OF assms] by (auto simp: usable_def attempt_at_def plan_key_def canonical_of_def)

lemma resolve_candidates_sound:
  assumes "resolve_candidates env display allowlist limit taken seen ordered = (attempts, dropped)"
  shows "(\<forall>a \<in> set attempts. usable env allowlist ordered a \<and> plan_key a \<notin> set seen) \<and> distinct (map plan_key attempts)"
  using assms
proof (induction rule: candidates_run)
  case (Keep taken seen selector reason ordered attempts dropped r)
  then show ?case using judge_candidate_Inr[OF Keep(2)] usable_kept[OF Keep(2)] by (auto intro: usable_more)
qed (auto intro: usable_more)

text \<open>Nothing is lost: every candidate is an attempt or is dropped, in the order of the list.\<close>

lemma resolve_candidates_accounts:
  assumes "resolve_candidates env display allowlist limit taken seen ordered = (attempts, dropped)"
  shows "length attempts + length dropped = length ordered
    \<and> subseq (map at_selection_reason attempts) (map snd ordered) \<and> subseq (map dc_selector dropped) (map fst ordered)"
  using assms by (induction rule: candidates_run) (auto simp: drop_candidate_def attempt_at_def)

text \<open>A list that fits under the cap loses nothing to it.\<close>

lemma judge_not_over_cap: "judge_candidate env allowlist seen selector = Inl (why, detail) \<Longrightarrow> why \<noteq> ''over_cap''"
  by (auto simp: judge_candidate_def split: sum.splits if_splits option.splits)

lemma resolve_candidates_no_over_cap:
  assumes "resolve_candidates env display allowlist limit taken seen ordered = (attempts, dropped)"
    and "taken + length ordered \<le> limit"
  shows "\<forall>d \<in> set dropped. dc_reason d \<noteq> ''over_cap''"
  using assms by (induction rule: candidates_run) (auto simp: drop_candidate_def dest: judge_not_over_cap)

section \<open>Selection under a validated policy\<close>

lemma valid_threshold_matches:
  "validate_threshold t = Inr () \<Longrightarrow> \<exists>b. threshold_matches t v = Some b"
  by (cases "set_comparators t") (auto simp: validate_threshold_def threshold_matches_def)

lemma valid_budget_condition:
  "(\<And>t. condition = Some t \<Longrightarrow> validate_threshold t = Inr ()) \<Longrightarrow> \<exists>b. budget_condition condition v = Some b"
  by (cases condition; cases v) (auto simp: budget_condition_def valid_threshold_matches)

lemma valid_when_matches:
  assumes "validate_when w = Inr ()"
  shows "when_matches c w \<noteq> None"
proof -
  have th: "\<And>t. wc_used_pct w = Some t \<or> wc_remaining_usd w = Some t \<Longrightarrow> validate_threshold t = Inr ()"
    using assms by (auto simp: validate_when_def)
  then have "\<exists>a. budget_condition (wc_used_pct w) (bs_used_pct (cl_budget c)) = Some a"
      "\<exists>b. budget_condition (wc_remaining_usd w) (bs_remaining_usd (cl_budget c)) = Some b"
    by (simp_all add: valid_budget_condition)
  then obtain a b where "budget_condition (wc_used_pct w) (bs_used_pct (cl_budget c)) = Some a"
      "budget_condition (wc_remaining_usd w) (bs_remaining_usd (cl_budget c)) = Some b"
    by blast
  then show ?thesis by (cases a; cases b) (simp_all add: when_matches_def)
qed

lemma valid_entry_when:
  assumes "validate_select_entry e = Inr ()" "se_when e = Some w"
  shows "validate_when w = Inr ()"
  using assms by (simp add: validate_select_entry_def)

text \<open>
  The two walks over \<open>select\<close> agree: with a ranking at hand, the router's reason leads the selection
  exactly when \<open>selection_consults_router\<close> says the router is reached.
\<close>

lemma prefix_condition [simp]: "\<not> is_prefix ''router:'' (condition_reason w)"
  by (simp add: condition_reason_def)

lemma prefix_router [simp]: "is_prefix ''router:'' (router_reason r)"
  by (simp add: router_reason_def)

lemma consults_iff_routed:
  assumes "ranking \<noteq> []" "entries_select spec c ranking es = Some selected"
  shows "entries_consult_router c es = Some (is_routed selected)"
  using assms(2)
proof (induction es)
  case (Cons e es)
  then show ?case using assms(1)
    by (cases ranking) (auto simp: is_routed_def split: option.splits bool.splits if_splits)
qed (auto simp: is_routed_def)

lemma entries_select_total:
  assumes "\<forall>e \<in> set es. validate_select_entry e = Inr ()" "default_target spec = Some d"
  shows "\<exists>selected. entries_select spec c ranking es = Some selected \<and> selected \<noteq> []"
  using assms(1)
proof (induction es)
  case Nil
  then show ?case by (simp add: assms(2))
next
  case (Cons e es)
  have e: "validate_select_entry e = Inr ()" and ih: "\<exists>s. entries_select spec c ranking es = Some s \<and> s \<noteq> []"
    using Cons by auto
  show ?case
  proof (cases "se_default e = None \<and> se_router e = None \<and> se_when e \<noteq> None")
    case True
    then obtain w where w: "se_when e = Some w" by auto
    obtain b where "when_matches c w = Some b" using valid_when_matches[OF valid_entry_when[OF e w]] by auto
    moreover obtain t where "se_target e = Some t" using valid_entry(2)[OF e] w by auto
    ultimately show ?thesis using True w ih by (cases b) auto
  next
    case False
    then show ?thesis using ih by (auto split: option.splits)
  qed
qed

text \<open>What is selected is written in the policy, and there is not more of it than the pool.\<close>

lemma entries_select_cases [consumes 1, case_names Default Router Target Later]:
  assumes "entries_select spec c ranking (e # es) = Some selected"
  obtains v where "se_default e = Some v" "selected = [(v, ''default'')]"
    | r where "se_router e = Some r" "selected = map (\<lambda>s. (s, router_reason r)) ranking"
    | w t where "se_target e = Some t" "selected = [(t, condition_reason w)]"
    | "entries_select spec c ranking es = Some selected"
proof (cases "se_default e")
  case (Some v)
  then show thesis using assms that(1) by simp
next
  case default: None
  show thesis
  proof (cases "se_router e")
    case (Some r)
    then show thesis using assms default that(2,4) by (cases "ranking = []") simp_all
  next
    case router: None
    show thesis
    proof (cases "se_when e")
      case None
      then show thesis using assms default router that(4) by simp
    next
      case (Some w)
      then show thesis
        using assms default router that(3,4)
        by (cases "when_matches c w") (auto split: bool.splits)
    qed
  qed
qed

definition declared :: "select_entry list \<Rightarrow> string set" where
  "declared es = (\<Union>e \<in> set es. set_option (se_target e) \<union> set_option (se_default e))"

lemma declared_Cons [simp]:
  "declared (e # es) = set_option (se_target e) \<union> set_option (se_default e) \<union> declared es"
  by (simp add: declared_def)

lemma entries_select_members:
  assumes "entries_select spec c ranking es = Some selected" "default_target spec = Some d"
  shows "(map fst selected = ranking \<and> (\<exists>e \<in> set es. se_router e \<noteq> None))
    \<or> (length selected = 1 \<and> set (map fst selected) \<subseteq> insert d (declared es))"
  using assms(1)
proof (induction es)
  case Nil
  then show ?case using assms(2) by auto
next
  case (Cons e es)
  from Cons.prems show ?case
  proof (cases rule: entries_select_cases)
    case (Router r)
    have "map fst selected = ranking" unfolding Router(2) by (simp add: o_def)
    moreover have "\<exists>e \<in> set (e # es). se_router e \<noteq> None" using Router(1) by simp
    ultimately show ?thesis by blast
  next
    case Later
    from Cons.IH[OF Later] show ?thesis by auto
  qed simp_all
qed

lemma valid_declared_static:
  assumes "validate_spec spec = Inr ()"
  shows "declared (ps_select spec) \<subseteq> set (static_selectors spec)"
proof
  fix x assume "x \<in> declared (ps_select spec)"
  then obtain e where e: "e \<in> set (ps_select spec)" "se_target e = Some x \<or> se_default e = Some x"
    by (auto simp: declared_def)
  have "destinations e = 1" using validate_specD(1)[OF assms] valid_entry(1) e(1) by blast
  then have "entry_selector e = Some x"
    using e(2) by (cases "se_target e") (auto simp: entry_selector_def destinations_def)
  then show "x \<in> set (static_selectors spec)" using e(1) by (force simp: static_selectors_def)
qed

lemma valid_pool_static:
  assumes "validate_spec spec = Inr ()"
  shows "set (router_candidates spec) \<subseteq> set (static_selectors spec)"
proof
  fix x assume x: "x \<in> set (router_candidates spec)"
  obtain d where d: "default_target spec = Some d" "se_default (last (ps_select spec)) = Some d"
    by (rule valid_default[OF assms])
  obtain pool where pool: "first_some entry_pool (ps_select spec) = Some pool" "x \<in> set pool \<or> x = d"
    using x d(1) by (cases "first_some entry_pool (ps_select spec)") (auto simp: router_candidates_def split: if_splits)
  show "x \<in> set (static_selectors spec)"
  proof (cases "x \<in> set pool")
    case True
    obtain e where e: "e \<in> set (ps_select spec)" "entry_pool e = Some pool"
      using first_some_Some[OF pool(1)] by blast
    then have "entry_candidates e = pool"
      by (auto simp: entry_pool_def entry_candidates_def split: if_splits option.splits list.splits)
    then show ?thesis using True e(1) by (force simp: static_selectors_def)
  next
    case False
    have "last (ps_select spec) \<in> set (ps_select spec)" using validate_specD(2)[OF assms] by simp
    then have "d \<in> declared (ps_select spec)" using d(2) by (force simp: declared_def)
    then show ?thesis using False pool(2) valid_declared_static[OF assms] by blast
  qed
qed

lemma valid_selection:
  assumes "validate_spec spec = Inr ()" "distinct ranking" "set ranking \<subseteq> set (router_candidates spec)"
  obtains selected where "select_head spec c ranking = Some selected" "selected \<noteq> []"
    "set (map fst selected) \<subseteq> set (static_selectors spec)"
    "length selected + length (ps_on_failure spec) \<le> max_candidates"
proof -
  obtain d where d: "default_target spec = Some d" "se_default (last (ps_select spec)) = Some d"
    by (rule valid_default[OF assms(1)])
  note valid = validate_specD[OF assms(1)]
  obtain selected where sel: "entries_select spec c ranking (ps_select spec) = Some selected" "selected \<noteq> []"
    using entries_select_total[OF valid(1) d(1)] by blast
  have "d \<in> declared (ps_select spec)"
    using d(2) valid(2) by (force simp: declared_def)
  then have declared: "insert d (declared (ps_select spec)) \<subseteq> set (static_selectors spec)"
    using valid_declared_static[OF assms(1)] by blast
  from entries_select_members[OF sel(1) d(1)]
  have "set (map fst selected) \<subseteq> set (static_selectors spec) \<and> length selected \<le> routed_count spec"
  proof
    assume routed: "map fst selected = ranking \<and> (\<exists>e \<in> set (ps_select spec). se_router e \<noteq> None)"
    then have "router_backend spec \<noteq> None" by (auto simp: router_backend_def first_some_None)
    then have "router_candidates spec \<noteq> []" by (rule router_candidates_pool(3)[OF assms(1)])
    moreover have "length ranking \<le> length (router_candidates spec)"
      using assms(2,3) router_candidates_pool(1)[OF assms(1)] by (metis card_mono distinct_card finite_set)
    moreover have "length selected = length ranking" using routed by (metis length_map)
    ultimately show ?thesis
      using routed assms(3) valid_pool_static[OF assms(1)] by (auto simp: routed_count_def)
  next
    assume "length selected = 1 \<and> set (map fst selected) \<subseteq> insert d (declared (ps_select spec))"
    then show ?thesis using declared by (auto simp: routed_count_def Suc_le_eq)
  qed
  then show thesis using that[of selected] sel valid(5) by (simp add: select_head_def)
qed

text \<open>Why a candidate is dropped as unresolvable.\<close>

lemma all_dropped_reasons:
  assumes "resolve_candidates env display allowlist limit taken seen ordered = (attempts, dropped)"
  shows "attempts = [] \<longrightarrow> taken < limit \<longrightarrow>
    (list_all (\<lambda>d. dc_reason d = ''unresolvable'') dropped \<longleftrightarrow> (\<forall>(s, r) \<in> set ordered. isl (ce_resolve env s)))
    \<and> (dropped = [] \<longleftrightarrow> ordered = [])"
  using assms
proof (induction rule: candidates_run)
  case (Drop taken seen selector reason ordered attempts dropped why detail)
  have "why = ''unresolvable'' \<longleftrightarrow> isl (ce_resolve env selector)"
    using Drop(2) by (auto simp: judge_candidate_def split: sum.splits if_splits option.splits)
  then show ?case using Drop(3) by (auto simp: drop_candidate_def)
qed simp_all

section \<open>Properties\<close>

definition plan_candidates :: "policy_spec \<Rightarrow> (string \<times> string) list \<Rightarrow> (string \<times> string) list" where
  "plan_candidates spec selected = selected @ map (\<lambda>s. (s, ''on_failure'')) (ps_on_failure spec)"

text \<open>
  \<^bold>\<open>C9\<close>: a plan a policy compiles to has at least one attempt and at most five, numbered from 1,
  no two of them the same model on the same instance; every one is a model the caller's allow-list
  permits on an instance open to the request's country, resolved from a candidate the organization's
  key does not refuse; and every candidate is either an attempt or listed as dropped, in order.
\<close>

theorem compiled_plan_is_sound:
  assumes "compile_policy env name spec c allowlist ranking = Some (Inr plan)"
    and "select_head spec c ranking = Some selected"
  shows "cp_attempts plan \<noteq> [] \<and> length (cp_attempts plan) \<le> max_candidates
    \<and> map at_position (cp_attempts plan) = [1..<Suc (length (cp_attempts plan))]
    \<and> distinct (map plan_key (cp_attempts plan))
    \<and> (\<forall>a \<in> set (cp_attempts plan). usable env allowlist (plan_candidates spec selected) a)
    \<and> length (cp_attempts plan) + length (cp_dropped plan) = length (plan_candidates spec selected)
    \<and> subseq (map at_selection_reason (cp_attempts plan)) (map snd (plan_candidates spec selected))
    \<and> subseq (map dc_selector (cp_dropped plan)) (map fst (plan_candidates spec selected))"
proof -
  obtain attempts dropped where run: "resolve_candidates env name allowlist max_candidates 0 []
      (plan_candidates spec selected) = (attempts, dropped)" by force
  then have plan: "attempts \<noteq> []" "cp_attempts plan = attempts" "cp_dropped plan = dropped"
    using assms by (auto simp: compile_policy_def plan_candidates_def split: if_splits)
  show ?thesis
    using plan resolve_candidates_bound[OF run] resolve_candidates_positions[OF run]
      resolve_candidates_sound[OF run] resolve_candidates_accounts[OF run]
    by (auto simp del: upt_Suc)
qed

definition sample_entry :: select_entry where
  "sample_entry = \<lparr> se_when = None, se_target = None, se_default = None, se_router = None, se_candidates = None,
     se_weights = None \<rparr>"

definition sample_policy :: policy_spec where
  "sample_policy = \<lparr> ps_select =
       [sample_entry\<lparr> se_when := Some \<lparr> wc_used_pct = Some \<lparr> th_gte = Some 80, th_gt = None, th_lte = None, th_lt = None \<rparr>,
            wc_remaining_usd = None, wc_user_id = None, wc_key_id = None \<rparr>, se_target := Some ''openai:mini'' \<rparr>,
        sample_entry\<lparr> se_router := Some ''weighted'', se_candidates := Some [''openai:big'', ''azure:big''],
            se_weights := Some [(''openai:big'', Finite 7), (''azure:big'', Finite 3)] \<rparr>,
        sample_entry\<lparr> se_default := Some ''openai:big'' \<rparr>],
     ps_on_failure = [''local:llama''], ps_guardrails = [] \<rparr>"

definition sample_caller :: caller where
  "sample_caller = \<lparr> cl_user_id = Some ''u'', cl_key_id = None, cl_budget = no_budget \<rparr>"

text \<open>Every selector resolves to its own parts, but no instance \<open>local\<close> is configured.\<close>

definition sample_env :: "unit compile_env" where
  "sample_env = \<lparr> ce_resolve = (\<lambda>s. case key_parts s of (i, m) \<Rightarrow>
       if i = ''local'' then Inl ''unknown instance''
       else Inr \<lparr> rp_instance = i, rp_provider = i, rp_model = m, rp_kwargs = (), rp_alias = None \<rparr>),
     ce_org_refusal = (\<lambda>r s. None), ce_country_refuses = (\<lambda>i. i = ''azure''), ce_country = Some ''XX'' \<rparr>"

theorem compiled_plan_is_sound_witness:
  "\<exists>plan. compile_policy sample_env ''p'' sample_policy sample_caller None [''azure:big'', ''openai:big''] = Some (Inr plan)
     \<and> map plan_key (cp_attempts plan) = [''openai:big'']
     \<and> map dc_reason (cp_dropped plan) = [''country_not_supported'', ''unresolvable'']
     \<and> length (cp_attempts plan) \<le> max_candidates \<and> distinct (map plan_key (cp_attempts plan))"
proof -
  have sel: "select_head sample_policy sample_caller [''azure:big'', ''openai:big''] =
      Some [(''azure:big'', ''router:weighted''), (''openai:big'', ''router:weighted'')]"
    by code_simp
  obtain plan where plan: "compile_policy sample_env ''p'' sample_policy sample_caller None [''azure:big'', ''openai:big'']
      = Some (Inr plan)"
    "plan = \<lparr> cp_policy_name = ''p'', cp_attempts = [attempt_at ''p'' 1 ''router:weighted''
          \<lparr> rp_instance = ''openai'', rp_provider = ''openai'', rp_model = ''big'', rp_kwargs = (), rp_alias = None \<rparr>],
        cp_guardrails = [],
        cp_dropped = [drop_candidate ''azure:big'' ''country_not_supported'' (country_fragment (Some ''XX'')),
          drop_candidate ''local:llama'' ''unresolvable'' ''could not be resolved to a provider (unknown instance)''],
        cp_ordering = Some [''azure:big'', ''openai:big''] \<rparr>"
    by (rule that[OF _ refl]) code_simp
  show ?thesis
    using compiled_plan_is_sound[OF plan(1) sel] plan by (auto simp: drop_candidate_def canonical_of_def)
qed

text \<open>
  \<^bold>\<open>C17\<close>: a policy that passes validation always selects. For every caller and budget, and every
  ranking a router may give of its pool, the selection ends without an assertion failing, names only
  models written in the policy, and with the failure chain stays within the cap, so that no candidate
  of the policy is ever dropped for exceeding it.
\<close>

theorem validated_policy_always_selects:
  assumes "validate_spec spec = Inr ()" "distinct ranking" "set ranking \<subseteq> set (router_candidates spec)"
  shows "\<exists>selected. select_head spec c ranking = Some selected \<and> selected \<noteq> []
    \<and> set (map fst (plan_candidates spec selected)) \<subseteq> set (static_selectors spec)
    \<and> (\<forall>d \<in> set (snd (resolve_candidates env name allowlist max_candidates 0 [] (plan_candidates spec selected))).
          dc_reason d \<noteq> ''over_cap'')"
proof -
  obtain selected where sel: "select_head spec c ranking = Some selected" "selected \<noteq> []"
    "set (map fst selected) \<subseteq> set (static_selectors spec)"
    "length selected + length (ps_on_failure spec) \<le> max_candidates"
    by (rule valid_selection[OF assms])
  have "set (ps_on_failure spec) \<subseteq> set (static_selectors spec)" by (auto simp: static_selectors_def)
  then have "set (map fst (plan_candidates spec selected)) \<subseteq> set (static_selectors spec)"
    using sel(3) by (auto simp: plan_candidates_def)
  moreover have "\<forall>d \<in> set dropped. dc_reason d \<noteq> ''over_cap''"
    if "resolve_candidates env name allowlist max_candidates 0 [] (plan_candidates spec selected) = (attempts, dropped)"
    for attempts dropped
    by (rule resolve_candidates_no_over_cap[OF that]) (use sel(4) in \<open>simp add: plan_candidates_def\<close>)
  ultimately show ?thesis using sel(1,2) by (metis surjective_pairing)
qed

theorem validated_policy_always_selects_witness:
  "validate_spec sample_policy = Inr ()
   \<and> (\<exists>selected. select_head sample_policy sample_caller [''azure:big'', ''openai:big''] = Some selected \<and> selected \<noteq> []
        \<and> set (map fst (plan_candidates sample_policy selected)) \<subseteq> set (static_selectors sample_policy))"
proof -
  have valid: "validate_spec sample_policy = Inr ()" and pool: "router_candidates sample_policy = [''openai:big'', ''azure:big'']"
    by code_simp+
  show ?thesis
    using validated_policy_always_selects[OF valid, of "[''azure:big'', ''openai:big'']" sample_caller sample_env "''p''" None]
      valid pool by auto
qed

text \<open>
  The question whether a request reaches the policy's router, asked before the router is
  run, is answered as the selection itself turns out: when there is a ranking, the selection is the
  router's exactly when the answer was yes.
\<close>

theorem consults_router_agrees_with_selection:
  assumes "ranking \<noteq> []" "select_head spec c ranking = Some selected"
  shows "selection_consults_router spec c = Some (is_routed selected)"
  using consults_iff_routed[OF assms(1)] assms(2) by (simp add: selection_consults_router_def select_head_def)

theorem consults_router_agrees_with_selection_witness:
  "selection_consults_router sample_policy sample_caller = Some True
   \<and> selection_consults_router sample_policy (sample_caller\<lparr> cl_budget := no_budget\<lparr> bs_used_pct := Some 81 \<rparr> \<rparr>) = Some False"
proof
  have one: "select_head sample_policy sample_caller [''azure:big''] = Some [(''azure:big'', ''router:weighted'')]"
    by code_simp
  show "selection_consults_router sample_policy sample_caller = Some True"
    using consults_router_agrees_with_selection[OF _ one] by (simp add: is_routed_def)
  have two: "select_head sample_policy (sample_caller\<lparr> cl_budget := no_budget\<lparr> bs_used_pct := Some 81 \<rparr> \<rparr>) [''azure:big'']
      = Some [(''openai:mini'', ''condition:budget_used_pct'')]"
    by code_simp
  show "selection_consults_router sample_policy (sample_caller\<lparr> cl_budget := no_budget\<lparr> bs_used_pct := Some 81 \<rparr> \<rparr>)
      = Some False"
    using consults_router_agrees_with_selection[OF _ two] by (simp add: is_routed_def)
qed

text \<open>
  A policy no candidate of which survives is refused with 502 exactly when not one of its
  candidates resolves to a configured provider, and with 403 otherwise.
\<close>

theorem no_eligible_status:
  assumes "compile_policy env name spec c allowlist ranking = Some (Inl e)"
    and "select_head spec c ranking = Some selected" "selected \<noteq> []"
  shows "ne_status e = (if \<forall>(s, r) \<in> set (plan_candidates spec selected). isl (ce_resolve env s) then 502 else 403)"
proof -
  obtain attempts dropped where run: "resolve_candidates env name allowlist max_candidates 0 []
      (plan_candidates spec selected) = (attempts, dropped)" by force
  then have e: "attempts = []" "e = no_eligible name dropped"
    using assms by (auto simp: compile_policy_def plan_candidates_def split: if_splits)
  have "plan_candidates spec selected \<noteq> []" using assms(3) by (simp add: plan_candidates_def)
  then have "unresolvable_only dropped \<longleftrightarrow> (\<forall>(s, r) \<in> set (plan_candidates spec selected). isl (ce_resolve env s))"
    using all_dropped_reasons[OF run] e(1) by (auto simp: unresolvable_only_def max_candidates_def)
  then show ?thesis by (simp add: e(2) no_eligible_def Let_def)
qed

theorem no_eligible_status_witness:
  "(\<exists>e. compile_policy sample_env ''p'' sample_policy sample_caller (Some []) [] = Some (Inl e) \<and> ne_status e = 403)
   \<and> (\<exists>e. compile_policy (sample_env\<lparr> ce_resolve := (\<lambda>s. Inl ''gone'') \<rparr>) ''p'' sample_policy sample_caller None []
         = Some (Inl e) \<and> ne_status e = 502)"
proof
  have sel: "select_head sample_policy sample_caller [] = Some [(''openai:big'', ''default'')]"
    by code_simp
  have open_env: "\<not> (\<forall>(s, r) \<in> set (plan_candidates sample_policy [(''openai:big'', ''default'')]). isl (ce_resolve sample_env s))"
    by code_simp
  have fails: "isl (the (compile_policy sample_env ''p'' sample_policy sample_caller (Some []) []))"
    "compile_policy sample_env ''p'' sample_policy sample_caller (Some []) [] \<noteq> None"
    by code_simp+
  then obtain e where e: "compile_policy sample_env ''p'' sample_policy sample_caller (Some []) [] = Some (Inl e)"
    by (cases "the (compile_policy sample_env ''p'' sample_policy sample_caller (Some []) [])") auto
  show "\<exists>e. compile_policy sample_env ''p'' sample_policy sample_caller (Some []) [] = Some (Inl e) \<and> ne_status e = 403"
    using no_eligible_status[OF e sel] open_env e by auto
  let ?env = "sample_env\<lparr> ce_resolve := (\<lambda>s. Inl ''gone'') \<rparr>"
  have fails': "isl (the (compile_policy ?env ''p'' sample_policy sample_caller None []))"
    "compile_policy ?env ''p'' sample_policy sample_caller None [] \<noteq> None"
    by code_simp+
  then obtain e' where e': "compile_policy ?env ''p'' sample_policy sample_caller None [] = Some (Inl e')"
    by (cases "the (compile_policy ?env ''p'' sample_policy sample_caller None [])") auto
  show "\<exists>e. compile_policy ?env ''p'' sample_policy sample_caller None [] = Some (Inl e) \<and> ne_status e = 502"
    using no_eligible_status[OF e' sel] e' by auto
qed

end
