(* ===== verification/Automatic_Router.thy ===== *)
theory Automatic_Router
  imports Policy_Compiler
begin

text \<open>
  Automatic selection among offerings of one model (\<open>services/routing/_automatic.py\<close>): health per credential, bindings
  of sessions to credentials, observations of calls in flight and the ranking of a plan. Health objects,
  observations and selections are mutable and shared, so each kind lives in a list and is named by its index;
  an \<open>OrderedDict\<close> is an association list in its order. The clock is an argument; times, latencies and scores, which
  the code holds in floats, are rationals. The keyed digest of a credential and of a session are parameters.
\<close>

section \<open>Settings\<close>

datatype region = US | EU

record offering =
  of_region :: "region option"
  of_capacity :: nat

record automatic_routing =
  ar_enabled :: bool
  ar_session_ttl :: rat
  ar_default_region :: "region option"
  ar_country_header :: "string option"
  ar_offerings :: "(string \<times> offering) list"

definition default_offering :: offering where
  "default_offering = \<lparr>of_region = None, of_capacity = 1\<rparr>"

definition health_ttl :: rat where
  "health_ttl = 300"

definition eu_countries :: "string list" where
  "eu_countries = [''AT'', ''BE'', ''BG'', ''HR'', ''CY'', ''CZ'', ''DK'', ''EE'', ''FI'', ''FR'', ''DE'', ''GR'', ''HU'', ''IE'',
     ''IT'', ''LV'', ''LT'', ''LU'', ''MT'', ''NL'', ''PL'', ''PT'', ''RO'', ''SK'', ''SI'', ''ES'', ''SE'']"

text \<open>\<open>headers.get(name, "")\<close>; country codes are compared in upper case.\<close>

definition ascii_upper :: "string \<Rightarrow> string" where
  "ascii_upper s = map (\<lambda>c. let n = of_char c :: nat in if 97 \<le> n \<and> n \<le> 122 then char_of (n - 32) else c) s"

definition preferred_region :: "automatic_routing \<Rightarrow> (string \<Rightarrow> string option) \<Rightarrow> region option" where
  "preferred_region cfg headers =
     (let header = (\<lambda>name. case headers name of None \<Rightarrow> [] | Some v \<Rightarrow> v);
          explicit = ascii_lower (header ''otari-region'')
      in if explicit = ''us'' then Some US
         else if explicit = ''eu'' then Some EU
         else
           let country = (case ar_country_header cfg of
               None \<Rightarrow> [] | Some name \<Rightarrow> if name = [] then [] else ascii_upper (header name))
           in if country = ''US'' then Some US
              else if country \<in> set eu_countries then Some EU
              else ar_default_region cfg)"

section \<open>State\<close>

record health =
  he_active :: nat
  he_latency :: "(string \<times> rat \<times> rat) list"
  he_cooldown :: rat

definition new_health :: health where
  "new_health = \<lparr>he_active = 0, he_latency = [], he_cooldown = 0\<rparr>"

record observation =
  ob_selection :: nat
  ob_key :: string
  ob_health :: "nat option"
  ob_started :: rat
  ob_first :: "rat option"
  ob_finished :: bool

record selection =
  se_affinity :: "string option"
  se_mode :: string
  se_observations :: "nat list"

record router =
  rt_objects :: "health list"
  rt_health :: "(string \<times> nat) list"
  rt_affinities :: "(string \<times> string \<times> rat) list"
  rt_observations :: "observation list"
  rt_selections :: "selection list"

definition new_router :: router where
  "new_router = \<lparr>rt_objects = [], rt_health = [], rt_affinities = [], rt_observations = [], rt_selections = []\<rparr>"

definition dict_remove :: "'k \<Rightarrow> ('k \<times> 'v) list \<Rightarrow> ('k \<times> 'v) list" where
  "dict_remove k d = filter (\<lambda>(l, v). l \<noteq> k) d"

text \<open>\<open>move_to_end\<close> of a present key, and \<open>d[k] = v\<close> followed by it.\<close>

definition put_last :: "'k \<Rightarrow> 'v \<Rightarrow> ('k \<times> 'v) list \<Rightarrow> ('k \<times> 'v) list" where
  "put_last k v d = dict_remove k d @ [(k, v)]"

definition update_health :: "nat \<Rightarrow> (health \<Rightarrow> health) \<Rightarrow> router \<Rightarrow> router" where
  "update_health h f s = s\<lparr>rt_objects := (rt_objects s)[h := f (rt_objects s ! h)]\<rparr>"

definition update_observation :: "nat \<Rightarrow> (observation \<Rightarrow> observation) \<Rightarrow> router \<Rightarrow> router" where
  "update_observation ob f s = s\<lparr>rt_observations := (rt_observations s)[ob := f (rt_observations s ! ob)]\<rparr>"

section \<open>Health\<close>

text \<open>\<open>_health\<close>: the tracked object, a fresh one, or nothing when all tracked credentials have calls in flight.\<close>

definition add_health :: "string \<Rightarrow> router \<Rightarrow> nat option \<times> router" where
  "add_health key s = (Some (length (rt_objects s)),
     s\<lparr>rt_objects := rt_objects s @ [new_health], rt_health := rt_health s @ [(key, length (rt_objects s))]\<rparr>)"

definition find_idle :: "router \<Rightarrow> string option" where
  "find_idle s = map_option fst (find (\<lambda>(k, h). he_active (rt_objects s ! h) = 0) (rt_health s))"

definition track_health :: "nat \<Rightarrow> string \<Rightarrow> router \<Rightarrow> nat option \<times> router" where
  "track_health limit key s =
     (case map_of (rt_health s) key of
        Some h \<Rightarrow> (Some h, s\<lparr>rt_health := put_last key h (rt_health s)\<rparr>)
      | None \<Rightarrow>
          if limit \<le> length (rt_health s) then
            case find_idle s of
              None \<Rightarrow> (None, s)
            | Some idle \<Rightarrow> add_health key (s\<lparr>rt_health := dict_remove idle (rt_health s)\<rparr>)
          else add_health key s)"

section \<open>Bindings of sessions\<close>

definition forget_key :: "nat \<Rightarrow> string \<Rightarrow> router \<Rightarrow> router" where
  "forget_key sel key s =
     (case se_affinity (rt_selections s ! sel) of
        None \<Rightarrow> s
      | Some aff \<Rightarrow>
          (case map_of (rt_affinities s) aff of
             Some (k, t) \<Rightarrow> if k = key then s\<lparr>rt_affinities := dict_remove aff (rt_affinities s)\<rparr> else s
           | None \<Rightarrow> s))"

definition bind_session :: "nat \<Rightarrow> string \<Rightarrow> string \<Rightarrow> rat \<Rightarrow> router \<Rightarrow> router" where
  "bind_session limit aff key now s =
     (let bound = put_last aff (key, now) (rt_affinities s)
      in s\<lparr>rt_affinities := drop (length bound - limit) bound\<rparr>)"

section \<open>Observations\<close>

definition start_call :: "nat \<Rightarrow> nat \<Rightarrow> string \<Rightarrow> rat \<Rightarrow> router \<Rightarrow> router" where
  "start_call limit sel key now s =
     (let (h, s1) = track_health limit key s;
          s2 = (case h of None \<Rightarrow> s1 | Some i \<Rightarrow> update_health i (\<lambda>x. x\<lparr>he_active := he_active x + 1\<rparr>) s1);
          ob = length (rt_observations s2)
      in s2\<lparr>rt_observations := rt_observations s2 @ [\<lparr>ob_selection = sel, ob_key = key, ob_health = h,
             ob_started = now, ob_first = None, ob_finished = False\<rparr>],
           rt_selections := (rt_selections s2)[sel :=
             (rt_selections s2 ! sel)\<lparr>se_observations := se_observations (rt_selections s2 ! sel) @ [ob]\<rparr>]\<rparr>)"

definition first_response :: "nat \<Rightarrow> rat \<Rightarrow> router \<Rightarrow> router" where
  "first_response ob now s =
     (if ob_first (rt_observations s ! ob) = None then update_observation ob (\<lambda>x. x\<lparr>ob_first := Some now\<rparr>) s else s)"

definition observed_latency :: "string \<Rightarrow> observation \<Rightarrow> rat \<Rightarrow> health \<Rightarrow> rat" where
  "observed_latency mode x now h =
     (let elapsed = max (1 / 1000) ((case ob_first x of Some t \<Rightarrow> t | None \<Rightarrow> now) - ob_started x)
      in case map_of (he_latency h) mode of
           Some (value, at_time) \<Rightarrow>
             if now - at_time < health_ttl then (4 / 5) * value + (1 / 5) * elapsed else elapsed
         | None \<Rightarrow> elapsed)"

definition settle_health :: "string \<Rightarrow> observation \<Rightarrow> bool \<Rightarrow> bool \<Rightarrow> rat \<Rightarrow> health \<Rightarrow> health" where
  "settle_health mode x success unhealthy now h0 =
     (let h1 = h0\<lparr>he_active := he_active h0 - 1\<rparr>;
          h2 = (if unhealthy then h1\<lparr>he_cooldown := now + 15\<rparr> else h1)
      in if success then
           h2\<lparr>he_latency := (mode, observed_latency mode x now h2, now) # dict_remove mode (he_latency h2),
              he_cooldown := 0\<rparr>
         else h2)"

definition finish_call :: "nat \<Rightarrow> nat \<Rightarrow> bool \<Rightarrow> bool \<Rightarrow> rat \<Rightarrow> router \<Rightarrow> router" where
  "finish_call limit ob success unhealthy now s =
     (let x = rt_observations s ! ob; sel = ob_selection x in
      if ob_finished x then s
      else
        let s1 = update_observation ob (\<lambda>x. x\<lparr>ob_finished := True\<rparr>) s;
            s2 = (case ob_health x of
                None \<Rightarrow> s1
              | Some h \<Rightarrow> update_health h (settle_health (se_mode (rt_selections s ! sel)) x success unhealthy now) s1);
            s3 = (if unhealthy then forget_key sel (ob_key x) s2 else s2)
        in case se_affinity (rt_selections s ! sel) of
             Some aff \<Rightarrow> if success then bind_session limit aff (ob_key x) now s3 else s3
           | None \<Rightarrow> s3)"

definition close_selection :: "nat \<Rightarrow> nat \<Rightarrow> rat \<Rightarrow> router \<Rightarrow> router" where
  "close_selection limit sel now s =
     foldl (\<lambda>s ob. finish_call limit ob False False now s) s (se_observations (rt_selections s ! sel))"

section \<open>Ranking\<close>

definition selector_of :: "'k attempt \<Rightarrow> string" where
  "selector_of a = at_instance a @ '':'' @ at_model a"

definition accepts :: "string \<Rightarrow> 'k attempt list \<Rightarrow> string \<Rightarrow> automatic_routing \<Rightarrow> bool" where
  "accepts reason attempts model cfg =
     (reason = ''catalog'' \<and> ar_enabled cfg
      \<and> \<not> list_ex (\<lambda>a. at_instance a @ ''/'' @ at_model a = model) attempts)"

definition median :: "rat list \<Rightarrow> rat" where
  "median xs = (let ys = sort xs; n = length ys in
     if n mod 2 = 1 then ys ! (n div 2) else (ys ! (n div 2 - 1) + ys ! (n div 2)) / 2)"

record ranking =
  rk_settings :: automatic_routing
  rk_costs :: "string \<Rightarrow> rat option"
  rk_region :: "region option"
  rk_mode :: string
  rk_own :: "string list"
  rk_keys :: "string \<Rightarrow> string"
  rk_now :: rat

definition offering_of :: "ranking \<Rightarrow> 'k attempt \<Rightarrow> offering" where
  "offering_of q a =
     (case map_of (ar_offerings (rk_settings q)) (selector_of a) of
        Some hint \<Rightarrow> hint
      | None \<Rightarrow> (case map_of (ar_offerings (rk_settings q)) (at_instance a) of
          Some hint \<Rightarrow> hint | None \<Rightarrow> default_offering))"

definition health_of :: "ranking \<Rightarrow> router \<Rightarrow> 'k attempt \<Rightarrow> health option" where
  "health_of q s a = map_option (\<lambda>h. rt_objects s ! h) (map_of (rt_health s) (rk_keys q (selector_of a)))"

type_synonym bucket = "bool \<times> bool \<times> bool \<times> nat"

definition bucket_of :: "ranking \<Rightarrow> router \<Rightarrow> 'k attempt \<Rightarrow> bucket" where
  "bucket_of q s a =
     (rk_costs q (selector_of a) = None,
      (case health_of q s a of None \<Rightarrow> False | Some h \<Rightarrow> rk_now q < he_cooldown h),
      selector_of a \<notin> set (rk_own q),
      if rk_region q = None \<or> of_region (offering_of q a) = rk_region q then 0 else 1)"

definition fresh_latency :: "ranking \<Rightarrow> router \<Rightarrow> 'k attempt \<Rightarrow> rat option" where
  "fresh_latency q s a =
     (case health_of q s a of
        None \<Rightarrow> None
      | Some h \<Rightarrow> (case map_of (he_latency h) (rk_mode q) of
          Some (value, at_time) \<Rightarrow> if rk_now q - at_time < health_ttl then Some value else None
        | None \<Rightarrow> None))"

text \<open>The latencies of the plan, one per selector.\<close>

definition latencies :: "ranking \<Rightarrow> router \<Rightarrow> 'k attempt list \<Rightarrow> (string \<times> rat) list" where
  "latencies q s attempts = concat (map (\<lambda>sel.
     case find (\<lambda>a. selector_of a = sel) attempts of
       None \<Rightarrow> [] | Some a \<Rightarrow> map (Pair sel) (opt_list (fresh_latency q s a))) (fromkeys (map selector_of attempts)))"

definition neutral_latency :: "(string \<times> rat) list \<Rightarrow> rat" where
  "neutral_latency ls = (if ls = [] then 1 else median (map snd ls))"

text \<open>The cheapest cost of a bucket.\<close>

definition floor_of :: "ranking \<Rightarrow> router \<Rightarrow> 'k attempt list \<Rightarrow> bucket \<Rightarrow> rat" where
  "floor_of q s attempts b =
     (let costs = concat (map (\<lambda>a. if bucket_of q s a = b then opt_list (rk_costs q (selector_of a)) else []) attempts)
      in case costs of [] \<Rightarrow> 0 | c # cs \<Rightarrow> fold min cs c)"

definition score_value :: "ranking \<Rightarrow> router \<Rightarrow> 'k attempt list \<Rightarrow> 'k attempt \<Rightarrow> rat" where
  "score_value q s attempts a =
     (let ls = latencies q s attempts; neutral = neutral_latency ls;
          load = (case health_of q s a of
            None \<Rightarrow> 0 | Some h \<Rightarrow> of_nat (he_active h) / of_nat (of_capacity (offering_of q a)));
          measured = (case map_of ls (selector_of a) of None \<Rightarrow> neutral | Some l \<Rightarrow> l);
          latency = min 3 (measured / max neutral (1 / 1000));
          least = max (floor_of q s attempts (bucket_of q s a)) (1 / 1000000);
          value = (case rk_costs q (selector_of a) of None \<Rightarrow> 1 | Some c \<Rightarrow> c / least)
      in value + (1 / 2) * load + (1 / 4) * latency)"

definition score :: "ranking \<Rightarrow> router \<Rightarrow> 'k attempt list \<Rightarrow> 'k attempt \<Rightarrow> bucket \<times> rat \<times> nat" where
  "score q s attempts a = (bucket_of q s a, score_value q s attempts a, at_position a)"

text \<open>The credential the session is bound to, while the binding lasts.\<close>

definition sticky_key :: "ranking \<Rightarrow> router \<Rightarrow> string option \<Rightarrow> string option" where
  "sticky_key q s affinity =
     (case affinity of
        None \<Rightarrow> None
      | Some aff \<Rightarrow> (case map_of (rt_affinities s) aff of
          Some (key, t) \<Rightarrow> if rk_now q - t < ar_session_ttl (rk_settings q) then Some key else None
        | None \<Rightarrow> None))"

text \<open>Whether the bound offering may lead: healthy, in the region, priced if any is, and not before an own key.\<close>

definition may_lead :: "ranking \<Rightarrow> router \<Rightarrow> 'k attempt list \<Rightarrow> 'k attempt \<Rightarrow> bool" where
  "may_lead q s ranked a =
     (case bucket_of q s a of (unpriced, unhealthy, foreign, locality) \<Rightarrow>
        \<not> unhealthy \<and> locality = 0
        \<and> (\<not> unpriced \<or> list_all (\<lambda>b. fst (bucket_of q s b)) ranked)
        \<and> (\<not> foreign \<or> fst (snd (snd (bucket_of q s (hd ranked))))))"

definition bound_attempt :: "ranking \<Rightarrow> router \<Rightarrow> string option \<Rightarrow> 'k attempt list \<Rightarrow> 'k attempt option" where
  "bound_attempt q s affinity ranked =
     (case sticky_key q s affinity of
        None \<Rightarrow> None
      | Some key \<Rightarrow> (case find (\<lambda>a. rk_keys q (selector_of a) = key) ranked of
          None \<Rightarrow> None
        | Some a \<Rightarrow> if may_lead q s ranked a then Some a else None))"

definition rank_attempts :: "ranking \<Rightarrow> router \<Rightarrow> string option \<Rightarrow> 'k attempt list \<Rightarrow> 'k attempt list" where
  "rank_attempts q s affinity attempts =
     (let ranked = sort_key (score q s attempts) attempts
      in case bound_attempt q s affinity ranked of None \<Rightarrow> ranked | Some a \<Rightarrow> a # remove1 a ranked)"

fun renumber :: "nat \<Rightarrow> 'k attempt list \<Rightarrow> 'k attempt list" where
  "renumber i [] = []"
| "renumber i (a # as) = a\<lparr>at_position := i,
     at_selection_reason := (if i = 1 then ''catalog'' else ''on_failure'')\<rparr> # renumber (Suc i) as"

definition below_limit :: "nat \<Rightarrow> 'k attempt \<Rightarrow> dropped_candidate" where
  "below_limit limit a = drop_candidate (selector_of a) ''over_cap''
     (''below the best '' @ show_int (int limit) @ '' offerings'')"

definition key_table :: "('k attempt \<Rightarrow> string) \<Rightarrow> 'k attempt list \<Rightarrow> string \<Rightarrow> string" where
  "key_table candidate_key attempts sel =
     (case map_of (rev (map (\<lambda>a. (selector_of a, candidate_key a)) attempts)) sel of None \<Rightarrow> [] | Some k \<Rightarrow> k)"

definition with_keys :: "('k attempt \<Rightarrow> string) \<Rightarrow> 'k attempt list \<Rightarrow> ranking \<Rightarrow> ranking" where
  "with_keys candidate_key attempts q = q\<lparr>rk_keys := key_table candidate_key attempts\<rparr>"

text \<open>A new selection; a binding that no offering of the plan keeps is dropped.\<close>

definition open_selection :: "string option \<Rightarrow> bool \<Rightarrow> string \<Rightarrow> router \<Rightarrow> router" where
  "open_selection affinity bound mode s =
     s\<lparr>rt_affinities := (case affinity of
          None \<Rightarrow> rt_affinities s
        | Some aff \<Rightarrow> if bound then rt_affinities s else dict_remove aff (rt_affinities s)),
       rt_selections := rt_selections s @ [\<lparr>se_affinity = affinity, se_mode = mode, se_observations = []\<rparr>]\<rparr>"

text \<open>\<open>rank\<close>: the plan, the index of the new selection and the router after it. \<open>rank_offerings_with\<close> has the keys.\<close>

definition rank_offerings_with :: "ranking \<Rightarrow> string option \<Rightarrow> nat \<Rightarrow> 'k compiled_plan \<Rightarrow> router \<Rightarrow>
    'k compiled_plan \<times> nat \<times> router" where
  "rank_offerings_with q affinity limit plan s =
     (let attempts = cp_attempts plan;
          ranked = rank_attempts q s affinity attempts;
          bound = bound_attempt q s affinity (sort_key (score q s attempts) attempts)
      in (plan\<lparr>cp_attempts := renumber 1 (take limit ranked),
             cp_dropped := cp_dropped plan @ map (below_limit limit) (drop limit ranked)\<rparr>,
          length (rt_selections s),
          open_selection affinity (bound \<noteq> None) (rk_mode q) s))"

definition rank_offerings :: "('k attempt \<Rightarrow> string) \<Rightarrow> ranking \<Rightarrow> string option \<Rightarrow> nat \<Rightarrow> 'k compiled_plan \<Rightarrow> router \<Rightarrow>
    'k compiled_plan \<times> nat \<times> router" where
  "rank_offerings candidate_key q = (\<lambda>affinity limit plan s. rank_offerings_with (with_keys candidate_key (cp_attempts plan) q) affinity limit plan s)"

end
