(* ===== verification/Automatic_Laws.thy ===== *)
theory Automatic_Laws
  imports Automatic_Router
begin

text \<open>
  Laws of the automatic router. The operations that concurrent requests interleave are a step relation; in every
  reachable state the load of a credential is the number of its calls in flight, no credential with a call in
  flight loses its health, and both tables stay within their limit. A ranking permutes the plan and keeps its
  tiers, but for a session's own offering in front.
\<close>

section \<open>Dictionaries\<close>

lemma dict_remove_set: "set (dict_remove k d) = {(l, v) \<in> set d. l \<noteq> k}"
  by (auto simp: dict_remove_def)

lemma dict_remove_keys: "distinct (map fst d) \<Longrightarrow> distinct (map fst (dict_remove k d)) \<and> k \<notin> fst ` set (dict_remove k d)"
  by (induction d) (auto simp: dict_remove_def)

lemma dict_remove_values: "distinct (map snd d) \<Longrightarrow> distinct (map snd (dict_remove k d))"
  by (induction d) (auto simp: dict_remove_def)

lemma dict_remove_length: "length (dict_remove k d) \<le> length d"
  by (simp add: dict_remove_def)

lemma dict_remove_absent: "k \<notin> fst ` set d \<Longrightarrow> dict_remove k d = d"
  by (induction d) (auto simp: dict_remove_def)

lemma dict_remove_present:
  "distinct (map fst d) \<Longrightarrow> (k, v) \<in> set d \<Longrightarrow> length d = Suc (length (dict_remove k d))"
proof (induction d)
  case (Cons x d)
  show ?case
  proof (cases "fst x = k")
    case True
    then have "dict_remove k d = d" using Cons.prems by (intro dict_remove_absent) (auto simp: image_iff)
    then show ?thesis using True by (auto simp: dict_remove_def split: prod.splits)
  next
    case False
    then show ?thesis using Cons by (auto simp: dict_remove_def split: prod.splits)
  qed
qed simp

lemma put_last_same:
  assumes "distinct (map fst d)" "map_of d k = Some v"
  shows "set (put_last k v d) = set d" "distinct (map fst (put_last k v d))" "length (put_last k v d) = length d"
proof -
  have kv: "(k, v) \<in> set d" using assms(2) by (rule map_of_SomeD)
  show "set (put_last k v d) = set d"
    using assms kv by (auto simp: put_last_def dict_remove_set dest: eq_key_imp_eq_value)
  show "distinct (map fst (put_last k v d))" using dict_remove_keys[OF assms(1), of k] by (simp add: put_last_def)
  show "length (put_last k v d) = length d" using dict_remove_present[OF assms(1) kv] by (simp add: put_last_def)
qed

lemma value_unique: "distinct (map snd d) \<Longrightarrow> (k, v) \<in> set d \<Longrightarrow> (l, v) \<in> set d \<Longrightarrow> k = l"
  by (induction d) force+

lemma put_last_values:
  assumes "distinct (map snd d)" "map_of d k = Some v"
  shows "distinct (map snd (put_last k v d))"
proof -
  have "v \<notin> snd ` set (dict_remove k d)"
    using value_unique[OF assms(1) map_of_SomeD[OF assms(2)]] by (auto simp: dict_remove_set)
  then show ?thesis using dict_remove_values[OF assms(1), of k] by (simp add: put_last_def)
qed

section \<open>Counting\<close>

lemma length_filter_update:
  "i < length xs \<Longrightarrow> length (filter p (xs[i := y])) + (if p (xs ! i) then 1 else 0)
     = length (filter p xs) + (if p y then 1 else 0)"
proof (induction xs arbitrary: i)
  case (Cons x xs)
  then show ?case by (cases i) auto
qed simp

lemma in_update: "z \<in> set (xs[i := y]) \<Longrightarrow> z = y \<or> z \<in> set xs"
  using set_update_subset_insert[of xs i y] by auto

definition in_flight :: "nat \<Rightarrow> observation \<Rightarrow> bool" where
  "in_flight h ob = (ob_health ob = Some h \<and> \<not> ob_finished ob)"

section \<open>Steps\<close>

inductive router_step :: "nat \<Rightarrow> router \<Rightarrow> router \<Rightarrow> bool" for limit where
  ranked: "router_step limit s (open_selection affinity bound mode s)"
| called: "sel < length (rt_selections s) \<Longrightarrow> router_step limit s (start_call limit sel key now s)"
| responded: "ob < length (rt_observations s) \<Longrightarrow> router_step limit s (first_response ob now s)"
| finished: "ob < length (rt_observations s) \<Longrightarrow>
    router_step limit s (finish_call limit ob success unhealthy now s)"
| forgotten: "sel < length (rt_selections s) \<Longrightarrow> router_step limit s (forget_key sel key s)"
| closed: "sel < length (rt_selections s) \<Longrightarrow> router_step limit s (close_selection limit sel now s)"

inductive router_reachable :: "nat \<Rightarrow> router \<Rightarrow> bool" for limit where
  start: "router_reachable limit new_router"
| step: "router_reachable limit s \<Longrightarrow> router_step limit s t \<Longrightarrow> router_reachable limit t"

section \<open>The invariant\<close>

definition health_ok :: "nat \<Rightarrow> router \<Rightarrow> bool" where
  "health_ok limit s =
     (distinct (map fst (rt_health s)) \<and> distinct (map snd (rt_health s)) \<and> length (rt_health s) \<le> limit
      \<and> (\<forall>(k, h) \<in> set (rt_health s). h < length (rt_objects s))
      \<and> (\<forall>ob \<in> set (rt_observations s). \<forall>h. ob_health ob = Some h \<longrightarrow> h < length (rt_objects s))
      \<and> (\<forall>ob \<in> set (rt_observations s). \<forall>h. in_flight h ob \<longrightarrow> (ob_key ob, h) \<in> set (rt_health s))
      \<and> (\<forall>h < length (rt_objects s).
          he_active (rt_objects s ! h) = length (filter (in_flight h) (rt_observations s))))"

definition sessions_ok :: "nat \<Rightarrow> router \<Rightarrow> bool" where
  "sessions_ok limit s = (distinct (map fst (rt_affinities s)) \<and> length (rt_affinities s) \<le> limit)"

definition selections_ok :: "router \<Rightarrow> bool" where
  "selections_ok s =
     ((\<forall>sel < length (rt_selections s). \<forall>ob \<in> set (se_observations (rt_selections s ! sel)).
         ob < length (rt_observations s))
      \<and> (\<forall>ob < length (rt_observations s). ob_selection (rt_observations s ! ob) < length (rt_selections s)
         \<and> ob \<in> set (se_observations (rt_selections s ! ob_selection (rt_observations s ! ob)))))"

definition router_ok :: "nat \<Rightarrow> router \<Rightarrow> bool" where
  "router_ok limit s = (health_ok limit s \<and> sessions_ok limit s \<and> selections_ok s)"

subsection \<open>Tracking a credential\<close>

definition same_calls :: "router \<Rightarrow> router \<Rightarrow> bool" where
  "same_calls s t = (rt_observations t = rt_observations s \<and> rt_selections t = rt_selections s
     \<and> rt_affinities t = rt_affinities s)"

lemma add_health_ok:
  assumes "health_ok limit s" "key \<notin> fst ` set (rt_health s)" "length (rt_health s) < limit"
    and "add_health key s = (r, t)"
  shows "health_ok limit t \<and> same_calls s t \<and> r = Some (length (rt_objects s)) \<and> (key, length (rt_objects s)) \<in> set (rt_health t)"
proof -
  let ?n = "length (rt_objects s)"
  have fresh: "filter (in_flight ?n) (rt_observations s) = []"
    using assms(1) by (auto simp: health_ok_def in_flight_def filter_empty_conv)
  have "?n \<notin> snd ` set (rt_health s)" using assms(1) by (auto simp: health_ok_def)
  then show ?thesis
    using assms fresh by (auto simp: add_health_def health_ok_def same_calls_def nth_append new_health_def less_Suc_eq)
qed

lemma drop_idle_ok:
  assumes "health_ok limit s" "find_idle s = Some idle"
  shows "health_ok limit (s\<lparr>rt_health := dict_remove idle (rt_health s)\<rparr>)"
    and "length (dict_remove idle (rt_health s)) < length (rt_health s)"
proof -
  obtain h where h: "(idle, h) \<in> set (rt_health s)" "he_active (rt_objects s ! h) = 0"
    using assms(2) by (auto simp: find_idle_def dest!: find_key_Some_D)
  have hs: "distinct (map fst (rt_health s))" "distinct (map snd (rt_health s))"
    using assms(1) by (simp_all add: health_ok_def)
  have "h < length (rt_objects s)" using assms(1) h(1) by (auto simp: health_ok_def)
  then have "filter (in_flight h) (rt_observations s) = []" using assms(1) h(2) by (auto simp: health_ok_def)
  then have quiet: "\<not> in_flight h ob" if "ob \<in> set (rt_observations s)" for ob
    using that by (auto simp: filter_empty_conv)
  have keep: "(ob_key ob, g) \<in> set (dict_remove idle (rt_health s))"
    if "ob \<in> set (rt_observations s)" "in_flight g ob" for ob g
  proof -
    have g: "(ob_key ob, g) \<in> set (rt_health s)" using assms(1) that by (auto simp: health_ok_def)
    have "ob_key ob \<noteq> idle"
    proof
      assume "ob_key ob = idle"
      then have "g = h" using g h(1) hs(1) by (metis eq_key_imp_eq_value)
      then show False using quiet that by simp
    qed
    then show ?thesis using g by (simp add: dict_remove_set)
  qed
  show "health_ok limit (s\<lparr>rt_health := dict_remove idle (rt_health s)\<rparr>)"
    using assms(1) keep dict_remove_keys[OF hs(1), of idle] dict_remove_values[OF hs(2), of idle]
      dict_remove_length[of idle "rt_health s"]
    by (auto simp: health_ok_def dict_remove_set)
  show "length (dict_remove idle (rt_health s)) < length (rt_health s)"
    using dict_remove_present[OF hs(1) h(1)] by simp
qed

lemma track_health_ok:
  assumes "health_ok limit s" "track_health limit key s = (r, t)"
  shows "health_ok limit t \<and> same_calls s t \<and> (\<forall>h. r = Some h \<longrightarrow> (key, h) \<in> set (rt_health t))"
proof (cases "map_of (rt_health s) key")
  case (Some h)
  have "distinct (map fst (rt_health s))" using assms(1) by (simp add: health_ok_def)
  note same = put_last_same[OF this Some]
  have "distinct (map snd (put_last key h (rt_health s)))"
    using assms(1) Some by (intro put_last_values) (simp_all add: health_ok_def)
  then show ?thesis
    using assms Some same by (auto simp: track_health_def health_ok_def same_calls_def dest: map_of_SomeD)
next
  case None
  then have absent: "key \<notin> fst ` set (rt_health s)" by (simp add: map_of_eq_None_iff)
  show ?thesis
  proof (cases "limit \<le> length (rt_health s)")
    case False
    then show ?thesis
      using assms None add_health_ok[OF assms(1) absent, of r t] by (auto simp: track_health_def)
  next
    case full: True
    show ?thesis
    proof (cases "find_idle s")
      case None': None
      then show ?thesis using assms None full by (auto simp: track_health_def same_calls_def)
    next
      case (Some idle)
      let ?s = "s\<lparr>rt_health := dict_remove idle (rt_health s)\<rparr>"
      have "add_health key ?s = (r, t)" using assms(2) None full Some by (simp add: track_health_def)
      moreover have "key \<notin> fst ` set (rt_health ?s)" using absent by (auto simp: dict_remove_set image_iff)
      moreover have "length (rt_health ?s) < limit"
        using drop_idle_ok(2)[OF assms(1) Some] assms(1) by (simp add: health_ok_def)
      ultimately show ?thesis
        using add_health_ok[OF drop_idle_ok(1)[OF assms(1) Some], of key r t] by (auto simp: same_calls_def)
    qed
  qed
qed

subsection \<open>Calls\<close>

lemma start_call_ok:
  assumes "router_ok limit s" "sel < length (rt_selections s)"
  shows "router_ok limit (start_call limit sel key now s)"
proof -
  obtain r t where t: "track_health limit key s = (r, t)" by (cases "track_health limit key s")
  have ok: "health_ok limit t" and same: "same_calls s t" and r: "\<And>h. r = Some h \<Longrightarrow> (key, h) \<in> set (rt_health t)"
    using track_health_ok[OF _ t] assms(1) by (auto simp: router_ok_def)
  let ?ob = "\<lparr>ob_selection = sel, ob_key = key, ob_health = r, ob_started = now, ob_first = None, ob_finished = False\<rparr>"
  let ?u = "start_call limit sel key now s"
  have obs: "rt_observations ?u = rt_observations t @ [?ob]" and hs: "rt_health ?u = rt_health t"
    and aff: "rt_affinities ?u = rt_affinities s"
    and sels: "rt_selections ?u = (rt_selections s)[sel := (rt_selections s ! sel)
      \<lparr>se_observations := se_observations (rt_selections s ! sel) @ [length (rt_observations s)]\<rparr>]"
    and objs: "rt_objects ?u = (case r of None \<Rightarrow> rt_objects t
      | Some h \<Rightarrow> (rt_objects t)[h := (rt_objects t ! h)\<lparr>he_active := he_active (rt_objects t ! h) + 1\<rparr>])"
    using same by (auto simp: start_call_def t Let_def update_health_def same_calls_def split: option.splits)
  have "health_ok limit ?u"
  proof (cases r)
    case None
    then show ?thesis using ok unfolding health_ok_def obs hs objs by (simp add: in_flight_def)
  next
    case (Some h)
    have "h < length (rt_objects t)" using ok r[OF Some] by (auto simp: health_ok_def)
    then show ?thesis
      using ok r[OF Some] Some unfolding health_ok_def obs hs objs
      by (auto simp: in_flight_def nth_list_update)
  qed
  moreover have "selections_ok ?u"
    using assms same unfolding selections_ok_def router_ok_def obs sels same_calls_def
    by (auto simp: nth_list_update nth_append less_Suc_eq split: if_splits)
  ultimately show ?thesis using assms(1) by (simp add: router_ok_def sessions_ok_def aff)
qed

lemma forget_key_simps [simp]:
  "rt_objects (forget_key sel key s) = rt_objects s" "rt_health (forget_key sel key s) = rt_health s"
  "rt_observations (forget_key sel key s) = rt_observations s" "rt_selections (forget_key sel key s) = rt_selections s"
  by (auto simp: forget_key_def split: option.splits)

lemma bind_session_simps [simp]:
  "rt_objects (bind_session limit aff key now s) = rt_objects s" "rt_health (bind_session limit aff key now s) = rt_health s"
  "rt_observations (bind_session limit aff key now s) = rt_observations s"
  "rt_selections (bind_session limit aff key now s) = rt_selections s"
  by (auto simp: bind_session_def Let_def)

lemma health_ok_cong:
  "rt_objects t = rt_objects s \<Longrightarrow> rt_health t = rt_health s \<Longrightarrow> rt_observations t = rt_observations s \<Longrightarrow>
     health_ok limit t = health_ok limit s"
  by (simp add: health_ok_def)

lemma sessions_ok_forget: "sessions_ok limit s \<Longrightarrow> sessions_ok limit (forget_key sel key s)"
  using dict_remove_keys[of "rt_affinities s"] dict_remove_length[of _ "rt_affinities s"]
  by (auto simp: sessions_ok_def forget_key_def intro: order.trans split: option.splits)

lemma sessions_ok_bind: "sessions_ok limit s \<Longrightarrow> sessions_ok limit (bind_session limit aff key now s)"
proof -
  assume ok: "sessions_ok limit s"
  let ?bound = "put_last aff (key, now) (rt_affinities s)"
  have "distinct (map fst ?bound)"
    using ok dict_remove_keys[of "rt_affinities s" aff] by (simp add: sessions_ok_def put_last_def)
  then have "distinct (map fst (drop n ?bound))" for n by (simp only: drop_map[symmetric] distinct_drop)
  then show ?thesis by (simp add: sessions_ok_def bind_session_def Let_def del: distinct_map)
qed

text \<open>What the end of a call does to the tables, the bindings apart.\<close>

definition call_ended :: "nat \<Rightarrow> router \<Rightarrow> router \<Rightarrow> bool" where
  "call_ended ob s t =
     (rt_health t = rt_health s \<and> rt_selections t = rt_selections s
      \<and> rt_observations t = (rt_observations s)[ob := (rt_observations s ! ob)\<lparr>ob_finished := True\<rparr>]
      \<and> (case ob_health (rt_observations s ! ob) of
           None \<Rightarrow> rt_objects t = rt_objects s
         | Some h \<Rightarrow> \<exists>x. rt_objects t = (rt_objects s)[h := x] \<and> he_active x = he_active (rt_objects s ! h) - 1))"

lemma settle_health_active [simp]: "he_active (settle_health mode x success unhealthy now h) = he_active h - 1"
  by (simp add: settle_health_def Let_def)

lemma finish_call_ended:
  assumes "\<not> ob_finished (rt_observations s ! ob)"
  shows "call_ended ob s (finish_call limit ob success unhealthy now s)"
  using assms
  by (auto simp: call_ended_def finish_call_def Let_def update_observation_def update_health_def split: option.splits)

lemma call_ended_health_ok:
  assumes "health_ok limit s" "call_ended ob s t" "ob < length (rt_observations s)" "\<not> ob_finished (rt_observations s ! ob)"
  shows "health_ok limit t"
proof -
  let ?x = "rt_observations s ! ob"
  have count: "length (filter (in_flight g) (rt_observations t)) + (if in_flight g ?x then 1 else 0)
      = length (filter (in_flight g) (rt_observations s))" for g
    using length_filter_update[OF assms(3), of "in_flight g" "?x\<lparr>ob_finished := True\<rparr>"] assms(2)
    by (simp add: call_ended_def in_flight_def)
  have mem: "\<exists>y \<in> set (rt_observations s). ob_health z = ob_health y \<and> ob_key z = ob_key y \<and> (ob_finished y \<longrightarrow> ob_finished z)"
    if "z \<in> set (rt_observations t)" for z
  proof -
    have "z = ?x\<lparr>ob_finished := True\<rparr> \<or> z \<in> set (rt_observations s)"
      using that assms(2) by (auto simp: call_ended_def dest: in_update)
    moreover have "?x \<in> set (rt_observations s)" using assms(3) by simp
    ultimately show ?thesis by (elim disjE) (auto intro: bexI[of _ ?x])
  qed
  have objs: "length (rt_objects t) = length (rt_objects s)"
    using assms(2) by (auto simp: call_ended_def split: option.splits)
  have active: "he_active (rt_objects t ! g) = length (filter (in_flight g) (rt_observations t))"
    if g: "g < length (rt_objects s)" for g
  proof (cases "ob_health ?x = Some g")
    case True
    then obtain y where "rt_objects t = (rt_objects s)[g := y]" "he_active y = he_active (rt_objects s ! g) - 1"
      using assms(2) by (auto simp: call_ended_def)
    then show ?thesis using assms(1,4) g count[of g] True by (auto simp: health_ok_def in_flight_def)
  next
    case False
    then have "rt_objects t ! g = rt_objects s ! g" using assms(2) by (auto simp: call_ended_def split: option.splits)
    then show ?thesis using assms(1) g count[of g] False by (auto simp: health_ok_def in_flight_def)
  qed
  have bounded: "h < length (rt_objects t)" if "z \<in> set (rt_observations t)" "ob_health z = Some h" for z h
    using mem[OF that(1)] that(2) assms(1) objs by (fastforce simp: health_ok_def)
  have held: "(ob_key z, h) \<in> set (rt_health t)" if "z \<in> set (rt_observations t)" "in_flight h z" for z h
    using mem[OF that(1)] that(2) assms(1,2) by (fastforce simp: health_ok_def in_flight_def call_ended_def)
  show ?thesis
    using assms(1,2) objs active bounded held by (auto simp: health_ok_def call_ended_def)
qed

lemma finish_call_ok:
  assumes "router_ok limit s" "ob < length (rt_observations s)"
  shows "router_ok limit (finish_call limit ob success unhealthy now s)"
proof (cases "ob_finished (rt_observations s ! ob)")
  case True
  then show ?thesis using assms by (simp add: finish_call_def Let_def)
next
  case False
  note call_ended = finish_call_ended[OF False, of limit success unhealthy now]
  have "sessions_ok limit (finish_call limit ob success unhealthy now s)"
  proof -
    let ?s1 = "update_observation ob (\<lambda>x. x\<lparr>ob_finished := True\<rparr>) s"
    have keep: "sessions_ok limit (update_health h f u) = sessions_ok limit u" for h f u
      by (simp add: update_health_def sessions_ok_def)
    have "sessions_ok limit ?s1" using assms(1) by (simp add: router_ok_def sessions_ok_def update_observation_def)
    then show ?thesis
      using False
      by (auto simp: finish_call_def Let_def keep sessions_ok_forget sessions_ok_bind split: option.splits)
  qed
  moreover have "selections_ok (finish_call limit ob success unhealthy now s)"
    using assms call_ended by (auto simp: router_ok_def selections_ok_def call_ended_def nth_list_update)
  ultimately show ?thesis
    using call_ended_health_ok[OF _ call_ended assms(2) False] assms(1) by (simp add: router_ok_def)
qed

lemma finish_call_lengths [simp]:
  "length (rt_observations (finish_call limit ob success unhealthy now s)) = length (rt_observations s)"
  "rt_selections (finish_call limit ob success unhealthy now s) = rt_selections s"
  using finish_call_ended[of s ob limit success unhealthy now]
  by (cases "ob_finished (rt_observations s ! ob)"; auto simp: finish_call_def call_ended_def Let_def)+

lemma fold_finish_ok:
  "router_ok limit s \<Longrightarrow> \<forall>ob \<in> set obs. ob < length (rt_observations s) \<Longrightarrow>
     router_ok limit (foldl (\<lambda>s ob. finish_call limit ob False False now s) s obs)"
  by (induction obs arbitrary: s) (auto simp: finish_call_ok)

lemma first_response_ok:
  assumes "router_ok limit s" "ob < length (rt_observations s)"
  shows "router_ok limit (first_response ob now s)"
proof (cases "ob_first (rt_observations s ! ob) = None")
  case True
  let ?x = "rt_observations s ! ob"
  let ?t = "first_response ob now s"
  have obs: "rt_observations ?t = (rt_observations s)[ob := ?x\<lparr>ob_first := Some now\<rparr>]"
    and rest: "rt_objects ?t = rt_objects s" "rt_health ?t = rt_health s" "rt_selections ?t = rt_selections s"
      "rt_affinities ?t = rt_affinities s"
    using True by (simp_all add: first_response_def update_observation_def)
  have count: "length (filter (in_flight g) (rt_observations ?t)) = length (filter (in_flight g) (rt_observations s))" for g
    using length_filter_update[OF assms(2), of "in_flight g" "?x\<lparr>ob_first := Some now\<rparr>"]
    unfolding obs by (simp add: in_flight_def)
  have mem: "\<exists>y \<in> set (rt_observations s). ob_health z = ob_health y \<and> ob_key z = ob_key y \<and> ob_finished z = ob_finished y"
    if "z \<in> set (rt_observations ?t)" for z
  proof -
    have "z = ?x\<lparr>ob_first := Some now\<rparr> \<or> z \<in> set (rt_observations s)"
      using that unfolding obs by (rule in_update)
    moreover have "?x \<in> set (rt_observations s)" using assms(2) by simp
    ultimately show ?thesis by (elim disjE) (auto intro: bexI[of _ ?x])
  qed
  have h: "health_ok limit s" using assms(1) by (simp add: router_ok_def)
  have "h < length (rt_objects s)" if "z \<in> set (rt_observations ?t)" "ob_health z = Some h" for z h
    using mem[OF that(1)] that(2) h by (fastforce simp: health_ok_def)
  moreover have "(ob_key z, h) \<in> set (rt_health s)" if "z \<in> set (rt_observations ?t)" "in_flight h z" for z h
    using mem[OF that(1)] that(2) \<open>health_ok limit s\<close> by (fastforce simp: health_ok_def in_flight_def)
  ultimately have "health_ok limit ?t" using h count by (auto simp: health_ok_def rest)
  moreover have "selections_ok ?t"
    using assms by (auto simp: router_ok_def selections_ok_def rest obs nth_list_update)
  ultimately show ?thesis using assms(1) by (simp add: router_ok_def sessions_ok_def rest)
qed (use assms in \<open>auto simp: first_response_def\<close>)

lemma open_selection_ok: "router_ok limit s \<Longrightarrow> router_ok limit (open_selection affinity bound mode s)"
  using dict_remove_keys[of "rt_affinities s"] dict_remove_length[of _ "rt_affinities s"]
  by (auto simp: router_ok_def open_selection_def health_ok_def sessions_ok_def selections_ok_def nth_append
      less_Suc_eq intro: order.trans split: option.splits)

lemma forget_key_ok: "router_ok limit s \<Longrightarrow> router_ok limit (forget_key sel key s)"
  by (simp add: router_ok_def health_ok_cong[of "forget_key sel key s" s] sessions_ok_forget selections_ok_def)

lemma router_step_ok: "router_step limit s t \<Longrightarrow> router_ok limit s \<Longrightarrow> router_ok limit t"
proof (induction rule: router_step.induct)
  case (closed sel s now)
  then show ?case
    unfolding close_selection_def by (intro fold_finish_ok) (auto simp: router_ok_def selections_ok_def)
qed (simp_all add: open_selection_ok start_call_ok first_response_ok finish_call_ok forget_key_ok)

lemma new_router_ok: "router_ok limit new_router"
  by (simp add: router_ok_def health_ok_def sessions_ok_def selections_ok_def new_router_def)

lemma reachable_ok: "router_reachable limit s \<Longrightarrow> router_ok limit s"
  by (induction rule: router_reachable.induct) (auto intro: router_step_ok new_router_ok)

section \<open>Ends of calls\<close>

lemma finish_call_observations:
  "rt_observations (finish_call limit ob success unhealthy now s) =
     (if ob_finished (rt_observations s ! ob) then rt_observations s
      else (rt_observations s)[ob := (rt_observations s ! ob)\<lparr>ob_finished := True\<rparr>])"
proof (cases "ob_finished (rt_observations s ! ob)")
  case True
  then show ?thesis by (simp add: finish_call_def Let_def)
next
  case False
  then show ?thesis using finish_call_ended[OF False, of limit success unhealthy now] by (simp add: call_ended_def)
qed

lemma finish_call_finishes:
  "ob < length (rt_observations s) \<Longrightarrow>
     ob_finished (rt_observations (finish_call limit ob success unhealthy now s) ! ob)"
  by (simp add: finish_call_observations)

lemma finish_call_keeps:
  shows "ob_finished (rt_observations s ! i) \<Longrightarrow>
      ob_finished (rt_observations (finish_call limit ob success unhealthy now s) ! i)"
    and "ob_selection (rt_observations (finish_call limit ob success unhealthy now s) ! i) = ob_selection (rt_observations s ! i)"
proof -
  let ?xs = "rt_observations s"
  have "?xs[ob := (?xs ! ob)\<lparr>ob_finished := True\<rparr>] ! i = ?xs ! i
      \<or> ?xs[ob := (?xs ! ob)\<lparr>ob_finished := True\<rparr>] ! i = (?xs ! i)\<lparr>ob_finished := True\<rparr>"
    by (cases "ob < length ?xs"; cases "ob = i") (simp_all add: list_update_beyond)
  then have "rt_observations (finish_call limit ob success unhealthy now s) ! i = ?xs ! i
      \<or> rt_observations (finish_call limit ob success unhealthy now s) ! i = (?xs ! i)\<lparr>ob_finished := True\<rparr>"
    by (simp add: finish_call_observations)
  then show "ob_finished (?xs ! i) \<Longrightarrow>
      ob_finished (rt_observations (finish_call limit ob success unhealthy now s) ! i)"
    and "ob_selection (rt_observations (finish_call limit ob success unhealthy now s) ! i) = ob_selection (?xs ! i)"
    by auto
qed

lemma fold_finish_finishes:
  assumes "i < length (rt_observations s)" "i \<in> set obs \<or> ob_finished (rt_observations s ! i)"
  shows "ob_finished (rt_observations (foldl (\<lambda>s ob. finish_call limit ob False False now s) s obs) ! i)"
  using assms
proof (induction obs arbitrary: s)
  case (Cons ob obs)
  have "i \<in> set obs \<or> ob_finished (rt_observations (finish_call limit ob False False now s) ! i)"
    using Cons.prems finish_call_finishes[of ob s limit False False now]
      finish_call_keeps(1)[of s i limit ob False False now] by auto
  then show ?case using Cons.IH[of "finish_call limit ob False False now s"] Cons.prems(1) by simp
qed simp

lemma fold_finish_selection:
  "ob_selection (rt_observations (foldl (\<lambda>s ob. finish_call limit ob False False now s) s obs) ! i)
     = ob_selection (rt_observations s ! i)"
  by (induction obs arbitrary: s) (simp_all add: finish_call_keeps(2))

lemma fold_finish_lengths [simp]:
  "length (rt_observations (foldl (\<lambda>s ob. finish_call limit ob False False now s) s obs)) = length (rt_observations s)"
  by (induction obs arbitrary: s) simp_all

section \<open>Rankings\<close>

lemma bound_attempt_member: "bound_attempt q s affinity ranked = Some a \<Longrightarrow> a \<in> set ranked"
  by (auto simp: bound_attempt_def dest: find_key_Some_D split: option.splits if_splits)

lemma rank_attempts_mset: "mset (rank_attempts q s affinity attempts) = mset attempts"
proof (cases "bound_attempt q s affinity (sort_key (score q s attempts) attempts)")
  case (Some a)
  have "a \<in> set attempts" using bound_attempt_member[OF Some] by simp
  then show ?thesis using Some by (simp add: rank_attempts_def)
qed (simp add: rank_attempts_def)

lemma bucket_le: "score q s attempts a \<le> score q s attempts b \<Longrightarrow> bucket_of q s a \<le> bucket_of q s b"
  by (auto simp: score_def less_eq_prod_def less_prod_def)

lemma sorted_buckets:
  "sorted_wrt (\<lambda>a b. bucket_of q s a \<le> bucket_of q s b) (sort_key (score q s attempts) attempts)"
proof -
  have "sorted_wrt (\<lambda>a b. score q s attempts a \<le> score q s attempts b) (sort_key (score q s attempts) attempts)"
    using sorted_sort_key[of "score q s attempts" attempts] by (simp add: sorted_wrt_map)
  then show ?thesis by (rule sorted_wrt_mono_rel[rotated]) (rule bucket_le)
qed

lemma sorted_wrt_remove1: "sorted_wrt p xs \<Longrightarrow> sorted_wrt p (remove1 x xs)"
  by (induction xs) (auto dest: notin_set_remove1)

lemma renumber_parts:
  "length (renumber i as) = length as"
  "map selector_of (renumber i as) = map selector_of as"
  "map at_position (renumber i as) = [i ..< i + length as]"
proof -
  show "length (renumber i as) = length as" by (induction i as rule: renumber.induct) auto
  show "map selector_of (renumber i as) = map selector_of as"
    by (induction i as rule: renumber.induct) (auto simp: selector_of_def)
  show "map at_position (renumber i as) = [i ..< i + length as]"
    by (induction i as rule: renumber.induct) (auto simp: upt_rec)
qed


section \<open>Tiers\<close>

lemma bucket_cong: "selector_of a = selector_of b \<Longrightarrow> at_instance a = at_instance b \<Longrightarrow> bucket_of q s a = bucket_of q s b"
  by (simp add: bucket_of_def health_of_def offering_of_def cong: option.case_cong)

lemma renumber_buckets: "map (bucket_of q s) (renumber i as) = map (bucket_of q s) as"
  by (induction i as rule: renumber.induct) (auto intro!: bucket_cong simp: selector_of_def)

definition tier_order :: "ranking \<Rightarrow> router \<Rightarrow> 'k attempt list \<Rightarrow> bool" where
  "tier_order q s as = sorted (map (bucket_of q s) as)"

lemma tier_order_sort: "tier_order q s (sort_key (score q s attempts) attempts)"
  using sorted_buckets[of q s attempts] by (simp add: tier_order_def sorted_wrt_map)

lemma tier_order_remove1: "tier_order q s as \<Longrightarrow> tier_order q s (remove1 a as)"
  by (simp add: tier_order_def sorted_wrt_map sorted_wrt_remove1)

lemma tier_order_take: "tier_order q s as \<Longrightarrow> tier_order q s (take n as)"
  by (simp add: tier_order_def sorted_wrt_take flip: take_map)

lemma tier_order_renumber [simp]: "tier_order q s (renumber i as) = tier_order q s as"
  by (simp add: tier_order_def renumber_buckets)

text \<open>Whether an attempt is the session's own offering, healthy and in the preferred region.\<close>

definition session_lead :: "ranking \<Rightarrow> router \<Rightarrow> string option \<Rightarrow> 'k attempt \<Rightarrow> bool" where
  "session_lead q s affinity a =
     (sticky_key q s affinity = Some (rk_keys q (selector_of a))
      \<and> \<not> fst (snd (bucket_of q s a)) \<and> snd (snd (snd (bucket_of q s a))) = 0)"

lemma bound_attempt_leads: "bound_attempt q s affinity ranked = Some a \<Longrightarrow> session_lead q s affinity a"
  by (auto simp: bound_attempt_def session_lead_def may_lead_def dest: find_key_Some_D split: option.splits if_splits prod.splits)

lemma session_lead_cong:
  "selector_of a = selector_of b \<Longrightarrow> at_instance a = at_instance b \<Longrightarrow> session_lead q s aff a = session_lead q s aff b"
  using bucket_cong[of a b q s] by (simp add: session_lead_def)

lemma rank_attempts_tiers:
  "tier_order q s (rank_attempts q s affinity attempts)
   \<or> (\<exists>a rest. rank_attempts q s affinity attempts = a # rest \<and> session_lead q s affinity a \<and> tier_order q s rest)"
proof (cases "bound_attempt q s affinity (sort_key (score q s attempts) attempts)")
  case (Some a)
  then show ?thesis
    using bound_attempt_leads[OF Some] tier_order_remove1[OF tier_order_sort[of q s attempts], of a]
    by (simp add: rank_attempts_def)
qed (simp add: rank_attempts_def tier_order_sort)

text \<open>An own key that has a price and is not cooling down.\<close>

definition ready_own :: "ranking \<Rightarrow> router \<Rightarrow> 'k attempt \<Rightarrow> bool" where
  "ready_own q s a =
     (rk_costs q (selector_of a) \<noteq> None \<and> selector_of a \<in> set (rk_own q)
      \<and> (case health_of q s a of None \<Rightarrow> True | Some h \<Rightarrow> he_cooldown h \<le> rk_now q))"

lemma ready_own_bucket: "ready_own q s a = (\<exists>l. bucket_of q s a = (False, False, False, l))"
  by (auto simp: ready_own_def bucket_of_def split: option.splits)

lemma ready_own_least:
  assumes "bucket_of q s b \<le> bucket_of q s a" "ready_own q s a"
  shows "ready_own q s b"
  using assms by (cases "bucket_of q s b") (auto simp: ready_own_bucket less_eq_prod_def less_prod_def)

lemma ready_own_leads_sort:
  assumes "a \<in> set attempts" "ready_own q s a"
  shows "ready_own q s (hd (sort_key (score q s attempts) attempts))"
proof (cases "sort_key (score q s attempts) attempts")
  case Nil
  then have "set attempts = {}" by (metis set_sort set_empty)
  then show ?thesis using assms(1) by simp
next
  case (Cons b rest)
  have "a \<in> set (b # rest)" using assms(1) by (metis Cons set_sort)
  then have "bucket_of q s b \<le> bucket_of q s a"
    using sorted_buckets[of q s attempts] by (auto simp: Cons)
  then show ?thesis using assms(2) ready_own_least by (simp add: Cons)
qed

lemma bound_attempt_ready_own:
  assumes "bound_attempt q s affinity ranked = Some b" "a \<in> set ranked" "ready_own q s a" "ready_own q s (hd ranked)"
  shows "ready_own q s b"
proof -
  have "may_lead q s ranked b" using assms(1) by (auto simp: bound_attempt_def split: option.splits if_splits)
  then show ?thesis
    using assms(2-4) by (cases "bucket_of q s b") (auto simp: may_lead_def ready_own_bucket list_all_iff)
qed

lemma rank_attempts_ready_own:
  assumes "a \<in> set attempts" "ready_own q s a"
  shows "ready_own q s (hd (rank_attempts q s affinity attempts))"
proof (cases "bound_attempt q s affinity (sort_key (score q s attempts) attempts)")
  case None
  then show ?thesis using ready_own_leads_sort[OF assms] by (simp add: rank_attempts_def)
next
  case (Some b)
  have "a \<in> set (sort_key (score q s attempts) attempts)" using assms(1) by simp
  then have "ready_own q s b"
    using bound_attempt_ready_own[OF Some _ assms(2) ready_own_leads_sort[OF assms]] by blast
  then show ?thesis using Some by (simp add: rank_attempts_def)
qed

lemma below_limit_selector [simp]: "dc_selector (below_limit limit a) = selector_of a"
  by (simp add: below_limit_def drop_candidate_def)

lemma renumber_Nil [simp]: "renumber i as = [] \<longleftrightarrow> as = []"
  by (cases as) simp_all

lemma renumber_hd:
  "as \<noteq> [] \<Longrightarrow> selector_of (hd (renumber i as)) = selector_of (hd as)
     \<and> at_instance (hd (renumber i as)) = at_instance (hd as)"
  by (cases as) (simp_all add: selector_of_def)

lemma renumber_tl: "as \<noteq> [] \<Longrightarrow> tl (renumber i as) = renumber (Suc i) (tl as)"
  by (cases as) simp_all

lemma rank_plan:
  "cp_attempts (fst (rank_offerings ck q aff limit plan s))
     = renumber 1 (take limit (rank_attempts (with_keys ck (cp_attempts plan) q) s aff (cp_attempts plan)))"
  "cp_dropped (fst (rank_offerings ck q aff limit plan s)) = cp_dropped plan @ map (below_limit limit)
     (drop limit (rank_attempts (with_keys ck (cp_attempts plan) q) s aff (cp_attempts plan)))"
  by (simp_all add: rank_offerings_def rank_offerings_with_def Let_def)

lemma rank_step: "router_step limit s (snd (snd (rank_offerings ck q aff n plan s)))"
  by (simp add: rank_offerings_def rank_offerings_with_def Let_def router_step.ranked)

text \<open>All calls in flight ended, so every load is zero.\<close>

lemma idle_when_finished:
  assumes "router_ok limit s" "\<And>i. i < length (rt_observations s) \<Longrightarrow> ob_finished (rt_observations s ! i)"
    "h < length (rt_objects s)"
  shows "he_active (rt_objects s ! h) = 0"
proof -
  have "filter (in_flight h) (rt_observations s) = []"
    using assms(2) by (auto simp: filter_empty_conv in_flight_def in_set_conv_nth)
  then show ?thesis using assms(1,3) by (simp add: router_ok_def health_ok_def)
qed

lemma close_finishes:
  assumes "router_ok limit s" "i < length (rt_observations s)"
    "ob_finished (rt_observations s ! i) \<or> ob_selection (rt_observations s ! i) = sel"
  shows "ob_finished (rt_observations (close_selection limit sel now s) ! i)"
  unfolding close_selection_def
  by (rule fold_finish_finishes[OF assms(2)]) (use assms in \<open>auto simp: router_ok_def selections_ok_def\<close>)

section \<open>Properties\<close>

definition sample_settings :: automatic_routing where
  "sample_settings = \<lparr>ar_enabled = True, ar_session_ttl = 3600, ar_default_region = None, ar_country_header = None,
     ar_offerings = []\<rparr>"

definition sample_ranking :: ranking where
  "sample_ranking = \<lparr>rk_settings = sample_settings, rk_costs = (\<lambda>sel. Some 1), rk_region = None, rk_mode = ''chat'',
     rk_own = [''b:m''], rk_keys = (\<lambda>sel. []), rk_now = 0\<rparr>"

definition sample_offer :: "nat \<Rightarrow> string \<Rightarrow> unit attempt" where
  "sample_offer i inst = \<lparr>at_position = i, at_instance = inst, at_provider = ''openai'', at_model = ''m'', at_kwargs = (),
     at_display_model = None, at_selection_reason = ''catalog'', at_deployment_paid = False\<rparr>"

definition sample_routed :: "unit compiled_plan" where
  "sample_routed = \<lparr>cp_policy_name = ''m'', cp_attempts = [sample_offer 1 ''a'', sample_offer 2 ''b''],
     cp_guardrails = [], cp_dropped = [], cp_ordering = None\<rparr>"

text \<open>Two credentials in a table of one: the second call runs without a tracked load.\<close>

definition sample_router :: router where
  "sample_router = start_call 1 0 ''k2'' 1 (start_call 1 0 ''k1'' 0 (open_selection None True ''chat'' new_router))"

lemma sample_router_reachable: "router_reachable 1 sample_router"
proof -
  have "router_reachable 1 (open_selection None True ''chat'' new_router)"
    by (rule router_reachable.step[OF router_reachable.start router_step.ranked])
  then have "router_reachable 1 (start_call 1 0 ''k1'' 0 (open_selection None True ''chat'' new_router))"
    by (rule router_reachable.step) (rule router_step.called, code_simp)
  then show ?thesis
    unfolding sample_router_def by (rule router_reachable.step) (rule router_step.called, code_simp)
qed

text \<open>
  \<^bold>\<open>C33\<close>: whatever calls, ends of calls, rankings and closings are interleaved, the table of credentials and the table of
  sessions stay within their limit, the load kept for a credential is the number of its calls in flight, and a
  call in flight that has a load keeps it in the table under its credential: only idle credentials are evicted.
\<close>

theorem load_is_calls_in_flight:
  assumes "router_reachable limit s"
  shows "length (rt_health s) \<le> limit \<and> length (rt_affinities s) \<le> limit
    \<and> (map_of (rt_health s) key = Some h \<longrightarrow>
         he_active (rt_objects s ! h) = length (filter (in_flight h) (rt_observations s)))
    \<and> (ob \<in> set (rt_observations s) \<and> in_flight h ob \<longrightarrow> map_of (rt_health s) (ob_key ob) = Some h)"
  using reachable_ok[OF assms]
  by (auto simp: router_ok_def health_ok_def sessions_ok_def dest!: map_of_SomeD intro!: map_of_is_SomeI)

theorem load_is_calls_in_flight_witness:
  "length (rt_health sample_router) \<le> 1 \<and> map_of (rt_health sample_router) ''k2'' = None
   \<and> he_active (rt_objects sample_router ! 0) = length (filter (in_flight 0) (rt_observations sample_router))
   \<and> map_of (rt_health sample_router) (ob_key (rt_observations sample_router ! 0)) = Some 0"
proof -
  have seen: "map_of (rt_health sample_router) ''k2'' = None" "map_of (rt_health sample_router) ''k1'' = Some 0"
    "0 < length (rt_observations sample_router)" "in_flight 0 (rt_observations sample_router ! 0)" by code_simp+
  then show ?thesis
    using load_is_calls_in_flight[OF sample_router_reachable, of "''k1''" 0 "rt_observations sample_router ! 0"] by simp
qed

text \<open>
  \<^bold>\<open>C34\<close>: closing a selection ends every call it started and disturbs no other; once every call in flight belongs to it,
  closing it leaves no credential with a load. So a request that ends on any path gives back what it held.
\<close>

theorem closed_selection_leaves_no_load:
  assumes "router_reachable limit s"
    "i < length (rt_observations s)" "ob_selection (rt_observations s ! i) = sel"
  shows "ob_finished (rt_observations (close_selection limit sel now s) ! i)
    \<and> router_reachable limit (close_selection limit sel now s)
    \<and> ((\<forall>j < length (rt_observations s). ob_finished (rt_observations s ! j) \<or> ob_selection (rt_observations s ! j) = sel)
        \<longrightarrow> h < length (rt_objects (close_selection limit sel now s))
        \<longrightarrow> he_active (rt_objects (close_selection limit sel now s) ! h) = 0)"
proof (intro conjI impI)
  let ?t = "close_selection limit sel now s"
  note ok = reachable_ok[OF assms(1)]
  show "ob_finished (rt_observations ?t ! i)" using assms(3) by (intro close_finishes[OF ok assms(2)]) simp
  have "sel < length (rt_selections s)" using ok assms(2,3) by (auto simp: router_ok_def selections_ok_def)
  then show reach: "router_reachable limit ?t" using assms(1) by (intro router_reachable.step[OF _ router_step.closed])
  assume ends: "\<forall>j < length (rt_observations s). ob_finished (rt_observations s ! j) \<or> ob_selection (rt_observations s ! j) = sel"
    and "h < length (rt_objects ?t)"
  then show "he_active (rt_objects ?t ! h) = 0"
    by (intro idle_when_finished[OF reachable_ok[OF reach]])
      (auto simp: close_selection_def intro: close_finishes[OF ok, unfolded close_selection_def])
qed

theorem closed_selection_leaves_no_load_witness:
  "he_active (rt_objects sample_router ! 0) = 1
   \<and> he_active (rt_objects (close_selection 1 0 5 sample_router) ! 0) = 0"
proof (intro conjI)
  show "he_active (rt_objects sample_router ! 0) = 1" by code_simp
  have seen: "0 < length (rt_observations sample_router)" "ob_selection (rt_observations sample_router ! 0) = 0"
    "0 < length (rt_objects (close_selection 1 0 5 sample_router))"
    "list_all (\<lambda>x. ob_selection x = 0) (rt_observations sample_router)" by code_simp+
  then show "he_active (rt_objects (close_selection 1 0 5 sample_router) ! 0) = 0"
    using closed_selection_leaves_no_load[OF sample_router_reachable seen(1,2), of 5 0] by (simp add: list_all_length)
qed

text \<open>
  \<^bold>\<open>C35\<close>: a ranking invents and loses no offering: those it keeps and those it drops past the limit are the plan's. It
  keeps as many as the limit allows, numbers them from one, and orders them by tier (priced, healthy, the
  organization's own key, in the region), but that the offering a session is bound to may lead while it is
  healthy and in the region.
\<close>

theorem ranking_keeps_plan_and_tiers:
  "let as = cp_attempts (fst (rank_offerings ck q aff limit plan s));
       dropped = drop (length (cp_dropped plan)) (cp_dropped (fst (rank_offerings ck q aff limit plan s)));
       q' = with_keys ck (cp_attempts plan) q
   in mset (map selector_of as) + mset (map dc_selector dropped) = mset (map selector_of (cp_attempts plan))
    \<and> map at_position as = [1 ..< 1 + min limit (length (cp_attempts plan))]
    \<and> (tier_order q' s as \<or> (session_lead q' s aff (hd as) \<and> tier_order q' s (tl as)))"
proof -
  define as where "as = cp_attempts (fst (rank_offerings ck q aff limit plan s))"
  define dropped where "dropped = drop (length (cp_dropped plan)) (cp_dropped (fst (rank_offerings ck q aff limit plan s)))"
  define q' where "q' = with_keys ck (cp_attempts plan) q"
  let ?r = "rank_attempts q' s aff (cp_attempts plan)"
  have parts: "as = renumber 1 (take limit ?r)" "dropped = map (below_limit limit) (drop limit ?r)"
    by (simp_all add: as_def dropped_def q'_def rank_plan)
  have same: "mset ?r = mset (cp_attempts plan)" by (rule rank_attempts_mset)
  have "mset (map selector_of as) + mset (map dc_selector dropped)
      = image_mset selector_of (mset (take limit ?r) + mset (drop limit ?r))"
    by (simp add: parts renumber_parts comp_def)
  also have "\<dots> = image_mset selector_of (mset ?r)" by (simp flip: mset_append)
  also have "\<dots> = mset (map selector_of (cp_attempts plan))" using same by simp
  finally have kept: "mset (map selector_of as) + mset (map dc_selector dropped) = mset (map selector_of (cp_attempts plan))" .
  have "length ?r = length (cp_attempts plan)" using same by (metis size_mset)
  then have positions: "map at_position as = [1 ..< 1 + min limit (length (cp_attempts plan))]"
    by (simp add: parts renumber_parts min.commute)
  have "tier_order q' s as \<or> (session_lead q' s aff (hd as) \<and> tier_order q' s (tl as))"
  proof (cases "tier_order q' s ?r \<or> limit = 0")
    case True
    then show ?thesis by (cases "limit = 0") (simp_all add: parts tier_order_take, simp add: tier_order_def)
  next
    case False
    then obtain a rest where r: "?r = a # rest" and lead: "session_lead q' s aff a" "tier_order q' s rest"
      using rank_attempts_tiers by metis
    obtain n where "limit = Suc n" using False by (cases limit) auto
    moreover have "session_lead q' s aff (hd (renumber 1 (a # take n rest))) = session_lead q' s aff a"
      by (rule session_lead_cong) (simp_all add: renumber_hd[of "a # take n rest", simplified] selector_of_def)
    ultimately show ?thesis using lead by (simp add: parts r tier_order_take)
  qed
  then show ?thesis using kept positions unfolding as_def dropped_def q'_def Let_def by blast
qed

text \<open>
  \<^bold>\<open>C36\<close>: an offering that has a price, runs on the organization's own key and is not cooling down leads every other:
  when the plan has one, the first attempt of the ranking is one, whatever the session is bound to and however
  cheap or fast the others are.
\<close>

theorem own_key_leads:
  assumes "a \<in> set (cp_attempts plan)" "ready_own (with_keys ck (cp_attempts plan) q) s a" "0 < limit"
  shows "cp_attempts (fst (rank_offerings ck q aff limit plan s)) \<noteq> []
    \<and> ready_own (with_keys ck (cp_attempts plan) q) s (hd (cp_attempts (fst (rank_offerings ck q aff limit plan s))))"
proof -
  let ?q = "with_keys ck (cp_attempts plan) q"
  let ?r = "take limit (rank_attempts ?q s aff (cp_attempts plan))"
  have "rank_attempts ?q s aff (cp_attempts plan) \<noteq> []"
    using assms(1) rank_attempts_mset[of ?q s aff "cp_attempts plan"] by auto
  then have some: "?r \<noteq> []" and "hd ?r = hd (rank_attempts ?q s aff (cp_attempts plan))"
    using assms(3) by (simp_all add: hd_take)
  then have "ready_own ?q s (hd ?r)" using rank_attempts_ready_own[OF assms(1,2)] by simp
  then show ?thesis
    using some renumber_hd[OF some, of 1] bucket_cong[of "hd (renumber 1 ?r)" "hd ?r" ?q s]
    by (simp add: rank_plan ready_own_bucket)
qed

theorem own_key_leads_witness:
  "ready_own (with_keys (\<lambda>a. at_instance a) (cp_attempts sample_routed) sample_ranking) new_router
     (hd (cp_attempts (fst (rank_offerings (\<lambda>a. at_instance a) sample_ranking (Some ''s'') 5 sample_routed new_router))))"
proof -
  have "sample_offer 2 ''b'' \<in> set (cp_attempts sample_routed)" by (simp add: sample_routed_def)
  moreover have "ready_own (with_keys (\<lambda>a. at_instance a) (cp_attempts sample_routed) sample_ranking) new_router
      (sample_offer 2 ''b'')"
    by (simp add: ready_own_def with_keys_def sample_ranking_def selector_of_def sample_offer_def health_of_def new_router_def)
  ultimately show ?thesis
    using own_key_leads[of "sample_offer 2 ''b''" sample_routed "\<lambda>a. at_instance a" sample_ranking new_router 5 "Some ''s''"]
    by simp
qed

end
