(* ===== verification/Guard_Globs.thy ===== *)
theory Guard_Globs
  imports Prelude
begin

text \<open>
  Globs of the guardrails (\<open>cli/src/otari_agent/domain/evaluators.py\<close>): \<open>_segment_matches\<close> places the chunks between
  the stars of one path segment from left to right, \<open>_segments_match\<close> handles the segment \<open>**\<close> that crosses
  directories. \<open>wild\<close> and \<open>path_glob\<close> say what a pattern means, by trying every split; the laws show that the
  placement from the left, which never goes back, agrees with them.
\<close>

section \<open>One segment\<close>

text \<open>\<open>s.find(chunk)\<close> and \<open>text.find(chunk, start, end)\<close>; a missing answer is Python's \<open>-1\<close>.\<close>

fun find_in :: "string \<Rightarrow> string \<Rightarrow> nat option" where
  "find_in chunk [] = (if chunk = [] then Some 0 else None)"
| "find_in chunk (c # cs) = (if is_prefix chunk (c # cs) then Some 0 else map_option Suc (find_in chunk cs))"

definition find_between :: "string \<Rightarrow> string \<Rightarrow> nat \<Rightarrow> nat \<Rightarrow> nat option" where
  "find_between s chunk start stop = (if stop < start then None
     else map_option (\<lambda>i. start + i) (find_in chunk (drop start (take stop s))))"

text \<open>The loop over the middle chunks.\<close>

fun place_chunks :: "string \<Rightarrow> nat \<Rightarrow> nat \<Rightarrow> string list \<Rightarrow> bool" where
  "place_chunks s stop position [] = True"
| "place_chunks s stop position (chunk # rest) =
     (if chunk = [] then place_chunks s stop position rest
      else case find_between s chunk position stop of
             None \<Rightarrow> False
           | Some found \<Rightarrow> place_chunks s stop (found + length chunk) rest)"

definition segment_matches :: "string \<Rightarrow> string \<Rightarrow> bool" where
  "segment_matches pattern s =
     (let chunks = split_on CHR ''*'' pattern in
      if length chunks = 1 then pattern = s
      else
        let first = hd chunks; middle = butlast (tl chunks); end_chunk = last chunks in
        if first \<noteq> [] \<and> \<not> is_prefix first s then False
        else if end_chunk \<noteq> [] \<and> \<not> ends_with s end_chunk then False
        else if int (length first) > int (length s) - int (length end_chunk) then False
        else place_chunks s (length s - length end_chunk) (length first) middle)"

text \<open>What a pattern means.\<close>

fun wild :: "string \<Rightarrow> string \<Rightarrow> bool" where
  "wild [] s = (s = [])"
| "wild (p # ps) [] = (p = CHR ''*'' \<and> wild ps [])"
| "wild (p # ps) (c # cs) =
     (if p = CHR ''*'' then wild ps (c # cs) \<or> wild (p # ps) cs else p = c \<and> wild ps cs)"

section \<open>A path\<close>

definition double_star :: string where
  "double_star = ''**''"

definition index_of :: "'a \<Rightarrow> 'a list \<Rightarrow> nat" where
  "index_of x xs = length (takeWhile (\<lambda>y. y \<noteq> x) xs)"

definition segments_match :: "string list \<Rightarrow> string list \<Rightarrow> bool" where
  "segments_match ps ss =
     (if double_star \<notin> set ps then length ps = length ss \<and> list_all2 segment_matches ps ss
      else
        let star = index_of double_star ps; front = take star ps; rear = drop (Suc star) ps in
        if length ss < length front + length rear + 1 then False
        else list_all2 segment_matches front (take (length front) ss)
           \<and> list_all2 segment_matches rear (if rear = [] then [] else drop (length ss - length rear) ss))"

definition matches_any :: "string \<Rightarrow> string list \<Rightarrow> string option" where
  "matches_any path patterns =
     (let ss = split_on CHR ''/'' path in find (\<lambda>p. segments_match (split_on CHR ''/'' p) ss) patterns)"

definition any_path_matches :: "string list \<Rightarrow> string list \<Rightarrow> bool" where
  "any_path_matches patterns paths = list_ex (\<lambda>path. matches_any path patterns \<noteq> None) paths"

definition matched_changed_paths :: "string list \<Rightarrow> string list \<Rightarrow> string list" where
  "matched_changed_paths patterns changed = sort (filter (\<lambda>path. matches_any path patterns \<noteq> None) changed)"

text \<open>What a list of pattern segments means: \<open>**\<close> stands for one segment or more.\<close>

fun path_glob :: "string list \<Rightarrow> string list \<Rightarrow> bool" where
  "path_glob [] ss = (ss = [])"
| "path_glob (p # ps) [] = False"
| "path_glob (p # ps) (s # ss) =
     (if p = double_star then path_glob ps ss \<or> path_glob (p # ps) ss else wild p s \<and> path_glob ps ss)"

definition glob_meaning :: "string \<Rightarrow> string \<Rightarrow> bool" where
  "glob_meaning glob path = path_glob (split_on CHR ''/'' glob) (split_on CHR ''/'' path)"

definition double_stars :: "string \<Rightarrow> nat" where
  "double_stars glob = length (filter (\<lambda>s. s = double_star) (split_on CHR ''/'' glob))"

section \<open>Placement from the left is enough\<close>

lemma find_in_Some:
  "find_in m s = Some i \<Longrightarrow> \<exists>v. s = take i s @ m @ v \<and> i \<le> length s"
  by (induction s arbitrary: i) (auto simp: is_prefix_iff split: if_splits)

lemma find_in_least:
  "s = u @ m @ v \<Longrightarrow> \<exists>i. find_in m s = Some i \<and> i \<le> length u"
proof (induction s arbitrary: u)
  case (Cons c cs)
  show ?case
  proof (cases u)
    case Nil
    then have "is_prefix m (c # cs)" using Cons.prems by (auto simp: is_prefix_iff)
    then show ?thesis by simp
  next
    case (Cons d us)
    then have "cs = us @ m @ v" using Cons.prems by simp
    then show ?thesis using Cons.IH[of us] Cons by auto
  qed
qed simp

text \<open>The chunks lie in a window in order.\<close>

fun chunks_fit :: "string list \<Rightarrow> string \<Rightarrow> bool" where
  "chunks_fit [] w = True"
| "chunks_fit (m # ms) w = (\<exists>u v. w = u @ m @ v \<and> chunks_fit ms v)"

lemma fits_later: "chunks_fit ms w \<Longrightarrow> chunks_fit ms (u @ w)"
  by (cases ms) (simp, metis append.assoc chunks_fit.simps(2))

lemma fits_from_first:
  "find_in m w = Some i \<Longrightarrow> chunks_fit (m # ms) w \<longleftrightarrow> chunks_fit ms (drop (i + length m) w)"
proof
  assume i: "find_in m w = Some i" and "chunks_fit (m # ms) w"
  then obtain u v where w: "w = u @ m @ v" and v: "chunks_fit ms v" by auto
  obtain j where "find_in m w = Some j" and "j \<le> length u" using find_in_least[OF w] by auto
  then have le: "i \<le> length u" using i by simp
  have "drop (i + length m) w = drop (i + length m) (u @ m) @ v"
    using le w by simp
  then show "chunks_fit ms (drop (i + length m) w)"
    using fits_later[OF v, of "drop (i + length m) (u @ m)"] by (simp only:)
next
  assume i: "find_in m w = Some i" and rest: "chunks_fit ms (drop (i + length m) w)"
  obtain v where w: "w = take i w @ m @ v" and le: "i \<le> length w" using find_in_Some[OF i] by auto
  have "drop (length (take i w) + length m) (take i w @ m @ v) = v" by simp
  then have "drop (i + length m) w = v" using w le by (metis length_take min.absorb2)
  then show "chunks_fit (m # ms) w" using w rest by auto
qed

lemma fits_none: "find_in m w = None \<Longrightarrow> \<not> chunks_fit (m # ms) w"
  using find_in_least by fastforce

lemma place_chunks_fits:
  "position \<le> stop \<Longrightarrow> stop \<le> length s \<Longrightarrow>
     place_chunks s stop position ms \<longleftrightarrow> chunks_fit ms (drop position (take stop s))"
proof (induction ms arbitrary: position)
  case (Cons m ms)
  show ?case
  proof (cases "m = []")
    case True
    then show ?thesis using Cons fits_later[of ms] by auto
  next
    case False
    let ?w = "drop position (take stop s)"
    show ?thesis
    proof (cases "find_in m ?w")
      case None
      then show ?thesis using False Cons.prems fits_none[OF None] by (simp add: find_between_def del: chunks_fit.simps)
    next
      case (Some i)
      obtain v where w: "?w = take i ?w @ m @ v" and "i \<le> length ?w" using find_in_Some[OF Some] by auto
      then have "length ?w = i + length m + length v"
        by (metis append.assoc length_append length_take min.absorb2)
      then have le: "position + i + length m \<le> stop" using Cons.prems by simp
      have "chunks_fit (m # ms) ?w \<longleftrightarrow> chunks_fit ms (drop (position + i + length m) (take stop s))"
        using fits_from_first[OF Some, of ms] by (simp add: add.commute add.left_commute del: chunks_fit.simps)
      then show ?thesis
        using False Some Cons.prems Cons.IH[OF le Cons.prems(2)]
        by (simp add: find_between_def add.assoc del: chunks_fit.simps)
    qed
  qed
qed simp

section \<open>The meaning by chunks\<close>

text \<open>The chunks of a pattern, all but the last followed by a star.\<close>

fun spaced :: "string list \<Rightarrow> string \<Rightarrow> bool" where
  "spaced [] s = (s = [])"
| "spaced [m] s = (s = m)"
| "spaced (m # n # ms) s = (\<exists>u v. s = m @ u @ v \<and> spaced (n # ms) v)"

lemma spaced_push:
  "spaced ((c # m) # ms) s \<longleftrightarrow> (\<exists>cs. s = c # cs \<and> spaced (m # ms) cs)"
  by (cases ms) auto

lemma spaced_star:
  "ms \<noteq> [] \<Longrightarrow> spaced ([] # ms) s \<longleftrightarrow> (\<exists>u v. s = u @ v \<and> spaced ms v)"
  by (cases ms) auto

lemma wild_spaced: "wild p s \<longleftrightarrow> spaced (split_on CHR ''*'' p) s"
proof (induction p s rule: wild.induct)
  case (2 p ps)
  show ?case
  proof (cases "p = CHR ''*''")
    case True
    then show ?thesis using 2 by (simp add: spaced_star)
  next
    case False
    then show ?thesis by (cases "split_on CHR ''*'' ps") (auto simp: spaced_push)
  qed
next
  case (3 p ps c cs)
  show ?case
  proof (cases "p = CHR ''*''")
    case True
    have "(\<exists>u v. c # cs = u @ v \<and> spaced (split_on CHR ''*'' ps) v) \<longleftrightarrow>
        spaced (split_on CHR ''*'' ps) (c # cs) \<or> (\<exists>u v. cs = u @ v \<and> spaced (split_on CHR ''*'' ps) v)"
      by (metis append_Cons append_Nil list.inject neq_Nil_conv)
    then show ?thesis using 3(1,2)[OF True] True by (simp add: spaced_star)
  next
    case False
    then show ?thesis using 3(3)[OF False] by (cases "split_on CHR ''*'' ps") (auto simp: spaced_push)
  qed
qed auto

lemma spaced_ends:
  "spaced (m # ms @ [l]) s \<longleftrightarrow> (\<exists>w. s = m @ w @ l \<and> chunks_fit ms w)"
proof (induction ms arbitrary: m s)
  case (Cons n ms)
  have "spaced (m # (n # ms) @ [l]) s \<longleftrightarrow> (\<exists>u v. s = m @ u @ v \<and> (\<exists>w. v = n @ w @ l \<and> chunks_fit ms w))"
    using Cons.IH by simp
  also have "\<dots> \<longleftrightarrow> (\<exists>w. s = m @ w @ l \<and> chunks_fit (n # ms) w)"
    by (auto; metis append.assoc)
  finally show ?case .
qed auto

lemma ends_with_iff: "ends_with s e \<longleftrightarrow> (\<exists>w. s = w @ e)"
  unfolding ends_with_def is_prefix_iff by (metis rev_append rev_rev_ident)

lemma segment_matches_wild: "segment_matches p s \<longleftrightarrow> wild p s"
proof (cases "split_on CHR ''*'' p" rule: list.exhaust)
  case (Cons m rest)
  show ?thesis
  proof (cases rest rule: rev_cases)
    case Nil
    have "\<And>x. split_on CHR ''*'' x = [m] \<Longrightarrow> x = m" for m
    proof -
      fix x m show "split_on CHR ''*'' x = [m] \<Longrightarrow> x = m"
        by (induction x arbitrary: m) (auto split: if_splits list.splits)
    qed
    then have "p = m" using Cons Nil by simp
    then show ?thesis using Cons Nil by (auto simp: segment_matches_def wild_spaced)
  next
    case (snoc ms l)
    have ends: "wild p s \<longleftrightarrow> (\<exists>w. s = m @ w @ l \<and> chunks_fit ms w)"
      unfolding wild_spaced using spaced_ends Cons snoc by simp
    have "(\<exists>w. s = m @ w @ l \<and> chunks_fit ms w) \<longleftrightarrow>
        is_prefix m s \<and> ends_with s l \<and> length m + length l \<le> length s
        \<and> chunks_fit ms (drop (length m) (take (length s - length l) s))"
    proof
      assume "\<exists>w. s = m @ w @ l \<and> chunks_fit ms w"
      then obtain w where "s = m @ w @ l" "chunks_fit ms w" by auto
      then show "is_prefix m s \<and> ends_with s l \<and> length m + length l \<le> length s
          \<and> chunks_fit ms (drop (length m) (take (length s - length l) s))"
        by (auto simp: is_prefix_iff ends_with_iff)
    next
      assume r: "is_prefix m s \<and> ends_with s l \<and> length m + length l \<le> length s
          \<and> chunks_fit ms (drop (length m) (take (length s - length l) s))"
      obtain a where a: "s = m @ a" using r by (auto simp: is_prefix_iff)
      obtain b where b: "s = b @ l" using r unfolding ends_with_iff by blast
      have "b = m @ drop (length m) b"
        using a b r by (metis append_eq_append_conv_if append_take_drop_id le_add_diff_inverse
            add_le_imp_le_right length_append)
      moreover have "drop (length m) (take (length s - length l) s) = drop (length m) b" using b by simp
      ultimately show "\<exists>w. s = m @ w @ l \<and> chunks_fit ms w" using b r by (metis append.assoc)
    qed
    then show ?thesis
      using Cons snoc ends place_chunks_fits[of "length m" "length s - length l" s ms]
      by (auto simp: segment_matches_def Let_def butlast_append is_prefix_iff ends_with_iff)
  qed
qed simp

section \<open>The meaning of a path pattern\<close>

lemma path_glob_plain:
  "double_star \<notin> set ps \<Longrightarrow> path_glob ps ss \<longleftrightarrow> list_all2 wild ps ss"
  by (induction ps ss rule: path_glob.induct) auto

lemma path_glob_length: "path_glob ps ss \<Longrightarrow> length ps \<le> length ss"
  by (induction ps ss rule: path_glob.induct) (auto split: if_splits)

lemma path_glob_star:
  assumes "double_star \<notin> set rear"
  shows "path_glob (double_star # rear) ss \<longleftrightarrow>
    length rear < length ss \<and> list_all2 wild rear (drop (length ss - length rear) ss)"
proof (induction ss)
  case (Cons s ss)
  have whole: "list_all2 wild rear ss \<longleftrightarrow> length ss = length rear \<and> list_all2 wild rear (drop (length ss - length rear) ss)"
    using list_all2_lengthD[of wild rear ss] by auto
  have "path_glob (double_star # rear) (s # ss) \<longleftrightarrow>
      length ss = length rear \<and> list_all2 wild rear (drop (length ss - length rear) ss)
      \<or> length rear < length ss \<and> list_all2 wild rear (drop (length ss - length rear) ss)"
    using Cons path_glob_plain[OF assms, of ss] whole by (simp add: double_star_def)
  then show ?case by (auto simp: Suc_diff_le)
qed simp

lemma path_glob_around_star:
  assumes "double_star \<notin> set front" "double_star \<notin> set rear"
  shows "path_glob (front @ double_star # rear) ss \<longleftrightarrow>
    length front + length rear < length ss \<and> list_all2 wild front (take (length front) ss)
    \<and> list_all2 wild rear (drop (length ss - length rear) ss)"
  using assms
proof (induction front arbitrary: ss)
  case Nil
  then show ?case using path_glob_star by auto
next
  case (Cons f front)
  show ?case
  proof (cases ss)
    case (Cons s rest)
    have "drop (length ss - length rear) ss = drop (length rest - length rear) rest"
      if "length front + length rear < length rest"
      using that Cons by (simp add: Suc_diff_le)
    moreover have "path_glob (front @ double_star # rear) rest \<longleftrightarrow>
        length front + length rear < length rest \<and> list_all2 wild front (take (length front) rest)
        \<and> list_all2 wild rear (drop (length rest - length rear) rest)"
      using Cons.IH Cons.prems by simp
    ultimately show ?thesis using Cons Cons.prems(1) by auto
  qed simp
qed

lemma segment_matches_eq: "segment_matches = wild"
  by (intro ext) (rule segment_matches_wild)

lemma one_star_split:
  assumes "length (filter (\<lambda>s. s = double_star) ps) \<le> 1" "double_star \<in> set ps"
  shows "\<exists>front rear. ps = front @ double_star # rear \<and> double_star \<notin> set front \<and> double_star \<notin> set rear"
proof -
  obtain front rear where ps: "ps = front @ double_star # rear" and f: "double_star \<notin> set front"
    using split_list_first[OF assms(2)] by blast
  have "filter (\<lambda>s. s = double_star) rear = []" using assms(1) ps by simp
  then have "double_star \<notin> set rear" by (metis (mono_tags) filter_empty_conv)
  then show ?thesis using ps f by auto
qed

lemma index_of_append: "x \<notin> set xs \<Longrightarrow> index_of x (xs @ x # ys) = length xs"
  by (induction xs) (auto simp: index_of_def)

lemma segments_match_meaning:
  assumes "length (filter (\<lambda>s. s = double_star) ps) \<le> 1"
  shows "segments_match ps ss \<longleftrightarrow> path_glob ps ss"
proof (cases "double_star \<in> set ps")
  case False
  then show ?thesis using path_glob_plain[OF False, of ss]
    by (auto simp: segments_match_def segment_matches_eq dest: list_all2_lengthD)
next
  case True
  then obtain front rear where ps: "ps = front @ double_star # rear"
    and f: "double_star \<notin> set front" and r: "double_star \<notin> set rear"
    using one_star_split[OF assms] by blast
  show ?thesis
    unfolding ps path_glob_around_star[OF f r]
    using index_of_append[OF f] by (cases rear) (auto simp: segments_match_def segment_matches_eq Let_def)
qed

lemma matches_any_iff:
  "matches_any path patterns \<noteq> None \<longleftrightarrow>
     (\<exists>p \<in> set patterns. segments_match (split_on CHR ''/'' p) (split_on CHR ''/'' path))"
  by (auto simp: matches_any_def Let_def find_None_iff)

section \<open>Properties\<close>

text \<open>
  \<^bold>\<open>C31\<close>: a glob the policy parser accepts, with at most one segment \<open>**\<close>, matches exactly the paths it means:
  a star stands for any characters within a segment and \<open>**\<close> for one segment or more. The matcher places the
  chunks between stars from the left and never goes back; no forbidden path slips past it on that account, and
  no other path is refused.
\<close>

theorem matcher_is_exact:
  assumes "\<forall>glob \<in> set globs. double_stars glob \<le> 1"
  shows "matches_any path globs \<noteq> None \<longleftrightarrow> (\<exists>glob \<in> set globs. glob_meaning glob path)"
  using assms unfolding matches_any_iff double_stars_def glob_meaning_def
  by (auto simp: segments_match_meaning)

lemma matcher_is_exact_witness:
  "matches_any ''src/db/seed.sql'' [''*.md'', ''src/**/s*d.sql''] \<noteq> None
     \<and> matches_any ''src/seed.sql'' [''*.md'', ''src/**/s*d.sql''] = None"
proof -
  have "\<forall>glob \<in> set [''*.md'', ''src/**/s*d.sql'']. double_stars glob \<le> 1" by code_simp
  note exact = matcher_is_exact[OF this]
  have "\<exists>glob \<in> set [''*.md'', ''src/**/s*d.sql'']. glob_meaning glob ''src/db/seed.sql''" by code_simp
  moreover have "\<not> (\<exists>glob \<in> set [''*.md'', ''src/**/s*d.sql'']. glob_meaning glob ''src/seed.sql'')" by code_simp
  ultimately show ?thesis using exact by blast
qed

end
