(* ===== verification/Guard_Words.thy ===== *)
theory Guard_Words
  imports Prelude
begin

text \<open>
  Commands as the guardrails read them (\<open>cli/src/otari_agent/domain/evaluators.py\<close>): what Bash does not read as words
  is removed (\<open>_strip_comments_and_heredoc_bodies\<close>), separators are padded (\<open>_normalize_separators\<close>), \<open>shlex.split\<close>
  of the standard library makes tokens, and separator tokens end segments (\<open>_command_segments\<close>). A text the
  code scans by index is scanned by index here; a scanner's state is a record.
\<close>

section \<open>Characters\<close>

abbreviation "SQ \<equiv> CHR 0x27"
abbreviation "DQ \<equiv> CHR 0x22"
abbreviation "BS \<equiv> CHR 0x5C"
abbreviation "NL \<equiv> CHR 0x0A"
abbreviation "TAB \<equiv> CHR 0x09"
abbreviation "BACKTICK \<equiv> CHR 0x60"

definition command_separators :: "string list" where
  "command_separators = [''&&'', ''||'', '';'', ''|'', ''&'', ''('', '')'']"

definition metacharacters :: "char list" where
  "metacharacters = ''|&;()<>''"

definition padded_operators :: "string list" where
  "padded_operators = [''&&'', ''||'', '';'', ''|'', ''&'', ''('', '')'']"

definition no_redirection_openers :: "(string \<times> string) list" where
  "no_redirection_openers = [(''$(('', ''))''), (''(('', ''))''), (''$['', '']''), (''${'', ''}''), (''=('', '')'')]"

definition pair_characters :: "char list" where
  "pair_characters = ''$(=[)]}''"

definition escaped_in_double_quotes :: "char list" where
  "escaped_in_double_quotes = [CHR ''$'', BACKTICK, DQ, BS, NL]"

text \<open>\<open>s.startswith(p, i)\<close>, \<open>s[i:i+1]\<close> and \<open>s.find(c, i)\<close>.\<close>

definition starts_at :: "string \<Rightarrow> string \<Rightarrow> nat \<Rightarrow> bool" where
  "starts_at s p i = is_prefix p (drop i s)"

definition char_at :: "string \<Rightarrow> nat \<Rightarrow> char option" where
  "char_at s i = (if i < length s then Some (s ! i) else None)"

definition char_in :: "char option \<Rightarrow> char list \<Rightarrow> bool" where
  "char_in c cs = (case c of None \<Rightarrow> False | Some x \<Rightarrow> x \<in> set cs)"

definition find_char :: "string \<Rightarrow> char \<Rightarrow> nat \<Rightarrow> nat option" where
  "find_char s c i = (let n = length (takeWhile (\<lambda>x. x \<noteq> c) (drop i s)) in
     if i + n < length s then Some (i + n) else None)"

text \<open>\<open>_basename\<close>: what follows the last slash, or the token itself when nothing does.\<close>

definition basename :: "string \<Rightarrow> string" where
  "basename token = (let b = last (split_on CHR ''/'' token) in if b = [] then token else b)"

section \<open>Pairs in which no heredoc opens\<close>

text \<open>\<open>_NoRedirectionPairs\<close>: its state is the stack of closers, the innermost first.\<close>

definition advance_pairs :: "string list \<Rightarrow> string \<Rightarrow> nat \<Rightarrow> bool \<Rightarrow> string list \<times> nat" where
  "advance_pairs closers command i at_word_start =
     (if closers \<noteq> [] \<and> starts_at command (hd closers) i then (tl closers, length (hd closers))
      else case find (\<lambda>(opener, closer). starts_at command opener i) no_redirection_openers of
        Some (opener, closer) \<Rightarrow> (closer # closers, length opener)
      | None \<Rightarrow>
          if command ! i = CHR ''['' \<and> \<not> at_word_start then ('']'' # closers, 1)
          else if command ! i = CHR ''('' \<and> closers \<noteq> [] then ('')'' # closers, 1)
          else (closers, 0))"

section \<open>Heredocs\<close>

record heredoc =
  delimiter :: string
  strips_tabs :: bool
  joins_lines :: bool

text \<open>The loop over the delimiter word: the word, whether a part of it was quoted, the open quote and the index.\<close>

function read_delimiter ::
  "string \<Rightarrow> nat \<Rightarrow> string \<Rightarrow> char option \<Rightarrow> bool \<Rightarrow> (string \<times> bool \<times> char option \<times> nat) option" where
  "read_delimiter command i word q wq =
     (if length command \<le> i then Some (word, wq, q, i)
      else let c = command ! i in
        if q = Some SQ then
          if c = SQ then read_delimiter command (Suc i) word None wq
          else read_delimiter command (Suc i) (word @ [c]) q wq
        else if c = CHR ''$'' \<or> c = BACKTICK then None
        else if q = Some DQ then
          if c = DQ then read_delimiter command (Suc i) word None wq
          else if c = BS \<and> char_in (char_at command (Suc i)) escaped_in_double_quotes then
            read_delimiter command (Suc (Suc i)) (word @ [command ! Suc i]) q wq
          else read_delimiter command (Suc i) (word @ [c]) q wq
        else if c = SQ \<or> c = DQ then read_delimiter command (Suc i) word (Some c) True
        else if c = BS \<and> Suc i < length command then
          read_delimiter command (Suc (Suc i)) (word @ [command ! Suc i]) q True
        else if py_space c \<or> c \<in> set metacharacters then Some (word, wq, q, i)
        else read_delimiter command (Suc i) (word @ [c]) q wq)"
  by pat_completeness auto
termination
  by (relation "measure (\<lambda>(command, i, _). length command - i)") auto

declare read_delimiter.simps [simp del]

definition skip_blanks :: "string \<Rightarrow> nat \<Rightarrow> nat" where
  "skip_blanks command i = i + length (takeWhile (\<lambda>c. c = CHR '' '' \<or> c = TAB) (drop i command))"

definition read_heredoc_operator :: "string \<Rightarrow> nat \<Rightarrow> (heredoc \<times> nat) option" where
  "read_heredoc_operator command i =
     (let tabs = starts_at command ''-'' (i + 2);
          word_start = skip_blanks command (if tabs then i + 3 else i + 2)
      in case read_delimiter command word_start [] None False of
           None \<Rightarrow> None
         | Some (word, wq, q, j) \<Rightarrow>
             if q \<noteq> None \<or> j = word_start then None
             else Some (\<lparr>delimiter = word, strips_tabs = tabs, joins_lines = \<not> wq\<rparr>, j))"

text \<open>\<open>_HeredocTerminators\<close>: the lines of the command with the index each starts at.\<close>

fun number_lines :: "nat \<Rightarrow> string list \<Rightarrow> (nat \<times> string) list" where
  "number_lines i [] = []"
| "number_lines i (l # ls) = (i, l) # number_lines (i + length l + 1) ls"

definition command_lines :: "string \<Rightarrow> (nat \<times> string) list" where
  "command_lines command = number_lines 0 (split_on NL command)"

definition continuations :: "string \<Rightarrow> nat list" where
  "continuations command = map (\<lambda>(i, l). i + length l) (filter (\<lambda>(i, l). ends_with l [BS]) (command_lines command))"

definition body_end :: "string \<Rightarrow> heredoc \<Rightarrow> nat \<Rightarrow> nat option" where
  "body_end command h start =
     (case find (\<lambda>(i, l). start \<le> i
          \<and> (if strips_tabs h then dropWhile (\<lambda>c. c = TAB) l else l) = delimiter h) (command_lines command) of
        None \<Rightarrow> None
      | Some (terminator, l) \<Rightarrow>
          if joins_lines h \<and> list_ex (\<lambda>p. start \<le> p \<and> p < terminator) (continuations command) then None
          else Some (case find_char command NL terminator of None \<Rightarrow> length command | Some e \<Rightarrow> e + 1))"

fun bodies_end :: "string \<Rightarrow> nat \<Rightarrow> heredoc list \<Rightarrow> nat" where
  "bodies_end command start [] = start"
| "bodies_end command start (h # hs) =
     (case body_end command h start of None \<Rightarrow> start | Some e \<Rightarrow> bodies_end command e hs)"

section \<open>Comments and heredoc bodies removed\<close>

record strip_state =
  quote :: "char option"
  at_word_start :: bool
  escaped :: bool
  pending :: "heredoc list"
  closers :: "string list"

definition new_strip_state :: strip_state where
  "new_strip_state = \<lparr>quote = None, at_word_start = True, escaped = False, pending = [], closers = []\<rparr>"

text \<open>The inside of \<open>$'...'\<close>: what is written for it and the index after it.\<close>

function ansi_quoted :: "string \<Rightarrow> nat \<Rightarrow> string \<times> nat" where
  "ansi_quoted command i =
     (if length command \<le> i then ([], i)
      else let c = command ! i in
        if c = BS \<and> Suc i < length command then
          let e = command ! Suc i; (out, j) = ansi_quoted command (Suc (Suc i))
          in ((if e = SQ then [SQ, BS, SQ, SQ] else [e]) @ out, j)
        else if c = SQ then ([SQ], Suc i)
        else let (out, j) = ansi_quoted command (Suc i) in (c # out, j))"
  by pat_completeness auto
termination
  by (relation "measure (\<lambda>(command, i). length command - i)") auto

declare ansi_quoted.simps [simp del]

text \<open>A \<open><<\<close> at \<open>i\<close>: a here-string, a shift or an operator without a word is copied, a heredoc is noted.\<close>

definition strip_less :: "string \<Rightarrow> nat \<Rightarrow> strip_state \<Rightarrow> string \<times> nat \<times> strip_state" where
  "strip_less command i st =
     (let here_string = starts_at command ''<<<'' i;
          opened = (if here_string \<or> closers st \<noteq> [] then None else read_heredoc_operator command i)
      in case opened of
           None \<Rightarrow> let n = (if here_string then 3 else 2) in
             (take n (drop i command), i + n, st\<lparr>at_word_start := True\<rparr>)
         | Some (h, j) \<Rightarrow> (take (j - i) (drop i command), j, st\<lparr>pending := pending st @ [h], at_word_start := False\<rparr>))"

definition strip_newline :: "string \<Rightarrow> nat \<Rightarrow> strip_state \<Rightarrow> string \<times> nat \<times> strip_state" where
  "strip_newline command i st =
     ([NL], if pending st = [] then Suc i else bodies_end command (Suc i) (pending st),
      st\<lparr>pending := [], at_word_start := True\<rparr>)"

definition strip_pair :: "string \<Rightarrow> nat \<Rightarrow> strip_state \<Rightarrow> (string \<times> nat \<times> strip_state) option" where
  "strip_pair command i st =
     (if command ! i \<in> set pair_characters then
        case advance_pairs (closers st) command i (at_word_start st) of
          (cs, n) \<Rightarrow> if n = 0 then None
            else Some (take n (drop i command), i + n,
                   st\<lparr>closers := cs, at_word_start := (command ! (i + n - 1) = CHR ''('')\<rparr>)
      else None)"

text \<open>
  One turn of the loop: what it writes, the next index and the next state, or the end of the text when a
  comment runs to it.
\<close>

definition strip_step :: "string \<Rightarrow> nat \<Rightarrow> strip_state \<Rightarrow> (string \<times> nat \<times> strip_state) option" where
  "strip_step command i st =
     (let c = command ! i in
      if escaped st then Some ([c], Suc i, st\<lparr>escaped := False\<rparr>)
      else if quote st = Some SQ then
        Some ([c], Suc i, if c = SQ then st\<lparr>quote := None\<rparr> else st)
      else if quote st = None \<and> c = CHR ''$'' \<and> char_at command (Suc i) = Some SQ then
        (let (out, j) = ansi_quoted command (i + 2) in Some (SQ # out, j, st\<lparr>at_word_start := False\<rparr>))
      else if c = BS then Some ([c], Suc i, st\<lparr>escaped := True, at_word_start := False\<rparr>)
      else if quote st = Some DQ then
        Some ([c], Suc i, if c = DQ then st\<lparr>quote := None\<rparr> else st)
      else if c = SQ \<or> c = DQ then Some ([c], Suc i, st\<lparr>quote := Some c, at_word_start := False\<rparr>)
      else if c = CHR ''#'' \<and> at_word_start st then
        (case find_char command NL i of None \<Rightarrow> None | Some j \<Rightarrow> Some ([], j, st))
      else if c = NL then Some (strip_newline command i st)
      else case strip_pair command i st of
        Some r \<Rightarrow> Some r
      | None \<Rightarrow>
          if c = CHR ''<'' \<and> starts_at command ''<<'' i then Some (strip_less command i st)
          else Some ([c], Suc i, st\<lparr>at_word_start := (py_space c \<or> c \<in> set metacharacters)\<rparr>))"

subsection \<open>Every turn moves on\<close>

lemma read_delimiter_advances: "read_delimiter command i word q wq = Some (w, d, r, j) \<Longrightarrow> i \<le> j"
proof (induction "length command - i" arbitrary: i word q wq rule: less_induct)
  case less
  have rec: "i \<le> j" if "read_delimiter command k u x y = Some (w, d, r, j)" "i < k" "\<not> length command \<le> i" for k u x y
    using less.hyps[of k, OF _ that(1)] that(2,3) diff_less_mono2[of i k "length command"] by simp
  show ?case
    using less.prems unfolding read_delimiter.simps[of command i] Let_def
    by (simp split: if_split_asm) (auto dest: rec)
qed

lemma skip_blanks_advances: "i \<le> skip_blanks command i"
  by (simp add: skip_blanks_def)

lemma read_heredoc_operator_advances:
  "read_heredoc_operator command i = Some (h, j) \<Longrightarrow> i < j"
  using skip_blanks_advances[of "i + 3" command] skip_blanks_advances[of "i + 2" command]
  by (auto simp: read_heredoc_operator_def Let_def split: option.splits prod.splits if_splits
      dest!: read_delimiter_advances)

lemma find_char_advances: "find_char s c i = Some j \<Longrightarrow> i \<le> j"
  by (auto simp: find_char_def Let_def split: if_splits)

lemma find_char_at: "find_char s c i = Some j \<Longrightarrow> s ! j = c"
  using nth_length_takeWhile[of "\<lambda>x. x \<noteq> c" "drop i s"]
  by (auto simp: find_char_def Let_def split: if_splits)

lemma number_lines_within:
  "(j, l) \<in> set (number_lines i ls) \<Longrightarrow> j + length l + 1 \<le> i + sum_list (map (\<lambda>l. length l + 1) ls)"
  by (induction ls arbitrary: i) fastforce+

lemma split_on_total: "sum_list (map (\<lambda>l. length l + 1) (split_on c s)) = length s + 1"
  by (induction s) (auto split: list.splits)

lemma command_lines_within: "(j, l) \<in> set (command_lines command) \<Longrightarrow> j \<le> length command"
  unfolding command_lines_def by (drule number_lines_within) (simp only: split_on_total)

lemma body_end_advances: "body_end command h start = Some e \<Longrightarrow> start \<le> e"
  unfolding body_end_def
  by (auto dest!: find_char_advances find_key_Some_D command_lines_within split: option.splits if_splits)

lemma bodies_end_advances: "start \<le> bodies_end command start hs"
proof (induction command start hs rule: bodies_end.induct)
  case (2 command start h hs)
  then show ?case by (cases "body_end command h start") (auto dest: body_end_advances intro: order.trans)
qed simp

lemma ansi_quoted_advances: "i \<le> snd (ansi_quoted command i)"
proof (induction command i rule: ansi_quoted.induct)
  case (1 command i)
  show ?case
    by (subst ansi_quoted.simps) (use 1 in \<open>auto simp: Let_def split: prod.splits if_splits\<close>)
qed

lemma strip_step_advances:
  assumes "strip_step command i st = Some (out, j, st')"
  shows "i < j"
proof -
  have ansi: "i < snd (ansi_quoted command (i + 2))" using ansi_quoted_advances[of "i + 2" command] by simp
  have hash: "find_char command NL i \<noteq> Some i" if "command ! i = CHR ''#''"
    using that find_char_at[of command NL i i] by auto
  have newline: "fst (snd (strip_newline command i st)) > i"
    using bodies_end_advances[of "Suc i" command "pending st"] by (auto simp: strip_newline_def)
  have less: "fst (snd (strip_less command i st)) > i"
    by (auto simp: strip_less_def Let_def dest: read_heredoc_operator_advances split: option.splits)
  have pair: "i < k" if "strip_pair command i st = Some (w, k, s)" for w k s
    using that by (auto simp: strip_pair_def split: if_splits prod.splits)
  show ?thesis
    using assms ansi hash newline less pair find_char_advances[of command NL i j]
    unfolding strip_step_def Let_def
    by (auto split: if_splits prod.splits option.splits simp: less_le)
qed

function strip_from :: "string \<Rightarrow> nat \<Rightarrow> strip_state \<Rightarrow> string" where
  "strip_from command i st =
     (if length command \<le> i then []
      else case strip_step command i st of
             None \<Rightarrow> []
           | Some (out, j, st') \<Rightarrow> out @ strip_from command j st')"
  by pat_completeness auto
termination
  by (relation "measure (\<lambda>(command, i, _). length command - i)") (auto dest!: strip_step_advances intro: diff_less_mono2)

declare strip_from.simps [simp del]

definition strip_comments_and_heredoc_bodies :: "string \<Rightarrow> string" where
  "strip_comments_and_heredoc_bodies command = strip_from command 0 new_strip_state"

section \<open>Separators padded\<close>

definition operator_at :: "string \<Rightarrow> nat \<Rightarrow> string option" where
  "operator_at command i =
     (if command ! i = CHR ''&''
         \<and> (0 < i \<and> char_in (char_at command (i - 1)) ''<>'' \<or> char_at command (Suc i) = Some (CHR ''>''))
      then None
      else find (\<lambda>operator. starts_at command operator i) padded_operators)"

lemma operator_at_nonempty: "operator_at command i = Some operator \<Longrightarrow> 0 < length operator"
  by (auto simp: operator_at_def padded_operators_def split: if_splits)

function normalize_from :: "string \<Rightarrow> nat \<Rightarrow> char option \<Rightarrow> string" where
  "normalize_from command i q =
     (if length command \<le> i then []
      else let c = command ! i in
        if q = Some SQ then c # normalize_from command (Suc i) (if c = SQ then None else q)
        else if c = BS then
          if char_at command (Suc i) = Some NL then normalize_from command (Suc (Suc i)) q
          else if Suc i < length command then c # command ! Suc i # normalize_from command (Suc (Suc i)) q
          else c # normalize_from command (Suc i) q
        else if q = Some DQ then c # normalize_from command (Suc i) (if c = DQ then None else q)
        else if c = SQ \<or> c = DQ then c # normalize_from command (Suc i) (Some c)
        else if c = NL then '' ; '' @ normalize_from command (Suc i) q
        else case operator_at command i of
          Some operator \<Rightarrow> '' '' @ operator @ '' '' @ normalize_from command (i + length operator) q
        | None \<Rightarrow> c # normalize_from command (Suc i) q)"
  by pat_completeness auto
termination
  by (relation "measure (\<lambda>(command, i, _). length command - i)")
     (auto simp: dest!: operator_at_nonempty intro: diff_less_mono2)

declare normalize_from.simps [simp del]

definition normalize_separators :: "string \<Rightarrow> string" where
  "normalize_separators command =
     (if \<not> list_ex (\<lambda>c. c = NL \<or> c \<in> set ''|&;()'') command then command
      else normalize_from command 0 None)"

section \<open>Tokens\<close>

text \<open>
  \<open>shlex.split(s, posix=True)\<close>: the states of \<open>shlex.read_token\<close>, with the token so far and whether a part of it
  was quoted. A missing closing quote or escaped character is a \<open>ValueError\<close>, which is \<open>None\<close>.
\<close>

datatype lex_state = Outside | In_Word | In_Quote char | Escaped_Outside | Escaped_In char

definition shlex_space :: "char \<Rightarrow> bool" where
  "shlex_space c = (c = CHR '' '' \<or> c = TAB \<or> c = CHR 0x0D \<or> c = NL)"

fun shlex_from :: "lex_state \<Rightarrow> string \<Rightarrow> bool \<Rightarrow> string \<Rightarrow> string list option" where
  "shlex_from Outside token was_quoted [] = Some []"
| "shlex_from In_Word token was_quoted [] = Some (if token \<noteq> [] \<or> was_quoted then [token] else [])"
| "shlex_from (In_Quote q) token was_quoted [] = None"
| "shlex_from Escaped_Outside token was_quoted [] = None"
| "shlex_from (Escaped_In q) token was_quoted [] = None"
| "shlex_from Outside token was_quoted (c # cs) =
     (if shlex_space c then shlex_from Outside [] False cs
      else if c = BS then shlex_from Escaped_Outside [] False cs
      else if c = SQ \<or> c = DQ then shlex_from (In_Quote c) [] False cs
      else shlex_from In_Word [c] False cs)"
| "shlex_from In_Word token was_quoted (c # cs) =
     (if shlex_space c then
        if token \<noteq> [] \<or> was_quoted then map_option ((#) token) (shlex_from Outside [] False cs)
        else shlex_from Outside [] False cs
      else if c = SQ \<or> c = DQ then shlex_from (In_Quote c) token was_quoted cs
      else if c = BS then shlex_from Escaped_Outside token was_quoted cs
      else shlex_from In_Word (token @ [c]) was_quoted cs)"
| "shlex_from (In_Quote q) token was_quoted (c # cs) =
     (if c = q then shlex_from In_Word token True cs
      else if c = BS \<and> q = DQ then shlex_from (Escaped_In q) token True cs
      else shlex_from (In_Quote q) (token @ [c]) True cs)"
| "shlex_from Escaped_Outside token was_quoted (c # cs) = shlex_from In_Word (token @ [c]) was_quoted cs"
| "shlex_from (Escaped_In q) token was_quoted (c # cs) =
     shlex_from (In_Quote q) (token @ (if c \<noteq> BS \<and> c \<noteq> q then [BS] else []) @ [c]) was_quoted cs"

definition shlex_split :: "string \<Rightarrow> string list option" where
  "shlex_split s = shlex_from Outside [] False s"

text \<open>\<open>str.split()\<close>.\<close>

fun split_blank_from :: "string \<Rightarrow> string \<Rightarrow> string list" where
  "split_blank_from word [] = (if word = [] then [] else [word])"
| "split_blank_from word (c # cs) =
     (if py_space c then (if word = [] then [] else [word]) @ split_blank_from [] cs
      else split_blank_from (word @ [c]) cs)"

section \<open>Segments\<close>

text \<open>The padding of the fallback, without regard to quotes; \<open>before\<close> is the character before.\<close>

fun blind_pad :: "char option \<Rightarrow> string \<Rightarrow> string" where
  "blind_pad previous [] = []"
| "blind_pad previous [c] =
     (if c \<in> set '';|()'' \<or> c = CHR ''&'' \<and> \<not> char_in previous ''<>'' then [CHR '' '', c, CHR '' ''] else [c])"
| "blind_pad previous (c # d # cs) =
     (if c = CHR ''&'' \<and> d = CHR ''&'' \<or> c = CHR ''|'' \<and> d = CHR ''|''
      then [CHR '' '', c, d, CHR '' ''] @ blind_pad (Some d) cs
      else if c \<in> set '';|()'' \<or> c = CHR ''&'' \<and> \<not> char_in previous ''<>'' \<and> d \<noteq> CHR ''>''
      then [CHR '' '', c, CHR '' ''] @ blind_pad (Some c) (d # cs)
      else c # blind_pad (Some c) (d # cs))"

text \<open>\<open>stripped.replace("\\\n", "").replace("\n", " ; ")\<close>.\<close>

definition join_lines :: "string \<Rightarrow> string" where
  "join_lines s = concat (map (\<lambda>c. if c = NL then '' ; '' else [c]) (remove_all [BS, NL] s))"

text \<open>The loop over the tokens and the filter after it: the open segment and the rest.\<close>

fun group_tokens :: "string list \<Rightarrow> string list \<Rightarrow> string list list" where
  "group_tokens seg [] = [seg]"
| "group_tokens seg (t # ts) =
     (if t \<in> set command_separators then seg # group_tokens [] ts else group_tokens (seg @ [t]) ts)"

definition segments_of :: "string list \<Rightarrow> string list list" where
  "segments_of tokens = filter (\<lambda>seg. seg \<noteq> []) (group_tokens [] tokens)"

definition command_segments :: "string \<Rightarrow> string list list" where
  "command_segments command =
     (let stripped = strip_comments_and_heredoc_bodies command in
      segments_of (case shlex_split (normalize_separators stripped) of
          Some tokens \<Rightarrow> tokens
        | None \<Rightarrow> split_blank_from [] (blind_pad None (join_lines stripped))))"

definition tokenize_phrase :: "string \<Rightarrow> string list option" where
  "tokenize_phrase phrase = shlex_split (strip_comments_and_heredoc_bodies phrase)"

definition tokenize_phrase_with_separators :: "string \<Rightarrow> string list option" where
  "tokenize_phrase_with_separators phrase =
     shlex_split (normalize_separators (strip_comments_and_heredoc_bodies phrase))"

text \<open>\<open>_contains_subsequence\<close>.\<close>

definition window_matches :: "string list \<Rightarrow> string list \<Rightarrow> nat \<Rightarrow> bool" where
  "window_matches seg phrase start =
     ((if start = 0 then basename (hd seg) = basename (hd phrase) else seg ! start = hd phrase)
      \<and> take (length phrase - 1) (drop (Suc start) seg) = tl phrase)"

definition contains_subsequence :: "string list \<Rightarrow> string list \<Rightarrow> bool" where
  "contains_subsequence seg phrase =
     (if phrase = [] \<or> length seg < length phrase then False
      else list_ex (window_matches seg phrase) [0 ..< length seg - length phrase + 1])"

end
