(* ===== verification/Guard_Gates.thy ===== *)
theory Guard_Gates
  imports Guard_Globs Guard_Words
begin

text \<open>
  The gates of a guardrail, the evidence they are checked against and their evaluators
  (\<open>cli/src/otari_agent/domain/types.py\<close>, \<open>evaluators.py\<close>). What all gate classes declare is \<open>gate_common\<close>; each class
  is an extension of it. Evidence a caller did not collect is \<open>None\<close>. A phrase that \<open>shlex\<close> cannot tokenize raises
  \<open>ValueError\<close>, the left value of an evaluator.
\<close>

section \<open>Types\<close>

datatype enforcement = Required | Advisory

datatype evidence_scope = Call_Scope | Session_Scope

datatype runs_at =
  Edit_Target | Read_Target | Command_Text | Working_Tree | Stop_Session | Stop_Verifier

fun runs_name :: "runs_at \<Rightarrow> string" where
  "runs_name Edit_Target = ''pre_tool_use.edit_target''"
| "runs_name Read_Target = ''pre_tool_use.read_target''"
| "runs_name Command_Text = ''pre_tool_use.command''"
| "runs_name Working_Tree = ''stop.working_tree''"
| "runs_name Stop_Session = ''stop.session''"
| "runs_name Stop_Verifier = ''stop.verifier''"

definition path_evidence_sources :: "runs_at list" where
  "path_evidence_sources = [Edit_Target, Read_Target, Working_Tree]"

datatype gate_type = Type_Command | Type_Command_If_Changed | Type_Judge | Type_Path | Type_Verifier

fun gate_type_name :: "gate_type \<Rightarrow> string" where
  "gate_type_name Type_Command = ''command''"
| "gate_type_name Type_Command_If_Changed = ''command_if_changed''"
| "gate_type_name Type_Judge = ''judge''"
| "gate_type_name Type_Path = ''path''"
| "gate_type_name Type_Verifier = ''verifier''"

datatype gate_outcome = Pass | Fail | Unknown | Error | Not_Applicable | Not_Run

definition is_blocking :: "gate_outcome \<Rightarrow> bool" where
  "is_blocking r = (r \<noteq> Pass \<and> r \<noteq> Not_Applicable)"

datatype warning_code =
  Backslash_In_Glob | Glob_Matches_No_File | Glob_Misses_Shallower_Depth | Judge_Gate_Cap
  | Shell_Read_Unseen | Shell_Write_Unseen | Single_Token_Phrase | Verifier_Gate_Cap

fun warning_name :: "warning_code \<Rightarrow> string" where
  "warning_name Backslash_In_Glob = ''backslash-in-glob''"
| "warning_name Glob_Matches_No_File = ''glob-matches-no-file''"
| "warning_name Glob_Misses_Shallower_Depth = ''glob-misses-shallower-depth''"
| "warning_name Judge_Gate_Cap = ''judge-gate-cap''"
| "warning_name Shell_Read_Unseen = ''shell-read-unseen''"
| "warning_name Shell_Write_Unseen = ''shell-write-unseen''"
| "warning_name Single_Token_Phrase = ''single-token-phrase''"
| "warning_name Verifier_Gate_Cap = ''verifier-gate-cap''"

fun warning_gate_types :: "warning_code \<Rightarrow> gate_type list" where
  "warning_gate_types Backslash_In_Glob = [Type_Command_If_Changed, Type_Judge, Type_Path, Type_Verifier]"
| "warning_gate_types Glob_Matches_No_File = [Type_Command_If_Changed, Type_Judge, Type_Verifier]"
| "warning_gate_types Glob_Misses_Shallower_Depth = [Type_Command_If_Changed, Type_Judge, Type_Path, Type_Verifier]"
| "warning_gate_types Judge_Gate_Cap = [Type_Judge]"
| "warning_gate_types Shell_Read_Unseen = [Type_Path]"
| "warning_gate_types Shell_Write_Unseen = [Type_Path]"
| "warning_gate_types Single_Token_Phrase = [Type_Command]"
| "warning_gate_types Verifier_Gate_Cap = [Type_Verifier]"

record gate_common =
  gate_id :: string
  gate_enforcement :: enforcement
  gate_runs :: "runs_at list"
  gate_message :: string
  accept_warnings :: "warning_code list"

record path_gate = gate_common +
  forbidden_globs :: "string list"

record command_gate = gate_common +
  forbidden_phrases :: "string list"

record command_if_changed_gate = gate_common +
  if_changed :: "string list"
  require_phrases :: "string list"

record judge_gate = gate_common +
  rubric :: string
  judged_when_changed :: "string list"
  judge_cli :: "string list option"
  judge_priority :: int

record verifier_gate = gate_common +
  verifier :: string
  verified_when_changed :: "string list"
  verifier_priority :: int

datatype gate =
    Path_Gate path_gate
  | Command_Gate command_gate
  | Command_If_Changed_Gate command_if_changed_gate
  | Judge_Gate judge_gate
  | Verifier_Gate verifier_gate

fun common :: "gate \<Rightarrow> gate_common" where
  "common (Path_Gate g) = gate_common.truncate g"
| "common (Command_Gate g) = gate_common.truncate g"
| "common (Command_If_Changed_Gate g) = gate_common.truncate g"
| "common (Judge_Gate g) = gate_common.truncate g"
| "common (Verifier_Gate g) = gate_common.truncate g"

definition failure_message :: "string \<Rightarrow> 'a gate_common_scheme \<Rightarrow> string" where
  "failure_message generic g = (if gate_message g = [] then generic else gate_message g)"

definition path_failure :: string where
  "path_failure = ''A path this gate forbids was matched.''"

definition command_failure :: string where
  "command_failure = ''A command this gate forbids was run.''"

definition if_changed_failure :: string where
  "if_changed_failure = ''A watched path changed without this gate's required command.''"

definition judge_failure :: string where
  "judge_failure = ''This turn did not meet this gate's rubric.''"

definition verifier_failure :: string where
  "verifier_failure = ''This gate's verifier reported a failure.''"

text \<open>\<open>by_priority\<close>: a stable sort, the highest priority first.\<close>

definition by_priority :: "('g \<Rightarrow> int) \<Rightarrow> 'g list \<Rightarrow> 'g list" where
  "by_priority priority gates = sort_key (\<lambda>g. - priority g) gates"

record path_evidence =
  evidence_paths :: "string list"
  evidence_source :: "runs_at option"

record command_evidence =
  evidence_commands :: "string list"
  evidence_scope :: evidence_scope

datatype verdict_outcome = Verdict_Pass | Verdict_Fail | Verdict_Error | Verdict_Not_Run

record judge_verdict =
  judged_gate :: string
  judge_outcome :: verdict_outcome
  reasoning :: string

text \<open>A verifier's verdict has no \<open>not_run\<close>.\<close>

datatype check_outcome = Check_Pass | Check_Fail | Check_Error

record check_verdict =
  checked_gate :: string
  check_result :: check_outcome
  check_detail :: string

record gate_result =
  result_gate :: string
  result_enforcement :: enforcement
  result_outcome :: gate_outcome
  result_message :: string
  result_detail :: "string option"
  result_source :: "string option"

definition resolve :: "'a gate_common_scheme \<Rightarrow> gate_outcome \<Rightarrow> string \<Rightarrow> string option \<Rightarrow> gate_result" where
  "resolve g r message detail = \<lparr>result_gate = gate_id g, result_enforcement = gate_enforcement g,
     result_outcome = r, result_message = message, result_detail = detail, result_source = None\<rparr>"

section \<open>Caches of tokens\<close>

type_synonym segment_cache = "(string \<times> string list list) list"
type_synonym phrase_cache = "(string \<times> string list) list"

datatype raised = Value_Error string

text \<open>The list of results of a call that may raise, in order.\<close>

fun collect :: "('a \<Rightarrow> 'e + 'b) \<Rightarrow> 'a list \<Rightarrow> 'e + 'b list" where
  "collect f [] = Inr []"
| "collect f (x # xs) = bind_result (f x) (\<lambda>y. bind_result (collect f xs) (\<lambda>ys. Inr (y # ys)))"

definition tokenized :: "string \<Rightarrow> raised + string list" where
  "tokenized phrase = (case tokenize_phrase phrase of None \<Rightarrow> Inl (Value_Error phrase) | Some ts \<Rightarrow> Inr ts)"

definition tokenize_phrases :: "string list \<Rightarrow> raised + phrase_cache" where
  "tokenize_phrases phrases = collect (\<lambda>p. bind_result (tokenized p) (\<lambda>ts. Inr (p, ts))) phrases"

definition tokenize_commands :: "string list \<Rightarrow> segment_cache" where
  "tokenize_commands commands = map (\<lambda>c. (c, command_segments c)) commands"

definition cached_segments :: "segment_cache option \<Rightarrow> string \<Rightarrow> string list list" where
  "cached_segments cache command =
     (case (case cache of None \<Rightarrow> None | Some m \<Rightarrow> map_of m command) of
        Some segs \<Rightarrow> segs | None \<Rightarrow> command_segments command)"

text \<open>\<open>phrase_cache.get(phrase) or tokenize_phrase(phrase)\<close>: an empty list counts as a miss.\<close>

definition cached_phrase :: "phrase_cache option \<Rightarrow> string \<Rightarrow> raised + string list" where
  "cached_phrase cache phrase =
     (case (case cache of None \<Rightarrow> None | Some m \<Rightarrow> map_of m phrase) of
        Some (t # ts) \<Rightarrow> Inr (t # ts) | _ \<Rightarrow> tokenized phrase)"

definition command_contains :: "segment_cache option \<Rightarrow> string list list \<Rightarrow> string \<Rightarrow> bool" where
  "command_contains cache phrases command =
     list_ex (\<lambda>seg. list_ex (contains_subsequence seg) phrases) (cached_segments cache command)"

section \<open>What the evaluators say\<close>

definition says_no_command_evidence :: string where
  "says_no_command_evidence = ''Command evidence was not submitted.''"

definition says_commands_checked_per_call :: string where
  "says_commands_checked_per_call = ''Forbidden commands are checked per call, not over session history.''"

definition says_no_commands :: string where
  "says_no_commands = ''No commands were submitted to check.''"

definition says_no_forbidden_command :: string where
  "says_no_forbidden_command = ''No forbidden commands run.''"

definition says_no_change_or_command_evidence :: string where
  "says_no_change_or_command_evidence = ''Change or command evidence was not submitted.''"

definition says_no_watched_change :: string where
  "says_no_watched_change = ''No changed path matched this gate's when_changed globs.''"

definition says_required_checked_per_session :: string where
  "says_required_checked_per_session = ''Required-command checks resolve against session history, not one call.''"

definition says_required_ran :: string where
  "says_required_ran = ''A required command ran.''"

definition says_no_path_evidence :: string where
  "says_no_path_evidence = ''Path evidence was not submitted.''"

definition says_no_paths :: string where
  "says_no_paths = ''No paths were submitted to check.''"

definition says_no_forbidden_path :: string where
  "says_no_forbidden_path = ''No forbidden paths were submitted.''"

definition says_no_judges_here :: string where
  "says_no_judges_here = ''This event does not evaluate judge gates.''"

definition says_no_model_verdict :: string where
  "says_no_model_verdict = ''No model verdict was submitted for this gate.''"

definition says_judge_skipped :: string where
  "says_judge_skipped = ''This judge gate was skipped.''"

definition says_model_failed :: string where
  "says_model_failed = ''The model verdict could not be produced.''"

definition says_rubric_met :: string where
  "says_rubric_met = ''The model verdict judged this gate's rubric satisfied.''"

definition says_no_verifiers_here :: string where
  "says_no_verifiers_here = ''This event does not evaluate verifier gates.''"

definition says_no_verifier_result :: string where
  "says_no_verifier_result = ''No verifier result was submitted for this gate.''"

definition says_verifier_failed :: string where
  "says_verifier_failed = ''The verifier could not be run.''"

definition says_verifier_clean :: string where
  "says_verifier_clean = ''The verifier reported no violation.''"

definition says_not_here :: "runs_at \<Rightarrow> string" where
  "says_not_here source = ''This gate does not run at '' @ runs_name source @ ''.''"

section \<open>Evaluators\<close>

definition evaluate_command ::
  "command_gate \<Rightarrow> command_evidence option \<Rightarrow> segment_cache option \<Rightarrow> phrase_cache option \<Rightarrow> raised + gate_result" where
  "evaluate_command g evidence segments phrases =
     (case evidence of
        None \<Rightarrow> Inr (resolve g Unknown says_no_command_evidence None)
      | Some e \<Rightarrow>
          if evidence_scope e = Session_Scope then
            Inr (resolve g Not_Applicable says_commands_checked_per_call None)
          else if evidence_commands e = [] then
            Inr (resolve g Not_Applicable says_no_commands None)
          else bind_result (collect (cached_phrase phrases) (forbidden_phrases g)) (\<lambda>forbidden.
            let matched = sort (filter (command_contains segments forbidden) (evidence_commands e)) in
            if matched \<noteq> [] then
              Inr (resolve g Fail (failure_message command_failure g) (Some (join_with '', '' matched)))
            else Inr (resolve g Pass says_no_forbidden_command None)))"

definition evaluate_command_if_changed ::
  "command_if_changed_gate \<Rightarrow> path_evidence option \<Rightarrow> command_evidence option \<Rightarrow> segment_cache option \<Rightarrow>
     phrase_cache option \<Rightarrow> raised + gate_result" where
  "evaluate_command_if_changed g paths commands segments phrases =
     (case (paths, commands) of
        (Some p, Some c) \<Rightarrow>
          (let matched = matched_changed_paths (if_changed g) (evidence_paths p) in
           if matched = [] then
             Inr (resolve g Not_Applicable says_no_watched_change None)
           else if evidence_scope c = Call_Scope then
             Inr (resolve g Not_Applicable
               says_required_checked_per_session None)
           else if evidence_commands c = [] then
             Inr (resolve g Fail (failure_message if_changed_failure g) (Some (join_with '', '' matched)))
           else bind_result (collect (cached_phrase phrases) (require_phrases g)) (\<lambda>required.
             if list_ex (command_contains segments required) (evidence_commands c)
             then Inr (resolve g Pass says_required_ran None)
             else Inr (resolve g Fail (failure_message if_changed_failure g) (Some (join_with '', '' matched)))))
      | _ \<Rightarrow> Inr (resolve g Unknown says_no_change_or_command_evidence None))"

definition evaluate_path :: "path_gate \<Rightarrow> path_evidence option \<Rightarrow> gate_result" where
  "evaluate_path g evidence =
     (case evidence of
        None \<Rightarrow> resolve g Unknown says_no_path_evidence None
      | Some e \<Rightarrow>
          if \<exists>source \<in> set_option (evidence_source e). source \<notin> set (gate_runs g) then
            resolve g Not_Applicable
              (says_not_here (the (evidence_source e))) None
          else if evidence_paths e = [] then resolve g Not_Applicable says_no_paths None
          else
            let matched = matched_changed_paths (forbidden_globs g) (evidence_paths e) in
            if matched \<noteq> [] then
              resolve g Fail (failure_message path_failure g) (Some (join_with '', '' matched))
            else resolve g Pass says_no_forbidden_path None)"

definition or_none :: "string \<Rightarrow> string option" where
  "or_none s = (if s = [] then None else Some s)"

text \<open>The applicability check that judge and verifier gates share: an early result, if any.\<close>

definition scoped_out ::
  "'a gate_common_scheme \<Rightarrow> string list \<Rightarrow> path_evidence option \<Rightarrow> gate_result option" where
  "scoped_out g when paths =
     (if when = [] then None
      else case paths of
        None \<Rightarrow> Some (resolve g Unknown says_no_path_evidence None)
      | Some p \<Rightarrow>
          if matched_changed_paths when (evidence_paths p) = []
          then Some (resolve g Not_Applicable says_no_watched_change None)
          else None)"

definition evaluate_judge :: "judge_gate \<Rightarrow> path_evidence option \<Rightarrow> judge_verdict list option \<Rightarrow> gate_result" where
  "evaluate_judge g paths evidence =
     (case evidence of
        None \<Rightarrow> resolve g Not_Applicable says_no_judges_here None
      | Some verdicts \<Rightarrow>
          (case scoped_out g (judged_when_changed g) paths of
             Some r \<Rightarrow> r
           | None \<Rightarrow>
               (case find (\<lambda>v. judged_gate v = gate_id g) verdicts of
                  None \<Rightarrow> resolve g Unknown says_no_model_verdict None
                | Some v \<Rightarrow>
                    (let detail = or_none (reasoning v) in
                     case judge_outcome v of
                       Verdict_Not_Run \<Rightarrow> resolve g Not_Run says_judge_skipped detail
                     | Verdict_Error \<Rightarrow> resolve g Error says_model_failed detail
                     | Verdict_Fail \<Rightarrow> resolve g Fail (failure_message judge_failure g) detail
                     | Verdict_Pass \<Rightarrow>
                         resolve g Pass says_rubric_met detail))))"

definition evaluate_verifier ::
  "verifier_gate \<Rightarrow> path_evidence option \<Rightarrow> check_verdict list option \<Rightarrow> gate_result" where
  "evaluate_verifier g paths evidence =
     (case evidence of
        None \<Rightarrow> resolve g Not_Applicable says_no_verifiers_here None
      | Some verdicts \<Rightarrow>
          (case scoped_out g (verified_when_changed g) paths of
             Some r \<Rightarrow> r
           | None \<Rightarrow>
               (case find (\<lambda>v. checked_gate v = gate_id g) verdicts of
                  None \<Rightarrow> resolve g Unknown says_no_verifier_result None
                | Some v \<Rightarrow>
                    (let detail = or_none (check_detail v) in
                     case check_result v of
                       Check_Error \<Rightarrow> resolve g Error says_verifier_failed detail
                     | Check_Fail \<Rightarrow> resolve g Fail (failure_message verifier_failure g) detail
                     | Check_Pass \<Rightarrow> resolve g Pass says_verifier_clean detail))))"

end
