(* ===== verification/Guard_Policy.thy ===== *)
theory Guard_Policy
  imports Guard_Gates
begin

text \<open>
  Parsing a guardrail file and composing several into one policy (\<open>cli/src/otari_agent/domain/policy.py\<close>). The YAML
  library is a parameter: \<open>load\<close> turns text into a document or a message. A refusal is a \<open>guard_error\<close> that
  carries what its message is made of.
\<close>

section \<open>Documents\<close>

datatype yaml =
    Y_Null
  | Y_Bool bool
  | Y_Int int
  | Y_Text string
  | Y_List "yaml list"
  | Y_Map "(yaml \<times> yaml) list"
  | Y_Other string

type_synonym mapping = "(yaml \<times> yaml) list"
type_synonym loader = "string \<Rightarrow> string + yaml"

datatype guard_error =
    Too_Large string
  | Not_Yaml string string
  | Not_A_Mapping string
  | Unknown_Fields string "yaml list"
  | Bad_Schema_Version string "yaml option"
  | No_Policy_Block string
  | Bad_Policy_Id string
  | No_Gates string
  | Gate_Not_A_Mapping
  | Gate_Without_Id mapping
  | Gate_Id_Too_Long string
  | Bad_Gate_Type string "yaml option"
  | Bad_Enforcement string "yaml option"
  | Judge_Not_Advisory string
  | Bad_Message string
  | Bad_Runs string gate_type
  | Cannot_Run_At string "string list"
  | Bad_Accept_Warnings string
  | Not_A_Warning string string
  | Cannot_Draw string string
  | Bad_String_List string string
  | Double_Stars string string string
  | Bad_Phrase string string string
  | Empty_Phrase string string string
  | Bad_Priority string yaml
  | No_Verifier string
  | Verifier_Too_Long string
  | Verifier_Absolute string
  | Verifier_Nul string
  | No_Rubric string
  | Rubric_Too_Large string
  | Bad_Judge_Cli string
  | Unsupported_Judge_Cli string "string list"
  | Duplicate_Gate_Id string string
  | Prefixed_Id_Too_Long string string
  | No_Files string
  | Too_Many_Files string
  | Schema_Mismatch string string
  | Declared_Twice string string string

section \<open>Limits\<close>

definition max_policy_bytes :: int where
  "max_policy_bytes = 256 * 1024"

definition max_policy_files :: int where
  "max_policy_files = 64"

definition max_gate_id_length :: int where
  "max_gate_id_length = 200"

definition supported_schema_versions :: "string list" where
  "supported_schema_versions = [''1.0'']"

fun legal_runs :: "gate_type \<Rightarrow> runs_at list" where
  "legal_runs Type_Path = path_evidence_sources"
| "legal_runs Type_Command = [Command_Text]"
| "legal_runs Type_Command_If_Changed = [Stop_Session]"
| "legal_runs Type_Judge = [Stop_Session]"
| "legal_runs Type_Verifier = [Stop_Verifier]"

definition supported_judge_clis :: "string list" where
  "supported_judge_clis = [''claude'', ''codex'']"

definition max_double_star_per_glob :: nat where
  "max_double_star_per_glob = 1"

definition max_rubric_bytes :: int where
  "max_rubric_bytes = 16 * 1024"

definition max_verifier_length :: int where
  "max_verifier_length = 4096"

definition top_level_fields :: "string list" where
  "top_level_fields = [''schema_version'', ''policy'', ''gates'']"

definition policy_fields :: "string list" where
  "policy_fields = [''id'', ''description'']"

definition common_gate_fields :: "string list" where
  "common_gate_fields = [''accept_warnings'', ''enforcement'', ''id'', ''message'', ''runs'', ''type'']"

fun gate_fields :: "gate_type \<Rightarrow> string list" where
  "gate_fields Type_Path = common_gate_fields @ [''forbidden'']"
| "gate_fields Type_Command = common_gate_fields @ [''forbidden'']"
| "gate_fields Type_Command_If_Changed = common_gate_fields @ [''when_changed'', ''require'']"
| "gate_fields Type_Judge = common_gate_fields @ [''rubric'', ''when_changed'', ''judge_cli'', ''priority'']"
| "gate_fields Type_Verifier = common_gate_fields @ [''verifier'', ''when_changed'', ''priority'']"

section \<open>Fields\<close>

definition get_field :: "mapping \<Rightarrow> string \<Rightarrow> yaml option" where
  "get_field raw name = map_of raw (Y_Text name)"

definition require_fields :: "mapping \<Rightarrow> string list \<Rightarrow> string \<Rightarrow> guard_error + unit" where
  "require_fields document known place =
     (let unknown = filter (\<lambda>k. k \<notin> Y_Text ` set known) (map fst document) in
      if unknown \<noteq> [] then Inl (Unknown_Fields place unknown) else Inr ())"

text \<open>A list of strings, or nothing when an item is not a string.\<close>

fun texts :: "yaml list \<Rightarrow> string list option" where
  "texts [] = Some []"
| "texts (Y_Text s # ys) = map_option ((#) s) (texts ys)"
| "texts (_ # ys) = None"

definition require_string_list :: "mapping \<Rightarrow> string \<Rightarrow> string \<Rightarrow> guard_error + string list" where
  "require_string_list raw field gid =
     (case get_field raw field of
        Some (Y_List items) \<Rightarrow>
          (case texts items of
             Some ss \<Rightarrow> if ss = [] \<or> [] \<in> set ss then Inl (Bad_String_List gid field) else Inr (fromkeys ss)
           | None \<Rightarrow> Inl (Bad_String_List gid field))
      | _ \<Rightarrow> Inl (Bad_String_List gid field))"

definition parse_glob_list :: "string \<Rightarrow> string \<Rightarrow> string list \<Rightarrow> guard_error + string list" where
  "parse_glob_list gid field globs =
     (case find (\<lambda>g. max_double_star_per_glob < double_stars g) globs of
        Some g \<Rightarrow> Inl (Double_Stars gid field g)
      | None \<Rightarrow> Inr globs)"

definition parse_phrase :: "string \<Rightarrow> string \<Rightarrow> string \<Rightarrow> guard_error + string" where
  "parse_phrase gid field phrase =
     (case tokenize_phrase phrase of
        None \<Rightarrow> Inl (Bad_Phrase gid field phrase)
      | Some [] \<Rightarrow> Inl (Empty_Phrase gid field phrase)
      | Some (t # ts) \<Rightarrow> Inr phrase)"

definition parse_phrase_list :: "string \<Rightarrow> string \<Rightarrow> string list \<Rightarrow> guard_error + string list" where
  "parse_phrase_list gid field phrases = collect (parse_phrase gid field) phrases"

definition parse_priority :: "string \<Rightarrow> mapping \<Rightarrow> guard_error + int" where
  "parse_priority gid raw =
     (case get_field raw ''priority'' of
        None \<Rightarrow> Inr 0
      | Some (Y_Int n) \<Rightarrow> Inr n
      | Some v \<Rightarrow> Inl (Bad_Priority gid v))"

definition warning_codes :: "warning_code list" where
  "warning_codes = [Backslash_In_Glob, Glob_Matches_No_File, Glob_Misses_Shallower_Depth, Judge_Gate_Cap,
     Shell_Read_Unseen, Shell_Write_Unseen, Single_Token_Phrase, Verifier_Gate_Cap]"

definition parse_warning :: "string \<Rightarrow> gate_type \<Rightarrow> string \<Rightarrow> guard_error + warning_code" where
  "parse_warning gid type item =
     (case find (\<lambda>c. warning_name c = item) warning_codes of
        None \<Rightarrow> Inl (Not_A_Warning gid item)
      | Some code \<Rightarrow> if type \<notin> set (warning_gate_types code) then Inl (Cannot_Draw gid item) else Inr code)"

definition parse_accept_warnings :: "string \<Rightarrow> gate_type \<Rightarrow> mapping \<Rightarrow> guard_error + warning_code list" where
  "parse_accept_warnings gid type raw =
     (case get_field raw ''accept_warnings'' of
        None \<Rightarrow> Inr []
      | Some (Y_List items) \<Rightarrow>
          (case texts items of
             Some ss \<Rightarrow> if ss = [] then Inl (Bad_Accept_Warnings gid)
               else collect (parse_warning gid type) (fromkeys ss)
           | None \<Rightarrow> Inl (Bad_Accept_Warnings gid))
      | Some v \<Rightarrow> Inl (Bad_Accept_Warnings gid))"

text \<open>A field that may be one string or a list of strings: the entries, none when it is neither.\<close>

definition one_or_more :: "yaml option \<Rightarrow> string list" where
  "one_or_more value =
     (case value of
        Some (Y_Text s) \<Rightarrow> if s = [] then [] else [s]
      | Some (Y_List items) \<Rightarrow> (case texts items of Some ss \<Rightarrow> fromkeys ss | None \<Rightarrow> [])
      | _ \<Rightarrow> [])"

definition parse_runs :: "string \<Rightarrow> gate_type \<Rightarrow> mapping \<Rightarrow> guard_error + runs_at list" where
  "parse_runs gid type raw =
     (let legal = legal_runs type; candidates = one_or_more (get_field raw ''runs'');
          read = (\<lambda>item. find (\<lambda>r. runs_name r = item) legal);
          unsupported = filter (\<lambda>item. read item = None) candidates
      in if candidates = [] then Inl (Bad_Runs gid type)
         else if unsupported \<noteq> [] then Inl (Cannot_Run_At gid unsupported)
         else Inr (map (\<lambda>item. the (read item)) candidates))"

definition parse_judge_cli :: "string \<Rightarrow> mapping \<Rightarrow> guard_error + string list option" where
  "parse_judge_cli gid raw =
     (case get_field raw ''judge_cli'' of
        None \<Rightarrow> Inr None
      | Some v \<Rightarrow>
          (let candidates = one_or_more (Some v);
               unsupported = filter (\<lambda>c. c \<notin> set supported_judge_clis) candidates
           in if candidates = [] then Inl (Bad_Judge_Cli gid)
              else if unsupported \<noteq> [] then Inl (Unsupported_Judge_Cli gid unsupported)
              else Inr (Some candidates)))"

text \<open>The optional \<open>when_changed\<close> of judge and verifier gates.\<close>

definition parse_when_changed :: "string \<Rightarrow> mapping \<Rightarrow> guard_error + string list" where
  "parse_when_changed gid raw =
     (if get_field raw ''when_changed'' = None then Inr []
      else bind_result (require_string_list raw ''when_changed'' gid) (parse_glob_list gid ''when_changed''))"

definition parse_enforcement :: "string \<Rightarrow> gate_type \<Rightarrow> mapping \<Rightarrow> guard_error + enforcement" where
  "parse_enforcement gid type raw =
     (case get_field raw ''enforcement'' of
        Some (Y_Text s) \<Rightarrow>
          if s = ''required'' then if type = Type_Judge then Inl (Judge_Not_Advisory gid) else Inr Required
          else if s = ''advisory'' then Inr Advisory
          else Inl (Bad_Enforcement gid (Some (Y_Text s)))
      | v \<Rightarrow> Inl (Bad_Enforcement gid v))"

definition parse_message :: "string \<Rightarrow> mapping \<Rightarrow> guard_error + string" where
  "parse_message gid raw =
     (case get_field raw ''message'' of
        None \<Rightarrow> Inr []
      | Some (Y_Text s) \<Rightarrow> Inr (py_strip s)
      | Some v \<Rightarrow> Inl (Bad_Message gid))"

definition parse_verifier :: "string \<Rightarrow> mapping \<Rightarrow> guard_error + string" where
  "parse_verifier gid raw =
     (case get_field raw ''verifier'' of
        Some (Y_Text s) \<Rightarrow>
          if py_strip s = [] then Inl (No_Verifier gid)
          else if max_verifier_length < int (length s) then Inl (Verifier_Too_Long gid)
          else if is_prefix ''/'' s then Inl (Verifier_Absolute gid)
          else if CHR 0x00 \<in> set s then Inl (Verifier_Nul gid)
          else Inr s
      | v \<Rightarrow> Inl (No_Verifier gid))"

definition parse_rubric :: "string \<Rightarrow> mapping \<Rightarrow> guard_error + string" where
  "parse_rubric gid raw =
     (case get_field raw ''rubric'' of
        Some (Y_Text s) \<Rightarrow>
          if py_strip s = [] then Inl (No_Rubric gid)
          else if max_rubric_bytes < int (utf8_length s) then Inl (Rubric_Too_Large gid)
          else Inr s
      | v \<Rightarrow> Inl (No_Rubric gid))"

section \<open>Gates\<close>

definition gate_types :: "gate_type list" where
  "gate_types = [Type_Command, Type_Command_If_Changed, Type_Judge, Type_Path, Type_Verifier]"

definition parse_gate_id :: "mapping \<Rightarrow> guard_error + string" where
  "parse_gate_id raw =
     (case get_field raw ''id'' of
        Some (Y_Text s) \<Rightarrow>
          if s = [] then Inl (Gate_Without_Id raw)
          else if max_gate_id_length < int (length s) then Inl (Gate_Id_Too_Long s)
          else Inr s
      | v \<Rightarrow> Inl (Gate_Without_Id raw))"

definition parse_gate_type :: "string \<Rightarrow> mapping \<Rightarrow> guard_error + gate_type" where
  "parse_gate_type gid raw =
     (case get_field raw ''type'' of
        Some (Y_Text s) \<Rightarrow>
          (case find (\<lambda>t. gate_type_name t = s) gate_types of
             Some t \<Rightarrow> Inr t | None \<Rightarrow> Inl (Bad_Gate_Type gid (Some (Y_Text s))))
      | v \<Rightarrow> Inl (Bad_Gate_Type gid v))"

text \<open>The branches of \<open>_parse_gate\<close>, given what every gate declares.\<close>

definition parse_typed_gate :: "mapping \<Rightarrow> gate_type \<Rightarrow> gate_common \<Rightarrow> guard_error + gate" where
  "parse_typed_gate raw type c =
     (let gid = gate_id c in
      case type of
        Type_Path \<Rightarrow>
          bind_result (require_string_list raw ''forbidden'' gid) (\<lambda>l.
          bind_result (parse_glob_list gid ''forbidden'' l) (\<lambda>globs.
          Inr (Path_Gate (gate_common.extend c (path_gate.fields globs)))))
      | Type_Command \<Rightarrow>
          bind_result (require_string_list raw ''forbidden'' gid) (\<lambda>l.
          bind_result (parse_phrase_list gid ''forbidden'' l) (\<lambda>phrases.
          Inr (Command_Gate (gate_common.extend c (command_gate.fields phrases)))))
      | Type_Command_If_Changed \<Rightarrow>
          bind_result (require_string_list raw ''when_changed'' gid) (\<lambda>l.
          bind_result (parse_glob_list gid ''when_changed'' l) (\<lambda>globs.
          bind_result (require_string_list raw ''require'' gid) (\<lambda>r.
          bind_result (parse_phrase_list gid ''require'' r) (\<lambda>phrases.
          Inr (Command_If_Changed_Gate (gate_common.extend c (command_if_changed_gate.fields globs phrases)))))))
      | Type_Verifier \<Rightarrow>
          bind_result (parse_verifier gid raw) (\<lambda>v.
          bind_result (parse_when_changed gid raw) (\<lambda>globs.
          bind_result (parse_priority gid raw) (\<lambda>p.
          Inr (Verifier_Gate (gate_common.extend c (verifier_gate.fields v globs p))))))
      | Type_Judge \<Rightarrow>
          bind_result (parse_rubric gid raw) (\<lambda>r.
          bind_result (parse_when_changed gid raw) (\<lambda>globs.
          bind_result (parse_judge_cli gid raw) (\<lambda>cli.
          bind_result (parse_priority gid raw) (\<lambda>p.
          Inr (Judge_Gate (gate_common.extend c (judge_gate.fields r globs cli p))))))))"

fun parse_gate :: "yaml \<Rightarrow> guard_error + gate" where
  "parse_gate (Y_Map raw) =
     bind_result (parse_gate_id raw) (\<lambda>gid.
     bind_result (parse_gate_type gid raw) (\<lambda>type.
     bind_result (require_fields raw (gate_fields type) gid) (\<lambda>_.
     bind_result (parse_enforcement gid type raw) (\<lambda>enf.
     bind_result (parse_message gid raw) (\<lambda>msg.
     bind_result (parse_runs gid type raw) (\<lambda>moments.
     bind_result (parse_accept_warnings gid type raw) (\<lambda>accepted.
     parse_typed_gate raw type \<lparr>gate_id = gid, gate_enforcement = enf, gate_runs = moments,
       gate_message = msg, accept_warnings = accepted\<rparr>)))))))"
| "parse_gate _ = Inl Gate_Not_A_Mapping"

section \<open>Policies\<close>

record policy =
  schema_version :: string
  policy_id :: string
  policy_gates :: "gate list"
  gate_sources :: "(string \<times> string) list"

definition gate_name :: "gate \<Rightarrow> string" where
  "gate_name g = gate_id (common g)"

fun first_duplicate :: "string list \<Rightarrow> string list \<Rightarrow> string option" where
  "first_duplicate seen [] = None"
| "first_duplicate seen (x # xs) = (if x \<in> set seen then Some x else first_duplicate (x # seen) xs)"

definition parse_schema_version :: "string \<Rightarrow> mapping \<Rightarrow> guard_error + string" where
  "parse_schema_version source document =
     (case get_field document ''schema_version'' of
        Some (Y_Text s) \<Rightarrow>
          if s \<in> set supported_schema_versions then Inr s else Inl (Bad_Schema_Version source (Some (Y_Text s)))
      | v \<Rightarrow> Inl (Bad_Schema_Version source v))"

definition parse_policy_block :: "string \<Rightarrow> mapping \<Rightarrow> guard_error + string" where
  "parse_policy_block source document =
     (case get_field document ''policy'' of
        Some (Y_Map block) \<Rightarrow>
          bind_result (require_fields block policy_fields source) (\<lambda>_.
          case get_field block ''id'' of
            Some (Y_Text s) \<Rightarrow> if s = [] then Inl (Bad_Policy_Id source) else Inr s
          | _ \<Rightarrow> Inl (Bad_Policy_Id source))
      | _ \<Rightarrow> Inl (No_Policy_Block source))"

definition parse_gates :: "string \<Rightarrow> mapping \<Rightarrow> guard_error + gate list" where
  "parse_gates source document =
     (case get_field document ''gates'' of
        Some (Y_List (y # ys)) \<Rightarrow>
          bind_result (collect parse_gate (y # ys)) (\<lambda>gates.
          case first_duplicate [] (map gate_name gates) of
            Some gid \<Rightarrow> Inl (Duplicate_Gate_Id source gid)
          | None \<Rightarrow> Inr gates)
      | _ \<Rightarrow> Inl (No_Gates source))"

definition load_policy_document :: "loader \<Rightarrow> string \<Rightarrow> string \<Rightarrow> guard_error + yaml" where
  "load_policy_document load raw_yaml source =
     (case load raw_yaml of Inl e \<Rightarrow> Inl (Not_Yaml source e) | Inr y \<Rightarrow> Inr y)"

definition parse_policy :: "loader \<Rightarrow> string \<Rightarrow> string \<Rightarrow> guard_error + policy" where
  "parse_policy load raw_yaml source =
     (if max_policy_bytes < int (utf8_length raw_yaml) then Inl (Too_Large source)
      else bind_result (load_policy_document load raw_yaml source) (\<lambda>y.
      case y of
        Y_Map document \<Rightarrow>
          bind_result (require_fields document top_level_fields source) (\<lambda>_.
          bind_result (parse_schema_version source document) (\<lambda>version.
          bind_result (parse_policy_block source document) (\<lambda>pid.
          bind_result (parse_gates source document) (\<lambda>gates.
          Inr \<lparr>schema_version = version, policy_id = pid, policy_gates = gates, gate_sources = []\<rparr>))))
      | _ \<Rightarrow> Inl (Not_A_Mapping source)))"

section \<open>Composition\<close>

record policy_file =
  file_name :: string
  file_body :: string
  gate_id_prefix :: string

fun rename_gate :: "(string \<Rightarrow> string) \<Rightarrow> gate \<Rightarrow> gate" where
  "rename_gate f (Path_Gate g) = Path_Gate (g\<lparr>gate_id := f (gate_id g)\<rparr>)"
| "rename_gate f (Command_Gate g) = Command_Gate (g\<lparr>gate_id := f (gate_id g)\<rparr>)"
| "rename_gate f (Command_If_Changed_Gate g) = Command_If_Changed_Gate (g\<lparr>gate_id := f (gate_id g)\<rparr>)"
| "rename_gate f (Judge_Gate g) = Judge_Gate (g\<lparr>gate_id := f (gate_id g)\<rparr>)"
| "rename_gate f (Verifier_Gate g) = Verifier_Gate (g\<lparr>gate_id := f (gate_id g)\<rparr>)"

definition parse_policy_file :: "loader \<Rightarrow> policy_file \<Rightarrow> guard_error + policy" where
  "parse_policy_file load file =
     bind_result (parse_policy load (file_body file) (file_name file)) (\<lambda>spec.
     if gate_id_prefix file = [] then Inr spec
     else
       let gates = map (rename_gate ((@) (gate_id_prefix file))) (policy_gates spec) in
       case find (\<lambda>g. max_gate_id_length < int (length (gate_name g))) gates of
         Some g \<Rightarrow> Inl (Prefixed_Id_Too_Long (file_name file) (gate_name g))
       | None \<Rightarrow> Inr (spec\<lparr>policy_gates := gates\<rparr>))"

text \<open>The loop over the gates of all files: a repeated id names the file that declared_gates it first.\<close>

fun merge_gates ::
  "(string \<times> string) list \<Rightarrow> (string \<times> gate) list \<Rightarrow> guard_error + (string \<times> string) list" where
  "merge_gates sources [] = Inr sources"
| "merge_gates sources ((file, g) # rest) =
     (case map_of sources (gate_name g) of
        Some earlier \<Rightarrow> Inl (Declared_Twice (gate_name g) earlier file)
      | None \<Rightarrow> merge_gates (sources @ [(gate_name g, file)]) rest)"

definition declared_gates :: "(policy_file \<times> policy) list \<Rightarrow> (string \<times> gate) list" where
  "declared_gates parsed = concat (map (\<lambda>(file, spec). map (Pair (file_name file)) (policy_gates spec)) parsed)"

definition compose_policy :: "loader \<Rightarrow> policy_file list \<Rightarrow> string \<Rightarrow> guard_error + policy" where
  "compose_policy load files pid =
     (if files = [] then Inl (No_Files pid)
      else if max_policy_files < int (length files) then Inl (Too_Many_Files pid)
      else
        bind_result (collect (\<lambda>file. bind_result (parse_policy_file load file) (\<lambda>spec. Inr (file, spec))) files)
        (\<lambda>parsed.
        let version = schema_version (snd (hd parsed)) in
        case find (\<lambda>(file, spec). schema_version spec \<noteq> version) (tl parsed) of
          Some (file, spec) \<Rightarrow> Inl (Schema_Mismatch (file_name file) (file_name (fst (hd parsed))))
        | None \<Rightarrow>
            bind_result (merge_gates [] (declared_gates parsed)) (\<lambda>sources.
            Inr \<lparr>schema_version = version, policy_id = pid, policy_gates = map snd (declared_gates parsed),
              gate_sources = (if 1 < length files then sources else [])\<rparr>)))"

section \<open>What a parsed policy satisfies\<close>

definition good_globs :: "string list \<Rightarrow> bool" where
  "good_globs globs = list_all (\<lambda>g. double_stars g \<le> 1) globs"

definition good_phrases :: "string list \<Rightarrow> bool" where
  "good_phrases phrases = list_all (\<lambda>p. tokenize_phrase p \<noteq> None \<and> tokenize_phrase p \<noteq> Some []) phrases"

fun type_of_gate :: "gate \<Rightarrow> gate_type" where
  "type_of_gate (Path_Gate g) = Type_Path"
| "type_of_gate (Command_Gate g) = Type_Command"
| "type_of_gate (Command_If_Changed_Gate g) = Type_Command_If_Changed"
| "type_of_gate (Judge_Gate g) = Type_Judge"
| "type_of_gate (Verifier_Gate g) = Type_Verifier"

fun good_patterns :: "gate \<Rightarrow> bool" where
  "good_patterns (Path_Gate g) = (forbidden_globs g \<noteq> [] \<and> good_globs (forbidden_globs g))"
| "good_patterns (Command_Gate g) = (forbidden_phrases g \<noteq> [] \<and> good_phrases (forbidden_phrases g))"
| "good_patterns (Command_If_Changed_Gate g) =
     (if_changed g \<noteq> [] \<and> good_globs (if_changed g) \<and> require_phrases g \<noteq> [] \<and> good_phrases (require_phrases g))"
| "good_patterns (Judge_Gate g) = good_globs (judged_when_changed g)"
| "good_patterns (Verifier_Gate g) = good_globs (verified_when_changed g)"

definition good_gate :: "gate \<Rightarrow> bool" where
  "good_gate g =
     (gate_name g \<noteq> [] \<and> int (length (gate_name g)) \<le> max_gate_id_length
      \<and> gate_runs (common g) \<noteq> [] \<and> set (gate_runs (common g)) \<subseteq> set (legal_runs (type_of_gate g))
      \<and> (type_of_gate g = Type_Judge \<longrightarrow> gate_enforcement (common g) = Advisory)
      \<and> (\<forall>w \<in> set (accept_warnings (common g)). type_of_gate g \<in> set (warning_gate_types w))
      \<and> good_patterns g)"

definition good_policy :: "policy \<Rightarrow> bool" where
  "good_policy spec =
     (policy_gates spec \<noteq> [] \<and> distinct (map gate_name (policy_gates spec))
      \<and> list_all good_gate (policy_gates spec))"

end
