(* ===== verification/Guard_Check.thy ===== *)
theory Guard_Check
  imports Guard_Policy
begin

text \<open>
  One check of a policy against the evidence of a moment (\<open>cli/src/otari_agent/domain/check.py\<close>): bounds on the
  evidence, the budgets of the match work, the evaluation of every gate in the order of the policy, and the verdict.
\<close>

definition max_path_length :: int where
  "max_path_length = 4096"

definition max_command_length :: int where
  "max_command_length = 4096"

definition max_match_work :: int where
  "max_match_work = 50000000"

definition max_comparisons :: int where
  "max_comparisons = 1000000"

definition max_command_work :: int where
  "max_command_work = 2000000"

definition max_command_comparisons :: int where
  "max_command_comparisons = 500000"

definition max_total_command_chars :: int where
  "max_total_command_chars = 2000000"

datatype check_error =
    Malformed_Policy guard_error
  | Path_Too_Long
  | Command_Too_Long
  | Bad_Path_Source "runs_at option"
  | Match_Work nat nat
  | Command_Chars nat
  | Command_Work nat nat
  | Unhandled raised

record check_result =
  checked_policy :: string
  checked_version :: string
  gate_results :: "gate_result list"
  blocked :: bool

section \<open>The evidence\<close>

record evidence =
  paths :: "string list option"
  commands :: "string list option"
  path_source :: "runs_at option"
  command_scope :: evidence_scope
  judge_results :: "judge_verdict list option"
  check_results :: "check_verdict list option"

definition given :: "'a list option \<Rightarrow> 'a list" where
  "given x = (case x of None \<Rightarrow> [] | Some l \<Rightarrow> l)"

definition path_evidence_of :: "evidence \<Rightarrow> path_evidence option" where
  "path_evidence_of e =
     map_option (\<lambda>ps. \<lparr>evidence_paths = fromkeys ps, evidence_source = path_source e\<rparr>) (paths e)"

definition command_evidence_of :: "evidence \<Rightarrow> command_evidence option" where
  "command_evidence_of e =
     map_option (\<lambda>cs. \<lparr>evidence_commands = fromkeys cs, evidence_scope = command_scope e\<rparr>) (commands e)"

section \<open>Dispatch\<close>

fun evaluate_gate ::
  "path_evidence option \<Rightarrow> command_evidence option \<Rightarrow> judge_verdict list option \<Rightarrow> check_verdict list option \<Rightarrow>
     segment_cache option \<Rightarrow> phrase_cache option \<Rightarrow> gate \<Rightarrow> raised + gate_result" where
  "evaluate_gate p c j v segs phrases (Path_Gate g) = Inr (evaluate_path g p)"
| "evaluate_gate p c j v segs phrases (Command_Gate g) = evaluate_command g c segs phrases"
| "evaluate_gate p c j v segs phrases (Judge_Gate g) = Inr (evaluate_judge g p j)"
| "evaluate_gate p c j v segs phrases (Verifier_Gate g) = Inr (evaluate_verifier g p v)"
| "evaluate_gate p c j v segs phrases (Command_If_Changed_Gate g) = evaluate_command_if_changed g p c segs phrases"

section \<open>Budgets\<close>

text \<open>The globs and phrases a gate matches.\<close>

fun gate_globs :: "gate \<Rightarrow> string list" where
  "gate_globs (Path_Gate g) = forbidden_globs g"
| "gate_globs (Command_Gate g) = []"
| "gate_globs (Command_If_Changed_Gate g) = if_changed g"
| "gate_globs (Judge_Gate g) = judged_when_changed g"
| "gate_globs (Verifier_Gate g) = verified_when_changed g"

fun gate_phrases :: "gate \<Rightarrow> string list" where
  "gate_phrases (Command_Gate g) = forbidden_phrases g"
| "gate_phrases (Command_If_Changed_Gate g) = require_phrases g"
| "gate_phrases _ = []"

fun reads_commands :: "gate \<Rightarrow> bool" where
  "reads_commands (Command_Gate g) = True"
| "reads_commands (Command_If_Changed_Gate g) = True"
| "reads_commands _ = False"

definition gates_of :: "gate_type \<Rightarrow> policy \<Rightarrow> gate list" where
  "gates_of type spec = filter (\<lambda>g. type_of_gate g = type) (policy_gates spec)"

definition total_length :: "'a list list \<Rightarrow> nat" where
  "total_length xs = sum_list (map length xs)"

definition path_globs :: "policy \<Rightarrow> string list" where
  "path_globs spec = concat (map gate_globs (gates_of Type_Path spec))
     @ concat (map gate_globs (gates_of Type_Command_If_Changed spec))
     @ concat (map gate_globs (gates_of Type_Judge spec)) @ concat (map gate_globs (gates_of Type_Verifier spec))"

definition estimated_work :: "string list \<Rightarrow> string list \<Rightarrow> nat" where
  "estimated_work globs ps = length globs * total_length ps + length ps * total_length globs"

definition comparisons :: "'a list \<Rightarrow> 'b list \<Rightarrow> nat" where
  "comparisons xs ys = length xs * length ys"

definition check_match_work :: "policy \<Rightarrow> string list \<Rightarrow> check_error + unit" where
  "check_match_work spec ps =
     (let globs = path_globs spec; work = estimated_work globs ps
      in if max_match_work < int work \<or> max_comparisons < int (comparisons globs ps)
         then Inl (Match_Work work (comparisons globs ps))
         else Inr ())"

definition command_phrases :: "policy \<Rightarrow> string list" where
  "command_phrases spec = concat (map gate_phrases (gates_of Type_Command spec))
     @ concat (map gate_phrases (gates_of Type_Command_If_Changed spec))"

definition cached :: "phrase_cache \<Rightarrow> string \<Rightarrow> string list" where
  "cached cache phrase = (case map_of cache phrase of None \<Rightarrow> [] | Some ts \<Rightarrow> ts)"

definition estimated_command_work :: "phrase_cache \<Rightarrow> string list \<Rightarrow> segment_cache \<Rightarrow> nat" where
  "estimated_command_work cache phrases segs =
     total_length (map (cached cache) phrases) * sum_list (map (\<lambda>(c, s). total_length s) segs)"

text \<open>The two caches, built only when a gate reads commands and there are commands to read.\<close>

definition token_caches ::
  "policy \<Rightarrow> command_evidence option \<Rightarrow> check_error + segment_cache option \<times> phrase_cache option" where
  "token_caches spec evidence =
     (case evidence of
        None \<Rightarrow> Inr (None, None)
      | Some e \<Rightarrow>
          if gates_of Type_Command spec = [] \<and> gates_of Type_Command_If_Changed spec = [] then Inr (None, None)
          else
            let chars = total_length (evidence_commands e) in
            if max_total_command_chars < int chars then Inl (Command_Chars chars)
            else
              let segs = tokenize_commands (evidence_commands e); phrases = command_phrases spec in
              case tokenize_phrases phrases of
                Inl err \<Rightarrow> Inl (Unhandled err)
              | Inr cache \<Rightarrow>
                  let work = estimated_command_work cache phrases segs;
                      pairs = comparisons phrases (evidence_commands e)
                  in if max_command_work < int work \<or> max_command_comparisons < int pairs
                     then Inl (Command_Work work pairs)
                     else Inr (Some segs, Some cache))"

section \<open>The check\<close>

definition is_objection :: "gate_result \<Rightarrow> bool" where
  "is_objection r = (result_enforcement r = Required \<and> is_blocking (result_outcome r))"

definition with_source :: "(string \<times> string) list \<Rightarrow> gate_result \<Rightarrow> gate_result" where
  "with_source sources r =
     (if sources = [] then r else r\<lparr>result_source := map_of sources (result_gate r)\<rparr>)"

definition check_evidence :: "policy \<Rightarrow> evidence \<Rightarrow> check_error + unit" where
  "check_evidence spec e =
     (if list_ex (\<lambda>p. max_path_length < int (length p)) (given (paths e)) then Inl Path_Too_Long
      else if list_ex (\<lambda>c. max_command_length < int (length c)) (given (commands e)) then Inl Command_Too_Long
      else if given (paths e) \<noteq> [] \<and> path_source e \<notin> Some ` set path_evidence_sources
      then Inl (Bad_Path_Source (path_source e))
      else check_match_work spec (case path_evidence_of e of None \<Rightarrow> [] | Some p \<Rightarrow> evidence_paths p))"

definition lift_raised :: "raised + 'a \<Rightarrow> check_error + 'a" where
  "lift_raised r = (case r of Inl e \<Rightarrow> Inl (Unhandled e) | Inr x \<Rightarrow> Inr x)"

definition check_policy :: "policy \<Rightarrow> evidence \<Rightarrow> check_error + check_result" where
  "check_policy spec e =
     bind_result (check_evidence spec e) (\<lambda>_.
     bind_result (token_caches spec (command_evidence_of e)) (\<lambda>(segs, phrases).
     bind_result (lift_raised (collect
       (evaluate_gate (path_evidence_of e) (command_evidence_of e) (judge_results e) (check_results e) segs phrases)
       (policy_gates spec))) (\<lambda>results.
     Inr \<lparr>checked_policy = policy_id spec, checked_version = schema_version spec,
       gate_results = map (with_source (gate_sources spec)) results,
       blocked = list_ex is_objection (map (with_source (gate_sources spec)) results)\<rparr>)))"

definition run_policy_check :: "loader \<Rightarrow> string \<Rightarrow> string \<Rightarrow> evidence \<Rightarrow> check_error + check_result" where
  "run_policy_check load policy_yaml source e =
     (case parse_policy load policy_yaml source of
        Inl err \<Rightarrow> Inl (Malformed_Policy err)
      | Inr spec \<Rightarrow> check_policy spec e)"

end
