(* ===== verification/Guard_Policy_Laws.thy ===== *)
theory Guard_Policy_Laws
  imports Guard_Check
begin

text \<open>
  What parsing guarantees: every policy the parser or the composer returns is \<open>good_policy\<close>, and the gates of a
  composed policy are those of its files in order.
\<close>

section \<open>Lists of fallible calls\<close>

lemma collect_Inr_iff: "collect f xs = Inr ys \<longleftrightarrow> list_all2 (\<lambda>x y. f x = Inr y) xs ys"
  by (induction xs arbitrary: ys) (auto simp: bind_result_Inr_iff list_all2_Cons1)

lemma collect_member: "collect f xs = Inr ys \<Longrightarrow> y \<in> set ys \<Longrightarrow> \<exists>x \<in> set xs. f x = Inr y"
  unfolding collect_Inr_iff by (auto simp: list_all2_conv_all_nth in_set_conv_nth) (metis nth_mem)

lemma collect_all: "(\<And>x. x \<in> set xs \<Longrightarrow> f x = Inr (g x)) \<Longrightarrow> collect f xs = Inr (map g xs)"
  by (induction xs) auto

lemma collect_append: "collect f (xs @ ys) = bind_result (collect f xs) (\<lambda>a. bind_result (collect f ys) (\<lambda>b. Inr (a @ b)))"
  by (induction xs) (auto simp: bind_result_def split: sum.splits)

lemma bind_result_Inl_iff:
  "bind_result r k = Inl e \<longleftrightarrow> r = Inl e \<or> (\<exists>x. r = Inr x \<and> k x = Inl e)"
  by (cases r) auto

section \<open>Fields\<close>

lemma fromkeys_empty [simp]: "fromkeys xs = [] \<longleftrightarrow> xs = []"
  by (cases xs) auto

lemma require_string_list_Inr: "require_string_list raw field gid = Inr ss \<Longrightarrow> ss \<noteq> [] \<and> distinct ss"
  by (auto simp: require_string_list_def split: option.splits yaml.splits if_splits)

lemma parse_glob_list_Inr: "parse_glob_list gid field globs = Inr r \<Longrightarrow> r = globs \<and> good_globs globs"
  by (auto simp: parse_glob_list_def good_globs_def max_double_star_per_glob_def list_all_iff not_less
      find_None_iff split: option.splits)

lemma parse_phrase_Inr:
  "parse_phrase gid field p = Inr r \<Longrightarrow> r = p \<and> tokenize_phrase p \<noteq> None \<and> tokenize_phrase p \<noteq> Some []"
  by (auto simp: parse_phrase_def split: option.splits list.splits)

lemma parse_phrase_list_Inr: "parse_phrase_list gid field ps = Inr r \<Longrightarrow> r = ps \<and> good_phrases ps"
  unfolding parse_phrase_list_def good_phrases_def
  by (induction ps arbitrary: r) (auto simp: bind_result_Inr_iff dest!: parse_phrase_Inr)

lemma parse_when_changed_Inr: "parse_when_changed gid raw = Inr globs \<Longrightarrow> good_globs globs"
  by (auto simp: parse_when_changed_def bind_result_Inr_iff good_globs_def dest!: parse_glob_list_Inr split: if_splits)

lemma parse_warning_Inr: "parse_warning gid type item = Inr w \<Longrightarrow> type \<in> set (warning_gate_types w)"
  by (auto simp: parse_warning_def split: option.splits if_splits)

lemma parse_accept_warnings_Inr:
  "parse_accept_warnings gid type raw = Inr ws \<Longrightarrow> w \<in> set ws \<Longrightarrow> type \<in> set (warning_gate_types w)"
  by (auto simp: parse_accept_warnings_def split: option.splits yaml.splits if_splits
      dest!: collect_member parse_warning_Inr)

lemma parse_runs_Inr:
  assumes "parse_runs gid type raw = Inr rs"
  shows "rs \<noteq> [] \<and> set rs \<subseteq> set (legal_runs type)"
proof -
  let ?read = "\<lambda>item. find (\<lambda>r. runs_name r = item) (legal_runs type)"
  let ?c = "one_or_more (get_field raw ''runs'')"
  have c: "?c \<noteq> []" "filter (\<lambda>item. ?read item = None) ?c = []" and rs: "rs = map (\<lambda>item. the (?read item)) ?c"
    using assms by (auto simp: parse_runs_def Let_def split: if_splits)
  have "the (?read item) \<in> set (legal_runs type)" if "item \<in> set ?c" for item
  proof -
    have "?read item \<noteq> None" using c(2) that by (auto simp: filter_empty_conv)
    then obtain r where "?read item = Some r" by auto
    then show ?thesis using find_key_Some_D by fastforce
  qed
  then show ?thesis using c(1) rs by auto
qed

lemma parse_enforcement_judge: "parse_enforcement gid Type_Judge raw = Inr enf \<Longrightarrow> enf = Advisory"
  by (auto simp: parse_enforcement_def split: option.splits yaml.splits if_splits)

lemma parse_gate_id_Inr: "parse_gate_id raw = Inr gid \<Longrightarrow> gid \<noteq> [] \<and> int (length gid) \<le> max_gate_id_length"
  by (auto simp: parse_gate_id_def split: option.splits yaml.splits if_splits)

section \<open>Gates\<close>

lemma common_truncate [simp]:
  "gate_common.truncate (gate_common.extend c rest) = c"
  by (cases c) (simp add: gate_common.defs)

lemma extend_fields [simp]:
  "gate_id (gate_common.extend c rest) = gate_id c"
  "gate_runs (gate_common.extend c rest) = gate_runs c"
  by (simp_all add: gate_common.defs)

lemma kind_fields [simp]:
  "forbidden_globs (gate_common.extend c (path_gate.fields l)) = l"
  "forbidden_phrases (gate_common.extend c (command_gate.fields l)) = l"
  "if_changed (gate_common.extend c (command_if_changed_gate.fields l r)) = l"
  "require_phrases (gate_common.extend c (command_if_changed_gate.fields l r)) = r"
  "judged_when_changed (gate_common.extend c (judge_gate.fields u l cli p)) = l"
  "verified_when_changed (gate_common.extend c (verifier_gate.fields v l p)) = l"
  by (simp_all add: gate_common.defs path_gate.defs command_gate.defs command_if_changed_gate.defs
      judge_gate.defs verifier_gate.defs)

lemma parse_typed_gate_Inr:
  assumes "parse_typed_gate raw type c = Inr g"
  shows "common g = c" "type_of_gate g = type" "good_patterns g"
proof -
  show "common g = c" using assms
    by (cases type) (auto simp: parse_typed_gate_def Let_def bind_result_Inr_iff)
  show "type_of_gate g = type" using assms
    by (cases type) (auto simp: parse_typed_gate_def Let_def bind_result_Inr_iff)
  show "good_patterns g" using assms
    by (cases type)
       (auto simp: parse_typed_gate_def Let_def bind_result_Inr_iff
         dest!: require_string_list_Inr parse_glob_list_Inr parse_phrase_list_Inr parse_when_changed_Inr)
qed

lemma parse_gate_good:
  assumes "parse_gate y = Inr g"
  shows "good_gate g"
proof -
  obtain raw where y: "y = Y_Map raw" using assms by (cases y) auto
  obtain gid type enf msg moments accepted where
    gid: "parse_gate_id raw = Inr gid" and enf: "parse_enforcement gid type raw = Inr enf"
    and moments: "parse_runs gid type raw = Inr moments"
    and accepted: "parse_accept_warnings gid type raw = Inr accepted"
    and g: "parse_typed_gate raw type \<lparr>gate_id = gid, gate_enforcement = enf, gate_runs = moments,
       gate_message = msg, accept_warnings = accepted\<rparr> = Inr g"
    using assms unfolding y by (auto simp: bind_result_Inr_iff)
  note typed = parse_typed_gate_Inr[OF g]
  show ?thesis
    using typed parse_gate_id_Inr[OF gid] parse_runs_Inr[OF moments] parse_accept_warnings_Inr[OF accepted]
      parse_enforcement_judge[of gid raw enf] enf
    by (auto simp: good_gate_def gate_name_def)
qed

section \<open>Policies\<close>

lemma first_duplicate_None: "first_duplicate seen xs = None \<longleftrightarrow> distinct xs \<and> set xs \<inter> set seen = {}"
  by (induction seen xs rule: first_duplicate.induct) auto

lemma parse_gates_good:
  assumes "parse_gates source document = Inr gates"
  shows "gates \<noteq> [] \<and> distinct (map gate_name gates) \<and> list_all good_gate gates"
proof -
  obtain y ys where c: "collect parse_gate (y # ys) = Inr gates"
    and d: "first_duplicate [] (map gate_name gates) = None"
    using assms by (auto simp: parse_gates_def bind_result_Inr_iff split: option.splits yaml.splits list.splits)
  have "gates \<noteq> []" using c by (auto simp: bind_result_Inr_iff)
  moreover have "list_all good_gate gates"
    unfolding list_all_iff using collect_member[OF c] parse_gate_good by blast
  ultimately show ?thesis using d by (simp add: first_duplicate_None)
qed

lemma parse_policy_Inr:
  assumes "parse_policy load raw_yaml source = Inr spec"
  obtains document where "parse_schema_version source document = Inr (schema_version spec)"
    "parse_policy_block source document = Inr (policy_id spec)"
    "parse_gates source document = Inr (policy_gates spec)" "gate_sources spec = []"
proof -
  obtain y where y: "load_policy_document load raw_yaml source = Inr y"
    using assms by (auto simp: parse_policy_def bind_result_Inr_iff split: if_splits)
  show ?thesis
    using assms that unfolding parse_policy_def y
    by (cases y) (auto simp: bind_result_Inr_iff split: if_splits)
qed

lemma parse_policy_good: "parse_policy load raw_yaml source = Inr spec \<Longrightarrow> good_policy spec \<and> gate_sources spec = []"
  by (erule parse_policy_Inr) (simp add: good_policy_def parse_gates_good)

lemma parse_policy_version:
  "parse_policy load raw_yaml source = Inr spec \<Longrightarrow> schema_version spec \<in> set supported_schema_versions"
  by (erule parse_policy_Inr) (auto simp: parse_schema_version_def split: yaml.splits option.splits if_splits)

lemma rename_gate_common [simp]:
  "common (rename_gate f g) = (common g)\<lparr>gate_id := f (gate_id (common g))\<rparr>"
  by (cases g) (simp_all add: gate_common.defs)

lemma rename_gate_simps [simp]:
  "gate_name (rename_gate f g) = f (gate_name g)"
  "type_of_gate (rename_gate f g) = type_of_gate g"
  "good_patterns (rename_gate f g) = good_patterns g"
  by (cases g; simp add: gate_name_def gate_common.defs)+

lemma parse_policy_file_good:
  assumes "parse_policy_file load file = Inr spec"
  shows "good_policy spec \<and> gate_sources spec = [] \<and> schema_version spec \<in> set supported_schema_versions"
proof -
  obtain s where s: "parse_policy load (file_body file) (file_name file) = Inr s"
    and spec: "gate_id_prefix file = [] \<and> spec = s \<or>
      spec = s\<lparr>policy_gates := map (rename_gate ((@) (gate_id_prefix file))) (policy_gates s)\<rparr> \<and>
      find (\<lambda>g. max_gate_id_length < int (length (gate_name g))) (map (rename_gate ((@) (gate_id_prefix file))) (policy_gates s)) = None"
    using assms by (auto simp: parse_policy_file_def bind_result_Inr_iff Let_def split: if_splits option.splits)
  note good = parse_policy_good[OF s] parse_policy_version[OF s]
  show ?thesis
    using spec
  proof (elim disjE conjE)
    assume "spec = s" then show ?thesis using good by simp
  next
    assume spec: "spec = s\<lparr>policy_gates := map (rename_gate ((@) (gate_id_prefix file))) (policy_gates s)\<rparr>"
      and len: "find (\<lambda>g. max_gate_id_length < int (length (gate_name g))) (map (rename_gate ((@) (gate_id_prefix file))) (policy_gates s)) = None"
    have "map gate_name (policy_gates spec) = map ((@) (gate_id_prefix file)) (map gate_name (policy_gates s))"
      using spec by simp
    then have "distinct (map gate_name (policy_gates spec))"
      using good by (simp add: good_policy_def distinct_map inj_on_def)
    moreover have "list_all good_gate (policy_gates spec)"
      using good len spec
      by (auto simp: good_policy_def list_all_iff good_gate_def find_None_iff not_less)
    ultimately show ?thesis using good spec by (auto simp: good_policy_def)
  qed
qed

section \<open>Composition\<close>

lemma merge_gates_Inr:
  "merge_gates sources ds = Inr r \<Longrightarrow>
     r = sources @ map (\<lambda>(file, g). (gate_name g, file)) ds \<and> distinct (map (gate_name \<circ> snd) ds)
     \<and> fst ` set sources \<inter> (gate_name \<circ> snd) ` set ds = {}"
proof (induction sources ds rule: merge_gates.induct)
  case (2 sources name g rest)
  then have none: "map_of sources (gate_name g) = None"
    and r: "merge_gates (sources @ [(gate_name g, name)]) rest = Inr r"
    by (auto split: option.splits)
  show ?case using 2(1)[OF none r] none by (auto simp: map_of_eq_None_iff)
qed auto

lemma compose_policy_parts:
  assumes "compose_policy load files pid = Inr spec"
  obtains specs where "list_all2 (\<lambda>file s. parse_policy_file load file = Inr s) files specs" "files \<noteq> []"
    "policy_gates spec = concat (map policy_gates specs)" "distinct (map gate_name (policy_gates spec))"
    "gate_sources spec = (if 1 < length files
       then concat (map2 (\<lambda>file s. map (\<lambda>g. (gate_name g, file_name file)) (policy_gates s)) files specs) else [])"
    "policy_id spec = pid" "schema_version spec = schema_version (hd specs)"
proof -
  obtain parsed sources where
    c: "collect (\<lambda>file. bind_result (parse_policy_file load file) (\<lambda>s. Inr (file, s))) files = Inr parsed"
    and f: "files \<noteq> []" and m: "merge_gates [] (declared_gates parsed) = Inr sources"
    and spec: "spec = \<lparr>schema_version = schema_version (snd (hd parsed)), policy_id = pid,
      policy_gates = map snd (declared_gates parsed), gate_sources = (if 1 < length files then sources else [])\<rparr>"
    using assms
    by (auto simp: compose_policy_def bind_result_Inr_iff Let_def split: if_splits option.splits)
  let ?specs = "map snd parsed"
  have zip: "list_all2 (\<lambda>file p. fst p = file \<and> parse_policy_file load file = Inr (snd p)) files parsed"
    using c unfolding collect_Inr_iff by (rule list_all2_mono) (auto simp: bind_result_Inr_iff)
  have fs: "map fst parsed = files"
    using zip by (induction files parsed rule: list_all2_induct) auto
  have parsed: "parsed = zip files ?specs" using fs by (metis zip_map_fst_snd)
  have gates: "map snd (declared_gates parsed) = concat (map policy_gates ?specs)"
    by (simp add: declared_gates_def map_concat comp_def split_def)
  have "parsed \<noteq> []" using f fs by auto
  note merged = merge_gates_Inr[OF m]
  show ?thesis
  proof (rule that[of ?specs])
    show "list_all2 (\<lambda>file s. parse_policy_file load file = Inr s) files ?specs"
      using zip by (simp add: list.rel_map) (erule list_all2_mono, simp)
    show "distinct (map gate_name (policy_gates spec))" using merged spec by simp
    have "sources = concat (map (\<lambda>(file, s). map (\<lambda>g. (gate_name g, file_name file)) (policy_gates s)) parsed)"
      using merged by (simp add: declared_gates_def map_concat comp_def split_def)
    then have "sources = concat (map2 (\<lambda>file s. map (\<lambda>g. (gate_name g, file_name file)) (policy_gates s)) files ?specs)"
      using parsed by simp
    then show "gate_sources spec = (if 1 < length files
       then concat (map2 (\<lambda>file s. map (\<lambda>g. (gate_name g, file_name file)) (policy_gates s)) files ?specs) else [])"
      using spec by simp
  qed (use f spec gates \<open>parsed \<noteq> []\<close> in \<open>simp_all add: hd_map\<close>)
qed

lemma compose_policy_good:
  assumes "compose_policy load files pid = Inr spec"
  shows "good_policy spec"
proof -
  obtain specs where s: "list_all2 (\<lambda>file s. parse_policy_file load file = Inr s) files specs" "files \<noteq> []"
    and gates: "policy_gates spec = concat (map policy_gates specs)" "distinct (map gate_name (policy_gates spec))"
    by (rule compose_policy_parts[OF assms])
  have good: "good_policy t" if t: "t \<in> set specs" for t
  proof -
    obtain i where "i < length specs" "t = specs ! i" using t by (auto simp: in_set_conv_nth)
    then have "parse_policy_file load (files ! i) = Inr t" using s(1) by (simp add: list_all2_conv_all_nth)
    then show ?thesis using parse_policy_file_good by blast
  qed
  have "specs \<noteq> []" using s by auto
  then have "hd specs \<in> set specs" by simp
  then have "policy_gates (hd specs) \<noteq> []" using good by (auto simp: good_policy_def)
  then have "policy_gates spec \<noteq> []" using gates(1) \<open>hd specs \<in> set specs\<close> by auto
  then show ?thesis using good gates by (auto simp: good_policy_def list_all_iff)
qed

end
