(* ===== verification/Guard_Words_Laws.thy ===== *)
theory Guard_Words_Laws
  imports Guard_Words
begin

text \<open>
  Laws of the command scanners: no segment holds a separator, and a command without quoting, comments and
  redirections is read as splitting at the separator characters and then at blanks would read it, whether or
  not blanks stand around the separators.
\<close>

section \<open>No segment holds a separator\<close>

lemma group_tokens_free:
  "s \<in> set (group_tokens seg ts) \<Longrightarrow> set seg \<inter> set command_separators = {} \<Longrightarrow>
     set s \<inter> set command_separators = {}"
  by (induction seg ts rule: group_tokens.induct) (auto split: if_splits)

lemma segments_free:
  "seg \<in> set (command_segments command) \<Longrightarrow> seg \<noteq> [] \<and> set seg \<inter> set command_separators = {}"
  by (auto simp: command_segments_def segments_of_def Let_def dest: group_tokens_free[rotated] group_tokens_free)

lemma contains_subsequence_tail:
  assumes "contains_subsequence seg phrase"
  shows "set (tl phrase) \<subseteq> set seg"
proof -
  obtain start where "window_matches seg phrase start"
    using assms unfolding contains_subsequence_def list_ex_iff by (metis (no_types))
  then have "take (length phrase - 1) (drop (Suc start) seg) = tl phrase" by (simp add: window_matches_def)
  then show ?thesis by (metis set_drop_subset set_take_subset subset_trans)
qed

section \<open>Splitting\<close>

fun split_where :: "(char \<Rightarrow> bool) \<Rightarrow> string \<Rightarrow> string list" where
  "split_where p [] = [[]]"
| "split_where p (c # cs) = (if p c then [] # split_where p cs
     else case split_where p cs of w # ws \<Rightarrow> (c # w) # ws | [] \<Rightarrow> [[c]])"

lemma split_where_nonempty [simp]: "split_where p s \<noteq> []"
  by (cases s) (auto split: list.splits)

lemma split_where_Cons [simp]:
  "split_where p (c # cs) = (if p c then [] # split_where p cs
     else (c # hd (split_where p cs)) # tl (split_where p cs))"
  by (cases "split_where p cs") auto

declare split_where.simps(2) [simp del]

definition blank_words :: "string \<Rightarrow> string list" where
  "blank_words s = filter (\<lambda>w. w \<noteq> []) (split_where shlex_space s)"

definition separator_char :: "char \<Rightarrow> bool" where
  "separator_char c = (c = NL \<or> c \<in> set ''|&;()'')"

text \<open>What a command without special characters means.\<close>

definition plain_segments :: "string \<Rightarrow> string list list" where
  "plain_segments command = filter (\<lambda>seg. seg \<noteq> []) (map blank_words (split_where separator_char command))"

definition plain_line :: "string \<Rightarrow> bool" where
  "plain_line s = list_all (\<lambda>c. c \<notin> {BS, SQ, DQ, CHR ''#'', CHR ''$'', CHR ''<'', CHR ''>''}) s"

lemma split_where_free: "list_all (\<lambda>c. \<not> p c) u \<Longrightarrow> split_where p u = [u]"
  by (induction u) auto

lemma split_where_at: "list_all (\<lambda>c. \<not> p c) u \<Longrightarrow> p c \<Longrightarrow> split_where p (u @ c # s) = u # split_where p s"
  by (induction u) auto

lemma split_where_append_at: "p c \<Longrightarrow> split_where p (u @ c # s) = split_where p u @ split_where p s"
  by (induction u) auto

lemma split_where_subset: "w \<in> set (split_where p s) \<Longrightarrow> set w \<subseteq> set s"
proof (induction s arbitrary: w)
  case (Cons c s)
  have first: "set (hd (split_where p s)) \<subseteq> set s" by (rule Cons.IH) simp
  have later: "set w \<subseteq> set s" if "w \<in> set (tl (split_where p s))"
    by (rule Cons.IH) (meson that list.set_sel(2) split_where_nonempty)
  show ?case
  proof (cases "p c")
    case True
    then show ?thesis using Cons by auto
  next
    case False
    then consider "w = c # hd (split_where p s)" | "w \<in> set (tl (split_where p s))" using Cons.prems by auto
    then show ?thesis by cases (use first later in auto)
  qed
qed simp

lemma blank_words_Nil [simp]: "blank_words [] = []"
  by (simp add: blank_words_def)

lemma blank_words_at: "shlex_space c \<Longrightarrow> blank_words (u @ c # s) = blank_words u @ blank_words s"
  by (simp add: blank_words_def split_where_append_at)

lemma blank_words_word:
  "list_all (\<lambda>c. \<not> shlex_space c) u \<Longrightarrow> u \<noteq> [] \<Longrightarrow> blank_words u = [u]"
  by (simp add: blank_words_def split_where_free)

lemma blank_words_subset: "w \<in> set (blank_words s) \<Longrightarrow> w \<noteq> [] \<and> set w \<subseteq> set s"
  using split_where_subset by (auto simp: blank_words_def)

section \<open>Tokens of a text without quotes\<close>

lemma shlex_plain:
  assumes "list_all (\<lambda>c. c \<notin> {BS, SQ, DQ}) s"
  shows "shlex_from Outside [] False s = Some (blank_words s)"
    and "list_all (\<lambda>c. \<not> shlex_space c) u \<Longrightarrow> u \<noteq> [] \<Longrightarrow>
      shlex_from In_Word u False s = Some (blank_words (u @ s))"
  using assms
proof (induction s arbitrary: u)
  case Nil
  case 1 show ?case by simp
  case 2 then show ?case by (simp add: blank_words_word)
next
  case (Cons c s)
  case 1
  then show ?case using Cons.IH(1) Cons.IH(2)[of "[c]"] blank_words_at[of c "[]" s] by auto
  case 2
  then show ?case
    using Cons.IH(1) Cons.IH(2)[of "u @ [c]"] blank_words_at[of c u s] by (auto simp: blank_words_word)
qed

section \<open>Quiet commands\<close>

definition idle :: "strip_state \<Rightarrow> bool" where
  "idle st = (\<not> escaped st \<and> quote st = None \<and> pending st = [])"

lemma quiet_at: "plain_line s \<Longrightarrow> i < length s \<Longrightarrow> s ! i \<notin> {BS, SQ, DQ, CHR ''#'', CHR ''$'', CHR ''<'', CHR ''>''}"
  by (simp add: plain_line_def list_all_length)

lemma strip_quiet_step:
  assumes "plain_line command" "i < length command" "idle st"
  shows "\<exists>j st'. strip_step command i st = Some (take (j - i) (drop i command), j, st') \<and> i < j \<and> idle st'"
proof -
  have one: "take (Suc i - i) (drop i command) = [command ! i]"
    using assms(2) by (simp add: take_Suc_conv_app_nth hd_drop_conv_nth take_Suc)
  show ?thesis
  proof (cases "command ! i = NL")
    case True
    then show ?thesis using assms one by (auto simp: strip_step_def strip_newline_def idle_def Let_def)
  next
    case False
    show ?thesis
    proof (cases "strip_pair command i st")
      case None
      then show ?thesis using False assms quiet_at[OF assms(1,2)] one
        by (auto simp: strip_step_def idle_def Let_def)
    next
      case (Some r)
      then obtain cs n where "r = (take n (drop i command), i + n, st\<lparr>closers := cs, at_word_start := (command ! (i + n - 1) = CHR ''('')\<rparr>)" "0 < n"
        by (auto simp: strip_pair_def split: if_splits prod.splits)
      then show ?thesis using Some False assms quiet_at[OF assms(1,2)]
        by (auto simp: strip_step_def idle_def Let_def)
    qed
  qed
qed

lemma strip_quiet_from:
  "plain_line command \<Longrightarrow> idle st \<Longrightarrow> strip_from command i st = drop i command"
proof (induction "length command - i" arbitrary: i st rule: less_induct)
  case less
  show ?case
  proof (cases "length command \<le> i")
    case True
    then show ?thesis by (simp add: strip_from.simps)
  next
    case False
    then obtain j st' where step: "strip_step command i st = Some (take (j - i) (drop i command), j, st')"
      and j: "i < j" and st': "idle st'"
      using strip_quiet_step[OF less.prems(1) _ less.prems(2), of i] by auto
    have "strip_from command j st' = drop j command"
      by (rule less.hyps) (use False j less.prems(1) st' in auto)
    then have "strip_from command i st = take (j - i) (drop i command) @ drop j command"
      using False step by (subst strip_from.simps) simp
    also have "drop j command = drop (j - i) (drop i command)" using j by simp
    finally show ?thesis by (simp only: append_take_drop_id)
  qed
qed

lemma strip_quiet: "plain_line command \<Longrightarrow> strip_comments_and_heredoc_bodies command = command"
  by (simp add: strip_comments_and_heredoc_bodies_def strip_quiet_from idle_def new_strip_state_def)

section \<open>Grouping\<close>

lemma group_tokens_free_seg:
  "set ts \<inter> set command_separators = {} \<Longrightarrow> group_tokens seg (ts @ us) = group_tokens (seg @ ts) us"
  by (induction ts arbitrary: seg) auto

lemma segments_of_at:
  assumes "set ts \<inter> set command_separators = {}" "t \<in> set command_separators"
  shows "segments_of (ts @ t # us) = filter (\<lambda>seg. seg \<noteq> []) [ts] @ segments_of us"
  using assms by (simp add: segments_of_def group_tokens_free_seg)

lemma segments_of_free:
  "set ts \<inter> set command_separators = {} \<Longrightarrow> segments_of ts = filter (\<lambda>seg. seg \<noteq> []) [ts]"
  using group_tokens_free_seg[of ts "[]" "[]"] by (simp add: segments_of_def)

lemma separators_hold_separator_chars: "w \<in> set command_separators \<Longrightarrow> \<exists>c \<in> set w. separator_char c"
proof -
  have "list_all (list_ex separator_char) command_separators" by code_simp
  then show "w \<in> set command_separators \<Longrightarrow> \<exists>c \<in> set w. separator_char c"
    by (auto simp: list_all_iff list_ex_iff)
qed

lemma words_without_separators:
  assumes "list_all (\<lambda>c. \<not> separator_char c) u"
  shows "set (blank_words u) \<inter> set command_separators = {}"
proof -
  have "w \<notin> set command_separators" if "w \<in> set (blank_words u)" for w
    using blank_words_subset[OF that] assms separators_hold_separator_chars[of w]
    unfolding list_all_iff by blast
  then show ?thesis by auto
qed

lemma plain_segments_free:
  "list_all (\<lambda>c. \<not> separator_char c) u \<Longrightarrow> plain_segments u = filter (\<lambda>seg. seg \<noteq> []) [blank_words u]"
  by (simp add: plain_segments_def split_where_free)

lemma plain_segments_at:
  "list_all (\<lambda>c. \<not> separator_char c) u \<Longrightarrow> separator_char c \<Longrightarrow>
     plain_segments (u @ c # s) = filter (\<lambda>seg. seg \<noteq> []) [blank_words u] @ plain_segments s"
  by (simp add: plain_segments_def split_where_at)

lemma plain_segments_drop: "separator_char c \<Longrightarrow> plain_segments (c # s) = plain_segments s"
  using plain_segments_at[of "[]" c s] by simp

lemma padded_operator_segments:
  assumes "list_all (\<lambda>c. \<not> separator_char c) u" "operator \<in> set padded_operators"
  shows "segments_of (blank_words (u @ '' '' @ operator @ '' '' @ s)) =
    filter (\<lambda>seg. seg \<noteq> []) [blank_words u] @ segments_of (blank_words s)"
proof -
  have op: "operator \<in> set command_separators" "list_all (\<lambda>c. \<not> shlex_space c) operator" "operator \<noteq> []"
    using assms(2) by (auto simp: padded_operators_def command_separators_def shlex_space_def)
  have "blank_words (u @ CHR '' '' # operator @ CHR '' '' # s) = blank_words u @ operator # blank_words s"
    using op by (simp add: blank_words_at[of "CHR '' ''"] shlex_space_def blank_words_word)
  then show ?thesis
    using segments_of_at[OF words_without_separators[OF assms(1)] op(1)] by simp
qed

lemma padded_operators_chars:
  "list_all (\<lambda>op. op \<noteq> [] \<and> separator_char (hd op) \<and> list_all separator_char (tl op)) padded_operators"
  by code_simp

lemma operator_at_quiet:
  assumes "plain_line command" "i < length command"
  shows "operator_at command i = None \<Longrightarrow> command ! i \<noteq> NL \<Longrightarrow> \<not> separator_char (command ! i)"
    and "operator_at command i = Some operator \<Longrightarrow> operator \<in> set padded_operators \<and>
      (\<exists>c cs. operator = c # cs \<and> separator_char c \<and> list_all separator_char cs \<and>
        drop i command = operator @ drop (i + length operator) command)"
proof -
  have hd: "drop i command = command ! i # drop (Suc i) command" using assms(2) by (simp add: Cons_nth_drop_Suc)
  have calm: "\<not> char_in (char_at command (i - 1)) ''<>''" "char_at command (Suc i) \<noteq> Some (CHR ''>'')"
    using quiet_at[OF assms(1)] assms(2) by (auto simp: char_in_def char_at_def split: option.splits if_splits)
  then have op: "operator_at command i = find (\<lambda>operator. starts_at command operator i) padded_operators"
    by (simp add: operator_at_def)
  show "operator_at command i = None \<Longrightarrow> command ! i \<noteq> NL \<Longrightarrow> \<not> separator_char (command ! i)"
    unfolding op by (auto simp: padded_operators_def starts_at_def hd separator_char_def split: if_splits)
  assume "operator_at command i = Some operator"
  then have "operator \<in> set padded_operators" and s: "starts_at command operator i"
    unfolding op by (auto dest: find_key_Some_D)
  moreover have "drop i command = operator @ drop (i + length operator) command"
  proof -
    obtain rest where r: "drop i command = operator @ rest" using s by (auto simp: starts_at_def is_prefix_iff)
    then have "drop (length operator) (drop i command) = rest" by simp
    then show ?thesis using r by (metis add.commute drop_drop)
  qed
  moreover have "\<exists>c cs. operator = c # cs \<and> separator_char c \<and> list_all separator_char cs"
    using calculation(1) padded_operators_chars unfolding list_all_iff by (metis list.exhaust_sel)
  ultimately show "operator \<in> set padded_operators \<and> (\<exists>c cs. operator = c # cs \<and> separator_char c \<and>
      list_all separator_char cs \<and> drop i command = operator @ drop (i + length operator) command)"
    by blast
qed

lemma plain_segments_drop_all: "list_all separator_char cs \<Longrightarrow> plain_segments (cs @ s) = plain_segments s"
  by (induction cs) (auto simp: plain_segments_drop)

lemma normalize_quiet:
  "plain_line command \<Longrightarrow> list_all (\<lambda>c. \<not> separator_char c) u \<Longrightarrow>
     segments_of (blank_words (u @ normalize_from command i None)) = plain_segments (u @ drop i command)"
proof (induction "length command - i" arbitrary: i u rule: less_induct)
  case less
  note u = less.prems(2)
  have rec: "segments_of (blank_words (v @ normalize_from command j None)) = plain_segments (v @ drop j command)"
    if "i < j" "i < length command" "list_all (\<lambda>c. \<not> separator_char c) v" for j v
    by (rule less.hyps) (use that less.prems(1) in auto)
  show ?case
  proof (cases "i < length command")
    case False
    then show ?thesis
      using segments_of_free[OF words_without_separators[OF u]] plain_segments_free[OF u]
      by (simp add: normalize_from.simps)
  next
    case True
    have hd: "drop i command = command ! i # drop (Suc i) command" using True by (simp add: Cons_nth_drop_Suc)
    note calm = quiet_at[OF less.prems(1) True]
    show ?thesis
    proof (cases "command ! i = NL")
      case nl: True
      have "normalize_from command i None = '' '' @ '';'' @ '' '' @ normalize_from command (Suc i) None"
        using True nl calm by (subst normalize_from.simps) simp
      then show ?thesis
        using padded_operator_segments[OF u, of "'';''"] rec[of "Suc i" "[]"] True hd nl
          plain_segments_at[OF u, of NL] by (simp add: padded_operators_def separator_char_def)
    next
      case no_nl: False
      show ?thesis
      proof (cases "operator_at command i")
        case None
        have "normalize_from command i None = command ! i # normalize_from command (Suc i) None"
          using True no_nl calm None by (subst normalize_from.simps) simp
        then show ?thesis
          using rec[of "Suc i" "u @ [command ! i]"] True hd u operator_at_quiet(1)[OF less.prems(1) True None no_nl]
          by simp
      next
        case (Some operator)
        have norm: "normalize_from command i None =
            '' '' @ operator @ '' '' @ normalize_from command (i + length operator) None"
          using True no_nl calm Some by (subst normalize_from.simps) simp
        obtain c cs where op: "operator \<in> set padded_operators" "operator = c # cs" "separator_char c"
          "list_all separator_char cs" "drop i command = operator @ drop (i + length operator) command"
          using operator_at_quiet(2)[OF less.prems(1) True Some] by blast
        have "plain_segments (u @ drop i command) =
            filter (\<lambda>seg. seg \<noteq> []) [blank_words u] @ plain_segments (drop (i + length operator) command)"
          using op plain_segments_at[OF u op(3), of "cs @ drop (i + length operator) command"]
          by (simp add: plain_segments_drop_all)
        then show ?thesis
          using norm padded_operator_segments[OF u op(1)] rec[of "i + length operator" "[]"] True op(2) by simp
      qed
    qed
  qed
qed

lemma separator_char_calm: "separator_char c \<Longrightarrow> c \<notin> {BS, SQ, DQ}"
  by (auto simp: separator_char_def)

lemma normalize_chars:
  assumes "plain_line command"
  shows "list_all (\<lambda>c. c \<notin> {BS, SQ, DQ}) (normalize_from command i None)"
proof (induction "length command - i" arbitrary: i rule: less_induct)
  case less
  show ?case
  proof (cases "i < length command")
    case True
    have rec: "list_all (\<lambda>c. c \<notin> {BS, SQ, DQ}) (normalize_from command j None)" if "i < j" for j
      by (rule less.hyps) (use that True in auto)
    note calm = quiet_at[OF assms True]
    show ?thesis
    proof (cases "operator_at command i")
      case None
      then show ?thesis using calm rec[of "Suc i"] True by (subst normalize_from.simps) (simp add: Let_def)
    next
      case (Some operator)
      have "list_all separator_char operator"
        using operator_at_quiet(2)[OF assms True Some] by auto
      then have "list_all (\<lambda>c. c \<notin> {BS, SQ, DQ}) operator"
        unfolding list_all_iff using separator_char_calm by blast
      moreover have "0 < length operator" using operator_at_nonempty[OF Some] .
      ultimately show ?thesis
        using calm rec[of "Suc i"] rec[of "i + length operator"] True Some by (subst normalize_from.simps) (simp add: Let_def)
    qed
  qed (simp add: normalize_from.simps)
qed

lemma command_segments_quiet:
  assumes "plain_line command"
  shows "command_segments command = plain_segments command"
proof (cases "list_ex (\<lambda>c. c = NL \<or> c \<in> set ''|&;()'') command")
  case True
  then have "normalize_separators command = normalize_from command 0 None"
    by (simp only: normalize_separators_def) simp
  then have "shlex_split (normalize_separators command) = Some (blank_words (normalize_from command 0 None))"
    using shlex_plain(1)[OF normalize_chars[OF assms]] by (simp add: shlex_split_def)
  then show ?thesis
    using normalize_quiet[OF assms, of "[]" 0] strip_quiet[OF assms] by (simp add: command_segments_def)
next
  case False
  then have "normalize_separators command = command" by (simp only: normalize_separators_def) simp
  moreover have free: "list_all (\<lambda>c. \<not> separator_char c) command"
    using False by (auto simp: list_ex_iff list_all_iff separator_char_def)
  moreover have "list_all (\<lambda>c. c \<notin> {BS, SQ, DQ}) command" using assms by (auto simp: plain_line_def list_all_iff)
  ultimately show ?thesis
    using shlex_plain(1)[of command] strip_quiet[OF assms] plain_segments_free[OF free]
      segments_of_free[OF words_without_separators[OF free]]
    by (simp add: command_segments_def shlex_split_def)
qed

lemma tokenize_quiet: "plain_line phrase \<Longrightarrow> tokenize_phrase phrase = Some (blank_words phrase)"
  using shlex_plain(1)[of phrase]
  by (auto simp: tokenize_phrase_def strip_quiet shlex_split_def plain_line_def list_all_iff)

end
