(* ===== verification/Guard_Laws.thy ===== *)
theory Guard_Laws
  imports Guard_Policy_Laws Guard_Words_Laws
begin

text \<open>
  What a check of a parsed or composed policy means. The caches never change a result, no evaluator raises, the
  verdict is the objections of the required gates, it depends on the evidence as sets, and a composed policy
  objects exactly when one of its files does.
\<close>

section \<open>Caches change nothing\<close>

definition true_segments :: "segment_cache option \<Rightarrow> bool" where
  "true_segments cache = (\<forall>m c segs. cache = Some m \<longrightarrow> map_of m c = Some segs \<longrightarrow> segs = command_segments c)"

definition true_phrases :: "phrase_cache option \<Rightarrow> bool" where
  "true_phrases cache = (\<forall>m p ts. cache = Some m \<longrightarrow> map_of m p = Some ts \<longrightarrow> tokenize_phrase p = Some ts)"

lemma tokenize_commands_true: "true_segments (Some (tokenize_commands cs))"
  by (auto simp: true_segments_def tokenize_commands_def dest!: map_of_SomeD)

lemma tokenize_phrases_true: "tokenize_phrases ps = Inr m \<Longrightarrow> true_phrases (Some m)"
  by (auto simp: true_phrases_def tokenize_phrases_def tokenized_def bind_result_Inr_iff
      dest!: map_of_SomeD collect_member split: option.splits)

lemma cached_segments_true: "true_segments cache \<Longrightarrow> cached_segments cache c = command_segments c"
  by (auto simp: cached_segments_def true_segments_def split: option.splits)

lemma cached_phrase_true: "true_phrases cache \<Longrightarrow> cached_phrase cache p = tokenized p"
  by (auto simp: cached_phrase_def true_phrases_def tokenized_def split: option.splits list.splits)

lemma evaluate_gate_caches:
  assumes "true_segments segs" "true_phrases phrases"
  shows "evaluate_gate p c j v segs phrases g = evaluate_gate p c j v None None g"
proof -
  have eqs: "cached_phrase phrases = cached_phrase None" "command_contains segs = command_contains None"
    using cached_phrase_true[OF assms(2)] cached_segments_true[OF assms(1)]
    by (auto simp: fun_eq_iff cached_phrase_def command_contains_def cached_segments_def)
  show ?thesis
    by (cases g; cases p; cases c) (simp_all add: evaluate_command_def evaluate_command_if_changed_def Let_def eqs)
qed

section \<open>No evaluator raises\<close>

definition phrase_tokens :: "string \<Rightarrow> string list" where
  "phrase_tokens p = (case tokenize_phrase p of None \<Rightarrow> [] | Some ts \<Rightarrow> ts)"

lemma good_phrases_collect:
  "good_phrases ps \<Longrightarrow> collect (cached_phrase None) ps = Inr (map phrase_tokens ps)"
  by (intro collect_all)
     (auto simp: good_phrases_def list_all_iff phrase_tokens_def cached_phrase_def tokenized_def split: option.splits)

lemma good_phrases_cache:
  "good_phrases ps \<Longrightarrow> tokenize_phrases ps = Inr (map (\<lambda>p. (p, phrase_tokens p)) ps)"
  unfolding tokenize_phrases_def
  by (intro collect_all) (auto simp: good_phrases_def list_all_iff phrase_tokens_def tokenized_def split: option.splits)

lemma good_gate_phrases: "good_patterns g \<Longrightarrow> good_phrases (gate_phrases g)"
  by (cases g) (auto simp: good_phrases_def)

lemma evaluate_gate_total:
  assumes "good_patterns g"
  shows "\<exists>r. evaluate_gate p c j v None None g = Inr r"
  using good_gate_phrases[OF assms]
  by (cases g)
     (auto simp: evaluate_command_def evaluate_command_if_changed_def good_phrases_collect Let_def split: option.splits)

lemma resolve_fields [simp]:
  "result_gate (resolve g r m d) = gate_id g" "result_enforcement (resolve g r m d) = gate_enforcement g"
  "result_outcome (resolve g r m d) = r" "result_source (resolve g r m d) = None"
  by (simp_all add: resolve_def)

lemma truncate_fields [simp]:
  "gate_id (gate_common.truncate g) = gate_id g" "gate_enforcement (gate_common.truncate g) = gate_enforcement g"
  "gate_runs (gate_common.truncate g) = gate_runs g"
  by (simp_all add: gate_common.truncate_def)

lemma scoped_out_fields:
  "scoped_out g w p = Some r \<Longrightarrow> result_gate r = gate_id g \<and> result_enforcement r = gate_enforcement g"
  by (auto simp: scoped_out_def split: if_splits option.splits)

lemma evaluate_gate_fields:
  "evaluate_gate p c j v None None g = Inr r \<Longrightarrow>
     result_gate r = gate_name g \<and> result_enforcement r = gate_enforcement (common g)"
  by (cases g)
     (auto simp: gate_name_def evaluate_path_def evaluate_command_def evaluate_judge_def evaluate_verifier_def
       evaluate_command_if_changed_def Let_def bind_result_Inr_iff scoped_out_fields
       split: option.splits if_splits verdict_outcome.splits check_outcome.splits)

section \<open>The verdict\<close>

definition result_of :: "evidence \<Rightarrow> gate \<Rightarrow> gate_result" where
  "result_of e g = projr (evaluate_gate (path_evidence_of e) (command_evidence_of e) (judge_results e)
     (check_results e) None None g)"

definition gate_objects :: "evidence \<Rightarrow> gate \<Rightarrow> bool" where
  "gate_objects e g = (gate_enforcement (common g) = Required \<and> is_blocking (result_outcome (result_of e g)))"

lemma with_source_fields [simp]:
  "result_enforcement (with_source s r) = result_enforcement r" "result_outcome (with_source s r) = result_outcome r"
  "result_gate (with_source s r) = result_gate r"
  by (simp_all add: with_source_def)

lemma token_caches_true:
  "token_caches spec c = Inr (segs, phrases) \<Longrightarrow> true_segments segs \<and> true_phrases phrases"
  using tokenize_commands_true tokenize_phrases_true
  by (auto simp: token_caches_def Let_def true_segments_def true_phrases_def split: option.splits if_splits sum.splits)

lemma good_policy_results:
  assumes "good_policy spec" "true_segments segs" "true_phrases phrases"
  shows "collect (evaluate_gate (path_evidence_of e) (command_evidence_of e) (judge_results e) (check_results e)
    segs phrases) (policy_gates spec) = Inr (map (result_of e) (policy_gates spec))"
proof (rule collect_all)
  fix g assume "g \<in> set (policy_gates spec)"
  then have "good_patterns g" using assms(1) by (auto simp: good_policy_def list_all_iff good_gate_def)
  then show "evaluate_gate (path_evidence_of e) (command_evidence_of e) (judge_results e) (check_results e)
      segs phrases g = Inr (result_of e g)"
    using evaluate_gate_total[of g "path_evidence_of e" "command_evidence_of e" "judge_results e" "check_results e"]
    by (auto simp: result_of_def evaluate_gate_caches[OF assms(2,3)])
qed

lemma result_of_fields:
  assumes "good_patterns g"
  shows "result_gate (result_of e g) = gate_name g" "result_enforcement (result_of e g) = gate_enforcement (common g)"
proof -
  obtain r where r: "evaluate_gate (path_evidence_of e) (command_evidence_of e) (judge_results e) (check_results e)
      None None g = Inr r"
    using evaluate_gate_total[OF assms] by blast
  show "result_gate (result_of e g) = gate_name g" "result_enforcement (result_of e g) = gate_enforcement (common g)"
    using evaluate_gate_fields[OF r] r by (simp_all add: result_of_def)
qed

definition verdict :: "policy \<Rightarrow> evidence \<Rightarrow> check_result" where
  "verdict spec e = \<lparr>checked_policy = policy_id spec, checked_version = schema_version spec,
     gate_results = map (with_source (gate_sources spec) \<circ> result_of e) (policy_gates spec),
     blocked = list_ex (gate_objects e) (policy_gates spec)\<rparr>"

text \<open>What may go wrong is the evidence only; then the answer is the verdict.\<close>

definition affordable :: "policy \<Rightarrow> evidence \<Rightarrow> check_error + unit" where
  "affordable spec e = bind_result (check_evidence spec e) (\<lambda>_.
     bind_result (token_caches spec (command_evidence_of e)) (\<lambda>_. Inr ()))"

lemma check_policy_verdict:
  assumes "good_policy spec"
  shows "check_policy spec e = bind_result (affordable spec e) (\<lambda>_. Inr (verdict spec e))"
proof (cases "check_evidence spec e")
  case (Inr u)
  show ?thesis
  proof (cases "token_caches spec (command_evidence_of e)")
    case caches: (Inr sp)
    obtain segs phrases where sp: "sp = (segs, phrases)" by (cases sp)
    have good: "g \<in> set (policy_gates spec) \<Longrightarrow> good_patterns g" for g
      using assms by (auto simp: good_policy_def list_all_iff good_gate_def)
    have "list_ex is_objection (map (with_source (gate_sources spec)) (map (result_of e) (policy_gates spec)))
        \<longleftrightarrow> list_ex (gate_objects e) (policy_gates spec)"
      using result_of_fields(2)[OF good] by (auto simp: list_ex_iff is_objection_def gate_objects_def)
    then show ?thesis
      using Inr caches sp token_caches_true[of spec _ segs phrases] good_policy_results[OF assms, of segs phrases e]
      by (simp add: check_policy_def affordable_def lift_raised_def verdict_def)
  qed (simp add: check_policy_def affordable_def Inr)
qed (simp add: check_policy_def affordable_def)

lemma check_policy_Inr:
  "good_policy spec \<Longrightarrow> check_policy spec e = Inr r \<longleftrightarrow> affordable spec e = Inr () \<and> r = verdict spec e"
  by (auto simp: check_policy_verdict bind_result_Inr_iff)

lemma blocked_iff:
  "good_policy spec \<Longrightarrow> check_policy spec e = Inr r \<Longrightarrow>
     blocked r \<longleftrightarrow> (\<exists>g \<in> set (policy_gates spec). gate_objects e g)"
  by (auto simp: check_policy_Inr verdict_def list_ex_iff)

lemma good_policy_phrases: "good_policy spec \<Longrightarrow> good_phrases (command_phrases spec)"
  using good_gate_phrases
  by (fastforce simp: good_policy_def list_all_iff good_gate_def command_phrases_def gates_of_def good_phrases_def)

lemma token_caches_handled: "good_policy spec \<Longrightarrow> token_caches spec c \<noteq> Inl (Unhandled x)"
  using good_phrases_cache[OF good_policy_phrases[of spec]]
  by (auto simp: token_caches_def Let_def split: option.splits)

lemma affordable_handled: "good_policy spec \<Longrightarrow> affordable spec e \<noteq> Inl (Unhandled x)"
  using token_caches_handled[of spec]
  by (auto simp: affordable_def bind_result_Inl_iff check_evidence_def check_match_work_def Let_def split: if_splits)

definition obtained :: "loader \<Rightarrow> policy \<Rightarrow> bool" where
  "obtained load spec = ((\<exists>body source. parse_policy load body source = Inr spec)
     \<or> (\<exists>file. parse_policy_file load file = Inr spec) \<or> (\<exists>files pid. compose_policy load files pid = Inr spec))"

lemma obtained_good: "obtained load spec \<Longrightarrow> good_policy spec"
  using parse_policy_good parse_policy_file_good compose_policy_good by (fastforce simp: obtained_def)

section \<open>The evidence as sets\<close>

lemma fromkeys_mset: "set xs = set ys \<Longrightarrow> mset (fromkeys xs) = mset (fromkeys ys)"
  by (simp add: set_eq_iff_mset_eq_distinct[symmetric])

lemma sort_filter_mset: "mset xs = mset ys \<Longrightarrow> sort (filter p xs) = sort (filter p ys)"
  by (intro properties_for_sort) (simp_all add: mset_filter)

lemma sum_list_mset:
  fixes f :: "'a \<Rightarrow> nat"
  assumes "mset xs = mset ys"
  shows "sum_list (map f xs) = sum_list (map f ys)"
proof -
  have "sum_mset (image_mset f (mset xs)) = sum_mset (image_mset f (mset ys))" by (simp only: assms)
  then show ?thesis by (simp only: mset_map[symmetric] sum_mset_sum_list)
qed

lemma total_length_mset: "mset xs = mset ys \<Longrightarrow> total_length xs = total_length ys"
  unfolding total_length_def by (rule sum_list_mset)

lemma list_ex_mset: "mset xs = mset ys \<Longrightarrow> list_ex p xs = list_ex p ys"
  by (metis list_ex_iff set_mset_mset)

lemma nil_mset: "mset xs = mset ys \<Longrightarrow> xs = [] \<longleftrightarrow> ys = []"
  by auto

definition same_paths :: "path_evidence option \<Rightarrow> path_evidence option \<Rightarrow> bool" where
  "same_paths = rel_option (\<lambda>p q. mset (evidence_paths p) = mset (evidence_paths q)
     \<and> evidence_source p = evidence_source q)"

definition same_commands :: "command_evidence option \<Rightarrow> command_evidence option \<Rightarrow> bool" where
  "same_commands = rel_option (\<lambda>p q. mset (evidence_commands p) = mset (evidence_commands q)
     \<and> evidence_scope p = evidence_scope q)"

lemma matched_changed_paths_mset:
  "mset xs = mset ys \<Longrightarrow> matched_changed_paths w xs = matched_changed_paths w ys"
  unfolding matched_changed_paths_def by (rule sort_filter_mset)

lemma scoped_out_mset:
  "mset (evidence_paths q) = mset (evidence_paths q') \<Longrightarrow> scoped_out h w (Some q) = scoped_out h w (Some q')"
  by (simp add: scoped_out_def matched_changed_paths_mset[of "evidence_paths q" "evidence_paths q'"])

lemma same_paths_cases:
  assumes "same_paths p p'"
  obtains "p = None" "p' = None"
  | q q' where "p = Some q" "p' = Some q'" "mset (evidence_paths q) = mset (evidence_paths q')"
      "evidence_source q = evidence_source q'"
  using assms by (cases p; cases p') (auto simp: same_paths_def)

lemma same_commands_cases:
  assumes "same_commands c c'"
  obtains "c = None" "c' = None"
  | d d' where "c = Some d" "c' = Some d'" "mset (evidence_commands d) = mset (evidence_commands d')"
      "evidence_scope d = evidence_scope d'"
  using assms by (cases c; cases c') (auto simp: same_commands_def)

lemma evaluate_path_sets:
  assumes "same_paths p p'"
  shows "evaluate_path g p = evaluate_path g p'"
proof (cases rule: same_paths_cases[OF assms])
  case (2 q q')
  then show ?thesis
    by (simp add: evaluate_path_def Let_def matched_changed_paths_mset[OF 2(3)] nil_mset[OF 2(3)])
qed simp

lemma evaluate_judge_sets:
  assumes "same_paths p p'"
  shows "evaluate_judge g p j = evaluate_judge g p' j"
proof (cases rule: same_paths_cases[OF assms])
  case (2 q q')
  then show ?thesis by (cases j) (simp_all add: evaluate_judge_def scoped_out_mset[OF 2(3)])
qed simp

lemma evaluate_verifier_sets:
  assumes "same_paths p p'"
  shows "evaluate_verifier g p j = evaluate_verifier g p' j"
proof (cases rule: same_paths_cases[OF assms])
  case (2 q q')
  then show ?thesis by (cases j) (simp_all add: evaluate_verifier_def scoped_out_mset[OF 2(3)])
qed simp

lemma evaluate_command_sets:
  assumes "same_commands c c'"
  shows "evaluate_command g c s t = evaluate_command g c' s t"
proof (cases rule: same_commands_cases[OF assms])
  case (2 d d')
  then show ?thesis
    by (simp add: evaluate_command_def sort_filter_mset[OF 2(3)] nil_mset[OF 2(3)])
qed simp

lemma evaluate_command_if_changed_sets:
  assumes "same_paths p p'" "same_commands c c'"
  shows "evaluate_command_if_changed g p c s t = evaluate_command_if_changed g p' c' s t"
proof (cases rule: same_paths_cases[OF assms(1)])
  case p: (2 q q')
  show ?thesis
  proof (cases rule: same_commands_cases[OF assms(2)])
    case (2 d d')
    then show ?thesis
      by (simp add: evaluate_command_if_changed_def p Let_def matched_changed_paths_mset[OF p(3)]
          nil_mset[OF 2(3)] list_ex_mset[OF 2(3)])
  qed (simp add: evaluate_command_if_changed_def p)
qed (simp add: evaluate_command_if_changed_def)

lemma evaluate_gate_sets:
  assumes "same_paths p p'" "same_commands c c'"
  shows "evaluate_gate p c j v s t g = evaluate_gate p' c' j v s t g"
  using assms
  by (cases g)
     (simp_all add: evaluate_path_sets[of p p'] evaluate_judge_sets[of p p'] evaluate_verifier_sets[of p p']
       evaluate_command_sets[of c c'] evaluate_command_if_changed_sets[of p p' c c'])

definition same_set :: "'a list option \<Rightarrow> 'a list option \<Rightarrow> bool" where
  "same_set = rel_option (\<lambda>xs ys. set xs = set ys)"

lemma given_same_set: "same_set x y \<Longrightarrow> set (given x) = set (given y)"
  by (cases x; cases y) (auto simp: same_set_def given_def)

lemma check_match_work_mset: "mset xs = mset ys \<Longrightarrow> check_match_work spec xs = check_match_work spec ys"
  using total_length_mset[of xs ys] mset_eq_length[of xs ys]
  by (simp only: check_match_work_def estimated_work_def comparisons_def)

lemma token_caches_sets:
  assumes "same_commands c c'"
  shows "map_sum id (\<lambda>_. ()) (token_caches spec c) = map_sum id (\<lambda>_. ()) (token_caches spec c')"
proof (cases rule: same_commands_cases[OF assms])
  case (2 d d')
  have "sum_list (map (\<lambda>(c, s). total_length s) (tokenize_commands (evidence_commands d)))
      = sum_list (map (\<lambda>(c, s). total_length s) (tokenize_commands (evidence_commands d')))"
    unfolding tokenize_commands_def map_map by (rule sum_list_mset[OF 2(3)])
  then have "estimated_command_work cache phrases (tokenize_commands (evidence_commands d))
      = estimated_command_work cache phrases (tokenize_commands (evidence_commands d'))" for cache phrases
    by (simp only: estimated_command_work_def)
  moreover have "comparisons phrases (evidence_commands d) = comparisons phrases (evidence_commands d')"
    for phrases :: "string list"
    by (simp only: comparisons_def mset_eq_length[OF 2(3)])
  ultimately show ?thesis
    by (cases "tokenize_phrases (command_phrases spec)")
       (simp_all add: token_caches_def 2(1,2) total_length_mset[OF 2(3)] Let_def)
qed simp

lemma check_policy_sets:
  assumes good: "good_policy spec" and "same_set (paths e) (paths e')" "same_set (commands e) (commands e')"
    and rest: "path_source e = path_source e'" "command_scope e = command_scope e'"
      "judge_results e = judge_results e'" "check_results e = check_results e'"
  shows "check_policy spec e = check_policy spec e'"
proof -
  have p: "same_paths (path_evidence_of e) (path_evidence_of e')"
    using assms(2) rest(1)
    by (cases "paths e"; cases "paths e'")
       (auto simp: same_set_def same_paths_def path_evidence_of_def intro!: fromkeys_mset)
  have c: "same_commands (command_evidence_of e) (command_evidence_of e')"
    using assms(3) rest(2)
    by (cases "commands e"; cases "commands e'")
       (auto simp: same_set_def same_commands_def command_evidence_of_def intro!: fromkeys_mset)
  have given: "set (given (paths e)) = set (given (paths e'))" "set (given (commands e)) = set (given (commands e'))"
    using given_same_set[OF assms(2)] given_same_set[OF assms(3)] by simp_all
  have work: "check_match_work spec (case path_evidence_of e of None \<Rightarrow> [] | Some p \<Rightarrow> evidence_paths p)
      = check_match_work spec (case path_evidence_of e' of None \<Rightarrow> [] | Some p \<Rightarrow> evidence_paths p)"
    by (cases rule: same_paths_cases[OF p]) (auto intro: check_match_work_mset)
  have "given (paths e) = [] \<longleftrightarrow> given (paths e') = []" using given(1) by (metis set_empty)
  then have "check_evidence spec e = check_evidence spec e'"
    using given rest work by (simp add: check_evidence_def list_ex_iff)
  moreover have "bind_result (token_caches spec (command_evidence_of e)) (\<lambda>_. Inr ())
      = bind_result (token_caches spec (command_evidence_of e')) (\<lambda>_. Inr ())"
    using token_caches_sets[OF c, of spec]
    by (cases "token_caches spec (command_evidence_of e)"; cases "token_caches spec (command_evidence_of e')") auto
  ultimately have "affordable spec e = affordable spec e'" by (simp add: affordable_def)
  moreover have "result_of e = result_of e'"
    using evaluate_gate_sets[OF p c] rest by (simp add: result_of_def fun_eq_iff)
  then have "gate_objects e = gate_objects e'" by (simp add: gate_objects_def fun_eq_iff)
  ultimately show ?thesis
    using \<open>result_of e = result_of e'\<close> by (simp add: check_policy_verdict[OF good] verdict_def)
qed

section \<open>Composition\<close>

lemma sum_over_types:
  fixes f :: "gate \<Rightarrow> nat"
  shows "sum_list (map f gs) = sum_list (map f (filter (\<lambda>g. type_of_gate g = Type_Path) gs))
    + sum_list (map f (filter (\<lambda>g. type_of_gate g = Type_Command) gs))
    + sum_list (map f (filter (\<lambda>g. type_of_gate g = Type_Command_If_Changed) gs))
    + sum_list (map f (filter (\<lambda>g. type_of_gate g = Type_Judge) gs))
    + sum_list (map f (filter (\<lambda>g. type_of_gate g = Type_Verifier) gs))"
proof (induction gs)
  case (Cons g gs)
  then show ?case by (cases "type_of_gate g") simp_all
qed simp

lemma sum_zero_type:
  "(\<And>g. type_of_gate g = t \<Longrightarrow> f g = (0 :: nat)) \<Longrightarrow> sum_list (map f (filter (\<lambda>g. type_of_gate g = t) gs)) = 0"
  by (induction gs) auto

lemma no_globs: "type_of_gate g = Type_Command \<Longrightarrow> gate_globs g = []"
  by (cases g) auto

lemma no_phrases: "type_of_gate g \<noteq> Type_Command \<Longrightarrow> type_of_gate g \<noteq> Type_Command_If_Changed \<Longrightarrow> gate_phrases g = []"
  by (cases g) auto

lemma total_length_simps [simp]:
  "total_length [] = 0" "total_length (x # xs) = length x + total_length xs"
  "total_length (xs @ ys) = total_length xs + total_length ys"
  by (simp_all add: total_length_def)

lemma total_length_concat: "total_length (concat (map f gs)) = sum_list (map (\<lambda>g. total_length (f g)) gs)"
  by (induction gs) auto

lemma length_concat_map: "length (concat (map f gs)) = sum_list (map (\<lambda>g. length (f g)) gs)"
  by (induction gs) auto

lemma path_globs_size:
  "length (path_globs spec) = sum_list (map (\<lambda>g. length (gate_globs g)) (policy_gates spec))"
  "total_length (path_globs spec) = sum_list (map (\<lambda>g. total_length (gate_globs g)) (policy_gates spec))"
  unfolding path_globs_def gates_of_def length_append total_length_simps length_concat_map total_length_concat
  using sum_over_types[of "\<lambda>g. length (gate_globs g)" "policy_gates spec"]
    sum_over_types[of "\<lambda>g. total_length (gate_globs g)" "policy_gates spec"]
    sum_zero_type[of Type_Command "\<lambda>g. length (gate_globs g)" "policy_gates spec"]
    sum_zero_type[of Type_Command "\<lambda>g. total_length (gate_globs g)" "policy_gates spec"]
  by (simp_all add: no_globs)

lemma phrase_sum:
  fixes f :: "string \<Rightarrow> nat"
  shows "sum_list (map f (command_phrases spec)) =
    sum_list (map (\<lambda>g. sum_list (map f (gate_phrases g))) (policy_gates spec))"
proof -
  have c: "sum_list (map f (concat (map gate_phrases gs))) = sum_list (map (\<lambda>g. sum_list (map f (gate_phrases g))) gs)"
    for gs by (induction gs) auto
  show ?thesis
    unfolding command_phrases_def gates_of_def map_append sum_list_append c
    using sum_over_types[of "\<lambda>g. sum_list (map f (gate_phrases g))" "policy_gates spec"]
      sum_zero_type[of Type_Path "\<lambda>g. sum_list (map f (gate_phrases g))" "policy_gates spec"]
      sum_zero_type[of Type_Judge "\<lambda>g. sum_list (map f (gate_phrases g))" "policy_gates spec"]
      sum_zero_type[of Type_Verifier "\<lambda>g. sum_list (map f (gate_phrases g))" "policy_gates spec"]
    by (simp add: no_phrases)
qed

text \<open>\<open>t\<close> is one of the files of \<open>spec\<close>.\<close>

definition part_of :: "policy \<Rightarrow> policy \<Rightarrow> bool" where
  "part_of t spec = (\<exists>before_gates after_gates. policy_gates spec = before_gates @ policy_gates t @ after_gates)"

lemma part_sum: "part_of t spec \<Longrightarrow> sum_list (map f (policy_gates t)) \<le> (sum_list (map f (policy_gates spec)) :: nat)"
  by (auto simp: part_of_def)

lemma check_match_work_part:
  assumes "part_of t spec" "check_match_work spec ps = Inr ()"
  shows "check_match_work t ps = Inr ()"
proof -
  have len: "length (path_globs t) \<le> length (path_globs spec)"
    "total_length (path_globs t) \<le> total_length (path_globs spec)"
    unfolding path_globs_size by (rule part_sum[OF assms(1)])+
  have "estimated_work (path_globs t) ps \<le> estimated_work (path_globs spec) ps"
    unfolding estimated_work_def using len by (intro add_mono mult_le_mono) simp_all
  moreover have "comparisons (path_globs t) ps \<le> comparisons (path_globs spec) ps"
    unfolding comparisons_def using len by (intro mult_le_mono) simp_all
  ultimately show ?thesis using assms(2) by (auto simp: check_match_work_def Let_def split: if_splits)
qed

lemma cached_good:
  "good_phrases ps \<Longrightarrow> p \<in> set ps \<Longrightarrow> cached (map (\<lambda>p. (p, phrase_tokens p)) ps) p = phrase_tokens p"
  by (simp add: cached_def map_of_map_restrict restrict_map_def)

lemma phrase_work:
  "good_phrases ps \<Longrightarrow> total_length (map (cached (map (\<lambda>p. (p, phrase_tokens p)) ps)) ps)
     = sum_list (map (\<lambda>p. length (phrase_tokens p)) ps)"
  unfolding total_length_def by (simp add: comp_def cached_good cong: map_cong)

lemma token_caches_part:
  assumes "part_of t spec" "good_policy t" "good_policy spec" "token_caches spec c = Inr s"
  shows "\<exists>r. token_caches t c = Inr r"
proof (cases c)
  case (Some d)
  note good = good_phrases_cache[OF good_policy_phrases[OF assms(2)]] good_phrases_cache[OF good_policy_phrases[OF assms(3)]]
    phrase_work[OF good_policy_phrases[OF assms(2)]] phrase_work[OF good_policy_phrases[OF assms(3)]]
  have sums: "sum_list (map f (command_phrases t)) \<le> (sum_list (map f (command_phrases spec)) :: nat)" for f
    unfolding phrase_sum by (rule part_sum[OF assms(1)])
  have len: "length (command_phrases t) \<le> length (command_phrases spec)"
    using sums[of "\<lambda>_. 1"] by (simp add: sum_list_triv)
  let ?cache = "\<lambda>s. map (\<lambda>p. (p, phrase_tokens p)) (command_phrases s)"
  have work: "estimated_command_work (?cache t) (command_phrases t) segs
      \<le> estimated_command_work (?cache spec) (command_phrases spec) segs" for segs
    unfolding estimated_command_work_def good using sums by (intro mult_le_mono) simp_all
  have pairs: "comparisons (command_phrases t) cs \<le> comparisons (command_phrases spec) cs" for cs :: "string list"
    unfolding comparisons_def using len by simp
  have gates: "gates_of type spec = [] \<Longrightarrow> gates_of type t = []" for type
    using assms(1) by (auto simp: part_of_def gates_of_def)
  show ?thesis
  proof (cases "gates_of Type_Command t = [] \<and> gates_of Type_Command_If_Changed t = []")
    case False
    then have "\<not> (gates_of Type_Command spec = [] \<and> gates_of Type_Command_If_Changed spec = [])"
      using gates by blast
    then have "\<not> max_total_command_chars < int (total_length (evidence_commands d))"
      "\<not> max_command_work < int (estimated_command_work (?cache spec) (command_phrases spec) (tokenize_commands (evidence_commands d)))"
      "\<not> max_command_comparisons < int (comparisons (command_phrases spec) (evidence_commands d))"
      using assms(4) by (auto simp: token_caches_def Some good(1,2) Let_def split: if_splits)
    then have "\<not> max_total_command_chars < int (total_length (evidence_commands d))"
      "\<not> max_command_work < int (estimated_command_work (?cache t) (command_phrases t) (tokenize_commands (evidence_commands d)))"
      "\<not> max_command_comparisons < int (comparisons (command_phrases t) (evidence_commands d))"
      using work[of "tokenize_commands (evidence_commands d)"] pairs[of "evidence_commands d"] by linarith+
    then show ?thesis using False by (auto simp: token_caches_def Some good(1,2) Let_def)
  qed (simp add: token_caches_def Some)
qed (simp add: token_caches_def)

lemma affordable_part:
  assumes "part_of t spec" "good_policy t" "good_policy spec" "affordable spec e = Inr ()"
  shows "affordable t e = Inr ()"
proof -
  have "check_evidence spec e = Inr ()" and "\<exists>s. token_caches spec (command_evidence_of e) = Inr s"
    using assms(4) by (auto simp: affordable_def bind_result_Inr_iff)
  then have "check_evidence t e = Inr ()" "\<exists>r. token_caches t (command_evidence_of e) = Inr r"
    using check_match_work_part[OF assms(1)] token_caches_part[OF assms(1-3)]
    by (auto simp: check_evidence_def split: if_splits)
  then show ?thesis by (auto simp: affordable_def)
qed

lemma concat_parts: "t \<in> set specs \<Longrightarrow> \<exists>a b. concat (map policy_gates specs) = a @ policy_gates t @ b"
  by (metis append.assoc concat.simps(2) concat_append list.simps(9) map_append split_list)

section \<open>Properties\<close>

text \<open>The guardrail of the witnesses: one required path gate, one required command gate and a judge.\<close>

definition sample_gates :: yaml where
  "sample_gates = Y_List
     [Y_Map [(Y_Text ''id'', Y_Text ''secrets''), (Y_Text ''type'', Y_Text ''path''),
        (Y_Text ''enforcement'', Y_Text ''required''), (Y_Text ''runs'', Y_Text ''pre_tool_use.edit_target''),
        (Y_Text ''forbidden'', Y_List [Y_Text ''**/*.pem''])],
      Y_Map [(Y_Text ''id'', Y_Text ''npm''), (Y_Text ''type'', Y_Text ''command''),
        (Y_Text ''enforcement'', Y_Text ''required''), (Y_Text ''runs'', Y_Text ''pre_tool_use.command''),
        (Y_Text ''forbidden'', Y_List [Y_Text ''npm install''])],
      Y_Map [(Y_Text ''id'', Y_Text ''tone''), (Y_Text ''type'', Y_Text ''judge''),
        (Y_Text ''enforcement'', Y_Text ''advisory''), (Y_Text ''runs'', Y_Text ''stop.session''),
        (Y_Text ''rubric'', Y_Text ''Is it polite?'')]]"

definition sample_load :: loader where
  "sample_load = (\<lambda>_. Inr (Y_Map [(Y_Text ''schema_version'', Y_Text ''1.0''),
     (Y_Text ''policy'', Y_Map [(Y_Text ''id'', Y_Text ''p'')]), (Y_Text ''gates'', sample_gates)]))"

definition sample_guardrail :: policy where
  "sample_guardrail = projr (parse_policy sample_load [] ''a.yml'')"

lemma sample_parsed: "parse_policy sample_load [] ''a.yml'' = Inr sample_guardrail"
proof -
  have "\<not> isl (parse_policy sample_load [] ''a.yml'')" by code_simp
  then show ?thesis by (cases "parse_policy sample_load [] ''a.yml''") (simp_all add: sample_guardrail_def)
qed

definition secrets_gate :: path_gate where
  "secrets_gate = \<lparr>gate_id = ''secrets'', gate_enforcement = Required, gate_runs = [Edit_Target], gate_message = [],
     accept_warnings = [], forbidden_globs = [''**/*.pem'']\<rparr>"

definition npm_gate :: command_gate where
  "npm_gate = \<lparr>gate_id = ''npm'', gate_enforcement = Required, gate_runs = [Command_Text], gate_message = [],
     accept_warnings = [], forbidden_phrases = [''npm install'']\<rparr>"

lemma sample_members: "Path_Gate secrets_gate \<in> set (policy_gates sample_guardrail)"
  "Command_Gate npm_gate \<in> set (policy_gates sample_guardrail)"
  by code_simp+

definition edit_of :: "string list \<Rightarrow> evidence" where
  "edit_of ps = \<lparr>paths = Some ps, commands = Some [], path_source = Some Edit_Target,
     command_scope = Call_Scope, judge_results = None, check_results = None\<rparr>"

definition run_of :: "string \<Rightarrow> evidence" where
  "run_of command = \<lparr>paths = Some [], commands = Some [command], path_source = None,
     command_scope = Call_Scope, judge_results = None, check_results = None\<rparr>"

definition nothing_collected :: evidence where
  "nothing_collected = \<lparr>paths = None, commands = None, path_source = None,
     command_scope = Call_Scope, judge_results = None, check_results = None\<rparr>"

definition answer :: "evidence \<Rightarrow> check_result" where
  "answer e = projr (check_policy sample_guardrail e)"

lemma sample_answers:
  "check_policy sample_guardrail nothing_collected = Inr (answer nothing_collected)"
  "check_policy sample_guardrail (edit_of [''keys/a.pem'']) = Inr (answer (edit_of [''keys/a.pem'']))"
  "check_policy sample_guardrail (run_of ''cd web&&npm install'') = Inr (answer (run_of ''cd web&&npm install''))"
proof -
  have "\<not> isl (check_policy sample_guardrail nothing_collected)"
    "\<not> isl (check_policy sample_guardrail (edit_of [''keys/a.pem'']))"
    "\<not> isl (check_policy sample_guardrail (run_of ''cd web&&npm install''))" by code_simp+
  then show "check_policy sample_guardrail nothing_collected = Inr (answer nothing_collected)"
    "check_policy sample_guardrail (edit_of [''keys/a.pem'']) = Inr (answer (edit_of [''keys/a.pem'']))"
    "check_policy sample_guardrail (run_of ''cd web&&npm install'') = Inr (answer (run_of ''cd web&&npm install''))"
    by (simp_all add: answer_def)
qed

lemma sample_obtained: "obtained sample_load sample_guardrail"
  using sample_parsed by (auto simp: obtained_def)

text \<open>
  \<^bold>\<open>C39\<close>: every policy the parser or the composer returns is well formed: it has gates, their ids are distinct and
  short enough to be reported back, each runs at moments its type can see, a judge gate is advisory, the accepted
  warnings are ones its type can draw, every glob has one \<open>**\<close> at most and every phrase has a token.
\<close>

theorem parsed_policy_is_good:
  assumes "parse_policy load body source = Inr spec \<or> compose_policy load files pid = Inr spec"
  shows "good_policy spec"
  using assms parse_policy_good compose_policy_good by blast

lemma parsed_policy_is_good_witness: "good_policy sample_guardrail"
  by (rule parsed_policy_is_good[where load = sample_load and body = "[]" and source = "''a.yml''" and
      files = "[]" and pid = "[]"]) (simp add: sample_parsed)

text \<open>
  \<^bold>\<open>C27\<close>: a model's verdict never blocks and never unblocks: whatever the judges answer, and whether they are asked at
  all, a check of a parsed or composed policy is refused in the same way or gives the same verdict.
\<close>

theorem judges_never_decide:
  assumes "obtained load spec"
  shows "map_sum id blocked (check_policy spec (e\<lparr>judge_results := answers\<rparr>)) = map_sum id blocked (check_policy spec e)"
proof -
  note good = obtained_good[OF assms]
  let ?e = "e\<lparr>judge_results := answers\<rparr>"
  have evidence: "path_evidence_of ?e = path_evidence_of e" "command_evidence_of ?e = command_evidence_of e"
    by (simp_all add: path_evidence_of_def command_evidence_of_def)
  then have "affordable spec ?e = affordable spec e"
    by (simp add: affordable_def check_evidence_def)
  moreover have "gate_objects ?e g = gate_objects e g" if "g \<in> set (policy_gates spec)" for g
  proof -
    have "good_gate g" using that good by (simp add: good_policy_def list_all_iff)
    then show ?thesis by (cases g) (simp_all add: gate_objects_def result_of_def evidence good_gate_def)
  qed
  then have "list_ex (gate_objects ?e) (policy_gates spec) = list_ex (gate_objects e) (policy_gates spec)"
    by (auto simp: list_ex_iff)
  ultimately show ?thesis
    by (cases "affordable spec e") (simp_all add: check_policy_verdict[OF good] verdict_def)
qed

lemma judges_never_decide_witness:
  "map_sum id blocked (check_policy sample_guardrail (\<lparr>paths = Some [], commands = Some [], path_source = None,
      command_scope = Session_Scope, judge_results = None, check_results = None\<rparr>\<lparr>judge_results :=
        Some [\<lparr>judged_gate = ''tone'', judge_outcome = Verdict_Fail, reasoning = ''rude''\<rparr>]\<rparr>)) =
   map_sum id blocked (check_policy sample_guardrail \<lparr>paths = Some [], commands = Some [], path_source = None,
      command_scope = Session_Scope, judge_results = None, check_results = None\<rparr>)"
  by (rule judges_never_decide[OF sample_obtained])



text \<open>
  \<^bold>\<open>C32\<close>: the paths and commands of a check count as sets: neither their order nor repetitions change a result, a
  message, a budget or the verdict.
\<close>

theorem evidence_counts_as_sets:
  assumes "obtained load spec"
    and "same_set (paths e) (paths e')" "same_set (commands e) (commands e')"
    and "path_source e = path_source e'" "command_scope e = command_scope e'"
      "judge_results e = judge_results e'" "check_results e = check_results e'"
  shows "check_policy spec e = check_policy spec e'"
  using check_policy_sets[OF obtained_good[OF assms(1)] assms(2-)] .

lemma evidence_counts_as_sets_witness:
  "check_policy sample_guardrail (edit_of [''a.txt'', ''keys/a.pem'', ''a.txt'']) =
     check_policy sample_guardrail (edit_of [''keys/a.pem'', ''a.txt''])"
  by (rule evidence_counts_as_sets[OF sample_obtained]) (auto simp: edit_of_def same_set_def)

text \<open>
  \<^bold>\<open>C30\<close>: composing guardrail files neither loses nor adds an objection: when the check of the composed policy
  answers, so does the check of every file alone, and the composed policy blocks exactly when one of them does.
\<close>

theorem composed_blocks_like_its_files:
  assumes "compose_policy load files pid = Inr spec" "check_policy spec e = Inr r"
  shows "\<exists>rs. list_all2 (\<lambda>file s. \<exists>t. parse_policy_file load file = Inr t \<and> check_policy t e = Inr s) files rs
    \<and> (blocked r \<longleftrightarrow> (\<exists>s \<in> set rs. blocked s))"
proof -
  obtain specs where parsed: "list_all2 (\<lambda>file s. parse_policy_file load file = Inr s) files specs"
    and gates: "policy_gates spec = concat (map policy_gates specs)"
    by (rule compose_policy_parts[OF assms(1)])
  note good = compose_policy_good[OF assms(1)]
  have each: "good_policy t \<and> check_policy t e = Inr (verdict t e)" if "t \<in> set specs" for t
  proof -
    obtain i where i: "i < length specs" "t = specs ! i" using \<open>t \<in> set specs\<close> by (auto simp: in_set_conv_nth)
    then have t: "good_policy t" using parsed parse_policy_file_good by (auto simp: list_all2_conv_all_nth)
    moreover have "part_of t spec" using gates concat_parts[OF that] by (auto simp: part_of_def)
    moreover have "affordable spec e = Inr ()" using assms(2) check_policy_Inr[OF good] by simp
    ultimately show ?thesis using affordable_part[of t spec e] good check_policy_Inr[OF t] by simp
  qed
  let ?rs = "map (\<lambda>t. verdict t e) specs"
  have "list_all2 (\<lambda>file s. \<exists>t. parse_policy_file load file = Inr t \<and> check_policy t e = Inr s) files ?rs"
    using parsed each by (auto simp: list_all2_conv_all_nth)
  moreover have "blocked r \<longleftrightarrow> (\<exists>s \<in> set ?rs. blocked s)"
    using blocked_iff[OF good assms(2)] gates by (auto simp: verdict_def list_ex_iff)
  ultimately show ?thesis by blast
qed

definition sample_file :: policy_file where
  "sample_file = \<lparr>file_name = ''a.yml'', file_body = [], gate_id_prefix = []\<rparr>"

definition prefixed_file :: policy_file where
  "prefixed_file = \<lparr>file_name = ''b.yml'', file_body = [], gate_id_prefix = ''user:''\<rparr>"

definition composed_sample :: policy where
  "composed_sample = projr (compose_policy sample_load [sample_file, prefixed_file] ''all'')"

lemma composed_blocks_like_its_files_witness:
  "\<exists>r rs. check_policy composed_sample nothing_collected = Inr r
    \<and> list_all2 (\<lambda>file s. \<exists>t. parse_policy_file sample_load file = Inr t \<and> check_policy t nothing_collected = Inr s)
        [sample_file, prefixed_file] rs
    \<and> (blocked r \<longleftrightarrow> (\<exists>s \<in> set rs. blocked s))"
proof -
  have "\<not> isl (compose_policy sample_load [sample_file, prefixed_file] ''all'')" by code_simp
  then have c: "compose_policy sample_load [sample_file, prefixed_file] ''all'' = Inr composed_sample"
    by (simp add: composed_sample_def)
  have "\<not> isl (check_policy composed_sample nothing_collected)" by code_simp
  then obtain r where "check_policy composed_sample nothing_collected = Inr r"
    by (cases "check_policy composed_sample nothing_collected") auto
  then show ?thesis using composed_blocks_like_its_files[OF c] by blast
qed

text \<open>
  \<^bold>\<open>C40\<close>: a check of a parsed or composed policy raises nothing the hook does not handle: no phrase of it fails to
  tokenize.
\<close>

theorem check_raises_nothing_unhandled:
  assumes "obtained load spec"
  shows "check_policy spec e \<noteq> Inl (Unhandled x)"
  using affordable_handled[OF obtained_good[OF assms]]
  by (simp add: check_policy_verdict[OF obtained_good[OF assms]] bind_result_Inl_iff)

lemma check_raises_nothing_unhandled_witness:
  "check_policy sample_guardrail \<lparr>paths = None, commands = Some [''npm install''], path_source = None,
      command_scope = Call_Scope, judge_results = None, check_results = None\<rparr> \<noteq> Inl (Unhandled (Value_Error ''npm''))"
  by (rule check_raises_nothing_unhandled[OF sample_obtained])

text \<open>
  \<^bold>\<open>C28\<close>: a forbidden command is refused wherever it stands on the line: when a command without quoting, comments and
  redirections is about to run and one of its simple commands, found by splitting at the separator characters
  with or without blanks around them, holds the words of a forbidden phrase, a required gate blocks.
\<close>

theorem forbidden_command_blocks:
  assumes "obtained load spec" "check_policy spec e = Inr r"
    and "Command_Gate g \<in> set (policy_gates spec)" "gate_enforcement g = Required"
    and "commands e = Some cs" "command \<in> set cs" "command_scope e = Call_Scope"
    and "phrase \<in> set (forbidden_phrases g)" "plain_line command" "plain_line phrase"
    and "seg \<in> set (plain_segments command)" "contains_subsequence seg (blank_words phrase)"
  shows "blocked r"
proof -
  note good = obtained_good[OF assms(1)]
  have patterns: "good_phrases (forbidden_phrases g)"
    using good assms(3) by (fastforce simp: good_policy_def list_all_iff good_gate_def)
  have "command_contains None (map phrase_tokens (forbidden_phrases g)) command"
    using assms(8,10-12) command_segments_quiet[OF assms(9)] tokenize_quiet[OF assms(10)]
    by (force simp: command_contains_def cached_segments_def list_ex_iff phrase_tokens_def)
  moreover have "command \<in> set (fromkeys cs)" using assms(6) by simp
  ultimately have "filter (command_contains None (map phrase_tokens (forbidden_phrases g))) (fromkeys cs) \<noteq> []"
    by (auto simp: filter_empty_conv)
  then have "sort (filter (command_contains None (map phrase_tokens (forbidden_phrases g))) (fromkeys cs)) \<noteq> []"
    by (metis length_0_conv length_sort)
  moreover have "fromkeys cs \<noteq> []" using assms(6) by auto
  ultimately have "gate_objects e (Command_Gate g)"
    using assms(4,5,7) good_phrases_collect[OF patterns]
    by (simp add: gate_objects_def result_of_def command_evidence_of_def evaluate_command_def is_blocking_def Let_def)
  then show ?thesis using blocked_iff[OF good assms(2)] assms(3) by blast
qed

lemma forbidden_command_blocks_witness: "blocked (answer (run_of ''cd web&&npm install''))"
proof (rule forbidden_command_blocks[OF sample_obtained sample_answers(3) sample_members(2),
      where cs = "[''cd web&&npm install'']" and command = "''cd web&&npm install''" and phrase = "''npm install''"
        and seg = "[''npm'', ''install'']"])
  show "plain_line ''cd web&&npm install''" "plain_line ''npm install''"
    "[''npm'', ''install''] \<in> set (plain_segments ''cd web&&npm install'')"
    "contains_subsequence [''npm'', ''install''] (blank_words ''npm install'')" by code_simp+
qed (simp_all add: npm_gate_def run_of_def)

text \<open>
  A forbidden path is refused: when a submitted path is one a glob of a required gate means, at a moment the
  gate runs at, the check blocks.
\<close>

theorem forbidden_path_blocks:
  assumes "obtained load spec" "check_policy spec e = Inr r"
    and "Path_Gate g \<in> set (policy_gates spec)" "gate_enforcement g = Required"
    and "paths e = Some ps" "path \<in> set ps" "path_source e = Some moment" "moment \<in> set (gate_runs g)"
    and "glob \<in> set (forbidden_globs g)" "glob_meaning glob path"
  shows "blocked r"
proof -
  note good = obtained_good[OF assms(1)]
  have "good_globs (forbidden_globs g)"
    using good assms(3) by (fastforce simp: good_policy_def list_all_iff good_gate_def)
  then have "matches_any path (forbidden_globs g) \<noteq> None"
    using assms(9,10) unfolding matches_any_iff good_globs_def list_all_iff glob_meaning_def double_stars_def
    by (metis segments_match_meaning)
  then have "path \<in> set (matched_changed_paths (forbidden_globs g) (fromkeys ps))"
    using assms(6) by (auto simp: matched_changed_paths_def)
  then have "matched_changed_paths (forbidden_globs g) (fromkeys ps) \<noteq> []" by auto
  moreover have "fromkeys ps \<noteq> []" using assms(6) by auto
  ultimately have "gate_objects e (Path_Gate g)"
    using assms(4,5,7,8)
    by (simp add: gate_objects_def result_of_def path_evidence_of_def evaluate_path_def is_blocking_def Let_def)
  then show ?thesis using blocked_iff[OF good assms(2)] assms(3) by blast
qed

lemma forbidden_path_blocks_witness: "blocked (answer (edit_of [''keys/a.pem'']))"
proof (rule forbidden_path_blocks[OF sample_obtained sample_answers(2) sample_members(1),
      where ps = "[''keys/a.pem'']" and path = "''keys/a.pem''" and moment = Edit_Target and glob = "''**/*.pem''"])
  show "glob_meaning ''**/*.pem'' ''keys/a.pem''" by code_simp
qed (simp_all add: secrets_gate_def edit_of_def)

end
