(* ===== verification/Guard_Validation.thy ===== *)
theory Guard_Validation
  imports Guard_Policy Guard_Words_Laws
begin

text \<open>
  The static checks of a parsed guardrail (\<open>cli/src/otari_agent/domain/validation.py\<close>). A finding carries what its
  message is made of. The script probe and the files of the repository are parameters.
\<close>

section \<open>Findings\<close>

datatype complaint =
    Dead_Glob string string string
  | Unmatchable_Phrase string string "string list"
  | Verifier_Problem string
  | Backslash string string
  | Matches_No_File string string
  | Misses_Twin string string string
  | Single_Token string
  | Write_Unseen
  | Read_Unseen
  | Over_Cap gate_type nat nat "string list" "string list"

datatype severity = Severity_Error | Severity_Warning

record guard_finding =
  severity :: severity
  found_in :: "string option"
  complaint :: complaint
  code :: "warning_code option"
  accepted :: bool

definition error_in :: "gate \<Rightarrow> complaint \<Rightarrow> guard_finding" where
  "error_in g c = \<lparr>severity = Severity_Error, found_in = Some (gate_name g), complaint = c, code = None, accepted = False\<rparr>"

definition gate_warning :: "gate \<Rightarrow> warning_code \<Rightarrow> complaint \<Rightarrow> guard_finding" where
  "gate_warning g w c = \<lparr>severity = Severity_Warning, found_in = Some (gate_name g), complaint = c, code = Some w,
     accepted = (w \<in> set (accept_warnings (common g)))\<rparr>"

section \<open>Globs\<close>

fun glob_fields :: "gate \<Rightarrow> (string \<times> string list) list" where
  "glob_fields (Path_Gate g) = [(''forbidden'', forbidden_globs g)]"
| "glob_fields (Command_If_Changed_Gate g) = [(''when_changed'', if_changed g)]"
| "glob_fields (Judge_Gate g) = [(''when_changed'', judged_when_changed g)]"
| "glob_fields (Verifier_Gate g) = [(''when_changed'', verified_when_changed g)]"
| "glob_fields (Command_Gate g) = []"

fun phrase_fields :: "gate \<Rightarrow> (string \<times> string list) list" where
  "phrase_fields (Command_Gate g) = [(''forbidden'', forbidden_phrases g)]"
| "phrase_fields (Command_If_Changed_Gate g) = [(''require'', require_phrases g)]"
| "phrase_fields _ = []"

definition shallower_twin :: "string \<Rightarrow> string option" where
  "shallower_twin glob =
     (let segs = split_on CHR ''/'' glob in
      if double_star \<notin> set segs then None
      else let i = index_of double_star segs in
        if i = length segs - 1 then None
        else Some (join_with ''/'' (take i segs @ drop (Suc i) segs)))"

definition unreachable_segments :: "string list" where
  "unreachable_segments = [[], ''.'', ''..'']"

text \<open>The segment on whose account a glob matches nothing.\<close>

definition unreachable_glob :: "string \<Rightarrow> string option" where
  "unreachable_glob glob = find (\<lambda>s. s \<in> set unreachable_segments) (split_on CHR ''/'' glob)"

definition glob_reaches_a_file :: "string \<Rightarrow> string list \<Rightarrow> string list \<Rightarrow> bool" where
  "glob_reaches_a_file glob globs tree =
     any_path_matches
       (filter (\<lambda>other. other = glob \<or> shallower_twin other = Some glob \<or> shallower_twin glob = Some other) globs) tree"

section \<open>Phrases\<close>

definition unmatchable_phrase :: "string \<Rightarrow> raised + string list option" where
  "unmatchable_phrase phrase =
     (case tokenize_phrase_with_separators phrase of
        None \<Rightarrow> Inl (Value_Error phrase)
      | Some tokens \<Rightarrow>
          (let offenders = sort (fromkeys (filter (\<lambda>t. t \<in> set command_separators) tokens))
           in Inr (if offenders = [] then None else Some offenders)))"

definition mentioned_by_a_command_gate :: "string list \<Rightarrow> policy \<Rightarrow> bool" where
  "mentioned_by_a_command_gate globs spec =
     list_ex (\<lambda>g. case g of
         Command_Gate c \<Rightarrow> list_ex (\<lambda>phrase. case tokenize_phrase phrase of
             None \<Rightarrow> False | Some tokens \<Rightarrow> matched_changed_paths globs tokens \<noteq> []) (forbidden_phrases c)
       | _ \<Rightarrow> False) (policy_gates spec)"

section \<open>Blind spots and caps\<close>

definition path_gate_blind_spots :: "path_gate \<Rightarrow> policy \<Rightarrow> guard_finding list" where
  "path_gate_blind_spots g spec =
     (if Edit_Target \<in> set (gate_runs g) \<and> Working_Tree \<notin> set (gate_runs g)
      then [gate_warning (Path_Gate g) Shell_Write_Unseen Write_Unseen] else [])
     @ (if Read_Target \<in> set (gate_runs g) \<and> \<not> mentioned_by_a_command_gate (forbidden_globs g) spec
        then [gate_warning (Path_Gate g) Shell_Read_Unseen Read_Unseen] else [])"

definition cap_warning :: "gate_type \<Rightarrow> warning_code \<Rightarrow> nat \<Rightarrow> gate list \<Rightarrow> guard_finding option" where
  "cap_warning type w limit gates =
     (if length gates \<le> limit then None
      else
        let skipped = drop limit gates;
            unaccepted = filter (\<lambda>g. w \<notin> set (accept_warnings (common g))) skipped
        in Some \<lparr>severity = Severity_Warning, found_in = None,
             complaint = Over_Cap type (length gates) limit (map gate_name skipped)
               (if unaccepted \<noteq> [] \<and> length unaccepted < length skipped then map gate_name unaccepted else []),
             code = Some w, accepted = (unaccepted = [])\<rparr>)"

fun gate_priority :: "gate \<Rightarrow> int" where
  "gate_priority (Judge_Gate g) = judge_priority g"
| "gate_priority (Verifier_Gate g) = verifier_priority g"
| "gate_priority _ = 0"

section \<open>All checks\<close>

record settings =
  judge_gate_limit :: nat
  verifier_gate_limit :: nat
  probe_verifier :: "(verifier_gate \<Rightarrow> string option) option"
  repo_files :: "string list option"
  tree_gate_ids :: "string list option"

text \<open>The files a gate's globs are checked against, if any.\<close>

definition tree_for :: "settings \<Rightarrow> gate \<Rightarrow> string list option" where
  "tree_for cfg g = (case tree_gate_ids cfg of
       Some ids \<Rightarrow> if gate_name g \<in> set ids then repo_files cfg else None
     | None \<Rightarrow> repo_files cfg)"

definition check_glob :: "settings \<Rightarrow> gate \<Rightarrow> string \<Rightarrow> string list \<Rightarrow> string \<Rightarrow> guard_finding list" where
  "check_glob cfg g field globs glob =
     (case unreachable_glob glob of
        Some s \<Rightarrow> [error_in g (Dead_Glob field glob s)]
      | None \<Rightarrow>
          (if BS \<in> set glob then [gate_warning g Backslash_In_Glob (Backslash field glob)] else [])
          @ (case tree_for cfg g of
               Some tree \<Rightarrow>
                 if field = ''when_changed'' \<and> BS \<notin> set glob \<and> \<not> glob_reaches_a_file glob globs tree
                 then [gate_warning g Glob_Matches_No_File (Matches_No_File field glob)] else []
             | None \<Rightarrow> [])
          @ (case shallower_twin glob of
               Some twin \<Rightarrow>
                 if matched_changed_paths globs [twin] = []
                 then [gate_warning g Glob_Misses_Shallower_Depth (Misses_Twin field glob twin)] else []
             | None \<Rightarrow> []))"

definition check_phrase :: "gate \<Rightarrow> string \<Rightarrow> string \<Rightarrow> raised + guard_finding list" where
  "check_phrase g field phrase =
     bind_result (unmatchable_phrase phrase) (\<lambda>problem.
     Inr (case problem of None \<Rightarrow> [] | Some seps \<Rightarrow> [error_in g (Unmatchable_Phrase field phrase seps)]))"

definition check_single_token :: "gate \<Rightarrow> string \<Rightarrow> raised + guard_finding list" where
  "check_single_token g phrase =
     bind_result (unmatchable_phrase phrase) (\<lambda>problem.
     if problem \<noteq> None then Inr []
     else bind_result (tokenized phrase) (\<lambda>ts.
       Inr (if length ts = 1 then [gate_warning g Single_Token_Phrase (Single_Token phrase)] else [])))"

definition check_gate :: "settings \<Rightarrow> policy \<Rightarrow> gate \<Rightarrow> raised + guard_finding list" where
  "check_gate cfg spec g =
     (let globs = concat (map (\<lambda>(field, globs). concat (map (check_glob cfg g field globs) globs)) (glob_fields g));
          later = (case g of
              Path_Gate p \<Rightarrow> path_gate_blind_spots p spec
            | Verifier_Gate v \<Rightarrow>
                (case probe_verifier cfg of
                   None \<Rightarrow> []
                 | Some probe \<Rightarrow> map (error_in g \<circ> Verifier_Problem) (opt_list (probe v)))
            | _ \<Rightarrow> [])
      in
      bind_result (collect (\<lambda>(field, phrases). collect (check_phrase g field) phrases) (phrase_fields g)) (\<lambda>phrases.
      bind_result (case g of Command_Gate c \<Rightarrow> collect (check_single_token g) (forbidden_phrases c) | _ \<Rightarrow> Inr [])
      (\<lambda>singles. Inr (globs @ concat (concat phrases) @ concat singles @ later))))"

definition validate_policy :: "policy \<Rightarrow> settings \<Rightarrow> raised + guard_finding list" where
  "validate_policy spec cfg =
     bind_result (collect (check_gate cfg spec) (policy_gates spec)) (\<lambda>found.
     let judges = by_priority gate_priority (filter (\<lambda>g. type_of_gate g = Type_Judge) (policy_gates spec));
         verifiers = by_priority gate_priority (filter (\<lambda>g. type_of_gate g = Type_Verifier) (policy_gates spec))
     in Inr (concat found
       @ opt_list (cap_warning Type_Judge Judge_Gate_Cap (judge_gate_limit cfg) judges)
       @ opt_list (cap_warning Type_Verifier Verifier_Gate_Cap (verifier_gate_limit cfg) verifiers)))"

section \<open>What the errors mean\<close>

text \<open>A repo-relative path as Git reports one.\<close>

definition repo_path :: "string \<Rightarrow> bool" where
  "repo_path path = list_all (\<lambda>s. s \<notin> set unreachable_segments) (split_on CHR ''/'' path)"

lemma wild_without_star: "CHR ''*'' \<notin> set p \<Longrightarrow> wild p s \<longleftrightarrow> s = p"
  by (induction p s rule: wild.induct) auto

lemma unreachable_without_star: "p \<in> set unreachable_segments \<Longrightarrow> CHR ''*'' \<notin> set p \<and> p \<noteq> double_star"
  by (auto simp: unreachable_segments_def double_star_def)

lemma list_all2_wild_literal:
  "list_all2 wild ps ss \<Longrightarrow> p \<in> set ps \<Longrightarrow> CHR ''*'' \<notin> set p \<Longrightarrow> p \<in> set ss"
  by (induction rule: list_all2_induct) (auto simp: wild_without_star)

lemma segments_match_literal:
  assumes "segments_match ps ss" "p \<in> set ps" "CHR ''*'' \<notin> set p"
  shows "p \<in> set ss"
proof (cases "double_star \<in> set ps")
  case False
  then show ?thesis
    using assms list_all2_wild_literal[of ps ss p] by (simp add: segments_match_def segment_matches_eq)
next
  case True
  let ?i = "index_of double_star ps"
  obtain front rear where split: "ps = front @ double_star # rear" "double_star \<notin> set front"
    using split_list_first[OF True] by blast
  then have i: "ps = take ?i ps @ double_star # drop (Suc ?i) ps"
    using index_of_append[OF split(2)] by simp
  have parts: "list_all2 wild (take ?i ps) (take (length (take ?i ps)) ss)"
    "list_all2 wild (drop (Suc ?i) ps) (if drop (Suc ?i) ps = [] then [] else drop (length ss - length (drop (Suc ?i) ps)) ss)"
    using assms(1) True by (auto simp: segments_match_def segment_matches_eq Let_def split: if_splits)
  have "p \<noteq> double_star" using assms(3) by (auto simp: double_star_def)
  then have "p \<in> set (take ?i ps) \<or> p \<in> set (drop (Suc ?i) ps)"
    using assms(2) by (subst (asm) i) auto
  then show ?thesis
    using list_all2_wild_literal[OF parts(1) _ assms(3)] list_all2_wild_literal[OF parts(2) _ assms(3)]
    by (auto dest: in_set_takeD in_set_dropD split: if_splits)
qed

section \<open>Properties\<close>

text \<open>
  What the validator reports as an error is dead: a glob reported as unreachable matches no repo-relative
  path, however many globs stand beside it, and a phrase with a separator token after its first word is found in
  no command.
\<close>

theorem reported_patterns_are_dead:
  assumes "list_all (\<lambda>glob. unreachable_glob glob \<noteq> None) globs" "repo_path path"
    and "tokenize_phrase phrase = Some (t # ts)" "s \<in> set ts" "s \<in> set command_separators"
  shows "matches_any path globs = None \<and> \<not> list_ex (\<lambda>seg. contains_subsequence seg (t # ts)) (command_segments command)"
proof
  show "matches_any path globs = None"
  proof (rule ccontr)
    assume "matches_any path globs \<noteq> None"
    then obtain glob where glob: "glob \<in> set globs" "segments_match (split_on CHR ''/'' glob) (split_on CHR ''/'' path)"
      unfolding matches_any_iff by auto
    obtain u where "u \<in> set (split_on CHR ''/'' glob)" "u \<in> set unreachable_segments"
      using assms(1) glob(1) by (auto simp: list_all_iff unreachable_glob_def find_None_iff)
    then have "u \<in> set (split_on CHR ''/'' path)"
      using segments_match_literal[OF glob(2)] unreachable_without_star by blast
    then show False using assms(2) \<open>u \<in> set unreachable_segments\<close> by (auto simp: repo_path_def list_all_iff)
  qed
  show "\<not> list_ex (\<lambda>seg. contains_subsequence seg (t # ts)) (command_segments command)"
  proof
    assume "list_ex (\<lambda>seg. contains_subsequence seg (t # ts)) (command_segments command)"
    then obtain seg where "seg \<in> set (command_segments command)" "contains_subsequence seg (t # ts)"
      by (auto simp: list_ex_iff)
    then show False
      using segments_free[of seg command] contains_subsequence_tail[of seg "t # ts"] assms(4,5) by auto
  qed
qed

lemma reported_patterns_are_dead_witness:
  "matches_any ''src/a.py'' [''./src/*.py'', ''/src/a.py''] = None \<and>
   \<not> list_ex (\<lambda>seg. contains_subsequence seg [''cd'', ''web'', ''&&'', ''npm'']) (command_segments ''cd web && npm'')"
proof (rule reported_patterns_are_dead[where phrase = "''cd web && npm''" and s = "''&&''"])
  show "list_all (\<lambda>glob. unreachable_glob glob \<noteq> None) [''./src/*.py'', ''/src/a.py'']" by code_simp
  show "repo_path ''src/a.py''" by code_simp
  show "tokenize_phrase ''cd web && npm'' = Some [''cd'', ''web'', ''&&'', ''npm'']" by code_simp
  show "''&&'' \<in> set [''web'', ''&&'', ''npm'']" by code_simp
  show "''&&'' \<in> set command_separators" by code_simp
qed

text \<open>
  A separator glued to a word is reported too, with a message that says the phrase can never match any command at
  all; the phrase \<open>npm install;\<close> is found in the command \<open>npm 'install;'\<close>.
\<close>

lemma glued_separator_matches:
  "unmatchable_phrase ''npm install;'' = Inr (Some ['';''])
   \<and> tokenize_phrase ''npm install;'' = Some [''npm'', ''install;'']
   \<and> list_ex (\<lambda>seg. contains_subsequence seg [''npm'', ''install;'']) (command_segments (''npm '' @ [SQ] @ ''install;'' @ [SQ]))"
  by code_simp

end
