(* ===== verification/Price_Units.thy ===== *)
theory Price_Units
  imports Prelude
begin

text \<open>
  The units a price can be per and the quantity one published price buys (\<open>types/price_unit.py\<close>), with the
  units of models.dev (\<open>types/models_dev.py\<close>).
\<close>

datatype PriceUnit =
    UToken | URequest | UImage | UCharacter | UMegapixel | USecond | UMinute | UWebSearch

definition PRICE_UNITS :: "PriceUnit list" where
  "PRICE_UNITS =
     [UToken, URequest, UImage, UCharacter, UMegapixel, USecond, UMinute, UWebSearch]"

fun unit_name :: "PriceUnit \<Rightarrow> string" where
  "unit_name UToken = ''token''"
| "unit_name URequest = ''request''"
| "unit_name UImage = ''image''"
| "unit_name UCharacter = ''character''"
| "unit_name UMegapixel = ''megapixel''"
| "unit_name USecond = ''second''"
| "unit_name UMinute = ''minute''"
| "unit_name UWebSearch = ''web_search''"

fun PRICE_PER :: "PriceUnit \<Rightarrow> rat" where
  "PRICE_PER UToken = 1000000"
| "PRICE_PER URequest = 1"
| "PRICE_PER UImage = 1"
| "PRICE_PER UCharacter = 1000000"
| "PRICE_PER UMegapixel = 1"
| "PRICE_PER USecond = 1"
| "PRICE_PER UMinute = 1"
| "PRICE_PER UWebSearch = 1000"

definition MODELS_DEV_UNITS :: "string list" where
  "MODELS_DEV_UNITS = [''token'', ''character'', ''image'', ''megapixel'', ''second'', ''minute'']"

definition models_dev_unit :: "string option \<Rightarrow> PriceUnit option" where
  "models_dev_unit v =
     (let u = (case v of None \<Rightarrow> ''token'' | Some s \<Rightarrow> if s = '''' then ''token'' else s) in
      if u \<in> set MODELS_DEV_UNITS then find (\<lambda>x. unit_name x = u) PRICE_UNITS else None)"

end
