(* ===== verification/Models_Dev.thy ===== *)
theory Models_Dev
  imports Price_Units "HOL-Library.State_Monad"
begin

text \<open>
  The price side of the models.dev catalog, \<open>types/models_dev.py\<close>: the typed \<open>cost\<close> block of a model, the
  reader that fills it from a JSON document and notes what it cannot read, the document written back from
  it, and the token prices derived from it the way models.dev derives them.

  The reader is a state monad over its count, examples and units, so the order of its notes is the code's.
  A JSON object is the list of its entries in order, each key once. A number is a Python \<open>int\<close> or a finite
  \<open>float\<close> or \<open>Decimal\<close>, which are not told apart. Strings have characters below 256.
\<close>

section \<open>JSON values\<close>

datatype number = Whole int | Fraction rat

datatype json_value =
    JNull
  | JBool bool
  | JNumber number
  | JString string
  | JList "json_value list"
  | JObject "(string \<times> json_value) list"

type_synonym json_object = "(string \<times> json_value) list"

fun number_value :: "number \<Rightarrow> rat" where
  "number_value (Whole i) = of_int i"
| "number_value (Fraction r) = r"

text \<open>A key that is absent and a key that is null read alike.\<close>

definition field_of :: "json_object \<Rightarrow> string \<Rightarrow> json_value" where
  "field_of raw name = (case map_of raw name of None \<Rightarrow> JNull | Some v \<Rightarrow> v)"

fun number_of :: "json_value \<Rightarrow> number option" where
  "number_of (JNumber n) = Some n"
| "number_of v = None"

text \<open>A positive whole number.\<close>

definition tier_size :: "number \<Rightarrow> int option" where
  "tier_size n = (if number_value n \<le> 0 then None
     else case n of Whole i \<Rightarrow> Some i
     | Fraction r \<Rightarrow> if of_int \<lfloor>r\<rfloor> = r then Some \<lfloor>r\<rfloor> else None)"

section \<open>The typed block\<close>

record cache_prices =
  kp_read :: "number option"
  kp_write :: "number option"
  kp_ttls :: "(string \<times> number) list"
  kp_storage :: "number option"

record price_override =
  ov_when :: json_object
  ov_price :: "number option"
  ov_reasoning :: "number option"
  ov_cache :: "cache_prices option"
  ov_explicit :: "cache_prices option"
  ov_malformed :: "string list"

record unit_price =
  pc_price :: "number option"
  pc_unit :: "string option"
  pc_reasoning :: "number option"
  pc_cache :: "cache_prices option"
  pc_explicit :: "cache_prices option"
  pc_overrides :: "price_override list"
  pc_malformed :: "string list"

record modality_cost =
  mo_input :: "unit_price option"
  mo_output :: "unit_price option"

record multiplier =
  mx_when :: json_object
  mx_factor :: "number + json_object"

record pricing =
  bp_modalities :: "(string \<times> modality_cost) list"
  bp_web_search :: "unit_price option"
  bp_multipliers :: "multiplier list"

record md_rates =
  rt_input :: "number option"
  rt_output :: "number option"
  rt_cache_read :: "number option"
  rt_cache_write :: "number option"
  rt_malformed :: "string list"

record md_tier =
  ti_kind :: "string option"
  ti_size :: "int option"
  ti_rates :: md_rates

record md_cost =
  co_rates :: md_rates
  co_tiers :: "md_tier list"
  co_over_200k :: "md_rates option"

section \<open>The reader\<close>

record reader =
  rd_count :: nat
  rd_examples :: "string list"
  rd_known :: "string list"
  rd_unknown :: "string list"

type_synonym 'a reading = "(reader, 'a) state"

definition max_issue_examples :: nat where
  "max_issue_examples = 5"

definition note_issue :: "string \<Rightarrow> string \<Rightarrow> unit reading" where
  "note_issue path wanted = State (\<lambda>s. ((), s\<lparr> rd_count := Suc (rd_count s),
     rd_examples := (if length (rd_examples s) < max_issue_examples
       then rd_examples s @ [path @ '': expected '' @ wanted] else rd_examples s) \<rparr>))"

definition dotted :: "string \<Rightarrow> string \<Rightarrow> string" where
  "dotted path name = path @ ''.'' @ name"

definition indexed :: "string \<Rightarrow> nat \<Rightarrow> string" where
  "indexed path n = path @ ''['' @ decimal_digits n @ '']''"

definition printable :: "char \<Rightarrow> bool" where
  "printable c = (let n = of_char c :: nat in 32 \<le> n \<and> \<not> (127 \<le> n \<and> n \<le> 160) \<and> n \<noteq> 173)"

definition max_segment :: nat where
  "max_segment = 64"

definition segment :: "string \<Rightarrow> string" where
  "segment key = (if list_all printable key \<and> length key \<le> max_segment then key
     else py_repr (take max_segment key))"

definition mapping_field :: "json_object \<Rightarrow> string \<Rightarrow> string \<Rightarrow> json_object option reading" where
  "mapping_field raw name path = (case field_of raw name of
       JNull \<Rightarrow> State_Monad.return None
     | JObject obj \<Rightarrow> State_Monad.return (Some obj)
     | _ \<Rightarrow> do { note_issue (dotted path name) ''an object''; State_Monad.return None })"

definition text_field :: "json_object \<Rightarrow> string \<Rightarrow> string \<Rightarrow> string option reading" where
  "text_field raw name path = (case field_of raw name of
       JNull \<Rightarrow> State_Monad.return None
     | JString s \<Rightarrow> State_Monad.return (if s = [] then None else Some s)
     | _ \<Rightarrow> do { note_issue (dotted path name) ''a string''; State_Monad.return None })"

text \<open>
  A price, with the field names it adds to the list of malformed ones.
\<close>

definition price_field ::
  "json_object \<Rightarrow> string \<Rightarrow> string \<Rightarrow> string \<Rightarrow> (number option \<times> string list) reading" where
  "price_field raw name path field = (case field_of raw name of
       JNull \<Rightarrow> State_Monad.return (None, [])
     | JNumber n \<Rightarrow> State_Monad.return (Some n, [])
     | _ \<Rightarrow> do { note_issue (dotted path name) ''a number'';
               State_Monad.return (None, [if field = [] then name else field]) })"

definition condition :: "json_object \<Rightarrow> string \<Rightarrow> json_object option reading" where
  "condition raw path = (case field_of raw ''when'' of
       JObject obj \<Rightarrow> State_Monad.return (Some obj)
     | _ \<Rightarrow> do { note_issue (dotted path ''when'') ''an object''; State_Monad.return None })"

text \<open>The items of a list field that are objects, each read where it stands.\<close>

fun read_items :: "(json_object \<Rightarrow> string \<Rightarrow> 'a reading) \<Rightarrow> string \<Rightarrow> nat \<Rightarrow> json_value list \<Rightarrow> 'a list reading" where
  "read_items read path n [] = State_Monad.return []"
| "read_items read path n (item # items) = (case item of
       JObject obj \<Rightarrow> do {
         x \<leftarrow> read obj (indexed path n);
         xs \<leftarrow> read_items read path (Suc n) items;
         State_Monad.return (x # xs) }
     | _ \<Rightarrow> do { note_issue (indexed path n) ''an object''; read_items read path (Suc n) items })"

definition read_objects ::
  "(json_object \<Rightarrow> string \<Rightarrow> 'a reading) \<Rightarrow> json_object \<Rightarrow> string \<Rightarrow> string \<Rightarrow> 'a list reading" where
  "read_objects read raw name path = (case field_of raw name of
       JNull \<Rightarrow> State_Monad.return []
     | JList items \<Rightarrow> read_items read (dotted path name) 0 items
     | _ \<Rightarrow> do { note_issue (dotted path name) ''a list''; State_Monad.return [] })"

section \<open>Reading a \<open>cost\<close> block\<close>

text \<open>The prices of the TTLs, the first entry's number, and the malformed fields.\<close>

fun read_ttls ::
  "string \<Rightarrow> string \<Rightarrow> json_object \<Rightarrow> ((string \<times> number) list \<times> string list) reading" where
  "read_ttls path field [] = State_Monad.return ([], [])"
| "read_ttls path field ((ttl, v) # entries) = (case number_of v of
       Some n \<Rightarrow> do {
         (ttls, bad) \<leftarrow> read_ttls path field entries;
         State_Monad.return ((ttl, n) # ttls, bad) }
     | None \<Rightarrow> do {
         note_issue (dotted (dotted path ''write'') (segment ttl)) ''a number'';
         (ttls, bad) \<leftarrow> read_ttls path field entries;
         State_Monad.return (ttls, dotted field ''write'' # bad) })"

definition read_write ::
  "json_object \<Rightarrow> string \<Rightarrow> string \<Rightarrow> (number option \<times> (string \<times> number) list \<times> string list) reading" where
  "read_write cache path field = (case field_of cache ''write'' of
       JObject entries \<Rightarrow> do {
         (ttls, bad) \<leftarrow> read_ttls path field entries;
         State_Monad.return (case entries of [] \<Rightarrow> None | (ttl, v) # _ \<Rightarrow> number_of v, ttls, bad) }
     | _ \<Rightarrow> do {
         (first, bad) \<leftarrow> price_field cache ''write'' path (dotted field ''write'');
         State_Monad.return (first, [], bad) })"

definition read_cache_prices ::
  "json_object \<Rightarrow> string \<Rightarrow> string \<Rightarrow> (cache_prices \<times> string list) reading" where
  "read_cache_prices cache path field = do {
     (first, ttls, bad_write) \<leftarrow> read_write cache path field;
     (read_price, bad_read) \<leftarrow> price_field cache ''read'' path (dotted field ''read'');
     (storage, bad_storage) \<leftarrow> price_field cache ''storage'' path (dotted field ''storage'');
     State_Monad.return (\<lparr> kp_read = read_price, kp_write = first, kp_ttls = ttls, kp_storage = storage \<rparr>,
       bad_write @ bad_read @ bad_storage) }"

definition read_cache ::
  "json_object \<Rightarrow> string \<Rightarrow> (cache_prices option \<times> cache_prices option \<times> string list) reading" where
  "read_cache raw path = do {
     cache \<leftarrow> mapping_field raw ''cache'' path;
     (case cache of
        None \<Rightarrow> State_Monad.return (None, None, [])
      | Some obj \<Rightarrow> do {
          explicit \<leftarrow> mapping_field obj ''explicit'' (dotted path ''cache'');
          (prices, bad) \<leftarrow> read_cache_prices obj (dotted path ''cache'') ''cache'';
          (case explicit of
             None \<Rightarrow> State_Monad.return (Some prices, None, bad)
           | Some inner \<Rightarrow> do {
               (explicit_prices, bad_explicit) \<leftarrow>
                 read_cache_prices inner (dotted (dotted path ''cache'') ''explicit'') ''cache.explicit'';
               State_Monad.return (Some prices, Some explicit_prices, bad @ bad_explicit) }) }) }"

definition read_override :: "json_object \<Rightarrow> string \<Rightarrow> price_override option reading" where
  "read_override raw path = do {
     wh \<leftarrow> condition raw path;
     (price, bad_price) \<leftarrow> price_field raw ''price'' path [];
     (reasoning, bad_reasoning) \<leftarrow> price_field raw ''reasoning'' path [];
     (cache, explicit, bad_cache) \<leftarrow> read_cache raw path;
     State_Monad.return (case wh of None \<Rightarrow> None
       | Some w \<Rightarrow> Some \<lparr> ov_when = w, ov_price = price, ov_reasoning = reasoning, ov_cache = cache,
           ov_explicit = explicit, ov_malformed = bad_price @ bad_reasoning @ bad_cache \<rparr>) }"

definition add_unknown_unit :: "string option \<Rightarrow> unit reading" where
  "add_unknown_unit u = State (\<lambda>s. ((), case u of None \<Rightarrow> s
     | Some name \<Rightarrow> if name \<in> set (rd_known s) \<or> name \<in> set (rd_unknown s) then s
         else s\<lparr> rd_unknown := rd_unknown s @ [name] \<rparr>))"

definition read_unit_price :: "json_object \<Rightarrow> string \<Rightarrow> string \<Rightarrow> unit_price option reading" where
  "read_unit_price raw name path = do {
     entry \<leftarrow> mapping_field raw name path;
     (case entry of
        None \<Rightarrow> State_Monad.return None
      | Some obj \<Rightarrow> do {
          (price, bad_price) \<leftarrow> price_field obj ''price'' (dotted path name) [];
          (reasoning, bad_reasoning) \<leftarrow> price_field obj ''reasoning'' (dotted path name) [];
          (cache, explicit, bad_cache) \<leftarrow> read_cache obj (dotted path name);
          overrides \<leftarrow> read_objects read_override obj ''overrides'' (dotted path name);
          u \<leftarrow> text_field obj ''unit'' (dotted path name);
          _ \<leftarrow> add_unknown_unit u;
          State_Monad.return (Some \<lparr> pc_price = price, pc_unit = u, pc_reasoning = reasoning, pc_cache = cache,
            pc_explicit = explicit, pc_overrides = concat (map opt_list overrides),
            pc_malformed = bad_price @ bad_reasoning @ bad_cache \<rparr>) }) }"

definition read_multiplier :: "json_object \<Rightarrow> string \<Rightarrow> multiplier option reading" where
  "read_multiplier raw path = do {
     wh \<leftarrow> condition raw path;
     (case field_of raw ''factor'' of
        JObject obj \<Rightarrow> State_Monad.return (map_option (\<lambda>w. \<lparr> mx_when = w, mx_factor = Inr obj \<rparr>) wh)
      | JNumber n \<Rightarrow> State_Monad.return (map_option (\<lambda>w. \<lparr> mx_when = w, mx_factor = Inl n \<rparr>) wh)
      | _ \<Rightarrow> do { note_issue (dotted path ''factor'') ''a number or an object''; State_Monad.return None }) }"

definition not_modalities :: "string list" where
  "not_modalities = [''web_search'', ''multipliers'']"

fun read_modalities :: "string \<Rightarrow> json_object \<Rightarrow> (string \<times> modality_cost) list reading" where
  "read_modalities path [] = State_Monad.return []"
| "read_modalities path ((key, v) # entries) =
     (if key \<in> set not_modalities then read_modalities path entries
      else case v of
        JObject obj \<Rightarrow> do {
          inp \<leftarrow> read_unit_price obj ''input'' (dotted path (segment key));
          outp \<leftarrow> read_unit_price obj ''output'' (dotted path (segment key));
          rest \<leftarrow> read_modalities path entries;
          State_Monad.return ((key, \<lparr> mo_input = inp, mo_output = outp \<rparr>) # rest) }
      | _ \<Rightarrow> do { note_issue (dotted path (segment key)) ''an object''; read_modalities path entries })"

definition cost_v2 :: "json_object \<Rightarrow> string \<Rightarrow> pricing reading" where
  "cost_v2 cost path = do {
     modalities \<leftarrow> read_modalities path cost;
     multipliers \<leftarrow> read_objects read_multiplier cost ''multipliers'' path;
     web_search \<leftarrow> read_unit_price cost ''web_search'' path;
     State_Monad.return \<lparr> bp_modalities = modalities, bp_web_search = web_search,
       bp_multipliers = concat (map opt_list multipliers) \<rparr> }"

record issues =
  is_count :: nat
  is_examples :: "string list"
  is_models :: nat
  is_damaged :: nat
  is_unknown :: "string list"

datatype not_readable = Type_Error string

definition new_reader :: "string list \<Rightarrow> reader" where
  "new_reader units = \<lparr> rd_count = 0, rd_examples = [], rd_known = units, rd_unknown = [] \<rparr>"

definition parse_pricing :: "string list \<Rightarrow> string \<Rightarrow> json_value \<Rightarrow> not_readable + pricing \<times> issues" where
  "parse_pricing units path raw = (case raw of
       JObject cost \<Rightarrow> (let (p, s) = run_state (cost_v2 cost path) (new_reader units) in
         Inr (p, \<lparr> is_count = rd_count s, is_examples = rd_examples s, is_models = 1,
           is_damaged = (if 0 < rd_count s then 1 else 0), is_unknown = rd_unknown s \<rparr>))
     | _ \<Rightarrow> Inl (Type_Error ''a cost block is not a JSON object''))"

section \<open>The document of a block\<close>

fun opt_field :: "string \<Rightarrow> json_value option \<Rightarrow> json_object" where
  "opt_field name None = []"
| "opt_field name (Some v) = [(name, v)]"

definition number_field :: "string \<Rightarrow> number option \<Rightarrow> json_object" where
  "number_field name n = opt_field name (map_option JNumber n)"

definition cache_fields :: "cache_prices \<Rightarrow> json_object" where
  "cache_fields c = number_field ''read'' (kp_read c)
     @ (if kp_ttls c \<noteq> [] then [(''write'', JObject (map (map_prod id JNumber) (kp_ttls c)))]
        else number_field ''write'' (kp_write c))
     @ number_field ''storage'' (kp_storage c)"

definition cache_document :: "cache_prices option \<Rightarrow> json_object" where
  "cache_document cache = (case cache of None \<Rightarrow> [] | Some c \<Rightarrow> cache_fields c)"

definition cache_entry :: "cache_prices option \<Rightarrow> cache_prices option \<Rightarrow> json_object" where
  "cache_entry cache explicit =
     (let obj = cache_document cache @ (case explicit of None \<Rightarrow> []
        | Some e \<Rightarrow> [(''explicit'', JObject (cache_document (Some e)))]) in
      if obj = [] then [] else [(''cache'', JObject obj)])"

definition override_document :: "price_override \<Rightarrow> json_object" where
  "override_document p = [(''when'', JObject (ov_when p))] @ number_field ''price'' (ov_price p)
     @ number_field ''reasoning'' (ov_reasoning p) @ cache_entry (ov_cache p) (ov_explicit p)"

definition unit_price_document :: "unit_price \<Rightarrow> json_object" where
  "unit_price_document p = number_field ''price'' (pc_price p) @ opt_field ''unit'' (map_option JString (pc_unit p))
     @ number_field ''reasoning'' (pc_reasoning p) @ cache_entry (pc_cache p) (pc_explicit p)
     @ (if pc_overrides p = [] then []
        else [(''overrides'', JList (map (\<lambda>v. JObject (override_document v)) (pc_overrides p)))])"

definition price_entry :: "string \<Rightarrow> unit_price option \<Rightarrow> json_object" where
  "price_entry name p = opt_field name (map_option (\<lambda>u. JObject (unit_price_document u)) p)"

definition modality_document :: "modality_cost \<Rightarrow> json_object" where
  "modality_document m = price_entry ''input'' (mo_input m) @ price_entry ''output'' (mo_output m)"

definition multiplier_document :: "multiplier \<Rightarrow> json_object" where
  "multiplier_document m = [(''when'', JObject (mx_when m)),
     (''factor'', case mx_factor m of Inl n \<Rightarrow> JNumber n | Inr obj \<Rightarrow> JObject obj)]"

definition pricing_document :: "pricing \<Rightarrow> json_object" where
  "pricing_document p = map (\<lambda>(key, m). (key, JObject (modality_document m))) (bp_modalities p)
     @ price_entry ''web_search'' (bp_web_search p)
     @ (if bp_multipliers p = [] then []
        else [(''multipliers'', JList (map (\<lambda>m. JObject (multiplier_document m)) (bp_multipliers p)))])"

section \<open>The token prices of a block\<close>

text \<open>Where a tier starts, for a condition on context alone.\<close>

definition context_size :: "json_object \<Rightarrow> int option" where
  "context_size wh = (if set (map fst wh) \<noteq> {''context''} then None
     else case field_of wh ''context'' of
       JObject bounds \<Rightarrow> (let bound = field_of bounds ''gt'' in
         case number_of (if bound = JNull then field_of bounds ''gte'' else bound) of
           None \<Rightarrow> None
         | Some n \<Rightarrow> tier_size n)
     | _ \<Rightarrow> None)"

definition cache_write_of :: "cache_prices option \<Rightarrow> cache_prices option \<Rightarrow> number option" where
  "cache_write_of cache explicit =
     first_some (\<lambda>c. case c of None \<Rightarrow> None | Some k \<Rightarrow> kp_write k) [cache, explicit]"

definition rates_malformed :: "string list \<Rightarrow> string list \<Rightarrow> string list" where
  "rates_malformed given made =
     (if ''price'' \<in> set given then [''input''] else []) @ (if ''price'' \<in> set made then [''output''] else [])
     @ (if ''cache.read'' \<in> set given then [''cache_read''] else [])
     @ (if ''cache.write'' \<in> set given \<or> ''cache.explicit.write'' \<in> set given then [''cache_write''] else [])"

text \<open>A tier while it is put together: its rates, and the malformed fields of either side.\<close>

record open_tier =
  te_input :: "number option"
  te_output :: "number option"
  te_cache_read :: "number option"
  te_cache_write :: "number option"
  te_bad_given :: "string list"
  te_bad_made :: "string list"

text \<open>The entry of a size, made from the base where it is new, is changed.\<close>

definition put_tier :: "int \<Rightarrow> 'e \<Rightarrow> ('e \<Rightarrow> 'e) \<Rightarrow> (int \<times> 'e) list \<Rightarrow> (int \<times> 'e) list" where
  "put_tier size_at base change tiers =
     (if size_at \<in> set (map fst tiers) then map (\<lambda>(k, e). if k = size_at then (k, change e) else (k, e)) tiers
      else tiers @ [(size_at, change base)])"

definition or_else :: "'a option \<Rightarrow> 'a option \<Rightarrow> 'a option" where
  "or_else new old = (case new of None \<Rightarrow> old | Some v \<Rightarrow> Some v)"

definition given_tier :: "open_tier \<Rightarrow> price_override \<Rightarrow> (int \<times> open_tier) list \<Rightarrow> (int \<times> open_tier) list" where
  "given_tier base p tiers = (case context_size (ov_when p) of
       None \<Rightarrow> tiers
     | Some n \<Rightarrow> put_tier n base (\<lambda>e. e\<lparr> te_input := or_else (ov_price p) (te_input e),
         te_cache_read := or_else (case ov_cache p of None \<Rightarrow> None | Some c \<Rightarrow> kp_read c) (te_cache_read e),
         te_cache_write := or_else (cache_write_of (ov_cache p) (ov_explicit p)) (te_cache_write e),
         te_bad_given := te_bad_given e @ ov_malformed p \<rparr>) tiers)"

definition made_tier :: "open_tier \<Rightarrow> price_override \<Rightarrow> (int \<times> open_tier) list \<Rightarrow> (int \<times> open_tier) list" where
  "made_tier base p tiers = (case context_size (ov_when p) of
       None \<Rightarrow> tiers
     | Some n \<Rightarrow> put_tier n base (\<lambda>e. e\<lparr> te_output := or_else (ov_price p) (te_output e),
         te_bad_made := te_bad_made e @ ov_malformed p \<rparr>) tiers)"

definition direction_cost :: "unit_price option \<Rightarrow> unit_price option \<Rightarrow> md_cost" where
  "direction_cost given made =
     (let given_price = Option.bind given pc_price; made_price = Option.bind made pc_price;
          base = \<lparr> te_input = given_price, te_output = made_price, te_cache_read = None, te_cache_write = None,
            te_bad_given = [], te_bad_made = [] \<rparr>;
          from_given = fold (given_tier base) (case given of None \<Rightarrow> [] | Some g \<Rightarrow> pc_overrides g) [];
          tiers = fold (made_tier base) (case made of None \<Rightarrow> [] | Some m \<Rightarrow> pc_overrides m) from_given in
      \<lparr> co_rates = \<lparr> rt_input = given_price, rt_output = made_price,
          rt_cache_read = Option.bind (Option.bind given pc_cache) kp_read,
          rt_cache_write = (case given of None \<Rightarrow> None | Some g \<Rightarrow> cache_write_of (pc_cache g) (pc_explicit g)),
          rt_malformed = rates_malformed (case given of None \<Rightarrow> [] | Some g \<Rightarrow> pc_malformed g)
            (case made of None \<Rightarrow> [] | Some m \<Rightarrow> pc_malformed m) \<rparr>,
        co_tiers = map (\<lambda>(n, e). \<lparr> ti_kind = Some ''context'', ti_size = Some n,
          ti_rates = \<lparr> rt_input = te_input e, rt_output = te_output e, rt_cache_read = te_cache_read e,
            rt_cache_write = te_cache_write e, rt_malformed = rates_malformed (te_bad_given e) (te_bad_made e) \<rparr> \<rparr>) tiers,
        co_over_200k = None \<rparr>)"

definition token_unit :: "string option \<Rightarrow> bool" where
  "token_unit u \<longleftrightarrow> u = None \<or> u = Some ''token''"

definition text_token_cost :: "pricing \<Rightarrow> md_cost option" where
  "text_token_cost p = (case map_of (bp_modalities p) ''text'' of
       None \<Rightarrow> None
     | Some m \<Rightarrow> (case (mo_input m, mo_output m) of
         (Some given, Some made) \<Rightarrow>
           if token_unit (pc_unit given) \<and> token_unit (pc_unit made) then Some (direction_cost (Some given) (Some made)) else None
       | _ \<Rightarrow> None))"

end
