(* ===== verification/Models_Dev_Laws.thy ===== *)
theory Models_Dev_Laws
  imports Models_Dev
begin

text \<open>
  Reading and writing a \<open>cost\<close> block. \<open>reads\<close> says what a reader returns where it notes nothing; with it,
  every block read without a note is well formed, and a well-formed block is what its document reads as.
\<close>

section \<open>Readers that note nothing\<close>

definition notes_grow :: "reader \<Rightarrow> reader \<Rightarrow> bool" where
  "notes_grow s s1 \<longleftrightarrow> rd_count s \<le> rd_count s1 \<and> (\<exists>new. rd_unknown s1 = rd_unknown s @ new) \<and> rd_known s1 = rd_known s"

definition clean :: "reader \<Rightarrow> bool" where
  "clean s \<longleftrightarrow> rd_count s = 0 \<and> rd_unknown s = []"

lemma notes_grow_refl [simp]: "notes_grow s s" by (simp add: notes_grow_def)

lemma notes_grow_trans: "notes_grow s s1 \<Longrightarrow> notes_grow s1 s2 \<Longrightarrow> notes_grow s s2"
  by (auto simp: notes_grow_def)

lemma notes_grow_clean: "notes_grow s s1 \<Longrightarrow> clean s1 \<Longrightarrow> clean s"
  by (auto simp: notes_grow_def clean_def)

definition reads :: "string list \<Rightarrow> ('a \<Rightarrow> bool) \<Rightarrow> 'a reading \<Rightarrow> bool" where
  "reads units P m \<longleftrightarrow> (\<forall>s x s1. rd_known s = units \<longrightarrow> run_state m s = (x, s1) \<longrightarrow>
     notes_grow s s1 \<and> (clean s1 \<longrightarrow> P x))"

lemma reads_return: "P x \<Longrightarrow> reads units P (State_Monad.return x)"
  by (auto simp: reads_def)

lemma reads_note: "reads units (\<lambda>_. False) (note_issue path wanted)"
  by (auto simp: reads_def note_issue_def notes_grow_def clean_def)

lemma reads_bind:
  assumes "reads units Q m" "\<And>x. reads units (\<lambda>y. Q x \<longrightarrow> P y) (f x)"
  shows "reads units P (m \<bind> f)"
  unfolding reads_def
proof (intro allI impI)
  fix s y s2
  assume known: "rd_known s = units" and run: "run_state (m \<bind> f) s = (y, s2)"
  obtain x s1 where m: "run_state m s = (x, s1)" by fastforce
  with run have f: "run_state (f x) s1 = (y, s2)" by simp
  have one: "notes_grow s s1" "clean s1 \<longrightarrow> Q x" using assms(1) known m by (auto simp: reads_def)
  then have "rd_known s1 = units" using known by (simp add: notes_grow_def)
  then have two: "notes_grow s1 s2" "clean s2 \<longrightarrow> (Q x \<longrightarrow> P y)" using assms(2) [of x] f by (auto simp: reads_def)
  show "notes_grow s s2 \<and> (clean s2 \<longrightarrow> P y)" using one two by (meson notes_grow_clean notes_grow_trans)
qed

lemma reads_conseq: "reads units Q m \<Longrightarrow> (\<And>x. Q x \<Longrightarrow> P x) \<Longrightarrow> reads units P m"
  by (fastforce simp: reads_def)

text \<open>After a note nothing has to hold.\<close>

lemma reads_noted: "reads units (\<lambda>_. True) m \<Longrightarrow> reads units P (note_issue path wanted \<bind> (\<lambda>_. m))"
  by (rule reads_bind [OF reads_note]) (auto elim: reads_conseq)

lemma reads_final_note: "reads units P (note_issue path wanted \<bind> (\<lambda>_. State_Monad.return x))"
  by (rule reads_noted) (simp add: reads_return)

section \<open>Well-formed blocks\<close>

definition wf_cache :: "cache_prices \<Rightarrow> bool" where
  "wf_cache c \<longleftrightarrow> (kp_ttls c \<noteq> [] \<longrightarrow> kp_write c = Some (snd (hd (kp_ttls c))))"

definition wf_caches :: "cache_prices option \<Rightarrow> cache_prices option \<Rightarrow> bool" where
  "wf_caches cache explicit \<longleftrightarrow> (case cache of None \<Rightarrow> explicit = None
     | Some c \<Rightarrow> wf_cache c \<and> (case explicit of None \<Rightarrow> True | Some e \<Rightarrow> wf_cache e))"

definition wf_override :: "price_override \<Rightarrow> bool" where
  "wf_override p \<longleftrightarrow> wf_caches (ov_cache p) (ov_explicit p) \<and> ov_malformed p = []"

definition wf_unit_price :: "string list \<Rightarrow> unit_price \<Rightarrow> bool" where
  "wf_unit_price units p \<longleftrightarrow> wf_caches (pc_cache p) (pc_explicit p) \<and> pc_malformed p = []
     \<and> (case pc_unit p of None \<Rightarrow> True | Some u \<Rightarrow> u \<noteq> [] \<and> u \<in> set units) \<and> list_all wf_override (pc_overrides p)"

definition wf_price :: "string list \<Rightarrow> unit_price option \<Rightarrow> bool" where
  "wf_price units p = (case p of None \<Rightarrow> True | Some u \<Rightarrow> wf_unit_price units u)"

definition wf_modality :: "string list \<Rightarrow> string \<times> modality_cost \<Rightarrow> bool" where
  "wf_modality units e \<longleftrightarrow> fst e \<notin> set not_modalities
     \<and> wf_price units (mo_input (snd e)) \<and> wf_price units (mo_output (snd e))"

definition wf_pricing :: "string list \<Rightarrow> pricing \<Rightarrow> bool" where
  "wf_pricing units p \<longleftrightarrow> list_all (wf_modality units) (bp_modalities p) \<and> wf_price units (bp_web_search p)"

section \<open>A block read without a note is well formed\<close>

named_theorems reading_rules

lemma reads_price [reading_rules]: "reads units (\<lambda>(n, bad). bad = []) (price_field raw name path field)"
  by (auto simp: price_field_def split: json_value.split intro: reads_return reads_final_note)

lemma reads_mapping [reading_rules]: "reads units (\<lambda>_. True) (mapping_field raw name path)"
  by (auto simp: mapping_field_def split: json_value.split intro: reads_return reads_final_note)

lemma reads_text [reading_rules]: "reads units (\<lambda>t. t \<noteq> Some []) (text_field raw name path)"
  by (auto simp: text_field_def split: json_value.split intro: reads_return reads_final_note)

lemma reads_condition [reading_rules]: "reads units (\<lambda>w. w \<noteq> None) (condition raw path)"
  by (auto simp: condition_def split: json_value.split intro: reads_return reads_final_note)

lemma reads_items:
  assumes "\<And>raw loc. reads units P (rd raw loc)"
  shows "reads units (list_all P) (read_items rd path n items)"
proof (induction items arbitrary: n)
  case (Cons item items)
  have other: "reads units (list_all P) (note_issue (indexed path n) ''an object'' \<bind> (\<lambda>_. read_items rd path (Suc n) items))"
    by (rule reads_noted) (rule reads_conseq [OF Cons.IH], simp)
  have object: "reads units (list_all P) (rd obj loc \<bind> (\<lambda>x. read_items rd path (Suc n) items \<bind> (\<lambda>xs. State_Monad.return (x # xs))))"
    for obj loc
    by (rule reads_bind [OF assms], rule reads_bind [OF Cons.IH]) (simp add: reads_return)
  show ?case using other object by (simp split: json_value.split)
qed (simp add: reads_return)

lemma reads_objects:
  assumes "\<And>raw loc. reads units P (rd raw loc)"
  shows "reads units (list_all P) (read_objects rd raw name path)"
  unfolding read_objects_def
  by (auto split: json_value.split intro: reads_return reads_final_note reads_items assms)

lemma reads_ttls:
  "reads units (\<lambda>(ttls, bad). bad = [] \<and> map fst ttls = map fst entries
      \<and> (\<forall>ttl v rest. entries = (ttl, v) # rest \<longrightarrow> number_of v = Some (snd (hd ttls)))) (read_ttls path field entries)"
proof (induction entries)
  case (Cons e entries)
  obtain ttl v where e: "e = (ttl, v)" by fastforce
  show ?case
  proof (cases "number_of v")
    case None
    have "reads units (\<lambda>_. True) (read_ttls path field entries
        \<bind> (\<lambda>(ttls, bad). State_Monad.return (ttls, dotted field ''write'' # bad)))"
      by (rule reads_bind [OF reads_conseq [OF Cons.IH]]) (auto simp: reads_return split: prod.split)
    with None show ?thesis by (simp add: e reads_noted)
  next
    case (Some n)
    then show ?thesis by (simp add: e) (rule reads_bind [OF Cons.IH], auto intro!: reads_return split: prod.split)
  qed
qed (simp add: reads_return)

lemma reads_write [reading_rules]:
  "reads units (\<lambda>(first, ttls, bad). bad = [] \<and> (ttls \<noteq> [] \<longrightarrow> first = Some (snd (hd ttls)))) (read_write cache path field)"
proof -
  have plain: "reads units (\<lambda>(first, ttls, bad). bad = [] \<and> (ttls \<noteq> [] \<longrightarrow> first = Some (snd (hd ttls))))
      (price_field cache ''write'' path (dotted field ''write'')
        \<bind> (\<lambda>(first, bad). State_Monad.return (first, [] :: (string \<times> number) list, bad)))"
    by (rule reads_bind [OF reads_price]) (auto intro!: reads_return split: prod.split)
  have listed: "reads units (\<lambda>(first, ttls, bad). bad = [] \<and> (ttls \<noteq> [] \<longrightarrow> first = Some (snd (hd ttls))))
      (read_ttls path field entries \<bind> (\<lambda>(ttls, bad).
        State_Monad.return (case entries of [] \<Rightarrow> None | (ttl, v) # _ \<Rightarrow> number_of v, ttls, bad)))" for entries
    by (rule reads_bind [OF reads_ttls]) (auto intro!: reads_return split: prod.split list.split)
  show ?thesis using plain listed by (auto simp: read_write_def split: json_value.split)
qed

lemma reads_cache_prices [reading_rules]:
  "reads units (\<lambda>(c, bad). bad = [] \<and> wf_cache c) (read_cache_prices cache path field)"
  unfolding read_cache_prices_def
  apply (rule reads_bind [OF reads_write])
  apply (simp only: split_beta)
  apply (rule reads_bind [OF reads_price])
  apply (simp only: split_beta)
  apply (rule reads_bind [OF reads_price])
  apply (auto simp: wf_cache_def intro!: reads_return)
  done

lemma reads_cache [reading_rules]: "reads units (\<lambda>(c, e, bad). bad = [] \<and> wf_caches c e) (read_cache raw path)"
  unfolding read_cache_def
proof (rule reads_bind [OF reads_mapping], goal_cases)
  case (1 cache)
  show ?case
  proof (cases cache)
    case None
    then show ?thesis by (auto simp: wf_caches_def intro: reads_return)
  next
    case (Some obj)
    let ?P = "\<lambda>(c, e, bad). bad = [] \<and> wf_caches c e"
    have inner: "reads units (\<lambda>y. (case prices of (p, bad) \<Rightarrow> bad = [] \<and> wf_cache p) \<longrightarrow> ?P y)
        (case prices of (p, bad) \<Rightarrow> (case explicit of
             None \<Rightarrow> State_Monad.return (Some p, None, bad)
           | Some inner \<Rightarrow> do {
               (explicit_prices, bad_explicit) \<leftarrow>
                 read_cache_prices inner (dotted (dotted path ''cache'') ''explicit'') ''cache.explicit'';
               State_Monad.return (Some p, Some explicit_prices, bad @ bad_explicit) }))"
      for prices and explicit :: "json_object option"
      by (cases explicit; cases prices)
        (auto simp: wf_caches_def split: prod.split intro!: reads_return reads_bind [OF reads_cache_prices])
    show ?thesis
      unfolding Some
      by simp (rule reads_bind [OF reads_mapping], simp, rule reads_bind [OF reads_cache_prices], rule inner)
  qed
qed

lemma reads_override: "reads units (\<lambda>p. case p of None \<Rightarrow> True | Some q \<Rightarrow> wf_override q) (read_override raw path)"
  unfolding read_override_def
  apply (rule reads_bind [OF reads_condition])
  apply (rule reads_bind [OF reads_price], simp only: split_beta)
  apply (rule reads_bind [OF reads_price], simp only: split_beta)
  apply (rule reads_bind [OF reads_cache], simp only: split_beta)
  apply (auto simp: wf_override_def intro!: reads_return split: option.split)
  done

lemma reads_unknown: "reads units (\<lambda>_. case u of None \<Rightarrow> True | Some name \<Rightarrow> name \<in> set units) (add_unknown_unit u)"
  by (auto simp: reads_def add_unknown_unit_def notes_grow_def clean_def split: option.splits if_splits)

lemma reads_unit_price [reading_rules]: "reads units (wf_price units) (read_unit_price raw name path)"
  unfolding read_unit_price_def
proof (rule reads_bind [OF reads_mapping], goal_cases)
  case (1 entry)
  show ?case
  proof (cases entry)
    case None
    then show ?thesis by (simp add: wf_price_def reads_return)
  next
    case (Some obj)
    show ?thesis
      unfolding Some option.case
      apply (rule reads_bind [OF reads_price], simp only: split_beta)
      apply (rule reads_bind [OF reads_price], simp only: split_beta)
      apply (rule reads_bind [OF reads_cache], simp only: split_beta)
      apply (rule reads_bind [OF reads_objects [OF reads_override]])
      apply (rule reads_bind [OF reads_text])
      apply (rule reads_bind [OF reads_unknown])
      apply (auto simp: wf_price_def wf_unit_price_def list_all_iff intro!: reads_return split: option.splits)
      done
  qed
qed

lemma wf_modality_pair:
  "wf_modality units (key, m) \<longleftrightarrow> key \<notin> set not_modalities \<and> wf_price units (mo_input m) \<and> wf_price units (mo_output m)"
  by (simp add: wf_modality_def)

lemma reads_modalities: "reads units (list_all (wf_modality units)) (read_modalities path entries)"
proof (induction entries)
  case (Cons e entries)
  obtain key v where e: "e = (key, v)" by fastforce
  have object: "key \<notin> set not_modalities \<Longrightarrow> reads units (list_all (wf_modality units))
      (read_unit_price obj ''input'' loc \<bind> (\<lambda>inp. read_unit_price obj ''output'' loc \<bind> (\<lambda>outp.
        read_modalities path entries \<bind> (\<lambda>rest.
          State_Monad.return ((key, \<lparr> mo_input = inp, mo_output = outp \<rparr>) # rest)))))" for obj loc
    apply (rule reads_bind [OF reads_unit_price])
    apply (rule reads_bind [OF reads_unit_price])
    apply (rule reads_bind [OF Cons.IH])
    apply (auto simp: wf_modality_pair intro!: reads_return)
    done
  have other: "reads units (list_all (wf_modality units))
      (note_issue loc wanted \<bind> (\<lambda>_. read_modalities path entries))" for loc wanted
    by (rule reads_noted) (rule reads_conseq [OF Cons.IH], simp)
  show ?case using object other Cons.IH by (simp add: e split: json_value.split)
qed (simp add: reads_return)

lemma reads_multiplier: "reads units (\<lambda>_. True) (read_multiplier raw path)"
  unfolding read_multiplier_def
  by (rule reads_bind [OF reads_condition])
    (auto split: json_value.split intro: reads_return reads_final_note)

lemma reads_cost: "reads units (wf_pricing units) (cost_v2 cost path)"
  unfolding cost_v2_def
  apply (rule reads_bind [OF reads_modalities])
  apply (rule reads_bind [OF reads_objects [OF reads_multiplier]])
  apply (rule reads_bind [OF reads_unit_price])
  apply (auto simp: wf_pricing_def intro!: reads_return)
  done

lemma parsed_well_formed:
  assumes "parse_pricing units path raw = Inr (p, found)" "is_count found = 0" "is_unknown found = []"
  shows "wf_pricing units p"
proof -
  obtain cost s where "raw = JObject cost" "run_state (cost_v2 cost path) (new_reader units) = (p, s)" "clean s"
    using assms by (auto simp: parse_pricing_def clean_def split: json_value.splits prod.splits)
  moreover have "rd_known (new_reader units) = units" by (simp add: new_reader_def)
  ultimately show ?thesis using reads_cost [of units cost path] unfolding reads_def by blast
qed

section \<open>A well-formed block is what its document reads as\<close>

lemma field_of_Nil [simp]: "field_of [] k = JNull" by (simp add: field_of_def)

lemma field_of_Cons [simp]: "field_of ((k, v) # raw) name = (if name = k then v else field_of raw name)"
  by (auto simp: field_of_def)

lemma field_of_append [simp]:
  "field_of (opt_field k v @ raw) name = (if name = k \<and> v \<noteq> None then the v else field_of raw name)"
  by (cases v) auto

lemma field_of_opt [simp]: "field_of (opt_field k v) name = (if name = k \<and> v \<noteq> None then the v else JNull)"
  by (cases v) auto

lemmas written = number_field_def

lemma price_field_read:
  "field_of raw name = (case n of None \<Rightarrow> JNull | Some m \<Rightarrow> JNumber m)
    \<Longrightarrow> run_state (price_field raw name path field) s = ((n, []), s)"
  by (cases n) (simp_all add: price_field_def)

lemma mapping_read:
  "field_of raw name = (case v of None \<Rightarrow> JNull | Some obj \<Rightarrow> JObject obj)
    \<Longrightarrow> run_state (mapping_field raw name path) s = (v, s)"
  by (cases v) (simp_all add: mapping_field_def)

lemma text_read:
  "field_of raw name = (case v of None \<Rightarrow> JNull | Some t \<Rightarrow> JString t) \<Longrightarrow> v \<noteq> Some []
    \<Longrightarrow> run_state (text_field raw name path) s = (v, s)"
  by (cases v) (simp_all add: text_field_def)

lemma ttls_read: "run_state (read_ttls path field (map (map_prod id JNumber) ttls)) s = ((ttls, []), s)"
  by (induction ttls) auto

text \<open>The fields of a cache block, whatever stands after them under another name.\<close>

definition number_json :: "number option \<Rightarrow> json_value" where
  "number_json n = (case n of None \<Rightarrow> JNull | Some m \<Rightarrow> JNumber m)"

lemma cache_fields_get:
  "field_of others ''read'' = JNull \<Longrightarrow> field_of (cache_fields c @ others) ''read'' = number_json (kp_read c)"
  "field_of others ''storage'' = JNull \<Longrightarrow> field_of (cache_fields c @ others) ''storage'' = number_json (kp_storage c)"
  "field_of others ''write'' = JNull \<Longrightarrow> field_of (cache_fields c @ others) ''write'' =
     (if kp_ttls c = [] then number_json (kp_write c) else JObject (map (map_prod id JNumber) (kp_ttls c)))"
  "field_of (cache_fields c @ others) ''explicit'' = field_of others ''explicit''"
  by (cases "kp_read c"; cases "kp_ttls c"; cases "kp_write c"; cases "kp_storage c";
      simp add: cache_fields_def written number_json_def)+

lemma cache_fields_read:
  assumes "wf_cache c" "field_of others ''read'' = JNull" "field_of others ''storage'' = JNull" "field_of others ''write'' = JNull"
  shows "run_state (read_cache_prices (cache_fields c @ others) path field) s = ((c, []), s)"
proof -
  let ?raw = "cache_fields c @ others"
  have read: "run_state (price_field ?raw ''read'' q f) s = ((kp_read c, []), s)"
    and storage: "run_state (price_field ?raw ''storage'' q f) s = ((kp_storage c, []), s)" for q f s
    using assms(2,3) by (auto intro!: price_field_read simp: cache_fields_get number_json_def)
  have first: "run_state (read_write ?raw q f) s = ((kp_write c, kp_ttls c, []), s)" for q f s
  proof (cases "kp_ttls c")
    case Nil
    then show ?thesis
      by (cases "kp_write c") (simp_all add: read_write_def price_field_def cache_fields_get(3) [OF assms(4)] number_json_def)
  next
    case (Cons t ts)
    then have "field_of ?raw ''write'' = JObject (map (map_prod id JNumber) (kp_ttls c))"
      using cache_fields_get(3) [OF assms(4)] by simp
    moreover have "kp_write c = Some (snd t)" using assms(1) Cons by (simp add: wf_cache_def)
    ultimately show ?thesis
      using ttls_read [of q f ts s] by (cases t) (simp add: read_write_def Cons)
  qed
  show ?thesis by (simp add: read_cache_prices_def first read storage)
qed

definition caches_hold :: "cache_prices option \<Rightarrow> cache_prices option \<Rightarrow> bool" where
  "caches_hold cache explicit \<longleftrightarrow> (cache \<noteq> None \<and> explicit = None \<longrightarrow> cache_document cache \<noteq> [])"

lemma cache_read:
  assumes "wf_caches cache explicit" "caches_hold cache explicit"
    "field_of raw ''cache'' = field_of (cache_entry cache explicit) ''cache''"
  shows "run_state (read_cache raw path) s = ((cache, explicit, []), s)"
proof (cases cache)
  case None
  then have "explicit = None" using assms(1) by (simp add: wf_caches_def)
  with None assms(3) have "field_of raw ''cache'' = JNull" by (simp add: cache_entry_def cache_document_def)
  with None \<open>explicit = None\<close> show ?thesis by (simp add: read_cache_def mapping_field_def)
next
  case (Some c)
  show ?thesis
  proof (cases explicit)
    case None
    have "field_of raw ''cache'' = JObject (cache_fields c)"
      using assms(2,3) Some None by (simp add: cache_entry_def cache_document_def caches_hold_def)
    then show ?thesis
      using cache_fields_read [of c "[]"] cache_fields_get(4) [of c "[]"] assms(1) Some None
      by (simp add: read_cache_def mapping_field_def wf_caches_def)
  next
    case (Some e)
    note explicit = this
    let ?raw = "cache_fields c @ [(''explicit'', JObject (cache_fields e))]"
    have raw: "field_of raw ''cache'' = JObject ?raw"
      using assms(3) \<open>cache = Some c\<close> explicit by (simp add: cache_entry_def cache_document_def)
    have wf: "wf_cache c" "wf_cache e" using assms(1) \<open>cache = Some c\<close> explicit by (auto simp: wf_caches_def)
    have prices: "run_state (read_cache_prices ?raw q f) s = ((c, []), s)" for q f s
      by (rule cache_fields_read [OF wf(1)]) simp_all
    have inner: "run_state (read_cache_prices (cache_fields e) q f) s = ((e, []), s)" for q f s
      using cache_fields_read [OF wf(2), of "[]"] by simp
    have "run_state (mapping_field ?raw ''explicit'' q) s = (Some (cache_fields e), s)" for q s
      by (simp add: mapping_field_def cache_fields_get(4))
    then show ?thesis
      using \<open>cache = Some c\<close> explicit raw by (simp add: read_cache_def mapping_field_def prices inner)
  qed
qed

definition override_holds :: "price_override \<Rightarrow> bool" where
  "override_holds p \<longleftrightarrow> caches_hold (ov_cache p) (ov_explicit p)"

definition unit_price_holds :: "unit_price \<Rightarrow> bool" where
  "unit_price_holds p \<longleftrightarrow> caches_hold (pc_cache p) (pc_explicit p) \<and> list_all override_holds (pc_overrides p)"

definition price_holds :: "unit_price option \<Rightarrow> bool" where
  "price_holds p = (case p of None \<Rightarrow> True | Some u \<Rightarrow> unit_price_holds u)"

text \<open>Every cache block of the prices holds something; an empty one has no trace in the document.\<close>

definition pricing_holds :: "pricing \<Rightarrow> bool" where
  "pricing_holds p \<longleftrightarrow> list_all (\<lambda>(key, m). price_holds (mo_input m) \<and> price_holds (mo_output m)) (bp_modalities p)
     \<and> price_holds (bp_web_search p)"

lemma cache_entry_other: "name \<noteq> ''cache'' \<Longrightarrow> field_of (cache_entry cache explicit @ raw) name = field_of raw name"
  by (simp add: cache_entry_def Let_def)

lemma cache_entry_own: "field_of raw ''cache'' = JNull \<Longrightarrow>
    field_of (cache_entry cache explicit @ raw) ''cache'' = field_of (cache_entry cache explicit) ''cache''"
  by (simp add: cache_entry_def Let_def)

lemma override_read:
  assumes "wf_override p" "override_holds p"
  shows "run_state (read_override (override_document p) path) s = (Some p, s)"
proof -
  have "run_state (price_field (override_document p) ''price'' q f) s = ((ov_price p, []), s)"
    "run_state (price_field (override_document p) ''reasoning'' q f) s = ((ov_reasoning p, []), s)" for q f s
    using cache_entry_other [of _ "ov_cache p" "ov_explicit p" "[]"]
    by (auto intro!: price_field_read simp: override_document_def written split: option.splits)
  moreover have "run_state (read_cache (override_document p) q) s = ((ov_cache p, ov_explicit p, []), s)" for q s
    using assms by (intro cache_read)
      (auto simp: wf_override_def override_holds_def override_document_def written)
  moreover have "ov_malformed p = []" using assms(1) by (simp add: wf_override_def)
  ultimately show ?thesis
    by (simp add: read_override_def condition_def) (simp add: override_document_def)
qed

lemma items_read:
  assumes "\<forall>x\<in>set xs. \<forall>loc s. run_state (rd (doc x) loc) s = (f x, s)"
  shows "run_state (read_items rd path n (map (\<lambda>x. JObject (doc x)) xs)) s = (map f xs, s)"
  using assms by (induction xs arbitrary: n) auto

lemma objects_read:
  assumes "\<forall>x\<in>set xs. \<forall>loc s. run_state (rd (doc x) loc) s = (f x, s)"
    "field_of raw name = (if xs = [] then JNull else JList (map (\<lambda>x. JObject (doc x)) xs))"
  shows "run_state (read_objects rd raw name path) s = (map f xs, s)"
  using items_read [OF assms(1)] assms(2) by (auto simp: read_objects_def)

lemma unit_price_fields:
  fixes p
  defines "raw \<equiv> unit_price_document p"
  shows "field_of raw ''price'' = number_json (pc_price p)"
    "field_of raw ''reasoning'' = number_json (pc_reasoning p)"
    "field_of raw ''unit'' = (case pc_unit p of None \<Rightarrow> JNull | Some t \<Rightarrow> JString t)"
    "field_of raw ''cache'' = field_of (cache_entry (pc_cache p) (pc_explicit p)) ''cache''"
    "field_of raw ''overrides'' = (if pc_overrides p = [] then JNull
       else JList (map (\<lambda>v. JObject (override_document v)) (pc_overrides p)))"
  by (simp_all add: raw_def unit_price_document_def written number_json_def cache_entry_other cache_entry_own
      cache_entry_other [of _ _ _ "[]", simplified] split: option.split)

lemma unit_price_read:
  assumes "field_of raw name = (case p of None \<Rightarrow> JNull | Some u \<Rightarrow> JObject (unit_price_document u))"
    "wf_price (rd_known s) p" "price_holds p"
  shows "run_state (read_unit_price raw name path) s = (p, s)"
proof (cases p)
  case None
  then show ?thesis using assms(1) by (simp add: read_unit_price_def mapping_field_def)
next
  case (Some u)
  let ?doc = "unit_price_document u"
  have wf: "wf_unit_price (rd_known s) u" "unit_price_holds u"
    using assms(2,3) Some by (simp_all add: wf_price_def price_holds_def)
  have prices: "run_state (price_field ?doc ''price'' q f) s = ((pc_price u, []), s)"
    "run_state (price_field ?doc ''reasoning'' q f) s = ((pc_reasoning u, []), s)" for q f s
    by (rule price_field_read, simp add: unit_price_fields number_json_def)+
  have cache: "run_state (read_cache ?doc q) s = ((pc_cache u, pc_explicit u, []), s)" for q s
    using wf by (intro cache_read) (auto simp: wf_unit_price_def unit_price_holds_def unit_price_fields)
  have overrides: "run_state (read_objects read_override ?doc ''overrides'' q) s = (map Some (pc_overrides u), s)" for q s
    using wf by (intro objects_read [where doc = override_document])
      (auto simp: wf_unit_price_def unit_price_holds_def unit_price_fields list_all_iff intro!: override_read)
  have texts: "run_state (text_field ?doc ''unit'' q) s = (pc_unit u, s)" for q s
    using wf by (intro text_read) (auto simp: unit_price_fields wf_unit_price_def split: option.splits)
  have unit: "run_state (add_unknown_unit (pc_unit u)) s = ((), s)"
    using wf(1) by (auto simp: add_unknown_unit_def wf_unit_price_def split: option.splits)
  have collected: "concat (map opt_list (map Some xs)) = xs" for xs :: "price_override list" by (induction xs) auto
  have doc: "field_of raw name = JObject ?doc" using assms(1) Some by simp
  show ?thesis
    using Some wf(1)
    by (simp add: read_unit_price_def mapping_field_def doc prices cache overrides texts unit collected wf_unit_price_def
        del: map_map)
qed

lemma multiplier_read: "run_state (read_multiplier (multiplier_document m) loc) s = (Some m, s)"
  by (cases m; cases "mx_factor m") (auto simp: read_multiplier_def multiplier_document_def condition_def)

lemma price_entry_get:
  "field_of (price_entry k p @ raw) name =
    (if name = k \<and> p \<noteq> None then JObject (unit_price_document (the p)) else field_of raw name)"
  by (cases p) (simp_all add: price_entry_def)

lemma modalities_read:
  assumes "list_all (wf_modality (rd_known s)) ms"
    "list_all (\<lambda>(key, m). price_holds (mo_input m) \<and> price_holds (mo_output m)) ms"
    "set (map fst others) \<subseteq> set not_modalities"
  shows "run_state (read_modalities path (map (\<lambda>(key, m). (key, JObject (modality_document m))) ms @ others)) s = (ms, s)"
  using assms
proof (induction ms)
  case Nil
  then show ?case by (induction others) auto
next
  case (Cons e ms)
  obtain key m where e: "e = (key, m)" by fastforce
  have "run_state (read_unit_price (modality_document m) ''input'' loc) s = (mo_input m, s)"
    "run_state (read_unit_price (modality_document m) ''output'' loc) s = (mo_output m, s)" for loc
    using Cons.prems(1,2) price_entry_get [of _ _ "[]"]
    by (auto intro!: unit_price_read simp: e wf_modality_def modality_document_def price_entry_get split: option.splits)
  moreover have "key \<notin> set not_modalities" using Cons.prems(1) by (simp add: e wf_modality_def)
  ultimately show ?case using Cons by (simp add: e)
qed

definition no_issues :: issues where
  "no_issues = \<lparr> is_count = 0, is_examples = [], is_models = 1, is_damaged = 0, is_unknown = [] \<rparr>"

lemma modalities_hide:
  assumes "list_all (wf_modality units) ms" "name \<in> set not_modalities"
  shows "field_of (map (\<lambda>(key, m). (key, JObject (modality_document m))) ms @ others) name = field_of others name"
  using assms by (induction ms) (auto simp: wf_modality_def)

lemma document_read:
  assumes "wf_pricing units p" "pricing_holds p"
  shows "parse_pricing units path (JObject (pricing_document p)) = Inr (p, no_issues)"
proof -
  let ?s = "new_reader units" and ?doc = "pricing_document p"
  have known: "rd_known ?s = units" by (simp add: new_reader_def)
  have ms: "list_all (wf_modality units) (bp_modalities p)" "wf_price units (bp_web_search p)"
    using assms(1) by (simp_all add: wf_pricing_def)
  have hold: "list_all (\<lambda>(key, m). price_holds (mo_input m) \<and> price_holds (mo_output m)) (bp_modalities p)"
    "price_holds (bp_web_search p)"
    using assms(2) by (simp_all add: pricing_holds_def)
  have "run_state (read_modalities path ?doc) ?s = (bp_modalities p, ?s)"
    unfolding pricing_document_def
    by (rule modalities_read) (use known ms(1) hold(1) in \<open>auto simp: price_entry_def not_modalities_def split: option.splits\<close>,
        cases "bp_web_search p", auto)
  moreover have "run_state (read_objects read_multiplier ?doc ''multipliers'' path) ?s = (map Some (bp_multipliers p), ?s)"
    by (rule objects_read [where doc = multiplier_document])
      (simp_all add: multiplier_read pricing_document_def modalities_hide [OF ms(1)] not_modalities_def price_entry_get)
  moreover have "run_state (read_unit_price ?doc ''web_search'' path) ?s = (bp_web_search p, ?s)"
    using ms(2) hold(2) known
    by (intro unit_price_read)
      (auto simp: pricing_document_def modalities_hide [OF ms(1)] not_modalities_def price_entry_get split: option.split)
  moreover have "concat (map opt_list (map Some xs)) = xs" for xs :: "multiplier list" by (induction xs) auto
  ultimately have "run_state (cost_v2 ?doc path) ?s = (p, ?s)" by (simp add: cost_v2_def del: map_map)
  then show ?thesis by (simp add: parse_pricing_def no_issues_def) (simp add: new_reader_def)
qed

end
