(* ===== verification/Price_Rates.thy ===== *)
theory Price_Rates
  imports Models_Dev_Laws
begin

text \<open>
  A stored rate as a \<open>cost\<close> block and the rate columns as its view, \<open>types/price_rates.py\<close>: the block written
  for columns, the columns read out of any block, and a block kept up to date with columns that move.

  A \<open>Decimal\<close> is a rational; the prices are of at most 28 digits, where the scaling is exact. The rates of a
  tier are kept as floats: \<open>via_float\<close>, a parameter, is the decimal that the nearest float prints as.
\<close>

section \<open>Columns\<close>

record tier_columns =
  tc_min_input :: int
  tc_input :: "rat option"
  tc_output :: "rat option"
  tc_cache_read :: "rat option"
  tc_cache_write :: "rat option"

record rate_columns =
  rc_unit :: PriceUnit
  rc_input :: rat
  rc_output :: rat
  rc_cache_read :: "rat option"
  rc_cache_write :: "rat option"
  rc_tiers :: "tier_columns list"

datatype direction = Given_Input | Given_Output

text \<open>Where the column rates of a unit sit: the modality, the direction of the first rate and of the second.\<close>

record slot =
  sl_modality :: "string option"
  sl_given :: direction
  sl_made :: "direction option"

definition two_way :: "string \<Rightarrow> slot" where
  "two_way modality = \<lparr> sl_modality = Some modality, sl_given = Given_Input, sl_made = Some Given_Output \<rparr>"

definition one_way :: "string \<Rightarrow> slot" where
  "one_way modality = \<lparr> sl_modality = Some modality, sl_given = Given_Output, sl_made = None \<rparr>"

definition web_slot :: slot where
  "web_slot = \<lparr> sl_modality = None, sl_given = Given_Input, sl_made = None \<rparr>"

fun unit_slot :: "PriceUnit \<Rightarrow> slot" where
  "unit_slot UToken = two_way ''text''"
| "unit_slot UCharacter = two_way ''text''"
| "unit_slot URequest = two_way ''text''"
| "unit_slot UImage = one_way ''image''"
| "unit_slot UMegapixel = one_way ''image''"
| "unit_slot USecond = two_way ''audio''"
| "unit_slot UMinute = two_way ''audio''"
| "unit_slot UWebSearch = web_slot"

definition read_order :: "slot list" where
  "read_order = [two_way ''text'', one_way ''image'', two_way ''audio'', one_way ''video'', web_slot]"

definition per_column :: "PriceUnit \<Rightarrow> rat" where
  "per_column u = PRICE_PER u / 1000000"

section \<open>The block of columns\<close>

definition published :: "rat option \<Rightarrow> rat \<Rightarrow> number option" where
  "published column per = map_option (\<lambda>c. Fraction (c * per)) column"

definition cache_of :: "rat option \<Rightarrow> rat option \<Rightarrow> rat \<Rightarrow> cache_prices option" where
  "cache_of rd wr per = (if rd = None \<and> wr = None then None
     else Some \<lparr> kp_read = published rd per, kp_write = published wr per, kp_ttls = [], kp_storage = None \<rparr>)"

definition tier_when :: "tier_columns \<Rightarrow> json_object" where
  "tier_when t = [(''context'', JObject [(''gte'', JNumber (Whole (tc_min_input t)))])]"

definition given_override :: "rat \<Rightarrow> tier_columns \<Rightarrow> price_override list" where
  "given_override per t =
     (let cache = cache_of (tc_cache_read t) (tc_cache_write t) per; price = published (tc_input t) per in
      if price = None \<and> cache = None then []
      else [\<lparr> ov_when = tier_when t, ov_price = price, ov_reasoning = None, ov_cache = cache, ov_explicit = None,
              ov_malformed = [] \<rparr>])"

definition made_override :: "rat \<Rightarrow> tier_columns \<Rightarrow> price_override list" where
  "made_override per t = (case published (tc_output t) per of
       None \<Rightarrow> []
     | Some price \<Rightarrow> [\<lparr> ov_when = tier_when t, ov_price = Some price, ov_reasoning = None, ov_cache = None,
         ov_explicit = None, ov_malformed = [] \<rparr>])"

definition column_price :: "PriceUnit \<Rightarrow> rat \<Rightarrow> cache_prices option \<Rightarrow> price_override list \<Rightarrow> unit_price" where
  "column_price u price cache overrides = \<lparr> pc_price = Some (Fraction price), pc_unit = Some (unit_name u),
     pc_reasoning = None, pc_cache = cache, pc_explicit = None, pc_overrides = overrides, pc_malformed = [] \<rparr>"

definition given_price :: "rate_columns \<Rightarrow> unit_price" where
  "given_price c = (let per = per_column (rc_unit c) in
     column_price (rc_unit c) (rc_input c * per) (cache_of (rc_cache_read c) (rc_cache_write c) per)
       (concat (map (given_override per) (rc_tiers c))))"

definition made_price :: "rate_columns \<Rightarrow> unit_price" where
  "made_price c = (let per = per_column (rc_unit c) in
     column_price (rc_unit c) (rc_output c * per) None (concat (map (made_override per) (rc_tiers c))))"

definition slot_modality :: "slot \<Rightarrow> unit_price \<Rightarrow> unit_price option \<Rightarrow> modality_cost" where
  "slot_modality sl given made =
     (let prices = (\<lambda>d. if sl_given sl = d then Some given else if sl_made sl = Some d then made else None) in
      \<lparr> mo_input = prices Given_Input, mo_output = prices Given_Output \<rparr>)"

definition columns_pricing :: "rate_columns \<Rightarrow> pricing" where
  "columns_pricing c = (let sl = unit_slot (rc_unit c) in
     case sl_modality sl of
       None \<Rightarrow> \<lparr> bp_modalities = [], bp_web_search = Some (given_price c), bp_multipliers = [] \<rparr>
     | Some modality \<Rightarrow> \<lparr> bp_modalities = [(modality, slot_modality sl (given_price c)
           (if sl_made sl = None then None else Some (made_price c)))],
         bp_web_search = None, bp_multipliers = [] \<rparr>)"

definition rates_from_columns :: "rate_columns \<Rightarrow> json_object" where
  "rates_from_columns c = pricing_document (columns_pricing c)"

section \<open>The columns of a block\<close>

datatype rates_error =
    Cannot_Be_Read "string list"
  | Unknown_Units "string list"
  | Two_Units "string option"
  | Does_Not_Fit rat
  | Too_Small rat
  | Nothing_To_Hold
  | Not_A_Block

text \<open>\<open>quantize\<close> to eight decimals rounds half to even.\<close>

definition quantize_column :: "rat \<Rightarrow> rat" where
  "quantize_column x = (let y = x * 100000000; f = \<lfloor>y\<rfloor>; r = y - of_int f in
     of_int (if r < 1 / 2 then f else if r > 1 / 2 then f + 1 else if even f then f else f + 1) / 100000000)"

definition column_limit :: rat where
  "column_limit = 10000000000"

definition column_of :: "number option \<Rightarrow> rat \<Rightarrow> rates_error + rat option" where
  "column_of price per = (case price of
       None \<Rightarrow> Inr None
     | Some n \<Rightarrow> (let column = quantize_column (number_value n / per) in
         if \<not> (0 \<le> column \<and> column < column_limit) then Inl (Does_Not_Fit (number_value n))
         else if column = 0 \<and> 0 < number_value n then Inl (Too_Small (number_value n))
         else Inr (Some column)))"

definition tier_column :: "(rat \<Rightarrow> rat) \<Rightarrow> rat \<Rightarrow> md_tier \<Rightarrow> rates_error + tier_columns" where
  "tier_column via_float per t =
     bind_result (column_of (rt_input (ti_rates t)) per) (\<lambda>i.
     bind_result (column_of (rt_output (ti_rates t)) per) (\<lambda>u.
     bind_result (column_of (rt_cache_read (ti_rates t)) per) (\<lambda>r.
     bind_result (column_of (rt_cache_write (ti_rates t)) per) (\<lambda>w.
     Inr \<lparr> tc_min_input = the (ti_size t), tc_input = map_option via_float i, tc_output = map_option via_float u,
       tc_cache_read = map_option via_float r, tc_cache_write = map_option via_float w \<rparr>))))"

fun tier_columns_of :: "(rat \<Rightarrow> rat) \<Rightarrow> rat \<Rightarrow> md_tier list \<Rightarrow> rates_error + tier_columns list" where
  "tier_columns_of via_float per [] = Inr []"
| "tier_columns_of via_float per (t # ts) =
     bind_result (tier_column via_float per t) (\<lambda>c. bind_result (tier_columns_of via_float per ts) (\<lambda>cs. Inr (c # cs)))"

definition or_no_rate :: "rat option \<Rightarrow> rat" where
  "or_no_rate c = (case c of None \<Rightarrow> 0 | Some x \<Rightarrow> x)"

definition columns_of_cost :: "(rat \<Rightarrow> rat) \<Rightarrow> md_cost \<Rightarrow> PriceUnit \<Rightarrow> rates_error + rate_columns" where
  "columns_of_cost via_float cost u = (let per = per_column u in
     bind_result (column_of (rt_input (co_rates cost)) per) (\<lambda>i.
     bind_result (column_of (rt_output (co_rates cost)) per) (\<lambda>m.
     bind_result (column_of (rt_cache_read (co_rates cost)) per) (\<lambda>r.
     bind_result (column_of (rt_cache_write (co_rates cost)) per) (\<lambda>w.
     bind_result (tier_columns_of via_float per (co_tiers cost)) (\<lambda>ts.
     Inr \<lparr> rc_unit = u, rc_input = or_no_rate i, rc_output = or_no_rate m, rc_cache_read = r, rc_cache_write = w,
       rc_tiers = ts \<rparr>))))))"

definition slot_side :: "modality_cost \<Rightarrow> direction \<Rightarrow> unit_price option" where
  "slot_side m d = (case d of Given_Input \<Rightarrow> mo_input m | Given_Output \<Rightarrow> mo_output m)"

definition prices_in :: "pricing \<Rightarrow> slot \<Rightarrow> unit_price option \<times> unit_price option" where
  "prices_in p sl = (case sl_modality sl of
       None \<Rightarrow> (bp_web_search p, None)
     | Some modality \<Rightarrow> (case map_of (bp_modalities p) modality of
         None \<Rightarrow> (None, None)
       | Some m \<Rightarrow> (slot_side m (sl_given sl), Option.bind (sl_made sl) (slot_side m))))"

definition unit_of :: "unit_price \<Rightarrow> string" where
  "unit_of p = (case pc_unit p of None \<Rightarrow> ''token'' | Some u \<Rightarrow> u)"

definition unit_named :: "string \<Rightarrow> PriceUnit option" where
  "unit_named name = find (\<lambda>u. unit_name u = name) PRICE_UNITS"

definition in_a_unit :: "unit_price \<Rightarrow> bool" where
  "in_a_unit p \<longleftrightarrow> pc_price p \<noteq> None \<or> (pc_unit p \<noteq> None \<and> pc_unit p \<noteq> Some []) \<or> pc_cache p \<noteq> None"

text \<open>The unit is a known one: a block with another is refused before.\<close>

fun columns_from_slots :: "(rat \<Rightarrow> rat) \<Rightarrow> pricing \<Rightarrow> slot list \<Rightarrow> rates_error + rate_columns" where
  "columns_from_slots via_float p [] = Inl Nothing_To_Hold"
| "columns_from_slots via_float p (sl # slots) =
     (let (given, made) = prices_in p sl;
          sides = opt_list given @ opt_list made in
      case filter (\<lambda>x. pc_price x \<noteq> None) sides of
        [] \<Rightarrow> columns_from_slots via_float p slots
      | first # _ \<Rightarrow>
          if \<exists>x\<in>set (filter in_a_unit sides). unit_of x \<noteq> unit_of first then Inl (Two_Units (sl_modality sl))
          else columns_of_cost via_float (direction_cost given made) (the (unit_named (unit_of first))))"

definition columns_from_pricing :: "(rat \<Rightarrow> rat) \<Rightarrow> pricing \<Rightarrow> rates_error + rate_columns" where
  "columns_from_pricing via_float p = columns_from_slots via_float p read_order"

definition unit_names :: "string list" where
  "unit_names = map unit_name PRICE_UNITS"

definition columns_from_rates :: "(rat \<Rightarrow> rat) \<Rightarrow> json_object \<Rightarrow> rates_error + rate_columns" where
  "columns_from_rates via_float document = (case parse_pricing unit_names ''rates'' (JObject document) of
       Inl e \<Rightarrow> Inl Not_A_Block
     | Inr (p, found) \<Rightarrow>
         if is_count found \<noteq> 0 then Inl (Cannot_Be_Read (is_examples found))
         else if is_unknown found \<noteq> [] then Inl (Unknown_Units (is_unknown found))
         else columns_from_pricing via_float p)"

section \<open>A block kept up to date with its columns\<close>

definition json_set :: "json_object \<Rightarrow> string \<Rightarrow> json_value \<Rightarrow> json_object" where
  "json_set obj key v = (if key \<in> set (map fst obj) then map (\<lambda>(k, old). if k = key then (k, v) else (k, old)) obj
     else obj @ [(key, v)])"

definition json_update :: "json_object \<Rightarrow> json_object \<Rightarrow> json_object" where
  "json_update obj others = foldl (\<lambda>o1 (k, v). json_set o1 k v) obj others"

definition without_keys :: "string list \<Rightarrow> json_object \<Rightarrow> json_object" where
  "without_keys keys obj = filter (\<lambda>(k, v). k \<notin> set keys) obj"

text \<open>What Python takes for false.\<close>

definition falsy :: "json_value \<Rightarrow> bool" where
  "falsy v = (case v of JNull \<Rightarrow> True | JBool b \<Rightarrow> \<not> b | JNumber n \<Rightarrow> number_value n = 0 | JString s \<Rightarrow> s = []
     | JList xs \<Rightarrow> xs = [] | JObject obj \<Rightarrow> obj = [])"

text \<open>Not an object where one is used: an \<open>AttributeError\<close>, or a \<open>TypeError\<close> of what cannot be iterated.\<close>

datatype merge_error = Attribute_Error | Not_Iterable

fun on_context :: "json_value \<Rightarrow> merge_error + bool" where
  "on_context (JObject obj) = (case field_of obj ''when'' of
       JObject wh \<Rightarrow> Inr (set (map fst wh) = {''context''})
     | _ \<Rightarrow> Inr False)"
| "on_context v = Inl Attribute_Error"

fun kept_overrides :: "json_value list \<Rightarrow> merge_error + json_value list" where
  "kept_overrides [] = Inr []"
| "kept_overrides (v # vs) = bind_result (on_context v) (\<lambda>gone. bind_result (kept_overrides vs) (\<lambda>kept.
     Inr (if gone then kept else v # kept)))"

definition list_field :: "json_object \<Rightarrow> string \<Rightarrow> merge_error + json_value list" where
  "list_field obj name = (let v = field_of obj name in
     if falsy v then Inr [] else case v of
       JList vs \<Rightarrow> Inr vs
     | JObject entries \<Rightarrow> Inr (map (\<lambda>(k, w). JString k) entries)
     | JString s \<Rightarrow> Inr (map (\<lambda>c. JString [c]) s)
     | _ \<Rightarrow> Inl Not_Iterable)"

definition object_field :: "json_object \<Rightarrow> string \<Rightarrow> merge_error + json_object" where
  "object_field obj name = (let v = field_of obj name in
     if falsy v then Inr [] else case v of JObject entries \<Rightarrow> Inr entries | _ \<Rightarrow> Inl Attribute_Error)"

definition or_token :: "json_value \<Rightarrow> json_value" where
  "or_token v = (if falsy v then JString ''token'' else v)"

definition merged_price :: "json_value \<Rightarrow> json_object \<Rightarrow> merge_error + json_object" where
  "merged_price old fresh =
     (if falsy old then Inr fresh
      else case old of
        JObject obj \<Rightarrow>
          if or_token (field_of obj ''unit'') \<noteq> or_token (field_of fresh ''unit'') then Inr fresh
          else bind_result (object_field obj ''cache'') (\<lambda>old_cache.
            bind_result (object_field fresh ''cache'') (\<lambda>fresh_cache.
            bind_result (list_field obj ''overrides'') (\<lambda>old_overrides.
            bind_result (kept_overrides old_overrides) (\<lambda>kept.
            bind_result (list_field fresh ''overrides'') (\<lambda>fresh_overrides.
              let base = json_update (without_keys [''price'', ''unit''] obj)
                    (filter (\<lambda>(k, v). k \<in> {''price'', ''unit''}) fresh);
                  cache = json_update (without_keys [''read'', ''write''] old_cache) fresh_cache;
                  cached = without_keys [''cache''] base @ (if cache = [] then [] else [(''cache'', JObject cache)]);
                  overrides = kept @ fresh_overrides in
              Inr (without_keys [''overrides''] cached
                @ (if overrides = [] then [] else [(''overrides'', JList overrides)])))))))
      | _ \<Rightarrow> Inl Attribute_Error)"

fun object_or_none :: "json_value \<Rightarrow> json_value" where
  "object_or_none (JObject obj) = JObject obj"
| "object_or_none v = JNull"

fun object_or_empty :: "json_value \<Rightarrow> json_object" where
  "object_or_empty (JObject obj) = obj"
| "object_or_empty v = []"

fun merge_directions :: "json_object \<Rightarrow> json_object \<Rightarrow> merge_error + json_object" where
  "merge_directions kept [] = Inr kept"
| "merge_directions kept ((d, price) # others) =
     bind_result (merged_price (field_of kept d) (object_or_empty price)) (\<lambda>p.
       merge_directions (json_set kept d (JObject p)) others)"

fun merge_block :: "json_object \<Rightarrow> json_object \<Rightarrow> json_object \<Rightarrow> merge_error + json_object" where
  "merge_block block merged [] = Inr merged"
| "merge_block block merged ((key, prices) # others) =
     (if key = ''web_search'' then
        bind_result (merged_price (object_or_none (field_of block key)) (object_or_empty prices)) (\<lambda>p.
          merge_block block (json_set merged key (JObject p)) others)
      else bind_result (merge_directions (object_or_empty (field_of block key)) (object_or_empty prices)) (\<lambda>kept.
          merge_block block (json_set merged key (JObject kept)) others))"

definition same_rates :: "rate_columns \<Rightarrow> rate_columns \<Rightarrow> bool" where
  "same_rates a b \<longleftrightarrow> rc_input a = rc_input b \<and> rc_output a = rc_output b
     \<and> rc_cache_read a = rc_cache_read b \<and> rc_cache_write a = rc_cache_write b"

definition rates_with_columns ::
  "(rat \<Rightarrow> rat) \<Rightarrow> json_object option \<Rightarrow> rate_columns \<Rightarrow> merge_error + json_object" where
  "rates_with_columns via_float block c = (let fresh = rates_from_columns c in
     case block of
       None \<Rightarrow> Inr fresh
     | Some b \<Rightarrow> if b = [] then Inr fresh
         else bind_result (merge_block b b fresh) (\<lambda>merged. case columns_from_rates via_float merged of
             Inl e \<Rightarrow> Inr fresh
           | Inr r \<Rightarrow> Inr (if same_rates r c \<and> rc_unit r = rc_unit c then merged else fresh)))"

end
