(* ===== verification/Price_Rates_Laws.thy ===== *)
theory Price_Rates_Laws
  imports Price_Rates
begin

text \<open>
  Columns and blocks: columns that fit read back out of the block written for them as they were, and a block
  brought up to date with columns reads back as those columns, keeping every price of another slot.
\<close>

section \<open>One rate\<close>

definition fits :: "rat \<Rightarrow> bool" where
  "fits x \<longleftrightarrow> 0 \<le> x \<and> x < column_limit \<and> of_int \<lfloor>x * 100000000\<rfloor> = x * 100000000"

lemma quantize_fits:
  assumes "fits x"
  shows "quantize_column x = x"
proof -
  obtain n where n: "x * 100000000 = of_int n" using assms unfolding fits_def by metis
  then have "quantize_column x = of_int n / 100000000" unfolding quantize_column_def Let_def n by simp
  also have "\<dots> = x" using n by (metis nonzero_mult_div_cancel_right zero_neq_numeral)
  finally show ?thesis .
qed

lemma per_column_pos [simp]: "0 < per_column u"
  by (cases u) (simp_all add: per_column_def)

lemma column_published:
  assumes "fits x" "0 < per"
  shows "column_of (Some (Fraction (x * per))) per = Inr (Some x)"
proof -
  have "x * per / per = x" using assms(2) by simp
  moreover have "0 < x * per \<Longrightarrow> x \<noteq> 0" by auto
  ultimately show ?thesis
    using assms quantize_fits [OF assms(1)] by (auto simp: column_of_def Let_def fits_def)
qed

lemma column_published_opt:
  assumes "case c of None \<Rightarrow> True | Some x \<Rightarrow> fits x" "0 < per"
  shows "column_of (published c per) per = Inr c"
  using assms by (cases c) (simp_all add: published_def column_published, simp add: column_of_def)

section \<open>Columns that fit\<close>

definition two_rates :: "PriceUnit \<Rightarrow> bool" where
  "two_rates u \<longleftrightarrow> sl_made (unit_slot u) \<noteq> None"

definition fits_opt :: "rat option \<Rightarrow> bool" where
  "fits_opt c = (case c of None \<Rightarrow> True | Some x \<Rightarrow> fits x)"

definition is_float :: "(rat \<Rightarrow> rat) \<Rightarrow> rat option \<Rightarrow> bool" where
  "is_float via_float c = (case c of None \<Rightarrow> True | Some x \<Rightarrow> via_float x = x)"

text \<open>A tier gives the rates of each price the unit has; its rates are floats that fit a column.\<close>

definition wf_tier :: "(rat \<Rightarrow> rat) \<Rightarrow> PriceUnit \<Rightarrow> tier_columns \<Rightarrow> bool" where
  "wf_tier via_float u t \<longleftrightarrow> 0 < tc_min_input t \<and> tc_input t \<noteq> None \<and> (tc_output t \<noteq> None \<longleftrightarrow> two_rates u)
     \<and> list_all (\<lambda>c. fits_opt c \<and> is_float via_float c) [tc_input t, tc_output t, tc_cache_read t, tc_cache_write t]"

definition wf_columns :: "(rat \<Rightarrow> rat) \<Rightarrow> rate_columns \<Rightarrow> bool" where
  "wf_columns via_float c \<longleftrightarrow> fits (rc_input c) \<and> fits (rc_output c) \<and> fits_opt (rc_cache_read c)
     \<and> fits_opt (rc_cache_write c) \<and> (two_rates (rc_unit c) \<or> rc_output c = 0)
     \<and> distinct (map tc_min_input (rc_tiers c)) \<and> list_all (wf_tier via_float (rc_unit c)) (rc_tiers c)"

lemmas tier_conditions = wf_tier_def fits_opt_def is_float_def

section \<open>The block of columns is well formed\<close>

lemma cache_of_wf [simp]:
  "wf_caches (cache_of r w per) None" "caches_hold (cache_of r w per) None"
  by (auto simp: cache_of_def wf_caches_def wf_cache_def caches_hold_def cache_document_def cache_fields_def published_def
      written split: option.splits)

lemma override_lists:
  "list_all wf_override (concat (map (given_override per) ts))"
  "list_all wf_override (concat (map (made_override per) ts))"
  "list_all override_holds (concat (map (given_override per) ts))"
  "list_all override_holds (concat (map (made_override per) ts))"
  by (auto simp: list_all_iff given_override_def made_override_def wf_override_def override_holds_def Let_def
      wf_caches_def [of None] caches_hold_def [of None] split: if_splits option.splits)

lemma column_price_wf:
  "wf_unit_price unit_names (given_price c)" "unit_price_holds (given_price c)"
  "wf_unit_price unit_names (made_price c)" "unit_price_holds (made_price c)"
  by (cases "rc_unit c";
      simp add: given_price_def made_price_def column_price_def wf_unit_price_def unit_price_holds_def Let_def
        override_lists wf_caches_def [of None] caches_hold_def [of None] unit_names_def PRICE_UNITS_def)+

lemma columns_pricing_wf: "wf_pricing unit_names (columns_pricing c)" "pricing_holds (columns_pricing c)"
  using column_price_wf [of c]
  by (cases "rc_unit c"; simp add: columns_pricing_def wf_pricing_def pricing_holds_def wf_modality_def wf_price_def
      price_holds_def slot_modality_def two_way_def one_way_def web_slot_def not_modalities_def Let_def)+

lemma columns_from_own_rates:
  "columns_from_rates via_float (rates_from_columns c) = columns_from_pricing via_float (columns_pricing c)"
  using document_read [OF columns_pricing_wf, of _ c]
  by (simp add: columns_from_rates_def rates_from_columns_def no_issues_def)

section \<open>The tiers of a block of columns\<close>

lemma tier_when_size: "0 < tc_min_input t \<Longrightarrow> context_size (tier_when t) = Some (tc_min_input t)"
  by (simp add: context_size_def tier_when_def tier_size_def)

definition given_entry :: "open_tier \<Rightarrow> rat \<Rightarrow> tier_columns \<Rightarrow> open_tier" where
  "given_entry base per t = base\<lparr> te_input := or_else (published (tc_input t) per) (te_input base),
     te_cache_read := or_else (published (tc_cache_read t) per) (te_cache_read base),
     te_cache_write := or_else (published (tc_cache_write t) per) (te_cache_write base) \<rparr>"

lemma or_else_None [simp]: "or_else None old = old" "or_else new None = new" "or_else (Some v) old = Some v"
  by (simp_all add: or_else_def split: option.split)

lemma cache_of_parts:
  "(case cache_of r w per of None \<Rightarrow> None | Some c \<Rightarrow> kp_read c) = published r per"
  "cache_write_of (cache_of r w per) None = published w per"
  by (auto simp: cache_of_def cache_write_of_def published_def split: option.splits)

lemma fold_given:
  assumes "distinct (map tc_min_input ts)" "set (map fst acc) \<inter> set (map tc_min_input ts) = {}"
    "\<forall>t\<in>set ts. 0 < tc_min_input t \<and> tc_input t \<noteq> None" "te_bad_given base = []"
  shows "fold (given_tier base) (concat (map (given_override per) ts)) acc
    = acc @ map (\<lambda>t. (tc_min_input t, given_entry base per t)) ts"
  using assms(1-3)
proof (induction ts arbitrary: acc)
  case (Cons t ts)
  have emitted: "given_override per t = [\<lparr> ov_when = tier_when t, ov_price = published (tc_input t) per, ov_reasoning = None,
      ov_cache = cache_of (tc_cache_read t) (tc_cache_write t) per, ov_explicit = None, ov_malformed = [] \<rparr>]"
    using Cons.prems(3) by (auto simp: given_override_def Let_def published_def)
  have "given_tier base (hd (given_override per t)) acc = acc @ [(tc_min_input t, given_entry base per t)]"
    using Cons.prems assms(4)
    by (simp add: emitted given_tier_def tier_when_size put_tier_def given_entry_def cache_of_parts)
  then show ?case using Cons.IH [of "acc @ [(tc_min_input t, given_entry base per t)]"] Cons.prems by (simp add: emitted)
qed simp

definition made_change :: "rat \<Rightarrow> tier_columns \<Rightarrow> open_tier \<Rightarrow> open_tier" where
  "made_change per t e = e\<lparr> te_output := or_else (published (tc_output t) per) (te_output e) \<rparr>"

lemma fold_made:
  assumes "\<forall>t\<in>set ts. 0 < tc_min_input t" "distinct (map tc_min_input ts)"
    "set (map tc_min_input ts) \<subseteq> set (map fst acc)"
  shows "fold (made_tier base) (concat (map (made_override per) ts)) acc
    = map (\<lambda>(k, e). (k, case find (\<lambda>t. tc_min_input t = k) ts of None \<Rightarrow> e | Some t \<Rightarrow> made_change per t e)) acc"
  using assms
proof (induction ts arbitrary: acc)
  case (Cons t ts)
  let ?step = "map (\<lambda>(k, e). if k = tc_min_input t then (k, made_change per t e) else (k, e)) acc"
  have step: "fold (made_tier base) (made_override per t) acc = ?step"
  proof (cases "tc_output t")
    case None
    then show ?thesis
      by (auto simp: made_override_def published_def made_change_def intro!: map_idI [symmetric])
  next
    case (Some x)
    then show ?thesis
      using Cons.prems
      by (auto simp: made_override_def published_def made_tier_def tier_when_size put_tier_def made_change_def)
  qed
  have keys: "map fst ?step = map fst acc" by (induction acc) auto
  have "fold (made_tier base) (concat (map (made_override per) ts)) ?step
    = map (\<lambda>(k, e). (k, case find (\<lambda>t. tc_min_input t = k) ts of None \<Rightarrow> e | Some t \<Rightarrow> made_change per t e)) ?step"
    using Cons.prems keys by (intro Cons.IH) auto
  moreover have "find (\<lambda>u. tc_min_input u = tc_min_input t) ts = None"
    using Cons.prems(2) by (simp add: find_None_iff) (metis image_eqI)
  ultimately show ?case by (auto simp: step)
qed (simp add: split_beta)

lemma find_own:
  assumes "distinct (map f xs)" "x \<in> set xs"
  shows "find (\<lambda>y. f y = f x) xs = Some x"
  using assms by (induction xs) auto

lemma tier_columns_back:
  assumes "list_all (wf_tier via_float u) ts" "0 < per" "two_rates u \<or> rt0 = None"
  shows "tier_columns_of via_float per (map (\<lambda>t. \<lparr> ti_kind = Some k, ti_size = Some (tc_min_input t),
      ti_rates = \<lparr> rt_input = published (tc_input t) per, rt_output = or_else (published (tc_output t) per) rt0,
        rt_cache_read = published (tc_cache_read t) per, rt_cache_write = published (tc_cache_write t) per,
        rt_malformed = [] \<rparr> \<rparr>) ts) = Inr ts"
  using assms(1)
proof (induction ts)
  case (Cons t ts)
  have wf: "wf_tier via_float u t" using Cons.prems by simp
  have out: "or_else (published (tc_output t) per) rt0 = published (tc_output t) per"
    using wf assms(3) by (auto simp: wf_tier_def published_def or_else_def split: option.splits)
  have cols: "column_of (published c per) per = Inr c" "map_option via_float c = c"
    if "c \<in> {tc_input t, tc_output t, tc_cache_read t, tc_cache_write t}" for c
    using wf that assms(2) by (auto simp: tier_conditions intro!: column_published_opt split: option.splits)
  have "tier_column via_float per \<lparr> ti_kind = Some k, ti_size = Some (tc_min_input t),
      ti_rates = \<lparr> rt_input = published (tc_input t) per, rt_output = or_else (published (tc_output t) per) rt0,
        rt_cache_read = published (tc_cache_read t) per, rt_cache_write = published (tc_cache_write t) per,
        rt_malformed = [] \<rparr> \<rparr> = Inr t"
    by (simp add: tier_column_def out cols)
  then show ?case using Cons by simp
qed simp

text \<open>The price pair of columns, read back in its unit.\<close>

lemma columns_of_own_cost:
  assumes "wf_columns via_float c" "made = (if two_rates (rc_unit c) then Some (made_price c) else None)"
  shows "columns_of_cost via_float (direction_cost (Some (given_price c)) made) (rc_unit c) = Inr c"
proof -
  let ?per = "per_column (rc_unit c)" and ?ts = "rc_tiers c"
  define base where "base = \<lparr> te_input = Some (Fraction (rc_input c * ?per)), te_output = Option.bind made pc_price,
    te_cache_read = None, te_cache_write = None, te_bad_given = [], te_bad_made = [] \<rparr>"
  define overrides where "overrides = (case made of None \<Rightarrow> [] | Some m \<Rightarrow> pc_overrides m)"
  have wf: "list_all (wf_tier via_float (rc_unit c)) ?ts" "distinct (map tc_min_input ?ts)"
    using assms(1) by (simp_all add: wf_columns_def)
  have pos: "\<forall>t\<in>set ?ts. 0 < tc_min_input t \<and> tc_input t \<noteq> None"
    using wf(1) by (auto simp: list_all_iff wf_tier_def)
  have given: "fold (given_tier base) (pc_overrides (given_price c)) []
      = map (\<lambda>t. (tc_min_input t, given_entry base ?per t)) ?ts"
    using fold_given [OF wf(2), of "[]" base ?per] pos by (simp add: given_price_def column_price_def base_def Let_def)
  have made: "fold (made_tier base) overrides (map (\<lambda>t. (tc_min_input t, given_entry base ?per t)) ?ts)
      = map (\<lambda>t. (tc_min_input t, made_change ?per t (given_entry base ?per t))) ?ts"
  proof (cases "two_rates (rc_unit c)")
    case True
    have "overrides = concat (map (made_override ?per) ?ts)"
      using True assms(2) by (simp add: overrides_def made_price_def column_price_def Let_def)
    then show ?thesis
      using fold_made [of ?ts "map (\<lambda>t. (tc_min_input t, given_entry base ?per t)) ?ts" base ?per] pos wf(2)
      by (simp add: o_def find_own)
  next
    case False
    have "overrides = []" using False assms(2) by (simp add: overrides_def)
    moreover have "\<forall>t\<in>set ?ts. tc_output t = None" using wf(1) False by (auto simp: list_all_iff wf_tier_def)
    ultimately show ?thesis by (simp add: made_change_def published_def)
  qed
  have tier: "co_tiers (direction_cost (Some (given_price c)) made)
      = map (\<lambda>(n, e). \<lparr> ti_kind = Some ''context'', ti_size = Some n,
          ti_rates = \<lparr> rt_input = te_input e, rt_output = te_output e, rt_cache_read = te_cache_read e,
            rt_cache_write = te_cache_write e, rt_malformed = rates_malformed (te_bad_given e) (te_bad_made e) \<rparr> \<rparr>)
        (fold (made_tier base) overrides (fold (given_tier base) (pc_overrides (given_price c)) []))"
    by (simp add: direction_cost_def base_def overrides_def given_price_def column_price_def Let_def)
  have tiers: "co_tiers (direction_cost (Some (given_price c)) made)
      = map (\<lambda>t. \<lparr> ti_kind = Some ''context'', ti_size = Some (tc_min_input t),
        ti_rates = \<lparr> rt_input = published (tc_input t) ?per,
          rt_output = or_else (published (tc_output t) ?per) (Option.bind made pc_price),
          rt_cache_read = published (tc_cache_read t) ?per, rt_cache_write = published (tc_cache_write t) ?per,
          rt_malformed = [] \<rparr> \<rparr>) ?ts"
    unfolding tier given made
    using pos by (auto simp: made_change_def given_entry_def base_def rates_malformed_def published_def)
  have none: "two_rates (rc_unit c) \<or> Option.bind made pc_price = None" using assms(2) by auto
  have returned: "tier_columns_of via_float ?per (co_tiers (direction_cost (Some (given_price c)) made)) = Inr ?ts"
    unfolding tiers by (rule tier_columns_back [OF wf(1) per_column_pos none])
  have fit: "fits (rc_input c)" "fits (rc_output c)" "fits_opt (rc_cache_read c)" "fits_opt (rc_cache_write c)"
    "two_rates (rc_unit c) \<or> rc_output c = 0"
    using assms(1) by (simp_all add: wf_columns_def)
  have rates: "co_rates (direction_cost (Some (given_price c)) made)
      = \<lparr> rt_input = Some (Fraction (rc_input c * ?per)),
          rt_output = (if two_rates (rc_unit c) then Some (Fraction (rc_output c * ?per)) else None),
          rt_cache_read = published (rc_cache_read c) ?per, rt_cache_write = published (rc_cache_write c) ?per,
          rt_malformed = [] \<rparr>"
    using assms(2) cache_of_parts [of "rc_cache_read c" "rc_cache_write c" ?per]
    by (auto simp: direction_cost_def given_price_def made_price_def column_price_def rates_malformed_def Let_def
        split: option.splits)
  have cols: "column_of (published (rc_cache_read c) ?per) ?per = Inr (rc_cache_read c)"
    "column_of (published (rc_cache_write c) ?per) ?per = Inr (rc_cache_write c)"
    using fit by (auto simp: fits_opt_def intro!: column_published_opt)
  have none: "column_of None ?per = Inr None" by (simp add: column_of_def)
  show ?thesis
    using fit
    by (simp add: columns_of_cost_def Let_def rates returned cols column_published none or_no_rate_def)
      (cases c, auto)
qed

section \<open>Columns out of their own block\<close>

lemma unit_named_own [simp]: "unit_named (unit_name u) = Some u"
  by (cases u) (simp_all add: unit_named_def PRICE_UNITS_def)

lemma own_price_fields [simp]:
  "pc_price (given_price c) = Some (Fraction (rc_input c * per_column (rc_unit c)))"
  "pc_price (made_price c) = Some (Fraction (rc_output c * per_column (rc_unit c)))"
  "unit_of (given_price c) = unit_name (rc_unit c)" "unit_of (made_price c) = unit_name (rc_unit c)"
  by (simp_all add: given_price_def made_price_def column_price_def unit_of_def Let_def)

lemma own_slot_read:
  "columns_from_pricing via_float (columns_pricing c)
     = columns_of_cost via_float (direction_cost (Some (given_price c))
         (if two_rates (rc_unit c) then Some (made_price c) else None)) (rc_unit c)"
  by (cases "rc_unit c";
      simp add: columns_from_pricing_def read_order_def columns_pricing_def prices_in_def slot_modality_def slot_side_def
        two_way_def one_way_def web_slot_def two_rates_def Let_def)
    (simp_all flip: unit_name.simps)

lemma columns_read_back:
  assumes "wf_columns via_float c"
  shows "columns_from_rates via_float (rates_from_columns c) = Inr c"
  by (simp only: columns_from_own_rates own_slot_read columns_of_own_cost [OF assms refl])

section \<open>Merging\<close>

lemma field_of_set: "field_of (json_set obj k v) name = (if name = k then v else field_of obj name)"
proof (cases "k \<in> set (map fst obj)")
  case True
  have "map_of (map (\<lambda>(k1, old). if k1 = k then (k1, v) else (k1, old)) others) name
      = (if name = k then map_option (\<lambda>_. v) (map_of others k) else map_of others name)" for others
    by (induction others) auto
  moreover obtain u where "map_of obj k = Some u" using True by (auto dest: weak_map_of_SomeI)
  ultimately show ?thesis using True by (simp add: json_set_def field_of_def)
next
  case False
  then have "map_of obj k = None" by (simp add: map_of_eq_None_iff)
  then have "map_of (obj @ [(k, v)]) name = (if name = k then Some v else map_of obj name)"
    by (simp add: map_add_def split: option.splits)
  with False show ?thesis by (simp add: json_set_def field_of_def)
qed

lemma merge_block_others:
  assumes "merge_block block merged fresh = Inr doc" "k \<notin> set (map fst fresh)"
  shows "field_of doc k = field_of merged k"
  using assms
  by (induction block merged fresh rule: merge_block.induct)
    (auto simp: bind_result_Inr_iff field_of_set split: if_splits)

section \<open>Samples\<close>

definition sample_rates :: rate_columns where
  "sample_rates = \<lparr> rc_unit = UToken, rc_input = 3, rc_output = 15, rc_cache_read = Some (3 / 10), rc_cache_write = None,
     rc_tiers = [\<lparr> tc_min_input = 200000, tc_input = Some 6, tc_output = Some (45 / 2), tc_cache_read = Some (6 / 10),
       tc_cache_write = None \<rparr>] \<rparr>"

lemma sample_rates_wf: "wf_columns (\<lambda>x. x) sample_rates"
  by (simp add: wf_columns_def sample_rates_def tier_conditions fits_def column_limit_def two_rates_def two_way_def)

definition sample_block :: json_object where
  "sample_block = [(''text'', JObject [(''input'', JObject [(''price'', JNumber (Whole 3)),
       (''cache'', JObject [(''write'', JObject [(''5m'', JNumber (Whole 4)), (''1h'', JNumber (Whole 6))])]),
       (''overrides'', JList [JObject [(''when'', JObject [(''context'', JObject [(''gt'', JNumber (Whole 200000))])]),
         (''price'', JNumber (Whole 6))]])])]),
     (''image'', JObject [(''output'', JObject [(''price'', JNumber (Fraction (1 / 25))), (''unit'', JString ''image'')])]),
     (''web_search'', JObject [(''price'', JNumber (Whole 10))])]"

text \<open>A cache block that holds no price leaves no trace in the document.\<close>

definition empty_cache_block :: json_object where
  "empty_cache_block = [(''text'', JObject [(''input'', JObject [(''price'', JNumber (Whole 3)), (''cache'', JObject [])])])]"

lemma empty_cache_is_lost:
  "case parse_pricing unit_names ''rates'' (JObject empty_cache_block) of
     Inr (p, found) \<Rightarrow> found = no_issues
       \<and> parse_pricing unit_names ''rates'' (JObject (pricing_document p)) \<noteq> Inr (p, found)
   | Inl e \<Rightarrow> False"
  by code_simp

section \<open>Properties\<close>

text \<open>
  \<^bold>\<open>C26\<close>. A \<open>cost\<close> block that was read without an issue, with known units and with a price in each cache block,
  round-trips: the document written from what was read reads, without an issue, as the same block.
\<close>

theorem price_block_round_trips:
  assumes "parse_pricing units path raw = Inr (p, found)" "is_count found = 0" "is_unknown found = []"
    "pricing_holds p"
  shows "parse_pricing units path1 (JObject (pricing_document p)) = Inr (p, no_issues)"
  by (rule document_read [OF parsed_well_formed [OF assms(1-3)] assms(4)])

lemma sample_block_read:
  "case parse_pricing unit_names ''rates'' (JObject sample_block) of
     Inr (p, found) \<Rightarrow> is_count found = 0 \<and> is_unknown found = [] \<and> pricing_holds p
   | Inl e \<Rightarrow> False"
  by code_simp

theorem price_block_round_trips_witness:
  "case parse_pricing unit_names ''rates'' (JObject sample_block) of
     Inr (p, found) \<Rightarrow> parse_pricing unit_names ''cost'' (JObject (pricing_document p)) = Inr (p, no_issues)
   | Inl e \<Rightarrow> False"
proof -
  obtain p found where read: "parse_pricing unit_names ''rates'' (JObject sample_block) = Inr (p, found)"
    and fine: "is_count found = 0" "is_unknown found = []" "pricing_holds p"
    using sample_block_read by (auto split: sum.splits)
  show ?thesis using price_block_round_trips [OF read fine] by (simp add: read)
qed

text \<open>
  \<^bold>\<open>C25\<close>. Rate columns that fit the columns, with complete tiers of their own threshold each and float rates,
  round-trip through a block: the block written for them reads back as exactly those columns, whatever
  the unit. A unit with one price has no output rate.
\<close>

theorem rate_columns_round_trip:
  assumes "wf_columns via_float c"
  shows "columns_from_rates via_float (rates_from_columns c) = Inr c"
  by (rule columns_read_back [OF assms])

theorem rate_columns_round_trip_witness:
  "columns_from_rates (\<lambda>x. x) (rates_from_columns sample_rates) = Inr sample_rates"
  by (rule rate_columns_round_trip [OF sample_rates_wf])

text \<open>
  . A block brought up to date with columns bills as they say: it reads back with their unit and their four
  rates, whatever stood in the block, and where it is not the fresh block of the columns alone it keeps
  every other slot of the old block as it was.
\<close>

theorem updated_block_bills_as_its_columns:
  assumes "wf_columns via_float c" "rates_with_columns via_float block c = Inr doc"
  shows "(\<exists>r. columns_from_rates via_float doc = Inr r \<and> same_rates r c \<and> rc_unit r = rc_unit c)
    \<and> (doc = rates_from_columns c
       \<or> (\<exists>b. block = Some b \<and> (\<forall>k. k \<in> set (map fst (rates_from_columns c)) \<or> field_of doc k = field_of b k)))"
proof (cases "doc = rates_from_columns c")
  case True
  then show ?thesis using columns_read_back [OF assms(1)] by (auto simp: same_rates_def)
next
  case False
  obtain b where b: "block = Some b" "b \<noteq> []"
    using assms(2) False by (auto simp: rates_with_columns_def Let_def split: option.splits if_splits)
  obtain merged where merged: "merge_block b b (rates_from_columns c) = Inr merged"
    "(case columns_from_rates via_float merged of Inl e \<Rightarrow> Inr (rates_from_columns c)
        | Inr r \<Rightarrow> Inr (if same_rates r c \<and> rc_unit r = rc_unit c then merged else rates_from_columns c))
      = (Inr doc :: merge_error + json_object)"
    using assms(2) b unfolding rates_with_columns_def Let_def by (simp only: option.case if_False bind_result_Inr_iff) blast
  obtain r where r: "columns_from_rates via_float doc = Inr r" "same_rates r c" "rc_unit r = rc_unit c" "merged = doc"
    using merged(2) False by (cases "columns_from_rates via_float merged") (auto split: if_splits)
  have "\<forall>k. k \<in> set (map fst (rates_from_columns c)) \<or> field_of doc k = field_of b k"
    using merge_block_others [OF merged(1)] r(4) by blast
  with b(1) r show ?thesis by blast
qed

theorem updated_block_bills_as_its_columns_witness:
  "case rates_with_columns (\<lambda>x. x) (Some sample_block) sample_rates of
     Inr doc \<Rightarrow> (\<exists>r. columns_from_rates (\<lambda>x. x) doc = Inr r \<and> rc_input r = 3 \<and> rc_output r = 15) | Inl e \<Rightarrow> False"
proof -
  have "case rates_with_columns (\<lambda>x. x) (Some sample_block) sample_rates of Inr doc \<Rightarrow> True | Inl e \<Rightarrow> False"
    by code_simp
  then obtain doc where doc: "rates_with_columns (\<lambda>x. x) (Some sample_block) sample_rates = Inr doc"
    by (auto split: sum.splits)
  show ?thesis
    using updated_block_bills_as_its_columns [OF sample_rates_wf doc] doc
    by (auto simp: same_rates_def sample_rates_def)
qed

end
