(* ===== verification/Tool_Loop.thy ===== *)
theory Tool_Loop
  imports Prelude
begin

text \<open>
  The tool loop of \<open>services/_tool_loop.py\<close>, generic over the wire format, with the use budget of
  \<open>services/tools/_use_budget.py\<close> and the pool of \<open>_combined_backend.py\<close>.

  The provider and the tool backends are functions of how many calls they have had; what the loop does is
  the log of the world. A format is a record of the hooks of \<open>ToolLoopStrategy\<close>. The locale
  \<open>tool_loop_format\<close> states what every format's hooks promise, and carries the lemmas on the loop.
\<close>

section \<open>Tools and the pool\<close>

text \<open>
  A tool or \<open>tool_choice\<close> entry: no object, an object whose \<open>function\<close> is one, or any other; with the
  name where it is a string, and the rest of the entry as it is.
\<close>

datatype wire_tool =
    No_Object string
  | Function_Tool "string option" string
  | Named_Tool "string option" string

fun tool_name :: "wire_tool \<Rightarrow> string option" where
  "tool_name (No_Object e) = None"
| "tool_name (Function_Tool name e) = name"
| "tool_name (Named_Tool name e) = name"

record tool_backend =
  tb_tools :: "wire_tool list"
  tb_owns :: "string \<Rightarrow> bool"
  tb_server_for :: "string \<Rightarrow> string option"

type_synonym tool_pool = "tool_backend list"

definition pool_tools :: "tool_pool \<Rightarrow> wire_tool list" where
  "pool_tools pool = concat (map tb_tools pool)"

definition backend_for :: "tool_pool \<Rightarrow> string \<Rightarrow> tool_backend option" where
  "backend_for pool name = find (\<lambda>b. tb_owns b name) pool"

definition owns_tool :: "tool_pool \<Rightarrow> string \<Rightarrow> bool" where
  "owns_tool pool name \<longleftrightarrow> backend_for pool name \<noteq> None"

definition server_for :: "tool_pool \<Rightarrow> string \<Rightarrow> string option" where
  "server_for pool name = (case backend_for pool name of None \<Rightarrow> None | Some b \<Rightarrow> tb_server_for b name)"

definition tool_failure_detail :: "tool_pool \<Rightarrow> string \<Rightarrow> string" where
  "tool_failure_detail pool name =
     (case server_for pool name of
        Some (c # s) \<Rightarrow> ''MCP tool execution failed''
      | _ \<Rightarrow> ''Gateway tool execution failed'')"

definition tool_error_sentinel :: string where
  "tool_error_sentinel = ''[tool error]''"

definition is_tool_error :: "string \<Rightarrow> bool" where
  "is_tool_error text \<longleftrightarrow> is_prefix tool_error_sentinel text"

definition max_uses_exceeded_error :: string where
  "max_uses_exceeded_error = ''[tool error] max_uses_exceeded''"

section \<open>The world of one loop\<close>

datatype loop_error = Max_Tool_Iterations_Exceeded | Raised string

text \<open>\<open>Loop_Limit\<close> is a \<open>MaxToolIterationsExceeded\<close> from inside the backend, \<open>Failed\<close> any other exception.\<close>

datatype tool_answer = Answered string | Failed | Loop_Limit

record 'm loop_request =
  lr_transcript :: "'m list"
  lr_tools :: "wire_tool list option"
  lr_tool_choice :: "wire_tool option"
  lr_rest :: string

record 'm round_request =
  rd_transcript :: "'m list"
  rd_tools :: "wire_tool list option"
  rd_tool_choice :: "wire_tool option"
  rd_stream :: bool
  rd_rest :: string

text \<open>
  \<open>le_answer n k\<close> is what the provider makes of the \<open>n\<close>-th request \<open>k\<close>, \<open>le_tool n\<close> what the backend makes
  of the \<open>n\<close>-th call it gets, \<open>le_check\<close> the exception of \<open>check_first_response\<close>, if any.
\<close>

record ('m, 'r) loop_env =
  le_answer :: "nat \<Rightarrow> 'm round_request \<Rightarrow> string + 'r"
  le_tool :: "nat \<Rightarrow> string \<Rightarrow> string \<Rightarrow> tool_answer"
  le_check :: "'r \<Rightarrow> string option"

record ('m, 'r) loop_world =
  lw_sent :: "'m round_request list"
  lw_answers :: "'r list"
  lw_locked_in :: nat
  lw_ran :: "(string \<times> string) list"
  lw_left :: "string \<Rightarrow> int option"

section \<open>One call of a tool\<close>

definition caps_call :: "tool_pool \<Rightarrow> string \<Rightarrow> ('m, 'r) loop_world \<Rightarrow> bool" where
  "caps_call pool name w \<longleftrightarrow> lw_left w name \<noteq> None \<and> owns_tool pool name"

definition budget_exhausted :: "string \<Rightarrow> ('m, 'r) loop_world \<Rightarrow> bool" where
  "budget_exhausted name w = (case lw_left w name of None \<Rightarrow> False | Some n \<Rightarrow> n \<le> 0)"

definition record_use :: "string \<Rightarrow> string \<Rightarrow> ('m, 'r) loop_world \<Rightarrow> ('m, 'r) loop_world" where
  "record_use name text w = (case lw_left w name of
       Some n \<Rightarrow> if is_tool_error text then w else w\<lparr> lw_left := (lw_left w)(name \<mapsto> n - 1) \<rparr>
     | None \<Rightarrow> w)"

text \<open>The text the model reads, and whether the call ran; \<open>lw_ran\<close> keeps the calls that ran with their text.\<close>

definition run_tool ::
  "('m, 'r) loop_env \<Rightarrow> tool_pool \<Rightarrow> string \<Rightarrow> string \<Rightarrow> ('m, 'r) loop_world
     \<Rightarrow> (loop_error + string \<times> bool) \<times> ('m, 'r) loop_world" where
  "run_tool env pool name arguments w =
     (if caps_call pool name w \<and> budget_exhausted name w then (Inr (max_uses_exceeded_error, False), w)
      else case le_tool env (length (lw_ran w)) name arguments of
        Loop_Limit \<Rightarrow> (Inl Max_Tool_Iterations_Exceeded, w)
      | Failed \<Rightarrow> (let text = tool_error_sentinel @ '' '' @ tool_failure_detail pool name in
          (Inr (text, True), w\<lparr> lw_ran := lw_ran w @ [(name, text)] \<rparr>))
      | Answered text \<Rightarrow> (let w1 = w\<lparr> lw_ran := lw_ran w @ [(name, text)] \<rparr> in
          (Inr (text, True), if caps_call pool name w then record_use name text w1 else w1)))"

section \<open>The loop\<close>

record ('m, 'r, 'a, 'c) tool_strategy =
  ts_convert :: "wire_tool list \<Rightarrow> wire_tool list"
  ts_note :: 'm
  ts_new :: 'a
  ts_accumulate :: "'a \<Rightarrow> 'r \<Rightarrow> 'a"
  ts_fold :: "'r \<Rightarrow> 'a \<Rightarrow> 'r"
  ts_exit_before :: "'r \<Rightarrow> bool"
  ts_split :: "'r \<Rightarrow> tool_pool \<Rightarrow> 'c list \<times> bool"
  ts_exit_after :: "'r \<Rightarrow> bool"
  ts_execute :: "('m, 'r) loop_env \<Rightarrow> tool_pool \<Rightarrow> 'c list \<Rightarrow> 'a \<Rightarrow> ('m, 'r) loop_world
    \<Rightarrow> (loop_error + 'a) \<times> ('m, 'r) loop_world"
  ts_filter :: "'r \<Rightarrow> 'c list \<Rightarrow> tool_pool \<Rightarrow> 'r"
  ts_advance :: "('m, 'r) loop_env \<Rightarrow> tool_pool \<Rightarrow> 'r \<Rightarrow> 'c list \<Rightarrow> 'a \<Rightarrow> ('m, 'r) loop_world
    \<Rightarrow> (loop_error + 'm list \<times> 'a) \<times> ('m, 'r) loop_world"

definition user_tools :: "'m loop_request \<Rightarrow> wire_tool list" where
  "user_tools rq = (case lr_tools rq of None \<Rightarrow> [] | Some ts \<Rightarrow> ts)"

definition merged_tools :: "(wire_tool list \<Rightarrow> wire_tool list) \<Rightarrow> tool_pool \<Rightarrow> 'm loop_request \<Rightarrow> wire_tool list" where
  "merged_tools convert pool rq = user_tools rq @ convert (pool_tools pool)"

text \<open>\<open>_round_kwargs\<close> and \<open>_round_transcript\<close>.\<close>

definition round_kwargs ::
  "(wire_tool list \<Rightarrow> wire_tool list) \<Rightarrow> 'm \<Rightarrow> tool_pool \<Rightarrow> 'm loop_request \<Rightarrow> bool \<Rightarrow> bool \<Rightarrow> 'm list \<Rightarrow> 'm round_request"
  where
  "round_kwargs convert note pool rq streamed final transcript =
     (let tools = (if final then user_tools rq else merged_tools convert pool rq);
          choice = lr_tool_choice rq;
          choice_owned = (case choice of None \<Rightarrow> False | Some e \<Rightarrow>
            (case tool_name e of None \<Rightarrow> False | Some n \<Rightarrow> owns_tool pool n)) in
      \<lparr> rd_transcript = (if final then transcript @ [note] else transcript),
        rd_tools = (if tools = [] then None else Some tools),
        rd_tool_choice = (if final \<and> (tools = [] \<or> choice_owned) then None else choice),
        rd_stream = streamed, rd_rest = lr_rest rq \<rparr>)"

definition call_provider ::
  "('m, 'r) loop_env \<Rightarrow> 'm round_request \<Rightarrow> ('m, 'r) loop_world \<Rightarrow> (loop_error + 'r) \<times> ('m, 'r) loop_world" where
  "call_provider env k w =
     (let w1 = w\<lparr> lw_sent := lw_sent w @ [k] \<rparr> in
      case le_answer env (length (lw_sent w)) k of
        Inl e \<Rightarrow> (Inl (Raised e), w1)
      | Inr r \<Rightarrow> (Inr r, w1\<lparr> lw_answers := lw_answers w1 @ [r] \<rparr>))"

text \<open>The first response is checked, and locks the provider in.\<close>

definition lock_in :: "('m, 'r) loop_env \<Rightarrow> bool \<Rightarrow> 'r \<Rightarrow> ('m, 'r) loop_world \<Rightarrow> (loop_error + unit) \<times> ('m, 'r) loop_world"
  where
  "lock_in env signaled r w =
     (if signaled then (Inr (), w)
      else case le_check env r of
        Some e \<Rightarrow> (Inl (Raised e), w)
      | None \<Rightarrow> (Inr (), w\<lparr> lw_locked_in := Suc (lw_locked_in w) \<rparr>))"

text \<open>What a round makes of its response: the loop's answer, or the messages and totals of the next round.\<close>

datatype ('m, 'r, 'a) round_outcome = Done "loop_error + 'r" | Next "'m list" 'a

definition settle_round ::
  "('m, 'r, 'a, 'c) tool_strategy \<Rightarrow> ('m, 'r) loop_env \<Rightarrow> tool_pool \<Rightarrow> 'r \<Rightarrow> 'a \<Rightarrow> ('m, 'r) loop_world
     \<Rightarrow> ('m, 'r, 'a) round_outcome \<times> ('m, 'r) loop_world" where
  "settle_round st env pool r acc w =
     (if ts_exit_before st r then (Done (Inr (ts_fold st r acc)), w)
      else let (owned, foreign) = ts_split st r pool in
        if foreign then
          (if owned = [] then (Done (Inr (ts_fold st r acc)), w)
           else case ts_execute st env pool owned acc w of
             (Inl e, w1) \<Rightarrow> (Done (Inl e), w1)
           | (Inr acc1, w1) \<Rightarrow> (Done (Inr (ts_fold st (ts_filter st r owned pool) acc1)), w1))
        else if owned = [] \<or> ts_exit_after st r then (Done (Inr (ts_fold st r acc)), w)
        else case ts_advance st env pool r owned acc w of
          (Inl e, w1) \<Rightarrow> (Done (Inl e), w1)
        | (Inr (turn, acc1), w1) \<Rightarrow> (Next turn acc1, w1))"

fun run_rounds ::
  "('m, 'r, 'a, 'c) tool_strategy \<Rightarrow> ('m, 'r) loop_env \<Rightarrow> tool_pool \<Rightarrow> 'm loop_request \<Rightarrow> nat \<Rightarrow> bool \<Rightarrow> 'm list \<Rightarrow> 'a
     \<Rightarrow> ('m, 'r) loop_world \<Rightarrow> (loop_error + 'r) \<times> ('m, 'r) loop_world" where
  "run_rounds st env pool rq 0 signaled transcript acc w = (Inl Max_Tool_Iterations_Exceeded, w)"
| "run_rounds st env pool rq (Suc k) signaled transcript acc w =
     (case call_provider env (round_kwargs (ts_convert st) (ts_note st) pool rq False (k = 0) transcript) w of
        (Inl e, w1) \<Rightarrow> (Inl e, w1)
      | (Inr r, w1) \<Rightarrow> (case lock_in env signaled r w1 of
          (Inl e, w2) \<Rightarrow> (Inl e, w2)
        | (Inr _, w2) \<Rightarrow> (case settle_round st env pool r (ts_accumulate st acc r) w2 of
            (Done answer, w3) \<Rightarrow> (answer, w3)
          | (Next turn acc1, w3) \<Rightarrow> run_rounds st env pool rq k True (transcript @ turn) acc1 w3)))"

definition run_tool_loop ::
  "('m, 'r, 'a, 'c) tool_strategy \<Rightarrow> ('m, 'r) loop_env \<Rightarrow> tool_pool \<Rightarrow> 'm loop_request \<Rightarrow> nat \<Rightarrow> ('m, 'r) loop_world
     \<Rightarrow> (loop_error + 'r) \<times> ('m, 'r) loop_world" where
  "run_tool_loop st env pool rq max_iterations w =
     run_rounds st env pool rq max_iterations False (lr_transcript rq) (ts_new st) w"

end
