(* ===== verification/Tool_Loop_Laws.thy ===== *)
theory Tool_Loop_Laws
  imports Tool_Loop
begin

text \<open>
  What holds of the tool loop for every wire format: \<open>ran_calls\<close> is any number of calls of owned tools,
  and the locale \<open>tool_loop_format\<close> states what the loop relies on from the hooks of a format. Inside it:
  a returned answer carries the usage of every round, the rounds are bounded, nothing has run before the
  first response is accepted, capped calls stay within their cap, and a provider that calls only the tools
  a round declares is always answered.
\<close>

section \<open>Runs of owned calls\<close>

inductive ran_calls :: "('m, 'r) loop_env \<Rightarrow> tool_pool \<Rightarrow> ('m, 'r) loop_world \<Rightarrow> ('m, 'r) loop_world \<Rightarrow> bool"
  for env pool where
  none: "ran_calls env pool w w"
| one: "\<lbrakk>ran_calls env pool w w1; owns_tool pool name; run_tool env pool name arguments w1 = (res, w2)\<rbrakk>
    \<Longrightarrow> ran_calls env pool w w2"

lemma ran_calls_trans:
  assumes "ran_calls env pool w w1" "ran_calls env pool w1 w2"
  shows "ran_calls env pool w w2"
  using assms(2,1) by (induction rule: ran_calls.induct) (auto intro: ran_calls.intros)

lemma ran_one: "\<lbrakk>owns_tool pool name; run_tool env pool name arguments w = (res, w1)\<rbrakk> \<Longrightarrow> ran_calls env pool w w1"
  by (rule ran_calls.one [OF ran_calls.none])

definition billable :: "string \<Rightarrow> (string \<times> string) list \<Rightarrow> nat" where
  "billable name runs = length (filter (\<lambda>(n, text). n = name \<and> \<not> is_tool_error text) runs)"

lemma billable_simps [simp]:
  "billable name [] = 0"
  "billable name (runs @ others) = billable name runs + billable name others"
  "billable name [(n, text)] = (if n = name \<and> \<not> is_tool_error text then 1 else 0)"
  by (simp_all add: billable_def)

text \<open>The text of a call that raised starts with the error sentinel, so it is not billable.\<close>

lemma failure_is_error [simp]: "is_tool_error (tool_error_sentinel @ detail)"
  by (simp add: is_tool_error_def is_prefix_iff)

lemma run_tool_cases:
  assumes "run_tool env pool name arguments w = (res, w1)"
  obtains (refused) "w1 = w" "res = Inr (max_uses_exceeded_error, False)" "caps_call pool name w" "budget_exhausted name w"
  | (limit) "w1 = w" "res = Inl Max_Tool_Iterations_Exceeded"
      "le_tool env (length (lw_ran w)) name arguments = Loop_Limit"
  | (raised) said where "w1 = w\<lparr> lw_ran := lw_ran w @ [(name, said)] \<rparr>" "is_tool_error said" "res = Inr (said, True)"
  | (ran) said where "\<not> (caps_call pool name w \<and> budget_exhausted name w)" "res = Inr (said, True)"
      "w1 = (if caps_call pool name w then record_use name said (w\<lparr> lw_ran := lw_ran w @ [(name, said)] \<rparr>)
             else w\<lparr> lw_ran := lw_ran w @ [(name, said)] \<rparr>)"
proof (cases "caps_call pool name w \<and> budget_exhausted name w")
  case True
  with assms show thesis by (intro refused) (auto simp: run_tool_def)
next
  case False
  show thesis
  proof (cases "le_tool env (length (lw_ran w)) name arguments")
    case (Answered said)
    with False assms show thesis by (intro ran [of said]) (auto simp: run_tool_def Let_def)
  next
    case Failed
    with False assms show thesis
      by (intro raised [of "tool_error_sentinel @ '' '' @ tool_failure_detail pool name"]) (auto simp: run_tool_def Let_def)
  next
    case Loop_Limit
    with False assms show thesis by (intro limit) (auto simp: run_tool_def)
  qed
qed

lemma record_use_keeps [simp]:
  "lw_sent (record_use name text w) = lw_sent w"
  "lw_answers (record_use name text w) = lw_answers w"
  "lw_locked_in (record_use name text w) = lw_locked_in w"
  "lw_ran (record_use name text w) = lw_ran w"
  by (simp_all add: record_use_def split: option.split)

lemma run_tool_keeps:
  assumes "run_tool env pool name arguments w = (res, w1)"
  shows "lw_sent w1 = lw_sent w \<and> lw_answers w1 = lw_answers w \<and> lw_locked_in w1 = lw_locked_in w"
  using assms by (cases rule: run_tool_cases) auto

lemma ran_calls_keeps:
  assumes "ran_calls env pool w w1"
  shows "lw_sent w1 = lw_sent w \<and> lw_answers w1 = lw_answers w \<and> lw_locked_in w1 = lw_locked_in w"
  using assms by (induction rule: ran_calls.induct) (auto dest: run_tool_keeps)

lemmas ran_calls_sent = ran_calls_keeps [THEN conjunct1]
lemmas ran_calls_answers = ran_calls_keeps [THEN conjunct2, THEN conjunct1]
lemmas ran_calls_locked_in = ran_calls_keeps [THEN conjunct2, THEN conjunct2]

text \<open>A capped tool: the uses left and the billable calls so far always make up the cap.\<close>

definition cap_kept :: "string \<Rightarrow> int \<Rightarrow> ('m, 'r) loop_world \<Rightarrow> bool" where
  "cap_kept name cap w \<longleftrightarrow> (\<exists>left\<ge>0. lw_left w name = Some left \<and> left + int (billable name (lw_ran w)) = cap)"

lemma run_tool_cap:
  assumes "run_tool env pool n arguments w = (res, w1)" "owns_tool pool n" "cap_kept name cap w"
  shows "cap_kept name cap w1"
  using assms(1)
proof (cases rule: run_tool_cases)
  case (ran said)
  with assms(2,3) show ?thesis
    by (auto simp: cap_kept_def caps_call_def budget_exhausted_def record_use_def split: option.splits if_splits)
qed (use assms(3) in \<open>auto simp: cap_kept_def\<close>)

lemma ran_calls_cap:
  assumes "ran_calls env pool w w1" "cap_kept name cap w"
  shows "cap_kept name cap w1"
  using assms by (induction rule: ran_calls.induct) (auto intro: run_tool_cap)

section \<open>One round\<close>

lemma call_provider_cases:
  assumes "call_provider env k w = (res, w1)"
  obtains (failed) e where "res = Inl (Raised e)" "w1 = w\<lparr> lw_sent := lw_sent w @ [k] \<rparr>"
  | (answered) r where "res = Inr r" "le_answer env (length (lw_sent w)) k = Inr r"
      "w1 = w\<lparr> lw_sent := lw_sent w @ [k], lw_answers := lw_answers w @ [r] \<rparr>"
  using assms by (auto simp: call_provider_def Let_def split: sum.splits)

lemma lock_in_cases:
  assumes "lock_in env signaled r w = (res, w1)"
  obtains (refused) e where "res = Inl (Raised e)" "w1 = w" "\<not> signaled"
  | (later) "res = Inr ()" "w1 = w" "signaled"
  | (first) "res = Inr ()" "w1 = w\<lparr> lw_locked_in := Suc (lw_locked_in w) \<rparr>" "\<not> signaled"
  using assms by (auto simp: lock_in_def split: if_splits option.splits)

text \<open>A round as one request, one response at most, and what was made of it.\<close>

lemma run_round_cases:
  assumes "run_rounds st env pool rq (Suc k) signaled transcript acc w = (res, w')"
  obtains (no_answer) q e where
      "q = round_kwargs (ts_convert st) (ts_note st) pool rq False (k = 0) transcript" "res = Inl (Raised e)" "w' = w\<lparr> lw_sent := lw_sent w @ [q] \<rparr>"
  | (refused) q r e where
      "q = round_kwargs (ts_convert st) (ts_note st) pool rq False (k = 0) transcript"
      "res = Inl (Raised e)" "\<not> signaled"
      "w' = w\<lparr> lw_sent := lw_sent w @ [q], lw_answers := lw_answers w @ [r] \<rparr>"
  | (settled) q r w1 where
      "q = round_kwargs (ts_convert st) (ts_note st) pool rq False (k = 0) transcript"
      "le_answer env (length (lw_sent w)) q = Inr r"
      "w1 = w\<lparr> lw_sent := lw_sent w @ [q], lw_answers := lw_answers w @ [r],
               lw_locked_in := lw_locked_in w + of_bool (\<not> signaled) \<rparr>"
      "settle_round st env pool r (ts_accumulate st acc r) w1 = (Done res, w')"
  | (further) q r w1 turn acc1 w2 where
      "q = round_kwargs (ts_convert st) (ts_note st) pool rq False (k = 0) transcript"
      "le_answer env (length (lw_sent w)) q = Inr r"
      "w1 = w\<lparr> lw_sent := lw_sent w @ [q], lw_answers := lw_answers w @ [r],
               lw_locked_in := lw_locked_in w + of_bool (\<not> signaled) \<rparr>"
      "settle_round st env pool r (ts_accumulate st acc r) w1 = (Next turn acc1, w2)"
      "run_rounds st env pool rq k True (transcript @ turn) acc1 w2 = (res, w')"
proof -
  let ?q = "round_kwargs (ts_convert st) (ts_note st) pool rq False (k = 0) transcript"
  obtain answer wa where a: "call_provider env ?q w = (answer, wa)" by fastforce
  then show thesis
  proof (cases rule: call_provider_cases)
    case (failed e)
    with a assms show thesis by (intro no_answer [where q = ?q and e = e]) auto
  next
    case (answered r)
    obtain lock wl where l: "lock_in env signaled r wa = (lock, wl)" by fastforce
    then show thesis
    proof (cases rule: lock_in_cases)
      case (refused e)
      with a l answered assms show thesis by (intro that(2) [where q = ?q and r = r and e = e]) auto
    next
      case later
      with a l answered assms that(3,4) show thesis
        by (cases "settle_round st env pool r (ts_accumulate st acc r) wl") (auto split: round_outcome.splits)
    next
      case first
      with a l answered assms that(3,4) show thesis
        by (cases "settle_round st env pool r (ts_accumulate st acc r) wl") (auto split: round_outcome.splits)
    qed
  qed
qed

lemma settle_cases:
  assumes "settle_round st env pool r acc w = (out, w')"
  obtains (answer) "out = Done (Inr (ts_fold st r acc))" "w' = w"
      "ts_exit_before st r \<or> fst (ts_split st r pool) = [] \<or> ts_exit_after st r"
  | (broken) owned foreign e where "ts_split st r pool = (owned, foreign)"
      "ts_execute st env pool owned acc w = (Inl e, w')" "out = Done (Inl e)"
  | (mixed) owned acc1 where "ts_split st r pool = (owned, True)" "owned \<noteq> []"
      "ts_execute st env pool owned acc w = (Inr acc1, w')"
      "out = Done (Inr (ts_fold st (ts_filter st r owned pool) acc1))"
  | (halted) owned e where "ts_split st r pool = (owned, False)"
      "ts_advance st env pool r owned acc w = (Inl e, w')" "out = Done (Inl e)"
  | (advanced) owned turn acc1 where "ts_split st r pool = (owned, False)" "owned \<noteq> []"
      "ts_advance st env pool r owned acc w = (Inr (turn, acc1), w')" "out = Next turn acc1"
proof -
  obtain owned foreign where s: "ts_split st r pool = (owned, foreign)" by fastforce
  show thesis
  proof (cases "ts_exit_before st r \<or> (owned = [] \<or> \<not> foreign \<and> ts_exit_after st r)")
    case True
    with assms s show thesis by (intro answer) (auto simp: settle_round_def split: if_splits)
  next
    case False
    note go = this
    show thesis
    proof (cases foreign)
      case True
      with assms s go show thesis
        by (cases "ts_execute st env pool owned acc w") (auto simp: settle_round_def split: sum.splits intro: broken mixed)
    next
      case f: False
      with assms s go show thesis
        by (cases "ts_advance st env pool r owned acc w") (auto simp: settle_round_def split: sum.splits intro: halted advanced)
    qed
  qed
qed

section \<open>What a wire format promises\<close>

text \<open>Nothing is known of a token count but that it is one: no response reports a negative number.\<close>

definition reports_counts :: "('m, 'r) loop_env \<Rightarrow> ('r \<Rightarrow> int option) \<Rightarrow> bool" where
  "reports_counts env usage \<longleftrightarrow> (\<forall>n q r u. le_answer env n q = Inr r \<and> usage r = Some u \<longrightarrow> 0 \<le> u)"

definition reported :: "('r \<Rightarrow> int option) \<Rightarrow> 'r \<Rightarrow> int" where
  "reported usage r = (case usage r of None \<Rightarrow> 0 | Some u \<Rightarrow> u)"

definition declared_tools :: "'m round_request \<Rightarrow> wire_tool list" where
  "declared_tools q = (case rd_tools q of None \<Rightarrow> [] | Some ts \<Rightarrow> ts)"

text \<open>A provider that calls no tool its request does not declare.\<close>

definition calls_declared :: "('m, 'r) loop_env \<Rightarrow> ('r \<Rightarrow> string list) \<Rightarrow> bool" where
  "calls_declared env called \<longleftrightarrow>
     (\<forall>n q r. le_answer env n q = Inr r \<longrightarrow> (\<forall>name\<in>set (called r). Some name \<in> tool_name ` set (declared_tools q)))"

definition never_limited :: "('m, 'r) loop_env \<Rightarrow> bool" where
  "never_limited env \<longleftrightarrow> (\<forall>n name arguments. le_tool env n name arguments \<noteq> Loop_Limit)"

definition users_apart :: "tool_pool \<Rightarrow> 'm loop_request \<Rightarrow> bool" where
  "users_apart pool rq \<longleftrightarrow> (\<forall>t\<in>set (user_tools rq). case tool_name t of None \<Rightarrow> True | Some n \<Rightarrow> \<not> owns_tool pool n)"

lemma run_tool_limit: "run_tool env pool name arguments w = (Inl e, w1) \<Longrightarrow> \<not> never_limited env"
  by (erule run_tool_cases) (auto simp: never_limited_def)

lemma declared_round_kwargs [simp]:
  "declared_tools (round_kwargs convert note pool rq streamed final transcript)
     = (if final then user_tools rq else merged_tools convert pool rq)"
  by (simp add: declared_tools_def round_kwargs_def Let_def)

locale tool_loop_format =
  fixes st :: "('m, 'r, 'a, 'c) tool_strategy"
    and usage :: "'x \<Rightarrow> 'r \<Rightarrow> int option"
    and tally :: "'x \<Rightarrow> 'a \<Rightarrow> int"
    and called :: "'r \<Rightarrow> string list"
  assumes tally_new: "tally x (ts_new st) = 0"
    and tally_accumulate: "tally x (ts_accumulate st acc r) = tally x acc + reported (usage x) r"
    and usage_fold: "\<lbrakk>0 \<le> reported (usage x) r; reported (usage x) r \<le> tally x acc\<rbrakk>
      \<Longrightarrow> usage x (ts_fold st r acc) = map_option (\<lambda>_. tally x acc) (usage x r)"
    and usage_filter: "usage x (ts_filter st r owned pool) = usage x r"
    and tally_execute: "ts_execute st env pool owned acc w = (Inr acc1, w1) \<Longrightarrow> tally x acc1 = tally x acc"
    and tally_advance: "ts_advance st env pool r owned acc w = (Inr (turn, acc1), w1) \<Longrightarrow> tally x acc1 = tally x acc"
    and execute_ran: "\<lbrakk>ts_split st r pool = (owned, foreign); ts_execute st env pool owned acc w = (res, w1)\<rbrakk>
      \<Longrightarrow> ran_calls env pool w w1"
    and advance_ran: "\<lbrakk>ts_split st r pool = (owned, foreign); ts_advance st env pool r owned acc w = (res2, w1)\<rbrakk>
      \<Longrightarrow> ran_calls env pool w w1"
    and execute_limit: "ts_execute st env pool owned acc w = (Inl e, w1) \<Longrightarrow> \<not> never_limited env"
    and advance_limit: "ts_advance st env pool r owned acc w = (Inl e, w1) \<Longrightarrow> \<not> never_limited env"
    and split_called: "\<lbrakk>ts_split st r pool = (owned, foreign); owned \<noteq> []\<rbrakk>
      \<Longrightarrow> \<exists>name\<in>set (called r). owns_tool pool name"
begin

lemma settle_ran: "settle_round st env pool r acc w = (out, w1) \<Longrightarrow> ran_calls env pool w w1"
  by (erule settle_cases) (auto intro: ran_calls.none execute_ran advance_ran)

lemma settle_answer:
  assumes "settle_round st env pool r acc w = (Done (Inr r1), w1)"
    "0 \<le> reported (usage x) r" "reported (usage x) r \<le> tally x acc"
  shows "usage x r1 = map_option (\<lambda>_. tally x acc) (usage x r)"
  using assms(1)
proof (cases rule: settle_cases)
  case (mixed owned acc1)
  have "reported (usage x) (ts_filter st r owned pool) = reported (usage x) r"
    by (simp add: reported_def usage_filter)
  with mixed assms(2,3) show ?thesis by (simp add: usage_fold tally_execute usage_filter)
qed (use assms(2,3) in \<open>auto simp: usage_fold\<close>)

lemma settle_next:
  assumes "settle_round st env pool r acc w = (Next turn acc1, w1)"
  shows "tally x acc1 = tally x acc \<and> (\<exists>name\<in>set (called r). owns_tool pool name)"
  using assms by (cases rule: settle_cases) (auto simp: tally_advance dest: split_called)

lemma settle_failed:
  assumes "settle_round st env pool r acc w = (Done (Inl e), w1)"
  shows "\<not> never_limited env"
  using assms by (cases rule: settle_cases) (auto dest: execute_limit advance_limit)

lemma reported_nonneg:
  assumes "reports_counts env (usage x)" "le_answer env n q = Inr r"
  shows "0 \<le> reported (usage x) r"
  using assms by (fastforce simp: reports_counts_def reported_def split: option.splits)

text \<open>The usage of the answer is the sum over every response of the loop.\<close>

lemma rounds_bill:
  assumes "run_rounds st env pool rq k signaled transcript acc w = (Inr r, w1)"
    "reports_counts env (usage x)"
    "0 \<le> tally x acc" "tally x acc = sum_list (map (reported (usage x)) (lw_answers w))"
  shows "lw_answers w1 \<noteq> [] \<and>
    usage x r = map_option (\<lambda>_. sum_list (map (reported (usage x)) (lw_answers w1))) (usage x (last (lw_answers w1)))"
  using assms
proof (induction k arbitrary: signaled transcript acc w)
  case (Suc k)
  from Suc.prems(1) show ?case
  proof (cases rule: run_round_cases)
    case (settled q r0 wa)
    note pos = reported_nonneg [OF Suc.prems(2) settled(2)]
    have "usage x r = map_option (\<lambda>_. tally x (ts_accumulate st acc r0)) (usage x r0)"
      using settle_answer [OF settled(4), of x] pos Suc.prems(3) by (simp add: tally_accumulate)
    moreover have "lw_answers w1 = lw_answers w @ [r0]"
      using ran_calls_answers [OF settle_ran [OF settled(4)]] settled(3) by simp
    ultimately show ?thesis by (simp add: tally_accumulate Suc.prems(4))
  next
    case (further q r0 wa turn acc1 w2)
    have "lw_answers w2 = lw_answers w @ [r0]"
      using ran_calls_answers [OF settle_ran [OF further(4)]] further(3) by simp
    then show ?thesis
      using reported_nonneg [OF Suc.prems(2) further(2)] settle_next [OF further(4), of x] Suc.prems(2-4)
      by (intro Suc.IH [OF further(5)]) (auto simp: tally_accumulate)
  qed simp_all
qed simp

lemma loop_bills:
  assumes "run_tool_loop st env pool rq k w = (Inr r, w1)" "lw_answers w = []" "reports_counts env (usage x)"
  shows "lw_answers w1 \<noteq> [] \<and>
    usage x r = map_option (\<lambda>_. sum_list (map (reported (usage x)) (lw_answers w1))) (usage x (last (lw_answers w1)))"
  by (rule rounds_bill [OF assms(1) [unfolded run_tool_loop_def] assms(3)]) (simp_all add: tally_new assms(2))

text \<open>The answer is what the last response was settled to.\<close>

lemma rounds_final:
  assumes "run_rounds st env pool rq k signaled transcript acc w = (Inr r, w1)"
  shows "\<exists>acc0 w0. lw_answers w1 \<noteq> [] \<and> settle_round st env pool (last (lw_answers w1)) acc0 w0 = (Done (Inr r), w1)"
  using assms
proof (induction k arbitrary: signaled transcript acc w)
  case (Suc k)
  from Suc.prems show ?case
  proof (cases rule: run_round_cases)
    case (settled q r0 wa)
    have "lw_answers w1 = lw_answers w @ [r0]"
      using ran_calls_answers [OF settle_ran [OF settled(4)]] settled(3) by simp
    with settled(4) show ?thesis by auto
  next
    case (further q r0 wa turn acc1 w2)
    show ?thesis by (rule Suc.IH [OF further(5)])
  qed simp_all
qed simp

text \<open>Every request but the last one the loop allows declares the gateway's tools, and there are no more.\<close>

lemma rounds_declare:
  assumes "run_rounds st env pool rq k signaled transcript acc w = (res, w1)"
  shows "\<exists>qs. lw_sent w1 = lw_sent w @ qs \<and>
    map declared_tools qs = take (length qs) (replicate (k - 1) (merged_tools (ts_convert st) pool rq) @ [user_tools rq])
    \<and> length qs \<le> k"
  using assms
proof (induction k arbitrary: signaled transcript acc w)
  case (Suc k)
  let ?q = "round_kwargs (ts_convert st) (ts_note st) pool rq False (k = 0) transcript"
  have one: "[declared_tools ?q] = take 1 (replicate k (merged_tools (ts_convert st) pool rq) @ [user_tools rq])"
    by (cases k) simp_all
  from Suc.prems show ?case
  proof (cases rule: run_round_cases)
    case (settled q r0 wa)
    with one show ?thesis using ran_calls_sent [OF settle_ran [OF settled(4)]] by (intro exI [of _ "[q]"]) simp
  next
    case (further q r0 wa turn acc1 w2)
    have sent: "lw_sent w2 = lw_sent w @ [q]"
      using ran_calls_sent [OF settle_ran [OF further(4)]] further(3) by simp
    obtain qs where "lw_sent w1 = lw_sent w2 @ qs"
      "map declared_tools qs = take (length qs) (replicate (k - 1) (merged_tools (ts_convert st) pool rq) @ [user_tools rq])"
      "length qs \<le> k"
      using Suc.IH [OF further(5)] by blast
    with sent further(1) show ?thesis by (intro exI [of _ "q # qs"]) (cases k; auto)
  qed (use one in auto)
qed simp

text \<open>Tools run only once a response was accepted, and one response locks the provider in.\<close>

lemma rounds_signaled:
  assumes "run_rounds st env pool rq k True transcript acc w = (res, w1)"
  shows "lw_locked_in w1 = lw_locked_in w"
  using assms
proof (induction k arbitrary: transcript acc w)
  case (Suc k)
  from Suc.prems show ?case
  proof (cases rule: run_round_cases)
    case (settled q r0 wa)
    then show ?thesis using ran_calls_locked_in [OF settle_ran [OF settled(4)]] by simp
  next
    case (further q r0 wa turn acc1 w2)
    then show ?thesis using ran_calls_locked_in [OF settle_ran [OF further(4)]] Suc.IH [OF further(5)] by simp
  qed simp_all
qed simp

lemma loop_locks_in:
  assumes "run_tool_loop st env pool rq k w = (res, w1)"
  shows "lw_locked_in w1 = Suc (lw_locked_in w) \<or>
    lw_locked_in w1 = lw_locked_in w \<and> lw_ran w1 = lw_ran w \<and> lw_left w1 = lw_left w \<and> (\<exists>e. res = Inl e)
      \<and> length (lw_sent w1) \<le> Suc (length (lw_sent w))"
proof (cases k)
  case 0
  with assms show ?thesis by (auto simp: run_tool_loop_def)
next
  case (Suc j)
  from assms [unfolded run_tool_loop_def Suc] show ?thesis
  proof (cases rule: run_round_cases)
    case (settled q r0 wa)
    then show ?thesis using ran_calls_locked_in [OF settle_ran [OF settled(4)]] by simp
  next
    case (further q r0 wa turn acc1 w2)
    then show ?thesis using ran_calls_locked_in [OF settle_ran [OF further(4)]] rounds_signaled [OF further(5)] by simp
  qed auto
qed

lemma rounds_cap:
  assumes "run_rounds st env pool rq k signaled transcript acc w = (res, w1)" "cap_kept name cap w"
  shows "cap_kept name cap w1"
  using assms
proof (induction k arbitrary: signaled transcript acc w)
  case (Suc k)
  from Suc.prems(1) show ?case
  proof (cases rule: run_round_cases)
    case (settled q r0 wa)
    then show ?thesis using ran_calls_cap [OF settle_ran [OF settled(4)]] Suc.prems(2) by (simp add: cap_kept_def)
  next
    case (further q r0 wa turn acc1 w2)
    then show ?thesis
      using ran_calls_cap [OF settle_ran [OF further(4)]] Suc.prems(2) by (intro Suc.IH [OF further(5)]) (simp add: cap_kept_def)
  qed (use Suc.prems(2) in \<open>auto simp: cap_kept_def\<close>)
qed simp

lemma loop_cap:
  assumes "run_tool_loop st env pool rq k w = (res, w1)" "lw_ran w = []" "lw_left w name = Some cap" "0 \<le> cap"
  shows "int (billable name (lw_ran w1)) \<le> cap"
proof -
  have "cap_kept name cap w1"
    by (rule rounds_cap [OF assms(1) [unfolded run_tool_loop_def]]) (use assms(2-4) in \<open>simp add: cap_kept_def\<close>)
  then show ?thesis by (auto simp: cap_kept_def)
qed

text \<open>The last round declares no owned tool, so a provider that keeps to its request has to answer.\<close>

lemma rounds_answer:
  assumes "run_rounds st env pool rq k signaled transcript acc w = (res, w1)" "0 < k"
    "calls_declared env called" "never_limited env" "users_apart pool rq"
  shows "res \<noteq> Inl Max_Tool_Iterations_Exceeded"
  using assms
proof (induction k arbitrary: signaled transcript acc w)
  case (Suc k)
  from Suc.prems(1) show ?case
  proof (cases rule: run_round_cases)
    case (settled q r0 wa)
    then show ?thesis using settle_failed [of env pool r0 "ts_accumulate st acc r0" wa _ w1] Suc.prems(4) by blast
  next
    case (further q r0 wa turn acc1 w2)
    obtain name where name: "name \<in> set (called r0)" "owns_tool pool name"
      using settle_next [OF further(4)] by blast
    have "Some name \<in> tool_name ` set (declared_tools q)"
      using Suc.prems(3) further(2) name(1) by (auto simp: calls_declared_def)
    then have "0 < k" using further(1) name(2) Suc.prems(5) by (cases k) (auto simp: users_apart_def split: option.splits)
    then show ?thesis using Suc.IH [OF further(5)] Suc.prems(3-5) by blast
  qed simp_all
qed simp

end

section \<open>Sample\<close>

definition sample_search :: tool_backend where
  "sample_search = \<lparr> tb_tools = [Function_Tool (Some ''search'') ''s''], tb_owns = (\<lambda>n. n = ''search''),
     tb_server_for = (\<lambda>n. None) \<rparr>"

definition idle_loop :: "(string \<Rightarrow> int option) \<Rightarrow> ('m, 'r) loop_world" where
  "idle_loop caps = \<lparr> lw_sent = [], lw_answers = [], lw_locked_in = 0, lw_ran = [], lw_left = caps \<rparr>"

end
