(* ===== verification/Chat_Loop.thy ===== *)
theory Chat_Loop
  imports Tool_Loop_Laws
begin

text \<open>
  The Chat Completions loop of \<open>services/mcp_loop.py\<close> without streaming: the completion as far as the loop
  reads or writes it, the hooks of \<open>_ChatToolLoopStrategy\<close> for a request that declared no tool in a
  provider's own words, and the format interpreted as a \<open>tool_loop_format\<close>. The report of the calls keeps
  the MCP ones only, without the id and the cut at 64 KiB of \<open>mcp_entry\<close>.
\<close>

section \<open>The completion\<close>

text \<open>A call of the SDK with a \<open>function\<close>, or one without, such as a custom tool's.\<close>

datatype sdk_call =
    Function_Call (sdk_id: "string option") (sdk_name: string) (sdk_arguments: string) (sdk_extra: "string option")
  | Other_Call string

record chat_usage =
  cu_prompt :: int
  cu_completion :: int
  cu_total :: int
  cu_details :: "int option option"

record chat_choice =
  ch_finish :: "string option"
  ch_calls :: "sdk_call list option"
  ch_rest :: string

text \<open>An entry of \<open>otari_tool_calls\<close>: the server, the tool, whether it failed, and its text.\<close>

datatype mcp_report = Mcp_Report string string bool string

record chat_completion =
  cc_choices :: "chat_choice list"
  cc_usage :: "chat_usage option"
  cc_tool_calls :: "mcp_report list option"
  cc_rest :: string

section \<open>The transcript\<close>

record tool_call =
  tk_id :: "string option"
  tk_name :: string
  tk_arguments :: string
  tk_extra :: "string option"

datatype chat_message =
    Given string
  | User_Message string
  | Assistant_Calls "tool_call list"
  | Tool_Result string string

definition final_round_note :: string where
  "final_round_note =
     ''No more tool calls are available for this request. Answer now from the results you already have.''"

definition tool_call_dict :: "sdk_call \<Rightarrow> tool_call list" where
  "tool_call_dict c = (case c of
       Function_Call i n a extra \<Rightarrow> [\<lparr> tk_id = i, tk_name = n, tk_arguments = a,
         tk_extra = (case extra of Some (x # xs) \<Rightarrow> extra | _ \<Rightarrow> None) \<rparr>]
     | Other_Call e \<Rightarrow> [])"

definition execute_split :: "tool_call list \<Rightarrow> tool_pool \<Rightarrow> tool_call list \<times> bool" where
  "execute_split calls pool =
     (filter (\<lambda>c. owns_tool pool (tk_name c)) calls, \<exists>c\<in>set calls. \<not> owns_tool pool (tk_name c))"

section \<open>Running the calls\<close>

text \<open>The report of an ended call of an MCP server's tool; a call that was refused has none.\<close>

definition ended_entries :: "tool_pool \<Rightarrow> string \<Rightarrow> string \<times> bool \<Rightarrow> mcp_report list" where
  "ended_entries pool name answer = (case (answer, server_for pool name) of
       ((text, True), Some server) \<Rightarrow> [Mcp_Report server name (is_tool_error text) text]
     | _ \<Rightarrow> [])"

fun run_owned_calls ::
  "('m, 'r) loop_env \<Rightarrow> tool_pool \<Rightarrow> tool_call list \<Rightarrow> ('m, 'r) loop_world
     \<Rightarrow> (loop_error + chat_message list \<times> mcp_report list) \<times> ('m, 'r) loop_world" where
  "run_owned_calls env pool [] w = (Inr ([], []), w)"
| "run_owned_calls env pool (c # cs) w =
     (case run_tool env pool (tk_name c) (tk_arguments c) w of
        (Inl e, w1) \<Rightarrow> (Inl e, w1)
      | (Inr answer, w1) \<Rightarrow> (case run_owned_calls env pool cs w1 of
          (Inl e, w2) \<Rightarrow> (Inl e, w2)
        | (Inr (results, reports), w2) \<Rightarrow>
            (Inr (Tool_Result (case tk_id c of None \<Rightarrow> [] | Some i \<Rightarrow> i) (fst answer) # results,
                  ended_entries pool (tk_name c) answer @ reports), w2)))"

section \<open>Totals\<close>

record chat_totals =
  ct_prompt :: int
  ct_completion :: int
  ct_cache_read :: int
  ct_tool_calls :: "mcp_report list"

definition new_chat_totals :: chat_totals where
  "new_chat_totals = \<lparr> ct_prompt = 0, ct_completion = 0, ct_cache_read = 0, ct_tool_calls = [] \<rparr>"

definition cached_tokens :: "chat_usage \<Rightarrow> int" where
  "cached_tokens u = (case cu_details u of Some (Some n) \<Rightarrow> n | _ \<Rightarrow> 0)"

definition add_usage :: "chat_totals \<Rightarrow> chat_usage option \<Rightarrow> chat_totals" where
  "add_usage acc usage = (case usage of
       None \<Rightarrow> acc
     | Some u \<Rightarrow> acc\<lparr> ct_prompt := ct_prompt acc + cu_prompt u,
                     ct_completion := ct_completion acc + cu_completion u,
                     ct_cache_read := ct_cache_read acc + cached_tokens u \<rparr>)"

definition fold_chat_usage :: "chat_usage option \<Rightarrow> int \<Rightarrow> int \<Rightarrow> int \<Rightarrow> chat_usage option" where
  "fold_chat_usage usage prompt_total completion_total cache_read_total = (case usage of
       None \<Rightarrow> None
     | Some u \<Rightarrow> Some \<lparr> cu_prompt = prompt_total, cu_completion = completion_total,
         cu_total = prompt_total + completion_total,
         cu_details = (case cu_details u of
             Some d \<Rightarrow> Some (Some cache_read_total)
           | None \<Rightarrow> if 0 < cache_read_total then Some (Some cache_read_total) else None) \<rparr>)"

section \<open>The hooks\<close>

definition chat_fold :: "chat_completion \<Rightarrow> chat_totals \<Rightarrow> chat_completion" where
  "chat_fold r acc =
     (let r1 = r\<lparr> cc_usage := fold_chat_usage (cc_usage r) (ct_prompt acc) (ct_completion acc) (ct_cache_read acc) \<rparr> in
      if ct_tool_calls acc = [] then r1 else r1\<lparr> cc_tool_calls := Some (ct_tool_calls acc) \<rparr>)"

definition chat_exit_before :: "chat_completion \<Rightarrow> bool" where
  "chat_exit_before r = (case cc_choices r of [] \<Rightarrow> True | ch # chs \<Rightarrow> ch_finish ch \<noteq> Some ''tool_calls'')"

definition sdk_calls :: "chat_completion \<Rightarrow> sdk_call list" where
  "sdk_calls r = (case cc_choices r of
       [] \<Rightarrow> []
     | ch # chs \<Rightarrow> (case ch_calls ch of None \<Rightarrow> [] | Some cs \<Rightarrow> cs))"

definition chat_split :: "chat_completion \<Rightarrow> tool_pool \<Rightarrow> tool_call list \<times> bool" where
  "chat_split r pool = execute_split (concat (map tool_call_dict (sdk_calls r))) pool"

fun is_function :: "sdk_call \<Rightarrow> bool" where
  "is_function (Function_Call i n a extra) = True"
| "is_function (Other_Call e) = False"

definition chat_filter :: "chat_completion \<Rightarrow> tool_call list \<Rightarrow> tool_pool \<Rightarrow> chat_completion" where
  "chat_filter r owned pool = (case cc_choices r of
       [] \<Rightarrow> r
     | ch # chs \<Rightarrow>
        (let foreign = filter (\<lambda>c. is_function c \<and> \<not> owns_tool pool (sdk_name c)) (sdk_calls r) in
         r\<lparr> cc_choices := ch\<lparr> ch_calls := if foreign = [] then None else Some foreign \<rparr> # chs \<rparr>))"

definition chat_execute ::
  "('m, 'r) loop_env \<Rightarrow> tool_pool \<Rightarrow> tool_call list \<Rightarrow> chat_totals \<Rightarrow> ('m, 'r) loop_world
     \<Rightarrow> (loop_error + chat_totals) \<times> ('m, 'r) loop_world" where
  "chat_execute env pool owned acc w = (case run_owned_calls env pool owned w of
       (Inl e, w1) \<Rightarrow> (Inl e, w1)
     | (Inr (results, reports), w1) \<Rightarrow> (Inr (acc\<lparr> ct_tool_calls := ct_tool_calls acc @ reports \<rparr>), w1))"

definition chat_advance ::
  "('m, 'r) loop_env \<Rightarrow> tool_pool \<Rightarrow> 'r \<Rightarrow> tool_call list \<Rightarrow> chat_totals \<Rightarrow> ('m, 'r) loop_world
     \<Rightarrow> (loop_error + chat_message list \<times> chat_totals) \<times> ('m, 'r) loop_world" where
  "chat_advance env pool r owned acc w = (case run_owned_calls env pool owned w of
       (Inl e, w1) \<Rightarrow> (Inl e, w1)
     | (Inr (results, reports), w1) \<Rightarrow>
         (Inr (Assistant_Calls owned # results, acc\<lparr> ct_tool_calls := ct_tool_calls acc @ reports \<rparr>), w1))"

definition chat_strategy :: "(chat_message, chat_completion, chat_totals, tool_call) tool_strategy" where
  "chat_strategy = \<lparr> ts_convert = (\<lambda>tools. tools), ts_note = User_Message final_round_note,
     ts_new = new_chat_totals, ts_accumulate = (\<lambda>acc r. add_usage acc (cc_usage r)), ts_fold = chat_fold,
     ts_exit_before = chat_exit_before, ts_split = chat_split, ts_exit_after = (\<lambda>r. False),
     ts_execute = chat_execute, ts_filter = chat_filter, ts_advance = chat_advance \<rparr>"

definition mcp_tool_loop ::
  "(chat_message, chat_completion) loop_env \<Rightarrow> tool_pool \<Rightarrow> chat_message loop_request \<Rightarrow> nat
     \<Rightarrow> (chat_message, chat_completion) loop_world
     \<Rightarrow> (loop_error + chat_completion) \<times> (chat_message, chat_completion) loop_world" where
  "mcp_tool_loop env pool rq max_iterations w = run_tool_loop chat_strategy env pool rq max_iterations w"

section \<open>The format as a \<open>tool_loop_format\<close>\<close>

datatype chat_axis = Prompt | Completion | Cached

fun chat_usage_of :: "chat_axis \<Rightarrow> chat_completion \<Rightarrow> int option" where
  "chat_usage_of Prompt r = map_option cu_prompt (cc_usage r)"
| "chat_usage_of Completion r = map_option cu_completion (cc_usage r)"
| "chat_usage_of Cached r = map_option cached_tokens (cc_usage r)"

fun chat_tally :: "chat_axis \<Rightarrow> chat_totals \<Rightarrow> int" where
  "chat_tally Prompt acc = ct_prompt acc"
| "chat_tally Completion acc = ct_completion acc"
| "chat_tally Cached acc = ct_cache_read acc"

definition chat_called :: "chat_completion \<Rightarrow> string list" where
  "chat_called r = map sdk_name (filter is_function (sdk_calls r))"

lemma tool_call_names: "map tk_name (concat (map tool_call_dict cs)) = map sdk_name (filter is_function cs)"
  by (induction cs) (auto simp: tool_call_dict_def split: sdk_call.splits)

lemma chat_split_owned:
  assumes "chat_split r pool = (owned, foreign)"
  shows "\<forall>c\<in>set owned. owns_tool pool (tk_name c)"
    "map tk_name owned = filter (owns_tool pool) (chat_called r)"
    "foreign \<longleftrightarrow> (\<exists>n\<in>set (chat_called r). \<not> owns_tool pool n)"
proof -
  let ?cs = "concat (map tool_call_dict (sdk_calls r))"
  have names: "map tk_name ?cs = chat_called r" by (simp add: chat_called_def tool_call_names)
  show "\<forall>c\<in>set owned. owns_tool pool (tk_name c)" using assms by (auto simp: chat_split_def execute_split_def)
  show "map tk_name owned = filter (owns_tool pool) (chat_called r)"
    using assms by (simp add: names [symmetric] chat_split_def execute_split_def filter_map o_def del: map_concat)
  have "(\<exists>c\<in>set ?cs. \<not> owns_tool pool (tk_name c)) \<longleftrightarrow> (\<exists>n\<in>set (map tk_name ?cs). \<not> owns_tool pool n)"
    by (simp only: set_map bex_simps)
  then show "foreign \<longleftrightarrow> (\<exists>n\<in>set (chat_called r). \<not> owns_tool pool n)"
    using assms by (simp only: names chat_split_def execute_split_def) auto
qed

lemma run_owned_ran:
  assumes "run_owned_calls env pool cs w = (res, w1)" "\<forall>c\<in>set cs. owns_tool pool (tk_name c)"
  shows "ran_calls env pool w w1"
  using assms
proof (induction cs arbitrary: w res w1)
  case (Cons c cs)
  obtain answer wa where a: "run_tool env pool (tk_name c) (tk_arguments c) w = (answer, wa)" by fastforce
  have first: "ran_calls env pool w wa" using ran_one [OF _ a] Cons.prems(2) by simp
  obtain others wb where b: "run_owned_calls env pool cs wa = (others, wb)" by fastforce
  have "w1 = wa \<or> w1 = wb" using Cons.prems(1) a b by (auto split: sum.splits)
  with first Cons.IH [OF b] Cons.prems(2) show ?case by (auto intro: ran_calls_trans)
qed (auto intro: ran_calls.none)

lemma run_owned_limit: "run_owned_calls env pool cs w = (Inl e, w1) \<Longrightarrow> \<not> never_limited env"
  by (induction cs arbitrary: w) (auto split: prod.splits sum.splits dest: run_tool_limit)

lemma chat_fold_usage:
  assumes "0 \<le> reported (chat_usage_of x) r" "reported (chat_usage_of x) r \<le> chat_tally x acc"
  shows "chat_usage_of x (chat_fold r acc) = map_option (\<lambda>_. chat_tally x acc) (chat_usage_of x r)"
  using assms
  by (cases x; cases "cc_usage r")
    (auto simp: chat_fold_def fold_chat_usage_def reported_def cached_tokens_def Let_def split: option.splits)

interpretation chat: tool_loop_format chat_strategy chat_usage_of chat_tally chat_called
proof (unfold_locales, goal_cases)
  case (1 x)
  then show ?case by (cases x) (simp_all add: chat_strategy_def new_chat_totals_def)
next
  case (2 x acc r)
  then show ?case by (cases x; cases "cc_usage r") (simp_all add: chat_strategy_def add_usage_def reported_def)
next
  case (3 x r acc)
  then show ?case by (simp add: chat_strategy_def chat_fold_usage)
next
  case (4 x r owned pool)
  then show ?case
    by (cases x) (simp_all add: chat_strategy_def chat_filter_def Let_def split: list.split)
next
  case (5 env pool owned acc w acc1 w1 x)
  then show ?case by (cases x) (auto simp: chat_strategy_def chat_execute_def split: prod.splits sum.splits)
next
  case (6 env pool r owned acc w turn acc1 w1 x)
  then show ?case by (cases x) (auto simp: chat_strategy_def chat_advance_def split: prod.splits sum.splits)
next
  case (7 r pool owned foreign env acc w res w1)
  then show ?case
    by (auto simp: chat_strategy_def chat_execute_def split: prod.splits sum.splits
        intro: run_owned_ran dest: chat_split_owned(1))
next
  case (8 r pool owned foreign env acc w res w1)
  then show ?case
    by (auto simp: chat_strategy_def chat_advance_def split: prod.splits sum.splits
        intro: run_owned_ran dest: chat_split_owned(1))
next
  case (9 env pool owned acc w e w1)
  then show ?case
    by (auto simp: chat_strategy_def chat_execute_def split: prod.splits sum.splits dest: run_owned_limit)
next
  case (10 env pool r owned acc w e w1)
  then show ?case
    by (auto simp: chat_strategy_def chat_advance_def split: prod.splits sum.splits dest: run_owned_limit)
next
  case (11 r pool owned foreign)
  then have "filter (owns_tool pool) (chat_called r) \<noteq> []"
    by (metis chat_split_owned(2) chat_strategy_def map_is_Nil_conv tool_strategy.select_convs(7))
  then show ?case by (auto simp: filter_empty_conv)
qed

lemma chat_fold_choices [simp]: "cc_choices (chat_fold r acc) = cc_choices r"
  by (simp add: chat_fold_def Let_def)

lemma chat_choices_same:
  assumes "cc_choices r = cc_choices r1"
  shows "chat_exit_before r = chat_exit_before r1" "sdk_calls r = sdk_calls r1"
  using assms by (simp_all add: chat_exit_before_def sdk_calls_def)

lemma chat_fold_total:
  "cc_usage (chat_fold r acc) = Some u \<Longrightarrow> cu_total u = cu_prompt u + cu_completion u"
  by (auto simp: chat_fold_def fold_chat_usage_def Let_def split: option.splits if_splits)

lemma chat_settled_total:
  assumes "settle_round chat_strategy env pool r0 acc w0 = (Done (Inr r), w1)" "cc_usage r = Some u"
  shows "cu_total u = cu_prompt u + cu_completion u"
  using assms by (cases rule: settle_cases) (auto simp: chat_strategy_def dest: chat_fold_total)

lemma chat_filter_calls:
  assumes "cc_choices r \<noteq> []"
  shows "sdk_calls (chat_filter r owned pool) = filter (\<lambda>c. is_function c \<and> \<not> owns_tool pool (sdk_name c)) (sdk_calls r)"
  using assms by (cases "cc_choices r") (simp_all add: chat_filter_def sdk_calls_def Let_def)

definition gateway_call :: "tool_pool \<Rightarrow> sdk_call \<Rightarrow> bool" where
  "gateway_call pool c \<longleftrightarrow> is_function c \<and> owns_tool pool (sdk_name c)"

lemma gateway_calls_owned: "fst (chat_split r pool) = [] \<longleftrightarrow> filter (gateway_call pool) (sdk_calls r) = []"
proof -
  have "fst (chat_split r pool) = [] \<longleftrightarrow> filter (owns_tool pool) (chat_called r) = []"
    using chat_split_owned(2) [of r pool "fst (chat_split r pool)" "snd (chat_split r pool)"]
    by (metis map_is_Nil_conv prod.collapse)
  then show ?thesis by (auto simp: filter_empty_conv chat_called_def gateway_call_def)
qed

lemma chat_settled_calls:
  assumes "settle_round chat_strategy env pool r0 acc w0 = (Done (Inr r), w1)" "\<not> chat_exit_before r"
  shows "sdk_calls r = (if filter (gateway_call pool) (sdk_calls r0) = [] then sdk_calls r0
    else filter (\<lambda>c. is_function c \<and> \<not> owns_tool pool (sdk_name c)) (sdk_calls r0))"
  using assms(1)
proof (cases rule: settle_cases)
  case answer
  then have r: "cc_choices r = cc_choices r0" by (simp add: chat_strategy_def)
  have "fst (chat_split r0 pool) = []"
    using answer(3) assms(2) chat_choices_same(1) [OF r] by (simp add: chat_strategy_def)
  then show ?thesis using chat_choices_same(2) [OF r] by (simp add: gateway_calls_owned)
next
  case (mixed owned acc1)
  then have "cc_choices r0 \<noteq> []" "fst (chat_split r0 pool) \<noteq> []"
    by (auto simp: chat_strategy_def chat_split_def execute_split_def sdk_calls_def split: list.splits)
  from mixed have r: "cc_choices r = cc_choices (chat_filter r0 owned pool)" by (simp add: chat_strategy_def)
  show ?thesis
    using chat_choices_same(2) [OF r] chat_filter_calls [OF \<open>cc_choices r0 \<noteq> []\<close>]
      \<open>fst (chat_split r0 pool) \<noteq> []\<close> by (simp add: gateway_calls_owned)
qed (simp_all add: chat_strategy_def)

section \<open>Sample\<close>

definition sample_reply :: "string \<Rightarrow> sdk_call list \<Rightarrow> int \<Rightarrow> chat_completion" where
  "sample_reply finish calls n = \<lparr> cc_choices = [\<lparr> ch_finish = Some finish, ch_calls = Some calls, ch_rest = [] \<rparr>],
     cc_usage = Some \<lparr> cu_prompt = n, cu_completion = 5, cu_total = n + 5, cu_details = Some (Some 2) \<rparr>,
     cc_tool_calls = None, cc_rest = [] \<rparr>"

definition sample_calls :: "sdk_call list" where
  "sample_calls = [Function_Call (Some ''a'') ''search'' ''{}'' None]"

text \<open>It calls the search as long as that is declared, then the caller's own tool.\<close>

definition sample_chat :: "(chat_message, chat_completion) loop_env" where
  "sample_chat = \<lparr> le_answer = (\<lambda>n q. Inr (if Some ''search'' \<in> tool_name ` set (declared_tools q)
        then sample_reply ''tool_calls'' sample_calls 10 else sample_reply ''stop'' [] 20)),
     le_tool = (\<lambda>n name arguments. Answered ''found''), le_check = (\<lambda>r. None) \<rparr>"

definition sample_mixed :: "(chat_message, chat_completion) loop_env" where
  "sample_mixed = sample_chat\<lparr> le_answer := (\<lambda>n q.
     Inr (sample_reply ''tool_calls'' (sample_calls @ [Function_Call (Some ''b'') ''mine'' ''{}'' None]) 10)) \<rparr>"

definition sample_loop :: "chat_message loop_request" where
  "sample_loop = \<lparr> lr_transcript = [Given ''hi''], lr_tools = Some [Function_Tool (Some ''mine'') ''m''],
     lr_tool_choice = None, lr_rest = [] \<rparr>"

lemma sample_chat_run:
  "case mcp_tool_loop sample_chat [sample_search] sample_loop 2 (idle_loop Map.empty) of (res, w1) \<Rightarrow>
     (case res of Inl e \<Rightarrow> False | Inr r \<Rightarrow> True)
     \<and> lw_answers w1 = [sample_reply ''tool_calls'' sample_calls 10, sample_reply ''stop'' [] 20]"
  by code_simp

lemma sample_mixed_run:
  "case mcp_tool_loop sample_mixed [sample_search] sample_loop 2 (idle_loop Map.empty) of (res, w1) \<Rightarrow>
     (case res of Inl e \<Rightarrow> False | Inr r \<Rightarrow> \<not> chat_exit_before r \<and> sdk_calls r = [Function_Call (Some ''b'') ''mine'' ''{}'' None])
     \<and> lw_ran w1 = [(''search'', ''found'')]"
  by code_simp

lemma sample_counts: "\<forall>x. reports_counts sample_chat (chat_usage_of x)"
proof
  fix x
  show "reports_counts sample_chat (chat_usage_of x)"
    by (cases x) (auto simp: reports_counts_def sample_chat_def sample_reply_def cached_tokens_def)
qed

text \<open>
  A call without a \<open>function\<close>, such as a call of a custom tool of the caller's, is neither owned nor foreign:
  beside a call of the gateway's own it is filtered out of the answer.
\<close>

definition sample_custom :: "(chat_message, chat_completion) loop_env" where
  "sample_custom = sample_chat\<lparr> le_answer := (\<lambda>n q. Inr (sample_reply ''tool_calls''
     (sample_calls @ [Function_Call (Some ''b'') ''mine'' ''{}'' None, Other_Call ''c'']) 10)) \<rparr>"

lemma custom_call_is_dropped:
  "map_sum (\<lambda>e. e) sdk_calls (fst (mcp_tool_loop sample_custom [sample_search] sample_loop 2 (idle_loop Map.empty)))
    = Inr [Function_Call (Some ''b'') ''mine'' ''{}'' None]"
  by code_simp

section \<open>Properties\<close>

text \<open>
  . A chat completion that the tool loop returns bills every round: when the last response reports its
  usage, the answer's prompt, completion and cached tokens are the sums over all the responses of the
  loop, those the caller never saw included, and its total is their sum.
\<close>

theorem chat_bills_every_round:
  assumes "mcp_tool_loop env pool rq n w = (Inr r, w1)" "lw_answers w = []"
    "\<forall>x. reports_counts env (chat_usage_of x)" "cc_usage (last (lw_answers w1)) \<noteq> None"
  shows "\<exists>u. cc_usage r = Some u
    \<and> cu_prompt u = sum_list (map (reported (chat_usage_of Prompt)) (lw_answers w1))
    \<and> cu_completion u = sum_list (map (reported (chat_usage_of Completion)) (lw_answers w1))
    \<and> cached_tokens u = sum_list (map (reported (chat_usage_of Cached)) (lw_answers w1))
    \<and> cu_total u = cu_prompt u + cu_completion u"
proof -
  note run = assms(1) [unfolded mcp_tool_loop_def]
  have usage: "chat_usage_of x r = Some (sum_list (map (reported (chat_usage_of x)) (lw_answers w1)))" for x
    using chat.loop_bills [OF run assms(2) assms(3) [THEN spec], of x] assms(4) by (cases x) auto
  obtain u where u: "cc_usage r = Some u" using usage [of Prompt] by auto
  have "cu_total u = cu_prompt u + cu_completion u"
    using chat.rounds_final [OF run [unfolded run_tool_loop_def]] u by (blast intro: chat_settled_total)
  with u usage [of Prompt] usage [of Completion] usage [of Cached] show ?thesis by auto
qed

theorem chat_bills_every_round_witness:
  "case mcp_tool_loop sample_chat [sample_search] sample_loop 2 (idle_loop Map.empty) of
     (Inr r, w1) \<Rightarrow> (\<exists>u. cc_usage r = Some u \<and> cu_prompt u = 30 \<and> cu_completion u = 10
       \<and> cached_tokens u = 4 \<and> cu_total u = 40)
   | _ \<Rightarrow> False"
proof -
  obtain r w1 where run: "mcp_tool_loop sample_chat [sample_search] sample_loop 2 (idle_loop Map.empty) = (Inr r, w1)"
    and answers: "lw_answers w1 = [sample_reply ''tool_calls'' sample_calls 10, sample_reply ''stop'' [] 20]"
    using sample_chat_run by (auto split: prod.splits sum.splits)
  show ?thesis
    using chat_bills_every_round [OF run _ sample_counts] answers run
    by (auto simp: idle_loop_def sample_reply_def reported_def cached_tokens_def)
qed

text \<open>
  \<^bold>\<open>C21\<close>. What a caller who is told to run tool calls is given, exactly: when the last response makes no call of
  a gateway tool, all of its calls; otherwise its function calls of tools the gateway does not own, in order. So
  no call of the gateway's own is among them and no function call of the caller's is missing, but beside a call
  of the gateway's own a caller's custom call, which has no function, is dropped.
\<close>

theorem chat_returns_callers_calls:
  assumes "mcp_tool_loop env pool rq n w = (Inr r, w1)" "\<not> chat_exit_before r"
  shows "sdk_calls r = (let calls = sdk_calls (last (lw_answers w1)) in
    if filter (gateway_call pool) calls = [] then calls
    else filter (\<lambda>c. is_function c \<and> \<not> owns_tool pool (sdk_name c)) calls)"
proof -
  obtain acc w0 where "settle_round chat_strategy env pool (last (lw_answers w1)) acc w0 = (Done (Inr r), w1)"
    using chat.rounds_final assms(1) unfolding mcp_tool_loop_def run_tool_loop_def by blast
  then show ?thesis using chat_settled_calls [OF _ assms(2)] by (simp only: Let_def)
qed

theorem chat_returns_callers_calls_witness:
  "case mcp_tool_loop sample_mixed [sample_search] sample_loop 2 (idle_loop Map.empty) of
     (Inr r, w1) \<Rightarrow> [Function_Call (Some ''b'') ''mine'' ''{}'' None] = (let calls = sdk_calls (last (lw_answers w1)) in
       if filter (gateway_call [sample_search]) calls = [] then calls
       else filter (\<lambda>c. is_function c \<and> \<not> owns_tool [sample_search] (sdk_name c)) calls)
   | _ \<Rightarrow> False"
proof -
  obtain r w1 where run: "mcp_tool_loop sample_mixed [sample_search] sample_loop 2 (idle_loop Map.empty) = (Inr r, w1)"
    and r: "\<not> chat_exit_before r" "sdk_calls r = [Function_Call (Some ''b'') ''mine'' ''{}'' None]"
    using sample_mixed_run by (auto split: prod.splits sum.splits)
  show ?thesis unfolding run prod.case sum.case
    by (rule chat_returns_callers_calls [OF run r(1), unfolded r(2)])
qed

text \<open>
  \<^bold>\<open>C22\<close>. The loop always ends in an answer of its own: as long as the provider calls only tools that its
  request declares, no tool of the caller has a gateway tool's name and no backend limits its calls, a
  loop of at least one round never fails for having run out of rounds.
\<close>

theorem chat_loop_always_answers:
  assumes "mcp_tool_loop env pool rq n w = (res, w1)" "0 < n"
    "calls_declared env chat_called" "never_limited env" "users_apart pool rq"
  shows "res \<noteq> Inl Max_Tool_Iterations_Exceeded"
  by (rule chat.rounds_answer [OF _ assms(2-5)]) (use assms(1) in \<open>simp add: mcp_tool_loop_def run_tool_loop_def\<close>)

theorem chat_loop_always_answers_witness:
  "fst (mcp_tool_loop sample_chat [sample_search] sample_loop 2 (idle_loop Map.empty)) \<noteq> Inl Max_Tool_Iterations_Exceeded"
proof -
  have "calls_declared sample_chat chat_called"
    by (auto simp: calls_declared_def sample_chat_def sample_reply_def chat_called_def sdk_calls_def sample_calls_def)
  moreover have "never_limited sample_chat" "users_apart [sample_search] sample_loop"
    by (simp_all add: never_limited_def sample_chat_def users_apart_def sample_loop_def user_tools_def owns_tool_def
        backend_for_def sample_search_def)
  ultimately show ?thesis
    using chat_loop_always_answers [OF prod.collapse [symmetric], of 2] by (metis zero_less_numeral)
qed

end
