(* ===== verification/Messages_Stream.thy ===== *)
theory Messages_Stream
  imports Tool_Loop_Laws
begin

text \<open>
  The streaming tool loop, \<open>run_tool_loop_stream\<close> of \<open>services/_tool_loop.py\<close>, with the Anthropic Messages hooks
  of \<open>services/mcp_loop_messages.py\<close> for a request that declared no tool in Anthropic's own words and takes no
  MCP activity. The upstream of a round is the list of its events, with the exception that ends it, if any.
\<close>

section \<open>The engine\<close>

datatype stream_action = Forward | Defer | Break

record ('m, 'e, 's, 'a) stream_hooks =
  sh_convert :: "wire_tool list \<Rightarrow> wire_tool list"
  sh_note :: 'm
  sh_new_state :: 's
  sh_new_totals :: 'a
  sh_observe :: "tool_pool \<Rightarrow> 'e \<Rightarrow> 's \<Rightarrow> 'a \<Rightarrow> (stream_action \<times> 'e) \<times> 's \<times> 'a"
  sh_exiting :: "tool_pool \<Rightarrow> 's \<Rightarrow> bool \<times> 's"
  sh_finalize :: "('m, 'e list \<times> string option) loop_env \<Rightarrow> tool_pool \<Rightarrow> 's \<Rightarrow> ('m, 'e list \<times> string option) loop_world
    \<Rightarrow> (loop_error + unit) \<times> ('m, 'e list \<times> string option) loop_world"
  sh_terminal :: "'s \<Rightarrow> 'a \<Rightarrow> 'e list"
  sh_accumulate :: "'a \<Rightarrow> 's \<Rightarrow> 'a"
  sh_advance :: "('m, 'e list \<times> string option) loop_env \<Rightarrow> tool_pool \<Rightarrow> 's \<Rightarrow> ('m, 'e list \<times> string option) loop_world
    \<Rightarrow> (loop_error + 'm list) \<times> ('m, 'e list \<times> string option) loop_world"

text \<open>What a round forwards of its upstream, the state and totals it is left with, and whether it stopped early.\<close>

fun observe_all ::
  "('m, 'e, 's, 'a) stream_hooks \<Rightarrow> tool_pool \<Rightarrow> 'e list \<Rightarrow> 's \<Rightarrow> 'a \<Rightarrow> 'e list \<times> 's \<times> 'a \<times> bool" where
  "observe_all st pool [] s acc = ([], s, acc, False)"
| "observe_all st pool (e # es) s acc =
     (let ((action, visible), s1, acc1) = sh_observe st pool e s acc in
      case action of
        Break \<Rightarrow> ([], s1, acc1, True)
      | Defer \<Rightarrow> observe_all st pool es s1 acc1
      | Forward \<Rightarrow> (let (out, s2, acc2, stopped) = observe_all st pool es s1 acc1 in (visible # out, s2, acc2, stopped)))"

text \<open>The lock-in is signalled when the first upstream has ended.\<close>

definition signal_first :: "bool \<Rightarrow> ('m, 'r) loop_world \<Rightarrow> ('m, 'r) loop_world" where
  "signal_first first w = (if first then w\<lparr> lw_locked_in := Suc (lw_locked_in w) \<rparr> else w)"

text \<open>
  The end of a round whose upstream is consumed: the loop's end with what it still forwards, or the turn and
  the totals of the next round.
\<close>

definition end_round ::
  "('m, 'e, 's, 'a) stream_hooks \<Rightarrow> ('m, 'e list \<times> string option) loop_env \<Rightarrow> tool_pool \<Rightarrow> 's \<Rightarrow> 'a
     \<Rightarrow> ('m, 'e list \<times> string option) loop_world
     \<Rightarrow> ((loop_error option \<times> 'e list) + ('m list \<times> 'a)) \<times> ('m, 'e list \<times> string option) loop_world" where
  "end_round st env pool s acc w =
     (let (exiting, s1) = sh_exiting st pool s in
      if exiting then (case sh_finalize st env pool s1 w of
          (Inl e, w1) \<Rightarrow> (Inl (Some e, []), w1)
        | (Inr _, w1) \<Rightarrow> (Inl (None, sh_terminal st s1 acc), w1))
      else case sh_advance st env pool s1 w of
          (Inl e, w1) \<Rightarrow> (Inl (Some e, []), w1)
        | (Inr turn, w1) \<Rightarrow> (Inr (turn, sh_accumulate st acc s1), w1))"

fun stream_rounds ::
  "('m, 'e, 's, 'a) stream_hooks \<Rightarrow> ('m, 'e list \<times> string option) loop_env \<Rightarrow> tool_pool \<Rightarrow> 'm loop_request \<Rightarrow> nat \<Rightarrow> bool
     \<Rightarrow> 'm list \<Rightarrow> 'a \<Rightarrow> ('m, 'e list \<times> string option) loop_world
     \<Rightarrow> loop_error option \<times> 'e list \<times> ('m, 'e list \<times> string option) loop_world" where
  "stream_rounds st env pool rq 0 first transcript acc w = (Some Max_Tool_Iterations_Exceeded, [], w)"
| "stream_rounds st env pool rq (Suc k) first transcript acc w =
     (case call_provider env (round_kwargs (sh_convert st) (sh_note st) pool rq True (k = 0) transcript) w of
        (Inl e, w1) \<Rightarrow> (Some e, [], w1)
      | (Inr (events, broken), w1) \<Rightarrow>
          (let (out, s1, acc1, stopped) = observe_all st pool events (sh_new_state st) acc in
           case (stopped, broken) of
             (False, Some e) \<Rightarrow> (Some (Raised e), out, w1)
           | _ \<Rightarrow> (case end_round st env pool s1 acc1 (signal_first first w1) of
               (Inl (res, closing), w2) \<Rightarrow> (res, out @ closing, w2)
             | (Inr (turn, acc2), w2) \<Rightarrow>
                 (case stream_rounds st env pool rq k False (transcript @ turn) acc2 w2 of
                    (res, later, w3) \<Rightarrow> (res, out @ later, w3)))))"

definition run_tool_loop_stream ::
  "('m, 'e, 's, 'a) stream_hooks \<Rightarrow> ('m, 'e list \<times> string option) loop_env \<Rightarrow> tool_pool \<Rightarrow> 'm loop_request \<Rightarrow> nat
     \<Rightarrow> ('m, 'e list \<times> string option) loop_world
     \<Rightarrow> loop_error option \<times> 'e list \<times> ('m, 'e list \<times> string option) loop_world" where
  "run_tool_loop_stream st env pool rq max_iterations w =
     stream_rounds st env pool rq max_iterations True (lr_transcript rq) (sh_new_totals st) w"

section \<open>Events\<close>

text \<open>A content block as the fields it has, each as its text.\<close>

type_synonym block_fields = "(string \<times> string) list"

datatype block_delta =
    Json_Delta string
  | Text_Delta string
  | Compaction_Delta string
  | Thinking_Delta string
  | Signature_Delta string
  | Other_Delta

text \<open>The usage of a message, on its \<open>message_start\<close> and again on its \<open>message_delta\<close>.\<close>

record delta_usage =
  du_output :: "int option"
  du_input :: "int option"
  du_cache_read :: "int option"
  du_cache_creation :: "int option"
  du_searches :: "int option"
  du_fetches :: "int option"
  du_iterations :: "string list option"

text \<open>
  \<open>Message_Start\<close> has the id, the usage and the container of its message: Anthropic reports a message's input
  there. The last argument of \<open>Message_Delta\<close> is the applied edits of its context management, if it has one.
\<close>

datatype message_event =
    Message_Start string delta_usage "string option"
  | Block_Start int block_fields
  | Block_Delta int block_delta
  | Block_Stop int
  | Message_Delta "string option" "delta_usage option" "string list option"
  | Message_Stop
  | Other_Event string

section \<open>The state of a round and the totals of the loop\<close>

record stream_state =
  ms_blocks :: "(int \<times> block_fields) list"
  ms_buffers :: "(int \<times> string) list"
  ms_stop_reason :: "string option"
  ms_deferred :: "message_event list"
  ms_owned :: "(int \<times> block_fields) list"
  ms_hidden :: "int list"
  ms_visible :: "(int \<times> int) list"

record stream_totals =
  sm_output :: int
  sm_input :: int
  sm_cache_read :: int
  sm_cache_creation :: int
  sm_searches :: int
  sm_fetches :: int
  sm_started :: bool
  sm_next_index :: int
  sm_iterations :: "string list"
  sm_applied_edits :: "string list"

definition new_stream_state :: stream_state where
  "new_stream_state = \<lparr> ms_blocks = [], ms_buffers = [], ms_stop_reason = None, ms_deferred = [], ms_owned = [],
     ms_hidden = [], ms_visible = [] \<rparr>"

definition new_stream_totals :: stream_totals where
  "new_stream_totals = \<lparr> sm_output = 0, sm_input = 0, sm_cache_read = 0, sm_cache_creation = 0, sm_searches = 0,
     sm_fetches = 0, sm_started = False, sm_next_index = 0, sm_iterations = [], sm_applied_edits = [] \<rparr>"

definition field_text :: "block_fields \<Rightarrow> string \<Rightarrow> string" where
  "field_text b name = (case map_of b name of None \<Rightarrow> [] | Some s \<Rightarrow> s)"

text \<open>A dictionary entry, replaced where it stands or added at the end.\<close>

definition put_entry :: "'k \<Rightarrow> 'v \<Rightarrow> ('k \<times> 'v) list \<Rightarrow> ('k \<times> 'v) list" where
  "put_entry k v m = (if k \<in> set (map fst m) then map (\<lambda>(k1, old). if k1 = k then (k1, v) else (k1, old)) m
     else m @ [(k, v)])"

definition append_field :: "string \<Rightarrow> string \<Rightarrow> block_fields \<Rightarrow> block_fields" where
  "append_field name addition b = put_entry name (field_text b name @ addition) b"

definition is_use_block :: "block_fields \<Rightarrow> bool" where
  "is_use_block b \<longleftrightarrow> map_of b ''type'' = Some ''tool_use''"

definition owned_use :: "tool_pool \<Rightarrow> block_fields \<Rightarrow> bool" where
  "owned_use pool b \<longleftrightarrow> is_use_block b \<and> owns_tool pool (field_text b ''name'')"

section \<open>Observing an event\<close>

definition visible_for :: "stream_state \<Rightarrow> stream_totals \<Rightarrow> int \<Rightarrow> int \<times> stream_state \<times> stream_totals" where
  "visible_for s acc i = (case map_of (ms_visible s) i of
       Some v \<Rightarrow> (v, s, acc)
     | None \<Rightarrow> (sm_next_index acc, s\<lparr> ms_visible := ms_visible s @ [(i, sm_next_index acc)] \<rparr>,
         acc\<lparr> sm_next_index := sm_next_index acc + 1 \<rparr>))"

fun reindexed :: "message_event \<Rightarrow> int \<Rightarrow> message_event" where
  "reindexed (Block_Start i b) v = Block_Start v b"
| "reindexed (Block_Delta i d) v = Block_Delta v d"
| "reindexed (Block_Stop i) v = Block_Stop v"
| "reindexed e v = e"

definition forward_indexed ::
  "message_event \<Rightarrow> int \<Rightarrow> stream_state \<Rightarrow> stream_totals \<Rightarrow> (stream_action \<times> message_event) \<times> stream_state \<times> stream_totals"
  where
  "forward_indexed e i s acc =
     (if i \<in> set (ms_hidden s) then ((Defer, e), s, acc)
      else let (v, s1, acc1) = visible_for s acc i in ((Forward, reindexed e v), s1, acc1))"

text \<open>What a delta adds to the block and the buffer of its index.\<close>

definition apply_delta :: "int \<Rightarrow> block_delta \<Rightarrow> stream_state \<Rightarrow> stream_state" where
  "apply_delta i d s = (case map_of (ms_blocks s) i of
       None \<Rightarrow> s
     | Some b \<Rightarrow>
         (let add = (\<lambda>name addition. s\<lparr> ms_blocks := put_entry i (append_field name addition b) (ms_blocks s) \<rparr>) in
          case d of
            Json_Delta part \<Rightarrow> (case map_of (ms_buffers s) i of
                None \<Rightarrow> s
              | Some buf \<Rightarrow> s\<lparr> ms_buffers := put_entry i (buf @ part) (ms_buffers s) \<rparr>)
          | Text_Delta addition \<Rightarrow> add ''text'' addition
          | Compaction_Delta addition \<Rightarrow> add ''content'' addition
          | Thinking_Delta addition \<Rightarrow> add ''thinking'' addition
          | Signature_Delta addition \<Rightarrow> add ''signature'' addition
          | Other_Delta \<Rightarrow> s))"

definition or_previous :: "string option \<Rightarrow> string option \<Rightarrow> string option" where
  "or_previous new old = (case new of Some (c # cs) \<Rightarrow> new | _ \<Rightarrow> old)"

fun observe ::
  "string option \<Rightarrow> tool_pool \<Rightarrow> message_event \<Rightarrow> stream_state \<Rightarrow> stream_totals
     \<Rightarrow> (stream_action \<times> message_event) \<times> stream_state \<times> stream_totals" where
  "observe held pool (Message_Start m u c) s acc =
     (if sm_started acc then ((Defer, Message_Start m u c), s, acc)
      else ((Forward, Message_Start m u (case held of None \<Rightarrow> c | Some h \<Rightarrow> Some h)), s, acc\<lparr> sm_started := True \<rparr>))"
| "observe held pool (Block_Start i b) s acc =
     (let s1 = s\<lparr> ms_blocks := put_entry i b (ms_blocks s) \<rparr>;
          s2 = (if is_use_block b then s1\<lparr> ms_buffers := put_entry i [] (ms_buffers s1) \<rparr> else s1) in
      if owned_use pool b then ((Defer, Block_Start i b), s2\<lparr> ms_hidden := i # ms_hidden s2 \<rparr>, acc)
      else let (v, s3, acc1) = visible_for s2 acc i in ((Forward, Block_Start v b), s3, acc1))"
| "observe held pool (Block_Delta i d) s acc = forward_indexed (Block_Delta i d) i (apply_delta i d s) acc"
| "observe held pool (Block_Stop i) s acc = forward_indexed (Block_Stop i) i s acc"
| "observe held pool (Message_Delta r u edits) s acc =
     ((Defer, Message_Delta r u edits),
      s\<lparr> ms_stop_reason := or_previous r (ms_stop_reason s), ms_deferred := ms_deferred s @ [Message_Delta r u edits] \<rparr>, acc)"
| "observe held pool Message_Stop s acc =
     ((Break, Message_Stop), s\<lparr> ms_deferred := ms_deferred s @ [Message_Stop] \<rparr>, acc)"
| "observe held pool (Other_Event e) s acc = ((Forward, Other_Event e), s, acc)"

section \<open>The end of a round\<close>

definition stream_exiting :: "tool_pool \<Rightarrow> stream_state \<Rightarrow> bool \<times> stream_state" where
  "stream_exiting pool s =
     (let uses = filter (\<lambda>(i, b). is_use_block b) (sort_key fst (ms_blocks s));
          owned = filter (\<lambda>(i, b). owns_tool pool (field_text b ''name'')) uses;
          foreign = (\<exists>(i, b)\<in>set uses. \<not> owns_tool pool (field_text b ''name'')) in
      (owned = [] \<or> foreign \<or> ms_stop_reason s \<noteq> Some ''tool_use'', s\<lparr> ms_owned := owned \<rparr>))"

datatype stream_turn =
    Caller_Turn string
  | Note_Turn string
  | Assistant_Turn "block_fields list"
  | Results_Turn "(string \<times> string) list"

definition buffered_input :: "stream_state \<Rightarrow> int \<Rightarrow> string" where
  "buffered_input s i = (case map_of (ms_buffers s) i of None \<Rightarrow> [] | Some buf \<Rightarrow> buf)"

text \<open>The owned calls of a round in order, with the input their buffer holds.\<close>

fun execute_stream_owned ::
  "('m, 'r) loop_env \<Rightarrow> tool_pool \<Rightarrow> stream_state \<Rightarrow> (int \<times> block_fields) list \<Rightarrow> ('m, 'r) loop_world
     \<Rightarrow> (loop_error + (string \<times> string) list) \<times> ('m, 'r) loop_world" where
  "execute_stream_owned env pool s [] w = (Inr [], w)"
| "execute_stream_owned env pool s ((i, b) # specs) w =
     (case run_tool env pool (field_text b ''name'') (buffered_input s i) w of
        (Inl e, w1) \<Rightarrow> (Inl e, w1)
      | (Inr answer, w1) \<Rightarrow> (case execute_stream_owned env pool s specs w1 of
          (Inl e, w2) \<Rightarrow> (Inl e, w2)
        | (Inr results, w2) \<Rightarrow> (Inr ((field_text b ''id'', fst answer) # results), w2)))"

definition finalize_exit ::
  "('m, 'r) loop_env \<Rightarrow> tool_pool \<Rightarrow> stream_state \<Rightarrow> ('m, 'r) loop_world \<Rightarrow> (loop_error + unit) \<times> ('m, 'r) loop_world" where
  "finalize_exit env pool s w =
     (if ms_stop_reason s = Some ''tool_use'' \<and> ms_owned s \<noteq> [] then
        (case execute_stream_owned env pool s (ms_owned s) w of
           (Inl e, w1) \<Rightarrow> (Inl e, w1)
         | (Inr results, w1) \<Rightarrow> (Inr (), w1))
      else (Inr (), w))"

definition count_of :: "int option \<Rightarrow> int" where
  "count_of n = (case n of None \<Rightarrow> 0 | Some k \<Rightarrow> k)"

text \<open>The totals of hidden rounds on the delta that closes the message.\<close>

definition fold_delta_usage :: "stream_totals \<Rightarrow> delta_usage \<Rightarrow> delta_usage" where
  "fold_delta_usage acc u =
     (let add = (\<lambda>hidden own. if 0 < hidden then Some (count_of own + hidden) else own);
          searched = sm_searches acc \<noteq> 0 \<or> sm_fetches acc \<noteq> 0 in
      \<lparr> du_output = add (sm_output acc) (du_output u), du_input = add (sm_input acc) (du_input u),
        du_cache_read = add (sm_cache_read acc) (du_cache_read u),
        du_cache_creation = add (sm_cache_creation acc) (du_cache_creation u),
        du_searches = (if searched then Some (count_of (du_searches u) + sm_searches acc) else du_searches u),
        du_fetches = (if searched then Some (count_of (du_fetches u) + sm_fetches acc) else du_fetches u),
        du_iterations = (if sm_iterations acc = [] then du_iterations u
          else Some (sm_iterations acc @ (case du_iterations u of None \<Rightarrow> [] | Some is \<Rightarrow> is))) \<rparr>)"

fun fold_message_delta :: "stream_totals \<Rightarrow> message_event \<Rightarrow> message_event" where
  "fold_message_delta acc (Message_Delta r (Some u) edits) =
     Message_Delta r (Some (fold_delta_usage acc u))
       (if sm_applied_edits acc = [] then edits
        else Some (sm_applied_edits acc @ (case edits of None \<Rightarrow> [] | Some es \<Rightarrow> es)))"
| "fold_message_delta acc e = e"

definition terminal_events :: "stream_state \<Rightarrow> stream_totals \<Rightarrow> message_event list" where
  "terminal_events s acc = map (fold_message_delta acc) (ms_deferred s)"

fun accumulate_delta :: "message_event \<Rightarrow> stream_totals \<Rightarrow> stream_totals" where
  "accumulate_delta (Message_Delta r u edits) acc =
     (let acc1 = (case u of None \<Rightarrow> acc
        | Some v \<Rightarrow> acc\<lparr> sm_output := sm_output acc + count_of (du_output v),
            sm_input := sm_input acc + count_of (du_input v),
            sm_cache_read := sm_cache_read acc + count_of (du_cache_read v),
            sm_cache_creation := sm_cache_creation acc + count_of (du_cache_creation v),
            sm_searches := sm_searches acc + count_of (du_searches v),
            sm_fetches := sm_fetches acc + count_of (du_fetches v),
            sm_iterations := sm_iterations acc @ (case du_iterations v of None \<Rightarrow> [] | Some is \<Rightarrow> is) \<rparr>) in
      case edits of None \<Rightarrow> acc1 | Some es \<Rightarrow> acc1\<lparr> sm_applied_edits := sm_applied_edits acc1 @ es \<rparr>)"
| "accumulate_delta e acc = acc"

definition accumulate_stream_usage :: "stream_totals \<Rightarrow> stream_state \<Rightarrow> stream_totals" where
  "accumulate_stream_usage acc s = fold accumulate_delta (ms_deferred s) acc"

definition advance_stream ::
  "(stream_turn, 'r) loop_env \<Rightarrow> tool_pool \<Rightarrow> stream_state \<Rightarrow> (stream_turn, 'r) loop_world
     \<Rightarrow> (loop_error + stream_turn list) \<times> (stream_turn, 'r) loop_world" where
  "advance_stream env pool s w =
     (let content = map (\<lambda>(i, b). if is_use_block b then put_entry ''input'' (buffered_input s i) b else b)
        (sort_key fst (ms_blocks s)) in
      case execute_stream_owned env pool s (ms_owned s) w of
        (Inl e, w1) \<Rightarrow> (Inl e, w1)
      | (Inr results, w1) \<Rightarrow> (Inr [Assistant_Turn content, Results_Turn results], w1))"

definition messages_stream ::
  "string option \<Rightarrow> (wire_tool list \<Rightarrow> wire_tool list) \<Rightarrow> (stream_turn, message_event, stream_state, stream_totals) stream_hooks"
  where
  "messages_stream held convert = \<lparr> sh_convert = convert,
     sh_note = Note_Turn ''No more tool calls are available for this request. Answer now from the results you already have.'',
     sh_new_state = new_stream_state, sh_new_totals = new_stream_totals, sh_observe = observe held,
     sh_exiting = stream_exiting, sh_finalize = finalize_exit, sh_terminal = terminal_events,
     sh_accumulate = accumulate_stream_usage, sh_advance = advance_stream \<rparr>"

definition anthropic_tool_loop_stream ::
  "string option \<Rightarrow> (wire_tool list \<Rightarrow> wire_tool list) \<Rightarrow> (stream_turn, message_event list \<times> string option) loop_env
     \<Rightarrow> tool_pool \<Rightarrow> stream_turn loop_request \<Rightarrow> nat \<Rightarrow> (stream_turn, message_event list \<times> string option) loop_world
     \<Rightarrow> loop_error option \<times> message_event list \<times> (stream_turn, message_event list \<times> string option) loop_world" where
  "anthropic_tool_loop_stream held convert env pool rq max_iterations w =
     run_tool_loop_stream (messages_stream held convert) env pool rq max_iterations w"

end
