(* ===== verification/Messages_Loop.thy ===== *)
theory Messages_Loop
  imports Tool_Loop_Laws
begin

text \<open>
  The Anthropic Messages loop of \<open>services/mcp_loop_messages.py\<close> without streaming: the response as far as
  the loop reads or writes it, the hooks of \<open>_MessagesToolLoopStrategy\<close> for a request that declared no tool
  in Anthropic's own words, and the format interpreted as a \<open>tool_loop_format\<close>.
\<close>

section \<open>The response\<close>

datatype block = Tool_Use (tu_id: string) (tu_name: string) (tu_input: string) | Other_Block string

fun is_tool_use :: "block \<Rightarrow> bool" where
  "is_tool_use (Tool_Use i n inp) = True"
| "is_tool_use (Other_Block b) = False"

text \<open>\<open>mu_server_tools\<close>: the searches and fetches the provider ran itself.\<close>

record messages_usage =
  mu_input :: int
  mu_output :: int
  mu_cache_read :: "int option"
  mu_cache_creation :: "int option"
  mu_server_tools :: "(int option \<times> int option) option"
  mu_iterations :: "string list option"

record message_response =
  mr_content :: "block list"
  mr_stop_reason :: "string option"
  mr_usage :: "messages_usage option"
  mr_container :: "string option"

datatype anthropic_message =
    Given_Message string
  | User_Text string
  | Assistant_Content "block list"
  | User_Results "(string \<times> string) list"

definition messages_round_note :: string where
  "messages_round_note =
     ''No more tool calls are available for this request. Answer now from the results you already have.''"

text \<open>The tools of a pool are OpenAI function tools; the entry of each becomes an Anthropic one of its name.\<close>

fun openai_to_anthropic_tool :: "wire_tool \<Rightarrow> wire_tool" where
  "openai_to_anthropic_tool (Function_Tool name e) = Named_Tool (Some (case name of None \<Rightarrow> [] | Some n \<Rightarrow> n)) e"
| "openai_to_anthropic_tool tool = tool"

definition openai_to_anthropic_tools :: "wire_tool list \<Rightarrow> wire_tool list" where
  "openai_to_anthropic_tools tools = map openai_to_anthropic_tool tools"

section \<open>The calls\<close>

definition split_tool_uses :: "block list \<Rightarrow> tool_pool \<Rightarrow> block list \<times> bool" where
  "split_tool_uses content pool =
     (filter (\<lambda>b. is_tool_use b \<and> owns_tool pool (tu_name b)) content,
      \<exists>b\<in>set content. is_tool_use b \<and> \<not> owns_tool pool (tu_name b))"

fun execute_tool_uses ::
  "('m, 'r) loop_env \<Rightarrow> tool_pool \<Rightarrow> block list \<Rightarrow> ('m, 'r) loop_world
     \<Rightarrow> (loop_error + (string \<times> string) list) \<times> ('m, 'r) loop_world" where
  "execute_tool_uses env pool [] w = (Inr [], w)"
| "execute_tool_uses env pool (b # bs) w =
     (case run_tool env pool (tu_name b) (tu_input b) w of
        (Inl e, w1) \<Rightarrow> (Inl e, w1)
      | (Inr answer, w1) \<Rightarrow> (case execute_tool_uses env pool bs w1 of
          (Inl e, w2) \<Rightarrow> (Inl e, w2)
        | (Inr results, w2) \<Rightarrow> (Inr ((tu_id b, fst answer) # results), w2)))"

section \<open>Totals\<close>

record messages_totals =
  mt_input :: int
  mt_output :: int
  mt_cache_read :: int
  mt_cache_creation :: int
  mt_searches :: int
  mt_fetches :: int
  mt_iterations :: "string list"

definition new_messages_totals :: messages_totals where
  "new_messages_totals = \<lparr> mt_input = 0, mt_output = 0, mt_cache_read = 0, mt_cache_creation = 0,
     mt_searches = 0, mt_fetches = 0, mt_iterations = [] \<rparr>"

definition count_or_zero :: "int option \<Rightarrow> int" where
  "count_or_zero n = (case n of None \<Rightarrow> 0 | Some k \<Rightarrow> k)"

definition server_tool_requests :: "messages_usage \<Rightarrow> int \<times> int" where
  "server_tool_requests u = (case mu_server_tools u of
       None \<Rightarrow> (0, 0)
     | Some (searches, fetches) \<Rightarrow> (count_or_zero searches, count_or_zero fetches))"

definition accumulate_messages_usage :: "messages_totals \<Rightarrow> message_response \<Rightarrow> messages_totals" where
  "accumulate_messages_usage acc r = (case mr_usage r of
       None \<Rightarrow> acc
     | Some u \<Rightarrow> acc\<lparr> mt_input := mt_input acc + mu_input u,
         mt_output := mt_output acc + mu_output u,
         mt_cache_read := mt_cache_read acc + count_or_zero (mu_cache_read u),
         mt_cache_creation := mt_cache_creation acc + count_or_zero (mu_cache_creation u),
         mt_searches := mt_searches acc + fst (server_tool_requests u),
         mt_fetches := mt_fetches acc + snd (server_tool_requests u),
         mt_iterations := mt_iterations acc @ (case mu_iterations u of None \<Rightarrow> [] | Some is \<Rightarrow> is) \<rparr>)"

definition fold_messages_usage :: "messages_usage \<Rightarrow> messages_totals \<Rightarrow> messages_usage" where
  "fold_messages_usage u acc = u\<lparr> mu_input := mt_input acc, mu_output := mt_output acc,
     mu_cache_read := (if mt_cache_read acc \<noteq> 0 then Some (mt_cache_read acc) else mu_cache_read u),
     mu_cache_creation := (if mt_cache_creation acc \<noteq> 0 then Some (mt_cache_creation acc) else mu_cache_creation u),
     mu_server_tools := (if mt_searches acc \<noteq> 0 \<or> mt_fetches acc \<noteq> 0
       then Some (Some (mt_searches acc), Some (mt_fetches acc)) else mu_server_tools u) \<rparr>"

section \<open>The hooks\<close>

definition messages_fold :: "string option \<Rightarrow> message_response \<Rightarrow> messages_totals \<Rightarrow> message_response" where
  "messages_fold container r acc =
     (let folded = map_option (\<lambda>u. fold_messages_usage u acc) (mr_usage r);
          listed = map_option (\<lambda>u. if mt_iterations acc = [] then u
            else u\<lparr> mu_iterations := Some (mt_iterations acc) \<rparr>) folded;
          r1 = r\<lparr> mr_usage := listed \<rparr> in
      case container of None \<Rightarrow> r1 | Some c \<Rightarrow> r1\<lparr> mr_container := Some c \<rparr>)"

definition messages_filter :: "message_response \<Rightarrow> block list \<Rightarrow> tool_pool \<Rightarrow> message_response" where
  "messages_filter r owned pool = r\<lparr> mr_content :=
     filter (\<lambda>b. \<not> (is_tool_use b \<and> tu_id b \<in> set (map tu_id owned))) (mr_content r) \<rparr>"

definition messages_execute ::
  "('m, 'r) loop_env \<Rightarrow> tool_pool \<Rightarrow> block list \<Rightarrow> messages_totals \<Rightarrow> ('m, 'r) loop_world
     \<Rightarrow> (loop_error + messages_totals) \<times> ('m, 'r) loop_world" where
  "messages_execute env pool owned acc w = (case execute_tool_uses env pool owned w of
       (Inl e, w1) \<Rightarrow> (Inl e, w1)
     | (Inr results, w1) \<Rightarrow> (Inr acc, w1))"

definition messages_advance ::
  "('m, 'r) loop_env \<Rightarrow> tool_pool \<Rightarrow> message_response \<Rightarrow> block list \<Rightarrow> messages_totals \<Rightarrow> ('m, 'r) loop_world
     \<Rightarrow> (loop_error + anthropic_message list \<times> messages_totals) \<times> ('m, 'r) loop_world" where
  "messages_advance env pool r owned acc w = (case execute_tool_uses env pool owned w of
       (Inl e, w1) \<Rightarrow> (Inl e, w1)
     | (Inr results, w1) \<Rightarrow> (Inr ([Assistant_Content (mr_content r), User_Results results], acc), w1))"

definition messages_strategy ::
  "string option \<Rightarrow> (anthropic_message, message_response, messages_totals, block) tool_strategy" where
  "messages_strategy container = \<lparr> ts_convert = openai_to_anthropic_tools, ts_note = User_Text messages_round_note,
     ts_new = new_messages_totals, ts_accumulate = accumulate_messages_usage, ts_fold = messages_fold container,
     ts_exit_before = (\<lambda>r. False), ts_split = (\<lambda>r pool. split_tool_uses (mr_content r) pool),
     ts_exit_after = (\<lambda>r. mr_stop_reason r \<noteq> Some ''tool_use''),
     ts_execute = messages_execute, ts_filter = messages_filter, ts_advance = messages_advance \<rparr>"

definition anthropic_tool_loop ::
  "string option \<Rightarrow> (anthropic_message, message_response) loop_env \<Rightarrow> tool_pool \<Rightarrow> anthropic_message loop_request \<Rightarrow> nat
     \<Rightarrow> (anthropic_message, message_response) loop_world
     \<Rightarrow> (loop_error + message_response) \<times> (anthropic_message, message_response) loop_world" where
  "anthropic_tool_loop container env pool rq max_iterations w =
     run_tool_loop (messages_strategy container) env pool rq max_iterations w"

section \<open>The format as a \<open>tool_loop_format\<close>\<close>

datatype messages_axis = Input | Output | Cache_Read | Cache_Creation | Searches | Fetches

fun usage_axis :: "messages_axis \<Rightarrow> messages_usage \<Rightarrow> int" where
  "usage_axis Input u = mu_input u"
| "usage_axis Output u = mu_output u"
| "usage_axis Cache_Read u = count_or_zero (mu_cache_read u)"
| "usage_axis Cache_Creation u = count_or_zero (mu_cache_creation u)"
| "usage_axis Searches u = fst (server_tool_requests u)"
| "usage_axis Fetches u = snd (server_tool_requests u)"

definition messages_usage_of :: "messages_axis \<Rightarrow> message_response \<Rightarrow> int option" where
  "messages_usage_of x r = map_option (usage_axis x) (mr_usage r)"

fun messages_tally :: "messages_axis \<Rightarrow> messages_totals \<Rightarrow> int" where
  "messages_tally Input acc = mt_input acc"
| "messages_tally Output acc = mt_output acc"
| "messages_tally Cache_Read acc = mt_cache_read acc"
| "messages_tally Cache_Creation acc = mt_cache_creation acc"
| "messages_tally Searches acc = mt_searches acc"
| "messages_tally Fetches acc = mt_fetches acc"

definition messages_called :: "message_response \<Rightarrow> string list" where
  "messages_called r = map tu_name (filter is_tool_use (mr_content r))"

lemma execute_ran:
  assumes "execute_tool_uses env pool bs w = (res, w1)" "\<forall>b\<in>set bs. owns_tool pool (tu_name b)"
  shows "ran_calls env pool w w1"
  using assms
proof (induction bs arbitrary: w res w1)
  case (Cons b bs)
  obtain answer wa where a: "run_tool env pool (tu_name b) (tu_input b) w = (answer, wa)" by fastforce
  have first: "ran_calls env pool w wa" using ran_one [OF _ a] Cons.prems(2) by simp
  obtain others wb where c: "execute_tool_uses env pool bs wa = (others, wb)" by fastforce
  have "w1 = wa \<or> w1 = wb" using Cons.prems(1) a c by (auto split: sum.splits)
  with first Cons.IH [OF c] Cons.prems(2) show ?case by (auto intro: ran_calls_trans)
qed (auto intro: ran_calls.none)

lemma execute_limit: "execute_tool_uses env pool bs w = (Inl e, w1) \<Longrightarrow> \<not> never_limited env"
  by (induction bs arbitrary: w) (auto split: prod.splits sum.splits dest: run_tool_limit)

lemma split_owned:
  assumes "split_tool_uses content pool = (owned, foreign)"
  shows "\<forall>b\<in>set owned. owns_tool pool (tu_name b)"
  using assms by (auto simp: split_tool_uses_def)

lemma fold_axis:
  assumes "0 \<le> usage_axis x u" "usage_axis x u \<le> messages_tally x acc"
  shows "usage_axis x (fold_messages_usage u acc) = messages_tally x acc"
  using assms by (cases x) (auto simp: fold_messages_usage_def count_or_zero_def server_tool_requests_def)

lemma listed_axis [simp]: "usage_axis x (u\<lparr> mu_iterations := is \<rparr>) = usage_axis x u"
  by (cases x) (simp_all add: server_tool_requests_def)

lemma messages_fold_usage:
  assumes "0 \<le> reported (messages_usage_of x) r" "reported (messages_usage_of x) r \<le> messages_tally x acc"
  shows "messages_usage_of x (messages_fold c r acc) = map_option (\<lambda>_. messages_tally x acc) (messages_usage_of x r)"
  using assms
  by (cases "mr_usage r"; cases c)
    (simp_all add: messages_fold_def messages_usage_of_def reported_def Let_def fold_axis)

interpretation messages: tool_loop_format "messages_strategy c" messages_usage_of messages_tally messages_called for c
proof (unfold_locales, goal_cases)
  case (1 x)
  then show ?case by (cases x) (simp_all add: messages_strategy_def new_messages_totals_def)
next
  case (2 x acc r)
  then show ?case
    by (cases x; cases "mr_usage r")
      (simp_all add: messages_strategy_def accumulate_messages_usage_def reported_def messages_usage_of_def)
next
  case (3 x r acc)
  then show ?case by (simp add: messages_strategy_def messages_fold_usage)
next
  case (4 x r owned pool)
  then show ?case by (simp add: messages_strategy_def messages_filter_def messages_usage_of_def)
next
  case (5 env pool owned acc w acc1 w1 x)
  then show ?case by (auto simp: messages_strategy_def messages_execute_def split: prod.splits sum.splits)
next
  case (6 env pool r owned acc w turn acc1 w1 x)
  then show ?case by (auto simp: messages_strategy_def messages_advance_def split: prod.splits sum.splits)
next
  case (7 r pool owned foreign env acc w res w1)
  then show ?case
    by (auto simp: messages_strategy_def messages_execute_def split: prod.splits sum.splits
        intro: execute_ran dest: split_owned)
next
  case (8 r pool owned foreign env acc w res w1)
  then show ?case
    by (auto simp: messages_strategy_def messages_advance_def split: prod.splits sum.splits
        intro: execute_ran dest: split_owned)
next
  case (9 env pool owned acc w e w1)
  then show ?case
    by (auto simp: messages_strategy_def messages_execute_def split: prod.splits sum.splits dest: execute_limit)
next
  case (10 env pool r owned acc w e w1)
  then show ?case
    by (auto simp: messages_strategy_def messages_advance_def split: prod.splits sum.splits dest: execute_limit)
next
  case (11 r pool owned foreign)
  then show ?case
    by (auto simp: messages_strategy_def split_tool_uses_def messages_called_def filter_empty_conv)
qed

section \<open>Sample\<close>

definition sample_message :: "string \<Rightarrow> block list \<Rightarrow> int \<Rightarrow> message_response" where
  "sample_message stopped content n = \<lparr> mr_content = content, mr_stop_reason = Some stopped,
     mr_usage = Some \<lparr> mu_input = n, mu_output = 5, mu_cache_read = Some 2, mu_cache_creation = None,
       mu_server_tools = Some (Some 1, None), mu_iterations = None \<rparr>, mr_container = None \<rparr>"

definition sample_uses :: "block list" where
  "sample_uses = [Other_Block ''let me see'', Tool_Use ''a'' ''search'' ''{}'', Tool_Use ''b'' ''search'' ''{}'']"

definition sample_messages :: "(anthropic_message, message_response) loop_env" where
  "sample_messages = \<lparr> le_answer = (\<lambda>n q. if n = 0 then Inr (sample_message ''tool_use'' sample_uses 10)
       else if n = 1 then Inr (sample_message ''end_turn'' [Other_Block ''done''] 20) else Inl ''down''),
     le_tool = (\<lambda>n name arguments. Answered ''found''), le_check = (\<lambda>r. None) \<rparr>"

definition sample_down :: "(anthropic_message, message_response) loop_env" where
  "sample_down = sample_messages\<lparr> le_answer := (\<lambda>n q. Inl ''down'') \<rparr>"

definition sample_messages_loop :: "anthropic_message loop_request" where
  "sample_messages_loop = \<lparr> lr_transcript = [Given_Message ''hi''], lr_tools = None, lr_tool_choice = None, lr_rest = [] \<rparr>"

lemma sample_messages_run:
  "case anthropic_tool_loop None sample_messages [sample_search] sample_messages_loop 3 (idle_loop [''search'' \<mapsto> 1]) of
     (res, w1) \<Rightarrow> (case res of Inl e \<Rightarrow> False | Inr r \<Rightarrow> True)
       \<and> lw_answers w1 = [sample_message ''tool_use'' sample_uses 10, sample_message ''end_turn'' [Other_Block ''done''] 20]
       \<and> lw_ran w1 = [(''search'', ''found'')] \<and> lw_left w1 ''search'' = Some 0"
  by code_simp

lemma sample_down_run:
  "case anthropic_tool_loop None sample_down [sample_search] sample_messages_loop 3 (idle_loop Map.empty) of
     (res, w1) \<Rightarrow> res = Inl (Raised ''down'') \<and> lw_locked_in w1 = 0"
  by code_simp

lemma sample_messages_counts: "\<forall>x. reports_counts sample_messages (messages_usage_of x)"
proof
  fix x
  show "reports_counts sample_messages (messages_usage_of x)"
    by (cases x) (auto simp: reports_counts_def sample_messages_def sample_message_def messages_usage_of_def
        count_or_zero_def server_tool_requests_def split: if_splits)
qed

section \<open>Properties\<close>

text \<open>
  . A message that the tool loop returns bills every round: when the last response reports its usage,
  the answer's input, output, cache reads and writes, and the searches and fetches the provider ran, are the
  sums over all the responses of the loop.
\<close>

theorem messages_bill_every_round:
  assumes "anthropic_tool_loop c env pool rq n w = (Inr r, w1)" "lw_answers w = []"
    "\<forall>x. reports_counts env (messages_usage_of x)" "mr_usage (last (lw_answers w1)) \<noteq> None"
  shows "\<exists>u. mr_usage r = Some u
    \<and> (\<forall>x. usage_axis x u = sum_list (map (reported (messages_usage_of x)) (lw_answers w1)))"
proof -
  note run = assms(1) [unfolded anthropic_tool_loop_def]
  have usage: "messages_usage_of x r = Some (sum_list (map (reported (messages_usage_of x)) (lw_answers w1)))" for x
    using messages.loop_bills [OF run assms(2) assms(3) [THEN spec], of x] assms(4) by (auto simp: messages_usage_of_def)
  obtain u where u: "mr_usage r = Some u" using usage by (auto simp: messages_usage_of_def)
  with usage show ?thesis by (auto simp: messages_usage_of_def)
qed

theorem messages_bill_every_round_witness:
  "case anthropic_tool_loop None sample_messages [sample_search] sample_messages_loop 3 (idle_loop [''search'' \<mapsto> 1]) of
     (Inr r, w1) \<Rightarrow> (\<exists>u. mr_usage r = Some u \<and> usage_axis Input u = 30 \<and> usage_axis Cache_Read u = 4
       \<and> usage_axis Searches u = 2)
   | _ \<Rightarrow> False"
proof -
  obtain r w1 where run: "anthropic_tool_loop None sample_messages [sample_search] sample_messages_loop 3
      (idle_loop [''search'' \<mapsto> 1]) = (Inr r, w1)"
    and answers: "lw_answers w1 = [sample_message ''tool_use'' sample_uses 10,
      sample_message ''end_turn'' [Other_Block ''done''] 20]"
    using sample_messages_run by (auto split: prod.splits sum.splits)
  obtain u where u: "mr_usage r = Some u"
    "usage_axis x u = sum_list (map (reported (messages_usage_of x)) (lw_answers w1))" for x
  proof -
    have "\<exists>u. mr_usage r = Some u
    \<and> (\<forall>x. usage_axis x u = sum_list (map (reported (messages_usage_of x)) (lw_answers w1)))"
      by (rule messages_bill_every_round [OF run _ sample_messages_counts])
        (simp_all add: answers idle_loop_def sample_message_def)
    then show thesis using that by blast
  qed
  have "usage_axis Input u = 30" "usage_axis Cache_Read u = 4" "usage_axis Searches u = 2"
    by (simp_all only: u answers)
      (simp_all add: sample_message_def reported_def messages_usage_of_def count_or_zero_def server_tool_requests_def)
  then show ?thesis using run u(1) by simp
qed

text \<open>
  \<^bold>\<open>C23\<close>. A request's use cap of a tool holds for the whole loop, however it ends: the calls of that tool that
  ran without a tool error, the ones that are billed, are never more than the cap.
\<close>

theorem tool_cap_never_exceeded:
  assumes "anthropic_tool_loop c env pool rq n w = (res, w1)" "lw_ran w = []" "lw_left w name = Some cap" "0 \<le> cap"
  shows "int (billable name (lw_ran w1)) \<le> cap"
  by (rule messages.loop_cap [OF assms(1) [unfolded anthropic_tool_loop_def] assms(2-4)])

theorem tool_cap_never_exceeded_witness:
  "int (billable ''search'' (lw_ran (snd (anthropic_tool_loop None sample_messages [sample_search] sample_messages_loop 3
     (idle_loop [''search'' \<mapsto> 1]))))) \<le> 1"
  using tool_cap_never_exceeded [OF prod.collapse [symmetric], of "idle_loop [''search'' \<mapsto> 1]" "''search''" 1]
  by (simp add: idle_loop_def)

text \<open>
  . A loop that fails before it signals its first response has left nothing behind: it sent one
  request at most, ran no tool and spent no cap, so the walk can go on to the next provider. It signals once
  at most.
\<close>

theorem unsignaled_loop_ran_nothing:
  assumes "anthropic_tool_loop c env pool rq n w = (res, w1)"
  shows "lw_locked_in w1 = Suc (lw_locked_in w) \<or>
    lw_locked_in w1 = lw_locked_in w \<and> lw_ran w1 = lw_ran w \<and> lw_left w1 = lw_left w \<and> (\<exists>e. res = Inl e)
      \<and> length (lw_sent w1) \<le> Suc (length (lw_sent w))"
  by (rule messages.loop_locks_in [OF assms [unfolded anthropic_tool_loop_def]])

theorem unsignaled_loop_ran_nothing_witness:
  "lw_ran (snd (anthropic_tool_loop None sample_down [sample_search] sample_messages_loop 3 (idle_loop Map.empty))) = []"
  using unsignaled_loop_ran_nothing [OF prod.collapse [symmetric], of None sample_down "[sample_search]"
      sample_messages_loop 3 "idle_loop Map.empty"] sample_down_run
  by (auto simp: idle_loop_def split: prod.splits)

end
