(* ===== verification/Messages_Stream_Laws.thy ===== *)
theory Messages_Stream_Laws
  imports Messages_Stream Messages_Loop
begin

text \<open>
  What a client of the streaming Messages loop sees: one message, whatever number of upstream messages it
  took, with blocks numbered from 0 without a gap and none of the gateway's own calls among them; and one
  closing usage that counts every round.
\<close>

section \<open>One message\<close>

text \<open>The next block index and whether the message has started, after an event of an open message.\<close>

fun client_step :: "tool_pool \<Rightarrow> int \<times> bool \<Rightarrow> message_event \<Rightarrow> (int \<times> bool) option" where
  "client_step pool (n, started) (Message_Start m u c) = (if started then None else Some (n, True))"
| "client_step pool (n, started) (Block_Start i b) = (if i = n \<and> \<not> owned_use pool b then Some (n + 1, started) else None)"
| "client_step pool (n, started) (Block_Delta i d) = (if 0 \<le> i \<and> i < n then Some (n, started) else None)"
| "client_step pool (n, started) (Block_Stop i) = (if 0 \<le> i \<and> i < n then Some (n, started) else None)"
| "client_step pool (n, started) (Other_Event e) = Some (n, started)"
| "client_step pool (n, started) e = None"

fun client_run :: "tool_pool \<Rightarrow> int \<times> bool \<Rightarrow> message_event list \<Rightarrow> (int \<times> bool) option" where
  "client_run pool c [] = Some c"
| "client_run pool c (e # es) = Option.bind (client_step pool c e) (\<lambda>c1. client_run pool c1 es)"

lemma client_run_append: "client_run pool c (xs @ ys) = Option.bind (client_run pool c xs) (\<lambda>c1. client_run pool c1 ys)"
  by (induction xs arbitrary: c) auto

fun is_message_delta :: "message_event \<Rightarrow> bool" where
  "is_message_delta (Message_Delta r u edits) = True"
| "is_message_delta e = False"

definition closes :: "message_event list \<Rightarrow> bool" where
  "closes es \<longleftrightarrow> (\<exists>deltas. list_all is_message_delta deltas \<and> (es = deltas \<or> es = deltas @ [Message_Stop]))"

text \<open>A stream of one message: an open part, then its closing events.\<close>

definition one_message :: "tool_pool \<Rightarrow> message_event list \<Rightarrow> bool" where
  "one_message pool es \<longleftrightarrow> (\<exists>body closing. es = body @ closing \<and> client_run pool (0, False) body \<noteq> None \<and> closes closing)"

text \<open>An upstream starts each block index once, and before anything else of that block.\<close>

fun upstream_ok :: "int list \<Rightarrow> message_event list \<Rightarrow> bool" where
  "upstream_ok known [] = True"
| "upstream_ok known (e # es) = (case e of
       Block_Start i b \<Rightarrow> i \<notin> set known \<and> upstream_ok (i # known) es
     | Block_Delta i d \<Rightarrow> i \<in> set known \<and> upstream_ok known es
     | Block_Stop i \<Rightarrow> i \<in> set known \<and> upstream_ok known es
     | Message_Stop \<Rightarrow> True
     | _ \<Rightarrow> upstream_ok known es)"

definition streams_ok :: "('m, message_event list \<times> string option) loop_env \<Rightarrow> bool" where
  "streams_ok env \<longleftrightarrow> (\<forall>n q es broken. le_answer env n q = Inr (es, broken) \<longrightarrow> upstream_ok [] es)"

definition numbered :: "stream_state \<Rightarrow> stream_totals \<Rightarrow> int list \<Rightarrow> bool" where
  "numbered s acc known \<longleftrightarrow> set (map fst (ms_visible s)) = set known - set (ms_hidden s) \<and> set (ms_hidden s) \<subseteq> set known
     \<and> (\<forall>(i, v)\<in>set (ms_visible s). 0 \<le> v \<and> v < sm_next_index acc) \<and> 0 \<le> sm_next_index acc
     \<and> list_all is_message_delta (ms_deferred s)"

lemma apply_delta_keeps [simp]:
  "ms_visible (apply_delta i d s) = ms_visible s" "ms_hidden (apply_delta i d s) = ms_hidden s"
  "ms_deferred (apply_delta i d s) = ms_deferred s"
  by (auto simp: apply_delta_def Let_def split: option.split block_delta.split)

lemma visible_known:
  assumes "numbered s acc known" "i \<in> set known" "i \<notin> set (ms_hidden s)"
  shows "\<exists>v. map_of (ms_visible s) i = Some v \<and> 0 \<le> v \<and> v < sm_next_index acc"
proof -
  have "i \<in> fst ` set (ms_visible s)" using assms by (simp add: numbered_def)
  then obtain v where v: "map_of (ms_visible s) i = Some v" by (metis map_of_eq_None_iff not_None_eq)
  then show ?thesis using assms(1) map_of_SomeD [OF v] by (auto simp: numbered_def)
qed

lemma visible_new:
  assumes "numbered s acc known" "i \<notin> set known"
  shows "map_of (ms_visible s) i = None"
  using assms by (auto simp: numbered_def map_of_eq_None_iff)

lemma forward_known:
  assumes "numbered s acc known" "i \<in> set known"
  shows "forward_indexed e i s acc = ((Defer, e), s, acc)
    \<or> (\<exists>v. 0 \<le> v \<and> v < sm_next_index acc \<and> forward_indexed e i s acc = ((Forward, reindexed e v), s, acc))"
proof (cases "i \<in> set (ms_hidden s)")
  case False
  then obtain v where "map_of (ms_visible s) i = Some v" "0 \<le> v" "v < sm_next_index acc"
    using visible_known [OF assms] by blast
  with False show ?thesis by (intro disjI2 exI [of _ v]) (simp add: forward_indexed_def visible_for_def)
qed (simp add: forward_indexed_def)

lemma observe_block_start:
  assumes "numbered s acc known" "i \<notin> set known"
  shows "\<exists>act s1 acc1 v. observe held pool (Block_Start i b) s acc = ((act, Block_Start v b), s1, acc1)
    \<and> numbered s1 acc1 (i # known) \<and> sm_started acc1 = sm_started acc
    \<and> (owned_use pool b \<and> act = Defer \<and> acc1 = acc
       \<or> \<not> owned_use pool b \<and> act = Forward \<and> v = sm_next_index acc \<and> sm_next_index acc1 = sm_next_index acc + 1)"
proof -
  define s2 where "s2 = (let s1 = s\<lparr> ms_blocks := put_entry i b (ms_blocks s) \<rparr> in
    if is_use_block b then s1\<lparr> ms_buffers := put_entry i [] (ms_buffers s1) \<rparr> else s1)"
  have keep: "ms_visible s2 = ms_visible s" "ms_hidden s2 = ms_hidden s" "ms_deferred s2 = ms_deferred s"
    by (simp_all add: s2_def Let_def)
  show ?thesis
  proof (cases "owned_use pool b")
    case True
    then have "observe held pool (Block_Start i b) s acc = ((Defer, Block_Start i b), s2\<lparr> ms_hidden := i # ms_hidden s2 \<rparr>, acc)"
      by (simp add: s2_def Let_def)
    then show ?thesis using True assms keep by (auto simp: numbered_def)
  next
    case False
    then have "observe held pool (Block_Start i b) s acc = ((Forward, Block_Start (sm_next_index acc) b),
        s2\<lparr> ms_visible := ms_visible s2 @ [(i, sm_next_index acc)] \<rparr>, acc\<lparr> sm_next_index := sm_next_index acc + 1 \<rparr>)"
      using visible_new [OF assms] by (simp add: s2_def Let_def visible_for_def)
    then show ?thesis using False assms keep by (auto simp: numbered_def)
  qed
qed

abbreviation watched :: "string option \<Rightarrow> (wire_tool list \<Rightarrow> wire_tool list) \<Rightarrow> tool_pool \<Rightarrow> message_event list
    \<Rightarrow> stream_state \<Rightarrow> stream_totals \<Rightarrow> message_event list \<times> stream_state \<times> stream_totals \<times> bool" where
  "watched held convert \<equiv> observe_all (messages_stream held convert)"

lemma messages_stream_hooks [simp]:
  "sh_new_state (messages_stream held convert) = new_stream_state"
  "sh_new_totals (messages_stream held convert) = new_stream_totals"
  "sh_observe (messages_stream held convert) = observe held"
  "sh_exiting (messages_stream held convert) = stream_exiting"
  "sh_finalize (messages_stream held convert) = finalize_exit"
  "sh_terminal (messages_stream held convert) = terminal_events"
  "sh_accumulate (messages_stream held convert) = accumulate_stream_usage"
  "sh_advance (messages_stream held convert) = advance_stream"
  by (simp_all add: messages_stream_def)

lemma watched_Cons:
  "watched held convert pool (e # es) s acc =
     (let ((action, visible), s1, acc1) = observe held pool e s acc in
      case action of
        Break \<Rightarrow> ([], s1, acc1, True)
      | Defer \<Rightarrow> watched held convert pool es s1 acc1
      | Forward \<Rightarrow> (let (out, s2, acc2, stopped) = watched held convert pool es s1 acc1 in (visible # out, s2, acc2, stopped)))"
  by simp

lemma watched_ok:
  assumes "upstream_ok known es" "numbered s acc known" "watched held convert pool es s acc = (out, s1, acc1, stopped)"
  shows "client_run pool (sm_next_index acc, sm_started acc) out = Some (sm_next_index acc1, sm_started acc1)
    \<and> 0 \<le> sm_next_index acc1 \<and> closes (ms_deferred s1)"
  using assms
proof (induction es arbitrary: known s acc out)
  case Nil
  then show ?case by (auto simp: numbered_def closes_def)
next
  case (Cons e es)
  note run = Cons.prems(3) [unfolded watched_Cons]
  have indexed: ?case if e: "e = Block_Delta i d \<or> e = Block_Stop i" and k: "i \<in> set known"
      and ob: "observe held pool e s acc = forward_indexed e i s2 acc" and n: "numbered s2 acc known"
      and up: "upstream_ok known es" for i d s2
    using forward_known [OF n k, of e]
  proof (elim disjE exE conjE)
    assume "forward_indexed e i s2 acc = ((Defer, e), s2, acc)"
    then show ?case using Cons.IH [OF up n] run ob by simp
  next
    fix v assume v: "0 \<le> v" "v < sm_next_index acc" "forward_indexed e i s2 acc = ((Forward, reindexed e v), s2, acc)"
    obtain out1 where "watched held convert pool es s2 acc = (out1, s1, acc1, stopped)" "out = reindexed e v # out1"
      using run ob v(3) by (auto split: prod.splits)
    then show ?case using Cons.IH [OF up n] v e by auto
  qed
  show ?case
  proof (cases e)
    case (Message_Start m u c)
    then have up: "upstream_ok known es" using Cons.prems(1) by simp
    show ?thesis
    proof (cases "sm_started acc")
      case True
      then show ?thesis using Cons.IH [OF up Cons.prems(2)] run Message_Start by simp
    next
      case False
      let ?acc = "acc\<lparr> sm_started := True \<rparr>"
      have n: "numbered s ?acc known" using Cons.prems(2) by (simp add: numbered_def)
      obtain out1 x where "watched held convert pool es s ?acc = (out1, s1, acc1, stopped)" "out = Message_Start m u x # out1"
        using run Message_Start False by (auto split: prod.splits)
      then show ?thesis using Cons.IH [OF up n] False by simp
    qed
  next
    case (Block_Start i b)
    then have new: "i \<notin> set known" "upstream_ok (i # known) es" using Cons.prems(1) by simp_all
    obtain act s2 acc2 v where o: "observe held pool (Block_Start i b) s acc = ((act, Block_Start v b), s2, acc2)"
      "numbered s2 acc2 (i # known)" "sm_started acc2 = sm_started acc"
      "owned_use pool b \<and> act = Defer \<and> acc2 = acc
       \<or> \<not> owned_use pool b \<and> act = Forward \<and> v = sm_next_index acc \<and> sm_next_index acc2 = sm_next_index acc + 1"
      using observe_block_start [OF Cons.prems(2) new(1), of held pool b] by blast
    from o(4) show ?thesis
    proof (elim disjE conjE)
      assume "act = Defer" "acc2 = acc"
      then show ?thesis using Cons.IH [OF new(2) o(2)] run Block_Start o(1) by simp
    next
      assume f: "\<not> owned_use pool b" "act = Forward" "v = sm_next_index acc" "sm_next_index acc2 = sm_next_index acc + 1"
      obtain out1 where "watched held convert pool es s2 acc2 = (out1, s1, acc1, stopped)" "out = Block_Start v b # out1"
        using run Block_Start o(1) f(2) by (auto simp del: observe.simps split: prod.splits)
      then show ?thesis using Cons.IH [OF new(2) o(2)] f o(3) by simp
    qed
  next
    case (Block_Delta i d)
    have "numbered (apply_delta i d s) acc known" using Cons.prems(2) by (simp add: numbered_def)
    then show ?thesis using Block_Delta Cons.prems(1) by (intro indexed [of i d "apply_delta i d s"]) simp_all
  next
    case (Block_Stop i)
    then show ?thesis using Cons.prems(1,2) by (intro indexed [of i Other_Delta s]) simp_all
  next
    case (Message_Delta r u edits)
    let ?s = "s\<lparr> ms_stop_reason := or_previous r (ms_stop_reason s), ms_deferred := ms_deferred s @ [e] \<rparr>"
    have "numbered ?s acc known" "upstream_ok known es"
      using Cons.prems(1,2) Message_Delta by (auto simp: numbered_def)
    then show ?thesis using Cons.IH [of known ?s acc out] run Message_Delta by simp
  next
    case Message_Stop
    then show ?thesis using run Cons.prems(2) by (auto simp: numbered_def closes_def)
  next
    case (Other_Event x)
    then have up: "upstream_ok known es" using Cons.prems(1) by simp
    obtain out1 where "watched held convert pool es s acc = (out1, s1, acc1, stopped)" "out = Other_Event x # out1"
      using run Other_Event by (auto split: prod.splits)
    then show ?thesis using Cons.IH [OF up Cons.prems(2)] by simp
  qed
qed

section \<open>The whole loop as one message\<close>

lemma numbered_new: "0 \<le> sm_next_index acc \<Longrightarrow> numbered new_stream_state acc []"
  by (simp add: numbered_def new_stream_state_def)

lemma accumulate_numbers:
  "sm_next_index (accumulate_stream_usage acc s) = sm_next_index acc"
  "sm_started (accumulate_stream_usage acc s) = sm_started acc"
proof -
  have one: "sm_next_index (accumulate_delta e a) = sm_next_index a \<and> sm_started (accumulate_delta e a) = sm_started a" for e a
    by (cases e) (auto simp: Let_def split: option.split)
  have "sm_next_index (fold accumulate_delta es a) = sm_next_index a \<and> sm_started (fold accumulate_delta es a) = sm_started a"
    for es a
    by (induction es arbitrary: a) (simp_all add: one)
  then show "sm_next_index (accumulate_stream_usage acc s) = sm_next_index acc"
    "sm_started (accumulate_stream_usage acc s) = sm_started acc"
    by (simp_all add: accumulate_stream_usage_def)
qed

lemma closes_terminal: "closes (ms_deferred s) \<Longrightarrow> closes (terminal_events s acc)"
proof -
  have keep: "is_message_delta (fold_message_delta acc e) = is_message_delta e" for e
    by (induction acc e rule: fold_message_delta.induct) auto
  assume "closes (ms_deferred s)"
  then obtain deltas where d: "list_all is_message_delta deltas" "ms_deferred s = deltas \<or> ms_deferred s = deltas @ [Message_Stop]"
    by (auto simp: closes_def)
  have "list_all is_message_delta (map (fold_message_delta acc) deltas)" using d(1) by (simp add: list_all_iff keep)
  then show ?thesis using d(2) unfolding closes_def terminal_events_def by (intro exI [of _ "map (fold_message_delta acc) deltas"]) auto
qed

lemma exiting_deferred: "stream_exiting pool s = (exiting, s1) \<Longrightarrow> ms_deferred s1 = ms_deferred s"
  by (auto simp: stream_exiting_def Let_def)

lemma execute_stream_keeps:
  "execute_stream_owned env pool s specs w = (res, w1) \<Longrightarrow> lw_answers w1 = lw_answers w"
  by (induction specs arbitrary: w res)
    (auto split: prod.splits sum.splits dest!: run_tool_keeps)

lemma finalize_keeps: "finalize_exit env pool s w = (res, w1) \<Longrightarrow> lw_answers w1 = lw_answers w"
  by (auto simp: finalize_exit_def split: if_splits prod.splits sum.splits dest: execute_stream_keeps)

lemma advance_keeps: "advance_stream env pool s w = (res, w1) \<Longrightarrow> lw_answers w1 = lw_answers w"
  by (auto simp: advance_stream_def Let_def split: prod.splits sum.splits dest: execute_stream_keeps)

lemma end_round_cases:
  assumes "end_round (messages_stream held convert) env pool s acc w = (x, w1)"
  obtains (failed) e where "x = Inl (Some e, [])" "lw_answers w1 = lw_answers w"
  | (exited) "x = Inl (None, terminal_events (snd (stream_exiting pool s)) acc)" "lw_answers w1 = lw_answers w"
  | (further) turn where "x = Inr (turn, accumulate_stream_usage acc (snd (stream_exiting pool s)))"
      "lw_answers w1 = lw_answers w"
proof -
  let ?s = "snd (stream_exiting pool s)"
  show thesis
  proof (cases "fst (stream_exiting pool s)")
    case True
    obtain y w2 where f: "finalize_exit env pool ?s w = (y, w2)" by fastforce
    show thesis
      using True f assms finalize_keeps [OF f] failed exited
      by (cases y) (auto simp: end_round_def split_beta Let_def)
  next
    case False
    obtain y w2 where f: "advance_stream env pool ?s w = (y, w2)" by fastforce
    show thesis
      using False f assms advance_keeps [OF f] failed further
      by (cases y) (auto simp: end_round_def split_beta Let_def)
  qed
qed

text \<open>A round of the stream, with what it forwarded: it may end the loop, by an error or an exit, or go on.\<close>

lemma stream_round_cases:
  assumes "stream_rounds (messages_stream held convert) env pool rq (Suc k) first transcript acc w = (res, out, w1)"
  obtains (unopened) e where "res = Some e" "out = []" "lw_answers w1 = lw_answers w"
  | (failed) q es broken s1 acc1 stopped e where "le_answer env (length (lw_sent w)) q = Inr (es, broken)"
      "watched held convert pool es new_stream_state acc = (out, s1, acc1, stopped)" "res = Some e"
      "lw_answers w1 = lw_answers w @ [(es, broken)]"
  | (exited) q es broken body s1 acc1 stopped where "le_answer env (length (lw_sent w)) q = Inr (es, broken)"
      "watched held convert pool es new_stream_state acc = (body, s1, acc1, stopped)" "res = None"
      "out = body @ terminal_events (snd (stream_exiting pool s1)) acc1" "lw_answers w1 = lw_answers w @ [(es, broken)]"
  | (further) q es broken body s1 acc1 stopped turn wn later where "le_answer env (length (lw_sent w)) q = Inr (es, broken)"
      "watched held convert pool es new_stream_state acc = (body, s1, acc1, stopped)" "out = body @ later"
      "lw_answers wn = lw_answers w @ [(es, broken)]"
      "stream_rounds (messages_stream held convert) env pool rq k False (transcript @ turn)
         (accumulate_stream_usage acc1 (snd (stream_exiting pool s1))) wn = (res, later, w1)"
proof -
  let ?st = "messages_stream held convert"
  let ?q = "round_kwargs (sh_convert ?st) (sh_note ?st) pool rq True (k = 0) transcript"
  obtain answer wa where a: "call_provider env ?q w = (answer, wa)" by fastforce
  then show thesis
  proof (cases rule: call_provider_cases)
    case (failed e)
    with a assms show thesis by (intro unopened) auto
  next
    case (answered r)
    obtain es broken where r: "r = (es, broken)" by fastforce
    obtain body s1 acc1 stopped where watch: "watched held convert pool es new_stream_state acc = (body, s1, acc1, stopped)"
      by (metis prod_cases4)
    obtain x wb where ending: "end_round ?st env pool s1 acc1 (signal_first first wa) = (x, wb)" by fastforce
    have log: "lw_answers wa = lw_answers w @ [(es, broken)]" using answered r by simp
    have ans: "le_answer env (length (lw_sent w)) ?q = Inr (es, broken)" using answered r by simp
    show thesis
    proof (cases "\<not> stopped \<and> broken \<noteq> None")
      case True
      then obtain e where "broken = Some e" by auto
      with True show thesis using assms a answered(1) r watch log ans by (intro that(2) [OF ans]) auto
    next
      case False
      have run: "(res, out, w1) = (case x of
          Inl (res, closing) \<Rightarrow> (res, body @ closing, wb)
        | Inr (turn, acc2) \<Rightarrow> (case stream_rounds ?st env pool rq k False (transcript @ turn) acc2 wb of
            (res, later, w4) \<Rightarrow> (res, body @ later, w4)))"
        using assms False a answered(1) r watch ending
        by (cases stopped; cases broken; cases x) (auto split: prod.splits)
      from ending show thesis
      proof (cases rule: end_round_cases)
        case (failed e)
        then show thesis using run watch log by (intro that(2) [OF ans]) (auto simp: signal_first_def)
      next
        case exited
        then show thesis using run watch log by (intro that(3) [OF ans watch]) (auto simp: signal_first_def)
      next
        case (further turn)
        obtain res1 later wl where l: "stream_rounds ?st env pool rq k False (transcript @ turn)
            (accumulate_stream_usage acc1 (snd (stream_exiting pool s1))) wb = (res1, later, wl)"
          by (metis prod_cases3)
        show thesis using further run log l
          by (intro that(4) [OF ans watch, where wn = wb and turn = turn and later = later])
            (auto simp: signal_first_def)
      qed
    qed
  qed
qed

lemma rounds_one_message:
  assumes "stream_rounds (messages_stream held convert) env pool rq k first transcript acc w = (res, out, w1)"
    "streams_ok env" "0 \<le> sm_next_index acc"
  shows "\<exists>body closing c. out = body @ closing \<and> client_run pool (sm_next_index acc, sm_started acc) body = Some c \<and> closes closing"
  using assms(1,3)
proof (induction k arbitrary: first transcript acc w out)
  case 0
  then show ?case by (auto simp: closes_def)
next
  case (Suc k)
  have closed: "closes []" by (simp add: closes_def)
  have ok: "upstream_ok [] es" if "le_answer env n q = Inr (es, broken)" for n q es broken
    using assms(2) that by (auto simp: streams_ok_def)
  from Suc.prems(1) show ?case
  proof (cases rule: stream_round_cases)
    case unopened
    then show ?thesis using closed by auto
  next
    case (failed q es broken s1 acc1 stopped e)
    then show ?thesis using watched_ok [OF ok numbered_new, OF failed(1) Suc.prems(2) failed(2)] closed by auto
  next
    case (exited q es broken body s1 acc1 stopped)
    note seen = watched_ok [OF ok numbered_new, OF exited(1) Suc.prems(2) exited(2)]
    have "ms_deferred (snd (stream_exiting pool s1)) = ms_deferred s1"
      using exiting_deferred [of pool s1] by (metis prod.collapse)
    then have "closes (terminal_events (snd (stream_exiting pool s1)) acc1)" using seen by (simp add: closes_terminal)
    then show ?thesis using exited(4) seen by blast
  next
    case (further q es broken body s1 acc1 stopped turn wn later)
    note seen = watched_ok [OF ok numbered_new, OF further(1) Suc.prems(2) further(2)]
    let ?acc = "accumulate_stream_usage acc1 (snd (stream_exiting pool s1))"
    obtain body1 closing c where rest: "later = body1 @ closing"
      "client_run pool (sm_next_index acc1, sm_started acc1) body1 = Some c" "closes closing"
      using Suc.IH [OF further(5)] seen by (auto simp: accumulate_numbers)
    then have "client_run pool (sm_next_index acc, sm_started acc) (body @ body1) = Some c"
      using seen by (simp add: client_run_append)
    then show ?thesis using rest further(3) by (metis append.assoc)
  qed
qed

section \<open>One closing usage\<close>

datatype stream_axis = S_Output | S_Input | S_Cache_Read | S_Cache_Creation | S_Searches | S_Fetches

fun delta_axis :: "stream_axis \<Rightarrow> delta_usage \<Rightarrow> int" where
  "delta_axis S_Output u = count_of (du_output u)"
| "delta_axis S_Input u = count_of (du_input u)"
| "delta_axis S_Cache_Read u = count_of (du_cache_read u)"
| "delta_axis S_Cache_Creation u = count_of (du_cache_creation u)"
| "delta_axis S_Searches u = count_of (du_searches u)"
| "delta_axis S_Fetches u = count_of (du_fetches u)"

fun totals_axis :: "stream_axis \<Rightarrow> stream_totals \<Rightarrow> int" where
  "totals_axis S_Output acc = sm_output acc"
| "totals_axis S_Input acc = sm_input acc"
| "totals_axis S_Cache_Read acc = sm_cache_read acc"
| "totals_axis S_Cache_Creation acc = sm_cache_creation acc"
| "totals_axis S_Searches acc = sm_searches acc"
| "totals_axis S_Fetches acc = sm_fetches acc"

text \<open>The usages of the deltas of a list of events, those of its starts, and what an upstream reports up to its end.\<close>

fun usages :: "message_event list \<Rightarrow> delta_usage list" where
  "usages [] = []"
| "usages (Message_Delta r (Some u) edits # es) = u # usages es"
| "usages (e # es) = usages es"

fun starts :: "message_event list \<Rightarrow> delta_usage list" where
  "starts [] = []"
| "starts (Message_Start m u c # es) = u # starts es"
| "starts (e # es) = starts es"

definition until_stop :: "message_event list \<Rightarrow> message_event list" where
  "until_stop es = takeWhile (\<lambda>e. e \<noteq> Message_Stop) es"

definition counted :: "stream_axis \<Rightarrow> message_event list \<Rightarrow> int" where
  "counted x es = sum_list (map (delta_axis x) (usages es))"

definition counts_reported :: "('m, message_event list \<times> string option) loop_env \<Rightarrow> bool" where
  "counts_reported env \<longleftrightarrow> (\<forall>n q es broken. le_answer env n q = Inr (es, broken) \<longrightarrow>
     (\<forall>u\<in>set (usages (until_stop es)). \<forall>x. 0 \<le> delta_axis x u))"

definition stream_counts :: "stream_axis \<Rightarrow> (message_event list \<times> string option) list \<Rightarrow> int" where
  "stream_counts x streams = sum_list (map (\<lambda>(es, broken). counted x (until_stop es)) streams)"

definition stream_starts :: "(message_event list \<times> string option) list \<Rightarrow> delta_usage list" where
  "stream_starts streams = concat (map (\<lambda>(es, broken). starts (until_stop es)) streams)"

lemma starts_append [simp]: "starts (xs @ ys) = starts xs @ starts ys"
  by (induction xs rule: starts.induct) auto

lemma usages_append [simp]: "usages (xs @ ys) = usages xs @ usages ys"
  by (induction xs rule: usages.induct) auto

lemma until_stop_Cons: "until_stop (e # es) = (if e = Message_Stop then [] else e # until_stop es)"
  by (simp add: until_stop_def)

lemma apply_delta_deferred: "ms_deferred (apply_delta i d s) = ms_deferred s" by simp

lemma visible_for_keeps:
  assumes "visible_for s acc i = (v, s1, acc1)"
  shows "ms_deferred s1 = ms_deferred s" "totals_axis x acc1 = totals_axis x acc"
  using assms by (cases x; auto simp: visible_for_def split: option.splits)+

lemma forward_keeps:
  assumes "forward_indexed e i s acc = ((act, e1), s1, acc1)" "usages [e] = []" "act \<noteq> Break \<and> e \<noteq> Message_Stop"
  shows "ms_deferred s1 = ms_deferred s \<and> totals_axis x acc1 = totals_axis x acc \<and> act \<noteq> Break
    \<and> (act = Forward \<longrightarrow> usages [e1] = [])"
proof -
  have quiet: "usages [reindexed e v] = []" for v using assms(2) by (cases e) (auto split: option.splits)
  show ?thesis
    using assms visible_for_keeps quiet
    by (fastforce simp: forward_indexed_def split: if_splits prod.splits)
qed

text \<open>An observed event adds its usage to the deferred ones, and forwards none.\<close>

lemma observe_usage:
  assumes "observe held pool e s acc = ((act, e1), s1, acc1)"
  shows "usages (ms_deferred s1) = usages (ms_deferred s) @ usages [e] \<and> totals_axis x acc1 = totals_axis x acc
    \<and> (act = Break \<longleftrightarrow> e = Message_Stop) \<and> (act = Forward \<longrightarrow> usages [e1] = [])"
proof (cases e)
  case (Message_Start m u c)
  then show ?thesis using assms by (cases x) (auto split: if_splits)
next
  case (Block_Start i b)
  then show ?thesis using assms visible_for_keeps
    by (fastforce simp: Let_def split: if_splits prod.splits)
next
  case (Block_Delta i d)
  have "act \<noteq> Break" using assms Block_Delta by (auto simp: forward_indexed_def split: if_splits prod.splits)
  then show ?thesis using assms Block_Delta forward_keeps [of "Block_Delta i d" i "apply_delta i d s" acc act e1 s1 acc1 x] by simp
next
  case (Block_Stop i)
  have "act \<noteq> Break" using assms Block_Stop by (auto simp: forward_indexed_def split: if_splits prod.splits)
  then show ?thesis using assms Block_Stop forward_keeps [of "Block_Stop i" i s acc act e1 s1 acc1 x] by simp
next
  case (Message_Delta r u edits)
  then show ?thesis using assms by (cases u) auto
qed (use assms in auto)

text \<open>Of the starts only the first of the loop is forwarded, with its usage.\<close>

lemma visible_for_started:
  "visible_for s acc i = (v, s1, acc1) \<Longrightarrow> sm_started acc1 = sm_started acc"
  by (auto simp: visible_for_def split: option.splits)

lemma starts_reindexed: "starts [reindexed e v] = starts [e]"
  by (cases e) auto

lemma observe_starts:
  assumes "observe held pool e s acc = ((act, e1), s1, acc1)"
  shows "(if act = Forward then starts [e1] else []) = (if sm_started acc then [] else starts [e])
    \<and> (sm_started acc1 \<longleftrightarrow> sm_started acc \<or> starts [e] \<noteq> [])"
  using assms visible_for_started starts_reindexed
  by (cases e) (fastforce simp: forward_indexed_def Let_def split: if_splits prod.splits)+

lemma watched_starts:
  assumes "watched held convert pool es s acc = (out, s1, acc1, stopped)"
  shows "starts out = (if sm_started acc then [] else take 1 (starts (until_stop es)))
    \<and> (sm_started acc1 \<longleftrightarrow> sm_started acc \<or> starts (until_stop es) \<noteq> [])"
  using assms
proof (induction es arbitrary: s acc out)
  case Nil
  then show ?case by (simp add: until_stop_def)
next
  case (Cons e es)
  obtain act e1 s2 acc2 where o: "observe held pool e s acc = ((act, e1), s2, acc2)" by (metis prod.exhaust)
  have stop: "act = Break \<longleftrightarrow> e = Message_Stop" using observe_usage [OF o] by blast
  have split: "starts (x # xs) = starts [x] @ starts xs" for x xs using starts_append [of "[x]" xs] by simp
  have one: "starts [e] = [] \<or> (\<exists>u. starts [e] = [u])" by (cases e) auto
  note run = Cons.prems [unfolded watched_Cons o]
  show ?case
  proof (cases act)
    case Forward
    obtain out1 where w: "watched held convert pool es s2 acc2 = (out1, s1, acc1, stopped)" "out = e1 # out1"
      using run Forward by (auto split: prod.splits)
    then show ?thesis
      using Cons.IH [OF w(1)] observe_starts [OF o] one stop Forward
      by (auto simp: until_stop_Cons split [of e1 out1] split [of e "until_stop es"])
  next
    case Defer
    then show ?thesis
      using Cons.IH [of s2 acc2 out] run observe_starts [OF o] one stop
      by (auto simp: until_stop_Cons split [of e "until_stop es"] split: if_split_asm)
  next
    case Break
    then show ?thesis using run observe_starts [OF o] stop by (auto simp: until_stop_Cons)
  qed
qed

lemma watched_usage:
  assumes "watched held convert pool es s acc = (out, s1, acc1, stopped)"
  shows "usages (ms_deferred s1) = usages (ms_deferred s) @ usages (until_stop es)
    \<and> totals_axis x acc1 = totals_axis x acc \<and> usages out = []"
  using assms
proof (induction es arbitrary: s acc out)
  case Nil
  then show ?case by (simp add: until_stop_def)
next
  case (Cons e es)
  obtain act e1 s2 acc2 where o: "observe held pool e s acc = ((act, e1), s2, acc2)" by (metis prod.exhaust)
  note one = observe_usage [OF o, of x]
  note run = Cons.prems [unfolded watched_Cons o]
  show ?case
  proof (cases act)
    case Forward
    obtain out1 where w: "watched held convert pool es s2 acc2 = (out1, s1, acc1, stopped)" "out = e1 # out1"
      using run Forward by (auto split: prod.splits)
    have "usages (e # until_stop es) = usages [e] @ usages (until_stop es)" "usages (e1 # out1) = usages [e1] @ usages out1"
      using usages_append [of "[e]" "until_stop es"] usages_append [of "[e1]" out1] by simp_all
    then show ?thesis using Cons.IH [OF w(1)] one Forward w(2) by (auto simp: until_stop_Cons)
  next
    case Defer
    have "usages (e # until_stop es) = usages [e] @ usages (until_stop es)"
      using usages_append [of "[e]" "until_stop es"] by simp
    then show ?thesis using Cons.IH [of s2 acc2 out] run one Defer by (auto simp: until_stop_Cons)
  next
    case Break
    then show ?thesis using run one by (auto simp: until_stop_Cons)
  qed
qed

lemma accumulate_axis: "totals_axis x (accumulate_stream_usage acc s) = totals_axis x acc + counted x (ms_deferred s)"
proof -
  have one: "totals_axis x (accumulate_delta e a) = totals_axis x a + counted x [e]" for e a
    by (cases x; cases e) (auto simp: counted_def Let_def split: option.splits)
  have "totals_axis x (fold accumulate_delta es a) = totals_axis x a + counted x es" for es a
  proof (induction es arbitrary: a)
    case (Cons e es)
    have "counted x (e # es) = counted x [e] + counted x es"
      using usages_append [of "[e]" es] by (simp add: counted_def)
    then show ?case using Cons by (simp add: one)
  qed (simp add: counted_def)
  then show ?thesis by (simp add: accumulate_stream_usage_def)
qed

lemma usages_folded: "usages (map (fold_message_delta acc) es) = map (fold_delta_usage acc) (usages es)"
  by (induction es rule: usages.induct) auto

lemma fold_axis_total:
  assumes "\<forall>x. 0 \<le> totals_axis x acc"
  shows "delta_axis x (fold_delta_usage acc u) = delta_axis x u + totals_axis x acc"
  using assms [rule_format, of x] by (cases x) (auto simp: fold_delta_usage_def Let_def count_of_def)

lemma exiting_same: "ms_deferred (snd (stream_exiting pool s)) = ms_deferred s"
  by (simp add: stream_exiting_def Let_def)

lemma rounds_usage:
  assumes "stream_rounds (messages_stream held convert) env pool rq k first transcript acc w = (None, out, w1)"
    "counts_reported env" "\<forall>x. 0 \<le> totals_axis x acc" "\<forall>x. totals_axis x acc = stream_counts x (lw_answers w)"
    "usages out = [u]"
  shows "delta_axis x u = stream_counts x (lw_answers w1)"
  using assms(1,3-5)
proof (induction k arbitrary: first transcript acc w out)
  case (Suc k)
  from Suc.prems(1) show ?case
  proof (cases rule: stream_round_cases)
    case (exited q es broken body s1 acc1 stopped)
    note seen = watched_usage [OF exited(2)]
    have pos: "\<forall>x. 0 \<le> totals_axis x acc1" using seen Suc.prems(2) by simp
    obtain v where "usages (until_stop es) = [v]" "u = fold_delta_usage acc1 v"
      using Suc.prems(4) exited(4) seen
      by (auto simp: terminal_events_def usages_folded exiting_same new_stream_state_def)
    then show ?thesis
      using exited(5) seen Suc.prems(3)
      by (simp add: fold_axis_total [OF pos] stream_counts_def counted_def)
  next
    case (further q es broken body s1 acc1 stopped turn wn later)
    note seen = watched_usage [OF further(2)]
    let ?acc = "accumulate_stream_usage acc1 (snd (stream_exiting pool s1))"
    have plus: "totals_axis x ?acc = totals_axis x acc + counted x (until_stop es)" for x
      using seen by (simp add: accumulate_axis exiting_same counted_def new_stream_state_def)
    have "0 \<le> counted x (until_stop es)" for x
      using assms(2) further(1) by (fastforce simp: counts_reported_def counted_def intro: sum_list_nonneg)
    then have "\<forall>x. 0 \<le> totals_axis x ?acc" using plus Suc.prems(2) by (simp add: add_nonneg_nonneg)
    moreover have "\<forall>x. totals_axis x ?acc = stream_counts x (lw_answers wn)"
      using plus Suc.prems(3) further(4) by (simp add: stream_counts_def)
    moreover have "usages later = [u]" using Suc.prems(4) further(3) seen by simp
    ultimately show ?thesis by (rule Suc.IH [OF further(5)])
  qed simp_all
qed simp

lemma terminal_starts: "starts (terminal_events s acc) = starts (ms_deferred s)"
proof -
  have "starts (map (fold_message_delta acc) es) = starts es" for es
  proof (induction es)
    case (Cons e es)
    then show ?case by (cases "(acc, e)" rule: fold_message_delta.cases) auto
  qed simp
  then show ?thesis by (simp add: terminal_events_def)
qed

lemma watched_deferred_starts:
  assumes "watched held convert pool es s acc = (out, s1, acc1, stopped)" "starts (ms_deferred s) = []"
  shows "starts (ms_deferred s1) = []"
  using assms
proof (induction es arbitrary: s acc out)
  case (Cons e es)
  obtain act e1 s2 acc2 where o: "observe held pool e s acc = ((act, e1), s2, acc2)" by (metis prod.exhaust)
  have "starts (ms_deferred s2) = []"
    using o Cons.prems(2) visible_for_keeps(1)
    by (cases e) (fastforce simp: forward_indexed_def Let_def split: if_splits prod.splits)+
  then show ?case using Cons.IH Cons.prems(1) [unfolded watched_Cons o] by (cases act) (auto split: prod.splits)
qed simp

lemma rounds_starts:
  assumes "stream_rounds (messages_stream held convert) env pool rq k first transcript acc w = (None, out, w1)"
    "sm_started acc \<longleftrightarrow> stream_starts (lw_answers w) \<noteq> []"
  shows "take 1 (stream_starts (lw_answers w)) @ starts out = take 1 (stream_starts (lw_answers w1))"
  using assms
proof (induction k arbitrary: first transcript acc w out)
  case (Suc k)
  have none: "starts (ms_deferred new_stream_state) = []" by (simp add: new_stream_state_def)
  have more: "stream_starts (ws @ [(es, broken)]) = stream_starts ws @ starts (until_stop es)" for ws es broken
    by (simp add: stream_starts_def)
  from Suc.prems(1) show ?case
  proof (cases rule: stream_round_cases)
    case (exited q es broken body s1 acc1 stopped)
    have "starts (terminal_events (snd (stream_exiting pool s1)) acc1) = []"
      using watched_deferred_starts [OF exited(2) none] by (simp add: terminal_starts exiting_same)
    then show ?thesis
      using exited(4,5) watched_starts [OF exited(2)] Suc.prems(2)
      by (cases "stream_starts (lw_answers w) = []") (simp_all add: more Suc_le_eq)
  next
    case (further q es broken body s1 acc1 stopped turn wn later)
    note seen = watched_starts [OF further(2)]
    have "sm_started (accumulate_stream_usage acc1 (snd (stream_exiting pool s1))) \<longleftrightarrow> stream_starts (lw_answers wn) \<noteq> []"
      using seen Suc.prems(2) further(4) by (simp add: accumulate_numbers more)
    then have "take 1 (stream_starts (lw_answers wn)) @ starts later = take 1 (stream_starts (lw_answers w1))"
      by (rule Suc.IH [OF further(5)])
    moreover have "take 1 (stream_starts (lw_answers wn)) = take 1 (stream_starts (lw_answers w)) @ starts body"
      using seen Suc.prems(2) further(4)
      by (cases "stream_starts (lw_answers w) = []") (simp_all add: more Suc_le_eq)
    ultimately show ?thesis using further(3) by simp
  qed simp_all
qed simp

section \<open>Samples\<close>

definition sample_use :: "string \<Rightarrow> string \<Rightarrow> block_fields" where
  "sample_use i name = [(''type'', ''tool_use''), (''id'', i), (''name'', name)]"

definition sample_usage :: "int \<Rightarrow> delta_usage" where
  "sample_usage n = \<lparr> du_output = Some n, du_input = None, du_cache_read = None, du_cache_creation = None,
     du_searches = None, du_fetches = None, du_iterations = None \<rparr>"

definition input_usage :: "int \<Rightarrow> delta_usage" where
  "input_usage n = \<lparr> du_output = None, du_input = Some n, du_cache_read = None, du_cache_creation = None,
     du_searches = None, du_fetches = None, du_iterations = None \<rparr>"

text \<open>A round that says something and searches, and the round that answers.\<close>

definition searching_round :: "message_event list" where
  "searching_round = [Message_Start ''m'' (input_usage 30) None, Block_Start 0 [(''type'', ''text''), (''text'', [])],
     Block_Delta 0 (Text_Delta ''let me see''), Block_Stop 0, Block_Start 1 (sample_use ''a'' ''search''),
     Block_Delta 1 (Json_Delta ''{}''), Block_Stop 1, Message_Delta (Some ''tool_use'') (Some (sample_usage 7)) None, Message_Stop]"

definition answering_round :: "message_event list" where
  "answering_round = [Message_Start ''n'' (input_usage 40) None, Other_Event ''ping'', Block_Start 0 [(''type'', ''text''), (''text'', [])],
     Block_Delta 0 (Text_Delta ''here''), Block_Stop 0, Message_Delta (Some ''end_turn'') (Some (sample_usage 5)) None, Message_Stop]"

definition sample_stream :: "(stream_turn, message_event list \<times> string option) loop_env" where
  "sample_stream = \<lparr> le_answer = (\<lambda>n q. if n = 0 then Inr (searching_round, None) else Inr (answering_round, None)),
     le_tool = (\<lambda>n name arguments. Answered ''found''), le_check = (\<lambda>r. None) \<rparr>"

definition sample_stream_loop :: "stream_turn loop_request" where
  "sample_stream_loop = \<lparr> lr_transcript = [Caller_Turn ''hi''], lr_tools = None, lr_tool_choice = None, lr_rest = [] \<rparr>"

lemma sample_stream_ok: "streams_ok sample_stream"
  by (auto simp: streams_ok_def sample_stream_def searching_round_def answering_round_def split: if_splits)

lemma sample_stream_counts: "counts_reported sample_stream"
proof -
  have "0 \<le> delta_axis x (sample_usage n)" if "0 \<le> n" for x n
    using that by (cases x) (simp_all add: sample_usage_def count_of_def)
  then show ?thesis
    by (auto simp: counts_reported_def sample_stream_def searching_round_def answering_round_def until_stop_def split: if_splits)
qed

lemma sample_stream_run:
  "case anthropic_tool_loop_stream None openai_to_anthropic_tools sample_stream [sample_search] sample_stream_loop 3
       (idle_loop Map.empty) of
     (res, out, w1) \<Rightarrow> res = None \<and> usages out = [sample_usage 12] \<and> lw_ran w1 = [(''search'', ''found'')]
       \<and> lw_answers w1 = [(searching_round, None), (answering_round, None)]"
  by code_simp

text \<open>
  The second round reported 40 of input on its \<open>message_start\<close>: the client is shown the first start alone, and the
  closing usage has no input. The loop without streaming adds up both.
\<close>

lemma hidden_start_is_not_reported:
  "case anthropic_tool_loop_stream None openai_to_anthropic_tools sample_stream [sample_search] sample_stream_loop 3
       (idle_loop Map.empty) of
     (res, out, w1) \<Rightarrow> starts out = [input_usage 30] \<and> map du_input (usages out) = [None]
       \<and> stream_starts (lw_answers w1) = [input_usage 30, input_usage 40]"
  by code_simp

text \<open>
  A mixed batch that stopped for another reason than \<open>tool_use\<close>: without streaming the gateway's call runs, in
  a stream it is hidden and never runs.
\<close>

definition cut_off_round :: "message_event list" where
  "cut_off_round = [Message_Start ''m'' (input_usage 30) None, Block_Start 0 (sample_use ''a'' ''search''), Block_Stop 0,
     Block_Start 1 (sample_use ''b'' ''mine''), Block_Stop 1, Message_Delta (Some ''max_tokens'') None None, Message_Stop]"

lemma cut_off_mixed_batch_differs:
  "lw_ran (snd (anthropic_tool_loop None
      (sample_messages\<lparr> le_answer := (\<lambda>n q. Inr (sample_message ''max_tokens''
        [Tool_Use ''a'' ''search'' ''{}'', Tool_Use ''b'' ''mine'' ''{}''] 10)) \<rparr>)
      [sample_search] sample_messages_loop 3 (idle_loop Map.empty))) = [(''search'', ''found'')]"
  "lw_ran (snd (snd (anthropic_tool_loop_stream None openai_to_anthropic_tools
      (sample_stream\<lparr> le_answer := (\<lambda>n q. Inr (cut_off_round, None)) \<rparr>)
      [sample_search] sample_stream_loop 3 (idle_loop Map.empty)))) = []"
  by code_simp+

section \<open>Properties\<close>

text \<open>
  \<^bold>\<open>C20\<close>. The streaming Messages loop shows its client one message, however many rounds it took and however it
  ends: one start at most, block indices from 0 without a gap, deltas and stops only of blocks that were
  started, no block of a gateway tool's call, and nothing after the closing events. It relies on upstreams
  that start each of their blocks once and first.
\<close>

theorem stream_is_one_message:
  assumes "anthropic_tool_loop_stream held convert env pool rq n w = (res, out, w1)" "streams_ok env"
  shows "one_message pool out"
proof -
  have "\<exists>body closing c. out = body @ closing \<and> client_run pool (0, False) body = Some c \<and> closes closing"
    using rounds_one_message [OF assms(1) [unfolded anthropic_tool_loop_stream_def run_tool_loop_stream_def] assms(2)]
    by (simp add: new_stream_totals_def)
  then show ?thesis by (auto simp: one_message_def)
qed

theorem stream_is_one_message_witness:
  "one_message [sample_search] (fst (snd (anthropic_tool_loop_stream None openai_to_anthropic_tools sample_stream
     [sample_search] sample_stream_loop 3 (idle_loop Map.empty))))"
  using stream_is_one_message [OF _ sample_stream_ok] by (metis prod.collapse)

text \<open>
  \<^bold>\<open>C24\<close>. The usage a streamed loop reports, when it ends well with one closing usage and no upstream reports a
  negative count. The closing usage counts the deltas of every round: on each axis, output, input, cache reads and
  writes, and the searches and fetches the provider ran, it is the sum of what all upstream messages reported on
  their deltas. What they report on their \<open>message_start\<close> is not in that sum, and of it the stream carries the
  first one's alone: the input of a later round is in it only when its provider repeats it on the delta.
\<close>

theorem stream_bills_every_round:
  assumes "anthropic_tool_loop_stream held convert env pool rq n w = (None, out, w1)" "lw_answers w = []"
    "counts_reported env" "usages out = [u]"
  shows "(\<forall>x. delta_axis x u = stream_counts x (lw_answers w1))
    \<and> starts out = take 1 (stream_starts (lw_answers w1))"
proof -
  note run = assms(1) [unfolded anthropic_tool_loop_stream_def run_tool_loop_stream_def]
  have none: "totals_axis x new_stream_totals = 0" for x by (cases x) (simp_all add: new_stream_totals_def)
  have "delta_axis x u = stream_counts x (lw_answers w1)" for x
    by (rule rounds_usage [OF run assms(3)]) (simp_all add: none assms(2,4) stream_counts_def)
  then show ?thesis
    using rounds_starts [OF run] by (simp add: assms(2) new_stream_totals_def stream_starts_def)
qed

theorem stream_bills_every_round_witness:
  "delta_axis S_Output (sample_usage 12) = stream_counts S_Output [(searching_round, None), (answering_round, None)]
    \<and> take 1 (stream_starts [(searching_round, None), (answering_round, None)]) = [input_usage 30]"
proof -
  obtain out w1 where run: "anthropic_tool_loop_stream None openai_to_anthropic_tools sample_stream [sample_search]
      sample_stream_loop 3 (idle_loop Map.empty) = (None, out, w1)"
    and seen: "usages out = [sample_usage 12]" "lw_answers w1 = [(searching_round, None), (answering_round, None)]"
    using sample_stream_run by (auto split: prod.splits)
  have first: "starts out = [input_usage 30]" using hidden_start_is_not_reported run by simp
  show ?thesis
    using stream_bills_every_round [OF run _ sample_stream_counts seen(1)] seen(2) first by (simp add: idle_loop_def)
qed

end
