(* ===== verification/Net_Addresses.thy ===== *)
theory Net_Addresses
  imports Prelude "HOL-Library.Word"
begin

unbundle bit_operations_syntax

text \<open>
  What \<open>services/url_safety.py\<close> takes from Python's \<open>ipaddress\<close> and \<open>urllib.parse\<close> (3.13 and later): addresses
  as machine words with the networks they are in, addresses read from text, and the authority of a URL.
  Strings hold characters below 256, for which \<open>urlsplit\<close>'s normalization check refuses nothing.

  The lemmas turn membership in a network into a range of \<open>unat\<close> values, so a statement about every address
  is linear arithmetic.
\<close>

section \<open>Addresses and networks\<close>

datatype ip_addr = V4 "32 word" | V6 "128 word" "string option"

text \<open>\<open>addr in network\<close>: the bits under the network mask are the network's.\<close>

definition in_net :: "'a::len word \<Rightarrow> nat \<Rightarrow> 'a word \<Rightarrow> bool" where
  "in_net net n a \<longleftrightarrow> a AND NOT (mask (LENGTH('a) - n)) = net"

lemma in_net_drop_bit:
  fixes a net :: "'a::len word"
  assumes "take_bit (LENGTH('a) - n) net = 0"
  shows "in_net net n a \<longleftrightarrow> drop_bit (LENGTH('a) - n) a = drop_bit (LENGTH('a) - n) net"
proof
  assume "in_net net n a"
  then have "net = a AND NOT (mask (LENGTH('a) - n))" by (simp add: in_net_def)
  then show "drop_bit (LENGTH('a) - n) a = drop_bit (LENGTH('a) - n) net"
    by (auto intro!: bit_word_eqI simp: bit_simps dest: bit_imp_le_length)
next
  assume eq: "drop_bit (LENGTH('a) - n) a = drop_bit (LENGTH('a) - n) net"
  have high: "bit a i = bit net i" if "LENGTH('a) - n \<le> i" for i
    using arg_cong[OF eq, of "\<lambda>w. bit w (i - (LENGTH('a) - n))"] that by (simp add: bit_simps)
  have low: "\<not> bit net i" if "i < LENGTH('a) - n" for i
    using arg_cong[OF assms, of "\<lambda>w. bit w i"] that by (simp add: bit_simps)
  show "in_net net n a"
    unfolding in_net_def
  proof (rule bit_word_eqI)
    fix i assume "i < LENGTH('a)"
    then show "bit (a AND NOT (mask (LENGTH('a) - n))) i = bit net i"
      using high[of i] low[of i] by (cases "i < LENGTH('a) - n") (auto simp: bit_simps)
  qed
qed

lemma unat_drop_bit: "unat (drop_bit k w) = unat w div 2 ^ k" for w :: "'a::len word"
proof -
  have "take_bit LENGTH('a) (unat w) = unat w" by (simp add: take_bit_nat_eq_self_iff unsigned_less)
  moreover have "drop_bit k (unat w) = unat w div 2 ^ k" by (rule drop_bit_eq_div)
  ultimately show ?thesis by (simp only: unsigned_drop_bit_eq)
qed

text \<open>An address is in a network when it is in the range of the network's addresses.\<close>

lemma in_net_range:
  fixes a net :: "'a::len word"
  assumes "2 ^ (LENGTH('a) - n) dvd unat net"
  shows "in_net net n a \<longleftrightarrow> unat net \<le> unat a \<and> unat a < unat net + 2 ^ (LENGTH('a) - n)"
proof -
  let ?k = "LENGTH('a) - n"
  obtain c where c: "unat net = c * 2 ^ ?k" using assms by (metis dvd_def mult.commute)
  have "take_bit ?k net = 0" by (simp add: unsigned_take_bit_eq flip: unat_eq_zero) (simp add: take_bit_eq_mod c)
  then have "in_net net n a \<longleftrightarrow> unat (drop_bit ?k a) = unat (drop_bit ?k net)"
    by (simp only: in_net_drop_bit word_unat_eq_iff)
  also have "\<dots> \<longleftrightarrow> unat a div 2 ^ ?k = c"
    by (simp only: unat_drop_bit c) simp
  also have "\<dots> \<longleftrightarrow> c * 2 ^ ?k \<le> unat a \<and> unat a < c * 2 ^ ?k + 2 ^ ?k"
    by (auto simp: div_nat_eqI dividend_less_times_div mult.commute[of c] add.commute)
  finally show ?thesis using c by simp
qed

section \<open>Kinds of address\<close>

text \<open>The constants of \<open>ipaddress\<close>: network, prefix length.\<close>

definition v4_private :: "(32 word \<times> nat) list" where
  "v4_private = [(0, 8), (0x0A000000, 8), (0x7F000000, 8), (0xA9FE0000, 16), (0xAC100000, 12), (0xC0000000, 24),
     (0xC00000AA, 31), (0xC0000200, 24), (0xC0A80000, 16), (0xC6120000, 15), (0xC6336400, 24), (0xCB007100, 24),
     (0xF0000000, 4), (0xFFFFFFFF, 32)]"

definition v4_private_exceptions :: "(32 word \<times> nat) list" where
  "v4_private_exceptions = [(0xC0000009, 32), (0xC000000A, 32)]"

definition v6_private :: "(128 word \<times> nat) list" where
  "v6_private = [(1, 128), (0, 128), (0xFFFF00000000, 96), (0x0064FF9B000100000000000000000000, 48),
     (0x01000000000000000000000000000000, 64), (0x20010000000000000000000000000000, 23),
     (0x20010DB8000000000000000000000000, 32), (0x20020000000000000000000000000000, 16),
     (0x3FFF0000000000000000000000000000, 20), (0xFC000000000000000000000000000000, 7),
     (0xFE800000000000000000000000000000, 10)]"

definition v6_private_exceptions :: "(128 word \<times> nat) list" where
  "v6_private_exceptions = [(0x20010001000000000000000000000001, 128), (0x20010001000000000000000000000002, 128),
     (0x20010003000000000000000000000000, 32), (0x20010004011200000000000000000000, 48),
     (0x20010020000000000000000000000000, 28), (0x20010030000000000000000000000000, 28)]"

definition v6_reserved :: "(128 word \<times> nat) list" where
  "v6_reserved = [(0, 8), (0x01000000000000000000000000000000, 8), (0x02000000000000000000000000000000, 7),
     (0x04000000000000000000000000000000, 6), (0x08000000000000000000000000000000, 5),
     (0x10000000000000000000000000000000, 4), (0x40000000000000000000000000000000, 3),
     (0x60000000000000000000000000000000, 3), (0x80000000000000000000000000000000, 3),
     (0xA0000000000000000000000000000000, 3), (0xC0000000000000000000000000000000, 3),
     (0xE0000000000000000000000000000000, 4), (0xF0000000000000000000000000000000, 5),
     (0xF8000000000000000000000000000000, 6), (0xFE000000000000000000000000000000, 9)]"

definition in_some_net :: "('a::len word \<times> nat) list \<Rightarrow> 'a word \<Rightarrow> bool" where
  "in_some_net nets a \<longleftrightarrow> list_ex (\<lambda>(net, n). in_net net n a) nets"

definition ipv4_mapped :: "128 word \<Rightarrow> 32 word option" where
  "ipv4_mapped a = (if drop_bit 32 a = 0xFFFF then Some (ucast (a AND 0xFFFFFFFF)) else None)"

text \<open>A property of an IPv4-mapped address is that of the IPv4 address.\<close>

definition through_mapped :: "(32 word \<Rightarrow> bool) \<Rightarrow> (128 word \<Rightarrow> bool) \<Rightarrow> ip_addr \<Rightarrow> bool" where
  "through_mapped p4 p6 addr = (case addr of
       V4 a \<Rightarrow> p4 a
     | V6 a _ \<Rightarrow> (case ipv4_mapped a of Some m \<Rightarrow> p4 m | None \<Rightarrow> p6 a))"

definition is_unspecified :: "ip_addr \<Rightarrow> bool" where
  "is_unspecified = through_mapped (\<lambda>a. a = 0) (\<lambda>a. a = 0)"

definition is_loopback :: "ip_addr \<Rightarrow> bool" where
  "is_loopback = through_mapped (in_net 0x7F000000 8) (\<lambda>a. a = 1)"

definition is_link_local :: "ip_addr \<Rightarrow> bool" where
  "is_link_local = through_mapped (in_net 0xA9FE0000 16) (in_net 0xFE800000000000000000000000000000 10)"

definition is_multicast :: "ip_addr \<Rightarrow> bool" where
  "is_multicast = through_mapped (in_net 0xE0000000 4) (in_net 0xFF000000000000000000000000000000 8)"

definition is_private :: "ip_addr \<Rightarrow> bool" where
  "is_private = through_mapped
     (\<lambda>a. in_some_net v4_private a \<and> \<not> in_some_net v4_private_exceptions a)
     (\<lambda>a. in_some_net v6_private a \<and> \<not> in_some_net v6_private_exceptions a)"

definition is_reserved :: "ip_addr \<Rightarrow> bool" where
  "is_reserved = through_mapped (in_net 0xF0000000 4) (in_some_net v6_reserved)"

section \<open>Addresses from text\<close>

definition ascii_digit :: "char \<Rightarrow> bool" where
  "ascii_digit c \<longleftrightarrow> (let n = of_char c :: nat in 48 \<le> n \<and> n \<le> 57)"

definition parse_octet :: "string \<Rightarrow> nat option" where
  "parse_octet s = (if s = [] \<or> \<not> list_all ascii_digit s \<or> length s > 3 \<or> (s \<noteq> ''0'' \<and> hd s = CHR ''0'')
       \<or> digits_value s > 255 then None else Some (digits_value s))"

definition parse_ipv4 :: "string \<Rightarrow> 32 word option" where
  "parse_ipv4 s = (case map parse_octet (split_on (CHR ''.'') s) of
       [Some a, Some b, Some c, Some d] \<Rightarrow>
         Some (((of_nat a * 256 + of_nat b) * 256 + of_nat c) * 256 + of_nat d)
     | _ \<Rightarrow> None)"

definition hex_digit_value :: "char \<Rightarrow> int option" where
  "hex_digit_value c = (let n = of_char c :: int in
     if 48 \<le> n \<and> n \<le> 57 then Some (n - 48)
     else if 97 \<le> n \<and> n \<le> 102 then Some (n - 87)
     else if 65 \<le> n \<and> n \<le> 70 then Some (n - 55)
     else None)"

text \<open>\<open>_parse_hextet\<close>; the empty string is not a number.\<close>

definition parse_hextet :: "string \<Rightarrow> int option" where
  "parse_hextet s = (if s = [] \<or> length s > 4 then None
     else fold (\<lambda>c acc. case (acc, hex_digit_value c) of (Some v, Some d) \<Rightarrow> Some (v * 16 + d) | _ \<Rightarrow> None) s (Some 0))"

text \<open>
  The parts between the colons, an IPv4 suffix read as two of them: a part is a hextet's value, or
  nothing where the text is empty.
\<close>

definition hextets_of :: "string list \<Rightarrow> int option list option" where
  "hextets_of parts =
     (if list_all (\<lambda>p. p = [] \<or> parse_hextet p \<noteq> None) parts then Some (map parse_hextet parts) else None)"

definition v6_parts :: "string \<Rightarrow> int option list option" where
  "v6_parts s = (let parts = split_on (CHR '':'') s in
     if length parts < 3 then None
     else if CHR ''.'' \<in> set (last parts) then (case parse_ipv4 (last parts) of
         None \<Rightarrow> None
       | Some w \<Rightarrow> map_option (\<lambda>hs. hs @ [Some (uint (drop_bit 16 w)), Some (uint (w AND 0xFFFF))]) (hextets_of (butlast parts)))
     else hextets_of parts)"

text \<open>The index of the one empty part strictly inside; \<open>None\<close> is an error, \<open>Some None\<close> no such part.\<close>

definition skip_index :: "int option list \<Rightarrow> nat option option" where
  "skip_index parts = (case filter (\<lambda>i. parts ! i = None) [1..<length parts - 1] of
       [] \<Rightarrow> Some None
     | [i] \<Rightarrow> Some (Some i)
     | _ \<Rightarrow> None)"

definition hextets_word :: "int list \<Rightarrow> 128 word" where
  "hextets_word hs = foldl (\<lambda>acc h. push_bit 16 acc OR of_int h) 0 hs"

definition assemble_v6 :: "int option list \<Rightarrow> 128 word option" where
  "assemble_v6 parts =
     (if length parts > 9 then None
      else case skip_index parts of
        None \<Rightarrow> None
      | Some None \<Rightarrow>
          if length parts = 8 \<and> list_all (\<lambda>p. p \<noteq> None) parts then Some (hextets_word (map the parts)) else None
      | Some (Some i) \<Rightarrow>
          (let hi = (if hd parts = None then i - 1 else i);
               lo = (if last parts = None then length parts - i - 2 else length parts - i - 1) in
           if (hd parts = None \<and> hi \<noteq> 0) \<or> (last parts = None \<and> lo \<noteq> 0) \<or> 8 < hi + lo + 1 then None
           else Some (hextets_word (map the (take hi parts) @ replicate (8 - (hi + lo)) 0
                  @ map the (drop (length parts - lo) parts)))))"

definition parse_ipv6 :: "string \<Rightarrow> ip_addr option" where
  "parse_ipv6 s = (if CHR ''/'' \<in> set s then None
     else case (case partition_at (CHR ''%'') s of
         None \<Rightarrow> Some (s, None)
       | Some (a, scope) \<Rightarrow> if scope = [] \<or> CHR ''%'' \<in> set scope then None else Some (a, Some scope)) of
       None \<Rightarrow> None
     | Some (a, scope) \<Rightarrow>
         map_option (\<lambda>w. V6 w scope) (case v6_parts a of None \<Rightarrow> None | Some parts \<Rightarrow> assemble_v6 parts))"

definition ip_address :: "string \<Rightarrow> ip_addr option" where
  "ip_address s = (case parse_ipv4 s of Some a \<Rightarrow> Some (V4 a) | None \<Rightarrow> parse_ipv6 s)"

end
