(* ===== verification/Url_Laws.thy ===== *)
theory Url_Laws
  imports Url_Safety
begin

text \<open>
  Which addresses a fetch can reach: the ranges the checks let through, exactly, and the addresses of every host
  they accept.
\<close>

section \<open>The ranges let through\<close>

text \<open>\<open>a.b.c.d\<close> as a number, and the eight groups of an IPv6 address from its first four, two and one.\<close>

definition quad :: "int \<Rightarrow> int \<Rightarrow> int \<Rightarrow> int \<Rightarrow> int" where
  "quad a b c d = ((a * 256 + b) * 256 + c) * 256 + d"

definition in_union :: "(int \<times> int) list \<Rightarrow> int \<Rightarrow> bool" where
  "in_union ranges n \<longleftrightarrow> list_ex (\<lambda>(lo, hi). lo \<le> n \<and> n < hi) ranges"

definition reachable_v4_ranges :: "(int \<times> int) list" where
  "reachable_v4_ranges =
     [(quad 1 0 0 0, quad 10 0 0 0), (quad 11 0 0 0, quad 127 0 0 0), (quad 128 0 0 0, quad 169 254 0 0),
      (quad 169 255 0 0, quad 172 16 0 0), (quad 172 32 0 0, quad 192 0 0 0), (quad 192 0 0 9, quad 192 0 0 11),
      (quad 192 0 1 0, quad 192 0 2 0), (quad 192 0 3 0, quad 192 168 0 0), (quad 192 169 0 0, quad 198 18 0 0),
      (quad 198 20 0 0, quad 198 51 100 0), (quad 198 51 101 0, quad 203 0 113 0), (quad 203 0 114 0, quad 224 0 0 0)]"

text \<open>
  Global unicast, \<open>2000::/3\<close>, without what \<open>ipaddress\<close> calls private in it; and \<open>fec0::/10\<close>, the old
  site-local range, which it calls neither private nor reserved.
\<close>

definition reachable_v6_ranges :: "(int \<times> int) list" where
  "reachable_v6_ranges =
     [(0x20000000000000000000000000000000, 0x20010000000000000000000000000000),
      (0x20010001000000000000000000000001, 0x20010001000000000000000000000003),
      (0x20010003000000000000000000000000, 0x20010004000000000000000000000000),
      (0x20010004011200000000000000000000, 0x20010004011300000000000000000000),
      (0x20010020000000000000000000000000, 0x20010040000000000000000000000000),
      (0x20010200000000000000000000000000, 0x20010DB8000000000000000000000000),
      (0x20010DB9000000000000000000000000, 0x20020000000000000000000000000000),
      (0x20030000000000000000000000000000, 0x3FFF0000000000000000000000000000),
      (0x3FFF1000000000000000000000000000, 0x40000000000000000000000000000000),
      (0xFEC00000000000000000000000000000, 0xFF000000000000000000000000000000)]"

definition reachable_address :: "ip_addr \<Rightarrow> bool" where
  "reachable_address a = (case a of
       V4 w \<Rightarrow> in_union reachable_v4_ranges (uint w)
     | V6 w _ \<Rightarrow> (if uint w div 2 ^ 32 = 0xFFFF then in_union reachable_v4_ranges (uint w mod 2 ^ 32) else in_union reachable_v6_ranges (uint w)))"

section \<open>Unions of ranges\<close>

text \<open>
  Membership in a union of ranges only changes at an end of one, so two combinations of unions that agree at
  every end agree everywhere.
\<close>

definition ends :: "(int \<times> int) list \<Rightarrow> int list" where
  "ends ranges = concat (map (\<lambda>(lo, hi). [lo, hi]) ranges)"

lemma ends_append [simp]: "ends (a @ b) = ends a @ ends b"
  by (simp add: ends_def)

lemma cell_point:
  fixes cs :: "int list"
  assumes "0 \<le> u"
  obtains e where "e \<in> set (0 # cs)" "e \<le> u" "\<And>c. c \<in> set cs \<Longrightarrow> c \<le> u \<longleftrightarrow> c \<le> e"
proof -
  let ?s = "insert 0 {c \<in> set cs. c \<le> u}"
  have "Max ?s \<in> ?s" by (rule Max_in) auto
  then have "Max ?s \<in> set (0 # cs)" "Max ?s \<le> u" using assms by auto
  moreover have "c \<le> u \<longleftrightarrow> c \<le> Max ?s" if "c \<in> set cs" for c
  proof
    show "c \<le> Max ?s" if "c \<le> u" using that \<open>c \<in> set cs\<close> by (intro Max_ge) auto
    show "c \<le> u" if "c \<le> Max ?s" using that \<open>Max ?s \<le> u\<close> by (rule order.trans)
  qed
  ultimately show ?thesis using that by blast
qed

lemma in_union_cell:
  assumes "\<And>c. c \<in> set (ends ranges) \<Longrightarrow> c \<le> u \<longleftrightarrow> c \<le> e"
  shows "in_union ranges u = in_union ranges e"
  using assms
proof (induction ranges)
  case (Cons r ranges)
  obtain lo hi where r: "r = (lo, hi)" by fastforce
  have "lo \<le> u \<longleftrightarrow> lo \<le> e" "hi \<le> u \<longleftrightarrow> hi \<le> e" using Cons.prems by (auto simp: r ends_def)
  moreover have "in_union ranges u = in_union ranges e" by (rule Cons.IH) (use Cons.prems in \<open>auto simp: ends_def\<close>)
  ultimately show ?case by (auto simp: r in_union_def not_le[symmetric])
qed (simp add: in_union_def)

lemma unions_agree:
  assumes "list_all (\<lambda>e. n \<le> e \<or> (in_union a e \<or> (in_union p e \<and> \<not> in_union x e)) = (\<not> in_union b e))
      (0 # cs)" "0 \<le> u" "u < n" "list_all (\<lambda>c. c \<in> set cs) (ends (a @ p @ x @ b))"
  shows "(in_union a u \<or> (in_union p u \<and> \<not> in_union x u)) = (\<not> in_union b u)"
proof -
  obtain e where e: "e \<in> set (0 # cs)" "e \<le> u" "\<And>c. c \<in> set cs \<Longrightarrow> c \<le> u \<longleftrightarrow> c \<le> e"
    using cell_point[OF assms(2), of cs] by blast
  have "in_union l u = in_union l e" if "l \<in> {a, p, x, b}" for l
    by (rule in_union_cell) (use that e(3) assms(4) in \<open>auto simp: list_all_iff\<close>)
  moreover have "\<not> n \<le> e" using e(2) assms(3) by simp
  ultimately show ?thesis using assms(1) e(1) by (auto simp: list_all_iff)
qed

definition net_ranges :: "('a::len word \<times> nat) list \<Rightarrow> (int \<times> int) list" where
  "net_ranges nets = map (\<lambda>(net, n). (uint net, uint net + 2 ^ (LENGTH('a) - n))) nets"

lemma in_net_uint:
  fixes a net :: "'a::len word"
  assumes "2 ^ (LENGTH('a) - n) dvd unat net"
  shows "in_net net n a \<longleftrightarrow> uint net \<le> uint a \<and> uint a < uint net + 2 ^ (LENGTH('a) - n)"
proof -
  have "int (unat w) = uint w" for w :: "'a word" by simp
  moreover have "unat net \<le> unat a \<longleftrightarrow> int (unat net) \<le> int (unat a)" by linarith
  moreover have "unat a < unat net + 2 ^ (LENGTH('a) - n) \<longleftrightarrow> int (unat a) < int (unat net) + 2 ^ (LENGTH('a) - n)"
    by (simp only: of_nat_less_iff[symmetric, where 'a = int] of_nat_add of_nat_power of_nat_numeral)
  ultimately show ?thesis using in_net_range[OF assms] by simp
qed

lemma in_some_net_union:
  fixes a :: "'a::len word"
  assumes "list_all (\<lambda>(net, n). 2 ^ (LENGTH('a) - n) dvd unat net) nets"
  shows "in_some_net nets a \<longleftrightarrow> in_union (net_ranges nets) (uint a)"
  using assms by (induction nets) (auto simp: in_some_net_def in_union_def net_ranges_def in_net_uint)

section \<open>What is blocked\<close>

definition v4_refused :: "(32 word \<times> nat) list" where
  "v4_refused = [(0, 32), (0x7F000000, 8), (0xA9FE0000, 16), (0xE0000000, 4), (0xF0000000, 4)]"

definition v6_refused :: "(128 word \<times> nat) list" where
  "v6_refused = [(0, 128), (1, 128), (0xFE800000000000000000000000000000, 10),
     (0xFF000000000000000000000000000000, 8)] @ v6_reserved"

lemma single_address:
  fixes net w :: "32 word" and net' w' :: "128 word"
  shows "in_net net 32 w \<longleftrightarrow> w = net" and "in_net net' 128 w' \<longleftrightarrow> w' = net'"
  by (simp_all add: in_net_def)

lemma in_some_net_simps:
  "in_some_net [] w \<longleftrightarrow> False"
  "in_some_net ((net, n) # nets) w \<longleftrightarrow> in_net net n w \<or> in_some_net nets w"
  "in_some_net (nets @ nets') w \<longleftrightarrow> in_some_net nets w \<or> in_some_net nets' w"
  by (auto simp: in_some_net_def)

lemma blocked_through_mapped:
  "blocked_reason a \<noteq> None \<longleftrightarrow> through_mapped
     (\<lambda>w. in_some_net v4_refused w \<or> (in_some_net v4_private w \<and> \<not> in_some_net v4_private_exceptions w))
     (\<lambda>w. in_some_net v6_refused w \<or> (in_some_net v6_private w \<and> \<not> in_some_net v6_private_exceptions w)) a"
proof -
  have "blocked_reason a \<noteq> None \<longleftrightarrow> is_unspecified a \<or> is_loopback a \<or> is_link_local a \<or> is_multicast a
      \<or> is_private a \<or> is_reserved a"
    by (simp add: blocked_reason_def)
  also have "\<dots> \<longleftrightarrow> through_mapped
     (\<lambda>w. in_some_net v4_refused w \<or> (in_some_net v4_private w \<and> \<not> in_some_net v4_private_exceptions w))
     (\<lambda>w. in_some_net v6_refused w \<or> (in_some_net v6_private w \<and> \<not> in_some_net v6_private_exceptions w)) a"
    unfolding v4_refused_def v6_refused_def in_some_net_simps single_address is_unspecified_def is_loopback_def
      is_link_local_def is_multicast_def is_private_def is_reserved_def through_mapped_def
    by (cases a) (simp_all add: disj_ac split: option.split)
  finally show ?thesis .
qed

text \<open>Every end of a range above, in order.\<close>

definition v4_ends :: "int list" where
  "v4_ends =
    [0x0, 0x1, 0x1000000, 0xA000000, 0xB000000, 0x7F000000, 0x80000000, 0xA9FE0000, 0xA9FF0000,
     0xAC100000, 0xAC200000, 0xC0000000, 0xC0000009, 0xC000000A, 0xC000000B, 0xC00000AA, 0xC00000AC,
     0xC0000100, 0xC0000200, 0xC0000300, 0xC0A80000, 0xC0A90000, 0xC6120000, 0xC6140000, 0xC6336400,
     0xC6336500, 0xCB007100, 0xCB007200, 0xE0000000, 0xF0000000, 0xFFFFFFFF, 0x100000000]"

definition v6_ends :: "int list" where
  "v6_ends =
    [0x0, 0x1, 0x2, 0xFFFF00000000, 0x1000000000000, 0x64FF9B000100000000000000000000,
     0x64FF9B000200000000000000000000, 0x1000000000000000000000000000000,
     0x1000000000000010000000000000000, 0x2000000000000000000000000000000,
     0x4000000000000000000000000000000, 0x8000000000000000000000000000000,
     0x10000000000000000000000000000000, 0x20000000000000000000000000000000,
     0x20010000000000000000000000000000, 0x20010001000000000000000000000001,
     0x20010001000000000000000000000002, 0x20010001000000000000000000000003,
     0x20010003000000000000000000000000, 0x20010004000000000000000000000000,
     0x20010004011200000000000000000000, 0x20010004011300000000000000000000,
     0x20010020000000000000000000000000, 0x20010030000000000000000000000000,
     0x20010040000000000000000000000000, 0x20010200000000000000000000000000,
     0x20010DB8000000000000000000000000, 0x20010DB9000000000000000000000000,
     0x20020000000000000000000000000000, 0x20030000000000000000000000000000,
     0x3FFF0000000000000000000000000000, 0x3FFF1000000000000000000000000000,
     0x40000000000000000000000000000000, 0x60000000000000000000000000000000,
     0x80000000000000000000000000000000, 0xA0000000000000000000000000000000,
     0xC0000000000000000000000000000000, 0xE0000000000000000000000000000000,
     0xF0000000000000000000000000000000, 0xF8000000000000000000000000000000,
     0xFC000000000000000000000000000000, 0xFE000000000000000000000000000000,
     0xFE800000000000000000000000000000, 0xFEC00000000000000000000000000000,
     0xFF000000000000000000000000000000, 0x100000000000000000000000000000000]"

text \<open>The networks as ranges, written out.\<close>

lemma v4_ranges:
  "net_ranges v4_refused = [(0x0, 0x1), (0x7F000000, 0x80000000), (0xA9FE0000, 0xA9FF0000), (0xE0000000, 0xF0000000), (0xF0000000,
     0x100000000)]"
  "net_ranges v4_private = [(0x0, 0x1000000), (0xA000000, 0xB000000), (0x7F000000, 0x80000000), (0xA9FE0000, 0xA9FF0000),
     (0xAC100000, 0xAC200000), (0xC0000000, 0xC0000100), (0xC00000AA, 0xC00000AC), (0xC0000200, 0xC0000300),
     (0xC0A80000, 0xC0A90000), (0xC6120000, 0xC6140000), (0xC6336400, 0xC6336500), (0xCB007100, 0xCB007200),
     (0xF0000000, 0x100000000), (0xFFFFFFFF, 0x100000000)]"
  "net_ranges v4_private_exceptions = [(0xC0000009, 0xC000000A), (0xC000000A, 0xC000000B)]"
  by (simp_all add: net_ranges_def v4_refused_def v4_private_def v4_private_exceptions_def)

lemma v6_ranges:
  "net_ranges v6_refused = [(0x0, 0x1), (0x1, 0x2), (0xFE800000000000000000000000000000, 0xFEC00000000000000000000000000000),
     (0xFF000000000000000000000000000000, 0x100000000000000000000000000000000), (0x0,
     0x1000000000000000000000000000000), (0x1000000000000000000000000000000,
     0x2000000000000000000000000000000), (0x2000000000000000000000000000000,
     0x4000000000000000000000000000000), (0x4000000000000000000000000000000,
     0x8000000000000000000000000000000), (0x8000000000000000000000000000000,
     0x10000000000000000000000000000000), (0x10000000000000000000000000000000,
     0x20000000000000000000000000000000), (0x40000000000000000000000000000000,
     0x60000000000000000000000000000000), (0x60000000000000000000000000000000,
     0x80000000000000000000000000000000), (0x80000000000000000000000000000000,
     0xA0000000000000000000000000000000), (0xA0000000000000000000000000000000,
     0xC0000000000000000000000000000000), (0xC0000000000000000000000000000000,
     0xE0000000000000000000000000000000), (0xE0000000000000000000000000000000,
     0xF0000000000000000000000000000000), (0xF0000000000000000000000000000000,
     0xF8000000000000000000000000000000), (0xF8000000000000000000000000000000,
     0xFC000000000000000000000000000000), (0xFE000000000000000000000000000000,
     0xFE800000000000000000000000000000)]"
  "net_ranges v6_private = [(0x1, 0x2), (0x0, 0x1), (0xFFFF00000000, 0x1000000000000), (0x64FF9B000100000000000000000000,
     0x64FF9B000200000000000000000000), (0x1000000000000000000000000000000,
     0x1000000000000010000000000000000), (0x20010000000000000000000000000000,
     0x20010200000000000000000000000000), (0x20010DB8000000000000000000000000,
     0x20010DB9000000000000000000000000), (0x20020000000000000000000000000000,
     0x20030000000000000000000000000000), (0x3FFF0000000000000000000000000000,
     0x3FFF1000000000000000000000000000), (0xFC000000000000000000000000000000,
     0xFE000000000000000000000000000000), (0xFE800000000000000000000000000000,
     0xFEC00000000000000000000000000000)]"
  "net_ranges v6_private_exceptions = [(0x20010001000000000000000000000001, 0x20010001000000000000000000000002),
     (0x20010001000000000000000000000002, 0x20010001000000000000000000000003),
     (0x20010003000000000000000000000000, 0x20010004000000000000000000000000),
     (0x20010004011200000000000000000000, 0x20010004011300000000000000000000),
     (0x20010020000000000000000000000000, 0x20010030000000000000000000000000),
     (0x20010030000000000000000000000000, 0x20010040000000000000000000000000)]"
  by (simp_all add: net_ranges_def v6_refused_def v6_reserved_def v6_private_def v6_private_exceptions_def)

lemma v4_blocked_ranges:
  "in_some_net v4_refused w \<or> (in_some_net v4_private w \<and> \<not> in_some_net v4_private_exceptions w)
     \<longleftrightarrow> \<not> in_union reachable_v4_ranges (uint w)"
proof -
  have "0 \<le> uint w" "uint w < 2 ^ 32" using uint_bounded[of w] by simp_all
  then have "(in_union (net_ranges v4_refused) (uint w) \<or> (in_union (net_ranges v4_private) (uint w)
      \<and> \<not> in_union (net_ranges v4_private_exceptions) (uint w))) = (\<not> in_union reachable_v4_ranges (uint w))"
    unfolding v4_ranges reachable_v4_ranges_def quad_def
    by (rule unions_agree[rotated 1, where cs = v4_ends]) (code_simp, code_simp)
  then show ?thesis
    by (simp add: in_some_net_union v4_refused_def v4_private_def v4_private_exceptions_def)
qed

lemma v6_blocked_ranges:
  "in_some_net v6_refused w \<or> (in_some_net v6_private w \<and> \<not> in_some_net v6_private_exceptions w)
     \<longleftrightarrow> \<not> in_union reachable_v6_ranges (uint w)"
proof -
  have "0 \<le> uint w" "uint w < 2 ^ 128" using uint_bounded[of w] by simp_all
  then have "(in_union (net_ranges v6_refused) (uint w) \<or> (in_union (net_ranges v6_private) (uint w)
      \<and> \<not> in_union (net_ranges v6_private_exceptions) (uint w))) = (\<not> in_union reachable_v6_ranges (uint w))"
    unfolding v6_ranges reachable_v6_ranges_def quad_def
    by (rule unions_agree[rotated 1, where cs = v6_ends]) (code_simp, code_simp)
  then show ?thesis
    by (simp add: in_some_net_union v6_refused_def v6_reserved_def v6_private_def v6_private_exceptions_def)
qed

lemma ipv4_mapped_parts:
  "ipv4_mapped w = (if uint w div 2 ^ 32 = 0xFFFF then Some (ucast w) else None)"
  "uint (ucast w :: 32 word) = uint w mod 2 ^ 32"
proof -
  have "(0xFFFFFFFF :: 128 word) = mask 32" by (simp add: mask_eq_exp_minus_1)
  then have "ucast (w AND 0xFFFFFFFF) = (ucast (w AND mask 32) :: 32 word)" by simp
  also have "\<dots> = ucast w" by (rule bit_word_eqI) (auto simp: bit_simps)
  finally have "ucast (w AND 0xFFFFFFFF) = (ucast w :: 32 word)" .
  moreover have "drop_bit 32 w = 0xFFFF \<longleftrightarrow> uint w div 2 ^ 32 = 0xFFFF"
  proof -
    have "uint (drop_bit 32 w) = uint w div 2 ^ 32"
      using unat_drop_bit[of 32 w] by (metis of_nat_numeral of_nat_power zdiv_int uint_nat)
    then show ?thesis unfolding word_uint_eq_iff by simp
  qed
  ultimately show "ipv4_mapped w = (if uint w div 2 ^ 32 = 0xFFFF then Some (ucast w) else None)"
    by (simp add: ipv4_mapped_def)
  show "uint (ucast w :: 32 word) = uint w mod 2 ^ 32" by (simp add: unsigned_ucast_eq take_bit_eq_mod)
qed

section \<open>Accepted hosts\<close>

lemma reject_internal_Inr:
  "reject_internal spared host found = Inr () \<longleftrightarrow> list_all (\<lambda>a. spared a \<or> blocked_reason a = None) found"
  by (induction found) (auto split: option.split)

lemma host_addresses_found: "host_addresses resolve host = Inr found \<Longrightarrow> found \<noteq> []"
  by (auto simp: host_addresses_def bind_result_def split: option.split_asm sum.split_asm if_split_asm)

definition url_host :: "string \<Rightarrow> string option" where
  "url_host url = (case urlsplit url of None \<Rightarrow> None | Some u \<Rightarrow> url_hostname u)"

lemma parse_safe_url_Inr: "parse_safe_url url = Inr u \<Longrightarrow> urlsplit url = Some u \<and> port_ok (su_netloc u)"
  by (auto simp: parse_safe_url_def Let_def split: option.split_asm if_split_asm)

lemma http_host_Inr: "http_host u = Inr host \<Longrightarrow> url_hostname u = Some host \<and> su_scheme u \<in> {''http'', ''https''}"
  by (auto simp: http_host_def split: option.split_asm if_split_asm)

section \<open>Properties\<close>

text \<open>
  \<^bold>\<open>C19\<close>: the addresses no reason blocks are exactly these: of IPv4, what lies outside the networks of the
  special registries; of IPv6, global unicast outside its special networks, and the old site-local range
  \<open>fec0::/10\<close>; an IPv4-mapped address counts as the IPv4 address in it.
\<close>

theorem blocked_addresses_exact: "blocked_reason a = None \<longleftrightarrow> reachable_address a"
proof (cases a)
  case (V4 w)
  then show ?thesis
    using blocked_through_mapped[of a] v4_blocked_ranges[of w] by (simp add: through_mapped_def reachable_address_def del: not_None_eq)
next
  case (V6 w scope)
  then show ?thesis
    using blocked_through_mapped[of a] v4_blocked_ranges[of "ucast w"] v6_blocked_ranges[of w]
    by (auto simp: through_mapped_def reachable_address_def ipv4_mapped_parts simp del: not_None_eq)
qed

text \<open>
  \<^bold>\<open>C18\<close>: unless private hosts are allowed, a URL accepted for a fetch names a host, and the host is an
  address, or resolves to addresses, all of which lie in the ranges let through.
\<close>

theorem fetched_url_stays_outside:
  assumes "validate_outbound_fetch_url env resolve url = Inr ()" "\<not> allow_web_search_private_hosts env"
  shows "\<exists>host found. url_host url = Some host \<and> host_addresses resolve host = Inr found \<and> found \<noteq> []
    \<and> list_all reachable_address found"
proof -
  obtain u host where "urlsplit url = Some u" "url_hostname u = Some host" "reject_internal_host resolve host = Inr ()"
    using assms by (auto simp: validate_outbound_fetch_url_def bind_result_Inr_iff dest!: parse_safe_url_Inr http_host_Inr)
  moreover from this(3) obtain found where "host_addresses resolve host = Inr found"
      "list_all (\<lambda>a. blocked_reason a = None) found"
    by (auto simp: reject_internal_host_def bind_result_Inr_iff reject_internal_Inr)
  ultimately show ?thesis using host_addresses_found by (auto simp: url_host_def blocked_addresses_exact)
qed

theorem fetched_url_stays_outside_witness:
  "\<exists>host found. url_host ''https://u:p@Example.com:8443/x'' = Some host
     \<and> host_addresses (\<lambda>h. if h = ''example.com'' then Addresses [''93.184.216.34''] else No_Answer) host = Inr found
     \<and> found \<noteq> [] \<and> list_all reachable_address found"
  by (rule fetched_url_stays_outside[of "\<lambda>_. None"]) (code_simp, code_simp)

text \<open>
  Unless private hosts are allowed, a URL accepted for an MCP server is http or https, https when a
  credential travels with it, and its host is an address, or resolves to addresses, each in the ranges let through
  or, where the deployment allows that, a loopback address.
\<close>

theorem mcp_url_stays_outside:
  assumes "validate_mcp_url env resolve url with_token = Inr ()" "\<not> allow_private_hosts env"
  shows "\<exists>u host found. urlsplit url = Some u \<and> url_hostname u = Some host
    \<and> (su_scheme u = ''https'' \<or> (su_scheme u = ''http'' \<and> \<not> with_token))
    \<and> host_addresses resolve host = Inr found \<and> found \<noteq> []
    \<and> list_all (\<lambda>a. reachable_address a \<or> (is_loopback a \<and> allow_loopback env)) found"
proof -
  obtain u host found where "urlsplit url = Some u" "url_hostname u = Some host"
      "su_scheme u = ''https'' \<or> (su_scheme u = ''http'' \<and> \<not> with_token)" "host_addresses resolve host = Inr found"
      "list_all (\<lambda>a. (is_loopback a \<and> allow_loopback env) \<or> blocked_reason a = None) found"
    using assms by (auto simp: validate_mcp_url_def bind_result_Inr_iff reject_internal_Inr
        dest!: parse_safe_url_Inr split: if_split_asm option.split_asm)
  then show ?thesis
    using host_addresses_found by (intro exI[of _ u] exI[of _ host] exI[of _ found]) (auto simp: blocked_addresses_exact list_all_iff)
qed

theorem mcp_url_stays_outside_witness:
  "\<exists>u host found. urlsplit ''http://[::1]:9000/mcp'' = Some u \<and> url_hostname u = Some host
    \<and> (su_scheme u = ''https'' \<or> (su_scheme u = ''http'' \<and> \<not> False))
    \<and> host_addresses (\<lambda>_. No_Answer) host = Inr found \<and> found \<noteq> []
    \<and> list_all (\<lambda>a. reachable_address a \<or> (is_loopback a \<and> allow_loopback (\<lambda>_. None))) found"
  by (rule mcp_url_stays_outside) (code_simp, code_simp)

end
