(* ===== verification/Idempotency.thy ===== *)
theory Idempotency
  imports Prelude
begin

text \<open>
  Idempotent completions: the claims of \<open>services/inference/_idempotency.py\<close>, the table of
  \<open>repositories/inference/idempotency_repository.py\<close>, the renewal of \<open>_lease.py\<close> and the guard of
  \<open>api/routes/_idempotency.py\<close>.

  The table is the list of its rows; a statement takes the table it runs on and returns what it leaves
  with the rows it matched. The box that encrypts a stored body is the record \<open>secret_box\<close>
  (\<open>services/secret_box.py\<close> over another package), the digest of a request the argument of
  \<open>idempotent_request_of\<close>, and a token drawn by \<open>uuid4\<close> an argument of whatever draws one.
\<close>

section \<open>Keys and requests\<close>

record idempotent_request =
  iq_scope :: string
  iq_key :: string
  iq_hash :: string
  iq_user_id :: string
  iq_api_key_id :: "string option"

definition max_key_length :: nat where
  "max_key_length = 255"

definition printable_ascii :: "char \<Rightarrow> bool" where
  "printable_ascii c = (let n = of_char c :: nat in 32 \<le> n \<and> n \<le> 126)"

definition usable_key :: "string \<Rightarrow> bool" where
  "usable_key key \<longleftrightarrow> 0 < length key \<and> length key \<le> max_key_length \<and> list_all printable_ascii key
     \<and> py_strip key = key"

text \<open>\<open>IdempotentRequest.of\<close>; \<open>None\<close> is \<open>InvalidKey\<close>, \<open>digest\<close> is \<open>_request_hash\<close>.\<close>

definition idempotent_request_of ::
  "(string \<Rightarrow> string \<Rightarrow> string option list \<Rightarrow> string) \<Rightarrow> string \<Rightarrow> string \<Rightarrow> string \<Rightarrow> string option list
     \<Rightarrow> string \<Rightarrow> string option \<Rightarrow> idempotent_request option" where
  "idempotent_request_of digest key endpoint body options user_id api_key_id =
     (if \<not> usable_key key then None
      else Some \<lparr> iq_scope = (case api_key_id of Some i \<Rightarrow> ''key:'' @ i | None \<Rightarrow> ''master:'' @ user_id),
                  iq_key = key, iq_hash = digest endpoint body options, iq_user_id = user_id,
                  iq_api_key_id = api_key_id \<rparr>)"

section \<open>The table\<close>

datatype claim_state = In_Progress | Completed

record idem_record =
  ir_scope :: string
  ir_key :: string
  ir_hash :: string
  ir_token :: string
  ir_state :: claim_state
  ir_user_id :: string
  ir_api_key_id :: "string option"
  ir_status :: "int option"
  ir_body :: "string option"
  ir_headers :: "(string \<times> string) list option"
  ir_created_at :: instant
  ir_locked_until :: instant
  ir_expires_at :: instant

type_synonym idem_table = "idem_record list"

definition row_key :: "idem_record \<Rightarrow> string \<times> string" where
  "row_key r = (ir_scope r, ir_key r)"

definition req_key :: "idempotent_request \<Rightarrow> string \<times> string" where
  "req_key q = (iq_scope q, iq_key q)"

definition insert_claim :: "idem_record \<Rightarrow> idem_table \<Rightarrow> bool \<times> idem_table" where
  "insert_claim claim tbl =
     (if list_ex (\<lambda>r. row_key r = row_key claim) tbl then (False, tbl) else (True, tbl @ [claim]))"

definition find_claim :: "string \<times> string \<Rightarrow> idem_table \<Rightarrow> idem_record option" where
  "find_claim k tbl = find (\<lambda>r. row_key r = k) tbl"

text \<open>The row is still as it was seen, and a running claim's lease has still lapsed.\<close>

definition unchanged_claim :: "idem_record \<Rightarrow> instant \<Rightarrow> idem_record \<Rightarrow> bool" where
  "unchanged_claim seen now r \<longleftrightarrow> row_key r = row_key seen \<and> ir_token r = ir_token seen \<and> ir_state r = ir_state seen
     \<and> (ir_state seen = In_Progress \<longrightarrow> ir_locked_until r \<le> now)"

definition take_over :: "idem_record \<Rightarrow> instant \<Rightarrow> idem_record \<Rightarrow> idem_table \<Rightarrow> bool \<times> idem_table" where
  "take_over seen now claim tbl =
     (0 < rowcount (unchanged_claim seen now) tbl,
      update_where (unchanged_claim seen now) (\<lambda>r. claim\<lparr> ir_scope := ir_scope r, ir_key := ir_key r \<rparr>) tbl)"

definition holds_claim :: "string \<times> string \<Rightarrow> string \<Rightarrow> idem_record \<Rightarrow> bool" where
  "holds_claim k token r \<longleftrightarrow> row_key r = k \<and> ir_token r = token \<and> ir_state r = In_Progress"

definition extend_lease :: "string \<times> string \<Rightarrow> string \<Rightarrow> instant \<Rightarrow> idem_table \<Rightarrow> bool \<times> idem_table" where
  "extend_lease k token locked_until tbl =
     (0 < rowcount (holds_claim k token) tbl,
      update_where (holds_claim k token) (\<lambda>r. r\<lparr> ir_locked_until := locked_until \<rparr>) tbl)"

record stored_response =
  sr_status :: int
  sr_body :: string
  sr_headers :: "(string \<times> string) list"

definition complete_claim ::
  "string \<times> string \<Rightarrow> string \<Rightarrow> stored_response \<Rightarrow> instant \<Rightarrow> idem_table \<Rightarrow> bool \<times> idem_table" where
  "complete_claim k token resp expires_at tbl =
     (0 < rowcount (holds_claim k token) tbl,
      update_where (holds_claim k token) (\<lambda>r. r\<lparr> ir_state := Completed, ir_status := Some (sr_status resp),
        ir_body := Some (sr_body resp), ir_headers := Some (sr_headers resp), ir_expires_at := expires_at \<rparr>) tbl)"

definition release_claim :: "string \<times> string \<Rightarrow> string \<Rightarrow> idem_table \<Rightarrow> idem_table" where
  "release_claim k token tbl = filter (\<lambda>r. \<not> holds_claim k token r) tbl"

text \<open>
  \<open>delete_expired\<close>: the oldest rows first. A row another sweep holds is skipped, which is a smaller
  \<open>candidates\<close>; the rows a statement finds are here those of the whole table.
\<close>

definition claim_expired :: "instant \<Rightarrow> idem_record \<Rightarrow> bool" where
  "claim_expired now r \<longleftrightarrow> ir_expires_at r \<le> now \<and> (ir_state r = Completed \<or> ir_locked_until r \<le> now)"

definition delete_expired :: "instant \<Rightarrow> nat \<Rightarrow> idem_table \<Rightarrow> nat \<times> idem_table" where
  "delete_expired now limit tbl =
     (let doomed = map row_key (take limit (sort_key ir_expires_at (filter (claim_expired now) tbl)))
      in (rowcount (\<lambda>r. row_key r \<in> set doomed) tbl, filter (\<lambda>r. row_key r \<notin> set doomed) tbl))"

section \<open>The service\<close>

record secret_box =
  sb_encrypt :: "string \<Rightarrow> string option"
  sb_decrypt :: "string \<Rightarrow> string option"

record idem_config =
  ic_lease :: instant
  ic_retention :: instant

datatype admission =
    Claimed string
  | Replay stored_response
  | Key_Reused
  | Still_In_Flight
  | Unknown_Caller
  | Blocked_Caller

definition changes_before_conflict :: nat where
  "changes_before_conflict = 3"

definition max_stored_body_bytes :: nat where
  "max_stored_body_bytes = 8 * 1024 * 1024"

definition is_enabled :: "idem_config \<Rightarrow> bool \<Rightarrow> bool" where
  "is_enabled cfg box_configured \<longleftrightarrow> 0 < ic_retention cfg \<and> box_configured"

text \<open>\<open>_claim_values\<close>, with the key it is inserted under.\<close>

definition claim_values :: "idem_config \<Rightarrow> idempotent_request \<Rightarrow> string \<Rightarrow> instant \<Rightarrow> idem_record" where
  "claim_values cfg q token now = \<lparr> ir_scope = iq_scope q, ir_key = iq_key q, ir_hash = iq_hash q, ir_token = token,
     ir_state = In_Progress, ir_user_id = iq_user_id q, ir_api_key_id = iq_api_key_id q, ir_status = None,
     ir_body = None, ir_headers = None, ir_created_at = now, ir_locked_until = now + ic_lease cfg,
     ir_expires_at = now + max (ic_lease cfg) (ic_retention cfg) \<rparr>"

text \<open>\<open>_replay\<close>.\<close>

definition replay_of :: "secret_box \<Rightarrow> idem_record \<Rightarrow> stored_response option" where
  "replay_of box r = (case ir_body r of
       None \<Rightarrow> None
     | Some ciphertext \<Rightarrow> (case sb_decrypt box ciphertext of
         None \<Rightarrow> None
       | Some body \<Rightarrow> Some \<lparr> sr_status = (case ir_status r of None \<Rightarrow> 200 | Some s \<Rightarrow> if s = 0 then 200 else s),
           sr_body = body, sr_headers = (case ir_headers r of None \<Rightarrow> [] | Some hs \<Rightarrow> hs) \<rparr>))"

text \<open>What \<open>_try_admit\<close> makes of the row it found: an answer, or an attempt to take it over.\<close>

datatype decision = Answer admission | Take_Over

definition stale_at :: "idem_record \<Rightarrow> instant" where
  "stale_at r = (if ir_state r = In_Progress then ir_locked_until r else ir_expires_at r)"

definition admit_decision :: "secret_box \<Rightarrow> idempotent_request \<Rightarrow> instant \<Rightarrow> idem_record \<Rightarrow> decision" where
  "admit_decision box q now r =
     (if stale_at r \<le> now then Take_Over
      else if ir_hash r \<noteq> iq_hash q then Answer Key_Reused
      else if ir_state r = Completed
      then (case replay_of box r of Some resp \<Rightarrow> Answer (Replay resp) | None \<Rightarrow> Take_Over)
      else Answer Still_In_Flight)"

text \<open>
  \<open>_try_admit\<close> run on its own, and \<open>admit_key\<close> over it; \<open>None\<close> is \<open>_RETRY\<close>. \<open>others\<close> is what other requests
  do to the table between two statements, and \<open>tokens\<close> what \<open>uuid4\<close> draws at each try.
\<close>

definition try_admit ::
  "idem_config \<Rightarrow> secret_box \<Rightarrow> idempotent_request \<Rightarrow> (idem_table \<Rightarrow> idem_table) \<Rightarrow> string \<Rightarrow> instant \<Rightarrow> idem_table
     \<Rightarrow> admission option \<times> idem_table" where
  "try_admit cfg box q others token now tbl =
     (let claim = claim_values cfg q token now in
      case insert_claim claim tbl of
        (True, tbl1) \<Rightarrow> (Some (Claimed token), tbl1)
      | (False, tbl1) \<Rightarrow>
          (let tbl2 = others tbl1 in
           case find_claim (req_key q) tbl2 of
             None \<Rightarrow> (None, tbl2)
           | Some r \<Rightarrow> (case admit_decision box q now r of
               Answer a \<Rightarrow> (Some a, tbl2)
             | Take_Over \<Rightarrow> (case take_over r now claim (others tbl2) of
                 (True, tbl3) \<Rightarrow> (Some (Claimed token), tbl3)
               | (False, tbl3) \<Rightarrow> (None, tbl3)))))"

fun admit_tries ::
  "idem_config \<Rightarrow> secret_box \<Rightarrow> idempotent_request \<Rightarrow> (idem_table \<Rightarrow> idem_table) \<Rightarrow> (nat \<Rightarrow> string \<times> instant) \<Rightarrow> nat
     \<Rightarrow> idem_table \<Rightarrow> admission \<times> idem_table" where
  "admit_tries cfg box q others draws 0 tbl = (Still_In_Flight, tbl)"
| "admit_tries cfg box q others draws (Suc n) tbl =
     (case try_admit cfg box q others (fst (draws n)) (snd (draws n)) tbl of
        (Some a, tbl1) \<Rightarrow> (a, tbl1)
      | (None, tbl1) \<Rightarrow> admit_tries cfg box q others draws n (others tbl1))"

text \<open>\<open>caller\<close> is the user row, when there is one: whether it is blocked.\<close>

definition admit_key ::
  "idem_config \<Rightarrow> secret_box \<Rightarrow> idempotent_request \<Rightarrow> bool option \<Rightarrow> (idem_table \<Rightarrow> idem_table)
     \<Rightarrow> (nat \<Rightarrow> string \<times> instant) \<Rightarrow> idem_table \<Rightarrow> admission \<times> idem_table" where
  "admit_key cfg box q caller others draws tbl = (case caller of
       None \<Rightarrow> (Unknown_Caller, tbl)
     | Some True \<Rightarrow> (Blocked_Caller, tbl)
     | Some False \<Rightarrow> admit_tries cfg box q others draws changes_before_conflict tbl)"

text \<open>
  \<open>complete\<close>: \<open>write_ok\<close> is whether the database takes the write. A response that cannot be stored gives
  the key back; a failed write leaves the claim.
\<close>

definition complete_response ::
  "idem_config \<Rightarrow> secret_box \<Rightarrow> idempotent_request \<Rightarrow> string \<Rightarrow> stored_response \<Rightarrow> instant \<Rightarrow> bool \<Rightarrow> idem_table
     \<Rightarrow> bool \<times> idem_table" where
  "complete_response cfg box q token resp now write_ok tbl =
     (if utf8_length (sr_body resp) > max_stored_body_bytes
      then (False, if write_ok then release_claim (req_key q) token tbl else tbl)
      else case sb_encrypt box (sr_body resp) of
        None \<Rightarrow> (False, if write_ok then release_claim (req_key q) token tbl else tbl)
      | Some ciphertext \<Rightarrow>
          if write_ok
          then complete_claim (req_key q) token (resp\<lparr> sr_body := ciphertext \<rparr>) (now + ic_retention cfg) tbl
          else (False, tbl))"

definition renew_claim :: "idem_config \<Rightarrow> idempotent_request \<Rightarrow> string \<Rightarrow> instant \<Rightarrow> idem_table \<Rightarrow> bool \<times> idem_table" where
  "renew_claim cfg q token now tbl = extend_lease (req_key q) token (now + ic_lease cfg) tbl"

text \<open>\<open>sweep\<close> of a table no other writer changes: batches until one is not full.\<close>

lemma delete_expired_shrinks:
  assumes "delete_expired now limit tbl = (deleted, tbl')"
  shows "length tbl' + deleted = length tbl"
proof -
  let ?p = "\<lambda>r. row_key r \<in> set (map row_key (take limit (sort_key ir_expires_at (filter (claim_expired now) tbl))))"
  have "deleted = length (filter ?p tbl)" "tbl' = filter (\<lambda>r. \<not> ?p r) tbl"
    using assms by (auto simp: delete_expired_def Let_def rowcount_def)
  then show ?thesis using sum_length_filter_compl[of ?p tbl] by simp
qed

function sweep_claims :: "instant \<Rightarrow> nat \<Rightarrow> idem_table \<Rightarrow> nat \<times> idem_table" where
  "sweep_claims now batch_size tbl =
     (case delete_expired now batch_size tbl of (deleted, tbl') \<Rightarrow>
        if batch_size = 0 \<or> deleted < batch_size then (deleted, tbl')
        else case sweep_claims now batch_size tbl' of (further, tbl'') \<Rightarrow> (deleted + further, tbl''))"
  by pat_completeness auto
termination
  by (relation "measure (\<lambda>(now, batch_size, tbl). length tbl)") (auto dest!: sym[THEN delete_expired_shrinks])

declare sweep_claims.simps [simp del]

definition sweep :: "instant \<Rightarrow> nat \<Rightarrow> idem_table \<Rightarrow> (string + nat) \<times> idem_table" where
  "sweep now batch_size tbl =
     (if batch_size < 1 then (Inl ''A sweep needs a positive batch size'', tbl)
      else case sweep_claims now batch_size tbl of (deleted, tbl') \<Rightarrow> (Inr deleted, tbl'))"

section \<open>Renewal\<close>

text \<open>
  The loop of \<open>keep_claim_alive\<close>: after a renewal, and after a failure to renew, when it tries again.
  Times are rational seconds of a clock that only moves forward.
\<close>

record renewal =
  rn_lease_ends :: rat
  rn_delay :: rat

definition cadence :: "rat \<Rightarrow> rat" where
  "cadence lease_sec = lease_sec / 3"

definition shortest_retry :: "rat \<Rightarrow> rat" where
  "shortest_retry lease_sec = lease_sec / 60"

definition renewed :: "rat \<Rightarrow> rat \<Rightarrow> renewal" where
  "renewed lease_sec now = \<lparr> rn_lease_ends = now + lease_sec, rn_delay = cadence lease_sec \<rparr>"

definition renewal_failed :: "rat \<Rightarrow> rat \<Rightarrow> renewal \<Rightarrow> renewal" where
  "renewal_failed lease_sec now r = r\<lparr> rn_delay :=
     min (cadence lease_sec) (max ((rn_lease_ends r - now) / 4) (shortest_retry lease_sec)) \<rparr>"

section \<open>The guard of one request\<close>

record guard =
  gu_request :: "idempotent_request option"
  gu_claimed :: "string option"
  gu_heartbeat :: bool

definition fresh_guard :: guard where
  "fresh_guard = \<lparr> gu_request = None, gu_claimed = None, gu_heartbeat = False \<rparr>"

text \<open>What admission leaves in the guard.\<close>

definition guard_admitted :: "idempotent_request \<Rightarrow> admission \<Rightarrow> guard \<Rightarrow> guard" where
  "guard_admitted q a g = (case a of
       Claimed token \<Rightarrow> g\<lparr> gu_request := Some q, gu_claimed := Some token, gu_heartbeat := True \<rparr>
     | _ \<Rightarrow> g\<lparr> gu_request := Some q \<rparr>)"

definition guard_complete ::
  "idem_config \<Rightarrow> secret_box \<Rightarrow> stored_response \<Rightarrow> instant \<Rightarrow> bool \<Rightarrow> guard \<Rightarrow> idem_table \<Rightarrow> guard \<times> idem_table" where
  "guard_complete cfg box resp now write_ok g tbl = (case (gu_request g, gu_claimed g) of
       (Some q, Some token) \<Rightarrow>
         (g\<lparr> gu_claimed := None, gu_heartbeat := False \<rparr>, snd (complete_response cfg box q token resp now write_ok tbl))
     | _ \<Rightarrow> (g\<lparr> gu_heartbeat := False \<rparr>, tbl))"

definition guard_release :: "bool \<Rightarrow> guard \<Rightarrow> idem_table \<Rightarrow> guard \<times> idem_table" where
  "guard_release write_ok g tbl = (case (gu_request g, gu_claimed g) of
       (Some q, Some token) \<Rightarrow>
         (g\<lparr> gu_claimed := None, gu_heartbeat := False \<rparr>,
          if write_ok then release_claim (req_key q) token tbl else tbl)
     | _ \<Rightarrow> (g\<lparr> gu_heartbeat := False \<rparr>, tbl))"

end
