(* ===== verification/Idempotency_Protocol.thy ===== *)
theory Idempotency_Protocol
  imports Idempotency
begin

text \<open>
  Requests with idempotency keys side by side. Every statement of the table is one step, so any
  interleaving of the requests of any number of gateways is a run of \<open>idem_step\<close>; a request may also
  crash at any point, a write may fail, a sweep may delete, and time passes. A label says whose step it is.

  A token is drawn once (\<open>uuid4\<close>), and a time is read before the statement it is used in: never later
  than the clock.
\<close>

section \<open>Phases and steps\<close>

datatype phase =
    Idle nat
  | Timed nat string instant
  | Contended nat string instant
  | Taking nat string instant idem_record
  | Running string instant
  | Answered admission
  | Ended

record 'p world =
  iw_clock :: instant
  iw_table :: idem_table
  iw_used :: "string list"
  iw_phase :: "'p \<Rightarrow> phase"
  iw_given :: "(idempotent_request \<times> stored_response) list"

definition put_phase :: "'p \<Rightarrow> phase \<Rightarrow> 'p world \<Rightarrow> 'p world" where
  "put_phase p ph w = w\<lparr> iw_phase := (iw_phase w)(p := ph) \<rparr>"

definition after_find ::
  "secret_box \<Rightarrow> idempotent_request \<Rightarrow> nat \<Rightarrow> string \<Rightarrow> instant \<Rightarrow> idem_record option \<Rightarrow> phase" where
  "after_find box q n t now found = (case found of
       None \<Rightarrow> Idle (Suc n)
     | Some r \<Rightarrow> (case admit_decision box q now r of Answer a \<Rightarrow> Answered a | Take_Over \<Rightarrow> Taking n t now r))"

inductive idem_step ::
  "idem_config \<Rightarrow> secret_box \<Rightarrow> ('p \<Rightarrow> idempotent_request) \<Rightarrow> 'p option \<Rightarrow> 'p world \<Rightarrow> 'p world \<Rightarrow> bool"
  for cfg :: idem_config and box :: secret_box and req :: "'p \<Rightarrow> idempotent_request" where
  Tick: "iw_clock w \<le> c \<Longrightarrow> idem_step cfg box req None w (w\<lparr> iw_clock := c \<rparr>)"
| Draw: "iw_phase w p = Idle n \<Longrightarrow> n < changes_before_conflict \<Longrightarrow> t \<notin> set (iw_used w) \<Longrightarrow>
    idem_step cfg box req (Some p) w (put_phase p (Timed n t (iw_clock w)) (w\<lparr> iw_used := t # iw_used w \<rparr>))"
| Give_Up: "iw_phase w p = Idle n \<Longrightarrow> changes_before_conflict \<le> n \<Longrightarrow>
    idem_step cfg box req (Some p) w (put_phase p (Answered Still_In_Flight) w)"
| Insert: "iw_phase w p = Timed n t now \<Longrightarrow> insert_claim (claim_values cfg (req p) t now) (iw_table w) = (ok, tbl) \<Longrightarrow>
    idem_step cfg box req (Some p) w
      (put_phase p (if ok then Running t (now + ic_lease cfg) else Contended n t now) (w\<lparr> iw_table := tbl \<rparr>))"
| Find: "iw_phase w p = Contended n t now \<Longrightarrow>
    idem_step cfg box req (Some p) w
      (put_phase p (after_find box (req p) n t now (find_claim (req_key (req p)) (iw_table w))) w)"
| Take: "iw_phase w p = Taking n t now r \<Longrightarrow> take_over r now (claim_values cfg (req p) t now) (iw_table w) = (ok, tbl) \<Longrightarrow>
    idem_step cfg box req (Some p) w
      (put_phase p (if ok then Running t (now + ic_lease cfg) else Idle (Suc n)) (w\<lparr> iw_table := tbl \<rparr>))"
| Renew: "iw_phase w p = Running t l \<Longrightarrow> now \<le> iw_clock w \<Longrightarrow> renew_claim cfg (req p) t now (iw_table w) = (ok, tbl) \<Longrightarrow>
    idem_step cfg box req (Some p) w
      (put_phase p (Running t (if ok then now + ic_lease cfg else l)) (w\<lparr> iw_table := tbl \<rparr>))"
| Complete: "iw_phase w p = Running t l \<Longrightarrow> now \<le> iw_clock w \<Longrightarrow>
    complete_response cfg box (req p) t resp now write_ok (iw_table w) = (stored, tbl) \<Longrightarrow>
    idem_step cfg box req (Some p) w
      (put_phase p Ended (w\<lparr> iw_table := tbl, iw_given := (if stored then (req p, resp) # iw_given w else iw_given w) \<rparr>))"
| Release: "iw_phase w p = Running t l \<Longrightarrow>
    idem_step cfg box req (Some p) w (put_phase p Ended (w\<lparr> iw_table := release_claim (req_key (req p)) t (iw_table w) \<rparr>))"
| Crash: "idem_step cfg box req (Some p) w (put_phase p Ended w)"
| Sweep: "now \<le> iw_clock w \<Longrightarrow> delete_expired now limit (iw_table w) = (n, tbl) \<Longrightarrow>
    idem_step cfg box req None w (w\<lparr> iw_table := tbl \<rparr>)"

inductive_cases idem_stepE: "idem_step cfg box req who w w'"

inductive idem_run :: "idem_config \<Rightarrow> secret_box \<Rightarrow> ('p \<Rightarrow> idempotent_request) \<Rightarrow> 'p world \<Rightarrow> 'p world \<Rightarrow> bool"
  for cfg :: idem_config and box :: secret_box and req :: "'p \<Rightarrow> idempotent_request" where
  Start: "idem_run cfg box req w w"
| Step: "idem_run cfg box req w w' \<Longrightarrow> idem_step cfg box req who w' w'' \<Longrightarrow> idem_run cfg box req w w''"

definition start_world :: "instant \<Rightarrow> 'p world" where
  "start_world c = \<lparr> iw_clock = c, iw_table = [], iw_used = [], iw_phase = (\<lambda>_. Idle 0), iw_given = [] \<rparr>"

section \<open>What the statements leave\<close>

lemma row_key_claim [simp]: "row_key (claim_values cfg q t now) = req_key q"
  by (simp add: row_key_def req_key_def claim_values_def)

lemma claim_fields [simp]:
  "ir_token (claim_values cfg q t now) = t" "ir_hash (claim_values cfg q t now) = iq_hash q"
  "ir_state (claim_values cfg q t now) = In_Progress"
  "ir_locked_until (claim_values cfg q t now) = now + ic_lease cfg"
  by (simp_all add: claim_values_def)

lemma row_key_update [simp]:
  "row_key (r\<lparr> ir_locked_until := l \<rparr>) = row_key r"
  "row_key (r\<lparr> ir_state := s, ir_status := a, ir_body := b, ir_headers := h, ir_expires_at := e \<rparr>) = row_key r"
  by (simp_all add: row_key_def)

lemma claim_rekeyed:
  "row_key r = req_key q \<Longrightarrow> (claim_values cfg q t now)\<lparr> ir_scope := ir_scope r, ir_key := ir_key r \<rparr> = claim_values cfg q t now"
  by (auto simp: claim_values_def row_key_def req_key_def)

lemma insert_rows:
  assumes "insert_claim claim tbl = (ok, tbl')"
  shows "tbl' = (if ok then tbl @ [claim] else tbl)" and "ok \<Longrightarrow> row_key claim \<notin> row_key ` set tbl"
  using assms by (auto simp: insert_claim_def list_ex_iff split: if_splits)

lemma take_over_rows:
  assumes "take_over seen now (claim_values cfg q t now) tbl = (ok, tbl')" "row_key seen = req_key q"
  shows "tbl' = update_where (unchanged_claim seen now) (\<lambda>_. claim_values cfg q t now) tbl"
    and "ok \<longleftrightarrow> (\<exists>r \<in> set tbl. unchanged_claim seen now r)"
proof -
  have "tbl' = update_where (unchanged_claim seen now)
      (\<lambda>r. (claim_values cfg q t now)\<lparr> ir_scope := ir_scope r, ir_key := ir_key r \<rparr>) tbl"
    using assms(1) by (simp add: take_over_def)
  also have "\<dots> = update_where (unchanged_claim seen now) (\<lambda>_. claim_values cfg q t now) tbl"
    by (rule update_where_cong) (use assms(2) in \<open>auto simp: unchanged_claim_def claim_rekeyed\<close>)
  finally show "tbl' = update_where (unchanged_claim seen now) (\<lambda>_. claim_values cfg q t now) tbl" .
  show "ok \<longleftrightarrow> (\<exists>r \<in> set tbl. unchanged_claim seen now r)"
    using assms(1) by (auto simp: take_over_def rowcount_pos_iff)
qed

definition store_of :: "string \<Rightarrow> stored_response \<Rightarrow> instant \<Rightarrow> idem_record \<Rightarrow> idem_record" where
  "store_of ciphertext resp expires_at r = r\<lparr> ir_state := Completed, ir_status := Some (sr_status resp),
     ir_body := Some ciphertext, ir_headers := Some (sr_headers resp), ir_expires_at := expires_at \<rparr>"

text \<open>A completion releases the claim, leaves the table, or stores the encrypted response.\<close>

lemma complete_rows:
  assumes "complete_response cfg box q t resp now write_ok tbl = (stored, tbl')"
  obtains (Released) "\<not> stored" "tbl' = release_claim (req_key q) t tbl"
  | (Unwritten) "\<not> stored" "tbl' = tbl"
  | (Written) c where "sb_encrypt box (sr_body resp) = Some c"
      "tbl' = update_where (holds_claim (req_key q) t) (store_of c resp (now + ic_retention cfg)) tbl"
      "stored \<longleftrightarrow> (\<exists>r \<in> set tbl. holds_claim (req_key q) t r)"
proof (cases "utf8_length (sr_body resp) > max_stored_body_bytes \<or> sb_encrypt box (sr_body resp) = None")
  case True
  then show ?thesis
    using assms Released Unwritten by (cases write_ok) (auto simp: complete_response_def split: if_split_asm)
next
  case False
  then obtain c where c: "sb_encrypt box (sr_body resp) = Some c" by auto
  show ?thesis
  proof (cases write_ok)
    case True
    have "tbl' = update_where (holds_claim (req_key q) t) (store_of c resp (now + ic_retention cfg)) tbl"
      "stored \<longleftrightarrow> (\<exists>r \<in> set tbl. holds_claim (req_key q) t r)"
      using assms False c True
      by (auto simp: complete_response_def complete_claim_def store_of_def[abs_def] rowcount_pos_iff)
    then show ?thesis using Written c by blast
  qed (use assms False c Unwritten in \<open>simp add: complete_response_def\<close>)
qed

lemma swept_rows:
  assumes "delete_expired now limit tbl = (n, tbl')" "distinct (map row_key tbl)"
  shows "set tbl' \<subseteq> set tbl" and "\<And>r. r \<in> set tbl \<Longrightarrow> \<not> claim_expired now r \<Longrightarrow> r \<in> set tbl'"
    and "distinct (map row_key tbl')"
proof -
  let ?gone = "set (map row_key (take limit (sort_key ir_expires_at (filter (claim_expired now) tbl))))"
  have tbl': "tbl' = filter (\<lambda>r. row_key r \<notin> ?gone) tbl" using assms(1) by (auto simp: delete_expired_def Let_def)
  then show "set tbl' \<subseteq> set tbl" by auto
  have "inj_on row_key (set tbl)" using assms(2) by (simp add: distinct_map)
  moreover have "set (take limit (sort_key ir_expires_at (filter (claim_expired now) tbl))) \<subseteq> {r \<in> set tbl. claim_expired now r}"
    using set_take_subset by fastforce
  ultimately show "r \<in> set tbl'" if "r \<in> set tbl" "\<not> claim_expired now r" for r
    using that tbl' by (auto dest!: inj_onD)
  show "distinct (map row_key tbl')" using assms(2) tbl' by (simp add: distinct_map_filter)
qed

end
