(* ===== verification/Idempotency_Laws.thy ===== *)
theory Idempotency_Laws
  imports Idempotency_Protocol
begin

text \<open>
  What every run of the idempotency protocol keeps: one row for a key, one process for a token, a live lease
  backed by its row, and stored responses that only a completion of the same request put there. From these
  follow that one request at a time runs under a key, that a replay is the response of an equal request, and
  that a key can always be claimed again once what holds it has lapsed.
\<close>

section \<open>Tokens\<close>

fun pending_token :: "phase \<Rightarrow> string option" where
  "pending_token (Timed n t now) = Some t"
| "pending_token (Contended n t now) = Some t"
| "pending_token (Taking n t now r) = Some t"
| "pending_token _ = None"

fun phase_token :: "phase \<Rightarrow> string option" where
  "phase_token (Running t l) = Some t"
| "phase_token ph = pending_token ph"

fun drawn_at :: "phase \<Rightarrow> instant option" where
  "drawn_at (Timed n t now) = Some now"
| "drawn_at (Contended n t now) = Some now"
| "drawn_at (Taking n t now r) = Some now"
| "drawn_at _ = None"

lemma pending_is_token: "pending_token ph = Some t \<Longrightarrow> phase_token ph = Some t"
  by (cases ph) auto

lemma after_find_token [simp]:
  "phase_token (after_find box q n t now found) =
     (case after_find box q n t now found of Taking _ _ _ _ \<Rightarrow> Some t | _ \<Rightarrow> None)"
  by (auto simp: after_find_def split: option.split decision.split)

lemma after_find_cases:
  obtains (Again) "after_find box q n t now found = Idle (Suc n)"
  | (Answer) r a where "found = Some r" "admit_decision box q now r = Answer a" "after_find box q n t now found = Answered a"
  | (Over) r where "found = Some r" "after_find box q n t now found = Taking n t now r"
  by (cases found; cases "admit_decision box q now (the found)") (auto simp: after_find_def)

lemma iw_put_phase [simp]:
  "iw_phase (put_phase p ph w) q = (if q = p then ph else iw_phase w q)"
  "iw_table (put_phase p ph w) = iw_table w" "iw_clock (put_phase p ph w) = iw_clock w"
  "iw_used (put_phase p ph w) = iw_used w" "iw_given (put_phase p ph w) = iw_given w"
  by (simp_all add: put_phase_def)

definition tokens_ok :: "'p world \<Rightarrow> bool" where
  "tokens_ok w \<longleftrightarrow> (\<forall>r \<in> set (iw_table w). ir_token r \<in> set (iw_used w))
     \<and> (\<forall>p t. phase_token (iw_phase w p) = Some t \<longrightarrow> t \<in> set (iw_used w))
     \<and> (\<forall>p q t. phase_token (iw_phase w p) = Some t \<longrightarrow> phase_token (iw_phase w q) = Some t \<longrightarrow> p = q)
     \<and> (\<forall>p t r. pending_token (iw_phase w p) = Some t \<longrightarrow> r \<in> set (iw_table w) \<longrightarrow> ir_token r \<noteq> t)"

definition times_ok :: "'p world \<Rightarrow> bool" where
  "times_ok w \<longleftrightarrow> (\<forall>p now. drawn_at (iw_phase w p) = Some now \<longrightarrow> now \<le> iw_clock w)"

definition seen_ok :: "('p \<Rightarrow> idempotent_request) \<Rightarrow> 'p world \<Rightarrow> bool" where
  "seen_ok req w \<longleftrightarrow> (\<forall>p n t now r. iw_phase w p = Taking n t now r \<longrightarrow> row_key r = req_key (req p))"

section \<open>Where a row comes from\<close>

text \<open>
  A row after a step is a row of before with the same key, token and digest, which a completion may have
  just filled in, or the claim of a process that starts running with it.
\<close>

definition row_kept :: "idem_record \<Rightarrow> idem_record \<Rightarrow> bool" where
  "row_kept r r' \<longleftrightarrow> row_key r' = row_key r \<and> ir_token r' = ir_token r \<and> ir_hash r' = ir_hash r
     \<and> ir_state r' = ir_state r \<and> ir_status r' = ir_status r \<and> ir_body r' = ir_body r \<and> ir_headers r' = ir_headers r"

definition row_filled ::
  "secret_box \<Rightarrow> idempotent_request \<Rightarrow> string \<Rightarrow> stored_response \<Rightarrow> idem_record \<Rightarrow> idem_record \<Rightarrow> bool" where
  "row_filled box q t resp r r' \<longleftrightarrow> holds_claim (req_key q) t r \<and>
     (\<exists>c e. sb_encrypt box (sr_body resp) = Some c \<and> r' = store_of c resp e r)"

lemma row_kept_refl [simp]: "row_kept r r"
  by (simp add: row_kept_def)

lemma row_kept_lease [simp]: "row_kept r (r\<lparr> ir_locked_until := l \<rparr>)"
  by (simp add: row_kept_def)

lemma step_row_origin:
  assumes "idem_step cfg box req who w w'" "seen_ok req w" "r' \<in> set (iw_table w')"
  obtains (Kept) r where "r \<in> set (iw_table w)" "row_kept r r'"
  | (Filled) p t l resp r where "r \<in> set (iw_table w)" "iw_phase w p = Running t l" "row_filled box (req p) t resp r r'"
      "iw_given w' = (req p, resp) # iw_given w"
  | (Fresh) p t now where "pending_token (iw_phase w p) = Some t" "drawn_at (iw_phase w p) = Some now"
      "r' = claim_values cfg (req p) t now" "iw_phase w' p = Running t (now + ic_lease cfg)"
  using assms(1)
proof (cases rule: idem_step.cases)
  case (Insert p n t now ok tbl)
  then show ?thesis
    using assms(3) insert_rows[OF Insert(4)] Kept Fresh[of p t now] by (auto split: if_split_asm)
next
  case (Take p n t now seen ok tbl)
  then have "row_key seen = req_key (req p)" using assms(2) by (auto simp: seen_ok_def)
  then show ?thesis
    using assms(3) Take take_over_rows[OF Take(4)] Kept Fresh[of p t now]
    by (auto simp: in_update_where_iff split: if_split_asm)
next
  case (Renew p t l now ok tbl)
  then show ?thesis
    using assms(3) Kept by (auto simp: renew_claim_def extend_lease_def in_update_where_iff split: if_split_asm)
next
  case (Complete p t l now resp write_ok stored tbl)
  from Complete(5) show ?thesis
  proof (cases rule: complete_rows)
    case (Written c)
    then show ?thesis
      using assms(3) Complete Kept Filled[of _ p t l resp]
      by (auto simp: in_update_where_iff row_filled_def split: if_split_asm)
  qed (use assms(3) Complete Kept in \<open>auto simp: release_claim_def\<close>)
next
  case (Sweep now limit n tbl)
  then show ?thesis
    using assms(3) Kept by (auto simp: delete_expired_def Let_def)
qed (use assms(3) Kept in \<open>auto simp: release_claim_def\<close>)

text \<open>A token after a step is one of before, of the same process, or one never drawn before.\<close>

lemma step_phase_token:
  assumes "idem_step cfg box req who w w'" "phase_token (iw_phase w' p) = Some t"
  shows "phase_token (iw_phase w p) = Some t \<or> (t \<notin> set (iw_used w) \<and> set (iw_used w') = insert t (set (iw_used w)) \<and> who = Some p)"
  using assms(1)
proof (cases rule: idem_step.cases)
  case (Find q n s now)
  then show ?thesis using assms(2) by (cases "p = q") (auto split: phase.split_asm)
qed (use assms(2) in \<open>auto split: if_split_asm\<close>)

lemma step_used: "idem_step cfg box req who w w' \<Longrightarrow> set (iw_used w) \<subseteq> set (iw_used w')"
  by (erule idem_stepE) auto

text \<open>Only its owner's step moves a process on.\<close>

lemma step_others: "idem_step cfg box req who w w' \<Longrightarrow> who \<noteq> Some p \<Longrightarrow> iw_phase w' p = iw_phase w p"
  by (erule idem_stepE) auto

lemma step_pending:
  assumes "idem_step cfg box req who w w'" "pending_token (iw_phase w' p) = Some t"
  shows "pending_token (iw_phase w p) = Some t \<or> t \<notin> set (iw_used w)"
  using assms(1)
proof (cases rule: idem_step.cases)
  case (Find q n s now)
  then show ?thesis using assms(2)
    by (cases rule: after_find_cases[of box "req q" n s now "find_claim (req_key (req q)) (iw_table w)"])
      (auto split: if_split_asm)
qed (use assms(2) in \<open>auto split: if_split_asm\<close>)

section \<open>Invariants\<close>

definition keys_distinct :: "'p world \<Rightarrow> bool" where
  "keys_distinct w \<longleftrightarrow> distinct (map row_key (iw_table w))"

lemma step_keys_distinct:
  assumes "idem_step cfg box req who w w'" "seen_ok req w" "keys_distinct w"
  shows "keys_distinct w'"
  using assms(1)
proof (cases rule: idem_step.cases)
  case (Insert p n t now ok tbl)
  then show ?thesis using assms(3) insert_rows[OF Insert(4)] by (auto simp: keys_distinct_def)
next
  case (Take p n t now seen ok tbl)
  then have k: "row_key seen = req_key (req p)" using assms(2) by (auto simp: seen_ok_def)
  have "map row_key tbl = map row_key (iw_table w)"
    unfolding take_over_rows(1)[OF Take(4) k]
    by (rule map_update_where) (use k in \<open>simp add: unchanged_claim_def\<close>)
  then show ?thesis using assms(3) Take by (simp add: keys_distinct_def)
next
  case (Renew p t l now ok tbl)
  then have "map row_key tbl = map row_key (iw_table w)"
    by (auto simp: renew_claim_def extend_lease_def intro!: map_update_where)
  then show ?thesis using assms(3) Renew by (simp add: keys_distinct_def)
next
  case (Complete p t l now resp write_ok stored tbl)
  from Complete(5) show ?thesis
  proof (cases rule: complete_rows)
    case (Written c)
    have "map row_key tbl = map row_key (iw_table w)"
      unfolding Written by (rule map_update_where) (simp add: store_of_def)
    then show ?thesis using assms(3) Complete by (simp add: keys_distinct_def)
  qed (use assms(3) Complete in \<open>auto simp: keys_distinct_def release_claim_def distinct_map_filter\<close>)
next
  case (Sweep now limit n tbl)
  then show ?thesis using assms(3) swept_rows(3)[OF Sweep(4)] by (simp add: keys_distinct_def)
qed (use assms(3) in \<open>auto simp: keys_distinct_def release_claim_def distinct_map_filter\<close>)

lemma step_seen_ok:
  assumes "idem_step cfg box req who w w'" "seen_ok req w"
  shows "seen_ok req w'"
  using assms(1)
proof (cases rule: idem_step.cases)
  case (Find p n t now)
  have "row_key r = req_key (req p)" if "find_claim (req_key (req p)) (iw_table w) = Some r" for r
    using that by (auto simp: find_claim_def find_Some_iff)
  then show ?thesis
    using assms(2) Find
    by (cases rule: after_find_cases[of box "req p" n t now "find_claim (req_key (req p)) (iw_table w)"])
      (auto simp: seen_ok_def)
qed (use assms(2) in \<open>auto simp: seen_ok_def\<close>)

lemma step_drawn:
  assumes "idem_step cfg box req who w w'" "drawn_at (iw_phase w' p) = Some t0"
  shows "drawn_at (iw_phase w p) = Some t0 \<or> t0 = iw_clock w"
  using assms(1)
proof (cases rule: idem_step.cases)
  case (Find q n s now)
  then show ?thesis using assms(2)
    by (cases rule: after_find_cases[of box "req q" n s now "find_claim (req_key (req q)) (iw_table w)"])
      (auto split: if_split_asm)
qed (use assms(2) in \<open>auto split: if_split_asm\<close>)

lemma step_clock: "idem_step cfg box req who w w' \<Longrightarrow> iw_clock w \<le> iw_clock w'"
  by (erule idem_stepE) auto

lemma step_times_ok: "idem_step cfg box req who w w' \<Longrightarrow> times_ok w \<Longrightarrow> times_ok w'"
  unfolding times_ok_def using step_drawn step_clock by (metis order.trans order.refl)

lemma step_row_token:
  assumes "idem_step cfg box req who w w'" "seen_ok req w" "r' \<in> set (iw_table w')"
  shows "(\<exists>r \<in> set (iw_table w). ir_token r = ir_token r')
    \<or> (\<exists>p. pending_token (iw_phase w p) = Some (ir_token r') \<and> pending_token (iw_phase w' p) = None)"
  using assms
proof (cases rule: step_row_origin)
  case (Filled p t l resp r)
  then show ?thesis by (auto simp: row_filled_def store_of_def)
next
  case (Fresh p t now)
  then show ?thesis by (intro disjI2 exI[of _ p]) simp
qed (auto simp: row_kept_def)

lemma step_tokens_ok:
  assumes step: "idem_step cfg box req who w w'" and seen: "seen_ok req w" and inv: "tokens_ok w"
  shows "tokens_ok w'"
proof -
  note rows = inv[unfolded tokens_ok_def, THEN conjunct1, rule_format]
    and phases = inv[unfolded tokens_ok_def, THEN conjunct2, THEN conjunct1, rule_format]
    and owners = inv[unfolded tokens_ok_def, THEN conjunct2, THEN conjunct2, THEN conjunct1, rule_format]
    and apart = inv[unfolded tokens_ok_def, THEN conjunct2, THEN conjunct2, THEN conjunct2, rule_format]
  note used = step_used[OF step] and token = step_phase_token[OF step] and origin = step_row_token[OF step seen]
  show ?thesis
    unfolding tokens_ok_def
  proof (intro conjI allI impI ballI)
    fix r assume "r \<in> set (iw_table w')"
    from origin[OF this] show "ir_token r \<in> set (iw_used w')"
      using rows phases pending_is_token used by (metis subsetD)
  next
    fix p t assume "phase_token (iw_phase w' p) = Some t"
    from token[OF this] show "t \<in> set (iw_used w')" using phases used by blast
  next
    fix p q t assume h: "phase_token (iw_phase w' p) = Some t" "phase_token (iw_phase w' q) = Some t"
    from token[OF h(1)] token[OF h(2)] show "p = q" using owners phases by auto
  next
    fix p t r assume h: "pending_token (iw_phase w' p) = Some t" "r \<in> set (iw_table w')"
    show "ir_token r \<noteq> t"
    proof
      assume eq: "ir_token r = t"
      have "r0 \<in> set (iw_table w) \<Longrightarrow> ir_token r0 = t \<Longrightarrow> False" for r0
        using step_pending[OF step h(1)] apart rows by blast
      moreover have "pending_token (iw_phase w q) = Some t \<Longrightarrow> q = p" for q
        using step_pending[OF step h(1)] phases owners pending_is_token by blast
      ultimately show False using origin[OF h(2)] eq h(1) by auto
    qed
  qed
qed

section \<open>Live leases\<close>

definition leases_ok :: "('p \<Rightarrow> idempotent_request) \<Rightarrow> 'p world \<Rightarrow> bool" where
  "leases_ok req w \<longleftrightarrow> (\<forall>p t l. iw_phase w p = Running t l \<longrightarrow> iw_clock w < l \<longrightarrow>
     (\<exists>r \<in> set (iw_table w). holds_claim (req_key (req p)) t r \<and> ir_locked_until r = l))"

text \<open>A row whose lease is live changes only by a step of the process that holds its token.\<close>

lemma live_row_survives:
  assumes "idem_step cfg box req who w w'" "seen_ok req w" "times_ok w" "keys_distinct w"
    and row: "r \<in> set (iw_table w)" "ir_state r = In_Progress" "iw_clock w < ir_locked_until r"
    and others: "\<And>q. who = Some q \<Longrightarrow> phase_token (iw_phase w q) \<noteq> Some (ir_token r)"
  shows "r \<in> set (iw_table w')"
  using assms(1)
proof (cases rule: idem_step.cases)
  case (Insert p n t now ok tbl)
  then show ?thesis using row(1) insert_rows(1)[OF Insert(4)] by (auto split: if_split_asm)
next
  case (Take p n t now seen ok tbl)
  then have k: "row_key seen = req_key (req p)" and "now \<le> iw_clock w"
    using assms(2) assms(3)[unfolded times_ok_def, rule_format, of p now] by (auto simp: seen_ok_def)
  then have "\<not> unchanged_claim seen now r" using row by (auto simp: unchanged_claim_def)
  then show ?thesis
    using row(1) Take unfolding take_over_rows(1)[OF Take(4) k] by (auto simp: in_update_where_iff)
next
  case (Renew p t l now ok tbl)
  then have "\<not> holds_claim (req_key (req p)) t r" using others by (auto simp: holds_claim_def)
  then show ?thesis
    using row(1) Renew by (auto simp: renew_claim_def extend_lease_def in_update_where_iff)
next
  case (Complete p t l now resp write_ok stored tbl)
  then have "\<not> holds_claim (req_key (req p)) t r" using others by (auto simp: holds_claim_def)
  with Complete(5) row(1) Complete(2) show ?thesis
    by (cases rule: complete_rows) (auto simp: in_update_where_iff release_claim_def)
next
  case (Release p t l)
  then show ?thesis using row(1) others by (auto simp: release_claim_def holds_claim_def)
next
  case (Sweep now limit n tbl)
  then have "\<not> claim_expired now r" using row by (simp add: claim_expired_def)
  then show ?thesis
    using swept_rows(2)[OF Sweep(4)] assms(4) row(1) Sweep(2) by (simp add: keys_distinct_def)
qed (use row in auto)

lemma step_running:
  assumes "idem_step cfg box req who w w'" "iw_phase w' p = Running t l"
  shows "(\<exists>l0. iw_phase w p = Running t l0) \<or> pending_token (iw_phase w p) = Some t"
  using assms(1)
proof (cases rule: idem_step.cases)
  case (Find q n s now)
  then show ?thesis using assms(2)
    by (cases rule: after_find_cases[of box "req q" n s now "find_claim (req_key (req q)) (iw_table w)"])
      (auto split: if_split_asm)
qed (use assms(2) in \<open>auto split: if_split_asm\<close>)

lemma own_step_lease:
  assumes "idem_step cfg box req who w w'" "seen_ok req w" "leases_ok req w"
    and "iw_phase w' p = Running t l" "iw_clock w' < l" "who = Some p"
  shows "\<exists>r \<in> set (iw_table w'). holds_claim (req_key (req p)) t r \<and> ir_locked_until r = l"
  using assms(1)
proof (cases rule: idem_step.cases)
  case (Insert q n s now ok tbl)
  then show ?thesis
    using assms(4,6) insert_rows(1)[OF Insert(4)] by (auto simp: holds_claim_def split: if_split_asm)
next
  case (Take q n s now seen ok tbl)
  then have k: "row_key seen = req_key (req q)" using assms(2) by (auto simp: seen_ok_def)
  from Take assms(4,6) have o: ok and q: "q = p" "s = t" "l = now + ic_lease cfg" by (auto split: if_split_asm)
  from o take_over_rows(2)[OF Take(4) k] obtain r where "r \<in> set (iw_table w)" "unchanged_claim seen now r" by blast
  then have "claim_values cfg (req q) s now \<in> set tbl"
    unfolding take_over_rows(1)[OF Take(4) k] by (auto simp: in_update_where_iff)
  then show ?thesis using Take(2) q
    by (intro bexI[of _ "claim_values cfg (req q) s now"]) (auto simp: holds_claim_def)
next
  case (Renew q s l0 now ok tbl)
  then have q: "q = p" "s = t" using assms(4,6) by auto
  show ?thesis
  proof (cases ok)
    case True
    then obtain r where r: "r \<in> set (iw_table w)" "holds_claim (req_key (req p)) t r"
      using Renew(5) q by (auto simp: renew_claim_def extend_lease_def rowcount_pos_iff)
    have "l = now + ic_lease cfg" using True Renew assms(4,6) q by simp
    then have "r\<lparr> ir_locked_until := l \<rparr> \<in> set tbl" using Renew(5) r q
      by (auto simp: renew_claim_def extend_lease_def in_update_where_iff)
    then show ?thesis using Renew(2) r(2) by (intro bexI[of _ "r\<lparr> ir_locked_until := l \<rparr>"]) (auto simp: holds_claim_def)
  next
    case False
    then have "\<not> (\<exists>r \<in> set (iw_table w). holds_claim (req_key (req p)) t r)" and "l0 = l"
      using Renew assms(4,6) q by (auto simp: renew_claim_def extend_lease_def rowcount_pos_iff)
    then show ?thesis using assms(3,5,6) Renew q unfolding leases_ok_def by fastforce
  qed
next
  case (Find q n s now)
  then show ?thesis using assms(4,6)
    by (cases rule: after_find_cases[of box "req q" n s now "find_claim (req_key (req q)) (iw_table w)"])
      (auto split: if_split_asm)
qed (use assms(4,6) in \<open>auto split: if_split_asm\<close>)

lemma step_leases_ok:
  assumes step: "idem_step cfg box req who w w'"
    and inv: "seen_ok req w" "times_ok w" "keys_distinct w" "tokens_ok w" "leases_ok req w"
  shows "leases_ok req w'"
  unfolding leases_ok_def
proof (intro allI impI)
  fix p t l assume run: "iw_phase w' p = Running t l" and live: "iw_clock w' < l"
  show "\<exists>r \<in> set (iw_table w'). holds_claim (req_key (req p)) t r \<and> ir_locked_until r = l"
  proof (cases "who = Some p")
    case True
    then show ?thesis using own_step_lease[of cfg box req who w w' p] step inv run live by simp
  next
    case False
    then have ph: "iw_phase w p = Running t l" using step_others[OF step] run by simp
    have "iw_clock w < l" using live step_clock[OF step] by simp
    then obtain r where r: "r \<in> set (iw_table w)" "holds_claim (req_key (req p)) t r" "ir_locked_until r = l"
      using inv(5) ph unfolding leases_ok_def by blast
    have "phase_token (iw_phase w q) \<noteq> Some (ir_token r)" if "who = Some q" for q
      using that False r(2) ph inv(4) unfolding tokens_ok_def holds_claim_def by (metis phase_token.simps(1))
    then have "r \<in> set (iw_table w')"
      using live_row_survives[OF step inv(1-3) r(1)] r \<open>iw_clock w < l\<close> by (auto simp: holds_claim_def)
    then show ?thesis using r by blast
  qed
qed

section \<open>Stored responses\<close>

definition running_ok :: "('p \<Rightarrow> idempotent_request) \<Rightarrow> 'p world \<Rightarrow> bool" where
  "running_ok req w \<longleftrightarrow> (\<forall>p t l r. iw_phase w p = Running t l \<longrightarrow> r \<in> set (iw_table w) \<longrightarrow> ir_token r = t \<longrightarrow>
     row_key r = req_key (req p) \<and> ir_hash r = iq_hash (req p))"

definition same_request :: "idempotent_request \<Rightarrow> idempotent_request \<Rightarrow> bool" where
  "same_request q q' \<longleftrightarrow> req_key q = req_key q' \<and> iq_hash q = iq_hash q'"

definition row_stores :: "secret_box \<Rightarrow> idempotent_request \<times> stored_response \<Rightarrow> idem_record \<Rightarrow> bool" where
  "row_stores box given r \<longleftrightarrow> req_key (fst given) = row_key r \<and> iq_hash (fst given) = ir_hash r
     \<and> ir_status r = Some (sr_status (snd given)) \<and> ir_headers r = Some (sr_headers (snd given))
     \<and> ir_body r = sb_encrypt box (sr_body (snd given)) \<and> sb_encrypt box (sr_body (snd given)) \<noteq> None"

definition completed_ok :: "secret_box \<Rightarrow> 'p world \<Rightarrow> bool" where
  "completed_ok box w \<longleftrightarrow> (\<forall>r \<in> set (iw_table w). ir_state r = Completed \<longrightarrow> (\<exists>g \<in> set (iw_given w). row_stores box g r))"

definition sent_status :: "stored_response \<Rightarrow> stored_response" where
  "sent_status resp = resp\<lparr> sr_status := (if sr_status resp = 0 then 200 else sr_status resp) \<rparr>"

definition answered_ok :: "('p \<Rightarrow> idempotent_request) \<Rightarrow> 'p world \<Rightarrow> bool" where
  "answered_ok req w \<longleftrightarrow> (\<forall>p resp. iw_phase w p = Answered (Replay resp) \<longrightarrow>
     (\<exists>(q, given) \<in> set (iw_given w). same_request q (req p) \<and> resp = sent_status given))"

definition opens_what_it_sealed :: "secret_box \<Rightarrow> bool" where
  "opens_what_it_sealed box \<longleftrightarrow> (\<forall>body c. sb_encrypt box body = Some c \<longrightarrow> sb_decrypt box c = Some body)"

lemma step_running_ok:
  assumes step: "idem_step cfg box req who w w'" and inv: "seen_ok req w" "tokens_ok w" "running_ok req w"
  shows "running_ok req w'"
  unfolding running_ok_def
proof (intro allI impI)
  fix p t l r'
  assume run: "iw_phase w' p = Running t l" and r': "r' \<in> set (iw_table w')" and tok: "ir_token r' = t"
  note owners = inv(2)[unfolded tokens_ok_def, THEN conjunct2, THEN conjunct2, THEN conjunct1, rule_format]
    and apart = inv(2)[unfolded tokens_ok_def, THEN conjunct2, THEN conjunct2, THEN conjunct2, rule_format]
  have old: "row_key r = req_key (req p) \<and> ir_hash r = iq_hash (req p)"
    if "r \<in> set (iw_table w)" "ir_token r = t" for r
    using step_running[OF step run] that apart inv(3) unfolding running_ok_def by blast
  from step inv(1) r' show "row_key r' = req_key (req p) \<and> ir_hash r' = iq_hash (req p)"
  proof (cases rule: step_row_origin)
    case (Kept r)
    then show ?thesis using old[of r] tok by (simp add: row_kept_def)
  next
    case (Filled q s l0 resp r)
    then show ?thesis using old[of r] tok by (auto simp: row_filled_def store_of_def)
  next
    case (Fresh q s now)
    then have "phase_token (iw_phase w q) = Some t" using tok by (simp add: pending_is_token)
    then have "q = p" using step_running[OF step run] owners pending_is_token by (metis phase_token.simps(1))
    then show ?thesis using Fresh by simp
  qed
qed

lemma step_given: "idem_step cfg box req who w w' \<Longrightarrow> set (iw_given w) \<subseteq> set (iw_given w')"
  by (erule idem_stepE) auto

lemma step_completed_ok:
  assumes step: "idem_step cfg box req who w w'"
    and inv: "seen_ok req w" "running_ok req w" "completed_ok box w"
  shows "completed_ok box w'"
  unfolding completed_ok_def
proof (intro ballI impI)
  fix r' assume r': "r' \<in> set (iw_table w')" "ir_state r' = Completed"
  from step inv(1) r'(1) show "\<exists>g \<in> set (iw_given w'). row_stores box g r'"
  proof (cases rule: step_row_origin)
    case (Kept r)
    then obtain g where "g \<in> set (iw_given w)" "row_stores box g r"
      using inv(3) r'(2) by (auto simp: completed_ok_def row_kept_def)
    then show ?thesis using Kept step_given[OF step] by (intro bexI[of _ g]) (auto simp: row_kept_def row_stores_def)
  next
    case (Filled p t l resp r)
    then have "ir_token r = t" by (simp add: row_filled_def holds_claim_def)
    then have "ir_hash r = iq_hash (req p)" "row_key r = req_key (req p)"
      using inv(2) Filled unfolding running_ok_def by blast+
    then have "row_stores box (req p, resp) r'"
      using Filled by (auto simp: row_filled_def row_stores_def store_of_def)
    then show ?thesis using Filled by auto
  qed (use r' in simp)
qed

lemma replay_of_stored:
  assumes "opens_what_it_sealed box" "row_stores box g r"
  shows "replay_of box r = Some (sent_status (snd g))"
  using assms by (auto simp: replay_of_def row_stores_def opens_what_it_sealed_def sent_status_def)

lemma replay_answer:
  assumes "admit_decision box q now r = Answer (Replay resp)"
  shows "ir_state r = Completed \<and> ir_hash r = iq_hash q \<and> replay_of box r = Some resp"
  using assms by (auto simp: admit_decision_def split: if_split_asm option.split_asm)

lemma step_answer:
  assumes "idem_step cfg box req who w w'" "iw_phase w' p = Answered (Replay resp)"
  shows "iw_phase w p = Answered (Replay resp) \<or>
    (\<exists>r \<in> set (iw_table w). row_key r = req_key (req p) \<and> ir_state r = Completed \<and> ir_hash r = iq_hash (req p)
       \<and> replay_of box r = Some resp)"
  using assms(1)
proof (cases rule: idem_step.cases)
  case (Find q n t now)
  then show ?thesis using assms(2)
    by (cases rule: after_find_cases[of box "req q" n t now "find_claim (req_key (req q)) (iw_table w)"])
      (auto simp: find_claim_def find_Some_iff dest!: replay_answer split: if_split_asm)
qed (use assms(2) in \<open>auto split: if_split_asm\<close>)

lemma step_answered_ok:
  assumes step: "idem_step cfg box req who w w'" and law: "opens_what_it_sealed box"
    and inv: "completed_ok box w" "answered_ok req w"
  shows "answered_ok req w'"
proof -
  have "\<exists>(q, given) \<in> set (iw_given w). same_request q (req p) \<and> resp = sent_status given"
    if ans: "iw_phase w' p = Answered (Replay resp)" for p resp
    using step_answer[OF step ans]
  proof
    assume "iw_phase w p = Answered (Replay resp)"
    then show ?thesis using inv(2) unfolding answered_ok_def by blast
  next
    assume "\<exists>r \<in> set (iw_table w). row_key r = req_key (req p) \<and> ir_state r = Completed
      \<and> ir_hash r = iq_hash (req p) \<and> replay_of box r = Some resp"
    then obtain r g where r: "row_key r = req_key (req p)" "ir_hash r = iq_hash (req p)" "replay_of box r = Some resp"
        and g: "g \<in> set (iw_given w)" "row_stores box g r"
      using inv(1) unfolding completed_ok_def by blast
    then show ?thesis using replay_of_stored[OF law g(2)]
      by (intro bexI[of _ g]) (auto simp: same_request_def row_stores_def split: prod.split)
  qed
  then show ?thesis unfolding answered_ok_def using step_given[OF step] by blast
qed

section \<open>Every reachable world\<close>

definition idem_inv :: "secret_box \<Rightarrow> ('p \<Rightarrow> idempotent_request) \<Rightarrow> 'p world \<Rightarrow> bool" where
  "idem_inv box req w \<longleftrightarrow> keys_distinct w \<and> seen_ok req w \<and> times_ok w \<and> tokens_ok w \<and> leases_ok req w
     \<and> running_ok req w \<and> completed_ok box w"

lemma start_world_inv: "idem_inv box req (start_world c)"
  by (simp add: idem_inv_def keys_distinct_def seen_ok_def times_ok_def tokens_ok_def leases_ok_def running_ok_def
      completed_ok_def start_world_def)

lemma step_inv:
  assumes "idem_step cfg box req who w w'" "idem_inv box req w"
  shows "idem_inv box req w'"
  using assms step_keys_distinct step_seen_ok step_times_ok step_tokens_ok step_leases_ok step_running_ok
    step_completed_ok
  unfolding idem_inv_def by metis

lemma run_inv: "idem_run cfg box req w w' \<Longrightarrow> idem_inv box req w \<Longrightarrow> idem_inv box req w'"
  by (induction rule: idem_run.induct) (auto intro: step_inv)

lemma run_answered_ok:
  "idem_run cfg box req w w' \<Longrightarrow> opens_what_it_sealed box \<Longrightarrow> idem_inv box req w \<Longrightarrow> answered_ok req w
     \<Longrightarrow> answered_ok req w'"
proof (induction rule: idem_run.induct)
  case (Step w w' who w'')
  then show ?case using step_answered_ok run_inv unfolding idem_inv_def by metis
qed

section \<open>How long a row blocks\<close>

definition stale_bound :: "idem_config \<Rightarrow> 'p world \<Rightarrow> bool" where
  "stale_bound cfg w \<longleftrightarrow>
     (\<forall>r \<in> set (iw_table w). stale_at r \<le> iw_clock w + max (ic_lease cfg) (ic_retention cfg))"

lemma stale_at_simps [simp]:
  "stale_at (claim_values cfg q t now) = now + ic_lease cfg" "stale_at (store_of c resp e r) = e"
  by (simp_all add: stale_at_def store_of_def)

lemma step_stale_bound:
  assumes "idem_step cfg box req who w w'" "seen_ok req w" "times_ok w" "stale_bound cfg w"
  shows "stale_bound cfg w'"
  using assms(1)
proof (cases rule: idem_step.cases)
  case (Insert p n t now ok tbl)
  then have "now \<le> iw_clock w" using assms(3)[unfolded times_ok_def, rule_format, of p now] by simp
  then show ?thesis using assms(4) Insert insert_rows(1)[OF Insert(4)] by (auto simp: stale_bound_def)
next
  case (Take p n t now seen ok tbl)
  then have k: "row_key seen = req_key (req p)" and "now \<le> iw_clock w"
    using assms(2) assms(3)[unfolded times_ok_def, rule_format, of p now] by (auto simp: seen_ok_def)
  then have "now + ic_lease cfg \<le> iw_clock w + max (ic_lease cfg) (ic_retention cfg)" by linarith
  then show ?thesis
    using assms(4) Take unfolding take_over_rows(1)[OF Take(4) k] by (auto simp: stale_bound_def in_update_where_iff)
next
  case (Renew p t l now ok tbl)
  have "stale_at (r\<lparr> ir_locked_until := now + ic_lease cfg \<rparr>) \<le> iw_clock w + max (ic_lease cfg) (ic_retention cfg)"
    if "ir_state r = In_Progress" for r
    using that Renew(4) by (simp add: stale_at_def)
  then show ?thesis using assms(4) Renew
    by (auto simp: stale_bound_def renew_claim_def extend_lease_def in_update_where_iff holds_claim_def)
next
  case (Complete p t l now resp write_ok stored tbl)
  have "now + ic_retention cfg \<le> iw_clock w + max (ic_lease cfg) (ic_retention cfg)" using Complete(4) by linarith
  with Complete(5) show ?thesis
    by (cases rule: complete_rows)
      (use assms(4) Complete(2) in \<open>auto simp: stale_bound_def release_claim_def in_update_where_iff\<close>)
qed (use assms(4) in \<open>fastforce simp: stale_bound_def release_claim_def delete_expired_def Let_def\<close>)+

lemma run_stale_bound:
  "idem_run cfg box req w w' \<Longrightarrow> idem_inv box req w \<Longrightarrow> stale_bound cfg w \<Longrightarrow> stale_bound cfg w'"
proof (induction rule: idem_run.induct)
  case (Step w w' who w'')
  then show ?case using step_stale_bound run_inv unfolding idem_inv_def by metis
qed

section \<open>Claiming a key that has lapsed\<close>

text \<open>
  Ticks and the steps of one process are enough for it to run, once the clock is past what the row of its key
  keeps the key for.
\<close>

lemma idle_claims_lapsed:
  fixes w :: "'p world"
  assumes "iw_phase w p = Idle n" "n < changes_before_conflict"
    and lapsed: "\<And>r. find_claim (req_key (req p)) (iw_table w) = Some r \<Longrightarrow> stale_at r \<le> iw_clock w"
  obtains w' t l where "idem_run cfg box req w w'" "iw_phase w' p = Running t l" "iw_clock w' = iw_clock w"
    "\<And>q. q \<noteq> p \<Longrightarrow> iw_phase w' q = iw_phase w q"
proof -
  let ?now = "iw_clock w" and ?k = "req_key (req p)"
  obtain t where t: "t \<notin> set (iw_used w)" using ex_new_if_finite[OF infinite_UNIV_listI finite_set] by blast
  define w1 where "w1 = put_phase p (Timed n t ?now) (w\<lparr> iw_used := t # iw_used w \<rparr>)"
  have r1: "idem_run cfg box req w w1"
    unfolding w1_def by (rule idem_run.Step[OF idem_run.Start idem_step.Draw[where p = p]]) (use assms t in auto)
  have p1: "iw_phase w1 p = Timed n t ?now" "iw_table w1 = iw_table w" by (simp_all add: w1_def)
  obtain ok tbl where ins: "insert_claim (claim_values cfg (req p) t ?now) (iw_table w1) = (ok, tbl)" by fastforce
  have "idem_step cfg box req (Some p) w1
      (put_phase p (if ok then Running t (?now + ic_lease cfg) else Contended n t ?now) (w1\<lparr> iw_table := tbl \<rparr>))"
    using p1(1) ins by (rule idem_step.Insert)
  note r2 = idem_run.Step[OF r1 this]
  show ?thesis
  proof (cases ok)
    case True
    show ?thesis by (rule that[OF r2]) (use True in \<open>auto simp: w1_def\<close>)
  next
    case False
    define w2 where "w2 = put_phase p (Contended n t ?now) (w1\<lparr> iw_table := tbl \<rparr>)"
    have r2': "idem_run cfg box req w w2" using r2 False by (simp add: w2_def)
    have p2: "iw_phase w2 p = Contended n t ?now" "iw_table w2 = iw_table w"
      using False insert_rows(1)[OF ins] p1 by (simp_all add: w2_def)
    have "list_ex (\<lambda>r. row_key r = ?k) (iw_table w)"
      using ins False p1(2) by (auto simp: insert_claim_def split: if_split_asm)
    then obtain r where r: "find_claim ?k (iw_table w) = Some r"
      by (cases "find_claim ?k (iw_table w)") (auto simp: find_claim_def find_None_iff list_ex_iff)
    then have rk: "row_key r = ?k" "r \<in> set (iw_table w)" by (auto simp: find_claim_def find_Some_iff)
    define w3 where "w3 = put_phase p (Taking n t ?now r) w2"
    have "after_find box (req p) n t ?now (find_claim ?k (iw_table w2)) = Taking n t ?now r"
      using r p2 lapsed[OF r] by (simp add: after_find_def admit_decision_def)
    then have r3: "idem_run cfg box req w w3"
      using idem_run.Step[OF r2' idem_step.Find[where p = p and box = box, OF p2(1)]] by (simp add: w3_def)
    have p3: "iw_phase w3 p = Taking n t ?now r" "iw_table w3 = iw_table w" using p2 by (simp_all add: w3_def)
    obtain ok' tbl' where tk: "take_over r ?now (claim_values cfg (req p) t ?now) (iw_table w3) = (ok', tbl')" by fastforce
    have "unchanged_claim r ?now r" using lapsed[OF r] by (simp add: unchanged_claim_def stale_at_def split: if_split_asm)
    then have ok' using take_over_rows(2)[OF tk rk(1)] rk(2) p3(2) by auto
    have "idem_step cfg box req (Some p) w3
        (put_phase p (if ok' then Running t (?now + ic_lease cfg) else Idle (Suc n)) (w3\<lparr> iw_table := tbl' \<rparr>))"
      using p3(1) tk by (rule idem_step.Take)
    then show ?thesis
      by (rule that[OF idem_run.Step[OF r3]]) (use \<open>ok'\<close> in \<open>auto simp: w3_def w2_def w1_def\<close>)
  qed
qed

lemma run_trans: "idem_run cfg box req w' w'' \<Longrightarrow> idem_run cfg box req w w' \<Longrightarrow> idem_run cfg box req w w''"
  by (induction rule: idem_run.induct) (auto intro: idem_run.Step)

section \<open>One request on its own, and the sweep\<close>

text \<open>An admission nobody interferes with is decided by its first try.\<close>

lemma try_admit_alone:
  assumes "distinct (map row_key tbl)"
  shows "try_admit cfg box q (\<lambda>t. t) token now tbl = (case find_claim (req_key q) tbl of
       None \<Rightarrow> (Some (Claimed token), tbl @ [claim_values cfg q token now])
     | Some r \<Rightarrow> (case admit_decision box q now r of
         Answer a \<Rightarrow> (Some a, tbl)
       | Take_Over \<Rightarrow> (Some (Claimed token),
           update_where (\<lambda>r'. row_key r' = req_key q) (\<lambda>_. claim_values cfg q token now) tbl)))"
proof (cases "find_claim (req_key q) tbl")
  case None
  then have "\<not> list_ex (\<lambda>r. row_key r = req_key q) tbl" by (auto simp: find_claim_def find_None_iff list_ex_iff)
  then show ?thesis using None by (simp add: try_admit_def insert_claim_def Let_def)
next
  case (Some r)
  then have r: "r \<in> set tbl" "row_key r = req_key q" by (auto simp: find_claim_def find_Some_iff)
  then have ins: "insert_claim (claim_values cfg q token now) tbl = (False, tbl)"
    by (auto simp: insert_claim_def list_ex_iff)
  have only: "r' = r" if "r' \<in> set tbl" "row_key r' = req_key q" for r'
    using that r assms by (auto simp: distinct_map inj_on_def)
  obtain ok tbl' where tk: "take_over r now (claim_values cfg q token now) tbl = (ok, tbl')" by fastforce
  note rows = take_over_rows[OF tk r(2)]
  show ?thesis
  proof (cases "admit_decision box q now r")
    case (Answer a)
    then show ?thesis using Some ins by (simp add: try_admit_def Let_def)
  next
    case Take_Over
    then have same: "unchanged_claim r now r"
      by (auto simp: admit_decision_def unchanged_claim_def stale_at_def split: if_split_asm)
    then have ok: ok using rows(2) r(1) by blast
    have "unchanged_claim r now r' \<longleftrightarrow> row_key r' = req_key q" if "r' \<in> set tbl" for r'
      using only[of r'] that r(2) same by (auto simp: unchanged_claim_def)
    then have "tbl' = update_where (\<lambda>r'. row_key r' = req_key q) (\<lambda>_. claim_values cfg q token now) tbl"
      unfolding rows(1) by (intro update_where_cong) auto
    then show ?thesis using Some ins tk ok Take_Over by (simp add: try_admit_def Let_def)
  qed
qed

text \<open>A sweep deletes every row whose retention has passed, and no other.\<close>

lemma doomed_rows:
  assumes "distinct (map row_key tbl)" "delete_expired now limit tbl = (deleted, tbl')"
  shows "filter (\<lambda>r. \<not> claim_expired now r) tbl' = filter (\<lambda>r. \<not> claim_expired now r) tbl"
    and "deleted = min limit (rowcount (claim_expired now) tbl)"
proof -
  define gone where "gone = take limit (sort_key ir_expires_at (filter (claim_expired now) tbl))"
  have tbl': "tbl' = filter (\<lambda>r. row_key r \<notin> row_key ` set gone) tbl"
    and n: "deleted = length (filter (\<lambda>r. row_key r \<in> row_key ` set gone) tbl)"
    using assms(2) by (auto simp: delete_expired_def Let_def gone_def rowcount_def)
  have sub: "set gone \<subseteq> {r \<in> set tbl. claim_expired now r}"
    unfolding gone_def using set_take_subset by fastforce
  have iff: "row_key r \<in> row_key ` set gone \<longleftrightarrow> r \<in> set gone" if "r \<in> set tbl" for r
    using that sub assms(1) by (auto simp: distinct_map inj_on_def)
  show "filter (\<lambda>r. \<not> claim_expired now r) tbl' = filter (\<lambda>r. \<not> claim_expired now r) tbl"
    unfolding tbl' filter_filter by (rule filter_cong) (use iff sub in auto)
  have dt: "distinct tbl" using assms(1) by (simp add: distinct_map)
  then have dg: "distinct gone" by (simp add: gone_def)
  have "deleted = length (filter (\<lambda>r. r \<in> set gone) tbl)" unfolding n by (rule arg_cong[of _ _ length], rule filter_cong) (use iff in auto)
  also have "\<dots> = card (set gone)"
  proof -
    have "{r \<in> set tbl. r \<in> set gone} = set gone" using sub by auto
    then show ?thesis using distinct_card[OF distinct_filter[OF dt, of "\<lambda>r. r \<in> set gone"]] by simp
  qed
  also have "\<dots> = length gone" using distinct_card[OF dg] .
  finally show "deleted = min limit (rowcount (claim_expired now) tbl)" by (simp add: gone_def rowcount_def min.commute)
qed

lemma sweep_claims_result:
  "distinct (map row_key tbl) \<Longrightarrow> 0 < batch \<Longrightarrow>
     sweep_claims now batch tbl = (rowcount (claim_expired now) tbl, filter (\<lambda>r. \<not> claim_expired now r) tbl)"
proof (induction now batch tbl rule: sweep_claims.induct)
  case (1 now batch tbl)
  obtain deleted tbl' where del: "delete_expired now batch tbl = (deleted, tbl')" by fastforce
  note rows = doomed_rows[OF 1(2) del] and d' = swept_rows(3)[OF del 1(2)]
  have count: "length tbl' + deleted = length tbl" by (rule delete_expired_shrinks[OF del])
  have left: "rowcount (claim_expired now) tbl' + deleted = rowcount (claim_expired now) tbl"
    using count rows(1) sum_length_filter_compl[of "claim_expired now" tbl]
      sum_length_filter_compl[of "claim_expired now" tbl'] by (simp add: rowcount_def)
  show ?case
  proof (cases "deleted < batch")
    case True
    then have all: "deleted = rowcount (claim_expired now) tbl" using rows(2) by simp
    then have "rowcount (claim_expired now) tbl' = 0" using left all by simp
    then have "filter (\<lambda>r. \<not> claim_expired now r) tbl' = tbl'"
      by (auto simp: rowcount_zero_iff intro!: filter_True)
    then show ?thesis using True del rows all by (simp add: sweep_claims.simps[of now batch tbl])
  next
    case False
    then have "sweep_claims now batch tbl' = (rowcount (claim_expired now) tbl', filter (\<lambda>r. \<not> claim_expired now r) tbl')"
      using 1 del d' by auto
    then show ?thesis
      using False 1(3) del rows left by (simp add: sweep_claims.simps[of now batch tbl])
  qed
qed

section \<open>Renewing in time\<close>

text \<open>Failed renewals are retried before the lease ends, while more than a fifteenth of it is left.\<close>

lemma failed_renewal_retried:
  assumes "0 < lease_sec" "lease_sec / 15 \<le> rn_lease_ends r - now"
  shows "shortest_retry lease_sec \<le> rn_delay (renewal_failed lease_sec now r)"
    and "rn_delay (renewal_failed lease_sec now r) \<le> cadence lease_sec"
    and "now + rn_delay (renewal_failed lease_sec now r) < rn_lease_ends (renewal_failed lease_sec now r)"
  using assms by (simp_all add: renewal_failed_def shortest_retry_def cadence_def min_def max_def field_simps)

section \<open>An example run\<close>

definition demo_req :: "nat \<Rightarrow> idempotent_request" where
  "demo_req p = \<lparr> iq_scope = ''key:k1'', iq_key = ''order-7'', iq_hash = ''h'', iq_user_id = ''u'', iq_api_key_id = Some ''k1'' \<rparr>"

definition demo_cfg :: idem_config where
  "demo_cfg = \<lparr> ic_lease = 30, ic_retention = 100 \<rparr>"

definition demo_box :: secret_box where
  "demo_box = \<lparr> sb_encrypt = (\<lambda>b. Some (rev b)), sb_decrypt = (\<lambda>c. Some (rev c)) \<rparr>"

definition demo_resp :: stored_response where
  "demo_resp = \<lparr> sr_status = 201, sr_body = ''body'', sr_headers = [(''x'', ''y'')] \<rparr>"

definition demo_drawn :: "nat world" where
  "demo_drawn = put_phase 0 (Timed 0 ''a'' 0) (start_world 0\<lparr> iw_used := [''a''] \<rparr>)"

definition demo_claim :: idem_record where
  "demo_claim = claim_values demo_cfg (demo_req 0) ''a'' 0"

definition demo_runs :: "nat world" where
  "demo_runs = put_phase 0 (Running ''a'' 30) (demo_drawn\<lparr> iw_table := [demo_claim] \<rparr>)"

definition demo_row :: idem_record where
  "demo_row = store_of (rev ''body'') demo_resp 100 demo_claim"

definition demo_stored :: "nat world" where
  "demo_stored = put_phase 0 Ended (demo_runs\<lparr> iw_table := [demo_row], iw_given := [(demo_req 0, demo_resp)] \<rparr>)"

definition demo_second :: "nat world" where
  "demo_second = put_phase 1 (Timed 0 ''b'' 0) (demo_stored\<lparr> iw_used := [''b'', ''a''] \<rparr>)"

definition demo_blocked :: "nat world" where
  "demo_blocked = put_phase 1 (Contended 0 ''b'' 0) (demo_second\<lparr> iw_table := [demo_row] \<rparr>)"

definition demo_replayed :: "nat world" where
  "demo_replayed = put_phase 1 (Answered (Replay demo_resp)) demo_blocked"

lemmas demo_defs = demo_req_def demo_cfg_def demo_box_def demo_resp_def demo_drawn_def demo_claim_def demo_runs_def
  demo_row_def demo_stored_def demo_second_def demo_blocked_def demo_replayed_def start_world_def

lemma demo_runs_reachable: "idem_run demo_cfg demo_box demo_req (start_world 0) demo_runs"
proof -
  have 1: "idem_step demo_cfg demo_box demo_req (Some 0) (start_world 0) demo_drawn"
    using idem_step.Draw[of "start_world 0" 0 0 "''a''" demo_cfg demo_box demo_req]
    by (simp add: demo_drawn_def start_world_def changes_before_conflict_def)
  have 2: "idem_step demo_cfg demo_box demo_req (Some 0) demo_drawn demo_runs"
    using idem_step.Insert[of demo_drawn 0 0 "''a''" 0 demo_cfg demo_req True "[demo_claim]" demo_box]
    by (simp add: demo_runs_def demo_drawn_def start_world_def insert_claim_def demo_claim_def demo_cfg_def)
  show ?thesis using idem_run.Step[OF idem_run.Step[OF idem_run.Start 1] 2] .
qed

lemma demo_replayed_reachable: "idem_run demo_cfg demo_box demo_req (start_world 0) demo_replayed"
proof -
  have table: "iw_table demo_runs = [demo_claim]" "iw_table demo_second = [demo_row]" "iw_table demo_blocked = [demo_row]"
    by (simp_all add: demo_runs_def demo_second_def demo_stored_def demo_blocked_def)
  have "complete_response demo_cfg demo_box (demo_req 0) ''a'' demo_resp 0 True [demo_claim] = (True, [demo_row])"
  proof -
    have "utf8_length ''body'' = 4" by code_simp
    then show ?thesis
      by (simp add: complete_response_def max_stored_body_bytes_def complete_claim_def demo_row_def store_of_def
          demo_resp_def demo_box_def demo_cfg_def demo_claim_def holds_claim_def)
  qed
  then have 3: "idem_step demo_cfg demo_box demo_req (Some 0) demo_runs demo_stored"
    using idem_step.Complete[of demo_runs 0 "''a''" 30 0 demo_cfg demo_box demo_req demo_resp True True "[demo_row]"] table
    by (simp add: demo_stored_def demo_runs_def demo_drawn_def start_world_def)
  have 4: "idem_step demo_cfg demo_box demo_req (Some 1) demo_stored demo_second"
    using idem_step.Draw[of demo_stored 1 0 "''b''" demo_cfg demo_box demo_req]
    by (simp add: demo_second_def demo_stored_def demo_runs_def demo_drawn_def start_world_def changes_before_conflict_def)
  have "insert_claim (claim_values demo_cfg (demo_req 1) ''b'' 0) [demo_row] = (False, [demo_row])" by code_simp
  then have 5: "idem_step demo_cfg demo_box demo_req (Some 1) demo_second demo_blocked"
    using idem_step.Insert[of demo_second 1 0 "''b''" 0 demo_cfg demo_req False "[demo_row]" demo_box] table
    by (simp add: demo_blocked_def demo_second_def demo_stored_def)
  have "after_find demo_box (demo_req 1) 0 ''b'' 0 (find_claim (req_key (demo_req 1)) [demo_row]) = Answered (Replay demo_resp)"
    by code_simp
  then have 6: "idem_step demo_cfg demo_box demo_req (Some 1) demo_blocked demo_replayed"
    using idem_step.Find[of demo_blocked 1 0 "''b''" 0 demo_cfg demo_box demo_req] table
    by (simp add: demo_replayed_def demo_blocked_def)
  show ?thesis
    using idem_run.Step[OF idem_run.Step[OF idem_run.Step[OF idem_run.Step[OF demo_runs_reachable 3] 4] 5] 6] .
qed

section \<open>Properties\<close>

text \<open>
  \<^bold>\<open>C6\<close>: at any time, and whatever the interleaving of requests, crashes, failed writes and sweeps, at
  most one request runs under a key with a lease that has not lapsed.
\<close>

theorem one_live_claim_per_key:
  assumes "idem_run cfg box req (start_world c) w"
  shows "\<exists>p0. {p. \<exists>t l. iw_phase w p = Running t l \<and> iw_clock w < l \<and> req_key (req p) = k} \<subseteq> {p0}"
proof -
  have inv: "idem_inv box req w" using run_inv[OF assms start_world_inv] .
  have same: "p = q" if p: "iw_phase w p = Running t l" "iw_clock w < l" "req_key (req p) = k"
    and q: "iw_phase w q = Running t' l'" "iw_clock w < l'" "req_key (req q) = k" for p q t t' l l'
  proof -
    obtain r r' where r: "r \<in> set (iw_table w)" "holds_claim k t r" and r': "r' \<in> set (iw_table w)" "holds_claim k t' r'"
      using inv p q unfolding idem_inv_def leases_ok_def by metis
    then have "r = r'" using inv by (auto simp: idem_inv_def keys_distinct_def distinct_map inj_on_def holds_claim_def)
    then have "t = t'" using r r' by (simp add: holds_claim_def)
    then show "p = q" using inv p(1) q(1) unfolding idem_inv_def tokens_ok_def by (metis phase_token.simps(1))
  qed
  show ?thesis
  proof (cases "\<exists>p t l. iw_phase w p = Running t l \<and> iw_clock w < l \<and> req_key (req p) = k")
    case True
    then obtain p t l where "iw_phase w p = Running t l" "iw_clock w < l" "req_key (req p) = k" by blast
    then show ?thesis using same by (intro exI[of _ p]) blast
  qed blast
qed

theorem one_live_claim_per_key_witness:
  "\<exists>p0. {p. \<exists>t l. iw_phase demo_runs p = Running t l \<and> iw_clock demo_runs < l
     \<and> req_key (demo_req p) = (''key:k1'', ''order-7'')} \<subseteq> {p0}"
  using one_live_claim_per_key[OF demo_runs_reachable] .

text \<open>
  \<^bold>\<open>C7\<close>: a replayed response is one that some request with the same key, scope and digest completed with:
  its status (200 when it was 0), its body, encrypted and decrypted again, and its headers. The box is taken
  to open what it sealed.
\<close>

theorem replay_is_own_response:
  assumes "idem_run cfg box req (start_world c) w" "opens_what_it_sealed box"
    and "iw_phase w p = Answered (Replay resp)"
  shows "\<exists>(q, given) \<in> set (iw_given w). same_request q (req p) \<and> resp = sent_status given"
proof -
  have "answered_ok req (start_world c)" by (simp add: answered_ok_def start_world_def)
  from run_answered_ok[OF assms(1,2) start_world_inv this] show ?thesis
    using assms(3) unfolding answered_ok_def by blast
qed

theorem replay_is_own_response_witness:
  "\<exists>(q, given) \<in> set (iw_given demo_replayed). same_request q (demo_req 1) \<and> demo_resp = sent_status given"
proof -
  have "opens_what_it_sealed demo_box" by (simp add: opens_what_it_sealed_def demo_box_def)
  moreover have "iw_phase demo_replayed 1 = Answered (Replay demo_resp)" by (simp add: demo_replayed_def)
  ultimately show ?thesis using replay_is_own_response[OF demo_replayed_reachable] by blast
qed

text \<open>
  \<^bold>\<open>C38\<close>: a key never stays blocked. From any reachable world, a request that still has a try left comes to
  run by its own steps alone, after waiting for the lease or the retention of the row in its way, so at most
  for the longer of the two.
\<close>

theorem key_becomes_claimable:
  assumes "idem_run cfg box req (start_world c) w" "iw_phase w p = Idle n" "n < changes_before_conflict"
  shows "\<exists>w' t l. idem_run cfg box req w w' \<and> iw_phase w' p = Running t l \<and> (\<forall>q. q = p \<or> iw_phase w' q = iw_phase w q)
     \<and> iw_clock w' = (case find_claim (req_key (req p)) (iw_table w) of
         None \<Rightarrow> iw_clock w | Some r \<Rightarrow> max (iw_clock w) (stale_at r))
     \<and> iw_clock w' \<le> iw_clock w + max 0 (max (ic_lease cfg) (ic_retention cfg))"
proof -
  let ?c = "case find_claim (req_key (req p)) (iw_table w) of None \<Rightarrow> iw_clock w | Some r \<Rightarrow> max (iw_clock w) (stale_at r)"
  let ?w1 = "w\<lparr> iw_clock := ?c \<rparr>"
  have r1: "idem_run cfg box req w ?w1"
    by (rule idem_run.Step[OF idem_run.Start idem_step.Tick]) (simp split: option.split)
  have "stale_bound cfg w"
    by (rule run_stale_bound[OF assms(1) start_world_inv]) (simp add: stale_bound_def start_world_def)
  then have bound: "?c \<le> iw_clock w + max 0 (max (ic_lease cfg) (ic_retention cfg))"
  proof (cases "find_claim (req_key (req p)) (iw_table w)")
    case (Some r)
    then have "r \<in> set (iw_table w)" by (auto simp: find_claim_def find_Some_iff)
    then show ?thesis using \<open>stale_bound cfg w\<close> Some by (auto simp: stale_bound_def)
  qed simp
  obtain w' t l where w': "idem_run cfg box req ?w1 w'" "iw_phase w' p = Running t l" "iw_clock w' = ?c"
      "\<And>q. q \<noteq> p \<Longrightarrow> iw_phase w' q = iw_phase w q"
    by (rule idle_claims_lapsed[of ?w1 p n req cfg box]) (use assms(2,3) in auto)
  from run_trans[OF w'(1) r1] show ?thesis using w'(2-4) bound by (intro exI[of _ w'] exI[of _ t] exI[of _ l]) auto
qed

theorem key_becomes_claimable_witness:
  "\<exists>w' t l. idem_run demo_cfg demo_box demo_req demo_runs w' \<and> iw_phase w' 1 = Running t l
     \<and> (\<forall>q. q = 1 \<or> iw_phase w' q = iw_phase demo_runs q)
     \<and> iw_clock w' = (case find_claim (req_key (demo_req 1)) (iw_table demo_runs) of
         None \<Rightarrow> iw_clock demo_runs | Some r \<Rightarrow> max (iw_clock demo_runs) (stale_at r))
     \<and> iw_clock w' \<le> iw_clock demo_runs + max 0 (max (ic_lease demo_cfg) (ic_retention demo_cfg))"
  by (rule key_becomes_claimable[OF demo_runs_reachable, of 1 0])
    (simp_all add: demo_runs_def demo_drawn_def start_world_def changes_before_conflict_def)

text \<open>
  An admission nobody interferes with is decided by its first try: a free key is claimed, a lapsed
  row or one whose body no key opens is taken over in place, and any other row answers and is left as it is.
\<close>

theorem undisturbed_admission:
  assumes "distinct (map row_key tbl)"
  shows "admit_key cfg box q (Some False) (\<lambda>t. t) draws tbl = (let token = fst (draws 2); now = snd (draws 2) in
     case find_claim (req_key q) tbl of
       None \<Rightarrow> (Claimed token, tbl @ [claim_values cfg q token now])
     | Some r \<Rightarrow> (case admit_decision box q now r of
         Answer a \<Rightarrow> (a, tbl)
       | Take_Over \<Rightarrow> (Claimed token,
           update_where (\<lambda>r'. row_key r' = req_key q) (\<lambda>_. claim_values cfg q token now) tbl)))"
  by (simp add: admit_key_def changes_before_conflict_def numeral_3_eq_3 numeral_2_eq_2 try_admit_alone[OF assms] Let_def
      split: option.split decision.split)

theorem undisturbed_admission_witness:
  "admit_key demo_cfg demo_box (demo_req 1) (Some False) (\<lambda>t. t) (\<lambda>_. (''b'', 5)) [demo_row] = (Replay demo_resp, [demo_row])"
proof -
  have "distinct (map row_key [demo_row])" by simp
  from undisturbed_admission[OF this, of demo_cfg demo_box "demo_req 1" "\<lambda>_. (''b'', 5)"] show ?thesis
    by (simp add: Let_def) code_simp
qed

text \<open>
  A sweep in batches of any positive size ends, with every row whose retention has passed deleted
  (unless it is a claim whose lease is live), no other row touched, and their number returned.
\<close>

theorem sweep_deletes_expired_only:
  assumes "distinct (map row_key tbl)" "1 \<le> batch"
  shows "sweep now batch tbl = (Inr (rowcount (claim_expired now) tbl), filter (\<lambda>r. \<not> claim_expired now r) tbl)"
  using sweep_claims_result[OF assms(1), of batch now] assms(2) by (simp add: sweep_def)

theorem sweep_deletes_expired_only_witness:
  "sweep 100 1 [demo_row, demo_claim\<lparr> ir_key := ''k2'', ir_locked_until := 200 \<rparr>, demo_row\<lparr> ir_key := ''k3'' \<rparr>]
     = (Inr 2, [demo_claim\<lparr> ir_key := ''k2'', ir_locked_until := 200 \<rparr>])"
proof -
  let ?t = "[demo_row, demo_claim\<lparr> ir_key := ''k2'', ir_locked_until := 200 \<rparr>, demo_row\<lparr> ir_key := ''k3'' \<rparr>]"
  have "distinct (map row_key ?t)" by code_simp
  from sweep_deletes_expired_only[OF this, of 1 100] show ?thesis by simp code_simp
qed

end
