(* ===== verification/Budget_Rows.thy ===== *)
theory Budget_Rows
  imports Prelude Periods
begin

text \<open>
  The rows of \<open>models/budgets.py\<close> and \<open>models/users.py\<close> and the arithmetic of their counters.

  A budget caps three axes: dollars, tokens and requests. An amount on the three axes is
  \<open>HeldAmounts\<close> (\<open>repositories/budgets/reservation_repository.py\<close>), with dollars in whole
  micro-dollars. Amounts form an ordered group, componentwise, so that a sum over a table of
  holds and its comparison with a counter are one fact instead of three.

  The six counter columns of a user and of a ceiling are two such amounts (\<open>counters\<close>): the
  recorded use (\<open>spend\<close>/\<open>current_spend\<close>, \<open>current_tokens\<close>, \<open>current_requests\<close>) and the holds
  (\<open>reserved\<close>/\<open>reserved_spend\<close>, \<open>reserved_tokens\<close>, \<open>reserved_requests\<close>).

  Columns no operation here reads (names, aliases, allow lists, metadata) are left out. A row is
  dead when \<open>deleted_at\<close> is set. A BIGINT counter is an unbounded integer here:
  every hold is clamped to \<open>MAX_COUNT_LIMIT\<close>, far inside the type.
\<close>

section \<open>Amounts on three axes\<close>

datatype HeldAmounts = HeldAmounts (ha_amount: int) (ha_tokens: int) (ha_requests: int)

instantiation HeldAmounts :: ordered_ab_group_add
begin

definition zero_HeldAmounts :: HeldAmounts where
  "0 = HeldAmounts 0 0 0"

definition plus_HeldAmounts :: "HeldAmounts \<Rightarrow> HeldAmounts \<Rightarrow> HeldAmounts" where
  "a + b = HeldAmounts (ha_amount a + ha_amount b) (ha_tokens a + ha_tokens b)
     (ha_requests a + ha_requests b)"

definition minus_HeldAmounts :: "HeldAmounts \<Rightarrow> HeldAmounts \<Rightarrow> HeldAmounts" where
  "a - b = HeldAmounts (ha_amount a - ha_amount b) (ha_tokens a - ha_tokens b)
     (ha_requests a - ha_requests b)"

definition uminus_HeldAmounts :: "HeldAmounts \<Rightarrow> HeldAmounts" where
  "- a = HeldAmounts (- ha_amount a) (- ha_tokens a) (- ha_requests a)"

definition less_eq_HeldAmounts :: "HeldAmounts \<Rightarrow> HeldAmounts \<Rightarrow> bool" where
  "a \<le> b \<longleftrightarrow> ha_amount a \<le> ha_amount b \<and> ha_tokens a \<le> ha_tokens b \<and>
     ha_requests a \<le> ha_requests b"

definition less_HeldAmounts :: "HeldAmounts \<Rightarrow> HeldAmounts \<Rightarrow> bool" where
  "a < b \<longleftrightarrow> a \<le> b \<and> \<not> b \<le> (a :: HeldAmounts)"

instance
  by standard
     (auto simp: zero_HeldAmounts_def plus_HeldAmounts_def minus_HeldAmounts_def
       uminus_HeldAmounts_def less_eq_HeldAmounts_def less_HeldAmounts_def
       intro: HeldAmounts.expand)

end

lemmas amount_defs =
  zero_HeldAmounts_def plus_HeldAmounts_def minus_HeldAmounts_def uminus_HeldAmounts_def
  less_eq_HeldAmounts_def

lemma amount_sel [simp]:
  "ha_amount 0 = 0" "ha_tokens 0 = 0" "ha_requests 0 = 0"
  "ha_amount (a + b) = ha_amount a + ha_amount b"
  "ha_tokens (a + b) = ha_tokens a + ha_tokens b"
  "ha_requests (a + b) = ha_requests a + ha_requests b"
  "ha_amount (a - b) = ha_amount a - ha_amount b"
  "ha_tokens (a - b) = ha_tokens a - ha_tokens b"
  "ha_requests (a - b) = ha_requests a - ha_requests b"
  by (simp_all add: amount_defs)

lemma amount_eqI:
  "ha_amount a = ha_amount b \<Longrightarrow> ha_tokens a = ha_tokens b \<Longrightarrow> ha_requests a = ha_requests b \<Longrightarrow>
     a = b"
  by (rule HeldAmounts.expand) simp

lemma amount_le_iff:
  "a \<le> b \<longleftrightarrow> ha_amount a \<le> ha_amount b \<and> ha_tokens a \<le> ha_tokens b \<and>
     ha_requests a \<le> ha_requests b"
  by (rule less_eq_HeldAmounts_def)

subsection \<open>Giving an amount back\<close>

text \<open>
  The release of one amount: on every axis with a positive amount, subtracted and clamped at
  zero (\<open>_release_expression\<close>, \<open>_release_count_expression\<close>).
\<close>

definition release_axis :: "int \<Rightarrow> int \<Rightarrow> int" where
  "release_axis counter amount = (if amount > 0 then release_clamped counter amount else counter)"

definition release_amounts :: "HeldAmounts \<Rightarrow> HeldAmounts \<Rightarrow> HeldAmounts" where
  "release_amounts held amount =
     HeldAmounts (release_axis (ha_amount held) (ha_amount amount))
       (release_axis (ha_tokens held) (ha_tokens amount))
       (release_axis (ha_requests held) (ha_requests amount))"

lemma release_axis_exact: "0 \<le> a \<Longrightarrow> a \<le> c \<Longrightarrow> release_axis c a = c - a"
  by (simp add: release_axis_def release_clamped_exact)

lemma release_axis_ge: "0 \<le> a \<Longrightarrow> c - a \<le> release_axis c a"
  by (simp add: release_axis_def release_clamped_ge)

lemma release_axis_nonneg: "0 \<le> c \<Longrightarrow> 0 \<le> release_axis c a"
  by (simp add: release_axis_def)

lemma release_axis_le: "0 \<le> c \<Longrightarrow> release_axis c a \<le> c"
  by (simp add: release_axis_def release_clamped_def)

lemma release_amounts_exact [clamp_simps]:
  "0 \<le> a \<Longrightarrow> a \<le> c \<Longrightarrow> release_amounts c a = c - a"
  by (auto simp: release_amounts_def amount_defs release_axis_exact)

lemma release_amounts_ge: "0 \<le> a \<Longrightarrow> c - a \<le> release_amounts c a"
  by (simp add: release_amounts_def amount_le_iff release_axis_ge)

lemma release_amounts_nonneg: "0 \<le> c \<Longrightarrow> 0 \<le> release_amounts c a"
  by (simp add: release_amounts_def amount_le_iff release_axis_nonneg)

lemma release_amounts_le: "0 \<le> c \<Longrightarrow> release_amounts c a \<le> c"
  by (simp add: release_amounts_def amount_le_iff release_axis_le)

lemma release_amounts_zero [simp]: "release_amounts c 0 = c"
  by (rule amount_eqI) (simp_all add: release_amounts_def release_axis_def)

text \<open>The per-axis maximum with zero, and the use recorded: only positive amounts are added.\<close>

definition record_axis :: "int \<Rightarrow> int \<Rightarrow> int" where
  "record_axis counter amount = (if amount > 0 then counter + amount else counter)"

definition record_amounts :: "HeldAmounts \<Rightarrow> HeldAmounts \<Rightarrow> HeldAmounts" where
  "record_amounts used amount =
     HeldAmounts (record_axis (ha_amount used) (ha_amount amount))
       (record_axis (ha_tokens used) (ha_tokens amount))
       (record_axis (ha_requests used) (ha_requests amount))"

lemma record_amounts_exact: "0 \<le> a \<Longrightarrow> record_amounts u a = u + a"
  by (auto simp: record_amounts_def record_axis_def amount_defs)

lemma record_amounts_ge: "u \<le> record_amounts u a"
  by (simp add: record_amounts_def record_axis_def amount_le_iff)

section \<open>Rows\<close>

definition MAX_COUNT_LIMIT :: int where
  "MAX_COUNT_LIMIT = 1000000000000000"

definition SCOPE_ORGANIZATION :: string where "SCOPE_ORGANIZATION = ''organization''"
definition SCOPE_WORKSPACE :: string where "SCOPE_WORKSPACE = ''workspace''"
definition SCOPE_WORKSPACE_MEMBER :: string where "SCOPE_WORKSPACE_MEMBER = ''workspace_member''"
definition SCOPE_ORG_MEMBER :: string where "SCOPE_ORG_MEMBER = ''org_member''"
definition SCOPE_API_TOKEN :: string where "SCOPE_API_TOKEN = ''api_token''"

lemmas scope_defs =
  SCOPE_ORGANIZATION_def SCOPE_WORKSPACE_def SCOPE_WORKSPACE_MEMBER_def SCOPE_ORG_MEMBER_def
  SCOPE_API_TOKEN_def

datatype ReservationStatus =
    RESERVATION_ACTIVE | RESERVATION_SETTLED | RESERVATION_RELEASED | RESERVATION_EXPIRED

record counters =
  c_used :: HeldAmounts
  c_held :: HeldAmounts

record User =
  u_user_id :: string
  u_budget_id :: "string option"
  u_blocked :: bool
  u_deleted :: bool
  u_counters :: counters
  u_budget_started_at :: "instant option"
  u_next_reset_at :: "instant option"
  u_updated_at :: "instant option"

record Budget =
  b_budget_id :: string
  b_max_budget :: "int option"
  b_token_limit :: "int option"
  b_request_limit :: "int option"
  b_duration_sec :: "int option"
  b_reset_alignment :: "string option"

record BudgetResetLog =
  rl_user_id :: string
  rl_budget_id :: string
  rl_previous_spend :: int
  rl_reset_at :: instant
  rl_next_reset_at :: "instant option"

record ScopedBudget =
  s_id :: string
  s_scope_type :: string
  s_scope_id :: string
  s_provider_key_id :: "string option"
  s_budget_id :: string
  s_counters :: counters
  s_period_start :: "instant option"
  s_period_end :: "instant option"
  s_created_at :: instant
  s_updated_at :: "instant option"

record BudgetReservation =
  rv_id :: string
  rv_user_id :: string
  rv_held :: HeldAmounts
  rv_user_reserved :: bool
  rv_status :: ReservationStatus
  rv_expires_at :: instant

record BudgetReservationScope =
  ln_reservation_id :: string
  ln_scoped_budget_id :: string
  ln_held :: HeldAmounts

record db =
  d_users :: "User list"
  d_budgets :: "Budget list"
  d_reset_logs :: "BudgetResetLog list"
  d_scoped :: "ScopedBudget list"
  d_reservations :: "BudgetReservation list"
  d_lines :: "BudgetReservationScope list"

section \<open>Counters\<close>

definition hold_counters :: "HeldAmounts \<Rightarrow> counters \<Rightarrow> counters" where
  "hold_counters a c = c\<lparr>c_held := c_held c + a\<rparr>"

definition release_counters :: "HeldAmounts \<Rightarrow> counters \<Rightarrow> counters" where
  "release_counters a c = c\<lparr>c_held := release_amounts (c_held c) a\<rparr>"

definition settle_counters :: "HeldAmounts \<Rightarrow> HeldAmounts \<Rightarrow> counters \<Rightarrow> counters" where
  "settle_counters used held c =
     \<lparr>c_used = record_amounts (c_used c) used, c_held = release_amounts (c_held c) held\<rparr>"

definition reset_counters :: "counters \<Rightarrow> counters" where
  "reset_counters c = c\<lparr>c_used := 0\<rparr>"

definition committed :: "counters \<Rightarrow> HeldAmounts" where
  "committed c = c_used c + c_held c"

lemma counters_sel [simp]:
  "c_held (hold_counters a c) = c_held c + a" "c_used (hold_counters a c) = c_used c"
  "c_held (release_counters a c) = release_amounts (c_held c) a"
  "c_used (release_counters a c) = c_used c"
  "c_held (settle_counters u h c) = release_amounts (c_held c) h"
  "c_used (settle_counters u h c) = record_amounts (c_used c) u"
  "c_held (reset_counters c) = c_held c" "c_used (reset_counters c) = 0"
  by (simp_all add: hold_counters_def release_counters_def settle_counters_def reset_counters_def)

text \<open>A hold and its release cancel.\<close>

lemma release_hold_counters:
  "0 \<le> a \<Longrightarrow> 0 \<le> c_held c \<Longrightarrow> release_counters a (hold_counters a c) = c"
  by (cases c)
     (simp add: release_counters_def hold_counters_def release_amounts_exact add_increasing)

subsection \<open>The admission test\<close>

text \<open>
  One axis: no cap, or the hold fits under it, and for an arrival the axis is not already at it.
\<close>

definition admits :: "bool \<Rightarrow> int \<Rightarrow> int \<Rightarrow> int option \<Rightarrow> bool" where
  "admits new_request taken held cap =
     (case cap of
        None \<Rightarrow> True
      | Some c \<Rightarrow> taken + held \<le> c \<and> (new_request \<longrightarrow> taken < c))"

text \<open>All the capped axes; a dollar amount of \<open>None\<close> leaves that axis out.\<close>

definition admits_all ::
  "bool \<Rightarrow> counters \<Rightarrow> int option \<Rightarrow> int \<Rightarrow> int \<Rightarrow> int option \<Rightarrow> int option \<Rightarrow> int option \<Rightarrow> bool"
where
  "admits_all new_request c amount tokens requests max_budget token_limit request_limit =
     ((case amount of
         None \<Rightarrow> True
       | Some a \<Rightarrow> admits new_request (ha_amount (committed c)) a max_budget) \<and>
      admits new_request (ha_tokens (committed c)) tokens token_limit \<and>
      admits new_request (ha_requests (committed c)) requests request_limit)"

definition hold_of :: "int option \<Rightarrow> int \<Rightarrow> int \<Rightarrow> HeldAmounts" where
  "hold_of amount tokens requests =
     HeldAmounts (case amount of None \<Rightarrow> 0 | Some a \<Rightarrow> a) tokens requests"

text \<open>The caps are kept: after an admitted hold no capped axis it held on is past its cap.\<close>

definition within_caps :: "counters \<Rightarrow> int option \<Rightarrow> int option \<Rightarrow> int option \<Rightarrow> bool" where
  "within_caps c max_budget token_limit request_limit \<longleftrightarrow>
     (\<forall>m. max_budget = Some m \<longrightarrow> ha_amount (committed c) \<le> m) \<and>
     (\<forall>m. token_limit = Some m \<longrightarrow> ha_tokens (committed c) \<le> m) \<and>
     (\<forall>m. request_limit = Some m \<longrightarrow> ha_requests (committed c) \<le> m)"

lemma committed_hold [simp]: "committed (hold_counters a c) = committed c + a"
  by (simp add: committed_def hold_counters_def add.assoc)

lemma admitted_within_caps:
  "admits_all new_request c amount tokens requests mb tlim rlim \<Longrightarrow>
     within_caps (hold_counters (hold_of amount tokens requests) c)
       (if amount = None then None else mb) tlim rlim"
  by (auto simp: admits_all_def admits_def within_caps_def hold_of_def split: option.splits)

end
