(* ===== verification/Budget_Store.thy ===== *)
theory Budget_Store
  imports Budget_Rows
begin

text \<open>
  The queries of \<open>repositories/budgets/scoped_budget_repository.py\<close> and
  \<open>repositories/budgets/reservation_repository.py\<close> over the tables of \<open>Budget_Rows\<close>.

  A statement is a function on the tables; its \<open>WHERE\<close> is the predicate of \<open>update_where\<close> and
  its row count decides the Boolean it answers. \<open>now\<close> is the moment of the statement: every
  \<open>UPDATE\<close> of a user or a ceiling sets \<open>updated_at\<close> to it (\<open>onupdate\<close>), and \<open>datetime.now\<close>
  reads it. A generated id is an argument. A query with no \<open>ORDER BY\<close> answers in table order.
  \<open>FOR UPDATE\<close> locks change no data; a locking read is the read it makes.
\<close>

section \<open>Predicates\<close>

record ScopeIdSets =
  si_organization_ids :: "string list"
  si_workspace_ids :: "string list"
  si_organization_member_ids :: "string list"
  si_workspace_member_ids :: "string list"
  si_api_key_ids :: "string list"

definition in_scopes :: "ScopeIdSets \<Rightarrow> ScopedBudget \<Rightarrow> bool" where
  "in_scopes scopes r \<longleftrightarrow>
     s_scope_type r = SCOPE_ORGANIZATION \<and> s_scope_id r \<in> set (si_organization_ids scopes) \<or>
     s_scope_type r = SCOPE_WORKSPACE \<and> s_scope_id r \<in> set (si_workspace_ids scopes) \<or>
     s_scope_type r = SCOPE_ORG_MEMBER \<and> s_scope_id r \<in> set (si_organization_member_ids scopes) \<or>
     s_scope_type r = SCOPE_WORKSPACE_MEMBER \<and> s_scope_id r \<in> set (si_workspace_member_ids scopes) \<or>
     s_scope_type r = SCOPE_API_TOKEN \<and> s_scope_id r \<in> set (si_api_key_ids scopes)"

definition for_provider :: "string option \<Rightarrow> ScopedBudget \<Rightarrow> bool" where
  "for_provider provider_key_id r \<longleftrightarrow> s_provider_key_id r = provider_key_id"

definition scope_match :: "string \<Rightarrow> string \<Rightarrow> string option \<Rightarrow> ScopedBudget \<Rightarrow> bool" where
  "scope_match scope_type scope_id provider_key_id r \<longleftrightarrow>
     s_scope_type r = scope_type \<and> s_scope_id r = scope_id \<and> for_provider provider_key_id r"

definition budget_of :: "db \<Rightarrow> ScopedBudget \<Rightarrow> Budget option" where
  "budget_of d r = find (\<lambda>b. b_budget_id b = s_budget_id r) (d_budgets d)"

text \<open>A column of the budget a ceiling names, as the correlated subquery reads it.\<close>

definition cap_of :: "db \<Rightarrow> (Budget \<Rightarrow> int option) \<Rightarrow> ScopedBudget \<Rightarrow> int option" where
  "cap_of d column r = (case budget_of d r of None \<Rightarrow> None | Some b \<Rightarrow> column b)"

section \<open>Ceilings as the services read them\<close>

record ApplicableCeiling =
  ac_id :: string
  ac_scope_type :: string
  ac_provider_key_id :: "string option"
  ac_duration_sec :: "int option"
  ac_reset_alignment :: "string option"
  ac_period_end :: "instant option"
  ac_token_limit :: "int option"
  ac_request_limit :: "int option"
  ac_max_budget :: "int option"
  ac_current_spend :: int
  ac_reserved_spend :: int

record CeilingUsage =
  cg_max_budget :: "int option"
  cg_token_limit :: "int option"
  cg_request_limit :: "int option"
  cg_counters :: counters
  cg_period_end :: "instant option"

record LimitUsage =
  lu_scope :: string
  lu_provider_key_id :: "string option"
  lu_duration_sec :: "int option"
  lu_reset_alignment :: "string option"
  lu_usage :: CeilingUsage

definition usage_row :: "ScopedBudget \<Rightarrow> Budget \<Rightarrow> CeilingUsage" where
  "usage_row r b =
     \<lparr>cg_max_budget = b_max_budget b, cg_token_limit = b_token_limit b,
      cg_request_limit = b_request_limit b, cg_counters = s_counters r,
      cg_period_end = s_period_end r\<rparr>"

text \<open>The inner join of ceilings with the budget each names.\<close>

definition joined :: "db \<Rightarrow> (ScopedBudget \<times> Budget) list" where
  "joined d =
     List.map_filter (\<lambda>r. map_option (\<lambda>b. (r, b)) (budget_of d r)) (d_scoped d)"

definition for_scope ::
  "db \<Rightarrow> string \<Rightarrow> string \<Rightarrow> string option \<Rightarrow> (ScopedBudget \<times> Budget) option" where
  "for_scope d scope_type scope_id provider =
     find (\<lambda>(r, b). scope_match scope_type scope_id provider r) (joined d)"

definition get_usage :: "db \<Rightarrow> string \<Rightarrow> CeilingUsage option" where
  "get_usage d scoped_budget_id =
     map_option (\<lambda>(r, b). usage_row r b) (find (\<lambda>(r, b). s_id r = scoped_budget_id) (joined d))"

definition ceiling_exists :: "db \<Rightarrow> (ScopedBudget \<Rightarrow> bool) \<Rightarrow> bool" where
  "ceiling_exists d p \<longleftrightarrow> 0 < rowcount p (d_scoped d)"

definition has_ceiling :: "db \<Rightarrow> string \<Rightarrow> string \<Rightarrow> string option \<Rightarrow> bool" where
  "has_ceiling d scope_type scope_id provider =
     ceiling_exists d (scope_match scope_type scope_id provider)"

definition count_for_budget :: "db \<Rightarrow> string \<Rightarrow> nat" where
  "count_for_budget d budget_id = rowcount (\<lambda>r. s_budget_id r = budget_id) (d_scoped d)"

definition count_in_scopes :: "db \<Rightarrow> ScopeIdSets \<Rightarrow> nat" where
  "count_in_scopes d scopes = rowcount (in_scopes scopes) (d_scoped d)"

definition list_applicable :: "db \<Rightarrow> ScopeIdSets \<Rightarrow> ApplicableCeiling list" where
  "list_applicable d scopes =
     map (\<lambda>(r, b).
       \<lparr>ac_id = s_id r, ac_scope_type = s_scope_type r, ac_provider_key_id = s_provider_key_id r,
        ac_duration_sec = b_duration_sec b, ac_reset_alignment = b_reset_alignment b,
        ac_period_end = s_period_end r, ac_token_limit = b_token_limit b,
        ac_request_limit = b_request_limit b, ac_max_budget = b_max_budget b,
        ac_current_spend = ha_amount (c_used (s_counters r)),
        ac_reserved_spend = ha_amount (c_held (s_counters r))\<rparr>)
       (filter (\<lambda>(r, b). in_scopes scopes r) (joined d))"

definition usage_in_scopes :: "db \<Rightarrow> ScopeIdSets \<Rightarrow> LimitUsage list" where
  "usage_in_scopes d scopes =
     map (\<lambda>(r, b).
       \<lparr>lu_scope = s_scope_type r, lu_provider_key_id = s_provider_key_id r,
        lu_duration_sec = b_duration_sec b, lu_reset_alignment = b_reset_alignment b,
        lu_usage = usage_row r b\<rparr>)
       (filter (\<lambda>(r, b). in_scopes scopes r) (joined d))"

text \<open>\<open>None\<close> for a filter that is not given; the page is ordered by creation, then id.\<close>

definition list_in_scopes ::
  "db \<Rightarrow> ScopeIdSets \<Rightarrow> nat \<Rightarrow> nat \<Rightarrow> string option \<Rightarrow> string option \<Rightarrow>
     (ScopedBudget \<times> Budget) list" where
  "list_in_scopes d scopes skip limit scope_type scope_id =
     take limit (drop skip (sort_key (\<lambda>(r, b). (s_created_at r, s_id r))
       (filter (\<lambda>(r, b). in_scopes scopes r \<and>
            (case scope_type of None \<Rightarrow> True | Some t \<Rightarrow> s_scope_type r = t) \<and>
            (case scope_id of None \<Rightarrow> True | Some i \<Rightarrow> s_scope_id r = i))
          (joined d))))"

definition quiet_since :: "instant \<Rightarrow> instant option \<Rightarrow> bool" where
  "quiet_since cutoff updated_at =
     (case updated_at of None \<Rightarrow> True | Some t \<Rightarrow> t < cutoff)"

definition holds_something :: "counters \<Rightarrow> bool" where
  "holds_something c \<longleftrightarrow>
     ha_amount (c_held c) > 0 \<or> ha_tokens (c_held c) > 0 \<or> ha_requests (c_held c) > 0"

definition list_quiet_held :: "db \<Rightarrow> instant \<Rightarrow> nat \<Rightarrow> string list" where
  "list_quiet_held d quiet_before limit =
     take limit (map s_id (filter
       (\<lambda>r. holds_something (s_counters r) \<and> quiet_since quiet_before (s_updated_at r))
       (d_scoped d)))"

definition lock_quiet_holds :: "db \<Rightarrow> string \<Rightarrow> instant \<Rightarrow> HeldAmounts option" where
  "lock_quiet_holds d scoped_budget_id quiet_before =
     map_option (\<lambda>r. c_held (s_counters r))
       (find (\<lambda>r. s_id r = scoped_budget_id \<and> quiet_since quiet_before (s_updated_at r))
          (d_scoped d))"

definition get_in_scopes :: "db \<Rightarrow> string \<Rightarrow> ScopeIdSets \<Rightarrow> ScopedBudget option" where
  "get_in_scopes d scoped_budget_id scopes =
     find (\<lambda>r. s_id r = scoped_budget_id \<and> in_scopes scopes r) (d_scoped d)"

definition scope_ceiling :: "db \<Rightarrow> string \<Rightarrow> string \<Rightarrow> ScopedBudget option" where
  "scope_ceiling d scope_type scope_id = find (scope_match scope_type scope_id None) (d_scoped d)"

definition member_ceiling :: "db \<Rightarrow> string \<Rightarrow> string option \<Rightarrow> ScopedBudget option" where
  "member_ceiling d member_id provider =
     find (scope_match SCOPE_WORKSPACE_MEMBER member_id provider) (d_scoped d)"

definition members_with_ceiling :: "db \<Rightarrow> string list \<Rightarrow> string option \<Rightarrow> string list" where
  "members_with_ceiling d member_ids provider =
     remdups (map s_scope_id (filter
       (\<lambda>r. s_scope_type r = SCOPE_WORKSPACE_MEMBER \<and> s_scope_id r \<in> set member_ids \<and>
          for_provider provider r) (d_scoped d)))"

section \<open>Writing ceilings\<close>

datatype store_error = SpendCeilingAlreadyExists string string | IntegrityError

text \<open>
  An insert is refused by a unique index on the scope and provider, by the primary key, or by
  the foreign key on the budget.
\<close>

definition insertable :: "db \<Rightarrow> ScopedBudget \<Rightarrow> bool" where
  "insertable d c \<longleftrightarrow>
     \<not> ceiling_exists d (scope_match (s_scope_type c) (s_scope_id c) (s_provider_key_id c)) \<and>
     \<not> ceiling_exists d (\<lambda>r. s_id r = s_id c) \<and> budget_of d c \<noteq> None"

definition insert_ceiling :: "ScopedBudget \<Rightarrow> db \<Rightarrow> db" where
  "insert_ceiling c d = d\<lparr>d_scoped := d_scoped d @ [c]\<rparr>"

definition add_ceiling :: "ScopedBudget \<Rightarrow> db \<Rightarrow> store_error + db" where
  "add_ceiling c d =
     (if insertable d c then Inr (insert_ceiling c d)
      else Inl (SpendCeilingAlreadyExists (s_scope_type c) (s_scope_id c)))"

definition add_scope_ceiling_if_absent :: "ScopedBudget \<Rightarrow> db \<Rightarrow> db \<times> bool" where
  "add_scope_ceiling_if_absent c d =
     (if insertable d c then (insert_ceiling c d, True) else (d, False))"

text \<open>All at once in one savepoint, or \<open>None\<close> when any of them is refused.\<close>

fun insert_all :: "ScopedBudget list \<Rightarrow> db \<Rightarrow> db option" where
  "insert_all [] d = Some d"
| "insert_all (c # cs) d = (if insertable d c then insert_all cs (insert_ceiling c d) else None)"

text \<open>One savepoint each: a refusal that is a ceiling already in place is skipped.\<close>

fun insert_each ::
  "ScopedBudget list \<Rightarrow> db \<Rightarrow> store_error + (db \<times> ScopedBudget list)" where
  "insert_each [] d = Inr (d, [])"
| "insert_each (c # cs) d =
     (if insertable d c then
        bind_result (insert_each cs (insert_ceiling c d)) (\<lambda>(d', staged). Inr (d', c # staged))
      else if ceiling_exists d (scope_match (s_scope_type c) (s_scope_id c) (s_provider_key_id c))
      then insert_each cs d
      else Inl IntegrityError)"

definition insert_member_ceilings ::
  "ScopedBudget list \<Rightarrow> db \<Rightarrow> store_error + (db \<times> ScopedBudget list)" where
  "insert_member_ceilings ceilings d =
     (if ceilings = [] then Inr (d, [])
      else case insert_all ceilings d of
        Some d' \<Rightarrow> Inr (d', ceilings)
      | None \<Rightarrow> insert_each ceilings d)"

definition delete_for_member :: "string \<Rightarrow> db \<Rightarrow> db" where
  "delete_for_member member_id d =
     d\<lparr>d_scoped := filter (\<lambda>r. \<not> (s_scope_type r = SCOPE_WORKSPACE_MEMBER \<and>
        s_scope_id r = member_id)) (d_scoped d)\<rparr>"

definition delete_for_workspace :: "string \<Rightarrow> string list \<Rightarrow> db \<Rightarrow> db" where
  "delete_for_workspace workspace_id member_ids d =
     d\<lparr>d_scoped := filter (\<lambda>r. \<not> (s_scope_type r = SCOPE_WORKSPACE \<and> s_scope_id r = workspace_id \<or>
        s_scope_type r = SCOPE_WORKSPACE_MEMBER \<and> s_scope_id r \<in> set member_ids)) (d_scoped d)\<rparr>"

definition remove_ceiling :: "string \<Rightarrow> db \<Rightarrow> db" where
  "remove_ceiling scoped_budget_id d =
     d\<lparr>d_scoped := filter (\<lambda>r. s_id r \<noteq> scoped_budget_id) (d_scoped d)\<rparr>"

text \<open>An \<open>UPDATE scoped_budgets\<close> of the counters.\<close>

definition touch_counters :: "instant \<Rightarrow> (counters \<Rightarrow> counters) \<Rightarrow> ScopedBudget \<Rightarrow> ScopedBudget" where
  "touch_counters now f r = r\<lparr>s_counters := f (s_counters r), s_updated_at := Some now\<rparr>"

definition update_scoped ::
  "(ScopedBudget \<Rightarrow> bool) \<Rightarrow> (ScopedBudget \<Rightarrow> ScopedBudget) \<Rightarrow> db \<Rightarrow> db" where
  "update_scoped p f d = d\<lparr>d_scoped := update_where p f (d_scoped d)\<rparr>"

definition hold_gate ::
  "db \<Rightarrow> string \<Rightarrow> int option \<Rightarrow> int \<Rightarrow> int \<Rightarrow> bool \<Rightarrow> ScopedBudget \<Rightarrow> bool" where
  "hold_gate d scoped_budget_id amount tokens requests new_request r \<longleftrightarrow>
     s_id r = scoped_budget_id \<and>
     admits_all new_request (s_counters r) amount tokens requests
       (cap_of d b_max_budget r) (cap_of d b_token_limit r) (cap_of d b_request_limit r)"

definition hold ::
  "instant \<Rightarrow> string \<Rightarrow> int option \<Rightarrow> int \<Rightarrow> int \<Rightarrow> bool \<Rightarrow> db \<Rightarrow> db \<times> bool" where
  "hold now scoped_budget_id amount tokens requests new_request d =
     (let p = hold_gate d scoped_budget_id amount tokens requests new_request in
      (update_scoped p (touch_counters now (hold_counters (hold_of amount tokens requests))) d,
       0 < rowcount p (d_scoped d)))"

text \<open>\<open>_update_counters\<close>: no statement is issued when there is no row or no column to write.\<close>

definition some_positive :: "HeldAmounts \<Rightarrow> bool" where
  "some_positive a \<longleftrightarrow> ha_amount a > 0 \<or> ha_tokens a > 0 \<or> ha_requests a > 0"

definition update_counters ::
  "instant \<Rightarrow> string list \<Rightarrow> bool \<Rightarrow> (counters \<Rightarrow> counters) \<Rightarrow> db \<Rightarrow> db" where
  "update_counters now ids some_value f d =
     (if ids = [] \<or> \<not> some_value then d
      else update_scoped (\<lambda>r. s_id r \<in> set ids) (touch_counters now f) d)"

definition release_holds :: "instant \<Rightarrow> string list \<Rightarrow> HeldAmounts \<Rightarrow> db \<Rightarrow> db" where
  "release_holds now ids amount d =
     update_counters now ids (some_positive amount) (release_counters amount) d"

definition settle_ceilings ::
  "instant \<Rightarrow> string list \<Rightarrow> HeldAmounts \<Rightarrow> HeldAmounts \<Rightarrow> db \<Rightarrow> db" where
  "settle_ceilings now ids used held d =
     update_counters now ids (some_positive used \<or> some_positive held) (settle_counters used held) d"

text \<open>\<open>clamp_holds\<close>: \<open>None\<close> is an axis the given values leave alone.\<close>

definition clamp_axis :: "int option \<Rightarrow> int \<Rightarrow> int" where
  "clamp_axis v c = (case v of None \<Rightarrow> c | Some x \<Rightarrow> x)"

definition set_holds :: "int option \<times> int option \<times> int option \<Rightarrow> counters \<Rightarrow> counters" where
  "set_holds v c =
     (case v of (a, t, q) \<Rightarrow>
        c\<lparr>c_held := HeldAmounts (clamp_axis a (ha_amount (c_held c)))
             (clamp_axis t (ha_tokens (c_held c))) (clamp_axis q (ha_requests (c_held c)))\<rparr>)"

definition clamp_holds ::
  "instant \<Rightarrow> string \<Rightarrow> int option \<times> int option \<times> int option \<Rightarrow> db \<Rightarrow> db" where
  "clamp_holds now scoped_budget_id values d =
     update_counters now [scoped_budget_id] (values \<noteq> (None, None, None)) (set_holds values) d"

definition roll_period ::
  "instant \<Rightarrow> string \<Rightarrow> instant \<Rightarrow> instant option \<Rightarrow> db \<Rightarrow> db" where
  "roll_period now scoped_budget_id period_start period_end d =
     update_scoped
       (\<lambda>r. s_id r = scoped_budget_id \<and>
          (case s_period_end r of None \<Rightarrow> False | Some e \<Rightarrow> e \<le> now))
       (\<lambda>r. (touch_counters now reset_counters r)
          \<lparr>s_period_start := Some period_start, s_period_end := period_end\<rparr>) d"

definition retime_for_budget ::
  "instant \<Rightarrow> string \<Rightarrow> instant option \<Rightarrow> instant option \<Rightarrow> db \<Rightarrow> db" where
  "retime_for_budget now budget_id period_start period_end d =
     update_scoped (\<lambda>r. s_budget_id r = budget_id)
       (\<lambda>r. r\<lparr>s_period_start := period_start, s_period_end := period_end,
          s_updated_at := Some now\<rparr>) d"

section \<open>The reservation ledger's rows\<close>

record ReservationLine =
  rline_scoped_budget_id :: string
  rline_held :: HeldAmounts

definition TERMINAL_STATUSES :: "ReservationStatus list" where
  "TERMINAL_STATUSES = [RESERVATION_SETTLED, RESERVATION_RELEASED, RESERVATION_EXPIRED]"

definition reservation_exists :: "db \<Rightarrow> string \<Rightarrow> bool" where
  "reservation_exists d i \<longleftrightarrow> 0 < rowcount (\<lambda>r. rv_id r = i) (d_reservations d)"

definition new_line :: "string \<Rightarrow> HeldAmounts \<Rightarrow> string \<Rightarrow> BudgetReservationScope" where
  "new_line reservation_id held scoped_budget_id =
     \<lparr>ln_reservation_id = reservation_id, ln_scoped_budget_id = scoped_budget_id, ln_held = held\<rparr>"

definition add_reservation ::
  "string \<Rightarrow> string \<Rightarrow> bool \<Rightarrow> HeldAmounts \<Rightarrow> HeldAmounts \<Rightarrow> string list \<Rightarrow> instant \<Rightarrow> db \<Rightarrow> db" where
  "add_reservation reservation_id user_id user_reserved user_held ceiling_held ids expires_at d =
     d\<lparr>d_reservations := d_reservations d @
         [\<lparr>rv_id = reservation_id, rv_user_id = user_id, rv_held = user_held,
           rv_user_reserved = user_reserved, rv_status = RESERVATION_ACTIVE,
           rv_expires_at = expires_at\<rparr>],
       d_lines := d_lines d @ map (new_line reservation_id ceiling_held) ids\<rparr>"

definition released_row :: "string \<Rightarrow> string \<Rightarrow> instant \<Rightarrow> BudgetReservation" where
  "released_row reservation_id user_id now =
     \<lparr>rv_id = reservation_id, rv_user_id = user_id, rv_held = 0, rv_user_reserved = False,
      rv_status = RESERVATION_RELEASED, rv_expires_at = now\<rparr>"

definition add_released :: "instant \<Rightarrow> string \<Rightarrow> string \<Rightarrow> db \<Rightarrow> store_error + db" where
  "add_released now reservation_id user_id d =
     (if reservation_exists d reservation_id then Inl IntegrityError
      else Inr (d\<lparr>d_reservations := d_reservations d @ [released_row reservation_id user_id now]\<rparr>))"

definition add_released_unless_exists :: "instant \<Rightarrow> string \<Rightarrow> string \<Rightarrow> db \<Rightarrow> db \<times> bool" where
  "add_released_unless_exists now reservation_id user_id d =
     (case add_released now reservation_id user_id d of
        Inl _ \<Rightarrow> (d, False) | Inr d' \<Rightarrow> (d', True))"

text \<open>The lines cascade with their row.\<close>

definition delete_by_ids :: "string list \<Rightarrow> db \<Rightarrow> db" where
  "delete_by_ids ids d =
     d\<lparr>d_reservations := filter (\<lambda>r. \<not> rv_id r \<in> set ids) (d_reservations d),
       d_lines := filter (\<lambda>l. \<not> ln_reservation_id l \<in> set ids) (d_lines d)\<rparr>"

definition active :: "BudgetReservation \<Rightarrow> bool" where
  "active r \<longleftrightarrow> rv_status r = RESERVATION_ACTIVE"

definition grow_row ::
  "string \<Rightarrow> int \<Rightarrow> bool \<Rightarrow> int \<Rightarrow> int \<Rightarrow> int \<Rightarrow> db \<Rightarrow> db \<times> bool" where
  "grow_row reservation_id user_delta user_grew scoped_delta token_delta scoped_token_delta d =
     (let p = \<lambda>r. rv_id r = reservation_id \<and> active r in
      if rowcount p (d_reservations d) = 0 then (d, False)
      else
        (let d' = d\<lparr>d_reservations := update_where p
               (\<lambda>r. r\<lparr>rv_held := rv_held r + HeldAmounts user_delta token_delta 0,
                      rv_user_reserved := rv_user_reserved r \<or> user_grew\<rparr>)
               (d_reservations d)\<rparr> in
         (if scoped_delta > 0 \<or> scoped_token_delta > 0
          then d'\<lparr>d_lines := update_where (\<lambda>l. ln_reservation_id l = reservation_id)
                 (\<lambda>l. l\<lparr>ln_held := ln_held l + HeldAmounts scoped_delta scoped_token_delta 0\<rparr>)
                 (d_lines d')\<rparr>
          else d', True)))"

definition active_user_held :: "db \<Rightarrow> string \<Rightarrow> HeldAmounts" where
  "active_user_held d user_id =
     table_sum (\<lambda>r. rv_user_id r = user_id \<and> active r \<and> rv_user_reserved r) rv_held
       (d_reservations d)"

definition line_active :: "db \<Rightarrow> BudgetReservationScope \<Rightarrow> bool" where
  "line_active d l \<longleftrightarrow>
     (\<exists>r \<in> set (d_reservations d). rv_id r = ln_reservation_id l \<and> active r)"

definition active_ceiling_held :: "db \<Rightarrow> string \<Rightarrow> HeldAmounts" where
  "active_ceiling_held d scoped_budget_id =
     table_sum (\<lambda>l. ln_scoped_budget_id l = scoped_budget_id \<and> line_active d l) ln_held (d_lines d)"

definition list_expired :: "db \<Rightarrow> instant \<Rightarrow> nat \<Rightarrow> string option \<Rightarrow> BudgetReservation list" where
  "list_expired d now limit user_id =
     take limit (sort_key rv_expires_at (filter
       (\<lambda>r. active r \<and> rv_expires_at r < now \<and>
          (case user_id of None \<Rightarrow> True | Some u \<Rightarrow> rv_user_id r = u)) (d_reservations d)))"

definition list_lines :: "db \<Rightarrow> string \<Rightarrow> ReservationLine list" where
  "list_lines d reservation_id =
     map (\<lambda>l. \<lparr>rline_scoped_budget_id = ln_scoped_budget_id l, rline_held = ln_held l\<rparr>)
       (filter (\<lambda>l. ln_reservation_id l = reservation_id) (d_lines d))"

definition list_terminal_ids :: "db \<Rightarrow> instant \<Rightarrow> nat \<Rightarrow> string list" where
  "list_terminal_ids d expired_before limit =
     take limit (map rv_id (filter
       (\<lambda>r. rv_status r \<in> set TERMINAL_STATUSES \<and> rv_expires_at r < expired_before)
       (d_reservations d)))"

definition lock_active :: "db \<Rightarrow> string \<Rightarrow> bool" where
  "lock_active d reservation_id \<longleftrightarrow>
     find (\<lambda>r. rv_id r = reservation_id \<and> active r) (d_reservations d) \<noteq> None"

definition move_lines ::
  "string \<Rightarrow> string list \<Rightarrow> string list \<Rightarrow> HeldAmounts \<Rightarrow> db \<Rightarrow> db" where
  "move_lines reservation_id dropped added held d =
     (let kept = filter (\<lambda>l. \<not> (ln_reservation_id l = reservation_id \<and>
            ln_scoped_budget_id l \<in> set dropped)) (d_lines d) in
      d\<lparr>d_lines := update_where (\<lambda>l. ln_reservation_id l = reservation_id)
            (\<lambda>l. l\<lparr>ln_held := held\<rparr>) kept
          @ map (new_line reservation_id held) added\<rparr>)"

definition transition ::
  "string \<Rightarrow> ReservationStatus \<Rightarrow> ReservationStatus \<Rightarrow> db \<Rightarrow> db \<times> bool" where
  "transition reservation_id current_status new_status d =
     (let p = \<lambda>r. rv_id r = reservation_id \<and> rv_status r = current_status in
      (d\<lparr>d_reservations := update_where p (\<lambda>r. r\<lparr>rv_status := new_status\<rparr>) (d_reservations d)\<rparr>,
       0 < rowcount p (d_reservations d)))"

definition try_terminate_row :: "string \<Rightarrow> ReservationStatus \<Rightarrow> db \<Rightarrow> db \<times> bool" where
  "try_terminate_row reservation_id status d =
     transition reservation_id RESERVATION_ACTIVE status d"

definition try_settle_reclaimed_row :: "string \<Rightarrow> db \<Rightarrow> db \<times> bool" where
  "try_settle_reclaimed_row reservation_id d =
     transition reservation_id RESERVATION_EXPIRED RESERVATION_SETTLED d"

end
