(* ===== verification/Db_Session.thy ===== *)
theory Db_Session
  imports Budget_Store
begin

text \<open>
  The database session the budget services run on, with its failures. A session has the durable
  tables and a script of what its next interactions with the database do: succeed, fail with
  nothing done, or (for a commit) land and still report failure, as a lost connection does.
  An exhausted script succeeds, so the empty script is the database that works.

  A transaction is computed on a copy of the durable tables and made durable by its commit; a
  failed statement or a rollback drops the copy. \<open>DATABASE_ERRORS\<close> of \<open>core/database.py\<close> are
  the one error \<open>DatabaseError\<close>. Reads are taken to succeed.
\<close>

datatype outcome = Succeeds | Fails | FailsLanded

datatype database_error = DatabaseError

record session =
  ss_db :: db
  ss_script :: "outcome list"

definition next_outcome :: "session \<Rightarrow> outcome \<times> session" where
  "next_outcome s =
     (case ss_script s of
        [] \<Rightarrow> (Succeeds, s)
      | o' # os \<Rightarrow> (o', s\<lparr>ss_script := os\<rparr>))"

text \<open>A statement, a flush or a rollback: whether it succeeded.\<close>

definition statement :: "session \<Rightarrow> bool \<times> session" where
  "statement s = (case next_outcome s of (x, s') \<Rightarrow> (x = Succeeds, s'))"

text \<open>A commit of the working tables \<open>w\<close>: whether it reported success.\<close>

definition commit_tx :: "db \<Rightarrow> session \<Rightarrow> bool \<times> session" where
  "commit_tx w s =
     (case next_outcome s of
        (Succeeds, s') \<Rightarrow> (True, s'\<lparr>ss_db := w\<rparr>)
      | (Fails, s') \<Rightarrow> (False, s')
      | (FailsLanded, s') \<Rightarrow> (False, s'\<lparr>ss_db := w\<rparr>))"

text \<open>One transaction whose errors propagate.\<close>

definition transact :: "(db \<Rightarrow> db) \<Rightarrow> session \<Rightarrow> session \<times> (database_error + unit)" where
  "transact f s =
     (case statement s of
        (False, s1) \<Rightarrow> (s1, Inl DatabaseError)
      | (True, s1) \<Rightarrow>
          (case commit_tx (f (ss_db s1)) s1 of
             (ok, s2) \<Rightarrow> (s2, if ok then Inr () else Inl DatabaseError)))"

definition works :: "session \<Rightarrow> bool" where
  "works s \<longleftrightarrow> ss_script s = []"

lemma working_session [simp]:
  "works s \<Longrightarrow> statement s = (True, s)"
  "works s \<Longrightarrow> commit_tx w s = (True, s\<lparr>ss_db := w\<rparr>)"
  "works s \<Longrightarrow> transact f s = (s\<lparr>ss_db := f (ss_db s)\<rparr>, Inr ())"
  "works s \<Longrightarrow> works (s\<lparr>ss_db := w\<rparr>)"
  by (simp_all add: works_def statement_def commit_tx_def transact_def next_outcome_def)

text \<open>The interactions of a script that will fail.\<close>

definition failures :: "session \<Rightarrow> nat" where
  "failures s = length (filter (\<lambda>x. x \<noteq> Succeeds) (ss_script s))"

lemma statement_failures:
  "statement s = (ok, s') \<Longrightarrow> failures s = failures s' + (if ok then 0 else 1)"
  by (auto simp: statement_def next_outcome_def failures_def split: list.splits)

lemma statement_script: "statement s = (ok, s') \<Longrightarrow> set (ss_script s') \<subseteq> set (ss_script s)"
  by (auto simp: statement_def next_outcome_def split: list.splits)

lemma commit_failures:
  "commit_tx w s = (ok, s') \<Longrightarrow> failures s = failures s' + (if ok then 0 else 1)"
  by (auto simp: commit_tx_def next_outcome_def failures_def split: list.splits outcome.splits)

lemma commit_script: "commit_tx w s = (ok, s') \<Longrightarrow> set (ss_script s') \<subseteq> set (ss_script s)"
  by (auto simp: commit_tx_def next_outcome_def split: list.splits outcome.splits)

lemma transact_failures:
  "transact f s = (s', r) \<Longrightarrow> failures s = failures s' + (if r = Inr () then 0 else 1)"
  unfolding transact_def
  by (auto split: prod.splits bool.splits if_splits dest!: statement_failures commit_failures)

lemma statement_db [simp]: "statement s = (ok, s') \<Longrightarrow> ss_db s' = ss_db s"
  by (auto simp: statement_def next_outcome_def split: list.splits)

lemma commit_db:
  "commit_tx w s = (ok, s') \<Longrightarrow> ss_db s' = w \<or> \<not> ok \<and> ss_db s' = ss_db s"
  by (auto simp: commit_tx_def next_outcome_def split: list.splits outcome.splits prod.splits)

lemma commit_cases:
  assumes "commit_tx w s = (ok, s')"
  obtains "ok" "ss_db s' = w"
  | "\<not> ok" "ss_db s' = w" "FailsLanded \<in> set (ss_script s)"
  | "\<not> ok" "ss_db s' = ss_db s"
  using assms by (auto simp: commit_tx_def next_outcome_def split: list.splits outcome.splits)

lemma transact_db:
  "transact f s = (s', r) \<Longrightarrow> ss_db s' = f (ss_db s) \<or> ss_db s' = ss_db s \<and> r = Inl DatabaseError"
  unfolding transact_def
  by (auto split: prod.splits bool.splits if_splits dest: statement_db commit_db)

end
