(* ===== verification/Refusals.thy ===== *)
theory Refusals
  imports Prelude Periods
begin

text \<open>
  \<open>services/budgets/_refusals.py\<close>: what a budget refusal says. Amounts are exact decimals
  (\<open>rat\<close>, in dollars, tokens or requests). Shown here: the two amounts a refusal prints can be
  read back and never print as equal when the estimate exceeds what is left.
\<close>

section \<open>The blocked axis\<close>

record BlockedAxis =
  ba_name :: string
  ba_remaining :: "rat option"
  ba_held :: "rat option"
  ba_exceeds_cap :: bool
  ba_resets_at :: "instant option"

definition blocked_axis_default :: "string \<Rightarrow> BlockedAxis" where
  "blocked_axis_default name =
     \<lparr>ba_name = name, ba_remaining = None, ba_held = None, ba_exceeds_cap = False,
      ba_resets_at = None\<rparr>"

definition retry_after :: "BlockedAxis \<Rightarrow> instant \<Rightarrow> int option" where
  "retry_after b now =
     (case ba_resets_at b of
        None \<Rightarrow> None
      | Some resets \<Rightarrow> (if ba_exceeds_cap b then None else Some (seconds_until resets now)))"

definition blocked_on :: "string \<Rightarrow> rat \<Rightarrow> rat \<Rightarrow> rat \<Rightarrow> bool \<Rightarrow> BlockedAxis option" where
  "blocked_on name committed cap wanted new_request =
     (let exceeds = wanted > cap in
      if committed + wanted > cap then
        (if name = ''budget'' \<and> committed < cap then
           Some ((blocked_axis_default name)
             \<lparr>ba_remaining := Some (cap - committed), ba_held := Some wanted,
              ba_exceeds_cap := exceeds\<rparr>)
         else Some ((blocked_axis_default name)\<lparr>ba_exceeds_cap := exceeds\<rparr>))
      else if new_request \<and> committed \<ge> cap then
        Some ((blocked_axis_default name)\<lparr>ba_exceeds_cap := exceeds\<rparr>)
      else None)"

lemma blocked_on_None_iff:
  "blocked_on name committed cap wanted new_request = None \<longleftrightarrow>
     committed + wanted \<le> cap \<and> (new_request \<longrightarrow> committed < cap)"
  by (auto simp: blocked_on_def Let_def)

lemma blocked_on_name: "blocked_on name c cap w n = Some b \<Longrightarrow> ba_name b = name"
  by (auto simp: blocked_on_def Let_def blocked_axis_default_def split: if_splits)

lemma blocked_on_amounts:
  "blocked_on name c cap w n = Some b \<Longrightarrow> ba_remaining b = Some r \<Longrightarrow>
     ba_held b = Some w \<and> r = cap - c \<and> 0 < r \<and> r < w"
  by (auto simp: blocked_on_def Let_def blocked_axis_default_def split: if_splits)

section \<open>The text of an amount\<close>

datatype rounding = ROUND_CEILING | ROUND_FLOOR

definition to_micros :: "rounding \<Rightarrow> rat \<Rightarrow> int" where
  "to_micros r x = (case r of ROUND_CEILING \<Rightarrow> \<lceil>x * 1000000\<rceil> | ROUND_FLOOR \<Rightarrow> \<lfloor>x * 1000000\<rfloor>)"

text \<open>The six digits after the point, as the \<open>f\<close> format writes them.\<close>

definition fraction_digits :: "nat \<Rightarrow> string" where
  "fraction_digits f =
     (let ds = decimal_digits f in replicate (6 - length ds) (CHR ''0'') @ ds)"

definition micros_text :: "nat \<Rightarrow> string" where
  "micros_text n =
     ''$'' @ decimal_digits (n div 1000000) @ ''.''
     @ ljust_zeros 2 (rstrip_zeros (fraction_digits (n mod 1000000)))"

text \<open>
  \<open>_usd\<close>. A refusal prints only positive amounts; the sign is kept for the rest.
\<close>

definition usd_text :: "rat \<Rightarrow> rounding \<Rightarrow> string" where
  "usd_text amount r =
     (let m = to_micros r amount in
      if m < 0 then ''$-'' @ tl (micros_text (nat (- m))) else micros_text (nat m))"

definition refusal_detail ::
  "string \<Rightarrow> BlockedAxis \<Rightarrow> bool \<Rightarrow> int option \<Rightarrow> string" where
  "refusal_detail subject blocked new_request reserved_output_tokens =
     (case (ba_remaining blocked, ba_held blocked) of
        (Some left, Some held) \<Rightarrow>
          (let estimate = usd_text held ROUND_CEILING;
               remaining = usd_text left ROUND_FLOOR in
           if \<not> new_request then
             subject @ '' has '' @ remaining @ '' of budget remaining, less than the '' @ estimate
             @ '' this request'' @ [CHR 0x27] @ ''s estimated cost grew by''
           else
             subject @ '' has '' @ remaining @ '' of budget remaining, less than this request''
             @ [CHR 0x27] @ ''s estimated cost of '' @ estimate
             @ (case reserved_output_tokens of
                  None \<Rightarrow> []
                | Some t \<Rightarrow>
                    (if t > 0 then
                       ''. The estimate assumes '' @ show_int t
                       @ '' output tokens; a lower output token limit on the request may let it fit''
                     else [])))
      | _ \<Rightarrow> subject @ '' has exceeded '' @ ba_name blocked @ '' limit'')"

section \<open>The text can be read back\<close>

definition read_fraction :: "string \<Rightarrow> nat" where
  "read_fraction f = digits_value f * 10 ^ (6 - length f)"

definition read_amount :: "string \<Rightarrow> nat option" where
  "read_amount s =
     (case partition_at (CHR ''.'') (tl s) of
        None \<Rightarrow> None
      | Some (w, f) \<Rightarrow> Some (digits_value w * 1000000 + read_fraction f))"

lemma fraction_digits_props:
  assumes "f < 1000000"
  shows "length (fraction_digits f) = 6" "digits_value (fraction_digits f) = f"
proof -
  have "length (decimal_digits f) \<le> 6" using length_decimal_digits[of f 6] assms by simp
  then show "length (fraction_digits f) = 6" by (simp add: fraction_digits_def Let_def)
  show "digits_value (fraction_digits f) = f"
    by (simp add: fraction_digits_def Let_def digits_value_leading_zeros)
qed

lemma read_fraction_text:
  assumes "f < 1000000"
  shows "read_fraction (ljust_zeros 2 (rstrip_zeros (fraction_digits f))) = f"
proof -
  define s where "s = rstrip_zeros (fraction_digits f)"
  obtain k where k: "fraction_digits f = s @ replicate k (CHR ''0'')"
    using rstrip_zeros_split[of "fraction_digits f"] by (auto simp: s_def)
  have len: "length s + k = 6"
    using fraction_digits_props(1)[OF assms] k by (metis length_append length_replicate)
  have val: "digits_value s * 10 ^ k = f"
    using fraction_digits_props(2)[OF assms] k digits_value_zeros by metis
  define j where "j = 2 - length s"
  have "10 ^ (6 - (length s + j)) * (10::nat) ^ j = 10 ^ k"
  proof -
    have "6 - (length s + j) + j = k" using len by (auto simp: j_def)
    then show ?thesis by (metis power_add)
  qed
  then show ?thesis
    unfolding s_def[symmetric] ljust_zeros_def j_def[symmetric] read_fraction_def
    using val by (simp add: digits_value_zeros ac_simps)
qed

lemma partition_at_digits:
  "CHR ''.'' \<notin> set w \<Longrightarrow> partition_at (CHR ''.'') (w @ CHR ''.'' # f) = Some (w, f)"
  by (induction w) auto

lemma read_micros_text [simp]: "read_amount (micros_text n) = Some n"
proof -
  have "CHR ''.'' \<notin> set (decimal_digits (n div 1000000))"
    using decimal_digits_chars[of "CHR ''.''"] by auto
  then show ?thesis
    by (simp add: read_amount_def micros_text_def partition_at_digits read_fraction_text)
qed

lemma micros_text_inj: "micros_text m = micros_text n \<longleftrightarrow> m = n"
  by (metis option.inject read_micros_text)

lemma usd_text_pos:
  "0 \<le> x \<Longrightarrow> read_amount (usd_text x r) = Some (nat (to_micros r x)) \<and> 0 \<le> to_micros r x"
proof -
  assume x: "0 \<le> x"
  have "0 \<le> to_micros r x"
    using x by (cases r) (simp_all add: to_micros_def zero_le_ceiling order_less_le_trans[of "-1" 0])
  then show ?thesis by (simp add: usd_text_def Let_def)
qed

lemma floor_below_ceiling: "(x :: rat) < y \<Longrightarrow> \<lfloor>x\<rfloor> < \<lceil>y\<rceil>"
  by (meson floor_less_iff le_of_int_ceiling less_le_trans)

section \<open>Properties\<close>

text \<open>
  A refusal of a hold that did not fit prints two amounts that can be read back: what is
  left is never overstated, the estimate is never understated, and the estimate printed is
  strictly larger than the remainder printed, so the two texts differ.
\<close>

theorem refusal_amounts_ordered:
  assumes "blocked_on name committed cap wanted new_request = Some b"
    and "ba_remaining b = Some left" and "ba_held b = Some held"
  shows "\<exists>m k. read_amount (usd_text left ROUND_FLOOR) = Some m \<and>
    read_amount (usd_text held ROUND_CEILING) = Some k \<and>
    of_nat m \<le> left * 1000000 \<and> held * 1000000 \<le> of_nat k \<and> m < k \<and>
    usd_text left ROUND_FLOOR \<noteq> usd_text held ROUND_CEILING"
proof -
  have amounts: "0 < left" "left < held"
    using blocked_on_amounts[OF assms(1,2)] assms(3) by auto
  have l: "read_amount (usd_text left ROUND_FLOOR) = Some (nat (to_micros ROUND_FLOOR left))"
      "0 \<le> to_micros ROUND_FLOOR left"
    using usd_text_pos[of left ROUND_FLOOR] amounts by auto
  have h: "read_amount (usd_text held ROUND_CEILING) = Some (nat (to_micros ROUND_CEILING held))"
      "0 \<le> to_micros ROUND_CEILING held"
    using usd_text_pos[of held ROUND_CEILING] amounts by auto
  have lt: "to_micros ROUND_FLOOR left < to_micros ROUND_CEILING held"
    using amounts by (simp add: to_micros_def floor_below_ceiling)
  have "of_int (to_micros ROUND_FLOOR left) \<le> left * 1000000"
    "held * 1000000 \<le> of_int (to_micros ROUND_CEILING held)"
    by (simp_all add: to_micros_def)
  then have "of_nat (nat (to_micros ROUND_FLOOR left)) \<le> left * 1000000"
    "held * 1000000 \<le> of_nat (nat (to_micros ROUND_CEILING held))"
    using l(2) h(2) by simp_all
  moreover have "nat (to_micros ROUND_FLOOR left) < nat (to_micros ROUND_CEILING held)"
    using lt l(2) by simp
  ultimately show ?thesis using l(1) h(1) by (metis less_irrefl option.inject)
qed

theorem refusal_amounts_ordered_witness:
  "usd_text (1/2) ROUND_FLOOR \<noteq> usd_text (10000001/20000000) ROUND_CEILING"
proof -
  have "blocked_on ''budget'' (1/2) 1 (10000001/20000000) True =
      Some \<lparr>ba_name = ''budget'', ba_remaining = Some (1/2), ba_held = Some (10000001/20000000),
        ba_exceeds_cap = False, ba_resets_at = None\<rparr>"
    by code_simp
  from refusal_amounts_ordered[OF this, of "1/2" "10000001/20000000"] show ?thesis by auto
qed

text \<open>
  A \<open>Retry-After\<close> is given exactly when the refusing budget resets and the hold would fit
  a fresh window, is at least one second, waiting it out reaches the end of the window, and one
  second less would not.
\<close>

theorem retry_after_reaches_reset:
  "(retry_after b now = None \<longleftrightarrow> ba_resets_at b = None \<or> ba_exceeds_cap b) \<and>
   (\<forall>s resets. retry_after b now = Some s \<and> ba_resets_at b = Some resets \<longrightarrow>
      1 \<le> s \<and> resets \<le> now + s * 1000000 \<and>
      (now < resets \<longrightarrow> now + (s - 1) * 1000000 < resets))"
  using seconds_until_covers seconds_until_least
  by (auto simp: retry_after_def seconds_until_def split: option.splits)

theorem retry_after_reaches_reset_witness:
  "retry_after \<lparr>ba_name = ''token'', ba_remaining = None, ba_held = None, ba_exceeds_cap = False,
      ba_resets_at = Some 2500000\<rparr> 0 = Some 3 \<and> 2500000 \<le> (0 :: int) + 3 * 1000000"
  using retry_after_reaches_reset[of "\<lparr>ba_name = ''token'', ba_remaining = None, ba_held = None,
      ba_exceeds_cap = False, ba_resets_at = Some 2500000\<rparr>" 0]
  by (simp add: retry_after_def seconds_until_def)

end
