(* ===== verification/Scoped_Enforcement.thy ===== *)
theory Scoped_Enforcement
  imports Db_Session Refusals
begin

text \<open>
  \<open>services/budgets/_scoped_enforcement.py\<close>: which ceilings a request must pass, in which
  order, and the hold, release and settlement on all of them.
\<close>

section \<open>Which ceilings\<close>

definition SCOPE_PRECEDENCE :: "(string \<times> nat) list" where
  "SCOPE_PRECEDENCE =
     [(SCOPE_WORKSPACE_MEMBER, 0), (SCOPE_ORG_MEMBER, 1), (SCOPE_API_TOKEN, 2),
      (SCOPE_WORKSPACE, 3), (SCOPE_ORGANIZATION, 4)]"

definition SCOPE_SUBJECT :: "(string \<times> string) list" where
  "SCOPE_SUBJECT =
     [(SCOPE_ORGANIZATION, ''Organization''), (SCOPE_WORKSPACE, ''Workspace''),
      (SCOPE_WORKSPACE_MEMBER, ''Member''), (SCOPE_ORG_MEMBER, ''Member''),
      (SCOPE_API_TOKEN, ''API key'')]"

record ApplicableBudget =
  ab_budget_id :: string
  ab_scope_type :: string
  ab_provider_key_id :: "string option"
  ab_token_limit :: "int option"
  ab_request_limit :: "int option"

definition caps_counts :: "ApplicableBudget \<Rightarrow> bool" where
  "caps_counts b \<longleftrightarrow> ab_token_limit b \<noteq> None \<or> ab_request_limit b \<noteq> None"

definition subject :: "ApplicableBudget \<Rightarrow> string" where
  "subject b = (case map_of SCOPE_SUBJECT (ab_scope_type b) of None \<Rightarrow> ''Budget'' | Some s \<Rightarrow> s)"

definition to_applicable_budget :: "ApplicableCeiling \<Rightarrow> ApplicableBudget" where
  "to_applicable_budget c =
     \<lparr>ab_budget_id = ac_id c, ab_scope_type = ac_scope_type c,
      ab_provider_key_id = ac_provider_key_id c, ab_token_limit = ac_token_limit c,
      ab_request_limit = ac_request_limit c\<rparr>"

definition precedence :: "string \<Rightarrow> nat" where
  "precedence scope_type =
     (case map_of SCOPE_PRECEDENCE scope_type of
        None \<Rightarrow> length SCOPE_PRECEDENCE | Some n \<Rightarrow> n)"

definition reservation_key :: "ApplicableCeiling \<Rightarrow> nat \<times> nat \<times> string" where
  "reservation_key c =
     (precedence (ac_scope_type c), if ac_provider_key_id c \<noteq> None then 0 else 1, ac_id c)"

definition get_provider_ceilings ::
  "ApplicableCeiling list \<Rightarrow> string option \<Rightarrow> ApplicableCeiling list" where
  "get_provider_ceilings ceilings provider_instance =
     sort_key reservation_key
       (filter (\<lambda>c. ac_provider_key_id c = None \<or> ac_provider_key_id c = provider_instance) ceilings)"

section \<open>Windows that have ended\<close>

definition ended :: "datetime \<Rightarrow> ApplicableCeiling \<Rightarrow> bool" where
  "ended now c \<longleftrightarrow> period_has_ended (ac_period_end c) now"

fun roll_ended_windows :: "datetime \<Rightarrow> ApplicableCeiling list \<Rightarrow> db \<Rightarrow> db" where
  "roll_ended_windows now [] d = d"
| "roll_ended_windows now (c # cs) d =
     (if \<not> ended now c then roll_ended_windows now cs d
      else case period_window now (ac_duration_sec c) (ac_reset_alignment c) of
        Inl _ \<Rightarrow> roll_ended_windows now cs d
      | Inr w \<Rightarrow>
          (let (start, finish) =
             (case w of Some (s, e) \<Rightarrow> (s, Some e) | None \<Rightarrow> (timestamp now, None)) in
           roll_ended_windows now cs (roll_period (timestamp now) (ac_id c) start finish d)))"

definition roll_and_list_applicable ::
  "datetime \<Rightarrow> ApplicableCeiling list \<Rightarrow> session \<Rightarrow>
     session \<times> (database_error + ApplicableBudget list)" where
  "roll_and_list_applicable now ceilings s =
     (if \<exists>c \<in> set ceilings. ended now c then
        (case transact (roll_ended_windows now ceilings) s of
           (s1, Inl e) \<Rightarrow> (s1, Inl e)
         | (s1, Inr _) \<Rightarrow> (s1, Inr (map to_applicable_budget ceilings)))
      else (s, Inr (map to_applicable_budget ceilings)))"

section \<open>Holding, releasing and settling\<close>

definition release_db :: "instant \<Rightarrow> string list \<Rightarrow> HeldAmounts \<Rightarrow> db \<Rightarrow> db" where
  "release_db now ids amount d =
     (if ids = [] \<or> \<not> some_positive amount then d else release_holds now ids amount d)"

text \<open>\<open>release\<close> with its own commit.\<close>

definition release ::
  "instant \<Rightarrow> string list \<Rightarrow> HeldAmounts \<Rightarrow> session \<Rightarrow> session \<times> (database_error + unit)" where
  "release now ids amount s =
     (if ids = [] \<or> \<not> some_positive amount then (s, Inr ())
      else transact (release_holds now ids amount) s)"

text \<open>The best-effort rollback and release of an error path: its own errors are suppressed.\<close>

definition give_back :: "instant \<Rightarrow> string list \<Rightarrow> HeldAmounts \<Rightarrow> session \<Rightarrow> session" where
  "give_back now ids amount s =
     (case statement s of
        (False, s1) \<Rightarrow> s1
      | (True, s1) \<Rightarrow> fst (release now ids amount s1))"

fun reserve_from ::
  "instant \<Rightarrow> ApplicableBudget list \<Rightarrow> string list \<Rightarrow> int option \<Rightarrow> int \<Rightarrow> int \<Rightarrow> bool \<Rightarrow> session \<Rightarrow>
     session \<times> (database_error + ApplicableBudget option)" where
  "reserve_from now [] taken amount tokens requests new_request s = (s, Inr None)"
| "reserve_from now (b # bs) taken amount tokens requests new_request s =
     (let back = hold_of amount tokens requests in
      case statement s of
        (False, s1) \<Rightarrow> (give_back now taken back s1, Inl DatabaseError)
      | (True, s1) \<Rightarrow>
          (let (d', held) = hold now (ab_budget_id b) amount tokens requests new_request (ss_db s1) in
           case commit_tx d' s1 of
             (False, s2) \<Rightarrow> (give_back now taken back s2, Inl DatabaseError)
           | (True, s2) \<Rightarrow>
               (if \<not> held then
                  (case release now taken back s2 of
                     (s3, Inl e) \<Rightarrow> (s3, Inl e)
                   | (s3, Inr _) \<Rightarrow> (s3, Inr (Some b)))
                else reserve_from now bs (taken @ [ab_budget_id b]) amount tokens requests
                       new_request s2)))"

definition reserve ::
  "instant \<Rightarrow> ApplicableBudget list \<Rightarrow> int option \<Rightarrow> int \<Rightarrow> int \<Rightarrow> bool \<Rightarrow> session \<Rightarrow>
     session \<times> (database_error + ApplicableBudget option)" where
  "reserve now budgets amount tokens requests new_request s =
     reserve_from now budgets [] amount tokens requests new_request s"

definition settle_db ::
  "instant \<Rightarrow> string list \<Rightarrow> HeldAmounts \<Rightarrow> HeldAmounts \<Rightarrow> bool \<Rightarrow> db \<Rightarrow> db" where
  "settle_db now ids actual held counts_toward_budget d =
     (let used = (if counts_toward_budget then actual else 0) in
      if ids = [] \<or> \<not> (some_positive used \<or> some_positive held) then d
      else settle_ceilings now ids used held d)"

section \<open>Which axis refused\<close>

definition usd_decimal :: "int \<Rightarrow> rat" where
  "usd_decimal m = of_int m / 1000000"

text \<open>The capped axes in order: name, cap, committed, wanted.\<close>

definition usage_axes ::
  "counters \<Rightarrow> int option \<Rightarrow> int option \<Rightarrow> int option \<Rightarrow> int option \<Rightarrow> int \<Rightarrow> int \<Rightarrow>
     (string \<times> rat option \<times> rat \<times> rat) list" where
  "usage_axes c max_budget token_limit request_limit amount tokens requests =
     [(''budget'',
       (case amount of None \<Rightarrow> None | Some _ \<Rightarrow> map_option usd_decimal max_budget),
       usd_decimal (ha_amount (c_used c)) + usd_decimal (ha_amount (c_held c)),
       (case amount of None \<Rightarrow> 0 | Some a \<Rightarrow> usd_decimal a)),
      (''token'', map_option of_int token_limit,
       of_int (ha_tokens (c_used c)) + of_int (ha_tokens (c_held c)), of_int tokens),
      (''request'', map_option of_int request_limit,
       of_int (ha_requests (c_used c)) + of_int (ha_requests (c_held c)), of_int requests)]"

fun first_blocked ::
  "(string \<times> rat option \<times> rat \<times> rat) list \<Rightarrow> bool \<Rightarrow> BlockedAxis option" where
  "first_blocked [] new_request = None"
| "first_blocked ((name, cap, taken, wanted) # axes) new_request =
     (case cap of
        None \<Rightarrow> first_blocked axes new_request
      | Some c \<Rightarrow>
          (case blocked_on name taken c wanted new_request of
             None \<Rightarrow> first_blocked axes new_request
           | Some b \<Rightarrow> Some b))"

definition refused_axis ::
  "CeilingUsage option \<Rightarrow> int option \<Rightarrow> int \<Rightarrow> int \<Rightarrow> bool \<Rightarrow> BlockedAxis" where
  "refused_axis usage amount tokens requests new_request =
     (case usage of
        None \<Rightarrow> blocked_axis_default ''budget''
      | Some u \<Rightarrow>
          (case first_blocked
              (usage_axes (cg_counters u) (cg_max_budget u) (cg_token_limit u) (cg_request_limit u)
                 amount tokens requests) new_request of
             None \<Rightarrow> blocked_axis_default ''budget''
           | Some b \<Rightarrow> b\<lparr>ba_resets_at := cg_period_end u\<rparr>))"

definition blocked_axis ::
  "db \<Rightarrow> ApplicableBudget \<Rightarrow> int option \<Rightarrow> int \<Rightarrow> int \<Rightarrow> bool \<Rightarrow> BlockedAxis" where
  "blocked_axis d b amount tokens requests new_request =
     refused_axis (get_usage d (ab_budget_id b)) amount tokens requests new_request"

end
