(* ===== verification/Ledger.thy ===== *)
theory Ledger
  imports Scoped_Enforcement
begin

text \<open>
  \<open>services/budgets/_ledger.py\<close>: the reservation ledger, one row per hold in flight.

  A function on \<open>db\<close> is the body of one transaction or, for the sweeps, the run of transactions
  each of their iterations commits. \<open>now\<close> is \<open>datetime.now\<close> in microseconds.
\<close>

section \<open>The user's counters\<close>

definition touch_user :: "instant \<Rightarrow> (counters \<Rightarrow> counters) \<Rightarrow> User \<Rightarrow> User" where
  "touch_user now f u = u\<lparr>u_counters := f (u_counters u), u_updated_at := Some now\<rparr>"

definition live_user :: "string \<Rightarrow> User \<Rightarrow> bool" where
  "live_user user_id u \<longleftrightarrow> u_user_id u = user_id \<and> \<not> u_deleted u"

definition update_users :: "(User \<Rightarrow> bool) \<Rightarrow> (User \<Rightarrow> User) \<Rightarrow> db \<Rightarrow> db" where
  "update_users p f d = d\<lparr>d_users := update_where p f (d_users d)\<rparr>"

definition update_live_user :: "instant \<Rightarrow> string \<Rightarrow> (counters \<Rightarrow> counters) \<Rightarrow> db \<Rightarrow> db" where
  "update_live_user now user_id f d = update_users (live_user user_id) (touch_user now f) d"

section \<open>Recording and growing a hold\<close>

text \<open>\<open>record\<close>: the row's id, or \<open>None\<close> when the request holds nothing.\<close>

definition record_hold ::
  "instant \<Rightarrow> string \<Rightarrow> string \<Rightarrow> bool \<Rightarrow> HeldAmounts \<Rightarrow> ApplicableBudget list \<Rightarrow> HeldAmounts \<Rightarrow>
     int \<Rightarrow> db \<Rightarrow> db \<times> string option" where
  "record_hold now new_id user_id user_reserved user_held scoped ceiling_held ttl_seconds d =
     (if \<not> user_reserved \<and> scoped = [] then (d, None)
      else
        (add_reservation new_id user_id user_reserved
           (if user_reserved then user_held
            else HeldAmounts (ha_amount user_held) (ha_tokens user_held) 0)
           ceiling_held (map ab_budget_id scoped) (now + ttl_seconds * 1000000) d,
         Some new_id))"

text \<open>
  \<open>release_unrecorded\<close>: the answer, or an error that is not a duplicate. A duplicate row rolls
  the transaction back.
\<close>

definition release_unrecorded ::
  "instant \<Rightarrow> string \<Rightarrow> string \<Rightarrow> string list \<Rightarrow> HeldAmounts \<Rightarrow> session \<Rightarrow>
     session \<times> (database_error + bool)" where
  "release_unrecorded now reservation_id user_id ids held s =
     (case statement s of
        (False, s1) \<Rightarrow> (s1, Inl DatabaseError)
      | (True, s1) \<Rightarrow>
          (case add_released now reservation_id user_id (ss_db s1) of
             Inl _ \<Rightarrow>
               (case statement s1 of
                  (ok, s2) \<Rightarrow> (s2, if ok then Inr False else Inl DatabaseError))
           | Inr d' \<Rightarrow>
               (case commit_tx (release_db now ids held d') s1 of
                  (ok, s2) \<Rightarrow> (s2, if ok then Inr True else Inl DatabaseError))))"

definition grow ::
  "string option \<Rightarrow> int \<Rightarrow> bool \<Rightarrow> int \<Rightarrow> int \<Rightarrow> int \<Rightarrow> db \<Rightarrow> db \<times> bool" where
  "grow reservation_id user_delta user_grew scoped_delta token_delta scoped_token_delta d =
     (case reservation_id of
        None \<Rightarrow> (d, True)
      | Some i \<Rightarrow> grow_row i user_delta user_grew scoped_delta token_delta scoped_token_delta d)"

section \<open>Claiming the end of a hold\<close>

definition try_terminate :: "string option \<Rightarrow> ReservationStatus \<Rightarrow> db \<Rightarrow> db \<times> bool" where
  "try_terminate reservation_id status d =
     (case reservation_id of None \<Rightarrow> (d, True) | Some i \<Rightarrow> try_terminate_row i status d)"

definition try_settle_reclaimed :: "string option \<Rightarrow> db \<Rightarrow> db \<times> bool" where
  "try_settle_reclaimed reservation_id d =
     (case reservation_id of None \<Rightarrow> (d, False) | Some i \<Rightarrow> try_settle_reclaimed_row i d)"

section \<open>Reclaiming leaked holds\<close>

text \<open>The ceilings of a reservation, grouped by what each holds, in the order first seen.\<close>

fun group_by_amounts :: "ReservationLine list \<Rightarrow> (HeldAmounts \<times> string list) list" where
  "group_by_amounts [] = []"
| "group_by_amounts (l # ls) =
     (rline_held l,
      rline_scoped_budget_id l #
        map rline_scoped_budget_id (filter (\<lambda>x. rline_held x = rline_held l) ls))
     # group_by_amounts (filter (\<lambda>x. rline_held x \<noteq> rline_held l) ls)"

definition release_user_leg :: "instant \<Rightarrow> BudgetReservation \<Rightarrow> db \<Rightarrow> db" where
  "release_user_leg now r d =
     (if rv_user_reserved r \<and> some_positive (rv_held r)
      then update_live_user now (rv_user_id r) (release_counters (rv_held r)) d else d)"

definition release_reservation_holds :: "instant \<Rightarrow> BudgetReservation \<Rightarrow> db \<Rightarrow> db" where
  "release_reservation_holds now r d =
     (let groups = group_by_amounts
            (filter (\<lambda>l. some_positive (rline_held l)) (list_lines d (rv_id r))) in
      fold (\<lambda>(held, ids). release_db now ids held) groups (release_user_leg now r d))"

text \<open>One iteration of \<open>_reclaim\<close>: claim and release in one transaction.\<close>

definition reclaim_one :: "instant \<Rightarrow> BudgetReservation \<Rightarrow> db \<Rightarrow> db \<times> bool" where
  "reclaim_one now r d =
     (case try_terminate (Some (rv_id r)) RESERVATION_EXPIRED d of
        (d1, False) \<Rightarrow> (d1, False)
      | (d1, True) \<Rightarrow> (release_reservation_holds now r d1, True))"

fun reclaim :: "instant \<Rightarrow> BudgetReservation list \<Rightarrow> db \<Rightarrow> db \<times> nat" where
  "reclaim now [] d = (d, 0)"
| "reclaim now (r # rs) d =
     (let (d1, won) = reclaim_one now r d; (d2, n) = reclaim now rs d1
      in (d2, if won then Suc n else n))"

definition reclaim_expired_for_user :: "instant \<Rightarrow> string \<Rightarrow> nat \<Rightarrow> db \<Rightarrow> db \<times> nat" where
  "reclaim_expired_for_user now user_id limit d =
     reclaim now (list_expired d now limit (Some user_id)) d"

definition sweep_expired :: "instant \<Rightarrow> nat \<Rightarrow> db \<Rightarrow> db \<times> nat" where
  "sweep_expired now batch_size d = reclaim now (list_expired d now batch_size None) d"

section \<open>Holds no row records\<close>

definition clamped_axis :: "int \<Rightarrow> int \<Rightarrow> int option" where
  "clamped_axis counter cap = (if counter > cap then Some cap else None)"

definition clamped :: "HeldAmounts \<Rightarrow> HeldAmounts \<Rightarrow> int option \<times> int option \<times> int option" where
  "clamped counter held =
     (clamped_axis (ha_amount counter) (ha_amount held),
      clamped_axis (ha_tokens counter) (ha_tokens held),
      clamped_axis (ha_requests counter) (ha_requests held))"

definition reconcile_user :: "instant \<Rightarrow> string \<Rightarrow> instant \<Rightarrow> db \<Rightarrow> db \<times> bool" where
  "reconcile_user now user_id cutoff d =
     (case find (\<lambda>u. live_user user_id u \<and> quiet_since cutoff (u_updated_at u)) (d_users d) of
        None \<Rightarrow> (d, False)
      | Some u \<Rightarrow>
          (let values = clamped (c_held (u_counters u)) (active_user_held d user_id) in
           if values = (None, None, None) then (d, False)
           else (update_users (\<lambda>u. u_user_id u = user_id) (touch_user now (set_holds values)) d,
                 True)))"

definition reconcile_scoped :: "instant \<Rightarrow> string \<Rightarrow> instant \<Rightarrow> db \<Rightarrow> db \<times> bool" where
  "reconcile_scoped now scoped_budget_id cutoff d =
     (case lock_quiet_holds d scoped_budget_id cutoff of
        None \<Rightarrow> (d, False)
      | Some counter \<Rightarrow>
          (let values = clamped counter (active_ceiling_held d scoped_budget_id) in
           if values = (None, None, None) then (d, False)
           else (clamp_holds now scoped_budget_id values d, True)))"

fun count_moves :: "('k \<Rightarrow> db \<Rightarrow> db \<times> bool) \<Rightarrow> 'k list \<Rightarrow> db \<Rightarrow> db \<times> nat" where
  "count_moves f [] d = (d, 0)"
| "count_moves f (k # ks) d =
     (let (d1, moved) = f k d; (d2, n) = count_moves f ks d1
      in (d2, if moved then Suc n else n))"

definition quiet_user_ids :: "instant \<Rightarrow> nat \<Rightarrow> db \<Rightarrow> string list" where
  "quiet_user_ids cutoff batch_size d =
     take batch_size (map u_user_id (filter
       (\<lambda>u. \<not> u_deleted u \<and> holds_something (u_counters u) \<and> quiet_since cutoff (u_updated_at u))
       (d_users d)))"

definition reconcile_orphaned_holds :: "instant \<Rightarrow> int \<Rightarrow> nat \<Rightarrow> db \<Rightarrow> db \<times> nat" where
  "reconcile_orphaned_holds now quiet_sec batch_size d =
     (let cutoff = now - quiet_sec * 1000000;
          user_ids = quiet_user_ids cutoff batch_size d;
          scoped_ids = list_quiet_held d cutoff batch_size;
          (d1, n1) = count_moves (\<lambda>i. reconcile_user now i cutoff) user_ids d;
          (d2, n2) = count_moves (\<lambda>i. reconcile_scoped now i cutoff) scoped_ids d1
      in (d2, n1 + n2))"

section \<open>Retention\<close>

definition prune_terminal :: "instant \<Rightarrow> int \<Rightarrow> nat \<Rightarrow> db \<Rightarrow> db \<times> nat" where
  "prune_terminal now older_than_sec batch_size d =
     (if older_than_sec \<le> 0 then (d, 0)
      else
        (let ids = list_terminal_ids d (now - older_than_sec * 1000000) batch_size in
         if ids = [] then (d, 0) else (delete_by_ids ids d, length ids)))"

definition MAX_SWEEP_PASSES :: nat where
  "MAX_SWEEP_PASSES = 10"

text \<open>Up to \<open>n\<close> passes, stopping after one that did less than a full batch.\<close>

fun passes :: "nat \<Rightarrow> nat \<Rightarrow> (db \<Rightarrow> db \<times> nat) \<Rightarrow> db \<Rightarrow> db" where
  "passes 0 batch_size f d = d"
| "passes (Suc n) batch_size f d =
     (let (d1, k) = f d in if k < batch_size then d1 else passes n batch_size f d1)"

text \<open>One tick of \<open>run_reservation_sweeper\<close>, at one moment.\<close>

definition sweeper_tick :: "instant \<Rightarrow> nat \<Rightarrow> int \<Rightarrow> int \<Rightarrow> db \<Rightarrow> db" where
  "sweeper_tick now batch_size retention_sec ttl_sec d =
     (let d1 = passes MAX_SWEEP_PASSES batch_size (sweep_expired now batch_size) d;
          d2 = fst (reconcile_orphaned_holds now ttl_sec batch_size d1)
      in passes MAX_SWEEP_PASSES batch_size (prune_terminal now retention_sec batch_size) d2)"

end
