(* ===== verification/Reservations.thy ===== *)
theory Reservations
  imports Ledger
begin

text \<open>
  \<open>services/budgets/_reservations.py\<close>: the per-user budget, and the life of a reservation:
  reserve, grow, reconcile, refund.

  A step that talks to the database is a \<open>run\<close>: it takes the session and answers the session it
  leaves with a value or the error it raises, so an error path keeps what it committed. The
  price lookup of \<open>_is_model_free\<close> is the argument \<open>is_free\<close>; the scopes a request bills to are
  given resolved (\<open>ScopeIdSets\<close>), with the provider instance it goes to. Metrics and logs are
  left out. Amounts are whole micro-dollars, as \<open>quantize_cost\<close> makes every estimate and cost.
\<close>

section \<open>Runs\<close>

datatype reserve_error =
    UserNotFound string
  | UserBlocked string
  | BudgetExceeded string string "int option" \<comment> \<open>detail, budget scope, retry after\<close>
  | DatabaseFailed
  | PeriodFailed string

type_synonym 'a run = "session \<Rightarrow> session \<times> (reserve_error + 'a)"

definition bind_run :: "'a run \<Rightarrow> ('a \<Rightarrow> 'b run) \<Rightarrow> 'b run" where
  "bind_run m k s = (case m s of (s1, Inl e) \<Rightarrow> (s1, Inl e) | (s1, Inr x) \<Rightarrow> k x s1)"

definition return_run :: "'a \<Rightarrow> 'a run" where
  "return_run x s = (s, Inr x)"

definition raise_run :: "reserve_error \<Rightarrow> 'a run" where
  "raise_run e s = (s, Inl e)"

definition lift_run :: "(session \<Rightarrow> session \<times> (database_error + 'a)) \<Rightarrow> 'a run" where
  "lift_run m s =
     (case m s of (s1, Inl e) \<Rightarrow> (s1, Inl DatabaseFailed) | (s1, Inr x) \<Rightarrow> (s1, Inr x))"

definition transact_run :: "(db \<Rightarrow> db) \<Rightarrow> unit run" where
  "transact_run f = lift_run (transact f)"

lemma run_simps [simp]:
  "bind_run (return_run x) k s = k x s"
  "bind_run (raise_run e) k s = (s, Inl e)"
  "return_run x s = (s, Inr x)"
  "raise_run e s = (s, Inl e)"
  by (simp_all add: bind_run_def return_run_def raise_run_def)

lemma bind_run_Inr_iff:
  "bind_run m k s = (s', Inr y) \<longleftrightarrow> (\<exists>s1 x. m s = (s1, Inr x) \<and> k x s1 = (s', Inr y))"
  by (auto simp: bind_run_def split: prod.splits sum.splits)

section \<open>The user and the user's budget\<close>

definition get_active_user :: "db \<Rightarrow> string \<Rightarrow> User option" where
  "get_active_user d user_id = find (live_user user_id) (d_users d)"

definition active_user_with_budget :: "db \<Rightarrow> string \<Rightarrow> (User \<times> Budget option) option" where
  "active_user_with_budget d user_id =
     map_option (\<lambda>u. (u, find (\<lambda>b. Some (b_budget_id b) = u_budget_id u) (d_budgets d)))
       (get_active_user d user_id)"

definition budget_window ::
  "datetime \<Rightarrow> Budget \<Rightarrow> period_error + (instant \<times> instant) option" where
  "budget_window now b = period_window now (b_duration_sec b) (b_reset_alignment b)"

definition reset_due :: "instant \<Rightarrow> User \<Rightarrow> bool" where
  "reset_due now u \<longleftrightarrow> (case u_next_reset_at u of None \<Rightarrow> False | Some t \<Rightarrow> t \<le> now)"

text \<open>The guarded \<open>UPDATE\<close> of \<open>_cas_reset_user_budget\<close>, and the log row of the one that won.\<close>

definition cas_reset ::
  "instant \<Rightarrow> string \<Rightarrow> instant \<Rightarrow> instant option \<Rightarrow> db \<Rightarrow> db \<times> bool" where
  "cas_reset now user_id started_at next_reset_at d =
     (let p = \<lambda>u. live_user user_id u \<and> reset_due now u in
      (update_users p
         (\<lambda>u. (touch_user now reset_counters u)
            \<lparr>u_budget_started_at := Some started_at, u_next_reset_at := next_reset_at\<rparr>) d,
       0 < rowcount p (d_users d)))"

definition cas_reset_user_budget :: "datetime \<Rightarrow> User \<Rightarrow> Budget \<Rightarrow> User run" where
  "cas_reset_user_budget now user budget s =
     (case budget_window now budget of
        Inl (UnknownResetAlignment a) \<Rightarrow> (s, Inl (PeriodFailed a))
      | Inr window \<Rightarrow>
          (let (started_at, next_reset_at) =
             (case window of Some (a, b) \<Rightarrow> (a, Some b) | None \<Rightarrow> (timestamp now, None)) in
           case statement s of
             (False, s1) \<Rightarrow> (s1, Inl DatabaseFailed)
           | (True, s1) \<Rightarrow>
               (let (d1, won) = cas_reset (timestamp now) (u_user_id user) started_at next_reset_at
                                  (ss_db s1);
                    d2 = (if won then d1\<lparr>d_reset_logs := d_reset_logs d1 @
                        [\<lparr>rl_user_id = u_user_id user, rl_budget_id = b_budget_id budget,
                          rl_previous_spend = ha_amount (c_used (u_counters user)),
                          rl_reset_at = timestamp now, rl_next_reset_at = next_reset_at\<rparr>]\<rparr>
                        else d1) in
                case commit_tx d2 s1 of
                  (False, s2) \<Rightarrow> (s2, Inl DatabaseFailed)
                | (True, s2) \<Rightarrow>
                    (case (if won then get_active_user (ss_db s2) (u_user_id user)
                           else find (\<lambda>u. u_user_id u = u_user_id user) (d_users (ss_db s2))) of
                       None \<Rightarrow> (s2, Inr user)
                     | Some u \<Rightarrow> (s2, Inr u)))))"

section \<open>The state a routing policy reads\<close>

datatype strategy = ForUpdate | Cas | Disabled

definition py_space :: "char \<Rightarrow> bool" where
  "py_space c \<longleftrightarrow> (let n = (of_char c :: nat) in
     n \<in> {9, 10, 11, 12, 13, 28, 29, 30, 31, 32, 133, 160})"

definition py_strip :: "string \<Rightarrow> string" where
  "py_strip s = rev (dropWhile py_space (rev (dropWhile py_space s)))"

definition normalize_strategy :: "string option \<Rightarrow> strategy" where
  "normalize_strategy v =
     (let n = ascii_lower (py_strip
         (case v of None \<Rightarrow> ''for_update'' | Some s \<Rightarrow> if s = [] then ''for_update'' else s)) in
      if n = ''cas'' then Cas else if n = ''disabled'' then Disabled else ForUpdate)"

record BudgetState =
  bs_used_pct :: "rat option"
  bs_remaining_usd :: "rat option"

text \<open>A cap and what is committed against it, of the user and of each ceiling on every provider.\<close>

definition user_caps :: "db \<Rightarrow> string \<Rightarrow> (rat \<times> rat) list" where
  "user_caps d user_id =
     (case active_user_with_budget d user_id of
        Some (u, Some b) \<Rightarrow>
          (case b_max_budget b of
             Some m \<Rightarrow> [(usd_decimal (ha_amount (committed (u_counters u))), usd_decimal m)]
           | None \<Rightarrow> [])
      | _ \<Rightarrow> [])"

definition ceiling_caps :: "datetime \<Rightarrow> ApplicableCeiling list \<Rightarrow> (rat \<times> rat) list" where
  "ceiling_caps now ceilings =
     List.map_filter (\<lambda>c.
       case (ac_provider_key_id c, ac_max_budget c) of
         (None, Some m) \<Rightarrow>
           Some (usd_decimal ((if ended now c then 0 else ac_current_spend c) + ac_reserved_spend c),
                 usd_decimal m)
       | _ \<Rightarrow> None) ceilings"

definition pct_of :: "rat \<times> rat \<Rightarrow> rat" where
  "pct_of p = (case p of (taken, cap) \<Rightarrow> if cap > 0 then taken / cap * 100 else 100)"

definition headroom_of :: "rat \<times> rat \<Rightarrow> rat" where
  "headroom_of p = (case p of (taken, cap) \<Rightarrow> max 0 (cap - taken))"

text \<open>
  \<open>scope\<close> is the resolved scopes and whether the key is excluded from budgets.
\<close>

definition get_budget_state ::
  "datetime \<Rightarrow> string \<Rightarrow> (ScopeIdSets \<times> bool) option \<Rightarrow> string option \<Rightarrow> db \<Rightarrow> BudgetState" where
  "get_budget_state now user_id scope strategy_name d =
     (if normalize_strategy strategy_name = Disabled \<or>
         (case scope of None \<Rightarrow> False | Some (_, excluded) \<Rightarrow> excluded)
      then \<lparr>bs_used_pct = None, bs_remaining_usd = None\<rparr>
      else
        (case user_caps d user_id @
            (case scope of None \<Rightarrow> []
             | Some (scopes, _) \<Rightarrow> ceiling_caps now (list_applicable d scopes)) of
           [] \<Rightarrow> \<lparr>bs_used_pct = None, bs_remaining_usd = None\<rparr>
         | c # cs \<Rightarrow>
             \<lparr>bs_used_pct = Some (foldl max (pct_of c) (map pct_of cs)),
              bs_remaining_usd = Some (foldl min (headroom_of c) (map headroom_of cs))\<rparr>))"

section \<open>The handle\<close>

record ReservationHandle =
  h_user_id :: string
  h_held :: HeldAmounts \<comment> \<open>\<open>estimate\<close>, \<open>token_estimate\<close>, \<open>request_estimate\<close>\<close>
  h_reserved :: bool
  h_strategy :: strategy
  h_counts :: bool
  h_scoped :: "ApplicableBudget list"
  h_scoped_held :: HeldAmounts \<comment> \<open>the same three on each ceiling\<close>
  h_reservation_id :: "string option"
  h_ttl_sec :: int
  h_scope_ceilings :: "ApplicableCeiling list"

definition DEFAULT_RESERVATION_TTL_SEC :: int where
  "DEFAULT_RESERVATION_TTL_SEC = 900"

definition scoped_budget_ids :: "ReservationHandle \<Rightarrow> string list" where
  "scoped_budget_ids h = map ab_budget_id (h_scoped h)"

definition empty_handle ::
  "string \<Rightarrow> strategy \<Rightarrow> bool \<Rightarrow> int \<Rightarrow> ApplicableCeiling list \<Rightarrow> ReservationHandle" where
  "empty_handle user_id st counts ttl ceilings =
     \<lparr>h_user_id = user_id, h_held = 0, h_reserved = False, h_strategy = st, h_counts = counts,
      h_scoped = [], h_scoped_held = 0, h_reservation_id = None, h_ttl_sec = ttl,
      h_scope_ceilings = ceilings\<rparr>"

definition ceiling_held :: "ApplicableBudget list \<Rightarrow> HeldAmounts \<Rightarrow> HeldAmounts" where
  "ceiling_held scoped amounts = (if scoped = [] then 0 else amounts)"

text \<open>Which axis of the user's budget refused (\<open>_blocked_axis\<close>).\<close>

definition user_blocked_axis ::
  "Budget \<Rightarrow> User \<Rightarrow> int option \<Rightarrow> int \<Rightarrow> int \<Rightarrow> bool \<Rightarrow> BlockedAxis" where
  "user_blocked_axis b u amount tokens requests new_request =
     (case first_blocked
         (usage_axes (u_counters u) (b_max_budget b) (b_token_limit b) (b_request_limit b)
            amount tokens requests) new_request of
        None \<Rightarrow> blocked_axis_default ''budget''
      | Some x \<Rightarrow> x\<lparr>ba_resets_at := u_next_reset_at u\<rparr>)"

definition budget_exceeded :: "instant \<Rightarrow> string \<Rightarrow> BlockedAxis \<Rightarrow> string \<Rightarrow> reserve_error" where
  "budget_exceeded now detail blocked budget_scope =
     BudgetExceeded detail budget_scope (retry_after blocked now)"

section \<open>Recording the hold\<close>

record hold_plan =
  hp_user_id :: string
  hp_user_reserved :: bool
  hp_user_held :: HeldAmounts
  hp_strategy :: strategy
  hp_counts :: bool
  hp_scoped :: "ApplicableBudget list"
  hp_ceiling_held :: HeldAmounts
  hp_scope_ceilings :: "ApplicableCeiling list"
  hp_ttl_sec :: int
  hp_record :: bool

definition plan_handle :: "hold_plan \<Rightarrow> string option \<Rightarrow> ReservationHandle" where
  "plan_handle p reservation_id =
     \<lparr>h_user_id = hp_user_id p, h_held = hp_user_held p, h_reserved = hp_user_reserved p,
      h_strategy = hp_strategy p, h_counts = hp_counts p, h_scoped = hp_scoped p,
      h_scoped_held = hp_ceiling_held p, h_reservation_id = reservation_id,
      h_ttl_sec = hp_ttl_sec p, h_scope_ceilings = hp_scope_ceilings p\<rparr>"

definition plan_ids :: "hold_plan \<Rightarrow> string list" where
  "plan_ids p = map ab_budget_id (hp_scoped p)"

definition plan_record :: "instant \<Rightarrow> string \<Rightarrow> hold_plan \<Rightarrow> db \<Rightarrow> db \<times> string option" where
  "plan_record now new_id p d =
     (if hp_record p
      then record_hold now new_id (hp_user_id p) (hp_user_reserved p) (hp_user_held p) (hp_scoped p)
             (hp_ceiling_held p) (hp_ttl_sec p) d
      else (d, None))"

text \<open>
  \<open>_held_handle\<close> with \<open>user_hold_uncommitted\<close>: \<open>w\<close> carries the per-user hold, which commits
  with its ledger row.
\<close>

definition held_handle_uncommitted ::
  "instant \<Rightarrow> string \<Rightarrow> hold_plan \<Rightarrow> db \<Rightarrow> ReservationHandle run" where
  "held_handle_uncommitted now new_id p w s =
     (let (w', reservation_id) = plan_record now new_id p w in
      case statement s of
        (False, s1) \<Rightarrow>
          (let s2 = snd (statement s1) in
           (if hp_scoped p \<noteq> [] then fst (release now (plan_ids p) (hp_ceiling_held p) s2) else s2,
            Inl DatabaseFailed))
      | (True, s1) \<Rightarrow>
          (case commit_tx w' s1 of
             (True, s2) \<Rightarrow> (s2, Inr (plan_handle p reservation_id))
           | (False, s2) \<Rightarrow>
               (let s3 = snd (statement s2) in
                (case reservation_id of
                   Some i \<Rightarrow>
                     (if hp_scoped p \<noteq> []
                      then fst (release_unrecorded now i (hp_user_id p) (plan_ids p)
                                  (hp_ceiling_held p) s3)
                      else s3)
                 | None \<Rightarrow> s3,
                 Inl DatabaseFailed))))"

text \<open>
  \<open>_held_handle\<close> for a hold on ceilings alone: a ledger write that fails leaves an unledgered
  hold, not an error.
\<close>

definition held_handle_committed ::
  "instant \<Rightarrow> string \<Rightarrow> hold_plan \<Rightarrow> ReservationHandle run" where
  "held_handle_committed now new_id p s =
     (if hp_record p then
        (case transact (\<lambda>d. fst (plan_record now new_id p d)) s of
           (s1, Inr _) \<Rightarrow> (s1, Inr (plan_handle p (snd (plan_record now new_id p (ss_db s)))))
         | (s1, Inl _) \<Rightarrow> (snd (statement s1), Inr (plan_handle p None)))
      else (s, Inr (plan_handle p None)))"

text \<open>
  \<open>_hold_on_user\<close>: the working tables and whether a row matched, or the error with the
  ceilings' holds given back.
\<close>

definition hold_on_user ::
  "instant \<Rightarrow> (User \<Rightarrow> bool) \<Rightarrow> HeldAmounts \<Rightarrow> ApplicableBudget list \<Rightarrow> (db \<times> bool) run" where
  "hold_on_user now p amounts scoped s =
     (case statement s of
        (False, s1) \<Rightarrow>
          (if scoped \<noteq> [] then give_back now (map ab_budget_id scoped) amounts s1
           else snd (statement s1), Inl DatabaseFailed)
      | (True, s1) \<Rightarrow>
          (s1, Inr (update_users p (touch_user now (hold_counters amounts)) (ss_db s1),
                    0 < rowcount p (d_users (ss_db s1)))))"

section \<open>Reserving\<close>

record reserve_request =
  rq_user_id :: string
  rq_estimate :: int
  rq_model :: "string option"
  rq_tokens :: int
  rq_requests :: int
  rq_new_request :: bool
  rq_strategy :: "string option"
  rq_counts :: bool
  rq_scope :: "(ScopeIdSets \<times> string option) option"
  rq_model_is_free :: "bool option"
  rq_ttl_sec :: int
  rq_record :: bool
  rq_output_tokens :: "int option"

text \<open>The amounts held, clamped where the estimate comes from client-controlled fields.\<close>

definition held_usd :: "reserve_request \<Rightarrow> int" where
  "held_usd rq = max (rq_estimate rq) 0"

definition held_token_count :: "reserve_request \<Rightarrow> int" where
  "held_token_count rq = min (max (rq_tokens rq) 0) MAX_COUNT_LIMIT"

definition held_request_count :: "reserve_request \<Rightarrow> int" where
  "held_request_count rq = max (rq_requests rq) 0"

definition request_hold :: "reserve_request \<Rightarrow> int option \<Rightarrow> HeldAmounts" where
  "request_hold rq usd = hold_of usd (held_token_count rq) (held_request_count rq)"

definition plan_of ::
  "reserve_request \<Rightarrow> ApplicableBudget list \<Rightarrow> ApplicableCeiling list \<Rightarrow> bool \<Rightarrow> HeldAmounts \<Rightarrow>
     HeldAmounts \<Rightarrow> hold_plan" where
  "plan_of rq scoped ceilings user_reserved user_held on_ceilings =
     \<lparr>hp_user_id = rq_user_id rq, hp_user_reserved = user_reserved, hp_user_held = user_held,
      hp_strategy = normalize_strategy (rq_strategy rq), hp_counts = rq_counts rq,
      hp_scoped = scoped, hp_ceiling_held = on_ceilings, hp_scope_ceilings = ceilings,
      hp_ttl_sec = rq_ttl_sec rq, hp_record = rq_record rq\<rparr>"

text \<open>The per-user gate: the row that admits the hold.\<close>

definition user_gate ::
  "Budget \<Rightarrow> reserve_request \<Rightarrow> int option \<Rightarrow> User \<Rightarrow> bool" where
  "user_gate b rq usd u \<longleftrightarrow>
     live_user (rq_user_id rq) u \<and>
     admits_all (rq_new_request rq) (u_counters u) usd (held_token_count rq) (held_request_count rq)
       (b_max_budget b) (b_token_limit b) (b_request_limit b)"

definition quote_user :: "string \<Rightarrow> string" where
  "quote_user user_id = ''User '' @ [CHR 0x27] @ user_id @ [CHR 0x27]"

text \<open>The per-user gate refused: commit, give the ceilings back, raise the 403.\<close>

definition refuse_user ::
  "instant \<Rightarrow> reserve_request \<Rightarrow> Budget \<Rightarrow> ApplicableBudget list \<Rightarrow> int option \<Rightarrow> db \<Rightarrow>
     ReservationHandle run" where
  "refuse_user now rq b scoped usd w s =
     (case commit_tx w s of
        (False, s1) \<Rightarrow> (s1, Inl DatabaseFailed)
      | (True, s1) \<Rightarrow>
          bind_run (lift_run (release now (map ab_budget_id scoped) (request_hold rq usd)))
            (\<lambda>_ s2.
               let blocked =
                 (case get_active_user (ss_db s2) (rq_user_id rq) of
                    None \<Rightarrow> blocked_axis_default ''budget''
                  | Some u \<Rightarrow> user_blocked_axis b u usd (held_token_count rq) (held_request_count rq)
                                (rq_new_request rq)) in
               (s2, Inl (budget_exceeded now
                  (refusal_detail (quote_user (rq_user_id rq)) blocked (rq_new_request rq)
                     (rq_output_tokens rq)) blocked ''user'')))
            s1)"

text \<open>The per-user leg, after the ceilings are held.\<close>

definition hold_user_leg ::
  "instant \<Rightarrow> string \<Rightarrow> reserve_request \<Rightarrow> Budget option \<Rightarrow> ApplicableBudget list \<Rightarrow>
     ApplicableCeiling list \<Rightarrow> int option \<Rightarrow> ReservationHandle run" where
  "hold_user_leg now new_id rq budget scoped ceilings usd =
     (let amounts = request_hold rq usd in
      case budget of
        None \<Rightarrow> held_handle_committed now new_id (plan_of rq scoped ceilings False 0 amounts)
      | Some b \<Rightarrow>
          (let plan = plan_of rq scoped ceilings True amounts (ceiling_held scoped amounts) in
           if b_max_budget b = None \<and> b_token_limit b = None \<and> b_request_limit b = None then
             bind_run (hold_on_user now (live_user (rq_user_id rq)) amounts scoped)
               (\<lambda>(w, _). held_handle_uncommitted now new_id plan w)
           else
             bind_run (hold_on_user now (user_gate b rq usd) amounts scoped)
               (\<lambda>(w, matched).
                  if matched then held_handle_uncommitted now new_id plan w
                  else refuse_user now rq b scoped usd w)))"

text \<open>The ceilings, then the per-user leg.\<close>

definition hold_ceilings ::
  "instant \<Rightarrow> reserve_request \<Rightarrow> ApplicableBudget list \<Rightarrow> int option \<Rightarrow> unit run" where
  "hold_ceilings now rq scoped usd =
     (if scoped = [] then return_run ()
      else
        bind_run (lift_run (reserve now scoped usd (held_token_count rq) (held_request_count rq)
                    (rq_new_request rq)))
          (\<lambda>refused s.
             case refused of
               None \<Rightarrow> (s, Inr ())
             | Some r \<Rightarrow>
                 (let blocked = blocked_axis (ss_db s) r usd (held_token_count rq)
                        (held_request_count rq) (rq_new_request rq) in
                  (s, Inl (budget_exceeded now
                     (refusal_detail (subject r) blocked (rq_new_request rq) (rq_output_tokens rq))
                     blocked (ab_scope_type r))))))"

fun reclaim_rows_run :: "instant \<Rightarrow> BudgetReservation list \<Rightarrow> unit run" where
  "reclaim_rows_run now [] = return_run ()"
| "reclaim_rows_run now (r # rs) =
     bind_run (transact_run (\<lambda>d. fst (reclaim_one now r d))) (\<lambda>_. reclaim_rows_run now rs)"

definition RECLAIM_LIMIT :: nat where
  "RECLAIM_LIMIT = 20"

definition reclaim_run :: "instant \<Rightarrow> string \<Rightarrow> unit run" where
  "reclaim_run now user_id s =
     reclaim_rows_run now (list_expired (ss_db s) now RECLAIM_LIMIT (Some user_id)) s"

definition holds_nothing :: "User \<Rightarrow> bool" where
  "holds_nothing u \<longleftrightarrow> c_held (u_counters u) = 0"

definition model_is_free :: "(string \<Rightarrow> bool) \<Rightarrow> reserve_request \<Rightarrow> bool" where
  "model_is_free is_free rq =
     (case rq_model_is_free rq of
        Some f \<Rightarrow> f
      | None \<Rightarrow>
          (case rq_model rq of None \<Rightarrow> False | Some m \<Rightarrow> if m = [] then False else is_free m))"

text \<open>From the resolved budget and ceilings to the handle.\<close>

definition admit ::
  "instant \<Rightarrow> string \<Rightarrow> (string \<Rightarrow> bool) \<Rightarrow> reserve_request \<Rightarrow> User \<Rightarrow> Budget option \<Rightarrow>
     ApplicableCeiling list \<Rightarrow> ApplicableBudget list \<Rightarrow> ReservationHandle run" where
  "admit now new_id is_free rq user budget ceilings scoped =
     (let no_reservation = return_run (empty_handle (rq_user_id rq)
            (normalize_strategy (rq_strategy rq)) True (rq_ttl_sec rq) ceilings);
          free = model_is_free is_free rq;
          caps = (case budget of None \<Rightarrow> False
                  | Some b \<Rightarrow> b_token_limit b \<noteq> None \<or> b_request_limit b \<noteq> None);
          usd = (if free then None else Some (held_usd rq)) in
      if budget = None \<and> scoped = [] then no_reservation
      else if free \<and> \<not> caps \<and> \<not> list_ex caps_counts scoped then no_reservation
      else
        bind_run
          (if rq_record rq \<and> \<not> (budget \<noteq> None \<and> holds_nothing user)
           then reclaim_run now (rq_user_id rq) else return_run ())
          (\<lambda>_. bind_run (hold_ceilings now rq scoped usd)
            (\<lambda>_. hold_user_leg now new_id rq budget scoped ceilings usd)))"

definition resolve_ceilings ::
  "datetime \<Rightarrow> reserve_request \<Rightarrow> (ApplicableCeiling list \<times> ApplicableBudget list) run" where
  "resolve_ceilings now rq s =
     (case rq_scope rq of
        None \<Rightarrow> (s, Inr ([], []))
      | Some (scopes, provider) \<Rightarrow>
          (let ceilings = list_applicable (ss_db s) scopes in
           bind_run (lift_run (roll_and_list_applicable now (get_provider_ceilings ceilings provider)))
             (\<lambda>scoped. return_run (ceilings, scoped)) s))"

definition refresh_window :: "datetime \<Rightarrow> User \<Rightarrow> Budget option \<Rightarrow> User run" where
  "refresh_window now user budget =
     (case budget of
        None \<Rightarrow> return_run user
      | Some b \<Rightarrow>
          (if reset_due (timestamp now) user then cas_reset_user_budget now user b
           else return_run user))"

definition reserve_budget ::
  "datetime \<Rightarrow> string \<Rightarrow> (string \<Rightarrow> bool) \<Rightarrow> reserve_request \<Rightarrow> ReservationHandle run" where
  "reserve_budget now new_id is_free rq s =
     (let st = normalize_strategy (rq_strategy rq) in
      case active_user_with_budget (ss_db s) (rq_user_id rq) of
        None \<Rightarrow> (s, Inl (UserNotFound (rq_user_id rq)))
      | Some (user, budget) \<Rightarrow>
          (if u_blocked user then (s, Inl (UserBlocked (rq_user_id rq)))
           else if \<not> rq_counts rq then
             (s, Inr (empty_handle (rq_user_id rq) st False DEFAULT_RESERVATION_TTL_SEC []))
           else if st = Disabled then
             (s, Inr (empty_handle (rq_user_id rq) st True DEFAULT_RESERVATION_TTL_SEC []))
           else
             bind_run (refresh_window now user budget)
               (\<lambda>user'. bind_run (resolve_ceilings now rq)
                 (\<lambda>(ceilings, scoped).
                    admit (timestamp now) new_id is_free rq user' budget ceilings scoped)) s))"

section \<open>Settling\<close>

text \<open>The release of the per-user leg by its handle: dollars always, a count where it is held.\<close>

definition release_leg :: "HeldAmounts \<Rightarrow> HeldAmounts \<Rightarrow> HeldAmounts" where
  "release_leg c h =
     HeldAmounts (release_clamped (ha_amount c) (ha_amount h))
       (if ha_tokens h \<noteq> 0 then release_clamped (ha_tokens c) (ha_tokens h) else ha_tokens c)
       (if ha_requests h \<noteq> 0 then release_clamped (ha_requests c) (ha_requests h) else ha_requests c)"

definition release_leg_counters :: "HeldAmounts \<Rightarrow> counters \<Rightarrow> counters" where
  "release_leg_counters h c = c\<lparr>c_held := release_leg (c_held c) h\<rparr>"

text \<open>What a settlement adds to the recorded use of the user.\<close>

definition user_recorded :: "ReservationHandle \<Rightarrow> int \<Rightarrow> int \<Rightarrow> HeldAmounts" where
  "user_recorded h spent tokens =
     HeldAmounts (if h_counts h then spent else 0)
       (if h_reserved h \<and> h_counts h then tokens else 0)
       (if h_reserved h \<and> h_counts h then ha_requests (h_held h) else 0)"

definition settle_user_leg ::
  "instant \<Rightarrow> ReservationHandle \<Rightarrow> int \<Rightarrow> int \<Rightarrow> bool \<Rightarrow> db \<Rightarrow> db" where
  "settle_user_leg now h spent tokens reclaimed_early d =
     (let used = user_recorded h spent tokens; give = h_reserved h \<and> \<not> reclaimed_early in
      if used = 0 \<and> \<not> give then d
      else update_live_user now (h_user_id h)
        (\<lambda>c. \<lparr>c_used = c_used c + used,
             c_held = (if give then release_leg (c_held c) (h_held h) else c_held c)\<rparr>) d)"

definition settle_legs ::
  "instant \<Rightarrow> ReservationHandle \<Rightarrow> int \<Rightarrow> int \<Rightarrow> bool \<Rightarrow> db \<Rightarrow> db" where
  "settle_legs now h spent tokens reclaimed_early d =
     settle_db now (scoped_budget_ids h)
       (HeldAmounts spent tokens (ha_requests (h_scoped_held h)))
       (if reclaimed_early then 0 else h_scoped_held h) (h_counts h)
       (settle_user_leg now h spent tokens reclaimed_early d)"

definition reconcile_db :: "instant \<Rightarrow> ReservationHandle \<Rightarrow> int \<Rightarrow> int \<Rightarrow> db \<Rightarrow> db" where
  "reconcile_db now h actual_cost actual_tokens d =
     (let spent = max actual_cost 0; tokens = max actual_tokens 0 in
      case try_terminate (h_reservation_id h) RESERVATION_SETTLED d of
        (d1, True) \<Rightarrow> settle_legs now h spent tokens False d1
      | (d1, False) \<Rightarrow>
          (case try_settle_reclaimed (h_reservation_id h) d1 of
             (d2, True) \<Rightarrow> settle_legs now h spent tokens True d2
           | (d2, False) \<Rightarrow> d2))"

definition reconcile_reservation ::
  "instant \<Rightarrow> ReservationHandle \<Rightarrow> int \<Rightarrow> int \<Rightarrow> unit run" where
  "reconcile_reservation now h actual_cost actual_tokens =
     transact_run (reconcile_db now h actual_cost actual_tokens)"

definition record_external_spend :: "instant \<Rightarrow> string \<Rightarrow> int \<Rightarrow> unit run" where
  "record_external_spend now user_id cost =
     reconcile_reservation now
       (empty_handle user_id Disabled True DEFAULT_RESERVATION_TTL_SEC []) cost 0"

definition refund_db :: "instant \<Rightarrow> ReservationHandle \<Rightarrow> db \<Rightarrow> db" where
  "refund_db now h d =
     (case try_terminate (h_reservation_id h) RESERVATION_RELEASED d of
        (d1, False) \<Rightarrow> d1
      | (d1, True) \<Rightarrow>
          release_db now (scoped_budget_ids h) (h_scoped_held h)
            (if h_reserved h
             then update_live_user now (h_user_id h) (release_leg_counters (h_held h)) d1 else d1))"

definition refund_reservation :: "instant \<Rightarrow> ReservationHandle \<Rightarrow> unit run" where
  "refund_reservation now h = transact_run (refund_db now h)"

section \<open>Growing a hold\<close>

text \<open>\<open>ledger.grow\<close> with its commit: no statement without a row, no commit when the guard lost.\<close>

definition grow_run ::
  "string option \<Rightarrow> int \<Rightarrow> bool \<Rightarrow> int \<Rightarrow> int \<Rightarrow> int \<Rightarrow> bool run" where
  "grow_run reservation_id user_delta user_grew scoped_delta token_delta scoped_token_delta s =
     (if reservation_id = None then (s, Inr True)
      else case statement s of
        (False, s1) \<Rightarrow> (s1, Inl DatabaseFailed)
      | (True, s1) \<Rightarrow>
          (let (d', grown) = grow reservation_id user_delta user_grew scoped_delta token_delta
                 scoped_token_delta (ss_db s1) in
           if \<not> grown then (s1, Inr False)
           else case commit_tx d' s1 of
             (True, s2) \<Rightarrow> (s2, Inr True)
           | (False, s2) \<Rightarrow> (s2, Inl DatabaseFailed)))"

text \<open>What the scoped leg and the per-user leg lack of the new size: dollars and tokens.\<close>

definition lacks :: "int \<Rightarrow> int \<Rightarrow> HeldAmounts \<Rightarrow> HeldAmounts" where
  "lacks new_size tokens h =
     HeldAmounts (max (new_size - ha_amount h) 0) (max (tokens - ha_tokens h) 0) 0"

definition grows :: "HeldAmounts \<Rightarrow> bool" where
  "grows a \<longleftrightarrow> ha_amount a > 0 \<or> ha_tokens a > 0"

definition top_up_request ::
  "ReservationHandle \<Rightarrow> HeldAmounts \<Rightarrow> string option \<Rightarrow> bool option \<Rightarrow> string option \<Rightarrow>
     reserve_request" where
  "top_up_request h lack model free strategy_name =
     \<lparr>rq_user_id = h_user_id h, rq_estimate = ha_amount lack, rq_model = model,
      rq_tokens = ha_tokens lack, rq_requests = 0, rq_new_request = False,
      rq_strategy = strategy_name, rq_counts = True, rq_scope = None, rq_model_is_free = free,
      rq_ttl_sec = DEFAULT_RESERVATION_TTL_SEC, rq_record = False, rq_output_tokens = None\<rparr>"

text \<open>The ceilings' growth: the handle carries it as soon as it is held.\<close>

definition grow_ceilings :: "instant \<Rightarrow> ReservationHandle \<Rightarrow> HeldAmounts \<Rightarrow> ReservationHandle run" where
  "grow_ceilings now h lack s =
     (if \<not> grows lack then (s, Inr h)
      else
        bind_run (lift_run (reserve now (h_scoped h) (Some (ha_amount lack)) (ha_tokens lack) 0 False))
          (\<lambda>refused s1.
             case refused of
               None \<Rightarrow> (s1, Inr (h\<lparr>h_scoped_held := h_scoped_held h + lack\<rparr>))
             | Some r \<Rightarrow>
                 (let blocked = blocked_axis (ss_db s1) r (Some (ha_amount lack)) (ha_tokens lack) 0
                        False in
                  (s1, Inl (budget_exceeded now (refusal_detail (subject r) blocked False None)
                     blocked (ab_scope_type r)))))
          s)"

text \<open>The per-user growth: the delta taken, or \<open>None\<close> when that leg holds nothing.\<close>

definition grow_user ::
  "datetime \<Rightarrow> (string \<Rightarrow> bool) \<Rightarrow> ReservationHandle \<Rightarrow> HeldAmounts \<Rightarrow> string option \<Rightarrow>
     bool option \<Rightarrow> string option \<Rightarrow> HeldAmounts option run" where
  "grow_user now is_free h lack model free strategy_name s =
     (if \<not> grows lack then (s, Inr None)
      else
        bind_run (reserve_budget now [] is_free (top_up_request h lack model free strategy_name))
          (\<lambda>g. return_run (if h_reserved g then Some (h_held g) else None)) s)"

definition opt_amount :: "HeldAmounts option \<Rightarrow> HeldAmounts" where
  "opt_amount v = (case v of None \<Rightarrow> 0 | Some a \<Rightarrow> a)"

text \<open>The row was reclaimed before its top-up: the deltas are given back.\<close>

definition return_growth ::
  "instant \<Rightarrow> ReservationHandle \<Rightarrow> HeldAmounts \<Rightarrow> HeldAmounts option \<Rightarrow> session \<Rightarrow>
     session \<times> ReservationHandle \<times> (reserve_error + unit)" where
  "return_growth now h lack delta s =
     (case (if grows lack then lift_run (release now (scoped_budget_ids h) lack) s else (s, Inr ())) of
        (s1, Inl e) \<Rightarrow> (s1, h, Inl e)
      | (s1, Inr _) \<Rightarrow>
          (let h1 = (if grows lack then h\<lparr>h_scoped_held := h_scoped_held h - lack\<rparr> else h) in
           case delta of
             None \<Rightarrow> (s1, h1, Inr ())
           | Some a \<Rightarrow>
               (case transact_run (update_live_user now (h_user_id h)
                       (release_leg_counters (HeldAmounts (ha_amount a) (ha_tokens a) 0))) s1 of
                  (s2, Inl e) \<Rightarrow> (s2, h1, Inl e)
                | (s2, Inr _) \<Rightarrow>
                    (s2, h1\<lparr>h_held := h_held h1 - HeldAmounts (ha_amount a) (ha_tokens a) 0\<rparr>, Inr ()))))"

definition increase_reservation ::
  "datetime \<Rightarrow> (string \<Rightarrow> bool) \<Rightarrow> ReservationHandle \<Rightarrow> int \<Rightarrow> int \<Rightarrow> string option \<Rightarrow>
     bool option \<Rightarrow> string option \<Rightarrow> session \<Rightarrow> session \<times> ReservationHandle \<times> (reserve_error + unit)" where
  "increase_reservation now is_free h estimate tokens model free strategy_name s =
     (let new_size = max estimate 0; new_tokens = min (max tokens 0) MAX_COUNT_LIMIT;
          on_ceilings = (if h_scoped h \<noteq> [] then lacks new_size new_tokens (h_scoped_held h) else 0);
          on_user = lacks new_size new_tokens (h_held h) in
      if \<not> grows on_ceilings \<and> \<not> grows on_user then (s, h, Inr ())
      else if \<not> h_counts h then (s, h, Inr ())
      else case grow_ceilings (timestamp now) h on_ceilings s of
        (s1, Inl e) \<Rightarrow> (s1, h, Inl e)
      | (s1, Inr h1) \<Rightarrow>
          (case grow_user now is_free h1 on_user model free strategy_name s1 of
             (s2, Inl e) \<Rightarrow> (s2, h1, Inl e)
           | (s2, Inr delta) \<Rightarrow>
               (let a = opt_amount delta;
                    h2 = (case delta of None \<Rightarrow> h1
                      | Some x \<Rightarrow> h1\<lparr>h_held := h_held h1 + HeldAmounts (ha_amount x) (ha_tokens x) 0,
                                     h_reserved := True\<rparr>) in
                if delta = None \<and> \<not> grows on_ceilings then (s2, h2, Inr ())
                else case grow_run (h_reservation_id h2) (ha_amount a) (delta \<noteq> None)
                       (ha_amount on_ceilings) (ha_tokens a) (ha_tokens on_ceilings) s2 of
                  (s3, Inl e) \<Rightarrow> (s3, h2, Inl e)
                | (s3, Inr True) \<Rightarrow> (s3, h2, Inr ())
                | (s3, Inr False) \<Rightarrow> return_growth (timestamp now) h2 on_ceilings delta s3)))"

text \<open>
  \<open>hold_tool_call\<close>: the amount held, \<open>None\<close> where a budget has no room for it. A database error
  leaves the handle as it was.
\<close>

definition http_error :: "reserve_error \<Rightarrow> bool" where
  "http_error e \<longleftrightarrow>
     (case e of UserNotFound _ \<Rightarrow> True | UserBlocked _ \<Rightarrow> True | BudgetExceeded _ _ _ \<Rightarrow> True
      | _ \<Rightarrow> False)"

definition hold_tool_call ::
  "datetime \<Rightarrow> ReservationHandle \<Rightarrow> int \<Rightarrow> string option \<Rightarrow> int \<Rightarrow> session \<Rightarrow>
     session \<times> ReservationHandle \<times> (reserve_error + int option)" where
  "hold_tool_call now h amount strategy_name calls s =
     (let held = max amount 0 * calls;
          target = max (ha_amount (h_held h)) (ha_amount (h_scoped_held h)) + held in
      case increase_reservation now (\<lambda>_. False) h target 0 None (Some False) strategy_name s of
        (s1, h1, Inr _) \<Rightarrow>
          (case transact_run id s1 of
             (s2, Inr _) \<Rightarrow> (s2, h1, Inr (Some held))
           | (s2, Inl e) \<Rightarrow> (s2, h, Inl e))
      | (s1, h1, Inl e) \<Rightarrow>
          (if http_error e then
             (let grown = HeldAmounts (ha_amount (h_scoped_held h1) - ha_amount (h_scoped_held h)) 0 0 in
              case transact_run (release_db (timestamp now) (scoped_budget_ids h1) grown) s1 of
                (s2, Inr _) \<Rightarrow>
                  (s2, h1\<lparr>h_scoped_held := HeldAmounts (ha_amount (h_scoped_held h))
                     (ha_tokens (h_scoped_held h1)) (ha_requests (h_scoped_held h1))\<rparr>, Inr None)
              | (s2, Inl e') \<Rightarrow> (s2, h, Inl e'))
           else (s1, if e = DatabaseFailed then h else h1, Inl e)))"

end
