(* ===== verification/Hold_Laws.thy ===== *)
theory Hold_Laws
  imports Reservations
begin

text \<open>
  What the statements of the budget store do to the counters, read as a map from a row's key to
  its counters. A user row and a ceiling row are two providers of one interface, \<open>hold_table\<close>: a
  table whose rows carry counters that an \<open>UPDATE\<close> by key changes without touching the key. The
  laws of holding and releasing are proved once over it.
\<close>

section \<open>The interface\<close>

definition counters_in ::
  "('r \<Rightarrow> string) \<Rightarrow> ('r \<Rightarrow> bool) \<Rightarrow> ('r \<Rightarrow> counters) \<Rightarrow> 'r list \<Rightarrow> string \<Rightarrow> counters option" where
  "counters_in key live ctr rows i = map_option ctr (find (\<lambda>r. key r = i \<and> live r) rows)"

definition on_keys ::
  "string set \<Rightarrow> (counters \<Rightarrow> counters) \<Rightarrow> (string \<Rightarrow> counters option) \<Rightarrow> string \<Rightarrow> counters option" where
  "on_keys K f m i = (if i \<in> K then map_option f (m i) else m i)"

definition covers :: "(string \<Rightarrow> counters option) \<Rightarrow> (string \<Rightarrow> HeldAmounts) \<Rightarrow> bool" where
  "covers m need \<longleftrightarrow> (\<forall>i c. m i = Some c \<longrightarrow> need i \<le> c_held c)"

lemma on_keys_id [simp]: "on_keys K (\<lambda>c. c) m = m" "on_keys {} f m = m"
  by (auto simp: on_keys_def fun_eq_iff option.map_ident)

lemma on_keys_twice: "on_keys K g (on_keys K f m) = on_keys K (g \<circ> f) m"
  by (auto simp: on_keys_def fun_eq_iff option.map_comp)

lemma on_keys_outside [simp]: "i \<notin> K \<Longrightarrow> on_keys K f m i = m i"
  by (simp add: on_keys_def)

lemma on_keys_cong_on: "(\<And>i c. i \<in> K \<Longrightarrow> m i = Some c \<Longrightarrow> f c = g c) \<Longrightarrow> on_keys K f m = on_keys K g m"
  by (auto simp: on_keys_def fun_eq_iff intro: option.map_cong)

lemma on_keys_same: "(\<And>i c. i \<in> K \<Longrightarrow> m i = Some c \<Longrightarrow> f c = c) \<Longrightarrow> on_keys K f m = m"
proof
  fix i
  assume "\<And>i c. i \<in> K \<Longrightarrow> m i = Some c \<Longrightarrow> f c = c"
  then show "on_keys K f m i = m i" by (cases "m i") (auto simp: on_keys_def)
qed

text \<open>An \<open>UPDATE\<close> of one key behind a guard: it matches exactly when its row passes.\<close>

lemma counters_in_guarded:
  assumes "distinct (map key rows)" and "\<And>r. p r \<Longrightarrow> key r = k \<and> live r"
    and "\<And>r. key (g r) = key r" "\<And>r. live (g r) = live r" "\<And>r. ctr (g r) = f (ctr r)"
  shows "counters_in key live ctr (update_where p g rows) =
      (if 0 < rowcount p rows then on_keys {k} f (counters_in key live ctr rows)
       else counters_in key live ctr rows)"
proof (cases "0 < rowcount p rows")
  case True
  then obtain r where r: "r \<in> set rows" "p r" by (auto simp: rowcount_pos_iff)
  have "update_where p g rows = update_where (\<lambda>r. key r = k \<and> live r) g rows"
  proof (rule update_where_cong)
    fix x assume x: "x \<in> set rows"
    show "p x = (key x = k \<and> live x)"
      using assms(2) r key_unique[OF assms(1) x r(1)] by auto
  qed auto
  moreover have "counters_in key live ctr (update_where (\<lambda>r. key r = k \<and> live r) g rows) i =
      on_keys {k} f (counters_in key live ctr rows) i" for i
    by (induction rows) (auto simp: counters_in_def on_keys_def assms(3-5))
  ultimately show ?thesis using True by (simp add: fun_eq_iff)
next
  case False
  then have "update_where p g rows = rows"
    by (intro update_where_none) (auto simp: rowcount_zero_iff)
  then show ?thesis using False by simp
qed

locale hold_table =
  fixes key :: "'r \<Rightarrow> string" and live :: "'r \<Rightarrow> bool" and ctr :: "'r \<Rightarrow> counters"
    and touch :: "instant \<Rightarrow> (counters \<Rightarrow> counters) \<Rightarrow> 'r \<Rightarrow> 'r"
  assumes key_touch: "key (touch now f r) = key r"
    and live_touch: "live (touch now f r) = live r"
    and ctr_touch: "ctr (touch now f r) = f (ctr r)"
begin

lemma update_keys:
  "counters_in key live ctr (update_where (\<lambda>r. key r \<in> K \<and> live r) (touch now f) rows) =
     on_keys K f (counters_in key live ctr rows)"
proof
  fix i
  show "counters_in key live ctr (update_where (\<lambda>r. key r \<in> K \<and> live r) (touch now f) rows) i =
      on_keys K f (counters_in key live ctr rows) i"
    by (induction rows)
       (auto simp: counters_in_def on_keys_def key_touch live_touch ctr_touch)
qed

lemma counters_row:
  assumes "distinct (map key rows)" "r \<in> set rows" "live r"
  shows "counters_in key live ctr rows (key r) = Some (ctr r)"
  using assms by (induction rows) (force simp: counters_in_def)+

lemma update_key:
  "counters_in key live ctr (update_where (\<lambda>r. key r = k) (touch now f) rows) =
     on_keys {k} f (counters_in key live ctr rows)"
proof
  fix i
  show "counters_in key live ctr (update_where (\<lambda>r. key r = k) (touch now f) rows) i =
      on_keys {k} f (counters_in key live ctr rows) i"
    by (induction rows)
       (auto simp: counters_in_def on_keys_def key_touch live_touch ctr_touch)
qed

text \<open>An \<open>UPDATE\<close> of one key behind a guard: it matches exactly when its row passes.\<close>

lemma update_guarded:
  assumes "distinct (map key rows)"
    and "\<And>r. p r \<Longrightarrow> key r = k \<and> live r"
  shows "counters_in key live ctr (update_where p (touch now f) rows) =
      (if 0 < rowcount p rows then on_keys {k} f (counters_in key live ctr rows)
       else counters_in key live ctr rows)"
  using assms by (rule counters_in_guarded) (simp_all add: key_touch live_touch ctr_touch)

text \<open>A hold and its release cancel on every key.\<close>

lemma release_after_hold:
  assumes "0 \<le> a" and "\<And>i c. m i = Some c \<Longrightarrow> 0 \<le> c_held c"
  shows "on_keys K (release_counters a) (on_keys K (hold_counters a) m) = m"
  unfolding on_keys_twice using assms by (intro on_keys_same) (simp add: release_hold_counters)

end

text \<open>An \<open>UPDATE\<close> that leaves the holds alone.\<close>

lemma counters_in_same_held:
  assumes "\<And>r. key (g r) = key r" "\<And>r. live (g r) = live r" "\<And>r. c_held (ctr (g r)) = c_held (ctr r)"
  shows "counters_in key live ctr (update_where p g rows) i = Some c' \<Longrightarrow>
    \<exists>c. counters_in key live ctr rows i = Some c \<and> c_held c' = c_held c"
  by (induction rows) (auto simp: counters_in_def assms split: if_splits)

interpretation ceilings: hold_table s_id "\<lambda>_. True" s_counters touch_counters
  by unfold_locales (simp_all add: touch_counters_def)

interpretation users: hold_table u_user_id "\<lambda>u. \<not> u_deleted u" u_counters touch_user
  by unfold_locales (simp_all add: touch_user_def)

section \<open>The two tables of counters\<close>

definition ceiling_counters :: "db \<Rightarrow> string \<Rightarrow> counters option" where
  "ceiling_counters d = counters_in s_id (\<lambda>_. True) s_counters (d_scoped d)"

definition user_counters :: "db \<Rightarrow> string \<Rightarrow> counters option" where
  "user_counters d = counters_in u_user_id (\<lambda>u. \<not> u_deleted u) u_counters (d_users d)"

text \<open>Keys are unique, as the primary keys are.\<close>

definition keys_unique :: "db \<Rightarrow> bool" where
  "keys_unique d \<longleftrightarrow>
     distinct (map s_id (d_scoped d)) \<and> distinct (map u_user_id (d_users d)) \<and>
     distinct (map rv_id (d_reservations d))"

definition held_nonneg :: "(string \<Rightarrow> counters option) \<Rightarrow> bool" where
  "held_nonneg m \<longleftrightarrow> (\<forall>i c. m i = Some c \<longrightarrow> 0 \<le> c_held c)"

lemma held_nonneg_on_keys:
  "held_nonneg m \<Longrightarrow> (\<And>c. 0 \<le> c_held c \<Longrightarrow> 0 \<le> c_held (f c)) \<Longrightarrow> held_nonneg (on_keys K f m)"
  by (auto simp: held_nonneg_def on_keys_def split: if_splits)

lemma ceiling_counters_frame [simp]:
  "ceiling_counters (d\<lparr>d_users := us\<rparr>) = ceiling_counters d"
  "ceiling_counters (d\<lparr>d_reservations := rs\<rparr>) = ceiling_counters d"
  "ceiling_counters (d\<lparr>d_lines := ls\<rparr>) = ceiling_counters d"
  "ceiling_counters (d\<lparr>d_reset_logs := gs\<rparr>) = ceiling_counters d"
  by (simp_all add: ceiling_counters_def)

lemma user_counters_frame [simp]:
  "user_counters (d\<lparr>d_scoped := us\<rparr>) = user_counters d"
  "user_counters (d\<lparr>d_reservations := rs\<rparr>) = user_counters d"
  "user_counters (d\<lparr>d_lines := ls\<rparr>) = user_counters d"
  "user_counters (d\<lparr>d_reset_logs := gs\<rparr>) = user_counters d"
  by (simp_all add: user_counters_def)

lemma update_live_user_counters [simp]:
  "user_counters (update_live_user now i f d) = on_keys {i} f (user_counters d)"
  "ceiling_counters (update_live_user now i f d) = ceiling_counters d"
  using users.update_keys[of "{i}" now f "d_users d"]
  by (simp_all add: user_counters_def update_live_user_def update_users_def ceiling_counters_def
      live_user_def[abs_def])

lemma update_live_user_tables [simp]:
  "d_scoped (update_live_user now i f d) = d_scoped d"
  "d_reservations (update_live_user now i f d) = d_reservations d"
  "d_lines (update_live_user now i f d) = d_lines d"
  "d_budgets (update_live_user now i f d) = d_budgets d"
  "map u_user_id (d_users (update_live_user now i f d)) = map u_user_id (d_users d)"
  by (simp_all add: update_live_user_def update_users_def touch_user_def map_update_where)

lemma update_counters_effect:
  "ceiling_counters (update_counters now ids some_value f d) =
     (if some_value then on_keys (set ids) f (ceiling_counters d) else ceiling_counters d)"
  using ceilings.update_keys[of "set ids" now f "d_scoped d"]
  by (auto simp: update_counters_def update_scoped_def ceiling_counters_def)

lemma update_counters_tables [simp]:
  "d_users (update_counters now ids v f d) = d_users d"
  "d_reservations (update_counters now ids v f d) = d_reservations d"
  "d_lines (update_counters now ids v f d) = d_lines d"
  "d_budgets (update_counters now ids v f d) = d_budgets d"
  "map s_id (d_scoped (update_counters now ids v f d)) = map s_id (d_scoped d)"
  by (simp_all add: update_counters_def update_scoped_def touch_counters_def map_update_where)

lemma some_positive_zero:
  "0 \<le> a \<Longrightarrow> \<not> some_positive a \<Longrightarrow> a = 0"
  by (auto simp: some_positive_def amount_le_iff intro!: amount_eqI)

lemma release_counters_nothing: "\<not> some_positive a \<Longrightarrow> release_counters a = (\<lambda>c. c)"
  by (rule ext, rule counters.equality) (auto simp: release_counters_def release_amounts_def release_axis_def some_positive_def
      intro: amount_eqI)

lemma release_db_counters [simp]:
  "ceiling_counters (release_db now ids a d) = on_keys (set ids) (release_counters a) (ceiling_counters d)"
  by (auto simp: release_db_def release_holds_def update_counters_effect release_counters_nothing)

lemma release_db_tables [simp]:
  "d_users (release_db now ids a d) = d_users d"
  "d_reservations (release_db now ids a d) = d_reservations d"
  "d_lines (release_db now ids a d) = d_lines d"
  "d_budgets (release_db now ids a d) = d_budgets d"
  "map s_id (d_scoped (release_db now ids a d)) = map s_id (d_scoped d)"
  "user_counters (release_db now ids a d) = user_counters d"
  by (simp_all add: release_db_def release_holds_def user_counters_def)

lemma release_is_db:
  "release now ids a s = (if ids = [] \<or> \<not> some_positive a then (s, Inr ())
     else transact (release_db now ids a) s)"
  by (auto simp: release_def release_db_def transact_def split: prod.splits)

lemma hold_effect:
  assumes "keys_unique d"
  shows "ceiling_counters (fst (hold now i amount t q n d)) =
      (if snd (hold now i amount t q n d)
       then on_keys {i} (hold_counters (hold_of amount t q)) (ceiling_counters d)
       else ceiling_counters d)"
  using ceilings.update_guarded[of "d_scoped d" "hold_gate d i amount t q n" i now "hold_counters (hold_of amount t q)"] assms
  by (simp add: hold_def Let_def update_scoped_def ceiling_counters_def keys_unique_def hold_gate_def)

lemma hold_tables [simp]:
  "d_users (fst (hold now i amount t q n d)) = d_users d"
  "d_reservations (fst (hold now i amount t q n d)) = d_reservations d"
  "d_lines (fst (hold now i amount t q n d)) = d_lines d"
  "d_budgets (fst (hold now i amount t q n d)) = d_budgets d"
  "map s_id (d_scoped (fst (hold now i amount t q n d))) = map s_id (d_scoped d)"
  "user_counters (fst (hold now i amount t q n d)) = user_counters d"
  "keys_unique (fst (hold now i amount t q n d)) = keys_unique d"
  by (simp_all add: hold_def Let_def update_scoped_def touch_counters_def map_update_where
      user_counters_def keys_unique_def)

lemma keys_unique_frame [simp]:
  "keys_unique (release_db now ids a d) = keys_unique d"
  "keys_unique (update_live_user now i f d) = keys_unique d"
  by (simp_all add: keys_unique_def)

end
