(* ===== verification/Enforcement_Laws.thy ===== *)
theory Enforcement_Laws
  imports Hold_Laws
begin

text \<open>
  What \<open>reserve\<close> of \<open>Scoped_Enforcement\<close> leaves behind, on every outcome of the database: all the
  holds, none of them, or, after a database error, the holds that could not be given back.
  The order of the ceilings is total and the refused axis is one the gate refused on.
\<close>

section \<open>Algebra of holds on a set of ceilings\<close>

lemma on_keys_union:
  "K \<inter> L = {} \<Longrightarrow> on_keys K f (on_keys L f m) = on_keys (K \<union> L) f m"
  by (auto simp: on_keys_def fun_eq_iff)

lemma release_some_of_holds:
  assumes "0 \<le> a" "held_nonneg m" "T \<subseteq> K"
  shows "on_keys T (release_counters a) (on_keys K (hold_counters a) m) =
    on_keys (K - T) (hold_counters a) m"
proof
  fix i
  have "m i = Some c \<Longrightarrow> release_counters a (hold_counters a c) = c" for c
    using assms(1,2) by (auto simp: held_nonneg_def intro: release_hold_counters)
  then show "on_keys T (release_counters a) (on_keys K (hold_counters a) m) i =
      on_keys (K - T) (hold_counters a) m i"
    using assms(3) by (cases "m i") (auto simp: on_keys_def)
qed

text \<open>
  The tables a hold or a release on ceilings does not touch, and the keys it keeps.
\<close>

definition same_but_ceilings :: "db \<Rightarrow> db \<Rightarrow> bool" where
  "same_but_ceilings d d' \<longleftrightarrow>
     d_users d' = d_users d \<and> d_reservations d' = d_reservations d \<and> d_lines d' = d_lines d \<and>
     d_budgets d' = d_budgets d \<and> map s_id (d_scoped d') = map s_id (d_scoped d)"

lemma same_but_ceilings_refl [simp]: "same_but_ceilings d d"
  by (simp add: same_but_ceilings_def)

lemma same_but_ceilings_trans:
  "same_but_ceilings d e \<Longrightarrow> same_but_ceilings e f \<Longrightarrow> same_but_ceilings d f"
  by (simp add: same_but_ceilings_def)

lemma same_but_ceilings_steps [simp]:
  "same_but_ceilings d (fst (hold now i amount t q n d))"
  "same_but_ceilings d (release_db now ids a d)"
  by (simp_all add: same_but_ceilings_def)

lemma same_but_ceilings_keys: "same_but_ceilings d d' \<Longrightarrow> keys_unique d' = keys_unique d"
  by (simp add: same_but_ceilings_def keys_unique_def)

lemma same_but_ceilings_users: "same_but_ceilings d d' \<Longrightarrow> user_counters d' = user_counters d"
  by (simp add: same_but_ceilings_def user_counters_def)

section \<open>Releasing under failures\<close>

text \<open>A release ran in full, or not at all and then some interaction of it failed.\<close>

lemma release_cases:
  assumes "release now ids a s = (s', r)"
  obtains "ceiling_counters (ss_db s') = on_keys (set ids) (release_counters a) (ceiling_counters (ss_db s))"
      "same_but_ceilings (ss_db s) (ss_db s')"
  | "ss_db s' = ss_db s" "r = Inl DatabaseError" "failures s' < failures s"
proof (cases "ids = [] \<or> \<not> some_positive a")
  case True
  then have "s' = s" using assms by (auto simp: release_is_db)
  moreover have "on_keys (set ids) (release_counters a) m = m" for m
    using True by (auto simp: release_counters_nothing)
  ultimately show ?thesis using that(1) by simp
next
  case False
  then have t: "transact (release_db now ids a) s = (s', r)" using assms by (simp add: release_is_db)
  from transact_db[OF t] show ?thesis
  proof
    assume "ss_db s' = ss_db s \<and> r = Inl DatabaseError"
    then show ?thesis using that(2) transact_failures[OF t] by simp
  qed (use that(1) in simp)
qed

lemma give_back_cases:
  obtains "ceiling_counters (ss_db (give_back now ids a s)) =
        on_keys (set ids) (release_counters a) (ceiling_counters (ss_db s))"
      "same_but_ceilings (ss_db s) (ss_db (give_back now ids a s))"
  | "ss_db (give_back now ids a s) = ss_db s" "failures (give_back now ids a s) < failures s"
proof -
  obtain ok s1 where st: "statement s = (ok, s1)" by (cases "statement s")
  have db: "ss_db s1 = ss_db s" using st by (rule statement_db)
  note fails = statement_failures[OF st]
  show ?thesis
  proof (cases ok)
    case True
    obtain s2 r where rel: "release now ids a s1 = (s2, r)" by (cases "release now ids a s1")
    have e: "give_back now ids a s = s2" using st True rel by (simp add: give_back_def)
    from rel show ?thesis
      by (cases rule: release_cases) (use e db fails True that in simp_all)
  next
    case False
    then have "give_back now ids a s = s1" using st by (simp add: give_back_def)
    then show ?thesis using db fails False that(2) by simp
  qed
qed

section \<open>All or nothing\<close>

text \<open>
  What a database error may leave held, over the counters \<open>m\<close> from before. The request was being held on
  the \<open>j\<close>th of its ceilings, \<open>ids ! j\<close>, or was refused there. The holds before it have been given back, and of its
  own hold nothing is left unless its commit landed though it reported failure; or giving back failed
  too, and the holds stay: that takes a second failure, or a refusal by that ceiling.
\<close>

definition error_leaves ::
  "instant \<Rightarrow> int option \<Rightarrow> int \<Rightarrow> int \<Rightarrow> bool \<Rightarrow> string list \<Rightarrow> (string \<Rightarrow> counters option) \<Rightarrow>
     session \<Rightarrow> session \<Rightarrow> string set \<Rightarrow> bool" where
  "error_leaves now amount t q n ids m s s' K \<longleftrightarrow>
     (\<exists>j < length ids.
        (K = {} \<or> K = {ids ! j} \<and> FailsLanded \<in> set (ss_script s))
      \<or> (K = set (take j ids) \<or> K = set (take (Suc j) ids) \<and> FailsLanded \<in> set (ss_script s))
          \<and> failures s' + 2 \<le> failures s
      \<or> K = set (take j ids) \<and> failures s' < failures s
          \<and> (\<exists>d. same_but_ceilings (ss_db s) d
               \<and> ceiling_counters d = on_keys K (hold_counters (hold_of amount t q)) m
               \<and> \<not> snd (hold now (ids ! j) amount t q n d)))"

text \<open>
  \<open>reserve_from\<close> started with \<open>taken\<close> held over the baseline \<open>m\<close>; \<open>ids\<close> are those and the ceilings to come.
\<close>

definition outcome_ok ::
  "instant \<Rightarrow> int option \<Rightarrow> int \<Rightarrow> int \<Rightarrow> bool \<Rightarrow> (string \<Rightarrow> counters option) \<Rightarrow> string list \<Rightarrow> ApplicableBudget list \<Rightarrow>
     session \<Rightarrow> session \<Rightarrow> database_error + ApplicableBudget option \<Rightarrow> bool" where
  "outcome_ok now amount t q n m ids bs s s' res \<longleftrightarrow>
     (case res of
        Inr None \<Rightarrow> ceiling_counters (ss_db s') = on_keys (set ids) (hold_counters (hold_of amount t q)) m
      | Inr (Some b) \<Rightarrow> b \<in> set bs \<and> ceiling_counters (ss_db s') = m
      | Inl _ \<Rightarrow> \<exists>K. ceiling_counters (ss_db s') = on_keys K (hold_counters (hold_of amount t q)) m
          \<and> error_leaves now amount t q n ids m s s' K)
     \<and> same_but_ceilings (ss_db s) (ss_db s')"

text \<open>An outcome reached after some interactions that succeeded.\<close>

lemma outcome_ok_after:
  assumes "outcome_ok now amount t q n m ids bs s2 s' res" "failures s = failures s2"
    "set (ss_script s2) \<subseteq> set (ss_script s)" "same_but_ceilings (ss_db s) (ss_db s2)" "set bs \<subseteq> set cs"
  shows "outcome_ok now amount t q n m ids cs s s' res"
proof -
  have same: "same_but_ceilings (ss_db s2) d \<Longrightarrow> same_but_ceilings (ss_db s) d" for d
    using assms(4) by (rule same_but_ceilings_trans)
  have "error_leaves now amount t q n ids m s s' K" if "error_leaves now amount t q n ids m s2 s' K" for K
    using that unfolding error_leaves_def assms(2)
    by (elim ex_forward conj_forward disj_forward) (use assms(3) same in auto)
  then show ?thesis
    using assms(1,5) same unfolding outcome_ok_def
    by (auto split: sum.splits option.splits)
qed

lemma outcome_error:
  assumes "ceiling_counters (ss_db s') = on_keys K (hold_counters (hold_of amount t q)) m"
    "error_leaves now amount t q n ids m s s' K" "same_but_ceilings (ss_db s) (ss_db s')"
  shows "outcome_ok now amount t q n m ids bs s s' (Inl e)"
  using assms unfolding outcome_ok_def sum.case by blast

lemma error_given_back:
  "j < length ids \<Longrightarrow> K = {} \<or> K = {ids ! j} \<and> FailsLanded \<in> set (ss_script s) \<Longrightarrow>
     error_leaves now amount t q n ids m s s' K"
  unfolding error_leaves_def by blast

lemma error_kept:
  "j < length ids \<Longrightarrow> K = set (take j ids) \<or> K = set (take (Suc j) ids) \<and> FailsLanded \<in> set (ss_script s) \<Longrightarrow>
     failures s' + 2 \<le> failures s \<Longrightarrow> error_leaves now amount t q n ids m s s' K"
  unfolding error_leaves_def by blast

text \<open>An interaction failed while the first \<open>j\<close> ceilings were held, or with the next one just held too.\<close>

lemma give_back_outcome:
  assumes "0 \<le> a" "a = hold_of amount t q" "held_nonneg m" "j < length ids" "distinct ids" "set taken = set (take j ids)"
    and "ceiling_counters (ss_db s2) = on_keys (set taken) (hold_counters a) m
      \<or> ceiling_counters (ss_db s2) = on_keys (set (take (Suc j) ids)) (hold_counters a) m
         \<and> FailsLanded \<in> set (ss_script s)"
    and "failures s = failures s2 + 1" "same_but_ceilings (ss_db s) (ss_db s2)"
  shows "outcome_ok now amount t q n m ids bs s (give_back now taken a s2) (Inl DatabaseError)"
proof -
  have next_id: "set (take (Suc j) ids) - set taken = {ids ! j}" "set taken \<subseteq> set (take (Suc j) ids)"
  proof -
    have "ids ! j \<notin> set (take j ids)"
      using assms(4,5) id_take_nth_drop[OF assms(4)] by (metis distinct_append not_distinct_conv_prefix)
    then show "set (take (Suc j) ids) - set taken = {ids ! j}" "set taken \<subseteq> set (take (Suc j) ids)"
      using assms(4,6) by (auto simp: take_Suc_conv_app_nth)
  qed
  let ?s' = "give_back now taken a s2"
  show ?thesis
  proof (rule give_back_cases[of now taken a s2])
    assume m': "ceiling_counters (ss_db ?s') = on_keys (set taken) (release_counters a) (ceiling_counters (ss_db s2))"
      and same: "same_but_ceilings (ss_db s2) (ss_db ?s')"
    obtain K where "K = {} \<or> K = {ids ! j} \<and> FailsLanded \<in> set (ss_script s)"
        "ceiling_counters (ss_db ?s') = on_keys K (hold_counters a) m"
      using assms(7) m' next_id release_some_of_holds[OF assms(1,3)] by fastforce
    then show ?thesis
      by (intro outcome_error[OF _ error_given_back[OF assms(4)] same_but_ceilings_trans[OF assms(9) same]])
         (simp_all flip: assms(2))
  next
    assume kept: "ss_db ?s' = ss_db s2" "failures ?s' < failures s2"
    obtain K where "K = set (take j ids) \<or> K = set (take (Suc j) ids) \<and> FailsLanded \<in> set (ss_script s)"
        "ceiling_counters (ss_db ?s') = on_keys K (hold_counters a) m"
      using assms(6,7) kept(1) by force
    moreover have "failures ?s' + 2 \<le> failures s" using kept(2) assms(8) by simp
    ultimately show ?thesis
      using assms(9) kept(1) by (intro outcome_error[OF _ error_kept[OF assms(4)]]) (simp_all flip: assms(2))
  qed
qed

lemma reserve_from_outcome:
  assumes "reserve_from now bs taken amount t q n s = (s', res)"
    and "a = hold_of amount t q" "0 \<le> a" "held_nonneg m" "keys_unique (ss_db s)"
    and "ceiling_counters (ss_db s) = on_keys (set taken) (hold_counters a) m"
    and "distinct (taken @ map ab_budget_id bs)"
  shows "outcome_ok now amount t q n m (taken @ map ab_budget_id bs) bs s s' res"
  using assms
proof (induction bs arbitrary: taken s)
  case Nil
  then show ?case by (auto simp: outcome_ok_def)
next
  case (Cons b bs)
  let ?i = "ab_budget_id b" and ?ids = "taken @ map ab_budget_id (b # bs)" and ?j = "length taken"
  note a = Cons.prems(2)[symmetric] and pos = Cons.prems(3) and nn = Cons.prems(4)
  have j: "?j < length ?ids" "set taken = set (take ?j ?ids)" "?ids ! ?j = ?i"
    "set (take (Suc ?j) ?ids) = insert ?i (set taken)" by auto
  obtain ok1 s1 where st: "statement s = (ok1, s1)" by (cases "statement s")
  have db1: "ss_db s1 = ss_db s" using st by (rule statement_db)
  have m1: "ceiling_counters (ss_db s1) = on_keys (set taken) (hold_counters a) m"
    using Cons.prems(6) db1 by simp
  note gives = give_back_outcome[OF pos Cons.prems(2) nn j(1) Cons.prems(7) j(2)]
  show ?case
  proof (cases ok1)
    case False
    then have "s' = give_back now taken a s1" "res = Inl DatabaseError"
      using Cons.prems(1) st a by (auto simp: Let_def)
    then show ?thesis using gives[of s1 s] m1 db1 False statement_failures[OF st] by simp
  next
    case True
    obtain d' held where h: "hold now ?i amount t q n (ss_db s1) = (d', held)"
      by (cases "hold now ?i amount t q n (ss_db s1)")
    obtain ok2 s2 where c: "commit_tx d' s1 = (ok2, s2)" by (cases "commit_tx d' s1")
    define T where "T = (if held then insert ?i (set taken) else set taken)"
    have fresh: "?i \<notin> set taken" using Cons.prems(7) by auto
    have md: "ceiling_counters d' = on_keys T (hold_counters a) m"
      using hold_effect[of "ss_db s1" now ?i amount t q n] Cons.prems(5) db1 m1 h a fresh
      by (simp add: T_def on_keys_union)
    have same: "same_but_ceilings (ss_db s) d'"
      using same_but_ceilings_steps(1)[of "ss_db s1" now ?i amount t q n] h db1 by (metis fst_conv)
    have script: "set (ss_script s1) \<subseteq> set (ss_script s)" "set (ss_script s2) \<subseteq> set (ss_script s)"
      using statement_script[OF st] commit_script[OF c] by auto
    have fails: "failures s = failures s1" using statement_failures[OF st] True by simp
    show ?thesis
    proof (cases ok2)
      case False
      have r: "s' = give_back now taken a s2" "res = Inl DatabaseError"
        using Cons.prems(1) st True h c False a by (auto simp: Let_def)
      have f2: "failures s = failures s2 + 1" using commit_failures[OF c] False fails by simp
      from c show ?thesis
      proof (cases rule: commit_cases)
        case 2
        then have "ceiling_counters (ss_db s2) = on_keys (set taken) (hold_counters a) m
            \<or> ceiling_counters (ss_db s2) = on_keys (set (take (Suc ?j) ?ids)) (hold_counters a) m
              \<and> FailsLanded \<in> set (ss_script s)"
          using md script by (auto simp: T_def j(4))
        from gives[OF this f2] show ?thesis using r 2(2) same by simp
      next
        case 3
        then show ?thesis using gives[of s2 s] m1 db1 f2 r by simp
      qed (use False in simp)
    next
      case ok: True
      have db2: "ss_db s2 = d'" using commit_db[OF c] ok by simp
      have f2: "failures s = failures s2" using commit_failures[OF c] ok fails by simp
      show ?thesis
      proof (cases held)
        case False
        obtain s3 x where rel: "release now taken a s2 = (s3, x)" by (cases "release now taken a s2")
        have r: "s' = s3" "res = (case x of Inl e \<Rightarrow> Inl e | Inr _ \<Rightarrow> Inr (Some b))"
          using Cons.prems(1) st True h c ok False rel a
          by (auto simp: Let_def split: sum.splits)
        have m2: "ceiling_counters (ss_db s2) = on_keys (set taken) (hold_counters a) m"
          using db2 md False by (simp add: T_def)
        from rel show ?thesis
        proof (cases rule: release_cases)
          case 1
          then have m': "ceiling_counters (ss_db s') = m"
            using m2 r by (simp add: release_some_of_holds[OF pos nn])
          moreover have "same_but_ceilings (ss_db s) (ss_db s')"
            using 1(2) r(1) db2 same by (auto intro: same_but_ceilings_trans)
          moreover have "error_leaves now amount t q n ?ids m s s' {}"
            unfolding error_leaves_def using j(1) by blast
          ultimately show ?thesis
            using r(2) unfolding outcome_ok_def by (cases x) (auto intro!: exI[of _ "{}"])
        next
          case 2
          have "\<not> snd (hold now (?ids ! ?j) amount t q n (ss_db s1))" using h False j(3) by simp
          moreover have "same_but_ceilings (ss_db s) (ss_db s1)" using db1 by simp
          ultimately have "error_leaves now amount t q n ?ids m s s' (set taken)"
            unfolding error_leaves_def using j(1,2) r(1) 2(3) f2 m1 a by metis
          then show ?thesis using r m2 2 db2 same a unfolding outcome_ok_def by auto
        qed
      next
        case True
        have rec: "reserve_from now bs (taken @ [?i]) amount t q n s2 = (s', res)"
          using Cons.prems(1) st \<open>ok1\<close> h c ok True by (simp add: Let_def)
        have keys: "keys_unique (ss_db s2)"
          using Cons.prems(5) db2 same same_but_ceilings_keys by metis
        have m2: "ceiling_counters (ss_db s2) = on_keys (set (taken @ [?i])) (hold_counters a) m"
          using db2 md True by (simp add: T_def)
        have dist: "distinct ((taken @ [?i]) @ map ab_budget_id bs)" using Cons.prems(7) by auto
        have "outcome_ok now amount t q n m ((taken @ [?i]) @ map ab_budget_id bs) bs s2 s' res"
          by (rule Cons.IH[OF rec Cons.prems(2,3,4) keys m2 dist])
        from outcome_ok_after[OF this f2 script(2), of "b # bs"] show ?thesis using db2 same by auto
      qed
    qed
  qed
qed

lemma reserve_outcome:
  assumes "reserve now bs amount t q n s = (s', res)"
    and "0 \<le> hold_of amount t q" "held_nonneg (ceiling_counters (ss_db s))" "keys_unique (ss_db s)"
    and "distinct (map ab_budget_id bs)"
  shows "outcome_ok now amount t q n (ceiling_counters (ss_db s)) (map ab_budget_id bs) bs s s' res"
  using reserve_from_outcome[of now bs "[]" amount t q n s s' res] assms
  by (simp add: reserve_def)

section \<open>The caps are kept\<close>

text \<open>A request with no dollar amount is not held to the dollar cap.\<close>

definition dollar_cap :: "int option \<Rightarrow> int option \<Rightarrow> int option" where
  "dollar_cap amount cap = (if amount = None then None else cap)"

definition capped :: "int option \<Rightarrow> db \<Rightarrow> string \<Rightarrow> bool" where
  "capped amount d i \<longleftrightarrow>
     (\<forall>r \<in> set (d_scoped d). s_id r = i \<longrightarrow>
        within_caps (s_counters r) (dollar_cap amount (cap_of d b_max_budget r)) (cap_of d b_token_limit r)
          (cap_of d b_request_limit r))"

lemma touch_counters_sel [simp]:
  "s_id (touch_counters now f r) = s_id r" "s_counters (touch_counters now f r) = f (s_counters r)"
  by (simp_all add: touch_counters_def)

lemma cap_of_touch [simp]: "cap_of d col (touch_counters now f r) = cap_of d col r"
  by (simp add: cap_of_def budget_of_def touch_counters_def)

lemma cap_of_budgets: "d_budgets d' = d_budgets d \<Longrightarrow> cap_of d' col r = cap_of d col r"
  by (simp add: cap_of_def budget_of_def)

lemma hold_rows:
  "r' \<in> set (d_scoped (fst (hold now i amount t q n d))) \<longleftrightarrow>
     (\<exists>r \<in> set (d_scoped d). r' =
        (if hold_gate d i amount t q n r
         then touch_counters now (hold_counters (hold_of amount t q)) r else r))"
  by (simp add: hold_def Let_def update_scoped_def in_update_where_iff)

lemma hold_capped:
  assumes "keys_unique d" and "hold now i amount t q n d = (d', True)"
  shows "capped amount d' i"
  unfolding capped_def
proof (intro ballI impI)
  fix r' assume r': "r' \<in> set (d_scoped d')" "s_id r' = i"
  have b: "d_budgets d' = d_budgets d" using hold_tables(4) assms(2) by (metis fst_conv)
  obtain r where r: "r \<in> set (d_scoped d)"
    and e: "r' = (if hold_gate d i amount t q n r
         then touch_counters now (hold_counters (hold_of amount t q)) r else r)"
    using r'(1) hold_rows[of r' now i amount t q n d] assms(2) by auto
  obtain x where x: "x \<in> set (d_scoped d)" "hold_gate d i amount t q n x"
    using assms(2) by (auto simp: hold_def Let_def rowcount_pos_iff)
  have "s_id r = i" using r'(2) e by (auto simp: touch_counters_def split: if_splits)
  then have "r = x"
    using key_unique[of s_id "d_scoped d" r x] assms(1) r x by (auto simp: keys_unique_def hold_gate_def)
  then have gate: "hold_gate d i amount t q n r" using x by simp
  then have "within_caps (hold_counters (hold_of amount t q) (s_counters r)) (dollar_cap amount (cap_of d b_max_budget r))
      (cap_of d b_token_limit r) (cap_of d b_request_limit r)"
    by (auto simp: hold_gate_def dollar_cap_def dest: admitted_within_caps)
  then show "within_caps (s_counters r') (dollar_cap amount (cap_of d' b_max_budget r')) (cap_of d' b_token_limit r')
      (cap_of d' b_request_limit r')"
    using e gate by (simp add: cap_of_budgets[OF b])
qed

lemma hold_keeps_capped:
  assumes "capped amount d j" "j \<noteq> i"
  shows "capped amount (fst (hold now i amount t q n d)) j"
  unfolding capped_def
proof (intro ballI impI)
  fix r' assume r': "r' \<in> set (d_scoped (fst (hold now i amount t q n d)))" "s_id r' = j"
  then obtain r where r: "r \<in> set (d_scoped d)"
    and e: "r' = (if hold_gate d i amount t q n r
         then touch_counters now (hold_counters (hold_of amount t q)) r else r)"
    using hold_rows by blast
  have "s_id r = j" using e r'(2) by (simp split: if_splits)
  then have "\<not> hold_gate d i amount t q n r" using assms(2) by (simp add: hold_gate_def)
  then have "r' = r" using e by simp
  then show "within_caps (s_counters r') (dollar_cap amount (cap_of (fst (hold now i amount t q n d)) b_max_budget r'))
      (cap_of (fst (hold now i amount t q n d)) b_token_limit r')
      (cap_of (fst (hold now i amount t q n d)) b_request_limit r')"
    using assms(1) r \<open>s_id r = j\<close> unfolding capped_def cap_of_budgets[OF hold_tables(4)] by blast
qed

lemma reserve_from_capped:
  assumes "reserve_from now bs taken amount t q n s = (s', Inr None)"
    and "keys_unique (ss_db s)" and "\<forall>i \<in> set taken. capped amount (ss_db s) i"
    and "distinct (taken @ map ab_budget_id bs)"
  shows "\<forall>i \<in> set taken \<union> ab_budget_id ` set bs. capped amount (ss_db s') i"
  using assms
proof (induction bs arbitrary: taken s)
  case (Cons b bs)
  obtain s1 where st: "statement s = (True, s1)"
    using Cons.prems(1) by (cases "statement s") (auto simp: Let_def split: bool.splits)
  obtain d' held where h: "hold now (ab_budget_id b) amount t q n (ss_db s1) = (d', held)"
    by (cases "hold now (ab_budget_id b) amount t q n (ss_db s1)")
  obtain s2 where c: "commit_tx d' s1 = (True, s2)" and held: "held"
    and rec: "reserve_from now bs (taken @ [ab_budget_id b]) amount t q n s2 = (s', Inr None)"
    using Cons.prems(1) st h
    by (cases "commit_tx d' s1") (auto simp: Let_def split: bool.splits if_splits sum.splits prod.splits)
  have d: "ss_db s1 = ss_db s" "ss_db s2 = d'" using st c commit_db by auto
  have k: "keys_unique (ss_db s2)"
    using hold_tables(7)[of now "ab_budget_id b" amount t q n "ss_db s1"] Cons.prems(2) d h
    by (metis fst_conv)
  have all: "\<forall>i \<in> set (taken @ [ab_budget_id b]). capped amount (ss_db s2) i"
  proof
    fix i assume i: "i \<in> set (taken @ [ab_budget_id b])"
    show "capped amount (ss_db s2) i"
    proof (cases "i = ab_budget_id b")
      case True
      then show ?thesis using hold_capped[of "ss_db s1" now i amount t q n d'] h held d Cons.prems(2) by simp
    next
      case False
      then have "capped amount (ss_db s1) i" using Cons.prems(3) i d by auto
      from hold_keeps_capped[OF this False, of now t q n] show ?thesis using h d by simp
    qed
  qed
  have "distinct ((taken @ [ab_budget_id b]) @ map ab_budget_id bs)" using Cons.prems(4) by auto
  from Cons.IH[OF rec k all this] show ?case by auto
qed simp

section \<open>The refused axis\<close>

lemma usd_decimal_compare [simp]:
  "usd_decimal a + usd_decimal b \<le> usd_decimal c \<longleftrightarrow> a + b \<le> c"
  "usd_decimal a + usd_decimal b + usd_decimal e \<le> usd_decimal c \<longleftrightarrow> a + b + e \<le> c"
  "usd_decimal a + usd_decimal b < usd_decimal c \<longleftrightarrow> a + b < c"
proof -
  have "usd_decimal a + usd_decimal b = usd_decimal (a + b)" for a b
    by (simp add: usd_decimal_def add_divide_distrib)
  moreover have "usd_decimal a \<le> usd_decimal b \<longleftrightarrow> a \<le> b" "usd_decimal a < usd_decimal b \<longleftrightarrow> a < b" for a b
    by (simp_all add: usd_decimal_def divide_le_cancel divide_less_cancel)
  ultimately show
    "usd_decimal a + usd_decimal b \<le> usd_decimal c \<longleftrightarrow> a + b \<le> c"
    "usd_decimal a + usd_decimal b + usd_decimal e \<le> usd_decimal c \<longleftrightarrow> a + b + e \<le> c"
    "usd_decimal a + usd_decimal b < usd_decimal c \<longleftrightarrow> a + b < c"
    by simp_all
qed

lemma first_blocked_None_iff:
  "first_blocked axes n = None \<longleftrightarrow>
     (\<forall>(name, cap, taken, wanted) \<in> set axes. \<forall>c. cap = Some c \<longrightarrow> blocked_on name taken c wanted n = None)"
proof (induction axes n rule: first_blocked.induct)
  case (2 name cap taken wanted axes n)
  then show ?case by (cases cap) (auto split: option.splits)
qed simp

lemma first_blocked_SomeD:
  "first_blocked axes n = Some b \<Longrightarrow>
     \<exists>name c taken wanted. (name, Some c, taken, wanted) \<in> set axes \<and>
       blocked_on name taken c wanted n = Some b"
proof (induction axes n rule: first_blocked.induct)
  case (2 name cap taken wanted axes n)
  show ?case
  proof (cases cap)
    case None
    then show ?thesis using 2 by fastforce
  next
    case (Some c)
    then show ?thesis
      using 2 by (cases "blocked_on name taken c wanted n") fastforce+
  qed
qed simp

lemma of_int_sum_compare [simp]:
  "(of_int a :: rat) + of_int b + of_int e \<le> of_int c \<longleftrightarrow> a + b + e \<le> c"
  "(of_int a :: rat) + of_int b < of_int c \<longleftrightarrow> a + b < c"
  by (metis of_int_add of_int_le_iff) (metis of_int_add of_int_less_iff)

text \<open>The axes name a refusal exactly when the gate refuses.\<close>

lemma axes_mirror_gate:
  "first_blocked (usage_axes c mb tlim rlim amount t q) n = None \<longleftrightarrow>
     admits_all n c amount t q mb tlim rlim"
  unfolding first_blocked_None_iff usage_axes_def
  by (cases amount; cases mb; cases tlim; cases rlim)
     (auto simp: blocked_on_None_iff admits_all_def admits_def committed_def)

lemma get_usage_row:
  assumes "keys_unique d" "r \<in> set (d_scoped d)" "budget_of d r = Some b"
  shows "get_usage d (s_id r) = Some (usage_row r b)"
proof -
  have "find (\<lambda>(x, b). s_id x = s_id r) (List.map_filter (\<lambda>x. map_option (\<lambda>b. (x, b)) (budget_of d x)) rows)
      = Some (r, b)" if "distinct (map s_id rows)" "r \<in> set rows" for rows
    using that
  proof (induction rows)
    case (Cons x rows)
    show ?case
    proof (cases "x = r")
      case True
      then show ?thesis using assms(3) by (simp add: List.map_filter_simps)
    next
      case False
      then have "s_id x \<noteq> s_id r" using Cons.prems by auto
      then show ?thesis using False Cons by (auto simp: List.map_filter_simps split: option.splits)
    qed
  qed simp
  then show ?thesis using assms(1,2) by (simp add: get_usage_def joined_def keys_unique_def)
qed

lemma hold_refused_iff:
  assumes "keys_unique d" "r \<in> set (d_scoped d)"
  shows "snd (hold now (s_id r) amount t q n d) \<longleftrightarrow>
    admits_all n (s_counters r) amount t q (cap_of d b_max_budget r) (cap_of d b_token_limit r)
      (cap_of d b_request_limit r)"
proof -
  have "snd (hold now (s_id r) amount t q n d) \<longleftrightarrow>
      (\<exists>x \<in> set (d_scoped d). hold_gate d (s_id r) amount t q n x)"
    by (simp add: hold_def Let_def rowcount_pos_iff)
  also have "\<dots> \<longleftrightarrow> hold_gate d (s_id r) amount t q n r"
    using key_unique[of s_id "d_scoped d"] assms by (auto simp: keys_unique_def hold_gate_def)
  finally show ?thesis by (simp add: hold_gate_def)
qed

section \<open>Data for the witnesses\<close>

lemma held_nonneg_rows:
  "(\<And>r. r \<in> set rows \<Longrightarrow> 0 \<le> c_held (ctr r)) \<Longrightarrow> held_nonneg (counters_in key live ctr rows)"
  by (auto simp: held_nonneg_def counters_in_def dest: find_key_Some_D)

definition sample_counters :: "int \<Rightarrow> int \<Rightarrow> counters" where
  "sample_counters used held =
     \<lparr>c_used = HeldAmounts used 0 0, c_held = HeldAmounts held 0 0\<rparr>"

definition sample_ceiling :: "string \<Rightarrow> string \<Rightarrow> counters \<Rightarrow> ScopedBudget" where
  "sample_ceiling i scope_type c =
     \<lparr>s_id = i, s_scope_type = scope_type, s_scope_id = ''x'', s_provider_key_id = None,
      s_budget_id = ''b'', s_counters = c, s_period_start = None, s_period_end = None,
      s_created_at = 0, s_updated_at = None\<rparr>"

definition sample_user :: "string \<Rightarrow> counters \<Rightarrow> User" where
  "sample_user i c =
     \<lparr>u_user_id = i, u_budget_id = Some ''b'', u_blocked = False, u_deleted = False,
      u_counters = c, u_budget_started_at = None, u_next_reset_at = None, u_updated_at = None\<rparr>"

definition sample_db :: db where
  "sample_db =
     \<lparr>d_users = [sample_user ''u'' (sample_counters 0 0)],
      d_budgets = [\<lparr>b_budget_id = ''b'', b_max_budget = Some 10, b_token_limit = Some 100,
        b_request_limit = None, b_duration_sec = None, b_reset_alignment = None\<rparr>],
      d_reset_logs = [],
      d_scoped = [sample_ceiling ''k'' SCOPE_API_TOKEN (sample_counters 3 2),
        sample_ceiling ''o'' SCOPE_ORGANIZATION (sample_counters 7 0)],
      d_reservations = [], d_lines = []\<rparr>"

definition sample_budgets :: "ApplicableBudget list" where
  "sample_budgets =
     map (\<lambda>r. \<lparr>ab_budget_id = s_id r, ab_scope_type = s_scope_type r, ab_provider_key_id = None,
       ab_token_limit = Some 100, ab_request_limit = None\<rparr>) (d_scoped sample_db)"

lemma sample_db_ok:
  "keys_unique sample_db" "held_nonneg (ceiling_counters sample_db)"
  "held_nonneg (user_counters sample_db)" "distinct (map ab_budget_id sample_budgets)"
  unfolding ceiling_counters_def user_counters_def
  by (auto simp: keys_unique_def sample_db_def sample_ceiling_def sample_user_def sample_counters_def
      sample_budgets_def amount_le_iff intro!: held_nonneg_rows)

section \<open>Properties\<close>

text \<open>
  \<^bold>\<open>C3\<close>: what \<open>reserve\<close> leaves held, whatever the database does. When it admits, each ceiling's holds grew
  by exactly the request's amounts; when it names a ceiling that refused, every counter of every ceiling is
  what it was. After a database error at some ceiling the holds on the ceilings before it have been given
  back, and its own hold is left only if its commit landed though it reported failure; the holds taken stay
  only if giving them back failed as well, which takes a second failure or follows a refusal. Every ceiling
  holds the whole request or nothing of it, and no other table is touched.
\<close>

theorem scoped_reserve_all_or_nothing:
  assumes "reserve now budgets amount tokens requests new_request s = (s', res)"
    and "0 \<le> hold_of amount tokens requests" and "distinct (map ab_budget_id budgets)"
    and "keys_unique (ss_db s)" and "held_nonneg (ceiling_counters (ss_db s))"
  shows "(case res of
      Inr None \<Rightarrow> ceiling_counters (ss_db s') =
        on_keys (ab_budget_id ` set budgets) (hold_counters (hold_of amount tokens requests))
          (ceiling_counters (ss_db s))
    | Inr (Some b) \<Rightarrow> b \<in> set budgets \<and> ceiling_counters (ss_db s') = ceiling_counters (ss_db s)
    | Inl _ \<Rightarrow> \<exists>K. ceiling_counters (ss_db s') =
          on_keys K (hold_counters (hold_of amount tokens requests)) (ceiling_counters (ss_db s))
        \<and> error_leaves now amount tokens requests new_request (map ab_budget_id budgets)
            (ceiling_counters (ss_db s)) s s' K)
    \<and> same_but_ceilings (ss_db s) (ss_db s')"
  using reserve_outcome[OF assms(1,2,5,4,3)] unfolding outcome_ok_def set_map .

text \<open>The second commit lands and reports failure: the first ceiling is given back.\<close>

definition landed_session :: session where
  "landed_session = \<lparr>ss_db = sample_db, ss_script = [Succeeds, Succeeds, Succeeds, FailsLanded]\<rparr>"

theorem scoped_reserve_all_or_nothing_witness:
  "\<exists>K. ceiling_counters (ss_db (fst (reserve 5 sample_budgets (Some 1) 4 1 True landed_session))) =
       on_keys K (hold_counters (hold_of (Some 1) 4 1)) (ceiling_counters sample_db)
     \<and> error_leaves 5 (Some 1) 4 1 True [''k'', ''o''] (ceiling_counters sample_db) landed_session
         (fst (reserve 5 sample_budgets (Some 1) 4 1 True landed_session)) K"
proof -
  have r: "snd (reserve 5 sample_budgets (Some 1) 4 1 True landed_session) = Inl DatabaseError"
    by code_simp
  have db: "ss_db landed_session = sample_db" "map ab_budget_id sample_budgets = [''k'', ''o'']"
    by (simp_all add: landed_session_def sample_budgets_def sample_db_def sample_ceiling_def)
  obtain s' res where e: "reserve 5 sample_budgets (Some 1) 4 1 True landed_session = (s', res)"
    by (cases "reserve 5 sample_budgets (Some 1) 4 1 True landed_session")
  then have res: "res = Inl DatabaseError" using r by simp
  show ?thesis
    unfolding e fst_conv
    using scoped_reserve_all_or_nothing[OF e] res db
    by (simp add: sample_db_ok amount_le_iff hold_of_def)
qed

text \<open>
  \<^bold>\<open>C13\<close>: an admitted request keeps the caps it is held to. After \<open>reserve\<close> has admitted a request, no ceiling
  it passed has recorded use plus holds above its token or request cap, nor above its dollar cap when the
  request has a dollar amount; one without, of a model that is free, holds no dollars and is not gated by them.
\<close>

theorem scoped_reserve_keeps_caps:
  assumes "reserve now budgets amount tokens requests new_request s = (s', Inr None)"
    and "keys_unique (ss_db s)" and "distinct (map ab_budget_id budgets)"
    and "r \<in> set (d_scoped (ss_db s'))" and "s_id r \<in> ab_budget_id ` set budgets"
  shows "within_caps (s_counters r) (if amount = None then None else cap_of (ss_db s') b_max_budget r)
    (cap_of (ss_db s') b_token_limit r) (cap_of (ss_db s') b_request_limit r)"
proof -
  have "\<forall>i \<in> set [] \<union> ab_budget_id ` set budgets. capped amount (ss_db s') i"
    by (rule reserve_from_capped[where s = s and now = now and t = tokens
          and q = requests and n = new_request])
       (use assms in \<open>simp_all add: reserve_def\<close>)
  then show ?thesis using assms(4,5) unfolding capped_def dollar_cap_def by blast
qed

theorem scoped_reserve_keeps_caps_witness:
  "within_caps \<lparr>c_used = HeldAmounts 7 0 0, c_held = HeldAmounts 3 4 1\<rparr> (Some 10) (Some 100) None"
proof -
  let ?s' = "fst (reserve 5 sample_budgets (Some 3) 4 1 True \<lparr>ss_db = sample_db, ss_script = []\<rparr>)"
  let ?r = "d_scoped (ss_db ?s') ! 1"
  have r: "?r = \<lparr>s_id = ''o'', s_scope_type = ''organization'', s_scope_id = ''x'',
      s_provider_key_id = None, s_budget_id = ''b'',
      s_counters = \<lparr>c_used = HeldAmounts 7 0 0, c_held = HeldAmounts 3 4 1\<rparr>,
      s_period_start = None, s_period_end = None, s_created_at = 0, s_updated_at = Some 5\<rparr>"
    by code_simp
  have e: "reserve 5 sample_budgets (Some 3) 4 1 True \<lparr>ss_db = sample_db, ss_script = []\<rparr> = (?s', Inr None)"
    by code_simp
  have l: "length (d_scoped (ss_db ?s')) = 2" by code_simp
  have "within_caps (s_counters ?r) (if Some 3 = (None :: int option) then None else cap_of (ss_db ?s') b_max_budget ?r)
      (cap_of (ss_db ?s') b_token_limit ?r) (cap_of (ss_db ?s') b_request_limit ?r)"
  proof (rule scoped_reserve_keeps_caps[OF e])
    show "?r \<in> set (d_scoped (ss_db ?s'))" by (rule nth_mem) (simp add: l)
    show "s_id ?r \<in> ab_budget_id ` set sample_budgets"
      unfolding r by (simp add: sample_budgets_def sample_db_def sample_ceiling_def)
  qed (simp_all add: sample_db_ok)
  moreover have "cap_of (ss_db ?s') b_max_budget ?r = Some 10"
    "cap_of (ss_db ?s') b_token_limit ?r = Some 100" "cap_of (ss_db ?s') b_request_limit ?r = None"
    by code_simp+
  ultimately show ?thesis unfolding r by simp
qed

text \<open>
  A refusal names an axis that really refused. When the gate turns a request away from a
  ceiling, \<open>refused_axis\<close> read from the same row names one of the three axes, that axis is capped,
  the request was asked about it, it has no room for the hold (or, for an arrival, is already at
  its cap), and the reset it reports is the end of the ceiling's window.
\<close>

theorem refused_axis_refused:
  assumes "keys_unique d" and "r \<in> set (d_scoped d)" and "budget_of d r = Some b"
    and "\<not> snd (hold now (s_id r) amount tokens requests new_request d)"
  shows "\<exists>cap taken wanted.
    (ba_name (refused_axis (get_usage d (s_id r)) amount tokens requests new_request), Some cap, taken, wanted)
      \<in> set (usage_axes (s_counters r) (b_max_budget b) (b_token_limit b) (b_request_limit b)
           amount tokens requests) \<and>
    (cap < taken + wanted \<or> new_request \<and> cap \<le> taken) \<and>
    ba_resets_at (refused_axis (get_usage d (s_id r)) amount tokens requests new_request) = s_period_end r"
proof -
  let ?axes = "usage_axes (s_counters r) (b_max_budget b) (b_token_limit b) (b_request_limit b)
    amount tokens requests"
  have caps: "cap_of d col r = col b" for col using assms(3) by (simp add: cap_of_def)
  have "first_blocked ?axes new_request \<noteq> None"
    using assms(4) unfolding axes_mirror_gate hold_refused_iff[OF assms(1,2)] caps by simp
  then obtain x where x: "first_blocked ?axes new_request = Some x" by auto
  then obtain name c taken wanted where a: "(name, Some c, taken, wanted) \<in> set ?axes"
    and bl: "blocked_on name taken c wanted new_request = Some x"
    using first_blocked_SomeD by blast
  have "refused_axis (get_usage d (s_id r)) amount tokens requests new_request =
      x\<lparr>ba_resets_at := s_period_end r\<rparr>"
    using x by (simp add: refused_axis_def get_usage_row[OF assms(1-3)] usage_row_def)
  moreover have "c < taken + wanted \<or> new_request \<and> c \<le> taken"
    using bl blocked_on_None_iff[of name taken c wanted new_request] by auto
  ultimately show ?thesis using a blocked_on_name[OF bl] by auto
qed

theorem refused_axis_refused_witness:
  "ba_resets_at (refused_axis (get_usage sample_db ''o'') (Some 4) 0 1 True) = None"
proof -
  let ?r = "sample_ceiling ''o'' SCOPE_ORGANIZATION (sample_counters 7 0)"
  have "\<not> snd (hold 0 (s_id ?r) (Some 4) 0 1 True sample_db)" by code_simp
  moreover have "?r \<in> set (d_scoped sample_db)" by (simp add: sample_db_def)
  moreover have "budget_of sample_db ?r = Some (hd (d_budgets sample_db))" by code_simp
  ultimately show ?thesis
    using refused_axis_refused[of sample_db ?r "hd (d_budgets sample_db)" 0 "Some 4" 0 1 True]
    by (auto simp: sample_db_ok sample_ceiling_def)
qed

text \<open>
  The reservation order is total. The ceilings a request must pass are exactly the given
  ones on every provider or on its own, most specific scope first, and two listings of the same
  ceilings in any order give the same sequence of holds.
\<close>

theorem reservation_order_total:
  assumes "mset xs = mset ys" and "distinct (map ac_id xs)"
  shows "get_provider_ceilings xs provider = get_provider_ceilings ys provider
    \<and> sorted (map reservation_key (get_provider_ceilings xs provider))
    \<and> set (get_provider_ceilings xs provider) =
        {c \<in> set xs. ac_provider_key_id c = None \<or> ac_provider_key_id c = provider}"
proof -
  define p where "p (c :: ApplicableCeiling) \<longleftrightarrow> ac_provider_key_id c = None \<or> ac_provider_key_id c = provider" for c
  have "inj_on reservation_key (set (filter p xs))"
    using assms(2) by (auto simp: inj_on_def reservation_key_def distinct_map)
  moreover have "mset (filter p xs) = mset (sort_key reservation_key (filter p ys))"
    using assms(1) by simp
  ultimately have "sort_key reservation_key (filter p xs) = sort_key reservation_key (filter p ys)"
    by (intro sort_key_inj_key_eq) simp_all
  moreover have "p = (\<lambda>c. ac_provider_key_id c = None \<or> ac_provider_key_id c = provider)"
    by (auto simp: p_def)
  ultimately show ?thesis using mset_eq_setD[OF assms(1)] by (simp add: get_provider_ceilings_def)
qed

definition sample_applicable :: "string \<Rightarrow> string \<Rightarrow> string option \<Rightarrow> ApplicableCeiling" where
  "sample_applicable i scope_type provider =
     \<lparr>ac_id = i, ac_scope_type = scope_type, ac_provider_key_id = provider, ac_duration_sec = None,
      ac_reset_alignment = None, ac_period_end = None, ac_token_limit = None,
      ac_request_limit = None, ac_max_budget = Some 1, ac_current_spend = 0, ac_reserved_spend = 0\<rparr>"

theorem reservation_order_total_witness:
  "let a = sample_applicable ''1'' SCOPE_ORGANIZATION None;
       b = sample_applicable ''2'' SCOPE_WORKSPACE_MEMBER (Some ''openai'')
   in get_provider_ceilings [a, b] (Some ''openai'') = get_provider_ceilings [b, a] (Some ''openai'')"
  unfolding Let_def
  by (rule reservation_order_total[THEN conjunct1]) (simp_all add: sample_applicable_def)

end
