(* ===== verification/Ledger_Laws.thy ===== *)
theory Ledger_Laws
  imports Enforcement_Laws
begin

text \<open>
  The laws of the ledger: what recording, claiming, reclaiming and pruning do to the sums of the
  active rows, and what settling and releasing do to the counters.
\<close>

section \<open>Well-formed tables\<close>

definition wf_ledger :: "db \<Rightarrow> bool" where
  "wf_ledger d \<longleftrightarrow>
     keys_unique d \<and>
     (\<forall>r \<in> set (d_reservations d). 0 \<le> rv_held r \<and> (rv_user_reserved r \<or> rv_held r = 0)) \<and>
     (\<forall>l \<in> set (d_lines d). 0 \<le> ln_held l \<and> reservation_exists d (ln_reservation_id l)) \<and>
     distinct (map (\<lambda>l. (ln_reservation_id l, ln_scoped_budget_id l)) (d_lines d))"

definition lines_held :: "db \<Rightarrow> string \<Rightarrow> string \<Rightarrow> HeldAmounts" where
  "lines_held d reservation_id ceiling_id =
     table_sum (\<lambda>l. ln_reservation_id l = reservation_id \<and> ln_scoped_budget_id l = ceiling_id)
       ln_held (d_lines d)"

definition is_active :: "db \<Rightarrow> string \<Rightarrow> bool" where
  "is_active d i \<longleftrightarrow> (\<exists>r \<in> set (d_reservations d). rv_id r = i \<and> active r)"

lemma is_activeE:
  assumes "is_active d i"
  obtains r where "r \<in> set (d_reservations d)" "rv_id r = i" "active r"
  using assms by (auto simp: is_active_def)

lemma line_active_is: "line_active d l \<longleftrightarrow> is_active d (ln_reservation_id l)"
  by (simp add: line_active_def is_active_def)

lemma sums_frame [simp]:
  "active_user_held (d\<lparr>d_users := us\<rparr>) = active_user_held d"
  "active_user_held (d\<lparr>d_scoped := ss\<rparr>) = active_user_held d"
  "active_ceiling_held (d\<lparr>d_users := us\<rparr>) = active_ceiling_held d"
  "active_ceiling_held (d\<lparr>d_scoped := ss\<rparr>) = active_ceiling_held d"
  by (simp_all add: active_user_held_def active_ceiling_held_def line_active_def fun_eq_iff)

lemma sums_cong:
  "d_reservations d' = d_reservations d \<Longrightarrow> active_user_held d' = active_user_held d"
  "d_reservations d' = d_reservations d \<Longrightarrow> d_lines d' = d_lines d \<Longrightarrow>
     active_ceiling_held d' = active_ceiling_held d"
  "d_reservations d' = d_reservations d \<Longrightarrow> is_active d' = is_active d"
  "d_lines d' = d_lines d \<Longrightarrow> lines_held d' = lines_held d"
  by (simp_all add: active_user_held_def active_ceiling_held_def line_active_def is_active_def
      lines_held_def fun_eq_iff)

lemma wf_ledger_cong:
  "d_reservations d' = d_reservations d \<Longrightarrow> d_lines d' = d_lines d \<Longrightarrow>
   map s_id (d_scoped d') = map s_id (d_scoped d) \<Longrightarrow>
   map u_user_id (d_users d') = map u_user_id (d_users d) \<Longrightarrow> wf_ledger d' = wf_ledger d"
  by (simp add: wf_ledger_def keys_unique_def reservation_exists_def)

lemma wf_ledger_frame [simp]:
  "wf_ledger (release_db now ids a d) = wf_ledger d"
  "wf_ledger (update_live_user now i f d) = wf_ledger d"
  by (rule wf_ledger_cong; simp)+

lemma sums_of_updates [simp]:
  "active_user_held (release_db now ids a d) = active_user_held d"
  "active_user_held (update_live_user now i f d) = active_user_held d"
  "active_ceiling_held (release_db now ids a d) = active_ceiling_held d"
  "active_ceiling_held (update_live_user now i f d) = active_ceiling_held d"
  "is_active (release_db now ids a d) = is_active d"
  "is_active (update_live_user now i f d) = is_active d"
  "lines_held (release_db now ids a d) = lines_held d"
  "lines_held (update_live_user now i f d) = lines_held d"
  by (rule sums_cong; simp)+

lemma rv_unique:
  "wf_ledger d \<Longrightarrow> r \<in> set (d_reservations d) \<Longrightarrow> x \<in> set (d_reservations d) \<Longrightarrow> rv_id x = rv_id r \<Longrightarrow>
     x = r"
  using key_unique[of rv_id "d_reservations d"] by (auto simp: wf_ledger_def keys_unique_def)

lemma lines_held_nonneg: "wf_ledger d \<Longrightarrow> 0 \<le> lines_held d i c"
  unfolding lines_held_def by (rule table_sum_nonneg) (auto simp: wf_ledger_def)

lemma active_ceiling_held_nonneg: "wf_ledger d \<Longrightarrow> 0 \<le> active_ceiling_held d c"
  unfolding active_ceiling_held_def by (rule table_sum_nonneg) (auto simp: wf_ledger_def)

lemma active_user_held_nonneg: "wf_ledger d \<Longrightarrow> 0 \<le> active_user_held d c"
  unfolding active_user_held_def by (rule table_sum_nonneg) (auto simp: wf_ledger_def)

text \<open>What one active row holds is at most the sum of the active rows.\<close>

lemma lines_held_le: "wf_ledger d \<Longrightarrow> is_active d i \<Longrightarrow> lines_held d i c \<le> active_ceiling_held d c"
proof -
  assume wf: "wf_ledger d" and a: "is_active d i"
  have "active_ceiling_held d c =
      table_sum (\<lambda>l. (ln_scoped_budget_id l = c \<and> line_active d l) \<and> ln_reservation_id l = i) ln_held (d_lines d)
      + table_sum (\<lambda>l. (ln_scoped_budget_id l = c \<and> line_active d l) \<and> ln_reservation_id l \<noteq> i) ln_held (d_lines d)"
    unfolding active_ceiling_held_def by (rule table_sum_split)
  moreover have "table_sum (\<lambda>l. (ln_scoped_budget_id l = c \<and> line_active d l) \<and> ln_reservation_id l = i)
      ln_held (d_lines d) = lines_held d i c"
    unfolding lines_held_def by (rule table_sum_cong) (use a in \<open>auto simp: line_active_is\<close>)
  moreover have "0 \<le> table_sum (\<lambda>l. (ln_scoped_budget_id l = c \<and> line_active d l) \<and>
      ln_reservation_id l \<noteq> i) ln_held (d_lines d)"
    by (rule table_sum_nonneg) (use wf in \<open>auto simp: wf_ledger_def\<close>)
  ultimately show ?thesis by simp
qed

lemma user_row_le:
  "wf_ledger d \<Longrightarrow> r \<in> set (d_reservations d) \<Longrightarrow> active r \<Longrightarrow> rv_user_reserved r \<Longrightarrow>
     rv_held r \<le> active_user_held d (rv_user_id r)"
  unfolding active_user_held_def by (rule table_sum_member_le) (auto simp: wf_ledger_def)

section \<open>Claiming\<close>

definition set_status :: "string \<Rightarrow> ReservationStatus \<Rightarrow> ReservationStatus \<Rightarrow> db \<Rightarrow> db" where
  "set_status i a b d = fst (transition i a b d)"

lemma transition_eq:
  "transition i a b d =
     (set_status i a b d, \<exists>r \<in> set (d_reservations d). rv_id r = i \<and> rv_status r = a)"
  by (simp add: set_status_def transition_def Let_def rowcount_pos_iff)

lemma set_status_tables [simp]:
  "d_users (set_status i a b d) = d_users d" "d_scoped (set_status i a b d) = d_scoped d"
  "d_lines (set_status i a b d) = d_lines d" "d_budgets (set_status i a b d) = d_budgets d"
  "ceiling_counters (set_status i a b d) = ceiling_counters d"
  "user_counters (set_status i a b d) = user_counters d"
  "map rv_id (d_reservations (set_status i a b d)) = map rv_id (d_reservations d)"
  "lines_held (set_status i a b d) = lines_held d"
  by (simp_all add: set_status_def transition_def Let_def map_update_where lines_held_def fun_eq_iff)

lemma set_status_rows:
  "r' \<in> set (d_reservations (set_status i a b d)) \<longleftrightarrow>
     (\<exists>r \<in> set (d_reservations d). r' =
        (if rv_id r = i \<and> rv_status r = a then r\<lparr>rv_status := b\<rparr> else r))"
  by (simp add: set_status_def transition_def Let_def in_update_where_iff)

lemma set_status_idle:
  "\<not> (\<exists>r \<in> set (d_reservations d). rv_id r = i \<and> rv_status r = a) \<Longrightarrow> set_status i a b d = d"
  by (simp add: set_status_def transition_def Let_def update_where_none)

lemma reservation_exists_ids:
  "reservation_exists d i \<longleftrightarrow> i \<in> set (map rv_id (d_reservations d))"
  by (auto simp: reservation_exists_def rowcount_pos_iff)

lemma wf_set_status [simp]: "wf_ledger (set_status i a b d) = wf_ledger d"
proof -
  let ?ok = "\<lambda>r. 0 \<le> rv_held r \<and> (rv_user_reserved r \<or> rv_held r = 0)"
  have "(\<forall>r \<in> set (update_where p (\<lambda>r. r\<lparr>rv_status := b\<rparr>) rows). ?ok r) \<longleftrightarrow> (\<forall>r \<in> set rows. ?ok r)" for p rows
    by (induction rows) auto
  then have "(\<forall>r \<in> set (d_reservations (set_status i a b d)). ?ok r) \<longleftrightarrow> (\<forall>r \<in> set (d_reservations d). ?ok r)"
    by (simp add: set_status_def transition_def Let_def)
  then show ?thesis
    by (simp add: wf_ledger_def keys_unique_def reservation_exists_ids del: list.set_map)
qed

text \<open>A claimed row leaves the sums; nothing else does.\<close>

lemma is_active_claim:
  assumes "b \<noteq> RESERVATION_ACTIVE"
  shows "is_active (set_status i RESERVATION_ACTIVE b d) j \<longleftrightarrow> is_active d j \<and> j \<noteq> i"
proof
  assume "is_active (set_status i RESERVATION_ACTIVE b d) j"
  then obtain r' where r': "r' \<in> set (d_reservations (set_status i RESERVATION_ACTIVE b d))"
    "rv_id r' = j" "active r'" by (rule is_activeE)
  then obtain r where r: "r \<in> set (d_reservations d)"
    and e: "r' = (if rv_id r = i \<and> active r then r\<lparr>rv_status := b\<rparr> else r)"
    by (auto simp: set_status_rows active_def)
  have st: "rv_status r' = (if rv_id r = i \<and> active r then b else rv_status r)"
    "rv_id r' = rv_id r" by (simp_all add: e)
  have "\<not> (rv_id r = i \<and> active r)" using st(1) r'(3) assms by (auto simp: active_def)
  then show "is_active d j \<and> j \<noteq> i"
    using st r r'(2,3) by (auto simp: is_active_def active_def)
next
  assume "is_active d j \<and> j \<noteq> i"
  then obtain r where "r \<in> set (d_reservations d)" "rv_id r = j" "active r" "j \<noteq> i"
    by (auto elim: is_activeE)
  then show "is_active (set_status i RESERVATION_ACTIVE b d) j"
    by (auto simp: is_active_def set_status_rows intro!: bexI[of _ r])
qed

lemma active_ceiling_held_claim:
  assumes "is_active d i" "b \<noteq> RESERVATION_ACTIVE"
  shows "active_ceiling_held (set_status i RESERVATION_ACTIVE b d) c =
    active_ceiling_held d c - lines_held d i c"
proof -
  have "active_ceiling_held d c =
      table_sum (\<lambda>l. (ln_scoped_budget_id l = c \<and> line_active d l) \<and> ln_reservation_id l = i) ln_held (d_lines d)
      + table_sum (\<lambda>l. (ln_scoped_budget_id l = c \<and> line_active d l) \<and> ln_reservation_id l \<noteq> i) ln_held (d_lines d)"
    unfolding active_ceiling_held_def by (rule table_sum_split)
  moreover have "table_sum (\<lambda>l. (ln_scoped_budget_id l = c \<and> line_active d l) \<and> ln_reservation_id l = i)
      ln_held (d_lines d) = lines_held d i c"
    unfolding lines_held_def by (rule table_sum_cong) (use assms(1) in \<open>auto simp: line_active_is\<close>)
  moreover have "table_sum (\<lambda>l. (ln_scoped_budget_id l = c \<and> line_active d l) \<and> ln_reservation_id l \<noteq> i)
      ln_held (d_lines d) = active_ceiling_held (set_status i RESERVATION_ACTIVE b d) c"
    unfolding active_ceiling_held_def set_status_tables(3)
    by (rule table_sum_cong) (auto simp: line_active_is is_active_claim[OF assms(2)])
  ultimately show ?thesis by simp
qed

lemma active_user_held_claim:
  assumes "wf_ledger d" "r \<in> set (d_reservations d)" "active r" "b \<noteq> RESERVATION_ACTIVE"
  shows "active_user_held (set_status (rv_id r) RESERVATION_ACTIVE b d) u =
    active_user_held d u - (if rv_user_id r = u \<and> rv_user_reserved r then rv_held r else 0)"
proof -
  have keys: "distinct (map rv_id (d_reservations d))"
    using assms(1) by (simp add: wf_ledger_def keys_unique_def)
  have "d_reservations (set_status (rv_id r) RESERVATION_ACTIVE b d) =
      update_where (\<lambda>x. rv_id x = rv_id r \<and> rv_status x = RESERVATION_ACTIVE)
        (\<lambda>x. x\<lparr>rv_status := b\<rparr>) (d_reservations d)"
    by (simp add: set_status_def transition_def Let_def)
  then show ?thesis
    unfolding active_user_held_def
    using table_sum_update_row[OF keys assms(2),
        where q = "\<lambda>x. rv_id x = rv_id r \<and> rv_status x = RESERVATION_ACTIVE"
          and p = "\<lambda>r. rv_user_id r = u \<and> active r \<and> rv_user_reserved r" and f = rv_held
          and g = "\<lambda>x. x\<lparr>rv_status := b\<rparr>"] assms(3,4)
    by (simp add: active_def)
qed

lemma try_terminate_eq:
  "try_terminate (Some i) b d = (set_status i RESERVATION_ACTIVE b d, is_active d i)"
  by (simp add: try_terminate_def try_terminate_row_def transition_eq is_active_def active_def)

section \<open>Recording\<close>

lemma add_reservation_tables [simp]:
  "d_users (add_reservation i u ur uh ch ids e d) = d_users d"
  "d_scoped (add_reservation i u ur uh ch ids e d) = d_scoped d"
  "ceiling_counters (add_reservation i u ur uh ch ids e d) = ceiling_counters d"
  "user_counters (add_reservation i u ur uh ch ids e d) = user_counters d"
  by (simp_all add: add_reservation_def ceiling_counters_def user_counters_def)

lemma active_user_held_add:
  "active_user_held (add_reservation i u ur uh ch ids e d) v =
     active_user_held d v + (if u = v \<and> ur then uh else 0)"
  by (simp add: active_user_held_def add_reservation_def active_def)

lemma new_lines_sum:
  assumes "distinct ids"
  shows "table_sum (\<lambda>l. ln_scoped_budget_id l = c) ln_held (map (new_line i a) ids) =
    (if c \<in> set ids then a else 0)"
  using assms by (induction ids) (auto simp: new_line_def)

lemma active_ceiling_held_add:
  assumes "wf_ledger d" "\<not> reservation_exists d i" "distinct ids"
  shows "active_ceiling_held (add_reservation i u ur uh ch ids e d) c =
    active_ceiling_held d c + (if c \<in> set ids then ch else 0)"
proof -
  let ?d = "add_reservation i u ur uh ch ids e d"
  have old: "line_active ?d l = line_active d l" if "l \<in> set (d_lines d)" for l
    using that assms(1,2)
    by (auto simp: line_active_is is_active_def add_reservation_def wf_ledger_def)
  have new: "line_active ?d l" if "l \<in> set (map (new_line i ch) ids)" for l
    using that by (auto simp: line_active_is is_active_def add_reservation_def new_line_def active_def)
  have "active_ceiling_held ?d c =
      table_sum (\<lambda>l. ln_scoped_budget_id l = c \<and> line_active ?d l) ln_held (d_lines d)
      + table_sum (\<lambda>l. ln_scoped_budget_id l = c \<and> line_active ?d l) ln_held (map (new_line i ch) ids)"
    by (simp add: active_ceiling_held_def add_reservation_def)
  also have "table_sum (\<lambda>l. ln_scoped_budget_id l = c \<and> line_active ?d l) ln_held (d_lines d) =
      active_ceiling_held d c"
    unfolding active_ceiling_held_def by (rule table_sum_cong) (auto simp: old)
  also have "table_sum (\<lambda>l. ln_scoped_budget_id l = c \<and> line_active ?d l) ln_held (map (new_line i ch) ids) =
      table_sum (\<lambda>l. ln_scoped_budget_id l = c) ln_held (map (new_line i ch) ids)"
    by (rule table_sum_cong) (use new in auto)
  finally show ?thesis by (simp add: new_lines_sum[OF assms(3)])
qed

lemma wf_add_reservation:
  assumes "wf_ledger d" "\<not> reservation_exists d i" "distinct ids" "0 \<le> uh" "0 \<le> ch" "ur \<or> uh = 0"
  shows "wf_ledger (add_reservation i u ur uh ch ids e d)"
  using assms
  by (auto simp: wf_ledger_def keys_unique_def add_reservation_def reservation_exists_ids new_line_def
      distinct_map comp_def inj_on_def)

section \<open>Releasing what a row holds\<close>

definition release_by ::
  "(string \<Rightarrow> HeldAmounts) \<Rightarrow> (string \<Rightarrow> counters option) \<Rightarrow> string \<Rightarrow> counters option" where
  "release_by need m i = map_option (release_counters (need i)) (m i)"

lemma release_counters_zero [simp]: "release_counters 0 = (\<lambda>c. c)"
  by (rule release_counters_nothing) (simp add: some_positive_def)

lemma release_by_zero [simp]: "release_by (\<lambda>_. 0) m = m"
  by (simp add: release_by_def fun_eq_iff option.map_ident)

lemma release_by_keys: "on_keys K (release_counters a) m = release_by (\<lambda>i. if i \<in> K then a else 0) m"
  by (auto simp: on_keys_def release_by_def fun_eq_iff option.map_ident)

definition amount_on :: "ReservationLine list \<Rightarrow> string \<Rightarrow> HeldAmounts" where
  "amount_on ls c =
     (case find (\<lambda>l. rline_scoped_budget_id l = c) ls of None \<Rightarrow> 0 | Some l \<Rightarrow> rline_held l)"

lemma find_filter_none:
  "(\<And>x. x \<in> set xs \<Longrightarrow> p x \<Longrightarrow> \<not> q x) \<Longrightarrow> find p (filter q xs) = None"
  by (induction xs) auto

lemma find_filter_same:
  "(\<And>x. x \<in> set xs \<Longrightarrow> p x \<Longrightarrow> q x) \<Longrightarrow> find p (filter q xs) = find p xs"
  by (induction xs) auto

text \<open>Releasing group by group is releasing each ceiling its own amount once.\<close>

lemma release_groups:
  assumes "distinct (map rline_scoped_budget_id ls)"
  shows "ceiling_counters (fold (\<lambda>(held, ids). release_db now ids held) (group_by_amounts ls) d) =
      release_by (amount_on ls) (ceiling_counters d)"
  using assms
proof (induction ls arbitrary: d rule: group_by_amounts.induct)
  case 1
  then show ?case by (simp add: amount_on_def)
next
  case (2 l ls)
  let ?ids = "rline_scoped_budget_id l #
    map rline_scoped_budget_id (filter (\<lambda>x. rline_held x = rline_held l) ls)"
  let ?rest = "filter (\<lambda>x. rline_held x \<noteq> rline_held l) ls"
  have dist: "distinct (map rline_scoped_budget_id ?rest)" using 2(2) by (simp add: distinct_map_filter)
  have inj: "x = y" if "x \<in> set (l # ls)" "y \<in> set (l # ls)"
      "rline_scoped_budget_id x = rline_scoped_budget_id y" for x y
    using key_unique[OF 2(2)] that by blast
  have split: "amount_on (l # ls) c =
      (if c \<in> set ?ids then rline_held l else amount_on ?rest c)"
    and none: "c \<in> set ?ids \<Longrightarrow> amount_on ?rest c = 0" for c
  proof -
    show n: "amount_on ?rest c = 0" if c: "c \<in> set ?ids"
    proof -
      obtain y where y: "y \<in> set (l # ls)" "rline_scoped_budget_id y = c" "rline_held y = rline_held l"
        using c by auto
      have "find (\<lambda>x. rline_scoped_budget_id x = c) ?rest = None"
      proof (rule find_filter_none)
        fix x assume x: "x \<in> set ls" "rline_scoped_budget_id x = c"
        then have "x = y" using y by (intro inj) simp_all
        then show "\<not> rline_held x \<noteq> rline_held l" using y by simp
      qed
      then show ?thesis by (simp add: amount_on_def)
    qed
    show "amount_on (l # ls) c = (if c \<in> set ?ids then rline_held l else amount_on ?rest c)"
    proof (cases "c \<in> set ?ids")
      case True
      then obtain y where y: "y \<in> set (l # ls)" "rline_scoped_budget_id y = c" "rline_held y = rline_held l"
        by auto
      have "find (\<lambda>x. rline_scoped_budget_id x = c) (l # ls) = Some y"
        using y 2(2) find_key_some_iff[OF 2(2), of c y] by simp
      then show ?thesis using y True by (simp add: amount_on_def)
    next
      case False
      then have "find (\<lambda>x. rline_scoped_budget_id x = c) ?rest = find (\<lambda>x. rline_scoped_budget_id x = c) ls"
        by (intro find_filter_same) auto
      then show ?thesis using False by (auto simp: amount_on_def)
    qed
  qed
  have "release_by (amount_on ?rest) (on_keys (set ?ids) (release_counters (rline_held l)) m) =
      release_by (amount_on (l # ls)) m" for m
  proof
    fix c
    show "release_by (amount_on ?rest) (on_keys (set ?ids) (release_counters (rline_held l)) m) c =
        release_by (amount_on (l # ls)) m c"
      by (cases "c \<in> set ?ids")
         (simp_all add: release_by_def on_keys_def split none option.map_ident del: set_simps)
  qed
  then show ?case using 2(1)[OF dist] by simp
qed

lemma fold_release_tables:
  "d_users (fold (\<lambda>(held, ids). release_db now ids held) gs d) = d_users d"
  "d_reservations (fold (\<lambda>(held, ids). release_db now ids held) gs d) = d_reservations d"
  "d_lines (fold (\<lambda>(held, ids). release_db now ids held) gs d) = d_lines d"
  "d_budgets (fold (\<lambda>(held, ids). release_db now ids held) gs d) = d_budgets d"
  "map s_id (d_scoped (fold (\<lambda>(held, ids). release_db now ids held) gs d)) = map s_id (d_scoped d)"
  by (induction gs arbitrary: d) auto

lemma release_user_leg_counters [simp]:
  "user_counters (release_user_leg now r d) =
     (if rv_user_reserved r then on_keys {rv_user_id r} (release_counters (rv_held r)) (user_counters d)
      else user_counters d)"
  "ceiling_counters (release_user_leg now r d) = ceiling_counters d"
  by (auto simp: release_user_leg_def release_counters_nothing)

lemma release_user_leg_tables [simp]:
  "d_scoped (release_user_leg now r d) = d_scoped d"
  "d_reservations (release_user_leg now r d) = d_reservations d"
  "d_lines (release_user_leg now r d) = d_lines d"
  "map u_user_id (d_users (release_user_leg now r d)) = map u_user_id (d_users d)"
  by (simp_all add: release_user_leg_def)

lemma wf_lines_distinct:
  assumes "wf_ledger d"
  shows "distinct (map ln_scoped_budget_id (filter (\<lambda>l. ln_reservation_id l = i) (d_lines d)))"
  using assms by (auto simp: wf_ledger_def distinct_map inj_on_def)

lemma amount_on_lines:
  assumes "wf_ledger d"
  shows "amount_on (filter (\<lambda>l. some_positive (rline_held l)) (list_lines d i)) c = lines_held d i c"
proof -
  let ?ls = "filter (\<lambda>l. some_positive (rline_held l)) (list_lines d i)"
  have keys: "distinct (map (\<lambda>l. (ln_reservation_id l, ln_scoped_budget_id l)) (d_lines d))"
    using assms by (simp add: wf_ledger_def)
  show ?thesis
  proof (cases "\<exists>l \<in> set (d_lines d). ln_reservation_id l = i \<and> ln_scoped_budget_id l = c")
    case False
    then have "lines_held d i c = 0" unfolding lines_held_def by (intro table_sum_zero) auto
    moreover have "find (\<lambda>x. rline_scoped_budget_id x = c) ?ls = None"
      using False by (auto simp: find_None_iff list_lines_def)
    ultimately show ?thesis by (simp add: amount_on_def)
  next
    case True
    then obtain l where l: "l \<in> set (d_lines d)" "ln_reservation_id l = i" "ln_scoped_budget_id l = c"
      by blast
    have sum: "lines_held d i c = ln_held l"
      unfolding lines_held_def by (rule table_sum_unique[OF keys l(1)]) (auto simp: l)
    let ?x = "\<lparr>rline_scoped_budget_id = c, rline_held = ln_held l\<rparr>"
    have mem: "?x \<in> set (list_lines d i)" using l by (auto simp: list_lines_def)
    have dist: "distinct (map rline_scoped_budget_id (list_lines d i))"
      using wf_lines_distinct[OF assms, of i] by (simp add: list_lines_def comp_def)
    then have dist': "distinct (map rline_scoped_budget_id ?ls)" by (rule distinct_map_filter)
    show ?thesis
    proof (cases "some_positive (ln_held l)")
      case True
      then have "find (\<lambda>x. rline_scoped_budget_id x = c) ?ls = Some ?x"
        using find_key_some_iff[OF dist', of c ?x] mem by simp
      then show ?thesis by (simp add: amount_on_def sum)
    next
      case False
      have "0 \<le> ln_held l" using assms l(1) by (simp add: wf_ledger_def)
      then have zero: "ln_held l = 0" using False by (rule some_positive_zero)
      have "rline_scoped_budget_id y \<noteq> c" if y: "y \<in> set ?ls" for y
      proof
        assume "rline_scoped_budget_id y = c"
        then have "y = ?x" using y mem by (intro key_unique[OF dist]) simp_all
        then have "rline_held y = ln_held l" by (metis ReservationLine.select_convs(2))
        then show False using y False by simp
      qed
      then have "find (\<lambda>x. rline_scoped_budget_id x = c) ?ls = None" by (auto simp: find_None_iff)
      then show ?thesis by (simp add: amount_on_def sum zero)
    qed
  qed
qed

lemma release_reservation_holds_effect:
  assumes "wf_ledger d"
  shows "ceiling_counters (release_reservation_holds now r d) =
      release_by (lines_held d (rv_id r)) (ceiling_counters d)"
    and "user_counters (release_reservation_holds now r d) =
      user_counters (release_user_leg now r d)"
proof -
  let ?ls = "filter (\<lambda>l. some_positive (rline_held l)) (list_lines d (rv_id r))"
  have "distinct (map rline_scoped_budget_id (list_lines d (rv_id r)))"
    using wf_lines_distinct[OF assms, of "rv_id r"] by (simp add: list_lines_def comp_def)
  then have dist: "distinct (map rline_scoped_budget_id ?ls)" by (rule distinct_map_filter)
  have "amount_on ?ls = lines_held d (rv_id r)" using amount_on_lines[OF assms] by (rule ext)
  then show "ceiling_counters (release_reservation_holds now r d) =
      release_by (lines_held d (rv_id r)) (ceiling_counters d)"
    by (simp add: release_reservation_holds_def Let_def release_groups[OF dist])
  show "user_counters (release_reservation_holds now r d) = user_counters (release_user_leg now r d)"
    by (simp add: release_reservation_holds_def Let_def user_counters_def fold_release_tables)
qed

lemma release_reservation_holds_tables [simp]:
  "d_reservations (release_reservation_holds now r d) = d_reservations d"
  "d_lines (release_reservation_holds now r d) = d_lines d"
  "map s_id (d_scoped (release_reservation_holds now r d)) = map s_id (d_scoped d)"
  "map u_user_id (d_users (release_reservation_holds now r d)) = map u_user_id (d_users d)"
  by (simp_all add: release_reservation_holds_def Let_def fold_release_tables)

section \<open>Covering\<close>

text \<open>A release lowers a counter by at most what it gives back.\<close>

lemma covers_release_by:
  assumes "covers m need" "\<And>i. 0 \<le> give i"
  shows "covers (release_by give m) (\<lambda>i. need i - give i)"
  unfolding covers_def
proof (intro allI impI)
  fix i c' assume "release_by give m i = Some c'"
  then obtain c where c: "m i = Some c" "c' = release_counters (give i) c"
    by (auto simp: release_by_def)
  have "need i - give i \<le> c_held c - give i" using assms(1) c by (auto simp: covers_def)
  also have "\<dots> \<le> c_held c'" using release_amounts_ge[OF assms(2), of "c_held c" i] c by simp
  finally show "need i - give i \<le> c_held c'" .
qed

lemma covers_mono: "covers m need \<Longrightarrow> (\<And>i. need' i \<le> need i) \<Longrightarrow> covers m need'"
  by (meson covers_def order_trans)

lemma covers_hold:
  assumes "covers m need"
  shows "covers (on_keys K (hold_counters a) m) (\<lambda>i. need i + (if i \<in> K then a else 0))"
  using assms by (auto simp: covers_def on_keys_def split: if_splits)

lemma covers_same_held:
  assumes "covers m need" "\<And>i c. m' i = Some c \<Longrightarrow> \<exists>c0. m i = Some c0 \<and> c_held c0 \<le> c_held c"
  shows "covers m' need"
  using assms unfolding covers_def by (meson order_trans)

lemma held_nonneg_release_by: "held_nonneg m \<Longrightarrow> held_nonneg (release_by give m)"
  by (auto simp: held_nonneg_def release_by_def release_amounts_nonneg)

end
