(* ===== verification/Hold_Protocol.thy ===== *)
theory Hold_Protocol
  imports Ledger_Laws
begin

text \<open>
  The life of holds across concurrent requests, as a step relation on the shared tables. Every
  step is one statement or transaction of the services, run at the current moment; steps of any
  number of requests interleave freely, a process may die between two of its steps, and the
  sweeper runs whenever it likes. A hold that is on a counter but not yet on a ledger row is a
  \<open>flight\<close>: a ghost of the model, no table has it. A handle without a row is not guarded by one: settling
  it gives back what it says, whether or not that is still in flight. What it gives back beyond the flights
  is kept in a second ghost, \<open>p_unbacked\<close>; that happens when the commit of its row landed though it reported
  failure (\<open>_held_handle\<close> of \<open>_reservations.py\<close>), and when it is settled twice.

  The invariant is the direction of inconsistency \<open>_ledger.py\<close> promises, as far as the code keeps it: the
  active rows record no more than the counters hold and the unbacked releases took. Rows of users and
  ceilings are neither created nor deleted in a run.
\<close>

section \<open>States and steps\<close>

datatype leg = CeilingLeg string | UserLeg string

record flight =
  f_leg :: leg
  f_amount :: HeldAmounts
  f_at :: instant

record proto =
  p_now :: instant
  p_db :: db
  p_flights :: "flight list"
  p_unbacked :: "flight list"

definition flight_sum :: "flight list \<Rightarrow> leg \<Rightarrow> HeldAmounts" where
  "flight_sum fs l = table_sum (\<lambda>f. f_leg f = l) f_amount fs"

text \<open>A handle that names what its active row records.\<close>

definition handle_agrees :: "ReservationHandle \<Rightarrow> string \<Rightarrow> db \<Rightarrow> bool" where
  "handle_agrees h i d \<longleftrightarrow>
     h_reservation_id h = Some i \<and> 0 \<le> h_held h \<and> 0 \<le> h_scoped_held h \<and>
     (\<forall>r \<in> set (d_reservations d). rv_id r = i \<and> active r \<longrightarrow>
        rv_user_id r = h_user_id h \<and> rv_user_reserved r = h_reserved h \<and>
        (h_reserved h \<longrightarrow> rv_held r = h_held h) \<and>
        (\<forall>c. lines_held d i c = (if c \<in> set (scoped_budget_ids h) then h_scoped_held h else 0)))"

text \<open>
  A handle that names what its active row records and the flights \<open>fs\<close> besides: a top-up that is held and not
  yet, or never, on the row.
\<close>

definition handle_owns :: "flight list \<Rightarrow> ReservationHandle \<Rightarrow> string \<Rightarrow> db \<Rightarrow> bool" where
  "handle_owns fs h i d \<longleftrightarrow>
     h_reservation_id h = Some i \<and> 0 \<le> h_held h \<and> 0 \<le> h_scoped_held h \<and>
     (\<forall>r \<in> set (d_reservations d). rv_id r = i \<and> active r \<longrightarrow>
        (\<forall>c. (if c \<in> set (scoped_budget_ids h) then h_scoped_held h else 0)
           = lines_held d i c + flight_sum fs (CeilingLeg c)) \<and>
        (\<forall>v. (if v = h_user_id h then if h_reserved h then h_held h else 0 else 0)
           = (if v = rv_user_id r \<and> rv_user_reserved r then rv_held r else 0) + flight_sum fs (UserLeg v)))"

lemma handle_agrees_owns: "handle_agrees h i d \<Longrightarrow> handle_owns [] h i d"
  by (auto simp: handle_agrees_def handle_owns_def flight_sum_def)

text \<open>A handle with no row, whose holds are the flights \<open>fs\<close>.\<close>

definition carries :: "flight list \<Rightarrow> ReservationHandle \<Rightarrow> bool" where
  "carries fs h \<longleftrightarrow>
     h_reservation_id h = None \<and> 0 \<le> h_held h \<and> 0 \<le> h_scoped_held h \<and>
     (\<forall>c. flight_sum fs (CeilingLeg c) =
        (if c \<in> set (scoped_budget_ids h) then h_scoped_held h else 0)) \<and>
     (\<forall>v. flight_sum fs (UserLeg v) = (if v = h_user_id h \<and> h_reserved h then h_held h else 0))"

definition has_line :: "db \<Rightarrow> string \<Rightarrow> string \<Rightarrow> bool" where
  "has_line d i c \<longleftrightarrow>
     (\<exists>l \<in> set (d_lines d). ln_reservation_id l = i \<and> ln_scoped_budget_id l = c)"

text \<open>What a sweep read of a row earlier: the row may have grown or ended since.\<close>

definition snapshot_of :: "BudgetReservation \<Rightarrow> BudgetReservation \<Rightarrow> bool" where
  "snapshot_of x r \<longleftrightarrow>
     rv_id x = rv_id r \<and> rv_user_id x = rv_user_id r \<and> 0 \<le> rv_held r \<and> rv_held r \<le> rv_held x \<and>
     (rv_user_reserved r \<longrightarrow> rv_user_reserved x)"

inductive step :: "proto \<Rightarrow> proto \<Rightarrow> bool" where
  tick: "p_now s \<le> t \<Longrightarrow> step s (s\<lparr>p_now := t\<rparr>)"
| hold_ceiling:
    "hold (p_now s) i amount t q n (p_db s) = (d, True) \<Longrightarrow> 0 \<le> hold_of amount t q \<Longrightarrow>
     step s (s\<lparr>p_db := d, p_flights :=
       \<lparr>f_leg = CeilingLeg i, f_amount = hold_of amount t q, f_at = p_now s\<rparr> # p_flights s\<rparr>)"
| hold_user:
    "0 < rowcount p (d_users (p_db s)) \<Longrightarrow> (\<And>u. p u \<Longrightarrow> live_user i u) \<Longrightarrow> 0 \<le> a \<Longrightarrow>
     step s (s\<lparr>p_db := update_users p (touch_user (p_now s) (hold_counters a)) (p_db s), p_flights :=
       \<lparr>f_leg = UserLeg i, f_amount = a, f_at = p_now s\<rparr> # p_flights s\<rparr>)"
| give_back_ceilings:
    "mset (p_flights s) = mset fs + mset fs' \<Longrightarrow>
     (\<And>c. flight_sum fs (CeilingLeg c) = (if c \<in> set ids then a else 0)) \<Longrightarrow> 0 \<le> a \<Longrightarrow>
     step s (s\<lparr>p_db := release_db (p_now s) ids a (p_db s), p_flights := fs'\<rparr>)"
| give_back_user:
    "mset (p_flights s) = mset fs + mset fs' \<Longrightarrow> flight_sum fs (UserLeg u) = a \<Longrightarrow>
     step s (s\<lparr>p_db := update_live_user (p_now s) u (release_leg_counters a) (p_db s),
              p_flights := fs'\<rparr>)"
| lose_flights:
    "mset (p_flights s) = mset fs + mset fs' \<Longrightarrow> step s (s\<lparr>p_flights := fs'\<rparr>)"
| record_row:
    "mset (p_flights s) = mset fs + mset fs' \<Longrightarrow>
     (\<And>c. flight_sum fs (CeilingLeg c) = (if c \<in> set ids then ch else 0)) \<Longrightarrow>
     (\<And>v. flight_sum fs (UserLeg v) = (if v = u \<and> ur then uh else 0)) \<Longrightarrow>
     \<not> reservation_exists (p_db s) i \<Longrightarrow> distinct ids \<Longrightarrow> 0 \<le> uh \<Longrightarrow> 0 \<le> ch \<Longrightarrow>
     ur \<or> uh = 0 \<Longrightarrow>
     step s (s\<lparr>p_db := add_reservation i u ur uh ch ids e (p_db s), p_flights := fs'\<rparr>)"
| grow_recorded:
    "mset (p_flights s) = mset fs + mset fs' \<Longrightarrow>
     (\<And>c. flight_sum fs (CeilingLeg c) =
        (if has_line (p_db s) i c then HeldAmounts scoped_delta scoped_token_delta 0 else 0)) \<Longrightarrow>
     (\<And>v. flight_sum fs (UserLeg v) =
        (if v = rv_user_id r \<and> (rv_user_reserved r \<or> user_grew)
         then HeldAmounts user_delta token_delta 0 else 0)) \<Longrightarrow>
     r \<in> set (d_reservations (p_db s)) \<Longrightarrow> rv_id r = i \<Longrightarrow>
     0 \<le> HeldAmounts user_delta token_delta 0 \<Longrightarrow>
     0 \<le> HeldAmounts scoped_delta scoped_token_delta 0 \<Longrightarrow>
     user_grew \<or> HeldAmounts user_delta token_delta 0 = 0 \<Longrightarrow>
     grow_row i user_delta user_grew scoped_delta token_delta scoped_token_delta (p_db s) = (d, True) \<Longrightarrow>
     step s (s\<lparr>p_db := d, p_flights := fs'\<rparr>)"
| release_unrecorded_row:
    "mset (p_flights s) = mset fs + mset fs' \<Longrightarrow>
     (\<And>c. flight_sum fs (CeilingLeg c) = (if c \<in> set ids then a else 0)) \<Longrightarrow> 0 \<le> a \<Longrightarrow>
     add_released (p_now s) i u (p_db s) = Inr d \<Longrightarrow>
     step s (s\<lparr>p_db := release_db (p_now s) ids a d, p_flights := fs'\<rparr>)"
| settle_unrecorded:
    "mset (p_flights s) = mset fs + mset fs' \<Longrightarrow> carries (fs @ ds) h \<Longrightarrow> (\<And>f. f \<in> set ds \<Longrightarrow> 0 \<le> f_amount f) \<Longrightarrow>
     step s (s\<lparr>p_db := reconcile_db (p_now s) h cost tokens (p_db s), p_flights := fs',
              p_unbacked := ds @ p_unbacked s\<rparr>)"
| refund_unrecorded:
    "mset (p_flights s) = mset fs + mset fs' \<Longrightarrow> carries (fs @ ds) h \<Longrightarrow> (\<And>f. f \<in> set ds \<Longrightarrow> 0 \<le> f_amount f) \<Longrightarrow>
     step s (s\<lparr>p_db := refund_db (p_now s) h (p_db s), p_flights := fs',
              p_unbacked := ds @ p_unbacked s\<rparr>)"
| settle_row:
    "mset (p_flights s) = mset fs + mset fs' \<Longrightarrow> handle_owns fs h i (p_db s) \<Longrightarrow>
     step s (s\<lparr>p_db := reconcile_db (p_now s) h cost tokens (p_db s), p_flights := fs'\<rparr>)"
| refund_row:
    "mset (p_flights s) = mset fs + mset fs' \<Longrightarrow> handle_owns fs h i (p_db s) \<Longrightarrow>
     step s (s\<lparr>p_db := refund_db (p_now s) h (p_db s), p_flights := fs'\<rparr>)"
| reclaim_row:
    "snapshot_of x r \<Longrightarrow> x \<in> set (d_reservations (p_db s)) \<Longrightarrow>
     step s (s\<lparr>p_db := fst (reclaim_one (p_now s) r (p_db s))\<rparr>)"
| reconcile_user_orphans:
    "(\<And>f. f \<in> set (p_flights s) \<Longrightarrow> cutoff \<le> f_at f) \<Longrightarrow>
     step s (s\<lparr>p_db := fst (reconcile_user (p_now s) u cutoff (p_db s))\<rparr>)"
| reconcile_ceiling_orphans:
    "(\<And>f. f \<in> set (p_flights s) \<Longrightarrow> cutoff \<le> f_at f) \<Longrightarrow>
     step s (s\<lparr>p_db := fst (reconcile_scoped (p_now s) c cutoff (p_db s))\<rparr>)"
| prune_rows:
    "step s (s\<lparr>p_db := fst (prune_terminal (p_now s) older_than batch (p_db s))\<rparr>)"
| roll_ceiling:
    "step s (s\<lparr>p_db := roll_period (p_now s) c start finish (p_db s)\<rparr>)"
| reset_user:
    "step s (s\<lparr>p_db := (fst (cas_reset (p_now s) u start finish (p_db s)))\<lparr>d_reset_logs := logs\<rparr>\<rparr>)"

definition initial :: "proto \<Rightarrow> bool" where
  "initial s \<longleftrightarrow>
     keys_unique (p_db s) \<and> d_reservations (p_db s) = [] \<and> d_lines (p_db s) = [] \<and> p_flights s = [] \<and> p_unbacked s = [] \<and>
     held_nonneg (ceiling_counters (p_db s)) \<and> held_nonneg (user_counters (p_db s))"

inductive reachable :: "proto \<Rightarrow> bool" where
  start: "initial s \<Longrightarrow> reachable s"
| step: "reachable s \<Longrightarrow> step s s' \<Longrightarrow> reachable s'"

inductive_cases stepE: "step s s'"

section \<open>The invariant\<close>

text \<open>A counter in flight was written when the flight started.\<close>

definition written_since :: "db \<Rightarrow> flight \<Rightarrow> bool" where
  "written_since d f \<longleftrightarrow>
     (case f_leg f of
        CeilingLeg i \<Rightarrow>
          (\<forall>r \<in> set (d_scoped d). s_id r = i \<longrightarrow> \<not> quiet_since (f_at f) (s_updated_at r))
      | UserLeg i \<Rightarrow>
          (\<forall>u \<in> set (d_users d). live_user i u \<longrightarrow> \<not> quiet_since (f_at f) (u_updated_at u)))"

definition ceiling_need :: "proto \<Rightarrow> string \<Rightarrow> HeldAmounts" where
  "ceiling_need s c = active_ceiling_held (p_db s) c + flight_sum (p_flights s) (CeilingLeg c)
     - flight_sum (p_unbacked s) (CeilingLeg c)"

definition user_need :: "proto \<Rightarrow> string \<Rightarrow> HeldAmounts" where
  "user_need s u = active_user_held (p_db s) u + flight_sum (p_flights s) (UserLeg u)
     - flight_sum (p_unbacked s) (UserLeg u)"

definition holds_inv :: "proto \<Rightarrow> bool" where
  "holds_inv s \<longleftrightarrow>
     wf_ledger (p_db s) \<and>
     held_nonneg (ceiling_counters (p_db s)) \<and> held_nonneg (user_counters (p_db s)) \<and>
     covers (ceiling_counters (p_db s)) (ceiling_need s) \<and>
     covers (user_counters (p_db s)) (user_need s) \<and>
     (\<forall>f \<in> set (p_unbacked s). 0 \<le> f_amount f) \<and>
     (\<forall>f \<in> set (p_flights s). 0 \<le> f_amount f \<and> f_at f \<le> p_now s \<and> written_since (p_db s) f)"

lemma invI:
  assumes "wf_ledger (p_db s)" "held_nonneg (ceiling_counters (p_db s))"
    "held_nonneg (user_counters (p_db s))" "covers (ceiling_counters (p_db s)) (ceiling_need s)"
    "covers (user_counters (p_db s)) (user_need s)" "\<And>f. f \<in> set (p_unbacked s) \<Longrightarrow> 0 \<le> f_amount f"
    "\<And>f. f \<in> set (p_flights s) \<Longrightarrow> 0 \<le> f_amount f \<and> f_at f \<le> p_now s \<and> written_since (p_db s) f"
  shows "holds_inv s"
  using assms by (simp add: holds_inv_def)

lemma inv_initial: "initial s \<Longrightarrow> holds_inv s"
  by (auto simp: initial_def holds_inv_def wf_ledger_def covers_def ceiling_need_def user_need_def
      active_ceiling_held_def active_user_held_def flight_sum_def held_nonneg_def)

subsection \<open>Flights\<close>

lemma flight_sum_mset: "mset xs = mset ys \<Longrightarrow> flight_sum xs l = flight_sum ys l"
proof -
  assume e: "mset xs = mset ys"
  have "flight_sum zs l = sum_mset (image_mset f_amount (filter_mset (\<lambda>f. f_leg f = l) (mset zs)))" for zs
    by (induction zs) (auto simp: flight_sum_def)
  then show ?thesis using e by simp
qed

lemma flight_sum_Nil [simp]: "flight_sum [] l = 0"
  by (simp add: flight_sum_def)

lemma flight_sum_append [simp]: "flight_sum (xs @ ys) l = flight_sum xs l + flight_sum ys l"
  by (simp add: flight_sum_def)

lemma flight_sum_split:
  "mset xs = mset fs + mset fs' \<Longrightarrow> flight_sum xs l = flight_sum fs l + flight_sum fs' l"
  using flight_sum_mset[of xs "fs @ fs'" l] by simp

lemma flight_sum_Cons [simp]:
  "flight_sum (f # fs) l = (if f_leg f = l then f_amount f else 0) + flight_sum fs l"
  by (simp add: flight_sum_def)

lemma flight_sum_nonneg: "(\<And>f. f \<in> set fs \<Longrightarrow> 0 \<le> f_amount f) \<Longrightarrow> 0 \<le> flight_sum fs l"
  unfolding flight_sum_def by (rule table_sum_nonneg) auto

lemma mset_sub_set: "mset xs = mset fs + mset fs' \<Longrightarrow> f \<in> set fs' \<Longrightarrow> f \<in> set xs"
  by (metis UnCI set_append mset_append set_mset_mset)

lemma mset_sub_set1: "mset xs = mset fs + mset fs' \<Longrightarrow> f \<in> set fs \<Longrightarrow> f \<in> set xs"
  by (metis UnCI set_append mset_append set_mset_mset)

subsection \<open>Writes move \<open>updated_at\<close> forward\<close>

definition evolves :: "instant \<Rightarrow> db \<Rightarrow> db \<Rightarrow> bool" where
  "evolves now d d' \<longleftrightarrow>
     (\<forall>r' \<in> set (d_scoped d'). \<exists>r \<in> set (d_scoped d). s_id r' = s_id r \<and>
        (s_updated_at r' = s_updated_at r \<or> s_updated_at r' = Some now)) \<and>
     (\<forall>u' \<in> set (d_users d'). \<exists>u \<in> set (d_users d). u_user_id u' = u_user_id u \<and>
        u_deleted u' = u_deleted u \<and>
        (u_updated_at u' = u_updated_at u \<or> u_updated_at u' = Some now))"

lemma evolves_refl [simp]:
  "d_scoped d' = d_scoped d \<Longrightarrow> d_users d' = d_users d \<Longrightarrow> evolves now d d'"
  unfolding evolves_def by auto

lemma evolves_trans: "evolves now d e \<Longrightarrow> evolves now e f \<Longrightarrow> evolves now d f"
  unfolding evolves_def by (metis (no_types, lifting))

lemma evolves_written:
  assumes "evolves now d d'" "f_at f \<le> now" "written_since d f"
  shows "written_since d' f"
proof (cases "f_leg f")
  case (CeilingLeg i)
  show ?thesis
    unfolding written_since_def CeilingLeg leg.case
  proof (intro ballI impI)
    fix r' assume r': "r' \<in> set (d_scoped d')" "s_id r' = i"
    then obtain r where r: "r \<in> set (d_scoped d)" "s_id r = i"
      "s_updated_at r' = s_updated_at r \<or> s_updated_at r' = Some now"
      using assms(1) by (auto simp: evolves_def)
    then show "\<not> quiet_since (f_at f) (s_updated_at r')"
      using assms(2,3) CeilingLeg by (auto simp: written_since_def quiet_since_def)
  qed
next
  case (UserLeg i)
  show ?thesis
    unfolding written_since_def UserLeg leg.case
  proof (intro ballI impI)
    fix u' assume u': "u' \<in> set (d_users d')" "live_user i u'"
    then obtain u where u: "u \<in> set (d_users d)" "live_user i u"
      "u_updated_at u' = u_updated_at u \<or> u_updated_at u' = Some now"
      using assms(1) by (auto simp: evolves_def live_user_def)
    then show "\<not> quiet_since (f_at f) (u_updated_at u')"
      using assms(2,3) UserLeg by (auto simp: written_since_def quiet_since_def)
  qed
qed

lemma evolves_update_scoped:
  assumes "\<And>r. s_id (f r) = s_id r" "\<And>r. s_updated_at (f r) = Some now"
  shows "evolves now d (update_scoped p f d)"
  unfolding evolves_def update_scoped_def
  using assms by (fastforce simp: in_update_where_iff)

lemma evolves_update_users:
  assumes "\<And>u. u_user_id (f u) = u_user_id u" "\<And>u. u_deleted (f u) = u_deleted u"
    "\<And>u. u_updated_at (f u) = Some now"
  shows "evolves now d (update_users p f d)"
  unfolding evolves_def update_users_def
  using assms by (fastforce simp: in_update_where_iff)

lemma evolves_steps [simp]:
  "evolves now d (update_counters now ids v f d)"
  "evolves now d (release_db now ids a d)"
  "evolves now d (update_live_user now i g d)"
  "evolves now d (fst (hold now i amount t q n d))"
  "evolves now d (set_status i a' b' d)"
  "evolves now d (add_reservation i u ur uh ch ids e d)"
  by (auto simp: update_counters_def release_db_def release_holds_def update_live_user_def hold_def
      Let_def touch_counters_def touch_user_def intro!: evolves_update_scoped evolves_update_users)

lemma evolves_fold_release:
  "evolves now d (fold (\<lambda>(held, ids). release_db now ids held) gs d)"
proof (induction gs arbitrary: d)
  case (Cons g gs)
  show ?case
    using evolves_trans[OF evolves_steps(2) Cons] by (cases g) simp
qed simp

subsection \<open>Counters that fall by at most what is given back\<close>

definition lowers_by ::
  "(string \<Rightarrow> HeldAmounts) \<Rightarrow> (string \<Rightarrow> counters option) \<Rightarrow> (string \<Rightarrow> counters option) \<Rightarrow> bool" where
  "lowers_by give m m' \<longleftrightarrow>
     (\<forall>i c'. m' i = Some c' \<longrightarrow> (\<exists>c. m i = Some c \<and> c_held c - give i \<le> c_held c' \<and>
        (0 \<le> c_held c \<longrightarrow> 0 \<le> c_held c')))"

lemma lowers_byE:
  assumes "lowers_by give m m'" "m' i = Some c'"
  obtains c where "m i = Some c" "c_held c - give i \<le> c_held c'" "0 \<le> c_held c \<longrightarrow> 0 \<le> c_held c'"
  using assms unfolding lowers_by_def by blast

lemma lowers_by_refl [simp]: "lowers_by (\<lambda>_. 0) m m"
  by (simp add: lowers_by_def)

lemma lowers_by_trans:
  assumes "lowers_by g m m'" "lowers_by g' m' m''"
  shows "lowers_by (\<lambda>i. g i + g' i) m m''"
  unfolding lowers_by_def
proof (intro allI impI)
  fix i c'' assume "m'' i = Some c''"
  with assms(2) obtain c' where c': "m' i = Some c'" "c_held c' - g' i \<le> c_held c''"
    "0 \<le> c_held c' \<longrightarrow> 0 \<le> c_held c''" by (rule lowers_byE)
  from assms(1) c'(1) obtain c where c: "m i = Some c" "c_held c - g i \<le> c_held c'"
    "0 \<le> c_held c \<longrightarrow> 0 \<le> c_held c'" by (rule lowers_byE)
  have "c_held c - (g i + g' i) = c_held c - g i - g' i" by (simp add: algebra_simps)
  also have "\<dots> \<le> c_held c' - g' i" using c(2) by (rule diff_right_mono)
  also have "\<dots> \<le> c_held c''" by (rule c'(2))
  finally show "\<exists>c. m i = Some c \<and> c_held c - (g i + g' i) \<le> c_held c'' \<and>
      (0 \<le> c_held c \<longrightarrow> 0 \<le> c_held c'')"
    using c c' by blast
qed

lemma lowers_by_on_keys:
  assumes "\<And>c. c_held c - a \<le> c_held (f c)" "\<And>c. 0 \<le> c_held c \<Longrightarrow> 0 \<le> c_held (f c)"
  shows "lowers_by (\<lambda>i. if i \<in> K then a else 0) m (on_keys K f m)"
  using assms by (auto simp: lowers_by_def on_keys_def split: if_splits)

lemma lowers_by_release_by:
  assumes "\<And>i. 0 \<le> give i"
  shows "lowers_by give m (release_by give m)"
  using assms release_amounts_ge release_amounts_nonneg
  by (fastforce simp: lowers_by_def release_by_def)

lemma covers_lowers: "covers m need \<Longrightarrow> lowers_by give m m' \<Longrightarrow> covers m' (\<lambda>i. need i - give i)"
  unfolding covers_def
proof (intro allI impI)
  fix i c' assume m: "\<forall>i c. m i = Some c \<longrightarrow> need i \<le> c_held c" and l: "lowers_by give m m'"
    and "m' i = Some c'"
  then obtain c where c: "m i = Some c" "c_held c - give i \<le> c_held c'" by (meson lowers_byE)
  have "need i - give i \<le> c_held c - give i" using m c(1) by (simp add: diff_right_mono)
  then show "need i - give i \<le> c_held c'" using c(2) by (rule order_trans)
qed

lemma held_nonneg_lowers: "held_nonneg m \<Longrightarrow> lowers_by give m m' \<Longrightarrow> held_nonneg m'"
  unfolding held_nonneg_def by (meson lowers_byE)

text \<open>The one argument of every step that gives holds back or writes them down.\<close>

lemma inv_lowers_unbacked:
  assumes s: "holds_inv s" and wf: "wf_ledger d"
    and c: "lowers_by gc (ceiling_counters (p_db s)) (ceiling_counters d)"
    and u: "lowers_by gu (user_counters (p_db s)) (user_counters d)"
    and ev: "evolves (p_now s) (p_db s) d"
    and fl: "mset (p_flights s) = mset fs + mset fs'"
    and ds: "\<And>f. f \<in> set ds \<Longrightarrow> 0 \<le> f_amount f"
    and nc: "\<And>i. active_ceiling_held d i + gc i \<le>
      active_ceiling_held (p_db s) i + flight_sum (fs @ ds) (CeilingLeg i)"
    and nu: "\<And>i. active_user_held d i + gu i \<le>
      active_user_held (p_db s) i + flight_sum (fs @ ds) (UserLeg i)"
  shows "holds_inv (s\<lparr>p_db := d, p_flights := fs', p_unbacked := ds @ p_unbacked s\<rparr>)"
proof (rule invI)
  let ?s = "s\<lparr>p_db := d, p_flights := fs', p_unbacked := ds @ p_unbacked s\<rparr>"
  note i = s[unfolded holds_inv_def]
  show "wf_ledger (p_db ?s)" using wf by simp
  show "held_nonneg (ceiling_counters (p_db ?s))" using i c held_nonneg_lowers by auto
  show "held_nonneg (user_counters (p_db ?s))" using i u held_nonneg_lowers by auto
  have "ceiling_need ?s j \<le> ceiling_need s j - gc j" for j
    using nc[of j] flight_sum_split[OF fl, of "CeilingLeg j"]
    by (simp add: ceiling_need_def algebra_simps)
  then show "covers (ceiling_counters (p_db ?s)) (ceiling_need ?s)"
    using covers_mono[OF covers_lowers[OF _ c]] i by auto
  have "user_need ?s j \<le> user_need s j - gu j" for j
    using nu[of j] flight_sum_split[OF fl, of "UserLeg j"]
    by (simp add: user_need_def algebra_simps)
  then show "covers (user_counters (p_db ?s)) (user_need ?s)"
    using covers_mono[OF covers_lowers[OF _ u]] i by auto
  show "0 \<le> f_amount f" if "f \<in> set (p_unbacked ?s)" for f using that i ds by auto
  fix f assume "f \<in> set (p_flights ?s)"
  then have "f \<in> set (p_flights s)" using mset_sub_set[OF fl] by simp
  then show "0 \<le> f_amount f \<and> f_at f \<le> p_now ?s \<and> written_since (p_db ?s) f"
    using i evolves_written[OF ev] by auto
qed

lemma inv_lowers:
  assumes s: "holds_inv s" and wf: "wf_ledger d"
    and c: "lowers_by gc (ceiling_counters (p_db s)) (ceiling_counters d)"
    and u: "lowers_by gu (user_counters (p_db s)) (user_counters d)"
    and ev: "evolves (p_now s) (p_db s) d"
    and fl: "mset (p_flights s) = mset fs + mset fs'"
    and nc: "\<And>i. active_ceiling_held d i + gc i \<le>
      active_ceiling_held (p_db s) i + flight_sum fs (CeilingLeg i)"
    and nu: "\<And>i. active_user_held d i + gu i \<le>
      active_user_held (p_db s) i + flight_sum fs (UserLeg i)"
  shows "holds_inv (s\<lparr>p_db := d, p_flights := fs'\<rparr>)"
proof -
  have "holds_inv (s\<lparr>p_db := d, p_flights := fs', p_unbacked := [] @ p_unbacked s\<rparr>)"
    by (rule inv_lowers_unbacked[OF s wf c u ev fl]) (use nc nu in simp_all)
  moreover have "s\<lparr>p_db := d, p_flights := fs', p_unbacked := [] @ p_unbacked s\<rparr> = s\<lparr>p_db := d, p_flights := fs'\<rparr>"
    by simp
  ultimately show ?thesis by metis
qed

lemma inv_lowers_same:
  assumes "holds_inv s" "wf_ledger d" "lowers_by gc (ceiling_counters (p_db s)) (ceiling_counters d)"
    "lowers_by gu (user_counters (p_db s)) (user_counters d)" "evolves (p_now s) (p_db s) d"
    "\<And>i. active_ceiling_held d i + gc i \<le> active_ceiling_held (p_db s) i"
    "\<And>i. active_user_held d i + gu i \<le> active_user_held (p_db s) i"
  shows "holds_inv (s\<lparr>p_db := d\<rparr>)"
proof -
  have "holds_inv (s\<lparr>p_db := d, p_flights := p_flights s\<rparr>)"
    by (rule inv_lowers[OF assms(1-5), where fs = "[]"]) (use assms(6,7) in \<open>simp_all add: flight_sum_def\<close>)
  then show ?thesis by simp
qed

section \<open>Every step keeps the invariant\<close>

lemma inv_tick: "holds_inv s \<Longrightarrow> p_now s \<le> t \<Longrightarrow> holds_inv (s\<lparr>p_now := t\<rparr>)"
  by (auto simp: holds_inv_def ceiling_need_def[abs_def] user_need_def[abs_def] intro: order_trans)

lemma not_quiet_now: "\<not> quiet_since t (Some t)"
  by (simp add: quiet_since_def)

lemma inv_take:
  assumes s: "holds_inv s" and ev: "evolves (p_now s) (p_db s) d" and wf: "wf_ledger d"
    and sums: "active_ceiling_held d = active_ceiling_held (p_db s)"
      "active_user_held d = active_user_held (p_db s)"
    and c: "ceiling_counters d = on_keys {i. f_leg f = CeilingLeg i} (hold_counters (f_amount f))
      (ceiling_counters (p_db s))"
    and u: "user_counters d = on_keys {i. f_leg f = UserLeg i} (hold_counters (f_amount f))
      (user_counters (p_db s))"
    and f: "0 \<le> f_amount f" "f_at f = p_now s" "written_since d f"
  shows "holds_inv (s\<lparr>p_db := d, p_flights := f # p_flights s\<rparr>)"
proof (rule invI)
  let ?s = "s\<lparr>p_db := d, p_flights := f # p_flights s\<rparr>"
  note i = s[unfolded holds_inv_def]
  show "wf_ledger (p_db ?s)" using wf by simp
  show "held_nonneg (ceiling_counters (p_db ?s))" "held_nonneg (user_counters (p_db ?s))"
    using i f(1) by (simp_all add: c u held_nonneg_on_keys)
  have "ceiling_need ?s = (\<lambda>j. ceiling_need s j +
      (if j \<in> {j. f_leg f = CeilingLeg j} then f_amount f else 0))"
    by (rule ext) (simp add: ceiling_need_def sums algebra_simps)
  then show "covers (ceiling_counters (p_db ?s)) (ceiling_need ?s)"
    using covers_hold[of "ceiling_counters (p_db s)" "ceiling_need s"
        "{j. f_leg f = CeilingLeg j}" "f_amount f"] i by (simp add: c)
  have "user_need ?s = (\<lambda>j. user_need s j +
      (if j \<in> {j. f_leg f = UserLeg j} then f_amount f else 0))"
    by (rule ext) (simp add: user_need_def sums algebra_simps)
  then show "covers (user_counters (p_db ?s)) (user_need ?s)"
    using covers_hold[of "user_counters (p_db s)" "user_need s"
        "{j. f_leg f = UserLeg j}" "f_amount f"] i by (simp add: u)
  show "0 \<le> f_amount x" if "x \<in> set (p_unbacked ?s)" for x using that i by simp
  fix x assume "x \<in> set (p_flights ?s)"
  then show "0 \<le> f_amount x \<and> f_at x \<le> p_now ?s \<and> written_since (p_db ?s) x"
    using i f evolves_written[OF ev] by auto
qed

lemma inv_hold_ceiling:
  assumes s: "holds_inv s" and h: "hold (p_now s) i amount t q n (p_db s) = (d, True)"
    and a: "0 \<le> hold_of amount t q"
  shows "holds_inv (s\<lparr>p_db := d, p_flights :=
       \<lparr>f_leg = CeilingLeg i, f_amount = hold_of amount t q, f_at = p_now s\<rparr> # p_flights s\<rparr>)"
proof -
  have d: "d = fst (hold (p_now s) i amount t q n (p_db s))" using h by simp
  have keys: "keys_unique (p_db s)" using s by (simp add: holds_inv_def wf_ledger_def)
  show ?thesis
  proof (rule inv_take[OF s])
    show "evolves (p_now s) (p_db s) d" unfolding d by simp
    have "wf_ledger d = wf_ledger (p_db s)" unfolding d by (rule wf_ledger_cong) simp_all
    then show "wf_ledger d" using s by (simp add: holds_inv_def)
    show "active_ceiling_held d = active_ceiling_held (p_db s)"
      "active_user_held d = active_user_held (p_db s)"
      unfolding d by (rule sums_cong; simp)+
    show "written_since d \<lparr>f_leg = CeilingLeg i, f_amount = hold_of amount t q, f_at = p_now s\<rparr>"
    proof -
      obtain x where x: "x \<in> set (d_scoped (p_db s))" "hold_gate (p_db s) i amount t q n x"
        using h by (auto simp: hold_def Let_def rowcount_pos_iff)
      have "s_updated_at r' = Some (p_now s)" if r': "r' \<in> set (d_scoped d)" "s_id r' = i" for r'
      proof -
        obtain r where r: "r \<in> set (d_scoped (p_db s))" and e: "r' =
            (if hold_gate (p_db s) i amount t q n r
             then touch_counters (p_now s) (hold_counters (hold_of amount t q)) r else r)"
          using r'(1) unfolding d hold_rows by blast
        have "s_id r = i" using e r'(2) by (simp split: if_splits)
        then have "r = x" using key_unique[of s_id "d_scoped (p_db s)" r x] keys r x
          by (auto simp: keys_unique_def hold_gate_def)
        then show ?thesis using e x(2) by (simp add: touch_counters_def)
      qed
      then show ?thesis by (simp add: written_since_def not_quiet_now)
    qed
    show "ceiling_counters d = on_keys {j. f_leg \<lparr>f_leg = CeilingLeg i, f_amount = hold_of amount t q,
        f_at = p_now s\<rparr> = CeilingLeg j} (hold_counters (f_amount \<lparr>f_leg = CeilingLeg i,
        f_amount = hold_of amount t q, f_at = p_now s\<rparr>)) (ceiling_counters (p_db s))"
      using hold_effect[OF keys, of "p_now s" i amount t q n] unfolding h by simp
    show "user_counters d = on_keys {j. f_leg \<lparr>f_leg = CeilingLeg i, f_amount = hold_of amount t q,
        f_at = p_now s\<rparr> = UserLeg j} (hold_counters (f_amount \<lparr>f_leg = CeilingLeg i,
        f_amount = hold_of amount t q, f_at = p_now s\<rparr>)) (user_counters (p_db s))"
      unfolding d by simp
  qed (use a in simp_all)
qed

lemma inv_hold_user:
  assumes s: "holds_inv s" and m: "0 < rowcount p (d_users (p_db s))"
    and p: "\<And>u. p u \<Longrightarrow> live_user i u" and a: "0 \<le> a"
  shows "holds_inv (s\<lparr>p_db := update_users p (touch_user (p_now s) (hold_counters a)) (p_db s), p_flights :=
       \<lparr>f_leg = UserLeg i, f_amount = a, f_at = p_now s\<rparr> # p_flights s\<rparr>)"
proof -
  let ?d = "update_users p (touch_user (p_now s) (hold_counters a)) (p_db s)"
  have keys: "distinct (map u_user_id (d_users (p_db s)))"
    using s by (simp add: holds_inv_def wf_ledger_def keys_unique_def)
  show ?thesis
  proof (rule inv_take[OF s])
    show "evolves (p_now s) (p_db s) ?d" by (rule evolves_update_users) (simp_all add: touch_user_def)
    have "wf_ledger ?d = wf_ledger (p_db s)"
      by (rule wf_ledger_cong) (simp_all add: update_users_def map_update_where touch_user_def)
    then show "wf_ledger ?d" using s by (simp add: holds_inv_def)
    show "active_ceiling_held ?d = active_ceiling_held (p_db s)"
      "active_user_held ?d = active_user_held (p_db s)"
      by (rule sums_cong; simp add: update_users_def)+
    show "ceiling_counters ?d = on_keys {j. f_leg \<lparr>f_leg = UserLeg i, f_amount = a, f_at = p_now s\<rparr> =
        CeilingLeg j} (hold_counters (f_amount \<lparr>f_leg = UserLeg i, f_amount = a, f_at = p_now s\<rparr>))
        (ceiling_counters (p_db s))"
      by (simp add: update_users_def)
    show "user_counters ?d = on_keys {j. f_leg \<lparr>f_leg = UserLeg i, f_amount = a, f_at = p_now s\<rparr> =
        UserLeg j} (hold_counters (f_amount \<lparr>f_leg = UserLeg i, f_amount = a, f_at = p_now s\<rparr>))
        (user_counters (p_db s))"
      using users.update_guarded[OF keys, of p i "p_now s" "hold_counters a"] p m
      by (simp add: user_counters_def update_users_def live_user_def)
    show "written_since ?d \<lparr>f_leg = UserLeg i, f_amount = a, f_at = p_now s\<rparr>"
    proof -
      obtain x where x: "x \<in> set (d_users (p_db s))" "p x" using m by (auto simp: rowcount_pos_iff)
      have "u_updated_at u' = Some (p_now s)" if u': "u' \<in> set (d_users ?d)" "live_user i u'" for u'
      proof -
        obtain u where u: "u \<in> set (d_users (p_db s))"
          and e: "u' = (if p u then touch_user (p_now s) (hold_counters a) u else u)"
          using u'(1) by (auto simp: update_users_def in_update_where_iff)
        have "u_user_id u = i" using e u'(2) by (simp add: touch_user_def live_user_def split: if_splits)
        then have "u = x" using key_unique[OF keys u x(1)] p[OF x(2)] by (simp add: live_user_def)
        then show ?thesis using e x(2) by (simp add: touch_user_def)
      qed
      then show ?thesis by (simp add: written_since_def not_quiet_now)
    qed
  qed (simp_all add: a)
qed

lemma inv_give_back_ceilings:
  assumes s: "holds_inv s" and fl: "mset (p_flights s) = mset fs + mset fs'"
    and sum: "\<And>c. flight_sum fs (CeilingLeg c) = (if c \<in> set ids then a else 0)" and a: "0 \<le> a"
  shows "holds_inv (s\<lparr>p_db := release_db (p_now s) ids a (p_db s), p_flights := fs'\<rparr>)"
proof (rule inv_lowers[OF s _ _ _ _ fl])
  let ?gc = "\<lambda>c. if c \<in> set ids then a else 0"
  have fn: "\<And>f. f \<in> set fs \<Longrightarrow> 0 \<le> f_amount f" using s mset_sub_set1[OF fl] by (auto simp: holds_inv_def)
  show "wf_ledger (release_db (p_now s) ids a (p_db s))" using s by (simp add: holds_inv_def)
  show "lowers_by ?gc (ceiling_counters (p_db s)) (ceiling_counters (release_db (p_now s) ids a (p_db s)))"
    unfolding release_db_counters release_by_keys
    by (rule lowers_by_release_by) (use a in simp)
  show "lowers_by (\<lambda>_. 0) (user_counters (p_db s))
      (user_counters (release_db (p_now s) ids a (p_db s)))" by simp
  show "\<And>i. active_user_held (release_db (p_now s) ids a (p_db s)) i + 0 \<le>
      active_user_held (p_db s) i + flight_sum fs (UserLeg i)"
    using flight_sum_nonneg[OF fn] by simp
qed (simp_all add: sum)

lemma release_leg_ge: "c - a \<le> release_leg c a"
  by (simp add: release_leg_def amount_le_iff release_clamped_ge)

lemma release_leg_nonneg: "0 \<le> c \<Longrightarrow> 0 \<le> release_leg c a"
  by (simp add: release_leg_def amount_le_iff)

lemma lowers_by_leg:
  "lowers_by (\<lambda>i. if i \<in> K then a else 0) m (on_keys K (release_leg_counters a) m)"
  by (rule lowers_by_on_keys) (simp_all add: release_leg_counters_def release_leg_ge release_leg_nonneg)

lemma inv_give_back_user:
  assumes s: "holds_inv s" and fl: "mset (p_flights s) = mset fs + mset fs'"
    and sum: "flight_sum fs (UserLeg u) = a"
  shows "holds_inv (s\<lparr>p_db := update_live_user (p_now s) u (release_leg_counters a) (p_db s), p_flights := fs'\<rparr>)"
proof (rule inv_lowers[OF s _ _ _ _ fl])
  let ?d = "update_live_user (p_now s) u (release_leg_counters a) (p_db s)"
  have fn: "\<And>f. f \<in> set fs \<Longrightarrow> 0 \<le> f_amount f" using s mset_sub_set1[OF fl] by (auto simp: holds_inv_def)
  show "wf_ledger ?d" using s by (simp add: holds_inv_def)
  show "lowers_by (\<lambda>_. 0) (ceiling_counters (p_db s)) (ceiling_counters ?d)" by simp
  show "lowers_by (\<lambda>i. if i \<in> {u} then a else 0) (user_counters (p_db s)) (user_counters ?d)"
    unfolding update_live_user_counters by (rule lowers_by_leg)
  show "active_ceiling_held ?d i + 0 \<le> active_ceiling_held (p_db s) i + flight_sum fs (CeilingLeg i)" for i
    using flight_sum_nonneg[OF fn] by simp
  show "active_user_held ?d i + (if i \<in> {u} then a else 0) \<le>
      active_user_held (p_db s) i + flight_sum fs (UserLeg i)" for i
    using flight_sum_nonneg[OF fn] sum by auto
qed simp

lemma inv_lose_flights:
  assumes s: "holds_inv s" and fl: "mset (p_flights s) = mset fs + mset fs'"
  shows "holds_inv (s\<lparr>p_flights := fs'\<rparr>)"
proof -
  have fn: "\<And>f. f \<in> set fs \<Longrightarrow> 0 \<le> f_amount f" using s mset_sub_set1[OF fl] by (auto simp: holds_inv_def)
  have "holds_inv (s\<lparr>p_db := p_db s, p_flights := fs'\<rparr>)"
    by (rule inv_lowers[OF s _ lowers_by_refl lowers_by_refl _ fl])
       (use s flight_sum_nonneg[OF fn] in \<open>simp_all add: holds_inv_def\<close>)
  then show ?thesis by simp
qed

lemma inv_record_row:
  assumes s: "holds_inv s" and fl: "mset (p_flights s) = mset fs + mset fs'"
    and sc: "\<And>c. flight_sum fs (CeilingLeg c) = (if c \<in> set ids then ch else 0)"
    and su: "\<And>v. flight_sum fs (UserLeg v) = (if v = u \<and> ur then uh else 0)"
    and new: "\<not> reservation_exists (p_db s) i" "distinct ids" "0 \<le> uh" "0 \<le> ch" "ur \<or> uh = 0"
  shows "holds_inv (s\<lparr>p_db := add_reservation i u ur uh ch ids e (p_db s), p_flights := fs'\<rparr>)"
proof (rule inv_lowers[OF s _ _ _ _ fl])
  let ?d = "add_reservation i u ur uh ch ids e (p_db s)"
  have wf: "wf_ledger (p_db s)" using s by (simp add: holds_inv_def)
  show "wf_ledger ?d" by (rule wf_add_reservation[OF wf new])
  show "lowers_by (\<lambda>_. 0) (ceiling_counters (p_db s)) (ceiling_counters ?d)"
    "lowers_by (\<lambda>_. 0) (user_counters (p_db s)) (user_counters ?d)" by simp_all
  show "active_ceiling_held ?d c + 0 \<le> active_ceiling_held (p_db s) c + flight_sum fs (CeilingLeg c)" for c
    by (simp add: active_ceiling_held_add[OF wf new(1,2)] sc)
  show "active_user_held ?d v + 0 \<le> active_user_held (p_db s) v + flight_sum fs (UserLeg v)" for v
    by (auto simp: active_user_held_add su)
qed simp

end
