(* ===== verification/Hold_Safety.thy ===== *)
theory Hold_Safety
  imports Hold_Protocol
begin

text \<open>
  Every step of \<open>Hold_Protocol\<close> keeps its invariant, and what follows of it: in every reachable
  state of the tables a counter holds at least what the active rows record, less the unbacked releases,
  whatever the order of the steps and whichever process dies between two of them.
\<close>

section \<open>Settling, refunding, reclaiming\<close>

lemma settle_db_frame [simp]:
  "d_users (settle_db now ids used held counts d) = d_users d"
  "d_reservations (settle_db now ids used held counts d) = d_reservations d"
  "d_lines (settle_db now ids used held counts d) = d_lines d"
  "map s_id (d_scoped (settle_db now ids used held counts d)) = map s_id (d_scoped d)"
  "user_counters (settle_db now ids used held counts d) = user_counters d"
  "evolves now d (settle_db now ids used held counts d)"
  by (simp_all add: settle_db_def settle_ceilings_def Let_def user_counters_def)

lemma settle_db_lowers:
  assumes "0 \<le> held"
  shows "lowers_by (\<lambda>c. if c \<in> set ids then held else 0) (ceiling_counters d)
    (ceiling_counters (settle_db now ids used held counts d))"
proof -
  have keys: "lowers_by (\<lambda>c. if c \<in> set ids then held else 0) m (on_keys (set ids) (settle_counters x held) m)"
    for x m
    by (rule lowers_by_on_keys) (use assms in \<open>simp_all add: release_amounts_ge release_amounts_nonneg\<close>)
  show ?thesis
  proof (cases "ids = [] \<or> \<not> (some_positive (if counts then used else 0) \<or> some_positive held)")
    case True
    then have "ids = [] \<or> held = 0" using some_positive_zero[OF assms] by auto
    then have zero: "(\<lambda>c. if c \<in> set ids then held else 0) = (\<lambda>_. 0)" by auto
    show ?thesis using True unfolding zero settle_db_def Let_def by auto
  next
    case False
    then have some: "(some_positive (if counts then used else 0) \<or> some_positive held) = True"
      and ids: "ids \<noteq> []" by simp_all
    have "settle_db now ids used held counts d =
        update_counters now ids True (settle_counters (if counts then used else 0) held) d"
      unfolding settle_db_def Let_def settle_ceilings_def some using ids by simp
    then show ?thesis using keys by (simp add: update_counters_effect)
  qed
qed

lemma settle_user_leg_frame [simp]:
  "d_scoped (settle_user_leg now h c t e d) = d_scoped d"
  "d_reservations (settle_user_leg now h c t e d) = d_reservations d"
  "d_lines (settle_user_leg now h c t e d) = d_lines d"
  "map u_user_id (d_users (settle_user_leg now h c t e d)) = map u_user_id (d_users d)"
  "ceiling_counters (settle_user_leg now h c t e d) = ceiling_counters d"
  "evolves now d (settle_user_leg now h c t e d)"
  by (simp_all add: settle_user_leg_def Let_def)

lemma settle_user_leg_lowers:
  "lowers_by (\<lambda>v. if v \<in> {h_user_id h} then (if h_reserved h \<and> \<not> e then h_held h else 0) else 0)
     (user_counters d) (user_counters (settle_user_leg now h c t e d))"
proof -
  let ?give = "h_reserved h \<and> \<not> e"
  let ?f = "\<lambda>x. \<lparr>c_used = c_used x + user_recorded h c t,
      c_held = (if ?give then release_leg (c_held x) (h_held h) else c_held x)\<rparr>"
  have k: "lowers_by (\<lambda>v. if v \<in> {h_user_id h} then (if ?give then h_held h else 0) else 0)
      (user_counters d) (on_keys {h_user_id h} ?f (user_counters d))"
    by (rule lowers_by_on_keys) (auto simp: release_leg_ge release_leg_nonneg)
  show ?thesis
  proof (cases "user_recorded h c t = 0 \<and> \<not> ?give")
    case True
    then have "settle_user_leg now h c t e d = d" by (simp add: settle_user_leg_def Let_def)
    moreover have "(\<lambda>v. if v \<in> {h_user_id h} then (if ?give then h_held h else 0) else 0) =
        (\<lambda>_. 0 :: HeldAmounts)" using True by auto
    ultimately show ?thesis by simp
  next
    case False
    then have "settle_user_leg now h c t e d = update_live_user now (h_user_id h) ?f d"
      by (auto simp: settle_user_leg_def Let_def)
    then show ?thesis using k by simp
  qed
qed

lemma settle_legs_effect:
  assumes "0 \<le> h_scoped_held h"
  shows "lowers_by (\<lambda>i. if i \<in> set (scoped_budget_ids h) then (if e then 0 else h_scoped_held h) else 0)
      (ceiling_counters d) (ceiling_counters (settle_legs now h c t e d))"
    and "lowers_by (\<lambda>v. if v \<in> {h_user_id h} then (if h_reserved h \<and> \<not> e then h_held h else 0) else 0)
      (user_counters d) (user_counters (settle_legs now h c t e d))"
    and "evolves now d (settle_legs now h c t e d)"
    and "d_reservations (settle_legs now h c t e d) = d_reservations d"
    and "d_lines (settle_legs now h c t e d) = d_lines d"
    and "wf_ledger (settle_legs now h c t e d) = wf_ledger d"
proof -
  show "lowers_by (\<lambda>i. if i \<in> set (scoped_budget_ids h) then (if e then 0 else h_scoped_held h) else 0)
      (ceiling_counters d) (ceiling_counters (settle_legs now h c t e d))"
    using settle_db_lowers[of "if e then 0 else h_scoped_held h" "scoped_budget_ids h"
        "settle_user_leg now h c t e d"] assms
    by (simp add: settle_legs_def)
  show "lowers_by (\<lambda>v. if v \<in> {h_user_id h} then (if h_reserved h \<and> \<not> e then h_held h else 0) else 0)
      (user_counters d) (user_counters (settle_legs now h c t e d))"
    using settle_user_leg_lowers by (simp add: settle_legs_def)
  show "evolves now d (settle_legs now h c t e d)"
    unfolding settle_legs_def by (rule evolves_trans[OF settle_user_leg_frame(6) settle_db_frame(6)])
  show "d_reservations (settle_legs now h c t e d) = d_reservations d"
    "d_lines (settle_legs now h c t e d) = d_lines d" by (simp_all add: settle_legs_def)
  show "wf_ledger (settle_legs now h c t e d) = wf_ledger d"
    by (rule wf_ledger_cong) (simp_all add: settle_legs_def)
qed

text \<open>A change of status between terminal states moves no sum.\<close>

lemma set_status_terminal_active:
  assumes "a \<noteq> RESERVATION_ACTIVE" "b \<noteq> RESERVATION_ACTIVE"
  shows "d_reservations (set_status i a b d) =
      update_where (\<lambda>r. rv_id r = i \<and> rv_status r = a) (\<lambda>r. r\<lparr>rv_status := b\<rparr>) (d_reservations d)"
    and "is_active (set_status i a b d) = is_active d"
    and "active_user_held (set_status i a b d) = active_user_held d"
    and "active_ceiling_held (set_status i a b d) = active_ceiling_held d"
proof -
  show e: "d_reservations (set_status i a b d) =
      update_where (\<lambda>r. rv_id r = i \<and> rv_status r = a) (\<lambda>r. r\<lparr>rv_status := b\<rparr>) (d_reservations d)"
    by (simp add: set_status_def transition_def Let_def)
  show act: "is_active (set_status i a b d) = is_active d"
  proof
    fix j
    have "(\<exists>r \<in> set (update_where (\<lambda>r. rv_id r = i \<and> rv_status r = a) (\<lambda>r. r\<lparr>rv_status := b\<rparr>) rows).
          rv_id r = j \<and> active r) \<longleftrightarrow> (\<exists>r \<in> set rows. rv_id r = j \<and> active r)" for rows
      using assms by (induction rows) (auto simp: active_def)
    then show "is_active (set_status i a b d) j = is_active d j" unfolding is_active_def e .
  qed
  have "table_sum (\<lambda>r. rv_user_id r = u \<and> active r \<and> rv_user_reserved r) rv_held
        (update_where (\<lambda>r. rv_id r = i \<and> rv_status r = a) (\<lambda>r. r\<lparr>rv_status := b\<rparr>) rows) =
      table_sum (\<lambda>r. rv_user_id r = u \<and> active r \<and> rv_user_reserved r) rv_held rows" for u rows
    using assms by (induction rows) (auto simp: active_def)
  then show "active_user_held (set_status i a b d) = active_user_held d"
    unfolding active_user_held_def e by (intro ext)
  show "active_ceiling_held (set_status i a b d) = active_ceiling_held d"
    by (simp add: active_ceiling_held_def line_active_is act fun_eq_iff)
qed


lemma claim_is_active:
  assumes "wf_ledger d" "is_active d i" "handle_agrees h i d"
  obtains r where "r \<in> set (d_reservations d)" "rv_id r = i" "active r"
    "rv_user_id r = h_user_id h" "rv_user_reserved r = h_reserved h"
    "h_reserved h \<longrightarrow> rv_held r = h_held h"
    "\<forall>c. lines_held d i c = (if c \<in> set (scoped_budget_ids h) then h_scoped_held h else 0)"
proof -
  obtain r where r: "r \<in> set (d_reservations d)" "rv_id r = i" "active r"
    using assms(2) by (rule is_activeE)
  note agree = assms(3)[unfolded handle_agrees_def, THEN conjunct2, THEN conjunct2, THEN conjunct2,
      rule_format, OF r(1) conjI[OF r(2,3)]]
  show thesis by (rule that[OF r]) (use agree in simp_all)
qed

text \<open>The two sums after the claim of the row a handle names, by the flights it owns besides.\<close>

lemma claim_sums:
  assumes "wf_ledger d" "is_active d i" "handle_owns fs h i d" "b \<noteq> RESERVATION_ACTIVE"
  shows "active_ceiling_held (set_status i RESERVATION_ACTIVE b d) c +
      (if c \<in> set (scoped_budget_ids h) then h_scoped_held h else 0) =
      active_ceiling_held d c + flight_sum fs (CeilingLeg c)"
    and "active_user_held (set_status i RESERVATION_ACTIVE b d) v +
      (if v \<in> {h_user_id h} then if h_reserved h then h_held h else 0 else 0) =
      active_user_held d v + flight_sum fs (UserLeg v)"
proof -
  obtain r where r: "r \<in> set (d_reservations d)" "rv_id r = i" "active r"
    using assms(2) by (rule is_activeE)
  note owns = assms(3)[unfolded handle_owns_def, THEN conjunct2, THEN conjunct2, THEN conjunct2,
      rule_format, OF r(1) conjI[OF r(2,3)]]
  show "active_ceiling_held (set_status i RESERVATION_ACTIVE b d) c +
      (if c \<in> set (scoped_budget_ids h) then h_scoped_held h else 0) =
      active_ceiling_held d c + flight_sum fs (CeilingLeg c)"
    by (simp only: active_ceiling_held_claim[OF assms(2,4)] owns[THEN conjunct1, rule_format]) (simp add: algebra_simps)
  have "(if v \<in> {h_user_id h} then if h_reserved h then h_held h else 0 else 0) =
      (if v = rv_user_id r \<and> rv_user_reserved r then rv_held r else 0) + flight_sum fs (UserLeg v)"
    using owns[THEN conjunct2, rule_format, of v] by simp
  then show "active_user_held (set_status i RESERVATION_ACTIVE b d) v +
      (if v \<in> {h_user_id h} then if h_reserved h then h_held h else 0 else 0) =
      active_user_held d v + flight_sum fs (UserLeg v)"
    using active_user_held_claim[OF assms(1) r(1,3) assms(4), of v] r(2) by (auto simp: algebra_simps)
qed

lemma evolves_set_status: "evolves now (set_status i a b d) d' \<Longrightarrow> evolves now d d'"
  by (rule evolves_trans[OF evolves_steps(5)])

lemma reconcile_db_cases [consumes 1, case_names settled late ended]:
  assumes "h_reservation_id h = Some i"
  obtains
    (settled) "is_active d i" "reconcile_db now h cost tokens d =
      settle_legs now h (max cost 0) (max tokens 0) False
        (set_status i RESERVATION_ACTIVE RESERVATION_SETTLED d)"
  | (late) "\<not> is_active d i" "\<exists>r \<in> set (d_reservations d). rv_id r = i \<and> rv_status r = RESERVATION_EXPIRED"
      "reconcile_db now h cost tokens d = settle_legs now h (max cost 0) (max tokens 0) True
        (set_status i RESERVATION_EXPIRED RESERVATION_SETTLED d)"
  | (ended) "\<not> is_active d i"
      "\<not> (\<exists>r \<in> set (d_reservations d). rv_id r = i \<and> rv_status r = RESERVATION_EXPIRED)"
      "reconcile_db now h cost tokens d = d"
proof (cases "is_active d i")
  case True
  then show ?thesis using settled assms by (simp add: reconcile_db_def Let_def try_terminate_eq)
next
  case False
  then have idle: "set_status i RESERVATION_ACTIVE RESERVATION_SETTLED d = d"
    by (intro set_status_idle) (auto simp: is_active_def active_def)
  show ?thesis
  proof (cases "\<exists>r \<in> set (d_reservations d). rv_id r = i \<and> rv_status r = RESERVATION_EXPIRED")
    case True
    then show ?thesis using late False idle assms
      by (simp add: reconcile_db_def Let_def try_terminate_eq try_settle_reclaimed_def
          try_settle_reclaimed_row_def transition_eq)
  next
    case no: False
    then have "set_status i RESERVATION_EXPIRED RESERVATION_SETTLED d = d" by (rule set_status_idle)
    then show ?thesis using ended False no idle assms
      by (simp add: reconcile_db_def Let_def try_terminate_eq try_settle_reclaimed_def
          try_settle_reclaimed_row_def transition_eq)
  qed
qed

lemma inv_settle_row:
  assumes s: "holds_inv s" and fl: "mset (p_flights s) = mset fs + mset fs'" and ag: "handle_owns fs h i (p_db s)"
  shows "holds_inv (s\<lparr>p_db := reconcile_db (p_now s) h cost tokens (p_db s), p_flights := fs'\<rparr>)"
proof -
  have id: "h_reservation_id h = Some i" and sh: "0 \<le> h_scoped_held h"
    using ag by (simp_all add: handle_owns_def)
  have fn: "0 \<le> flight_sum fs l" for l
    by (rule flight_sum_nonneg) (use s mset_sub_set1[OF fl] in \<open>auto simp: holds_inv_def\<close>)
  have wf: "wf_ledger (p_db s)" using s by (simp add: holds_inv_def)
  show ?thesis
    using id
  proof (cases rule: reconcile_db_cases[where d = "p_db s" and now = "p_now s" and cost = cost
        and tokens = tokens])
    case settled
    let ?d1 = "set_status i RESERVATION_ACTIVE RESERVATION_SETTLED (p_db s)"
    note e = settle_legs_effect[OF sh, where now = "p_now s" and c = "max cost 0" and t = "max tokens 0"
        and e = False and d = ?d1]
    show ?thesis
      unfolding settled(2)
    proof (rule inv_lowers[OF s _ e(1)[unfolded set_status_tables] e(2)[unfolded set_status_tables]
          evolves_set_status[OF e(3)] fl])
      show "wf_ledger (settle_legs (p_now s) h (max cost 0) (max tokens 0) False ?d1)"
        using e(6) wf by simp
      note claim = claim_sums[OF wf settled(1) ag, of RESERVATION_SETTLED]
      show "active_ceiling_held (settle_legs (p_now s) h (max cost 0) (max tokens 0) False ?d1) c +
          (if c \<in> set (scoped_budget_ids h) then (if False then 0 else h_scoped_held h) else 0) \<le>
          active_ceiling_held (p_db s) c + flight_sum fs (CeilingLeg c)" for c
        using claim(1)[of c] by (simp add: sums_cong(2)[OF e(4,5)] cong: if_cong split del: if_split)
      show "active_user_held (settle_legs (p_now s) h (max cost 0) (max tokens 0) False ?d1) v +
          (if v \<in> {h_user_id h} then (if h_reserved h \<and> \<not> False then h_held h else 0) else 0) \<le>
          active_user_held (p_db s) v + flight_sum fs (UserLeg v)" for v
        using claim(2)[of v] by (simp add: sums_cong(1)[OF e(4)] cong: if_cong split del: if_split)
    qed
  next
    case late
    let ?d1 = "set_status i RESERVATION_EXPIRED RESERVATION_SETTLED (p_db s)"
    note e = settle_legs_effect[OF sh, where now = "p_now s" and c = "max cost 0" and t = "max tokens 0"
        and e = True and d = ?d1]
    show ?thesis
      unfolding late(3)
    proof (rule inv_lowers[OF s _ e(1)[unfolded set_status_tables] e(2)[unfolded set_status_tables]
          evolves_set_status[OF e(3)] fl])
      show "wf_ledger (settle_legs (p_now s) h (max cost 0) (max tokens 0) True ?d1)"
        using e(6) wf by simp
    qed (simp_all add: sums_cong(1)[OF e(4)] sums_cong(2)[OF e(4,5)] set_status_terminal_active fn)
  next
    case ended
    then show ?thesis using inv_lose_flights[OF s fl] by simp
  qed
qed

lemma inv_refund_row:
  assumes s: "holds_inv s" and fl: "mset (p_flights s) = mset fs + mset fs'" and ag: "handle_owns fs h i (p_db s)"
  shows "holds_inv (s\<lparr>p_db := refund_db (p_now s) h (p_db s), p_flights := fs'\<rparr>)"
proof -
  have id: "h_reservation_id h = Some i" and sh: "0 \<le> h_scoped_held h"
    using ag by (simp_all add: handle_owns_def)
  have fn: "0 \<le> flight_sum fs l" for l
    by (rule flight_sum_nonneg) (use s mset_sub_set1[OF fl] in \<open>auto simp: holds_inv_def\<close>)
  have wf: "wf_ledger (p_db s)" using s by (simp add: holds_inv_def)
  let ?d1 = "set_status i RESERVATION_ACTIVE RESERVATION_RELEASED (p_db s)"
  let ?d2 = "if h_reserved h
    then update_live_user (p_now s) (h_user_id h) (release_leg_counters (h_held h)) ?d1 else ?d1"
  let ?d3 = "release_db (p_now s) (scoped_budget_ids h) (h_scoped_held h) ?d2"
  show ?thesis
  proof (cases "is_active (p_db s) i")
    case True
    have d: "refund_db (p_now s) h (p_db s) = ?d3"
      using True by (simp add: refund_db_def id try_terminate_eq)
    have sums: "active_ceiling_held ?d3 = active_ceiling_held ?d1" "active_user_held ?d3 = active_user_held ?d1"
      by (cases "h_reserved h"; simp)+
    show ?thesis
      unfolding d
    proof (rule inv_lowers[OF s _ _ _ _ fl])
      show "wf_ledger ?d3" using wf by simp
      show "lowers_by (\<lambda>c. if c \<in> set (scoped_budget_ids h) then h_scoped_held h else 0)
          (ceiling_counters (p_db s)) (ceiling_counters ?d3)"
        unfolding release_db_counters release_by_keys
        using lowers_by_release_by[of "\<lambda>c. if c \<in> set (scoped_budget_ids h) then h_scoped_held h else 0"] sh
        by simp
      show "lowers_by (\<lambda>v. if v \<in> {h_user_id h} then if h_reserved h then h_held h else 0 else 0)
          (user_counters (p_db s)) (user_counters ?d3)"
        using lowers_by_leg[of "{h_user_id h}" "h_held h"] by simp
      have "evolves (p_now s) ?d1 ?d2" by simp
      then show "evolves (p_now s) (p_db s) ?d3"
        by (rule evolves_set_status[OF evolves_trans[OF _ evolves_steps(2)]])
      show "active_ceiling_held ?d3 c + (if c \<in> set (scoped_budget_ids h) then h_scoped_held h else 0) \<le>
          active_ceiling_held (p_db s) c + flight_sum fs (CeilingLeg c)" for c
        using claim_sums(1)[OF wf True ag, of RESERVATION_RELEASED c] unfolding sums by (intro eq_refl) simp_all
      show "active_user_held ?d3 v +
          (if v \<in> {h_user_id h} then if h_reserved h then h_held h else 0 else 0) \<le>
          active_user_held (p_db s) v + flight_sum fs (UserLeg v)" for v
        using claim_sums(2)[OF wf True ag, of RESERVATION_RELEASED v] unfolding sums by (intro eq_refl) simp_all
    qed
  next
    case False
    then have "refund_db (p_now s) h (p_db s) = ?d1" by (simp add: refund_db_def id try_terminate_eq)
    also have "?d1 = p_db s"
      by (rule set_status_idle) (use False in \<open>auto simp: is_active_def active_def\<close>)
    finally show ?thesis using inv_lose_flights[OF s fl] by simp
  qed
qed

lemma inv_reclaim_row:
  assumes s: "holds_inv s" and snap: "snapshot_of x r" and x: "x \<in> set (d_reservations (p_db s))"
  shows "holds_inv (s\<lparr>p_db := fst (reclaim_one (p_now s) r (p_db s))\<rparr>)"
proof -
  have wf: "wf_ledger (p_db s)" using s by (simp add: holds_inv_def)
  let ?d1 = "set_status (rv_id r) RESERVATION_ACTIVE RESERVATION_EXPIRED (p_db s)"
  let ?d2 = "release_reservation_holds (p_now s) r ?d1"
  show ?thesis
  proof (cases "is_active (p_db s) (rv_id r)")
    case True
    then obtain y where y: "y \<in> set (d_reservations (p_db s))" "rv_id y = rv_id r" "active y"
      by (rule is_activeE)
    have id: "rv_id x = rv_id r" and user: "rv_user_id x = rv_user_id r"
      and held: "0 \<le> rv_held r" "rv_held r \<le> rv_held x"
      and res: "rv_user_reserved r \<Longrightarrow> rv_user_reserved x"
      using snap by (simp_all add: snapshot_of_def)
    have act: "active x" using rv_unique[OF wf x y(1)] y(2,3) id by simp
    have d: "fst (reclaim_one (p_now s) r (p_db s)) = ?d2"
      using True by (simp add: reclaim_one_def try_terminate_eq)
    have wf1: "wf_ledger ?d1" using wf by simp
    note e = release_reservation_holds_effect[OF wf1, where now = "p_now s" and r = r]
    show ?thesis
      unfolding d
    proof (rule inv_lowers_same[OF s])
      show "wf_ledger ?d2" using wf_ledger_cong[of ?d2 ?d1] wf1 by simp
      show "lowers_by (lines_held (p_db s) (rv_id r)) (ceiling_counters (p_db s)) (ceiling_counters ?d2)"
        unfolding e(1) set_status_tables by (rule lowers_by_release_by) (rule lines_held_nonneg[OF wf])
      have k: "lowers_by (\<lambda>i. if i \<in> {rv_user_id r} then rv_held r else 0) m
          (on_keys {rv_user_id r} (release_counters (rv_held r)) m)" for m
        by (intro lowers_by_on_keys) (simp_all add: held release_amounts_ge release_amounts_nonneg)
      show "lowers_by (\<lambda>v. if v \<in> {rv_user_id r} then if rv_user_reserved r then rv_held r else 0 else 0)
          (user_counters (p_db s)) (user_counters ?d2)"
        unfolding e(2) using k by simp
      have "evolves (p_now s) ?d1 (release_user_leg (p_now s) r ?d1)"
        by (simp add: release_user_leg_def)
      then show "evolves (p_now s) (p_db s) ?d2"
        unfolding release_reservation_holds_def Let_def
        by (rule evolves_set_status[OF evolves_trans[OF _ evolves_fold_release]])
      show "active_ceiling_held ?d2 i + lines_held (p_db s) (rv_id r) i \<le> active_ceiling_held (p_db s) i" for i
        using active_ceiling_held_claim[OF True, of RESERVATION_EXPIRED i]
          sums_cong(2)[of ?d2 ?d1] by simp
      show "active_user_held ?d2 i + (if i \<in> {rv_user_id r} then if rv_user_reserved r then rv_held r else 0
          else 0) \<le> active_user_held (p_db s) i" for i
      proof -
        have eq: "active_user_held ?d2 i = active_user_held ?d1 i" using sums_cong(1)[of ?d2 ?d1] by simp
        have "(if i \<in> {rv_user_id r} then if rv_user_reserved r then rv_held r else 0 else 0) \<le>
            (if rv_user_id x = i \<and> rv_user_reserved x then rv_held x else 0)"
          using held res order_trans[OF held] by (auto simp: user)
        then show ?thesis
          using active_user_held_claim[OF wf x act, of RESERVATION_EXPIRED i] by (simp add: id eq)
      qed
    qed
  next
    case False
    then have "fst (reclaim_one (p_now s) r (p_db s)) = ?d1" by (simp add: reclaim_one_def try_terminate_eq)
    also have "?d1 = p_db s"
      by (rule set_status_idle) (use False in \<open>auto simp: is_active_def active_def\<close>)
    finally show ?thesis using s by simp
  qed
qed


subsection \<open>Handles without a row\<close>

lemma inv_settle_unrecorded:
  assumes s: "holds_inv s" and fl: "mset (p_flights s) = mset fs + mset fs'" and h: "carries (fs @ ds) h"
    and ds: "\<And>f. f \<in> set ds \<Longrightarrow> 0 \<le> f_amount f"
  shows "holds_inv (s\<lparr>p_db := reconcile_db (p_now s) h cost tokens (p_db s), p_flights := fs',
    p_unbacked := ds @ p_unbacked s\<rparr>)"
proof -
  have sh: "0 \<le> h_scoped_held h" using h by (simp add: carries_def)
  note e = settle_legs_effect[OF sh, where now = "p_now s" and c = "max cost 0" and t = "max tokens 0"
      and e = False and d = "p_db s"]
  have d: "reconcile_db (p_now s) h cost tokens (p_db s) =
      settle_legs (p_now s) h (max cost 0) (max tokens 0) False (p_db s)"
    using h by (simp add: reconcile_db_def Let_def try_terminate_def carries_def)
  show ?thesis
    unfolding d
    by (rule inv_lowers_unbacked[OF s _ e(1,2,3) fl ds])
       (use s h e(6) in \<open>simp_all add: sums_cong(1)[OF e(4)] sums_cong(2)[OF e(4,5)] carries_def holds_inv_def\<close>)
qed

lemma inv_refund_unrecorded:
  assumes s: "holds_inv s" and fl: "mset (p_flights s) = mset fs + mset fs'" and h: "carries (fs @ ds) h"
    and ds: "\<And>f. f \<in> set ds \<Longrightarrow> 0 \<le> f_amount f"
  shows "holds_inv (s\<lparr>p_db := refund_db (p_now s) h (p_db s), p_flights := fs',
    p_unbacked := ds @ p_unbacked s\<rparr>)"
proof -
  let ?d2 = "if h_reserved h
    then update_live_user (p_now s) (h_user_id h) (release_leg_counters (h_held h)) (p_db s) else p_db s"
  let ?d3 = "release_db (p_now s) (scoped_budget_ids h) (h_scoped_held h) ?d2"
  have sh: "0 \<le> h_scoped_held h" using h by (simp add: carries_def)
  have d: "refund_db (p_now s) h (p_db s) = ?d3"
    using h by (simp add: refund_db_def try_terminate_def carries_def)
  show ?thesis
    unfolding d
  proof (rule inv_lowers_unbacked[OF s _ _ _ _ fl ds])
    show "wf_ledger ?d3" using s by (simp add: holds_inv_def)
    show "lowers_by (\<lambda>c. if c \<in> set (scoped_budget_ids h) then h_scoped_held h else 0)
        (ceiling_counters (p_db s)) (ceiling_counters ?d3)"
      unfolding release_db_counters release_by_keys
      using lowers_by_release_by[of "\<lambda>c. if c \<in> set (scoped_budget_ids h) then h_scoped_held h else 0"] sh
      by simp
    show "lowers_by (\<lambda>v. if v \<in> {h_user_id h} then if h_reserved h then h_held h else 0 else 0)
        (user_counters (p_db s)) (user_counters ?d3)"
      using lowers_by_leg[of "{h_user_id h}" "h_held h"] by simp
    show "evolves (p_now s) (p_db s) ?d3" by (rule evolves_trans[OF _ evolves_steps(2)]) simp
  qed (use h in \<open>simp_all add: carries_def\<close>)
qed

text \<open>The row that says a hold was released: terminal, and holding nothing.\<close>

lemma add_released_effect:
  assumes "add_released now i u d = Inr d'" "wf_ledger d"
  shows "wf_ledger d'" "ceiling_counters d' = ceiling_counters d" "user_counters d' = user_counters d"
    "active_ceiling_held d' = active_ceiling_held d" "active_user_held d' = active_user_held d"
    "evolves t d d'"
proof -
  have d': "d' = d\<lparr>d_reservations := d_reservations d @ [released_row i u now]\<rparr>"
    and new: "\<not> reservation_exists d i"
    using assms(1) by (auto simp: add_released_def split: if_splits)
  show "wf_ledger d'"
    using assms(2) new
    by (auto simp: wf_ledger_def keys_unique_def d' reservation_exists_ids released_row_def)
  have "is_active d' = is_active d"
    by (auto simp: d' is_active_def released_row_def active_def fun_eq_iff)
  then show "active_ceiling_held d' = active_ceiling_held d"
    by (simp add: active_ceiling_held_def line_active_is fun_eq_iff) (simp add: d')
  show "active_user_held d' = active_user_held d"
    by (simp add: active_user_held_def d' released_row_def active_def fun_eq_iff)
qed (use assms(1) in \<open>auto simp: add_released_def split: if_splits\<close>)

lemma inv_release_unrecorded:
  assumes s: "holds_inv s" and fl: "mset (p_flights s) = mset fs + mset fs'"
    and sum: "\<And>c. flight_sum fs (CeilingLeg c) = (if c \<in> set ids then a else 0)" and a: "0 \<le> a"
    and add: "add_released (p_now s) i u (p_db s) = Inr d"
  shows "holds_inv (s\<lparr>p_db := release_db (p_now s) ids a d, p_flights := fs'\<rparr>)"
proof (rule inv_lowers[OF s _ _ _ _ fl])
  have wf: "wf_ledger (p_db s)" using s by (simp add: holds_inv_def)
  note e = add_released_effect[OF add wf]
  have fn: "\<And>f. f \<in> set fs \<Longrightarrow> 0 \<le> f_amount f" using s mset_sub_set1[OF fl] by (auto simp: holds_inv_def)
  show "wf_ledger (release_db (p_now s) ids a d)" using e(1) by simp
  show "lowers_by (\<lambda>c. if c \<in> set ids then a else 0) (ceiling_counters (p_db s))
      (ceiling_counters (release_db (p_now s) ids a d))"
    unfolding release_db_counters release_by_keys e(2) by (rule lowers_by_release_by) (use a in simp)
  show "lowers_by (\<lambda>_. 0) (user_counters (p_db s)) (user_counters (release_db (p_now s) ids a d))"
    by (simp add: e(3))
  show "evolves (p_now s) (p_db s) (release_db (p_now s) ids a d)"
    by (rule evolves_trans[OF e(6) evolves_steps(2)])
  show "\<And>v. active_user_held (release_db (p_now s) ids a d) v + 0 \<le>
      active_user_held (p_db s) v + flight_sum fs (UserLeg v)"
    using flight_sum_nonneg[OF fn] by (simp add: e(5))
  show "\<And>c. active_ceiling_held (release_db (p_now s) ids a d) c + (if c \<in> set ids then a else 0) \<le>
      active_ceiling_held (p_db s) c + flight_sum fs (CeilingLeg c)"
    by (simp add: e(4) sum)
qed

subsection \<open>Growing a recorded hold\<close>

lemma grow_row_tables:
  assumes "grow_row i ud ug sd td std d = (d', True)"
  shows "d_users d' = d_users d" "d_scoped d' = d_scoped d"
    "d_reservations d' = update_where (\<lambda>r. rv_id r = i \<and> active r)
      (\<lambda>r. r\<lparr>rv_held := rv_held r + HeldAmounts ud td 0, rv_user_reserved := rv_user_reserved r \<or> ug\<rparr>)
      (d_reservations d)"
    "is_active d i"
  using assms
  by (auto simp: grow_row_def Let_def is_active_def rowcount_zero_iff split: if_splits)

lemma grow_row_lines:
  assumes "grow_row i ud ug sd td std d = (d', True)" "0 \<le> HeldAmounts sd std 0"
  shows "d_lines d' = update_where (\<lambda>l. ln_reservation_id l = i)
      (\<lambda>l. l\<lparr>ln_held := ln_held l + HeldAmounts sd std 0\<rparr>) (d_lines d)"
proof (cases "sd > 0 \<or> std > 0")
  case True
  then show ?thesis using assms(1) by (auto simp: grow_row_def Let_def split: if_splits)
next
  case False
  then have "HeldAmounts sd std 0 = 0" using assms(2) by (simp add: amount_defs)
  then have "update_where (\<lambda>l. ln_reservation_id l = i)
      (\<lambda>l. l\<lparr>ln_held := ln_held l + HeldAmounts sd std 0\<rparr>) (d_lines d) = d_lines d"
    by (intro update_where_id) simp
  then show ?thesis using assms(1) False by (auto simp: grow_row_def Let_def split: if_splits)
qed

lemma table_sum_add_delta:
  assumes "\<And>r. f (g r) = f r + a" "\<And>r. p (g r) = p r"
  shows "table_sum p f (update_where q g rows) =
    table_sum p f rows + table_sum (\<lambda>r. p r \<and> q r) (\<lambda>_. a) rows"
  using assms by (induction rows) (auto simp: algebra_simps)

lemma grow_row_sums:
  assumes g: "grow_row i ud ug sd td std d = (d', True)" and wf: "wf_ledger d"
    and sd: "0 \<le> HeldAmounts sd std 0"
    and r: "r \<in> set (d_reservations d)" "rv_id r = i"
    and ug: "ug \<or> HeldAmounts ud td 0 = 0"
  shows "active_ceiling_held d' c = active_ceiling_held d c +
      (if has_line d i c then HeldAmounts sd std 0 else 0)"
    and "active_user_held d' v = active_user_held d v +
      (if v = rv_user_id r \<and> (rv_user_reserved r \<or> ug) then HeldAmounts ud td 0 else 0)"
proof -
  note t = grow_row_tables[OF g] and l = grow_row_lines[OF g sd]
  have "(\<exists>r' \<in> set (update_where p (\<lambda>r. r\<lparr>rv_held := rv_held r + HeldAmounts ud td 0,
      rv_user_reserved := rv_user_reserved r \<or> ug\<rparr>) rows). rv_id r' = j \<and> active r') \<longleftrightarrow>
      (\<exists>r \<in> set rows. rv_id r = j \<and> active r)" for p rows j
    by (induction rows) (auto simp: active_def)
  then have act: "is_active d' = is_active d" by (simp add: is_active_def fun_eq_iff t(3))
  have keys: "distinct (map (\<lambda>l. (ln_reservation_id l, ln_scoped_budget_id l)) (d_lines d))"
    using wf by (simp add: wf_ledger_def)
  have delta: "table_sum (\<lambda>l. (ln_scoped_budget_id l = c \<and> is_active d (ln_reservation_id l)) \<and>
      ln_reservation_id l = i) (\<lambda>_. HeldAmounts sd std 0) (d_lines d) =
      (if has_line d i c then HeldAmounts sd std 0 else 0)"
  proof (cases "has_line d i c")
    case True
    then obtain x where x: "x \<in> set (d_lines d)" "ln_reservation_id x = i" "ln_scoped_budget_id x = c"
      by (auto simp: has_line_def)
    show ?thesis using table_sum_unique[OF keys x(1), of
        "\<lambda>l. (ln_scoped_budget_id l = c \<and> is_active d (ln_reservation_id l)) \<and> ln_reservation_id l = i"
        "\<lambda>_. HeldAmounts sd std 0"] x t(4) True by simp
  next
    case False
    then show ?thesis by (auto simp: has_line_def intro!: table_sum_zero)
  qed
  show "active_ceiling_held d' c = active_ceiling_held d c +
      (if has_line d i c then HeldAmounts sd std 0 else 0)"
    unfolding active_ceiling_held_def line_active_is act l
    by (subst table_sum_add_delta[where a = "HeldAmounts sd std 0"])
       (use delta in \<open>simp_all add: conj_assoc\<close>)
  have rk: "distinct (map rv_id (d_reservations d))" using wf by (simp add: wf_ledger_def keys_unique_def)
  obtain x where x: "x \<in> set (d_reservations d)" "rv_id x = i" "active x" using t(4) by (rule is_activeE)
  have ar: "active r" using rv_unique[OF wf r(1) x(1)] r(2) x(2,3) by simp
  have z: "rv_user_reserved r \<or> rv_held r = 0" using wf r(1) by (simp add: wf_ledger_def)
  show "active_user_held d' v = active_user_held d v +
      (if v = rv_user_id r \<and> (rv_user_reserved r \<or> ug) then HeldAmounts ud td 0 else 0)"
    unfolding active_user_held_def t(3)
    by (subst table_sum_update_row[OF rk r(1)]) (use r ar z ug in \<open>auto simp: active_def\<close>)
qed

lemma wf_grow_row:
  assumes g: "grow_row i ud ug sd td std d = (d', True)" and wf: "wf_ledger d"
    and nn: "0 \<le> HeldAmounts ud td 0" "0 \<le> HeldAmounts sd std 0"
    and ug: "ug \<or> HeldAmounts ud td 0 = 0"
  shows "wf_ledger d'"
proof -
  note t = grow_row_tables[OF g] and l = grow_row_lines[OF g nn(2)]
  have ids: "map rv_id (d_reservations d') = map rv_id (d_reservations d)"
    unfolding t(3) by (rule map_update_where) simp
  have lids: "map (\<lambda>l. (ln_reservation_id l, ln_scoped_budget_id l)) (d_lines d') =
      map (\<lambda>l. (ln_reservation_id l, ln_scoped_budget_id l)) (d_lines d)"
    unfolding l by (rule map_update_where) simp
  have rows: "0 \<le> rv_held r' \<and> (rv_user_reserved r' \<or> rv_held r' = 0)"
    if r': "r' \<in> set (d_reservations d')" for r'
  proof -
    obtain r where r: "r \<in> set (d_reservations d)"
      and e: "r' = r \<or> r' = r\<lparr>rv_held := rv_held r + HeldAmounts ud td 0,
        rv_user_reserved := rv_user_reserved r \<or> ug\<rparr>"
      using r' unfolding t(3) in_update_where_iff by (auto split: if_splits)
    have "0 \<le> rv_held r" "rv_user_reserved r \<or> rv_held r = 0" using wf r by (simp_all add: wf_ledger_def)
    then show ?thesis using e nn(1) ug by auto
  qed
  have "0 \<le> ln_held l' \<and> reservation_exists d' (ln_reservation_id l')" if "l' \<in> set (d_lines d')" for l'
    using that wf nn(2) unfolding l in_update_where_iff
    by (auto simp: wf_ledger_def reservation_exists_ids ids simp del: set_map)
  then show ?thesis using wf rows by (simp add: wf_ledger_def keys_unique_def t(1,2) ids lids)
qed

lemma inv_grow_recorded:
  assumes s: "holds_inv s" and fl: "mset (p_flights s) = mset fs + mset fs'"
    and sc: "\<And>c. flight_sum fs (CeilingLeg c) =
        (if has_line (p_db s) i c then HeldAmounts sd std 0 else 0)"
    and su: "\<And>v. flight_sum fs (UserLeg v) =
        (if v = rv_user_id r \<and> (rv_user_reserved r \<or> ug) then HeldAmounts ud td 0 else 0)"
    and r: "r \<in> set (d_reservations (p_db s))" "rv_id r = i"
    and nn: "0 \<le> HeldAmounts ud td 0" "0 \<le> HeldAmounts sd std 0"
    and ug: "ug \<or> HeldAmounts ud td 0 = 0"
    and g: "grow_row i ud ug sd td std (p_db s) = (d, True)"
  shows "holds_inv (s\<lparr>p_db := d, p_flights := fs'\<rparr>)"
proof (rule inv_lowers[OF s _ _ _ _ fl])
  have wf: "wf_ledger (p_db s)" using s by (simp add: holds_inv_def)
  note t = grow_row_tables[OF g] and e = grow_row_sums[OF g wf nn(2) r ug]
  show "wf_ledger d" by (rule wf_grow_row[OF g wf nn ug])
  show "lowers_by (\<lambda>_. 0) (ceiling_counters (p_db s)) (ceiling_counters d)"
    "lowers_by (\<lambda>_. 0) (user_counters (p_db s)) (user_counters d)"
    by (simp_all add: ceiling_counters_def user_counters_def t)
  show "evolves (p_now s) (p_db s) d" using t by simp
  show "\<And>c. active_ceiling_held d c + 0 \<le>
      active_ceiling_held (p_db s) c + flight_sum fs (CeilingLeg c)" by (simp add: e(1) sc)
  show "\<And>v. active_user_held d v + 0 \<le>
      active_user_held (p_db s) v + flight_sum fs (UserLeg v)" by (simp add: e(2) su)
qed

section \<open>Reconciling orphans, pruning, rolling windows\<close>

text \<open>The one argument of the steps that give nothing back: a hold stays, or becomes the need.\<close>

lemma inv_clamps:
  assumes s: "holds_inv s" and wf: "wf_ledger d" and ev: "evolves (p_now s) (p_db s) d"
    and sums: "active_ceiling_held d = active_ceiling_held (p_db s)"
      "active_user_held d = active_user_held (p_db s)"
    and c: "\<And>i c'. ceiling_counters d i = Some c' \<Longrightarrow>
      \<exists>c. ceiling_counters (p_db s) i = Some c \<and> (c_held c' = c_held c \<or> 0 \<le> c_held c' \<and> ceiling_need s i \<le> c_held c')"
    and u: "\<And>i c'. user_counters d i = Some c' \<Longrightarrow>
      \<exists>c. user_counters (p_db s) i = Some c \<and> (c_held c' = c_held c \<or> 0 \<le> c_held c' \<and> user_need s i \<le> c_held c')"
  shows "holds_inv (s\<lparr>p_db := d\<rparr>)"
proof (rule invI)
  let ?s = "s\<lparr>p_db := d\<rparr>"
  note i = s[unfolded holds_inv_def]
  have need: "ceiling_need ?s = ceiling_need s" "user_need ?s = user_need s"
    by (simp_all add: ceiling_need_def[abs_def] user_need_def[abs_def] sums)
  have cn: "held_nonneg (ceiling_counters (p_db s))" "covers (ceiling_counters (p_db s)) (ceiling_need s)"
    and un: "held_nonneg (user_counters (p_db s))" "covers (user_counters (p_db s)) (user_need s)"
    using i by simp_all
  show "wf_ledger (p_db ?s)" using wf by simp
  have "0 \<le> c_held c' \<and> ceiling_need s j \<le> c_held c'" if "ceiling_counters d j = Some c'" for j c'
    using c[OF that] cn by (auto simp: held_nonneg_def covers_def)
  then show "held_nonneg (ceiling_counters (p_db ?s))" "covers (ceiling_counters (p_db ?s)) (ceiling_need ?s)"
    unfolding need by (simp_all add: held_nonneg_def covers_def)
  have "0 \<le> c_held c' \<and> user_need s j \<le> c_held c'" if "user_counters d j = Some c'" for j c'
    using u[OF that] un by (auto simp: held_nonneg_def covers_def)
  then show "held_nonneg (user_counters (p_db ?s))" "covers (user_counters (p_db ?s)) (user_need ?s)"
    unfolding need by (simp_all add: held_nonneg_def covers_def)
  show "0 \<le> f_amount f" if "f \<in> set (p_unbacked ?s)" for f using that i by simp
  fix f assume "f \<in> set (p_flights ?s)"
  then show "0 \<le> f_amount f \<and> f_at f \<le> p_now ?s \<and> written_since (p_db ?s) f"
    using i evolves_written[OF ev] by auto
qed

lemma clamped_need:
  "0 \<le> c_held c \<Longrightarrow> 0 \<le> n \<Longrightarrow> 0 \<le> c_held (set_holds (clamped (c_held c) n) c)"
  "m \<le> c_held c \<Longrightarrow> m \<le> n \<Longrightarrow> m \<le> c_held (set_holds (clamped (c_held c) n) c)"
  by (auto simp: set_holds_def clamped_def clamped_axis_def clamp_axis_def amount_le_iff)

lemma quiet_since_mono: "quiet_since a v \<Longrightarrow> a \<le> b \<Longrightarrow> quiet_since b v"
  by (auto simp: quiet_since_def split: option.splits)

text \<open>A counter that has been quiet since the cutoff has no flight that started after it.\<close>

lemma quiet_no_flight:
  assumes s: "holds_inv s" and f: "\<And>f. f \<in> set (p_flights s) \<Longrightarrow> cutoff \<le> f_at f"
    and quiet: "\<And>f. f \<in> set (p_flights s) \<Longrightarrow> f_leg f = l \<Longrightarrow> written_since (p_db s) f \<Longrightarrow>
      \<not> cutoff \<le> f_at f"
  shows "flight_sum (p_flights s) l = 0"
  unfolding flight_sum_def using assms by (intro table_sum_zero) (auto simp: holds_inv_def)

lemma inv_reconcile_user:
  assumes s: "holds_inv s" and f: "\<And>f. f \<in> set (p_flights s) \<Longrightarrow> cutoff \<le> f_at f"
  shows "holds_inv (s\<lparr>p_db := fst (reconcile_user (p_now s) u cutoff (p_db s))\<rparr>)"
proof (cases "find (\<lambda>x. live_user u x \<and> quiet_since cutoff (u_updated_at x)) (d_users (p_db s))")
  case None
  then show ?thesis using s by (simp add: reconcile_user_def)
next
  case (Some x)
  let ?n = "active_user_held (p_db s) u"
  let ?v = "clamped (c_held (u_counters x)) ?n"
  let ?d = "update_users (\<lambda>x. u_user_id x = u) (touch_user (p_now s) (set_holds ?v)) (p_db s)"
  have wf: "wf_ledger (p_db s)" using s by (simp add: holds_inv_def)
  then have keys: "distinct (map u_user_id (d_users (p_db s)))" by (simp add: wf_ledger_def keys_unique_def)
  have x: "x \<in> set (d_users (p_db s))" "live_user u x" "quiet_since cutoff (u_updated_at x)"
    using find_key_Some_D[OF Some] by simp_all
  have ctr: "user_counters (p_db s) u = Some (u_counters x)"
    using users.counters_row[OF keys x(1)] x(2) by (simp add: user_counters_def live_user_def)
  have none: "flight_sum (p_flights s) (UserLeg u) = 0"
    by (rule quiet_no_flight[OF s f]) (use x in \<open>auto simp: written_since_def dest: quiet_since_mono\<close>)
  moreover have "0 \<le> flight_sum (p_unbacked s) (UserLeg u)"
    by (rule flight_sum_nonneg) (use s in \<open>auto simp: holds_inv_def\<close>)
  ultimately have need: "user_need s u \<le> ?n" by (simp add: user_need_def)
  have le: "user_need s u \<le> c_held (u_counters x)" "0 \<le> c_held (u_counters x)" "0 \<le> ?n"
    using s ctr active_user_held_nonneg[OF wf] by (auto simp: holds_inv_def covers_def held_nonneg_def)
  have new: "user_counters ?d = on_keys {u} (set_holds ?v) (user_counters (p_db s))"
    using users.update_key[of u "p_now s" "set_holds ?v" "d_users (p_db s)"]
    by (simp add: user_counters_def update_users_def)
  have "holds_inv (s\<lparr>p_db := ?d\<rparr>)"
  proof (rule inv_clamps[OF s])
    have "wf_ledger ?d = wf_ledger (p_db s)"
      by (rule wf_ledger_cong) (simp_all add: update_users_def map_update_where touch_user_def)
    then show "wf_ledger ?d" using wf by simp
    show "evolves (p_now s) (p_db s) ?d" by (rule evolves_update_users) (simp_all add: touch_user_def)
    show "active_ceiling_held ?d = active_ceiling_held (p_db s)"
      "active_user_held ?d = active_user_held (p_db s)" by (simp_all add: update_users_def)
    show "\<exists>c. ceiling_counters (p_db s) i = Some c \<and> (c_held c' = c_held c \<or> 0 \<le> c_held c' \<and> ceiling_need s i \<le> c_held c')"
      if "ceiling_counters ?d i = Some c'" for i c' using that by (simp add: update_users_def)
    show "\<exists>c. user_counters (p_db s) i = Some c \<and> (c_held c' = c_held c \<or> 0 \<le> c_held c' \<and> user_need s i \<le> c_held c')"
      if "user_counters ?d i = Some c'" for i c'
      using that ctr clamped_need(1)[OF le(2,3)] clamped_need(2)[OF le(1) need] unfolding new by (cases "i = u") (auto simp: on_keys_def)
  qed
  then show ?thesis using s Some by (simp add: reconcile_user_def Let_def)
qed

lemma inv_reconcile_ceiling:
  assumes s: "holds_inv s" and f: "\<And>f. f \<in> set (p_flights s) \<Longrightarrow> cutoff \<le> f_at f"
  shows "holds_inv (s\<lparr>p_db := fst (reconcile_scoped (p_now s) u cutoff (p_db s))\<rparr>)"
proof (cases "find (\<lambda>r. s_id r = u \<and> quiet_since cutoff (s_updated_at r)) (d_scoped (p_db s))")
  case None
  then show ?thesis using s by (simp add: reconcile_scoped_def lock_quiet_holds_def)
next
  case (Some x)
  let ?n = "active_ceiling_held (p_db s) u"
  let ?v = "clamped (c_held (s_counters x)) ?n"
  let ?d = "update_counters (p_now s) [u] True (set_holds ?v) (p_db s)"
  have wf: "wf_ledger (p_db s)" using s by (simp add: holds_inv_def)
  then have keys: "distinct (map s_id (d_scoped (p_db s)))" by (simp add: wf_ledger_def keys_unique_def)
  have x: "x \<in> set (d_scoped (p_db s))" "s_id x = u" "quiet_since cutoff (s_updated_at x)"
    using find_key_Some_D[OF Some] by simp_all
  have ctr: "ceiling_counters (p_db s) u = Some (s_counters x)"
    using ceilings.counters_row[OF keys x(1)] x(2) by (simp add: ceiling_counters_def)
  have none: "flight_sum (p_flights s) (CeilingLeg u) = 0"
    by (rule quiet_no_flight[OF s f]) (use x in \<open>auto simp: written_since_def dest: quiet_since_mono\<close>)
  moreover have "0 \<le> flight_sum (p_unbacked s) (CeilingLeg u)"
    by (rule flight_sum_nonneg) (use s in \<open>auto simp: holds_inv_def\<close>)
  ultimately have need: "ceiling_need s u \<le> ?n" by (simp add: ceiling_need_def)
  have le: "ceiling_need s u \<le> c_held (s_counters x)" "0 \<le> c_held (s_counters x)" "0 \<le> ?n"
    using s ctr active_ceiling_held_nonneg[OF wf] by (auto simp: holds_inv_def covers_def held_nonneg_def)
  have new: "ceiling_counters ?d = on_keys {u} (set_holds ?v) (ceiling_counters (p_db s))"
    by (simp add: update_counters_effect)
  have "holds_inv (s\<lparr>p_db := ?d\<rparr>)"
  proof (rule inv_clamps[OF s])
    have "wf_ledger ?d = wf_ledger (p_db s)" by (rule wf_ledger_cong) simp_all
    then show "wf_ledger ?d" using wf by simp
    show "evolves (p_now s) (p_db s) ?d" by simp
    show "active_ceiling_held ?d = active_ceiling_held (p_db s)"
      "active_user_held ?d = active_user_held (p_db s)" by (rule sums_cong; simp)+
    show "\<exists>c. user_counters (p_db s) i = Some c \<and> (c_held c' = c_held c \<or> 0 \<le> c_held c' \<and> user_need s i \<le> c_held c')"
      if "user_counters ?d i = Some c'" for i c' using that by (simp add: user_counters_def)
    show "\<exists>c. ceiling_counters (p_db s) i = Some c \<and> (c_held c' = c_held c \<or> 0 \<le> c_held c' \<and> ceiling_need s i \<le> c_held c')"
      if "ceiling_counters ?d i = Some c'" for i c'
      using that ctr clamped_need(1)[OF le(2,3)] clamped_need(2)[OF le(1) need] unfolding new by (cases "i = u") (auto simp: on_keys_def)
  qed
  then show ?thesis
    using s Some by (simp add: reconcile_scoped_def lock_quiet_holds_def clamp_holds_def Let_def)
qed

subsection \<open>Pruning\<close>

lemma terminal_ids_idle:
  assumes "wf_ledger d" "i \<in> set (list_terminal_ids d t n)"
  shows "\<not> is_active d i"
proof
  assume "is_active d i"
  then obtain r where r: "r \<in> set (d_reservations d)" "rv_id r = i" "active r" by (rule is_activeE)
  obtain x where x: "x \<in> set (d_reservations d)" "rv_id x = i" "rv_status x \<in> set TERMINAL_STATUSES"
    using assms(2) by (auto simp: list_terminal_ids_def dest!: in_set_takeD)
  have "x = r" using rv_unique[OF assms(1) r(1) x(1)] r(2) x(2) by simp
  then show False using r(3) x(3) by (simp add: active_def TERMINAL_STATUSES_def)
qed

lemma delete_by_ids_tables [simp]:
  "d_users (delete_by_ids ids d) = d_users d" "d_scoped (delete_by_ids ids d) = d_scoped d"
  "ceiling_counters (delete_by_ids ids d) = ceiling_counters d"
  "user_counters (delete_by_ids ids d) = user_counters d"
  by (simp_all add: delete_by_ids_def ceiling_counters_def user_counters_def)

lemma delete_idle:
  assumes "wf_ledger d" "\<And>i. i \<in> set ids \<Longrightarrow> \<not> is_active d i"
  shows "wf_ledger (delete_by_ids ids d)"
    and "is_active (delete_by_ids ids d) = is_active d"
    and "active_user_held (delete_by_ids ids d) = active_user_held d"
    and "active_ceiling_held (delete_by_ids ids d) = active_ceiling_held d"
proof -
  show "wf_ledger (delete_by_ids ids d)"
    using assms(1)
    by (auto simp: wf_ledger_def keys_unique_def delete_by_ids_def reservation_exists_def rowcount_pos_iff
        distinct_map_filter) metis
  show act: "is_active (delete_by_ids ids d) = is_active d"
    using assms(2) by (auto simp: is_active_def delete_by_ids_def fun_eq_iff)
  show "active_user_held (delete_by_ids ids d) = active_user_held d"
  proof
    fix u
    show "active_user_held (delete_by_ids ids d) u = active_user_held d u"
      unfolding active_user_held_def delete_by_ids_def
      using assms(2) by (simp, intro table_sum_filter_out) (auto simp: is_active_def)
  qed
  show "active_ceiling_held (delete_by_ids ids d) = active_ceiling_held d"
  proof
    fix c
    have "active_ceiling_held (delete_by_ids ids d) c =
        table_sum (\<lambda>l. ln_scoped_budget_id l = c \<and> line_active d l) ln_held
          (filter (\<lambda>l. \<not> ln_reservation_id l \<in> set ids) (d_lines d))"
      unfolding active_ceiling_held_def
      by (simp add: line_active_is act) (simp add: delete_by_ids_def)
    also have "\<dots> = active_ceiling_held d c"
      unfolding active_ceiling_held_def
      by (rule table_sum_filter_out) (use assms(2) in \<open>auto simp: line_active_is\<close>)
    finally show "active_ceiling_held (delete_by_ids ids d) c = active_ceiling_held d c" .
  qed
qed

lemma inv_prune:
  assumes s: "holds_inv s"
  shows "holds_inv (s\<lparr>p_db := fst (prune_terminal (p_now s) older_than batch (p_db s))\<rparr>)"
proof -
  have wf: "wf_ledger (p_db s)" using s by (simp add: holds_inv_def)
  have "holds_inv (s\<lparr>p_db := delete_by_ids (list_terminal_ids (p_db s) t batch) (p_db s)\<rparr>)" for t
  proof (rule inv_clamps[OF s])
    note e = delete_idle[OF wf terminal_ids_idle[OF wf, where t = t and n = batch]]
    show "wf_ledger (delete_by_ids (list_terminal_ids (p_db s) t batch) (p_db s))"
      "active_ceiling_held (delete_by_ids (list_terminal_ids (p_db s) t batch) (p_db s)) =
        active_ceiling_held (p_db s)"
      "active_user_held (delete_by_ids (list_terminal_ids (p_db s) t batch) (p_db s)) =
        active_user_held (p_db s)"
      by (rule e; assumption)+
  qed simp_all
  then show ?thesis using s by (simp add: prune_terminal_def Let_def)
qed

subsection \<open>Windows\<close>

lemma inv_roll_ceiling:
  assumes s: "holds_inv s"
  shows "holds_inv (s\<lparr>p_db := roll_period (p_now s) c start finish (p_db s)\<rparr>)"
proof (rule inv_clamps[OF s])
  let ?d = "roll_period (p_now s) c start finish (p_db s)"
  have "wf_ledger ?d = wf_ledger (p_db s)"
    by (rule wf_ledger_cong)
       (simp_all add: roll_period_def update_scoped_def map_update_where touch_counters_def)
  then show "wf_ledger ?d" using s by (simp add: holds_inv_def)
  show "evolves (p_now s) (p_db s) ?d"
    unfolding roll_period_def by (rule evolves_update_scoped) (simp_all add: touch_counters_def)
  show "active_ceiling_held ?d = active_ceiling_held (p_db s)"
    "active_user_held ?d = active_user_held (p_db s)" by (simp_all add: roll_period_def update_scoped_def)
  show "\<exists>c. user_counters (p_db s) i = Some c \<and> (c_held c' = c_held c \<or> 0 \<le> c_held c' \<and> user_need s i \<le> c_held c')"
    if "user_counters ?d i = Some c'" for i c'
    using that by (simp add: user_counters_def roll_period_def update_scoped_def)
  show "\<exists>c. ceiling_counters (p_db s) i = Some c \<and> (c_held c' = c_held c \<or> 0 \<le> c_held c' \<and> ceiling_need s i \<le> c_held c')"
    if "ceiling_counters ?d i = Some c'" for i c'
  proof -
    have "\<exists>c. ceiling_counters (p_db s) i = Some c \<and> c_held c' = c_held c"
      unfolding ceiling_counters_def
      by (rule counters_in_same_held)
         (use that in \<open>simp_all add: ceiling_counters_def roll_period_def update_scoped_def touch_counters_def\<close>)
    then show ?thesis by blast
  qed
qed

lemma inv_reset_user:
  assumes s: "holds_inv s"
  shows "holds_inv (s\<lparr>p_db := fst (cas_reset (p_now s) u start finish (p_db s))\<rparr>)"
proof (rule inv_clamps[OF s])
  let ?d = "fst (cas_reset (p_now s) u start finish (p_db s))"
  have "wf_ledger ?d = wf_ledger (p_db s)"
    by (rule wf_ledger_cong)
       (simp_all add: cas_reset_def Let_def update_users_def map_update_where touch_user_def)
  then show "wf_ledger ?d" using s by (simp add: holds_inv_def)
  show "evolves (p_now s) (p_db s) ?d"
    unfolding cas_reset_def Let_def fst_conv by (rule evolves_update_users) (simp_all add: touch_user_def)
  show "active_ceiling_held ?d = active_ceiling_held (p_db s)"
    "active_user_held ?d = active_user_held (p_db s)" by (simp_all add: cas_reset_def Let_def update_users_def)
  show "\<exists>c. ceiling_counters (p_db s) i = Some c \<and> (c_held c' = c_held c \<or> 0 \<le> c_held c' \<and> ceiling_need s i \<le> c_held c')"
    if "ceiling_counters ?d i = Some c'" for i c'
    using that by (simp add: cas_reset_def Let_def update_users_def)
  show "\<exists>c. user_counters (p_db s) i = Some c \<and> (c_held c' = c_held c \<or> 0 \<le> c_held c' \<and> user_need s i \<le> c_held c')"
    if "user_counters ?d i = Some c'" for i c'
  proof -
    have "\<exists>c. user_counters (p_db s) i = Some c \<and> c_held c' = c_held c"
      unfolding user_counters_def
      by (rule counters_in_same_held)
         (use that in \<open>simp_all add: user_counters_def cas_reset_def Let_def update_users_def touch_user_def\<close>)
    then show ?thesis by blast
  qed
qed

lemma inv_reset_logs: "holds_inv (s\<lparr>p_db := d\<rparr>) \<Longrightarrow> holds_inv (s\<lparr>p_db := d\<lparr>d_reset_logs := logs\<rparr>\<rparr>)"
proof -
  have "written_since (d\<lparr>d_reset_logs := logs\<rparr>) = written_since d"
    by (auto simp: written_since_def fun_eq_iff split: leg.split)
  moreover assume "holds_inv (s\<lparr>p_db := d\<rparr>)"
  ultimately show ?thesis
    by (simp add: holds_inv_def wf_ledger_def keys_unique_def reservation_exists_def
        ceiling_need_def[abs_def] user_need_def[abs_def] active_ceiling_held_def active_user_held_def
        line_active_def)
qed

section \<open>Reachable states\<close>

lemma step_holds_inv: "step s s' \<Longrightarrow> holds_inv s \<Longrightarrow> holds_inv s'"
proof (induction rule: step.induct)
  case (tick s t)
  then show ?case by (rule inv_tick[rotated])
next
  case (hold_ceiling s i amount t q n d)
  then show ?case by (intro inv_hold_ceiling)
next
  case (hold_user p s i a)
  then show ?case by (intro inv_hold_user)
next
  case (give_back_ceilings s fs fs' ids a)
  then show ?case by (intro inv_give_back_ceilings[where fs = fs])
next
  case (give_back_user s fs fs' u a)
  then show ?case by (intro inv_give_back_user[where fs = fs])
next
  case (lose_flights s fs fs')
  then show ?case by (intro inv_lose_flights[where fs = fs])
next
  case (record_row s fs fs' ids ch u ur uh i e)
  then show ?case by (intro inv_record_row[where fs = fs])
next
  case (grow_recorded s fs fs' i sd std r ug ud td d)
  then show ?case by (intro inv_grow_recorded[where fs = fs])
next
  case (release_unrecorded_row s fs fs' ids a i u d)
  then show ?case by (intro inv_release_unrecorded[where fs = fs])
next
  case (settle_unrecorded s fs fs' ds h cost tokens)
  then show ?case by (intro inv_settle_unrecorded[where fs = fs])
next
  case (refund_unrecorded s fs fs' ds h)
  then show ?case by (intro inv_refund_unrecorded[where fs = fs])
next
  case (settle_row s fs fs' h i cost tokens)
  then show ?case by (intro inv_settle_row[where fs = fs])
next
  case (refund_row s fs fs' h i)
  then show ?case by (intro inv_refund_row[where fs = fs])
next
  case (reclaim_row x r s)
  then show ?case by (intro inv_reclaim_row)
next
  case (reconcile_user_orphans s cutoff u)
  then show ?case by (intro inv_reconcile_user)
next
  case (reconcile_ceiling_orphans s cutoff c)
  then show ?case by (intro inv_reconcile_ceiling)
next
  case (prune_rows s older_than batch)
  then show ?case by (intro inv_prune)
next
  case (roll_ceiling s c start finish)
  then show ?case by (intro inv_roll_ceiling)
next
  case (reset_user s u start finish logs)
  then show ?case by (intro inv_reset_logs inv_reset_user)
qed

lemma reachable_holds_inv: "reachable s \<Longrightarrow> holds_inv s"
  by (induction rule: reachable.induct) (auto intro: inv_initial step_holds_inv)

section \<open>What a settlement does to the counters\<close>

lemma settle_db_counters:
  "ceiling_counters (settle_db now ids used held counts d) =
     on_keys (set ids) (settle_counters (if counts then used else 0) held) (ceiling_counters d)"
proof (cases "some_positive (if counts then used else 0) \<or> some_positive held")
  case True
  then have some: "(some_positive (if counts then used else 0) \<or> some_positive held) = True" by simp
  show ?thesis
    unfolding settle_db_def Let_def settle_ceilings_def some
    by (cases "ids = []") (simp_all add: update_counters_effect)
next
  case False
  have "settle_counters u h = (\<lambda>c. c)" if "\<not> some_positive u" "\<not> some_positive h" for u h
    by (rule ext, rule counters.equality)
       (use that in \<open>auto simp: settle_counters_def record_amounts_def record_axis_def release_amounts_def
          release_axis_def some_positive_def intro: amount_eqI\<close>)
  then have "settle_counters (if counts then used else 0) held = (\<lambda>c. c)" using False by blast
  moreover have "settle_db now ids used held counts d = d"
    using False unfolding settle_db_def Let_def by auto
  ultimately show ?thesis by simp
qed

lemma settle_user_leg_counters:
  "user_counters (settle_user_leg now h c t e d) =
     on_keys {h_user_id h} (\<lambda>x. \<lparr>c_used = c_used x + user_recorded h c t,
       c_held = (if h_reserved h \<and> \<not> e then release_leg (c_held x) (h_held h) else c_held x)\<rparr>)
       (user_counters d)"
proof (cases "user_recorded h c t = 0 \<and> \<not> (h_reserved h \<and> \<not> e)")
  case True
  then have "on_keys {h_user_id h} (\<lambda>x. \<lparr>c_used = c_used x + user_recorded h c t,
       c_held = (if h_reserved h \<and> \<not> e then release_leg (c_held x) (h_held h) else c_held x)\<rparr>)
       (user_counters d) = user_counters d"
    by (intro on_keys_same) auto
  moreover have "settle_user_leg now h c t e d = d" using True by (simp add: settle_user_leg_def Let_def)
  ultimately show ?thesis by simp
next
  case False
  then have "settle_user_leg now h c t e d = update_live_user now (h_user_id h)
      (\<lambda>x. \<lparr>c_used = c_used x + user_recorded h c t,
        c_held = (if h_reserved h \<and> \<not> e then release_leg (c_held x) (h_held h) else c_held x)\<rparr>) d"
    unfolding settle_user_leg_def Let_def by (simp only: if_False)
  then show ?thesis by simp
qed

definition ceiling_recorded :: "ReservationHandle \<Rightarrow> int \<Rightarrow> int \<Rightarrow> HeldAmounts" where
  "ceiling_recorded h spent tokens =
     (if h_counts h then HeldAmounts spent tokens (ha_requests (h_scoped_held h)) else 0)"

lemma settle_legs_counters:
  "ceiling_counters (settle_legs now h c t e d) =
     on_keys (set (scoped_budget_ids h))
       (settle_counters (ceiling_recorded h c t) (if e then 0 else h_scoped_held h)) (ceiling_counters d)"
  "user_counters (settle_legs now h c t e d) =
     on_keys {h_user_id h} (\<lambda>x. \<lparr>c_used = c_used x + user_recorded h c t,
       c_held = (if h_reserved h \<and> \<not> e then release_leg (c_held x) (h_held h) else c_held x)\<rparr>)
       (user_counters d)"
  by (simp_all add: settle_legs_def settle_db_counters settle_user_leg_counters ceiling_recorded_def)

lemma release_leg_exact: "a \<le> c \<Longrightarrow> release_leg c a = c - a"
  by (rule amount_eqI) (auto simp: release_leg_def release_clamped_exact amount_le_iff)

text \<open>Under the invariant a row's amounts are on its counters.\<close>

lemma agreed_amounts_held:
  assumes "holds_inv s" "handle_agrees h i (p_db s)" "is_active (p_db s) i" "p_unbacked s = []"
  shows "c \<in> set (scoped_budget_ids h) \<Longrightarrow> ceiling_counters (p_db s) c = Some k \<Longrightarrow>
      h_scoped_held h \<le> c_held k"
    and "h_reserved h \<Longrightarrow> user_counters (p_db s) (h_user_id h) = Some k \<Longrightarrow> h_held h \<le> c_held k"
proof -
  have wf: "wf_ledger (p_db s)" and fn: "\<And>f. f \<in> set (p_flights s) \<Longrightarrow> 0 \<le> f_amount f"
    using assms(1) by (auto simp: holds_inv_def)
  obtain r where r: "r \<in> set (d_reservations (p_db s))" "rv_id r = i" "active r"
    "rv_user_id r = h_user_id h" "rv_user_reserved r = h_reserved h"
    "h_reserved h \<longrightarrow> rv_held r = h_held h"
    "\<forall>c. lines_held (p_db s) i c = (if c \<in> set (scoped_budget_ids h) then h_scoped_held h else 0)"
    by (rule claim_is_active[OF wf assms(3,2)])
  {
    assume c: "c \<in> set (scoped_budget_ids h)" and k: "ceiling_counters (p_db s) c = Some k"
    have "h_scoped_held h = lines_held (p_db s) i c" using r(7) c by simp
    also have "\<dots> \<le> active_ceiling_held (p_db s) c" by (rule lines_held_le[OF wf assms(3)])
    also have "\<dots> \<le> ceiling_need s c" using flight_sum_nonneg[OF fn] by (simp add: ceiling_need_def assms(4))
    also have "\<dots> \<le> c_held k" using assms(1) k by (simp add: holds_inv_def covers_def)
    finally show "h_scoped_held h \<le> c_held k" .
  next
    assume res: "h_reserved h" and k: "user_counters (p_db s) (h_user_id h) = Some k"
    have "h_held h \<le> active_user_held (p_db s) (h_user_id h)"
      using user_row_le[OF wf r(1,3)] r(4,5,6) res by simp
    also have "\<dots> \<le> user_need s (h_user_id h)" using flight_sum_nonneg[OF fn] by (simp add: user_need_def assms(4))
    also have "\<dots> \<le> c_held k" using assms(1) k by (simp add: holds_inv_def covers_def)
    finally show "h_held h \<le> c_held k" .
  }
qed

lemma settle_counters_exact:
  "0 \<le> u \<Longrightarrow> 0 \<le> a \<Longrightarrow> a \<le> c_held k \<Longrightarrow>
     settle_counters u a k = \<lparr>c_used = c_used k + u, c_held = c_held k - a\<rparr>"
  by (simp add: settle_counters_def record_amounts_exact release_amounts_exact)

section \<open>Data for the witnesses\<close>

definition sample_amount :: HeldAmounts where
  "sample_amount = HeldAmounts 1 4 1"

definition sample_held :: db where
  "sample_held = fst (hold 10 ''k'' (Some 1) 4 1 True sample_db)"

definition sample_both :: db where
  "sample_both =
     update_users (live_user ''u'') (touch_user 10 (hold_counters sample_amount)) sample_held"

definition sample_recorded :: db where
  "sample_recorded =
     add_reservation ''r'' ''u'' True sample_amount sample_amount [''k''] 900000010 sample_both"

definition sample_state :: proto where
  "sample_state = \<lparr>p_now = 10, p_db = sample_recorded, p_flights = [], p_unbacked = []\<rparr>"

definition sample_handle :: ReservationHandle where
  "sample_handle =
     \<lparr>h_user_id = ''u'', h_held = sample_amount, h_reserved = True, h_strategy = ForUpdate,
      h_counts = True, h_scoped = [hd sample_budgets], h_scoped_held = sample_amount,
      h_reservation_id = Some ''r'', h_ttl_sec = 900, h_scope_ceilings = []\<rparr>"

text \<open>Held on the key's ceiling, then on the user, then recorded.\<close>

lemma sample_reachable: "reachable sample_state"
proof -
  let ?f1 = "\<lparr>f_leg = CeilingLeg ''k'', f_amount = hold_of (Some 1) 4 1, f_at = 10\<rparr>"
  let ?f2 = "\<lparr>f_leg = UserLeg ''u'', f_amount = sample_amount, f_at = 10\<rparr>"
  let ?s0 = "\<lparr>p_now = 10, p_db = sample_db, p_flights = [], p_unbacked = []\<rparr>"
  let ?s1 = "\<lparr>p_now = 10, p_db = sample_held, p_flights = [?f1], p_unbacked = []\<rparr>"
  let ?s2 = "\<lparr>p_now = 10, p_db = sample_both, p_flights = [?f2, ?f1], p_unbacked = []\<rparr>"
  have pos: "0 \<le> sample_amount" "hold_of (Some 1) 4 1 = sample_amount"
    by (simp_all add: sample_amount_def amount_le_iff hold_of_def)
  have "initial ?s0" by (simp add: initial_def sample_db_ok) (simp add: sample_db_def)
  then have s0: "reachable ?s0" by (rule start)
  have h: "hold 10 ''k'' (Some 1) 4 1 True sample_db = (sample_held, True)"
    unfolding sample_held_def by code_simp
  have "step ?s0 ?s1" using step.hold_ceiling[of ?s0 "''k''" "Some 1" 4 1 True sample_held] h pos by simp
  with s0 have s1: "reachable ?s1" by (rule reachable.step)
  have "0 < rowcount (live_user ''u'') (d_users sample_held)" unfolding sample_held_def by code_simp
  then have "step ?s1 ?s2"
    using step.hold_user[of "live_user ''u''" ?s1 "''u''" sample_amount] pos
    by (simp add: sample_both_def)
  with s1 have s2: "reachable ?s2" by (rule reachable.step)
  have new: "\<not> reservation_exists sample_both ''r''" unfolding sample_both_def sample_held_def by code_simp
  have "step ?s2 sample_state"
    using step.record_row[of ?s2 "[?f2, ?f1]" "[]" "[''k'']" sample_amount "''u''" True sample_amount "''r''"
        900000010] pos new
    by (simp add: sample_state_def sample_recorded_def flight_sum_def)
  with s2 show ?thesis by (rule reachable.step)
qed

lemma sample_agrees:
  "handle_agrees sample_handle ''r'' (p_db sample_state)" "is_active (p_db sample_state) ''r''"
proof -
  have rows: "d_reservations sample_recorded = [\<lparr>rv_id = ''r'', rv_user_id = ''u'',
      rv_held = sample_amount, rv_user_reserved = True, rv_status = RESERVATION_ACTIVE,
      rv_expires_at = 900000010\<rparr>]"
    unfolding sample_recorded_def sample_both_def sample_held_def sample_amount_def by code_simp
  have ls: "d_lines sample_recorded =
      [\<lparr>ln_reservation_id = ''r'', ln_scoped_budget_id = ''k'', ln_held = sample_amount\<rparr>]"
    unfolding sample_recorded_def sample_both_def sample_held_def sample_amount_def by code_simp
  have ids: "scoped_budget_ids sample_handle = [''k'']"
    unfolding sample_handle_def sample_budgets_def by code_simp
  show "handle_agrees sample_handle ''r'' (p_db sample_state)"
    unfolding handle_agrees_def ids sample_state_def
    by (simp add: rows ls lines_held_def) (simp add: sample_handle_def sample_amount_def amount_le_iff)
  show "is_active (p_db sample_state) ''r''"
    by (simp add: sample_state_def is_active_def rows active_def)
qed

section \<open>Properties\<close>



text \<open>
  A settlement is exact. In a reachable state with no unbacked release, reconciling the handle of an active row takes
  from every counter exactly what the row held there (the clamp at zero never bites) and adds the
  recorded use, and touches no other counter.
\<close>

theorem reconcile_is_exact:
  assumes "reachable s" and "handle_agrees h i (p_db s)" and "is_active (p_db s) i"
    and "0 \<le> cost" and "0 \<le> tokens" and "p_unbacked s = []"
  shows "ceiling_counters (reconcile_db now h cost tokens (p_db s)) =
      on_keys (set (scoped_budget_ids h))
        (\<lambda>k. \<lparr>c_used = c_used k + ceiling_recorded h cost tokens, c_held = c_held k - h_scoped_held h\<rparr>)
        (ceiling_counters (p_db s)) \<and>
    user_counters (reconcile_db now h cost tokens (p_db s)) =
      on_keys {h_user_id h}
        (\<lambda>k. \<lparr>c_used = c_used k + user_recorded h cost tokens,
             c_held = c_held k - (if h_reserved h then h_held h else 0)\<rparr>)
        (user_counters (p_db s))"
proof -
  have inv: "holds_inv s" by (rule reachable_holds_inv[OF assms(1)])
  note held = agreed_amounts_held[OF inv assms(2,3,6)]
  have id: "h_reservation_id h = Some i" and nn: "0 \<le> h_scoped_held h"
    using assms(2) by (simp_all add: handle_agrees_def)
  have used: "0 \<le> ceiling_recorded h cost tokens"
    using assms(4,5) nn by (simp add: ceiling_recorded_def amount_le_iff)
  have d: "reconcile_db now h cost tokens (p_db s) = settle_legs now h cost tokens False
      (set_status i RESERVATION_ACTIVE RESERVATION_SETTLED (p_db s))"
    using id
  proof (cases rule: reconcile_db_cases[where d = "p_db s" and now = now and cost = cost and tokens = tokens])
    case settled
    then show ?thesis using assms(4,5) by simp
  qed (use assms(3) in simp_all)
  have "ceiling_counters (reconcile_db now h cost tokens (p_db s)) =
      on_keys (set (scoped_budget_ids h))
        (\<lambda>k. \<lparr>c_used = c_used k + ceiling_recorded h cost tokens, c_held = c_held k - h_scoped_held h\<rparr>)
        (ceiling_counters (p_db s))"
    unfolding d settle_legs_counters set_status_tables if_False
    by (rule on_keys_cong_on, rule settle_counters_exact[OF used nn]) (rule held(1))
  moreover have "user_counters (reconcile_db now h cost tokens (p_db s)) =
      on_keys {h_user_id h}
        (\<lambda>k. \<lparr>c_used = c_used k + user_recorded h cost tokens,
             c_held = c_held k - (if h_reserved h then h_held h else 0)\<rparr>)
        (user_counters (p_db s))"
    unfolding d settle_legs_counters set_status_tables
    by (rule on_keys_cong_on) (use held(2) in \<open>auto simp: release_leg_exact\<close>)
  ultimately show ?thesis by blast
qed

theorem reconcile_is_exact_witness:
  "ceiling_counters (reconcile_db 20 sample_handle 2 3 sample_recorded) ''k'' =
     Some \<lparr>c_used = HeldAmounts 5 3 1, c_held = HeldAmounts 2 0 0\<rparr>"
proof -
  have "ceiling_counters sample_recorded ''k'' =
      Some \<lparr>c_used = HeldAmounts 3 0 0, c_held = HeldAmounts 3 4 1\<rparr>"
    unfolding sample_recorded_def sample_both_def sample_held_def sample_amount_def by code_simp
  moreover have "scoped_budget_ids sample_handle = [''k'']"
    unfolding sample_handle_def sample_budgets_def by code_simp
  moreover have "ceiling_recorded sample_handle 2 3 = HeldAmounts 2 3 1"
    "h_scoped_held sample_handle = HeldAmounts 1 4 1"
    by (simp_all add: ceiling_recorded_def sample_handle_def sample_amount_def)
  ultimately show ?thesis
    using reconcile_is_exact[OF sample_reachable sample_agrees, of 2 3 20]
    by (simp add: sample_state_def on_keys_def amount_defs)
qed

text \<open>
  A refund is exact. In a reachable state with no unbacked release, refunding the handle of an active row takes from
  every counter exactly what the row held there, records no use and touches no other counter.
\<close>

theorem refund_is_exact:
  assumes "reachable s" and "handle_agrees h i (p_db s)" and "is_active (p_db s) i" and "p_unbacked s = []"
  shows "ceiling_counters (refund_db now h (p_db s)) =
      on_keys (set (scoped_budget_ids h)) (\<lambda>k. k\<lparr>c_held := c_held k - h_scoped_held h\<rparr>)
        (ceiling_counters (p_db s)) \<and>
    user_counters (refund_db now h (p_db s)) =
      on_keys {h_user_id h} (\<lambda>k. k\<lparr>c_held := c_held k - (if h_reserved h then h_held h else 0)\<rparr>)
        (user_counters (p_db s))"
proof -
  have inv: "holds_inv s" by (rule reachable_holds_inv[OF assms(1)])
  note held = agreed_amounts_held[OF inv assms(2-4)]
  have id: "h_reservation_id h = Some i" and nn: "0 \<le> h_scoped_held h"
    using assms(2) by (simp_all add: handle_agrees_def)
  let ?d1 = "set_status i RESERVATION_ACTIVE RESERVATION_RELEASED (p_db s)"
  have d: "refund_db now h (p_db s) = release_db now (scoped_budget_ids h) (h_scoped_held h)
      (if h_reserved h then update_live_user now (h_user_id h) (release_leg_counters (h_held h)) ?d1 else ?d1)"
    using assms(3) by (simp add: refund_db_def id try_terminate_eq)
  have "ceiling_counters (refund_db now h (p_db s)) =
      on_keys (set (scoped_budget_ids h)) (release_counters (h_scoped_held h)) (ceiling_counters (p_db s))"
    unfolding d by simp
  also have "\<dots> = on_keys (set (scoped_budget_ids h)) (\<lambda>k. k\<lparr>c_held := c_held k - h_scoped_held h\<rparr>)
      (ceiling_counters (p_db s))"
    by (rule on_keys_cong_on) (use held(1) nn in \<open>auto simp: release_counters_def release_amounts_exact\<close>)
  finally have c: "ceiling_counters (refund_db now h (p_db s)) = \<dots>" .
  have "user_counters (refund_db now h (p_db s)) =
      on_keys {h_user_id h} (\<lambda>k. k\<lparr>c_held := c_held k - (if h_reserved h then h_held h else 0)\<rparr>)
        (user_counters (p_db s))"
  proof (cases "h_reserved h")
    case True
    have "user_counters (refund_db now h (p_db s)) =
        on_keys {h_user_id h} (release_leg_counters (h_held h)) (user_counters (p_db s))"
      unfolding d using True by simp
    also have "\<dots> = on_keys {h_user_id h} (\<lambda>k. k\<lparr>c_held := c_held k - h_held h\<rparr>) (user_counters (p_db s))"
      by (rule on_keys_cong_on) (use held(2)[OF True] in \<open>auto simp: release_leg_counters_def release_leg_exact\<close>)
    finally show ?thesis using True by simp
  next
    case False
    have "user_counters (p_db s) = on_keys {h_user_id h} (\<lambda>k. k\<lparr>c_held := c_held k - 0\<rparr>)
        (user_counters (p_db s))"
      by (rule on_keys_same[symmetric]) simp
    then show ?thesis using False unfolding d by simp
  qed
  with c show ?thesis by blast
qed

theorem refund_is_exact_witness:
  "ceiling_counters (refund_db 20 sample_handle sample_recorded) ''k'' =
     Some \<lparr>c_used = HeldAmounts 3 0 0, c_held = HeldAmounts 2 0 0\<rparr>"
proof -
  have "ceiling_counters sample_recorded ''k'' =
      Some \<lparr>c_used = HeldAmounts 3 0 0, c_held = HeldAmounts 3 4 1\<rparr>"
    unfolding sample_recorded_def sample_both_def sample_held_def sample_amount_def by code_simp
  moreover have "scoped_budget_ids sample_handle = [''k'']"
    unfolding sample_handle_def sample_budgets_def by code_simp
  moreover have "h_scoped_held sample_handle = HeldAmounts 1 4 1"
    by (simp add: sample_handle_def sample_amount_def)
  ultimately show ?thesis
    using refund_is_exact[OF sample_reachable sample_agrees, of 20]
    by (simp add: sample_state_def on_keys_def amount_defs)
qed

end
