(* ===== verification/Ledger_Life.thy ===== *)
theory Ledger_Life
  imports Hold_Safety
begin

text \<open>
  The life of a ledger row: it ends once, a late settlement records the use and gives nothing
  back, the sweep expires exactly the overdue rows, orphaned holds are clamped to what the rows
  record, retention deletes ended rows only, a window is reset once. The sweeper's tick is a run
  of the steps of \<open>Hold_Protocol\<close>.
\<close>

section \<open>Ending a row\<close>

lemma status_after:
  assumes "distinct (map rv_id (d_reservations d))" "r \<in> set (d_reservations d)" "rv_id r = i"
    "rv_status r = a" "x \<in> set (d_reservations (set_status i a b d))" "rv_id x = i"
  shows "rv_status x = b"
proof -
  obtain y where y: "y \<in> set (d_reservations d)"
    and e: "x = (if rv_id y = i \<and> rv_status y = a then y\<lparr>rv_status := b\<rparr> else y)"
    using assms(5) by (auto simp: set_status_rows)
  have "rv_id y = i" using e assms(6) by (simp split: if_splits)
  then have "y = r" using key_unique[OF assms(1) y assms(2)] assms(3) by simp
  then show ?thesis using e assms(3,4) by simp
qed

lemma set_status_again:
  assumes "distinct (map rv_id (d_reservations d))" "r \<in> set (d_reservations d)" "rv_id r = i"
    "rv_status r = a" "d_reservations d' = d_reservations (set_status i a b d)" "c \<noteq> b"
  shows "\<not> (\<exists>x \<in> set (d_reservations d'). rv_id x = i \<and> rv_status x = c)"
  using status_after[OF assms(1-4)] assms(5,6) by auto

lemma reconcile_db_ended:
  assumes "h_reservation_id h = Some i"
    "\<And>c. c \<in> {RESERVATION_ACTIVE, RESERVATION_EXPIRED} \<Longrightarrow>
       \<not> (\<exists>x \<in> set (d_reservations d). rv_id x = i \<and> rv_status x = c)"
  shows "reconcile_db now h cost tokens d = d"
  using assms(1)
proof (cases rule: reconcile_db_cases[where d = d and now = now and cost = cost and tokens = tokens])
  case settled
  then show ?thesis using assms(2)[of RESERVATION_ACTIVE] by (auto simp: is_active_def active_def)
qed (use assms(2)[of RESERVATION_EXPIRED] in auto)

lemma refund_db_idle:
  assumes "h_reservation_id h = Some i" "\<not> is_active d i"
  shows "refund_db now h d = d"
proof -
  have "set_status i RESERVATION_ACTIVE RESERVATION_RELEASED d = d"
    by (rule set_status_idle) (use assms(2) in \<open>auto simp: is_active_def active_def\<close>)
  then show ?thesis using assms by (simp add: refund_db_def try_terminate_eq)
qed

lemma settle_legs_reservations [simp]:
  "d_reservations (settle_legs now h c t e d) = d_reservations d"
  by (simp add: settle_legs_def)

lemma refund_db_reservations:
  assumes "h_reservation_id h = Some i" "is_active d i"
  shows "d_reservations (refund_db now h d) =
    d_reservations (set_status i RESERVATION_ACTIVE RESERVATION_RELEASED d)"
  using assms by (simp add: refund_db_def try_terminate_eq)

section \<open>The sweep\<close>

definition overdue :: "instant \<Rightarrow> BudgetReservation \<Rightarrow> bool" where
  "overdue now r \<longleftrightarrow> active r \<and> rv_expires_at r < now"

lemma list_expired_rows:
  "r \<in> set (list_expired d now n u) \<Longrightarrow> r \<in> set (d_reservations d) \<and> overdue now r"
  by (auto simp: list_expired_def overdue_def dest!: in_set_takeD)

lemma list_expired_distinct:
  assumes "distinct (map rv_id (d_reservations d))"
  shows "distinct (map rv_id (list_expired d now n u))"
proof -
  have "distinct (map rv_id (sort_key rv_expires_at (filter p (d_reservations d))))" for p
    using assms by (simp add: distinct_map_filter distinct_map inj_on_def)
  then show ?thesis unfolding list_expired_def take_map[symmetric] by (rule distinct_take)
qed

lemma reclaim_one_won:
  "reclaim_one now r d =
     (if is_active d (rv_id r)
      then (release_reservation_holds now r (set_status (rv_id r) RESERVATION_ACTIVE RESERVATION_EXPIRED d), True)
      else (d, False))"
proof (cases "is_active d (rv_id r)")
  case False
  then have "set_status (rv_id r) RESERVATION_ACTIVE RESERVATION_EXPIRED d = d"
    by (intro set_status_idle) (auto simp: is_active_def active_def)
  then show ?thesis using False by (simp add: reclaim_one_def try_terminate_eq)
qed (simp add: reclaim_one_def try_terminate_eq)

definition expire :: "string set \<Rightarrow> BudgetReservation \<Rightarrow> BudgetReservation" where
  "expire ids r = (if rv_id r \<in> ids \<and> active r then r\<lparr>rv_status := RESERVATION_EXPIRED\<rparr> else r)"

lemma set_status_expire:
  "d_reservations (set_status i RESERVATION_ACTIVE RESERVATION_EXPIRED d) = map (expire {i}) (d_reservations d)"
  by (auto simp: set_status_def transition_def Let_def update_where_def expire_def active_def)

lemma expire_expire: "expire I (expire J r) = expire (I \<union> J) r"
  by (auto simp: expire_def active_def)

lemma is_active_expire:
  "d_reservations d' = map (expire {i}) (d_reservations d) \<Longrightarrow> j \<noteq> i \<Longrightarrow> is_active d' j = is_active d j"
  by (force simp: is_active_def expire_def active_def)

lemma reclaim_expires:
  assumes "distinct (map rv_id rs)" "\<And>r. r \<in> set rs \<Longrightarrow> is_active d (rv_id r)"
    "reclaim now rs d = (d', n)"
  shows "d_reservations d' = map (expire (rv_id ` set rs)) (d_reservations d) \<and> n = length rs"
  using assms
proof (induction rs arbitrary: d n)
  case Nil
  then show ?case by (simp add: expire_def)
next
  case (Cons r rs)
  let ?d1 = "release_reservation_holds now r (set_status (rv_id r) RESERVATION_ACTIVE RESERVATION_EXPIRED d)"
  obtain m where m: "reclaim now rs ?d1 = (d', m)" "n = Suc m"
    using Cons.prems(2,3) by (auto simp: reclaim_one_won split: prod.splits)
  have rows: "d_reservations ?d1 = map (expire {rv_id r}) (d_reservations d)"
    by (simp add: set_status_expire)
  have "is_active ?d1 (rv_id x)" if "x \<in> set rs" for x
  proof -
    have "rv_id x \<in> set (map rv_id rs)" "rv_id r \<notin> set (map rv_id rs)"
      using Cons.prems(1) that by simp_all
    then have "rv_id x \<noteq> rv_id r" by metis
    then show ?thesis using is_active_expire[OF rows] Cons.prems(2) that by simp
  qed
  then have "d_reservations d' = map (expire (rv_id ` set rs)) (d_reservations ?d1) \<and> m = length rs"
    using Cons.prems(1) m(1) by (intro Cons.IH) simp_all
  then show ?case using m(2) unfolding rows by (simp add: expire_expire)
qed

text \<open>A reclaim keeps every row but for the status.\<close>

lemma reclaim_one_rows:
  assumes "x \<in> set (d_reservations d)" "snapshot_of x y"
  shows "\<exists>x' \<in> set (d_reservations (fst (reclaim_one now r d))). snapshot_of x' y"
proof (cases "is_active d (rv_id r)")
  case True
  have "expire {rv_id r} x \<in> set (d_reservations (fst (reclaim_one now r d)))"
    using assms(1) True by (simp add: reclaim_one_won set_status_expire)
  moreover have "snapshot_of (expire {rv_id r} x) y" using assms(2) by (simp add: snapshot_of_def expire_def)
  ultimately show ?thesis by blast
qed (use assms in \<open>auto simp: reclaim_one_won\<close>)

lemma reclaim_reachable:
  assumes "reachable s" "\<And>r. r \<in> set rs \<Longrightarrow> \<exists>x \<in> set (d_reservations (p_db s)). snapshot_of x r"
  shows "reachable (s\<lparr>p_db := fst (reclaim (p_now s) rs (p_db s))\<rparr>)"
  using assms
proof (induction rs arbitrary: s)
  case (Cons r rs)
  let ?d1 = "fst (reclaim_one (p_now s) r (p_db s))"
  obtain x where x: "x \<in> set (d_reservations (p_db s))" "snapshot_of x r" using Cons.prems(2)[of r] by auto
  have "reachable (s\<lparr>p_db := ?d1\<rparr>)"
    using Cons.prems(1) step.reclaim_row[OF x(2,1)] by (rule reachable.step)
  moreover have "\<exists>x \<in> set (d_reservations (p_db (s\<lparr>p_db := ?d1\<rparr>))). snapshot_of x y" if "y \<in> set rs" for y
    using Cons.prems(2)[of y] that reclaim_one_rows by auto
  ultimately have "reachable (s\<lparr>p_db := ?d1, p_db := fst (reclaim (p_now s) rs ?d1)\<rparr>)"
    using Cons.IH[of "s\<lparr>p_db := ?d1\<rparr>"] by simp
  then show ?case by (simp add: case_prod_beta Let_def)
qed simp

lemma list_expired_snapshots:
  "wf_ledger d \<Longrightarrow> r \<in> set (list_expired d now n u) \<Longrightarrow> \<exists>x \<in> set (d_reservations d). snapshot_of x r"
  using list_expired_rows[of r d now n u] by (auto simp: snapshot_of_def wf_ledger_def intro!: bexI[of _ r])

lemma sweep_reachable:
  assumes "reachable s"
  shows "reachable (s\<lparr>p_db := fst (sweep_expired (p_now s) n (p_db s))\<rparr>)"
    and "reachable (s\<lparr>p_db := fst (reclaim_expired_for_user (p_now s) u n (p_db s))\<rparr>)"
proof -
  have wf: "wf_ledger (p_db s)" using reachable_holds_inv[OF assms] by (simp add: holds_inv_def)
  show "reachable (s\<lparr>p_db := fst (sweep_expired (p_now s) n (p_db s))\<rparr>)"
    "reachable (s\<lparr>p_db := fst (reclaim_expired_for_user (p_now s) u n (p_db s))\<rparr>)"
    unfolding sweep_expired_def reclaim_expired_for_user_def
    by (rule reclaim_reachable[OF assms], rule list_expired_snapshots[OF wf], assumption)+
qed

text \<open>A loop of steps is a run of steps.\<close>

lemma count_moves_reachable:
  assumes "\<And>s k. reachable s \<Longrightarrow> P s \<Longrightarrow> reachable (s\<lparr>p_db := fst (f k (p_db s))\<rparr>)"
    and "\<And>s d. P s \<Longrightarrow> P (s\<lparr>p_db := d\<rparr>)"
  shows "reachable s \<Longrightarrow> P s \<Longrightarrow> reachable (s\<lparr>p_db := fst (count_moves f ks (p_db s))\<rparr>)"
proof (induction ks arbitrary: s)
  case (Cons k ks)
  have "reachable (s\<lparr>p_db := fst (f k (p_db s)), p_db := fst (count_moves f ks (fst (f k (p_db s))))\<rparr>)"
    using Cons.IH[OF assms(1)[OF Cons.prems, of k] assms(2)[OF Cons.prems(2)]] by simp
  then show ?case by (simp add: case_prod_beta Let_def)
qed simp

lemma passes_reachable:
  assumes "\<And>s. reachable s \<Longrightarrow> p_now s = now \<Longrightarrow> reachable (s\<lparr>p_db := fst (f (p_db s))\<rparr>)"
  shows "reachable s \<Longrightarrow> p_now s = now \<Longrightarrow> reachable (s\<lparr>p_db := passes n batch f (p_db s)\<rparr>)"
proof (induction n arbitrary: s)
  case (Suc n)
  note one = assms[OF Suc.prems]
  show ?case
  proof (cases "snd (f (p_db s)) < batch")
    case True
    then show ?thesis using one by (simp add: case_prod_beta Let_def)
  next
    case False
    then show ?thesis using Suc.IH[OF one] Suc.prems(2) by (simp add: case_prod_beta Let_def)
  qed
qed simp

lemma reconcile_orphans_reachable:
  assumes "reachable s" "\<And>f. f \<in> set (p_flights s) \<Longrightarrow> p_now s - quiet_sec * 1000000 \<le> f_at f"
  shows "reachable (s\<lparr>p_db := fst (reconcile_orphaned_holds (p_now s) quiet_sec batch (p_db s))\<rparr>)"
proof -
  let ?cut = "p_now s - quiet_sec * 1000000"
  define P where "P s' \<longleftrightarrow> p_now s' = p_now s \<and> (\<forall>f \<in> set (p_flights s'). ?cut \<le> f_at f)" for s' :: proto
  have user: "reachable (s'\<lparr>p_db := fst (reconcile_user (p_now s) k ?cut (p_db s'))\<rparr>)"
    if "reachable s'" "P s'" for s' k
    using that step.reconcile_user_orphans[of s' ?cut k] by (auto simp: P_def intro: reachable.step)
  have ceiling: "reachable (s'\<lparr>p_db := fst (reconcile_scoped (p_now s) k ?cut (p_db s'))\<rparr>)"
    if "reachable s'" "P s'" for s' k
    using that step.reconcile_ceiling_orphans[of s' ?cut k] by (auto simp: P_def intro: reachable.step)
  have keep: "P (s'\<lparr>p_db := d\<rparr>)" if "P s'" for s' d using that by (simp add: P_def)
  have P: "P s" using assms(2) by (simp add: P_def)
  let ?d1 = "fst (count_moves (\<lambda>i. reconcile_user (p_now s) i ?cut) (quiet_user_ids ?cut batch (p_db s)) (p_db s))"
  have one: "reachable (s\<lparr>p_db := ?d1\<rparr>)"
    by (rule count_moves_reachable[where P = P, OF user keep assms(1) P])
  have "reachable (s\<lparr>p_db := ?d1, p_db := fst (count_moves (\<lambda>i. reconcile_scoped (p_now s) i ?cut)
      (list_quiet_held (p_db s) ?cut batch) ?d1)\<rparr>)"
    using count_moves_reachable[where P = P, OF ceiling keep one keep[OF P]] by simp
  then show ?thesis by (simp add: reconcile_orphaned_holds_def Let_def case_prod_beta)
qed


section \<open>Clamping orphans\<close>

definition amount_min :: "HeldAmounts \<Rightarrow> HeldAmounts \<Rightarrow> HeldAmounts" where
  "amount_min a b =
     HeldAmounts (min (ha_amount a) (ha_amount b)) (min (ha_tokens a) (ha_tokens b))
       (min (ha_requests a) (ha_requests b))"

lemma set_holds_clamped: "set_holds (clamped (c_held c) n) c = c\<lparr>c_held := amount_min (c_held c) n\<rparr>"
  by (rule counters.equality)
     (auto simp: set_holds_def clamped_def clamped_axis_def clamp_axis_def amount_min_def intro!: amount_eqI)

lemma set_holds_none: "set_holds (None, None, None) = (\<lambda>c. c)"
  by (rule ext, rule counters.equality) (simp_all add: set_holds_def clamp_axis_def)

section \<open>Data for the witnesses\<close>

text \<open>The sample reservation, expired by a sweep.\<close>

definition sample_expired :: db where
  "sample_expired = fst (sweep_expired 900000011 5 sample_recorded)"

lemma sample_recorded_wf: "wf_ledger sample_recorded"
  using reachable_holds_inv[OF sample_reachable] by (simp add: holds_inv_def sample_state_def)

lemma sample_handle_id: "h_reservation_id sample_handle = Some ''r''"
  by (simp add: sample_handle_def)

lemma sample_expired_wf: "wf_ledger sample_expired"
proof -
  have "reachable (sample_state\<lparr>p_now := 900000011\<rparr>)"
    by (rule reachable.step[OF sample_reachable step.tick]) (simp add: sample_state_def)
  from reachable_holds_inv[OF sweep_reachable(1)[OF this, of 5]] show ?thesis
    by (simp add: holds_inv_def sample_state_def sample_expired_def)
qed

section \<open>Properties\<close>

text \<open>
  The sweeper's tick is a run of protocol steps. From a reachable state, with no hold
  older than the quiet period still waiting for its ledger row, one whole tick (reclaim passes,
  orphan reconciliation, retention passes) leaves a reachable state, so no counter falls below what
  the active rows record.
\<close>

theorem sweeper_tick_reachable:
  assumes "reachable s"
    and "\<And>f. f \<in> set (p_flights s) \<Longrightarrow> p_now s - ttl_sec * 1000000 \<le> f_at f"
  shows "reachable (s\<lparr>p_db := sweeper_tick (p_now s) batch_size retention_sec ttl_sec (p_db s)\<rparr>)"
proof -
  let ?d1 = "passes MAX_SWEEP_PASSES batch_size (sweep_expired (p_now s) batch_size) (p_db s)"
  let ?d2 = "fst (reconcile_orphaned_holds (p_now s) ttl_sec batch_size ?d1)"
  have "reachable (s'\<lparr>p_db := fst (sweep_expired (p_now s) batch_size (p_db s'))\<rparr>)"
    if "reachable s'" "p_now s' = p_now s" for s'
    using sweep_reachable(1)[OF that(1), of batch_size] that(2) by simp
  then have "reachable (s\<lparr>p_db := ?d1\<rparr>)" using assms(1) by (rule passes_reachable) simp_all
  then have "reachable (s\<lparr>p_db := ?d1, p_db := ?d2\<rparr>)"
    using reconcile_orphans_reachable[of "s\<lparr>p_db := ?d1\<rparr>" ttl_sec batch_size] assms(2) by simp
  then have two: "reachable (s\<lparr>p_db := ?d2\<rparr>)" by simp
  have "reachable (s'\<lparr>p_db := fst (prune_terminal (p_now s) retention_sec batch_size (p_db s'))\<rparr>)"
    if "reachable s'" "p_now s' = p_now s" for s'
    using reachable.step[OF that(1) step.prune_rows[of s' retention_sec batch_size]] that(2) by simp
  then have "reachable (s\<lparr>p_db := ?d2, p_db := passes MAX_SWEEP_PASSES batch_size
      (prune_terminal (p_now s) retention_sec batch_size) ?d2\<rparr>)"
    using passes_reachable[OF _ two, where f = "prune_terminal (p_now s) retention_sec batch_size"
        and now = "p_now s" and batch = batch_size and n = MAX_SWEEP_PASSES] by simp
  then show ?thesis by (simp add: sweeper_tick_def Let_def)
qed

theorem sweeper_tick_reachable_witness:
  "reachable (sample_state\<lparr>p_db := sweeper_tick 10 5 86400 900 sample_recorded\<rparr>)"
  using sweeper_tick_reachable[OF sample_reachable, of 900 5 86400] by (simp add: sample_state_def)

text \<open>
  A reservation ends once. After its handle was reconciled, reconciling or refunding it
  again, at any cost, changes nothing; after a refund, refunding again changes nothing, and if the
  refund won the row, neither does reconciling.
\<close>

theorem reservation_ends_once:
  assumes "distinct (map rv_id (d_reservations d))" and "h_reservation_id h = Some i"
  shows "reconcile_db now' h cost' tokens' (reconcile_db now h cost tokens d) = reconcile_db now h cost tokens d
    \<and> refund_db now' h (reconcile_db now h cost tokens d) = reconcile_db now h cost tokens d
    \<and> refund_db now' h (refund_db now h d) = refund_db now h d
    \<and> (is_active d i \<longrightarrow> reconcile_db now' h cost' tokens' (refund_db now h d) = refund_db now h d)"
proof -
  let ?d1 = "reconcile_db now h cost tokens d" and ?d2 = "refund_db now h d"
  have none: "\<not> (\<exists>x \<in> set (d_reservations ?d1). rv_id x = i \<and> rv_status x = c)"
    if "c \<in> {RESERVATION_ACTIVE, RESERVATION_EXPIRED}" for c
    using assms(2)
  proof (cases rule: reconcile_db_cases[where d = d and now = now and cost = cost and tokens = tokens])
    case settled
    then obtain r where r: "r \<in> set (d_reservations d)" "rv_id r = i" "rv_status r = RESERVATION_ACTIVE"
      by (auto simp: active_def elim: is_activeE)
    show ?thesis
      by (rule set_status_again[OF assms(1) r, where b = RESERVATION_SETTLED])
         (use settled that in auto)
  next
    case late
    then obtain r where r: "r \<in> set (d_reservations d)" "rv_id r = i" "rv_status r = RESERVATION_EXPIRED"
      by auto
    show ?thesis
      by (rule set_status_again[OF assms(1) r, where b = RESERVATION_SETTLED])
         (use late that in auto)
  next
    case ended
    then show ?thesis using that by (auto simp: is_active_def active_def)
  qed
  have idle: "\<not> is_active ?d1 i" using none[of RESERVATION_ACTIVE] by (auto simp: is_active_def active_def)
  have gone: "\<not> (\<exists>x \<in> set (d_reservations ?d2). rv_id x = i \<and> rv_status x = c)"
    if c: "c \<noteq> RESERVATION_RELEASED" and act: "is_active d i" for c
  proof -
    obtain r where r: "r \<in> set (d_reservations d)" "rv_id r = i" "rv_status r = RESERVATION_ACTIVE"
      using act by (auto simp: active_def elim: is_activeE)
    show ?thesis
      by (rule set_status_again[OF assms(1) r refund_db_reservations[OF assms(2) act] c])
  qed
  have again: "refund_db now' h ?d2 = ?d2"
  proof (rule refund_db_idle[OF assms(2)])
    show "\<not> is_active ?d2 i"
    proof (cases "is_active d i")
      case True
      then show ?thesis using gone[of RESERVATION_ACTIVE] by (auto simp: is_active_def active_def)
    next
      case False
      then show ?thesis by (simp add: refund_db_idle[OF assms(2)])
    qed
  qed
  have "is_active d i \<Longrightarrow> reconcile_db now' h cost' tokens' ?d2 = ?d2"
    by (rule reconcile_db_ended[OF assms(2)], rule gone) auto
  then show ?thesis
    using reconcile_db_ended[OF assms(2) none] refund_db_idle[OF assms(2) idle] again by blast
qed

theorem reservation_ends_once_witness:
  "refund_db 30 sample_handle (reconcile_db 20 sample_handle 2 3 sample_recorded) =
     reconcile_db 20 sample_handle 2 3 sample_recorded"
  using reservation_ends_once[OF _ sample_handle_id, of sample_recorded 30 0 0 20 2 3] sample_recorded_wf
  by (simp add: wf_ledger_def keys_unique_def)

text \<open>
  A settlement that arrives after the sweep still records what was spent and gives nothing
  back. When the handle's row is expired and not active, reconciling adds the use to the ceilings
  and to the user, leaves every hold as it is (the sweep has released it already), and the row is
  settled.
\<close>

theorem late_settlement_records_only:
  assumes "h_reservation_id h = Some i" and "\<not> is_active d i"
    and "r \<in> set (d_reservations d)" and "rv_id r = i" and "rv_status r = RESERVATION_EXPIRED"
    and "0 \<le> cost" and "0 \<le> tokens" and "0 \<le> ha_requests (h_scoped_held h)"
  shows "ceiling_counters (reconcile_db now h cost tokens d) =
      on_keys (set (scoped_budget_ids h)) (\<lambda>k. k\<lparr>c_used := c_used k + ceiling_recorded h cost tokens\<rparr>)
        (ceiling_counters d) \<and>
    user_counters (reconcile_db now h cost tokens d) =
      on_keys {h_user_id h} (\<lambda>k. k\<lparr>c_used := c_used k + user_recorded h cost tokens\<rparr>) (user_counters d) \<and>
    d_reservations (reconcile_db now h cost tokens d) =
      d_reservations (set_status i RESERVATION_EXPIRED RESERVATION_SETTLED d)"
proof -
  have d: "reconcile_db now h cost tokens d = settle_legs now h cost tokens True
      (set_status i RESERVATION_EXPIRED RESERVATION_SETTLED d)"
    using assms(1)
  proof (cases rule: reconcile_db_cases[where d = d and now = now and cost = cost and tokens = tokens])
    case late
    then show ?thesis using assms(6,7) by simp
  qed (use assms in auto)
  have used: "0 \<le> ceiling_recorded h cost tokens"
    using assms(6-8) by (simp add: ceiling_recorded_def amount_le_iff)
  have s: "settle_counters (ceiling_recorded h cost tokens) 0 =
      (\<lambda>k. k\<lparr>c_used := c_used k + ceiling_recorded h cost tokens\<rparr>)"
    by (rule ext, rule counters.equality) (simp_all add: settle_counters_def record_amounts_exact[OF used])
  have u: "(\<lambda>x. \<lparr>c_used = c_used x + user_recorded h cost tokens,
      c_held = (if h_reserved h \<and> \<not> True then release_leg (c_held x) (h_held h) else c_held x)\<rparr>) =
      (\<lambda>k. k\<lparr>c_used := c_used k + user_recorded h cost tokens\<rparr>)"
    by (rule ext, rule counters.equality) simp_all
  show ?thesis unfolding d settle_legs_counters if_True s u by simp
qed

theorem late_settlement_records_only_witness:
  "ceiling_counters (reconcile_db 900000020 sample_handle 2 3 sample_expired) ''k'' =
     Some \<lparr>c_used = HeldAmounts 5 3 1, c_held = HeldAmounts 2 0 0\<rparr>"
proof -
  let ?r = "\<lparr>rv_id = ''r'', rv_user_id = ''u'', rv_held = sample_amount, rv_user_reserved = True,
    rv_status = RESERVATION_EXPIRED, rv_expires_at = 900000010\<rparr>"
  have rows: "d_reservations sample_expired = [?r]"
    unfolding sample_expired_def sample_recorded_def sample_both_def sample_held_def sample_amount_def
    by code_simp
  have c: "ceiling_counters sample_expired ''k'' =
      Some \<lparr>c_used = HeldAmounts 3 0 0, c_held = HeldAmounts 2 0 0\<rparr>"
    unfolding sample_expired_def sample_recorded_def sample_both_def sample_held_def sample_amount_def
    by code_simp
  have ids: "scoped_budget_ids sample_handle = [''k'']"
    unfolding sample_handle_def sample_budgets_def by code_simp
  have rec: "ceiling_recorded sample_handle 2 3 = HeldAmounts 2 3 1"
    by (simp add: ceiling_recorded_def sample_handle_def sample_amount_def)
  have "\<not> is_active sample_expired ''r''" by (simp add: is_active_def rows active_def)
  moreover have "0 \<le> ha_requests (h_scoped_held sample_handle)"
    by (simp add: sample_handle_def sample_amount_def)
  ultimately show ?thesis
    using late_settlement_records_only[OF sample_handle_id, of sample_expired ?r 2 3 900000020]
    by (simp add: rows ids c rec on_keys_def amount_defs)
qed

text \<open>
  The sweep reclaims exactly the overdue rows. It turns the listed rows, and no other,
  from active to expired, counts each of them once, and when it did less than a full batch no
  overdue active row is left.
\<close>

theorem sweep_reclaims_overdue:
  assumes "distinct (map rv_id (d_reservations d))" and "sweep_expired now batch_size d = (d', n)"
  shows "d_reservations d' = map (expire (rv_id ` set (list_expired d now batch_size None))) (d_reservations d)
    \<and> n = length (list_expired d now batch_size None)
    \<and> (n < batch_size \<longrightarrow> (\<forall>r \<in> set (d_reservations d'). active r \<longrightarrow> now \<le> rv_expires_at r))"
proof -
  let ?l = "list_expired d now batch_size None"
  have act: "is_active d (rv_id r)" if "r \<in> set ?l" for r
    using list_expired_rows[OF that] by (auto simp: is_active_def overdue_def)
  have e: "d_reservations d' = map (expire (rv_id ` set ?l)) (d_reservations d) \<and> n = length ?l"
    using reclaim_expires[OF list_expired_distinct[OF assms(1)] act, where now = now and d' = d' and n = n]
      assms(2) by (simp add: sweep_expired_def)
  have "now \<le> rv_expires_at r'" if n: "n < batch_size" and r': "r' \<in> set (d_reservations d')" "active r'" for r'
  proof -
    obtain r where r: "r \<in> set (d_reservations d)" and r'e: "r' = expire (rv_id ` set ?l) r"
      using r'(1) e by auto
    have "active r" "rv_id r \<notin> rv_id ` set ?l" "r' = r"
      using r'(2) r'e by (auto simp: expire_def active_def split: if_splits)
    moreover have "r \<in> set ?l" if "overdue now r"
      using n e r that by (auto simp: list_expired_def overdue_def)
    ultimately show ?thesis by (force simp: overdue_def)
  qed
  then show ?thesis using e by blast
qed

theorem sweep_reclaims_overdue_witness:
  "filter (\<lambda>r. active r \<and> rv_expires_at r < 900000011) (d_reservations sample_expired) = []"
proof -
  obtain d' n where e: "sweep_expired 900000011 5 sample_recorded = (d', n)"
    by (cases "sweep_expired 900000011 5 sample_recorded")
  have "snd (sweep_expired 900000011 5 sample_recorded) < 5"
    unfolding sample_recorded_def sample_both_def sample_held_def sample_amount_def by code_simp
  then have "n < 5" by (simp add: e)
  then show ?thesis
    using sweep_reclaims_overdue[OF _ e] sample_recorded_wf
    by (auto simp: sample_expired_def e wf_ledger_def keys_unique_def filter_empty_conv)
qed

text \<open>
  Retention deletes ended rows only. Every row \<open>prune_terminal\<close> removes is terminal and
  expired before the retention cutoff; every other row stays with all its lines; no counter
  changes; and with retention off it does nothing.
\<close>

theorem prune_deletes_ended_rows:
  assumes "distinct (map rv_id (d_reservations d))"
    and "prune_terminal now older_than_sec batch_size d = (d', n)"
  shows "set (d_reservations d') \<subseteq> set (d_reservations d)
    \<and> (\<forall>r \<in> set (d_reservations d) - set (d_reservations d'). 0 < older_than_sec \<and> \<not> active r \<and>
         rv_expires_at r < now - older_than_sec * 1000000)
    \<and> (\<forall>l \<in> set (d_lines d). reservation_exists d' (ln_reservation_id l) \<longrightarrow> l \<in> set (d_lines d'))
    \<and> ceiling_counters d' = ceiling_counters d \<and> user_counters d' = user_counters d"
proof (cases "older_than_sec \<le> 0")
  case True
  then show ?thesis using assms(2) by (simp add: prune_terminal_def)
next
  case False
  let ?cut = "now - older_than_sec * 1000000"
  let ?ids = "list_terminal_ids d ?cut batch_size"
  have d': "d' = delete_by_ids ?ids d"
    using assms(2) False by (auto simp: prune_terminal_def Let_def delete_by_ids_def split: if_splits)
  have gone: "\<not> active r \<and> rv_expires_at r < ?cut" if r: "r \<in> set (d_reservations d)" "rv_id r \<in> set ?ids" for r
  proof -
    obtain x where x: "x \<in> set (d_reservations d)" "rv_id x = rv_id r"
      "rv_status x \<in> set TERMINAL_STATUSES" "rv_expires_at x < ?cut"
      using r(2) by (auto simp: list_terminal_ids_def dest!: in_set_takeD)
    have "x = r" using key_unique[OF assms(1) x(1) r(1)] x(2) by simp
    then show ?thesis using x(3,4) by (auto simp: TERMINAL_STATUSES_def active_def)
  qed
  have "set (d_reservations d') \<subseteq> set (d_reservations d)" by (auto simp: d' delete_by_ids_def)
  moreover have "\<forall>r \<in> set (d_reservations d) - set (d_reservations d'). 0 < older_than_sec \<and> \<not> active r \<and>
      rv_expires_at r < ?cut"
    using gone False by (auto simp: d' delete_by_ids_def)
  moreover have "\<forall>l \<in> set (d_lines d). reservation_exists d' (ln_reservation_id l) \<longrightarrow> l \<in> set (d_lines d')"
    by (auto simp: d' delete_by_ids_def reservation_exists_def rowcount_pos_iff)
  ultimately show ?thesis by (simp add: d')
qed

theorem prune_deletes_ended_rows_witness:
  "set (d_reservations (fst (prune_terminal 2000000000 1 5 sample_expired))) \<subseteq> set (d_reservations sample_expired)"
proof -
  obtain d' n where e: "prune_terminal 2000000000 1 5 sample_expired = (d', n)"
    by (cases "prune_terminal 2000000000 1 5 sample_expired")
  have "distinct (map rv_id (d_reservations sample_expired))"
    using sample_expired_wf by (simp add: wf_ledger_def keys_unique_def)
  from prune_deletes_ended_rows[OF this e] show ?thesis by (simp add: e)
qed

text \<open>
  Orphan reconciliation clamps a quiet ceiling to what the ledger records. If the ceiling
  was written since the cutoff nothing changes. Otherwise on each axis its holds become the smaller
  of what they were and the sum of its lines under active rows, no other counter changes, and it
  reports a move exactly when some axis was above that sum.
\<close>

theorem reconcile_scoped_clamps:
  assumes "keys_unique d" and "r \<in> set (d_scoped d)"
    and "reconcile_scoped now (s_id r) cutoff d = (d', moved)"
  shows "(quiet_since cutoff (s_updated_at r) \<longrightarrow>
      ceiling_counters d' = on_keys {s_id r}
        (\<lambda>k. k\<lparr>c_held := amount_min (c_held k) (active_ceiling_held d (s_id r))\<rparr>) (ceiling_counters d) \<and>
      user_counters d' = user_counters d \<and>
      moved = (\<not> c_held (s_counters r) \<le> active_ceiling_held d (s_id r))) \<and>
    (\<not> quiet_since cutoff (s_updated_at r) \<longrightarrow> d' = d \<and> \<not> moved)"
proof (cases "quiet_since cutoff (s_updated_at r)")
  case False
  have "lock_quiet_holds d (s_id r) cutoff = None"
    using False assms(1,2) key_unique[of s_id "d_scoped d"]
    by (auto simp: lock_quiet_holds_def find_None_iff keys_unique_def)
  then show ?thesis using False assms(3) by (simp add: reconcile_scoped_def)
next
  case True
  let ?n = "active_ceiling_held d (s_id r)"
  let ?v = "clamped (c_held (s_counters r)) ?n"
  have keys: "distinct (map s_id (d_scoped d))" using assms(1) by (simp add: keys_unique_def)
  have "find (\<lambda>x. s_id x = s_id r \<and> quiet_since cutoff (s_updated_at x)) (d_scoped d) = Some r"
    by (rule find_key_guarded[OF keys assms(2)]) (rule True)
  then have lock: "lock_quiet_holds d (s_id r) cutoff = Some (c_held (s_counters r))"
    by (simp add: lock_quiet_holds_def)
  have le: "(?v = (None, None, None)) = (c_held (s_counters r) \<le> ?n)"
    by (auto simp: clamped_def clamped_axis_def amount_le_iff)
  have d': "d' = (if ?v = (None, None, None) then d else clamp_holds now (s_id r) ?v d)"
    and moved: "moved = (\<not> c_held (s_counters r) \<le> ?n)"
    using assms(3) lock le by (auto simp: reconcile_scoped_def Let_def split: if_splits)
  have row: "ceiling_counters d (s_id r) = Some (s_counters r)"
    using ceilings.counters_row[OF keys assms(2)] by (simp add: ceiling_counters_def)
  have "ceiling_counters d' = on_keys {s_id r} (set_holds ?v) (ceiling_counters d)"
    unfolding d' by (cases "?v = (None, None, None)")
      (simp_all add: set_holds_none clamp_holds_def update_counters_effect)
  also have "\<dots> = on_keys {s_id r} (\<lambda>k. k\<lparr>c_held := amount_min (c_held k) ?n\<rparr>) (ceiling_counters d)"
    by (rule on_keys_cong_on) (use row in \<open>auto simp: set_holds_clamped\<close>)
  finally show ?thesis using True moved by (auto simp: d' clamp_holds_def user_counters_def)
qed

theorem reconcile_scoped_clamps_witness:
  "ceiling_counters (fst (reconcile_scoped 99 ''k'' 50 sample_db)) ''k'' =
     Some \<lparr>c_used = HeldAmounts 3 0 0, c_held = HeldAmounts 0 0 0\<rparr>"
proof -
  let ?r = "sample_ceiling ''k'' SCOPE_API_TOKEN (sample_counters 3 2)"
  obtain d' moved where e: "reconcile_scoped 99 (s_id ?r) 50 sample_db = (d', moved)"
    by (cases "reconcile_scoped 99 (s_id ?r) 50 sample_db")
  have r: "?r \<in> set (d_scoped sample_db)" by (simp add: sample_db_def)
  have id: "s_id ?r = ''k''" by (simp add: sample_ceiling_def)
  have q: "quiet_since 50 (s_updated_at ?r)" by (simp add: sample_ceiling_def quiet_since_def)
  have n: "active_ceiling_held sample_db ''k'' = 0" by (simp add: active_ceiling_held_def sample_db_def)
  have c: "ceiling_counters sample_db ''k'' = Some \<lparr>c_used = HeldAmounts 3 0 0, c_held = HeldAmounts 2 0 0\<rparr>"
    by code_simp
  show ?thesis
    using reconcile_scoped_clamps[OF sample_db_ok(1) r e] q e
    by (simp add: id n c on_keys_def amount_min_def)
qed

text \<open>
  A due window is reset once. When the guarded reset of a user's budget wins, the user's
  recorded use is zero on every axis, holds are untouched and so is every other user; and a second
  reset of the same window, before the next one is due, does not match and changes nothing.
\<close>

theorem window_reset_once:
  assumes "keys_unique d" and "cas_reset now user_id started_at next_reset_at d = (d1, True)"
    and "\<And>t. next_reset_at = Some t \<Longrightarrow> now' < t"
  shows "user_counters d1 = on_keys {user_id} (\<lambda>k. k\<lparr>c_used := 0\<rparr>) (user_counters d)
    \<and> ceiling_counters d1 = ceiling_counters d
    \<and> cas_reset now' user_id started_at' next_reset_at' d1 = (d1, False)"
proof -
  let ?p = "\<lambda>u. live_user user_id u \<and> reset_due now u"
  let ?g = "\<lambda>u. (touch_user now reset_counters u)
    \<lparr>u_budget_started_at := Some started_at, u_next_reset_at := next_reset_at\<rparr>"
  have keys: "distinct (map u_user_id (d_users d))" using assms(1) by (simp add: keys_unique_def)
  have d1: "d1 = update_users ?p ?g d" and won: "0 < rowcount ?p (d_users d)"
    using assms(2) by (simp_all add: cas_reset_def Let_def)
  have "counters_in u_user_id (\<lambda>u. \<not> u_deleted u) u_counters (update_where ?p ?g (d_users d)) =
      on_keys {user_id} reset_counters (counters_in u_user_id (\<lambda>u. \<not> u_deleted u) u_counters (d_users d))"
    using counters_in_guarded[OF keys, of ?p user_id "\<lambda>u. \<not> u_deleted u" ?g u_counters reset_counters] won
    by (simp add: live_user_def touch_user_def)
  then have "user_counters d1 = on_keys {user_id} (\<lambda>k. k\<lparr>c_used := 0\<rparr>) (user_counters d)"
    by (simp add: user_counters_def d1 update_users_def reset_counters_def[abs_def])
  moreover have "ceiling_counters d1 = ceiling_counters d" by (simp add: d1 update_users_def)
  moreover have "\<not> (live_user user_id u' \<and> reset_due now' u')" if u': "u' \<in> set (d_users d1)" for u'
  proof
    assume due: "live_user user_id u' \<and> reset_due now' u'"
    obtain u where u: "u \<in> set (d_users d)" and e: "u' = (if ?p u then ?g u else u)"
      using u' by (auto simp: d1 update_users_def in_update_where_iff)
    obtain x where x: "x \<in> set (d_users d)" "?p x" using won by (auto simp: rowcount_pos_iff)
    have "u_user_id u = user_id" using due e by (auto simp: live_user_def touch_user_def split: if_splits)
    then have "u = x" using key_unique[OF keys u x(1)] x(2) by (simp add: live_user_def)
    then have "u_next_reset_at u' = next_reset_at" using e x(2) by simp
    then show False using due assms(3) by (auto simp: reset_due_def split: option.splits)
  qed
  then have "update_where (\<lambda>u. live_user user_id u \<and> reset_due now' u) g (d_users d1) = d_users d1"
    "rowcount (\<lambda>u. live_user user_id u \<and> reset_due now' u) (d_users d1) = 0" for g
    by (simp_all add: update_where_none rowcount_zero_iff)
  then have "cas_reset now' user_id started_at' next_reset_at' d1 = (d1, False)"
    by (simp add: cas_reset_def Let_def update_users_def)
  ultimately show ?thesis by blast
qed

definition sample_due :: db where
  "sample_due = sample_db\<lparr>d_users :=
     [(sample_user ''u'' (sample_counters 9 1))\<lparr>u_next_reset_at := Some 50\<rparr>]\<rparr>"

theorem window_reset_once_witness:
  "snd (cas_reset 61 ''u'' 61 None (fst (cas_reset 60 ''u'' 60 (Some 100) sample_due))) = False"
proof -
  obtain d1 w where e: "cas_reset 60 ''u'' 60 (Some 100) sample_due = (d1, w)"
    by (cases "cas_reset 60 ''u'' 60 (Some 100) sample_due")
  have "snd (cas_reset 60 ''u'' 60 (Some 100) sample_due)" by code_simp
  then have w: "w" by (simp add: e)
  have k: "keys_unique sample_due"
    using sample_db_ok(1) by (simp add: keys_unique_def sample_due_def)
  show ?thesis
    using window_reset_once[OF k, of 60 "''u''" 60 "Some 100" d1 61 61 None] e w by simp
qed

end
