(* ===== verification/Reserve_Refinement.thy ===== *)
theory Reserve_Refinement
  imports Ledger_Life
begin

text \<open>
  \<open>reserve_budget\<close> refines the protocol. Whatever the database does to its statements and commits,
  a reservation is a run of the steps of \<open>Hold_Protocol\<close>, so it leaves a reachable state; a handle
  that names a row agrees with that row; and a handle without one carries its holds, or its row was
  recorded by a commit that reported failure and agrees with it.
\<close>

section \<open>Reaching\<close>

definition reaches :: "flight list \<Rightarrow> instant \<Rightarrow> db \<Rightarrow> flight list \<Rightarrow> bool" where
  "reaches us now d fs \<longleftrightarrow> reachable \<lparr>p_now = now, p_db = d, p_flights = fs, p_unbacked = us\<rparr>"

definition ceiling_flights :: "instant \<Rightarrow> HeldAmounts \<Rightarrow> string list \<Rightarrow> flight list" where
  "ceiling_flights now a ids = map (\<lambda>i. \<lparr>f_leg = CeilingLeg i, f_amount = a, f_at = now\<rparr>) ids"

definition user_flight :: "instant \<Rightarrow> HeldAmounts \<Rightarrow> string \<Rightarrow> flight" where
  "user_flight now a u = \<lparr>f_leg = UserLeg u, f_amount = a, f_at = now\<rparr>"

lemma flight_sum_ceiling_flights [simp]:
  "distinct ids \<Longrightarrow> flight_sum (ceiling_flights now a ids) (CeilingLeg c) = (if c \<in> set ids then a else 0)"
  "flight_sum (ceiling_flights now a ids) (UserLeg u) = 0"
  by (induction ids) (auto simp: ceiling_flights_def flight_sum_def)

lemma ceiling_flights_simps [simp]:
  "ceiling_flights now a [] = []"
  "ceiling_flights now a (xs @ ys) = ceiling_flights now a xs @ ceiling_flights now a ys"
  by (simp_all add: ceiling_flights_def)

lemma reaches_wf: "reaches us now d fs \<Longrightarrow> wf_ledger d"
  using reachable_holds_inv by (fastforce simp: reaches_def holds_inv_def)

lemma reaches_lose: "reaches us now d (fs @ fs') \<Longrightarrow> reaches us now d fs'"
  unfolding reaches_def
  using reachable.step[OF _ step.lose_flights[of "\<lparr>p_now = now, p_db = d, p_flights = fs @ fs', p_unbacked = us\<rparr>" fs fs']]
  by simp

lemma reaches_perm: "reaches us now d fs \<Longrightarrow> mset fs = mset fs' \<Longrightarrow> reaches us now d fs'"
  unfolding reaches_def
  using reachable.step[OF _ step.lose_flights[of "\<lparr>p_now = now, p_db = d, p_flights = fs, p_unbacked = us\<rparr>" "[]" fs']]
  by simp

lemma reaches_hold:
  assumes "reaches us now d fs" "hold now i amount t q n d = (d', held)" "0 \<le> hold_of amount t q"
  shows "reaches us now d' (if held then ceiling_flights now (hold_of amount t q) [i] @ fs else fs)"
proof (cases held)
  case True
  then show ?thesis
    using assms step.hold_ceiling[of "\<lparr>p_now = now, p_db = d, p_flights = fs, p_unbacked = us\<rparr>" i amount t q n d']
    by (auto simp: reaches_def ceiling_flights_def intro: reachable.step)
next
  case False
  then have "d' = d"
    using assms(2) by (auto simp: hold_def Let_def update_scoped_def update_where_none rowcount_zero_iff)
  then show ?thesis using False assms(1) by simp
qed

lemma reaches_release:
  assumes "reaches us now d (ceiling_flights now a ids @ fs)" "distinct ids" "0 \<le> a"
  shows "reaches us now (release_db now ids a d) fs"
  using assms step.give_back_ceilings[of "\<lparr>p_now = now, p_db = d, p_flights = ceiling_flights now a ids @ fs, p_unbacked = us\<rparr>"
      "ceiling_flights now a ids" fs ids a]
  by (auto simp: reaches_def intro: reachable.step)

lemma reaches_hold_user:
  assumes "reaches us now d fs" "\<And>u. p u \<Longrightarrow> live_user i u" "0 \<le> a" "0 < rowcount p (d_users d)"
  shows "reaches us now (update_users p (touch_user now (hold_counters a)) d) (user_flight now a i # fs)"
  using assms step.hold_user[of p "\<lparr>p_now = now, p_db = d, p_flights = fs, p_unbacked = us\<rparr>" i a]
  by (auto simp: reaches_def user_flight_def intro: reachable.step)

lemma update_users_none: "rowcount p (d_users d) = 0 \<Longrightarrow> update_users p f d = d"
  by (simp add: update_users_def update_where_none rowcount_zero_iff)

section \<open>Releasing and reserving on the ceilings\<close>

lemma release_reaches:
  assumes "reaches us now (ss_db s) (ceiling_flights now a ids @ fs)" "distinct ids" "0 \<le> a"
    and "release now ids a s = (s', r)"
  shows "(\<exists>fs'. reaches us now (ss_db s') (fs' @ fs)) \<and> (r = Inr () \<longrightarrow> reaches us now (ss_db s') fs)"
proof (cases "ids = [] \<or> \<not> some_positive a")
  case True
  then have "s' = s" "release_db now ids a (ss_db s) = ss_db s"
    using assms(4) by (auto simp: release_is_db release_db_def)
  then show ?thesis using reaches_release[OF assms(1-3)] by (metis append_Nil)
next
  case False
  then have "transact (release_db now ids a) s = (s', r)" using assms(4) by (simp add: release_is_db)
  from transact_db[OF this] show ?thesis
    using reaches_release[OF assms(1-3)] assms(1) by (metis Inl_Inr_False append_Nil)
qed

lemma give_back_reaches:
  assumes "reaches us now (ss_db s) (ceiling_flights now a ids @ fs)" "distinct ids" "0 \<le> a"
  shows "\<exists>fs'. reaches us now (ss_db (give_back now ids a s)) (fs' @ fs)"
proof -
  obtain ok s1 where st: "statement s = (ok, s1)" by (cases "statement s")
  have db: "ss_db s1 = ss_db s" using st by (rule statement_db)
  obtain s2 r where rel: "release now ids a s1 = (s2, r)" by (cases "release now ids a s1")
  show ?thesis
    using release_reaches[OF _ assms(2,3) rel] assms(1) st db rel
    by (cases ok) (auto simp: give_back_def)
qed

lemma reserve_from_reaches:
  assumes "reaches us now (ss_db s) (ceiling_flights now (hold_of amount t q) taken @ fs)"
    and "0 \<le> hold_of amount t q" "distinct (taken @ map ab_budget_id bs)"
    and "reserve_from now bs taken amount t q n s = (s', res)"
  shows "(\<exists>fs'. reaches us now (ss_db s') (fs' @ fs)) \<and>
    (res = Inr None \<longrightarrow>
      reaches us now (ss_db s') (ceiling_flights now (hold_of amount t q) (taken @ map ab_budget_id bs) @ fs))"
  using assms
proof (induction bs arbitrary: taken s)
  case Nil
  then show ?case by auto
next
  case (Cons b bs)
  let ?a = "hold_of amount t q" and ?i = "ab_budget_id b"
  note start = Cons.prems(1) and pos = Cons.prems(2)
  have dt: "distinct taken" using Cons.prems(3) by simp
  obtain ok1 s1 where st: "statement s = (ok1, s1)" by (cases "statement s")
  have db1: "ss_db s1 = ss_db s" using st by (rule statement_db)
  have start1: "reaches us now (ss_db s1) (ceiling_flights now ?a taken @ fs)" using start db1 by simp
  show ?case
  proof (cases ok1)
    case False
    then have "s' = give_back now taken ?a s1" "res = Inl DatabaseError"
      using Cons.prems(4) st by (auto simp: Let_def)
    then show ?thesis using give_back_reaches[OF start1 dt pos] by simp
  next
    case True
    obtain d' held where h: "hold now ?i amount t q n (ss_db s1) = (d', held)"
      by (cases "hold now ?i amount t q n (ss_db s1)")
    note held1 = reaches_hold[OF start1 h pos]
    obtain ok2 s2 where c: "commit_tx d' s1 = (ok2, s2)" by (cases "commit_tx d' s1")
    have d': "reaches us now d' (ceiling_flights now ?a (taken @ (if held then [?i] else [])) @ fs)"
      using held1 by (rule reaches_perm) (simp add: union_ac)
    have drop: "reaches us now d' (ceiling_flights now ?a taken @ (ceiling_flights now ?a (if held then [?i] else [])) @ fs)"
      using d' by simp
    show ?thesis
    proof (cases ok2)
      case False
      have r: "s' = give_back now taken ?a s2" "res = Inl DatabaseError"
        using Cons.prems(4) st True h c False by (auto simp: Let_def)
      consider "ss_db s2 = d'" | "ss_db s2 = ss_db s1" using commit_db[OF c] by auto
      then show ?thesis
      proof cases
        case 1
        let ?x = "ceiling_flights now ?a (if held then [?i] else [])"
        have "reaches us now (ss_db s2) (ceiling_flights now ?a taken @ ?x @ fs)" using 1 drop by simp
        from give_back_reaches[OF this dt pos]
        obtain g where "reaches us now (ss_db s') (g @ ?x @ fs)" using r by blast
        then have "reaches us now (ss_db s') ((g @ ?x) @ fs)" by simp
        then show ?thesis using r by blast
      next
        case 2
        then show ?thesis using give_back_reaches[of us now s2 ?a taken, OF _ dt pos] start1 r by simp
      qed
    next
      case ok: True
      have db2: "ss_db s2 = d'" using commit_db[OF c] ok by simp
      show ?thesis
      proof (cases held)
        case False
        obtain s3 x where rel: "release now taken ?a s2 = (s3, x)" by (cases "release now taken ?a s2")
        have "s' = s3" "res = (case x of Inl e \<Rightarrow> Inl e | Inr _ \<Rightarrow> Inr (Some b))"
          using Cons.prems(4) st True h c ok False rel by (auto simp: Let_def split: sum.splits)
        moreover have "reaches us now (ss_db s2) (ceiling_flights now ?a taken @ fs)" using d' False db2 by simp
        ultimately show ?thesis
          using release_reaches[OF _ dt pos rel] by (cases x) auto
      next
        case True
        have rec: "reserve_from now bs (taken @ [?i]) amount t q n s2 = (s', res)"
          using Cons.prems(4) st \<open>ok1\<close> h c ok True by (simp add: Let_def)
        show ?thesis
          using Cons.IH[OF _ pos _ rec] d' True db2 Cons.prems(3) by simp
      qed
    qed
  qed
qed

lemma reserve_reaches:
  assumes "reaches us now (ss_db s) fs" "0 \<le> hold_of amount t q" "distinct (map ab_budget_id bs)"
    and "reserve now bs amount t q n s = (s', res)"
  shows "\<exists>fs'. reaches us now (ss_db s') (fs' @ fs)"
    and "res = Inr None \<Longrightarrow>
      reaches us now (ss_db s') (ceiling_flights now (hold_of amount t q) (map ab_budget_id bs) @ fs)"
  using reserve_from_reaches[of us now s amount t q "[]" fs bs n s' res] assms by (simp_all add: reserve_def)


section \<open>The per-user leg and the ledger row\<close>

text \<open>What a handle is worth once \<open>reserve_budget\<close> has returned it.\<close>

definition handle_ok ::
  "flight list \<Rightarrow> instant \<Rightarrow> string \<Rightarrow> flight list \<Rightarrow> db \<Rightarrow> ReservationHandle \<Rightarrow> bool" where
  "handle_ok us now new_id fs d h \<longleftrightarrow>
     (case h_reservation_id h of
        Some i \<Rightarrow> i = new_id \<and> handle_agrees h i d \<and> is_active d i \<and> reaches us now d fs
      | None \<Rightarrow> (\<exists>fs'. reaches us now d (fs' @ fs) \<and> carries fs' h)
          \<or> handle_agrees (h\<lparr>h_reservation_id := Some new_id\<rparr>) new_id d \<and> is_active d new_id \<and> reaches us now d fs)"

definition outcome_reached ::
  "flight list \<Rightarrow> instant \<Rightarrow> string \<Rightarrow> flight list \<Rightarrow> session \<Rightarrow> reserve_error + ReservationHandle \<Rightarrow> bool" where
  "outcome_reached us now new_id fs s r \<longleftrightarrow>
     (case r of
        Inr h \<Rightarrow> handle_ok us now new_id fs (ss_db s) h
      | Inl _ \<Rightarrow> \<exists>fs'. reaches us now (ss_db s) (fs' @ fs))"

lemma reaches_record:
  assumes "reaches us now d ((if ur then [user_flight now uh u] else []) @ ceiling_flights now ch ids @ fs)"
    and "\<not> reservation_exists d i" "distinct ids" "0 \<le> uh" "0 \<le> ch" "ur \<or> uh = 0"
  shows "reaches us now (add_reservation i u ur uh ch ids e d) fs"
proof -
  let ?fs = "(if ur then [user_flight now uh u] else []) @ ceiling_flights now ch ids"
  have "step \<lparr>p_now = now, p_db = d, p_flights = ?fs @ fs, p_unbacked = us\<rparr>
      (\<lparr>p_now = now, p_db = d, p_flights = ?fs @ fs, p_unbacked = us\<rparr>\<lparr>p_db := add_reservation i u ur uh ch ids e
        (p_db \<lparr>p_now = now, p_db = d, p_flights = ?fs @ fs, p_unbacked = us\<rparr>), p_flights := fs\<rparr>)"
    by (rule step.record_row[where fs = ?fs])
       (use assms in \<open>auto simp: user_flight_def\<close>)
  then show ?thesis using assms(1) by (auto simp: reaches_def intro: reachable.step)
qed

lemma recorded_agrees:
  assumes "wf_ledger d" "\<not> reservation_exists d i" "distinct ids"
    and "h_reservation_id h = Some i" "h_user_id h = u" "h_reserved h = ur" "h_held h = uh"
    and "scoped_budget_ids h = ids" "h_scoped_held h = ch" "0 \<le> uh" "0 \<le> ch"
  shows "handle_agrees h i (add_reservation i u ur uh ch ids e d)"
    and "is_active (add_reservation i u ur uh ch ids e d) i"
proof -
  have none: "rv_id r \<noteq> i" if "r \<in> set (d_reservations d)" for r
    using that assms(2) by (auto simp: reservation_exists_ids)
  have "ln_reservation_id l \<noteq> i" if "l \<in> set (d_lines d)" for l
    using that assms(1,2) by (auto simp: wf_ledger_def)
  then have old: "lines_held d i c = 0" for c unfolding lines_held_def by (intro table_sum_zero) auto
  have "table_sum (\<lambda>l. ln_reservation_id l = i \<and> ln_scoped_budget_id l = c) ln_held (map (new_line i ch) ids) =
      table_sum (\<lambda>l. ln_scoped_budget_id l = c) ln_held (map (new_line i ch) ids)" for c
    by (rule table_sum_cong) (auto simp: new_line_def)
  then have "lines_held (add_reservation i u ur uh ch ids e d) i c = (if c \<in> set ids then ch else 0)" for c
    using old[of c] new_lines_sum[OF assms(3)] by (simp add: lines_held_def add_reservation_def)
  then show "handle_agrees h i (add_reservation i u ur uh ch ids e d)"
    using assms none by (auto simp: handle_agrees_def add_reservation_def)
  show "is_active (add_reservation i u ur uh ch ids e d) i"
    by (auto simp: is_active_def add_reservation_def active_def)
qed

definition plan_ok :: "hold_plan \<Rightarrow> bool" where
  "plan_ok p \<longleftrightarrow>
     0 \<le> hp_user_held p \<and> 0 \<le> hp_ceiling_held p \<and> distinct (plan_ids p) \<and>
     (hp_user_reserved p \<or> hp_user_held p = 0)"

definition plan_flights :: "instant \<Rightarrow> hold_plan \<Rightarrow> flight list" where
  "plan_flights now p =
     (if hp_user_reserved p then [user_flight now (hp_user_held p) (hp_user_id p)] else []) @
     ceiling_flights now (hp_ceiling_held p) (plan_ids p)"

lemma plan_carries:
  "plan_ok p \<Longrightarrow> carries (plan_flights now p) (plan_handle p None)"
  by (auto simp: carries_def plan_ok_def plan_flights_def plan_handle_def scoped_budget_ids_def plan_ids_def
      user_flight_def)

text \<open>Recording a plan over its flights.\<close>

lemma plan_record_reaches:
  assumes "plan_ok p" "reaches us now d (plan_flights now p @ fs)" "\<not> reservation_exists d i"
    and "plan_record now i p d = (d', x)"
  shows "(case x of
      Some j \<Rightarrow> j = i \<and> handle_agrees (plan_handle p (Some j)) j d' \<and> is_active d' j \<and> reaches us now d' fs
    | None \<Rightarrow> d' = d)"
proof (cases "hp_record p \<and> (hp_user_reserved p \<or> hp_scoped p \<noteq> [])")
  case True
  let ?uh = "hp_user_held p" and ?e = "now + hp_ttl_sec p * 1000000"
  have uh: "(if hp_user_reserved p then ?uh else HeldAmounts (ha_amount ?uh) (ha_tokens ?uh) 0) = ?uh"
    using assms(1) by (auto simp: plan_ok_def amount_eqI)
  have d': "d' = add_reservation i (hp_user_id p) (hp_user_reserved p) ?uh (hp_ceiling_held p) (plan_ids p) ?e d"
    and x: "x = Some i"
    using assms(4) True by (auto simp: plan_record_def record_hold_def plan_ids_def uh split: if_splits)
  have "reaches us now d' fs"
    unfolding d' by (rule reaches_record) (use assms in \<open>auto simp: plan_flights_def plan_ok_def\<close>)
  moreover have "handle_agrees (plan_handle p (Some i)) i d'" "is_active d' i"
    unfolding d'
    by (rule recorded_agrees[OF reaches_wf[OF assms(2)] assms(3), where h = "plan_handle p (Some i)"],
        use assms(1) in \<open>simp_all add: plan_handle_def plan_ok_def scoped_budget_ids_def plan_ids_def\<close>)+
  ultimately show ?thesis using x by simp
next
  case False
  then have "d' = d \<and> x = None"
    using assms(4) by (auto simp: plan_record_def record_hold_def split: if_splits)
  then show ?thesis by simp
qed

lemma plan_handle_id [simp]: "h_reservation_id (plan_handle p i) = i"
  by (simp add: plan_handle_def)

lemma held_handle_committed_reaches:
  assumes "plan_ok p" "reaches us now (ss_db s) (plan_flights now p @ fs)" "\<not> reservation_exists (ss_db s) i"
    and "held_handle_committed now i p s = (s', r)"
  shows "outcome_reached us now i fs s' r"
proof (cases "hp_record p")
  case False
  then have "s' = s" "r = Inr (plan_handle p None)" using assms(4) by (simp_all add: held_handle_committed_def)
  then show ?thesis using assms(2) plan_carries[OF assms(1)] by (auto simp: outcome_reached_def handle_ok_def)
next
  case True
  obtain d' x where pr: "plan_record now i p (ss_db s) = (d', x)" by (cases "plan_record now i p (ss_db s)")
  note rec = plan_record_reaches[OF assms(1-3) pr]
  obtain s1 y where tr: "transact (\<lambda>d. fst (plan_record now i p d)) s = (s1, y)"
    by (cases "transact (\<lambda>d. fst (plan_record now i p d)) s")
  have db: "ss_db s1 = d' \<or> ss_db s1 = ss_db s \<and> y = Inl DatabaseError" using transact_db[OF tr] pr by simp
  show ?thesis
  proof (cases y)
    case (Inr u)
    then have r: "s' = s1" "r = Inr (plan_handle p x)" and d: "ss_db s1 = d'"
      using assms(4) True tr pr db by (simp_all add: held_handle_committed_def)
    show ?thesis
    proof (cases x)
      case None
      then show ?thesis
        using rec r d assms(2) plan_carries[OF assms(1)] by (auto simp: outcome_reached_def handle_ok_def)
    next
      case (Some j)
      then have j: "j = i" using rec by simp
      then show ?thesis using rec r d Some by (simp add: outcome_reached_def handle_ok_def)
    qed
  next
    case (Inl e)
    obtain ok s2 where st: "statement s1 = (ok, s2)" by (cases "statement s1")
    have r: "s' = s2" "r = Inr (plan_handle p None)" "ss_db s2 = ss_db s1"
      using assms(4) True tr Inl st statement_db[OF st] by (simp_all add: held_handle_committed_def)
    have named: "(plan_handle p None)\<lparr>h_reservation_id := Some i\<rparr> = plan_handle p (Some i)"
      by (simp add: plan_handle_def)
    have "reaches us now (ss_db s1) (plan_flights now p @ fs) \<or>
        handle_agrees (plan_handle p (Some i)) i (ss_db s1) \<and> is_active (ss_db s1) i \<and> reaches us now (ss_db s1) fs"
      using db rec assms(2) by (cases x) auto
    then show ?thesis
      using r plan_carries[OF assms(1)] by (auto simp: outcome_reached_def handle_ok_def named)
  qed
qed


lemma held_handle_uncommitted_reaches:
  assumes p: "plan_ok p" and start: "reaches us now (ss_db s) (ceiling_flights now (hp_ceiling_held p) (plan_ids p) @ fs)"
    and w: "reaches us now w (plan_flights now p @ fs)"
    and new: "\<not> reservation_exists (ss_db s) i" "\<not> reservation_exists w i"
    and run: "held_handle_uncommitted now i p w s = (s', r)"
  shows "outcome_reached us now i fs s' r"
proof -
  have dist: "distinct (plan_ids p)" and pos: "0 \<le> hp_ceiling_held p" using p by (simp_all add: plan_ok_def)
  obtain w' x where pr: "plan_record now i p w = (w', x)" by (cases "plan_record now i p w")
  note rec = plan_record_reaches[OF p w new(2) pr]
  have w': "\<exists>gs. reaches us now w' (gs @ fs)"
    using rec w by (cases x) (auto intro: exI[of _ "[]"] exI[of _ "plan_flights now p"])
  obtain ok s1 where st: "statement s = (ok, s1)" by (cases "statement s")
  have db1: "ss_db s1 = ss_db s" using st by (rule statement_db)
  show ?thesis
  proof (cases ok)
    case False
    obtain ok2 s2 where st2: "statement s1 = (ok2, s2)" by (cases "statement s1")
    have db2: "ss_db s2 = ss_db s" using statement_db[OF st2] db1 by simp
    obtain s3 y where rel: "release now (plan_ids p) (hp_ceiling_held p) s2 = (s3, y)"
      by (cases "release now (plan_ids p) (hp_ceiling_held p) s2")
    have "\<exists>fs'. reaches us now (ss_db s3) (fs' @ fs)"
      using release_reaches[OF _ dist pos rel] start db2 by metis
    moreover have "\<exists>fs'. reaches us now (ss_db s2) (fs' @ fs)" using start db2 by auto
    ultimately show ?thesis
      using run pr st st2 False rel
      by (auto simp: held_handle_uncommitted_def outcome_reached_def split: if_splits)
  next
    case True
    obtain ok2 s2 where c: "commit_tx w' s1 = (ok2, s2)" by (cases "commit_tx w' s1")
    show ?thesis
    proof (cases ok2)
      case ok: True
      then have r: "s' = s2" "r = Inr (plan_handle p x)" and d: "ss_db s2 = w'"
        using run pr st True c commit_db[OF c] by (simp_all add: held_handle_uncommitted_def)
      show ?thesis
      proof (cases x)
        case None
        then show ?thesis
          using rec r d w plan_carries[OF p] by (auto simp: outcome_reached_def handle_ok_def)
      next
        case (Some j)
        then have j: "j = i" using rec by simp
        then show ?thesis using rec r d Some by (simp add: outcome_reached_def handle_ok_def)
      qed
    next
      case failed: False
      obtain ok3 s3 where st3: "statement s2 = (ok3, s3)" by (cases "statement s2")
      have db3: "ss_db s3 = w' \<or> ss_db s3 = ss_db s"
        using statement_db[OF st3] commit_db[OF c] db1 by auto
      obtain s4 y where ru: "release_unrecorded now i (hp_user_id p) (plan_ids p) (hp_ceiling_held p) s3 = (s4, y)"
        by (cases "release_unrecorded now i (hp_user_id p) (plan_ids p) (hp_ceiling_held p) s3")
      have three: "\<exists>gs. reaches us now (ss_db s3) (gs @ fs)" using db3 w' start by auto
      have four: "\<exists>gs. reaches us now (ss_db s4) (gs @ fs)" if "x = Some i"
      proof (cases "ss_db s3 = w'")
        case True
        have "reservation_exists w' i"
          using rec that by (auto simp: is_active_def reservation_exists_ids)
        then have "add_released now i (hp_user_id p) w' = Inl IntegrityError" by (simp add: add_released_def)
        then have "ss_db s4 = w'"
          using ru True by (auto simp: release_unrecorded_def split: prod.splits bool.splits dest: statement_db)
        then show ?thesis using w' by simp
      next
        case False
        then have s3: "ss_db s3 = ss_db s" using db3 by simp
        let ?d' = "(ss_db s)\<lparr>d_reservations := d_reservations (ss_db s) @ [released_row i (hp_user_id p) now]\<rparr>"
        have add: "add_released now i (hp_user_id p) (ss_db s) = Inr ?d'" using new(1) by (simp add: add_released_def)
        have "reaches us now (release_db now (plan_ids p) (hp_ceiling_held p) ?d') fs"
          using start step.release_unrecorded_row[of "\<lparr>p_now = now, p_db = ss_db s,
              p_flights = ceiling_flights now (hp_ceiling_held p) (plan_ids p) @ fs, p_unbacked = us\<rparr>"
              "ceiling_flights now (hp_ceiling_held p) (plan_ids p)" fs "plan_ids p" "hp_ceiling_held p"
              i "hp_user_id p" ?d'] add dist pos
          by (auto simp: reaches_def intro: reachable.step)
        moreover have "ss_db s4 = release_db now (plan_ids p) (hp_ceiling_held p) ?d' \<or> ss_db s4 = ss_db s"
          using ru s3 add
          by (auto simp: release_unrecorded_def split: prod.splits bool.splits sum.splits
              dest!: statement_db commit_db)
        ultimately show ?thesis using start by (metis append_Nil)
      qed
      have "x = None \<or> x = Some i" using rec by (cases x) auto
      then show ?thesis
        using run pr st True c failed st3 ru three four
        by (auto simp: held_handle_uncommitted_def outcome_reached_def split: if_splits)
    qed
  qed
qed


lemma hold_on_user_cases:
  assumes start: "reaches us now (ss_db s) (ceiling_flights now a (map ab_budget_id scoped) @ fs)"
    and ok: "distinct (map ab_budget_id scoped)" "0 \<le> a"
    and run: "hold_on_user now p a scoped s = (s1, x)"
  obtains (failed) "x = Inl DatabaseFailed" "\<exists>gs. reaches us now (ss_db s1) (gs @ fs)"
  | (held) "x = Inr (update_users p (touch_user now (hold_counters a)) (ss_db s),
        0 < rowcount p (d_users (ss_db s)))" "ss_db s1 = ss_db s"
proof -
  obtain b s0 where st: "statement s = (b, s0)" by (cases "statement s")
  have db: "ss_db s0 = ss_db s" using st by (rule statement_db)
  show ?thesis
  proof (cases b)
    case True
    then show ?thesis using run st db held by (simp add: hold_on_user_def)
  next
    case False
    obtain b2 s2 where st2: "statement s0 = (b2, s2)" by (cases "statement s0")
    have "\<exists>gs. reaches us now (ss_db (give_back now (map ab_budget_id scoped) a s0)) (gs @ fs)"
      using give_back_reaches[OF _ ok] start db by simp
    moreover have "\<exists>gs. reaches us now (ss_db s2) (gs @ fs)" using start db statement_db[OF st2] by auto
    ultimately show ?thesis
      using run st False st2 failed by (auto simp: hold_on_user_def split: if_splits)
  qed
qed

lemma refuse_user_reaches:
  assumes start: "reaches us now (ss_db s) (ceiling_flights now (request_hold rq usd) (map ab_budget_id scoped) @ fs)"
    and ok: "distinct (map ab_budget_id scoped)" "0 \<le> request_hold rq usd"
    and run: "refuse_user now rq b scoped usd (ss_db s) s = (s', r)"
  shows "\<exists>e. r = Inl e" "\<exists>gs. reaches us now (ss_db s') (gs @ fs)"
proof -
  obtain c s1 where c: "commit_tx (ss_db s) s = (c, s1)" by (cases "commit_tx (ss_db s) s")
  have db: "ss_db s1 = ss_db s" using commit_db[OF c] by auto
  obtain s2 x where rel: "release now (map ab_budget_id scoped) (request_hold rq usd) s1 = (s2, x)"
    by (cases "release now (map ab_budget_id scoped) (request_hold rq usd) s1")
  have two: "\<exists>gs. reaches us now (ss_db s2) (gs @ fs)"
    using release_reaches[OF _ ok rel] start db by metis
  show "\<exists>e. r = Inl e"
    using run c rel
    by (auto simp: refuse_user_def bind_run_def lift_run_def Let_def split: bool.splits sum.splits prod.splits)
  have "s' = s1 \<or> s' = s2"
    using run c rel
    by (auto simp: refuse_user_def bind_run_def lift_run_def Let_def split: bool.splits sum.splits prod.splits)
  then show "\<exists>gs. reaches us now (ss_db s') (gs @ fs)" using two start db by auto
qed

lemma bind_run_cases:
  assumes "bind_run m k s = (s', r)"
  obtains (raised) e where "m s = (s', Inl e)" "r = Inl e"
  | (went_on) s1 x where "m s = (s1, Inr x)" "k x s1 = (s', r)"
  using assms by (auto simp: bind_run_def split: prod.splits sum.splits)

lemma reservation_exists_users [simp]: "reservation_exists (update_users p f d) i = reservation_exists d i"
  by (simp add: reservation_exists_def update_users_def)

lemma hold_user_leg_reaches:
  assumes start: "reaches us now (ss_db s) (ceiling_flights now (request_hold rq usd) (map ab_budget_id scoped) @ fs)"
    and ok: "distinct (map ab_budget_id scoped)" "0 \<le> request_hold rq usd"
    and new: "\<not> reservation_exists (ss_db s) i"
    and user: "0 < rowcount (live_user (rq_user_id rq)) (d_users (ss_db s))"
    and run: "hold_user_leg now i rq budget scoped ceilings usd s = (s', r)"
  shows "outcome_reached us now i fs s' r"
proof (cases budget)
  case None
  let ?p = "plan_of rq scoped ceilings False 0 (request_hold rq usd)"
  have "plan_ok ?p" "plan_flights now ?p = ceiling_flights now (request_hold rq usd) (map ab_budget_id scoped)"
    using ok by (simp_all add: plan_ok_def plan_flights_def plan_of_def plan_ids_def)
  then show ?thesis
    using held_handle_committed_reaches[of ?p us now s fs i s' r] start new run None
    by (simp add: hold_user_leg_def Let_def)
next
  case (Some b)
  let ?a = "request_hold rq usd"
  let ?p = "plan_of rq scoped ceilings True ?a (ceiling_held scoped ?a)"
  have p: "plan_ok ?p"
    using ok by (simp add: plan_ok_def plan_of_def plan_ids_def ceiling_held_def)
  have cf: "ceiling_flights now (hp_ceiling_held ?p) (plan_ids ?p) =
      ceiling_flights now ?a (map ab_budget_id scoped)"
    by (simp add: plan_of_def plan_ids_def ceiling_held_def)
  have pf: "plan_flights now ?p = user_flight now ?a (rq_user_id rq) #
      ceiling_flights now ?a (map ab_budget_id scoped)"
    using cf by (simp add: plan_flights_def) (simp add: plan_of_def)
  have matched: "outcome_reached us now i fs s' r"
    if q: "\<And>u. q u \<Longrightarrow> live_user (rq_user_id rq) u" and m: "0 < rowcount q (d_users (ss_db s))"
      and db: "ss_db s1 = ss_db s"
      and h: "held_handle_uncommitted now i ?p (update_users q (touch_user now (hold_counters ?a)) (ss_db s)) s1
        = (s', r)" for q s1
  proof (rule held_handle_uncommitted_reaches[OF p _ _ _ _ h])
    show "reaches us now (ss_db s1) (ceiling_flights now (hp_ceiling_held ?p) (plan_ids ?p) @ fs)"
      using start db by (simp only: cf)
    show "reaches us now (update_users q (touch_user now (hold_counters ?a)) (ss_db s)) (plan_flights now ?p @ fs)"
      using reaches_hold_user[OF start q ok(2) m] by (simp add: pf)
  qed (use new db in simp_all)
  show ?thesis
  proof (cases "b_max_budget b = None \<and> b_token_limit b = None \<and> b_request_limit b = None")
    case True
    then have "bind_run (hold_on_user now (live_user (rq_user_id rq)) ?a scoped)
        (\<lambda>(w, _). held_handle_uncommitted now i ?p w) s = (s', r)"
      using run Some by (simp add: hold_user_leg_def Let_def)
    then show ?thesis
    proof (cases rule: bind_run_cases)
      case (raised e)
      show ?thesis
        by (rule hold_on_user_cases[OF start ok raised(1)]) (use raised(2) in \<open>simp_all add: outcome_reached_def\<close>)
    next
      case (went_on s1 x)
      show ?thesis
        by (rule hold_on_user_cases[OF start ok went_on(1)]) (use went_on(2) matched[OF _ user] in simp_all)
    qed
  next
    case False
    let ?q = "user_gate b rq usd"
    have q: "\<And>u. ?q u \<Longrightarrow> live_user (rq_user_id rq) u" by (simp add: user_gate_def)
    have "bind_run (hold_on_user now ?q ?a scoped)
        (\<lambda>(w, matched). if matched then held_handle_uncommitted now i ?p w
          else refuse_user now rq b scoped usd w) s = (s', r)"
      using run Some False unfolding hold_user_leg_def Let_def by auto
    then show ?thesis
    proof (cases rule: bind_run_cases)
      case (raised e)
      show ?thesis
        by (rule hold_on_user_cases[OF start ok raised(1)]) (use raised(2) in \<open>simp_all add: outcome_reached_def\<close>)
    next
      case (went_on s1 x)
      show ?thesis
      proof (rule hold_on_user_cases[OF start ok went_on(1)])
        assume x: "(Inr x :: reserve_error + (db \<times> bool)) =
            Inr (update_users ?q (touch_user now (hold_counters ?a)) (ss_db s), 0 < rowcount ?q (d_users (ss_db s)))"
          and db: "ss_db s1 = ss_db s"
        show ?thesis
        proof (cases "0 < rowcount ?q (d_users (ss_db s))")
          case True
          then show ?thesis using went_on(2) x db matched[OF q] by simp
        next
          case False
          then have "refuse_user now rq b scoped usd (ss_db s1) s1 = (s', r)"
            using went_on(2) x db update_users_none[of ?q "ss_db s"] by simp
          note refused = refuse_user_reaches[OF _ ok this, unfolded db, OF start]
          show ?thesis using refused by (auto simp: outcome_reached_def)
        qed
      qed (use went_on in simp)
    qed
  qed
qed


section \<open>Admission\<close>

text \<open>What the steps before the per-user leg leave for it: the ids of the rows and the live user.\<close>

definition same_base :: "db \<Rightarrow> db \<Rightarrow> bool" where
  "same_base d d' \<longleftrightarrow>
     map rv_id (d_reservations d') = map rv_id (d_reservations d) \<and>
     map (\<lambda>u. (u_user_id u, u_deleted u)) (d_users d') = map (\<lambda>u. (u_user_id u, u_deleted u)) (d_users d)"

lemma same_base_refl [simp]: "same_base d d"
  by (simp add: same_base_def)

lemma same_base_trans: "same_base d e \<Longrightarrow> same_base e f \<Longrightarrow> same_base d f"
  by (simp add: same_base_def)

lemma same_base_exists: "same_base d d' \<Longrightarrow> reservation_exists d' i = reservation_exists d i"
  by (simp add: same_base_def reservation_exists_ids del: set_map)

lemma live_keys:
  "0 < rowcount (live_user i) (d_users d) \<longleftrightarrow> (i, False) \<in> set (map (\<lambda>u. (u_user_id u, u_deleted u)) (d_users d))"
  by (auto simp: rowcount_pos_iff live_user_def image_iff)

lemma same_base_live:
  "same_base d d' \<Longrightarrow> 0 < rowcount (live_user i) (d_users d) \<Longrightarrow> 0 < rowcount (live_user i) (d_users d')"
  unfolding live_keys same_base_def by metis

lemma same_base_ceilings: "same_but_ceilings d d' \<Longrightarrow> same_base d d'"
  by (simp add: same_but_ceilings_def same_base_def)

lemma same_base_steps [simp]:
  "same_base d (set_status i x y d)"
  "same_base d (release_db now ids a d)"
  "same_base d (update_live_user now i f d)"
  by (simp_all add: same_base_def update_live_user_def update_users_def map_update_where touch_user_def
      set_status_tables(7))

lemma same_base_fold: "same_base d (fold (\<lambda>(held, ids). release_db now ids held) gs d)"
proof (induction gs arbitrary: d)
  case (Cons g gs)
  show ?case using same_base_trans[OF same_base_steps(2) Cons] by (cases g) simp
qed simp

lemma same_base_reclaim_one: "same_base d (fst (reclaim_one now r d))"
proof -
  have "same_base e (release_user_leg now r e)" for e by (simp add: release_user_leg_def)
  then have holds: "same_base e (release_reservation_holds now r e)" for e
    unfolding release_reservation_holds_def Let_def by (rule same_base_trans[OF _ same_base_fold])
  show ?thesis
    unfolding reclaim_one_won by (simp add: same_base_trans[OF same_base_steps(1) holds])
qed

lemma reclaim_rows_run_reaches:
  assumes "reaches us now (ss_db s) fs"
    and "\<And>r. r \<in> set rs \<Longrightarrow> \<exists>x \<in> set (d_reservations (ss_db s)). snapshot_of x r"
    and "reclaim_rows_run now rs s = (s', res)"
  shows "reaches us now (ss_db s') fs \<and> same_base (ss_db s) (ss_db s')"
  using assms
proof (induction rs arbitrary: s)
  case (Cons r rs)
  obtain s1 y where tr: "transact (\<lambda>d. fst (reclaim_one now r d)) s = (s1, y)"
    by (cases "transact (\<lambda>d. fst (reclaim_one now r d)) s")
  obtain x where x: "x \<in> set (d_reservations (ss_db s))" "snapshot_of x r" using Cons.prems(2)[of r] by auto
  let ?d = "fst (reclaim_one now r (ss_db s))"
  have "reaches us now ?d fs"
    using Cons.prems(1) step.reclaim_row[of x r "\<lparr>p_now = now, p_db = ss_db s, p_flights = fs, p_unbacked = us\<rparr>"] x
    by (auto simp: reaches_def intro: reachable.step)
  then have one: "reaches us now (ss_db s1) fs" "same_base (ss_db s) (ss_db s1)"
    using transact_db[OF tr] Cons.prems(1) same_base_reclaim_one[of "ss_db s" now r] by auto
  have snap: "\<exists>x \<in> set (d_reservations (ss_db s1)). snapshot_of x z" if "z \<in> set rs" for z
    using Cons.prems(2)[of z] that transact_db[OF tr] reclaim_one_rows by fastforce
  have run: "bind_run (transact_run (\<lambda>d. fst (reclaim_one now r d))) (\<lambda>_. reclaim_rows_run now rs) s = (s', res)"
    using Cons.prems(3) by simp
  then show ?case
  proof (cases rule: bind_run_cases)
    case (raised e)
    then have "s' = s1" using tr by (auto simp: transact_run_def lift_run_def split: sum.splits)
    then show ?thesis using one by simp
  next
    case (went_on s2 u)
    then have "s2 = s1" using tr by (auto simp: transact_run_def lift_run_def split: sum.splits)
    then show ?thesis using Cons.IH[OF one(1) snap] went_on(2) same_base_trans[OF one(2)] by simp
  qed
qed simp

lemma reclaim_run_reaches:
  assumes "reaches us now (ss_db s) fs" "reclaim_run now u s = (s', res)"
  shows "reaches us now (ss_db s') fs \<and> same_base (ss_db s) (ss_db s')"
  using reclaim_rows_run_reaches[OF assms(1) list_expired_snapshots[OF reaches_wf[OF assms(1)]]] assms(2)
  by (simp add: reclaim_run_def)

lemma hold_ceilings_reaches:
  assumes start: "reaches us now (ss_db s) fs"
    and ok: "distinct (map ab_budget_id scoped)" "0 \<le> request_hold rq usd"
    and run: "hold_ceilings now rq scoped usd s = (s', r)"
  shows "\<exists>gs. reaches us now (ss_db s') (gs @ fs)"
    and "r = Inr () \<Longrightarrow> reaches us now (ss_db s')
      (ceiling_flights now (request_hold rq usd) (map ab_budget_id scoped) @ fs)"
    and "same_base (ss_db s) (ss_db s')"
proof -
  obtain s1 x where res: "reserve now scoped usd (held_token_count rq) (held_request_count rq)
      (rq_new_request rq) s = (s1, x)"
    by (cases "reserve now scoped usd (held_token_count rq) (held_request_count rq) (rq_new_request rq) s")
  note reach = reserve_reaches[OF start ok(2)[unfolded request_hold_def] ok(1) res]
  have inv: "held_nonneg (ceiling_counters (ss_db s))" "keys_unique (ss_db s)"
    using reachable_holds_inv start by (fastforce simp: reaches_def holds_inv_def wf_ledger_def)+
  have base: "same_base (ss_db s) (ss_db s1)"
    using reserve_outcome[OF res _ inv ok(1)] ok(2) by (simp add: request_hold_def same_base_ceilings outcome_ok_def)
  show "\<exists>gs. reaches us now (ss_db s') (gs @ fs)" "same_base (ss_db s) (ss_db s')"
    "r = Inr () \<Longrightarrow> reaches us now (ss_db s')
      (ceiling_flights now (request_hold rq usd) (map ab_budget_id scoped) @ fs)"
    using run res reach base start append_Nil[of fs]
    by (auto simp: hold_ceilings_def bind_run_def lift_run_def request_hold_def Let_def
        split: if_splits sum.splits option.splits) (metis append_Nil)+
qed


lemma request_hold_nonneg: "0 \<le> request_hold rq (if free then None else Some (held_usd rq))"
  by (simp add: request_hold_def hold_of_def held_usd_def held_token_count_def held_request_count_def
      amount_le_iff MAX_COUNT_LIMIT_def)

lemma admit_reaches:
  assumes start: "reaches us now (ss_db s) fs"
    and ok: "distinct (map ab_budget_id scoped)"
    and new: "\<not> reservation_exists (ss_db s) i"
    and user: "0 < rowcount (live_user (rq_user_id rq)) (d_users (ss_db s))"
    and run: "admit now i is_free rq u budget ceilings scoped s = (s', r)"
  shows "outcome_reached us now i fs s' r"
proof -
  define usd where "usd = (if model_is_free is_free rq then None else Some (held_usd rq))"
  have pos: "0 \<le> request_hold rq usd" unfolding usd_def by (rule request_hold_nonneg)
  define m where "m = (if rq_record rq \<and> \<not> (budget \<noteq> None \<and> holds_nothing u)
    then reclaim_run now (rq_user_id rq) else return_run ())"
  have m: "reaches us now (ss_db s1) fs \<and> same_base (ss_db s) (ss_db s1)" if "m s = (s1, y)" for s1 y
    using that reclaim_run_reaches[OF start] start by (auto simp: m_def split: if_splits)
  have empty: "outcome_reached us now i fs s (Inr (empty_handle x st c ttl cs))" for x st c ttl cs
    unfolding outcome_reached_def handle_ok_def sum.case
    using start by (auto simp: empty_handle_def carries_def scoped_budget_ids_def intro!: exI[of _ "[]"])
  consider (nothing) "s' = s" "\<exists>st ttl. r = Inr (empty_handle (rq_user_id rq) st True ttl ceilings)"
    | (held) "bind_run m (\<lambda>_. bind_run (hold_ceilings now rq scoped usd)
        (\<lambda>_. hold_user_leg now i rq budget scoped ceilings usd)) s = (s', r)"
    using run by (auto simp: admit_def Let_def usd_def m_def split: if_splits)
  then show ?thesis
  proof cases
    case nothing
    then show ?thesis using empty by auto
  next
    case held
    then show ?thesis
    proof (cases rule: bind_run_cases)
      case (raised e)
      then show ?thesis using m[OF raised(1)] append_Nil[of fs]
        by (auto simp: outcome_reached_def intro: exI[of _ "[]"])
    next
      case (went_on s1 y)
      note s1 = m[OF went_on(1)]
      from went_on(2) show ?thesis
      proof (cases rule: bind_run_cases)
        case (raised e)
        then show ?thesis
          using hold_ceilings_reaches(1)[OF s1[THEN conjunct1] ok pos raised(1)]
          by (simp add: outcome_reached_def)
      next
        case (went_on s2 z)
        note s2 = hold_ceilings_reaches[OF s1[THEN conjunct1] ok pos went_on(1)]
        have base: "same_base (ss_db s) (ss_db s2)" using s1 s2(3) same_base_trans by blast
        show ?thesis
          by (rule hold_user_leg_reaches[OF s2(2) ok pos _ same_base_live[OF base user] went_on(2)])
             (simp_all add: same_base_exists[OF base] new)
      qed
    qed
  qed
qed

section \<open>Windows\<close>

lemma roll_ended_windows_reaches:
  "reaches us (timestamp now) d fs \<Longrightarrow>
     reaches us (timestamp now) (roll_ended_windows now cs d) fs \<and> same_base d (roll_ended_windows now cs d)"
proof (induction now cs d rule: roll_ended_windows.induct)
  case (2 now c cs d)
  show ?case
  proof (cases "ended now c")
    case True
    show ?thesis
    proof (cases "period_window now (ac_duration_sec c) (ac_reset_alignment c)")
      case (Inr w)
      obtain start finish where w: "(case w of Some (s, e) \<Rightarrow> (s, Some e) | None \<Rightarrow> (timestamp now, None)) =
          (start, finish)" by (cases "case w of Some (s, e) \<Rightarrow> (s, Some e) | None \<Rightarrow> (timestamp now, None)")
      let ?d = "roll_period (timestamp now) (ac_id c) start finish d"
      have "reaches us (timestamp now) ?d fs"
        using "2.prems" step.roll_ceiling[of "\<lparr>p_now = timestamp now, p_db = d, p_flights = fs, p_unbacked = us\<rparr>"
            "ac_id c" start finish]
        by (auto simp: reaches_def intro: reachable.step)
      moreover have "same_base d ?d" by (simp add: same_base_def roll_period_def update_scoped_def)
      ultimately show ?thesis
        using "2.IH"(3)[OF _ Inr w[symmetric] refl] True Inr w same_base_trans by auto
    qed (use 2 True in simp)
  qed (use 2 in simp)
qed simp


lemma roll_and_list_reaches:
  assumes "reaches us (timestamp now) (ss_db s) fs" "roll_and_list_applicable now cs s = (s', r)"
  shows "reaches us (timestamp now) (ss_db s') fs" "same_base (ss_db s) (ss_db s')"
    "\<And>bs. r = Inr bs \<Longrightarrow> bs = map to_applicable_budget cs"
proof -
  note roll = roll_ended_windows_reaches[OF assms(1), of cs]
  obtain s1 x where tr: "transact (roll_ended_windows now cs) s = (s1, x)"
    by (cases "transact (roll_ended_windows now cs) s")
  have s1: "reaches us (timestamp now) (ss_db s1) fs" "same_base (ss_db s) (ss_db s1)"
    using transact_db[OF tr] roll assms(1) by auto
  show "reaches us (timestamp now) (ss_db s') fs" "same_base (ss_db s) (ss_db s')"
    "\<And>bs. r = Inr bs \<Longrightarrow> bs = map to_applicable_budget cs"
    using assms tr s1 by (auto simp: roll_and_list_applicable_def split: if_splits sum.splits)
qed

lemma list_applicable_distinct:
  assumes "keys_unique d"
  shows "distinct (map ac_id (list_applicable d scopes))"
proof -
  have "distinct (map s_id rows) \<Longrightarrow>
      distinct (map (s_id \<circ> fst) (List.map_filter (\<lambda>r. map_option (\<lambda>b. (r, b)) (budget_of d r)) rows)) \<and>
      (s_id \<circ> fst) ` set (List.map_filter (\<lambda>r. map_option (\<lambda>b. (r, b)) (budget_of d r)) rows)
        \<subseteq> s_id ` set rows" for rows
    by (induction rows) (auto simp: List.map_filter_simps split: option.splits)
  then have "distinct (map (s_id \<circ> fst) (filter p (joined d)))" for p
    using assms unfolding joined_def keys_unique_def by (intro distinct_map_filter) simp
  then show ?thesis by (simp add: list_applicable_def comp_def case_prod_beta)
qed

lemma get_provider_ceilings_distinct:
  assumes "distinct (map ac_id cs)"
  shows "distinct (map ab_budget_id (map to_applicable_budget (get_provider_ceilings cs provider)))"
proof -
  have "ab_budget_id \<circ> to_applicable_budget = ac_id" by (simp add: fun_eq_iff to_applicable_budget_def)
  moreover have "distinct (map ac_id (sort_key reservation_key (filter p cs)))" for p
    using assms by (simp add: distinct_map inj_on_def)
  ultimately show ?thesis by (simp add: get_provider_ceilings_def)
qed

lemma resolve_ceilings_reaches:
  assumes start: "reaches us (timestamp now) (ss_db s) fs" and run: "resolve_ceilings now rq s = (s', r)"
  shows "reaches us (timestamp now) (ss_db s') fs" "same_base (ss_db s) (ss_db s')"
    "\<And>cs bs. r = Inr (cs, bs) \<Longrightarrow> distinct (map ab_budget_id bs)"
proof -
  have keys: "keys_unique (ss_db s)" using reaches_wf[OF start] by (simp add: wf_ledger_def)
  have "reaches us (timestamp now) (ss_db s') fs \<and> same_base (ss_db s) (ss_db s') \<and>
      (\<forall>cs bs. r = Inr (cs, bs) \<longrightarrow> distinct (map ab_budget_id bs))"
  proof (cases "rq_scope rq")
    case None
    then show ?thesis using start run by (auto simp: resolve_ceilings_def)
  next
    case (Some sp)
    obtain scopes provider where sp: "sp = (scopes, provider)" by (cases sp)
    let ?cs = "list_applicable (ss_db s) scopes"
    obtain s1 x where l: "roll_and_list_applicable now (get_provider_ceilings ?cs provider) s = (s1, x)"
      by (cases "roll_and_list_applicable now (get_provider_ceilings ?cs provider) s")
    note one = roll_and_list_reaches[OF start l]
    have "s' = s1" "r = (case x of Inl _ \<Rightarrow> Inl DatabaseFailed | Inr bs \<Rightarrow> Inr (?cs, bs))"
      using run Some sp l
      by (auto simp: resolve_ceilings_def Let_def bind_run_def lift_run_def split: sum.splits)
    then show ?thesis
      using one get_provider_ceilings_distinct[OF list_applicable_distinct[OF keys]]
      by (auto split: sum.splits)
  qed
  then show "reaches us (timestamp now) (ss_db s') fs" "same_base (ss_db s) (ss_db s')"
    "\<And>cs bs. r = Inr (cs, bs) \<Longrightarrow> distinct (map ab_budget_id bs)" by blast+
qed

lemma cas_reset_user_budget_reaches:
  assumes start: "reaches us (timestamp now) (ss_db s) fs" and run: "cas_reset_user_budget now u b s = (s', r)"
  shows "reaches us (timestamp now) (ss_db s') fs \<and> same_base (ss_db s) (ss_db s')"
proof (cases "budget_window now b")
  case (Inl e)
  then show ?thesis using start run by (cases e) (simp add: cas_reset_user_budget_def)
next
  case (Inr w)
  obtain a z where az: "(case w of Some (a, b) \<Rightarrow> (a, Some b) | None \<Rightarrow> (timestamp now, None)) = (a, z)"
    by (cases "case w of Some (a, b) \<Rightarrow> (a, Some b) | None \<Rightarrow> (timestamp now, None)")
  obtain ok s1 where st: "statement s = (ok, s1)" by (cases "statement s")
  have db1: "ss_db s1 = ss_db s" using st by (rule statement_db)
  obtain d1 won where cas: "cas_reset (timestamp now) (u_user_id u) a z (ss_db s) = (d1, won)"
    by (cases "cas_reset (timestamp now) (u_user_id u) a z (ss_db s)")
  have reset: "reaches us (timestamp now) (d1\<lparr>d_reset_logs := logs\<rparr>) fs" for logs
    using start cas step.reset_user[where s = "\<lparr>p_now = timestamp now, p_db = ss_db s, p_flights = fs, p_unbacked = us\<rparr>"
        and u = "u_user_id u" and start = a and finish = z and logs = logs]
    by (auto simp: reaches_def intro: reachable.step)
  have base: "same_base (ss_db s) (d1\<lparr>d_reset_logs := logs\<rparr>)" for logs
    using cas by (auto simp: same_base_def cas_reset_def Let_def update_users_def map_update_where touch_user_def)
  define d2 where "d2 = (if won then d1\<lparr>d_reset_logs := d_reset_logs d1 @
      [\<lparr>rl_user_id = u_user_id u, rl_budget_id = b_budget_id b,
        rl_previous_spend = ha_amount (c_used (u_counters u)), rl_reset_at = timestamp now,
        rl_next_reset_at = z\<rparr>]\<rparr> else d1)"
  have d2: "reaches us (timestamp now) d2 fs" "same_base (ss_db s) d2"
    using reset[of "d_reset_logs d1"] reset base[of "d_reset_logs d1"] base by (simp_all add: d2_def)
  obtain ok2 s2 where c: "commit_tx d2 s1 = (ok2, s2)" by (cases "commit_tx d2 s1")
  have s2: "reaches us (timestamp now) (ss_db s2) fs \<and> same_base (ss_db s) (ss_db s2)"
    using commit_db[OF c] d2 start db1 by auto
  have "ss_db s' = ss_db s1 \<or> ss_db s' = ss_db s2"
    using run Inr az st cas db1 c
    by (auto simp: cas_reset_user_budget_def Let_def d2_def split: bool.splits option.splits if_splits)
  then show ?thesis using s2 start db1 by auto
qed

lemma refresh_window_reaches:
  assumes "reaches us (timestamp now) (ss_db s) fs" "refresh_window now u budget s = (s', r)"
  shows "reaches us (timestamp now) (ss_db s') fs \<and> same_base (ss_db s) (ss_db s')"
  using assms cas_reset_user_budget_reaches
  by (auto simp: refresh_window_def split: option.splits if_splits)

section \<open>Properties\<close>

text \<open>
  \<^bold>\<open>C2\<close>: \<open>reserve_budget\<close> is a run of protocol steps under any failures of the database. From a
  reachable state it leaves a reachable one, with no new unbacked release. A handle with a ledger id names an
  active row that records exactly the handle's holds, and nothing else is in flight for it. A handle without
  one carries its holds in flight; or, when the commit of its row landed though it reported failure, the row
  it does not name is active and records exactly its holds. After an error, at worst holds are left in
  flight for the sweep.
\<close>

theorem reserve_budget_refines_protocol:
  assumes "reaches us (timestamp now) (ss_db s) fs" and "\<not> reservation_exists (ss_db s) new_id"
    and "reserve_budget now new_id is_free rq s = (s', r)"
  shows "case r of
      Inr h \<Rightarrow>
        (case h_reservation_id h of
           Some i \<Rightarrow> i = new_id \<and> handle_agrees h i (ss_db s') \<and> is_active (ss_db s') i \<and>
             reaches us (timestamp now) (ss_db s') fs
         | None \<Rightarrow> (\<exists>fs'. reaches us (timestamp now) (ss_db s') (fs' @ fs) \<and> carries fs' h)
             \<or> handle_agrees (h\<lparr>h_reservation_id := Some new_id\<rparr>) new_id (ss_db s')
               \<and> is_active (ss_db s') new_id \<and> reaches us (timestamp now) (ss_db s') fs)
    | Inl _ \<Rightarrow> \<exists>fs'. reaches us (timestamp now) (ss_db s') (fs' @ fs)"
proof -
  have empty: "outcome_reached us (timestamp now) new_id fs s (Inr (empty_handle x st c ttl cs))" for x st c ttl cs
    unfolding outcome_reached_def handle_ok_def sum.case
    using assms(1) by (auto simp: empty_handle_def carries_def scoped_budget_ids_def intro!: exI[of _ "[]"])
  have stay: "outcome_reached us (timestamp now) new_id fs s (Inl e)" for e
    using assms(1) append_Nil[of fs] by (simp add: outcome_reached_def) (metis append_Nil)
  have "outcome_reached us (timestamp now) new_id fs s' r"
  proof (cases "active_user_with_budget (ss_db s) (rq_user_id rq)")
    case None
    then show ?thesis using assms(3) stay by (auto simp: reserve_budget_def)
  next
    case (Some ub)
    obtain user budget where ub: "ub = (user, budget)" by (cases ub)
    have live: "0 < rowcount (live_user (rq_user_id rq)) (d_users (ss_db s))"
      using Some by (auto simp: active_user_with_budget_def get_active_user_def rowcount_pos_iff
          dest!: find_key_Some_D)
    show ?thesis
    proof (cases "u_blocked user \<or> \<not> rq_counts rq \<or> normalize_strategy (rq_strategy rq) = Disabled")
      case True
      then show ?thesis
        using assms(3) Some ub stay empty by (auto simp: reserve_budget_def Let_def split: if_splits)
    next
      case False
      then have "bind_run (refresh_window now user budget)
          (\<lambda>user'. bind_run (resolve_ceilings now rq)
            (\<lambda>(ceilings, scoped). admit (timestamp now) new_id is_free rq user' budget ceilings scoped)) s = (s', r)"
        using assms(3) Some ub by (simp add: reserve_budget_def Let_def)
      then show ?thesis
      proof (cases rule: bind_run_cases)
        case (raised e)
        then show ?thesis
          using refresh_window_reaches[OF assms(1) raised(1)] by (auto simp: outcome_reached_def intro: exI[of _ "[]"])
      next
        case (went_on s1 user')
        note one = refresh_window_reaches[OF assms(1) went_on(1)]
        from went_on(2) show ?thesis
        proof (cases rule: bind_run_cases)
          case (raised e)
          then show ?thesis
            using resolve_ceilings_reaches(1)[OF one[THEN conjunct1] raised(1)]
            by (auto simp: outcome_reached_def intro: exI[of _ "[]"])
        next
          case (went_on s2 cs)
          obtain ceilings scoped where cs: "cs = (ceilings, scoped)" by (cases cs)
          note two = resolve_ceilings_reaches[OF one[THEN conjunct1] went_on(1)]
          have base: "same_base (ss_db s) (ss_db s2)" using one two(2) same_base_trans by blast
          show ?thesis
            by (rule admit_reaches[OF two(1) two(3)[OF arg_cong[of _ _ Inr, OF cs]] _ same_base_live[OF base live]])
               (use went_on(2) cs same_base_exists[OF base] assms(2) in simp_all)
        qed
      qed
    qed
  qed
  then show ?thesis by (simp add: outcome_reached_def handle_ok_def split: sum.splits)
qed


definition sample_request :: reserve_request where
  "sample_request =
     \<lparr>rq_user_id = ''u'', rq_estimate = 2, rq_model = None, rq_tokens = 3, rq_requests = 1,
      rq_new_request = True, rq_strategy = None, rq_counts = True,
      rq_scope = Some (\<lparr>si_organization_ids = [''x''], si_workspace_ids = [],
        si_organization_member_ids = [], si_workspace_member_ids = [], si_api_key_ids = [''x'']\<rparr>, None),
      rq_model_is_free = None, rq_ttl_sec = 900, rq_record = True, rq_output_tokens = None\<rparr>"

definition sample_now :: datetime where
  "sample_now =
     \<lparr>dt_year = 2026, dt_month = 1, dt_day = 15, dt_hour = 12, dt_minute = 0, dt_second = 0,
      dt_microsecond = 0\<rparr>"

text \<open>A request held on two ceilings and the user, whose commit lands and reports failure.\<close>

theorem reserve_budget_refines_protocol_witness:
  "\<exists>fs. reaches [] (timestamp sample_now) (ss_db (fst (reserve_budget sample_now ''r'' (\<lambda>_. False) sample_request
     \<lparr>ss_db = sample_db, ss_script = [Succeeds, Succeeds, Succeeds, Succeeds, Succeeds, FailsLanded]\<rparr>))) fs"
proof -
  let ?s = "\<lparr>ss_db = sample_db, ss_script = [Succeeds, Succeeds, Succeeds, Succeeds, Succeeds, FailsLanded]\<rparr>"
  obtain s' r where e: "reserve_budget sample_now ''r'' (\<lambda>_. False) sample_request ?s = (s', r)"
    by (cases "reserve_budget sample_now ''r'' (\<lambda>_. False) sample_request ?s")
  have "initial \<lparr>p_now = timestamp sample_now, p_db = ss_db ?s, p_flights = [], p_unbacked = []\<rparr>"
    by (simp add: initial_def sample_db_ok) (simp add: sample_db_def)
  then have began: "reaches [] (timestamp sample_now) (ss_db ?s) []" unfolding reaches_def by (rule start)
  have new: "\<not> reservation_exists (ss_db ?s) ''r''"
    by (simp add: sample_db_def reservation_exists_def)
  show ?thesis
    using reserve_budget_refines_protocol[OF began new e]
    by (cases r) (auto simp: e split: option.splits)
qed

section \<open>The handle of a row whose commit landed and failed\<close>

text \<open>
  \<open>held_handle_committed\<close> takes a failed commit for a row that was not written. When it landed,
  the handle settles without its row and the sweep releases the same holds once more, here the two
  micro-dollars another request holds on the key.
\<close>

definition sample_unbudgeted :: db where
  "sample_unbudgeted = sample_db\<lparr>d_users :=
     [(sample_user ''u'' (sample_counters 0 0))\<lparr>u_budget_id := None\<rparr>]\<rparr>"

definition sample_landed :: "session \<times> (reserve_error + ReservationHandle)" where
  "sample_landed = reserve_budget sample_now ''r'' (\<lambda>_. False) sample_request
     \<lparr>ss_db = sample_unbudgeted,
      ss_script = [Succeeds, Succeeds, Succeeds, Succeeds, Succeeds, FailsLanded]\<rparr>"

definition sample_swept :: "session \<times> (reserve_error + ReservationHandle) \<Rightarrow> db" where
  "sample_swept p =
     (case snd p of
        Inl _ \<Rightarrow> ss_db (fst p)
      | Inr h \<Rightarrow> fst (sweep_expired (timestamp sample_now + 900000001) 5
          (refund_db (timestamp sample_now) h (ss_db (fst p)))))"

lemma landed_row_released_twice:
  "ceiling_counters sample_unbudgeted ''k'' = Some (sample_counters 3 2)"
  "ceiling_counters (sample_swept sample_landed) ''k'' = Some (sample_counters 3 0)"
  by code_simp+

end
