(* ===== verification/Metered_Pricing.thy ===== *)
theory Metered_Pricing
  imports Prelude Price_Units
begin

text \<open>
  \<open>core/metered_pricing.py\<close>, with the usage readers of \<open>core/usage.py\<close> and the units of
  \<open>types/price_unit.py\<close>: the arithmetic every cost of the gateway goes through.

  Decimal arithmetic is exact here (\<open>rat\<close>); the 28-digit context of Python's \<open>decimal\<close> is
  wider than any product of a token count and a stored rate. The \<open>float\<close> narrowing of a charge
  line (a display value) is left out: a line carries the exact number. Log messages are left out.

  Shown here: the readings of a stored value never yield a negative or non-finite rate; the
  billable meters are consistent; each input token is billed under exactly one meter; a tier
  applies exactly when its bound is reached; the pre-dispatch estimate bounds the settled cost.
\<close>

section \<open>Stored values\<close>

text \<open>
  A stored rate or bound as Python reads it. \<open>PyFloat\<close> carries the float's shortest decimal
  representation (\<open>str(value)\<close>); \<open>PyStr\<close> carries what \<open>int\<close> and \<open>Decimal\<close> read the string as,
  \<open>None\<close> where they raise.
\<close>

datatype decimal = DFin rat | DNaN | DInf

datatype pyval =
    PyNone
  | PyBool bool
  | PyDecimal decimal
  | PyInt int
  | PyFloat decimal
  | PyStr "int option" "decimal option"
  | PyOther

datatype price_error = ValueError string | OverflowError

fun usable :: "decimal \<Rightarrow> rat option" where
  "usable (DFin x) = (if 0 \<le> x then Some x else None)"
| "usable DNaN = None"
| "usable DInf = None"

fun to_decimal :: "pyval \<Rightarrow> rat option" where
  "to_decimal PyNone = None"
| "to_decimal (PyBool b) = None"
| "to_decimal (PyDecimal d) = usable d"
| "to_decimal (PyInt i) = usable (DFin (of_int i))"
| "to_decimal (PyFloat d) = usable d"
| "to_decimal (PyStr i d) = (case d of None \<Rightarrow> None | Some x \<Rightarrow> usable x)"
| "to_decimal PyOther = None"

lemma usable_nonneg: "usable d = Some x \<Longrightarrow> 0 \<le> x"
  by (cases d) (auto split: if_splits)

lemma to_decimal_nonneg: "to_decimal v = Some x \<Longrightarrow> 0 \<le> x"
  by (cases v) (auto split: option.splits if_splits dest: usable_nonneg)

section \<open>Rounding\<close>

text \<open>\<open>ROUND_HALF_UP\<close>: half away from zero.\<close>

definition round_half_up :: "rat \<Rightarrow> int" where
  "round_half_up x = (if 0 \<le> x then \<lfloor>x + 1/2\<rfloor> else - \<lfloor>- x + 1/2\<rfloor>)"

definition quantize_micros :: "rat \<Rightarrow> usd" where
  "quantize_micros x = round_half_up (x * 1000000)"

definition quantize_cost :: "rat \<Rightarrow> rat" where
  "quantize_cost x = of_int (quantize_micros x) / 1000000"

definition quantize_rate :: "rat \<Rightarrow> rat" where
  "quantize_rate x = of_int (round_half_up (x * 100000000)) / 100000000"

lemma round_half_up_of_int [simp]: "round_half_up (of_int i) = i"
proof (cases "0 \<le> i")
  case True
  then show ?thesis by (simp add: round_half_up_def floor_eq_iff)
next
  case False
  then have "\<lfloor>- of_int i + 1/2 :: rat\<rfloor> = - i" by (simp add: floor_eq_iff)
  with False show ?thesis by (simp add: round_half_up_def)
qed

lemma round_half_up_mono: "0 \<le> x \<Longrightarrow> x \<le> y \<Longrightarrow> round_half_up x \<le> round_half_up y"
  by (auto simp: round_half_up_def intro: floor_mono)

lemma round_half_up_nonneg: "0 \<le> x \<Longrightarrow> 0 \<le> round_half_up x"
  by (simp add: round_half_up_def)

lemma round_half_up_close: "\<bar>of_int (round_half_up x) - x\<bar> \<le> 1/2"
proof (cases "0 \<le> x")
  case True
  define f where "f = (of_int \<lfloor>x + 1/2\<rfloor> :: rat)"
  have "f \<le> x + 1/2" unfolding f_def by (rule of_int_floor_le)
  moreover have "x + 1/2 < f + 1"
    unfolding f_def by (rule floor_correct[THEN conjunct2, unfolded of_int_add of_int_1])
  moreover have "of_int (round_half_up x) = f" using True by (simp add: round_half_up_def f_def)
  ultimately show ?thesis by (simp only: abs_le_iff) linarith
next
  case False
  define f where "f = (of_int \<lfloor>- x + 1/2\<rfloor> :: rat)"
  have "f \<le> - x + 1/2" unfolding f_def by (rule of_int_floor_le)
  moreover have "- x + 1/2 < f + 1"
    unfolding f_def by (rule floor_correct[THEN conjunct2, unfolded of_int_add of_int_1])
  moreover have "of_int (round_half_up x) = - f"
    using False by (simp add: round_half_up_def f_def)
  ultimately show ?thesis by (simp only: abs_le_iff) linarith
qed

lemma quantize_cost_mono: "0 \<le> x \<Longrightarrow> x \<le> y \<Longrightarrow> quantize_cost x \<le> quantize_cost y"
  by (simp add: quantize_cost_def quantize_micros_def round_half_up_mono divide_right_mono)

lemma quantize_cost_nonneg: "0 \<le> x \<Longrightarrow> 0 \<le> quantize_cost x"
  by (simp add: quantize_cost_def quantize_micros_def round_half_up_nonneg)

lemma quantize_cost_idem [simp]: "quantize_cost (quantize_cost x) = quantize_cost x"
  by (simp add: quantize_cost_def quantize_micros_def)

lemma quantize_cost_zero [simp]: "quantize_cost 0 = 0"
  using round_half_up_of_int[of 0] by (simp add: quantize_cost_def quantize_micros_def)

section \<open>Usage carriers\<close>

text \<open>
  \<open>any_llm\<close>'s \<open>CompletionUsage\<close> and its subclass \<open>GatewayUsage\<close>: \<open>cu_gateway\<close> holds the
  subclass's fields, and is present exactly for an instance of \<open>GatewayUsage\<close>.
\<close>

record prompt_details =
  pd_cached_tokens :: "int option"
  pd_cache_write_tokens :: "int option"
  pd_ephemeral_1h :: "int option"

record gateway_usage =
  gu_cache_read_tokens :: int
  gu_cache_write_tokens :: int
  gu_cache_write_1h_tokens :: int
  gu_cache_tokens_in_prompt :: bool
  gu_reasoning_tokens :: int
  gu_provider_web_searches :: int

record completion_usage =
  cu_prompt_tokens :: int
  cu_completion_tokens :: int
  cu_total_tokens :: int
  cu_prompt_details :: "prompt_details option"
  cu_reasoning_details :: "int option"
  cu_gateway :: "gateway_usage option"

definition or_zero :: "int option \<Rightarrow> int" where
  "or_zero v = (case v of None \<Rightarrow> 0 | Some i \<Rightarrow> i)"

definition cache_read_tokens_of :: "completion_usage \<Rightarrow> int" where
  "cache_read_tokens_of u =
     (case cu_gateway u of
        Some g \<Rightarrow> gu_cache_read_tokens g
      | None \<Rightarrow> (case cu_prompt_details u of None \<Rightarrow> 0 | Some d \<Rightarrow> or_zero (pd_cached_tokens d)))"

definition cache_write_tokens_of :: "completion_usage \<Rightarrow> int" where
  "cache_write_tokens_of u =
     (case cu_gateway u of
        Some g \<Rightarrow> gu_cache_write_tokens g
      | None \<Rightarrow>
          (case cu_prompt_details u of None \<Rightarrow> 0 | Some d \<Rightarrow> or_zero (pd_cache_write_tokens d)))"

definition cache_write_1h_tokens_of :: "completion_usage \<Rightarrow> int" where
  "cache_write_1h_tokens_of u =
     (case cu_gateway u of
        Some g \<Rightarrow> gu_cache_write_1h_tokens g
      | None \<Rightarrow> (case cu_prompt_details u of None \<Rightarrow> 0 | Some d \<Rightarrow> or_zero (pd_ephemeral_1h d)))"

definition cache_tokens_in_prompt_of :: "completion_usage \<Rightarrow> bool" where
  "cache_tokens_in_prompt_of u =
     (case cu_gateway u of Some g \<Rightarrow> gu_cache_tokens_in_prompt g | None \<Rightarrow> True)"

definition provider_web_searches_of :: "completion_usage \<Rightarrow> int" where
  "provider_web_searches_of u =
     (case cu_gateway u of Some g \<Rightarrow> gu_provider_web_searches g | None \<Rightarrow> 0)"

definition reasoning_tokens_of :: "completion_usage \<Rightarrow> int" where
  "reasoning_tokens_of u =
     (case cu_gateway u of Some g \<Rightarrow> gu_reasoning_tokens g | None \<Rightarrow> or_zero (cu_reasoning_details u))"

section \<open>Billable meters\<close>

record BillableUsage =
  total_input_tokens :: int
  completion_tokens :: int
  cache_read_tokens :: int
  cache_write_tokens :: int
  cache_write_1h_tokens :: int

definition billable_usage :: "int \<Rightarrow> int \<Rightarrow> bool \<Rightarrow> int \<Rightarrow> int \<Rightarrow> int \<Rightarrow> BillableUsage" where
  "billable_usage input_tokens output_tokens cache_tokens_included read write write_1h =
     (let prompt = max input_tokens 0; completion = max output_tokens 0;
          cache_read = max read 0; cache_write = max write 0;
          cache_write_1h = min (max write_1h 0) cache_write in
      if \<not> cache_tokens_included then
        \<lparr>total_input_tokens = prompt + cache_read + cache_write, completion_tokens = completion,
         cache_read_tokens = cache_read, cache_write_tokens = cache_write,
         cache_write_1h_tokens = cache_write_1h\<rparr>
      else if cache_read + cache_write > prompt then
        \<lparr>total_input_tokens = prompt, completion_tokens = completion,
         cache_read_tokens = 0, cache_write_tokens = 0, cache_write_1h_tokens = 0\<rparr>
      else
        \<lparr>total_input_tokens = prompt, completion_tokens = completion,
         cache_read_tokens = cache_read, cache_write_tokens = cache_write,
         cache_write_1h_tokens = cache_write_1h\<rparr>)"

definition billable_usage_of :: "completion_usage \<Rightarrow> BillableUsage" where
  "billable_usage_of u =
     billable_usage (max (cu_prompt_tokens u) 0) (max (cu_completion_tokens u) 0)
       (cache_tokens_in_prompt_of u) (cache_read_tokens_of u) (cache_write_tokens_of u)
       (cache_write_1h_tokens_of u)"

text \<open>The consistency every normalized usage has.\<close>

definition wf_usage :: "BillableUsage \<Rightarrow> bool" where
  "wf_usage u \<longleftrightarrow>
     0 \<le> completion_tokens u \<and> 0 \<le> cache_read_tokens u \<and>
     0 \<le> cache_write_1h_tokens u \<and> cache_write_1h_tokens u \<le> cache_write_tokens u \<and>
     cache_read_tokens u + cache_write_tokens u \<le> total_input_tokens u"

lemma wf_billable_usage [intro, simp]: "wf_usage (billable_usage i out incl r w h)"
  by (auto simp: wf_usage_def billable_usage_def Let_def)

lemma wf_billable_usage_of [intro, simp]: "wf_usage (billable_usage_of u)"
  by (simp add: billable_usage_of_def)

section \<open>Rate rows and tiers\<close>

record price_tier =
  tier_min_input_tokens :: "pyval option"
  tier_input :: pyval
  tier_output :: pyval
  tier_cache_read :: pyval
  tier_cache_write :: pyval

text \<open>One entry of the JSON column: an object, or anything else.\<close>

datatype tier_entry = TierDict price_tier | TierOther

record ModelPricing =
  mp_model_key :: "string option"
  mp_unit :: "string option"
  mp_input :: pyval
  mp_output :: pyval
  mp_cache_read :: pyval
  mp_cache_write :: pyval
  mp_tiers :: "tier_entry list option"

text \<open>
  Python's \<open>int(value)\<close>: \<open>Inl True\<close> is an exception the caller catches (\<open>TypeError\<close>,
  \<open>ValueError\<close>), \<open>Inl False\<close> one it does not (\<open>OverflowError\<close> for an infinite float).
\<close>

definition trunc_rat :: "rat \<Rightarrow> int" where
  "trunc_rat x = (if 0 \<le> x then \<lfloor>x\<rfloor> else - \<lfloor>- x\<rfloor>)"

fun py_int :: "pyval \<Rightarrow> bool + int" where
  "py_int PyNone = Inl True"
| "py_int (PyBool b) = Inr (if b then 1 else 0)"
| "py_int (PyDecimal d) =
     (case d of DFin x \<Rightarrow> Inr (trunc_rat x) | DNaN \<Rightarrow> Inl True | DInf \<Rightarrow> Inl False)"
| "py_int (PyInt i) = Inr i"
| "py_int (PyFloat d) =
     (case d of DFin x \<Rightarrow> Inr (trunc_rat x) | DNaN \<Rightarrow> Inl True | DInf \<Rightarrow> Inl False)"
| "py_int (PyStr i d) = (case i of None \<Rightarrow> Inl True | Some n \<Rightarrow> Inr n)"
| "py_int PyOther = Inl True"

definition tier_threshold :: "price_tier \<Rightarrow> price_error + int option" where
  "tier_threshold tier =
     (case tier_min_input_tokens tier of
        None \<Rightarrow> Inr (Some 0)
      | Some PyNone \<Rightarrow> Inr (Some 0)
      | Some raw \<Rightarrow>
          (case py_int raw of
             Inl True \<Rightarrow> Inr None
           | Inl False \<Rightarrow> Inl OverflowError
           | Inr t \<Rightarrow> Inr (if t \<ge> 0 then Some t else None)))"

fun reached_tiers ::
  "tier_entry list \<Rightarrow> int \<Rightarrow> price_error + (int \<times> price_tier) list" where
  "reached_tiers [] total_in = Inr []"
| "reached_tiers (TierOther # es) total_in = reached_tiers es total_in"
| "reached_tiers (TierDict t # es) total_in =
     (case tier_threshold t of
        Inl e \<Rightarrow> Inl e
      | Inr th \<Rightarrow>
          bind_result (reached_tiers es total_in)
            (\<lambda>rest. Inr (case th of
                Some b \<Rightarrow> (if b \<le> total_in then (b, t) # rest else rest)
              | None \<Rightarrow> rest)))"

text \<open>Python's \<open>max(xs, key=fst)\<close>: the first entry whose key is greatest.\<close>

fun max_by_fst :: "(int \<times> 'a) \<Rightarrow> (int \<times> 'a) list \<Rightarrow> int \<times> 'a" where
  "max_by_fst best [] = best"
| "max_by_fst best (x # xs) = max_by_fst (if fst best < fst x then x else best) xs"

definition applicable_tier ::
  "tier_entry list option \<Rightarrow> int \<Rightarrow> price_error + price_tier option" where
  "applicable_tier tiers total_in =
     (case tiers of
        None \<Rightarrow> Inr None
      | Some es \<Rightarrow>
          bind_result (reached_tiers es total_in)
            (\<lambda>reached. Inr (case reached of
                [] \<Rightarrow> None
              | x # xs \<Rightarrow> Some (snd (max_by_fst x xs)))))"

section \<open>Which model\<close>

fun drop_digits :: "string \<Rightarrow> string" where
  "drop_digits [] = []"
| "drop_digits (c # cs) =
     (if (48::nat) \<le> of_char c \<and> (of_char c :: nat) \<le> 57 then drop_digits cs else c # cs)"

text \<open>\<open>re.compile(r"[0-9]+(?::|$)").match\<close>; \<open>$\<close> also matches before a final newline.\<close>

definition bedrock_version_suffix :: "string \<Rightarrow> bool" where
  "bedrock_version_suffix s \<longleftrightarrow>
     (let rest = drop_digits s in
      rest \<noteq> s \<and> (rest = [] \<or> rest = [char_of (10::nat)] \<or> is_prefix '':'' rest))"

definition is_claude :: "ModelPricing \<Rightarrow> bool" where
  "is_claude pricing =
     (case mp_model_key pricing of
        None \<Rightarrow> False
      | Some key \<Rightarrow>
          (case partition_at (CHR '':'') key of
             None \<Rightarrow> contains_substring ''claude'' (ascii_lower key)
           | Some (_, model) \<Rightarrow>
               (if bedrock_version_suffix model
                then contains_substring ''claude'' (ascii_lower key)
                else contains_substring ''claude'' (ascii_lower model))))"

section \<open>Effective rates\<close>

record Rates =
  input_price_per_million :: rat
  output_price_per_million :: rat
  cache_read_price_per_million :: "rat option"
  cache_write_price_per_million :: "rat option"
  cache_write_1h_price_per_million :: "rat option"

definition override_rate :: "rat option \<Rightarrow> pyval \<Rightarrow> rat option" where
  "override_rate base v = (case to_decimal v of None \<Rightarrow> base | Some r \<Rightarrow> Some r)"

definition effective_rates :: "ModelPricing \<Rightarrow> int \<Rightarrow> price_error + Rates" where
  "effective_rates pricing total_in =
     bind_result (applicable_tier (mp_tiers pricing) total_in) (\<lambda>tier.
       let base_in = to_decimal (mp_input pricing); base_out = to_decimal (mp_output pricing);
           base_read = to_decimal (mp_cache_read pricing);
           base_write = to_decimal (mp_cache_write pricing);
           (inp, out, rd, wr) =
             (case tier of
                None \<Rightarrow> (base_in, base_out, base_read, base_write)
              | Some t \<Rightarrow>
                  (override_rate base_in (tier_input t), override_rate base_out (tier_output t),
                   override_rate base_read (tier_cache_read t),
                   override_rate base_write (tier_cache_write t))) in
       (case (inp, out) of
          (Some i, Some ou) \<Rightarrow>
            Inr \<lparr>input_price_per_million = i, output_price_per_million = ou,
                 cache_read_price_per_million = rd, cache_write_price_per_million = wr,
                 cache_write_1h_price_per_million =
                   (case wr of
                      Some w \<Rightarrow> (if w \<noteq> 0 \<and> is_claude pricing then Some (i * 2) else None)
                    | None \<Rightarrow> None)\<rparr>
        | _ \<Rightarrow> Inl (ValueError ''Pricing carries no usable input or output rate'')))"

definition meter_cost :: "rat \<Rightarrow> rat \<Rightarrow> rat" where
  "meter_cost tokens rate = (tokens * rate) / 1000000"

section \<open>Rates per request\<close>

text \<open>\<open>RETIRED_UNIT_NAMES.get(value, value)\<close>.\<close>

definition current_unit_name :: "string option \<Rightarrow> string option" where
  "current_unit_name v =
     (case v of
        None \<Rightarrow> None
      | Some u \<Rightarrow>
          Some (if u = ''tokens'' then ''token'' else if u = ''requests'' then ''request''
                else if u = ''images'' then ''image'' else u))"

definition priced_per_request :: "ModelPricing option \<Rightarrow> bool" where
  "priced_per_request pricing =
     (case pricing of None \<Rightarrow> False | Some p \<Rightarrow> current_unit_name (mp_unit p) = Some ''request'')"

definition request_cost :: "ModelPricing \<Rightarrow> price_error + rat" where
  "request_cost pricing =
     (case to_decimal (mp_input pricing) of
        None \<Rightarrow> Inl (ValueError ''Pricing carries no usable per-request rate'')
      | Some rate \<Rightarrow> Inr (meter_cost 1 rate))"

datatype line_rate = RatePerMillion rat | UnitRateOf rat

record ChargeLine =
  cl_meter :: string
  cl_units :: rat
  cl_unit :: "string option"
  cl_rate :: line_rate
  cl_cost :: rat

definition token_charge_line :: "string \<Rightarrow> int \<Rightarrow> rat \<Rightarrow> rat \<Rightarrow> ChargeLine" where
  "token_charge_line meter units rate cost =
     \<lparr>cl_meter = meter, cl_units = of_int units, cl_unit = None,
      cl_rate = RatePerMillion rate, cl_cost = cost\<rparr>"

definition request_charge_line :: "rat \<Rightarrow> ChargeLine" where
  "request_charge_line cost =
     \<lparr>cl_meter = ''request'', cl_units = 1, cl_unit = None, cl_rate = UnitRateOf cost,
      cl_cost = cost\<rparr>"

definition price_request ::
  "ModelPricing \<Rightarrow> price_error + (rat \<times> (string \<times> rat) list \<times> ChargeLine list)" where
  "price_request pricing =
     bind_result (request_cost pricing) (\<lambda>c.
       let cost = quantize_cost c in
       Inr (cost, [(''requests'', 1)], if cost \<noteq> 0 then [request_charge_line cost] else []))"

section \<open>Settling token meters\<close>

definition fresh_input :: "Rates \<Rightarrow> BillableUsage \<Rightarrow> int" where
  "fresh_input rates usage =
     total_input_tokens usage
     - (if cache_read_price_per_million rates \<noteq> None then cache_read_tokens usage else 0)
     - (if cache_write_price_per_million rates \<noteq> None then cache_write_tokens usage else 0)"

definition one_hour_writes :: "Rates \<Rightarrow> BillableUsage \<Rightarrow> int" where
  "one_hour_writes rates usage =
     (if cache_write_1h_price_per_million rates \<noteq> None then cache_write_1h_tokens usage else 0)"

text \<open>The \<open>charge\<close> calls of \<open>_price_meters\<close>, in order: meter, tokens, rate.\<close>

definition charged_meters :: "Rates \<Rightarrow> BillableUsage \<Rightarrow> (string \<times> int \<times> rat) list" where
  "charged_meters rates usage =
     [(''input'', fresh_input rates usage, input_price_per_million rates),
      (''output'', completion_tokens usage, output_price_per_million rates)]
     @ (case cache_read_price_per_million rates of
          None \<Rightarrow> [] | Some r \<Rightarrow> [(''cache_read'', cache_read_tokens usage, r)])
     @ (case cache_write_price_per_million rates of
          None \<Rightarrow> []
        | Some r \<Rightarrow>
            [(''cache_write'', cache_write_tokens usage - one_hour_writes rates usage, r)])
     @ (case cache_write_1h_price_per_million rates of
          None \<Rightarrow> [] | Some r \<Rightarrow> [(''cache_write_1h'', one_hour_writes rates usage, r)])"

definition charge_meter :: "string \<times> int \<times> rat \<Rightarrow> rat" where
  "charge_meter c = (case c of (_, units, rate) \<Rightarrow> meter_cost (of_int units) rate)"

definition price_meters ::
  "ModelPricing \<Rightarrow> BillableUsage \<Rightarrow>
     price_error + (rat \<times> (string \<times> int) list \<times> ChargeLine list)" where
  "price_meters pricing usage =
     bind_result (effective_rates pricing (total_input_tokens usage)) (\<lambda>rates.
       let charges = charged_meters rates usage in
       Inr (sum_list (map charge_meter charges),
            [(''total_input_tokens'', total_input_tokens usage),
             (''fresh_input_tokens'', fresh_input rates usage),
             (''cache_read_tokens'', cache_read_tokens usage),
             (''cache_write_tokens'', cache_write_tokens usage),
             (''cache_write_1h_tokens'', cache_write_1h_tokens usage),
             (''completion_tokens'', completion_tokens usage)],
            [token_charge_line mtr units rate (meter_cost (of_int units) rate) .
               (mtr, units, rate) \<leftarrow> charges, units \<noteq> 0]))"

definition price_billable_usage ::
  "ModelPricing \<Rightarrow> BillableUsage \<Rightarrow>
     price_error + (rat \<times> (string \<times> int) list \<times> ChargeLine list)" where
  "price_billable_usage pricing usage =
     bind_result (price_meters pricing usage)
       (\<lambda>(cost, meters, lines). Inr (quantize_cost cost, meters, lines))"

definition calculate_metered_cost ::
  "ModelPricing \<Rightarrow> completion_usage \<Rightarrow>
     price_error + (rat \<times> (string \<times> int) list \<times> ChargeLine list)" where
  "calculate_metered_cost pricing usage = price_billable_usage pricing (billable_usage_of usage)"

definition calculate_token_cost ::
  "ModelPricing \<Rightarrow> int \<Rightarrow> int \<Rightarrow> bool \<Rightarrow> int \<Rightarrow> int \<Rightarrow> int \<Rightarrow> bool \<Rightarrow> price_error + rat" where
  "calculate_token_cost pricing input_tokens output_tokens included read write write_1h quantize =
     bind_result
       (price_meters pricing (billable_usage input_tokens output_tokens included read write write_1h))
       (\<lambda>(cost, _, _). Inr (if quantize then quantize_cost cost else cost))"

section \<open>Estimates\<close>

definition estimated :: "decimal \<Rightarrow> price_error + rat" where
  "estimated v =
     (case v of
        DFin x \<Rightarrow> Inr (max x 0)
      | _ \<Rightarrow> Inl (ValueError ''an estimated quantity must be a finite number''))"

datatype cache_ttl = TTL_5m | TTL_1h

definition write_candidates :: "Rates \<Rightarrow> cache_ttl option \<Rightarrow> rat list" where
  "write_candidates rates ttl =
     opt_list (if ttl \<noteq> None then cache_write_price_per_million rates else None)
     @ opt_list (if ttl = Some TTL_1h then cache_write_1h_price_per_million rates else None)"

definition read_candidates :: "Rates \<Rightarrow> rat list" where
  "read_candidates rates = opt_list (cache_read_price_per_million rates)"

fun max_rate :: "rat \<Rightarrow> rat list \<Rightarrow> rat" where
  "max_rate m [] = m"
| "max_rate m (r # rs) = max_rate (if m < r then r else m) rs"

definition estimate_metered_cost ::
  "ModelPricing \<Rightarrow> int \<Rightarrow> int \<Rightarrow> cache_ttl option \<Rightarrow> decimal option \<Rightarrow> price_error + rat" where
  "estimate_metered_cost pricing est_in est_out ttl est_units =
     (if priced_per_request (Some pricing) then
        bind_result (request_cost pricing) (\<lambda>c. Inr (quantize_cost c))
      else
        let input_tokens = max est_in 0;
            unit = (case current_unit_name (mp_unit pricing) of
                      None \<Rightarrow> ''token'' | Some u \<Rightarrow> if u = '''' then ''token'' else u) in
        case (unit \<noteq> ''token'', est_units) of
          (True, Some units) \<Rightarrow>
            bind_result (effective_rates pricing input_tokens) (\<lambda>rates.
              bind_result (estimated units) (\<lambda>q.
                Inr (quantize_cost (meter_cost q
                  (max_rate (input_price_per_million rates)
                    ([output_price_per_million rates] @ read_candidates rates
                     @ write_candidates rates ttl))))))
        | _ \<Rightarrow>
            bind_result (effective_rates pricing input_tokens) (\<lambda>rates.
              let output_tokens = max est_out 0;
                  per_input = max_rate (input_price_per_million rates)
                    (read_candidates rates @ write_candidates rates ttl) in
              Inr (quantize_cost
                (meter_cost (of_int input_tokens) per_input
                 + meter_cost (of_int output_tokens) (output_price_per_million rates)))))"

section \<open>Prices per unit\<close>

record ModelsDevCachePrices =
  cp_read :: pyval
  cp_write :: pyval
  cp_write_ttls :: "(string \<times> pyval) list"
  cp_storage :: pyval

record ModelsDevUnitPrice =
  up_unit :: "string option"
  up_price :: pyval
  up_reasoning :: pyval
  up_cache :: "ModelsDevCachePrices option"

record ModelsDevModalityCost =
  mc_input :: "ModelsDevUnitPrice option"
  mc_output :: "ModelsDevUnitPrice option"

record ModelsDevPricing =
  dp_modalities :: "(string \<times> ModelsDevModalityCost) list"
  dp_web_search :: "ModelsDevUnitPrice option"

datatype PriceKind = KPrice | KReasoning | KCacheRead | KCacheWrite | KCacheStorage
datatype Direction = DirInput | DirOutput

record UnitRate =
  ur_unit :: PriceUnit
  ur_price :: rat

record UnitCharge =
  uc_cost :: rat
  uc_lines :: "ChargeLine list"

definition quantity :: "decimal \<Rightarrow> price_error + rat" where
  "quantity v =
     (case v of
        DFin q \<Rightarrow>
          (if q < 0
           then Inl (ValueError ''a quantity to price must be a finite non-negative number'')
           else Inr q)
      | _ \<Rightarrow> Inl (ValueError ''a quantity to price must be a finite non-negative number''))"

definition unit_cost :: "decimal \<Rightarrow> PriceUnit \<Rightarrow> rat \<Rightarrow> price_error + rat" where
  "unit_cost v unit price =
     bind_result (quantity v) (\<lambda>q. Inr ((q * price) / PRICE_PER unit))"

definition unit_rate_cost :: "UnitRate \<Rightarrow> decimal \<Rightarrow> price_error + rat" where
  "unit_rate_cost rate v = unit_cost v (ur_unit rate) (ur_price rate)"

definition unit_charge_line :: "UnitRate \<Rightarrow> string \<Rightarrow> rat \<Rightarrow> rat \<Rightarrow> ChargeLine" where
  "unit_charge_line rate meter q cost =
     \<lparr>cl_meter = meter, cl_units = q, cl_unit = Some (unit_name (ur_unit rate)),
      cl_rate = (if PRICE_PER (ur_unit rate) = 1000000 then RatePerMillion (ur_price rate)
                 else UnitRateOf (ur_price rate / PRICE_PER (ur_unit rate))),
      cl_cost = cost\<rparr>"

definition slot_price ::
  "ModelsDevPricing \<Rightarrow> string \<Rightarrow> Direction \<Rightarrow> ModelsDevUnitPrice option" where
  "slot_price pricing modality direction =
     (case map_of (dp_modalities pricing) modality of
        None \<Rightarrow> None
      | Some prices \<Rightarrow> (if direction = DirInput then mc_input prices else mc_output prices))"

definition listed_ttl_price :: "ModelsDevCachePrices \<Rightarrow> string option \<Rightarrow> pyval" where
  "listed_ttl_price cache ttl =
     (case find (\<lambda>e. Some (fst e) = ttl) (cp_write_ttls cache) of
        None \<Rightarrow> PyNone | Some e \<Rightarrow> snd e)"

definition kind_value :: "ModelsDevUnitPrice \<Rightarrow> PriceKind \<Rightarrow> string option \<Rightarrow> pyval" where
  "kind_value price kind ttl =
     (case kind of
        KPrice \<Rightarrow> up_price price
      | KReasoning \<Rightarrow> up_reasoning price
      | _ \<Rightarrow>
          (case up_cache price of
             None \<Rightarrow> PyNone
           | Some cache \<Rightarrow>
               (case kind of
                  KCacheRead \<Rightarrow> cp_read cache
                | KCacheStorage \<Rightarrow> cp_storage cache
                | _ \<Rightarrow>
                    (let listed = listed_ttl_price cache ttl in
                     if to_decimal listed \<noteq> None then listed else cp_write cache))))"

definition unit_rate ::
  "ModelsDevUnitPrice \<Rightarrow> PriceKind \<Rightarrow> string option \<Rightarrow> UnitRate option" where
  "unit_rate price kind ttl =
     (case models_dev_unit (up_unit price) of
        None \<Rightarrow> None
      | Some unit \<Rightarrow>
          (case to_decimal (kind_value price kind ttl) of
             None \<Rightarrow> None
           | Some r \<Rightarrow> Some \<lparr>ur_unit = unit, ur_price = r\<rparr>))"

definition web_search_rate :: "ModelsDevPricing \<Rightarrow> UnitRate option" where
  "web_search_rate pricing =
     (case dp_web_search pricing of
        None \<Rightarrow> None
      | Some ws \<Rightarrow>
          (case to_decimal (up_price ws) of
             None \<Rightarrow> None | Some r \<Rightarrow> Some \<lparr>ur_unit = UWebSearch, ur_price = r\<rparr>))"

definition charge_unit :: "UnitRate \<Rightarrow> string \<Rightarrow> decimal \<Rightarrow> price_error + UnitCharge" where
  "charge_unit rate meter v =
     bind_result (quantity v) (\<lambda>q.
     bind_result (unit_rate_cost rate (DFin q)) (\<lambda>cost.
       Inr \<lparr>uc_cost = cost,
            uc_lines = (if q \<noteq> 0 then [unit_charge_line rate meter q cost] else [])\<rparr>))"

definition charge_unit_price ::
  "ModelsDevUnitPrice \<Rightarrow> decimal \<Rightarrow> string \<Rightarrow> PriceKind \<Rightarrow> string option \<Rightarrow>
     price_error + UnitCharge option" where
  "charge_unit_price price v meter kind ttl =
     (case unit_rate price kind ttl of
        None \<Rightarrow> Inr None
      | Some rate \<Rightarrow> bind_result (charge_unit rate meter v) (\<lambda>c. Inr (Some c)))"

definition estimate_kinds :: "string option \<Rightarrow> PriceKind list" where
  "estimate_kinds ttl = [KPrice, KReasoning, KCacheRead] @ (if ttl \<noteq> None then [KCacheWrite] else [])"

fun dearest_rate :: "UnitRate \<Rightarrow> UnitRate list \<Rightarrow> UnitRate" where
  "dearest_rate best [] = best"
| "dearest_rate best (r # rs) = dearest_rate (if ur_price best < ur_price r then r else best) rs"

definition estimate_unit_cost ::
  "ModelsDevUnitPrice \<Rightarrow> decimal \<Rightarrow> string option \<Rightarrow> price_error + rat" where
  "estimate_unit_cost price v ttl =
     (case List.map_filter (\<lambda>k. unit_rate price k ttl) (estimate_kinds ttl) of
        [] \<Rightarrow> Inr 0
      | r # rs \<Rightarrow>
          bind_result (estimated v) (\<lambda>q.
          bind_result (unit_rate_cost (dearest_rate r rs) (DFin q)) (\<lambda>c.
            Inr (quantize_cost c))))"

section \<open>Facts about rates\<close>

definition wf_rates :: "Rates \<Rightarrow> bool" where
  "wf_rates r \<longleftrightarrow>
     0 \<le> input_price_per_million r \<and> 0 \<le> output_price_per_million r \<and>
     (\<forall>x \<in> set_option (cache_read_price_per_million r). 0 \<le> x) \<and>
     (\<forall>x \<in> set_option (cache_write_price_per_million r). 0 \<le> x) \<and>
     (\<forall>x \<in> set_option (cache_write_1h_price_per_million r). 0 \<le> x) \<and>
     (cache_write_1h_price_per_million r \<noteq> None \<longrightarrow> cache_write_price_per_million r \<noteq> None)"

lemma override_rate_nonneg:
  "(\<And>x. base = Some x \<Longrightarrow> 0 \<le> x) \<Longrightarrow> override_rate base v = Some y \<Longrightarrow> 0 \<le> y"
  by (auto simp: override_rate_def split: option.splits dest: to_decimal_nonneg)

lemma override_to_decimal_nonneg: "override_rate (to_decimal b) v = Some y \<Longrightarrow> 0 \<le> y"
  by (rule override_rate_nonneg[OF to_decimal_nonneg])

lemma wf_rates_build:
  assumes "\<And>x. rd = Some x \<Longrightarrow> 0 \<le> x" "\<And>x. wr = Some x \<Longrightarrow> 0 \<le> x" "0 \<le> i" "0 \<le> ou"
  shows "wf_rates
    \<lparr>input_price_per_million = i, output_price_per_million = ou,
     cache_read_price_per_million = rd, cache_write_price_per_million = wr,
     cache_write_1h_price_per_million =
       (case wr of
          Some w \<Rightarrow> (if w \<noteq> 0 \<and> c then Some (i * 2) else None)
        | None \<Rightarrow> None)\<rparr>"
  using assms by (cases rd; cases wr) (simp_all add: wf_rates_def)

lemma effective_rates_wf: "effective_rates pricing n = Inr r \<Longrightarrow> wf_rates r"
proof -
  assume e: "effective_rates pricing n = Inr r"
  then obtain tier where t: "applicable_tier (mp_tiers pricing) n = Inr tier"
    unfolding effective_rates_def bind_result_Inr_iff by blast
  show ?thesis
  proof (cases tier)
    case None
    then show ?thesis
      using e t unfolding effective_rates_def
      by (simp add: Let_def split: option.splits)
         (auto intro!: wf_rates_build[where wr = None, simplified]
            wf_rates_build[where wr = "Some _", simplified] dest: to_decimal_nonneg)
  next
    case (Some ti)
    then show ?thesis
      using e t unfolding effective_rates_def
      by (simp add: Let_def split: option.splits)
         (auto intro!: wf_rates_build[where wr = None, simplified]
            wf_rates_build[where wr = "Some _", simplified] dest: override_to_decimal_nonneg)
  qed
qed

lemma meter_cost_mono: "a \<le> b \<Longrightarrow> 0 \<le> r \<Longrightarrow> meter_cost a r \<le> meter_cost b r"
  by (simp add: meter_cost_def divide_right_mono mult_right_mono)

lemma meter_cost_mono_rate: "0 \<le> a \<Longrightarrow> r \<le> s \<Longrightarrow> meter_cost a r \<le> meter_cost a s"
  by (simp add: meter_cost_def divide_right_mono mult_left_mono)

lemma meter_cost_nonneg [intro]: "0 \<le> a \<Longrightarrow> 0 \<le> r \<Longrightarrow> 0 \<le> meter_cost a r"
  by (simp add: meter_cost_def)

lemma meter_cost_add: "meter_cost a r + meter_cost b r = meter_cost (a + b) r"
  by (simp add: meter_cost_def algebra_simps add_divide_distrib)

lemma meter_cost_0 [simp]: "meter_cost 0 r = 0"
  by (simp add: meter_cost_def)

lemma max_rate_ge: "m \<le> max_rate m rs \<and> (\<forall>r \<in> set rs. r \<le> max_rate m rs)"
  by (induction rs arbitrary: m) (auto intro: order_trans less_imp_le simp: not_less)

lemma max_rate_ge_first: "m \<le> max_rate m rs"
  using max_rate_ge by blast

lemma max_rate_ge_member: "r \<in> set rs \<Longrightarrow> r \<le> max_rate m rs"
  using max_rate_ge by blast

subsection \<open>Tiers\<close>

lemma max_by_fst_in: "max_by_fst b xs \<in> insert b (set xs)"
proof (induction xs arbitrary: b)
  case (Cons x xs)
  show ?case using Cons[of x] Cons[of b] by auto
qed simp

lemma max_by_fst_ge: "fst b \<le> fst (max_by_fst b xs) \<and> (\<forall>x \<in> set xs. fst x \<le> fst (max_by_fst b xs))"
  by (induction xs arbitrary: b) (auto intro: order_trans less_imp_le simp: not_less)

text \<open>The tiers a request reaches: those with a readable bound at or below its input.\<close>

definition reaches :: "tier_entry list \<Rightarrow> int \<Rightarrow> int \<Rightarrow> price_tier \<Rightarrow> bool" where
  "reaches es total_in bound t \<longleftrightarrow>
     TierDict t \<in> set es \<and> tier_threshold t = Inr (Some bound) \<and> bound \<le> total_in"

lemma reached_tiers_spec:
  "reached_tiers es total_in = Inr xs \<Longrightarrow> (bound, t) \<in> set xs \<longleftrightarrow> reaches es total_in bound t"
proof (induction es total_in arbitrary: xs rule: reached_tiers.induct)
  case (3 t' es total_in)
  then obtain th rest where th: "tier_threshold t' = Inr th"
    and rest: "reached_tiers es total_in = Inr rest"
    and xs: "xs = (case th of Some b \<Rightarrow> (if b \<le> total_in then (b, t') # rest else rest)
                   | None \<Rightarrow> rest)"
    by (auto simp: bind_result_Inr_iff split: sum.splits)
  show ?case
    using 3(1)[OF th rest] th xs by (auto simp: reaches_def split: option.splits if_splits)
qed (auto simp: reaches_def)

lemma applicable_tier_spec:
  assumes "applicable_tier (Some es) total_in = Inr res"
  shows "case res of
      None \<Rightarrow> \<forall>bound t. \<not> reaches es total_in bound t
    | Some t \<Rightarrow> \<exists>bound. reaches es total_in bound t \<and>
        (\<forall>bound' t'. reaches es total_in bound' t' \<longrightarrow> bound' \<le> bound)"
proof -
  obtain xs where xs: "reached_tiers es total_in = Inr xs"
    and res: "res = (case xs of [] \<Rightarrow> None | x # ys \<Rightarrow> Some (snd (max_by_fst x ys)))"
    using assms by (auto simp: applicable_tier_def bind_result_Inr_iff)
  note spec = reached_tiers_spec[OF xs]
  show ?thesis
  proof (cases xs)
    case Nil
    then show ?thesis using res spec by auto
  next
    case (Cons x ys)
    define best where "best = max_by_fst x ys"
    have mem: "(fst best, snd best) \<in> set xs"
      using max_by_fst_in[of x ys] Cons by (simp add: best_def)
    have "fst y \<le> fst best" if "y \<in> set xs" for y
      using max_by_fst_ge[of x ys] that Cons by (auto simp: best_def)
    then show ?thesis
      using res Cons mem spec by (force simp: best_def[symmetric])
  qed
qed

section \<open>Facts about settled costs\<close>

lemma wf_usage_meters:
  assumes "wf_usage usage" and "wf_rates rates"
  shows "0 \<le> fresh_input rates usage" "0 \<le> one_hour_writes rates usage"
    "one_hour_writes rates usage \<le> cache_write_tokens usage"
  using assms by (auto simp: wf_usage_def fresh_input_def one_hour_writes_def)

lemma charged_meters_nonneg:
  assumes "wf_usage usage" and "wf_rates rates" and "(mtr, n, r) \<in> set (charged_meters rates usage)"
  shows "0 \<le> n \<and> 0 \<le> r"
  using assms wf_usage_meters[OF assms(1,2)]
  by (auto simp: charged_meters_def wf_rates_def wf_usage_def split: option.splits)

lemma charge_meter_nonneg:
  assumes "wf_usage usage" and "wf_rates rates" and "c \<in> set (charged_meters rates usage)"
  shows "0 \<le> charge_meter c"
  using charged_meters_nonneg[OF assms(1,2)] assms(3)
  by (cases c) (auto simp: charge_meter_def)

text \<open>The tokens of the charged meters, the output meter aside, add up to the billable input.\<close>

lemma charged_input_total:
  assumes "wf_rates rates"
  shows "sum_list (map (\<lambda>(mtr, n, r). if mtr = ''output'' then 0 else n) (charged_meters rates usage))
    = total_input_tokens usage"
  using assms
  by (auto simp: charged_meters_def fresh_input_def one_hour_writes_def wf_rates_def
      split: option.splits)

lemma charged_output_total:
  "sum_list (map (\<lambda>(mtr, n, r). if mtr = ''output'' then n else 0) (charged_meters rates usage))
    = completion_tokens usage"
  by (auto simp: charged_meters_def split: option.splits)

text \<open>Dropping the meters with no tokens changes neither a sum of tokens nor a sum of costs.\<close>

definition lines_of :: "(string \<times> int \<times> rat) list \<Rightarrow> ChargeLine list" where
  "lines_of charges =
     [token_charge_line mtr units rate (meter_cost (of_int units) rate) .
        (mtr, units, rate) \<leftarrow> charges, units \<noteq> 0]"

lemma lines_of_simps [simp]:
  "lines_of [] = []"
  "lines_of ((mtr, n, r) # cs) =
     (if n \<noteq> 0 then token_charge_line mtr n r (meter_cost (of_int n) r) # lines_of cs else lines_of cs)"
  by (simp_all add: lines_of_def)

lemma lines_of_units:
  "sum_list (map (\<lambda>l. if P (cl_meter l) then cl_units l else 0) (lines_of cs)) =
     of_int (sum_list (map (\<lambda>(mtr, n, r). if P mtr then n else 0) cs))"
  by (induction cs) (auto simp: token_charge_line_def)

lemma lines_of_cost: "sum_list (map cl_cost (lines_of cs)) = sum_list (map charge_meter cs)"
  by (induction cs) (auto simp: token_charge_line_def charge_meter_def)

lemma price_meters_Inr_iff:
  "price_meters pricing usage = Inr (cost, meters, lines) \<longleftrightarrow>
     (\<exists>rates. effective_rates pricing (total_input_tokens usage) = Inr rates \<and>
        cost = sum_list (map charge_meter (charged_meters rates usage)) \<and>
        lines = lines_of (charged_meters rates usage) \<and>
        meters = [(''total_input_tokens'', total_input_tokens usage),
             (''fresh_input_tokens'', fresh_input rates usage),
             (''cache_read_tokens'', cache_read_tokens usage),
             (''cache_write_tokens'', cache_write_tokens usage),
             (''cache_write_1h_tokens'', cache_write_1h_tokens usage),
             (''completion_tokens'', completion_tokens usage)])"
  by (auto simp: price_meters_def bind_result_Inr_iff Let_def lines_of_def)

text \<open>The exact cost is at most the input at the dearest rate it can attract plus the output.\<close>

lemma charged_cost_bound:
  assumes wf: "wf_usage usage" "wf_rates rates"
    and dear: "\<And>mtr n r. (mtr, n, r) \<in> set (charged_meters rates usage) \<Longrightarrow> mtr \<noteq> ''output'' \<Longrightarrow>
      n \<noteq> 0 \<Longrightarrow> r \<le> dearest"
  shows "sum_list (map charge_meter (charged_meters rates usage)) \<le>
    meter_cost (of_int (total_input_tokens usage)) dearest +
    meter_cost (of_int (completion_tokens usage)) (output_price_per_million rates)"
proof -
  have each: "charge_meter c \<le> (case c of (mtr, n, r) \<Rightarrow>
      if mtr = ''output'' then meter_cost (of_int n) (output_price_per_million rates)
      else meter_cost (of_int n) dearest)" if c: "c \<in> set (charged_meters rates usage)" for c
  proof -
    obtain mtr n r where e: "c = (mtr, n, r)" by (cases c)
    have n: "0 \<le> n" using charged_meters_nonneg[OF wf] c e by blast
    show ?thesis
    proof (cases "mtr = ''output''")
      case True
      then have "r = output_price_per_million rates"
        using c e by (auto simp: charged_meters_def split: option.splits)
      then show ?thesis using e True by (simp add: charge_meter_def)
    next
      case False
      then have "n \<noteq> 0 \<longrightarrow> r \<le> dearest" using dear c e by blast
      then show ?thesis
        using n e False by (cases "n = 0") (auto simp: charge_meter_def intro: meter_cost_mono_rate)
    qed
  qed
  have split: "sum_list (map (\<lambda>(mtr, n, r). if mtr = ''output'' then meter_cost (of_int n) q
        else meter_cost (of_int n) dearest) cs) =
      meter_cost (of_int (sum_list (map (\<lambda>(mtr, n, r). if mtr = ''output'' then 0 else n) cs))) dearest +
      meter_cost (of_int (sum_list (map (\<lambda>(mtr, n, r). if mtr = ''output'' then n else 0) cs))) q"
    for q :: rat and cs :: "(string \<times> int \<times> rat) list"
    by (induction cs) (auto simp: meter_cost_add[symmetric])
  have "sum_list (map charge_meter (charged_meters rates usage)) \<le>
      sum_list (map (\<lambda>(mtr, n, r). if mtr = ''output''
          then meter_cost (of_int n) (output_price_per_million rates)
          else meter_cost (of_int n) dearest) (charged_meters rates usage))"
    by (rule sum_list_mono) (use each in \<open>force\<close>)
  then show ?thesis
    unfolding split charged_input_total[OF wf(2)] charged_output_total .
qed

lemma in_write_candidates:
  "x \<in> set (write_candidates rates ttl) \<longleftrightarrow>
     ttl \<noteq> None \<and> cache_write_price_per_million rates = Some x \<or>
     ttl = Some TTL_1h \<and> cache_write_1h_price_per_million rates = Some x"
  unfolding write_candidates_def
  by (cases ttl; cases "cache_write_price_per_million rates";
      cases "cache_write_1h_price_per_million rates") auto

lemma charged_meters_cases:
  "(mtr, n, r) \<in> set (charged_meters rates usage) \<Longrightarrow> mtr \<noteq> ''output'' \<Longrightarrow>
     r = input_price_per_million rates \<or> cache_read_price_per_million rates = Some r \<or>
     cache_write_price_per_million rates = Some r \<and>
       n = cache_write_tokens usage - one_hour_writes rates usage \<or>
     cache_write_1h_price_per_million rates = Some r \<and> n = one_hour_writes rates usage"
  unfolding charged_meters_def by (auto split: option.splits)

lemma meters_at_most_estimate_rate:
  assumes "wf_usage usage" and "wf_rates rates"
    and "cache_write_tokens usage \<noteq> 0 \<longrightarrow> ttl \<noteq> None"
    and "cache_write_1h_tokens usage \<noteq> 0 \<longrightarrow> ttl = Some TTL_1h"
    and "(mtr, n, r) \<in> set (charged_meters rates usage)" "mtr \<noteq> ''output''" "n \<noteq> 0"
  shows "r \<le> max_rate (input_price_per_million rates)
    (read_candidates rates @ write_candidates rates ttl)"
proof -
  have w0: "cache_write_tokens usage = 0 \<Longrightarrow> cache_write_1h_tokens usage = 0"
    using assms(1) by (simp add: wf_usage_def)
  have h0: "one_hour_writes rates usage \<noteq> 0 \<Longrightarrow> cache_write_1h_tokens usage \<noteq> 0"
    by (simp add: one_hour_writes_def split: if_splits)
  consider "r = input_price_per_million rates" | "cache_read_price_per_million rates = Some r"
    | "cache_write_price_per_million rates = Some r"
        "n = cache_write_tokens usage - one_hour_writes rates usage"
    | "cache_write_1h_price_per_million rates = Some r" "n = one_hour_writes rates usage"
    using charged_meters_cases[OF assms(5,6)] by blast
  then have "r \<in> set (input_price_per_million rates # read_candidates rates @ write_candidates rates ttl)"
  proof cases
    case 3
    have "ttl \<noteq> None"
    proof
      assume t: "ttl = None"
      have "cache_write_tokens usage = 0" using assms(3) t by blast
      moreover from this have "one_hour_writes rates usage = 0" using w0 h0 by blast
      ultimately show False using 3 assms(7) by simp
    qed
    then show ?thesis using 3(1) by (simp add: in_write_candidates)
  next
    case 4
    have "ttl = Some TTL_1h" using 4(2) assms(4,7) h0 by blast
    then show ?thesis using 4(1) by (simp add: in_write_candidates)
  qed (simp_all add: read_candidates_def)
  then show ?thesis using max_rate_ge_first max_rate_ge_member by auto
qed

lemma wf_meter_sum_nonneg:
  "wf_usage usage \<Longrightarrow> wf_rates rates \<Longrightarrow>
     0 \<le> sum_list (map charge_meter (charged_meters rates usage))"
  by (rule sum_list_nonneg) (auto intro: charge_meter_nonneg)

lemma lines_of_pos:
  assumes "wf_usage usage" "wf_rates rates" "l \<in> set (lines_of (charged_meters rates usage))"
  shows "0 < cl_units l \<and> 0 \<le> cl_cost l"
proof -
  obtain mtr n r where m: "(mtr, n, r) \<in> set (charged_meters rates usage)" "n \<noteq> 0"
    and l: "l = token_charge_line mtr n r (meter_cost (of_int n) r)"
    using assms(3) by (auto simp: lines_of_def split: if_splits)
  have "0 \<le> n \<and> 0 \<le> r" by (rule charged_meters_nonneg[OF assms(1,2) m(1)])
  then show ?thesis using m(2) by (auto simp: l token_charge_line_def)
qed

subsection \<open>Unit prices\<close>

lemma PRICE_PER_pos [simp]: "0 < PRICE_PER u"
  by (cases u) simp_all

lemma dearest_rate_in: "dearest_rate b xs \<in> insert b (set xs)"
proof (induction xs arbitrary: b)
  case (Cons x xs)
  show ?case using Cons[of x] Cons[of b] by auto
qed simp

lemma dearest_rate_ge:
  "ur_price b \<le> ur_price (dearest_rate b xs) \<and> (\<forall>x \<in> set xs. ur_price x \<le> ur_price (dearest_rate b xs))"
  by (induction xs arbitrary: b) (auto intro: order_trans less_imp_le simp: not_less)

lemma unit_rate_SomeD:
  "unit_rate price k ttl = Some r \<Longrightarrow>
     models_dev_unit (up_unit price) = Some (ur_unit r) \<and> 0 \<le> ur_price r"
  by (auto simp: unit_rate_def split: option.splits dest: to_decimal_nonneg)

lemma in_map_filter_iff: "y \<in> set (List.map_filter f xs) \<longleftrightarrow> (\<exists>x \<in> set xs. f x = Some y)"
  by (force simp: List.map_filter_def)

lemma unit_estimate_dearest:
  assumes "estimate_unit_cost price (DFin q) ttl = Inr est" and "0 \<le> q"
    and "k \<in> set (estimate_kinds ttl)" and "unit_rate price k ttl = Some r"
  shows "quantize_cost (q * ur_price r / PRICE_PER (ur_unit r)) \<le> est"
proof -
  define rates where "rates = List.map_filter (\<lambda>k. unit_rate price k ttl) (estimate_kinds ttl)"
  have r: "r \<in> set rates" using assms(3,4) by (auto simp: rates_def in_map_filter_iff)
  then obtain x xs where xs: "rates = x # xs" by (cases rates) auto
  define d where "d = dearest_rate x xs"
  have "d \<in> set rates" using dearest_rate_in[of x xs] by (simp add: xs d_def)
  then obtain k' where k': "unit_rate price k' ttl = Some d" by (auto simp: rates_def in_map_filter_iff)
  have same: "ur_unit d = ur_unit r" using unit_rate_SomeD[OF k'] unit_rate_SomeD[OF assms(4)] by simp
  have le: "ur_price r \<le> ur_price d" using dearest_rate_ge[of x xs] r by (auto simp: xs d_def)
  have pos: "0 \<le> ur_price r" using unit_rate_SomeD[OF assms(4)] by simp
  have est: "est = quantize_cost (q * ur_price d / PRICE_PER (ur_unit d))"
    using assms(1,2) xs
    by (simp add: estimate_unit_cost_def rates_def[symmetric] estimated_def unit_rate_cost_def
        unit_cost_def quantity_def d_def split: if_splits)
  show ?thesis
    unfolding est same
    by (rule quantize_cost_mono)
       (use le pos assms(2) in \<open>auto intro!: divide_right_mono mult_left_mono simp: less_imp_le\<close>)
qed

section \<open>Properties\<close>

text \<open>
  \<^bold>\<open>C37\<close>: settling a usage bills every token exactly once. Over the charge lines of a settled
  row, the units of the input-side meters add up to the billable input and those of the output
  meter to the completion tokens; no line has zero units or a negative amount; and the settled
  cost is the lines' exact sum rounded once, never negative.
\<close>

theorem settled_tokens_billed_once:
  assumes "price_billable_usage pricing (billable_usage i out incl r w h) = Inr (cost, meters, lines)"
  shows "sum_list (map (\<lambda>l. if cl_meter l \<noteq> ''output'' then cl_units l else 0) lines) =
      of_int (total_input_tokens (billable_usage i out incl r w h))
    \<and> sum_list (map (\<lambda>l. if cl_meter l = ''output'' then cl_units l else 0) lines) =
      of_int (completion_tokens (billable_usage i out incl r w h))
    \<and> (\<forall>l \<in> set lines. 0 < cl_units l \<and> 0 \<le> cl_cost l)
    \<and> cost = quantize_cost (sum_list (map cl_cost lines)) \<and> 0 \<le> cost"
proof -
  define u where "u = billable_usage i out incl r w h"
  have wf: "wf_usage u" by (simp add: u_def)
  obtain rates where rates: "effective_rates pricing (total_input_tokens u) = Inr rates"
    and cost: "cost = quantize_cost (sum_list (map charge_meter (charged_meters rates u)))"
    and lines: "lines = lines_of (charged_meters rates u)"
    using assms by (auto simp: price_billable_usage_def bind_result_Inr_iff price_meters_Inr_iff u_def)
  note wr = effective_rates_wf[OF rates]
  have "sum_list (map (\<lambda>l. if cl_meter l \<noteq> ''output'' then cl_units l else 0) lines) =
      of_int (sum_list (map (\<lambda>(mtr, n, r). if mtr \<noteq> ''output'' then n else 0) (charged_meters rates u)))"
    unfolding lines by (rule lines_of_units[where P = "\<lambda>m. m \<noteq> ''output''"])
  moreover have "(\<lambda>(mtr, n, r :: rat). if mtr \<noteq> ''output'' then n else 0) =
      (\<lambda>(mtr, n :: int, r). if mtr = ''output'' then 0 else n)"
    by auto
  moreover have "sum_list (map (\<lambda>l. if cl_meter l = ''output'' then cl_units l else 0) lines) =
      of_int (completion_tokens u)"
    unfolding lines by (simp only: lines_of_units[where P = "\<lambda>m. m = ''output''"] charged_output_total)
  moreover have "cost = quantize_cost (sum_list (map cl_cost lines))"
    by (simp add: cost lines lines_of_cost)
  moreover have "0 \<le> cost"
    unfolding cost by (rule quantize_cost_nonneg, rule wf_meter_sum_nonneg[OF wf wr])
  ultimately show ?thesis
    using charged_input_total[OF wr, of u] lines_of_pos[OF wf wr] by (simp add: lines u_def)
qed

definition sonnet_pricing :: ModelPricing where
  "sonnet_pricing =
     \<lparr>mp_model_key = Some ''anthropic:claude-sonnet'', mp_unit = Some ''token'',
      mp_input = PyDecimal (DFin 3), mp_output = PyDecimal (DFin 15),
      mp_cache_read = PyDecimal (DFin (3/10)), mp_cache_write = PyDecimal (DFin (15/4)),
      mp_tiers = Some [TierDict
        \<lparr>tier_min_input_tokens = Some (PyInt 200000), tier_input = PyInt 6,
         tier_output = PyFloat (DFin (45/2)), tier_cache_read = PyNone,
         tier_cache_write = PyStr None (Some DNaN)\<rparr>]\<rparr>"

lemma sonnet_rates:
  "effective_rates sonnet_pricing 250000 = Inr
     \<lparr>input_price_per_million = 6, output_price_per_million = 45/2,
      cache_read_price_per_million = Some (3/10), cache_write_price_per_million = Some (15/4),
      cache_write_1h_price_per_million = Some 12\<rparr>"
  by code_simp

lemma sonnet_settles:
  "price_billable_usage sonnet_pricing (billable_usage 200000 4000 False 30000 20000 5000) =
     Inr (141525/100000,
       [(''total_input_tokens'', 250000), (''fresh_input_tokens'', 200000),
        (''cache_read_tokens'', 30000), (''cache_write_tokens'', 20000),
        (''cache_write_1h_tokens'', 5000), (''completion_tokens'', 4000)],
       lines_of [(''input'', 200000, 6), (''output'', 4000, 45/2), (''cache_read'', 30000, 3/10),
         (''cache_write'', 15000, 15/4), (''cache_write_1h'', 5000, 12)])"
  by code_simp

theorem settled_tokens_billed_once_witness:
  "sum_list (map (\<lambda>l. if cl_meter l \<noteq> ''output'' then cl_units l else 0)
     (lines_of [(''input'', 200000, 6), (''output'', 4000, 45/2), (''cache_read'', 30000, 3/10),
       (''cache_write'', 15000, 15/4), (''cache_write_1h'', 5000, 12)])) =
   of_int (total_input_tokens (billable_usage 200000 4000 False 30000 20000 5000))"
  by (rule settled_tokens_billed_once[OF sonnet_settles, THEN conjunct1])

text \<open>
  The pre-dispatch estimate bounds the settlement. For a token-priced model, when the
  estimate was made for at least the billable input and the completion tokens the provider then
  reports, on the same threshold tier, and every cache write was announced by its TTL, the
  settled cost is at most the estimate.
\<close>

theorem estimate_bounds_settlement:
  assumes "estimate_metered_cost pricing est_in est_out ttl None = Inr est"
    and "price_billable_usage pricing usage = Inr (cost, meters, lines)"
    and "\<not> priced_per_request (Some pricing)"
    and "wf_usage usage"
    and "total_input_tokens usage \<le> est_in" "completion_tokens usage \<le> est_out"
    and "effective_rates pricing est_in = effective_rates pricing (total_input_tokens usage)"
    and "cache_write_tokens usage \<noteq> 0 \<longrightarrow> ttl \<noteq> None"
    and "cache_write_1h_tokens usage \<noteq> 0 \<longrightarrow> ttl = Some TTL_1h"
  shows "cost \<le> est"
proof -
  obtain rates where rates: "effective_rates pricing (total_input_tokens usage) = Inr rates"
    and cost: "cost = quantize_cost (sum_list (map charge_meter (charged_meters rates usage)))"
    using assms(2) by (auto simp: price_billable_usage_def bind_result_Inr_iff price_meters_Inr_iff)
  note wr = effective_rates_wf[OF rates]
  have nn: "0 \<le> total_input_tokens usage" "0 \<le> completion_tokens usage"
    using assms(4) by (auto simp: wf_usage_def)
  then have mx: "max est_in 0 = est_in" "max est_out 0 = est_out" using assms(5,6) by auto
  define d where
    "d = max_rate (input_price_per_million rates) (read_candidates rates @ write_candidates rates ttl)"
  have est: "est = quantize_cost (meter_cost (of_int est_in) d
      + meter_cost (of_int est_out) (output_price_per_million rates))"
    using assms(1,3,7) rates
    by (simp add: estimate_metered_cost_def mx Let_def d_def split: bool.splits)
  have rate: "0 \<le> d" "0 \<le> output_price_per_million rates"
    using wr max_rate_ge_first[of "input_price_per_million rates"]
    by (auto simp: wf_rates_def d_def intro: order_trans)
  have "sum_list (map charge_meter (charged_meters rates usage)) \<le>
      meter_cost (of_int (total_input_tokens usage)) d +
      meter_cost (of_int (completion_tokens usage)) (output_price_per_million rates)"
    by (rule charged_cost_bound[OF assms(4) wr])
       (use meters_at_most_estimate_rate[OF assms(4) wr assms(8,9)] in \<open>auto simp: d_def\<close>)
  also have "\<dots> \<le> meter_cost (of_int est_in) d
      + meter_cost (of_int est_out) (output_price_per_million rates)"
    using assms(5,6) rate by (intro add_mono meter_cost_mono) auto
  finally show ?thesis
    unfolding cost est by (rule quantize_cost_mono[OF wf_meter_sum_nonneg[OF assms(4) wr]])
qed

theorem estimate_bounds_settlement_witness:
  "141525/100000 \<le> (3255/1000 :: rat)"
proof (rule estimate_bounds_settlement[OF _ sonnet_settles])
  show "estimate_metered_cost sonnet_pricing 260000 6000 (Some TTL_1h) None = Inr (3255/1000)"
    by code_simp
  show "effective_rates sonnet_pricing 260000 = effective_rates sonnet_pricing
      (total_input_tokens (billable_usage 200000 4000 False 30000 20000 5000))"
    by code_simp
qed (simp_all add: wf_usage_def billable_usage_def priced_per_request_def current_unit_name_def
    sonnet_pricing_def)

text \<open>
  The rates of a request come from the highest threshold tier it reaches. When
  \<open>applicable_tier\<close> names a tier, that tier is in the row, its bound is at most the billable
  input, and no tier the request reaches has a higher bound; when it names none, no tier of the
  row is reached.
\<close>

theorem tier_is_highest_reached:
  assumes "applicable_tier (Some es) total_in = Inr res"
  shows "case res of
      None \<Rightarrow> \<not> (\<exists>t bound. TierDict t \<in> set es \<and> tier_threshold t = Inr (Some bound) \<and>
        bound \<le> total_in)
    | Some t \<Rightarrow> TierDict t \<in> set es \<and> (\<exists>bound. tier_threshold t = Inr (Some bound) \<and>
        0 \<le> bound \<and> bound \<le> total_in \<and>
        (\<forall>t' bound'. TierDict t' \<in> set es \<and> tier_threshold t' = Inr (Some bound') \<and>
          bound' \<le> total_in \<longrightarrow> bound' \<le> bound))"
proof -
  have "tier_threshold t = Inr (Some b) \<Longrightarrow> 0 \<le> b" for t b
    by (auto simp: tier_threshold_def split: option.splits pyval.splits sum.splits bool.splits if_splits)
  then show ?thesis
    using applicable_tier_spec[OF assms] unfolding reaches_def by (fastforce split: option.splits)
qed

definition sample_tier :: "pyval \<Rightarrow> pyval \<Rightarrow> tier_entry" where
  "sample_tier bound rate = TierDict
     \<lparr>tier_min_input_tokens = Some bound, tier_input = rate, tier_output = PyNone,
      tier_cache_read = PyNone, tier_cache_write = PyNone\<rparr>"

theorem tier_is_highest_reached_witness:
  "\<exists>bound. tier_threshold
     \<lparr>tier_min_input_tokens = Some (PyStr (Some 100) None), tier_input = PyInt 2,
      tier_output = PyNone, tier_cache_read = PyNone, tier_cache_write = PyNone\<rparr> = Inr (Some bound)
   \<and> bound \<le> 150"
proof -
  have "applicable_tier (Some [sample_tier (PyInt 50) (PyInt 1), TierOther,
      sample_tier (PyStr (Some 100) None) (PyInt 2), sample_tier (PyInt 200) (PyInt 3)]) 150 =
    Inr (Some \<lparr>tier_min_input_tokens = Some (PyStr (Some 100) None), tier_input = PyInt 2,
      tier_output = PyNone, tier_cache_read = PyNone, tier_cache_write = PyNone\<rparr>)"
    by code_simp
  from tier_is_highest_reached[OF this] show ?thesis by auto
qed

text \<open>
  Rounding a cost moves it by at most half a micro-dollar, lands on a whole number of
  micro-dollars, never goes below zero for a nonnegative amount, preserves the order of amounts,
  and rounding an amount twice is rounding it once.
\<close>

theorem quantize_cost_rounds:
  shows "\<bar>quantize_cost x - x\<bar> \<le> 1/2000000 \<and> quantize_cost x * 1000000 \<in> \<int>
    \<and> quantize_cost (quantize_cost x) = quantize_cost x
    \<and> (\<forall>y. 0 \<le> x \<and> x \<le> y \<longrightarrow> 0 \<le> quantize_cost x \<and> quantize_cost x \<le> quantize_cost y)"
proof -
  have "\<bar>quantize_cost x - x\<bar> * 1000000 = \<bar>of_int (quantize_micros x) - x * 1000000\<bar>"
    by (simp add: quantize_cost_def abs_mult[symmetric, of _ "1000000 :: rat", simplified] left_diff_distrib)
  then have "\<bar>quantize_cost x - x\<bar> * 1000000 \<le> 1/2"
    using round_half_up_close[of "x * 1000000"] by (simp add: quantize_micros_def)
  moreover have "quantize_cost x * 1000000 \<in> \<int>" by (simp add: quantize_cost_def)
  ultimately show ?thesis using quantize_cost_mono quantize_cost_nonneg by simp
qed

theorem quantize_cost_rounds_witness:
  "quantize_cost (5/10000000) = 1/1000000 \<and> quantize_cost (5/10000000) \<le> quantize_cost (1/1000)"
  using quantize_cost_rounds[of "5/10000000"]
  by (simp add: quantize_cost_def quantize_micros_def round_half_up_def)

text \<open>
  The estimate of a slot in any published unit bounds what it settles at: a charge for a
  quantity up to the estimated one, at the base, reasoning or cache-read price, or at a
  cache-write price on the announced TTL, rounds to at most the estimate.
\<close>

theorem unit_estimate_bounds_charge:
  assumes "estimate_unit_cost price (DFin q) ttl = Inr est"
    and "kind \<in> set (estimate_kinds ttl)"
    and "charge_unit_price price (DFin used) meter kind ttl = Inr (Some charge)"
    and "used \<le> q"
  shows "quantize_cost (uc_cost charge) \<le> est"
proof -
  obtain r where r: "unit_rate price kind ttl = Some r"
    and used: "0 \<le> used" and c: "uc_cost charge = used * ur_price r / PRICE_PER (ur_unit r)"
    using assms(3)
    by (auto simp: charge_unit_price_def charge_unit_def unit_rate_cost_def unit_cost_def
        quantity_def bind_result_Inr_iff split: option.splits if_splits)
  have pr: "0 \<le> ur_price r" using unit_rate_SomeD[OF r] by simp
  have "quantize_cost (uc_cost charge) \<le> quantize_cost (q * ur_price r / PRICE_PER (ur_unit r))"
    unfolding c
    by (rule quantize_cost_mono)
       (use used pr assms(4) in \<open>auto intro!: divide_right_mono mult_right_mono simp: less_imp_le\<close>)
  also have "\<dots> \<le> est"
    by (rule unit_estimate_dearest[OF assms(1) _ assms(2) r]) (use used assms(4) in simp)
  finally show ?thesis .
qed

theorem unit_estimate_bounds_charge_witness:
  "quantize_cost (18/100) \<le> (2/10 :: rat)"
proof -
  define p where "p = \<lparr>up_unit = Some ''second'', up_price = PyFloat (DFin (1/100)),
    up_reasoning = PyNone, up_cache = Some \<lparr>cp_read = PyInt 0, cp_write = PyFloat (DFin (1/50)),
      cp_write_ttls = [(''1h'', PyFloat DNaN)], cp_storage = PyNone\<rparr>\<rparr>"
  have e: "estimate_unit_cost p (DFin 10) (Some ''1h'') = Inr (2/10)"
    unfolding p_def by code_simp
  have c: "charge_unit_price p (DFin 9) ''out'' KCacheWrite (Some ''1h'') =
      Inr (Some \<lparr>uc_cost = 18/100, uc_lines = [\<lparr>cl_meter = ''out'', cl_units = 9,
        cl_unit = Some ''second'', cl_rate = UnitRateOf (1/50), cl_cost = 18/100\<rparr>]\<rparr>)"
    unfolding p_def by code_simp
  show ?thesis
    using unit_estimate_bounds_charge[OF e _ c] by (simp add: estimate_kinds_def)
qed

end
