(* ===== verification/Rate_Window.thy ===== *)
theory Rate_Window
  imports Prelude
begin

text \<open>
  The sliding-window log of \<open>rate_limit.py\<close>: \<open>SlidingWindowLog\<close> with its three operations and
  its periodic cleanup, and the limiters that sit directly on it (\<open>RateLimiter\<close>).

  Instants are microseconds of \<open>time.monotonic()\<close>, passed in as the reading an operation takes.
  The source uses floating point seconds; the model computes exactly. A dictionary is a map. The
  \<open>KeyError\<close> of \<open>window.costs.pop(expired)\<close> is a branch of the model (\<open>Key_Error\<close>); the invariant
  \<open>log_ok\<close> is what makes it unreachable.
\<close>

section \<open>What a store answers\<close>

record rate_window =
  rw_allowed :: bool
  rw_count :: int
  rw_reset_after :: instant
  rw_handle :: "string option"

datatype store_error = Key_Error string | Store_Unavailable

section \<open>The log\<close>

record log_window =
  lw_entries :: "(instant \<times> string) list"
  lw_costs :: "string \<rightharpoonup> int"
  lw_total :: int

definition empty_window :: log_window where
  "empty_window = \<lparr> lw_entries = [], lw_costs = Map.empty, lw_total = 0 \<rparr>"

record window_log =
  wl_requests :: "string \<rightharpoonup> log_window"
  wl_call_count :: nat
  wl_widest :: instant
  wl_handles :: nat

definition empty_log :: window_log where
  "empty_log = \<lparr> wl_requests = Map.empty, wl_call_count = 0, wl_widest = 0, wl_handles = 0 \<rparr>"

definition cleanup_interval :: nat where
  "cleanup_interval = 1000"

text \<open>The \<open>while\<close> loop that \<open>hit\<close> and \<open>peek\<close> share.\<close>

fun evict_entries ::
  "instant \<Rightarrow> (instant \<times> string) list \<Rightarrow> (string \<rightharpoonup> int) \<Rightarrow> int \<Rightarrow> store_error + log_window" where
  "evict_entries cutoff [] costs spent =
     Inr \<lparr> lw_entries = [], lw_costs = costs, lw_total = spent \<rparr>"
| "evict_entries cutoff ((t, h) # es) costs spent =
     (if t \<le> cutoff
      then (case costs h of
              None \<Rightarrow> Inl (Key_Error h)
            | Some c \<Rightarrow> evict_entries cutoff es (costs(h := None)) (spent - c))
      else Inr \<lparr> lw_entries = (t, h) # es, lw_costs = costs, lw_total = spent \<rparr>)"

definition evict :: "instant \<Rightarrow> log_window \<Rightarrow> store_error + log_window" where
  "evict cutoff w = evict_entries cutoff (lw_entries w) (lw_costs w) (lw_total w)"

definition reset_after :: "instant \<Rightarrow> instant \<Rightarrow> log_window \<Rightarrow> instant" where
  "reset_after now window_sec w =
     (case lw_entries w of [] \<Rightarrow> window_sec | (t, _) # _ \<Rightarrow> t + window_sec - now)"

definition idle_since :: "instant \<Rightarrow> log_window \<Rightarrow> bool" where
  "idle_since cutoff w \<longleftrightarrow> lw_entries w = [] \<or> fst (last (lw_entries w)) \<le> cutoff"

text \<open>\<open>_cleanup\<close>.\<close>

definition cleanup_keys :: "instant \<Rightarrow> (string \<rightharpoonup> log_window) \<Rightarrow> (string \<rightharpoonup> log_window)" where
  "cleanup_keys cutoff requests = (\<lambda>k. case requests k of
       None \<Rightarrow> None
     | Some w \<Rightarrow> if idle_since cutoff w then None else Some w)"

text \<open>The first statements of \<open>hit\<close>: the widest window, the call counter and the cleanup.\<close>

definition note_call :: "instant \<Rightarrow> instant \<Rightarrow> window_log \<Rightarrow> window_log" where
  "note_call now window_sec L =
     (let widest = max (wl_widest L) window_sec;
          calls = wl_call_count L + 1
      in if calls \<ge> cleanup_interval
         then L\<lparr> wl_widest := widest, wl_call_count := 0,
                 wl_requests := cleanup_keys (now - widest) (wl_requests L) \<rparr>
         else L\<lparr> wl_widest := widest, wl_call_count := calls \<rparr>)"

text \<open>The \<open>defaultdict\<close> lookup.\<close>

definition window_of :: "(string \<rightharpoonup> log_window) \<Rightarrow> string \<Rightarrow> log_window" where
  "window_of requests key = (case requests key of None \<Rightarrow> empty_window | Some w \<Rightarrow> w)"

definition admit_entry :: "instant \<Rightarrow> string \<Rightarrow> int \<Rightarrow> log_window \<Rightarrow> log_window" where
  "admit_entry now handle cost w = w\<lparr>
     lw_entries := lw_entries w @ [(now, handle)],
     lw_costs := (lw_costs w)(handle \<mapsto> cost),
     lw_total := lw_total w + cost \<rparr>"

text \<open>
  \<open>hit\<close>. When the loop raises, the entries it had already popped are not tracked: the log is
  returned as it was before the loop.
\<close>

definition log_hit ::
  "instant \<Rightarrow> string \<Rightarrow> int \<Rightarrow> instant \<Rightarrow> int \<Rightarrow> window_log
     \<Rightarrow> (store_error + rate_window) \<times> window_log" where
  "log_hit now key limit window_sec cost L =
     (let L1 = note_call now window_sec L in
      case evict (now - window_sec) (window_of (wl_requests L1) key) of
        Inl e \<Rightarrow> (Inl e, L1)
      | Inr w \<Rightarrow>
          if lw_total w + cost \<le> limit
          then let handle = show_int (int (wl_handles L1));
                   w' = admit_entry now handle cost w
               in (Inr \<lparr> rw_allowed = True, rw_count = lw_total w',
                         rw_reset_after = reset_after now window_sec w', rw_handle = Some handle \<rparr>,
                   L1\<lparr> wl_requests := (wl_requests L1)(key \<mapsto> w'), wl_handles := wl_handles L1 + 1 \<rparr>)
          else (Inr \<lparr> rw_allowed = False, rw_count = lw_total w,
                      rw_reset_after = reset_after now window_sec w, rw_handle = None \<rparr>,
                L1\<lparr> wl_requests := (wl_requests L1)(key \<mapsto> w) \<rparr>))"

definition log_peek ::
  "instant \<Rightarrow> string \<Rightarrow> instant \<Rightarrow> window_log \<Rightarrow> (store_error + rate_window) \<times> window_log" where
  "log_peek now key window_sec L =
     (case wl_requests L key of
        None \<Rightarrow> (Inr \<lparr> rw_allowed = True, rw_count = 0, rw_reset_after = window_sec, rw_handle = None \<rparr>, L)
      | Some w0 \<Rightarrow>
          (case evict (now - window_sec) w0 of
             Inl e \<Rightarrow> (Inl e, L)
           | Inr w \<Rightarrow>
               (Inr \<lparr> rw_allowed = True, rw_count = lw_total w,
                      rw_reset_after = reset_after now window_sec w, rw_handle = None \<rparr>,
                L\<lparr> wl_requests := (wl_requests L)(key \<mapsto> w) \<rparr>)))"

definition settle_window :: "string \<Rightarrow> int \<Rightarrow> log_window \<Rightarrow> log_window" where
  "settle_window handle cost w =
     (case lw_costs w handle of
        None \<Rightarrow> w
      | Some old \<Rightarrow> w\<lparr> lw_total := lw_total w + (cost - old), lw_costs := (lw_costs w)(handle \<mapsto> cost) \<rparr>)"

definition log_settle :: "string \<Rightarrow> string \<Rightarrow> int \<Rightarrow> window_log \<Rightarrow> window_log" where
  "log_settle key handle cost L =
     (case wl_requests L key of
        None \<Rightarrow> L
      | Some w \<Rightarrow> L\<lparr> wl_requests := (wl_requests L)(key \<mapsto> settle_window handle cost w) \<rparr>)"

section \<open>The limiters on a log\<close>

definition rate_limited_detail :: string where
  "rate_limited_detail = ''Rate limit exceeded''"

text \<open>\<open>_info_or_raise\<close>: the 429 carries \<open>Retry-After\<close> in whole seconds, rounded up.\<close>

record rate_info =
  ri_limit :: int
  ri_remaining :: int
  ri_reset :: instant

datatype limiter_error =
    Too_Many_Requests string "int option"
  | Limiter_Store_Error store_error

definition ceil_seconds :: "instant \<Rightarrow> int" where
  "ceil_seconds us = - ((- us) div 1000000)"

definition info_or_raise :: "instant \<Rightarrow> rate_window \<Rightarrow> int \<Rightarrow> limiter_error + rate_info" where
  "info_or_raise wall w limit =
     (if \<not> rw_allowed w
      then Inl (Too_Many_Requests rate_limited_detail (Some (ceil_seconds (rw_reset_after w))))
      else Inr \<lparr> ri_limit = limit, ri_remaining = limit - rw_count w, ri_reset = wall + rw_reset_after w \<rparr>)"

record rate_limiter =
  rl_rpm :: int
  rl_window_sec :: instant
  rl_log :: window_log

text \<open>\<open>RateLimiter.check\<close> and \<open>RateLimiter.require_room\<close>; \<open>wall\<close> is \<open>time.time()\<close>.\<close>

definition limiter_check ::
  "instant \<Rightarrow> instant \<Rightarrow> string \<Rightarrow> rate_limiter \<Rightarrow> (limiter_error + rate_info) \<times> rate_limiter" where
  "limiter_check wall now key l =
     (case log_hit now key (rl_rpm l) (rl_window_sec l) 1 (rl_log l) of
        (Inl e, L) \<Rightarrow> (Inl (Limiter_Store_Error e), l\<lparr> rl_log := L \<rparr>)
      | (Inr w, L) \<Rightarrow> (info_or_raise wall w (rl_rpm l), l\<lparr> rl_log := L \<rparr>))"

definition require_room ::
  "instant \<Rightarrow> instant \<Rightarrow> string \<Rightarrow> rate_limiter \<Rightarrow> (limiter_error + unit) \<times> rate_limiter" where
  "require_room wall now key l =
     (case log_peek now key (rl_window_sec l) (rl_log l) of
        (Inl e, L) \<Rightarrow> (Inl (Limiter_Store_Error e), l\<lparr> rl_log := L \<rparr>)
      | (Inr w, L) \<Rightarrow>
          (if rw_count w \<ge> rl_rpm l
           then (case info_or_raise wall (w\<lparr> rw_allowed := False, rw_handle := None \<rparr>) (rl_rpm l) of
                   Inl e \<Rightarrow> (Inl e, l\<lparr> rl_log := L \<rparr>)
                 | Inr _ \<Rightarrow> (Inr (), l\<lparr> rl_log := L \<rparr>))
           else (Inr (), l\<lparr> rl_log := L \<rparr>)))"

text \<open>\<open>rate_limit_headers\<close>; \<open>int(info.reset)\<close> truncates the seconds.\<close>

definition rate_limit_headers :: "rate_info \<Rightarrow> (string \<times> string) list" where
  "rate_limit_headers info =
     [(''X-RateLimit-Limit'', show_int (ri_limit info)),
      (''X-RateLimit-Remaining'', show_int (ri_remaining info)),
      (''X-RateLimit-Reset'', show_int (ri_reset info div 1000000))]"

section \<open>The invariant of a log\<close>

definition handles_of :: "log_window \<Rightarrow> string list" where
  "handles_of w = map snd (lw_entries w)"

definition window_ok :: "log_window \<Rightarrow> bool" where
  "window_ok w \<longleftrightarrow> distinct (handles_of w) \<and> dom (lw_costs w) = set (handles_of w)
     \<and> lw_total w = sum_list (map (\<lambda>h. the (lw_costs w h)) (handles_of w))
     \<and> sorted (map fst (lw_entries w))"

text \<open>The entries admitted after \<open>cutoff\<close>, with what each counts for.\<close>

definition live_entries :: "instant \<Rightarrow> log_window \<Rightarrow> (instant \<times> string \<times> int) list" where
  "live_entries cutoff w =
     map (\<lambda>(t, h). (t, h, the (lw_costs w h))) (filter (\<lambda>(t, h). cutoff < t) (lw_entries w))"

definition live_cost :: "(instant \<times> string \<times> int) list \<Rightarrow> int" where
  "live_cost es = sum_list (map (\<lambda>(t, h, c). c) es)"

lemma live_cost_simps [simp]:
  "live_cost [] = 0"
  "live_cost ((t, h, c) # es) = c + live_cost es"
  "live_cost (es @ fs) = live_cost es + live_cost fs"
  by (simp_all add: live_cost_def)

lemma sum_costs_other:
  "h \<notin> set hs \<Longrightarrow> sum_list (map (\<lambda>g. the (if g = h then x else m g)) hs)
     = sum_list (map (\<lambda>g. the (m g :: 'c :: monoid_add option)) hs)"
  by (induction hs) auto

lemma window_ok_empty [simp]: "window_ok empty_window"
  by (simp add: window_ok_def empty_window_def handles_of_def)

lemma live_entries_empty [simp]: "live_entries c empty_window = []"
  by (simp add: live_entries_def empty_window_def)

lemma window_ok_Cons:
  assumes "window_ok \<lparr> lw_entries = (t, h) # es, lw_costs = costs, lw_total = spent \<rparr>"
  obtains c where "costs h = Some c" "h \<notin> set (map snd es)"
    "window_ok \<lparr> lw_entries = es, lw_costs = costs(h := None), lw_total = spent - c \<rparr>"
    "\<forall>(s, g) \<in> set es. t \<le> s"
proof -
  have dom: "dom costs = insert h (snd ` set es)" and fresh: "h \<notin> snd ` set es"
    using assms by (auto simp: window_ok_def handles_of_def)
  then obtain c where c: "costs h = Some c" by auto
  have keep: "map (\<lambda>g. the ((costs(h := None)) g)) (map snd es) = map (\<lambda>g. the (costs g)) (map snd es)"
    using fresh by auto
  have paid: "spent = c + sum_list (map (\<lambda>g. the (costs g)) (map snd es))"
    using assms c by (simp add: window_ok_def handles_of_def)
  have "spent - c = sum_list (map (\<lambda>g. the ((costs(h := None)) g)) (map snd es))"
    unfolding keep paid by simp
  moreover have "dom (costs(h := None)) = snd ` set es"
    using dom fresh by auto
  ultimately have "window_ok \<lparr> lw_entries = es, lw_costs = costs(h := None), lw_total = spent - c \<rparr>"
    using assms by (simp add: window_ok_def handles_of_def)
  moreover have "\<forall>(s, g) \<in> set es. t \<le> s"
    using assms by (auto simp: window_ok_def)
  ultimately show thesis
    using c fresh that by auto
qed

lemma evict_entries_ok:
  assumes "window_ok \<lparr> lw_entries = es, lw_costs = costs, lw_total = spent \<rparr>"
  shows "\<exists>w. evict_entries cutoff es costs spent = Inr w \<and> window_ok w
     \<and> lw_entries w = filter (\<lambda>(t, h). cutoff < t) es
     \<and> (\<forall>h \<in> set (handles_of w). lw_costs w h = costs h)"
  using assms
proof (induction cutoff es costs spent rule: evict_entries.induct)
  case (1 cutoff costs spent)
  then show ?case by (simp add: handles_of_def)
next
  case (2 cutoff t h es costs spent)
  from 2(2) obtain c where c: "costs h = Some c" "h \<notin> set (map snd es)"
      and ok: "window_ok \<lparr> lw_entries = es, lw_costs = costs(h := None), lw_total = spent - c \<rparr>"
      and later: "\<forall>(s, g) \<in> set es. t \<le> s"
    by (rule window_ok_Cons)
  show ?case
  proof (cases "t \<le> cutoff")
    case True
    obtain w where w: "evict_entries cutoff es (costs(h := None)) (spent - c) = Inr w" "window_ok w"
        "lw_entries w = filter (\<lambda>(t, h). cutoff < t) es"
        "\<forall>g \<in> set (handles_of w). lw_costs w g = (costs(h := None)) g"
      using 2(1)[OF True c(1) ok] by blast
    have "\<forall>g \<in> set (handles_of w). lw_costs w g = costs g"
      using w(3,4) c(2) by (force simp: handles_of_def image_iff)
    then show ?thesis using True c(1) w by auto
  next
    case False
    have "filter (\<lambda>(s, g). cutoff < s) es = es"
      using later False by (auto simp: filter_id_conv)
    then show ?thesis using False 2(2) by simp
  qed
qed

lemma evict_ok:
  assumes "window_ok w"
  obtains w' where "evict cutoff w = Inr w'" "window_ok w'"
    "lw_entries w' = filter (\<lambda>(t, h). cutoff < t) (lw_entries w)"
    "\<And>c. cutoff \<le> c \<Longrightarrow> live_entries c w' = live_entries c w"
    "lw_total w' = live_cost (live_entries cutoff w)"
proof -
  have "window_ok \<lparr> lw_entries = lw_entries w, lw_costs = lw_costs w, lw_total = lw_total w \<rparr>"
    using assms by (cases w) simp
  from evict_entries_ok[OF this] obtain w' where
    w': "evict_entries cutoff (lw_entries w) (lw_costs w) (lw_total w) = Inr w'" "window_ok w'"
      "lw_entries w' = filter (\<lambda>(t, h). cutoff < t) (lw_entries w)"
      "\<forall>h \<in> set (handles_of w'). lw_costs w' h = lw_costs w h"
    by blast
  have live: "live_entries c w' = live_entries c w" if "cutoff \<le> c" for c
  proof -
    have "filter (\<lambda>(t, h). c < t) (filter (\<lambda>(t, h). cutoff < t) (lw_entries w))
        = filter (\<lambda>(t, h). c < t) (lw_entries w)"
      using that by (auto intro!: filter_cong simp: filter_filter)
    moreover have "lw_costs w' (snd e) = lw_costs w (snd e)"
      if "e \<in> set (lw_entries w)" "c < fst e" for e
    proof -
      have "e \<in> set (lw_entries w')"
        using that \<open>cutoff \<le> c\<close> by (auto simp: w'(3) case_prod_unfold)
      then show ?thesis
        using w'(4) by (simp add: handles_of_def)
    qed
    ultimately show ?thesis
      unfolding live_entries_def w'(3) by (auto intro!: map_cong)
  qed
  have "lw_total w' = live_cost (live_entries cutoff w')"
  proof -
    have "filter (\<lambda>(t, h). cutoff < t) (lw_entries w') = lw_entries w'"
      by (simp add: w'(3) filter_filter case_prod_unfold)
    then show ?thesis
      using w'(2) by (simp add: window_ok_def live_cost_def live_entries_def handles_of_def case_prod_unfold
          o_def)
  qed
  then show thesis
    using that w' live by (auto simp: evict_def)
qed

definition key_windows_ok :: "(string \<Rightarrow> instant) \<Rightarrow> instant \<Rightarrow> window_log \<Rightarrow> bool" where
  "key_windows_ok ww now L \<longleftrightarrow> (\<forall>k w. wl_requests L k = Some w \<longrightarrow> window_ok w \<and> ww k \<le> wl_widest L
     \<and> (\<forall>(t, h) \<in> set (lw_entries w). t \<le> now))"

text \<open>Every handle of the log is one the counter has issued.\<close>

definition handles_issued :: "window_log \<Rightarrow> bool" where
  "handles_issued L \<longleftrightarrow> (\<forall>k w. wl_requests L k = Some w \<longrightarrow>
     set (handles_of w) \<subseteq> (\<lambda>n. show_int (int n)) ` {..<wl_handles L})"

definition log_ok :: "(string \<Rightarrow> instant) \<Rightarrow> instant \<Rightarrow> window_log \<Rightarrow> bool" where
  "log_ok ww now L \<longleftrightarrow> key_windows_ok ww now L \<and> handles_issued L"

text \<open>What counts against \<open>key\<close> at instant \<open>t\<close>, when \<open>ww\<close> gives each key its window.\<close>

definition log_live ::
  "(string \<Rightarrow> instant) \<Rightarrow> window_log \<Rightarrow> string \<Rightarrow> instant \<Rightarrow> (instant \<times> string \<times> int) list" where
  "log_live ww L key t = live_entries (t - ww key) (window_of (wl_requests L) key)"

lemma log_ok_empty [simp]: "log_ok ww now empty_log"
  by (simp add: log_ok_def key_windows_ok_def handles_issued_def empty_log_def)

lemma log_live_empty [simp]: "log_live ww empty_log k t = []"
  by (simp add: log_live_def empty_log_def window_of_def)

lemma log_ok_mono: "log_ok ww now L \<Longrightarrow> now \<le> later \<Longrightarrow> log_ok ww later L"
  unfolding log_ok_def key_windows_ok_def by fastforce

lemma window_of_ok: "log_ok ww now L \<Longrightarrow> window_ok (window_of (wl_requests L) key)"
  by (auto simp: log_ok_def key_windows_ok_def window_of_def split: option.splits)

lemma sorted_le_last: "sorted xs \<Longrightarrow> x \<in> set xs \<Longrightarrow> x \<le> last (xs :: 'a :: linorder list)"
  by (induction xs) auto

lemma idle_window_dead:
  assumes "window_ok w" "idle_since cutoff w" "cutoff \<le> c"
  shows "live_entries c w = []"
proof -
  have "t \<le> cutoff" if "(t, h) \<in> set (lw_entries w)" for t h
  proof -
    from that have ne: "lw_entries w \<noteq> []" by auto
    have "t \<in> set (map fst (lw_entries w))" using that by force
    then have "t \<le> last (map fst (lw_entries w))"
      using assms(1) by (intro sorted_le_last) (simp_all add: window_ok_def)
    then show ?thesis using assms(2) ne by (simp add: idle_since_def last_map)
  qed
  then show ?thesis
    using assms(3) by (force simp: live_entries_def filter_empty_conv)
qed

lemma cleanup_keys_live:
  assumes "window_ok (window_of requests k)" "cutoff \<le> c"
  shows "live_entries c (window_of (cleanup_keys cutoff requests) k) = live_entries c (window_of requests k)"
  using assms idle_window_dead[of "window_of requests k" cutoff c]
  by (auto simp: window_of_def cleanup_keys_def split: option.splits)

lemma note_call_ok:
  assumes "log_ok ww now L" "now \<le> later"
  shows "log_ok ww later (note_call later window_sec L)"
proof -
  have "cleanup_keys c (wl_requests L) k = Some w \<Longrightarrow> wl_requests L k = Some w" for c k w
    by (auto simp: cleanup_keys_def split: option.splits if_splits)
  then show ?thesis
    using log_ok_mono[OF assms] unfolding log_ok_def key_windows_ok_def handles_issued_def note_call_def Let_def
    by (auto simp: le_max_iff_disj split: if_splits) blast+
qed

lemma note_call_live:
  assumes "log_ok ww now L" "later \<le> t"
  shows "log_live ww (note_call later window_sec L) k t = log_live ww L k t"
proof (cases "wl_requests L k")
  case None
  then show ?thesis by (simp add: log_live_def note_call_def Let_def cleanup_keys_def window_of_def)
next
  case (Some w)
  then have "ww k \<le> wl_widest L"
    using assms by (auto simp: log_ok_def key_windows_ok_def)
  then show ?thesis
    using cleanup_keys_live[OF window_of_ok[OF assms(1)], of "later - max (wl_widest L) window_sec" "t - ww k" k]
      assms(2)
    by (simp add: log_live_def note_call_def Let_def)
qed

lemma note_call_widest: "window_sec \<le> wl_widest (note_call now window_sec L)"
  by (simp add: note_call_def Let_def)

lemma note_call_handles [simp]: "wl_handles (note_call now window_sec L) = wl_handles L"
  by (simp add: note_call_def Let_def)

lemma show_int_inj: "show_int (int m) = show_int (int n) \<longleftrightarrow> m = n"
  by (simp add: show_int_def) (metis digits_value_decimal_digits)

section \<open>What the operations do to the live entries\<close>

text \<open>Storing an evicted window back leaves the log well formed.\<close>

lemma store_window_ok:
  assumes "log_ok ww now L" "window_ok w" "ww key \<le> wl_widest L" "\<forall>(t, h) \<in> set (lw_entries w). t \<le> now"
    and "set (handles_of w) \<subseteq> (\<lambda>n. show_int (int n)) ` {..<n}" "wl_handles L \<le> n"
  shows "log_ok ww now (L\<lparr> wl_requests := (wl_requests L)(key \<mapsto> w), wl_handles := n \<rparr>)"
proof -
  have inc: "(\<lambda>n. show_int (int n)) ` {..<wl_handles L} \<subseteq> (\<lambda>n. show_int (int n)) ` {..<n}"
    using assms(6) by auto
  have "set (handles_of v) \<subseteq> (\<lambda>n. show_int (int n)) ` {..<n}"
    if "((wl_requests L)(key \<mapsto> w)) k = Some v" for k v
  proof (cases "k = key")
    case False
    then have "set (handles_of v) \<subseteq> (\<lambda>n. show_int (int n)) ` {..<wl_handles L}"
      using that assms(1) by (simp add: log_ok_def handles_issued_def)
    then show ?thesis using inc by (rule order_trans)
  qed (use that assms(5) in simp)
  then have "handles_issued (L\<lparr> wl_requests := (wl_requests L)(key \<mapsto> w), wl_handles := n \<rparr>)"
    by (simp add: handles_issued_def)
  moreover have "key_windows_ok ww now (L\<lparr> wl_requests := (wl_requests L)(key \<mapsto> w), wl_handles := n \<rparr>)"
    using assms(1-4) unfolding log_ok_def key_windows_ok_def by simp
  ultimately show ?thesis by (simp add: log_ok_def)
qed

lemma admit_entry_ok:
  assumes "window_ok w" "h \<notin> set (handles_of w)" "\<forall>(t, g) \<in> set (lw_entries w). t \<le> now"
  shows "window_ok (admit_entry now h cost w)"
    and "live_entries c (admit_entry now h cost w)
         = live_entries c w @ (if c < now then [(now, h, cost)] else [])"
proof -
  show "window_ok (admit_entry now h cost w)"
    using assms sum_costs_other[OF assms(2), of "Some cost" "lw_costs w"] unfolding window_ok_def
    by (auto simp: admit_entry_def handles_of_def sorted_append simp del: map_map)
  show "live_entries c (admit_entry now h cost w)
         = live_entries c w @ (if c < now then [(now, h, cost)] else [])"
  proof -
    have "(t, h) \<notin> set (lw_entries w)" for t
      using assms(2) by (force simp: handles_of_def)
    then show ?thesis by (auto simp: live_entries_def admit_entry_def)
  qed
qed

lemma reset_after_live:
  assumes "filter (\<lambda>(t, h). now - window < t) (lw_entries v) = lw_entries v"
  shows "reset_after now window v = (case live_entries (now - window) v of
        [] \<Rightarrow> window | (t, _) # _ \<Rightarrow> t + window - now)"
  using assms by (simp add: reset_after_def live_entries_def split: list.splits)

text \<open>The window \<open>hit\<close> decides on, after the cleanup and the eviction.\<close>

lemma hit_window_ready:
  assumes "log_ok ww now0 L" "now0 \<le> now"
  obtains w where "log_ok ww now (note_call now (ww key) L)"
    "ww key \<le> wl_widest (note_call now (ww key) L)"
    "\<And>k t. now \<le> t \<Longrightarrow> log_live ww (note_call now (ww key) L) k t = log_live ww L k t"
    "evict (now - ww key) (window_of (wl_requests (note_call now (ww key) L)) key) = Inr w"
    "window_ok w"
    "\<forall>(t, h) \<in> set (lw_entries w). t \<le> now"
    "set (handles_of w) \<subseteq> (\<lambda>n. show_int (int n)) ` {..<wl_handles L}"
    "\<And>t. now \<le> t \<Longrightarrow> live_entries (t - ww key) w = log_live ww L key t"
    "lw_total w = live_cost (log_live ww L key now)"
    "filter (\<lambda>(t, h). now - ww key < t) (lw_entries w) = lw_entries w"
proof -
  define L1 where "L1 = note_call now (ww key) L"
  have ok1: "log_ok ww now L1" unfolding L1_def by (rule note_call_ok[OF assms(1,2)])
  have live1: "log_live ww L1 k t = log_live ww L k t" if "now \<le> t" for k t
    unfolding L1_def by (rule note_call_live[OF assms(1) that])
  define w0 where "w0 = window_of (wl_requests L1) key"
  have past0: "\<forall>(t, h) \<in> set (lw_entries w0). t \<le> now"
    and issued0: "set (handles_of w0) \<subseteq> (\<lambda>n. show_int (int n)) ` {..<wl_handles L1}"
    using ok1 by (auto simp: w0_def window_of_def log_ok_def key_windows_ok_def handles_issued_def
        empty_window_def handles_of_def split: option.splits)
  obtain w where w: "evict (now - ww key) w0 = Inr w" "window_ok w"
      "lw_entries w = filter (\<lambda>(t, h). now - ww key < t) (lw_entries w0)"
      "\<And>c. now - ww key \<le> c \<Longrightarrow> live_entries c w = live_entries c w0"
      "lw_total w = live_cost (live_entries (now - ww key) w0)"
    using evict_ok[OF window_of_ok[OF ok1, of key, folded w0_def]] by metis
  show thesis
  proof (rule that[of w, folded L1_def, folded w0_def])
    show "log_ok ww now L1" "ww key \<le> wl_widest L1"
      using ok1 by (simp_all add: L1_def note_call_widest)
    show "\<And>k t. now \<le> t \<Longrightarrow> log_live ww L1 k t = log_live ww L k t" by (rule live1)
    show "evict (now - ww key) w0 = Inr w" "window_ok w" by (rule w)+
    show "\<forall>(t, h) \<in> set (lw_entries w). t \<le> now" using past0 by (auto simp: w(3))
    show "set (handles_of w) \<subseteq> (\<lambda>n. show_int (int n)) ` {..<wl_handles L}"
      using issued0 by (auto simp: w(3) handles_of_def L1_def)
    show "live_entries (t - ww key) w = log_live ww L key t" if "now \<le> t" for t
      using w(4)[of "t - ww key"] live1[OF that, of key] that by (simp add: log_live_def w0_def)
    show "lw_total w = live_cost (log_live ww L key now)"
      using w(5) live1[of now key] by (simp add: log_live_def w0_def)
    show "filter (\<lambda>(t, h). now - ww key < t) (lw_entries w) = lw_entries w"
      by (simp add: w(3) filter_filter case_prod_unfold)
  qed
qed

text \<open>
  \<open>hit\<close> never raises on a well-formed log. It admits exactly when the live entries of the key
  leave room for the cost, appends the new entry to them, and leaves every other key alone; the
  cleanup that may run in it changes no count.
\<close>

lemma log_hit_ok:
  assumes "log_ok ww now0 L" "now0 \<le> now" "0 < ww key"
  obtains r L' where "log_hit now key limit (ww key) cost L = (Inr r, L')"
    "log_ok ww now L'"
    "rw_allowed r \<longleftrightarrow> live_cost (log_live ww L key now) + cost \<le> limit"
    "rw_count r = live_cost (log_live ww L' key now)"
    "rw_reset_after r = (case log_live ww L' key now of [] \<Rightarrow> ww key | (t, _) # _ \<Rightarrow> t + ww key - now)"
    "rw_handle r = (if rw_allowed r then Some (show_int (int (wl_handles L))) else None)"
    "wl_handles L' = (if rw_allowed r then wl_handles L + 1 else wl_handles L)"
    "\<And>k t. now \<le> t \<Longrightarrow> log_live ww L' k t = log_live ww L k t @
       (if k = key \<and> rw_allowed r \<and> t < now + ww key
        then [(now, show_int (int (wl_handles L)), cost)] else [])"
proof -
  define L1 where "L1 = note_call now (ww key) L"
  have nh: "wl_handles L1 = wl_handles L" by (simp add: L1_def)
  obtain w where ok1: "log_ok ww now L1" and wide: "ww key \<le> wl_widest L1"
    and live1: "\<And>k t. now \<le> t \<Longrightarrow> log_live ww L1 k t = log_live ww L k t"
    and w: "evict (now - ww key) (window_of (wl_requests L1) key) = Inr w" "window_ok w"
    and past: "\<forall>(t, h) \<in> set (lw_entries w). t \<le> now"
    and issued: "set (handles_of w) \<subseteq> (\<lambda>n. show_int (int n)) ` {..<wl_handles L}"
    and live_w: "\<And>t. now \<le> t \<Longrightarrow> live_entries (t - ww key) w = log_live ww L key t"
    and count_w: "lw_total w = live_cost (log_live ww L key now)"
    and all_live: "filter (\<lambda>(t, h). now - ww key < t) (lw_entries w) = lw_entries w"
    by (rule hit_window_ready[OF assms(1,2), where key = key]) (simp add: L1_def)
  show thesis
  proof (cases "lw_total w + cost \<le> limit")
    case True
    let ?h = "show_int (int (wl_handles L))"
    let ?w = "admit_entry now ?h cost w"
    let ?L = "L1\<lparr> wl_requests := (wl_requests L1)(key \<mapsto> ?w), wl_handles := wl_handles L + 1 \<rparr>"
    have fresh: "?h \<notin> set (handles_of w)"
      using issued by (auto simp: show_int_inj)
    note entry = admit_entry_ok[OF w(2) fresh past]
    have issued': "set (handles_of ?w) \<subseteq> (\<lambda>n. show_int (int n)) ` {..<wl_handles L + 1}"
      using issued by (auto simp: handles_of_def admit_entry_def)
    have past': "\<forall>(t, h) \<in> set (lw_entries ?w). t \<le> now"
      using past by (auto simp: admit_entry_def)
    have live': "log_live ww ?L k t = log_live ww L k t @
        (if k = key \<and> True \<and> t < now + ww key then [(now, ?h, cost)] else [])" if "now \<le> t" for k t
      using that entry(2)[of "t - ww key" cost] live_w[OF that] live1[OF that, of k]
      by (simp add: log_live_def window_of_def)
    have all': "filter (\<lambda>(t, h). now - ww key < t) (lw_entries ?w) = lw_entries ?w"
      using all_live assms(3) by (simp add: admit_entry_def)
    have count': "lw_total ?w = live_cost (log_live ww ?L key now)"
      using count_w live'[of now key] assms(3) by (simp add: admit_entry_def)
    have reset': "reset_after now (ww key) ?w = (case log_live ww ?L key now of
        [] \<Rightarrow> ww key | (t, _) # _ \<Rightarrow> t + ww key - now)"
      using reset_after_live[OF all'] by (simp add: log_live_def window_of_def)
    have ok': "log_ok ww now ?L"
      by (rule store_window_ok[OF ok1 entry(1) wide past' issued']) (simp add: nh)
    have run: "log_hit now key limit (ww key) cost L =
        (Inr \<lparr> rw_allowed = True, rw_count = lw_total ?w, rw_reset_after = reset_after now (ww key) ?w,
           rw_handle = Some ?h \<rparr>, ?L)"
      using True w(1) by (simp add: log_hit_def Let_def L1_def[symmetric] nh)
    show ?thesis
      by (rule that[OF run ok']) (use True count_w count' reset' live' in \<open>simp_all add: nh\<close>)
  next
    case False
    let ?L = "L1\<lparr> wl_requests := (wl_requests L1)(key \<mapsto> w), wl_handles := wl_handles L \<rparr>"
    have same: "?L = L1\<lparr> wl_requests := (wl_requests L1)(key \<mapsto> w) \<rparr>" by (simp add: nh[symmetric])
    have live': "log_live ww ?L k t = log_live ww L k t" if "now \<le> t" for k t
      using live_w[OF that] live1[OF that, of k] by (simp add: log_live_def window_of_def)
    have ok': "log_ok ww now ?L"
      by (rule store_window_ok[OF ok1 w(2) wide past issued]) (simp add: nh)
    have reset': "reset_after now (ww key) w = (case log_live ww ?L key now of
        [] \<Rightarrow> ww key | (t, _) # _ \<Rightarrow> t + ww key - now)"
      using reset_after_live[OF all_live] by (simp add: log_live_def window_of_def)
    have run: "log_hit now key limit (ww key) cost L =
        (Inr \<lparr> rw_allowed = False, rw_count = lw_total w, rw_reset_after = reset_after now (ww key) w,
           rw_handle = None \<rparr>, ?L)"
      unfolding same using False w(1) by (simp add: log_hit_def Let_def L1_def[symmetric])
    show ?thesis
      by (rule that[OF run ok']) (use False count_w reset' live' in \<open>simp_all add: nh\<close>)
  qed
qed

definition settled_to ::
  "string \<Rightarrow> int \<Rightarrow> (instant \<times> string \<times> int) list \<Rightarrow> (instant \<times> string \<times> int) list" where
  "settled_to handle cost = map (\<lambda>(t, h, c). (t, h, if h = handle then cost else c))"

lemma settle_window_ok:
  assumes "window_ok w"
  shows "window_ok (settle_window handle cost w)"
    "lw_entries (settle_window handle cost w) = lw_entries w"
    "live_entries c (settle_window handle cost w) = settled_to handle cost (live_entries c w)"
proof -
  show entries: "lw_entries (settle_window handle cost w) = lw_entries w"
    by (simp add: settle_window_def split: option.splits)
  have member: "handle \<in> set (handles_of w) \<longleftrightarrow> lw_costs w handle \<noteq> None"
    using assms by (auto simp: window_ok_def)
  have change: "distinct hs \<Longrightarrow> handle \<in> set hs \<Longrightarrow>
      sum_list (map (\<lambda>h. the (if h = handle then Some cost else m h)) hs)
      = sum_list (map (\<lambda>h. the (m h)) hs) + (cost - the (m handle))" for hs and m :: "string \<Rightarrow> int option"
    by (induction hs) (auto simp: sum_costs_other)
  show "window_ok (settle_window handle cost w)"
    using assms member change[of "handles_of w" "lw_costs w"] unfolding window_ok_def settle_window_def
    by (auto simp: handles_of_def simp del: map_map split: option.splits)
  show "live_entries c (settle_window handle cost w) = settled_to handle cost (live_entries c w)"
  proof -
    have "(t, handle) \<notin> set (lw_entries w)" if "lw_costs w handle = None" for t
      using member that by (force simp: handles_of_def)
    then show ?thesis
      by (auto simp: live_entries_def settled_to_def settle_window_def split: option.splits)
  qed
qed

lemma log_settle_ok:
  assumes "log_ok ww now L"
  shows "log_ok ww now (log_settle key handle cost L)"
    and "log_live ww (log_settle key handle cost L) k t
         = (if k = key then settled_to handle cost (log_live ww L k t) else log_live ww L k t)"
    and "wl_handles (log_settle key handle cost L) = wl_handles L"
proof -
  show "wl_handles (log_settle key handle cost L) = wl_handles L"
    by (simp add: log_settle_def split: option.splits)
  show "log_ok ww now (log_settle key handle cost L)"
    using assms settle_window_ok(1,2)[where handle = handle and cost = cost] unfolding log_ok_def key_windows_ok_def handles_issued_def
    by (auto simp: log_settle_def handles_of_def split: option.splits if_splits)
  show "log_live ww (log_settle key handle cost L) k t
         = (if k = key then settled_to handle cost (log_live ww L k t) else log_live ww L k t)"
    using settle_window_ok(3)[OF window_of_ok[OF assms, of key], where handle = handle and cost = cost]
    by (auto simp: log_live_def log_settle_def window_of_def settled_to_def live_entries_def empty_window_def
        split: option.splits)
qed

text \<open>\<open>peek\<close> reports the count \<open>hit\<close> would decide on and changes no count.\<close>

lemma log_peek_ok:
  assumes "log_ok ww now0 L" "now0 \<le> now"
  obtains r L' where "log_peek now key (ww key) L = (Inr r, L')" "log_ok ww now L'"
    "rw_count r = live_cost (log_live ww L key now)" "rw_handle r = None"
    "\<And>k t. now \<le> t \<Longrightarrow> log_live ww L' k t = log_live ww L k t"
proof (cases "wl_requests L key")
  case None
  then show thesis
    using log_ok_mono[OF assms] by (intro that[of _ L])
      (auto simp: log_peek_def log_live_def window_of_def)
next
  case (Some w0)
  have ok: "log_ok ww now L" by (rule log_ok_mono[OF assms])
  have w0: "window_ok w0" using window_of_ok[OF ok, of key] Some by (simp add: window_of_def)
  obtain w where w: "evict (now - ww key) w0 = Inr w" "window_ok w"
      "lw_entries w = filter (\<lambda>(t, h). now - ww key < t) (lw_entries w0)"
      "\<And>c. now - ww key \<le> c \<Longrightarrow> live_entries c w = live_entries c w0"
      "lw_total w = live_cost (live_entries (now - ww key) w0)"
    using evict_ok[OF w0] by metis
  let ?L = "L\<lparr> wl_requests := (wl_requests L)(key \<mapsto> w), wl_handles := wl_handles L \<rparr>"
  have "log_ok ww now ?L"
  proof (rule store_window_ok[OF ok w(2)])
    show "ww key \<le> wl_widest L" using ok Some by (simp add: log_ok_def key_windows_ok_def)
    show "\<forall>(t, h) \<in> set (lw_entries w). t \<le> now"
      using ok Some by (force simp: log_ok_def key_windows_ok_def w(3))
    show "set (handles_of w) \<subseteq> (\<lambda>n. show_int (int n)) ` {..<wl_handles L}"
      using ok Some by (force simp: log_ok_def handles_issued_def handles_of_def w(3))
  qed simp
  then show thesis
    using w(1,4,5) Some by (intro that[of _ "L\<lparr> wl_requests := (wl_requests L)(key \<mapsto> w) \<rparr>"])
      (auto simp: log_peek_def log_live_def window_of_def)
qed

section \<open>Runs of a log\<close>

text \<open>
  A client's calls, each with the microseconds passed since the previous one
  (\<open>time.monotonic()\<close> never goes back), and the entries a run admits.
\<close>

datatype log_op =
    Hit_Op nat string int instant int
  | Settle_Op string string int
  | Peek_Op nat string instant

fun run_log :: "instant \<Rightarrow> log_op list \<Rightarrow> window_log \<Rightarrow> (instant \<times> string \<times> int) list" where
  "run_log now [] L = []"
| "run_log now (Hit_Op dt key limit window_sec cost # ops) L =
     (case log_hit (now + int dt) key limit window_sec cost L of
        (Inl e, L') \<Rightarrow> run_log (now + int dt) ops L'
      | (Inr r, L') \<Rightarrow>
          (if rw_allowed r then [(now + int dt, key, cost)] else []) @ run_log (now + int dt) ops L')"
| "run_log now (Settle_Op key handle cost # ops) L = run_log now ops (log_settle key handle cost L)"
| "run_log now (Peek_Op dt key window_sec # ops) L =
     run_log (now + int dt) ops (snd (log_peek (now + int dt) key window_sec L))"

definition admitted_cost :: "string \<Rightarrow> instant \<Rightarrow> instant \<Rightarrow> (instant \<times> string \<times> int) list \<Rightarrow> int" where
  "admitted_cost key after until_t es =
     sum_list (map (\<lambda>(t, k, c). if k = key \<and> after < t \<and> t \<le> until_t then c else 0) es)"

text \<open>
  One window per key, one limit on \<open>key\<close>, no negative cost there, and no estimate of \<open>key\<close>
  settled: the way \<open>RateLimiter\<close> and \<open>UserRateLimiter\<close> use a log.
\<close>

definition uses_one_limit :: "(string \<Rightarrow> instant) \<Rightarrow> string \<Rightarrow> int \<Rightarrow> log_op \<Rightarrow> bool" where
  "uses_one_limit ww key limit op = (case op of
       Hit_Op dt k n w c \<Rightarrow> w = ww k \<and> 0 < w \<and> (k = key \<longrightarrow> n = limit \<and> 0 \<le> c)
     | Settle_Op k h c \<Rightarrow> k \<noteq> key
     | Peek_Op dt k w \<Rightarrow> w = ww k)"

lemma admitted_cost_simps [simp]:
  "admitted_cost key a b [] = 0"
  "admitted_cost key a b ((t, k, c) # es) =
     (if k = key \<and> a < t \<and> t \<le> b then c else 0) + admitted_cost key a b es"
  "admitted_cost key a b (es @ fs) = admitted_cost key a b es + admitted_cost key a b fs"
  by (simp_all add: admitted_cost_def)

text \<open>The history a run has produced so far, tied to what the log still counts.\<close>

definition history_of ::
  "(string \<Rightarrow> instant) \<Rightarrow> string \<Rightarrow> int \<Rightarrow> instant \<Rightarrow> window_log \<Rightarrow> (instant \<times> string \<times> int) list \<Rightarrow> bool" where
  "history_of ww key limit now L H \<longleftrightarrow> log_ok ww now L
     \<and> (\<forall>(t, k, c) \<in> set H. t \<le> now \<and> (k = key \<longrightarrow> 0 \<le> c))
     \<and> (\<forall>t. now \<le> t \<longrightarrow> live_cost (log_live ww L key t) = admitted_cost key (t - ww key) t H)
     \<and> (\<forall>t. admitted_cost key (t - ww key) t H \<le> limit)"

lemma admitted_cost_later:
  assumes "\<forall>(t, k, c) \<in> set H. t \<le> now \<and> (k = key \<longrightarrow> 0 \<le> c)" "now \<le> t"
  shows "admitted_cost key (t - w) t H \<le> admitted_cost key (now - w) now H"
  using assms(1)
proof (induction H)
  case (Cons e H)
  then show ?case using assms(2) by (cases e) (simp, smt (verit))
qed simp

lemma history_admit:
  assumes "history_of ww key limit now0 L H" "now0 \<le> now" "0 < ww key" "0 \<le> cost"
    and "log_ok ww now L'" "admitted_cost key (now - ww key) now H + cost \<le> limit"
    and "\<And>t. now \<le> t \<Longrightarrow> live_cost (log_live ww L' key t) =
      live_cost (log_live ww L key t) + (if t < now + ww key then cost else 0)"
  shows "history_of ww key limit now L' (H @ [(now, key, cost)])"
proof -
  have past: "\<forall>(t, k, c) \<in> set H. t \<le> now \<and> (k = key \<longrightarrow> 0 \<le> c)"
    using assms(1,2) by (force simp: history_of_def)
  have "admitted_cost key (t - ww key) t (H @ [(now, key, cost)]) \<le> limit" for t
  proof (cases "now \<le> t")
    case True
    then show ?thesis
      using admitted_cost_later[OF past True, of "ww key"] assms(4,6) by auto
  next
    case False
    then show ?thesis using assms(1) by (simp add: history_of_def)
  qed
  then show ?thesis
    using assms past by (auto simp: history_of_def)
qed

lemma history_same:
  assumes "history_of ww key limit now0 L H" "now0 \<le> now" "log_ok ww now L'"
    and "\<And>t. now \<le> t \<Longrightarrow> log_live ww L' key t = log_live ww L key t"
  shows "history_of ww key limit now L' H"
  using assms by (force simp: history_of_def)

lemma history_other:
  assumes "history_of ww key limit now L H" "k \<noteq> key"
  shows "history_of ww key limit now L (H @ [(now, k, cost)])"
  using assms by (auto simp: history_of_def)

lemma run_log_bounded:
  assumes "\<forall>op \<in> set ops. uses_one_limit ww key limit op" "history_of ww key limit now L H"
  shows "admitted_cost key (t - ww key) t (H @ run_log now ops L) \<le> limit"
  using assms
proof (induction now ops L arbitrary: H rule: run_log.induct)
  case (1 now L)
  then show ?case by (simp add: history_of_def)
next
  case (2 now dt k n w cost ops L)
  have op: "w = ww k" "0 < ww k" "k = key \<Longrightarrow> n = limit \<and> 0 \<le> cost"
    and rest: "\<forall>op \<in> set ops. uses_one_limit ww key limit op"
    using 2(3) by (auto simp: uses_one_limit_def)
  have ok: "log_ok ww now L" using 2(4) by (simp add: history_of_def)
  let ?now = "now + int dt"
  obtain r L' where hit: "log_hit ?now k n (ww k) cost L = (Inr r, L')" "log_ok ww ?now L'"
      "rw_allowed r \<longleftrightarrow> live_cost (log_live ww L k ?now) + cost \<le> n"
      "\<And>j t. ?now \<le> t \<Longrightarrow> log_live ww L' j t = log_live ww L j t @
         (if j = k \<and> rw_allowed r \<and> t < ?now + ww k
          then [(?now, show_int (int (wl_handles L)), cost)] else [])"
    by (rule log_hit_ok[OF ok, where now = "?now" and key = k and limit = n and cost = cost])
      (use op in simp_all)
  let ?H = "H @ (if rw_allowed r then [(?now, k, cost)] else [])"
  have "history_of ww key limit ?now L' ?H"
  proof (cases "rw_allowed r \<and> k = key")
    case True
    then have "live_cost (log_live ww L key ?now) + cost \<le> limit"
      using hit(3) op(3) by auto
    then have "admitted_cost key (?now - ww key) ?now H + cost \<le> limit"
      using 2(4) by (simp add: history_of_def)
    then show ?thesis
      using True op hit(2) hit(4)[of _ key]
      by (auto intro!: history_admit[OF 2(4)])
  next
    case False
    then have "history_of ww key limit ?now L' H"
      using hit(2) hit(4)[of _ key] by (auto intro!: history_same[OF 2(4)])
    then show ?thesis using False by (auto intro!: history_other)
  qed
  then have "admitted_cost key (t - ww key) t (?H @ run_log ?now ops L') \<le> limit"
    by (rule 2(2)[OF hit(1)[folded op(1), symmetric] refl rest])
  then show ?case using hit(1) op(1) by simp
next
  case (3 now k handle cost ops L)
  have ok: "log_ok ww now L" using 3(3) by (simp add: history_of_def)
  have "k \<noteq> key" using 3(2) by (simp add: uses_one_limit_def)
  then have "history_of ww key limit now (log_settle k handle cost L) H"
    by (intro history_same[OF 3(3) order_refl log_settle_ok(1)[OF ok]])
      (simp add: log_settle_ok(2)[OF ok])
  then show ?case using 3(1,2) by simp
next
  case (4 now dt k w ops L)
  have ok: "log_ok ww now L" using 4(3) by (simp add: history_of_def)
  have w: "w = ww k" using 4(2) by (simp add: uses_one_limit_def)
  obtain r L' where peek: "log_peek (now + int dt) k (ww k) L = (Inr r, L')" "log_ok ww (now + int dt) L'"
      "\<And>j t. now + int dt \<le> t \<Longrightarrow> log_live ww L' j t = log_live ww L j t"
    by (rule log_peek_ok[OF ok, where now = "now + int dt" and key = k]) auto
  have "history_of ww key limit (now + int dt) L' H"
    by (rule history_same[OF 4(3) _ peek(2,3)]) simp_all
  then show ?case using 4(1)[of H] 4(2) peek(1) w by simp
qed

lemma one_limit_never_exceeded:
  assumes "\<forall>op \<in> set ops. uses_one_limit ww key limit op" "0 \<le> limit"
  shows "admitted_cost key (t - ww key) t (run_log now ops empty_log) \<le> limit"
proof -
  have "history_of ww key limit now empty_log []"
    using assms(2) by (simp add: history_of_def)
  from run_log_bounded[OF assms(1) this, of t] show ?thesis by simp
qed

section \<open>The book of a run\<close>

text \<open>
  What a log is meant to count, without its evictions, totals and cleanups: every entry it has admitted, at the
  cost it is settled to. \<open>run_hits\<close> gives each hit of a run, what the log answered, and the book before it.
\<close>

type_synonym book = "(instant \<times> string \<times> string \<times> int) list"

definition book_live :: "instant \<Rightarrow> string \<Rightarrow> book \<Rightarrow> (instant \<times> string \<times> int) list" where
  "book_live after key B = map (\<lambda>(t, k, h, c). (t, h, c)) (filter (\<lambda>(t, k, h, c). k = key \<and> after < t) B)"

definition settle_book :: "string \<Rightarrow> string \<Rightarrow> int \<Rightarrow> book \<Rightarrow> book" where
  "settle_book key handle cost = map (\<lambda>(t, k, h, c). (t, k, h, if k = key \<and> h = handle then cost else c))"

definition enter_book :: "instant \<Rightarrow> string \<Rightarrow> int \<Rightarrow> store_error + rate_window \<Rightarrow> book \<Rightarrow> book" where
  "enter_book now key cost res B =
     (case res of
        Inl e \<Rightarrow> B
      | Inr w \<Rightarrow> (case rw_handle w of None \<Rightarrow> B | Some h \<Rightarrow> B @ [(now, key, h, cost)]))"

fun run_hits ::
  "instant \<Rightarrow> log_op list \<Rightarrow> window_log \<Rightarrow> book
     \<Rightarrow> (instant \<times> string \<times> int \<times> int \<times> (store_error + rate_window) \<times> book) list" where
  "run_hits now [] L B = []"
| "run_hits now (Hit_Op dt key limit window_sec cost # ops) L B =
     (let t = now + int dt; (res, L') = log_hit t key limit window_sec cost L
      in (t, key, limit, cost, res, B) # run_hits t ops L' (enter_book t key cost res B))"
| "run_hits now (Settle_Op key handle cost # ops) L B =
     run_hits now ops (log_settle key handle cost L) (settle_book key handle cost B)"
| "run_hits now (Peek_Op dt key window_sec # ops) L B =
     run_hits (now + int dt) ops (snd (log_peek (now + int dt) key window_sec L)) B"

text \<open>Each key is used with one window, as the rules and the limiters do; limits and costs are free.\<close>

definition keeps_window :: "(string \<Rightarrow> instant) \<Rightarrow> log_op \<Rightarrow> bool" where
  "keeps_window ww op = (case op of
       Hit_Op dt k n w c \<Rightarrow> w = ww k \<and> 0 < w
     | Settle_Op k h c \<Rightarrow> True
     | Peek_Op dt k w \<Rightarrow> w = ww k)"

definition booked :: "(string \<Rightarrow> instant) \<Rightarrow> instant \<Rightarrow> window_log \<Rightarrow> book \<Rightarrow> bool" where
  "booked ww now L B \<longleftrightarrow> log_ok ww now L \<and> (\<forall>k t. now \<le> t \<longrightarrow> log_live ww L k t = book_live (t - ww k) k B)"

lemma book_live_simps [simp]:
  "book_live a key [] = []"
  "book_live a key (B @ [(t, k, h, c)]) = book_live a key B @ (if k = key \<and> a < t then [(t, h, c)] else [])"
  by (simp_all add: book_live_def)

lemma book_live_settle:
  "book_live a k (settle_book key handle cost B)
     = (if k = key then settled_to handle cost (book_live a k B) else book_live a k B)"
  by (induction B) (auto simp: book_live_def settle_book_def settled_to_def)

lemma booked_settle: "booked ww now L B \<Longrightarrow> booked ww now (log_settle key handle cost L) (settle_book key handle cost B)"
  by (simp add: booked_def log_settle_ok(1)[where ww = ww and now = now] log_settle_ok(2)[where ww = ww and now = now] book_live_settle)

lemma booked_peek:
  assumes "booked ww now0 L B" "now0 \<le> now"
  shows "booked ww now (snd (log_peek now key (ww key) L)) B"
proof -
  have "log_ok ww now0 L" using assms(1) by (simp add: booked_def)
  from log_peek_ok[OF this assms(2), of key] show ?thesis
    using assms unfolding booked_def by (metis order_trans snd_conv)
qed

lemma booked_hit:
  assumes "booked ww now0 L B" "now0 \<le> now" "0 < ww key" "log_hit now key limit (ww key) cost L = (res, L')"
  shows "\<exists>w. res = Inr w \<and> (rw_allowed w \<longleftrightarrow> live_cost (book_live (now - ww key) key B) + cost \<le> limit)"
    and "booked ww now L' (enter_book now key cost res B)"
proof -
  have ok: "log_ok ww now0 L" using assms(1) by (simp add: booked_def)
  obtain r M where hit: "log_hit now key limit (ww key) cost L = (Inr r, M)" "log_ok ww now M"
      "rw_allowed r \<longleftrightarrow> live_cost (log_live ww L key now) + cost \<le> limit"
      "rw_handle r = (if rw_allowed r then Some (show_int (int (wl_handles L))) else None)"
      "\<And>k t. now \<le> t \<Longrightarrow> log_live ww M k t = log_live ww L k t @
         (if k = key \<and> rw_allowed r \<and> t < now + ww key then [(now, show_int (int (wl_handles L)), cost)] else [])"
    by (rule log_hit_ok[OF ok assms(2,3), where limit = limit and cost = cost]) simp_all
  have live: "log_live ww L k t = book_live (t - ww k) k B" if "now \<le> t" for k t
    using assms(1,2) that by (simp add: booked_def)
  show "\<exists>w. res = Inr w \<and> (rw_allowed w \<longleftrightarrow> live_cost (book_live (now - ww key) key B) + cost \<le> limit)"
    using hit(1,3) live[of now key] assms(4) by simp
  show "booked ww now L' (enter_book now key cost res B)"
    using hit assms(4) live unfolding booked_def enter_book_def by auto
qed

lemma run_hits_booked:
  assumes "\<forall>op \<in> set ops. keeps_window ww op" "booked ww now L B"
    and "(t, key, limit, cost, res, B') \<in> set (run_hits now ops L B)"
  shows "\<exists>w. res = Inr w \<and> (rw_allowed w \<longleftrightarrow> live_cost (book_live (t - ww key) key B') + cost \<le> limit)"
  using assms
proof (induction now ops L B rule: run_hits.induct)
  case (2 now dt k n w c ops L B)
  obtain res1 L1 where hit: "log_hit (now + int dt) k n w c L = (res1, L1)"
    by (cases "log_hit (now + int dt) k n w c L")
  have w: "w = ww k" "0 < ww k" using 2(2) by (auto simp: keeps_window_def)
  note one = booked_hit[OF 2(3) _ w(2) hit[unfolded w(1)]]
  have two: "booked ww (now + int dt) L1 (enter_book (now + int dt) k c res1 B)" by (rule one(2)) simp
  consider "(t, key, limit, cost, res, B') = (now + int dt, k, n, c, res1, B)"
    | "(t, key, limit, cost, res, B') \<in> set (run_hits (now + int dt) ops L1 (enter_book (now + int dt) k c res1 B))"
    using 2(4) hit by (auto simp: Let_def)
  then show ?case
  proof cases
    case 1
    then show ?thesis using one(1) by simp
  next
    case later: 2
    show ?thesis by (rule "2.IH"[OF refl hit[symmetric] refl _ two later]) (use "2.prems"(1) in simp)
  qed
next
  case (3 now k h c ops L B)
  then show ?case using booked_settle by simp
next
  case (4 now dt k w ops L B)
  have "booked ww (now + int dt) (snd (log_peek (now + int dt) k w L)) B"
    using booked_peek[OF 4(3), of "now + int dt" k] 4(2) by (simp add: keeps_window_def)
  then show ?case using 4(1,2,4) by simp
qed simp

section \<open>Properties\<close>

text \<open>
  \<^bold>\<open>C4\<close>: whatever hits, peeks and settlements reach a fresh sliding-window log, at whatever times, with
  whatever limits and costs, and however often its cleanup runs in between, as long as each key keeps to one
  window: a hit never raises, and it is admitted exactly when the entries admitted for the key in the last
  window, at the costs they are settled to by then, leave room for its cost under the limit it asks with.
\<close>

theorem sliding_window_never_exceeded:
  assumes "\<forall>op \<in> set ops. keeps_window ww op"
    and "(t, key, limit, cost, res, B) \<in> set (run_hits now ops empty_log [])"
  shows "\<exists>w. res = Inr w \<and> (rw_allowed w \<longleftrightarrow> live_cost (book_live (t - ww key) key B) + cost \<le> limit)"
  by (rule run_hits_booked[OF assms(1) _ assms(2)]) (simp add: booked_def)

text \<open>An estimate of three tokens is settled to one, and a lower limit then asks for the rest.\<close>

definition sample_calls :: "log_op list" where
  "sample_calls = [Hit_Op 0 ''tpm'' 4 60 3, Settle_Op ''tpm'' ''0'' 1, Hit_Op 10 ''tpm'' 3 60 2]"

definition second_hit :: "instant \<times> string \<times> int \<times> int \<times> (store_error + rate_window) \<times> book" where
  "second_hit = run_hits 100 sample_calls empty_log [] ! 1"

theorem sliding_window_never_exceeded_witness:
  "\<exists>w. fst (snd (snd (snd (snd second_hit)))) = Inr w \<and> rw_allowed w"
proof -
  have length: "length (run_hits 100 sample_calls empty_log []) = 2" unfolding sample_calls_def by code_simp
  have seen: "fst second_hit = 110" "fst (snd second_hit) = ''tpm''" "fst (snd (snd second_hit)) = 3"
    "fst (snd (snd (snd second_hit))) = 2" "snd (snd (snd (snd (snd second_hit)))) = [(100, ''tpm'', ''0'', 1)]"
    unfolding second_hit_def sample_calls_def by code_simp+
  obtain t key limit cost res B where r: "second_hit = (t, key, limit, cost, res, B)" by (cases second_hit)
  have "(t, key, limit, cost, res, B) \<in> set (run_hits 100 sample_calls empty_log [])"
    unfolding r[symmetric] second_hit_def by (rule nth_mem) (simp add: length)
  from sliding_window_never_exceeded[OF _ this, where ww = "\<lambda>_. 60"] show ?thesis
    using seen by (simp add: r sample_calls_def keeps_window_def book_live_def)
qed

end
