(* ===== verification/Rate_Store.thy ===== *)
theory Rate_Store
  imports Rate_Window "HOL-Library.AList"
begin

text \<open>
  The port of \<open>ports/rate_limit_store_port.py\<close> and its in-process implementation
  (\<open>InMemoryRateLimitStore\<close> of \<open>adapters/rate_limit_store_adapter.py\<close>).

  \<^item> \<open>store_ops\<close> is \<open>RateLimitStorePort\<close>: the operations a client is handed. What the port's
    docstrings promise is the locale \<open>rate_store\<close>; the in-process store is interpreted in it.
  \<^item> \<open>mem_store\<close> is the object's state with what it reads from its surroundings: the readings of
    \<open>time.monotonic()\<close> still to come (as the time passed between two of them, so the clock never
    goes back) and the names \<open>uuid.uuid4().hex\<close> will draw (pairwise different).
\<close>

section \<open>The port\<close>

record 's store_ops =
  so_hit :: "'s \<Rightarrow> string \<Rightarrow> int \<Rightarrow> instant \<Rightarrow> int \<Rightarrow> (store_error + rate_window) \<times> 's"
  so_settle :: "'s \<Rightarrow> string \<Rightarrow> string \<Rightarrow> int \<Rightarrow> 's"
  so_acquire :: "'s \<Rightarrow> string \<Rightarrow> int \<Rightarrow> instant \<Rightarrow> (store_error + string option) \<times> 's"
  so_release :: "'s \<Rightarrow> string \<Rightarrow> string \<Rightarrow> 's"

section \<open>The in-process store\<close>

record mem_store =
  ms_now :: instant
  ms_elapse :: "nat list"
  ms_log :: window_log
  ms_leases :: "string \<rightharpoonup> (string \<times> instant) list"
  ms_acquires :: nat
  ms_uuid :: "nat \<Rightarrow> string"
  ms_drawn :: nat

definition fresh_store :: "instant \<Rightarrow> nat list \<Rightarrow> (nat \<Rightarrow> string) \<Rightarrow> mem_store" where
  "fresh_store now elapse uuid = \<lparr> ms_now = now, ms_elapse = elapse, ms_log = empty_log,
     ms_leases = Map.empty, ms_acquires = 0, ms_uuid = uuid, ms_drawn = 0 \<rparr>"

text \<open>A reading of \<open>time.monotonic()\<close>.\<close>

definition read_clock :: "mem_store \<Rightarrow> mem_store" where
  "read_clock st = (case ms_elapse st of
       [] \<Rightarrow> st
     | d # ds \<Rightarrow> st\<lparr> ms_now := ms_now st + int d, ms_elapse := ds \<rparr>)"

definition mem_hit ::
  "mem_store \<Rightarrow> string \<Rightarrow> int \<Rightarrow> instant \<Rightarrow> int \<Rightarrow> (store_error + rate_window) \<times> mem_store" where
  "mem_hit st key limit window_sec cost =
     (let st1 = read_clock st in
      case log_hit (ms_now st1) key limit window_sec cost (ms_log st1) of
        (res, L) \<Rightarrow> (res, st1\<lparr> ms_log := L \<rparr>))"

definition mem_settle :: "mem_store \<Rightarrow> string \<Rightarrow> string \<Rightarrow> int \<Rightarrow> mem_store" where
  "mem_settle st key handle cost = st\<lparr> ms_log := log_settle key handle cost (ms_log st) \<rparr>"

definition slots_of :: "(string \<rightharpoonup> (string \<times> instant) list) \<Rightarrow> string \<Rightarrow> (string \<times> instant) list" where
  "slots_of leases key = (case leases key of None \<Rightarrow> [] | Some slots \<Rightarrow> slots)"

text \<open>Keys whose every lease has run out are dropped.\<close>

definition drop_stale ::
  "instant \<Rightarrow> (string \<rightharpoonup> (string \<times> instant) list) \<Rightarrow> (string \<rightharpoonup> (string \<times> instant) list)" where
  "drop_stale now leases = (\<lambda>k. case leases k of
       None \<Rightarrow> None
     | Some slots \<Rightarrow> if list_all (\<lambda>(l, t). t \<le> now) slots then None else Some slots)"

definition mem_acquire ::
  "mem_store \<Rightarrow> string \<Rightarrow> int \<Rightarrow> instant \<Rightarrow> (store_error + string option) \<times> mem_store" where
  "mem_acquire st key limit lease_sec =
     (let st1 = read_clock st;
          now = ms_now st1;
          acquires = ms_acquires st1 + 1;
          sweep = acquires \<ge> cleanup_interval;
          leases = (if sweep then drop_stale now (ms_leases st1) else ms_leases st1);
          slots = filter (\<lambda>(l, t). \<not> t \<le> now) (slots_of leases key);
          st2 = st1\<lparr> ms_acquires := (if sweep then 0 else acquires), ms_leases := leases(key \<mapsto> slots) \<rparr>
      in if int (length slots) \<ge> limit then (Inr None, st2)
         else let lease = ms_uuid st2 (ms_drawn st2)
              in (Inr (Some lease),
                  st2\<lparr> ms_drawn := ms_drawn st2 + 1,
                       ms_leases := leases(key \<mapsto> AList.update lease (now + lease_sec) slots) \<rparr>))"

definition mem_release :: "mem_store \<Rightarrow> string \<Rightarrow> string \<Rightarrow> mem_store" where
  "mem_release st key lease =
     (case ms_leases st key of
        None \<Rightarrow> st
      | Some slots \<Rightarrow>
          (let rest = filter (\<lambda>(l, t). l \<noteq> lease) slots
           in if rest = [] then st\<lparr> ms_leases := (ms_leases st)(key := None) \<rparr>
              else st\<lparr> ms_leases := (ms_leases st)(key \<mapsto> rest) \<rparr>))"

definition mem_ops :: "mem_store store_ops" where
  "mem_ops = \<lparr> so_hit = mem_hit, so_settle = mem_settle, so_acquire = mem_acquire, so_release = mem_release \<rparr>"

text \<open>\<open>UserRateLimiter.check\<close> on any store; \<open>check_rate_limit\<close> skips it when no limiter is set.\<close>

definition user_check ::
  "'s store_ops \<Rightarrow> instant \<Rightarrow> int \<Rightarrow> instant \<Rightarrow> string \<Rightarrow> 's \<Rightarrow> (limiter_error + rate_info) \<times> 's" where
  "user_check ops wall rpm window_sec user_id st =
     (case so_hit ops st (''user:'' @ user_id) rpm window_sec 1 of
        (Inl e, st') \<Rightarrow> (Inl (Limiter_Store_Error e), st')
      | (Inr w, st') \<Rightarrow> (info_or_raise wall w rpm, st'))"

definition check_rate_limit ::
  "'s store_ops \<Rightarrow> instant \<Rightarrow> (int \<times> instant) option \<Rightarrow> string \<Rightarrow> 's
     \<Rightarrow> (limiter_error + rate_info option) \<times> 's" where
  "check_rate_limit ops wall limiter user_id st =
     (case limiter of
        None \<Rightarrow> (Inr None, st)
      | Some (rpm, window_sec) \<Rightarrow>
          (case user_check ops wall rpm window_sec user_id st of
             (Inl e, st') \<Rightarrow> (Inl e, st')
           | (Inr info, st') \<Rightarrow> (Inr (Some info), st')))"

section \<open>Clients of a store\<close>

datatype store_call =
    Hit_Call string int instant int
  | Settle_Call string string int
  | Acquire_Call string int instant
  | Release_Call string string

fun run_call :: "'s store_ops \<Rightarrow> store_call \<Rightarrow> 's \<Rightarrow> 's" where
  "run_call ops (Hit_Call key limit window_sec cost) s = snd (so_hit ops s key limit window_sec cost)"
| "run_call ops (Settle_Call key handle cost) s = so_settle ops s key handle cost"
| "run_call ops (Acquire_Call key limit lease_sec) s = snd (so_acquire ops s key limit lease_sec)"
| "run_call ops (Release_Call key lease) s = so_release ops s key lease"

text \<open>Every hit uses its key's window, and every acquire on \<open>key\<close> asks for one of \<open>limit\<close> slots.\<close>

definition uses_slot_limit :: "(string \<Rightarrow> instant) \<Rightarrow> string \<Rightarrow> int \<Rightarrow> store_call \<Rightarrow> bool" where
  "uses_slot_limit ww key limit call = (case call of
       Hit_Call k n w c \<Rightarrow> w = ww k \<and> 0 < w
     | Acquire_Call k n lease_sec \<Rightarrow> k = key \<longrightarrow> n = limit
     | Settle_Call k h c \<Rightarrow> True
     | Release_Call k l \<Rightarrow> True)"

section \<open>What the port promises\<close>

text \<open>
  \<open>live s k t\<close> are the entries that count against \<open>k\<close> at instant \<open>t\<close>, each with its cost;
  \<open>held s k t\<close> the leases held on \<open>k\<close> then. Both speak of instants from \<open>now\<close> on. \<open>ww\<close> is the window
  each key is counted over.
\<close>

locale rate_store =
  fixes ops :: "'s store_ops"
    and ww :: "string \<Rightarrow> instant"
    and ok :: "'s \<Rightarrow> bool"
    and now :: "'s \<Rightarrow> instant"
    and live :: "'s \<Rightarrow> string \<Rightarrow> instant \<Rightarrow> (string \<times> int) list"
    and held :: "'s \<Rightarrow> string \<Rightarrow> instant \<Rightarrow> string list"
  assumes hit_ok: "\<lbrakk> ok s; 0 < ww key; so_hit ops s key limit (ww key) cost = (res, s') \<rbrakk> \<Longrightarrow>
      ok s' \<and> now s \<le> now s' \<and> (\<forall>k t. now s' \<le> t \<longrightarrow> held s' k t = held s k t)"
    and hit_raises: "\<lbrakk> ok s; 0 < ww key; so_hit ops s key limit (ww key) cost = (Inl e, s'); now s' \<le> t \<rbrakk> \<Longrightarrow>
      live s' k t = live s k t"
    and hit_counts: "\<lbrakk> ok s; 0 < ww key; so_hit ops s key limit (ww key) cost = (Inr r, s'); now s' \<le> t \<rbrakk> \<Longrightarrow>
      live s' k t = live s k t @ (case rw_handle r of
        None \<Rightarrow> [] | Some h \<Rightarrow> if k = key \<and> t < now s' + ww key then [(h, cost)] else [])"
    and hit_fresh: "\<lbrakk> ok s; 0 < ww key; so_hit ops s key limit (ww key) cost = (Inr r, s'); rw_handle r = Some h;
      now s' \<le> t \<rbrakk> \<Longrightarrow> h \<notin> fst ` set (live s key t)"
    and hit_decides: "\<lbrakk> ok s; 0 < ww key; so_hit ops s key limit (ww key) cost = (Inr r, s') \<rbrakk> \<Longrightarrow>
      (rw_handle r \<noteq> None \<longleftrightarrow> sum_list (map snd (live s key (now s'))) + cost \<le> limit)
      \<and> (rw_allowed r \<longleftrightarrow> rw_handle r \<noteq> None)"
    and settle_ok: "ok s \<Longrightarrow> ok (so_settle ops s key h cost) \<and> now (so_settle ops s key h cost) = now s
      \<and> (\<forall>k t. held (so_settle ops s key h cost) k t = held s k t)"
    and settle_counts: "\<lbrakk> ok s; now s \<le> t \<rbrakk> \<Longrightarrow> live (so_settle ops s key h cost) k t =
      (if k = key then map (\<lambda>(g, c). (g, if g = h then cost else c)) (live s k t) else live s k t)"
    and acquire_ok: "\<lbrakk> ok s; so_acquire ops s key limit lease_sec = (out, s') \<rbrakk> \<Longrightarrow>
      ok s' \<and> now s \<le> now s' \<and> (\<forall>k t. now s' \<le> t \<longrightarrow> live s' k t = live s k t)"
    and acquire_raises: "\<lbrakk> ok s; so_acquire ops s key limit lease_sec = (Inl e, s'); now s' \<le> t \<rbrakk> \<Longrightarrow>
      held s' k t = held s k t"
    and acquire_holds: "\<lbrakk> ok s; so_acquire ops s key limit lease_sec = (Inr taken, s'); now s' \<le> t \<rbrakk> \<Longrightarrow>
      held s' k t = held s k t @ (case taken of
        None \<Rightarrow> [] | Some l \<Rightarrow> if k = key \<and> t < now s' + lease_sec then [l] else [])"
    and acquire_fresh: "\<lbrakk> ok s; so_acquire ops s key limit lease_sec = (Inr (Some l), s'); now s' \<le> t \<rbrakk> \<Longrightarrow>
      l \<notin> set (held s key t)"
    and acquire_decides: "\<lbrakk> ok s; so_acquire ops s key limit lease_sec = (Inr taken, s') \<rbrakk> \<Longrightarrow>
      taken \<noteq> None \<longleftrightarrow> int (length (held s key (now s'))) < limit"
    and release_ok: "ok s \<Longrightarrow> ok (so_release ops s key l) \<and> now (so_release ops s key l) = now s
      \<and> (\<forall>k t. live (so_release ops s key l) k t = live s k t)"
    and release_frees: "\<lbrakk> ok s; now s \<le> t \<rbrakk> \<Longrightarrow> held (so_release ops s key l) k t =
      (if k = key then filter (\<lambda>m. m \<noteq> l) (held s k t) else held s k t)"
    and held_expire: "t \<le> u \<Longrightarrow> length (held s k u) \<le> length (held s k t)"
begin

text \<open>
  Taking slots under one limit never leaves more than that many held, at any later instant.
\<close>

lemma acquire_bounded:
  assumes "ok s" "so_acquire ops s key limit lease_sec = (out, s')" "0 \<le> limit"
    and "\<And>t. now s \<le> t \<Longrightarrow> int (length (held s key t)) \<le> limit" "now s' \<le> t"
  shows "int (length (held s' key t)) \<le> limit"
proof (cases out)
  case (Inl e)
  then show ?thesis
    using acquire_raises[OF assms(1) _ assms(5)] assms(2,4,5) acquire_ok[OF assms(1,2)] by force
next
  case (Inr l)
  note acq = assms(2)[unfolded Inr]
  have "int (length (held s key t)) \<le> limit"
    using assms(4,5) acquire_ok[OF assms(1,2)] by force
  moreover have "int (length (held s key t)) < limit" if "l \<noteq> None"
    using that acquire_decides[OF assms(1) acq] held_expire[OF assms(5), of s key] by simp
  ultimately show ?thesis
    using acquire_holds[OF assms(1) acq assms(5), of key] by (auto split: option.splits)
qed

definition slots_within :: "string \<Rightarrow> int \<Rightarrow> 's \<Rightarrow> bool" where
  "slots_within key limit s \<longleftrightarrow> ok s \<and> (\<forall>t. now s \<le> t \<longrightarrow> int (length (held s key t)) \<le> limit)"

lemma run_call_slots:
  assumes "uses_slot_limit ww key limit call" "0 \<le> limit" "slots_within key limit s"
  shows "slots_within key limit (run_call ops call s)"
proof (cases call)
  case (Hit_Call k n w c)
  then have w: "w = ww k" "0 < ww k" using assms(1) by (auto simp: uses_slot_limit_def)
  obtain out s' where "so_hit ops s k n (ww k) c = (out, s')" by force
  then show ?thesis
    using assms(3) hit_ok[OF _ w(2), of s n c out s'] Hit_Call w(1) by (auto simp: slots_within_def)
next
  case (Settle_Call k h c)
  then show ?thesis using assms(3) settle_ok[of s k h c] by (auto simp: slots_within_def)
next
  case (Acquire_Call k n lease_sec)
  obtain out s' where acq: "so_acquire ops s k n lease_sec = (out, s')" by force
  have s: "ok s" "\<And>t. now s \<le> t \<Longrightarrow> int (length (held s key t)) \<le> limit"
    using assms(3) by (auto simp: slots_within_def)
  have "int (length (held s' key t)) \<le> limit" if t: "now s' \<le> t" for t
  proof (cases "k = key")
    case True
    then have "n = limit" using assms(1) Acquire_Call by (simp add: uses_slot_limit_def)
    then show ?thesis using acquire_bounded[OF s(1) _ assms(2) s(2) t] acq True by blast
  next
    case False
    then have "held s' key t = held s key t"
      using acquire_raises[OF s(1) _ t] acquire_holds[OF s(1) _ t] acq
      by (cases out) (auto split: option.splits)
    then show ?thesis using s(2)[of t] t acquire_ok[OF s(1) acq] by simp
  qed
  then show ?thesis using acquire_ok[OF s(1) acq] acq Acquire_Call by (simp add: slots_within_def)
next
  case (Release_Call k l)
  have s: "ok s" using assms(3) by (simp add: slots_within_def)
  have "length (held (so_release ops s k l) key t) \<le> length (held s key t)" if "now s \<le> t" for t
    using release_frees[OF s that, of k l key] by simp
  then show ?thesis
    using assms(3) release_ok[OF s, of k l] Release_Call by (force simp: slots_within_def)
qed

lemma run_calls_slots:
  assumes "\<forall>call \<in> set calls. uses_slot_limit ww key limit call" "0 \<le> limit" "slots_within key limit s"
  shows "slots_within key limit (fold (run_call ops) calls s)"
  using assms by (induction calls arbitrary: s) (simp_all add: run_call_slots)

end

section \<open>The in-process store keeps the promise\<close>

definition mem_live ::
  "(string \<Rightarrow> instant) \<Rightarrow> mem_store \<Rightarrow> string \<Rightarrow> instant \<Rightarrow> (string \<times> int) list" where
  "mem_live ww st k t = map snd (log_live ww (ms_log st) k t)"

definition mem_held :: "mem_store \<Rightarrow> string \<Rightarrow> instant \<Rightarrow> string list" where
  "mem_held st k t = map fst (filter (\<lambda>(l, e). t < e) (slots_of (ms_leases st) k))"

definition mem_ok :: "(string \<Rightarrow> instant) \<Rightarrow> mem_store \<Rightarrow> bool" where
  "mem_ok ww st \<longleftrightarrow> log_ok ww (ms_now st) (ms_log st) \<and> inj (ms_uuid st)
     \<and> (\<forall>k. fst ` set (slots_of (ms_leases st) k) \<subseteq> ms_uuid st ` {..<ms_drawn st})"

lemma read_clock_same [simp]:
  "ms_log (read_clock st) = ms_log st" "ms_leases (read_clock st) = ms_leases st"
  "ms_uuid (read_clock st) = ms_uuid st" "ms_drawn (read_clock st) = ms_drawn st"
  "ms_acquires (read_clock st) = ms_acquires st"
  by (simp_all add: read_clock_def split: list.splits)

lemma read_clock_later [simp]: "ms_now st \<le> ms_now (read_clock st)"
  by (simp add: read_clock_def split: list.splits)

lemma mem_ok_fresh: "inj uuid \<Longrightarrow> mem_ok ww (fresh_store now elapse uuid)"
  by (simp add: mem_ok_def fresh_store_def slots_of_def)

lemma mem_hit_cases:
  assumes "mem_ok ww st" "0 < ww key"
  obtains r st' where "mem_hit st key limit (ww key) cost = (Inr r, st')" "mem_ok ww st'"
    "ms_now st \<le> ms_now st'" "ms_leases st' = ms_leases st"
    "rw_allowed r \<longleftrightarrow> sum_list (map snd (mem_live ww st key (ms_now st'))) + cost \<le> limit"
    "rw_handle r = (if rw_allowed r then Some (show_int (int (wl_handles (ms_log st)))) else None)"
    "\<And>k t. ms_now st' \<le> t \<Longrightarrow> mem_live ww st' k t = mem_live ww st k t @
       (if k = key \<and> rw_allowed r \<and> t < ms_now st' + ww key
        then [(show_int (int (wl_handles (ms_log st))), cost)] else [])"
proof -
  let ?st = "read_clock st"
  have ok: "log_ok ww (ms_now st) (ms_log st)" using assms(1) by (simp add: mem_ok_def)
  obtain r L where hit: "log_hit (ms_now ?st) key limit (ww key) cost (ms_log st) = (Inr r, L)"
      "log_ok ww (ms_now ?st) L"
      "rw_allowed r \<longleftrightarrow> live_cost (log_live ww (ms_log st) key (ms_now ?st)) + cost \<le> limit"
      "rw_handle r = (if rw_allowed r then Some (show_int (int (wl_handles (ms_log st)))) else None)"
      "\<And>k t. ms_now ?st \<le> t \<Longrightarrow> log_live ww L k t = log_live ww (ms_log st) k t @
         (if k = key \<and> rw_allowed r \<and> t < ms_now ?st + ww key
          then [(ms_now ?st, show_int (int (wl_handles (ms_log st))), cost)] else [])"
    by (rule log_hit_ok[OF ok read_clock_later assms(2), where limit = limit and cost = cost])
      (rule that)
  have costs: "live_cost es = sum_list (map snd (map snd es))" for es :: "(instant \<times> string \<times> int) list"
    by (simp add: live_cost_def case_prod_unfold o_def)
  show thesis
    by (rule that[of r "?st\<lparr> ms_log := L \<rparr>"])
      (use assms(1) hit in \<open>auto simp: mem_hit_def Let_def mem_ok_def mem_live_def costs\<close>)
qed

lemma live_handle_issued:
  assumes "log_ok ww now L"
  shows "(h, c) \<in> set (map snd (log_live ww L k t)) \<Longrightarrow> \<exists>n < wl_handles L. h = show_int (int n)"
  using assms unfolding log_ok_def handles_issued_def
  by (cases "wl_requests L k")
    (force simp: log_live_def live_entries_def window_of_def empty_window_def handles_of_def)+

lemma slots_of_upd [simp]: "slots_of (m(key \<mapsto> slots)) k = (if k = key then slots else slots_of m k)"
  by (simp add: slots_of_def)

lemma slots_of_remove [simp]: "slots_of (m(key := None)) k = (if k = key then [] else slots_of m k)"
  by (simp add: slots_of_def)

lemma drop_stale_slots:
  assumes "now \<le> t"
  shows "filter (\<lambda>(l, e). t < e) (slots_of (drop_stale now m) k) = filter (\<lambda>(l, e). t < e) (slots_of m k)"
proof (cases "m k")
  case (Some slots)
  have "filter (\<lambda>(l, e). t < e) slots = []" if "list_all (\<lambda>(l, e). e \<le> now) slots"
    using that assms by (force simp: list_all_iff filter_empty_conv)
  then show ?thesis using Some by (simp add: slots_of_def drop_stale_def)
qed (simp add: slots_of_def drop_stale_def)

lemma drop_stale_subset: "set (slots_of (drop_stale now m) k) \<subseteq> set (slots_of m k)"
  by (auto simp: slots_of_def drop_stale_def split: option.splits if_splits)

lemma update_fresh: "l \<notin> fst ` set xs \<Longrightarrow> AList.update l v xs = xs @ [(l, v)]"
  by (induction xs) auto

lemma mem_acquire_cases:
  assumes "mem_ok ww st"
  obtains out st' where "mem_acquire st key limit lease_sec = (Inr out, st')" "mem_ok ww st'"
    "ms_now st \<le> ms_now st'" "ms_log st' = ms_log st"
    "out = (if int (length (mem_held st key (ms_now st'))) < limit then Some (ms_uuid st (ms_drawn st)) else None)"
    "\<And>k t. ms_now st' \<le> t \<Longrightarrow> mem_held st' k t = mem_held st k t @
       (if out \<noteq> None \<and> k = key \<and> t < ms_now st' + lease_sec then [ms_uuid st (ms_drawn st)] else [])"
proof -
  define st1 where "st1 = read_clock st"
  define acquires where "acquires = ms_acquires st1 + 1"
  define sweep where "sweep \<longleftrightarrow> acquires \<ge> cleanup_interval"
  define leases where "leases = (if sweep then drop_stale (ms_now st1) (ms_leases st) else ms_leases st)"
  define slots where "slots = filter (\<lambda>(l, t). \<not> t \<le> ms_now st1) (slots_of leases key)"
  define lease where "lease = ms_uuid st (ms_drawn st)"
  define st2 where "st2 = st1\<lparr> ms_acquires := (if sweep then 0 else acquires), ms_leases := leases(key \<mapsto> slots) \<rparr>"
  define st3 where "st3 = st2\<lparr> ms_drawn := ms_drawn st2 + 1,
    ms_leases := leases(key \<mapsto> AList.update lease (ms_now st1 + lease_sec) slots) \<rparr>"
  have run: "mem_acquire st key limit lease_sec =
      (if int (length slots) \<ge> limit then (Inr None, st2) else (Inr (Some lease), st3))"
    by (simp add: mem_acquire_def Let_def st1_def acquires_def sweep_def leases_def slots_def lease_def
        st2_def st3_def)
  have names: "fst ` set (slots_of leases k) \<subseteq> ms_uuid st ` {..<ms_drawn st}" for k
  proof -
    have "fst ` set (slots_of leases k) \<subseteq> fst ` set (slots_of (ms_leases st) k)"
      by (rule image_mono) (simp add: leases_def drop_stale_subset)
    also have "\<dots> \<subseteq> ms_uuid st ` {..<ms_drawn st}"
      using assms by (simp add: mem_ok_def)
    finally show ?thesis .
  qed
  have fresh: "lease \<notin> fst ` set slots"
  proof -
    have "lease \<notin> ms_uuid st ` {..<ms_drawn st}"
      using assms by (simp add: lease_def mem_ok_def inj_image_mem_iff)
    moreover have "fst ` set slots \<subseteq> fst ` set (slots_of leases key)"
      by (auto simp: slots_def)
    ultimately show ?thesis using names[of key] by blast
  qed
  have slots_sub: "set slots \<subseteq> set (slots_of leases key)"
    by (auto simp: slots_def)
  have kept: "filter (\<lambda>(l, e). t < e) (slots_of leases k) = filter (\<lambda>(l, e). t < e) (slots_of (ms_leases st) k)"
    if "ms_now st1 \<le> t" for k t
    using that drop_stale_slots[of "ms_now st1" t "ms_leases st" k] by (simp add: leases_def)
  have here: "filter (\<lambda>(l, e). t < e) slots = filter (\<lambda>(l, e). t < e) (slots_of leases key)"
    if "ms_now st1 \<le> t" for t
    using that by (auto simp: slots_def filter_filter intro!: filter_cong)
  have len: "length slots = length (mem_held st key (ms_now st1))"
    using kept[of "ms_now st1" key] by (simp add: mem_held_def slots_def not_le)
  have held: "mem_held st2 k t = mem_held st k t" if "ms_now st1 \<le> t" for k t
    using here[OF that] kept[OF that] by (simp add: mem_held_def st2_def)
  have held': "mem_held st3 k t = mem_held st k t @ (if k = key \<and> t < ms_now st1 + lease_sec then [lease] else [])"
    if "ms_now st1 \<le> t" for k t
    using here[OF that] kept[OF that] by (simp add: mem_held_def st3_def update_fresh[OF fresh])
  have ok2: "mem_ok ww st2"
    using assms names log_ok_mono[of ww "ms_now st" "ms_log st" "ms_now st1"]
    by (auto simp: mem_ok_def st2_def st1_def slots_def)
  have ok3: "mem_ok ww st3"
  proof -
    have "fst ` set (slots_of (ms_leases st3) k) \<subseteq> insert lease (fst ` set (slots_of leases k))" for k
      using slots_sub by (auto simp: st3_def update_fresh[OF fresh])
    moreover have "insert lease (fst ` set (slots_of leases k)) \<subseteq> ms_uuid st ` {..<ms_drawn st + 1}" for k
      using names[of k] by (simp add: lease_def lessThan_Suc subset_insertI2)
    ultimately have "fst ` set (slots_of (ms_leases st3) k) \<subseteq> ms_uuid st ` {..<ms_drawn st + 1}" for k
      by (meson order_trans)
    then show ?thesis
      using ok2 by (simp add: mem_ok_def st3_def st2_def st1_def)
  qed
  show thesis
  proof (cases "int (length slots) \<ge> limit")
    case True
    then show thesis
      using run ok2 held len by (intro that[of None st2]) (simp_all add: st2_def st1_def)
  next
    case False
    then show thesis
      using run ok3 held' len by (intro that[of "Some lease" st3]) (simp_all add: st3_def st2_def st1_def lease_def)
  qed
qed

lemma mem_release_ok:
  assumes "mem_ok ww st"
  shows "mem_ok ww (mem_release st key l)"
    and "mem_held (mem_release st key l) k t
         = (if k = key then filter (\<lambda>m. m \<noteq> l) (mem_held st k t) else mem_held st k t)"
    and "ms_now (mem_release st key l) = ms_now st"
    and "ms_log (mem_release st key l) = ms_log st"
proof -
  show "ms_now (mem_release st key l) = ms_now st" "ms_log (mem_release st key l) = ms_log st"
    by (simp_all add: mem_release_def Let_def split: option.splits)
  have slots: "slots_of (ms_leases (mem_release st key l)) k
      = (if k = key then filter (\<lambda>(m, t). m \<noteq> l) (slots_of (ms_leases st) k) else slots_of (ms_leases st) k)" for k
    by (auto simp: mem_release_def Let_def slots_of_def split: option.splits)
  have "fst ` set (slots_of (ms_leases (mem_release st key l)) k) \<subseteq> fst ` set (slots_of (ms_leases st) k)" for k
    unfolding slots by auto
  moreover have "ms_uuid (mem_release st key l) = ms_uuid st" "ms_drawn (mem_release st key l) = ms_drawn st"
    by (simp_all add: mem_release_def Let_def split: option.splits)
  ultimately show "mem_ok ww (mem_release st key l)"
    using assms \<open>ms_now (mem_release st key l) = ms_now st\<close> \<open>ms_log (mem_release st key l) = ms_log st\<close>
    unfolding mem_ok_def by (simp, meson order_trans)
  show "mem_held (mem_release st key l) k t
      = (if k = key then filter (\<lambda>m. m \<noteq> l) (mem_held st k t) else mem_held st k t)"
    by (auto simp: mem_held_def slots filter_map o_def filter_filter case_prod_unfold
        intro!: arg_cong[where f = "map fst"] filter_cong)
qed

lemma length_mem_held_later: "t \<le> u \<Longrightarrow> length (mem_held st k u) \<le> length (mem_held st k t)"
proof -
  assume "t \<le> u"
  then have "filter (\<lambda>(l, e). u < e) xs = filter (\<lambda>(l, e). u < e) (filter (\<lambda>(l, e). t < e) xs)"
    for xs :: "(string \<times> instant) list"
    by (auto simp: filter_filter intro!: filter_cong)
  then show ?thesis
    unfolding mem_held_def length_map by (metis length_filter_le)
qed

interpretation mem: rate_store mem_ops ww "mem_ok ww" ms_now "mem_live ww" mem_held for ww
proof
  fix st key limit cost res st'
  assume ok: "mem_ok ww st" and w: "0 < ww key" and run: "so_hit mem_ops st key limit (ww key) cost = (res, st')"
  obtain r st2 where hit: "mem_hit st key limit (ww key) cost = (Inr r, st2)" "mem_ok ww st2"
    "ms_now st \<le> ms_now st2" "ms_leases st2 = ms_leases st"
    by (rule mem_hit_cases[OF ok w, where limit = limit and cost = cost])
  then show "mem_ok ww st' \<and> ms_now st \<le> ms_now st'
     \<and> (\<forall>k t. ms_now st' \<le> t \<longrightarrow> mem_held st' k t = mem_held st k t)"
    using run by (simp add: mem_ops_def mem_held_def)
next
  fix st key limit cost e st' t k
  assume ok: "mem_ok ww st" and w: "0 < ww key" and run: "so_hit mem_ops st key limit (ww key) cost = (Inl e, st')"
  show "mem_live ww st' k t = mem_live ww st k t"
    by (rule mem_hit_cases[OF ok w, where limit = limit and cost = cost]) (use run in \<open>simp add: mem_ops_def\<close>)
next
  fix st key limit cost r st' t k
  assume ok: "mem_ok ww st" and w: "0 < ww key" and run: "so_hit mem_ops st key limit (ww key) cost = (Inr r, st')"
    and t: "ms_now st' \<le> t"
  show "mem_live ww st' k t = mem_live ww st k t @ (case rw_handle r of
      None \<Rightarrow> [] | Some h \<Rightarrow> if k = key \<and> t < ms_now st' + ww key then [(h, cost)] else [])"
    by (rule mem_hit_cases[OF ok w, where limit = limit and cost = cost])
      (use run t in \<open>auto simp: mem_ops_def\<close>)
next
  fix st key limit cost r st' h t
  assume ok: "mem_ok ww st" and w: "0 < ww key" and run: "so_hit mem_ops st key limit (ww key) cost = (Inr r, st')"
    and h: "rw_handle r = Some h"
  have "h = show_int (int (wl_handles (ms_log st)))"
    by (rule mem_hit_cases[OF ok w, where limit = limit and cost = cost])
      (use run h in \<open>auto simp: mem_ops_def split: if_splits\<close>)
  then show "h \<notin> fst ` set (mem_live ww st key t)"
    using ok live_handle_issued[of ww "ms_now st" "ms_log st" h _ key t]
    by (force simp: mem_ok_def mem_live_def show_int_inj)
next
  fix st key limit cost r st'
  assume ok: "mem_ok ww st" and w: "0 < ww key" and run: "so_hit mem_ops st key limit (ww key) cost = (Inr r, st')"
  show "(rw_handle r \<noteq> None \<longleftrightarrow> sum_list (map snd (mem_live ww st key (ms_now st'))) + cost \<le> limit)
      \<and> (rw_allowed r \<longleftrightarrow> rw_handle r \<noteq> None)"
    by (rule mem_hit_cases[OF ok w, where limit = limit and cost = cost])
      (use run in \<open>auto simp: mem_ops_def\<close>)
next
  fix st key h cost
  assume "mem_ok ww st"
  then show "mem_ok ww (so_settle mem_ops st key h cost) \<and> ms_now (so_settle mem_ops st key h cost) = ms_now st
      \<and> (\<forall>k t. mem_held (so_settle mem_ops st key h cost) k t = mem_held st k t)"
    by (simp add: mem_ops_def mem_settle_def mem_ok_def mem_held_def log_settle_ok)
next
  fix st t key h cost k
  assume "mem_ok ww st"
  then have "log_ok ww (ms_now st) (ms_log st)" by (simp add: mem_ok_def)
  from log_settle_ok(2)[OF this]
  show "mem_live ww (so_settle mem_ops st key h cost) k t =
      (if k = key then map (\<lambda>(g, c). (g, if g = h then cost else c)) (mem_live ww st k t) else mem_live ww st k t)"
    by (auto simp: mem_ops_def mem_settle_def mem_live_def settled_to_def)
next
  fix st key limit lease_sec out st'
  assume ok: "mem_ok ww st" and run: "so_acquire mem_ops st key limit lease_sec = (out, st')"
  show "mem_ok ww st' \<and> ms_now st \<le> ms_now st' \<and> (\<forall>k t. ms_now st' \<le> t \<longrightarrow> mem_live ww st' k t = mem_live ww st k t)"
    by (rule mem_acquire_cases[OF ok, where key = key and limit = limit and lease_sec = lease_sec])
      (use run in \<open>auto simp: mem_ops_def mem_live_def\<close>)
next
  fix st key limit lease_sec e st' t k
  assume ok: "mem_ok ww st" and run: "so_acquire mem_ops st key limit lease_sec = (Inl e, st')"
  show "mem_held st' k t = mem_held st k t"
    by (rule mem_acquire_cases[OF ok, where key = key and limit = limit and lease_sec = lease_sec])
      (use run in \<open>simp add: mem_ops_def\<close>)
next
  fix st key limit lease_sec taken st' t k
  assume ok: "mem_ok ww st" and run: "so_acquire mem_ops st key limit lease_sec = (Inr taken, st')"
    and t: "ms_now st' \<le> t"
  show "mem_held st' k t = mem_held st k t @ (case taken of
      None \<Rightarrow> [] | Some l \<Rightarrow> if k = key \<and> t < ms_now st' + lease_sec then [l] else [])"
    by (rule mem_acquire_cases[OF ok, where key = key and limit = limit and lease_sec = lease_sec])
      (use run t in \<open>auto simp: mem_ops_def split: if_splits\<close>)
next
  fix st key limit lease_sec l st' t
  assume ok: "mem_ok ww st" and run: "so_acquire mem_ops st key limit lease_sec = (Inr (Some l), st')"
  have "l = ms_uuid st (ms_drawn st)"
    by (rule mem_acquire_cases[OF ok, where key = key and limit = limit and lease_sec = lease_sec])
      (use run in \<open>auto simp: mem_ops_def split: if_splits\<close>)
  moreover have "ms_uuid st (ms_drawn st) \<notin> ms_uuid st ` {..<ms_drawn st}"
    using ok by (simp add: mem_ok_def inj_image_mem_iff)
  moreover have "set (mem_held st key t) \<subseteq> fst ` set (slots_of (ms_leases st) key)"
    by (auto simp: mem_held_def)
  moreover have "fst ` set (slots_of (ms_leases st) key) \<subseteq> ms_uuid st ` {..<ms_drawn st}"
    using ok by (simp add: mem_ok_def)
  ultimately show "l \<notin> set (mem_held st key t)" by blast
next
  fix st key limit lease_sec taken st'
  assume ok: "mem_ok ww st" and run: "so_acquire mem_ops st key limit lease_sec = (Inr taken, st')"
  show "taken \<noteq> None \<longleftrightarrow> int (length (mem_held st key (ms_now st'))) < limit"
    by (rule mem_acquire_cases[OF ok, where key = key and limit = limit and lease_sec = lease_sec])
      (use run in \<open>auto simp: mem_ops_def split: if_splits\<close>)
next
  fix st key l
  assume "mem_ok ww st"
  from mem_release_ok[OF this]
  show "mem_ok ww (so_release mem_ops st key l) \<and> ms_now (so_release mem_ops st key l) = ms_now st
      \<and> (\<forall>k t. mem_live ww (so_release mem_ops st key l) k t = mem_live ww st k t)"
    by (simp add: mem_ops_def mem_live_def)
next
  fix st t key l k
  assume "mem_ok ww st"
  from mem_release_ok(2)[OF this]
  show "mem_held (so_release mem_ops st key l) k t
      = (if k = key then filter (\<lambda>m. m \<noteq> l) (mem_held st k t) else mem_held st k t)"
    by (simp add: mem_ops_def)
next
  fix t u :: instant and st k
  assume "t \<le> u"
  then show "length (mem_held st k u) \<le> length (mem_held st k t)" by (rule length_mem_held_later)
qed

section \<open>Properties\<close>

text \<open>
  \<^bold>\<open>C12\<close>: however the clients of a fresh in-process store interleave their calls, no more than
  \<open>limit\<close> leases are ever held on a key at one instant, now or later, when every acquire on that
  key asks for one of \<open>limit\<close> slots; leases that run out, and the sweep that drops idle keys, do not
  change that.
\<close>

theorem concurrency_slots_never_exceeded:
  assumes "inj uuid" "0 \<le> limit"
    and "\<forall>call \<in> set calls. uses_slot_limit ww key limit call"
    and "ms_now (fold (run_call mem_ops) calls (fresh_store now elapse uuid)) \<le> t"
  shows "int (length (mem_held (fold (run_call mem_ops) calls (fresh_store now elapse uuid)) key t)) \<le> limit"
proof -
  have "mem.slots_within ww key limit (fresh_store now elapse uuid)"
    using assms(1,2) mem_ok_fresh
    by (simp add: mem.slots_within_def) (simp add: mem_held_def fresh_store_def slots_of_def)
  from mem.run_calls_slots[OF assms(3,2) this] assms(4) show ?thesis
    by (simp add: mem.slots_within_def)
qed

definition sample_slot_calls :: "store_call list" where
  "sample_slot_calls = [Acquire_Call ''k'' 1 100, Acquire_Call ''k'' 1 100, Release_Call ''k'' ''0'',
     Acquire_Call ''k'' 1 100]"

theorem concurrency_slots_never_exceeded_witness:
  "mem_held (fold (run_call mem_ops) sample_slot_calls
       (fresh_store 1000 [5, 5] (\<lambda>n. show_int (int n)))) ''k'' 1020 = [''1'']
   \<and> int (length (mem_held (fold (run_call mem_ops) sample_slot_calls
       (fresh_store 1000 [5, 5] (\<lambda>n. show_int (int n)))) ''k'' 1020)) \<le> 1"
proof
  show "mem_held (fold (run_call mem_ops) sample_slot_calls
       (fresh_store 1000 [5, 5] (\<lambda>n. show_int (int n)))) ''k'' 1020 = [''1'']"
    unfolding sample_slot_calls_def by code_simp
  have later: "ms_now (fold (run_call mem_ops) sample_slot_calls
       (fresh_store 1000 [5, 5] (\<lambda>n. show_int (int n)))) \<le> 1020"
    unfolding sample_slot_calls_def by code_simp
  show "int (length (mem_held (fold (run_call mem_ops) sample_slot_calls
       (fresh_store 1000 [5, 5] (\<lambda>n. show_int (int n)))) ''k'' 1020)) \<le> 1"
    by (rule concurrency_slots_never_exceeded[where ww = "\<lambda>_. 60", OF _ _ _ later])
      (auto simp: inj_def show_int_inj sample_slot_calls_def uses_slot_limit_def)
qed

end
