(* ===== verification/Rate_Rules.thy ===== *)
theory Rate_Rules
  imports Rate_Store
begin

text \<open>
  The \<open>rate_limits\<close> rules: their validation (\<open>RateLimitRule\<close> of \<open>core/config.py\<close>) and how one
  request is counted against them (\<open>RateLimitRules\<close>, \<open>RateLimitGrant\<close>, \<open>ModelHold\<close> and
  \<open>RateLimitGrantMiddleware\<close> of \<open>rate_limit.py\<close>), on any store that offers the port's operations.

  A raised \<open>HTTPException\<close> is \<open>Refused\<close> with its detail, its \<open>Retry-After\<close> and the rule it names;
  anything the store itself raises is \<open>Store_Raised\<close>. \<open>asyncio.gather\<close> runs its coroutines in their
  order. A hold carries a number in place of its object identity.
\<close>

section \<open>Rules\<close>

datatype rule_per = Per_Deployment | Per_Key | Per_User | Per_Model | Per_Budget

datatype rule_mode = Enforce | Report

datatype tpm_admission = Used | Estimate

record rate_rule =
  rr_name :: string
  rr_per :: rule_per
  rr_models :: "string list option"
  rr_budgets :: "string list option"
  rr_mode :: rule_mode
  rr_rpm :: "int option"
  rr_tpm :: "int option"
  rr_tpm_admission :: tpm_admission
  rr_max_concurrent :: "int option"
  rr_lease_sec :: instant

text \<open>The field constraints: \<open>pattern\<close>, \<open>ge=1\<close>, \<open>gt=0\<close>.\<close>

definition name_char :: "char \<Rightarrow> bool" where
  "name_char c = (let n = of_char c :: nat in (48 \<le> n \<and> n \<le> 57) \<or> (65 \<le> n \<and> n \<le> 90) \<or> (97 \<le> n \<and> n \<le> 122)
     \<or> c = CHR ''_'' \<or> c = CHR ''.'' \<or> c = CHR ''-'')"

definition at_least_one :: "int option \<Rightarrow> bool" where
  "at_least_one v = (case v of None \<Rightarrow> True | Some n \<Rightarrow> 1 \<le> n)"

definition rule_fields_ok :: "rate_rule \<Rightarrow> bool" where
  "rule_fields_ok r \<longleftrightarrow> rr_name r \<noteq> [] \<and> list_all name_char (rr_name r) \<and> at_least_one (rr_rpm r)
     \<and> at_least_one (rr_tpm r) \<and> at_least_one (rr_max_concurrent r) \<and> 0 < rr_lease_sec r"

definition is_delimiter :: "char \<Rightarrow> bool" where
  "is_delimiter c \<longleftrightarrow> c = CHR '':'' \<or> c = CHR ''/''"

text \<open>\<open>_canonical_model\<close>: split at whichever delimiter comes first.\<close>

definition canonical_model :: "string \<Rightarrow> string \<Rightarrow> string + string" where
  "canonical_model rule_name entry =
     (let text = py_strip entry;
          rest = dropWhile (\<lambda>c. \<not> is_delimiter c) text;
          (instance, model) = (if rest = [] then ([], []) else (takeWhile (\<lambda>c. \<not> is_delimiter c) text, drop 1 rest))
      in if instance = [] \<or> model = []
         then Inl (''rate limit rule '' @ [CHR 0x27] @ rule_name @ [CHR 0x27] @ '' names '' @ [CHR 0x27] @ entry
                   @ [CHR 0x27] @ ''; write a model as instance:model'')
         else Inr (instance @ '':'' @ model))"

fun canonical_models :: "string \<Rightarrow> string list \<Rightarrow> string + string list" where
  "canonical_models rule_name [] = Inr []"
| "canonical_models rule_name (e # es) =
     bind_result (canonical_model rule_name e) (\<lambda>m.
       bind_result (canonical_models rule_name es) (\<lambda>ms. Inr (m # ms)))"

definition rule_message :: "rate_rule \<Rightarrow> string \<Rightarrow> string" where
  "rule_message r msg = ''rate limit rule '' @ [CHR 0x27] @ rr_name r @ [CHR 0x27] @ msg"

text \<open>The model validators, in the order they are declared.\<close>

definition requires_a_limit :: "rate_rule \<Rightarrow> string + rate_rule" where
  "requires_a_limit r =
     (if rr_rpm r = None \<and> rr_tpm r = None \<and> rr_max_concurrent r = None
      then Inl (rule_message r '' sets none of rpm, tpm or max_concurrent'') else Inr r)"

definition budgets_belong_to_per_budget :: "rate_rule \<Rightarrow> string + rate_rule" where
  "budgets_belong_to_per_budget r =
     (if rr_budgets r \<noteq> None \<and> rr_per r \<noteq> Per_Budget
      then Inl (rule_message r '' sets budgets, which only a per: budget rule reads'') else Inr r)"

definition models_belong_to_per_model :: "rate_rule \<Rightarrow> string + rate_rule" where
  "models_belong_to_per_model r =
     (if rr_per r \<noteq> Per_Model
      then (if rr_models r \<noteq> None
            then Inl (rule_message r '' sets models, which only a per: model rule reads'') else Inr r)
      else (case rr_models r of
              None \<Rightarrow> Inl (rule_message r '' is per: model and names no models'')
            | Some [] \<Rightarrow> Inl (rule_message r '' is per: model and names no models'')
            | Some ms \<Rightarrow> bind_result (canonical_models (rr_name r) ms) (\<lambda>ms'. Inr (r\<lparr> rr_models := Some ms' \<rparr>))))"

definition validate_rule :: "rate_rule \<Rightarrow> string + rate_rule" where
  "validate_rule r =
     bind_result (requires_a_limit r) (\<lambda>r1.
       bind_result (budgets_belong_to_per_budget r1) models_belong_to_per_model)"

text \<open>
  Validation keeps what it stores: the canonical spelling of a model is its own canonical spelling,
  so a stored rule validates again to itself.
\<close>

lemma canonical_model_shape:
  assumes "canonical_model n e = Inr m"
  obtains inst model where "m = inst @ '':'' @ model" "inst \<noteq> []" "model \<noteq> []"
    "\<forall>c \<in> set inst. \<not> is_delimiter c" "\<not> py_space (hd inst)" "\<not> py_space (last model)"
proof -
  let ?t = "py_strip e"
  let ?r = "dropWhile (\<lambda>c. \<not> is_delimiter c) ?t" and ?i = "takeWhile (\<lambda>c. \<not> is_delimiter c) ?t"
  have ne: "?r \<noteq> []" "?i \<noteq> []" "drop 1 ?r \<noteq> []" and m: "m = ?i @ '':'' @ drop 1 ?r"
    using assms by (auto simp: canonical_model_def Let_def split: if_splits)
  have t: "?t = ?i @ ?r" by simp
  have "?t \<noteq> []" using ne by auto
  note ends = py_strip_ends[OF this]
  have "hd ?i = hd ?t" using t ne(2) by (metis hd_append2)
  moreover have "last (drop 1 ?r) = last ?t" using t ne(1,3) by (metis last_appendR last_drop length_drop
        length_greater_0_conv zero_less_diff)
  ultimately show thesis
    using that[OF m ne(2,3)] ends by (metis (no_types, lifting) set_takeWhileD)
qed

lemma canonical_model_idem:
  assumes "canonical_model n e = Inr m"
  shows "canonical_model n' m = Inr m"
proof -
  from assms obtain inst model where m: "m = inst @ '':'' @ model" "inst \<noteq> []" "model \<noteq> []"
    "\<forall>c \<in> set inst. \<not> is_delimiter c" "\<not> py_space (hd inst)" "\<not> py_space (last model)"
    by (rule canonical_model_shape)
  have strip: "py_strip m = m" using m by (intro py_strip_id) simp
  have parts: "takeWhile (\<lambda>c. \<not> is_delimiter c) m = inst" "dropWhile (\<lambda>c. \<not> is_delimiter c) m = '':'' @ model"
    using m(1,4) by (simp_all add: takeWhile_append2 dropWhile_append2 is_delimiter_def)
  show ?thesis
    unfolding canonical_model_def Let_def strip parts using m(2,3) by (simp add: m(1))
qed

lemma canonical_models_idem:
  "canonical_models n es = Inr ms \<Longrightarrow> canonical_models n' ms = Inr ms"
  by (induction es arbitrary: ms) (auto simp: bind_result_Inr_iff canonical_model_idem)

lemma canonical_models_length: "canonical_models n es = Inr ms \<Longrightarrow> length ms = length es"
  by (induction es arbitrary: ms) (auto simp: bind_result_Inr_iff)

section \<open>Holds and grants\<close>

record rate_hold =
  rh_id :: nat
  rh_entries :: "(string \<times> string) list"
  rh_estimates :: "(string \<times> string) list"
  rh_leases :: "(string \<times> string) list"
  rh_reported :: "string list"

definition new_hold :: "nat \<Rightarrow> rate_hold" where
  "new_hold i = \<lparr> rh_id = i, rh_entries = [], rh_estimates = [], rh_leases = [], rh_reported = [] \<rparr>"

record rate_grant =
  rg_rules :: "rate_rule list"
  rg_estimated :: int
  rg_holds :: "rate_hold list"
  rg_next :: nat
  rg_handed_over :: bool

definition new_grant :: "rate_rule list \<Rightarrow> int \<Rightarrow> rate_grant" where
  "new_grant rules estimated = \<lparr> rg_rules = rules, rg_estimated = estimated, rg_holds = [], rg_next = 0,
     rg_handed_over = False \<rparr>"

datatype admit_error =
    Refused string "int option" string
  | Store_Raised store_error

definition rule_window :: instant where
  "rule_window = 60000000"

definition concurrency_retry_after :: instant where
  "concurrency_retry_after = 1000000"

definition count_phrase :: "int \<Rightarrow> string \<Rightarrow> string" where
  "count_phrase n noun = show_thousands n @ '' '' @ noun @ (if n = 1 then [] else ''s'')"

definition refused :: "string \<Rightarrow> instant option \<Rightarrow> string \<Rightarrow> admit_error" where
  "refused detail retry_after rule =
     Refused detail (map_option (\<lambda>us. max (ceil_seconds us) 1) retry_after) rule"

text \<open>\<open>_over\<close>.\<close>

definition over_rule ::
  "rate_rule \<Rightarrow> rate_hold \<Rightarrow> string \<Rightarrow> instant option \<Rightarrow> admit_error + rate_hold" where
  "over_rule rule h detail retry_after =
     (if rr_mode rule \<noteq> Report then Inl (refused detail retry_after (rr_name rule))
      else if rr_name rule \<in> set (rh_reported h) then Inr h
      else Inr (h\<lparr> rh_reported := rh_reported h @ [rr_name rule] \<rparr>))"

text \<open>
  The three parts of \<open>_count_rule\<close>. The result is what was raised, if anything, the hold with what
  was taken until then, and the store.
\<close>

type_synonym 's counted = "(admit_error + unit) \<times> rate_hold \<times> 's"

definition note_over :: "admit_error + rate_hold \<Rightarrow> rate_hold \<Rightarrow> 's \<Rightarrow> 's counted" where
  "note_over verdict h s = (case verdict of Inl e \<Rightarrow> (Inl e, h, s) | Inr h' \<Rightarrow> (Inr (), h', s))"

definition exceeded :: "rate_rule \<Rightarrow> string \<Rightarrow> string \<Rightarrow> string" where
  "exceeded rule label what =
     ''Rate limit '' @ [CHR 0x27] @ rr_name rule @ [CHR 0x27] @ label @ '' exceeded: '' @ what"

definition count_requests ::
  "'s store_ops \<Rightarrow> rate_rule \<Rightarrow> string \<Rightarrow> string \<Rightarrow> rate_hold \<Rightarrow> 's \<Rightarrow> 's counted" where
  "count_requests ops rule base label h s =
     (case rr_rpm rule of
        None \<Rightarrow> (Inr (), h, s)
      | Some rpm \<Rightarrow>
          (case so_hit ops s (base @ '':rpm'') rpm rule_window 1 of
             (Inl e, s') \<Rightarrow> (Inl (Store_Raised e), h, s')
           | (Inr w, s') \<Rightarrow>
               (case rw_handle w of
                  None \<Rightarrow> note_over (over_rule rule h
                    (exceeded rule label (count_phrase rpm ''request'' @ '' per minute''))
                    (Some (rw_reset_after w))) h s'
                | Some handle \<Rightarrow>
                    (Inr (), h\<lparr> rh_entries := rh_entries h @ [(base @ '':rpm'', handle)] \<rparr>, s'))))"

definition token_cost :: "rate_rule \<Rightarrow> int \<Rightarrow> int" where
  "token_cost rule estimated = (if rr_tpm_admission rule = Used then 1 else max estimated 1)"

definition too_large :: "rate_rule \<Rightarrow> string \<Rightarrow> int \<Rightarrow> int \<Rightarrow> string" where
  "too_large rule label cost tpm = ''Request needs an estimated '' @ count_phrase cost ''token'' @ ''; rate limit ''
     @ [CHR 0x27] @ rr_name rule @ [CHR 0x27] @ label @ '' allows '' @ show_thousands tpm @ '' per minute''"

definition count_tokens ::
  "'s store_ops \<Rightarrow> rate_rule \<Rightarrow> string \<Rightarrow> string \<Rightarrow> int \<Rightarrow> rate_hold \<Rightarrow> 's \<Rightarrow> 's counted" where
  "count_tokens ops rule base label estimated h s =
     (case rr_tpm rule of
        None \<Rightarrow> (Inr (), h, s)
      | Some tpm \<Rightarrow>
          (let cost = token_cost rule estimated in
           if cost > tpm then note_over (over_rule rule h (too_large rule label cost tpm) None) h s
           else (case so_hit ops s (base @ '':tpm'') tpm rule_window cost of
             (Inl e, s') \<Rightarrow> (Inl (Store_Raised e), h, s')
           | (Inr w, s') \<Rightarrow>
               (case rw_handle w of
                  None \<Rightarrow> note_over (over_rule rule h
                    (exceeded rule label (count_phrase tpm ''token'' @ '' per minute''))
                    (Some (rw_reset_after w))) h s'
                | Some handle \<Rightarrow>
                    (Inr (), h\<lparr> rh_entries := rh_entries h @ [(base @ '':tpm'', handle)],
                                rh_estimates := rh_estimates h @ [(base @ '':tpm'', handle)] \<rparr>, s')))))"

definition take_slot ::
  "'s store_ops \<Rightarrow> rate_rule \<Rightarrow> string \<Rightarrow> string \<Rightarrow> rate_hold \<Rightarrow> 's \<Rightarrow> 's counted" where
  "take_slot ops rule base label h s =
     (case rr_max_concurrent rule of
        None \<Rightarrow> (Inr (), h, s)
      | Some most \<Rightarrow>
          (case so_acquire ops s (base @ '':concurrent'') most (rr_lease_sec rule) of
             (Inl e, s') \<Rightarrow> (Inl (Store_Raised e), h, s')
           | (Inr None, s') \<Rightarrow> note_over (over_rule rule h
               (exceeded rule label (count_phrase most ''request'' @ '' in flight''))
               (Some concurrency_retry_after)) h s'
           | (Inr (Some lease), s') \<Rightarrow>
               (Inr (), h\<lparr> rh_leases := rh_leases h @ [(base @ '':concurrent'', lease)] \<rparr>, s')))"

text \<open>Statements run one after another until one raises.\<close>

definition and_then :: "'s counted \<Rightarrow> (rate_hold \<Rightarrow> 's \<Rightarrow> 's counted) \<Rightarrow> 's counted" where
  "and_then r k = (case r of (Inl e, h, s) \<Rightarrow> (Inl e, h, s) | (Inr _, h, s) \<Rightarrow> k h s)"

definition count_rule ::
  "'s store_ops \<Rightarrow> rate_rule \<Rightarrow> string \<Rightarrow> int \<Rightarrow> string \<Rightarrow> rate_hold \<Rightarrow> 's \<Rightarrow> 's counted" where
  "count_rule ops rule subj estimated label h s =
     (let base = ''rule:'' @ rr_name rule @ '':'' @ subj in
      and_then (count_requests ops rule base label h s) (\<lambda>h1 s1.
        and_then (count_tokens ops rule base label estimated h1 s1)
          (take_slot ops rule base label)))"

text \<open>\<open>_undo\<close>.\<close>

definition settle_all :: "'s store_ops \<Rightarrow> int \<Rightarrow> (string \<times> string) list \<Rightarrow> 's \<Rightarrow> 's" where
  "settle_all ops cost entries s = foldl (\<lambda>s (key, handle). so_settle ops s key handle cost) s entries"

definition release_all :: "'s store_ops \<Rightarrow> (string \<times> string) list \<Rightarrow> 's \<Rightarrow> 's" where
  "release_all ops leases s = foldl (\<lambda>s (key, lease). so_release ops s key lease) s leases"

definition undo_hold :: "'s store_ops \<Rightarrow> rate_hold \<Rightarrow> 's \<Rightarrow> rate_hold \<times> 's" where
  "undo_hold ops h s = (h\<lparr> rh_entries := [], rh_estimates := [], rh_leases := [] \<rparr>,
     release_all ops (rh_leases h) (settle_all ops 0 (rh_entries h) s))"

fun undo_holds :: "'s store_ops \<Rightarrow> rate_hold list \<Rightarrow> 's \<Rightarrow> rate_hold list \<times> 's" where
  "undo_holds ops [] s = ([], s)"
| "undo_holds ops (h # hs) s =
     (let (h', s1) = undo_hold ops h s; (hs', s2) = undo_holds ops hs s1 in (h' # hs', s2))"

section \<open>Admission\<close>

record minute_limits =
  ml_budget_id :: string
  ml_rpm :: "int option"
  ml_tpm :: "int option"

definition limits_anything :: "minute_limits \<Rightarrow> bool" where
  "limits_anything l \<longleftrightarrow> ml_rpm l \<noteq> None \<or> ml_tpm l \<noteq> None"

text \<open>\<open>_budget_rule\<close>, with the defaults of \<open>RateLimitRule\<close>: an enforced rule.\<close>

definition budget_rule :: "minute_limits \<Rightarrow> rate_rule" where
  "budget_rule l = \<lparr> rr_name = ''budget'', rr_per = Per_User, rr_models = None, rr_budgets = None,
     rr_mode = Enforce, rr_rpm = ml_rpm l, rr_tpm = ml_tpm l, rr_tpm_admission = Used,
     rr_max_concurrent = None, rr_lease_sec = 900000000 \<rparr>"

definition subject_of ::
  "string option \<Rightarrow> string option \<Rightarrow> string option \<Rightarrow> rule_per \<Rightarrow> string option" where
  "subject_of key_id user_id budget_id per = (case per of
       Per_Deployment \<Rightarrow> Some ''all''
     | Per_Key \<Rightarrow> key_id
     | Per_User \<Rightarrow> user_id
     | Per_Budget \<Rightarrow> budget_id
     | Per_Model \<Rightarrow> None)"

definition rule_applies :: "rate_rule \<Rightarrow> string \<Rightarrow> bool" where
  "rule_applies rule subj \<longleftrightarrow> rr_per rule \<noteq> Per_Budget
     \<or> (case rr_budgets rule of None \<Rightarrow> True | Some bs \<Rightarrow> subj \<in> set bs)"

definition counted_rules ::
  "rate_rule list \<Rightarrow> string option \<Rightarrow> string option \<Rightarrow> minute_limits option \<Rightarrow> (rate_rule \<times> string) list" where
  "counted_rules rules key_id user_id limits =
     [(rule, subj). rule \<leftarrow> rules,
        subj \<leftarrow> opt_list (subject_of key_id user_id (map_option ml_budget_id limits) (rr_per rule)),
        rule_applies rule subj]
     @ (case (limits, user_id) of
          (Some l, Some u) \<Rightarrow> if limits_anything l then [(budget_rule l, ml_budget_id l @ '':'' @ u)] else []
        | _ \<Rightarrow> [])"

definition shared_per :: "rule_per \<Rightarrow> bool" where
  "shared_per per \<longleftrightarrow> per = Per_Deployment \<or> per = Per_Budget"

text \<open>The coroutines \<open>_count_phase\<close> gathers: each rule with a hold of its own, all of them run.\<close>

fun gather_counts ::
  "'s store_ops \<Rightarrow> int \<Rightarrow> (rate_rule \<times> string) list \<Rightarrow> nat \<Rightarrow> 's
     \<Rightarrow> (admit_error + unit) list \<times> rate_hold list \<times> 's" where
  "gather_counts ops estimated [] i s = ([], [], s)"
| "gather_counts ops estimated ((rule, subj) # phase) i s =
     (let (r, h, s1) = count_rule ops rule subj estimated [] (new_hold i) s;
          (rs, hs, s2) = gather_counts ops estimated phase (Suc i) s1
      in (r # rs, h # hs, s2))"

fun failures_of :: "(admit_error + unit) list \<Rightarrow> admit_error list" where
  "failures_of [] = []"
| "failures_of (Inl e # rs) = e # failures_of rs"
| "failures_of (Inr _ # rs) = failures_of rs"

definition is_refusal :: "admit_error \<Rightarrow> bool" where
  "is_refusal e = (case e of Refused _ _ _ \<Rightarrow> True | Store_Raised _ \<Rightarrow> False)"

text \<open>The failure \<open>_count_phase\<close> raises: the first refusal, else the first failure.\<close>

definition raised_of :: "admit_error list \<Rightarrow> admit_error option" where
  "raised_of failures = (case find is_refusal failures of
       Some e \<Rightarrow> Some e
     | None \<Rightarrow> (case failures of [] \<Rightarrow> None | e # _ \<Rightarrow> Some e))"

text \<open>
  \<open>_count_phase\<close>. The grant's holds are the holds of the phases run so far, so the undo of a
  refusal clears them on the grant.
\<close>

definition count_phase ::
  "'s store_ops \<Rightarrow> (rate_rule \<times> string) list \<Rightarrow> rate_grant \<Rightarrow> 's
     \<Rightarrow> (admit_error + unit) \<times> rate_grant \<times> 's" where
  "count_phase ops phase g s =
     (let (outcomes, hs, s1) = gather_counts ops (rg_estimated g) phase (rg_next g) s;
          holds = rg_holds g @ hs;
          g1 = g\<lparr> rg_holds := holds, rg_next := rg_next g + length phase \<rparr>
      in case raised_of (failures_of outcomes) of
           None \<Rightarrow> (Inr (), g1, s1)
         | Some e \<Rightarrow>
             (let (holds', s2) = undo_holds ops holds s1 in (Inl e, g1\<lparr> rg_holds := holds' \<rparr>, s2)))"

text \<open>\<open>RateLimitRules.admit\<close>. The grant is left on the request even when the admission raises.\<close>

definition admit_request ::
  "'s store_ops \<Rightarrow> rate_rule list \<Rightarrow> string option \<Rightarrow> string option \<Rightarrow> int \<Rightarrow> minute_limits option \<Rightarrow> 's
     \<Rightarrow> (admit_error + unit) \<times> rate_grant \<times> 's" where
  "admit_request ops rules key_id user_id estimated limits s =
     (let counted = counted_rules rules key_id user_id limits;
          own = filter (\<lambda>(r, _). \<not> shared_per (rr_per r)) counted;
          shared = filter (\<lambda>(r, _). shared_per (rr_per r)) counted
      in case count_phase ops own (new_grant rules estimated) s of
           (Inl e, g, s1) \<Rightarrow> (Inl e, g, s1)
         | (Inr _, g, s1) \<Rightarrow> count_phase ops shared g s1)"

text \<open>\<open>admit_rate_limit_rules\<close>: \<open>None\<close> when nothing limits the request.\<close>

definition admit_rate_limit_rules ::
  "'s store_ops \<Rightarrow> rate_rule list option \<Rightarrow> string option \<Rightarrow> string option \<Rightarrow> int \<Rightarrow> minute_limits option \<Rightarrow> 's
     \<Rightarrow> (admit_error + rate_grant option) \<times> 's" where
  "admit_rate_limit_rules ops rules key_id user_id estimated limits s =
     (case rules of
        None \<Rightarrow> (Inr None, s)
      | Some rs \<Rightarrow>
          (if rs = [] \<and> (case limits of None \<Rightarrow> True | Some l \<Rightarrow> \<not> limits_anything l) then (Inr None, s)
           else (case admit_request ops rs key_id user_id estimated limits s of
                   (Inl e, g, s') \<Rightarrow> (Inl e, s')
                 | (Inr _, g, s') \<Rightarrow> (Inr (Some g), s'))))"

section \<open>A grant's life\<close>

definition hand_over :: "rate_grant \<Rightarrow> rate_grant" where
  "hand_over g = g\<lparr> rg_handed_over := True \<rparr>"

definition reported_rules :: "rate_grant \<Rightarrow> string list" where
  "reported_rules g = fromkeys (concat (map rh_reported (rg_holds g)))"

definition grant_settle :: "'s store_ops \<Rightarrow> int \<Rightarrow> rate_grant \<Rightarrow> 's \<Rightarrow> rate_grant \<times> 's" where
  "grant_settle ops tokens g s =
     (g\<lparr> rg_holds := map (\<lambda>h. h\<lparr> rh_estimates := [] \<rparr>) (rg_holds g) \<rparr>,
      settle_all ops (max tokens 0) (concat (map rh_estimates (rg_holds g))) s)"

definition grant_release :: "'s store_ops \<Rightarrow> rate_grant \<Rightarrow> 's \<Rightarrow> rate_grant \<times> 's" where
  "grant_release ops g s =
     (g\<lparr> rg_holds := map (\<lambda>h. h\<lparr> rh_leases := [] \<rparr>) (rg_holds g) \<rparr>,
      release_all ops (concat (map rh_leases (rg_holds g))) s)"

text \<open>\<open>_close_grant\<close>.\<close>

definition close_grant :: "'s store_ops \<Rightarrow> rate_grant \<Rightarrow> 's \<Rightarrow> rate_grant \<times> 's" where
  "close_grant ops g s =
     (let (g1, s1) = (if rg_handed_over g then (g, s) else grant_settle ops 0 g s)
      in grant_release ops g1 s1)"

text \<open>\<open>admit_model\<close> and \<open>ModelHold.drop\<close>. The model hold is the hold's identity and its contents.\<close>

fun count_model_rules ::
  "'s store_ops \<Rightarrow> rate_rule list \<Rightarrow> string \<Rightarrow> int \<Rightarrow> string \<Rightarrow> rate_hold \<Rightarrow> 's \<Rightarrow> 's counted" where
  "count_model_rules ops [] name estimated label h s = (Inr (), h, s)"
| "count_model_rules ops (rule # rules) name estimated label h s =
     (case count_rule ops rule name estimated label h s of
        (Inl e, h1, s1) \<Rightarrow> (let (h2, s2) = undo_hold ops h1 s1 in (Inl e, h2, s2))
      | (Inr _, h1, s1) \<Rightarrow> count_model_rules ops rules name estimated label h1 s1)"

definition admit_model ::
  "'s store_ops \<Rightarrow> string \<Rightarrow> string \<Rightarrow> bool \<Rightarrow> rate_grant \<Rightarrow> 's
     \<Rightarrow> (admit_error + rate_hold option) \<times> rate_grant \<times> 's" where
  "admit_model ops inst model name_model g s =
     (let name = inst @ '':'' @ model;
          rules = filter (\<lambda>r. rr_per r = Per_Model \<and> name \<in> set (case rr_models r of None \<Rightarrow> [] | Some ms \<Rightarrow> ms))
            (rg_rules g)
      in if rules = [] then (Inr None, g, s)
         else (case count_model_rules ops rules name (rg_estimated g)
                      (if name_model then '' for '' @ name else []) (new_hold (rg_next g)) s of
                 (Inl e, h, s') \<Rightarrow> (Inl e, g, s')
               | (Inr _, h, s') \<Rightarrow>
                   (Inr (Some h), g\<lparr> rg_holds := rg_holds g @ [h], rg_next := rg_next g + 1 \<rparr>, s')))"

definition drop_model_hold ::
  "'s store_ops \<Rightarrow> bool \<Rightarrow> rate_hold \<Rightarrow> rate_grant \<Rightarrow> 's \<Rightarrow> rate_hold \<times> rate_grant \<times> 's" where
  "drop_model_hold ops sent h g s =
     (let g1 = g\<lparr> rg_holds := filter (\<lambda>x. rh_id x \<noteq> rh_id h) (rg_holds g) \<rparr>
      in if \<not> sent then (let (h1, s1) = undo_hold ops h s in (h1, g1, s1))
         else (h\<lparr> rh_estimates := [], rh_leases := [] \<rparr>, g1,
               release_all ops (rh_leases h) (settle_all ops 0 (rh_estimates h) s)))"

text \<open>What \<open>RateLimitGrantMiddleware\<close> adds to a response's headers.\<close>

definition reported_header :: "rate_grant option \<Rightarrow> int \<Rightarrow> (string \<times> string) list" where
  "reported_header grant status =
     (let reported = (case grant of None \<Rightarrow> [] | Some g \<Rightarrow> reported_rules g)
      in if reported \<noteq> [] \<and> status < 400
         then [(''otari-rate-limit-exceeded'', join_with '', '' reported)] else [])"

end
