(* ===== verification/Rate_Laws.thy ===== *)
theory Rate_Laws
  imports Rate_Rules
begin

text \<open>
  What an admission leaves behind, proved once for every store that keeps the port's promises
  (locale \<open>rate_store\<close>) and then stated for the in-process store: a refused request counts nowhere,
  only an enforced rule refuses, and a closed grant holds no slot.
\<close>

section \<open>What a request has taken from a store\<close>

context rate_store
begin

text \<open>
  \<open>s\<close> has been reached from \<open>s0\<close> by taking, on behalf of one request, the entries \<open>E\<close> and the leases
  \<open>F\<close>; those in \<open>R\<close> and \<open>Q\<close> are still charged and held.
\<close>

definition owes ::
  "'s \<Rightarrow> 's \<Rightarrow> (string \<times> string) set \<Rightarrow> (string \<times> string) set \<Rightarrow> (string \<times> string) set
     \<Rightarrow> (string \<times> string) set \<Rightarrow> bool" where
  "owes s0 s E R F Q \<longleftrightarrow> ok s \<and> now s0 \<le> now s
     \<and> (\<forall>k t. now s \<le> t \<longrightarrow> (\<exists>xs. live s k t = live s0 k t @ xs \<and> (\<forall>x \<in> set xs. (k, fst x) \<in> R \<or> snd x = 0)))
     \<and> (\<forall>k h t. now s \<le> t \<longrightarrow> (k, h) \<in> E \<longrightarrow> h \<notin> fst ` set (live s0 k t))
     \<and> (\<forall>k t. now s \<le> t \<longrightarrow> (\<exists>ls. held s k t = held s0 k t @ ls \<and> (\<forall>l \<in> set ls. (k, l) \<in> Q)))
     \<and> (\<forall>k l t. now s \<le> t \<longrightarrow> (k, l) \<in> F \<longrightarrow> l \<notin> set (held s0 k t))"

lemma owesI:
  assumes "ok s" "now s0 \<le> now s"
    and "\<And>k t. now s \<le> t \<Longrightarrow> \<exists>xs. live s k t = live s0 k t @ xs \<and> (\<forall>x \<in> set xs. (k, fst x) \<in> R \<or> snd x = 0)"
    and "\<And>k h t. now s \<le> t \<Longrightarrow> (k, h) \<in> E \<Longrightarrow> h \<notin> fst ` set (live s0 k t)"
    and "\<And>k t. now s \<le> t \<Longrightarrow> \<exists>ls. held s k t = held s0 k t @ ls \<and> (\<forall>l \<in> set ls. (k, l) \<in> Q)"
    and "\<And>k l t. now s \<le> t \<Longrightarrow> (k, l) \<in> F \<Longrightarrow> l \<notin> set (held s0 k t)"
  shows "owes s0 s E R F Q"
  using assms unfolding owes_def by (intro conjI) simp_all

lemma owesD:
  assumes "owes s0 s E R F Q"
  shows "ok s" "now s0 \<le> now s"
    and "\<And>k t. now s \<le> t \<Longrightarrow> \<exists>xs. live s k t = live s0 k t @ xs \<and> (\<forall>x \<in> set xs. (k, fst x) \<in> R \<or> snd x = 0)"
    and "\<And>k h t. now s \<le> t \<Longrightarrow> (k, h) \<in> E \<Longrightarrow> h \<notin> fst ` set (live s0 k t)"
    and "\<And>k t. now s \<le> t \<Longrightarrow> \<exists>ls. held s k t = held s0 k t @ ls \<and> (\<forall>l \<in> set ls. (k, l) \<in> Q)"
    and "\<And>k l t. now s \<le> t \<Longrightarrow> (k, l) \<in> F \<Longrightarrow> l \<notin> set (held s0 k t)"
  using assms unfolding owes_def by simp_all

lemma owes_refl: "ok s \<Longrightarrow> owes s s {} {} {} {}"
  by (rule owesI) simp_all

text \<open>A step that leaves every count and every lease as they are.\<close>

lemma owes_same:
  assumes "owes s0 s E R F Q" "ok s'" "now s \<le> now s'"
    and "\<And>k t. now s' \<le> t \<Longrightarrow> live s' k t = live s k t"
    and "\<And>k t. now s' \<le> t \<Longrightarrow> held s' k t = held s k t"
  shows "owes s0 s' E R F Q"
  using assms(2,3) owesD(2)[OF assms(1)] owesD(3-6)[OF assms(1)]
  by (intro owesI) (simp_all add: assms(4,5))

lemma owes_hit:
  assumes owes: "owes s0 s E R F Q" and w: "0 < ww key"
    and run: "so_hit ops s key limit (ww key) cost = (Inr r, s')"
  shows "owes s0 s' (E \<union> Pair key ` set_option (rw_handle r)) (R \<union> Pair key ` set_option (rw_handle r)) F Q"
proof -
  have ok: "ok s" by (rule owesD(1)[OF owes])
  have step: "ok s'" "now s \<le> now s'" "\<And>k t. now s' \<le> t \<Longrightarrow> held s' k t = held s k t"
    using hit_ok[OF ok w run] by auto
  show ?thesis
  proof (rule owesI)
    fix k t assume t: "now s' \<le> t"
    then have t0: "now s \<le> t" using step(2) by simp
    obtain xs where "live s k t = live s0 k t @ xs" "\<forall>x \<in> set xs. (k, fst x) \<in> R \<or> snd x = 0"
      using owesD(3)[OF owes t0] by blast
    then show "\<exists>xs. live s' k t = live s0 k t @ xs
        \<and> (\<forall>x \<in> set xs. (k, fst x) \<in> R \<union> Pair key ` set_option (rw_handle r) \<or> snd x = 0)"
      using hit_counts[OF ok w run t, of k] by (cases "rw_handle r") auto
    show "\<exists>ls. held s' k t = held s0 k t @ ls \<and> (\<forall>l \<in> set ls. (k, l) \<in> Q)"
      using owesD(5)[OF owes t0] step(3)[OF t] by simp
  next
    fix k h t assume t: "now s' \<le> t" and h: "(k, h) \<in> E \<union> Pair key ` set_option (rw_handle r)"
    then have t0: "now s \<le> t" using step(2) by simp
    obtain xs where xs: "live s k t = live s0 k t @ xs"
      using owesD(3)[OF owes t0] by blast
    show "h \<notin> fst ` set (live s0 k t)"
    proof (cases "(k, h) \<in> E")
      case False
      then have "k = key" "rw_handle r = Some h" using h by auto
      then show ?thesis using hit_fresh[OF ok w run _ t] xs by (simp add: image_Un)
    qed (rule owesD(4)[OF owes t0])
  next
    fix k l t assume "now s' \<le> t" "(k, l) \<in> F"
    then show "l \<notin> set (held s0 k t)" using owesD(6)[OF owes] step(2) by simp
  qed (use step owesD(2)[OF owes] in simp_all)
qed

lemma owes_acquire:
  assumes owes: "owes s0 s E R F Q" and run: "so_acquire ops s key limit lease_sec = (Inr res, s')"
  shows "owes s0 s' E R (F \<union> Pair key ` set_option res) (Q \<union> Pair key ` set_option res)"
proof -
  have ok: "ok s" by (rule owesD(1)[OF owes])
  have step: "ok s'" "now s \<le> now s'" "\<And>k t. now s' \<le> t \<Longrightarrow> live s' k t = live s k t"
    using acquire_ok[OF ok run] by auto
  show ?thesis
  proof (rule owesI)
    fix k t assume t: "now s' \<le> t"
    then have t0: "now s \<le> t" using step(2) by simp
    obtain ls where "held s k t = held s0 k t @ ls" "\<forall>l \<in> set ls. (k, l) \<in> Q"
      using owesD(5)[OF owes t0] by blast
    then show "\<exists>ls. held s' k t = held s0 k t @ ls \<and> (\<forall>l \<in> set ls. (k, l) \<in> Q \<union> Pair key ` set_option res)"
      using acquire_holds[OF ok run t, of k] by (cases res) auto
    show "\<exists>xs. live s' k t = live s0 k t @ xs \<and> (\<forall>x \<in> set xs. (k, fst x) \<in> R \<or> snd x = 0)"
      using owesD(3)[OF owes t0] step(3)[OF t] by simp
  next
    fix k l t assume t: "now s' \<le> t" and l: "(k, l) \<in> F \<union> Pair key ` set_option res"
    then have t0: "now s \<le> t" using step(2) by simp
    obtain ls where ls: "held s k t = held s0 k t @ ls"
      using owesD(5)[OF owes t0] by blast
    show "l \<notin> set (held s0 k t)"
    proof (cases "(k, l) \<in> F")
      case False
      then have "k = key" "res = Some l" using l by auto
      then show ?thesis using acquire_fresh[OF ok run[unfolded \<open>res = Some l\<close>] t] ls by simp
    qed (rule owesD(6)[OF owes t0])
  next
    fix k h t assume "now s' \<le> t" "(k, h) \<in> E"
    then show "h \<notin> fst ` set (live s0 k t)" using owesD(4)[OF owes] step(2) by simp
  qed (use step owesD(2)[OF owes] in simp_all)
qed

text \<open>Settling an entry on nothing, and giving back a lease, pays what is owed.\<close>

lemma owes_settle:
  assumes owes: "owes s0 s E R F Q" and taken: "(key, handle) \<in> E"
  shows "owes s0 (so_settle ops s key handle 0) E (R - {(key, handle)}) F Q"
proof -
  let ?s = "so_settle ops s key handle 0"
  have ok: "ok s" by (rule owesD(1)[OF owes])
  have step: "ok ?s" "now ?s = now s" "\<And>k t. held ?s k t = held s k t"
    using settle_ok[OF ok, of key handle 0] by auto
  show ?thesis
  proof (rule owesI)
    fix k t assume "now ?s \<le> t"
    then have t0: "now s \<le> t" by (simp add: step(2))
    obtain xs where xs: "live s k t = live s0 k t @ xs" "\<forall>x \<in> set xs. (k, fst x) \<in> R \<or> snd x = 0"
      using owesD(3)[OF owes t0] by blast
    let ?f = "\<lambda>(g, c). (g, if g = handle then 0 else c)"
    have "map ?f (live s0 key t) = live s0 key t"
      by (rule map_idI) (use owesD(4)[OF owes t0 taken] in \<open>force split: if_splits\<close>)
    then show "\<exists>xs. live ?s k t = live s0 k t @ xs
        \<and> (\<forall>x \<in> set xs. (k, fst x) \<in> R - {(key, handle)} \<or> snd x = 0)"
      using settle_counts[OF ok t0, where k = k and key = key and h = handle and cost = 0] xs
      by (intro exI[of _ "if k = key then map ?f xs else xs"]) (force split: if_splits)
    show "\<exists>ls. held ?s k t = held s0 k t @ ls \<and> (\<forall>l \<in> set ls. (k, l) \<in> Q)"
      using owesD(5)[OF owes t0] step(3) by simp
  qed (use step owesD(2,4,6)[OF owes] in simp_all)
qed

lemma owes_release:
  assumes owes: "owes s0 s E R F Q" and taken: "(key, lease) \<in> F"
  shows "owes s0 (so_release ops s key lease) E R F (Q - {(key, lease)})"
proof -
  let ?s = "so_release ops s key lease"
  have ok: "ok s" by (rule owesD(1)[OF owes])
  have step: "ok ?s" "now ?s = now s" "\<And>k t. live ?s k t = live s k t"
    using release_ok[OF ok, of key lease] by auto
  show ?thesis
  proof (rule owesI)
    fix k t assume "now ?s \<le> t"
    then have t0: "now s \<le> t" by (simp add: step(2))
    obtain ls where ls: "held s k t = held s0 k t @ ls" "\<forall>l \<in> set ls. (k, l) \<in> Q"
      using owesD(5)[OF owes t0] by blast
    have "filter (\<lambda>m. m \<noteq> lease) (held s0 key t) = held s0 key t"
      using owesD(6)[OF owes t0 taken] by (auto simp: filter_id_conv)
    then show "\<exists>ls. held ?s k t = held s0 k t @ ls \<and> (\<forall>l \<in> set ls. (k, l) \<in> Q - {(key, lease)})"
      using release_frees[OF ok t0, where k = k and key = key and l = lease] ls
      by (intro exI[of _ "if k = key then filter (\<lambda>m. m \<noteq> lease) ls else ls"]) auto
    show "\<exists>xs. live ?s k t = live s0 k t @ xs \<and> (\<forall>x \<in> set xs. (k, fst x) \<in> R \<or> snd x = 0)"
      using owesD(3)[OF owes t0] step(3) by simp
  qed (use step owesD(2,4,6)[OF owes] in simp_all)
qed

lemma owes_settle_all:
  assumes "owes s0 s E R F Q" "set entries \<subseteq> E"
  shows "owes s0 (settle_all ops 0 entries s) E (R - set entries) F Q"
  using assms
proof (induction entries arbitrary: s R)
  case (Cons e entries)
  obtain key handle where e: "e = (key, handle)" by force
  have "owes s0 (so_settle ops s key handle 0) E (R - {(key, handle)}) F Q"
    by (rule owes_settle[OF Cons.prems(1)]) (use Cons.prems(2) e in simp)
  from Cons.IH[OF this] Cons.prems(2) show ?case
    by (simp add: settle_all_def e) (metis Diff_insert Diff_insert2)
qed (simp add: settle_all_def)

lemma owes_release_all:
  assumes "owes s0 s E R F Q" "set leases \<subseteq> F"
  shows "owes s0 (release_all ops leases s) E R F (Q - set leases)"
  using assms
proof (induction leases arbitrary: s Q)
  case (Cons l leases)
  obtain key lease where l: "l = (key, lease)" by force
  have "owes s0 (so_release ops s key lease) E R F (Q - {(key, lease)})"
    by (rule owes_release[OF Cons.prems(1)]) (use Cons.prems(2) l in simp)
  from Cons.IH[OF this] Cons.prems(2) show ?case
    by (simp add: release_all_def l) (metis Diff_insert Diff_insert2)
qed (simp add: release_all_def)

section \<open>What counting a rule takes\<close>

definition hold_owes :: "'s \<Rightarrow> 's \<Rightarrow> (string \<times> string) set \<Rightarrow> (string \<times> string) set \<Rightarrow> rate_hold \<Rightarrow> bool" where
  "hold_owes s0 s E F h \<longleftrightarrow> owes s0 s (E \<union> set (rh_entries h)) (E \<union> set (rh_entries h))
     (F \<union> set (rh_leases h)) (F \<union> set (rh_leases h))"

lemma hold_owes_note:
  assumes "note_over (over_rule rule h d ra) h s = (r, h', s')" "hold_owes s0 s E F h"
  shows "hold_owes s0 s' E F h'"
  using assms by (auto simp: note_over_def over_rule_def hold_owes_def split: if_splits)

lemma hold_owes_hit:
  assumes "hold_owes s0 s E F h" "0 < ww key" "so_hit ops s key limit (ww key) cost = (Inr w, s')"
  shows "rw_handle w = None \<Longrightarrow> hold_owes s0 s' E F h"
    and "rw_handle w = Some g \<Longrightarrow> rh_entries h' = rh_entries h @ [(key, g)] \<Longrightarrow>
      rh_leases h' = rh_leases h \<Longrightarrow> hold_owes s0 s' E F h'"
  using owes_hit[OF assms(1)[unfolded hold_owes_def] assms(2,3)]
  by (simp_all add: hold_owes_def Un_assoc)

lemma hold_owes_raise:
  assumes "hold_owes s0 s E F h" "0 < ww key" "so_hit ops s key limit (ww key) cost = (Inl e, s')"
  shows "hold_owes s0 s' E F h"
proof -
  have ok: "ok s" using assms(1) owesD(1) by (auto simp: hold_owes_def)
  show ?thesis
    using hit_ok[OF ok assms(2,3)] hit_raises[OF ok assms(2,3)] assms(1)
    unfolding hold_owes_def by (blast intro: owes_same)
qed

lemma hold_owes_slot:
  assumes "hold_owes s0 s E F h" "so_acquire ops s key limit lease_sec = (Inr res, s')"
  shows "res = None \<Longrightarrow> hold_owes s0 s' E F h"
    and "res = Some l \<Longrightarrow> rh_entries h' = rh_entries h \<Longrightarrow>
      rh_leases h' = rh_leases h @ [(key, l)] \<Longrightarrow> hold_owes s0 s' E F h'"
  using owes_acquire[OF assms(1)[unfolded hold_owes_def] assms(2)]
  by (simp_all add: hold_owes_def Un_assoc)

lemma hold_owes_slot_raise:
  assumes "hold_owes s0 s E F h" "so_acquire ops s key limit lease_sec = (Inl e, s')"
  shows "hold_owes s0 s' E F h"
proof -
  have ok: "ok s" using assms(1) owesD(1) by (auto simp: hold_owes_def)
  show ?thesis
    using acquire_ok[OF ok assms(2)] acquire_raises[OF ok assms(2)] assms(1)
    unfolding hold_owes_def by (blast intro: owes_same)
qed

lemma count_requests_owes:
  assumes "hold_owes s0 s E F h" "ww = (\<lambda>_. rule_window)"
    and "count_requests ops rule base label h s = (r, h', s')"
  shows "hold_owes s0 s' E F h'"
proof (cases "rr_rpm rule")
  case None
  then show ?thesis using assms by (simp add: count_requests_def)
next
  case (Some rpm)
  have w: "0 < ww (base @ '':rpm'')" and ww: "ww (base @ '':rpm'') = rule_window"
    by (simp_all add: assms(2) rule_window_def)
  obtain out s1 where run: "so_hit ops s (base @ '':rpm'') rpm rule_window 1 = (out, s1)" by force
  show ?thesis
    using assms(3) Some run hold_owes_hit[OF assms(1) w] hold_owes_raise[OF assms(1) w]
    by (auto simp: count_requests_def ww elim!: hold_owes_note split: sum.splits option.splits)
qed

lemma count_tokens_owes:
  assumes "hold_owes s0 s E F h" "ww = (\<lambda>_. rule_window)"
    and "count_tokens ops rule base label estimated h s = (r, h', s')"
  shows "hold_owes s0 s' E F h'"
proof (cases "rr_tpm rule")
  case None
  then show ?thesis using assms by (simp add: count_tokens_def)
next
  case (Some tpm)
  have w: "0 < ww (base @ '':tpm'')" and ww: "ww (base @ '':tpm'') = rule_window"
    by (simp_all add: assms(2) rule_window_def)
  obtain out s1 where run: "so_hit ops s (base @ '':tpm'') tpm rule_window (token_cost rule estimated) = (out, s1)"
    by force
  show ?thesis
  proof (cases "token_cost rule estimated > tpm")
    case True
    then show ?thesis
      using assms(1,3) Some by (auto simp: count_tokens_def Let_def elim!: hold_owes_note)
  next
    case False
    then show ?thesis
      using assms(3) Some run hold_owes_hit[OF assms(1) w] hold_owes_raise[OF assms(1) w]
      by (auto simp: count_tokens_def Let_def ww elim!: hold_owes_note split: sum.splits option.splits)
  qed
qed

lemma take_slot_owes:
  assumes "hold_owes s0 s E F h" "take_slot ops rule base label h s = (r, h', s')"
  shows "hold_owes s0 s' E F h'"
proof (cases "rr_max_concurrent rule")
  case None
  then show ?thesis using assms by (simp add: take_slot_def)
next
  case (Some most)
  obtain out s1 where run: "so_acquire ops s (base @ '':concurrent'') most (rr_lease_sec rule) = (out, s1)" by force
  show ?thesis
    using assms(2) Some run hold_owes_slot[OF assms(1)] hold_owes_slot_raise[OF assms(1)]
    by (auto simp: take_slot_def elim!: hold_owes_note split: sum.splits option.splits)
qed

lemma count_rule_owes:
  assumes "hold_owes s0 s E F h" "ww = (\<lambda>_. rule_window)"
    and "count_rule ops rule subj estimated label h s = (r, h', s')"
  shows "hold_owes s0 s' E F h'"
proof -
  let ?base = "''rule:'' @ rr_name rule @ '':'' @ subj"
  obtain r1 h1 s1 where one: "count_requests ops rule ?base label h s = (r1, h1, s1)" by (metis surj_pair)
  obtain r2 h2 s2 where two: "count_tokens ops rule ?base label estimated h1 s1 = (r2, h2, s2)" by (metis surj_pair)
  note o1 = count_requests_owes[OF assms(1,2) one]
  note o2 = count_tokens_owes[OF o1 assms(2) two]
  show ?thesis
    using assms(3) one two o1 o2 take_slot_owes[OF o2]
    by (auto simp: count_rule_def Let_def and_then_def split: sum.splits)
qed

section \<open>What an admission takes and gives back\<close>

abbreviation entries_of :: "rate_hold list \<Rightarrow> (string \<times> string) set" where
  "entries_of hs \<equiv> \<Union>h \<in> set hs. set (rh_entries h)"

abbreviation leases_of :: "rate_hold list \<Rightarrow> (string \<times> string) set" where
  "leases_of hs \<equiv> \<Union>h \<in> set hs. set (rh_leases h)"

definition holds_owe :: "'s \<Rightarrow> 's \<Rightarrow> rate_hold list \<Rightarrow> bool" where
  "holds_owe s0 s hs \<longleftrightarrow> owes s0 s (entries_of hs) (entries_of hs) (leases_of hs) (leases_of hs)"

lemma hold_owes_new: "hold_owes s0 s E F (new_hold i) \<longleftrightarrow> owes s0 s E E F F"
  by (simp add: hold_owes_def new_hold_def)

lemma gather_counts_owes:
  assumes "holds_owe s0 s hs0" "ww = (\<lambda>_. rule_window)"
    and "gather_counts ops estimated phase i s = (rs, hs, s')"
  shows "holds_owe s0 s' (hs0 @ hs)"
  using assms(1,3)
proof (induction phase arbitrary: i s hs0 rs hs)
  case (Cons e phase)
  obtain rule subj where e: "e = (rule, subj)" by force
  obtain r h s1 where one: "count_rule ops rule subj estimated [] (new_hold i) s = (r, h, s1)" by (metis surj_pair)
  obtain rs' hs' s2 where rest: "gather_counts ops estimated phase (Suc i) s1 = (rs', hs', s2)" by (metis surj_pair)
  have "hold_owes s0 s (entries_of hs0) (leases_of hs0) (new_hold i)"
    using Cons.prems(1) by (simp add: hold_owes_new holds_owe_def)
  from count_rule_owes[OF this assms(2) one] have "holds_owe s0 s1 (hs0 @ [h])"
    by (simp add: hold_owes_def holds_owe_def Un_commute)
  from Cons.IH[OF this, of "Suc i" rs' hs'] show ?case
    using rest Cons.prems(2) one e by simp
qed simp

lemma undo_holds_owes:
  assumes "owes s0 s E R F Q" "entries_of hs \<subseteq> E" "leases_of hs \<subseteq> F" "undo_holds ops hs s = (hs', s')"
  shows "owes s0 s' E (R - entries_of hs) F (Q - leases_of hs)"
  using assms
proof (induction hs arbitrary: s R Q hs' s')
  case (Cons h hs)
  let ?s1 = "release_all ops (rh_leases h) (settle_all ops 0 (rh_entries h) s)"
  have "owes s0 ?s1 E (R - set (rh_entries h)) F (Q - set (rh_leases h))"
    by (intro owes_release_all owes_settle_all) (use Cons.prems in auto)
  from Cons.IH[OF this] Cons.prems show ?case
    by (auto simp: undo_hold_def Let_def Diff_eq Int_assoc split: prod.splits)
qed simp

lemma count_phase_owes:
  assumes "holds_owe s0 s (rg_holds g)" "ww = (\<lambda>_. rule_window)" "count_phase ops phase g s = (r, g', s')"
  shows "r = Inr () \<Longrightarrow> holds_owe s0 s' (rg_holds g')"
    and "r = Inl e \<Longrightarrow> \<exists>E F. owes s0 s' E {} F {}"
proof -
  obtain rs hs s1 where counts: "gather_counts ops (rg_estimated g) phase (rg_next g) s = (rs, hs, s1)"
    by (metis surj_pair)
  have owed: "holds_owe s0 s1 (rg_holds g @ hs)"
    by (rule gather_counts_owes[OF assms(1,2) counts])
  show "holds_owe s0 s' (rg_holds g')" if "r = Inr ()"
    using assms(3) counts owed that
    by (auto simp: count_phase_def Let_def split: option.splits prod.splits)
  obtain hs' s2 where undo: "undo_holds ops (rg_holds g @ hs) s1 = (hs', s2)" by force
  show "\<exists>E F. owes s0 s' E {} F {}" if "r = Inl e"
    using assms(3) counts undo undo_holds_owes[OF owed[unfolded holds_owe_def] order_refl order_refl undo] that
    by (auto simp: count_phase_def Let_def split: option.splits)
qed

lemma admit_owes:
  assumes "ok s" "ww = (\<lambda>_. rule_window)" "admit_request ops rules key_id user_id estimated limits s = (r, g, s')"
  shows "r = Inr () \<Longrightarrow> holds_owe s s' (rg_holds g)"
    and "r = Inl e \<Longrightarrow> \<exists>E F. owes s s' E {} F {}"
proof -
  have start: "holds_owe s s (rg_holds (new_grant rules estimated))"
    using owes_refl[OF assms(1)] by (simp add: holds_owe_def new_grant_def)
  let ?counted = "counted_rules rules key_id user_id limits"
  obtain r1 g1 s1 where own: "count_phase ops (filter (\<lambda>(r, _). \<not> shared_per (rr_per r)) ?counted)
      (new_grant rules estimated) s = (r1, g1, s1)" by (metis surj_pair)
  note one = count_phase_owes[OF start assms(2) own]
  have two: "r1 = Inr () \<Longrightarrow> count_phase ops phase g1 s1 = (r, g, s') \<Longrightarrow>
      (r = Inr () \<longrightarrow> holds_owe s s' (rg_holds g)) \<and> (\<forall>e. r = Inl e \<longrightarrow> (\<exists>E F. owes s s' E {} F {}))" for phase
    using count_phase_owes[OF one(1) assms(2)] by blast
  show "r = Inr () \<Longrightarrow> holds_owe s s' (rg_holds g)"
    using assms(3) own two by (auto simp: admit_request_def Let_def split: sum.splits)
  show "r = Inl e \<Longrightarrow> \<exists>E F. owes s s' E {} F {}"
    using assms(3) own one(2) two by (auto simp: admit_request_def Let_def split: sum.splits)
qed

text \<open>Nothing owed means nothing counted.\<close>

lemma owes_nothing:
  assumes "owes s0 s E {} F {}" "now s \<le> t"
  shows "filter (\<lambda>(h, c). c \<noteq> 0) (live s k t) = filter (\<lambda>(h, c). c \<noteq> 0) (live s0 k t)"
    and "held s k t = held s0 k t"
  using owesD(3,5)[OF assms, of k] by (force simp: filter_empty_conv)+

lemma refused_counts_nowhere:
  assumes "ok s" "ww = (\<lambda>_. rule_window)" "admit_request ops rules key_id user_id estimated limits s = (Inl e, g, s')"
    and "now s' \<le> t"
  shows "filter (\<lambda>(h, c). c \<noteq> 0) (live s' k t) = filter (\<lambda>(h, c). c \<noteq> 0) (live s k t)
    \<and> held s' k t = held s k t"
  using admit_owes(2)[OF assms(1-3) refl] owes_nothing[OF _ assms(4)] by blast

text \<open>A closed grant holds no slot.\<close>

lemma settle_all_held:
  assumes "ok s"
  shows "ok (settle_all ops cost es s) \<and> now (settle_all ops cost es s) = now s
    \<and> (\<forall>k t. held (settle_all ops cost es s) k t = held s k t)"
  using assms
proof (induction es arbitrary: s)
  case (Cons e es)
  obtain key handle where e: "e = (key, handle)" by force
  show ?case
    using Cons.IH[of "so_settle ops s key handle cost"] settle_ok[OF Cons.prems, of key handle cost]
    by (simp add: settle_all_def e)
qed (simp add: settle_all_def)

lemma release_all_held:
  assumes "ok s" "now s \<le> t"
  shows "ok (release_all ops ls s) \<and> now (release_all ops ls s) = now s
    \<and> held (release_all ops ls s) k t = filter (\<lambda>l. (k, l) \<notin> set ls) (held s k t)"
  using assms
proof (induction ls arbitrary: s)
  case (Cons e ls)
  obtain key lease where e: "e = (key, lease)" by force
  show ?case
    using Cons.IH[of "so_release ops s key lease"] release_ok[OF Cons.prems(1), of key lease]
      release_frees[OF Cons.prems, where k = k and key = key and l = lease] Cons.prems
    by (auto simp: release_all_def e intro!: filter_cong)
qed (simp add: release_all_def)

lemma closed_holds_no_slot:
  assumes "holds_owe s0 s (rg_holds g)" "close_grant ops g s = (g', s')" "now s' \<le> t"
  shows "held s' k t = held s0 k t"
proof -
  obtain g1 s1 where settled: "(if rg_handed_over g then (g, s) else grant_settle ops 0 g s) = (g1, s1)" by force
  have ok: "ok s" using assms(1) owesD(1) by (auto simp: holds_owe_def)
  have s1: "ok s1" "now s1 = now s" "held s1 k t = held s k t"
    using settled ok settle_all_held[OF ok, of 0 "concat (map rh_estimates (rg_holds g))"]
    by (auto simp: grant_settle_def split: if_splits)
  have same: "concat (map rh_leases (rg_holds g1)) = concat (map rh_leases (rg_holds g))"
    using settled by (auto simp: grant_settle_def o_def split: if_splits)
  have s': "s' = release_all ops (concat (map rh_leases (rg_holds g))) s1"
    using assms(2) settled same by (simp add: close_grant_def grant_release_def)
  have t: "now s1 \<le> t" using assms(3) s1(2) release_all_held[OF s1(1), of "now s1"] by (simp add: s')
  then have "now s \<le> t" by (simp add: s1(2))
  from owesD(5,6)[OF assms(1)[unfolded holds_owe_def] this, of k]
  obtain ls where ls: "held s k t = held s0 k t @ ls" "\<forall>l \<in> set ls. (k, l) \<in> leases_of (rg_holds g)"
      "\<forall>l. (k, l) \<in> leases_of (rg_holds g) \<longrightarrow> l \<notin> set (held s0 k t)"
    by blast
  have "held s' k t = filter (\<lambda>l. (k, l) \<notin> leases_of (rg_holds g)) (held s0 k t @ ls)"
    using release_all_held[OF s1(1) t, of "concat (map rh_leases (rg_holds g))" k] ls(1) by (simp add: s' s1(3))
  also have "\<dots> = held s0 k t"
    using ls(2,3) by (auto simp: filter_empty_conv filter_id_conv)
  finally show ?thesis .
qed

end

section \<open>Which failure an admission raises\<close>

lemma over_rule_refuses:
  "over_rule rule h d ra = Inl e \<Longrightarrow> rr_mode rule = Enforce \<and> (\<exists>r. e = Refused d r (rr_name rule))"
  by (cases "rr_mode rule") (auto simp: over_rule_def refused_def split: if_splits)

lemma note_over_refuses:
  "note_over (over_rule rule h d ra) h s = (Inl e, h', s') \<Longrightarrow>
     rr_mode rule = Enforce \<and> (\<exists>d r. e = Refused d r (rr_name rule))"
  using over_rule_refuses[of rule h d ra] by (auto simp: note_over_def split: sum.splits)

text \<open>A store whose hits and acquires never raise.\<close>

locale total_store = rate_store +
  assumes hit_total: "ok s \<Longrightarrow> 0 < ww key \<Longrightarrow> \<exists>r s'. so_hit ops s key limit (ww key) cost = (Inr r, s')"
    and acquire_total: "ok s \<Longrightarrow> \<exists>r s'. so_acquire ops s key limit lease_sec = (Inr r, s')"
begin

definition names_rule :: "rate_rule \<Rightarrow> admit_error \<Rightarrow> bool" where
  "names_rule rule e \<longleftrightarrow> rr_mode rule = Enforce \<and> (\<exists>d r. e = Refused d r (rr_name rule))"

lemma note_over_names: "note_over (over_rule rule h d ra) h s = (Inl e, h', s') \<Longrightarrow> names_rule rule e"
  using note_over_refuses by (simp add: names_rule_def)

lemma count_requests_refuses:
  assumes "ok s" "ww = (\<lambda>_. rule_window)" "count_requests ops rule base label h s = (Inl e, h', s')"
  shows "names_rule rule e"
proof -
  have w: "0 < ww (base @ '':rpm'')" "ww (base @ '':rpm'') = rule_window"
    by (simp_all add: assms(2) rule_window_def)
  obtain rpm where rpm: "rr_rpm rule = Some rpm"
    using assms(3) by (auto simp: count_requests_def split: option.splits)
  obtain r s1 where "so_hit ops s (base @ '':rpm'') rpm rule_window 1 = (Inr r, s1)"
    using hit_total[OF assms(1) w(1)] by (metis w(2))
  then show ?thesis
    using assms(3) rpm note_over_names by (auto simp: count_requests_def split: option.splits)
qed

lemma count_tokens_refuses:
  assumes "ok s" "ww = (\<lambda>_. rule_window)" "count_tokens ops rule base label estimated h s = (Inl e, h', s')"
  shows "names_rule rule e"
proof -
  have w: "0 < ww (base @ '':tpm'')" "ww (base @ '':tpm'') = rule_window"
    by (simp_all add: assms(2) rule_window_def)
  obtain tpm where tpm: "rr_tpm rule = Some tpm"
    using assms(3) by (auto simp: count_tokens_def split: option.splits)
  obtain r s1 where "so_hit ops s (base @ '':tpm'') tpm rule_window (token_cost rule estimated) = (Inr r, s1)"
    using hit_total[OF assms(1) w(1)] by (metis w(2))
  then show ?thesis
    using assms(3) tpm note_over_names by (auto simp: count_tokens_def Let_def split: option.splits if_splits)
qed

lemma take_slot_refuses:
  assumes "ok s" "take_slot ops rule base label h s = (Inl e, h', s')"
  shows "names_rule rule e"
proof -
  obtain most where most: "rr_max_concurrent rule = Some most"
    using assms(2) by (auto simp: take_slot_def split: option.splits)
  obtain r s1 where "so_acquire ops s (base @ '':concurrent'') most (rr_lease_sec rule) = (Inr r, s1)"
    using acquire_total[OF assms(1)] by metis
  then show ?thesis
    using assms(2) most note_over_names by (auto simp: take_slot_def split: option.splits)
qed

lemma count_rule_refuses:
  assumes "hold_owes s0 s E F h" "ww = (\<lambda>_. rule_window)"
    and "count_rule ops rule subj estimated label h s = (Inl e, h', s')"
  shows "names_rule rule e"
proof -
  let ?base = "''rule:'' @ rr_name rule @ '':'' @ subj"
  obtain r1 h1 s1 where one: "count_requests ops rule ?base label h s = (r1, h1, s1)" by (metis surj_pair)
  obtain r2 h2 s2 where two: "count_tokens ops rule ?base label estimated h1 s1 = (r2, h2, s2)" by (metis surj_pair)
  note o1 = count_requests_owes[OF assms(1,2) one]
  note o2 = count_tokens_owes[OF o1 assms(2) two]
  have ok: "ok s" "ok s1" "ok s2"
    using owesD(1)[OF assms(1)[unfolded hold_owes_def]] owesD(1)[OF o1[unfolded hold_owes_def]]
      owesD(1)[OF o2[unfolded hold_owes_def]] .
  show ?thesis
    using assms(3) one two count_requests_refuses[OF ok(1) assms(2)] count_tokens_refuses[OF ok(2) assms(2)]
      take_slot_refuses[OF ok(3)]
    by (auto simp: count_rule_def Let_def and_then_def split: sum.splits)
qed

lemma gather_counts_refuses:
  assumes "holds_owe s0 s hs0" "ww = (\<lambda>_. rule_window)"
    and "gather_counts ops estimated phase i s = (rs, hs, s')" "e \<in> set (failures_of rs)"
  shows "\<exists>(rule, subj) \<in> set phase. names_rule rule e"
  using assms(1,3,4)
proof (induction phase arbitrary: i s hs0 rs hs)
  case (Cons p phase)
  obtain rule subj where p: "p = (rule, subj)" by force
  obtain r h s1 where one: "count_rule ops rule subj estimated [] (new_hold i) s = (r, h, s1)" by (metis surj_pair)
  obtain rs' hs' s2 where rest: "gather_counts ops estimated phase (Suc i) s1 = (rs', hs', s2)" by (metis surj_pair)
  have new: "hold_owes s0 s (entries_of hs0) (leases_of hs0) (new_hold i)"
    using Cons.prems(1) by (simp add: hold_owes_new holds_owe_def)
  have owed: "holds_owe s0 s1 (hs0 @ [h])"
    using count_rule_owes[OF new assms(2) one] by (simp add: hold_owes_def holds_owe_def Un_commute)
  have "rs = r # rs'" "s2 = s'" using Cons.prems(2) one rest p by auto
  then consider "r = Inl e" | "e \<in> set (failures_of rs')"
    using Cons.prems(3) by (cases r) auto
  then show ?case
  proof cases
    case 1
    then show ?thesis using count_rule_refuses[OF new assms(2)] one p by auto
  next
    case 2
    then show ?thesis using Cons.IH[OF owed, of "Suc i" rs' hs'] rest \<open>s2 = s'\<close> by auto
  qed
qed simp

lemma raised_of_member: "raised_of es = Some e \<Longrightarrow> e \<in> set es"
  by (auto simp: raised_of_def find_Some_iff split: option.splits list.splits)

lemma count_phase_refuses:
  assumes "holds_owe s0 s (rg_holds g)" "ww = (\<lambda>_. rule_window)"
    and "count_phase ops phase g s = (Inl e, g', s')"
  shows "\<exists>(rule, subj) \<in> set phase. names_rule rule e"
proof -
  obtain rs hs s1 where counts: "gather_counts ops (rg_estimated g) phase (rg_next g) s = (rs, hs, s1)"
    by (metis surj_pair)
  have "e \<in> set (failures_of rs)"
    using assms(3) counts raised_of_member by (auto simp: count_phase_def Let_def split: option.splits prod.splits)
  then show ?thesis by (rule gather_counts_refuses[OF assms(1,2) counts])
qed

lemma admit_refuses:
  assumes "ok s" "ww = (\<lambda>_. rule_window)" "admit_request ops rules key_id user_id estimated limits s = (Inl e, g, s')"
  shows "\<exists>(rule, subj) \<in> set (counted_rules rules key_id user_id limits). names_rule rule e"
proof -
  have start: "holds_owe s s (rg_holds (new_grant rules estimated))"
    using owes_refl[OF assms(1)] by (simp add: holds_owe_def new_grant_def)
  let ?counted = "counted_rules rules key_id user_id limits"
  obtain r1 g1 s1 where own: "count_phase ops (filter (\<lambda>(r, _). \<not> shared_per (rr_per r)) ?counted)
      (new_grant rules estimated) s = (r1, g1, s1)" by (metis surj_pair)
  show ?thesis
  proof (cases r1)
    case (Inl e1)
    then show ?thesis
      using assms(3) own count_phase_refuses[OF start assms(2)] by (fastforce simp: admit_request_def)
  next
    case (Inr u)
    then have "count_phase ops (filter (\<lambda>(r, _). shared_per (rr_per r)) ?counted) g1 s1 = (Inl e, g, s')"
      using assms(3) own by (simp add: admit_request_def)
    then show ?thesis
      using count_phase_refuses[OF count_phase_owes(1)[OF start assms(2) own] assms(2)] Inr by fastforce
  qed
qed

end

interpretation mem_total: total_store mem_ops ww "mem_ok ww" ms_now "mem_live ww" mem_held for ww
proof
  fix st key limit cost
  assume ok: "mem_ok ww st" "0 < ww key"
  show "\<exists>r s'. so_hit mem_ops st key limit (ww key) cost = (Inr r, s')"
    by (rule mem_hit_cases[OF ok, where limit = limit and cost = cost]) (simp add: mem_ops_def)
next
  fix st key limit lease_sec
  assume ok: "mem_ok ww st"
  show "\<exists>r s'. so_acquire mem_ops st key limit lease_sec = (Inr r, s')"
    by (rule mem_acquire_cases[OF ok, where key = key and limit = limit and lease_sec = lease_sec])
      (simp add: mem_ops_def)
qed

section \<open>Properties\<close>

text \<open>
  \<^bold>\<open>C5\<close>: a request the rules refuse is counted nowhere: on every key of the store, and at every
  later instant, the entries that cost anything and the leases held are the ones from before the
  request, whatever rules it had already been counted against when it was refused.
\<close>

theorem refused_request_counts_nowhere:
  assumes "mem_ok (\<lambda>_. rule_window) st"
    and "admit_request mem_ops rules key_id user_id estimated limits st = (Inl e, g, st')"
    and "ms_now st' \<le> t"
  shows "filter (\<lambda>(h, c). c \<noteq> 0) (mem_live (\<lambda>_. rule_window) st' k t)
      = filter (\<lambda>(h, c). c \<noteq> 0) (mem_live (\<lambda>_. rule_window) st k t)
    \<and> mem_held st' k t = mem_held st k t"
  by (rule mem.refused_counts_nowhere[OF assms(1) refl assms(2,3)])

definition sample_rule :: "string \<Rightarrow> rule_per \<Rightarrow> rate_rule" where
  "sample_rule name per = \<lparr> rr_name = name, rr_per = per, rr_models = None, rr_budgets = None,
     rr_mode = Enforce, rr_rpm = None, rr_tpm = None, rr_tpm_admission = Used, rr_max_concurrent = None,
     rr_lease_sec = 900000000 \<rparr>"

definition sample_rules :: "rate_rule list" where
  "sample_rules = [(sample_rule ''a'' Per_Key)\<lparr> rr_rpm := Some 2, rr_max_concurrent := Some 1 \<rparr>,
     (sample_rule ''b'' Per_Deployment)\<lparr> rr_tpm := Some 5, rr_tpm_admission := Estimate \<rparr>]"

definition sample_store :: mem_store where
  "sample_store = fresh_store 0 [7, 7, 7, 7, 7, 7] (\<lambda>n. CHR ''u'' # show_int (int n))"

lemma sample_store_ok: "mem_ok ww sample_store"
  unfolding sample_store_def by (rule mem_ok_fresh) (simp add: inj_def show_int_inj)

theorem refused_request_counts_nowhere_witness:
  "\<exists>e g st'. admit_request mem_ops sample_rules (Some ''k1'') None 9 None sample_store = (Inl e, g, st')
     \<and> e = Refused (''Request needs an estimated 9 tokens; rate limit '' @ [CHR 0x27, CHR ''b'', CHR 0x27]
           @ '' allows 5 per minute'') None ''b''
     \<and> mem_held st' ''rule:a:k1:concurrent'' 100 = mem_held sample_store ''rule:a:k1:concurrent'' 100"
proof -
  obtain e g st' where run: "admit_request mem_ops sample_rules (Some ''k1'') None 9 None sample_store = (e, g, st')"
    by (metis surj_pair)
  have out: "fst (admit_request mem_ops sample_rules (Some ''k1'') None 9 None sample_store) =
      Inl (Refused (''Request needs an estimated 9 tokens; rate limit '' @ [CHR 0x27, CHR ''b'', CHR 0x27]
           @ '' allows 5 per minute'') None ''b'')"
    unfolding sample_rules_def sample_store_def by code_simp
  have now: "ms_now (snd (snd (admit_request mem_ops sample_rules (Some ''k1'') None 9 None sample_store))) \<le> 100"
    unfolding sample_rules_def sample_store_def by code_simp
  show ?thesis
    using refused_request_counts_nowhere[OF sample_store_ok, of sample_rules "Some ''k1''" None 9 None _ g st' 100
        "''rule:a:k1:concurrent''"] run out now by auto
qed

text \<open>
  An admission on the in-process store fails only with a refusal that names a rule which
  applies to the request and is enforced: a \<open>mode: report\<close> rule refuses nothing, and the store
  itself never makes an admission fail.
\<close>

theorem refusal_names_enforced_rule:
  assumes "mem_ok (\<lambda>_. rule_window) st"
    and "admit_request mem_ops rules key_id user_id estimated limits st = (Inl e, g, st')"
  shows "\<exists>(rule, subj) \<in> set (counted_rules rules key_id user_id limits).
    rr_mode rule = Enforce \<and> (\<exists>detail retry_after. e = Refused detail retry_after (rr_name rule))"
  using mem_total.admit_refuses[OF assms(1) refl assms(2)] by (simp add: mem_total.names_rule_def)

definition sample_watch :: "rate_rule list" where
  "sample_watch = [(sample_rule ''w'' Per_User)\<lparr> rr_rpm := Some 0, rr_mode := Report \<rparr>,
     (sample_rule ''c'' Per_User)\<lparr> rr_max_concurrent := Some 0 \<rparr>]"

theorem refusal_names_enforced_rule_witness:
  "fst (admit_request mem_ops (take 1 sample_watch) None (Some ''u'') 1 None sample_store) = Inr ()
   \<and> (\<exists>detail retry_after. fst (admit_request mem_ops sample_watch None (Some ''u'') 1 None sample_store)
        = Inl (Refused detail retry_after ''c''))"
proof
  show "fst (admit_request mem_ops (take 1 sample_watch) None (Some ''u'') 1 None sample_store) = Inr ()"
    unfolding sample_watch_def sample_store_def by code_simp
  obtain r g st' where run: "admit_request mem_ops sample_watch None (Some ''u'') 1 None sample_store = (r, g, st')"
    by (metis surj_pair)
  have "\<not> isl (fst (admit_request mem_ops sample_watch None (Some ''u'') 1 None sample_store)) \<longleftrightarrow> False"
    unfolding sample_watch_def sample_store_def by code_simp
  then obtain e where e: "r = Inl e" using run by (cases r) auto
  show "\<exists>detail retry_after. fst (admit_request mem_ops sample_watch None (Some ''u'') 1 None sample_store)
        = Inl (Refused detail retry_after ''c'')"
    using refusal_names_enforced_rule[OF sample_store_ok run[unfolded e]] run e
    by (auto simp: counted_rules_def sample_watch_def sample_rule_def subject_of_def)
qed

text \<open>
  Closing the grant of an admitted request gives back every concurrency slot the admission
  took and none it did not take, whether or not the request was handed over: the leases held on
  every key are again the ones from before the request.
\<close>

theorem closed_grant_holds_no_slot:
  assumes "mem_ok (\<lambda>_. rule_window) st"
    and "admit_request mem_ops rules key_id user_id estimated limits st = (Inr (), g, st1)"
    and "close_grant mem_ops (if handed then hand_over g else g) st1 = (g', st2)" "ms_now st2 \<le> t"
  shows "mem_held st2 k t = mem_held st k t"
proof -
  have "mem.holds_owe (\<lambda>_. rule_window) st st1 (rg_holds (if handed then hand_over g else g))"
    using mem.admit_owes(1)[OF assms(1) refl assms(2) refl] by (simp add: hand_over_def)
  from mem.closed_holds_no_slot[OF this assms(3,4)] show ?thesis .
qed

theorem closed_grant_holds_no_slot_witness:
  "\<exists>g st1 g' st2. admit_request mem_ops sample_rules (Some ''k1'') None 4 None sample_store = (Inr (), g, st1)
     \<and> mem_held st1 ''rule:a:k1:concurrent'' 100 = [''u0'']
     \<and> close_grant mem_ops (hand_over g) st1 = (g', st2)
     \<and> mem_held st2 ''rule:a:k1:concurrent'' 100 = mem_held sample_store ''rule:a:k1:concurrent'' 100"
proof -
  obtain r g st1 where run: "admit_request mem_ops sample_rules (Some ''k1'') None 4 None sample_store = (r, g, st1)"
    by (metis surj_pair)
  have ok: "fst (admit_request mem_ops sample_rules (Some ''k1'') None 4 None sample_store) = Inr ()"
    and took: "mem_held (snd (snd (admit_request mem_ops sample_rules (Some ''k1'') None 4 None sample_store)))
      ''rule:a:k1:concurrent'' 100 = [''u0'']"
    unfolding sample_rules_def sample_store_def by code_simp+
  obtain g' st2 where close: "close_grant mem_ops (hand_over g) st1 = (g', st2)" by force
  have now: "(case admit_request mem_ops sample_rules (Some ''k1'') None 4 None sample_store of
      (r, g, st1) \<Rightarrow> ms_now (snd (close_grant mem_ops (hand_over g) st1))) \<le> 100"
    unfolding sample_rules_def sample_store_def by code_simp
  have "mem_held st2 ''rule:a:k1:concurrent'' 100 = mem_held sample_store ''rule:a:k1:concurrent'' 100"
    by (rule closed_grant_holds_no_slot[OF sample_store_ok, of sample_rules "Some ''k1''" None 4 None g st1 True g'])
      (use run ok close now in simp_all)
  then show ?thesis using run ok took close by auto
qed

text \<open>
  A rule that passes validation is stored in a form that validates to itself: it sets a
  limit, names budgets only when it is counted per budget and models exactly when it is counted per
  model, and its models are spelled \<open>instance:model\<close>.
\<close>

theorem validated_rule_is_canonical:
  assumes "validate_rule r = Inr r'"
  shows "validate_rule r' = Inr r'
    \<and> (rr_rpm r' \<noteq> None \<or> rr_tpm r' \<noteq> None \<or> rr_max_concurrent r' \<noteq> None)
    \<and> (rr_budgets r' = None \<or> rr_per r' = Per_Budget)
    \<and> (rr_models r' = None \<longleftrightarrow> rr_per r' \<noteq> Per_Model)"
proof (cases "rr_per r = Per_Model")
  case False
  then show ?thesis
    using assms by (auto simp: validate_rule_def requires_a_limit_def budgets_belong_to_per_budget_def
        models_belong_to_per_model_def bind_result_def split: if_splits)
next
  case True
  then obtain m ms ms' where models: "rr_models r = Some (m # ms)" "canonical_models (rr_name r) (m # ms) = Inr ms'"
      and r': "r' = r\<lparr> rr_models := Some ms' \<rparr>"
    using assms by (auto simp: validate_rule_def requires_a_limit_def budgets_belong_to_per_budget_def
        models_belong_to_per_model_def bind_result_Inr_iff split: if_splits option.splits list.splits)
  have "canonical_models (rr_name r') ms' = Inr ms'" "ms' \<noteq> []"
    using canonical_models_idem[OF models(2)] canonical_models_length[OF models(2)] by auto
  then show ?thesis
    using assms True r' by (auto simp: validate_rule_def requires_a_limit_def budgets_belong_to_per_budget_def
        models_belong_to_per_model_def bind_result_def split: if_splits option.splits list.splits)
qed

theorem validated_rule_is_canonical_witness:
  "\<exists>r'. validate_rule ((sample_rule ''m'' Per_Model)\<lparr> rr_rpm := Some 1, rr_models := Some ['' ollama/llama3:latest''] \<rparr>)
        = Inr r' \<and> rr_models r' = Some [''ollama:llama3:latest''] \<and> validate_rule r' = Inr r'"
proof -
  let ?r = "(sample_rule ''m'' Per_Model)\<lparr> rr_rpm := Some 1, rr_models := Some ['' ollama/llama3:latest''] \<rparr>"
  have run: "validate_rule ?r = Inr (?r\<lparr> rr_models := Some [''ollama:llama3:latest''] \<rparr>)"
    by code_simp
  show ?thesis using run validated_rule_is_canonical[OF run] by auto
qed

end
