(* ===== verification/Redis_Window.thy ===== *)
theory Redis_Window
  imports Rate_Store
begin

text \<open>
  The shared store of \<open>adapters/rate_limit_store_adapter.py\<close>: the Lua scripts \<open>RedisRateLimitStore\<close>
  runs, on the two keys of one counter, and the fallback to this process's memory.

  A sorted set is the list of its members with their scores; the scripts observe only which scores
  are in a range, how many members there are and the lowest score. The log and the cost hash of a
  counter get the same expiry in the same script, so one field records it. Redis drops a key once
  its clock has passed the expiry. Instants are the milliseconds of Redis's own clock.
\<close>

section \<open>The scripts\<close>

record redis_counter =
  rk_log :: "(string \<times> instant) list"
  rk_costs :: "string \<rightharpoonup> int"
  rk_total :: int
  rk_expire :: "instant option"

definition empty_counter :: redis_counter where
  "empty_counter = \<lparr> rk_log = [], rk_costs = Map.empty, rk_total = 0, rk_expire = None \<rparr>"

definition live_counter :: "instant \<Rightarrow> redis_counter \<Rightarrow> redis_counter" where
  "live_counter now st = (case rk_expire st of
       None \<Rightarrow> st
     | Some e \<Rightarrow> if e < now then empty_counter else st)"

text \<open>The first half of \<open>_HIT_SCRIPT\<close>: expired entries are subtracted once, as they leave.\<close>

definition redis_subtract :: "instant \<Rightarrow> (string \<times> instant) list \<Rightarrow> redis_counter \<Rightarrow> redis_counter" where
  "redis_subtract cutoff expired st =
     (if expired = [] then st
      else st\<lparr> rk_log := filter (\<lambda>(h, s). \<not> s \<le> cutoff) (rk_log st),
                rk_costs := foldl (\<lambda>m (h, s). m(h := None)) (rk_costs st) expired,
                rk_total := rk_total st
                  - sum_list (map (\<lambda>(h, s). case rk_costs st h of None \<Rightarrow> 0 | Some c \<Rightarrow> c) expired) \<rparr>)"

definition redis_evict :: "instant \<Rightarrow> redis_counter \<Rightarrow> redis_counter" where
  "redis_evict cutoff st = redis_subtract cutoff (filter (\<lambda>(h, s). s \<le> cutoff) (rk_log st)) st"

fun lowest_score :: "(string \<times> instant) list \<Rightarrow> instant option" where
  "lowest_score [] = None"
| "lowest_score ((h, s) # es) = (case lowest_score es of None \<Rightarrow> Some s | Some m \<Rightarrow> Some (min s m))"

definition redis_answer ::
  "instant \<Rightarrow> instant \<Rightarrow> string option \<Rightarrow> redis_counter \<Rightarrow> rate_window \<times> redis_counter" where
  "redis_answer now window handle st =
     (\<lparr> rw_allowed = (handle \<noteq> None), rw_count = rk_total st,
        rw_reset_after = (case lowest_score (rk_log st) of None \<Rightarrow> window | Some s \<Rightarrow> s + window - now),
        rw_handle = handle \<rparr>, st)"

definition redis_admit ::
  "instant \<Rightarrow> int \<Rightarrow> instant \<Rightarrow> string \<Rightarrow> int \<Rightarrow> redis_counter \<Rightarrow> rate_window \<times> redis_counter" where
  "redis_admit now limit window handle cost st =
     (if rk_total st + cost \<le> limit
      then redis_answer now window (Some handle)
             \<lparr> rk_log = AList.update handle now (rk_log st), rk_costs = (rk_costs st)(handle \<mapsto> cost),
               rk_total = rk_total st + cost, rk_expire = Some (now + window) \<rparr>
      else redis_answer now window None st)"

definition redis_hit ::
  "instant \<Rightarrow> int \<Rightarrow> instant \<Rightarrow> string \<Rightarrow> int \<Rightarrow> redis_counter \<Rightarrow> rate_window \<times> redis_counter" where
  "redis_hit now limit window handle cost st =
     redis_admit now limit window handle cost (redis_evict (now - window) (live_counter now st))"

text \<open>\<open>_SETTLE_SCRIPT\<close>.\<close>

definition redis_charge :: "string \<Rightarrow> int \<Rightarrow> redis_counter \<Rightarrow> redis_counter" where
  "redis_charge handle cost st =
     (case rk_costs st handle of
        None \<Rightarrow> st
      | Some old \<Rightarrow> st\<lparr> rk_costs := (rk_costs st)(handle \<mapsto> cost), rk_total := rk_total st + (cost - old) \<rparr>)"

definition redis_settle :: "instant \<Rightarrow> string \<Rightarrow> int \<Rightarrow> redis_counter \<Rightarrow> redis_counter" where
  "redis_settle now handle cost st = redis_charge handle cost (live_counter now st)"

text \<open>\<open>_ACQUIRE_SCRIPT\<close> and \<open>ZREM\<close>, on the sorted set of one key's leases.\<close>

record redis_slots =
  rs_leases :: "(string \<times> instant) list"
  rs_expire :: "instant option"

definition live_slots :: "instant \<Rightarrow> redis_slots \<Rightarrow> redis_slots" where
  "live_slots now st = (case rs_expire st of
       None \<Rightarrow> st
     | Some e \<Rightarrow> if e < now then \<lparr> rs_leases = [], rs_expire = None \<rparr> else st)"

definition redis_acquire ::
  "instant \<Rightarrow> int \<Rightarrow> instant \<Rightarrow> string \<Rightarrow> redis_slots \<Rightarrow> string option \<times> redis_slots" where
  "redis_acquire now limit lease_ms lease st0 =
     (let st = live_slots now st0;
          kept = filter (\<lambda>(l, e). \<not> e \<le> now) (rs_leases st)
      in if int (length kept) \<ge> limit then (None, st\<lparr> rs_leases := kept \<rparr>)
         else let expire = (case (if kept = [] then None else rs_expire st) of
                              None \<Rightarrow> now + lease_ms
                            | Some e \<Rightarrow> if e - now < lease_ms then now + lease_ms else e)
              in (Some lease, \<lparr> rs_leases = AList.update lease (now + lease_ms) kept, rs_expire = Some expire \<rparr>))"

definition redis_release :: "instant \<Rightarrow> string \<Rightarrow> redis_slots \<Rightarrow> redis_slots" where
  "redis_release now lease st0 =
     (let st = live_slots now st0 in st\<lparr> rs_leases := filter (\<lambda>(l, e). l \<noteq> lease) (rs_leases st) \<rparr>)"

section \<open>The invariant of a counter\<close>

definition counter_ok :: "instant \<Rightarrow> instant \<Rightarrow> redis_counter \<Rightarrow> bool" where
  "counter_ok window now st \<longleftrightarrow> distinct (map fst (rk_log st)) \<and> dom (rk_costs st) = fst ` set (rk_log st)
     \<and> rk_total st = sum_list (map (\<lambda>h. the (rk_costs st h)) (map fst (rk_log st)))
     \<and> sorted (map snd (rk_log st))
     \<and> (\<forall>(h, s) \<in> set (rk_log st). s \<le> now \<and> (\<exists>e. rk_expire st = Some e \<and> s + window \<le> e))"

definition counter_live :: "instant \<Rightarrow> redis_counter \<Rightarrow> (instant \<times> string \<times> int) list" where
  "counter_live cutoff st =
     map (\<lambda>(h, s). (s, h, the (rk_costs st h))) (filter (\<lambda>(h, s). cutoff < s) (rk_log st))"

lemma counter_ok_empty [simp]: "counter_ok window now empty_counter"
  by (simp add: counter_ok_def empty_counter_def)

lemma counter_live_empty [simp]: "counter_live c empty_counter = []"
  by (simp add: counter_live_def empty_counter_def)

lemma counter_ok_later: "counter_ok window now st \<Longrightarrow> now \<le> later \<Longrightarrow> counter_ok window later st"
  by (force simp: counter_ok_def)

lemma live_counter_ok:
  assumes "counter_ok window now st" "now \<le> later"
  shows "counter_ok window later (live_counter later st)"
    and "later - window \<le> c \<Longrightarrow> counter_live c (live_counter later st) = counter_live c st"
proof -
  show "counter_ok window later (live_counter later st)"
    using counter_ok_later[OF assms] by (simp add: live_counter_def split: option.splits)
  show "counter_live c (live_counter later st) = counter_live c st" if c: "later - window \<le> c"
  proof (cases "live_counter later st = st")
    case False
    then obtain e where e: "rk_expire st = Some e" "e < later" "live_counter later st = empty_counter"
      by (auto simp: live_counter_def split: option.splits if_splits)
    have "s \<le> c" if "(h, s) \<in> set (rk_log st)" for h s
      using assms(1) that e(1,2) c by (force simp: counter_ok_def)
    then have "counter_live c st = []" by (force simp: counter_live_def filter_empty_conv)
    then show ?thesis by (simp add: e(3))
  qed simp
qed

lemma sum_costs_split:
  assumes "dom m = fst ` set xs"
  shows "sum_list (map (\<lambda>h. the (m h)) (map fst (xs :: (string \<times> instant) list)))
    = sum_list (map (\<lambda>(h, s). case m h of None \<Rightarrow> 0 | Some c \<Rightarrow> c) (filter p xs))
      + sum_list (map (\<lambda>h. the (m h :: int option)) (map fst (filter (\<lambda>x. \<not> p x) xs)))"
proof -
  have "\<forall>x \<in> set xs. m (fst x) \<noteq> None" using assms by force
  then show ?thesis by (induction xs) auto
qed

lemma lowest_score_sorted:
  "sorted (map snd entries) \<Longrightarrow> lowest_score entries = (case entries of [] \<Rightarrow> None | (h, s) # _ \<Rightarrow> Some s)"
proof (induction entries)
  case (Cons e entries)
  then show ?case by (cases e; cases entries) (auto simp: min_def)
qed simp

lemma dom_hide: "dom (\<lambda>h. if h \<in> A then None else m h) = dom m - A"
  by (auto split: if_splits)

lemma hide_all: "foldl (\<lambda>m (h, s). m(h := None)) m es = (\<lambda>h. if h \<in> fst ` set es then None else m h)"
  by (induction es arbitrary: m) auto

lemma redis_evict_costs:
  "rk_costs (redis_evict cutoff st) =
     (\<lambda>h. if h \<in> fst ` set (filter (\<lambda>(h, s). s \<le> cutoff) (rk_log st)) then None else rk_costs st h)"
proof -
  have "rk_costs (redis_subtract cutoff es st) = (\<lambda>h. if h \<in> fst ` set es then None else rk_costs st h)" for es
    by (cases "es = []") (simp_all add: redis_subtract_def hide_all)
  then show ?thesis by (simp only: redis_evict_def)
qed

lemma redis_evict_ok:
  assumes "counter_ok window now st"
  shows "counter_ok window now (redis_evict cutoff st)"
    and "rk_log (redis_evict cutoff st) = filter (\<lambda>(h, s). cutoff < s) (rk_log st)"
    and "cutoff \<le> c \<Longrightarrow> counter_live c (redis_evict cutoff st) = counter_live c st"
    and "rk_total (redis_evict cutoff st) = live_cost (counter_live cutoff st)"
proof -
  let ?old = "filter (\<lambda>(h, s). s \<le> cutoff) (rk_log st)"
  have parts: "distinct (map fst (rk_log st))" "dom (rk_costs st) = fst ` set (rk_log st)"
    "rk_total st = sum_list (map (\<lambda>h. the (rk_costs st h)) (map fst (rk_log st)))"
    "sorted (map snd (rk_log st))"
    using assms by (auto simp: counter_ok_def)
  show log: "rk_log (redis_evict cutoff st) = filter (\<lambda>(h, s). cutoff < s) (rk_log st)"
    by (auto simp: redis_evict_def redis_subtract_def filter_empty_conv not_le case_prod_unfold intro!: filter_True[symmetric])
  have fresh: "h \<notin> fst ` set ?old" if "(h, s) \<in> set (rk_log st)" "cutoff < s" for h s
    using parts(1) that by (force dest: eq_key_imp_eq_value)
  have costs: "rk_costs (redis_evict cutoff st) h = rk_costs st h"
    if "(h, s) \<in> set (rk_log st)" "cutoff < s" for h s
    using fresh[OF that] by (simp add: redis_evict_costs)
  show "counter_live c (redis_evict cutoff st) = counter_live c st" if c: "cutoff \<le> c"
  proof -
    have "filter (\<lambda>(h, s). c < s) (filter (\<lambda>(h, s). cutoff < s) (rk_log st)) = filter (\<lambda>(h, s). c < s) (rk_log st)"
      using c by (auto simp: filter_filter intro!: filter_cong)
    moreover have "rk_costs (redis_evict cutoff st) (fst e) = rk_costs st (fst e)"
      if "e \<in> set (rk_log st)" "c < snd e" for e
      using costs[of "fst e" "snd e"] that c by simp
    ultimately show ?thesis
      unfolding counter_live_def log by (auto intro!: map_cong)
  qed
  have rest: "rk_total (redis_evict cutoff st) = sum_list (map (\<lambda>h. the (rk_costs st h))
      (map fst (filter (\<lambda>x. \<not> (\<lambda>(h, s). s \<le> cutoff) x) (rk_log st))))"
    using sum_costs_split[OF parts(2), of "\<lambda>(h, s). s \<le> cutoff"] parts(3)
    by (cases "?old = []") (simp_all add: redis_evict_def redis_subtract_def)
  then show total: "rk_total (redis_evict cutoff st) = live_cost (counter_live cutoff st)"
    by (simp add: live_cost_def counter_live_def case_prod_unfold o_def not_le)
  have "sorted (map snd (rk_log (redis_evict cutoff st)))"
    using parts(4) by (simp add: log sorted_filter)
  moreover have "distinct (map fst (rk_log (redis_evict cutoff st)))"
    using parts(1) by (simp add: log distinct_map_filter)
  moreover have "dom (rk_costs (redis_evict cutoff st)) = fst ` set (rk_log (redis_evict cutoff st))"
  proof -
    have split: "fst ` set (rk_log st) = fst ` set ?old \<union> fst ` set (filter (\<lambda>(h, s). cutoff < s) (rk_log st))"
      by force
    have apart: "fst ` set ?old \<inter> fst ` set (filter (\<lambda>(h, s). cutoff < s) (rk_log st)) = {}"
      using fresh by force
    have hidden: "dom (rk_costs (redis_evict cutoff st)) = dom (rk_costs st) - fst ` set ?old"
      by (simp only: redis_evict_costs dom_hide)
    have minus: "A = B \<union> C \<Longrightarrow> B \<inter> C = {} \<Longrightarrow> A - B = C" for A B C :: "string set"
      by blast
    show ?thesis by (simp only: hidden parts(2) minus[OF split apart] log)
  qed
  moreover have "rk_total (redis_evict cutoff st)
      = sum_list (map (\<lambda>h. the (rk_costs (redis_evict cutoff st) h)) (map fst (rk_log (redis_evict cutoff st))))"
    unfolding rest log using costs by (auto simp: not_le case_prod_unfold intro!: arg_cong[where f = sum_list])
  moreover have "rk_expire (redis_evict cutoff st) = rk_expire st"
    by (simp add: redis_evict_def redis_subtract_def)
  ultimately show "counter_ok window now (redis_evict cutoff st)"
    using assms by (auto simp: counter_ok_def log)
qed

text \<open>The script decides and counts as \<open>SlidingWindowLog.hit\<close> does.\<close>

lemma redis_hit_ok:
  assumes "counter_ok window now0 st" "now0 \<le> now" "0 < window" "handle \<notin> fst ` set (rk_log st)"
    and "redis_hit now limit window handle cost st = (r, st')"
  shows "counter_ok window now st'"
    and "rw_allowed r \<longleftrightarrow> live_cost (counter_live (now - window) st) + cost \<le> limit"
    and "rw_count r = live_cost (counter_live (now - window) st')"
    and "rw_reset_after r = (case counter_live (now - window) st' of [] \<Rightarrow> window | (t, _) # _ \<Rightarrow> t + window - now)"
    and "rw_handle r = (if rw_allowed r then Some handle else None)"
    and "now - window \<le> c \<Longrightarrow> counter_live c st' = counter_live c st @
      (if rw_allowed r \<and> c < now then [(now, handle, cost)] else [])"
    and "fst ` set (rk_log st') \<subseteq> insert handle (fst ` set (rk_log st))"
proof -
  let ?st0 = "live_counter now st"
  let ?st1 = "redis_evict (now - window) ?st0"
  note ok0 = live_counter_ok[OF assms(1,2)]
  note ev = redis_evict_ok[OF ok0(1), of "now - window"]
  have live1: "counter_live c ?st1 = counter_live c st" if "now - window \<le> c" for c
    using ev(3)[OF that] ok0(2)[OF that] by simp
  have count1: "rk_total ?st1 = live_cost (counter_live (now - window) st)"
    using ev(4) ok0(2)[of "now - window"] by simp
  have sub: "fst ` set (rk_log ?st1) \<subseteq> fst ` set (rk_log st)"
    unfolding ev(2) by (auto simp: live_counter_def empty_counter_def split: option.splits if_splits)
  then have fresh: "handle \<notin> fst ` set (rk_log ?st1)" using assms(4) by blast
  let ?st2 = "\<lparr> rk_log = rk_log ?st1 @ [(handle, now)], rk_costs = (rk_costs ?st1)(handle \<mapsto> cost),
    rk_total = rk_total ?st1 + cost, rk_expire = Some (now + window) \<rparr>"
  have run: "st' = (if rk_total ?st1 + cost \<le> limit then ?st2 else ?st1)"
      "rw_allowed r \<longleftrightarrow> rk_total ?st1 + cost \<le> limit" "rw_count r = rk_total st'"
      "rw_handle r = (if rw_allowed r then Some handle else None)"
      "rw_reset_after r = (case lowest_score (rk_log st') of None \<Rightarrow> window | Some s \<Rightarrow> s + window - now)"
    using assms(5) update_fresh[OF fresh] by (auto simp: redis_hit_def redis_admit_def redis_answer_def split: if_splits)
  have other: "(handle, s) \<notin> set (rk_log ?st1)" for s using fresh by force
  have live2: "counter_live c ?st2 = counter_live c ?st1 @ (if c < now then [(now, handle, cost)] else [])" for c
    using other by (auto simp: counter_live_def)
  have ok2: "counter_ok window now ?st2"
    using ev(1) fresh sum_costs_other[of handle "map fst (rk_log ?st1)" "Some cost" "rk_costs ?st1"]
    unfolding counter_ok_def by (auto simp: sorted_append simp del: map_map)
  show ok': "counter_ok window now st'" using ok2 ev(1) run(1) by simp
  show "rw_allowed r \<longleftrightarrow> live_cost (counter_live (now - window) st) + cost \<le> limit"
    using run(2) count1 by simp
  show "rw_handle r = (if rw_allowed r then Some handle else None)" by (rule run(4))
  show live': "counter_live c st' = counter_live c st @ (if rw_allowed r \<and> c < now then [(now, handle, cost)] else [])"
    if "now - window \<le> c" for c
    using run(1,2) live2 live1[OF that] by simp
  show "rw_count r = live_cost (counter_live (now - window) st')"
    using run(1-3) live'[of "now - window"] count1 assms(3) by simp
  have all: "filter (\<lambda>(h, s). now - window < s) (rk_log st') = rk_log st'"
    using assms(3) run(1) by (auto simp: ev(2) filter_filter case_prod_unfold)
  have "sorted (map snd (rk_log st'))" using ok' by (simp add: counter_ok_def)
  from lowest_score_sorted[OF this]
  show "rw_reset_after r = (case counter_live (now - window) st' of [] \<Rightarrow> window | (t, _) # _ \<Rightarrow> t + window - now)"
    using run(5) by (simp add: counter_live_def all split: list.splits)
  show "fst ` set (rk_log st') \<subseteq> insert handle (fst ` set (rk_log st))"
    using sub run(1) by auto
qed

lemma redis_settle_ok:
  assumes "counter_ok window now0 st" "now0 \<le> now"
  shows "counter_ok window now (redis_settle now handle cost st)"
    and "now - window \<le> c \<Longrightarrow>
      counter_live c (redis_settle now handle cost st) = settled_to handle cost (counter_live c st)"
    and "fst ` set (rk_log (redis_settle now handle cost st)) \<subseteq> fst ` set (rk_log st)"
proof -
  let ?st = "live_counter now st"
  note ok = live_counter_ok[OF assms]
  have member: "handle \<in> fst ` set (rk_log ?st) \<longleftrightarrow> rk_costs ?st handle \<noteq> None"
    using ok(1) by (auto simp: counter_ok_def)
  have change: "distinct hs \<Longrightarrow> handle \<in> set hs \<Longrightarrow>
      sum_list (map (\<lambda>h. the (if h = handle then Some cost else m h)) hs)
      = sum_list (map (\<lambda>h. the (m h)) hs) + (cost - the (m handle))" for hs and m :: "string \<Rightarrow> int option"
    by (induction hs) (auto simp: sum_costs_other)
  show "counter_ok window now (redis_settle now handle cost st)"
    using ok(1) member change[of "map fst (rk_log ?st)" "rk_costs ?st"] unfolding counter_ok_def redis_settle_def redis_charge_def
    by (auto simp del: map_map split: option.splits)
  show "counter_live c (redis_settle now handle cost st) = settled_to handle cost (counter_live c st)"
    if "now - window \<le> c"
  proof -
    have "(handle, s) \<notin> set (rk_log ?st)" if "rk_costs ?st handle = None" for s
      using member that by force
    then show ?thesis
      unfolding ok(2)[OF that, symmetric]
      by (auto simp: counter_live_def settled_to_def redis_settle_def redis_charge_def split: option.splits)
  qed
  show "fst ` set (rk_log (redis_settle now handle cost st)) \<subseteq> fst ` set (rk_log st)"
    by (auto simp: redis_settle_def redis_charge_def live_counter_def empty_counter_def split: option.splits if_splits)
qed

section \<open>One client on either store\<close>

text \<open>
  A client counts entries against one key, and may later settle the entry its \<open>i\<close>-th count was
  admitted as. Both runs return the answers; \<open>handles\<close> are the handles issued so far.
\<close>

datatype window_op =
    Count nat int int
  | Charge nat nat int

definition issued :: "string option list \<Rightarrow> nat \<Rightarrow> string option" where
  "issued handles i = (if i < length handles then handles ! i else None)"

fun run_process ::
  "string \<Rightarrow> instant \<Rightarrow> instant \<Rightarrow> string option list \<Rightarrow> window_op list \<Rightarrow> window_log
     \<Rightarrow> (store_error + bool \<times> int \<times> instant) list" where
  "run_process key window now handles [] L = []"
| "run_process key window now handles (Count dt limit cost # ops) L =
     (case log_hit (now + int dt) key limit window cost L of
        (Inl e, L') \<Rightarrow> [Inl e]
      | (Inr r, L') \<Rightarrow> Inr (rw_allowed r, rw_count r, rw_reset_after r)
          # run_process key window (now + int dt) (handles @ [rw_handle r]) ops L')"
| "run_process key window now handles (Charge dt i cost # ops) L =
     run_process key window (now + int dt) handles ops
       (case issued handles i of None \<Rightarrow> L | Some h \<Rightarrow> log_settle key h cost L)"

fun run_redis ::
  "(nat \<Rightarrow> string) \<Rightarrow> instant \<Rightarrow> instant \<Rightarrow> string option list \<Rightarrow> window_op list \<Rightarrow> redis_counter
     \<Rightarrow> (store_error + bool \<times> int \<times> instant) list" where
  "run_redis uuid window now handles [] st = []"
| "run_redis uuid window now handles (Count dt limit cost # ops) st =
     (case redis_hit (now + int dt) limit window (uuid (length handles)) cost st of
        (r, st') \<Rightarrow> Inr (rw_allowed r, rw_count r, rw_reset_after r)
          # run_redis uuid window (now + int dt) (handles @ [rw_handle r]) ops st')"
| "run_redis uuid window now handles (Charge dt i cost # ops) st =
     run_redis uuid window (now + int dt) handles ops
       (case issued handles i of None \<Rightarrow> st | Some h \<Rightarrow> redis_settle (now + int dt) h cost st)"

text \<open>
  The two states agree when they hold the same live entries in the same order, the entries of the
  same count paired by the handles it was issued.
\<close>

definition renamed :: "string option list \<Rightarrow> (instant \<times> nat \<times> int) list \<Rightarrow> (instant \<times> string \<times> int) list" where
  "renamed handles = map (\<lambda>(t, i, c). (t, the (issued handles i), c))"

definition distinct_handles :: "string option list \<Rightarrow> bool" where
  "distinct_handles handles \<longleftrightarrow>
     (\<forall>i j h. issued handles i = Some h \<longrightarrow> issued handles j = Some h \<longrightarrow> i = j)"

definition same_window ::
  "string \<Rightarrow> instant \<Rightarrow> (nat \<Rightarrow> string) \<Rightarrow> instant \<Rightarrow> string option list \<Rightarrow> string option list
     \<Rightarrow> window_log \<Rightarrow> redis_counter \<Rightarrow> bool" where
  "same_window key window uuid now hl hr L st \<longleftrightarrow>
     log_ok (\<lambda>_. window) now L \<and> counter_ok window now st
     \<and> length hr = length hl \<and> (\<forall>i. issued hr i = map_option (\<lambda>_. uuid i) (issued hl i))
     \<and> distinct_handles hl \<and> (\<forall>i h. issued hl i = Some h \<longrightarrow> (\<exists>n < wl_handles L. h = show_int (int n)))
     \<and> fst ` set (rk_log st) \<subseteq> uuid ` {..<length hr}
     \<and> (\<forall>t. now \<le> t \<longrightarrow> (\<exists>es. log_live (\<lambda>_. window) L key t = renamed hl es
          \<and> counter_live (t - window) st = renamed hr es
          \<and> (\<forall>(s, i, c) \<in> set es. issued hl i \<noteq> None)))"

lemma issued_append: "issued (handles @ [h]) i = (if i = length handles then h else issued handles i)"
  by (auto simp: issued_def nth_append)

lemma issued_last: "issued (handles @ [h]) (length handles) = h"
  by (simp add: issued_def)

lemma issued_more: "issued handles i = Some g \<Longrightarrow> issued (handles @ [h]) i = Some g"
  by (auto simp: issued_def nth_append split: if_splits)

lemma renamed_settle:
  assumes "\<forall>(s, i, c) \<in> set es. issued handles i \<noteq> None" "distinct_handles handles" "issued handles j = Some h"
  shows "settled_to h cost (renamed handles es) = renamed handles (map (\<lambda>(s, i, c). (s, i, if i = j then cost else c)) es)"
  using assms(1) unfolding renamed_def settled_to_def
  by (induction es) (use assms(2,3) in \<open>auto simp: distinct_handles_def\<close>)

lemma renamed_more:
  "\<forall>(s, i, c) \<in> set es. issued handles i \<noteq> None \<Longrightarrow> renamed (handles @ [h]) es = renamed handles es"
  unfolding renamed_def by (induction es) (auto simp: issued_more)

lemma live_cost_renamed: "live_cost (renamed handles es) = sum_list (map (\<lambda>(t, i, c). c) es)"
  by (simp add: live_cost_def renamed_def case_prod_unfold o_def)

lemma head_renamed:
  "(case renamed handles es of [] \<Rightarrow> a | (t, _) # _ \<Rightarrow> f t) = (case es of [] \<Rightarrow> a | (t, _) # _ \<Rightarrow> f t)"
  by (cases es) (auto simp: renamed_def)

lemma same_window_count:
  assumes inj: "inj uuid" and w: "0 < window" and same: "same_window key window uuid now hl hr L st"
    and hit: "log_hit (now + int dt) key limit window cost L = (out, L')"
    and redis: "redis_hit (now + int dt) limit window (uuid (length hr)) cost st = (r2, st')"
  obtains r1 where "out = Inr r1"
    "(rw_allowed r1, rw_count r1, rw_reset_after r1) = (rw_allowed r2, rw_count r2, rw_reset_after r2)"
    "same_window key window uuid (now + int dt) (hl @ [rw_handle r1]) (hr @ [rw_handle r2]) L' st'"
proof -
  let ?now = "now + int dt"
  have L: "log_ok (\<lambda>_. window) now L" and st: "counter_ok window now st"
    and hs: "length hr = length hl" "\<And>i. issued hr i = map_option (\<lambda>_. uuid i) (issued hl i)" "distinct_handles hl"
      "\<And>i h. issued hl i = Some h \<Longrightarrow> \<exists>n < wl_handles L. h = show_int (int n)"
    and names: "fst ` set (rk_log st) \<subseteq> uuid ` {..<length hr}"
    using same by (auto simp: same_window_def)
  have fresh: "uuid (length hr) \<notin> fst ` set (rk_log st)"
    using names inj_image_mem_iff[OF inj, of "length hr" "{..<length hr}"] by auto
  obtain es where es: "log_live (\<lambda>_. window) L key t = renamed hl (es t)"
      "counter_live (t - window) st = renamed hr (es t)" "\<forall>(s, i, c) \<in> set (es t). issued hl i \<noteq> None"
    if "now \<le> t" for t
    using same unfolding same_window_def by metis
  obtain r1 L1 where log: "log_hit ?now key limit window cost L = (Inr r1, L1)" "log_ok (\<lambda>_. window) ?now L1"
      "rw_allowed r1 \<longleftrightarrow> live_cost (log_live (\<lambda>_. window) L key ?now) + cost \<le> limit"
      "rw_count r1 = live_cost (log_live (\<lambda>_. window) L1 key ?now)"
      "rw_reset_after r1 = (case log_live (\<lambda>_. window) L1 key ?now of [] \<Rightarrow> window | (t, _) # _ \<Rightarrow> t + window - ?now)"
      "rw_handle r1 = (if rw_allowed r1 then Some (show_int (int (wl_handles L))) else None)"
      "wl_handles L1 = (if rw_allowed r1 then wl_handles L + 1 else wl_handles L)"
      "\<And>k t. ?now \<le> t \<Longrightarrow> log_live (\<lambda>_. window) L1 k t = log_live (\<lambda>_. window) L k t @
         (if k = key \<and> rw_allowed r1 \<and> t < ?now + window
          then [(?now, show_int (int (wl_handles L)), cost)] else [])"
    by (rule log_hit_ok[OF L, where now = "?now" and key = key and limit = limit and cost = cost]) (use w in auto)
  note rd = redis_hit_ok[OF st _ w fresh redis]
  have allowed: "rw_allowed r1 = rw_allowed r2"
    using log(3) rd(2) es(1,2)[of ?now] by (simp add: live_cost_renamed)
  define fs where "fs t = es t @ (if rw_allowed r2 \<and> t < ?now + window then [(?now, length hl, cost)] else [])" for t
  have iss: "\<forall>(s, i, c) \<in> set (es t). issued hr i \<noteq> None" if "now \<le> t" for t
    using es(3)[OF that] hs(2) by auto
  have left: "log_live (\<lambda>_. window) L1 key t = renamed (hl @ [rw_handle r1]) (fs t)" if "?now \<le> t" for t
    using log(8)[OF that, of key] log(6) es(1,3)[of t] that allowed renamed_more[of "es t" hl]
    by (auto simp: fs_def renamed_def issued_append)
  have right: "counter_live (t - window) st' = renamed (hr @ [rw_handle r2]) (fs t)" if "?now \<le> t" for t
    using rd(6)[of "t - window"] rd(5) es(2)[of t] iss[of t] that hs(1) renamed_more[of "es t" hr]
    by (auto simp: fs_def renamed_def issued_append)
  have "same_window key window uuid ?now (hl @ [rw_handle r1]) (hr @ [rw_handle r2]) L1 st'"
    unfolding same_window_def
  proof (intro conjI allI impI)
    show "log_ok (\<lambda>_. window) ?now L1" by (rule log(2))
    show "counter_ok window ?now st'" using rd(1) by simp
    show "length (hr @ [rw_handle r2]) = length (hl @ [rw_handle r1])" using hs(1) by simp
    show "issued (hr @ [rw_handle r2]) i = map_option (\<lambda>_. uuid i) (issued (hl @ [rw_handle r1]) i)" for i
      using hs(1,2) allowed log(6) rd(5) by (simp add: issued_append)
    show "distinct_handles (hl @ [rw_handle r1])"
      using hs(3,4) log(6) by (fastforce simp: distinct_handles_def issued_append show_int_inj split: if_splits)
    show "\<exists>n < wl_handles L1. h = show_int (int n)" if "issued (hl @ [rw_handle r1]) i = Some h" for i h
      using that hs(4)[of i h] log(6,7) by (auto simp: issued_append less_Suc_eq show_int_inj split: if_splits)
    show "fst ` set (rk_log st') \<subseteq> uuid ` {..<length (hr @ [rw_handle r2])}"
      using rd(7) names by (auto simp: lessThan_Suc)
    fix t assume t: "?now \<le> t"
    have "\<forall>(s, i, c) \<in> set (fs t). issued (hl @ [rw_handle r1]) i \<noteq> None"
    proof -
      have "\<forall>(s, i, c) \<in> set (es t). issued (hl @ [rw_handle r1]) i \<noteq> None"
        using es(3)[of t] t issued_more by fastforce
      then show ?thesis using allowed log(6) by (simp add: fs_def issued_last ball_Un)
    qed
    then show "\<exists>es. log_live (\<lambda>_. window) L1 key t = renamed (hl @ [rw_handle r1]) es
        \<and> counter_live (t - window) st' = renamed (hr @ [rw_handle r2]) es
        \<and> (\<forall>(s, i, c) \<in> set es. issued (hl @ [rw_handle r1]) i \<noteq> None)"
      using left[OF t] right[OF t] by blast
  qed
  moreover have "rw_count r1 = rw_count r2" "rw_reset_after r1 = rw_reset_after r2"
    using log(4,5) rd(3,4) left[of ?now] right[of ?now] by (simp_all add: live_cost_renamed head_renamed)
  ultimately show thesis
    using that[of r1] hit log(1) allowed by simp
qed

lemma same_window_later:
  assumes "same_window key window uuid now hl hr L st" "now \<le> later"
  shows "same_window key window uuid later hl hr L st"
  using assms log_ok_mono[of "\<lambda>_. window" now L later] counter_ok_later[of window now st later]
  unfolding same_window_def by (elim conjE, intro conjI) (assumption | simp)+

lemma same_window_charge:
  assumes inj: "inj uuid" and same: "same_window key window uuid now hl hr L st"
    and h: "issued hl i = Some h"
  shows "same_window key window uuid now hl hr (log_settle key h cost L) (redis_settle now (uuid i) cost st)"
proof -
  have L: "log_ok (\<lambda>_. window) now L" and st: "counter_ok window now st"
    and hr: "\<And>i. issued hr i = map_option (\<lambda>_. uuid i) (issued hl i)" and dl: "distinct_handles hl"
    using same by (auto simp: same_window_def)
  have dr: "distinct_handles hr" using inj by (auto simp: distinct_handles_def hr dest: injD)
  have hri: "issued hr i = Some (uuid i)" by (simp add: hr h)
  note ls = log_settle_ok[OF L, where key = key and handle = h and cost = cost]
  note rs = redis_settle_ok[OF st order_refl, where handle = "uuid i" and cost = cost]
  have "\<exists>es. log_live (\<lambda>_. window) (log_settle key h cost L) key t = renamed hl es
      \<and> counter_live (t - window) (redis_settle now (uuid i) cost st) = renamed hr es
      \<and> (\<forall>(s, j, c) \<in> set es. issued hl j \<noteq> None)" if t: "now \<le> t" for t
  proof -
    obtain es where es: "log_live (\<lambda>_. window) L key t = renamed hl es"
        "counter_live (t - window) st = renamed hr es" "\<forall>(s, j, c) \<in> set es. issued hl j \<noteq> None"
      using same t unfolding same_window_def by metis
    have es': "\<forall>(s, j, c) \<in> set es. issued hr j \<noteq> None" using es(3) by (auto simp: hr)
    let ?es = "map (\<lambda>(s, j, c). (s, j, if j = i then cost else c)) es"
    have "log_live (\<lambda>_. window) (log_settle key h cost L) key t = renamed hl ?es"
      by (simp add: ls(2) es(1) renamed_settle[OF es(3) dl h])
    moreover have "counter_live (t - window) (redis_settle now (uuid i) cost st) = renamed hr ?es"
      using rs(2)[where c = "t - window"] t by (simp add: es(2) renamed_settle[OF es' dr hri])
    moreover have "\<forall>(s, j, c) \<in> set ?es. issued hl j \<noteq> None" using es(3) by auto
    ultimately show ?thesis by blast
  qed
  then show ?thesis
    using same ls(1,3) rs(1,3) unfolding same_window_def by (auto 0 3)
qed

lemma runs_agree:
  assumes "inj uuid" "0 < window" "same_window key window uuid now hl hr L st"
  shows "run_redis uuid window now hr ops st = run_process key window now hl ops L"
  using assms(3)
proof (induction ops arbitrary: now hl hr L st)
  case (Cons op ops)
  show ?case
  proof (cases op)
    case (Count dt limit cost)
    obtain out L' where hit: "log_hit (now + int dt) key limit window cost L = (out, L')" by force
    obtain r2 st' where redis: "redis_hit (now + int dt) limit window (uuid (length hr)) cost st = (r2, st')" by force
    obtain r1 where r1: "out = Inr r1"
        "(rw_allowed r1, rw_count r1, rw_reset_after r1) = (rw_allowed r2, rw_count r2, rw_reset_after r2)"
        "same_window key window uuid (now + int dt) (hl @ [rw_handle r1]) (hr @ [rw_handle r2]) L' st'"
      by (rule same_window_count[OF assms(1,2) Cons.prems hit redis])
    show ?thesis
      using Cons.IH[OF r1(3)] r1(1,2) hit redis Count by simp
  next
    case (Charge dt i cost)
    have later: "same_window key window uuid (now + int dt) hl hr L st"
      by (rule same_window_later[OF Cons.prems]) simp
    have hr: "issued hr i = map_option (\<lambda>_. uuid i) (issued hl i)"
      using Cons.prems by (simp add: same_window_def)
    show ?thesis
    proof (cases "issued hl i")
      case None
      then show ?thesis using Cons.IH[OF later] hr Charge by simp
    next
      case (Some h)
      show ?thesis
        using Cons.IH[OF same_window_charge[OF assms(1) later Some]] Some hr Charge by simp
    qed
  qed
qed simp

section \<open>Properties\<close>

text \<open>
  \<^bold>\<open>C11\<close>: the Redis scripts and the in-process log count the same. Whatever a client counts and
  settles on one key, at whatever times, both give the same sequence of answers (admitted or not,
  the count, the time until the oldest entry leaves); in particular the log never raises.
\<close>

theorem redis_counts_like_process_log:
  assumes "inj uuid" "0 < window"
  shows "run_redis uuid window now [] ops empty_counter = run_process key window now [] ops empty_log"
proof (rule runs_agree[OF assms])
  show "same_window key window uuid now [] [] empty_log empty_counter"
    by (auto simp: same_window_def distinct_handles_def issued_def empty_counter_def renamed_def counter_live_def
        counter_ok_def)
qed

definition sample_ops :: "window_op list" where
  "sample_ops = [Count 0 10 6, Count 5 10 6, Charge 1 0 2, Count 4 10 6, Count 60 10 9, Count 30 10 9]"

theorem redis_counts_like_process_log_witness:
  "run_redis (\<lambda>n. replicate n (CHR ''u'')) 60 1000 [] sample_ops empty_counter =
     [Inr (True, 6, 60), Inr (False, 6, 55), Inr (True, 8, 50), Inr (True, 9, 60), Inr (False, 9, 30)]
   \<and> run_redis (\<lambda>n. replicate n (CHR ''u'')) 60 1000 [] sample_ops empty_counter
     = run_process ''k'' 60 1000 [] sample_ops empty_log"
proof
  show "run_redis (\<lambda>n. replicate n (CHR ''u'')) 60 1000 [] sample_ops empty_counter
     = run_process ''k'' 60 1000 [] sample_ops empty_log"
    by (rule redis_counts_like_process_log) (auto simp: inj_def replicate_eq_replicate)
  show "run_redis (\<lambda>n. replicate n (CHR ''u'')) 60 1000 [] sample_ops empty_counter =
     [Inr (True, 6, 60), Inr (False, 6, 55), Inr (True, 8, 50), Inr (True, 9, 60), Inr (False, 9, 30)]"
    unfolding sample_ops_def
    by code_simp
qed

end
