(* ===== verification/Weighted_Router.thy ===== *)
theory Weighted_Router
  imports Policy_Compiler
begin

text \<open>
  Router backends and their use for one request: the weighted split of
  \<open>services/routing/weighted.py\<close>, the registry of \<open>services/routing/backends.py\<close> and the decision of
  \<open>services/routing/decide.py\<close>.

  A weight is an exact rational, so the rounding of floating-point sums is not modelled; what may fall
  on the wrong side of a boundary is: the numbers drawn are an arbitrary stream \<open>draws\<close>, and the
  position reached in it is returned, as the process-wide \<open>_DEFAULT_RNG\<close> keeps it. \<open>None\<close> is an
  exception (\<open>next\<close> of an empty iterator, a removal of an absent element, an \<open>assert\<close>).
\<close>

section \<open>Shares\<close>

text \<open>\<open>max(0.0, float(weights.get(selector, 0.0)))\<close>.\<close>

definition weight_of :: "(string \<times> rat) list \<Rightarrow> string \<Rightarrow> rat" where
  "weight_of weights selector = max 0 (case map_of weights selector of None \<Rightarrow> 0 | Some w \<Rightarrow> w)"

definition declared_shares :: "(string \<times> rat) list \<Rightarrow> string list \<Rightarrow> string \<Rightarrow> rat option" where
  "declared_shares weights pool =
     (let raw = map (\<lambda>s. (s, weight_of weights s)) (fromkeys pool);
          whole = sum_list (map snd raw)
      in if pool = [] then Map.empty
         else if whole \<le> 0 then map_of (rev (map (\<lambda>(i, s). (s, if i = 0 then 100 else 0)) (enumerate 0 pool)))
         else map_of (map (\<lambda>(s, w). (s, w * 100 / whole)) raw))"

text \<open>\<open>shares[selector]\<close> for a member of the pool.\<close>

definition share_of :: "(string \<times> rat) list \<Rightarrow> string list \<Rightarrow> string \<Rightarrow> rat" where
  "share_of weights pool selector = (case declared_shares weights pool selector of None \<Rightarrow> 0 | Some v \<Rightarrow> v)"

section \<open>The draw\<close>

text \<open>The loop over the candidates of one draw: the first whose boundary the draw stays under.\<close>

fun boundary_pick :: "rat \<Rightarrow> rat \<Rightarrow> (string \<times> rat) list \<Rightarrow> string option" where
  "boundary_pick draw cumulative [] = None"
| "boundary_pick draw cumulative ((selector, weight) # weighted) =
     (if weight \<le> 0 then boundary_pick draw cumulative weighted
      else if draw < cumulative + weight then Some selector
      else boundary_pick draw (cumulative + weight) weighted)"

definition last_positive :: "(string \<times> rat) list \<Rightarrow> string option" where
  "last_positive weighted = map_option fst (find (\<lambda>(s, w). w > 0) (rev weighted))"

definition pick :: "rat \<Rightarrow> (string \<times> rat) list \<Rightarrow> string option" where
  "pick draw weighted = (case last_positive weighted of
       None \<Rightarrow> None
     | Some fallback \<Rightarrow> Some (case boundary_pick draw 0 weighted of None \<Rightarrow> fallback | Some s \<Rightarrow> s))"

definition weighted_pool :: "(string \<times> rat) list \<Rightarrow> string list \<Rightarrow> (string \<times> rat) list" where
  "weighted_pool weights remaining = map (\<lambda>s. (s, weight_of weights s)) remaining"

definition pool_weight :: "(string \<times> rat) list \<Rightarrow> string list \<Rightarrow> rat" where
  "pool_weight weights remaining = sum_list (map (weight_of weights) remaining)"

function weighted_ordering ::
  "(string \<times> rat) list \<Rightarrow> (nat \<Rightarrow> rat) \<Rightarrow> nat \<Rightarrow> string list \<Rightarrow> (string list \<times> nat) option" where
  "weighted_ordering weights draws n remaining =
     (if remaining = [] then Some ([], n)
      else if pool_weight weights remaining \<le> 0 then Some (remaining, n)
      else case pick (draws n * pool_weight weights remaining) (weighted_pool weights remaining) of
        None \<Rightarrow> None
      | Some picked \<Rightarrow>
          if picked \<in> set remaining
          then map_option (map_prod ((#) picked) id)
                 (weighted_ordering weights draws (Suc n) (remove1 picked remaining))
          else None)"
  by pat_completeness auto
termination
  by (relation "measure (\<lambda>(weights, draws, n, remaining). length remaining)")
    (auto simp: length_remove1 intro: diff_less length_pos_if_in_set)

declare weighted_ordering.simps [simp del]

definition explain_ordering :: "(string \<times> rat) list \<Rightarrow> string list \<Rightarrow> string list" where
  "explain_ordering weights pool =
     (let positions = map_of (rev (map (\<lambda>(i, s). (s, i)) (enumerate 0 pool)))
      in sort_key (\<lambda>s. (- share_of weights pool s, the (positions s))) pool)"

text \<open>\<open>f"{x:.0f}"\<close> of a share: the nearest integer, the even one of two.\<close>

definition round_half_even :: "rat \<Rightarrow> int" where
  "round_half_even x =
     (let below = \<lfloor>x\<rfloor>; part = x - of_int \<lfloor>x\<rfloor>
      in if part < 1 / 2 \<or> (part = 1 / 2 \<and> even below) then below else below + 1)"

definition describe_split :: "(string \<times> rat) list \<Rightarrow> string list \<Rightarrow> string" where
  "describe_split weights pool =
     join_with '', '' (map (\<lambda>s. s @ '' '' @ show_int (round_half_even (share_of weights pool s)) @ ''%'')
       (explain_ordering weights pool))"

section \<open>Backends\<close>

record routing_context =
  rc_user_id :: string
  rc_default_model :: string
  rc_pool :: "string list"
  rc_weights :: "(string \<times> rat) list"

record routing_decision =
  rd_models :: "string list"
  rd_confidence :: rat
  rd_rationale :: string
  rd_log :: bool

definition decline :: "string \<Rightarrow> routing_decision" where
  "decline why = \<lparr> rd_models = [], rd_confidence = 0, rd_rationale = why, rd_log = True \<rparr>"

definition no_candidate_usable :: string where
  "no_candidate_usable = ''no candidate in the pool is usable by this caller''"

definition priority_rationale :: "string list \<Rightarrow> string" where
  "priority_rationale pool = ''priority order ('' @ join_with '', '' pool @ '')''"

definition weighted_rationale :: "(string \<times> rat) list \<Rightarrow> string list \<Rightarrow> string" where
  "weighted_rationale weights pool = ''weighted split ('' @ describe_split weights pool @ '')''"

text \<open>The two \<open>rank\<close> methods; the second returns the position reached in the stream as well.\<close>

definition priority_rank :: "routing_context \<Rightarrow> routing_decision" where
  "priority_rank ctx =
     (if rc_pool ctx = [] then decline no_candidate_usable
      else \<lparr> rd_models = rc_pool ctx, rd_confidence = 1, rd_rationale = priority_rationale (rc_pool ctx),
             rd_log = False \<rparr>)"

definition weighted_decision :: "routing_context \<Rightarrow> string list \<Rightarrow> routing_decision" where
  "weighted_decision ctx ordered = \<lparr> rd_models = ordered,
     rd_confidence = share_of (rc_weights ctx) (rc_pool ctx) (hd ordered) / 100,
     rd_rationale = weighted_rationale (rc_weights ctx) (rc_pool ctx), rd_log = False \<rparr>"

definition weighted_rank ::
  "(nat \<Rightarrow> rat) \<Rightarrow> nat \<Rightarrow> routing_context \<Rightarrow> (routing_decision \<times> nat) option" where
  "weighted_rank draws n ctx =
     (if rc_pool ctx = [] then Some (decline no_candidate_usable, n)
      else if rc_weights ctx = []
      then Some (decline (''policy declares no weights for router '' @ quoted weighted_backend), n)
      else case weighted_ordering (rc_weights ctx) draws n (rc_pool ctx) of
        None \<Rightarrow> None
      | Some (ordered, m) \<Rightarrow> if ordered = [] then None else Some (weighted_decision ctx ordered, m))"

datatype router_kind = Priority_Router | Weighted_Split

definition get_router_backend :: "string \<Rightarrow> router_kind option" where
  "get_router_backend name =
     (if ascii_lower (py_strip name) = priority_backend then Some Priority_Router
      else if ascii_lower (py_strip name) = weighted_backend then Some Weighted_Split
      else None)"

definition rank :: "router_kind \<Rightarrow> (nat \<Rightarrow> rat) \<Rightarrow> nat \<Rightarrow> routing_context \<Rightarrow> (routing_decision \<times> nat) option" where
  "rank kind draws n ctx = (case kind of
       Priority_Router \<Rightarrow> Some (priority_rank ctx, n)
     | Weighted_Split \<Rightarrow> weighted_rank draws n ctx)"

text \<open>Which policies were warned of, and how far the stream is read.\<close>

type_synonym warning_key = "string option \<times> string \<times> string"

record router_state =
  rs_warned :: "warning_key list"
  rs_drawn :: nat

definition owes_missing_backend_warning :: "warning_key \<Rightarrow> router_state \<Rightarrow> bool \<times> router_state" where
  "owes_missing_backend_warning key st =
     (if key \<in> set (rs_warned st) then (False, st) else (True, st\<lparr> rs_warned := key # rs_warned st \<rparr>))"

section \<open>Deciding for a request\<close>

record routing_signal =
  sg_conversation_id :: "string option"
  sg_opted_out :: bool

record router_ordering =
  ro_selectors :: "string list"
  ro_confidence :: rat
  ro_rationale :: string

definition empty_ordering :: "string \<Rightarrow> router_ordering" where
  "empty_ordering why = \<lparr> ro_selectors = [], ro_confidence = 0, ro_rationale = why \<rparr>"

definition is_usable :: "(string \<Rightarrow> 'm + 'k resolved_provider) \<Rightarrow> string list option \<Rightarrow> string \<Rightarrow> bool" where
  "is_usable resolve allowlist selector = (case resolve selector of
       Inl _ \<Rightarrow> False
     | Inr r \<Rightarrow> is_model_allowed allowlist (canonical_of r))"

definition usable_candidates ::
  "(string \<Rightarrow> 'm + 'k resolved_provider) \<Rightarrow> string list option \<Rightarrow> string list \<Rightarrow> string list" where
  "usable_candidates resolve allowlist candidates = filter (is_usable resolve allowlist) candidates"

text \<open>The weights of a validated policy, which are all finite.\<close>

definition finite_weights :: "policy_spec \<Rightarrow> (string \<times> rat) list" where
  "finite_weights spec = [(s, v). (s, w) \<leftarrow> router_weights spec, v \<leftarrow> (case w of Finite v \<Rightarrow> [v] | Not_Finite \<Rightarrow> [])]"

definition ordering_of :: "routing_decision \<Rightarrow> router_ordering" where
  "ordering_of d = \<lparr> ro_selectors = rd_models d, ro_confidence = rd_confidence d, ro_rationale = rd_rationale d \<rparr>"

text \<open>
  The guarded call of the backend: whatever it raises is an empty ordering. (\<open>rank_total\<close> below: it
  raises nothing, so what an exception leaves of the stream is not asked.)
\<close>

definition guarded_rank ::
  "router_kind \<Rightarrow> (nat \<Rightarrow> rat) \<Rightarrow> router_state \<Rightarrow> routing_context \<Rightarrow> router_ordering \<times> router_state" where
  "guarded_rank kind draws st ctx = (case rank kind draws (rs_drawn st) ctx of
       None \<Rightarrow> (empty_ordering ''router error (RuntimeError)'', st)
     | Some (d, n) \<Rightarrow> (ordering_of d, st\<lparr> rs_drawn := n \<rparr>))"

definition missing_backend ::
  "string option \<Rightarrow> string \<Rightarrow> string \<Rightarrow> policy_spec \<Rightarrow> router_state
     \<Rightarrow> (router_ordering option \<times> router_state) option" where
  "missing_backend workspace policy_name name spec st =
     (case owes_missing_backend_warning (workspace, policy_name, name) st of
        (False, st') \<Rightarrow> Some (None, st')
      | (True, st') \<Rightarrow> (case default_target spec of None \<Rightarrow> None | Some _ \<Rightarrow> Some (None, st')))"

definition ask_router ::
  "router_kind \<Rightarrow> (nat \<Rightarrow> rat) \<Rightarrow> policy_spec \<Rightarrow> string option \<Rightarrow> string list \<Rightarrow> router_state
     \<Rightarrow> (router_ordering option \<times> router_state) option" where
  "ask_router kind draws spec user_id pool st = (case default_target spec of
       None \<Rightarrow> None
     | Some d \<Rightarrow>
         if pool = [] then Some (Some (empty_ordering no_candidate_usable), st)
         else Some (map_prod Some id (guarded_rank kind draws st
                \<lparr> rc_user_id = (case user_id of None \<Rightarrow> [] | Some u \<Rightarrow> u), rc_default_model = d, rc_pool = pool,
                   rc_weights = finite_weights spec \<rparr>)))"

definition decide_ordering ::
  "(string \<Rightarrow> 'm + 'k resolved_provider) \<Rightarrow> (nat \<Rightarrow> rat) \<Rightarrow> policy_spec \<Rightarrow> string \<Rightarrow> string option \<Rightarrow> string list option
     \<Rightarrow> routing_signal option \<Rightarrow> string option \<Rightarrow> router_state \<Rightarrow> (router_ordering option \<times> router_state) option" where
  "decide_ordering resolve draws spec policy_name user_id allowlist signal workspace st =
     (case router_backend spec of
        None \<Rightarrow> Some (None, st)
      | Some name \<Rightarrow>
          (case signal of
             None \<Rightarrow> Some (None, st)
           | Some sg \<Rightarrow>
               if sg_opted_out sg then Some (Some (empty_ordering ''caller sent Otari-Router: off''), st)
               else case get_router_backend name of
                 None \<Rightarrow> missing_backend workspace policy_name name spec st
               | Some kind \<Rightarrow> ask_router kind draws spec user_id
                   (usable_candidates resolve allowlist (router_candidates spec)) st))"

text \<open>What a surface without a request shows.\<close>

record weighted_share =
  ws_selector :: string
  ws_canonical :: string
  ws_share_pct :: rat

definition displayed_shares ::
  "(string \<Rightarrow> 'm + 'k resolved_provider) \<Rightarrow> (string \<times> rat) list \<Rightarrow> string list \<Rightarrow> weighted_share list" where
  "displayed_shares resolve weights pool = concat (map (\<lambda>s. case resolve s of
       Inl _ \<Rightarrow> []
     | Inr r \<Rightarrow> [\<lparr> ws_selector = s, ws_canonical = canonical_of r, ws_share_pct = share_of weights pool s \<rparr>])
     (explain_ordering weights pool))"

definition explain_router_ordering ::
  "(string \<Rightarrow> 'm + 'k resolved_provider) \<Rightarrow> policy_spec \<Rightarrow> string list option
     \<Rightarrow> router_ordering option \<times> weighted_share list" where
  "explain_router_ordering resolve spec allowlist =
     (let declared = router_candidates spec;
          weights = finite_weights spec;
          able = usable_candidates resolve allowlist declared;
          displayed = displayed_shares resolve weights able
      in if names_backend (router_backend spec) priority_backend
         then (Some \<lparr> ro_selectors = declared, ro_confidence = 1, ro_rationale = priority_rationale declared \<rparr>, [])
         else if \<not> names_backend (router_backend spec) weighted_backend then (None, [])
         else (Some \<lparr> ro_selectors = explain_ordering weights declared,
                 ro_confidence = (case displayed of [] \<Rightarrow> 0 | d # _ \<Rightarrow> ws_share_pct d / 100),
                 ro_rationale = (if able = [] then ''no candidate in the split is usable by this caller''
                                 else weighted_rationale weights able) \<rparr>,
               displayed))"

section \<open>The draw always ends\<close>

lemma weight_of_nonneg [simp]: "0 \<le> weight_of weights s"
  by (simp add: weight_of_def)

lemma pool_weight_nonneg [simp]: "0 \<le> pool_weight weights pool"
  unfolding pool_weight_def by (rule sum_list_nonneg) auto

lemma pool_weight_Cons [simp]: "pool_weight weights (s # pool) = weight_of weights s + pool_weight weights pool"
  by (simp add: pool_weight_def)

lemma pool_weight_append [simp]: "pool_weight weights (xs @ ys) = pool_weight weights xs + pool_weight weights ys"
  by (simp add: pool_weight_def)

lemma pool_weight_Nil [simp]: "pool_weight weights [] = 0"
  by (simp add: pool_weight_def)

lemma pool_weight_zero_iff: "pool_weight weights pool \<le> 0 \<longleftrightarrow> (\<forall>s \<in> set pool. weight_of weights s = 0)"
proof (induction pool)
  case (Cons s pool)
  have "0 \<le> weight_of weights s" "0 \<le> pool_weight weights pool" by simp_all
  then have "pool_weight weights (s # pool) \<le> 0 \<longleftrightarrow> weight_of weights s = 0 \<and> pool_weight weights pool \<le> 0"
    unfolding pool_weight_Cons by linarith
  then show ?case using Cons.IH by simp
qed simp

lemma boundary_pick_positive:
  "boundary_pick draw c weighted = Some s \<Longrightarrow> \<exists>w. (s, w) \<in> set weighted \<and> 0 < w"
  by (induction draw c weighted rule: boundary_pick.induct) (auto split: if_splits)

lemma last_positive_positive: "last_positive weighted = Some s \<Longrightarrow> \<exists>w. (s, w) \<in> set weighted \<and> 0 < w"
  by (auto simp: last_positive_def find_Some_iff) (metis nth_mem set_rev length_rev)

lemma last_positive_None: "last_positive weighted = None \<longleftrightarrow> (\<forall>(s, w) \<in> set weighted. w \<le> 0)"
  by (auto simp: last_positive_def find_None_iff not_less)

lemma pick_positive:
  assumes "pick draw (weighted_pool weights pool) = Some s"
  shows "s \<in> set pool" "0 < weight_of weights s"
proof -
  have "\<exists>w. (s, w) \<in> set (weighted_pool weights pool) \<and> 0 < w"
    using assms boundary_pick_positive[of draw 0 "weighted_pool weights pool"]
      last_positive_positive[of "weighted_pool weights pool"]
    by (auto simp: pick_def split: option.splits)
  then show "s \<in> set pool" "0 < weight_of weights s" by (auto simp: weighted_pool_def)
qed

lemma pick_total:
  assumes "\<not> pool_weight weights pool \<le> 0"
  obtains s where "pick draw (weighted_pool weights pool) = Some s" "s \<in> set pool" "0 < weight_of weights s"
proof -
  obtain s where "s \<in> set pool" "weight_of weights s \<noteq> 0"
    using assms by (auto simp: pool_weight_zero_iff)
  then have "\<not> (\<forall>(s, w) \<in> set (weighted_pool weights pool). w \<le> 0)"
    by (auto simp: weighted_pool_def not_le less_le)
  then obtain f where "last_positive (weighted_pool weights pool) = Some f"
    using last_positive_None[of "weighted_pool weights pool"] by (cases "last_positive (weighted_pool weights pool)") auto
  then obtain p where "pick draw (weighted_pool weights pool) = Some p" by (simp add: pick_def)
  then show thesis using that pick_positive by blast
qed

text \<open>A run of the loop: nothing left, nothing left with a share, or one more candidate drawn.\<close>

lemma ordering_run [case_names Done Drained Drawn]:
  assumes Done: "\<And>n. P n [] [] n"
    and Drained: "\<And>n pool. pool \<noteq> [] \<Longrightarrow> \<forall>s \<in> set pool. weight_of weights s = 0 \<Longrightarrow> P n pool pool n"
    and Drawn: "\<And>n pool picked ordered m.
      \<not> pool_weight weights pool \<le> 0 \<Longrightarrow>
      pick (draws n * pool_weight weights pool) (weighted_pool weights pool) = Some picked \<Longrightarrow>
      picked \<in> set pool \<Longrightarrow> 0 < weight_of weights picked \<Longrightarrow>
      weighted_ordering weights draws (Suc n) (remove1 picked pool) = Some (ordered, m) \<Longrightarrow>
      P (Suc n) (remove1 picked pool) ordered m \<Longrightarrow> P n pool (picked # ordered) m"
  shows "\<exists>ordered m. weighted_ordering weights draws n pool = Some (ordered, m) \<and> P n pool ordered m"
proof (induction "length pool" arbitrary: n pool rule: less_induct)
  case less
  show ?case
  proof (cases "pool = [] \<or> pool_weight weights pool \<le> 0")
    case True
    then show ?thesis
      using Done Drained[of pool n] pool_weight_zero_iff[of weights pool]
      by (auto simp: weighted_ordering.simps[of weights draws n pool])
  next
    case False
    then obtain s where s: "pick (draws n * pool_weight weights pool) (weighted_pool weights pool) = Some s"
        "s \<in> set pool" "0 < weight_of weights s"
      using pick_total by blast
    moreover have "length (remove1 s pool) < length pool"
      using s(2) by (auto simp: length_remove1 intro: diff_less length_pos_if_in_set)
    ultimately obtain ordered m where
      "weighted_ordering weights draws (Suc n) (remove1 s pool) = Some (ordered, m)"
      "P (Suc n) (remove1 s pool) ordered m"
      using less by blast
    then show ?thesis
      using False s Drawn[of pool n s] by (auto simp: weighted_ordering.simps[of weights draws n pool])
  qed
qed

definition drained :: "(string \<times> rat) list \<Rightarrow> string \<Rightarrow> bool" where
  "drained weights s \<longleftrightarrow> weight_of weights s = 0"

lemma filter_drained_remove1: "\<not> drained weights s \<Longrightarrow> filter (drained weights) (remove1 s pool) = filter (drained weights) pool"
  by (induction pool) auto

lemma weighted_ordering_shape:
  "\<exists>ordered m. weighted_ordering weights draws n pool = Some (ordered, m)
     \<and> mset ordered = mset pool
     \<and> (\<exists>drawn. ordered = drawn @ filter (drained weights) pool \<and> (\<forall>s \<in> set drawn. \<not> drained weights s)
          \<and> m = n + length drawn)"
proof (rule ordering_run, goal_cases)
  case (1 n)
  then show ?case by simp
next
  case (2 n pool)
  then have "filter (drained weights) pool = pool" by (auto simp: drained_def intro: filter_True)
  then show ?case by (auto intro: exI[of _ "[]"])
next
  case (3 n pool picked ordered m)
  then obtain drawn where drawn: "ordered = drawn @ filter (drained weights) (remove1 picked pool)"
      "\<forall>s \<in> set drawn. \<not> drained weights s" "m = Suc n + length drawn" by blast
  have fresh: "\<not> drained weights picked" using 3(4) by (simp add: drained_def)
  have "mset (picked # ordered) = mset pool" using 3(3,6) by simp
  moreover have "picked # ordered = (picked # drawn) @ filter (drained weights) pool"
    using drawn(1) filter_drained_remove1[OF fresh] by simp
  moreover have "\<forall>s \<in> set (picked # drawn). \<not> drained weights s" "m = n + length (picked # drawn)"
    using drawn fresh by auto
  ultimately show ?case by blast
qed

section \<open>The draw falls in the share\<close>

lemma boundary_pick_skip:
  assumes "c + pool_weight weights pre \<le> draw"
  shows "boundary_pick draw c (weighted_pool weights (pre @ pool)) =
    boundary_pick draw (c + pool_weight weights pre) (weighted_pool weights pool)"
  using assms
proof (induction pre arbitrary: c)
  case (Cons s pre)
  have pos: "0 \<le> weight_of weights s" "0 \<le> pool_weight weights pre" by simp_all
  then have "c + weight_of weights s \<le> draw" using Cons.prems unfolding pool_weight_Cons by linarith
  moreover have "boundary_pick draw (c + weight_of weights s) (weighted_pool weights (pre @ pool)) =
      boundary_pick draw (c + weight_of weights s + pool_weight weights pre) (weighted_pool weights pool)"
    by (rule Cons.IH) (use Cons.prems in \<open>simp add: add.assoc\<close>)
  moreover have "boundary_pick draw c (weighted_pool weights ((s # pre) @ pool)) =
      boundary_pick draw (c + weight_of weights s) (weighted_pool weights (pre @ pool))"
  proof (cases "weight_of weights s = 0")
    case False
    then have "\<not> weight_of weights s \<le> 0" "\<not> draw < c + weight_of weights s"
      using pos(1) calculation(1) by linarith+
    then show ?thesis by (simp add: weighted_pool_def)
  qed (simp add: weighted_pool_def)
  ultimately show ?case by (simp add: add.assoc)
qed (simp add: weighted_pool_def)

lemma boundary_pick_found:
  assumes "boundary_pick draw c (weighted_pool weights pool) = Some s" "c \<le> draw"
  shows "\<exists>pre post. pool = pre @ s # post \<and> c + pool_weight weights pre \<le> draw
    \<and> draw < c + pool_weight weights pre + weight_of weights s"
  using assms
proof (induction pool arbitrary: c)
  case (Cons x pool)
  let ?c = "c + weight_of weights x"
  show ?case
  proof (cases "draw < ?c")
    case True
    then have "s = x" using Cons.prems by (auto simp: weighted_pool_def split: if_splits)
    then show ?thesis using True Cons.prems(2) by (intro exI[of _ "[]"] exI[of _ pool]) simp
  next
    case False
    then have "boundary_pick draw ?c (weighted_pool weights pool) = Some s"
      using Cons.prems(1) weight_of_nonneg[of weights x] by (simp add: weighted_pool_def split: if_split_asm)
    from Cons.IH[OF this] False obtain pre post where
      "pool = pre @ s # post" "?c + pool_weight weights pre \<le> draw"
      "draw < ?c + pool_weight weights pre + weight_of weights s" by auto
    then show ?thesis by (intro exI[of _ "x # pre"] exI[of _ post]) (simp add: add.assoc)
  qed
qed (simp add: weighted_pool_def)

lemma boundary_pick_exists:
  assumes "draw < c + pool_weight weights pool" "c \<le> draw"
  shows "boundary_pick draw c (weighted_pool weights pool) \<noteq> None"
  using assms
proof (induction pool arbitrary: c)
  case (Cons x pool)
  then show ?case
    using Cons.IH[of "c + weight_of weights x"] Cons.IH[of c] weight_of_nonneg[of weights x]
    by (auto simp: weighted_pool_def add.assoc not_less)
qed simp

lemma boundary_pick_iff:
  assumes "0 \<le> draw" "draw < pool_weight weights pool"
  shows "boundary_pick draw 0 (weighted_pool weights pool) = Some s \<longleftrightarrow>
    (\<exists>pre post. pool = pre @ s # post \<and> pool_weight weights pre \<le> draw
       \<and> draw < pool_weight weights pre + weight_of weights s)"
proof
  show "\<exists>pre post. pool = pre @ s # post \<and> pool_weight weights pre \<le> draw
      \<and> draw < pool_weight weights pre + weight_of weights s"
    if "boundary_pick draw 0 (weighted_pool weights pool) = Some s"
    using boundary_pick_found[OF that assms(1)] by simp
  show "boundary_pick draw 0 (weighted_pool weights pool) = Some s"
    if share: "\<exists>pre post. pool = pre @ s # post \<and> pool_weight weights pre \<le> draw
      \<and> draw < pool_weight weights pre + weight_of weights s"
  proof -
    obtain pre post where pre: "pool = pre @ s # post" "0 + pool_weight weights pre \<le> draw"
        "draw < pool_weight weights pre + weight_of weights s" using share by auto
    then have "\<not> weight_of weights s \<le> 0" by linarith
    then show ?thesis
      using boundary_pick_skip[OF pre(2), of "s # post"] pre(1,3) by (simp add: weighted_pool_def)
  qed
qed

lemma weighted_head:
  assumes "0 \<le> draws n" "draws n < 1" "0 < pool_weight weights pool"
    and "weighted_ordering weights draws n pool = Some (ordered, m)"
  shows "boundary_pick (draws n * pool_weight weights pool) 0 (weighted_pool weights pool) = Some (hd ordered)"
    and "ordered \<noteq> []"
proof -
  let ?draw = "draws n * pool_weight weights pool"
  have bounds: "0 \<le> ?draw" "?draw < pool_weight weights pool" using assms(1-3) by simp_all
  then obtain s where s: "boundary_pick ?draw 0 (weighted_pool weights pool) = Some s"
    using boundary_pick_exists[of ?draw 0 weights pool] by auto
  obtain p where p: "pick ?draw (weighted_pool weights pool) = Some p"
    using pick_total[of weights pool ?draw] assms(3) by (metis not_le)
  then have "p = s" using s by (auto simp: pick_def split: option.splits)
  moreover have "pool \<noteq> []" "\<not> pool_weight weights pool \<le> 0" using assms(3) by auto
  ultimately have "hd ordered = s \<and> ordered \<noteq> []"
    using assms(4) p by (auto simp: weighted_ordering.simps[of weights draws n pool] split: if_split_asm)
  then show "boundary_pick ?draw 0 (weighted_pool weights pool) = Some (hd ordered)" "ordered \<noteq> []"
    using s by simp_all
qed

lemma share_of_distinct:
  assumes "distinct pool" "0 < pool_weight weights pool" "s \<in> set pool"
  shows "share_of weights pool s = weight_of weights s * 100 / pool_weight weights pool"
proof -
  have raw: "sum_list (map snd (map (\<lambda>s. (s, weight_of weights s)) (fromkeys pool))) = pool_weight weights pool"
    using assms(1) by (simp add: fromkeys_id pool_weight_def comp_def)
  have "map_of (map (\<lambda>s. (s, f s)) xs) s = (if s \<in> set xs then Some (f s) else None)" for f :: "string \<Rightarrow> rat" and xs
    by (induction xs) auto
  then show ?thesis
    using assms raw by (auto simp: share_of_def declared_shares_def Let_def fromkeys_id comp_def)
qed

lemma pool_shares:
  assumes "distinct pool" "0 < pool_weight weights pool" "set xs \<subseteq> set pool"
  shows "sum_list (map (share_of weights pool) xs) = pool_weight weights xs * 100 / pool_weight weights pool"
  using assms(3) by (induction xs) (auto simp: share_of_distinct[OF assms(1,2)] add_divide_distrib ring_distribs)

section \<open>The pool of a policy\<close>

lemma usable_candidates_set: "set (usable_candidates resolve allowlist xs) \<subseteq> set xs"
  by (auto simp: usable_candidates_def)

lemma usable_candidates_distinct: "distinct xs \<Longrightarrow> distinct (usable_candidates resolve allowlist xs)"
  by (simp add: usable_candidates_def)

lemma guarded_rank_models:
  assumes "guarded_rank kind draws st ctx = (o', st')"
  shows "ro_selectors o' = [] \<or> mset (ro_selectors o') = mset (rc_pool ctx)"
proof (cases kind)
  case Priority_Router
  then show ?thesis
    using assms
    by (cases "rc_pool ctx = []") (auto simp: guarded_rank_def rank_def priority_rank_def ordering_of_def decline_def)
next
  case Weighted_Split
  obtain ordered m where "weighted_ordering (rc_weights ctx) draws (rs_drawn st) (rc_pool ctx) = Some (ordered, m)"
      "mset ordered = mset (rc_pool ctx)"
    using weighted_ordering_shape by blast
  then show ?thesis
    using assms Weighted_Split
    by (auto simp: guarded_rank_def rank_def weighted_rank_def ordering_of_def decline_def weighted_decision_def
        split: if_split_asm)
qed

text \<open>No backend raises.\<close>

lemma rank_total: "rank kind draws n ctx \<noteq> None"
proof (cases kind)
  case Weighted_Split
  obtain ordered m where "weighted_ordering (rc_weights ctx) draws n (rc_pool ctx) = Some (ordered, m)"
      "mset ordered = mset (rc_pool ctx)"
    using weighted_ordering_shape by blast
  moreover from this(2) have "ordered = [] \<longleftrightarrow> rc_pool ctx = []" by (metis mset_zero_iff)
  ultimately show ?thesis using Weighted_Split by (simp add: rank_def weighted_rank_def)
qed (simp add: rank_def)

text \<open>A decision for a validated policy is made, and ranks at most what the caller may use.\<close>

lemma decide_ordering_sound:
  assumes valid: "validate_spec spec = Inr ()"
  shows "\<exists>res st'. decide_ordering resolve draws spec policy_name user_id allowlist signal workspace st = Some (res, st')
    \<and> (\<forall>o'. res = Some o' \<longrightarrow> ro_selectors o' = []
         \<or> mset (ro_selectors o') = mset (usable_candidates resolve allowlist (router_candidates spec)))"
proof -
  obtain d where d: "default_target spec = Some d" using valid_default[OF valid] by blast
  have ask: "\<exists>res st'. ask_router kind draws spec user_id pool st = Some (res, st')
      \<and> (\<forall>o'. res = Some o' \<longrightarrow> ro_selectors o' = [] \<or> mset (ro_selectors o') = mset pool)" for kind pool
  proof (cases "pool = []")
    case False
    let ?ctx = "\<lparr> rc_user_id = (case user_id of None \<Rightarrow> [] | Some u \<Rightarrow> u), rc_default_model = d, rc_pool = pool,
      rc_weights = finite_weights spec \<rparr>"
    obtain o' st' where g: "guarded_rank kind draws st ?ctx = (o', st')" by force
    show ?thesis using guarded_rank_models[OF g] False d g by (simp add: ask_router_def)
  qed (simp add: ask_router_def d empty_ordering_def)
  have missing: "\<exists>st'. missing_backend workspace policy_name name spec st = Some (None, st')" for name
    by (simp add: missing_backend_def d owes_missing_backend_warning_def)
  show ?thesis
  proof (cases "router_backend spec")
    case (Some name)
    show ?thesis
    proof (cases signal)
      case signal: (Some sg)
      show ?thesis
      proof (cases "sg_opted_out sg")
        case False
        then show ?thesis
          using ask missing[of name] Some signal
          by (cases "get_router_backend name") (auto simp: decide_ordering_def)
      qed (use Some signal in \<open>simp add: decide_ordering_def empty_ordering_def\<close>)
    qed (use Some in \<open>simp add: decide_ordering_def\<close>)
  qed (simp add: decide_ordering_def)
qed

lemma routed_is_ranking:
  assumes "entries_select spec c ranking es = Some selected" "is_routed selected"
  shows "map fst selected = ranking"
  using assms
proof (induction es arbitrary: selected)
  case Nil
  then show ?case by (auto simp: is_routed_def)
next
  case (Cons e es)
  have when_reason: "\<not> is_routed [(t, condition_reason w)]" for t w
    by (simp add: is_routed_def condition_reason_def)
  show ?case
    using Cons.prems Cons.IH when_reason
    by (auto simp: comp_def is_routed_def[of "[(_, ''default'')]"]
        split: option.splits if_split_asm bool.splits)
qed

definition ranking_of :: "router_ordering option \<Rightarrow> string list" where
  "ranking_of o' = (case o' of None \<Rightarrow> [] | Some r \<Rightarrow> ro_selectors r)"

section \<open>Properties\<close>

text \<open>
  \<^bold>\<open>C15\<close>: whatever is drawn, the weighted router orders its whole pool: it never fails, the
  ordering is a permutation of the pool, the candidates with a share come first, one number drawn for
  each, and the drained ones follow in the order they were declared.
\<close>

theorem weighted_ordering_is_total:
  "\<exists>drawn. weighted_ordering weights draws n pool = Some (drawn @ filter (drained weights) pool, n + length drawn)
     \<and> mset drawn = mset (filter (\<lambda>s. \<not> drained weights s) pool)"
proof -
  obtain ordered m drawn where run: "weighted_ordering weights draws n pool = Some (ordered, m)"
      "mset ordered = mset pool" "ordered = drawn @ filter (drained weights) pool" "m = n + length drawn"
    using weighted_ordering_shape by blast
  have "mset pool = mset (filter (drained weights) pool) + mset (filter (\<lambda>s. \<not> drained weights s) pool)"
    by simp
  then have "mset drawn = mset (filter (\<lambda>s. \<not> drained weights s) pool)"
    using run(2,3) by (metis add.commute add_left_cancel mset_append)
  then show ?thesis using run by blast
qed

text \<open>
  Traffic is split by the declared shares. Lay the shares of a pool one after another over
  the hundred; a candidate leads the plan exactly when a hundred times the number drawn falls in its
  own stretch, whose length is its share. The shares fill the hundred.
\<close>

theorem head_is_drawn_by_share:
  assumes "distinct pool" "0 < pool_weight weights pool" "0 \<le> draws n" "draws n < 1"
    and "weighted_ordering weights draws n pool = Some (ordered, m)"
  shows "hd ordered = s \<longleftrightarrow> (\<exists>pre post. pool = pre @ s # post
      \<and> sum_list (map (share_of weights pool) pre) \<le> 100 * draws n
      \<and> 100 * draws n < sum_list (map (share_of weights pool) (pre @ [s])))
    \<and> sum_list (map (share_of weights pool) pool) = 100"
proof -
  let ?W = "pool_weight weights pool"
  have full: "sum_list (map (share_of weights pool) pool) = 100"
    using pool_shares[OF assms(1,2) subset_refl] assms(2) by simp
  have scale: "x * 100 / ?W \<le> 100 * draws n \<longleftrightarrow> x \<le> draws n * ?W"
    "100 * draws n < x * 100 / ?W \<longleftrightarrow> draws n * ?W < x" for x
    using assms(2) by (auto simp: field_simps)
  have "hd ordered = s \<longleftrightarrow> boundary_pick (draws n * ?W) 0 (weighted_pool weights pool) = Some s"
    using weighted_head[OF assms(3,4,2,5)] by auto
  also have "\<dots> \<longleftrightarrow> (\<exists>pre post. pool = pre @ s # post \<and> pool_weight weights pre \<le> draws n * ?W
      \<and> draws n * ?W < pool_weight weights (pre @ [s]))"
    using boundary_pick_iff[of "draws n * ?W" weights pool s] assms(2-4) by simp
  also have "\<dots> \<longleftrightarrow> (\<exists>pre post. pool = pre @ s # post
      \<and> sum_list (map (share_of weights pool) pre) \<le> 100 * draws n
      \<and> 100 * draws n < sum_list (map (share_of weights pool) (pre @ [s])))"
  proof (intro ex_cong1 conj_cong refl)
    fix pre post assume pool: "pool = pre @ s # post"
    have sub: "set pre \<subseteq> set pool" "set (pre @ [s]) \<subseteq> set pool" using pool by auto
    show "pool_weight weights pre \<le> draws n * ?W \<longleftrightarrow> sum_list (map (share_of weights pool) pre) \<le> 100 * draws n"
      unfolding pool_shares[OF assms(1,2) sub(1)] by (simp only: scale)
    show "draws n * ?W < pool_weight weights (pre @ [s]) \<longleftrightarrow>
        100 * draws n < sum_list (map (share_of weights pool) (pre @ [s]))"
      unfolding pool_shares[OF assms(1,2) sub(2)] by (simp only: scale)
  qed
  finally show ?thesis using full by simp
qed

theorem head_is_drawn_by_share_witness:
  "share_of [(''a'', 7), (''b'', 3)] [''a'', ''b''] ''a'' = 70
   \<and> weighted_ordering [(''a'', 7), (''b'', 3)] (\<lambda>_. 7 / 10) 0 [''a'', ''b''] = Some ([''b'', ''a''], 2)
   \<and> sum_list (map (share_of [(''a'', 7), (''b'', 3)] [''a'', ''b'']) [''a'']) \<le> 100 * (7 / 10)"
proof -
  have run: "weighted_ordering [(''a'', 7), (''b'', 3)] (\<lambda>_. 7 / 10) 0 [''a'', ''b''] = Some ([''b'', ''a''], 2)"
    by (code_simp)
  have "0 < pool_weight [(''a'', 7), (''b'', 3)] [''a'', ''b'']" by code_simp
  from head_is_drawn_by_share[OF _ this _ _ run, of "''b''"]
  have "\<exists>pre post. [''a'', ''b''] = pre @ ''b'' # post
      \<and> sum_list (map (share_of [(''a'', 7), (''b'', 3)] [''a'', ''b'']) pre) \<le> 100 * (7 / 10)"
    by auto
  then have "sum_list (map (share_of [(''a'', 7), (''b'', 3)] [''a'', ''b'']) [''a'']) \<le> 100 * (7 / 10)"
    by (auto simp: Cons_eq_append_conv)
  moreover have "share_of [(''a'', 7), (''b'', 3)] [''a'', ''b''] ''a'' = 70" by code_simp
  ultimately show ?thesis using run by blast
qed

text \<open>
  A router is never the reason a request of a validated policy cannot be served, and never
  leads it past its access rules. The decision is made for every caller, signal and state, the
  selection it leads to is not empty, and when it is the router's it ranks exactly the candidates of
  the pool that resolve and that the caller's list allows.
\<close>

theorem routed_request_is_selected:
  assumes "validate_spec spec = Inr ()"
  shows "\<exists>answer st' selected.
    decide_ordering resolve draws spec policy_name user_id allowlist signal workspace st = Some (answer, st')
    \<and> select_head spec c (ranking_of answer) = Some selected \<and> selected \<noteq> []
    \<and> (is_routed selected \<longrightarrow> mset (map fst selected) = mset (filter (is_usable resolve allowlist) (router_candidates spec)))"
proof -
  obtain answer st' where decided:
      "decide_ordering resolve draws spec policy_name user_id allowlist signal workspace st = Some (answer, st')"
    and models: "\<And>o'. answer = Some o' \<Longrightarrow> ro_selectors o' = []
         \<or> mset (ro_selectors o') = mset (usable_candidates resolve allowlist (router_candidates spec))"
    using decide_ordering_sound[OF assms] by blast
  have ranking: "ranking_of answer = [] \<or> mset (ranking_of answer) = mset (usable_candidates resolve allowlist (router_candidates spec))"
    using models by (auto simp: ranking_of_def split: option.splits)
  have pool: "distinct (ranking_of answer)" "set (ranking_of answer) \<subseteq> set (router_candidates spec)"
    using ranking usable_candidates_distinct[OF router_candidates_pool(1)[OF assms], of resolve allowlist]
      usable_candidates_set[of resolve allowlist "router_candidates spec"]
    by (metis distinct.simps(1) mset_eq_imp_distinct_iff, metis empty_subsetI set_empty mset_eq_setD)
  obtain selected where sel: "select_head spec c (ranking_of answer) = Some selected" "selected \<noteq> []"
    by (rule valid_selection[OF assms pool])
  have "mset (map fst selected) = mset (filter (is_usable resolve allowlist) (router_candidates spec))"
    if "is_routed selected"
  proof -
    have "map fst selected = ranking_of answer"
      using routed_is_ranking[OF _ that] sel(1) by (simp add: select_head_def)
    then show ?thesis using ranking sel(2) by (auto simp: usable_candidates_def)
  qed
  then show ?thesis using decided sel by blast
qed

definition sample_resolve :: "string \<Rightarrow> string + unit resolved_provider" where
  "sample_resolve = ce_resolve sample_env"

theorem routed_request_is_selected_witness:
  "\<exists>answer st' selected.
     decide_ordering sample_resolve (\<lambda>_. 1 / 2) sample_policy ''p'' None (Some [''azure:*'']) (Some \<lparr> sg_conversation_id = None,
        sg_opted_out = False \<rparr>) None \<lparr> rs_warned = [], rs_drawn = 0 \<rparr> = Some (answer, st')
     \<and> select_head sample_policy sample_caller (ranking_of answer) = Some selected
     \<and> is_routed selected \<and> map fst selected = [''azure:big'']"
proof -
  let ?sg = "Some \<lparr> sg_conversation_id = None, sg_opted_out = False \<rparr> :: routing_signal option"
  let ?st = "\<lparr> rs_warned = [], rs_drawn = 0 \<rparr> :: router_state"
  have valid: "validate_spec sample_policy = Inr ()" by code_simp
  obtain answer st' selected where
    run: "decide_ordering sample_resolve (\<lambda>_. 1 / 2) sample_policy ''p'' None (Some [''azure:*'']) ?sg None ?st = Some (answer, st')"
      "select_head sample_policy sample_caller (ranking_of answer) = Some selected" "selected \<noteq> []"
    and routed: "is_routed selected \<Longrightarrow>
      mset (map fst selected) = mset (filter (is_usable sample_resolve (Some [''azure:*''])) (router_candidates sample_policy))"
    using routed_request_is_selected[OF valid, of sample_resolve "\<lambda>_. 1 / 2" "''p''" None "Some [''azure:*'']" ?sg None ?st
        sample_caller] by blast
  have "map_option (ranking_of \<circ> fst)
      (decide_ordering sample_resolve (\<lambda>_. 1 / 2) sample_policy ''p'' None (Some [''azure:*'']) ?sg None ?st) = Some [''azure:big'']"
    by code_simp
  then have "ranking_of answer = [''azure:big'']" using run(1) by simp
  moreover have "map_option is_routed (select_head sample_policy sample_caller [''azure:big'']) = Some True"
    by code_simp
  ultimately have chosen: "is_routed selected" using run(2) by simp
  have "filter (is_usable sample_resolve (Some [''azure:*''])) (router_candidates sample_policy) = [''azure:big'']"
    by code_simp
  then have "mset (map fst selected) = {#''azure:big''#}" using routed[OF chosen] by simp
  then have "map fst selected = [''azure:big'']" by (simp only: mset_single_iff)
  then show ?thesis
    using run(1,2) chosen by (intro exI[of _ answer] exI[of _ st'] exI[of _ selected] conjI)
qed

end
