(* ===== verification/Upstream_Errors.thy ===== *)
theory Upstream_Errors
  imports Prelude
begin

text \<open>
  What an upstream exception says: \<open>services/inference/_upstream_errors.py\<close>, the missing credential of
  \<open>services/provider_kwargs.py\<close> and the classification of \<open>api/routes/_pipeline.py\<close>.

  Exception objects refer to each other, possibly in a circle, so they live in a heap: a list whose
  positions are their identities. An object is what the code reads of it: the recognised classes it
  is an instance of, its attributes, and what it refers to. A string is its characters below 256.
  The parsing of the body of an exception and of a header as a number is done by the standard library;
  an object holds both texts and what they parse to. Redaction, which is a list of regular expressions, is the argument
  \<open>redact\<close> (\<open>redact_upstream_message\<close>).
\<close>

section \<open>Exceptions\<close>

datatype exc_class =
    Timeout_Class | Connect_Class | Network_Class | Sdk_Connection_Class | Remote_Protocol_Class
  | Http_Error_Class | Os_Error_Class | Empty_Completion_Class | Missing_Key_Class
  | Unsupported_Parameter_Class | Not_Implemented_Class | Invalid_Request_Class | Context_Length_Class
  | Any_Llm_Class | Incomplete_Stream_Class | Type_Error_Class | Attribute_Error_Class | Lookup_Error_Class
  | Tool_Iterations_Class

datatype json = J_Str string | J_Map "(string \<times> json) list" | J_Other

text \<open>A body kept as text comes with what \<open>json.loads\<close> makes of it, if it is JSON.\<close>

datatype exc_body = Text_Body string "json option" | Parsed_Body json

datatype py_float = Fin rat | Non_Finite

record exc_link =
  el_classes :: "exc_class list"
  el_class_name :: string
  el_text :: string
  el_message :: "string option"
  el_status_code :: "int option"
  el_code :: "int option"
  el_response_status :: "int option"
  el_metadata_status :: "int option"
  el_aws_code :: "string option"
  el_aws_message :: "string option"
  el_retry_after :: "py_float option list"
  el_body :: "exc_body option"
  el_provider_name :: string
  el_env_var_name :: string
  el_parameter_name :: "string option"
  el_original :: "nat option"
  el_cause :: "nat option"
  el_context :: "nat option"

record upstream_exc =
  ue_heap :: "exc_link list"
  ue_root :: nat

definition is_a :: "exc_class \<Rightarrow> exc_link \<Rightarrow> bool" where
  "is_a c link \<longleftrightarrow> c \<in> set (el_classes link)"

section \<open>Chains\<close>

definition unseen :: "exc_link list \<Rightarrow> nat list \<Rightarrow> nat" where
  "unseen heap seen = card ({..<length heap} - set seen)"

lemma unseen_decreases: "i < length heap \<Longrightarrow> i \<notin> set seen \<Longrightarrow> unseen heap (i # seen) < unseen heap seen"
  unfolding unseen_def by (rule psubset_card_mono) auto

text \<open>\<open>upstream_exception_chain\<close>: each object of the \<open>original_exception\<close> chain once.\<close>

function chain_from :: "exc_link list \<Rightarrow> nat list \<Rightarrow> nat option \<Rightarrow> exc_link list" where
  "chain_from heap seen None = []"
| "chain_from heap seen (Some i) =
     (if i \<in> set seen \<or> length heap \<le> i then []
      else heap ! i # chain_from heap (i # seen) (el_original (heap ! i)))"
  by pat_completeness auto
termination
  by (relation "measure (\<lambda>(heap, seen, i). unseen heap seen)") (auto intro: unseen_decreases)

definition upstream_exception_chain :: "upstream_exc \<Rightarrow> exc_link list" where
  "upstream_exception_chain e = chain_from (ue_heap e) [] (Some (ue_root e))"

text \<open>\<open>_causal_chain\<close>: \<open>pending\<close> is the stack, its head the object popped next.\<close>

function causal_from :: "exc_link list \<Rightarrow> nat list \<Rightarrow> nat list \<Rightarrow> exc_link list" where
  "causal_from heap seen [] = []"
| "causal_from heap seen (i # pending) =
     (if i \<in> set seen \<or> length heap \<le> i then causal_from heap seen pending
      else heap ! i # causal_from heap (i # seen)
        (rev (opt_list (el_original (heap ! i)) @ opt_list (el_cause (heap ! i)) @ opt_list (el_context (heap ! i)))
         @ pending))"
  by pat_completeness auto
termination
  by (relation "measures [\<lambda>(heap, seen, pending). unseen heap seen, \<lambda>(heap, seen, pending). length pending]")
    (auto intro: unseen_decreases)

definition causal_chain :: "upstream_exc \<Rightarrow> exc_link list" where
  "causal_chain e = causal_from (ue_heap e) [] [ue_root e]"

definition any_link :: "(exc_link \<Rightarrow> bool) \<Rightarrow> upstream_exc \<Rightarrow> bool" where
  "any_link p e = list_ex p (upstream_exception_chain e)"

section \<open>Shape\<close>

datatype error_kind = Timed_Out | Conn_Err

definition error_status :: "int option \<Rightarrow> int option" where
  "error_status v = (case v of None \<Rightarrow> None | Some n \<Rightarrow> if 400 \<le> n \<and> n \<le> 599 then Some n else None)"

definition error_status_code :: "exc_link \<Rightarrow> int option" where
  "error_status_code link =
     first_some error_status [el_status_code link, el_code link, el_response_status link, el_metadata_status link]"

definition link_shape :: "exc_link \<Rightarrow> (error_kind option \<times> int option) option" where
  "link_shape link =
     (if is_a Timeout_Class link then Some (Some Timed_Out, None)
      else if is_a Network_Class link \<or> is_a Sdk_Connection_Class link then Some (Some Conn_Err, None)
      else case error_status_code link of
        Some n \<Rightarrow> Some (None, Some n)
      | None \<Rightarrow>
          if ends_with (el_class_name link) ''TimeoutError'' then Some (Some Timed_Out, None)
          else if ends_with (el_class_name link) ''ConnectionError'' then Some (Some Conn_Err, None)
          else None)"

definition upstream_exception_shape :: "upstream_exc \<Rightarrow> error_kind option \<times> int option" where
  "upstream_exception_shape e =
     (case first_some link_shape (upstream_exception_chain e) of None \<Rightarrow> (None, None) | Some s \<Rightarrow> s)"

definition is_empty_completion :: "upstream_exc \<Rightarrow> bool" where
  "is_empty_completion e = any_link (is_a Empty_Completion_Class) e"

section \<open>Missing credentials\<close>

record missing_key =
  mk_provider :: string
  mk_env_var :: "string option"
  mk_alias :: "string option"

definition missing_key_status :: int where
  "missing_key_status = 424"

definition missing_key_code :: string where
  "missing_key_code = ''provider_not_configured''"

definition missing_from_error :: "exc_link \<Rightarrow> missing_key" where
  "missing_from_error link = \<lparr>
     mk_provider = (if el_provider_name link = [] then ''unknown'' else el_provider_name link),
     mk_env_var = (if el_env_var_name link = [] then None else Some (el_env_var_name link)), mk_alias = None \<rparr>"

definition missing_credential :: "upstream_exc \<Rightarrow> missing_key option" where
  "missing_credential e = first_some (\<lambda>link. if is_a Missing_Key_Class link then Some (missing_from_error link) else None)
     (upstream_exception_chain e)"

definition configure_a_credential :: string where
  "configure_a_credential = ''An operator can add the provider as a hosted provider, or the organization can ''
     @ ''add its own provider key.''"

definition missing_detail :: "missing_key \<Rightarrow> string" where
  "missing_detail m = ''No credential is configured for ''
     @ (case mk_alias m of Some a \<Rightarrow> ''the provider behind model '' @ quoted a
        | None \<Rightarrow> ''provider '' @ quoted (mk_provider m))
     @ ''. '' @ configure_a_credential"

definition no_candidate_configured_detail :: "missing_key list \<Rightarrow> string" where
  "no_candidate_configured_detail missing =
     (let names = join_with '', '' (sort (fromkeys (map mk_provider missing)))
      in ''No credential is configured for any provider this request could use (''
         @ show_int (int (length missing)) @ '' attempts: '' @ (if names = [] then ''unknown'' else names) @ ''). ''
         @ configure_a_credential)"

section \<open>Messages\<close>

definition link_texts :: "exc_link \<Rightarrow> string list" where
  "link_texts link = opt_list (el_message link) @ [el_text link]"

definition upstream_error_message :: "upstream_exc \<Rightarrow> string" where
  "upstream_error_message e = join_with '' ''
     (fromkeys (filter (\<lambda>s. s \<noteq> []) (map py_strip (concat (map link_texts (upstream_exception_chain e))))))"

definition parsed_body :: "exc_link \<Rightarrow> (string \<times> json) list option" where
  "parsed_body link = (case el_body link of
       Some (Parsed_Body (J_Map m)) \<Rightarrow> Some m
     | Some (Text_Body s (Some (J_Map m))) \<Rightarrow> Some m
     | _ \<Rightarrow> None)"

fun json_get :: "json option \<Rightarrow> string \<Rightarrow> json option" where
  "json_get (Some (J_Map m)) name = map_of m name"
| "json_get _ name = None"

text \<open>A value that is a string with something in it besides spaces, or that is not empty.\<close>

fun json_said :: "json option \<Rightarrow> string option" where
  "json_said (Some (J_Str s)) = (if py_strip s = [] then None else Some (py_strip s))"
| "json_said _ = None"

fun json_text :: "json option \<Rightarrow> string option" where
  "json_text (Some (J_Str s)) = (if s = [] then None else Some s)"
| "json_text _ = None"

definition body_said :: "exc_link \<Rightarrow> string option" where
  "body_said link = (case parsed_body link of
       None \<Rightarrow> None
     | Some m \<Rightarrow>
         first_some json_said [json_get (map_of m ''error'') ''message'', map_of m ''message'', map_of m ''error''])"

definition upstream_body_message :: "exc_link \<Rightarrow> string option" where
  "upstream_body_message link = (case el_body link of
       Some (Text_Body s p) \<Rightarrow>
         if is_prefix ''{'' (py_strip s) then body_said link
         else if py_strip s \<noteq> [] \<and> \<not> is_prefix ''<'' (py_strip s) then Some (py_strip s)
         else None
     | _ \<Rightarrow> body_said link)"

definition upstream_body_messages :: "upstream_exc \<Rightarrow> string list option" where
  "upstream_body_messages e =
     (let bodied = filter (\<lambda>link. el_body link \<noteq> None) (upstream_exception_chain e)
      in if bodied = [] then None else Some (concat (map (\<lambda>link. opt_list (upstream_body_message link)) bodied)))"

definition body_error_field :: "(string \<times> json) list \<Rightarrow> string \<Rightarrow> string option" where
  "body_error_field m name = first_some json_text [json_get (map_of m ''error'') name, map_of m name]"

text \<open>\<open>_ERROR_TAG\<close>: the \<open>$\<close> of the pattern also matches before a newline that ends the string.\<close>

definition tag_char :: "char \<Rightarrow> bool" where
  "tag_char c = (let n = of_char c :: nat in (48 \<le> n \<and> n \<le> 57) \<or> (65 \<le> n \<and> n \<le> 90) \<or> (97 \<le> n \<and> n \<le> 122)
     \<or> c \<in> {CHR ''_'', CHR ''.'', CHR '':'', CHR ''-''})"

definition error_tag_matches :: "string \<Rightarrow> bool" where
  "error_tag_matches s =
     (let body = (if s \<noteq> [] \<and> last s = CHR 0x0A then butlast s else s)
      in 1 \<le> length body \<and> length body \<le> 64 \<and> list_all tag_char body)"

definition link_error_tag :: "exc_link \<Rightarrow> string option" where
  "link_error_tag link = (case parsed_body link of
       None \<Rightarrow> None
     | Some m \<Rightarrow> first_some (\<lambda>name. case body_error_field m name of
           None \<Rightarrow> None
         | Some v \<Rightarrow> if error_tag_matches v then Some v else None) [''tag'', ''code''])"

definition upstream_error_tag :: "upstream_exc \<Rightarrow> string option" where
  "upstream_error_tag e = first_some link_error_tag (upstream_exception_chain e)"

section \<open>Whose fault\<close>

definition credential_message_probes :: "string list" where
  "credential_message_probes = [''api key'', ''api_key'', ''project'', ''organization'', ''scope'']"

definition probe_hits :: "string list \<Rightarrow> string \<Rightarrow> bool" where
  "probe_hits probes text \<longleftrightarrow> list_ex (\<lambda>p. contains_substring p text) probes"

definition link_request_fault :: "exc_link \<Rightarrow> bool option" where
  "link_request_fault link = (case parsed_body link of
       None \<Rightarrow> None
     | Some m \<Rightarrow>
         if body_error_field m ''type'' \<noteq> Some ''invalid_request_error'' then None
         else let said = (\<lambda>name. case body_error_field m name of None \<Rightarrow> [] | Some v \<Rightarrow> ascii_lower v)
              in Some (\<not> (probe_hits credential_message_probes (said ''message'')
                         \<or> probe_hits credential_message_probes (said ''code''))))"

definition is_upstream_request_fault :: "upstream_exc \<Rightarrow> bool" where
  "is_upstream_request_fault e \<longleftrightarrow> snd (upstream_exception_shape e) = Some 403
     \<and> first_some link_request_fault (upstream_exception_chain e) = Some True"

definition is_provider_credential_rejection :: "upstream_exc \<Rightarrow> bool" where
  "is_provider_credential_rejection e \<longleftrightarrow> missing_credential e = None
     \<and> (case upstream_exception_shape e of (kind, st) \<Rightarrow>
          kind \<noteq> Some Timed_Out \<and> (st = Some 401 \<or> (st = Some 403 \<and> \<not> is_upstream_request_fault e)))"

definition billing_message_probes :: "string list" where
  "billing_message_probes = [''credit balance is too low'', ''purchase credits'', ''plans & billing'',
     ''billing hard limit'', ''insufficient balance'', ''insufficient_quota'', ''exceeded your current quota'',
     ''insufficient credits'']"

definition is_provider_billing_error :: "upstream_exc \<Rightarrow> bool" where
  "is_provider_billing_error e = (case snd (upstream_exception_shape e) of
       None \<Rightarrow> False
     | Some n \<Rightarrow> n = 402 \<or> (n \<in> {400, 422}
         \<and> probe_hits billing_message_probes (ascii_lower (upstream_error_message e))))"

definition max_retry_after_seconds :: int where
  "max_retry_after_seconds = 24 * 60 * 60"

definition bounded_retry_after :: "py_float option \<Rightarrow> string option" where
  "bounded_retry_after raw = (case raw of
       Some (Fin v) \<Rightarrow> if v < 0 then None else Some (show_int (min \<lceil>v\<rceil> max_retry_after_seconds))
     | _ \<Rightarrow> None)"

definition upstream_retry_after :: "upstream_exc \<Rightarrow> string option" where
  "upstream_retry_after e =
     first_some (\<lambda>link. first_some bounded_retry_after (el_retry_after link)) (upstream_exception_chain e)"

text \<open>The two patterns of \<open>_UNAVAILABLE_MODEL_REFUSALS\<close>.\<close>

definition refuses_model :: "string \<Rightarrow> bool" where
  "refuses_model message \<longleftrightarrow> is_prefix ''unable to access non-serverless model '' message
     \<or> (let opening = ''the model '' @ [CHR 0x60]; rest = drop (length opening) message
        in is_prefix opening message \<and> takeWhile (\<lambda>c. c \<noteq> CHR 0x60) rest \<noteq> []
           \<and> is_prefix (CHR 0x60 # '' has been decommissioned'') (dropWhile (\<lambda>c. c \<noteq> CHR 0x60) rest))"

definition is_model_unavailable_error :: "upstream_exc \<Rightarrow> bool" where
  "is_model_unavailable_error e \<longleftrightarrow> snd (upstream_exception_shape e) \<in> {Some 400, Some 404}
     \<and> list_ex (\<lambda>m. refuses_model (ascii_lower (py_strip m)))
         (case upstream_body_messages e of
            Some ms \<Rightarrow> ms
          | None \<Rightarrow> map (\<lambda>link. case el_message link of
                None \<Rightarrow> el_text link
              | Some m \<Rightarrow> if m = [] then el_text link else m) (upstream_exception_chain e))"

text \<open>\<open>upstream_exception_shape\<close> of a link of the causal chain reads that link's own chain.\<close>

definition shape_at :: "exc_link list \<Rightarrow> exc_link \<Rightarrow> error_kind option \<times> int option" where
  "shape_at heap link =
     (case first_some link_shape (link # chain_from heap [] (el_original link)) of None \<Rightarrow> (None, None) | Some s \<Rightarrow> s)"

definition carries_upstream_signal :: "exc_link list \<Rightarrow> exc_link \<Rightarrow> bool" where
  "carries_upstream_signal heap link \<longleftrightarrow> is_a Incomplete_Stream_Class link \<or> is_a Os_Error_Class link
     \<or> is_a Http_Error_Class link \<or> shape_at heap link \<noteq> (None, None)"

definition is_local_fault :: "exc_link \<Rightarrow> bool" where
  "is_local_fault link \<longleftrightarrow> is_a Lookup_Error_Class link \<or> is_a Attribute_Error_Class link \<or> is_a Type_Error_Class link"

definition is_retry_futile :: "upstream_exc \<Rightarrow> bool" where
  "is_retry_futile e \<longleftrightarrow> is_provider_billing_error e
     \<or> (\<not> list_ex (carries_upstream_signal (ue_heap e)) (causal_chain e) \<and> list_ex is_local_fault (causal_chain e))"

definition is_upstream_connect_failure :: "upstream_exc \<Rightarrow> bool" where
  "is_upstream_connect_failure e = list_ex (is_a Connect_Class) (causal_chain e)"

definition cuts_stream :: "exc_link \<Rightarrow> bool" where
  "cuts_stream link \<longleftrightarrow> is_a Incomplete_Stream_Class link \<or> is_a Remote_Protocol_Class link \<or> is_a Network_Class link"

definition is_upstream_stream_interrupted :: "upstream_exc \<Rightarrow> bool" where
  "is_upstream_stream_interrupted e \<longleftrightarrow> \<not> is_upstream_connect_failure e
     \<and> (fst (upstream_exception_shape e) = Some Conn_Err \<or> list_ex cuts_stream (causal_chain e))"

end
