(* ===== verification/Provider_Answers.thy ===== *)
theory Provider_Answers
  imports Upstream_Errors
begin

text \<open>
  What a caller is told of a provider's failure: \<open>classify_provider_error\<close>, its headers and its
  fallback (\<open>api/routes/_pipeline.py\<close>), the answer for one failure and the answer for several that
  agree (\<open>api/routes/_attempts.py\<close>).

  \<open>redact\<close> is \<open>redact_upstream_message\<close>; \<open>params\<close> are the names a request body can carry
  (\<open>_FORWARDED_PARAMS\<close>, which is derived from another package).
\<close>

section \<open>Answers\<close>

record http_exc =
  he_status :: int
  he_detail :: string
  he_headers :: "(string \<times> string) list option"

definition error_code_header :: string where
  "error_code_header = ''Otari-Error-Code''"

definition error_headers :: "string \<Rightarrow> (string \<times> string) list" where
  "error_headers code = [(error_code_header, code)]"

definition error_code_of :: "(string \<times> string) list option \<Rightarrow> string option" where
  "error_code_of headers = (case headers of None \<Rightarrow> None | Some hs \<Rightarrow> map_of hs error_code_header)"

definition with_retry_hint ::
  "upstream_exc \<Rightarrow> int \<Rightarrow> (string \<times> string) list option \<Rightarrow> (string \<times> string) list option" where
  "with_retry_hint e st headers =
     (if st < 500 \<or> \<not> is_retry_futile e then headers
      else Some (filter (\<lambda>(k, v). k \<noteq> ''x-should-retry'') (case headers of None \<Rightarrow> [] | Some hs \<Rightarrow> hs)
                 @ [(''x-should-retry'', ''false'')]))"

section \<open>Details\<close>

definition provider_error_detail :: string where
  "provider_error_detail = ''LLM provider error''"
definition provider_timeout_detail :: string where
  "provider_timeout_detail = ''LLM provider timeout''"
definition provider_stream_interrupted_detail :: string where
  "provider_stream_interrupted_detail = ''The provider'' @ [CHR 0x27] @ ''s stream ended before it finished''"
definition provider_bad_request_detail :: string where
  "provider_bad_request_detail =
     ''The provider rejected the request as invalid (check the model name and parameters)''"
definition provider_model_not_found_detail :: string where
  "provider_model_not_found_detail = ''The requested model was not found on the provider''"
definition provider_credentials_detail :: string where
  "provider_credentials_detail = ''The provider rejected the gateway'' @ [CHR 0x27] @ ''s credentials''"
definition provider_billing_detail :: string where
  "provider_billing_detail = ''The upstream provider account is out of credit or over its billing limit. ''
     @ ''Top up the provider account, or route this model to a provider that has credit.''"
definition provider_account_quota_detail :: string where
  "provider_account_quota_detail = ''The upstream provider account is over one of its service quotas. ''
     @ ''Raise the quota, or route this model to another provider.''"
definition provider_rate_limited_detail :: string where
  "provider_rate_limited_detail = ''The provider rate-limited this request''"
definition empty_completion_detail :: string where
  "empty_completion_detail = ''The provider returned a completion with no choices''"

definition redacted_upstream_detail :: "(string \<Rightarrow> string) \<Rightarrow> string \<Rightarrow> string \<Rightarrow> string" where
  "redacted_upstream_detail redact message fallback =
     (if list_ex py_alpha (remove_all ''[redacted]'' (redact message)) then redact message else fallback)"

definition explains :: "(string \<Rightarrow> string) \<Rightarrow> string \<Rightarrow> string option" where
  "explains redact message =
     (let detail = redacted_upstream_detail redact message [] in if detail = [] then None else Some detail)"

text \<open>A message an SDK put on one exception, and the part of one that is not a wrapper's.\<close>

definition carried_message :: "exc_link \<Rightarrow> string option" where
  "carried_message link = (if el_message link \<noteq> None then el_message link else el_aws_message link)"

definition wrapper_message :: "exc_link list \<Rightarrow> string option" where
  "wrapper_message links = first_some (\<lambda>link. if el_original link = None then None
     else case carried_message link of None \<Rightarrow> None | Some m \<Rightarrow> if m = [] then None else Some m) links"

definition innermost_detail :: "(string \<Rightarrow> string) \<Rightarrow> exc_link list \<Rightarrow> string option" where
  "innermost_detail redact links = first_some (\<lambda>link. if el_original link \<noteq> None then None
     else case carried_message link of None \<Rightarrow> None | Some m \<Rightarrow> explains redact m) links"

definition upstream_message_detail :: "(string \<Rightarrow> string) \<Rightarrow> upstream_exc \<Rightarrow> string \<Rightarrow> string" where
  "upstream_message_detail redact e fallback =
     (let links = upstream_exception_chain e
      in case upstream_body_messages e of
           Some messages \<Rightarrow> (case first_some (explains redact) messages of None \<Rightarrow> fallback | Some d \<Rightarrow> d)
         | None \<Rightarrow>
             (case innermost_detail redact links of
                Some d \<Rightarrow> d
              | None \<Rightarrow>
                  (case (case wrapper_message links of None \<Rightarrow> None | Some m \<Rightarrow> explains redact m) of
                     Some d \<Rightarrow> d
                   | None \<Rightarrow> redacted_upstream_detail redact (upstream_error_message e) fallback)))"

section \<open>Classification\<close>

definition is_unsupported_feature_error :: "upstream_exc \<Rightarrow> bool" where
  "is_unsupported_feature_error e =
     any_link (\<lambda>link. is_a Not_Implemented_Class link \<or> is_a Unsupported_Parameter_Class link) e"

definition first_unsupported :: "upstream_exc \<Rightarrow> exc_link option" where
  "first_unsupported e = find (is_a Unsupported_Parameter_Class) (upstream_exception_chain e)"

definition unsupported_parameter_name :: "upstream_exc \<Rightarrow> string option" where
  "unsupported_parameter_name e = (case first_unsupported e of None \<Rightarrow> None | Some link \<Rightarrow> el_parameter_name link)"

definition unsupported_feature_detail :: "(string \<Rightarrow> string) \<Rightarrow> upstream_exc \<Rightarrow> string" where
  "unsupported_feature_detail redact e = (case first_unsupported e of
       Some link \<Rightarrow> redacted_upstream_detail redact (case el_message link of None \<Rightarrow> [] | Some m \<Rightarrow> m)
                      provider_bad_request_detail
     | None \<Rightarrow> upstream_message_detail redact e provider_bad_request_detail)"

text \<open>\<open>_UNEXPECTED_KWARG\<close>: the leftmost match.\<close>

definition kwarg_opening :: string where
  "kwarg_opening = ''unexpected keyword argument '' @ [CHR 0x27]"

definition kwarg_at :: "string \<Rightarrow> string option" where
  "kwarg_at s =
     (let rest = drop (length kwarg_opening) s; name = takeWhile (\<lambda>c. c \<noteq> CHR 0x27) rest
      in if is_prefix kwarg_opening s \<and> name \<noteq> [] \<and> length name < length rest then Some name else None)"

fun unexpected_kwarg :: "string \<Rightarrow> string option" where
  "unexpected_kwarg [] = None"
| "unexpected_kwarg (c # cs) = (case kwarg_at (c # cs) of Some n \<Rightarrow> Some n | None \<Rightarrow> unexpected_kwarg cs)"

definition link_rejected_param :: "string list \<Rightarrow> exc_link \<Rightarrow> string option" where
  "link_rejected_param params link =
     (if \<not> is_a Type_Error_Class link \<or> contains_substring ''__init__'' (el_text link) then None
      else case unexpected_kwarg (el_text link) of
        None \<Rightarrow> None
      | Some n \<Rightarrow> if n \<in> set params then Some n else None)"

definition rejected_param :: "string list \<Rightarrow> upstream_exc \<Rightarrow> string option" where
  "rejected_param params e = first_some (link_rejected_param params) (upstream_exception_chain e)"

definition provider_rejected_param_detail :: "string \<Rightarrow> string" where
  "provider_rejected_param_detail param =
     ''The provider serving this model does not accept the '' @ quoted param @ '' parameter''"

definition unsupported_image_detail :: "string option \<Rightarrow> string" where
  "unsupported_image_detail model =
     (case model of
        Some m \<Rightarrow> if m \<noteq> [] then ''The model '' @ quoted m else ''The model serving this request''
      | None \<Rightarrow> ''The model serving this request'')
     @ '' does not accept image content. Remove the image parts, or send the request to a model that accepts images.''"

definition image_rejection_probes :: "string list" where
  "image_rejection_probes = [''image content is not supported'', ''unsupported chatmessagecontent type: image_url'']"

definition is_image_input_rejection :: "upstream_exc \<Rightarrow> bool" where
  "is_image_input_rejection e \<longleftrightarrow> snd (upstream_exception_shape e) \<in> {None, Some 400, Some 422}
     \<and> probe_hits image_rejection_probes (ascii_lower (upstream_error_message e))"

definition is_account_quota_error :: "upstream_exc \<Rightarrow> bool" where
  "is_account_quota_error e = any_link (\<lambda>link. el_aws_code link = Some ''ServiceQuotaExceededException'') e"

definition is_context_length_error :: "upstream_exc \<Rightarrow> bool" where
  "is_context_length_error e = any_link (is_a Context_Length_Class) e"

type_synonym provider_answer = "int \<times> string"

text \<open>The part of \<open>classify_provider_error\<close> for a failure with a status.\<close>

definition classify_status :: "(string \<Rightarrow> string) \<Rightarrow> upstream_exc \<Rightarrow> int \<Rightarrow> provider_answer option" where
  "classify_status redact e st =
     (if is_provider_billing_error e then Some (502, provider_billing_detail)
      else if is_account_quota_error e then Some (502, provider_account_quota_detail)
      else if st \<in> {400, 422} \<or> is_upstream_request_fault e
      then Some (400, upstream_message_detail redact e provider_bad_request_detail)
      else if st = 404 then Some (404, upstream_message_detail redact e provider_model_not_found_detail)
      else if is_provider_credential_rejection e then Some (424, provider_credentials_detail)
      else if st = 429 then Some (429, upstream_message_detail redact e provider_rate_limited_detail)
      else None)"

definition classify_request_shape ::
  "(string \<Rightarrow> string) \<Rightarrow> string list \<Rightarrow> string option \<Rightarrow> upstream_exc \<Rightarrow> provider_answer option" where
  "classify_request_shape redact params model e =
     (if is_unsupported_feature_error e then Some (400, unsupported_feature_detail redact e)
      else case rejected_param params e of
        Some p \<Rightarrow> Some (400, provider_rejected_param_detail p)
      | None \<Rightarrow> if is_image_input_rejection e then Some (400, unsupported_image_detail model) else None)"

definition classify_provider_error ::
  "(string \<Rightarrow> string) \<Rightarrow> string list \<Rightarrow> string option \<Rightarrow> upstream_exc \<Rightarrow> provider_answer option" where
  "classify_provider_error redact params model e =
     (case missing_credential e of
        Some m \<Rightarrow> Some (missing_key_status, missing_detail m)
      | None \<Rightarrow>
          if is_empty_completion e then Some (502, empty_completion_detail)
          else if fst (upstream_exception_shape e) = Some Timed_Out then Some (504, provider_timeout_detail)
          else case classify_request_shape redact params model e of
            Some a \<Rightarrow> Some a
          | None \<Rightarrow>
              (case snd (upstream_exception_shape e) of
                 None \<Rightarrow>
                   if any_link (is_a Invalid_Request_Class) e
                   then Some (400, upstream_message_detail redact e provider_bad_request_detail) else None
               | Some st \<Rightarrow> classify_status redact e st))"

definition provider_error_headers :: "upstream_exc \<Rightarrow> int \<Rightarrow> (string \<times> string) list option" where
  "provider_error_headers e st =
     (if st = 400 \<and> is_context_length_error e then Some (error_headers ''context_length_exceeded'')
      else if st = 400 \<and> is_image_input_rejection e then Some (error_headers ''unsupported_content'')
      else if st = 400 \<and> unsupported_parameter_name e \<noteq> None then Some (error_headers ''unsupported_parameter'')
      else if missing_credential e \<noteq> None \<and> st = missing_key_status then Some (error_headers missing_key_code)
      else if st = 424 \<and> is_provider_credential_rejection e then Some (error_headers ''provider_credential_rejected'')
      else if st = 502 \<and> is_empty_completion e then Some (error_headers ''provider_error'')
      else if st \<noteq> 429 then None
      else Some (error_headers ''upstream_rate_limited''
             @ map (Pair ''Retry-After'') (opt_list (upstream_retry_after e))))"

text \<open>\<open>_provider_failure_cause\<close> and what is built on it.\<close>

definition root_is :: "exc_class \<Rightarrow> upstream_exc \<Rightarrow> bool" where
  "root_is c e = (case upstream_exception_chain e of [] \<Rightarrow> False | link # _ \<Rightarrow> is_a c link)"

definition provider_failure_cause :: "upstream_exc \<Rightarrow> string option" where
  "provider_failure_cause e =
     (if root_is Incomplete_Stream_Class e then Some provider_stream_interrupted_detail
      else case upstream_exception_shape e of
        (_, Some st) \<Rightarrow> Some (''The provider failed the request with HTTP '' @ show_int st)
      | (Some Conn_Err, None) \<Rightarrow>
          Some (if is_upstream_connect_failure e then ''The gateway could not connect to the provider''
                else ''The provider closed the connection before answering'')
      | (Some Timed_Out, None) \<Rightarrow> Some ''The provider did not answer in time''
      | (None, None) \<Rightarrow> None)"

definition provider_failure_detail :: "upstream_exc \<Rightarrow> string \<Rightarrow> string" where
  "provider_failure_detail e fallback =
     (case provider_failure_cause e of None \<Rightarrow> fallback | Some c \<Rightarrow> if c = [] then fallback else c)"

definition is_upstream_failure :: "upstream_exc \<Rightarrow> bool" where
  "is_upstream_failure e \<longleftrightarrow> root_is Incomplete_Stream_Class e \<or> upstream_exception_shape e \<noteq> (None, None)
     \<or> any_link (is_a Any_Llm_Class) e"

definition provider_refusal_code :: "(string \<Rightarrow> string) \<Rightarrow> string list \<Rightarrow> upstream_exc \<Rightarrow> string option" where
  "provider_refusal_code redact params e = (case classify_provider_error redact params None e of
       None \<Rightarrow> None
     | Some (st, _) \<Rightarrow> error_code_of (provider_error_headers e st))"

definition stream_error_code :: "(string \<Rightarrow> string) \<Rightarrow> string list \<Rightarrow> upstream_exc \<Rightarrow> string option" where
  "stream_error_code redact params e = (case provider_refusal_code redact params e of
       Some c \<Rightarrow> Some c
     | None \<Rightarrow>
         if is_upstream_stream_interrupted e then Some ''provider_stream_interrupted''
         else if is_upstream_failure e \<or> classify_provider_error redact params None e \<noteq> None
         then Some ''provider_error'' else None)"

definition stream_error_message :: "(string \<Rightarrow> string) \<Rightarrow> string list \<Rightarrow> upstream_exc \<Rightarrow> string option" where
  "stream_error_message redact params e = (case classify_provider_error redact params None e of
       Some (_, detail) \<Rightarrow> Some detail
     | None \<Rightarrow> if is_upstream_stream_interrupted e then Some provider_stream_interrupted_detail
               else provider_failure_cause e)"

definition failure_status_code :: "(string \<Rightarrow> string) \<Rightarrow> string list \<Rightarrow> upstream_exc \<Rightarrow> int" where
  "failure_status_code redact params e =
     (if root_is Tool_Iterations_Class e then 422
      else case missing_credential e of
        Some _ \<Rightarrow> missing_key_status
      | None \<Rightarrow>
          (case snd (upstream_exception_shape e) of
             Some st \<Rightarrow> st
           | None \<Rightarrow> (case classify_provider_error redact params None e of None \<Rightarrow> 502 | Some (st, _) \<Rightarrow> st)))"

section \<open>The answer for one failure\<close>

definition provider_failure_http_exc ::
  "(string \<Rightarrow> string) \<Rightarrow> string list \<Rightarrow> string \<Rightarrow> upstream_exc \<Rightarrow> http_exc" where
  "provider_failure_http_exc redact params fallback e =
     (case classify_provider_error redact params None e of
        Some (st, detail) \<Rightarrow> \<lparr> he_status = st, he_detail = detail,
          he_headers = with_retry_hint e st (provider_error_headers e st) \<rparr>
      | None \<Rightarrow> \<lparr> he_status = 502, he_detail = provider_failure_detail e fallback,
          he_headers = with_retry_hint e 502 None \<rparr>)"

text \<open>\<open>provider_failure\<close>, whose tag the response carries in a header.\<close>

record web_tool_failure =
  wf_provider :: "string option"
  wf_status :: "int option"
  wf_tag :: string
  wf_retryable :: bool

definition web_tool_failure_of :: "string option \<Rightarrow> int option \<Rightarrow> string \<Rightarrow> web_tool_failure" where
  "web_tool_failure_of provider st tag =
     (let kept = (case st of None \<Rightarrow> None | Some n \<Rightarrow> if n \<ge> 400 then Some n else None)
      in \<lparr> wf_provider = provider, wf_status = kept, wf_tag = tag,
           wf_retryable = (tag = ''timeout'' \<or> kept = Some 429 \<or> (case kept of None \<Rightarrow> False | Some n \<Rightarrow> n \<ge> 500)) \<rparr>)"

definition failure_as_headers :: "web_tool_failure \<Rightarrow> (string \<times> string) list" where
  "failure_as_headers f = [(''Otari-Error-Tag'', wf_tag f),
     (''Otari-Error-Retryable'', if wf_retryable f then ''true'' else ''false'')]
     @ map (Pair ''Otari-Error-Provider'') (opt_list (wf_provider f))
     @ map (\<lambda>n. (''Otari-Error-Status'', show_int n)) (opt_list (wf_status f))"

definition provider_failure :: "upstream_exc \<Rightarrow> string option \<Rightarrow> web_tool_failure option" where
  "provider_failure e provider = (case provider of
       None \<Rightarrow> None
     | Some p \<Rightarrow>
         (case upstream_exception_shape e of
            (Some Timed_Out, _) \<Rightarrow> Some (web_tool_failure_of (Some p) None ''timeout'')
          | (Some Conn_Err, _) \<Rightarrow> Some ((web_tool_failure_of (Some p) None ''network'')\<lparr> wf_retryable := True \<rparr>)
          | (None, Some n) \<Rightarrow>
              if n \<ge> 500
              then Some (web_tool_failure_of (Some p) (Some n)
                (case upstream_error_tag e of None \<Rightarrow> ''http_error'' | Some t \<Rightarrow> t))
              else None
          | (None, None) \<Rightarrow> None))"

section \<open>The answer for several failures\<close>

definition attempts_phrase :: "nat \<Rightarrow> string" where
  "attempts_phrase n = '' ('' @ show_int (int n) @ '' attempts).''"

definition all_attempts_rejected_detail :: "nat \<Rightarrow> string" where
  "all_attempts_rejected_detail n =
     ''No model accepted the request ('' @ show_int (int n) @ '' attempts). Check the request parameters.''"
definition prompt_too_long_for_every_attempt_detail :: "nat \<Rightarrow> string" where
  "prompt_too_long_for_every_attempt_detail n = ''The prompt is too long for every model tried'' @ attempts_phrase n"
definition no_attempt_accepts_images_detail :: "nat \<Rightarrow> string" where
  "no_attempt_accepts_images_detail n = ''None of the models tried accepts image content'' @ attempts_phrase n"
definition no_attempt_accepts_parameters_detail :: "string list \<Rightarrow> nat \<Rightarrow> string" where
  "no_attempt_accepts_parameters_detail parameters n =
     ''None of the models tried accepts '' @ join_with '', '' parameters @ attempts_phrase n"
definition no_attempt_served_detail :: "nat \<Rightarrow> string" where
  "no_attempt_served_detail n = ''No model could serve the request'' @ attempts_phrase n"
definition no_credential_accepted_detail :: "nat \<Rightarrow> string" where
  "no_credential_accepted_detail n =
     ''No provider accepted the gateway'' @ [CHR 0x27] @ ''s credentials for this request'' @ attempts_phrase n"

definition coded_answer :: "int \<Rightarrow> string \<Rightarrow> string \<Rightarrow> http_exc" where
  "coded_answer st detail code = \<lparr> he_status = st, he_detail = detail, he_headers = Some (error_headers code) \<rparr>"

definition missing_of :: "upstream_exc list \<Rightarrow> missing_key list" where
  "missing_of errors = concat (map (\<lambda>e. opt_list (missing_credential e)) errors)"

text \<open>The part for failures that are not all about credentials.\<close>

definition shared_answer :: "(string \<Rightarrow> string) \<Rightarrow> string list \<Rightarrow> upstream_exc list \<Rightarrow> http_exc option" where
  "shared_answer redact params errors =
     (let answers = map (provider_failure_http_exc redact params []) errors;
          statuses = map he_status answers;
          codes = map (\<lambda>a. error_code_of (he_headers a)) answers;
          n = length errors
      in if list_all (\<lambda>s. s = 404) statuses
         then Some \<lparr> he_status = 502, he_detail = no_attempt_served_detail n, he_headers = None \<rparr>
         else if \<not> list_all (\<lambda>s. s = 400) statuses then None
         else if list_all (\<lambda>c. c = Some ''context_length_exceeded'') codes
         then Some (coded_answer 400 (prompt_too_long_for_every_attempt_detail n) ''context_length_exceeded'')
         else if list_all (\<lambda>c. c = Some ''unsupported_content'') codes
         then Some (coded_answer 400 (no_attempt_accepts_images_detail n) ''unsupported_content'')
         else if list_all (\<lambda>c. c = Some ''unsupported_parameter'') codes
         then Some (coded_answer 400 (no_attempt_accepts_parameters_detail
                (sort (fromkeys (concat (map (\<lambda>e. opt_list (unsupported_parameter_name e)) errors)))) n) ''unsupported_parameter'')
         else Some (coded_answer 400 (all_attempts_rejected_detail n) ''all_candidates_rejected''))"

definition get_shared_rejection :: "(string \<Rightarrow> string) \<Rightarrow> string list \<Rightarrow> upstream_exc list \<Rightarrow> http_exc option" where
  "get_shared_rejection redact params errors =
     (let missing = missing_of errors; rejected = length (filter is_provider_credential_rejection errors)
      in if length errors < 2 then None
         else if length missing = length errors
         then Some (coded_answer missing_key_status (no_candidate_configured_detail missing) missing_key_code)
         else if rejected \<noteq> 0 \<and> rejected + length missing = length errors
         then Some (coded_answer 424 (no_credential_accepted_detail (length errors)) ''provider_credential_rejected'')
         else shared_answer redact params errors)"

text \<open>\<open>classify_local_attempt_error\<close>: every failure may be retried elsewhere; the class labels it.\<close>

definition classify_local_attempt_error :: "upstream_exc \<Rightarrow> bool \<times> string" where
  "classify_local_attempt_error e = (True,
     if missing_credential e \<noteq> None then ''missing_credential''
     else if is_empty_completion e then ''empty_completion''
     else case upstream_exception_shape e of
       (Some Timed_Out, _) \<Rightarrow> ''timeout''
     | (Some Conn_Err, _) \<Rightarrow> ''conn_err''
     | (None, Some n) \<Rightarrow> ''http_'' @ show_int n @ (if is_provider_billing_error e then ''_billing'' else [])
     | (None, None) \<Rightarrow> ''unknown'')"

section \<open>What may be shown\<close>

text \<open>The details the gateway words itself.\<close>

definition own_details :: "string list \<Rightarrow> string \<Rightarrow> upstream_exc \<Rightarrow> string set" where
  "own_details params fallback e = {fallback, empty_completion_detail, provider_timeout_detail, provider_billing_detail,
       provider_account_quota_detail, provider_credentials_detail, provider_bad_request_detail,
       provider_model_not_found_detail, provider_rate_limited_detail, unsupported_image_detail None}
     \<union> provider_rejected_param_detail ` set params \<union> missing_detail ` set_option (missing_credential e)
     \<union> set_option (provider_failure_cause e)"

lemma redacted_detail_cases:
  "redacted_upstream_detail redact m fallback = fallback \<or> redacted_upstream_detail redact m fallback \<in> range redact"
  by (simp add: redacted_upstream_detail_def)

lemma explains_redacted: "explains redact m = Some d \<Longrightarrow> d \<in> range redact"
  using redacted_detail_cases[of redact m "[]"] by (auto simp: explains_def Let_def split: if_splits)

lemma first_explained: "first_some (explains redact) ms = Some d \<Longrightarrow> d \<in> range redact"
  by (induction ms) (auto split: option.splits dest: explains_redacted)

lemma innermost_redacted: "innermost_detail redact links = Some d \<Longrightarrow> d \<in> range redact"
  unfolding innermost_detail_def
  by (induction links) (auto split: option.splits if_split_asm dest: explains_redacted)

lemma message_detail_cases:
  "upstream_message_detail redact e fallback = fallback \<or> upstream_message_detail redact e fallback \<in> range redact"
  using redacted_detail_cases[of redact "upstream_error_message e" fallback]
  by (auto simp: upstream_message_detail_def Let_def split: option.splits
      dest: first_explained innermost_redacted explains_redacted)

lemma rejected_param_known: "rejected_param params e = Some p \<Longrightarrow> p \<in> set params"
  by (auto simp: rejected_param_def link_rejected_param_def dest!: first_some_Some split: option.splits if_split_asm)

lemma unsupported_detail_cases:
  "unsupported_feature_detail redact e = provider_bad_request_detail \<or> unsupported_feature_detail redact e \<in> range redact"
  using redacted_detail_cases message_detail_cases[of redact e provider_bad_request_detail]
  by (auto simp: unsupported_feature_detail_def split: option.splits)

lemma request_shape_detail:
  assumes "classify_request_shape redact params None e = Some (st, d)"
  shows "st = 400 \<and> (d \<in> own_details params fallback e \<or> d \<in> range redact)"
proof (cases "is_unsupported_feature_error e")
  case True
  then show ?thesis
    using assms unsupported_detail_cases[of redact e] by (auto simp: classify_request_shape_def own_details_def)
next
  case False
  then show ?thesis
    using assms by (auto simp: classify_request_shape_def own_details_def dest: rejected_param_known
        split: option.splits if_split_asm)
qed

lemma status_detail:
  assumes "classify_status redact e n = Some (st, d)"
  shows "st \<in> {400, 404, 424, 429, 502}
    \<and> (d \<in> own_details params fallback e \<or> (st \<in> {400, 404, 429} \<and> d \<in> range redact))"
  using assms message_detail_cases[of redact e provider_bad_request_detail]
    message_detail_cases[of redact e provider_model_not_found_detail]
    message_detail_cases[of redact e provider_rate_limited_detail]
  by (auto simp: classify_status_def own_details_def split: if_split_asm)

lemma classified_detail:
  assumes "classify_provider_error redact params None e = Some (st, d)"
  shows "st \<in> {400, 404, 424, 429, 502, 504}
    \<and> (d \<in> own_details params fallback e \<or> (st \<in> {400, 404, 429} \<and> d \<in> range redact))"
proof -
  note given = assms[unfolded classify_provider_error_def]
  show ?thesis
  proof (cases "missing_credential e")
    case (Some m)
    then show ?thesis using given by (auto simp: own_details_def missing_key_status_def)
  next
    case None
    show ?thesis
    proof (cases "is_empty_completion e \<or> fst (upstream_exception_shape e) = Some Timed_Out")
      case True
      then have "(st, d) = (502, empty_completion_detail) \<or> (st, d) = (504, provider_timeout_detail)"
        using given None by (simp split: if_split_asm)
      then show ?thesis by (auto simp: own_details_def)
    next
      case unshaped: False
      show ?thesis
      proof (cases "classify_request_shape redact params None e")
        case (Some a)
        then have "a = (st, d)" using given None unshaped by simp
        then show ?thesis using request_shape_detail Some by fastforce
      next
        case no_request: None
        show ?thesis
        proof (cases "snd (upstream_exception_shape e)")
          case None
          then show ?thesis
            using given \<open>missing_credential e = None\<close> unshaped no_request
              message_detail_cases[of redact e provider_bad_request_detail]
            by (auto simp: own_details_def split: if_split_asm)
        next
          case (Some n)
          then have "classify_status redact e n = Some (st, d)"
            using given \<open>missing_credential e = None\<close> unshaped no_request by simp
          then show ?thesis using status_detail by blast
        qed
      qed
    qed
  qed
qed

text \<open>
  A provider's own error code is kept with the newline it may end in: the pattern of \<open>_ERROR_TAG\<close> ends
  in \<open>$\<close>, which matches before one. The code becomes the value of a response header.
\<close>

definition newline_code_link :: exc_link where
  "newline_code_link = \<lparr> el_classes = [], el_class_name = ''InternalServerError'', el_text = ''overloaded'', el_message = None,
     el_status_code = Some 503, el_code = None, el_response_status = None, el_metadata_status = None, el_aws_code = None,
     el_aws_message = None, el_retry_after = [],
     el_body = Some (Parsed_Body (J_Map [(''tag'', J_Str (''SERVICE_OVERLOADED'' @ [CHR 0x0A]))])), el_provider_name = [],
     el_env_var_name = [], el_parameter_name = None, el_original = None, el_cause = None, el_context = None \<rparr>"

lemma error_tag_may_end_in_newline:
  "map_option (\<lambda>f. map_of (failure_as_headers f) ''Otari-Error-Tag'')
      (provider_failure \<lparr> ue_heap = [newline_code_link], ue_root = 0 \<rparr> (Some ''exa''))
    = Some (Some (''SERVICE_OVERLOADED'' @ [CHR 0x0A]))"
  by code_simp

section \<open>Properties\<close>

text \<open>
  \<^bold>\<open>C16\<close>: what a provider's failure is answered with. The status is one of six, so a credential the
  provider rejected never reaches the caller as a 401 or 403. The detail is one the gateway words itself; only a
  rejected request, an unknown model and a rate limit may show what the provider wrote, and then redacted.
\<close>

theorem provider_answer_shows_no_raw_text:
  "he_status (provider_failure_http_exc redact params fallback e) \<in> {400, 404, 424, 429, 502, 504}
    \<and> (he_detail (provider_failure_http_exc redact params fallback e) \<in> own_details params fallback e
       \<or> (he_status (provider_failure_http_exc redact params fallback e) \<in> {400, 404, 429}
          \<and> he_detail (provider_failure_http_exc redact params fallback e) \<in> range redact))"
proof (cases "classify_provider_error redact params None e")
  case None
  then show ?thesis
    by (auto simp: provider_failure_http_exc_def provider_failure_detail_def own_details_def split: option.splits)
next
  case (Some a)
  obtain st d where "a = (st, d)" by force
  then show ?thesis
    using classified_detail[of redact params e st d fallback] Some by (simp add: provider_failure_http_exc_def)
qed

end
