(* ===== verification/Attempts.thy ===== *)
theory Attempts
  imports Policy_Compiler Provider_Answers
begin

text \<open>
  Walking a plan: \<open>walk_attempts\<close> of \<open>api/routes/_attempts.py\<close>.

  The callbacks of a walk are fields of \<open>walk_env\<close>. What a callback answers may depend on everything
  that happened before, so it is given the trace of events so far; calling it adds an event. A callback
  the caller did not give is one that returns what it is given and raises nothing. \<open>on_terminal\<close>
  cannot raise; its calls are the \<open>Stopped\<close> events. Logs and metrics are left out.

  An exception is the left value of a result. The clauses of the \<open>try\<close> distinguish five kinds;
  every other exception is the provider's.
\<close>

section \<open>Events and callbacks\<close>

datatype walk_exc =
    Cannot_Serve http_exc
  | Http_Failure http_exc
  | Iterations_Exceeded string
  | Backend_Unreachable
  | Cancelled
  | Upstream upstream_exc

datatype ('k, 'f) event =
    Credentialing "'k attempt"
  | Admission "'k attempt" bool
  | Preparing "'k attempt"
  | Absorbed "'k attempt" upstream_exc
  | Skipped "'k attempt" http_exc
  | Sent "'k attempt" 'f
  | Given_Back "'k attempt" bool
  | Stopped "'k attempt"

type_synonym ('k, 'f) trace = "('k, 'f) event list"

text \<open>
  \<open>we_admit\<close> answers whether there is something to give back; \<open>we_run\<close> whether the attempt locked
  the request in, and its result.
\<close>

record ('k, 'f, 't) walk_env =
  we_credential :: "('k, 'f) trace \<Rightarrow> 'k attempt \<Rightarrow> walk_exc + 'k attempt"
  we_kwargs :: "'k attempt \<Rightarrow> walk_exc + 'f"
  we_admit :: "('k, 'f) trace \<Rightarrow> 'k attempt \<Rightarrow> walk_exc + bool"
  we_prepare :: "('k, 'f) trace \<Rightarrow> string \<Rightarrow> 'f \<Rightarrow> walk_exc + 'f"
  we_absorbed :: "('k, 'f) trace \<Rightarrow> 'k attempt \<Rightarrow> upstream_exc \<Rightarrow> nat \<Rightarrow> walk_exc option"
  we_skipped :: "('k, 'f) trace \<Rightarrow> 'k attempt \<Rightarrow> http_exc \<Rightarrow> walk_exc option"
  we_give_back :: "('k, 'f) trace \<Rightarrow> 'k attempt \<Rightarrow> bool \<Rightarrow> walk_exc option"
  we_run :: "('k, 'f) trace \<Rightarrow> 'k attempt \<Rightarrow> 'f \<Rightarrow> bool \<times> (walk_exc + 't)"
  we_classify :: "upstream_exc \<Rightarrow> bool \<times> string"
  we_redact :: "string \<Rightarrow> string"
  we_params :: "string list"

section \<open>One candidate\<close>

text \<open>The variables of one round of the loop.\<close>

record ('k, 'f) progress =
  pr_trace :: "('k, 'f) trace"
  pr_attempt :: "'k attempt"
  pr_admitted :: bool
  pr_sent :: bool
  pr_locked :: bool
  pr_unabsorbed :: "('k attempt \<times> upstream_exc) option"
  pr_skips :: "('k attempt \<times> http_exc) list"

type_synonym ('k, 'f, 'a) step = "('k, 'f) progress \<Rightarrow> ('k, 'f) progress \<times> (walk_exc + 'a)"

definition and_then :: "('k, 'f, 'a) step \<Rightarrow> ('a \<Rightarrow> ('k, 'f, 'b) step) \<Rightarrow> ('k, 'f, 'b) step" where
  "and_then s k = (\<lambda>p. case s p of (p', Inl e) \<Rightarrow> (p', Inl e) | (p', Inr x) \<Rightarrow> k x p')"

definition emit :: "('k, 'f) event \<Rightarrow> ('k, 'f) progress \<Rightarrow> ('k, 'f) progress" where
  "emit ev p = p\<lparr> pr_trace := pr_trace p @ [ev] \<rparr>"

definition credential_step :: "('k, 'f, 't) walk_env \<Rightarrow> ('k, 'f, unit) step" where
  "credential_step env p =
     (let p' = emit (Credentialing (pr_attempt p)) p
      in case we_credential env (pr_trace p) (pr_attempt p) of
           Inl e \<Rightarrow> (p', Inl e)
         | Inr a \<Rightarrow> (p'\<lparr> pr_attempt := a \<rparr>, Inr ()))"

definition kwargs_step :: "('k, 'f, 't) walk_env \<Rightarrow> ('k, 'f, 'f) step" where
  "kwargs_step env p = (p, we_kwargs env (pr_attempt p))"

definition admit_step :: "('k, 'f, 't) walk_env \<Rightarrow> ('k, 'f, unit) step" where
  "admit_step env p =
     (case we_admit env (pr_trace p) (pr_attempt p) of
        Inl e \<Rightarrow> (emit (Admission (pr_attempt p) False) p, Inl e)
      | Inr held \<Rightarrow> (emit (Admission (pr_attempt p) held) (p\<lparr> pr_admitted := held \<rparr>), Inr ()))"

definition prepare_step :: "('k, 'f, 't) walk_env \<Rightarrow> 'f \<Rightarrow> ('k, 'f, 'f) step" where
  "prepare_step env kwargs p =
     (emit (Preparing (pr_attempt p)) p, we_prepare env (pr_trace p) (at_instance (pr_attempt p)) kwargs)"

definition absorb_step :: "('k, 'f, 't) walk_env \<Rightarrow> nat \<Rightarrow> ('k, 'f, unit) step" where
  "absorb_step env n p =
     (case pr_unabsorbed p of
        None \<Rightarrow> (p, Inr ())
      | Some (a, x) \<Rightarrow>
          (case we_absorbed env (pr_trace p) a x n of
             Some e \<Rightarrow> (emit (Absorbed a x) p, Inl e)
           | None \<Rightarrow> ((emit (Absorbed a x) p)\<lparr> pr_unabsorbed := None \<rparr>, Inr ())))"

text \<open>The loop over the skips that are not recorded yet; the list is emptied only when it ends.\<close>

fun record_skips ::
  "('k, 'f, 't) walk_env \<Rightarrow> ('k attempt \<times> http_exc) list \<Rightarrow> ('k, 'f) trace \<Rightarrow> ('k, 'f) trace \<times> walk_exc option" where
  "record_skips env [] tr = (tr, None)"
| "record_skips env ((a, refusal) # skips) tr =
     (case we_skipped env tr a refusal of
        Some e \<Rightarrow> (tr @ [Skipped a refusal], Some e)
      | None \<Rightarrow> record_skips env skips (tr @ [Skipped a refusal]))"

definition skip_step :: "('k, 'f, 't) walk_env \<Rightarrow> ('k, 'f, unit) step" where
  "skip_step env p =
     (case record_skips env (pr_skips p) (pr_trace p) of
        (tr, Some e) \<Rightarrow> (p\<lparr> pr_trace := tr \<rparr>, Inl e)
      | (tr, None) \<Rightarrow> (p\<lparr> pr_trace := tr, pr_skips := [] \<rparr>, Inr ()))"

definition run_step :: "('k, 'f, 't) walk_env \<Rightarrow> 'f \<Rightarrow> ('k, 'f, 't) step" where
  "run_step env kwargs p =
     (case we_run env (pr_trace p) (pr_attempt p) kwargs of (locked, res) \<Rightarrow>
        ((emit (Sent (pr_attempt p) kwargs) p)\<lparr> pr_sent := True, pr_locked := locked \<rparr>, res))"

text \<open>The body of the \<open>try\<close>; \<open>n\<close> is the length of the plan.\<close>

definition try_candidate :: "('k, 'f, 't) walk_env \<Rightarrow> nat \<Rightarrow> ('k, 'f, 't) step" where
  "try_candidate env n =
     and_then (credential_step env) (\<lambda>_.
     and_then (kwargs_step env) (\<lambda>made.
     and_then (admit_step env) (\<lambda>_.
     and_then (prepare_step env made) (\<lambda>kwargs.
     and_then (absorb_step env n) (\<lambda>_.
     and_then (skip_step env) (\<lambda>_.
     run_step env kwargs))))))"

section \<open>The walk\<close>

record 'k failure =
  af_attempt :: "'k attempt"
  af_error_class :: string
  af_error :: upstream_exc

record ('k, 'f) walk_state =
  ws_trace :: "('k, 'f) trace"
  ws_failures :: "'k failure list"
  ws_refusals :: "('k attempt \<times> http_exc) list"
  ws_unabsorbed :: "('k attempt \<times> upstream_exc) option"
  ws_skips :: "('k attempt \<times> http_exc) list"

definition fresh_walk :: "('k, 'f) walk_state" where
  "fresh_walk = \<lparr> ws_trace = [], ws_failures = [], ws_refusals = [], ws_unabsorbed = None, ws_skips = [] \<rparr>"

definition start_candidate :: "('k, 'f) walk_state \<Rightarrow> 'k attempt \<Rightarrow> ('k, 'f) progress" where
  "start_candidate st planned = \<lparr> pr_trace = ws_trace st, pr_attempt = planned, pr_admitted = False, pr_sent = False,
     pr_locked = False, pr_unabsorbed = ws_unabsorbed st, pr_skips = ws_skips st \<rparr>"

definition give_back :: "('k, 'f, 't) walk_env \<Rightarrow> bool \<Rightarrow> ('k, 'f) progress \<Rightarrow> ('k, 'f) progress \<times> walk_exc option" where
  "give_back env sent p =
     (if pr_admitted p
      then (emit (Given_Back (pr_attempt p) sent) p, we_give_back env (pr_trace p) (pr_attempt p) sent)
      else (p, None))"

text \<open>How a walk ended: its trace, and the exception raised or the candidate that served with its result.\<close>

type_synonym ('k, 'f, 't) walk_end = "('k, 'f) trace \<times> (walk_exc + 'k attempt \<times> 't)"

definition stop_on :: "'k attempt \<Rightarrow> walk_exc \<Rightarrow> ('k, 'f) progress \<Rightarrow> ('k, 'f, 't) walk_end" where
  "stop_on a e p = (pr_trace p @ [Stopped a], Inl e)"

definition move_on :: "('k, 'f) walk_state \<Rightarrow> ('k, 'f) progress \<Rightarrow> ('k, 'f) walk_state" where
  "move_on st p = st\<lparr> ws_trace := pr_trace p, ws_unabsorbed := pr_unabsorbed p, ws_skips := pr_skips p \<rparr>"

text \<open>The clause for a candidate that cannot serve.\<close>

definition after_refusal ::
  "('k, 'f, 't) walk_env \<Rightarrow> ('k, 'f) walk_state \<Rightarrow> ('k, 'f) progress \<Rightarrow> http_exc
     \<Rightarrow> ('k, 'f, 't) walk_end + ('k, 'f) walk_state" where
  "after_refusal env st p refusal =
     (let p1 = p\<lparr> pr_skips := pr_skips p @ [(pr_attempt p, refusal)] \<rparr>;
          st1 = st\<lparr> ws_refusals := ws_refusals st @ [(pr_attempt p, refusal)] \<rparr>
      in case give_back env False p1 of
           (p2, Some e) \<Rightarrow> Inl (pr_trace p2, Inl e)
         | (p2, None) \<Rightarrow> Inr (move_on st1 p2))"

text \<open>The clause for a refusal of the gateway's own.\<close>

definition after_http_failure ::
  "('k, 'f, 't) walk_env \<Rightarrow> ('k, 'f) progress \<Rightarrow> http_exc \<Rightarrow> ('k, 'f, 't) walk_end" where
  "after_http_failure env p h =
     (case (if pr_locked p then (p, None) else give_back env False p) of
        (p1, Some e) \<Rightarrow> (pr_trace p1, Inl e)
      | (p1, None) \<Rightarrow> stop_on (pr_attempt p) (Http_Failure h) p1)"

text \<open>The clause for a failure of the provider.\<close>

definition after_provider_failure ::
  "('k, 'f, 't) walk_env \<Rightarrow> ('k, 'f) walk_state \<Rightarrow> ('k, 'f) progress \<Rightarrow> upstream_exc
     \<Rightarrow> ('k, 'f, 't) walk_end + ('k, 'f) walk_state" where
  "after_provider_failure env st p x =
     (case we_classify env x of (retryable, error_class) \<Rightarrow>
        if pr_locked p \<or> \<not> retryable
        then Inl (stop_on (pr_attempt p)
               (Http_Failure (provider_failure_http_exc (we_redact env) (we_params env) ''LLM provider error'' x)) p)
        else let p1 = p\<lparr> pr_unabsorbed := Some (pr_attempt p, x) \<rparr>;
                 st1 = st\<lparr> ws_failures := ws_failures st
                   @ [\<lparr> af_attempt = pr_attempt p, af_error_class = error_class, af_error = x \<rparr>] \<rparr>
             in case give_back env (pr_sent p) p1 of
                  (p2, Some e) \<Rightarrow> Inl (pr_trace p2, Inl e)
                | (p2, None) \<Rightarrow> Inr (move_on st1 p2))"

definition settle_candidate ::
  "('k, 'f, 't) walk_env \<Rightarrow> ('k, 'f) walk_state \<Rightarrow> ('k, 'f) progress \<Rightarrow> walk_exc + 't
     \<Rightarrow> ('k, 'f, 't) walk_end + ('k, 'f) walk_state" where
  "settle_candidate env st p res = (case res of
       Inr t \<Rightarrow> Inl (pr_trace p, Inr (pr_attempt p, t))
     | Inl (Cannot_Serve refusal) \<Rightarrow> after_refusal env st p refusal
     | Inl (Http_Failure h) \<Rightarrow> Inl (after_http_failure env p h)
     | Inl (Iterations_Exceeded text) \<Rightarrow> Inl (stop_on (pr_attempt p)
         (Http_Failure \<lparr> he_status = 422, he_detail = text, he_headers = None \<rparr>) p)
     | Inl (Upstream x) \<Rightarrow> after_provider_failure env st p x
     | Inl e \<Rightarrow> Inl (pr_trace p, Inl e))"

definition candidate_step ::
  "('k, 'f, 't) walk_env \<Rightarrow> nat \<Rightarrow> ('k, 'f) walk_state \<Rightarrow> 'k attempt \<Rightarrow> ('k, 'f, 't) walk_end + ('k, 'f) walk_state" where
  "candidate_step env n st planned =
     (case try_candidate env n (start_candidate st planned) of (p, res) \<Rightarrow> settle_candidate env st p res)"

text \<open>
  \<open>_soonest_refusal\<close>: the wait a refusal names, \<open>None\<close> when it names none that is a number. The last
  of the refusals that wait least; \<open>wait\<close> is \<open>float\<close> of the header.
\<close>

definition sooner :: "rat option \<Rightarrow> rat option \<Rightarrow> bool" where
  "sooner v w \<longleftrightarrow> (case (v, w) of (Some x, Some y) \<Rightarrow> x < y | (Some _, None) \<Rightarrow> True | _ \<Rightarrow> False)"

fun soonest_refusal :: "(http_exc \<Rightarrow> rat option) \<Rightarrow> ('k attempt \<times> http_exc) \<Rightarrow> ('k attempt \<times> http_exc) list
    \<Rightarrow> 'k attempt \<times> http_exc" where
  "soonest_refusal wait best [] = best"
| "soonest_refusal wait best (r # refusals) =
     soonest_refusal wait (if sooner (wait (snd r)) (wait (snd best)) then r else best) refusals"

definition raise_exhausted ::
  "('k, 'f, 't) walk_env \<Rightarrow> ('k, 'f) walk_state \<Rightarrow> upstream_exc \<Rightarrow> http_exc" where
  "raise_exhausted env st last_exc =
     (let single = length (ws_failures st) \<le> 1
      in if fst (upstream_exception_shape last_exc) = Some Timed_Out
         then \<lparr> he_status = 504, he_detail = (if single then ''LLM provider timeout'' else ''All upstream providers timed out''),
                he_headers = None \<rparr>
         else if single then provider_failure_http_exc (we_redact env) (we_params env) ''LLM provider error'' last_exc
         else case get_shared_rejection (we_redact env) (we_params env) (map af_error (ws_failures st)) of
           Some rejection \<Rightarrow> rejection
         | None \<Rightarrow> \<lparr> he_status = 502, he_detail = ''All upstream providers failed'', he_headers = None \<rparr>)"

text \<open>What follows the loop: no candidate failed, so one refused; or the last failure is the answer's.\<close>

definition exhausted ::
  "('k, 'f, 't) walk_env \<Rightarrow> (http_exc \<Rightarrow> rat option) \<Rightarrow> ('k, 'f) walk_state \<Rightarrow> ('k, 'f, 't) walk_end" where
  "exhausted env wait st =
     (if ws_failures st = []
      then case soonest_refusal wait (last (ws_refusals st)) (rev (butlast (ws_refusals st))) of
        (a, refusal) \<Rightarrow> (ws_trace st @ [Stopped a], Inl (Http_Failure refusal))
      else case record_skips env (ws_skips st) (ws_trace st) of
        (tr, Some e) \<Rightarrow> (tr, Inl e)
      | (tr, None) \<Rightarrow> (tr @ [Stopped (af_attempt (last (ws_failures st)))],
          Inl (Http_Failure (raise_exhausted env st (af_error (last (ws_failures st)))))))"

fun walk_from ::
  "('k, 'f, 't) walk_env \<Rightarrow> (http_exc \<Rightarrow> rat option) \<Rightarrow> nat \<Rightarrow> 'k attempt list \<Rightarrow> ('k, 'f) walk_state
     \<Rightarrow> ('k, 'f, 't) walk_end" where
  "walk_from env wait n [] st = exhausted env wait st"
| "walk_from env wait n (planned # attempts) st =
     (case candidate_step env n st planned of
        Inl ended \<Rightarrow> ended
      | Inr st' \<Rightarrow> walk_from env wait n attempts st')"

definition walk_attempts ::
  "('k, 'f, 't) walk_env \<Rightarrow> (http_exc \<Rightarrow> rat option) \<Rightarrow> 'k attempt list \<Rightarrow> ('k, 'f, 't) walk_end" where
  "walk_attempts env wait attempts =
     (if attempts = []
      then ([], Inl (Http_Failure \<lparr> he_status = 500, he_detail = ''Routing produced no candidate to try'', he_headers = None \<rparr>))
      else walk_from env wait (length attempts) attempts fresh_walk)"

end
