(* ===== verification/Attempt_Laws.thy ===== *)
theory Attempt_Laws
  imports Attempts
begin

text \<open>
  What a walk does, read off its trace: who was sent the request, whose admission is still held, which
  failures were recorded. A step of the \<open>try\<close> body is described by what holds before it, after it, and
  when it raises (\<open>holds\<close>); the description of the body is composed from its steps.
\<close>

section \<open>Descriptions of steps\<close>

definition holds ::
  "(('k, 'f) progress \<Rightarrow> bool) \<Rightarrow> ('k, 'f, 'a) step \<Rightarrow> ('a \<Rightarrow> ('k, 'f) progress \<Rightarrow> bool)
     \<Rightarrow> (walk_exc \<Rightarrow> ('k, 'f) progress \<Rightarrow> bool) \<Rightarrow> bool" where
  "holds P s Q E \<longleftrightarrow> (\<forall>p. P p \<longrightarrow> (case s p of (p', Inr x) \<Rightarrow> Q x p' | (p', Inl e) \<Rightarrow> E e p'))"

named_theorems step_defs \<open>definitions of the steps of one candidate\<close>

lemmas [step_defs] = holds_def credential_step_def kwargs_step_def admit_step_def prepare_step_def absorb_step_def
  run_step_def emit_def Let_def

lemma holds_and_then:
  assumes "holds P s R E" "\<And>x. holds (R x) (k x) Q E"
  shows "holds P (and_then s k) Q E"
  using assms by (fastforce simp: holds_def and_then_def split: prod.splits sum.splits)

lemma holds_conseq: "holds P s Q E \<Longrightarrow> (\<And>p. P' p \<Longrightarrow> P p) \<Longrightarrow> (\<And>x p. Q x p \<Longrightarrow> Q' x p) \<Longrightarrow> (\<And>e p. E e p \<Longrightarrow> E' e p) \<Longrightarrow> holds P' s Q' E'"
  by (fastforce simp: holds_def split: prod.splits sum.splits)

text \<open>A description of every step of the body gives one of the body.\<close>

lemma holds_try:
  assumes "holds P (credential_step env) (\<lambda>_. Begun) E" "holds Begun (kwargs_step env) (\<lambda>_. Begun) E"
    "holds Begun (admit_step env) (\<lambda>_. Let_In) E" "\<And>made. holds Let_In (prepare_step env made) (\<lambda>_. Let_In) E"
    "holds Let_In (absorb_step env n) (\<lambda>_. Noted) E" "holds Noted (skip_step env) (\<lambda>_. Ready) E"
    "\<And>kwargs. holds Ready (run_step env kwargs) Q E"
  shows "holds P (try_candidate env n) Q E"
  unfolding try_candidate_def
  by (rule holds_and_then, rule assms(1), rule holds_and_then, rule assms(2), rule holds_and_then, rule assms(3),
      rule holds_and_then, rule assms(4), rule holds_and_then, rule assms(5), rule holds_and_then, rule assms(6),
      rule assms(7))

text \<open>Recording skips adds \<open>Skipped\<close> events and nothing else.\<close>

fun is_skip :: "('k, 'f) event \<Rightarrow> bool" where
  "is_skip (Skipped a r) = True"
| "is_skip _ = False"

lemma record_skips_trace:
  "record_skips env skips tr = (tr', res) \<Longrightarrow> \<exists>evs. tr' = tr @ evs \<and> list_all is_skip evs"
proof (induction env skips tr rule: record_skips.induct)
  case (2 env a refusal skips tr)
  then show ?case
    by (cases "we_skipped env tr a refusal") (fastforce, auto)
qed simp

lemma holds_skip_step:
  assumes "\<And>p evs skips. P p \<Longrightarrow> list_all is_skip evs \<Longrightarrow>
      Q (p\<lparr> pr_trace := pr_trace p @ evs, pr_skips := skips \<rparr>) \<and> Q (p\<lparr> pr_trace := pr_trace p @ evs \<rparr>)"
  shows "holds P (skip_step env) (\<lambda>_. Q) (\<lambda>_. Q)"
proof -
  have "case skip_step env p of (p', Inr x) \<Rightarrow> Q p' | (p', Inl e) \<Rightarrow> Q p'" if "P p" for p
  proof -
    obtain tr res where rec: "record_skips env (pr_skips p) (pr_trace p) = (tr, res)" by force
    from record_skips_trace[OF rec] obtain evs where "tr = pr_trace p @ evs" "list_all is_skip evs" by blast
    then show ?thesis using assms[OF \<open>P p\<close>] rec by (cases res) (simp_all add: skip_step_def)
  qed
  then show ?thesis by (simp add: holds_def)
qed

section \<open>Who was sent the request\<close>

fun sends_from :: "('k, 'f) trace \<Rightarrow> ('k, 'f) trace \<Rightarrow> (('k, 'f) trace \<times> 'k attempt \<times> 'f) list" where
  "sends_from pre [] = []"
| "sends_from pre (ev # evs) =
     (case ev of Sent a kwargs \<Rightarrow> [(pre, a, kwargs)] | _ \<Rightarrow> []) @ sends_from (pre @ [ev]) evs"

text \<open>Each request sent, with what had happened before it.\<close>

definition sends :: "('k, 'f) trace \<Rightarrow> (('k, 'f) trace \<times> 'k attempt \<times> 'f) list" where
  "sends tr = sends_from [] tr"

lemma sends_from_append: "sends_from pre (xs @ ys) = sends_from pre xs @ sends_from (pre @ xs) ys"
  by (induction xs arbitrary: pre) auto

lemma sends_append: "sends (xs @ ys) = sends xs @ sends_from xs ys"
  by (simp add: sends_def sends_from_append)

lemma sends_Nil [simp]: "sends [] = []"
  by (simp add: sends_def)

lemma sends_from_skips [simp]: "list_all is_skip evs \<Longrightarrow> sends_from pre evs = []"
  by (induction evs arbitrary: pre) (auto elim: is_skip.elims split: event.splits)

definition outcome :: "('k, 'f, 't) walk_env \<Rightarrow> ('k, 'f) trace \<times> 'k attempt \<times> 'f \<Rightarrow> bool \<times> (walk_exc + 't)" where
  "outcome env s = (case s of (pre, a, kwargs) \<Rightarrow> we_run env pre a kwargs)"




definition sent_to :: "('k, 'f) trace \<times> 'k attempt \<times> 'f \<Rightarrow> nat" where
  "sent_to s = at_position (fst (snd s))"

text \<open>What the body adds: nothing, or one request, last.\<close>

definition sent_last ::
  "('k, 'f, 't) walk_env \<Rightarrow> (('k, 'f) trace \<times> 'k attempt \<times> 'f) list \<Rightarrow> ('k, 'f) progress \<Rightarrow> (walk_exc + 't) \<Rightarrow> bool" where
  "sent_last env before p res \<longleftrightarrow> (\<exists>pre kwargs. sends (pr_trace p) = before @ [(pre, pr_attempt p, kwargs)]
     \<and> we_run env pre (pr_attempt p) kwargs = (pr_locked p, res))"

abbreviation quiet ::
  "(('k, 'f) trace \<times> 'k attempt \<times> 'f) list \<Rightarrow> (nat \<Rightarrow> bool) \<Rightarrow> ('k, 'f) progress \<Rightarrow> bool" where
  "quiet before at_pos p \<equiv> sends (pr_trace p) = before \<and> \<not> pr_locked p \<and> at_pos (at_position (pr_attempt p))"

lemma try_sends:
  assumes "\<And>tr a b. we_credential env tr a = Inr b \<Longrightarrow> P (at_position a) \<Longrightarrow> P (at_position b)"
  shows "holds (quiet before P) (try_candidate env n)
    (\<lambda>t p. sent_last env before p (Inr t) \<and> P (at_position (pr_attempt p)))
    (\<lambda>e p. (quiet before P p \<or> sent_last env before p (Inl e)) \<and> P (at_position (pr_attempt p)))"
proof (rule holds_try[where Begun = "quiet before P" and Let_In = "quiet before P" and Noted = "quiet before P" and Ready = "quiet before P"],
    goal_cases)
  case 1
  show ?case using assms by (auto simp: step_defs sends_append split: sum.splits)
next
  case 2
  show ?case by (auto simp: step_defs split: sum.splits)
next
  case 3
  show ?case by (auto simp: step_defs sends_append split: sum.splits)
next
  case (4 made)
  show ?case by (auto simp: step_defs sends_append split: sum.splits)
next
  case 5
  show ?case by (auto simp: step_defs sends_append split: sum.splits option.splits)
next
  case 6
  show ?case by (rule holds_conseq[OF holds_skip_step[where P = "quiet before P" and Q = "quiet before P"]])
      (auto simp: sends_append)
next
  case (7 kwargs)
  show ?case
    by (auto simp: step_defs sends_append sent_last_def split: sum.splits prod.splits)
qed

lemma sends_give_back: "give_back env sent p = (p', res) \<Longrightarrow> sends (pr_trace p') = sends (pr_trace p)"
  by (auto simp: give_back_def emit_def sends_append split: if_splits)

lemma sends_stop: "sends (tr @ [Stopped a]) = sends tr"
  by (simp add: sends_append)



lemma settle_sends_end:
  assumes "settle_candidate env st p res = Inl (tr, ended)"
  shows "sends tr = sends (pr_trace p)" and "ended = Inr (a, t) \<longleftrightarrow> res = Inr t \<and> a = pr_attempt p"
  using assms
  by (auto simp: settle_candidate_def after_refusal_def after_provider_failure_def after_http_failure_def stop_on_def
      sends_stop Let_def dest!: sends_give_back split: sum.splits walk_exc.splits prod.splits option.splits if_split_asm)

section \<open>The order of the requests\<close>


lemma candidate_tried:
  assumes "\<And>tr a b. we_credential env tr a = Inr b \<Longrightarrow> P (at_position a) \<Longrightarrow> P (at_position b)"
    "P (at_position planned)" "try_candidate env n (start_candidate st planned) = (p, res)"
  shows "(sends (pr_trace p) = sends (ws_trace st) \<and> isl res \<and> \<not> pr_locked p)
      \<or> sent_last env (sends (ws_trace st)) p res"
    and "P (at_position (pr_attempt p))"
proof -
  let ?before = "sends (ws_trace st)"
  have "holds (quiet ?before P) (try_candidate env n)
      (\<lambda>t p. sent_last env ?before p (Inr t) \<and> P (at_position (pr_attempt p)))
      (\<lambda>e p. (quiet ?before P p \<or> sent_last env ?before p (Inl e)) \<and> P (at_position (pr_attempt p)))"
    by (rule try_sends) (rule assms(1))
  moreover have "quiet ?before P (start_candidate st planned)"
    using assms(2) by (simp add: start_candidate_def)
  ultimately have "case res of Inr t \<Rightarrow> sent_last env ?before p (Inr t) \<and> P (at_position (pr_attempt p))
      | Inl e \<Rightarrow> (quiet ?before P p \<or> sent_last env ?before p (Inl e)) \<and> P (at_position (pr_attempt p))"
    using assms(3) unfolding holds_def by (metis (no_types, lifting) case_prod_conv sum.case_eq_if)
  then show "(sends (pr_trace p) = ?before \<and> isl res \<and> \<not> pr_locked p) \<or> sent_last env ?before p res"
    "P (at_position (pr_attempt p))"
    by (auto split: sum.splits)
qed






section \<open>Admissions\<close>

fun admission_change :: "('k, 'f) event \<Rightarrow> 'k attempt list \<Rightarrow> 'k attempt list" where
  "admission_change (Admission a True) held = held @ [a]"
| "admission_change (Given_Back a sent) held = remove1 a held"
| "admission_change _ held = held"

text \<open>The candidates whose admission has not been given back.\<close>

definition unreturned :: "('k, 'f) trace \<Rightarrow> 'k attempt list" where
  "unreturned tr = fold admission_change tr []"

lemma unreturned_Nil [simp]: "unreturned [] = []"
  by (simp add: unreturned_def)

lemma unreturned_append: "unreturned (xs @ ys) = fold admission_change ys (unreturned xs)"
  by (simp add: unreturned_def)

lemma unreturned_skips [simp]: "list_all is_skip evs \<Longrightarrow> fold admission_change evs held = held"
  by (induction evs arbitrary: held) (auto elim: is_skip.elims)

lemma admission_change_simps [simp]:
  "admission_change (Admission a b) held = (if b then held @ [a] else held)"
  by (cases b) auto

definition admission_noted :: "('k, 'f) progress \<Rightarrow> bool" where
  "admission_noted p \<longleftrightarrow> unreturned (pr_trace p) = (if pr_admitted p then [pr_attempt p] else [])"

abbreviation unadmitted :: "('k, 'f) progress \<Rightarrow> bool" where
  "unadmitted p \<equiv> \<not> pr_admitted p \<and> unreturned (pr_trace p) = []"

lemma try_admission:
  "holds unadmitted (try_candidate env n) (\<lambda>_. admission_noted) (\<lambda>_. admission_noted)"
proof (rule holds_try[where Begun = unadmitted and Let_In = admission_noted and Noted = admission_noted
      and Ready = admission_noted], goal_cases)
  case 1
  show ?case by (auto simp: step_defs unreturned_append admission_noted_def split: sum.splits)
next
  case 2
  show ?case by (auto simp: step_defs admission_noted_def split: sum.splits)
next
  case 3
  show ?case by (auto simp: step_defs unreturned_append admission_noted_def split: sum.splits)
next
  case (4 made)
  show ?case by (auto simp: step_defs unreturned_append admission_noted_def split: sum.splits)
next
  case 5
  show ?case by (auto simp: step_defs unreturned_append admission_noted_def split: sum.splits option.splits)
next
  case 6
  show ?case by (rule holds_skip_step) (auto simp: unreturned_append admission_noted_def)
next
  case (7 kwargs)
  show ?case by (auto simp: step_defs unreturned_append admission_noted_def split: sum.splits prod.splits)
qed

lemma candidate_admission:
  assumes "try_candidate env n (start_candidate st planned) = (p, res)" "unreturned (ws_trace st) = []"
  shows "unreturned (pr_trace p) = (if pr_admitted p then [pr_attempt p] else [])"
proof -
  have "unadmitted (start_candidate st planned)" using assms(2) by (simp add: start_candidate_def)
  then have "admission_noted p"
    using try_admission[of env n] assms(1) unfolding holds_def by (fastforce split: sum.splits prod.splits)
  then show ?thesis by (simp add: admission_noted_def)
qed

lemma give_back_returns:
  assumes "give_back env sent p = (p', res)" "unreturned (pr_trace p) = (if pr_admitted p then [pr_attempt p] else [])"
  shows "unreturned (pr_trace p') = []"
  using assms by (auto simp: give_back_def emit_def unreturned_append split: if_split_asm)

lemma unreturned_stop [simp]: "unreturned (tr @ [Stopped a]) = unreturned tr"
  by (simp add: unreturned_append)

lemma unreturned_record_skips: "record_skips env skips tr = (tr', res) \<Longrightarrow> unreturned tr' = unreturned tr"
  using record_skips_trace[of env skips tr tr' res] by (auto simp: unreturned_append)

text \<open>The endings that leave an admission with the candidate they ended on.\<close>

definition keeps_admission :: "('k, 'f, 't) walk_env \<Rightarrow> ('k, 'f) trace \<Rightarrow> walk_exc \<Rightarrow> bool" where
  "keeps_admission env tr e \<longleftrightarrow> e = Backend_Unreachable \<or> e = Cancelled
     \<or> (\<exists>h. e = Http_Failure h \<and> he_status h = 422)
     \<or> (\<exists>x. \<not> fst (we_classify env x))
     \<or> (sends tr \<noteq> [] \<and> fst (outcome env (last (sends tr))))"

lemma settle_admission_on:
  assumes "settle_candidate env st p res = Inr st'"
    and "unreturned (pr_trace p) = (if pr_admitted p then [pr_attempt p] else [])"
  shows "unreturned (ws_trace st') = []"
  using assms
  by (auto simp: settle_candidate_def after_refusal_def after_provider_failure_def move_on_def Let_def
      dest!: give_back_returns split: sum.splits walk_exc.splits prod.splits option.splits if_split_asm)

lemma settle_admission_end:
  assumes "settle_candidate env st p res = Inl (tr, ended)"
    and noted: "unreturned (pr_trace p) = (if pr_admitted p then [pr_attempt p] else [])"
    and locked: "pr_locked p \<Longrightarrow> sends (pr_trace p) \<noteq> [] \<and> fst (outcome env (last (sends (pr_trace p))))"
  shows "case ended of Inr (a, t) \<Rightarrow> unreturned tr = [] \<or> unreturned tr = [a]
    | Inl e \<Rightarrow> unreturned tr = [] \<or> (unreturned tr = [pr_attempt p] \<and> keeps_admission env tr e)"
proof (cases res)
  case (Inr t)
  then show ?thesis using assms(1) noted by (auto simp: settle_candidate_def)
next
  case (Inl e)
  show ?thesis
  proof (cases e)
    case (Cannot_Serve refusal)
    then show ?thesis
      using assms(1) noted Inl
      by (auto simp: settle_candidate_def after_refusal_def Let_def dest!: give_back_returns
          split: prod.splits option.splits)
  next
    case (Http_Failure h)
    then show ?thesis
      using assms(1) noted Inl locked
      by (auto simp: settle_candidate_def after_http_failure_def stop_on_def keeps_admission_def sends_stop
          dest!: give_back_returns split: prod.splits option.splits if_split_asm)
  next
    case (Iterations_Exceeded msg)
    then show ?thesis
      using assms(1) noted Inl by (auto simp: settle_candidate_def stop_on_def keeps_admission_def)
  next
    case (Upstream x)
    show ?thesis
    proof (cases "pr_locked p \<or> \<not> fst (we_classify env x)")
      case True
      then have ends: "tr = pr_trace p @ [Stopped (pr_attempt p)]" "\<exists>e'. ended = Inl e'"
        using assms(1) Inl Upstream
        by (auto simp: settle_candidate_def after_provider_failure_def stop_on_def split: prod.splits)
      have "keeps_admission env tr e'" for e'
        using True locked ends(1) unfolding keeps_admission_def by (metis sends_stop)
      then show ?thesis using ends noted by (auto split: if_split_asm)
    next
      case False
      then show ?thesis
        using assms(1) noted Inl Upstream
        by (auto simp: settle_candidate_def after_provider_failure_def Let_def dest!: give_back_returns
            split: prod.splits option.splits)
    qed
  qed (use assms(1) noted Inl in \<open>auto simp: settle_candidate_def keeps_admission_def\<close>)
qed

lemma walk_from_admissions:
  "walk_from env wait n attempts st = (tr, ended) \<Longrightarrow> unreturned (ws_trace st) = [] \<Longrightarrow>
    (case ended of Inr (a, t) \<Rightarrow> unreturned tr = [] \<or> unreturned tr = [a]
     | Inl e \<Rightarrow> unreturned tr = [] \<or> (\<exists>a. unreturned tr = [a] \<and> keeps_admission env tr e))"
proof (induction attempts arbitrary: st)
  case Nil
  then show ?case
    by (auto simp: exhausted_def dest!: unreturned_record_skips split: if_split_asm prod.splits option.splits)
next
  case (Cons planned attempts)
  obtain p res where tried: "try_candidate env n (start_candidate st planned) = (p, res)" by force
  note noted = candidate_admission[OF tried Cons.prems(2)]
  show ?case
  proof (cases "settle_candidate env st p res")
    case (Inr st')
    then have "walk_from env wait n attempts st' = (tr, ended)"
      using Cons.prems(1) by (simp add: candidate_step_def tried)
    then show ?thesis using Cons.IH settle_admission_on[OF Inr noted] by blast
  next
    case (Inl ended')
    then have ends: "settle_candidate env st p res = Inl (tr, ended)"
      using Cons.prems(1) by (simp add: candidate_step_def tried)
    have "sends (pr_trace p) \<noteq> [] \<and> fst (outcome env (last (sends (pr_trace p))))" if "pr_locked p"
      using candidate_tried(1)[OF _ _ tried, where P = "\<lambda>_. True"] that by (auto simp: sent_last_def outcome_def)
    then show ?thesis using settle_admission_end[OF ends noted] by (auto split: sum.splits)
  qed
qed

section \<open>The record of failures\<close>

definition absorbed_of :: "('k, 'f) trace \<Rightarrow> ('k attempt \<times> upstream_exc) list" where
  "absorbed_of tr = concat (map (\<lambda>ev. case ev of Absorbed a x \<Rightarrow> [(a, x)] | _ \<Rightarrow> []) tr)"

lemma absorbed_append: "absorbed_of (xs @ ys) = absorbed_of xs @ absorbed_of ys"
  by (simp add: absorbed_of_def)

lemma absorbed_event [simp]:
  "absorbed_of [] = []" "absorbed_of [Absorbed a x] = [(a, x)]" "absorbed_of [Credentialing a] = []"
  "absorbed_of [Admission a b] = []" "absorbed_of [Preparing a] = []" "absorbed_of [Sent a k] = []"
  "absorbed_of [Given_Back a b] = []" "absorbed_of [Stopped a] = []"
  by (simp_all add: absorbed_of_def)

lemma absorbed_skips [simp]: "list_all is_skip evs \<Longrightarrow> absorbed_of evs = []"
  by (induction evs) (auto simp: absorbed_of_def elim: is_skip.elims)

text \<open>The candidates that were sent the request and failed, with their failures.\<close>

definition failure_of ::
  "('k, 'f, 't) walk_env \<Rightarrow> ('k, 'f) trace \<times> 'k attempt \<times> 'f \<Rightarrow> ('k attempt \<times> upstream_exc) list" where
  "failure_of env s = (case snd (outcome env s) of Inl (Upstream x) \<Rightarrow> [(fst (snd s), x)] | _ \<Rightarrow> [])"

definition failed_sends :: "('k, 'f, 't) walk_env \<Rightarrow> ('k, 'f) trace \<Rightarrow> ('k attempt \<times> upstream_exc) list" where
  "failed_sends env tr = concat (map (failure_of env) (sends tr))"

lemma failed_append: "failed_sends env (xs @ ys) = failed_sends env xs @ concat (map (failure_of env) (sends_from xs ys))"
  by (simp add: failed_sends_def sends_append)

definition fails_only_when_sent :: "('k, 'f, 't) walk_env \<Rightarrow> bool" where
  "fails_only_when_sent env \<longleftrightarrow> (\<forall>tr a x. we_credential env tr a \<noteq> Inl (Upstream x))
     \<and> (\<forall>a x. we_kwargs env a \<noteq> Inl (Upstream x)) \<and> (\<forall>tr a x. we_admit env tr a \<noteq> Inl (Upstream x))
     \<and> (\<forall>tr i k x. we_prepare env tr i k \<noteq> Inl (Upstream x)) \<and> (\<forall>tr a r x. we_skipped env tr a r \<noteq> Some (Upstream x))
     \<and> (\<forall>tr a x n. we_absorbed env tr a x n = None)"

abbreviation owed :: "('k, 'f, 't) walk_env \<Rightarrow> ('k, 'f) progress \<Rightarrow> bool" where
  "owed env p \<equiv> absorbed_of (pr_trace p) @ opt_list (pr_unabsorbed p) = failed_sends env (pr_trace p)"

abbreviation recorded :: "('k, 'f, 't) walk_env \<Rightarrow> ('k, 'f) progress \<Rightarrow> bool" where
  "recorded env p \<equiv> absorbed_of (pr_trace p) = failed_sends env (pr_trace p) \<and> pr_unabsorbed p = None"

definition owed_after :: "('k, 'f, 't) walk_env \<Rightarrow> walk_exc \<Rightarrow> ('k, 'f) progress \<Rightarrow> bool" where
  "owed_after env e p \<longleftrightarrow> (case e of
       Upstream x \<Rightarrow> absorbed_of (pr_trace p) @ [(pr_attempt p, x)] = failed_sends env (pr_trace p)
     | _ \<Rightarrow> owed env p)"

lemma record_skips_exc:
  "record_skips env skips tr = (tr', Some e) \<Longrightarrow> \<exists>tr'' a r. we_skipped env tr'' a r = Some e"
  by (induction env skips tr rule: record_skips.induct) (auto split: option.splits)

lemma try_recording:
  assumes "fails_only_when_sent env"
  shows "holds (owed env) (try_candidate env n) (\<lambda>_. recorded env) (owed_after env)"
proof (rule holds_try[where Begun = "owed env" and Let_In = "owed env" and Noted = "recorded env" and Ready = "recorded env"],
    goal_cases)
  case 1
  show ?case using assms
    by (auto simp: step_defs absorbed_append failed_append owed_after_def fails_only_when_sent_def
        split: sum.splits walk_exc.splits)
next
  case 2
  show ?case using assms
    by (auto simp: step_defs owed_after_def fails_only_when_sent_def split: sum.splits walk_exc.splits)
next
  case 3
  show ?case using assms
    by (auto simp: step_defs absorbed_append failed_append owed_after_def fails_only_when_sent_def
        split: sum.splits walk_exc.splits)
next
  case (4 made)
  show ?case using assms
    by (auto simp: step_defs absorbed_append failed_append owed_after_def fails_only_when_sent_def
        split: sum.splits walk_exc.splits)
next
  case 5
  show ?case using assms
    by (auto simp: step_defs absorbed_append failed_append fails_only_when_sent_def split: sum.splits option.splits)
next
  case 6
  have "case skip_step env p of (p', Inr x) \<Rightarrow> recorded env p' | (p', Inl e) \<Rightarrow> owed_after env e p'"
    if "recorded env p" for p
  proof -
    obtain tr res where rec: "record_skips env (pr_skips p) (pr_trace p) = (tr, res)" by force
    from record_skips_trace[OF rec] obtain evs where tr: "tr = pr_trace p @ evs" "list_all is_skip evs" by blast
    show ?thesis
    proof (cases res)
      case None
      then show ?thesis using rec tr that by (simp add: skip_step_def absorbed_append failed_append)
    next
      case (Some e)
      then have "\<exists>tr'' a r. we_skipped env tr'' a r = Some e" using record_skips_exc rec by blast
      then have "\<And>x. e \<noteq> Upstream x" using assms unfolding fails_only_when_sent_def by metis
      then show ?thesis
        using rec tr that Some
        by (auto simp: skip_step_def absorbed_append failed_append owed_after_def split: walk_exc.splits)
    qed
  qed
  then show ?case by (simp add: holds_def)
next
  case (7 kwargs)
  show ?case
    by (auto simp: step_defs absorbed_append failed_append owed_after_def failure_of_def outcome_def
        split: sum.splits walk_exc.splits prod.splits)
qed

lemma records_give_back:
  assumes "give_back env sent p = (p', res)"
  shows "absorbed_of (pr_trace p') = absorbed_of (pr_trace p)" "failed_sends env (pr_trace p') = failed_sends env (pr_trace p)"
    "pr_unabsorbed p' = pr_unabsorbed p"
  using assms by (auto simp: give_back_def emit_def absorbed_append failed_append split: if_split_asm)

lemma settle_recording_on:
  assumes "settle_candidate env st p (Inl e) = Inr st'" "owed_after env e p"
  shows "absorbed_of (ws_trace st') @ opt_list (ws_unabsorbed st') = failed_sends env (ws_trace st')"
proof (cases e)
  case (Cannot_Serve refusal)
  obtain p2 r where given: "give_back env False (p\<lparr> pr_skips := pr_skips p @ [(pr_attempt p, refusal)] \<rparr>) = (p2, r)"
    by force
  then have "st' = move_on (st\<lparr> ws_refusals := ws_refusals st @ [(pr_attempt p, refusal)] \<rparr>) p2"
    using assms(1) Cannot_Serve
    by (simp add: settle_candidate_def after_refusal_def Let_def split: option.splits)
  then show ?thesis
    using records_give_back[OF given] assms(2) Cannot_Serve by (simp add: move_on_def owed_after_def)
next
  case (Upstream x)
  obtain p2 r where given: "give_back env (pr_sent p) (p\<lparr> pr_unabsorbed := Some (pr_attempt p, x) \<rparr>) = (p2, r)"
    by force
  then have "ws_trace st' = pr_trace p2 \<and> ws_unabsorbed st' = pr_unabsorbed p2"
    using assms(1) Upstream
    by (auto simp: settle_candidate_def after_provider_failure_def Let_def move_on_def split: prod.splits option.splits if_split_asm)
  then show ?thesis
    using records_give_back[OF given] assms(2) Upstream by (simp add: owed_after_def)
qed (use assms in \<open>auto simp: settle_candidate_def\<close>)

lemma walk_from_records:
  assumes only: "fails_only_when_sent env"
  shows "walk_from env wait n attempts st = (tr, Inr (a, t)) \<Longrightarrow>
    absorbed_of (ws_trace st) @ opt_list (ws_unabsorbed st) = failed_sends env (ws_trace st) \<Longrightarrow>
    absorbed_of tr = failed_sends env tr"
proof (induction attempts arbitrary: st)
  case Nil
  then show ?case by (auto simp: exhausted_def split: if_split_asm prod.splits option.splits)
next
  case (Cons planned attempts)
  obtain p res where tried: "try_candidate env n (start_candidate st planned) = (p, res)" by force
  have "owed env (start_candidate st planned)" using Cons.prems(2) by (simp add: start_candidate_def)
  then have after: "case res of Inr _ \<Rightarrow> recorded env p | Inl e \<Rightarrow> owed_after env e p"
    using try_recording[OF only, of n] tried unfolding holds_def by (metis (no_types, lifting) case_prod_conv sum.case_eq_if)
  show ?case
  proof (cases "settle_candidate env st p res")
    case (Inr st')
    then obtain e where e: "res = Inl e" by (cases res) (auto simp: settle_candidate_def)
    have "walk_from env wait n attempts st' = (tr, Inr (a, t))"
      using Cons.prems(1) Inr by (simp add: candidate_step_def tried)
    then show ?thesis using Cons.IH settle_recording_on[of env st p e st'] Inr e after by simp
  next
    case (Inl ended')
    then have ends: "settle_candidate env st p res = Inl (tr, Inr (a, t))"
      using Cons.prems(1) by (simp add: candidate_step_def tried)
    then have "res = Inr t" using settle_sends_end(2)[OF ends, of a t] by simp
    then show ?thesis using ends after by (auto simp: settle_candidate_def)
  qed
qed

section \<open>Sample walks\<close>

definition sample_link :: exc_link where
  "sample_link = \<lparr> el_classes = [], el_class_name = ''APIStatusError'', el_text = ''failed'', el_message = None,
     el_status_code = Some 503, el_code = None, el_response_status = None, el_metadata_status = None, el_aws_code = None,
     el_aws_message = None, el_retry_after = [], el_body = None, el_provider_name = [], el_env_var_name = [],
     el_parameter_name = None, el_original = None, el_cause = None, el_context = None \<rparr>"

definition sample_failure :: upstream_exc where
  "sample_failure = \<lparr> ue_heap = [sample_link], ue_root = 0 \<rparr>"

definition sample_refusal :: http_exc where
  "sample_refusal = \<lparr> he_status = 429, he_detail = ''full'', he_headers = None \<rparr>"

definition sample_attempt :: "nat \<Rightarrow> unit attempt" where
  "sample_attempt i = \<lparr> at_position = i, at_instance = ''p'', at_provider = ''p'', at_model = ''m'', at_kwargs = (),
     at_display_model = None, at_selection_reason = ''default'', at_deployment_paid = False \<rparr>"

definition sample_walk :: "(unit, unit, string) walk_env" where
  "sample_walk = \<lparr> we_credential = (\<lambda>tr a. Inr a), we_kwargs = (\<lambda>a. Inr ()), we_admit = (\<lambda>tr a. Inr True),
     we_prepare = (\<lambda>tr i k. Inr k), we_absorbed = (\<lambda>tr a x n. None), we_skipped = (\<lambda>tr a r. None),
     we_give_back = (\<lambda>tr a s. None),
     we_run = (\<lambda>tr a k. (False, if at_position a = 1 then Inl (Upstream sample_failure)
        else if at_position a = 2 then Inl (Cannot_Serve sample_refusal) else Inr ''ok'')),
     we_classify = classify_local_attempt_error, we_redact = (\<lambda>s. s), we_params = [] \<rparr>"

definition sample_plan :: "unit attempt list" where
  "sample_plan = map sample_attempt [1, 2, 3]"


lemma sample_fails_only_when_sent: "fails_only_when_sent sample_walk"
  by (simp add: fails_only_when_sent_def sample_walk_def)

lemma sample_run:
  "walk_attempts sample_walk (\<lambda>_. None) sample_plan =
     ([Credentialing (sample_attempt 1), Admission (sample_attempt 1) True, Preparing (sample_attempt 1),
       Sent (sample_attempt 1) (), Given_Back (sample_attempt 1) True,
       Credentialing (sample_attempt 2), Admission (sample_attempt 2) True, Preparing (sample_attempt 2),
       Absorbed (sample_attempt 1) sample_failure, Sent (sample_attempt 2) (), Given_Back (sample_attempt 2) False,
       Credentialing (sample_attempt 3), Admission (sample_attempt 3) True, Preparing (sample_attempt 3),
       Skipped (sample_attempt 2) sample_refusal, Sent (sample_attempt 3) ()], Inr (sample_attempt 3, ''ok''))"
  by code_simp

text \<open>
  A candidate that locked the request in and then says that it cannot serve is passed over: the walk sends the
  request to the next one, after tools may have run.
\<close>

definition locked_walk :: "(unit, unit, string) walk_env" where
  "locked_walk = sample_walk\<lparr> we_run := (\<lambda>tr a k.
     if at_position a = 1 then (True, Inl (Cannot_Serve sample_refusal)) else (False, Inr ''ok'')) \<rparr>"

lemma locked_candidate_passed_over:
  "case walk_attempts locked_walk (\<lambda>_. None) (map sample_attempt [1, 2]) of (tr, ended) \<Rightarrow>
     map (\<lambda>s. (sent_to s, fst (outcome locked_walk s))) (sends tr) = [(1, True), (2, False)]
     \<and> ended = Inr (sample_attempt 2, ''ok'')"
  by code_simp

section \<open>Properties\<close>



text \<open>
  \<^bold>\<open>C14\<close>: a walk gives back what it admitted its candidates with. When one serves, only its own
  admission is left; when none does, none is left, unless the walk ended because the attempt had locked the request
  in, because of the cap of the tool loop, a tool backend that is not reachable, a cancellation, or a failure
  classed as not to be retried, and then only the admission of one candidate.
\<close>

theorem walk_gives_admissions_back:
  "case walk_attempts env wait attempts of
     (tr, Inr (a, t)) \<Rightarrow> unreturned tr = [] \<or> unreturned tr = [a]
   | (tr, Inl e) \<Rightarrow> unreturned tr = [] \<or> (\<exists>a. unreturned tr = [a] \<and> keeps_admission env tr e)"
proof (cases "attempts = []")
  case False
  obtain tr ended where walk: "walk_attempts env wait attempts = (tr, ended)" by force
  then show ?thesis
    using walk_from_admissions[of env wait "length attempts" attempts fresh_walk tr ended] False
    by (auto simp: walk_attempts_def fresh_walk_def split: sum.splits)
qed (simp add: walk_attempts_def)

text \<open>
  A request that is served leaves a record of every failure before it: when a provider fails
  only once it is sent the request, the failures recorded are those of the candidates sent the request, each once and
  in order.
\<close>

theorem served_walk_records_failures:
  assumes "fails_only_when_sent env" "walk_attempts env wait attempts = (tr, Inr (a, t))"
  shows "absorbed_of tr = failed_sends env tr"
proof -
  have "attempts \<noteq> []" using assms(2) by (auto simp: walk_attempts_def)
  then show ?thesis
    using walk_from_records[OF assms(1), of wait "length attempts" attempts fresh_walk tr a t] assms(2)
    by (simp add: walk_attempts_def fresh_walk_def failed_sends_def)
qed

theorem served_walk_records_failures_witness:
  "failed_sends sample_walk (fst (walk_attempts sample_walk (\<lambda>_. None) sample_plan)) = [(sample_attempt 1, sample_failure)]"
  using served_walk_records_failures[OF sample_fails_only_when_sent sample_run] sample_run
  by (simp add: absorbed_of_def)

text \<open>
  Without that hypothesis the record is not complete: a failure is kept in one variable until the next
  candidate is sent the request, and a next candidate that fails before it is sent overwrites it.
\<close>

definition unsent_failure_walk :: "(unit, unit, string) walk_env" where
  "unsent_failure_walk = sample_walk\<lparr> we_prepare := (\<lambda>tr i k. if length tr = 7 then Inl (Upstream sample_failure) else Inr k) \<rparr>"

lemma unsent_failure_hides_earlier:
  "case walk_attempts unsent_failure_walk (\<lambda>_. None) sample_plan of (tr, ended) \<Rightarrow>
     ended = Inr (sample_attempt 3, ''ok'') \<and> failed_sends unsent_failure_walk tr = [(sample_attempt 1, sample_failure)]
     \<and> absorbed_of tr = [(sample_attempt 2, sample_failure)]"
  by code_simp

end
