(* ===== verification/Spec2Isabelle.thy ===== *)
theory Spec2Isabelle
  imports Automatic_Laws Guard_Laws Guard_Validation Price_Rates_Laws Chat_Loop Messages_Stream_Laws Url_Laws Idempotency_Laws Reserve_Refinement Metered_Pricing
    Rate_Laws Redis_Window Weighted_Router Attempt_Laws
begin

text \<open>
  A verification development of Otari, an AI gateway: the program that stands between its callers and the
  providers of models, and decides for each request who may make it, what it may cost, where it is sent, what
  it may do there and what is billed. The code is the Python package \<open>src/src/gateway\<close>, to which paths below are
  relative; the guardrails of its companion, the command line agent, are in \<open>src/cli/src/otari_agent/domain\<close>.

  \<^bold>\<open>How a request goes through the parts.\<close> A route admits the request under an idempotency key (\<open>Idempotency\<close>),
  counts it against rate rules (\<open>Rate_Rules\<close> over a store), checks what the key may call (\<open>Model_Access\<close>),
  compiles the routing policy into an ordered list of candidates (\<open>Policy_Compiler\<close>, \<open>Weighted_Router\<close>), ranks the
  offerings of one model by price, health, load and the session's binding (\<open>Automatic_Router\<close>),
  reserves an estimate of the cost against ceilings and the user (\<open>Reservations\<close>), walks the candidates
  until one answers (\<open>Attempts\<close>, \<open>Upstream_Errors\<close>, \<open>Provider_Answers\<close>), runs the gateway's own tools in a loop with
  the model (\<open>Tool_Loop\<close>), fetching only addresses outside (\<open>Url_Safety\<close>), and settles the reservation at the
  price of what was used (\<open>Metered_Pricing\<close>, whose rates come from blocks that \<open>Price_Rates\<close> and \<open>Models_Dev\<close> read).
  Apart from that path, the agent checks what a coding session changed and ran against the guardrail policy of a
  repository (\<open>Guard_Policy\<close> read, \<open>Guard_Check\<close> decided).

  \<^bold>\<open>Theories and code.\<close>
  \<^item> \<open>Prelude\<close>: results of fallible code, tables as lists of rows, digits and strings.
  \<^item> \<open>Periods\<close>, \<open>Budget_Rows\<close>, \<open>Budget_Store\<close>, \<open>Db_Session\<close>, \<open>Refusals\<close>, \<open>Scoped_Enforcement\<close>, \<open>Ledger\<close>, \<open>Reservations\<close>:
    \<open>services/budgets/_periods.py\<close>, \<open>models/budgets.py\<close>, the repositories of budgets, \<open>_refusals.py\<close>,
    \<open>_scoped_enforcement.py\<close>, \<open>_ledger.py\<close>, \<open>_reservations.py\<close>. A transaction acts on a copy of the tables and
    commits, fails, or commits with its outcome lost. Laws: \<open>Hold_Laws\<close>, \<open>Enforcement_Laws\<close>, \<open>Ledger_Laws\<close>; \<open>Hold_Protocol\<close>
    is the abstract protocol of holds in flight as a step relation, \<open>Hold_Safety\<close> and \<open>Ledger_Life\<close> its invariant
    and life cycle, \<open>Reserve_Refinement\<close> the refinement of the detailed reservation into it.
  \<^item> \<open>Metered_Pricing\<close>, \<open>Price_Units\<close>: \<open>core/metered_pricing.py\<close>, \<open>core/usage.py\<close>, \<open>types/price_unit.py\<close>.
  \<^item> \<open>Models_Dev\<close>, \<open>Models_Dev_Laws\<close>, \<open>Price_Rates\<close>, \<open>Price_Rates_Laws\<close>: \<open>types/models_dev.py\<close> (price blocks) and
    \<open>types/price_rates.py\<close>. The reader is a state monad over its issues.
  \<^item> \<open>Rate_Window\<close>, \<open>Rate_Store\<close>, \<open>Redis_Window\<close>, \<open>Rate_Rules\<close>, \<open>Rate_Laws\<close>: \<open>rate_limit.py\<close> and the rate-limit store adapter.
    The locale \<open>rate_store\<close> is what the rules ask of a store, interpreted on the in-process store.
  \<^item> \<open>Model_Access\<close>, \<open>Routing_Policy\<close>, \<open>Policy_Compiler\<close>, \<open>Weighted_Router\<close>: \<open>services/model_access.py\<close>, \<open>models/routing.py\<close>,
    \<open>services/routing\<close>.
  \<^item> \<open>Automatic_Router\<close>, \<open>Automatic_Laws\<close>: \<open>services/routing/_automatic.py\<close>, \<open>core/settings/routing.py\<close>. The mutable health
    objects, observations and selections are lists named by index; \<open>router_step\<close> interleaves the requests.
  \<^item> \<open>Upstream_Errors\<close>, \<open>Provider_Answers\<close>, \<open>Attempts\<close>, \<open>Attempt_Laws\<close>: \<open>services/inference/_upstream_errors.py\<close>,
    \<open>services/upstream_redaction.py\<close>, \<open>api/routes/_attempts.py\<close> and the error mapping of \<open>api/routes/_pipeline.py\<close>.
  \<^item> \<open>Idempotency\<close>, \<open>Idempotency_Protocol\<close>, \<open>Idempotency_Laws\<close>: \<open>services/inference/_idempotency.py\<close>, \<open>_lease.py\<close> and its
    repository; concurrent processes are interleaved by a step relation over the table and the clock.
  \<^item> \<open>Net_Addresses\<close>, \<open>Url_Safety\<close>, \<open>Url_Laws\<close>: \<open>services/url_safety.py\<close>, with the \<open>ipaddress\<close> module on words.
  \<^item> \<open>Tool_Loop\<close>, \<open>Tool_Loop_Laws\<close>, \<open>Chat_Loop\<close>, \<open>Messages_Loop\<close>, \<open>Messages_Stream\<close>, \<open>Messages_Stream_Laws\<close>: \<open>services/_tool_loop.py\<close>, \<open>mcp_loop.py\<close>,
    \<open>mcp_loop_messages.py\<close>, \<open>tools/_use_budget.py\<close>, \<open>tools/_combined_backend.py\<close>. The locale \<open>tool_loop_format\<close> is what
    the engine asks of a wire format; both formats interpret it. The streaming engine is modelled with the
    hooks of the Messages format.
  \<^item> \<open>Guard_Globs\<close>, \<open>Guard_Words\<close>, \<open>Guard_Gates\<close>, \<open>Guard_Policy\<close>, \<open>Guard_Check\<close>, \<open>Guard_Validation\<close>: \<open>evaluators.py\<close>, \<open>types.py\<close>,
    \<open>policy.py\<close>, \<open>check.py\<close> and \<open>validation.py\<close> of the agent's domain: globs over paths, the splitting of shell commands into
    words (with \<open>shlex\<close>), gates and reports, the parser of policy documents and their composition, the check of
    evidence, and the warnings about patterns that match nothing. Laws: \<open>Guard_Words_Laws\<close>, \<open>Guard_Policy_Laws\<close>, \<open>Guard_Laws\<close>.

  \<^bold>\<open>What the laws show.\<close> In every interleaving of requests, sweeps and crashes, counters of ceilings cover the
  holds of active reservations, up to what handles without a row released beyond their holds: a handle whose row
  landed in a commit that reported failure is settled apart from that row, which the sweeper releases again. A
  reservation of several ceilings holds all or, refused, none; an error leaves at most the hold of the ceiling
  it happened on, unless giving back fails too. Reservations end once, are exact where nothing is clamped and
  nothing was released unbacked, and refine the protocol. Prices are quantized, tiers chosen and estimates bound
  settlements; blocks read cleanly and columns of rates that fit round-trip. A sliding window admits a call exactly
  when what it counts in the window leaves room, in process and in Redis alike, and a refused request counts
  nowhere. A key never reaches beyond its owner. A validated policy selects, the plan is sound
  and the walk sends candidates in its order, once each, giving admissions back; a provider failure after the lock
  ends it, while a candidate that says it cannot serve is passed over whatever the lock. A provider's error text
  does not reach the caller as it is. A key of idempotency has one live claim and replays its own response. Unless
  private hosts are allowed, a fetched URL resolves only to addresses in the ranges let through. The tool loop bills
  every round, keeps its caps, runs nothing before its first response is accepted, and hands the caller none of the
  gateway's calls; it does not run out of rounds when the provider calls declared tools only, the caller's tools
  have names of their own and no backend limits its calls. Streamed, it shows one well-formed message whose closing
  usage adds up the deltas of every round; what later rounds report on their \<open>message_start\<close> is not in it. The
  automatic router keeps the load of a credential equal to its tracked calls in flight, evicts idle credentials
  only, gives every load back when a selection closes, and ranks by tier without losing an offering. The glob
  matcher decides exactly what a glob means; a policy that parses or composes is well formed; missing evidence of a
  required path or command gate, a forbidden path and a forbidden command block; the answer of a model never
  decides; a composed policy blocks where one of its files does; evidence counts as a set.

  \<^bold>\<open>Parameters.\<close> Databases, clocks, random draws, providers, tools and resolvers are functions or scripts given to the
  definitions; so are the loader of YAML documents, the probe that looks for a script, and the keyed digests of
  credentials and sessions. What Python computes in floats is a rational where it is exact, and \<open>via_float\<close> in
  \<open>Price_Rates\<close> is the rounding of a stored tier rate.

  \<^bold>\<open>Bounds and fuel.\<close> Loops over data are structural. The idempotency guard tries \<open>changes_before_conflict\<close> times as the
  code does; the tool loop runs at most \<open>max_iterations\<close> rounds, the code's own bound, and
  \<open>chat_loop_always_answers\<close> says when that many are enough; walks of exception chains are measured by the
  links not yet seen.

  \<^bold>\<open>Not modelled.\<close> Streaming of the chat loop and the Responses format; the reports of calls in a provider's own
  words; the catalog around the price blocks; the SQL of tenancy, usage and traces; FastAPI routes, pydantic
  schemas and settings; the clients of search, fetch, sandbox and MCP services; cryptographic identity; the rest of
  the command line agent (editor hooks, imports of files, the collection of evidence), the companion services,
  migrations and scripts. They are glue over packages, queries or separate programs; the chat stream, the catalog
  and the tenancy invariants are the next to model.
\<close>

end
